(* ===== verification/Prelude.thy ===== *)
theory Prelude
  imports Complex_Main "HOL-Library.Word"
begin

text \<open>
  Shared vocabulary of the development: the machine integer types of the Rust code, byte and
  string helpers with the semantics of the Rust slice and \<open>str\<close> methods the code calls, and
  the generic lemmas about them. Text is modelled by its UTF-8 bytes. A \<open>string\<close> is used
  where the code compares with string literals, a list of \<open>u8\<close> where it does byte
  arithmetic; \<open>bytes\<close> is \<open>as_bytes\<close>.
\<close>

unbundle bit_operations_syntax

section \<open>Machine integers\<close>

type_synonym u8 = "8 word"
type_synonym u32 = "32 word"
type_synonym u64 = "64 word"
type_synonym u128 = "128 word"

named_theorems ascii_simps \<open>unfolding of the ASCII classification predicates\<close>
named_theorems slice_simps \<open>evaluation of slice accesses\<close>

text \<open>\<open>saturating_add\<close> and \<open>saturating_mul\<close> of the unsigned types.\<close>

definition sat_add :: "'a::len word \<Rightarrow> 'a word \<Rightarrow> 'a word" where
  "sat_add a b = (if unat a + unat b < 2 ^ LENGTH('a) then a + b else - 1)"

lemma unat_max_word: "unat (- 1 :: 'a::len word) = 2 ^ LENGTH('a) - 1"
  by (simp add: unsigned_minus_1_eq_mask mask_eq_exp_minus_1)

lemma unat_sat_add:
  "unat (sat_add a b) = min (unat a + unat b) (2 ^ LENGTH('a) - 1)" for a b :: "'a::len word"
proof (cases "unat a + unat b < 2 ^ LENGTH('a)")
  case True
  then have "unat (a + b) = unat a + unat b"
    by (simp add: unat_word_ariths)
  with True show ?thesis by (simp add: sat_add_def)
next
  case False
  then show ?thesis by (simp add: sat_add_def unat_max_word)
qed

lemma unat_bound: "unat (a :: 'a::len word) \<le> 2 ^ LENGTH('a) - 1"
  by (metis Suc_diff_1 less_Suc_eq_le unsigned_less zero_less_numeral zero_less_power)

text \<open>Where a \<open>u64\<close> value is an offset or a size, it is an integer in \<open>0 .. u64_max\<close> with the
  saturating operations written out.\<close>

definition u64_max :: int where "u64_max = 2 ^ 64 - 1"

definition sat_add64 :: "int \<Rightarrow> int \<Rightarrow> int" where "sat_add64 a b = min (a + b) u64_max"
definition sat_mul64 :: "int \<Rightarrow> int \<Rightarrow> int" where "sat_mul64 a b = min (a * b) u64_max"
definition sat_sub64 :: "int \<Rightarrow> int \<Rightarrow> int" where "sat_sub64 a b = max 0 (a - b)"

section \<open>Bytes and strings\<close>

text \<open>\<open>str::as_bytes\<close>.\<close>

definition bytes :: "string \<Rightarrow> u8 list" where
  "bytes s = map of_char s"

definition is_ascii :: "u8 \<Rightarrow> bool" where
  [ascii_simps]: "is_ascii b \<longleftrightarrow> b < 128"

definition is_ascii_digit :: "u8 \<Rightarrow> bool" where
  [ascii_simps]: "is_ascii_digit b \<longleftrightarrow> 48 \<le> b \<and> b \<le> 57"

definition is_ascii_uppercase :: "u8 \<Rightarrow> bool" where
  [ascii_simps]: "is_ascii_uppercase b \<longleftrightarrow> 65 \<le> b \<and> b \<le> 90"

text \<open>\<open>u8::is_ascii_whitespace\<close>: space, tab, line feed, form feed, carriage return; not the
  vertical tab.\<close>

definition is_ascii_whitespace :: "u8 \<Rightarrow> bool" where
  [ascii_simps]: "is_ascii_whitespace b \<longleftrightarrow> b \<in> {32, 9, 10, 12, 13}"

lemma digit_ascii: "is_ascii_digit b \<Longrightarrow> is_ascii b"
  unfolding ascii_simps by (simp add: word_le_nat_alt word_less_nat_alt)

lemma upper_ascii: "is_ascii_uppercase b \<Longrightarrow> is_ascii b"
  unfolding ascii_simps by (simp add: word_le_nat_alt word_less_nat_alt)

text \<open>Wrapping subtraction turns a range test into one comparison, the idiom of the vector
  kernels.\<close>

lemma wrapping_range:
  fixes b lo w :: "'a::len word"
  assumes "unat lo + unat w < 2 ^ LENGTH('a)"
  shows "b - lo \<le> w \<longleftrightarrow> lo \<le> b \<and> b \<le> lo + w"
proof (cases "lo \<le> b")
  case True
  then have "unat (b - lo) = unat b - unat lo" by (rule unat_sub)
  moreover have "unat (lo + w) = unat lo + unat w"
    using assms by (simp add: unat_word_ariths)
  ultimately show ?thesis using True by (auto simp: word_le_nat_alt)
next
  case False
  then have lt: "unat b < unat lo" by (simp add: word_le_nat_alt)
  have "unat (b - lo) = unat b + 2 ^ LENGTH('a) - unat lo"
    using False by (metis add.commute lt unat_sub_if' not_le diff_diff_eq2 less_or_eq_imp_le)
  with lt assms False show ?thesis by (auto simp: word_le_nat_alt)
qed

subsection \<open>Slice access\<close>

text \<open>\<open>slice::get\<close>: \<open>None\<close> out of range.\<close>

definition slice_get :: "'a list \<Rightarrow> nat \<Rightarrow> 'a option" where
  "slice_get xs i = (if i < length xs then Some (xs ! i) else None)"

lemma slice_get_Some_iff: "slice_get xs i = Some x \<longleftrightarrow> i < length xs \<and> xs ! i = x"
  by (auto simp: slice_get_def)

lemma slice_get_None_iff: "slice_get xs i = None \<longleftrightarrow> length xs \<le> i"
  by (auto simp: slice_get_def)

lemma slice_get_append [slice_simps]:
  "slice_get (xs @ ys) (length xs + i) = slice_get ys i"
  by (simp add: slice_get_def nth_append)

lemma slice_get_Nil [slice_simps, simp]: "slice_get [] i = None"
  by (simp add: slice_get_def)

lemma slice_get_Cons_0 [slice_simps, simp]: "slice_get (x # xs) 0 = Some x"
  by (simp add: slice_get_def)

lemma slice_get_Cons_Suc [slice_simps, simp]: "slice_get (x # xs) (Suc i) = slice_get xs i"
  by (simp add: slice_get_def)

lemma slice_get_Cons_numeral [slice_simps, simp]:
  "slice_get (x # xs) (numeral n) = slice_get xs (numeral n - 1)"
  by (simp add: slice_get_def nth_Cons')

lemma slice_get_drop: "slice_get (drop n xs) i = slice_get xs (n + i)"
  by (auto simp: slice_get_def)

text \<open>\<open>&xs[a..b]\<close> for bounds the code has checked.\<close>

definition slice :: "'a list \<Rightarrow> nat \<Rightarrow> nat \<Rightarrow> 'a list" where
  "slice xs a b = take (b - a) (drop a xs)"

lemma length_slice: "b \<le> length xs \<Longrightarrow> length (slice xs a b) = b - a"
  by (simp add: slice_def)

lemma nth_slice: "b \<le> length xs \<Longrightarrow> i < b - a \<Longrightarrow> slice xs a b ! i = xs ! (a + i)"
  by (simp add: slice_def)

lemma slice_empty [simp]: "slice xs a a = []"
  by (simp add: slice_def)

lemma slice_Cons: "a < b \<Longrightarrow> a < length xs \<Longrightarrow> slice xs a b = xs ! a # slice xs (Suc a) b"
  by (simp add: slice_def Cons_nth_drop_Suc [symmetric] take_Cons')

lemma slice_append: "a \<le> b \<Longrightarrow> b \<le> c \<Longrightarrow> slice xs a b @ slice xs b c = slice xs a c"
proof -
  assume ab: "a \<le> b" and bc: "b \<le> c"
  have "drop b xs = drop (b - a) (drop a xs)" using ab by simp
  then show ?thesis
    using take_add [of "b - a" "c - b" "drop a xs"] ab bc by (simp add: slice_def)
qed

text \<open>\<open>slice::get(a..b)\<close>.\<close>

definition slice_range :: "'a list \<Rightarrow> nat \<Rightarrow> nat \<Rightarrow> 'a list option" where
  "slice_range xs a b = (if a \<le> b \<and> b \<le> length xs then Some (slice xs a b) else None)"

text \<open>\<open>starts_with\<close>, \<open>strip_prefix\<close>, \<open>ends_with\<close>, \<open>strip_suffix\<close>.\<close>

fun strip_prefix :: "'a list \<Rightarrow> 'a list \<Rightarrow> 'a list option" where
  "strip_prefix [] ys = Some ys"
| "strip_prefix (x # xs) [] = None"
| "strip_prefix (x # xs) (y # ys) = (if x = y then strip_prefix xs ys else None)"

lemma strip_prefix_Some_iff: "strip_prefix p ys = Some r \<longleftrightarrow> ys = p @ r"
  by (induction p ys rule: strip_prefix.induct) auto

definition starts_with :: "'a list \<Rightarrow> 'a list \<Rightarrow> bool" where
  "starts_with ys p \<longleftrightarrow> strip_prefix p ys \<noteq> None"

lemma starts_with_iff: "starts_with ys p \<longleftrightarrow> (\<exists>r. ys = p @ r)"
  by (auto simp: starts_with_def strip_prefix_Some_iff)

lemma starts_with_take: "starts_with ys p \<longleftrightarrow> take (length p) ys = p"
  by (auto simp: starts_with_iff) (metis append_take_drop_id)

lemma starts_with_length: "starts_with ys p \<Longrightarrow> length p \<le> length ys"
  by (auto simp: starts_with_iff)

lemma upt_split: "i \<le> j \<Longrightarrow> j \<le> k \<Longrightarrow> [i..<k] = [i..<j] @ [j..<k]"
  by (metis le_add_diff_inverse upt_add_eq_append)

lemma map_plus_upt: "map ((+) n) [0..<k] = [n..<n + k]"
  by (rule nth_equalityI) auto

definition strip_suffix :: "'a list \<Rightarrow> 'a list \<Rightarrow> 'a list option" where
  "strip_suffix p ys = map_option rev (strip_prefix (rev p) (rev ys))"

lemma strip_suffix_Some_iff: "strip_suffix p ys = Some r \<longleftrightarrow> ys = r @ p"
  by (auto simp: strip_suffix_def strip_prefix_Some_iff)
    (metis rev_append rev_rev_ident)

definition ends_with :: "'a list \<Rightarrow> 'a list \<Rightarrow> bool" where
  "ends_with ys p \<longleftrightarrow> strip_suffix p ys \<noteq> None"

text \<open>\<open>str::find\<close> for a substring, and \<open>str::contains\<close>.\<close>

fun find_sub :: "'a list \<Rightarrow> 'a list \<Rightarrow> nat option" where
  "find_sub p [] = (if p = [] then Some 0 else None)"
| "find_sub p (y # ys) =
     (if starts_with (y # ys) p then Some 0 else map_option Suc (find_sub p ys))"

definition contains_sub :: "'a list \<Rightarrow> 'a list \<Rightarrow> bool" where
  "contains_sub ys p \<longleftrightarrow> find_sub p ys \<noteq> None"

lemma find_sub_Some:
  "find_sub p ys = Some i \<longleftrightarrow>
     i \<le> length ys \<and> starts_with (drop i ys) p \<and> (\<forall>j < i. \<not> starts_with (drop j ys) p)"
proof (induction ys arbitrary: i)
  case Nil
  then show ?case by (auto simp: starts_with_iff)
next
  case (Cons y ys)
  show ?case
  proof (cases i)
    case 0
    then show ?thesis by auto
  next
    case (Suc k)
    have "(\<forall>j < Suc k. \<not> starts_with (drop j (y # ys)) p) \<longleftrightarrow>
       \<not> starts_with (y # ys) p \<and> (\<forall>j < k. \<not> starts_with (drop j ys) p)"
      by (auto simp: All_less_Suc2)
    with Cons.IH [of k] Suc show ?thesis by auto
  qed
qed

lemma find_sub_None: "find_sub p ys = None \<longleftrightarrow> (\<forall>i \<le> length ys. \<not> starts_with (drop i ys) p)"
proof (induction ys)
  case Nil
  then show ?case by (auto simp: starts_with_iff)
next
  case (Cons y ys)
  have "(\<forall>i \<le> Suc (length ys). \<not> starts_with (drop i (y # ys)) p) \<longleftrightarrow>
     \<not> starts_with (y # ys) p \<and> (\<forall>i \<le> length ys. \<not> starts_with (drop i ys) p)"
    by (auto simp: less_Suc_eq_le [symmetric] All_less_Suc2)
  with Cons.IH show ?case by auto
qed

lemma contains_sub_iff: "contains_sub ys p \<longleftrightarrow> (\<exists>a b. ys = a @ p @ b)"
proof
  assume "contains_sub ys p"
  then obtain i where "starts_with (drop i ys) p"
    by (auto simp: contains_sub_def find_sub_Some)
  then show "\<exists>a b. ys = a @ p @ b"
    by (metis append_take_drop_id starts_with_iff)
next
  assume "\<exists>a b. ys = a @ p @ b"
  then obtain a b where "ys = a @ p @ b" by blast
  then have "starts_with (drop (length a) ys) p" "length a \<le> length ys"
    by (auto simp: starts_with_iff)
  then show "contains_sub ys p"
    by (auto simp: contains_sub_def find_sub_None)
qed

section \<open>Scanning loops\<close>

text \<open>The loop \<open>while i < n && P(i) { i += 1 }\<close>.\<close>

function scan_while :: "(nat \<Rightarrow> bool) \<Rightarrow> nat \<Rightarrow> nat \<Rightarrow> nat" where
  "scan_while P n i = (if i < n \<and> P i then scan_while P n (i + 1) else i)"
  by pat_completeness auto
termination by (relation "measure (\<lambda>(P, n, i). n - i)") auto

declare scan_while.simps [simp del]

lemma scan_while_ge: "i \<le> scan_while P n i"
proof (induction P n i rule: scan_while.induct)
  case (1 P n i)
  then show ?case by (subst scan_while.simps) auto
qed

lemma scan_while_le: "i \<le> n \<Longrightarrow> scan_while P n i \<le> n"
proof (induction P n i rule: scan_while.induct)
  case (1 P n i)
  then show ?case by (subst scan_while.simps) simp
qed

lemma scan_while_all: "i \<le> k \<Longrightarrow> k < scan_while P n i \<Longrightarrow> P k"
proof (induction P n i rule: scan_while.induct)
  case (1 P n i)
  then show ?case
    by (cases "k = i") (auto simp: scan_while.simps [of P n i] split: if_splits)
qed

lemma scan_while_stop: "scan_while P n i < n \<Longrightarrow> \<not> P (scan_while P n i)"
proof (induction P n i rule: scan_while.induct)
  case (1 P n i)
  then show ?case
    by (simp add: scan_while.simps [of P n i] split: if_splits)
qed

lemma scan_while_eqI:
  "i \<le> j \<Longrightarrow> j \<le> n \<Longrightarrow> (\<And>k. i \<le> k \<Longrightarrow> k < j \<Longrightarrow> P k) \<Longrightarrow> (j < n \<Longrightarrow> \<not> P j)
    \<Longrightarrow> scan_while P n i = j"
  by (rule linorder_cases [of j "scan_while P n i"])
    (use scan_while_all [of i j P n] scan_while_stop [of P n i] scan_while_ge [of i P n]
      scan_while_le [of i n P] in auto)

text \<open>Scanning a list for a run of elements is \<open>takeWhile\<close>.\<close>

lemma scan_while_takeWhile:
  assumes "i \<le> length xs"
  shows "scan_while (\<lambda>k. P (xs ! k)) (length xs) i = i + length (takeWhile P (drop i xs))"
proof (rule scan_while_eqI)
  let ?t = "takeWhile P (drop i xs)"
  have le: "length ?t \<le> length xs - i" using length_takeWhile_le [of P "drop i xs"] by simp
  then show "i + length ?t \<le> length xs" using assms by simp
  show "P (xs ! k)" if "i \<le> k" "k < i + length ?t" for k
  proof -
    have "?t ! (k - i) \<in> set ?t" using that by simp
    then have "P (?t ! (k - i))" by (blast dest: set_takeWhileD)
    moreover have "?t ! (k - i) = xs ! k"
      using that assms by (simp add: takeWhile_nth)
    ultimately show ?thesis by simp
  qed
  show "\<not> P (xs ! (i + length ?t))" if "i + length ?t < length xs"
    using nth_length_takeWhile [of P "drop i xs"] that assms by simp
qed simp

text \<open>Scanning with a look-ahead: the test sees the rest of the list.\<close>

fun scan_len :: "('a list \<Rightarrow> bool) \<Rightarrow> 'a list \<Rightarrow> nat" where
  "scan_len Q [] = 0"
| "scan_len Q (x # xs) = (if Q (x # xs) then Suc (scan_len Q xs) else 0)"

lemma scan_while_scan_len:
  assumes "i \<le> length xs" and "\<And>k. k < length xs \<Longrightarrow> P k = Q (drop k xs)"
  shows "scan_while P (length xs) i = i + scan_len Q (drop i xs)"
  using assms(1)
proof (induction "length xs - i" arbitrary: i)
  case 0
  then show ?case by (simp add: scan_while.simps [of P])
next
  case (Suc n)
  then have "i < length xs" by simp
  then have "drop i xs = xs ! i # drop (Suc i) xs" by (rule Cons_nth_drop_Suc [symmetric])
  moreover have "scan_while P (length xs) (Suc i) = Suc i + scan_len Q (drop (Suc i) xs)"
    using Suc by simp
  ultimately show ?case
    using \<open>i < length xs\<close> assms(2) [of i] by (simp add: scan_while.simps [of P "length xs" i])
qed

end
