(* ===== verification/Simd_Scan.thy ===== *)
theory Simd_Scan
  imports Prelude
begin

text \<open>
  The byte scanners of \<open>crates/core/src/simd_scan.rs\<close>. The vector kernels are written against
  the third-party crate \<open>fearless_simd\<close>, so they take its operations as a record \<open>Simd\<close>;
  the locale \<open>simd_lanes\<close> states the documented lane-wise behaviour of those operations, and
  the lemmas inside it show that every kernel computes what its scalar twin computes.
\<close>

unbundle bit_operations_syntax

section \<open>Verdicts and the vector interface\<close>

datatype verdict = VMatch nat | NoMatch | Unsure

definition BLOCK :: nat where "BLOCK = 16"

record ('v, 'm) Simd =
  splat :: "u8 \<Rightarrow> 'v"
  from_slice :: "u8 list \<Rightarrow> 'v"
  mask_from_slice :: "u8 list \<Rightarrow> 'm"
  vsub :: "'v \<Rightarrow> 'v \<Rightarrow> 'v"
  vor :: "'v \<Rightarrow> 'v \<Rightarrow> 'v"
  simd_le :: "'v \<Rightarrow> 'v \<Rightarrow> 'm"
  simd_ge :: "'v \<Rightarrow> 'v \<Rightarrow> 'm"
  simd_eq :: "'v \<Rightarrow> 'v \<Rightarrow> 'm"
  mask_and :: "'m \<Rightarrow> 'm \<Rightarrow> 'm"
  mask_or :: "'m \<Rightarrow> 'm \<Rightarrow> 'm"
  mask_select :: "'m \<Rightarrow> 'm \<Rightarrow> 'm \<Rightarrow> 'm"
  vec_select :: "'m \<Rightarrow> 'v \<Rightarrow> 'v \<Rightarrow> 'v"
  any_true :: "'m \<Rightarrow> bool"
  all_true :: "'m \<Rightarrow> bool"
  to_bitmask :: "'m \<Rightarrow> u64"
  reduce_min :: "'v \<Rightarrow> u8"

section \<open>Timestamp prefix\<close>

definition TS_SHAPE :: "u8 list" where "TS_SHAPE = bytes ''dddd-dd-dd dd:dd:dd''"

definition TS_CORE_LEN :: nat where "TS_CORE_LEN = length TS_SHAPE"

record TsWindow =
  digit_lanes :: "u8 list"
  literals :: "u8 list"

definition ts_window :: "nat \<Rightarrow> TsWindow" where
  "ts_window start =
     \<lparr>digit_lanes = map (\<lambda>lane. if TS_SHAPE ! (start + lane) = of_char CHR ''d'' then - 1 else 0)
                       [0..<BLOCK],
      literals = map (\<lambda>lane. if TS_SHAPE ! (start + lane) = of_char CHR ''d'' then 0
                            else TS_SHAPE ! (start + lane)) [0..<BLOCK]\<rparr>"

definition TS_HEAD :: TsWindow where "TS_HEAD = ts_window 0"
definition TS_TAIL :: TsWindow where "TS_TAIL = ts_window (TS_CORE_LEN - BLOCK)"

definition ts_window_matches :: "('v, 'm) Simd \<Rightarrow> 'v \<Rightarrow> TsWindow \<Rightarrow> 'm" where
  "ts_window_matches S block window =
     (let is_digit = simd_le S (vsub S block (splat S (of_char CHR ''0''))) (splat S 9);
          is_literal = simd_eq S block (from_slice S (literals window))
      in mask_select S (mask_from_slice S (digit_lanes window)) is_digit is_literal)"

definition ts_core_kernel :: "('v, 'm) Simd \<Rightarrow> u8 list \<Rightarrow> verdict" where
  "ts_core_kernel S core =
     (let head = from_slice S (slice core 0 BLOCK);
          tail = from_slice S (drop (TS_CORE_LEN - BLOCK) core)
      in if any_true S (simd_ge S (vor S head tail) (splat S 0x80)) then Unsure
         else if all_true S (mask_and S (ts_window_matches S head TS_HEAD)
                                        (ts_window_matches S tail TS_TAIL))
         then VMatch TS_CORE_LEN
         else NoMatch)"

text \<open>\<open>first_chunk::<19>\<close> is the first 19 bytes when the line has that many.\<close>

definition timestamp_core_simd :: "('v, 'm) Simd \<Rightarrow> u8 list \<Rightarrow> verdict" where
  "timestamp_core_simd S line =
     (case slice_range line 0 TS_CORE_LEN of
        Some core \<Rightarrow> ts_core_kernel S core
      | None \<Rightarrow> NoMatch)"

definition TS_DIGITS :: "nat list" where
  "TS_DIGITS = [0, 1, 2, 3, 5, 6, 8, 9, 11, 12, 14, 15, 17, 18]"

definition timestamp_core_scalar :: "u8 list \<Rightarrow> verdict" where
  "timestamp_core_scalar line =
     (if length line < TS_CORE_LEN then NoMatch
      else if list_ex (\<lambda>b. \<not> is_ascii b) (take TS_CORE_LEN line) then Unsure
      else if list_ex (\<lambda>i. \<not> is_ascii_digit (line ! i)) TS_DIGITS then NoMatch
      else if line ! 4 \<noteq> of_char CHR ''-'' \<or> line ! 7 \<noteq> of_char CHR ''-''
              \<or> line ! 10 \<noteq> of_char CHR '' '' then NoMatch
      else if line ! 13 \<noteq> of_char CHR '':'' \<or> line ! 16 \<noteq> of_char CHR '':'' then NoMatch
      else VMatch TS_CORE_LEN)"

text \<open>The digit loop after the dot: \<open>None\<close> is the early \<open>return Verdict::Unsure\<close>.\<close>

function frac_loop :: "u8 list \<Rightarrow> nat \<Rightarrow> nat \<Rightarrow> nat option" where
  "frac_loop line pos n =
     (if n < 6 then
        (case slice_get line (pos + 1 + n) of
           Some b \<Rightarrow> if is_ascii_digit b then frac_loop line pos (n + 1)
                     else if \<not> is_ascii b then None
                     else Some n
         | None \<Rightarrow> Some n)
      else Some n)"
  by pat_completeness auto
termination by (relation "measure (\<lambda>(line, pos, n). 6 - n)") auto

function upper_loop :: "u8 list \<Rightarrow> nat \<Rightarrow> nat \<Rightarrow> nat" where
  "upper_loop line pos n =
     (if n < 5 then
        (case slice_get line (pos + 1 + n) of
           Some b \<Rightarrow> if is_ascii_uppercase b then upper_loop line pos (n + 1) else n
         | None \<Rightarrow> n)
      else n)"
  by pat_completeness auto
termination by (relation "measure (\<lambda>(line, pos, n). 5 - n)") auto

declare frac_loop.simps [simp del] upper_loop.simps [simp del]

definition zone_tail :: "u8 list \<Rightarrow> nat \<Rightarrow> verdict" where
  "zone_tail line pos =
     (if slice_get line pos = Some (of_char CHR '' '') then
        (case slice_get line (pos + 1) of
           Some c \<Rightarrow>
             if is_ascii_uppercase c then
               (let n = upper_loop line pos 0
                in if 2 \<le> n then VMatch (pos + (1 + n)) else VMatch pos)
             else if c = of_char CHR ''+'' \<or> c = of_char CHR ''-'' then
               (case (slice_get line (pos + 2), slice_get line (pos + 3)) of
                  (Some a, Some b) \<Rightarrow>
                    if \<not> is_ascii a \<or> \<not> is_ascii b then Unsure
                    else if is_ascii_digit a \<and> is_ascii_digit b then
                      (let stop = pos + 4;
                           p = (if slice_get line stop = Some (of_char CHR '':'') then stop + 1
                                else stop)
                       in case (slice_get line p, slice_get line (p + 1)) of
                            (Some x, Some y) \<Rightarrow>
                              if \<not> is_ascii x \<or> \<not> is_ascii y then Unsure
                              else if is_ascii_digit x \<and> is_ascii_digit y then VMatch (p + 2)
                              else VMatch stop
                          | _ \<Rightarrow> VMatch stop)
                    else VMatch pos
                | _ \<Rightarrow> VMatch pos)
             else VMatch pos
         | None \<Rightarrow> VMatch pos)
      else VMatch pos)"

definition timestamp_tail :: "u8 list \<Rightarrow> verdict" where
  "timestamp_tail line =
     (let pos = TS_CORE_LEN
      in if slice_get line pos = Some (of_char CHR ''.'') then
           (case frac_loop line pos 0 of
              None \<Rightarrow> Unsure
            | Some n \<Rightarrow> zone_tail line (if 1 \<le> n then pos + (1 + n) else pos))
         else zone_tail line pos)"

definition timestamp_prefix_len_simd :: "('v, 'm) Simd \<Rightarrow> u8 list \<Rightarrow> verdict" where
  "timestamp_prefix_len_simd S line =
     (case timestamp_core_simd S line of
        VMatch _ \<Rightarrow> timestamp_tail line
      | other \<Rightarrow> other)"

definition timestamp_prefix_len_scalar :: "u8 list \<Rightarrow> verdict" where
  "timestamp_prefix_len_scalar line =
     (case timestamp_core_scalar line of
        VMatch _ \<Rightarrow> timestamp_tail line
      | other \<Rightarrow> other)"

section \<open>Leading whitespace\<close>

definition is_ascii_ws :: "u8 \<Rightarrow> bool" where
  "is_ascii_ws b \<longleftrightarrow> b = of_char CHR '' '' \<or> b - 0x09 \<le> 0x0D - 0x09"

definition LANE_INDEX :: "u8 list" where
  "LANE_INDEX = map of_nat [0..<BLOCK]"

text \<open>\<open>trailing_zeros\<close>: the number of low zero bits, the width for zero.\<close>

definition trailing_zeros :: "'a::len word \<Rightarrow> nat" where
  "trailing_zeros w = length (takeWhile (\<lambda>i. \<not> bit w i) [0..<LENGTH('a)])"

text \<open>The flag is \<open>cfg!(target_arch = "aarch64")\<close>.\<close>

definition first_false_lane :: "bool \<Rightarrow> ('v, 'm) Simd \<Rightarrow> 'm \<Rightarrow> nat option" where
  "first_false_lane aarch64 S lane_mask =
     (if aarch64 then
        (let lane = unat (reduce_min S (vec_select S lane_mask (splat S (of_nat BLOCK))
                                                         (from_slice S LANE_INDEX)))
         in if lane < BLOCK then Some lane else None)
      else
        (let false_lanes = NOT (to_bitmask S lane_mask) AND (push_bit BLOCK 1 - 1)
         in if false_lanes \<noteq> 0 then Some (trailing_zeros false_lanes) else None))"

fun leading_ws_from :: "u8 list \<Rightarrow> nat \<Rightarrow> verdict" where
  "leading_ws_from [] i = VMatch i"
| "leading_ws_from (b # bs) i =
     (if is_ascii_ws b then leading_ws_from bs (i + 1)
      else if is_ascii b then VMatch i
      else Unsure)"

definition leading_whitespace_scalar :: "u8 list \<Rightarrow> verdict" where
  "leading_whitespace_scalar line = leading_ws_from line 0"

function leading_ws_kernel :: "bool \<Rightarrow> ('v, 'm) Simd \<Rightarrow> u8 list \<Rightarrow> nat \<Rightarrow> verdict" where
  "leading_ws_kernel aarch64 S line offset =
     (case slice_range line offset (offset + BLOCK) of
        Some chunk \<Rightarrow>
          (let block = from_slice S chunk;
               is_ws = mask_or S (simd_eq S block (splat S (of_char CHR '' '')))
                         (simd_le S (vsub S block (splat S 0x09)) (splat S (0x0D - 0x09)))
           in case first_false_lane aarch64 S is_ws of
                Some lane \<Rightarrow>
                  (let stop = offset + lane
                   in if is_ascii (line ! stop) then VMatch stop else Unsure)
              | None \<Rightarrow>
                  (let next = offset + BLOCK
                   in leading_ws_kernel aarch64 S line
                        (if next < length line \<and> next + BLOCK > length line
                         then length line - BLOCK else next)))
      | None \<Rightarrow>
          (case leading_whitespace_scalar (drop offset line) of
             VMatch n \<Rightarrow> VMatch (offset + n)
           | other \<Rightarrow> other))"
  by pat_completeness auto
termination
  by (relation "measure (\<lambda>(aarch64, S, line, offset). length line - offset)")
    (auto simp: slice_range_def BLOCK_def split: if_splits)

declare leading_ws_kernel.simps [simp del]

definition leading_whitespace_simd :: "bool \<Rightarrow> ('v, 'm) Simd \<Rightarrow> u8 list \<Rightarrow> verdict" where
  "leading_whitespace_simd aarch64 S line = leading_ws_kernel aarch64 S line 0"

section \<open>Literal search\<close>

function find_scalar_from :: "u8 list \<Rightarrow> u8 list \<Rightarrow> nat \<Rightarrow> nat option" where
  "find_scalar_from haystack needle i =
     (if i \<le> length haystack - length needle then
        if haystack ! i = needle ! 0
           \<and> haystack ! (i + length needle - 1) = needle ! (length needle - 1)
           \<and> slice haystack i (i + length needle) = needle
        then Some i
        else find_scalar_from haystack needle (i + 1)
      else None)"
  by pat_completeness auto
termination
  by (relation "measure (\<lambda>(haystack, needle, i). Suc (length haystack - length needle) - i)") auto

declare find_scalar_from.simps [simp del]

definition find_literal_scalar :: "u8 list \<Rightarrow> u8 list \<Rightarrow> nat option" where
  "find_literal_scalar haystack needle =
     (if needle = [] \<or> length haystack < length needle then None
      else find_scalar_from haystack needle 0)"

text \<open>The inner loop over the candidate lanes of one block.\<close>

function scan_lanes :: "u8 list \<Rightarrow> u8 list \<Rightarrow> nat \<Rightarrow> u64 \<Rightarrow> nat option" where
  "scan_lanes haystack needle offset lanes =
     (if lanes \<noteq> 0 then
        (let start = offset + trailing_zeros lanes
         in if slice haystack start (start + length needle) = needle then Some start
            else scan_lanes haystack needle offset (lanes AND (lanes - 1)))
      else None)"
  by pat_completeness auto
termination
proof (relation "measure (\<lambda>(haystack, needle, offset, lanes). unat lanes)", goal_cases)
  case 1
  show ?case by simp
next
  case (2 haystack needle offset lanes x)
  then have "lanes AND (lanes - 1) \<le> lanes - 1" and "lanes - 1 < lanes"
    by (auto simp: word_and_le1 word_less_nat_alt unat_minus_one unat_gt_0)
  then show ?case by (auto simp: word_less_nat_alt word_le_nat_alt)
qed

declare scan_lanes.simps [simp del]

function find_literal_kernel :: "('v, 'm) Simd \<Rightarrow> u8 list \<Rightarrow> u8 list \<Rightarrow> nat \<Rightarrow> nat option" where
  "find_literal_kernel S haystack needle offset =
     (let candidate_starts = length haystack - length needle + 1
      in if offset + BLOCK \<le> candidate_starts then
           (let first_byte = splat S (needle ! 0);
                last_byte = splat S (needle ! (length needle - 1));
                last_offset = offset + length needle - 1;
                block_first = from_slice S (slice haystack offset (offset + BLOCK));
                block_last = from_slice S (slice haystack last_offset (last_offset + BLOCK));
                candidates = mask_and S (simd_eq S block_first first_byte) (simd_eq S block_last last_byte)
            in case (if any_true S candidates
                     then scan_lanes haystack needle offset (to_bitmask S candidates)
                     else None) of
                 Some start \<Rightarrow> Some start
               | None \<Rightarrow> find_literal_kernel S haystack needle (offset + BLOCK))
         else map_option (\<lambda>found. offset + found)
                (find_literal_scalar (drop offset haystack) needle))"
  by pat_completeness auto
termination
  by (relation "measure (\<lambda>(S, haystack, needle, offset). Suc (length haystack) - offset)")
    (auto simp: BLOCK_def)

declare find_literal_kernel.simps [simp del]

definition find_literal_simd :: "('v, 'm) Simd \<Rightarrow> u8 list \<Rightarrow> u8 list \<Rightarrow> nat option" where
  "find_literal_simd S haystack needle =
     (if needle = [] \<or> length haystack < length needle then None
      else find_literal_kernel S haystack needle 0)"

section \<open>Bit tricks of the candidate loop\<close>

lemma trailing_zeros_spec:
  fixes w :: "'a::len word"
  assumes "w \<noteq> 0"
  shows "bit w (trailing_zeros w)" and "trailing_zeros w < LENGTH('a)"
    and "j < trailing_zeros w \<Longrightarrow> \<not> bit w j"
proof -
  let ?P = "\<lambda>i. \<not> bit w i" and ?n = "LENGTH('a)"
  obtain i where "i < ?n" "bit w i"
    using assms by (metis bit_eqI bit_0_eq bot_apply bot_bool_def impossible_bit bit_imp_possible_bit
        possible_bit_word)
  then have "\<exists>x\<in>set [0..<?n]. \<not> ?P x" by auto
  then have less: "length (takeWhile ?P [0..<?n]) < length [0..<?n]"
    by (metis length_takeWhile_le nat_less_le takeWhile_eq_all_conv takeWhile_eq_take take_all_iff)
  then show len: "trailing_zeros w < ?n"
    by (simp add: trailing_zeros_def)
  show "bit w (trailing_zeros w)"
    using nth_length_takeWhile [OF less] len by (simp add: trailing_zeros_def)
  show "\<not> bit w j" if "j < trailing_zeros w"
  proof -
    have "takeWhile ?P [0..<?n] ! j = j"
      using that len by (simp add: trailing_zeros_def takeWhile_nth)
    moreover have "takeWhile ?P [0..<?n] ! j \<in> set (takeWhile ?P [0..<?n])"
      using that by (simp add: trailing_zeros_def)
    ultimately show ?thesis by (metis set_takeWhileD)
  qed
qed

text \<open>\<open>lanes & (lanes - 1)\<close> clears exactly the lowest set bit.\<close>

lemma clear_lowest_bit:
  fixes w :: "'a::len word"
  assumes "w \<noteq> 0"
  shows "bit (w AND (w - 1)) i \<longleftrightarrow> bit w i \<and> i \<noteq> trailing_zeros w"
proof -
  define k where "k = trailing_zeros w"
  define u where "u = unset_bit k w"
  note k = trailing_zeros_spec [OF assms, folded k_def]
  have "u AND push_bit k 1 = 0"
    by (rule bit_eqI) (auto simp: u_def bit_simps)
  then have "u + push_bit k 1 = u OR push_bit k 1"
    by (simp add: disjunctive_add_eq_or)
  also have "\<dots> = w"
    using k(1,2) by (intro bit_eqI) (auto simp: u_def bit_simps)
  finally have w: "w = u + 2 ^ k" by (simp add: push_bit_eq_mult)
  have "u AND mask k = 0"
    using k(3) by (intro bit_eqI) (auto simp: u_def bit_simps)
  then have "u + mask k = u OR mask k"
    by (simp add: disjunctive_add_eq_or)
  moreover have "w - 1 = u + mask k"
    by (simp add: w mask_eq_exp_minus_1)
  ultimately show ?thesis
    using k by (auto simp: bit_simps u_def k_def [symmetric] dest: bit_imp_le_length)
qed

section \<open>The lane-wise contract of the vector operations\<close>

text \<open>
  The laws are the documented semantics of the crate: every operation acts on each of the
  sixteen lanes on its own, masks are canonical (all ones or all zeros), \<open>to_bitmask\<close> puts
  lane \<open>i\<close> in bit \<open>i\<close>.
\<close>

locale simd_lanes =
  fixes S :: "('v, 'm) Simd"
    and lane :: "'v \<Rightarrow> nat \<Rightarrow> u8"
    and lit :: "'m \<Rightarrow> nat \<Rightarrow> bool"
  assumes lane_splat: "i < BLOCK \<Longrightarrow> lane (splat S b) i = b"
    and lane_from_slice: "length xs = BLOCK \<Longrightarrow> i < BLOCK \<Longrightarrow> lane (from_slice S xs) i = xs ! i"
    and lit_mask_from_slice: "length xs = BLOCK \<Longrightarrow> set xs \<subseteq> {0, - 1} \<Longrightarrow> i < BLOCK \<Longrightarrow>
           lit (mask_from_slice S xs) i \<longleftrightarrow> xs ! i = - 1"
    and lane_vsub: "i < BLOCK \<Longrightarrow> lane (vsub S v w) i = lane v i - lane w i"
    and lane_vor: "i < BLOCK \<Longrightarrow> lane (vor S v w) i = (lane v i OR lane w i)"
    and lit_le: "i < BLOCK \<Longrightarrow> lit (simd_le S v w) i \<longleftrightarrow> lane v i \<le> lane w i"
    and lit_ge: "i < BLOCK \<Longrightarrow> lit (simd_ge S v w) i \<longleftrightarrow> lane w i \<le> lane v i"
    and lit_eq: "i < BLOCK \<Longrightarrow> lit (simd_eq S v w) i \<longleftrightarrow> lane v i = lane w i"
    and lit_and: "i < BLOCK \<Longrightarrow> lit (mask_and S m n) i \<longleftrightarrow> lit m i \<and> lit n i"
    and lit_or: "i < BLOCK \<Longrightarrow> lit (mask_or S m n) i \<longleftrightarrow> lit m i \<or> lit n i"
    and lit_select: "i < BLOCK \<Longrightarrow>
           lit (mask_select S m n p) i \<longleftrightarrow> (if lit m i then lit n i else lit p i)"
    and lane_select: "i < BLOCK \<Longrightarrow>
           lane (vec_select S m v w) i = (if lit m i then lane v i else lane w i)"
    and any_true_iff: "any_true S m \<longleftrightarrow> (\<exists>i < BLOCK. lit m i)"
    and all_true_iff: "all_true S m \<longleftrightarrow> (\<forall>i < BLOCK. lit m i)"
    and bit_to_bitmask: "bit (to_bitmask S m) i \<longleftrightarrow> i < BLOCK \<and> lit m i"
    and reduce_min_eq: "reduce_min S v = Min (lane v ` {..<BLOCK})"
begin

lemmas lane_simps = lane_splat lane_from_slice lane_vsub lane_vor lit_le lit_ge lit_eq
  lit_and lit_or lit_select lane_select

end

section \<open>The vector kernels agree with their scalar twins\<close>

subsection \<open>Timestamp core\<close>

text \<open>What \<open>TS_SHAPE\<close> asks of one byte.\<close>

definition shape_byte :: "u8 \<Rightarrow> u8 \<Rightarrow> bool" where
  "shape_byte sb b = (if sb = of_char CHR ''d'' then is_ascii_digit b else b = sb)"

definition ts_core :: "u8 list \<Rightarrow> bool" where
  "ts_core xs \<longleftrightarrow> length xs = TS_CORE_LEN \<and> (\<forall>i < TS_CORE_LEN. shape_byte (TS_SHAPE ! i) (xs ! i))"

lemma TS_SHAPE_eq: "TS_SHAPE =
    [100, 100, 100, 100, 45, 100, 100, 45, 100, 100, 32, 100, 100, 58, 100, 100, 58, 100, 100]"
  by (simp add: TS_SHAPE_def bytes_def)

lemma TS_CORE_LEN_eq [simp]: "TS_CORE_LEN = 19"
  by (simp add: TS_CORE_LEN_def TS_SHAPE_eq)

lemma all_less_19: "(\<forall>i < (19::nat). P i) \<longleftrightarrow>
    P 0 \<and> P 1 \<and> P 2 \<and> P 3 \<and> P 4 \<and> P 5 \<and> P 6 \<and> P 7 \<and> P 8 \<and> P 9 \<and> P 10 \<and> P 11 \<and> P 12
    \<and> P 13 \<and> P 14 \<and> P 15 \<and> P 16 \<and> P 17 \<and> P 18"
proof -
  have "(\<forall>i < 19. P i) \<longleftrightarrow> (\<forall>i \<in> set [0..<19]. P i)" by auto
  also have "[0..<19] = [0, 1, 2, 3, 4, 5, 6, 7, 8, 9, 10, 11, 12, 13, 14, 15, 16, 17, 18 :: nat]"
    by (simp add: upt_conv_Cons)
  finally show ?thesis by simp
qed

lemma digit_by_wrapping: "b - of_char CHR ''0'' \<le> (9::u8) \<longleftrightarrow> is_ascii_digit b"
  using wrapping_range [of "48::u8" 9 b] by (simp add: is_ascii_digit_def)

lemma odd_div_128: "n < 256 \<Longrightarrow> odd (n div 128) \<longleftrightarrow> 128 \<le> n" for n :: nat
proof (cases "n < 128")
  case False
  assume "n < 256"
  with False have "n div 128 = 1" by (intro div_nat_eqI) auto
  with False show ?thesis by simp
qed simp

lemma high_bit_u8: "128 \<le> (b::u8) \<longleftrightarrow> bit b 7"
proof -
  have "bit b 7 \<longleftrightarrow> odd (unat b div 128)"
    using bit_unsigned_iff [of b 7, where ?'a = nat] by (simp add: bit_iff_odd [of "unat b"])
  also have "\<dots> \<longleftrightarrow> 128 \<le> unat b"
    by (rule odd_div_128) (use unsigned_less [of b, where ?'a = nat] in simp)
  also have "\<dots> \<longleftrightarrow> 128 \<le> b" by (simp add: word_le_nat_alt)
  finally show ?thesis ..
qed

lemma high_bit_or: "128 \<le> (a OR b :: u8) \<longleftrightarrow> \<not> is_ascii a \<or> \<not> is_ascii b"
  by (simp add: is_ascii_def not_less high_bit_u8 bit_or_iff)

lemma ex_less_19_split: "(\<exists>i < (16::nat). P i \<or> P (i + 3)) \<longleftrightarrow> (\<exists>i < 19. P i)"
proof
  assume "\<exists>i < 19. P i"
  then obtain i where "i < 19" "P i" by blast
  then show "\<exists>i < 16. P i \<or> P (i + 3)"
    by (cases "i < 16") (auto intro: exI [of _ i] exI [of _ "i - 3"])
next
  assume "\<exists>i < 16. P i \<or> P (i + 3)"
  then obtain i where "i < 16" and "P i \<or> P (i + 3)" by blast
  then show "\<exists>i < 19. P i" by (auto intro: exI [of _ i] exI [of _ "i + 3"])
qed

lemma all_less_19_split: "(\<forall>i < (16::nat). P i \<and> P (i + 3)) \<longleftrightarrow> (\<forall>i < 19. P i)"
  using ex_less_19_split [of "\<lambda>i. \<not> P i"] by auto

lemma set_nth_iff: "length xs = n \<Longrightarrow> (\<exists>b \<in> set xs. P b) \<longleftrightarrow> (\<exists>i < n. P (xs ! i))"
  by (metis in_set_conv_nth)

context simd_lanes
begin

lemma lit_ts_window_matches:
  assumes "start \<le> 3" and "i < BLOCK"
  shows "lit (ts_window_matches S v (ts_window start)) i \<longleftrightarrow>
    shape_byte (TS_SHAPE ! (start + i)) (lane v i)"
proof -
  let ?w = "ts_window start"
  have "lit (mask_from_slice S (digit_lanes ?w)) i \<longleftrightarrow> digit_lanes ?w ! i = - 1"
    using assms by (intro lit_mask_from_slice) (auto simp: ts_window_def)
  moreover have "lane (from_slice S (literals ?w)) i = literals ?w ! i"
    using assms by (intro lane_from_slice) (auto simp: ts_window_def)
  ultimately show ?thesis
    using assms(2) digit_by_wrapping [of "lane v i"]
    by (simp add: ts_window_matches_def Let_def lit_select lit_le lane_vsub lane_splat lit_eq
        shape_byte_def ts_window_def)
qed

lemma ts_core_kernel_eq:
  assumes "length core = TS_CORE_LEN"
  shows "ts_core_kernel S core =
    (if \<exists>b \<in> set core. \<not> is_ascii b then Unsure
     else if ts_core core then VMatch TS_CORE_LEN else NoMatch)"
proof -
  let ?h = "from_slice S (slice core 0 16)" and ?t = "from_slice S (drop 3 core)"
  have h: "lane ?h i = core ! i" and t: "lane ?t i = core ! (i + 3)" if "i < 16" for i
    using assms that
    by (auto simp: lane_from_slice length_slice nth_slice BLOCK_def add.commute)
  have "any_true S (simd_ge S (vor S ?h ?t) (splat S 128)) \<longleftrightarrow>
      (\<exists>i < 16. \<not> is_ascii (core ! i) \<or> \<not> is_ascii (core ! (i + 3)))"
    by (auto simp: any_true_iff lit_ge lane_vor lane_splat h t high_bit_or BLOCK_def)
  also have "\<dots> \<longleftrightarrow> (\<exists>b \<in> set core. \<not> is_ascii b)"
    using assms by (simp only: ex_less_19_split [of "\<lambda>i. \<not> is_ascii (core ! i)"] set_nth_iff
        TS_CORE_LEN_eq)
  finally have unsure: "any_true S (simd_ge S (vor S ?h ?t) (splat S 128)) \<longleftrightarrow>
      (\<exists>b \<in> set core. \<not> is_ascii b)" .
  have "all_true S (mask_and S (ts_window_matches S ?h TS_HEAD) (ts_window_matches S ?t TS_TAIL))
      \<longleftrightarrow> (\<forall>i < 16. shape_byte (TS_SHAPE ! i) (core ! i)
                   \<and> shape_byte (TS_SHAPE ! (i + 3)) (core ! (i + 3)))"
    by (auto simp: all_true_iff lit_and lit_ts_window_matches TS_HEAD_def TS_TAIL_def h t BLOCK_def
        add.commute)
  also have "\<dots> \<longleftrightarrow> ts_core core"
    using assms
    by (simp only: all_less_19_split [of "\<lambda>i. shape_byte (TS_SHAPE ! i) (core ! i)"] ts_core_def
        TS_CORE_LEN_eq simp_thms)
  finally show ?thesis
    using unsure by (simp add: ts_core_kernel_def Let_def BLOCK_def)
qed

end

lemma timestamp_core_scalar_eq:
  "timestamp_core_scalar line =
    (if length line < 19 then NoMatch
     else if \<exists>b \<in> set (take 19 line). \<not> is_ascii b then Unsure
     else if ts_core (take 19 line) then VMatch 19 else NoMatch)"
proof (cases "length line < 19")
  case False
  then have "ts_core (take 19 line) \<longleftrightarrow>
      (\<forall>i < 19. shape_byte (TS_SHAPE ! i) (line ! i))"
    by (simp add: ts_core_def)
  then show ?thesis
    using False
    by (simp add: timestamp_core_scalar_def all_less_19 TS_SHAPE_eq shape_byte_def TS_DIGITS_def
        list_ex_iff)
qed (simp add: timestamp_core_scalar_def)

context simd_lanes
begin

lemma timestamp_core_simd_eq: "timestamp_core_simd S line = timestamp_core_scalar line"
proof (cases "length line < 19")
  case True
  then show ?thesis
    by (simp add: timestamp_core_simd_def timestamp_core_scalar_eq slice_range_def)
next
  case False
  then have "slice_range line 0 TS_CORE_LEN = Some (take 19 line)"
    by (simp add: slice_range_def slice_def)
  with False show ?thesis
    by (simp add: timestamp_core_simd_def timestamp_core_scalar_eq ts_core_kernel_eq)
qed

end

subsection \<open>Leading whitespace\<close>

lemma leading_ws_from_shift:
  "leading_ws_from bs (n + i) =
     (case leading_ws_from bs i of VMatch k \<Rightarrow> VMatch (n + k) | other \<Rightarrow> other)"
proof (induction bs arbitrary: i)
  case (Cons b bs)
  from Cons.IH [of "Suc i"] show ?case by simp
qed simp

text \<open>A run of whitespace can be skipped before scanning on.\<close>

lemma leading_ws_skip:
  assumes "n \<le> length line" and "\<forall>i < n. is_ascii_ws (line ! i)"
  shows "leading_whitespace_scalar line =
    (case leading_whitespace_scalar (drop n line) of VMatch k \<Rightarrow> VMatch (n + k) | other \<Rightarrow> other)"
  using assms
proof (induction n arbitrary: line)
  case 0
  then show ?case by (simp split: verdict.split)
next
  case (Suc n)
  then obtain b bs where line: "line = b # bs" by (cases line) auto
  with Suc.prems have b: "is_ascii_ws b" and bs: "\<forall>i < n. is_ascii_ws (bs ! i)" and "n \<le> length bs"
    by (auto simp: All_less_Suc2)
  note IH = Suc.IH [OF \<open>n \<le> length bs\<close> bs, unfolded leading_whitespace_scalar_def]
  show ?case
    using b leading_ws_from_shift [of bs 1 0] IH
    by (simp add: leading_whitespace_scalar_def line split: verdict.splits)
qed

context simd_lanes
begin

lemma first_false_lane_Some:
  assumes "first_false_lane aarch64 S m = Some k"
  shows "k < BLOCK \<and> \<not> lit m k \<and> (\<forall>i < k. lit m i)"
proof (cases aarch64)
  case True
  let ?v = "vec_select S m (splat S (of_nat BLOCK)) (from_slice S LANE_INDEX)"
  have lane_v: "lane ?v i = (if lit m i then 16 else of_nat i)" if "i < 16" for i
    using that by (simp add: lane_select lane_splat lane_from_slice LANE_INDEX_def BLOCK_def)
  let ?A = "lane ?v ` {..<BLOCK}"
  have k: "k = unat (Min ?A)" and k16: "k < 16"
    using assms True
    by (auto simp: first_false_lane_def Let_def reduce_min_eq BLOCK_def split: if_splits)
  have "Min ?A \<in> ?A" by (rule Min_in) (auto simp: BLOCK_def lessThan_empty_iff)
  then obtain i where i: "i < 16" "Min ?A = lane ?v i" by (auto simp: BLOCK_def)
  have small: "unat (of_nat j :: u8) = j" if "j < 16" for j
    using that by (simp add: unat_of_nat)
  from k k16 i lane_v have ki: "k = i" "\<not> lit m i"
    by (auto simp: small split: if_splits)
  have "lit m j" if "j < k" for j
  proof (rule ccontr)
    assume "\<not> lit m j"
    then have "Min ?A \<le> of_nat j"
      using that k16 lane_v [of j] by (intro Min_le) (auto simp: BLOCK_def intro!: rev_image_eqI [of j])
    then have "k \<le> j"
      using k that k16 by (simp add: word_le_nat_alt small)
    with that show False by simp
  qed
  with ki k16 show ?thesis by (auto simp: BLOCK_def)
next
  case False
  let ?f = "NOT (to_bitmask S m) AND (push_bit BLOCK 1 - 1)"
  have bit_f: "bit ?f i \<longleftrightarrow> i < BLOCK \<and> \<not> lit m i" for i
  proof -
    have "push_bit BLOCK 1 - 1 = (mask BLOCK :: u64)"
      by (simp add: mask_eq_exp_minus_1 push_bit_eq_mult)
    moreover have "BLOCK < 64" by (simp add: BLOCK_def)
    ultimately show ?thesis
      by (auto simp: bit_simps bit_to_bitmask)
  qed
  from assms False have "?f \<noteq> 0" and "k = trailing_zeros ?f"
    by (auto simp: first_false_lane_def Let_def split: if_splits)
  with trailing_zeros_spec [of ?f] bit_f show ?thesis by auto
qed

lemma first_false_lane_None:
  assumes "first_false_lane aarch64 S m = None" and "i < BLOCK"
  shows "lit m i"
proof (cases aarch64)
  case True
  let ?v = "vec_select S m (splat S (of_nat BLOCK)) (from_slice S LANE_INDEX)"
  have lane_v: "lane ?v i = (if lit m i then 16 else of_nat i)"
    using assms(2) by (simp add: lane_select lane_splat lane_from_slice LANE_INDEX_def BLOCK_def)
  have "16 \<le> unat (Min (lane ?v ` {..<BLOCK}))"
    using assms(1) True by (auto simp: first_false_lane_def Let_def reduce_min_eq BLOCK_def split: if_splits)
  moreover have "Min (lane ?v ` {..<BLOCK}) \<le> lane ?v i"
    using assms(2) by (intro Min_le) auto
  ultimately have "16 \<le> unat (lane ?v i)" by (simp add: word_le_nat_alt)
  with lane_v assms(2) show ?thesis by (auto simp: BLOCK_def unat_of_nat split: if_splits)
next
  case False
  then have "NOT (to_bitmask S m) AND (push_bit BLOCK 1 - 1) = 0"
    using assms(1) by (auto simp: first_false_lane_def Let_def split: if_splits)
  then have "\<not> bit (NOT (to_bitmask S m) AND (mask BLOCK :: u64)) i"
    by (simp add: mask_eq_exp_minus_1 push_bit_eq_mult)
  with assms(2) show ?thesis by (auto simp: bit_simps bit_to_bitmask BLOCK_def)
qed

lemma leading_ws_kernel_eq:
  assumes "offset \<le> length line" and "\<forall>i < offset. is_ascii_ws (line ! i)"
  shows "leading_ws_kernel aarch64 S line offset = leading_whitespace_scalar line"
  using assms
proof (induction "length line - offset" arbitrary: offset rule: less_induct)
  case less
  show ?case
  proof (cases "offset + BLOCK \<le> length line")
    case False
    then have "slice_range line offset (offset + BLOCK) = None" by (simp add: slice_range_def)
    then show ?thesis
      using leading_ws_skip [OF less.prems]
      by (simp add: leading_ws_kernel.simps [of aarch64 S line offset] split: verdict.split)
  next
    case True
    let ?b = "from_slice S (slice line offset (offset + BLOCK))"
    let ?m = "mask_or S (simd_eq S ?b (splat S (of_char CHR '' '')))
                (simd_le S (vsub S ?b (splat S 9)) (splat S (13 - 9)))"
    have chunk: "slice_range line offset (offset + BLOCK) = Some (slice line offset (offset + BLOCK))"
      using True by (simp add: slice_range_def)
    have m: "lit ?m i \<longleftrightarrow> is_ascii_ws (line ! (offset + i))" if "i < BLOCK" for i
      using that True
      by (simp add: lit_or lit_eq lit_le lane_vsub lane_splat lane_from_slice length_slice nth_slice
          is_ascii_ws_def)
    show ?thesis
    proof (cases "first_false_lane aarch64 S ?m")
      case (Some k)
      from first_false_lane_Some [OF this] m
      have k: "k < BLOCK" "\<not> is_ascii_ws (line ! (offset + k))"
        "\<forall>i < k. is_ascii_ws (line ! (offset + i))" by auto
      have ws: "\<forall>i < offset + k. is_ascii_ws (line ! i)"
        using k(3) less.prems(2) by (metis add_diff_inverse_nat nat_add_left_cancel_less)
      have le: "offset + k < length line" using True k(1) by simp
      then obtain bs where "drop (offset + k) line = line ! (offset + k) # bs"
        by (metis Cons_nth_drop_Suc)
      then have "leading_whitespace_scalar (drop (offset + k) line) =
          (if is_ascii (line ! (offset + k)) then VMatch 0 else Unsure)"
        using k(2) by (simp add: leading_whitespace_scalar_def)
      with leading_ws_skip [of "offset + k" line] ws le
      have "leading_whitespace_scalar line =
          (if is_ascii (line ! (offset + k)) then VMatch (offset + k) else Unsure)"
        by simp
      then show ?thesis
        using Some chunk by (simp add: leading_ws_kernel.simps [of aarch64 S line offset] Let_def)
    next
      case None
      let ?next = "if offset + BLOCK < length line \<and> offset + BLOCK + BLOCK > length line
                   then length line - BLOCK else offset + BLOCK"
      have all: "is_ascii_ws (line ! (offset + i))" if "i < BLOCK" for i
        using first_false_lane_None [OF None that] m that by simp
      have "is_ascii_ws (line ! i)" if "i < offset + BLOCK" for i
        using less.prems(2) all [of "i - offset"] that by (cases "i < offset") auto
      then have ws: "\<forall>i < ?next. is_ascii_ws (line ! i)" by auto
      have "leading_ws_kernel aarch64 S line ?next = leading_whitespace_scalar line"
        using True ws by (intro less.hyps) (auto simp: BLOCK_def)
      then show ?thesis
        using None chunk by (simp add: leading_ws_kernel.simps [of aarch64 S line offset] Let_def)
    qed
  qed
qed

lemma leading_whitespace_simd_eq:
  "leading_whitespace_simd aarch64 S line = leading_whitespace_scalar line"
  unfolding leading_whitespace_simd_def by (rule leading_ws_kernel_eq) auto

end

subsection \<open>Literal search\<close>

text \<open>An occurrence of the needle at position \<open>i\<close>.\<close>

definition occurs_at :: "u8 list \<Rightarrow> u8 list \<Rightarrow> nat \<Rightarrow> bool" where
  "occurs_at haystack needle i \<longleftrightarrow> slice haystack i (i + length needle) = needle"

lemma occurs_at_iff: "occurs_at hay needle i \<longleftrightarrow> starts_with (drop i hay) needle"
  by (simp add: occurs_at_def slice_def starts_with_take)

lemma occurs_at_ends:
  assumes "occurs_at hay needle i" and "needle \<noteq> []"
  shows "hay ! i = needle ! 0" and "hay ! (i + length needle - 1) = needle ! (length needle - 1)"
proof -
  from assms(1) obtain r where r: "drop i hay = needle @ r"
    by (auto simp: occurs_at_iff starts_with_iff)
  then have "i \<le> length hay" using assms(2) by (metis append_is_Nil_conv drop_all nat_le_linear)
  then have "hay ! (i + k) = needle ! k" if "k < length needle" for k
    using that r by (metis nth_append nth_drop)
  from this [of 0] this [of "length needle - 1"] assms(2)
  show "hay ! i = needle ! 0" and "hay ! (i + length needle - 1) = needle ! (length needle - 1)"
    by (cases needle, auto)+
qed

lemma find_scalar_from_eq:
  assumes "needle \<noteq> []"
  shows "find_scalar_from hay needle i =
    List.find (occurs_at hay needle) [i..<Suc (length hay - length needle)]"
proof (induction "Suc (length hay - length needle) - i" arbitrary: i)
  case 0
  then show ?case by (simp add: find_scalar_from.simps [of hay needle i])
next
  case (Suc n)
  then have le: "i \<le> length hay - length needle" by simp
  have "find_scalar_from hay needle (i + 1) =
      List.find (occurs_at hay needle) [Suc i..<Suc (length hay - length needle)]"
    using Suc.hyps(1) [of "i + 1"] Suc.hyps(2) by simp
  moreover have "(hay ! i = needle ! 0 \<and> hay ! (i + length needle - 1) = needle ! (length needle - 1)
      \<and> slice hay i (i + length needle) = needle) \<longleftrightarrow> occurs_at hay needle i"
    using occurs_at_ends [of hay needle i] assms by (auto simp: occurs_at_def)
  moreover have "[i..<Suc (length hay - length needle)] =
      i # [Suc i..<Suc (length hay - length needle)]"
    using le by (simp add: upt_conv_Cons)
  ultimately show ?case
    using le by (simp add: find_scalar_from.simps [of hay needle i] del: upt_Suc)
qed

lemma find_filter: "(\<And>x. x \<in> set xs \<Longrightarrow> P x \<Longrightarrow> Q x) \<Longrightarrow> List.find P (filter Q xs) = List.find P xs"
  by (induction xs) auto

lemma find_append: "List.find P (xs @ ys) =
    (case List.find P xs of None \<Rightarrow> List.find P ys | Some x \<Rightarrow> Some x)"
  by (induction xs) auto

lemma find_map_shift: "List.find P (map ((+) n) xs) = map_option ((+) n) (List.find (\<lambda>i. P (n + i)) xs)"
  by (induction xs) auto

lemma find_cong': "(\<And>x. x \<in> set xs \<Longrightarrow> P x = Q x) \<Longrightarrow> List.find P xs = List.find Q xs"
  by (induction xs) auto

lemma filter_bits_step:
  fixes w :: "'a::len word"
  assumes "w \<noteq> 0"
  shows "filter (bit w) [0..<LENGTH('a)] =
    trailing_zeros w # filter (bit (w AND (w - 1))) [0..<LENGTH('a)]"
proof -
  let ?k = "trailing_zeros w"
  note k = trailing_zeros_spec [OF assms]
  have "[0..<LENGTH('a)] = [0..<?k] @ [?k..<LENGTH('a)]"
    using k(2) by (intro upt_split) auto
  with k(2) have split: "[0..<LENGTH('a)] = [0..<?k] @ ?k # [Suc ?k..<LENGTH('a)]"
    by (simp add: upt_conv_Cons)
  have "filter (bit w) [0..<?k] = []" and "filter (bit (w AND (w - 1))) [0..<?k] = []"
    using k(3) clear_lowest_bit [OF assms] by (auto simp: filter_empty_conv)
  moreover have "filter (bit (w AND (w - 1))) [Suc ?k..<LENGTH('a)] =
      filter (bit w) [Suc ?k..<LENGTH('a)]"
    using clear_lowest_bit [OF assms] by (intro filter_cong) auto
  ultimately show ?thesis
    unfolding split using k(1) clear_lowest_bit [OF assms, of ?k] by simp
qed

lemma scan_lanes_eq:
  "scan_lanes hay needle offset lanes =
    List.find (occurs_at hay needle) (map ((+) offset) (filter (bit lanes) [0..<64]))"
proof (induction hay needle offset lanes rule: scan_lanes.induct)
  case (1 hay needle offset lanes)
  show ?case
  proof (cases "lanes = 0")
    case False
    then show ?thesis
      using 1 filter_bits_step [of lanes]
      by (simp add: scan_lanes.simps [of hay needle offset lanes] Let_def occurs_at_def)
  qed (simp add: scan_lanes.simps [of hay needle offset 0])
qed

lemma find_literal_scalar_from:
  assumes "needle \<noteq> []" and "offset + length needle \<le> length hay"
  shows "map_option (\<lambda>found. offset + found) (find_literal_scalar (drop offset hay) needle) =
    List.find (occurs_at hay needle) [offset..<Suc (length hay - length needle)]"
proof -
  let ?n = "Suc (length hay - length needle) - offset"
  have "[offset..<Suc (length hay - length needle)] = map ((+) offset) [0..<?n]"
    using assms(2) by (simp add: map_plus_upt Suc_diff_le del: upt_Suc)
  then have "List.find (occurs_at hay needle) [offset..<Suc (length hay - length needle)] =
      map_option ((+) offset) (List.find (\<lambda>i. occurs_at hay needle (offset + i)) [0..<?n])"
    by (simp only: find_map_shift)
  moreover have "occurs_at (drop offset hay) needle = (\<lambda>i. occurs_at hay needle (offset + i))"
    by (rule ext) (simp add: occurs_at_iff add.commute)
  moreover have "Suc (length (drop offset hay) - length needle) = ?n"
    using assms(2) by simp
  ultimately show ?thesis
    using assms by (simp add: find_literal_scalar_def find_scalar_from_eq del: upt_Suc)
qed

context simd_lanes
begin

lemma find_literal_kernel_eq:
  assumes "needle \<noteq> []" and "offset + length needle \<le> Suc (length hay)" and "length needle \<le> length hay"
  shows "find_literal_kernel S hay needle offset =
    List.find (occurs_at hay needle) [offset..<Suc (length hay - length needle)]"
  using assms(2)
proof (induction "Suc (length hay) - offset" arbitrary: offset rule: less_induct)
  case less
  let ?n = "Suc (length hay - length needle)"
  show ?case
  proof (cases "offset + BLOCK \<le> length hay - length needle + 1")
    case False
    show ?thesis
    proof (cases "offset + length needle \<le> length hay")
      case True
      with False assms(1) show ?thesis
        by (simp add: find_literal_kernel.simps [of S hay needle offset] find_literal_scalar_from
            del: upt_Suc)
    next
      case False': False
      moreover have "0 < length needle" using assms(1) by simp
      ultimately have "\<not> offset < ?n" and "length hay - offset < length needle"
        using less.prems assms(3) by arith+
      with False show ?thesis
        by (simp add: find_literal_kernel.simps [of S hay needle offset] find_literal_scalar_def
            del: upt_Suc)
    qed
  next
    case True
    let ?lo = "offset + length needle - 1"
    let ?c = "mask_and S
        (simd_eq S (from_slice S (slice hay offset (offset + BLOCK))) (splat S (needle ! 0)))
        (simd_eq S (from_slice S (slice hay ?lo (?lo + BLOCK)))
                   (splat S (needle ! (length needle - 1))))"
    have nz: "0 < length needle" using assms(1) by simp
    have range: "offset + BLOCK \<le> length hay" "?lo + BLOCK \<le> length hay"
      using True nz assms(3) by arith+
    then have lens: "length (slice hay offset (offset + BLOCK)) = BLOCK"
      "length (slice hay ?lo (?lo + BLOCK)) = BLOCK"
      by (simp_all only: length_slice diff_add_inverse)
    have lit_c: "lit ?c i \<longleftrightarrow> hay ! (offset + i) = needle ! 0 \<and> hay ! (?lo + i) = needle ! (length needle - 1)"
      if "i < BLOCK" for i
      using that range lens
      by (simp only: lit_and lit_eq lane_splat lane_from_slice nth_slice diff_add_inverse)
    have cand: "bit (to_bitmask S ?c) i"
      if "i < BLOCK" and "occurs_at hay needle (offset + i)" for i
    proof -
      have "?lo + i = offset + i + length needle - 1" using nz by arith
      then have "lit ?c i"
        using lit_c [OF that(1)] occurs_at_ends [OF that(2) assms(1)] by simp
      with that(1) show ?thesis by (simp only: bit_to_bitmask simp_thms)
    qed
    have "filter (bit (to_bitmask S ?c)) [0..<64] = filter (bit (to_bitmask S ?c)) [0..<BLOCK]"
    proof -
      have "[0..<64] = [0..<BLOCK] @ [BLOCK..<64]"
        by (rule upt_split) (simp_all add: BLOCK_def)
      then show ?thesis by (simp add: filter_empty_conv bit_to_bitmask)
    qed
    moreover have "List.find (\<lambda>i. occurs_at hay needle (offset + i))
          (filter (bit (to_bitmask S ?c)) [0..<BLOCK]) =
        List.find (\<lambda>i. occurs_at hay needle (offset + i)) [0..<BLOCK]"
      by (rule find_filter) (simp only: set_upt atLeastLessThan_iff cand)
    ultimately have "scan_lanes hay needle offset (to_bitmask S ?c) =
        List.find (occurs_at hay needle) (map ((+) offset) [0..<BLOCK])"
      by (simp only: scan_lanes_eq find_map_shift)
    also have "map ((+) offset) [0..<BLOCK] = [offset..<offset + BLOCK]"
      by (simp add: map_plus_upt)
    finally have scan: "scan_lanes hay needle offset (to_bitmask S ?c) =
        List.find (occurs_at hay needle) [offset..<offset + BLOCK]" .
    have "scan_lanes hay needle offset (to_bitmask S ?c) = None" if "\<not> any_true S ?c"
    proof -
      have "to_bitmask S ?c = 0"
        using that by (intro bit_eqI) (auto simp: bit_to_bitmask any_true_iff)
      then show ?thesis by (simp add: scan_lanes.simps [of hay needle offset 0])
    qed
    with scan have block: "(if any_true S ?c then scan_lanes hay needle offset (to_bitmask S ?c) else None) =
        List.find (occurs_at hay needle) [offset..<offset + BLOCK]"
      by auto
    have "find_literal_kernel S hay needle (offset + BLOCK) =
        List.find (occurs_at hay needle) [offset + BLOCK..<?n]"
      using True assms(3) by (intro less.hyps) (auto simp: BLOCK_def)
    moreover have "[offset..<?n] = [offset..<offset + BLOCK] @ [offset + BLOCK..<?n]"
      using True by (intro upt_split) auto
    moreover have "find_literal_kernel S hay needle offset =
        (case (if any_true S ?c then scan_lanes hay needle offset (to_bitmask S ?c) else None) of
           Some start \<Rightarrow> Some start
         | None \<Rightarrow> find_literal_kernel S hay needle (offset + BLOCK))"
      by (subst find_literal_kernel.simps) (simp only: Let_def True if_True)
    ultimately show ?thesis
      by (simp only: block find_append)
  qed
qed

lemma find_literal_simd_eq: "find_literal_simd S hay needle = find_literal_scalar hay needle"
  by (auto simp: find_literal_simd_def find_literal_scalar_def find_scalar_from_eq
      find_literal_kernel_eq)

end

lemma find_literal_scalar_find_sub:
  assumes "needle \<noteq> []"
  shows "find_literal_scalar hay needle = find_sub needle hay"
proof (cases "length hay < length needle")
  case True
  then have "\<not> starts_with (drop i hay) needle" for i
    by (auto simp: starts_with_iff) (metis drop_eq_Nil diff_le_self le_add1 length_append length_drop
        le_trans not_less)
  then have "find_sub needle hay = None" by (simp add: find_sub_None)
  with True show ?thesis by (simp add: find_literal_scalar_def)
next
  case False
  let ?n = "Suc (length hay - length needle)"
  have out: "\<not> occurs_at hay needle i" if "\<not> i < ?n" for i
    using that False assms by (auto simp: occurs_at_iff starts_with_take)
  show ?thesis
  proof (cases "find_sub needle hay")
    case None
    then have "\<not> occurs_at hay needle i" for i
      by (cases "i \<le> length hay") (auto simp: find_sub_None occurs_at_iff starts_with_take assms)
    with None False assms show ?thesis
      by (simp add: find_literal_scalar_def find_scalar_from_eq find_None_iff del: upt_Suc)
  next
    case (Some i)
    then have i: "occurs_at hay needle i" "\<forall>j < i. \<not> occurs_at hay needle j"
      by (auto simp: find_sub_Some occurs_at_iff)
    then have "i < ?n" using out by blast
    then have "List.find (occurs_at hay needle) [0..<?n] = Some i"
      using i by (auto simp: find_Some_iff simp del: upt_Suc intro!: exI [of _ i])
    with Some False assms show ?thesis
      by (simp add: find_literal_scalar_def find_scalar_from_eq del: upt_Suc)
  qed
qed

text \<open>The portable fallback: a vector is its sixteen lanes.\<close>

definition lane_simd :: "(nat \<Rightarrow> u8, nat \<Rightarrow> bool) Simd" where
  "lane_simd =
     \<lparr>splat = (\<lambda>b i. b),
      from_slice = (\<lambda>xs i. xs ! i),
      mask_from_slice = (\<lambda>xs i. xs ! i = - 1),
      vsub = (\<lambda>v w i. v i - w i),
      vor = (\<lambda>v w i. v i OR w i),
      simd_le = (\<lambda>v w i. v i \<le> w i),
      simd_ge = (\<lambda>v w i. w i \<le> v i),
      simd_eq = (\<lambda>v w i. v i = w i),
      mask_and = (\<lambda>m n i. m i \<and> n i),
      mask_or = (\<lambda>m n i. m i \<or> n i),
      mask_select = (\<lambda>m a b i. if m i then a i else b i),
      vec_select = (\<lambda>m v w i. if m i then v i else w i),
      any_true = (\<lambda>m. list_ex m [0..<BLOCK]),
      all_true = (\<lambda>m. list_all m [0..<BLOCK]),
      to_bitmask = (\<lambda>m. horner_sum of_bool 2 (map m [0..<BLOCK])),
      reduce_min = (\<lambda>v. Min (set (map v [0..<BLOCK])))\<rparr>"

lemma lane_simd_bitmask: "bit (to_bitmask lane_simd m) i \<longleftrightarrow> i < BLOCK \<and> m i"
  by (auto simp: lane_simd_def bit_horner_sum_bit_word_iff BLOCK_def)

lemma lane_simd_min: "reduce_min lane_simd v = Min (v ` {..<BLOCK})"
  by (simp add: lane_simd_def lessThan_atLeast0)

interpretation fallback: simd_lanes lane_simd "\<lambda>v i. v i" "\<lambda>m i. m i"
  by unfold_locales
    (simp_all only: lane_simd_bitmask lane_simd_min, auto simp: lane_simd_def list_ex_iff list_all_iff)

section \<open>Properties\<close>

text \<open>On any SIMD level that acts lane-wise, the vectorised timestamp recogniser returns on
  every line exactly the verdict of the scalar one: the two overlapping 16-byte windows over
  the 19-byte core, the sign-bit test for non-ASCII bytes and the wrapping digit test lose
  nothing.\<close>

theorem timestamp_prefix_simd_scalar:
  assumes "simd_lanes S lane lit"
  shows "timestamp_prefix_len_simd S line = timestamp_prefix_len_scalar line"
  using simd_lanes.timestamp_core_simd_eq [OF assms]
  by (simp add: timestamp_prefix_len_simd_def timestamp_prefix_len_scalar_def)

theorem timestamp_prefix_simd_scalar_witness:
  "timestamp_prefix_len_simd lane_simd (bytes ''2024-01-02 03:04:05.123 UTC [7]'') =
   timestamp_prefix_len_scalar (bytes ''2024-01-02 03:04:05.123 UTC [7]'')"
  by (rule timestamp_prefix_simd_scalar [OF fallback.simd_lanes_axioms])

text \<open>The vectorised count of leading white space, with either first-lane search (the
  bitmask of x86 or the lane reduction of aarch64) and with the final window moved back to
  overlap the previous one, equals the byte-by-byte count, verdict \<open>Unsure\<close> included.\<close>

theorem leading_whitespace_simd_scalar:
  assumes "simd_lanes S lane lit"
  shows "leading_whitespace_simd aarch64 S line = leading_whitespace_scalar line"
  by (rule simd_lanes.leading_whitespace_simd_eq [OF assms])

theorem leading_whitespace_simd_scalar_witness:
  "leading_whitespace_simd True lane_simd (replicate 40 32 @ [65]) =
   leading_whitespace_scalar (replicate 40 32 @ [65])"
  by (rule leading_whitespace_simd_scalar [OF fallback.simd_lanes_axioms])

text \<open>The vectorised literal search (first and last byte of the needle compared against
  16-byte windows, candidate lanes enumerated by clearing the lowest set bit, a scalar tail)
  finds the first occurrence of the needle, and nothing when there is none or the needle is
  empty.\<close>

theorem find_literal_simd_first_occurrence:
  assumes "simd_lanes S lane lit"
  shows "find_literal_simd S hay needle = (if needle = [] then None else find_sub needle hay)"
  using simd_lanes.find_literal_simd_eq [OF assms] find_literal_scalar_find_sub [of needle hay]
  by (simp add: find_literal_scalar_def)

theorem find_literal_simd_first_occurrence_witness:
  "find_literal_simd lane_simd (bytes ''Seq Scan (cost=0.00..1.00 rows=1 width=4)'') (bytes ''(cost='') = Some 9"
  using find_literal_simd_first_occurrence [OF fallback.simd_lanes_axioms]
  by (simp add: bytes_def starts_with_def)

end
