(* ===== verification/Rust_Str.thy ===== *)
theory Rust_Str
  imports Prelude
begin

text \<open>
  The methods of \<open>str\<close> and \<open>String\<close> the code calls, on UTF-8 text as a list of bytes (HOL
  characters): white space and trimming with the Unicode \<open>White_Space\<close> set, splitting,
  case mapping, lines.
\<close>

section \<open>Unicode white space in UTF-8\<close>

text \<open>The byte of a character, as an integer (binary arithmetic evaluates fast).\<close>

definition code :: "char \<Rightarrow> int" where "code c = of_char c"

definition utf8 :: "int list \<Rightarrow> string" where "utf8 bs = map char_of bs"

text \<open>The characters for which \<open>char::is_whitespace\<close> holds, encoded.\<close>

definition ws_units :: "string list" where
  "ws_units = map utf8
     ([[32], [9], [10], [11], [12], [13], [0xC2, 0x85], [0xC2, 0xA0], [0xE1, 0x9A, 0x80]] @
      map (\<lambda>b. [0xE2, 0x80, b]) [0x80, 0x81, 0x82, 0x83, 0x84, 0x85, 0x86, 0x87, 0x88, 0x89, 0x8A,
        0xA8, 0xA9, 0xAF] @
      [[0xE2, 0x81, 0x9F], [0xE3, 0x80, 0x80]])"

fun strip_any :: "string list \<Rightarrow> string \<Rightarrow> string option" where
  "strip_any [] s = None"
| "strip_any (u # us) s = (case strip_prefix u s of Some r \<Rightarrow> Some r | None \<Rightarrow> strip_any us s)"

text \<open>A unit is removed only when it is not empty, so that the loops below end.\<close>

definition nonempty_units :: "string list \<Rightarrow> string list" where
  "nonempty_units us = filter (\<lambda>u. u \<noteq> []) us"

lemma strip_any_shorter: "strip_any (nonempty_units us) s = Some r \<Longrightarrow> length r < length s"
proof (induction us)
  case Nil
  then show ?case by (simp add: nonempty_units_def)
next
  case (Cons u us)
  show ?case
  proof (cases "u = []")
    case True
    with Cons show ?thesis by (simp add: nonempty_units_def)
  next
    case False
    then have ne: "nonempty_units (u # us) = u # nonempty_units us"
      by (simp add: nonempty_units_def)
    show ?thesis
    proof (cases "strip_prefix u s")
      case None
      with Cons ne show ?thesis by simp
    next
      case (Some r')
      with Cons.prems ne have "s = u @ r" by (simp add: strip_prefix_Some_iff)
      with False show ?thesis by simp
    qed
  qed
qed

function trim_units :: "string list \<Rightarrow> string \<Rightarrow> string" where
  "trim_units us s =
     (case strip_any (nonempty_units us) s of Some r \<Rightarrow> trim_units us r | None \<Rightarrow> s)"
  by pat_completeness auto
termination
  by (relation "measure (\<lambda>(us, s). length s)") (auto dest: strip_any_shorter)

function count_units :: "string list \<Rightarrow> string \<Rightarrow> nat" where
  "count_units us s =
     (case strip_any (nonempty_units us) s of Some r \<Rightarrow> Suc (count_units us r) | None \<Rightarrow> 0)"
  by pat_completeness auto
termination
  by (relation "measure (\<lambda>(us, s). length s)") (auto dest: strip_any_shorter)

declare trim_units.simps [simp del] count_units.simps [simp del]

definition trim_start :: "string \<Rightarrow> string" where "trim_start s = trim_units ws_units s"
definition trim_end :: "string \<Rightarrow> string" where
  "trim_end s = rev (trim_units (map rev ws_units) (rev s))"
definition trim :: "string \<Rightarrow> string" where "trim s = trim_end (trim_start s)"

text \<open>\<open>chars().take_while(|c| c.is_whitespace()).count()\<close>.\<close>

definition leading_ws_chars :: "string \<Rightarrow> nat" where "leading_ws_chars s = count_units ws_units s"

lemma strip_any_Some: "strip_any us s = Some r \<Longrightarrow> \<exists>u \<in> set us. s = u @ r"
  by (induction us) (auto simp: strip_prefix_Some_iff split: option.splits)

lemma trim_units_suffix: "\<exists>p. s = p @ trim_units us s"
proof (induction us s rule: trim_units.induct)
  case (1 us s)
  show ?case
  proof (cases "strip_any (nonempty_units us) s")
    case None
    then show ?thesis by (simp add: trim_units.simps [of us s])
  next
    case (Some r)
    have "\<exists>p. s = p @ r"
      using strip_any_Some [OF Some] by blast
    with 1 [OF Some] Some show ?thesis
      by (simp add: trim_units.simps [of us s]) (metis append.assoc)
  qed
qed

lemma trim_units_done: "strip_any (nonempty_units us) (trim_units us s) = None"
proof (induction us s rule: trim_units.induct)
  case (1 us s)
  then show ?case
    by (cases "strip_any (nonempty_units us) s") (simp_all add: trim_units.simps [of us s])
qed

lemma trim_units_idem: "trim_units us (trim_units us s) = trim_units us s"
  using trim_units_done [of us s] by (simp add: trim_units.simps [of us "trim_units us s"])

section \<open>Case mapping\<close>

definition lower_char :: "char \<Rightarrow> char" where
  "lower_char c = (if 65 \<le> code c \<and> code c \<le> 90 then char_of (code c + 32) else c)"

definition upper_char :: "char \<Rightarrow> char" where
  "upper_char c = (if 97 \<le> code c \<and> code c \<le> 122 then char_of (code c - 32) else c)"

definition to_ascii_lowercase :: "string \<Rightarrow> string" where "to_ascii_lowercase = map lower_char"
definition to_ascii_uppercase :: "string \<Rightarrow> string" where "to_ascii_uppercase = map upper_char"

definition eq_ignore_ascii_case :: "string \<Rightarrow> string \<Rightarrow> bool" where
  "eq_ignore_ascii_case a b \<longleftrightarrow> to_ascii_lowercase a = to_ascii_lowercase b"

section \<open>Splitting\<close>

text \<open>\<open>split_once\<close> and \<open>rsplit_once\<close> at a substring.\<close>

definition split_once :: "string \<Rightarrow> string \<Rightarrow> (string \<times> string) option" where
  "split_once sep s =
     (case find_sub sep s of
        Some i \<Rightarrow> Some (take i s, drop (i + length sep) s)
      | None \<Rightarrow> None)"

definition rsplit_once :: "string \<Rightarrow> string \<Rightarrow> (string \<times> string) option" where
  "rsplit_once sep s =
     (case split_once (rev sep) (rev s) of
        Some (a, b) \<Rightarrow> Some (rev b, rev a)
      | None \<Rightarrow> None)"

lemma split_once_Some: "split_once sep s = Some (a, b) \<Longrightarrow> s = a @ sep @ b"
  by (auto simp: split_once_def find_sub_Some starts_with_iff split: option.splits)
    (metis append_take_drop_id append_eq_conv_conj add.commute drop_drop)

lemma rsplit_once_Some: "rsplit_once sep s = Some (a, b) \<Longrightarrow> s = a @ sep @ b"
  by (auto simp: rsplit_once_def dest!: split_once_Some split: option.splits)
    (metis rev_rev_ident rev_append append.assoc)

text \<open>\<open>str::lines\<close>: split at line feeds, a trailing line feed adds no line, one carriage
  return before a line feed is dropped.\<close>

fun split_lines_acc :: "string \<Rightarrow> string \<Rightarrow> string list" where
  "split_lines_acc acc [] = (if acc = [] then [] else [rev acc])"
| "split_lines_acc acc (c # cs) =
     (if code c = 10
      then rev (case acc of d # ds \<Rightarrow> if code d = 13 then ds else acc | [] \<Rightarrow> acc) # split_lines_acc [] cs
      else split_lines_acc (c # acc) cs)"

definition str_lines :: "string \<Rightarrow> string list" where "str_lines s = split_lines_acc [] s"

text \<open>\<open>split(sep)\<close> for a one-byte separator.\<close>

fun split_char :: "char \<Rightarrow> string \<Rightarrow> string list" where
  "split_char sep [] = [[]]"
| "split_char sep (c # cs) =
     (if c = sep then [] # split_char sep cs
      else (case split_char sep cs of p # ps \<Rightarrow> (c # p) # ps | [] \<Rightarrow> [[c]]))"

text \<open>\<open>join\<close>.\<close>

fun join :: "string \<Rightarrow> string list \<Rightarrow> string" where
  "join sep [] = []"
| "join sep [s] = s"
| "join sep (s # t # ts) = s @ sep @ join sep (t # ts)"

lemma split_char_nonempty: "split_char sep s \<noteq> []"
  by (induction s) (auto split: list.split)

lemma join_split_char: "join [sep] (split_char sep s) = s"
proof (induction s)
  case Nil
  then show ?case by simp
next
  case (Cons c cs)
  obtain p ps where "split_char sep cs = p # ps"
    using split_char_nonempty by (meson list.exhaust)
  with Cons show ?case by (cases ps) auto
qed


lemma trim_units_Nil [simp]: "trim_units us [] = []"
  using trim_units_suffix [of "[]" us] by simp

lemma trim_start_Nil [simp]: "trim_start [] = []"
  by (simp add: trim_start_def)

lemma trim_end_Nil [simp]: "trim_end [] = []"
  by (simp add: trim_end_def)

lemma set_trim_units: "set (trim_units us s) \<subseteq> set s"
proof -
  obtain p where "s = p @ trim_units us s" using trim_units_suffix by blast
  then have "set s = set p \<union> set (trim_units us s)" by (metis set_append)
  then show ?thesis by blast
qed

lemma set_trim_end: "set (trim_end s) \<subseteq> set s"
  using set_trim_units [of "map rev ws_units" "rev s"] by (simp add: trim_end_def)

lemma set_trim: "set (trim s) \<subseteq> set s"
  using set_trim_end [of "trim_start s"] set_trim_units [of ws_units s]
  by (auto simp: trim_def trim_start_def)

lemma trim_end_idem [simp]: "trim_end (trim_end s) = trim_end s"
  by (simp add: trim_end_def trim_units_idem)

lemma trim_end_last_not_cr: "trim_end s \<noteq> [] \<Longrightarrow> code (last (trim_end s)) \<noteq> 13"
proof -
  assume ne: "trim_end s \<noteq> []"
  let ?r = "trim_units (map rev ws_units) (rev s)"
  have r: "?r \<noteq> []" using ne by (simp add: trim_end_def)
  have none: "strip_any (nonempty_units (map rev ws_units)) ?r = None"
    by (rule trim_units_done)
  have "hd ?r \<noteq> char_of (13::int)"
  proof
    assume h: "hd ?r = char_of (13::int)"
    then obtain ys where "?r = char_of (13::int) # ys" using r by (cases ?r) auto
    then show False using none
      by (simp add: nonempty_units_def ws_units_def utf8_def)
  qed
  then have "last (trim_end s) \<noteq> char_of (13::int)"
    using r by (simp add: trim_end_def last_rev)
  then show ?thesis by (metis code_def char_of_char)
qed

lemma split_lines_acc_run:
  "(\<forall>c \<in> set l. code c \<noteq> 10) \<Longrightarrow> split_lines_acc acc (l @ rest) = split_lines_acc (rev l @ acc) rest"
  by (induction l arbitrary: acc) auto

text \<open>Joining non-empty lines without line feeds or final carriage returns and splitting again
  gives the lines.\<close>

definition plain_line :: "string \<Rightarrow> bool" where
  "plain_line l \<longleftrightarrow> l \<noteq> [] \<and> (\<forall>c \<in> set l. code c \<noteq> 10) \<and> code (last l) \<noteq> 13"

lemma str_lines_join:
  "list_all plain_line ls \<Longrightarrow> str_lines (join [char_of (10::int)] ls) = ls"
proof (induction "[char_of (10::int)]" ls rule: join.induct)
  case 1
  then show ?case by (simp add: str_lines_def)
next
  case (2 l)
  then show ?case using split_lines_acc_run [of l "[]" "[]"]
    by (simp add: str_lines_def plain_line_def)
next
  case (3 l t ts)
  have nl: "code (char_of (10::int)) = 10" by (simp add: code_def)
  have l: "\<forall>c \<in> set l. code c \<noteq> 10" "rev l \<noteq> []" "code (hd (rev l)) \<noteq> 13"
    using 3(2) by (simp_all add: plain_line_def hd_rev)
  show ?case using 3 l
    by (cases "rev l") (auto simp: str_lines_def split_lines_acc_run nl)
qed


section \<open>UTF-8\<close>

definition byte_at :: "string \<Rightarrow> nat \<Rightarrow> int" where
  "byte_at s i = (if i < length s then code (s ! i) else 0)"

definition in_range :: "int \<Rightarrow> int \<Rightarrow> int \<Rightarrow> bool" where
  "in_range lo hi b \<longleftrightarrow> lo \<le> b \<and> b \<le> hi"

text \<open>The first unit of a byte sequence as the standard library splits it: a character, or the
  longest prefix of one that is cut short, and its length. A byte past the end counts as 0.\<close>

definition second_of_3 :: "int \<Rightarrow> int \<Rightarrow> bool" where
  "second_of_3 b b1 \<longleftrightarrow> in_range (if b = 0xE0 then 0xA0 else 0x80) (if b = 0xED then 0x9F else 0xBF) b1"

definition second_of_4 :: "int \<Rightarrow> int \<Rightarrow> bool" where
  "second_of_4 b b1 \<longleftrightarrow> in_range (if b = 0xF0 then 0x90 else 0x80) (if b = 0xF4 then 0x8F else 0xBF) b1"

definition continuation :: "int \<Rightarrow> bool" where "continuation b \<longleftrightarrow> in_range 0x80 0xBF b"

definition utf8_unit_of :: "int \<Rightarrow> int \<Rightarrow> int \<Rightarrow> int \<Rightarrow> bool \<times> nat" where
  "utf8_unit_of b b1 b2 b3 =
     (if b < 0x80 then (True, 1)
      else if in_range 0xC2 0xDF b then (if continuation b1 then (True, 2) else (False, 1))
      else if in_range 0xE0 0xEF b then
        (if second_of_3 b b1
         then (if continuation b2 then (True, 3) else (False, 2))
         else (False, 1))
      else if in_range 0xF0 0xF4 b then
        (if second_of_4 b b1
         then (if continuation b2 then (if continuation b3 then (True, 4) else (False, 3)) else (False, 2))
         else (False, 1))
      else (False, 1))"

definition utf8_unit :: "string \<Rightarrow> bool \<times> nat" where
  "utf8_unit s = utf8_unit_of (byte_at s 0) (byte_at s 1) (byte_at s 2) (byte_at s 3)"

definition utf8_len :: "string \<Rightarrow> nat" where "utf8_len s = snd (utf8_unit s)"

lemma utf8_len_pos: "0 < utf8_len s"
  by (simp add: utf8_len_def utf8_unit_def utf8_unit_of_def)

function utf8_valid :: "string \<Rightarrow> bool" where
  "utf8_valid s = (if s = [] then True else fst (utf8_unit s) \<and> utf8_valid (drop (utf8_len s) s))"
  by pat_completeness auto
termination by (relation "measure length") (auto simp: utf8_len_pos)

definition replacement_char :: string where "replacement_char = utf8 [0xEF, 0xBF, 0xBD]"

text \<open>\<open>String::from_utf8_lossy\<close> and \<open>chars\<close>.\<close>

function from_utf8_lossy :: "string \<Rightarrow> string" where
  "from_utf8_lossy s =
     (if s = [] then []
      else (if fst (utf8_unit s) then take (utf8_len s) s else replacement_char) @
        from_utf8_lossy (drop (utf8_len s) s))"
  by pat_completeness auto
termination by (relation "measure length") (auto simp: utf8_len_pos)

function str_chars :: "string \<Rightarrow> string list" where
  "str_chars s = (if s = [] then [] else take (utf8_len s) s # str_chars (drop (utf8_len s) s))"
  by pat_completeness auto
termination by (relation "measure length") (auto simp: utf8_len_pos)

declare utf8_valid.simps [simp del] from_utf8_lossy.simps [simp del] str_chars.simps [simp del]

lemma utf8_valid_lossy: "utf8_valid s \<Longrightarrow> from_utf8_lossy s = s"
proof (induction s rule: utf8_valid.induct)
  case (1 s)
  show ?case
  proof (cases "s = []")
    case False
    with 1 show ?thesis by (simp add: utf8_valid.simps [of s] from_utf8_lossy.simps [of s])
  qed (simp add: from_utf8_lossy.simps)
qed

lemma byte_at_append: "i < length s \<Longrightarrow> byte_at (s @ t) i = byte_at s i"
  by (simp add: byte_at_def nth_append)

lemma byte_at_pos: "0 < byte_at s i \<Longrightarrow> i < length s"
  by (simp add: byte_at_def split: if_splits)

lemma byte_at_take: "i < n \<Longrightarrow> byte_at (take n s) i = byte_at s i"
  by (simp add: byte_at_def)

lemma str_chars_concat: "concat (str_chars s) = s"
  by (induction s rule: str_chars.induct) (subst str_chars.simps, simp)

text \<open>A valid unit is decided by its own bytes, all present.\<close>

lemma second_pos: "second_of_3 b b1 \<Longrightarrow> 0 < b1" "second_of_4 b b1 \<Longrightarrow> 0 < b1" "continuation b1 \<Longrightarrow> 0 < b1"
  by (auto simp: second_of_3_def second_of_4_def continuation_def in_range_def split: if_splits)

lemma utf8_unit_of_uses:
  assumes "utf8_unit_of b0 b1 b2 b3 = (True, n)"
  shows "n \<in> {1, 2, 3, 4}" and "1 < n \<Longrightarrow> 0 < b1" and "2 < n \<Longrightarrow> 0 < b2" and "3 < n \<Longrightarrow> 0 < b3"
  using assms by (auto simp: utf8_unit_of_def dest: second_pos split: if_split_asm)

lemma utf8_unit_of_same:
  assumes "utf8_unit_of b0 b1 b2 b3 = (True, n)"
  shows "utf8_unit_of b0 (if 1 < n then b1 else c1) (if 2 < n then b2 else c2)
    (if 3 < n then b3 else c3) = (True, n)"
  using assms by (auto simp: utf8_unit_of_def split: if_split_asm)

lemma utf8_unit_valid:
  assumes "utf8_unit s = (True, n)" and "s \<noteq> []"
  shows "n \<le> length s" and "utf8_unit (take n s @ t) = (True, n)"
proof -
  note u = assms(1) [unfolded utf8_unit_def]
  have "n - 1 < length s"
    using utf8_unit_of_uses [OF u] assms(2) byte_at_pos [of s 1] byte_at_pos [of s 2]
      byte_at_pos [of s 3] by auto
  then show len: "n \<le> length s" by simp
  let ?r = "take n s @ t"
  have same: "byte_at ?r i = (if i < n then byte_at s i else byte_at ?r i)" for i
    using len by (simp add: byte_at_append byte_at_take)
  have pos: "0 < n" using utf8_unit_of_uses(1) [OF u] by auto
  have "utf8_unit ?r = utf8_unit_of (byte_at s 0) (if 1 < n then byte_at s 1 else byte_at ?r 1)
      (if 2 < n then byte_at s 2 else byte_at ?r 2) (if 3 < n then byte_at s 3 else byte_at ?r 3)"
    unfolding utf8_unit_def using same [of 0] same [of 1] same [of 2] same [of 3] pos
    by (simp del: One_nat_def)
  then show "utf8_unit ?r = (True, n)" using utf8_unit_of_same [OF u] by simp
qed

lemma replacement_char_valid: "utf8_unit (replacement_char @ t) = (True, 3)"
  by (simp add: replacement_char_def utf8_def utf8_unit_def utf8_unit_of_def second_of_3_def continuation_def byte_at_def code_def in_range_def)

lemma from_utf8_lossy_valid: "utf8_valid (from_utf8_lossy s)"
proof (induction s rule: from_utf8_lossy.induct)
  case (1 s)
  show ?case
  proof (cases "s = []")
    case False
    let ?u = "if fst (utf8_unit s) then take (utf8_len s) s else replacement_char"
    let ?t = "from_utf8_lossy (drop (utf8_len s) s)"
    have len: "fst (utf8_unit s) \<Longrightarrow> utf8_len s \<le> length s"
      using utf8_unit_valid(1) [of s "utf8_len s"] False
      by (cases "utf8_unit s") (simp add: utf8_len_def)
    have u: "utf8_unit (?u @ ?t) = (True, length ?u)"
      using utf8_unit_valid(2) [of s "utf8_len s" ?t] False len replacement_char_valid [of ?t]
      by (cases "utf8_unit s") (auto simp: utf8_len_def replacement_char_def utf8_def)
    have "?u \<noteq> []"
      using False utf8_len_pos [of s] by (simp add: replacement_char_def utf8_def)
    then have "utf8_valid (?u @ ?t)"
      using u 1 [OF False] by (subst utf8_valid.simps) (simp add: utf8_len_def)
    then show ?thesis using False by (simp add: from_utf8_lossy.simps [of s])
  qed (simp add: from_utf8_lossy.simps utf8_valid.simps)
qed

text \<open>Trimming keeps a character that is in no white-space unit.\<close>

lemma trim_units_keeps:
  "c \<in> set s \<Longrightarrow> \<forall>u \<in> set us. c \<notin> set u \<Longrightarrow> c \<in> set (trim_units us s)"
proof (induction us s rule: trim_units.induct)
  case (1 us s)
  show ?case
  proof (cases "strip_any (nonempty_units us) s")
    case None
    then show ?thesis using 1(2) by (simp add: trim_units.simps [of us s])
  next
    case (Some r)
    then obtain u where "u \<in> set us" "s = u @ r"
      using strip_any_Some [OF Some] by (auto simp: nonempty_units_def)
    then have "c \<in> set r" using 1(2,3) by auto
    with 1(1) [OF Some _ 1(3)] Some show ?thesis by (simp add: trim_units.simps [of us s])
  qed
qed

end
