(* ===== verification/Numerics.thy ===== *)
theory Numerics
  imports Rust_Str
begin

text \<open>
  The numbers of the Rust standard library the code computes with beyond fixed-width integers:
  \<open>f64\<close> by its IEEE-754 bit pattern, with the arithmetic rounded to nearest, ties to even, the
  comparisons (\<open>total_cmp\<close> is the linear order of the type, the operators are partial on NaN)
  and the casts; and \<open>str::parse\<close> for integers and floats.
\<close>

section \<open>Binary64\<close>

datatype f64 = F64 (to_bits: u64)

definition f_neg :: "f64 \<Rightarrow> bool" where "f_neg x = bit (to_bits x) 63"
definition f_pat :: "f64 \<Rightarrow> int" where "f_pat x = uint (take_bit 63 (to_bits x))"

definition inf_pat :: int where "inf_pat = 2047 * 2 ^ 52"

definition f_biased :: "f64 \<Rightarrow> int" where "f_biased x = f_pat x div 2 ^ 52"
definition f_fraction :: "f64 \<Rightarrow> int" where "f_fraction x = f_pat x mod 2 ^ 52"

definition is_nan :: "f64 \<Rightarrow> bool" where "is_nan x \<longleftrightarrow> inf_pat < f_pat x"
definition is_infinite :: "f64 \<Rightarrow> bool" where "is_infinite x \<longleftrightarrow> f_pat x = inf_pat"
definition is_finite :: "f64 \<Rightarrow> bool" where "is_finite x \<longleftrightarrow> f_pat x < inf_pat"

definition pow2 :: "int \<Rightarrow> rat" where
  "pow2 k = (if 0 \<le> k then 2 ^ nat k else 1 / 2 ^ nat (- k))"

text \<open>The value of a finite float: \<open>2 ^ -1074\<close> is the smallest subnormal.\<close>

definition f_mag :: "f64 \<Rightarrow> rat" where
  "f_mag x = (if f_biased x = 0 then of_int (f_fraction x) * pow2 (- 1074)
              else of_int (2 ^ 52 + f_fraction x) * pow2 (f_biased x - 1075))"

definition f_val :: "f64 \<Rightarrow> rat" where "f_val x = (if f_neg x then - f_mag x else f_mag x)"

definition mk_f64 :: "bool \<Rightarrow> int \<Rightarrow> f64" where
  "mk_f64 neg pat = F64 (of_int (pat + (if neg then 2 ^ 63 else 0)))"

definition f_zero :: f64 where "f_zero = mk_f64 False 0"
definition f_infinity :: f64 where "f_infinity = mk_f64 False inf_pat"
definition f_nan :: f64 where "f_nan = mk_f64 False (inf_pat + 2 ^ 51)"

section \<open>Rounding to nearest, ties to even\<close>

function log2_int :: "int \<Rightarrow> int" where
  "log2_int n = (if n < 2 then 0 else 1 + log2_int (n div 2))"
  by pat_completeness auto
termination by (relation "measure nat") auto

declare log2_int.simps [simp del]

text \<open>\<open>\<lfloor>log2 r\<rfloor>\<close> for a positive rational.\<close>

definition log2_rat :: "rat \<Rightarrow> int" where
  "log2_rat r = (if 1 \<le> r then log2_int \<lfloor>r\<rfloor>
                 else - (1 + log2_int (\<lceil>1 / r\<rceil> - 1)))"

definition round_half_even :: "rat \<Rightarrow> int" where
  "round_half_even r =
     (let k = \<lfloor>r\<rfloor>; d = r - of_int k
      in if d < 1 / 2 then k else if 1 / 2 < d then k + 1 else if even k then k else k + 1)"

text \<open>The magnitude pattern of the float nearest to a non-negative rational. With \<open>s\<close> the
  binade above the smallest, the pattern is \<open>s * 2 ^ 52\<close> plus the rounded significand: a carry
  out of the significand moves to the next binade by itself.\<close>

definition round_pat :: "rat \<Rightarrow> int" where
  "round_pat r =
     (if r = 0 then 0
      else let s = max 0 (log2_rat r + 1022);
               q = round_half_even (r * pow2 (1074 - s))
           in min (s * 2 ^ 52 + q) inf_pat)"

definition round_f64 :: "bool \<Rightarrow> rat \<Rightarrow> f64" where
  "round_f64 neg r = mk_f64 neg (round_pat \<bar>r\<bar>)"

section \<open>Arithmetic\<close>

definition f_add :: "f64 \<Rightarrow> f64 \<Rightarrow> f64" where
  "f_add x y =
     (if is_nan x \<or> is_nan y then f_nan
      else if is_infinite x then (if is_infinite y \<and> f_neg x \<noteq> f_neg y then f_nan else x)
      else if is_infinite y then y
      else let r = f_val x + f_val y
           in round_f64 (if r = 0 then f_neg x \<and> f_neg y else r < 0) r)"

definition f_uminus :: "f64 \<Rightarrow> f64" where
  "f_uminus x = mk_f64 (\<not> f_neg x) (f_pat x)"

definition f_sub :: "f64 \<Rightarrow> f64 \<Rightarrow> f64" where
  "f_sub x y = f_add x (f_uminus y)"

definition f_mul :: "f64 \<Rightarrow> f64 \<Rightarrow> f64" where
  "f_mul x y =
     (let neg = (f_neg x \<noteq> f_neg y)
      in if is_nan x \<or> is_nan y then f_nan
         else if is_infinite x \<or> is_infinite y then
           (if f_pat x = 0 \<or> f_pat y = 0 then f_nan else mk_f64 neg inf_pat)
         else round_f64 neg (f_val x * f_val y))"

definition f_div :: "f64 \<Rightarrow> f64 \<Rightarrow> f64" where
  "f_div x y =
     (let neg = (f_neg x \<noteq> f_neg y)
      in if is_nan x \<or> is_nan y then f_nan
         else if is_infinite x then (if is_infinite y then f_nan else mk_f64 neg inf_pat)
         else if is_infinite y then mk_f64 neg 0
         else if f_pat y = 0 then (if f_pat x = 0 then f_nan else mk_f64 neg inf_pat)
         else round_f64 neg (f_val x / f_val y))"

text \<open>The casts \<open>as f64\<close> of an integer and of a float to \<open>u64\<close> (truncating, saturating, NaN to
  zero), and \<open>ceil\<close> of a float.\<close>

definition f_of_nat :: "nat \<Rightarrow> f64" where "f_of_nat n = round_f64 False (of_nat n)"

definition f_of_int :: "int \<Rightarrow> f64" where "f_of_int i = round_f64 (i < 0) (of_int i)"

definition f_to_u64 :: "f64 \<Rightarrow> nat" where
  "f_to_u64 x =
     (if is_nan x \<or> f_neg x then 0 else if is_infinite x then nat u64_max
      else nat (min \<lfloor>f_mag x\<rfloor> u64_max))"

section \<open>Comparisons\<close>

text \<open>The operators \<open><\<close>, \<open><=\<close>, \<open>==\<close>: false on NaN, and the two zeros are equal. The order of the
  finite values and infinities is the order of the sign and the magnitude pattern.\<close>

definition f_ord :: "f64 \<Rightarrow> int" where
  "f_ord x = (if f_neg x then - f_pat x else f_pat x)"

definition f_lt :: "f64 \<Rightarrow> f64 \<Rightarrow> bool" where
  "f_lt x y \<longleftrightarrow> \<not> is_nan x \<and> \<not> is_nan y \<and> f_ord x < f_ord y"
definition f_le :: "f64 \<Rightarrow> f64 \<Rightarrow> bool" where
  "f_le x y \<longleftrightarrow> \<not> is_nan x \<and> \<not> is_nan y \<and> f_ord x \<le> f_ord y"
definition f_eq :: "f64 \<Rightarrow> f64 \<Rightarrow> bool" where
  "f_eq x y \<longleftrightarrow> \<not> is_nan x \<and> \<not> is_nan y \<and> f_ord x = f_ord y"

text \<open>\<open>f64::max\<close> and \<open>f64::min\<close> ignore a NaN operand.\<close>

definition f_max :: "f64 \<Rightarrow> f64 \<Rightarrow> f64" where
  "f_max x y = (if is_nan x then y else if is_nan y then x else if f_lt x y then y else x)"
definition f_min :: "f64 \<Rightarrow> f64 \<Rightarrow> f64" where
  "f_min x y = (if is_nan x then y else if is_nan y then x else if f_lt y x then y else x)"

text \<open>\<open>total_cmp\<close> compares \<open>left ^ (((left >> 63) as u64) >> 1)\<close> as signed integers.\<close>

definition total_key :: "f64 \<Rightarrow> int" where
  "total_key x = (if f_neg x then - f_pat x - 1 else f_pat x)"

lemma f64_eqI: "f_neg x = f_neg y \<Longrightarrow> f_pat x = f_pat y \<Longrightarrow> x = y"
proof (rule f64.expand, rule bit_word_eqI)
  fix n
  assume eq: "f_neg x = f_neg y" "f_pat x = f_pat y" and n: "n < LENGTH(64)"
  from eq(2) have "take_bit 63 (to_bits x) = take_bit 63 (to_bits y)"
    unfolding f_pat_def by (rule word_uint_eqI)
  then have "n < 63 \<Longrightarrow> bit (to_bits x) n = bit (to_bits y) n"
    by (metis bit_take_bit_iff)
  with eq(1) n show "bit (to_bits x) n = bit (to_bits y) n"
    by (cases "n = 63") (auto simp: f_neg_def)
qed

lemma f_pat_nonneg: "0 \<le> f_pat x"
  by (simp add: f_pat_def)

lemma total_key_inj: "total_key x = total_key y \<Longrightarrow> x = y"
  using f_pat_nonneg [of x] f_pat_nonneg [of y]
  by (intro f64_eqI) (auto simp: total_key_def split: if_splits)

instantiation f64 :: linorder
begin

definition less_eq_f64 :: "f64 \<Rightarrow> f64 \<Rightarrow> bool" where "less_eq_f64 x y = (total_key x \<le> total_key y)"
definition less_f64 :: "f64 \<Rightarrow> f64 \<Rightarrow> bool" where "less_f64 x y = (total_key x < total_key y)"

instance
  by standard (auto simp: less_eq_f64_def less_f64_def intro: total_key_inj)

end

text \<open>On comparable values the total order refines the operators.\<close>

lemma f_lt_total: "f_lt x y \<Longrightarrow> x < y"
  using f_pat_nonneg [of x] f_pat_nonneg [of y]
  by (auto simp: f_lt_def f_ord_def less_f64_def total_key_def split: if_splits)

lemma total_f_le: "\<not> is_nan x \<Longrightarrow> \<not> is_nan y \<Longrightarrow> x \<le> y \<Longrightarrow> f_le x y"
  using f_pat_nonneg [of x] f_pat_nonneg [of y]
  by (auto simp: f_le_def f_ord_def less_eq_f64_def total_key_def split: if_splits)

section \<open>Parsing of numbers\<close>

definition digit_val :: "char \<Rightarrow> int option" where
  "digit_val c = (let n = of_char c in if 48 \<le> n \<and> n \<le> 57 then Some (n - 48) else None)"

definition is_digit_char :: "char \<Rightarrow> bool" where "is_digit_char c \<longleftrightarrow> digit_val c \<noteq> None"

text \<open>The value of a string of digits; \<open>None\<close> when it holds another character.\<close>

fun digits_acc :: "int \<Rightarrow> string \<Rightarrow> int option" where
  "digits_acc acc [] = Some acc"
| "digits_acc acc (c # cs) =
     (case digit_val c of Some d \<Rightarrow> digits_acc (10 * acc + d) cs | None \<Rightarrow> None)"

definition digits_val :: "string \<Rightarrow> int option" where
  "digits_val s = (if s = [] then None else digits_acc 0 s)"

text \<open>\<open>parse::<u64>()\<close> and its kin: an optional plus sign, then digits, within the type.\<close>

definition parse_unsigned :: "int \<Rightarrow> string \<Rightarrow> nat option" where
  "parse_unsigned limit s =
     (let ds = (case s of c # cs \<Rightarrow> if c = CHR ''+'' then cs else s | [] \<Rightarrow> s)
      in case digits_val ds of Some n \<Rightarrow> if n \<le> limit then Some (nat n) else None | None \<Rightarrow> None)"

definition parse_u64 :: "string \<Rightarrow> nat option" where "parse_u64 = parse_unsigned (2 ^ 64 - 1)"
definition parse_u32 :: "string \<Rightarrow> nat option" where "parse_u32 = parse_unsigned (2 ^ 32 - 1)"
definition parse_usize :: "string \<Rightarrow> nat option" where "parse_usize = parse_unsigned (2 ^ 64 - 1)"

definition parse_signed :: "nat \<Rightarrow> string \<Rightarrow> int option" where
  "parse_signed w s =
     (case s of
        c # cs \<Rightarrow>
          if c = CHR ''-'' then
            (case digits_val cs of
               Some n \<Rightarrow> if n \<le> 2 ^ (w - 1) then Some (- n) else None
             | None \<Rightarrow> None)
          else map_option int (parse_unsigned (2 ^ (w - 1) - 1) s)
      | [] \<Rightarrow> None)"

definition parse_i64 :: "string \<Rightarrow> int option" where "parse_i64 = parse_signed 64"
definition parse_i32 :: "string \<Rightarrow> int option" where "parse_i32 = parse_signed 32"


text \<open>\<open>parse::<f64>()\<close>: sign, then a special word or a decimal with at least one digit, an
  optional fraction and an optional exponent; correctly rounded.\<close>

definition decimal_val :: "string \<Rightarrow> string \<Rightarrow> int \<Rightarrow> rat option" where
  "decimal_val whole fraction ex =
     (case digits_val (whole @ fraction) of
        None \<Rightarrow> None
      | Some n \<Rightarrow>
          let k = ex - int (length fraction)
          in Some (if 0 \<le> k then of_int n * 10 ^ nat k else of_int n / 10 ^ nat (- k)))"

definition parse_exponent :: "string \<Rightarrow> int option" where
  "parse_exponent s =
     (case s of
        c # cs \<Rightarrow> if c = CHR ''-'' then map_option uminus (digits_val cs)
                  else if c = CHR ''+'' then digits_val cs
                  else digits_val s
      | [] \<Rightarrow> None)"

definition parse_decimal :: "string \<Rightarrow> rat option" where
  "parse_decimal s =
     (let whole = takeWhile is_digit_char s;
          rest = dropWhile is_digit_char s;
          dot = (rest \<noteq> [] \<and> hd rest = CHR ''.'');
          fraction = (if dot then takeWhile is_digit_char (tl rest) else []);
          rest2 = (if dot then dropWhile is_digit_char (tl rest) else rest)
      in case rest2 of
           [] \<Rightarrow> decimal_val whole fraction 0
         | c # cs \<Rightarrow>
             if c = CHR ''e'' \<or> c = CHR ''E'' then
               (case parse_exponent cs of
                  Some ex \<Rightarrow> decimal_val whole fraction ex
                | None \<Rightarrow> None)
             else None)"

definition parse_f64 :: "string \<Rightarrow> f64 option" where
  "parse_f64 s =
     (let neg = (s \<noteq> [] \<and> hd s = CHR ''-'');
          body = (if s \<noteq> [] \<and> (hd s = CHR ''-'' \<or> hd s = CHR ''+'') then tl s else s)
      in if body = [] then None
         else if eq_ignore_ascii_case body ''inf'' \<or> eq_ignore_ascii_case body ''infinity''
         then Some (mk_f64 neg inf_pat)
         else if eq_ignore_ascii_case body ''nan'' then Some (mk_f64 neg (inf_pat + 2 ^ 51))
         else map_option (round_f64 neg) (parse_decimal body))"

section \<open>Printing of integers\<close>

text \<open>\<open>to_string\<close> of an unsigned integer.\<close>

definition digit_char :: "nat \<Rightarrow> char" where "digit_char d = char_of (48 + d)"

function nat_to_string :: "nat \<Rightarrow> string" where
  "nat_to_string n =
     (if n < 10 then [digit_char n] else nat_to_string (n div 10) @ [digit_char (n mod 10)])"
  by pat_completeness auto
termination by (relation "measure id") auto

declare nat_to_string.simps [simp del]

lemma digit_val_digit_char [simp]: "d < 10 \<Longrightarrow> digit_val (digit_char d) = Some (int d)"
proof -
  assume d: "d < 10"
  have "(of_char (digit_char d) :: int) = int (of_char (digit_char d))"
    by (rule of_nat_of_char [symmetric])
  also have "\<dots> = 48 + int d" using d by (simp add: digit_char_def)
  finally show ?thesis using d by (simp add: digit_val_def)
qed

lemma digits_acc_append:
  "digits_acc acc (s @ t) = (case digits_acc acc s of Some a \<Rightarrow> digits_acc a t | None \<Rightarrow> None)"
  by (induction s arbitrary: acc) (auto split: option.split)

lemma digits_acc_nat_to_string:
  "digits_acc 0 (nat_to_string n) = Some (int n)"
proof (induction n rule: nat_to_string.induct)
  case (1 n)
  then show ?case
    by (subst nat_to_string.simps) (auto simp: digits_acc_append zdiv_int zmod_int)
qed

lemma nat_to_string_nonempty [simp]: "nat_to_string n \<noteq> []"
  by (subst nat_to_string.simps) simp

lemma nat_to_string_hd: "digit_val (hd (nat_to_string n)) \<noteq> None"
proof (induction n rule: nat_to_string.induct)
  case (1 n)
  then show ?case by (subst nat_to_string.simps) auto
qed

lemma digits_val_nat_to_string: "digits_val (nat_to_string n) = Some (int n)"
  by (simp add: digits_val_def digits_acc_nat_to_string)

lemma parse_unsigned_nat_to_string:
  "int n \<le> limit \<Longrightarrow> parse_unsigned limit (nat_to_string n) = Some n"
proof -
  assume "int n \<le> limit"
  moreover have "hd (nat_to_string n) \<noteq> CHR ''+''"
    using nat_to_string_hd [of n] by (auto simp: digit_val_def Let_def)
  then have "(case nat_to_string n of c # cs \<Rightarrow> if c = CHR ''+'' then cs else nat_to_string n
      | [] \<Rightarrow> nat_to_string n) = nat_to_string n"
    by (cases "nat_to_string n") auto
  ultimately show ?thesis
    by (simp add: parse_unsigned_def digits_val_nat_to_string)
qed

end
