(* ===== verification/Log_Line.thy ===== *)
theory Log_Line
  imports Simd_Scan Numerics
begin

text \<open>
  The line-level helpers of \<open>crates/core/src/parser_utils.rs\<close>: recognising and splitting the
  timestamp of a log line, resolving time zones, indentation, and formatting of plan lines.
  The regular-expression engine (the fallback of \<open>split_log_line\<close>, the duration pattern) and
  the calendar of \<open>chrono\<close> are parameters; an instant is a number of nanoseconds.
\<close>

section \<open>Splitting a log line\<close>

definition is_log_line_start :: "('v, 'm) Simd \<Rightarrow> u8 list \<Rightarrow> bool" where
  "is_log_line_start S line = (case timestamp_core_simd S line of VMatch _ \<Rightarrow> True | _ \<Rightarrow> False)"

text \<open>\<open>captures\<close> is \<open>fallback.captures\<close> with groups 1 and 2.\<close>

definition split_log_line ::
  "('v, 'm) Simd \<Rightarrow> (string \<Rightarrow> (string \<times> string) option) \<Rightarrow> string \<Rightarrow> (string \<times> string) option"
where
  "split_log_line S captures line =
     (case bytes line of
        [] \<Rightarrow> None
      | first # _ \<Rightarrow>
          if is_ascii first \<and> \<not> is_ascii_digit first then None
          else (case timestamp_prefix_len_simd S (bytes line) of
                  VMatch n \<Rightarrow>
                    Some (take n line, takeWhile (\<lambda>c. code c \<noteq> 10) (drop n line))
                | NoMatch \<Rightarrow> None
                | Unsure \<Rightarrow> captures line))"

section \<open>Time zones\<close>

record TimezoneResolver =
  fixed_offset_seconds :: "int option"
  overrides :: "string \<rightharpoonup> int"

definition new_resolver :: TimezoneResolver where
  "new_resolver = \<lparr>fixed_offset_seconds = None, overrides = Map.empty\<rparr>"

definition with_fixed_offset_seconds :: "TimezoneResolver \<Rightarrow> int \<Rightarrow> TimezoneResolver" where
  "with_fixed_offset_seconds tz s = tz\<lparr>fixed_offset_seconds := Some s\<rparr>"

definition with_override :: "TimezoneResolver \<Rightarrow> string \<Rightarrow> int \<Rightarrow> TimezoneResolver" where
  "with_override tz abbrev s = tz\<lparr>overrides := (overrides tz)(to_ascii_uppercase abbrev \<mapsto> s)\<rparr>"

definition half_hours_table :: "(string list \<times> int) list" where
  "half_hours_table =
     [([''UTC'', ''GMT'', ''UT'', ''Z'', ''ZULU'', ''WET''], 0),
      ([''HST''], - 20), ([''AKST''], - 18), ([''PST'', ''AKDT''], - 16),
      ([''PDT'', ''MST''], - 14), ([''MDT'', ''CST''], - 12), ([''CDT'', ''EST''], - 10),
      ([''EDT'', ''AST'', ''CLT''], - 8), ([''NST''], - 7), ([''BRT'', ''ART''], - 6),
      ([''CET'', ''BST'', ''WEST'', ''WAT''], 2), ([''CEST'', ''EET'', ''SAST'', ''CAT''], 4),
      ([''EEST'', ''MSK'', ''EAT''], 6), ([''PKT''], 10), ([''IST''], 11), ([''ICT'', ''WIB''], 14),
      ([''HKT'', ''SGT'', ''AWST''], 16), ([''JST'', ''KST''], 18), ([''ACST''], 19), ([''AEST''], 20),
      ([''AEDT''], 22), ([''NZST''], 24), ([''NZDT''], 26)]"

definition default_abbreviation_offset_seconds :: "string \<Rightarrow> int option" where
  "default_abbreviation_offset_seconds token =
     (case List.find (\<lambda>(names, _). List.member names token) half_hours_table of
        Some (_, half_hours) \<Rightarrow> Some (half_hours * 1800)
      | None \<Rightarrow> None)"

definition resolve_abbreviation :: "TimezoneResolver \<Rightarrow> string \<Rightarrow> int option" where
  "resolve_abbreviation tz token =
     (case overrides tz token of
        Some s \<Rightarrow> Some s
      | None \<Rightarrow>
          (case fixed_offset_seconds tz of
             Some s \<Rightarrow> Some s
           | None \<Rightarrow> default_abbreviation_offset_seconds token))"

definition two_digits :: "u8 list \<Rightarrow> int option" where
  "two_digits b =
     (if length b \<noteq> 2 \<or> \<not> list_all is_ascii_digit b then None
      else Some (uint (b ! 0 - 48) * 10 + uint (b ! 1 - 48)))"

definition numeric_offset_seconds :: "string \<Rightarrow> int option" where
  "numeric_offset_seconds s =
     (let b = bytes s
      in if \<not> list_all is_ascii b then None
         else
           (case (if length b = 2 then map_option (\<lambda>h. (h, 0)) (two_digits b)
                  else if length b = 4 then
                    (case two_digits (take 2 b) of
                       None \<Rightarrow> None
                     | Some h \<Rightarrow> map_option (\<lambda>m. (h, m)) (two_digits (drop 2 b)))
                  else if length b = 5 \<and> b ! 2 = 58 then
                    (case two_digits (take 2 b) of
                       None \<Rightarrow> None
                     | Some h \<Rightarrow> map_option (\<lambda>m. (h, m)) (two_digits (drop 3 b)))
                  else None) of
              None \<Rightarrow> None
            | Some (hours, minutes) \<Rightarrow>
                if hours > 15 \<or> minutes > 59 then None
                else Some (hours * 3600 + minutes * 60)))"

definition numeric_token_offset_seconds :: "string \<Rightarrow> int option" where
  "numeric_token_offset_seconds token =
     (case strip_prefix ''+'' token of
        Some rest \<Rightarrow> numeric_offset_seconds rest
      | None \<Rightarrow>
          (case strip_prefix ''-'' token of
             Some rest \<Rightarrow> map_option uminus (numeric_offset_seconds rest)
           | None \<Rightarrow> None))"

text \<open>\<open>parse_naive\<close> is the function of the same name inside \<open>parse_timestamp_with_tz\<close> (two
  \<open>chrono\<close> formats); \<open>None\<close> is the \<open>bail!\<close>.\<close>

definition parse_timestamp_with_tz ::
  "(string \<Rightarrow> int option) \<Rightarrow> string \<Rightarrow> TimezoneResolver \<Rightarrow> int option" where
  "parse_timestamp_with_tz parse_naive timestamp_str tz =
     (let trimmed = trim timestamp_str
      in case parse_naive trimmed of
           Some naive_dt \<Rightarrow> Some naive_dt
         | None \<Rightarrow>
             (case rsplit_once '' '' trimmed of
                None \<Rightarrow> None
              | Some (datetime_part, tz_token) \<Rightarrow>
                  (case parse_naive datetime_part of
                     None \<Rightarrow> None
                   | Some naive_dt \<Rightarrow>
                       let offset_seconds =
                         (case numeric_token_offset_seconds tz_token of
                            Some s \<Rightarrow> s
                          | None \<Rightarrow> (case resolve_abbreviation tz tz_token of Some s \<Rightarrow> s | None \<Rightarrow> 0))
                       in Some (naive_dt - offset_seconds * 1000000000))))"

definition parse_timestamp :: "(string \<Rightarrow> int option) \<Rightarrow> string \<Rightarrow> int option" where
  "parse_timestamp parse_naive s = parse_timestamp_with_tz parse_naive s new_resolver"

section \<open>Indentation and formatting\<close>

definition get_indent_level :: "('v, 'm) Simd \<Rightarrow> bool \<Rightarrow> string \<Rightarrow> nat" where
  "get_indent_level S aarch64 line =
     (case leading_whitespace_simd aarch64 S (bytes line) of
        VMatch n \<Rightarrow> n
      | _ \<Rightarrow> leading_ws_chars line)"

text \<open>A plan line: its text and its indentation (\<open>PlanLine\<close> of \<open>models.rs\<close>).\<close>

record PlanLine =
  pl_query :: string
  pl_indentation :: nat

definition format_plan_lines :: "PlanLine list \<Rightarrow> string" where
  "format_plan_lines plan_lines =
     (let plan = concat (map (\<lambda>pl. replicate (pl_indentation pl) CHR '' '' @ pl_query pl @ [CHR 0x0A])
                         plan_lines)
      in if plan \<noteq> [] then butlast plan else plan)"

text \<open>\<open>duration_regex.captures(line)\<close>, group 1, is a parameter.\<close>

definition parse_duration_from_line :: "(string \<Rightarrow> string option) \<Rightarrow> string \<Rightarrow> f64 option" where
  "parse_duration_from_line duration_capture line =
     (case duration_capture line of Some m \<Rightarrow> parse_f64 m | None \<Rightarrow> None)"

section \<open>Lemmas\<close>

lemma of_char_u8: "(of_char c :: u8) = of_int (code c)"
  by (simp add: code_def of_int_of_char)

lemma code_bounds [simp]: "0 \<le> code c" "code c < 256"
proof -
  have "code c = int (of_char c)" by (simp add: code_def of_nat_of_char)
  then show "0 \<le> code c" "code c < 256"
    using nat_of_char_less_256 [of c] by simp_all
qed

lemma code_eq_iff: "0 \<le> k \<Longrightarrow> k < 256 \<Longrightarrow> char_of k = c \<longleftrightarrow> code c = k" for k :: int
  by (auto simp: code_def char_of_eq_iff take_bit_int_eq_self)

lemma uint_of_char [simp]: "uint (of_char c :: u8) = code c"
  by (simp add: of_char_u8 uint_word_of_int mod_pos_pos_trivial)

text \<open>An ASCII white-space byte is a white-space character, any other ASCII byte is not.\<close>

lemma is_ascii_code: "is_ascii (of_char c) \<longleftrightarrow> code c < 128"
  by (simp add: ascii_simps word_less_def)

lemma is_ascii_ws_code: "is_ascii_ws (of_char c) \<longleftrightarrow> code c = 32 \<or> (9 \<le> code c \<and> code c \<le> 13)"
proof -
  have "(of_char c :: u8) - 9 \<le> 4 \<longleftrightarrow> 9 \<le> (of_char c :: u8) \<and> (of_char c :: u8) \<le> 9 + 4"
    by (rule wrapping_range) simp
  moreover have "(of_char c :: u8) = 32 \<longleftrightarrow> code c = 32"
    by (simp add: word_uint_eq_iff)
  ultimately show ?thesis
    by (simp add: is_ascii_ws_def) (simp add: word_le_def)
qed

lemma strip_ws_Cons:
  assumes "is_ascii (of_char c)"
  shows "strip_any (nonempty_units ws_units) (c # cs) = (if is_ascii_ws (of_char c) then Some cs else None)"
proof -
  have c: "code c < 128" using assms by (simp add: is_ascii_code)
  have u: "nonempty_units ws_units = ws_units"
    by (simp add: nonempty_units_def ws_units_def utf8_def)
  show ?thesis
    using c unfolding u is_ascii_ws_code
    by (auto simp: ws_units_def utf8_def code_eq_iff simp del: char_of_eq_iff split: if_splits)
qed

lemma leading_ws_from_count:
  "leading_ws_from (bytes line) i = VMatch n \<Longrightarrow> n = i + leading_ws_chars line"
proof (induction line arbitrary: i)
  case Nil
  have "strip_any (nonempty_units ws_units) [] = None"
    by (simp add: nonempty_units_def ws_units_def utf8_def)
  with Nil show ?case
    by (simp add: bytes_def leading_ws_chars_def count_units.simps [of ws_units "[]"])
next
  case (Cons c cs)
  show ?case
  proof (cases "is_ascii (of_char c)")
    case True
    with Cons.prems Cons.IH [of "Suc i"] strip_ws_Cons [OF True, of cs] show ?thesis
      by (auto simp: bytes_def leading_ws_chars_def count_units.simps [of ws_units "c # cs"]
          split: if_splits)
  next
    case False
    moreover have "is_ascii_ws (of_char c) \<Longrightarrow> is_ascii (of_char c)"
      by (auto simp: is_ascii_ws_code is_ascii_code)
    ultimately have "\<not> is_ascii_ws (of_char c)" by blast
    with False Cons.prems show ?thesis by (simp add: bytes_def)
  qed
qed

text \<open>The two-digit fields of an offset.\<close>

definition digit2 :: "nat \<Rightarrow> string" where
  "digit2 n = [digit_char (n div 10), digit_char (n mod 10)]"

lemma two_digits_digit2:
  assumes "n < 100"
  shows "two_digits (bytes (digit2 n)) = Some (int n)"
proof -
  have d: "n div 10 < 10" "n mod 10 < 10" using assms by auto
  have byte: "of_char (digit_char k) = (48 + of_nat k :: u8)" if "k < 10" for k :: nat
    using that by (simp add: digit_char_def of_nat_of_char [of "char_of (48 + k)", symmetric])
  have small: "uint (of_nat k :: u8) = int k" if "k < 10" for k
    using that by (simp add: uint_nat unat_of_nat)
  have digit: "is_ascii_digit (48 + of_nat k)" if "k < 10" for k
    using that by (simp add: is_ascii_digit_def word_le_nat_alt unat_word_ariths unat_of_nat)
  show ?thesis
    using d unfolding two_digits_def digit2_def bytes_def list.map byte [OF d(1)] byte [OF d(2)]
    by (simp add: digit small zdiv_int zmod_int)
qed

lemma bytes_digit2_ascii: "n < 100 \<Longrightarrow> list_all is_ascii (bytes (digit2 n))"
proof -
  assume "n < 100"
  then have "digit_val (digit_char (n div 10)) \<noteq> None" "digit_val (digit_char (n mod 10)) \<noteq> None"
    by simp_all
  then have "code (digit_char (n div 10)) < 128" "code (digit_char (n mod 10)) < 128"
    by (auto simp: code_def digit_val_def Let_def split: if_splits)
  then show ?thesis by (simp add: digit2_def bytes_def is_ascii_code)
qed

lemma length_digit2 [simp]: "length (digit2 n) = 2"
  by (simp add: digit2_def)

lemma length_bytes [simp]: "length (bytes s) = length s" and bytes_append [simp]: "bytes (s @ t) = bytes s @ bytes t"
  and bytes_Nil [simp]: "bytes [] = []"
  by (simp_all add: bytes_def)

lemma numeric_offset_bounds:
  "numeric_offset_seconds s = Some v \<Longrightarrow> 0 \<le> v \<and> v \<le> 15 * 3600 + 59 * 60"
  by (auto simp: numeric_offset_seconds_def two_digits_def Let_def split: if_splits option.splits)

section \<open>Properties\<close>

text \<open>The indentation of a line is the number of its leading white-space characters in the
  Unicode sense, although the vectorised path only ever sees ASCII: whenever it answers, it
  agrees with the character-decoding path.\<close>

theorem get_indent_level_counts_whitespace:
  assumes "simd_lanes S lane lit"
  shows "get_indent_level S aarch64 line = leading_ws_chars line"
  using simd_lanes.leading_whitespace_simd_eq [OF assms] leading_ws_from_count [of line 0]
  by (auto simp: get_indent_level_def leading_whitespace_scalar_def split: verdict.split)

theorem get_indent_level_counts_whitespace_witness:
  "get_indent_level lane_simd False ''    ->  Seq Scan'' = leading_ws_chars ''    ->  Seq Scan''"
  by (rule get_indent_level_counts_whitespace [OF fallback.simd_lanes_axioms])

lemma numeric_offset_forms:
  assumes "h \<le> 15" and "m \<le> 59" and "sep = [] \<or> sep = '':''"
  shows "numeric_offset_seconds (digit2 h @ sep @ digit2 m) = Some (int h * 3600 + int m * 60)"
    and "numeric_offset_seconds (digit2 h) = Some (int h * 3600)"
proof -
  have hm: "two_digits (bytes (digit2 h)) = Some (int h)" "two_digits (bytes (digit2 m)) = Some (int m)"
      "list_all is_ascii (bytes (digit2 h))" "list_all is_ascii (bytes (digit2 m))"
    using assms by (simp_all add: two_digits_digit2 bytes_digit2_ascii)
  have colon: "bytes '':'' = [58]" "is_ascii 58" by (simp_all add: bytes_def ascii_simps)
  show "numeric_offset_seconds (digit2 h @ sep @ digit2 m) = Some (int h * 3600 + int m * 60)"
    using assms hm by (auto simp: numeric_offset_seconds_def Let_def colon nth_append)
  show "numeric_offset_seconds (digit2 h) = Some (int h * 3600)"
    using assms hm by (simp add: numeric_offset_seconds_def Let_def)
qed

lemma numeric_token_sign:
  "numeric_token_offset_seconds (CHR ''+'' # t) = numeric_offset_seconds t"
  "numeric_token_offset_seconds (CHR ''-'' # t) = map_option uminus (numeric_offset_seconds t)"
  by (simp_all add: numeric_token_offset_seconds_def)

lemma parse_timestamp_zone:
  assumes "parse_naive (trim s) = None" and "rsplit_once '' '' (trim s) = Some (dt, tok)"
    and "parse_naive dt = Some t"
  shows "parse_timestamp_with_tz parse_naive s tz = Some (t - 1000000000 *
    (case numeric_token_offset_seconds tok of Some v \<Rightarrow> v
     | None \<Rightarrow> (case resolve_abbreviation tz tok of Some v \<Rightarrow> v | None \<Rightarrow> 0)))"
  using assms by (simp add: parse_timestamp_with_tz_def Let_def split: option.split)

lemma resolve_abbreviation_eq:
  "resolve_abbreviation tz tok =
    (case overrides tz tok of Some v \<Rightarrow> Some v
     | None \<Rightarrow> (case fixed_offset_seconds tz of Some v \<Rightarrow> Some v
                | None \<Rightarrow> default_abbreviation_offset_seconds tok))"
  by (simp add: resolve_abbreviation_def split: option.split)

text \<open>A numeric zone token is read exactly: the offset printed as \<open>hh\<close>, \<open>hhmm\<close> or \<open>hh:mm\<close>
  after either sign is recovered for every offset up to 15:59; and a timestamp carrying such a
  token is shifted by that offset whatever the resolver is configured with.\<close>

theorem numeric_offset_roundtrip:
  assumes "h \<le> 15" and "m \<le> 59" and "sep = [] \<or> sep = '':''"
    and "tok = digit2 h @ sep @ digit2 m \<and> v = int h * 3600 + int m * 60 \<or>
         tok = digit2 h \<and> v = int h * 3600"
    and "parse_naive (trim s) = None" and "rsplit_once '' '' (trim s) = Some (dt, sign # tok)"
    and "parse_naive dt = Some t"
  shows "numeric_offset_seconds tok = Some v \<and>
    (sign = CHR ''+'' \<longrightarrow> parse_timestamp_with_tz parse_naive s tz = Some (t - 1000000000 * v)) \<and>
    (sign = CHR ''-'' \<longrightarrow> parse_timestamp_with_tz parse_naive s tz = Some (t + 1000000000 * v))"
proof -
  have tok: "numeric_offset_seconds tok = Some v"
    using assms(4) numeric_offset_forms [OF assms(1-3)] by auto
  show ?thesis
    by (auto simp: tok numeric_token_sign parse_timestamp_zone [OF assms(5-7)])
qed

theorem numeric_offset_roundtrip_witness:
  "parse_timestamp_with_tz (\<lambda>s. if s = ''2024'' then Some 7 else None) ''2024 -05:30''
     (with_fixed_offset_seconds new_resolver 28800) = Some 19800000000007"
proof -
  let ?naive = "\<lambda>s. if s = ''2024'' then Some (7::int) else None"
  have trim: "trim ''2024 -05:30'' = ''2024 -05:30''" by code_simp
  have split: "rsplit_once '' '' ''2024 -05:30'' = Some (''2024'', ''-05:30'')" by code_simp
  have tok: "digit2 5 @ CHR '':'' # digit2 30 = ''05:30''" by code_simp
  have "sign = CHR ''-'' \<longrightarrow> parse_timestamp_with_tz ?naive ''2024 -05:30''
      (with_fixed_offset_seconds new_resolver 28800) = Some (7 + 1000000000 * 19800)"
    if "sign = CHR ''-''" for sign
    by (rule numeric_offset_roundtrip [of 5 30 "'':''" "''05:30''", THEN conjunct2, THEN conjunct2])
      (simp_all add: that trim split tok)
  then show ?thesis by simp
qed

text \<open>A timestamp carrying a zone token that is not numeric is shifted by the
  per-abbreviation override if there is one, else by the fixed offset, else by the built-in
  table, else not at all; an override given in any letter case takes effect for its own
  abbreviation and changes no timestamp carrying another.\<close>

theorem parse_timestamp_override:
  assumes "parse_naive (trim s) = None" and "rsplit_once '' '' (trim s) = Some (dt, tok)"
    and "parse_naive dt = Some t" and "numeric_token_offset_seconds tok = None"
  shows "parse_timestamp_with_tz parse_naive s tz = Some (t - 1000000000 *
      (case overrides tz tok of Some v \<Rightarrow> v
       | None \<Rightarrow> (case fixed_offset_seconds tz of Some v \<Rightarrow> v
                  | None \<Rightarrow> (case default_abbreviation_offset_seconds tok of Some v \<Rightarrow> v | None \<Rightarrow> 0)))) \<and>
    (to_ascii_uppercase ab = tok \<longrightarrow>
      parse_timestamp_with_tz parse_naive s (with_override tz ab v) = Some (t - 1000000000 * v)) \<and>
    (to_ascii_uppercase ab \<noteq> tok \<longrightarrow>
      parse_timestamp_with_tz parse_naive s (with_override tz ab v) =
      parse_timestamp_with_tz parse_naive s tz)"
  by (simp add: parse_timestamp_zone [OF assms(1-3)] assms(4) resolve_abbreviation_eq
      with_override_def split: option.split)

theorem parse_timestamp_override_witness:
  "parse_timestamp_with_tz (\<lambda>s. if s = ''2024'' then Some 7 else None) ''2024 CST''
     (with_override new_resolver ''cst'' 28800) = Some (7 - 28800000000000)"
proof -
  let ?naive = "\<lambda>s. if s = ''2024'' then Some (7::int) else None"
  have trim: "trim ''2024 CST'' = ''2024 CST''" by code_simp
  have split: "rsplit_once '' '' ''2024 CST'' = Some (''2024'', ''CST'')" by code_simp
  have tok: "numeric_token_offset_seconds ''CST'' = None" by code_simp
  have up: "to_ascii_uppercase ''cst'' = ''CST''" by code_simp
  have "parse_timestamp_with_tz ?naive ''2024 CST'' (with_override new_resolver ''cst'' 28800) =
      Some (7 - 1000000000 * 28800)"
    by (rule parse_timestamp_override [THEN conjunct2, THEN conjunct1, THEN mp])
      (simp_all add: trim split tok up)
  then show ?thesis by simp
qed

end
