(* ===== verification/Timestamp_Language.thy ===== *)
theory Timestamp_Language
  imports Log_Line
begin

text \<open>
  The language of the timestamp prefix (\<open>LOG_LINE_PATTERN\<close> group 1, restricted to ASCII) as a
  predicate on byte lists, and the proof that the hand-written scanner of
  \<open>simd_scan.rs\<close> returns its longest prefix of a line. \<open>split_log_line\<close> then never needs the
  regular expression on ASCII lines.
\<close>

section \<open>The language\<close>

definition ts_fraction :: "u8 list \<Rightarrow> bool" where
  "ts_fraction f \<longleftrightarrow> f = [] \<or>
     (\<exists>ds. f = 46 # ds \<and> 1 \<le> length ds \<and> length ds \<le> 6 \<and> list_all is_ascii_digit ds)"

definition ts_zone :: "u8 list \<Rightarrow> bool" where
  "ts_zone z =
     (case z of [] \<Rightarrow> True
      | [_] \<Rightarrow> False
      | b # c # r \<Rightarrow> b = 32 \<and>
          (if is_ascii_uppercase c then 1 \<le> length r \<and> length r \<le> 4 \<and> list_all is_ascii_uppercase r
           else (c = 43 \<or> c = 45) \<and>
             (case r of [h1, h2] \<Rightarrow> is_ascii_digit h1 \<and> is_ascii_digit h2
              | [h1, h2, m1, m2] \<Rightarrow> list_all is_ascii_digit [h1, h2, m1, m2]
              | [h1, h2, s, m1, m2] \<Rightarrow> s = 58 \<and> list_all is_ascii_digit [h1, h2, m1, m2]
              | _ \<Rightarrow> False)))"

definition ts_prefix :: "u8 list \<Rightarrow> bool" where
  "ts_prefix p \<longleftrightarrow> (\<exists>core f z. p = core @ f @ z \<and> ts_core core \<and> ts_fraction f \<and> ts_zone z)"

section \<open>The zone\<close>

lemma upper_loop_eq:
  "n \<le> 5 \<Longrightarrow> upper_loop line pos n =
     n + length (takeWhile is_ascii_uppercase (take (5 - n) (drop (pos + 1 + n) line)))"
proof (induction line pos n rule: upper_loop.induct)
  case (1 line pos n)
  show ?case
  proof (cases "n < 5 \<and> pos + 1 + n < length line")
    case False
    then show ?thesis
      using 1(2) by (auto simp: upper_loop.simps [of line pos n] slice_get_def)
  next
    case True
    then have "take (5 - n) (drop (pos + 1 + n) line) =
        line ! (pos + 1 + n) # take (5 - Suc n) (drop (pos + 1 + Suc n) line)"
      by (subst Cons_nth_drop_Suc [symmetric]) (auto simp: take_Cons' )
    with 1 True show ?thesis
      by (auto simp: upper_loop.simps [of line pos n] slice_get_def)
  qed
qed

lemma take_eq_takeWhile_length:
  "list_all P (take n xs) \<Longrightarrow> n \<le> k \<Longrightarrow> n \<le> length xs \<Longrightarrow> n \<le> length (takeWhile P (take k xs))"
proof (induction xs arbitrary: n k)
  case Nil
  then show ?case by simp
next
  case (Cons x xs)
  then show ?case by (cases n; cases k) auto
qed

text \<open>What the scanner accepts after the fraction: the longest zone.\<close>

definition longest :: "(u8 list \<Rightarrow> bool) \<Rightarrow> u8 list \<Rightarrow> nat \<Rightarrow> bool" where
  "longest L t k \<longleftrightarrow> k \<le> length t \<and> L (take k t) \<and>
     (\<forall>m \<le> length t. L (take m t) \<longrightarrow> m \<le> k)"

lemma longest_unique: "longest L t k \<Longrightarrow> longest L t m \<Longrightarrow> k = m"
  by (auto simp: longest_def intro: order_antisym)

lemma upper_not_sign: "is_ascii_uppercase b \<Longrightarrow> b \<noteq> 43 \<and> b \<noteq> 45"
  by (auto simp: ascii_simps)

lemma not_digit_58 [simp]: "\<not> is_ascii_digit 58"
  by (simp add: ascii_simps)

lemma digit_not_colon: "is_ascii_digit b \<Longrightarrow> b \<noteq> 58"
  by (auto simp: ascii_simps)

lemma ts_zone_length: "ts_zone z \<Longrightarrow> length z \<le> 7"
  by (auto simp: ts_zone_def split: list.splits if_splits)

lemma ts_zone_simps:
  "ts_zone []" "\<not> ts_zone [b]"
  "ts_zone (b # c # r) \<longleftrightarrow> b = 32 \<and>
     (if is_ascii_uppercase c then 1 \<le> length r \<and> length r \<le> 4 \<and> list_all is_ascii_uppercase r
      else (c = 43 \<or> c = 45) \<and>
        (case r of [h1, h2] \<Rightarrow> is_ascii_digit h1 \<and> is_ascii_digit h2
         | [h1, h2, m1, m2] \<Rightarrow> list_all is_ascii_digit [h1, h2, m1, m2]
         | [h1, h2, s, m1, m2] \<Rightarrow> s = 58 \<and> list_all is_ascii_digit [h1, h2, m1, m2]
         | _ \<Rightarrow> False))"
  by (simp_all add: ts_zone_def)

lemma longestI:
  "k \<le> length t \<Longrightarrow> L (take k t) \<Longrightarrow> (\<And>z. L z \<Longrightarrow> length z \<le> 7) \<Longrightarrow>
   (\<And>m. m \<le> 7 \<Longrightarrow> m \<le> length t \<Longrightarrow> L (take m t) \<Longrightarrow> m \<le> k) \<Longrightarrow> longest L t k"
  unfolding longest_def by (metis length_take min.absorb2)

lemma le_7_cases: "m \<le> (7::nat) \<Longrightarrow> m \<in> {0, 1, 2, 3, 4, 5, 6, 7}"
  by auto

lemma zone_upper:
  fixes r :: "u8 list"
  assumes c: "is_ascii_uppercase c"
  defines "n \<equiv> length (takeWhile is_ascii_uppercase (take 5 (c # r)))"
  shows "longest ts_zone (32 # c # r) (if 2 \<le> n then 1 + n else 0)"
proof (rule longestI)
  have n5: "n \<le> 5" "n \<le> length (c # r)"
    using length_takeWhile_le [of is_ascii_uppercase "take 5 (c # r)"] by (auto simp: n_def)
  then show "(if 2 \<le> n then 1 + n else 0) \<le> length (32 # c # r)" by simp
  have "take n (c # r) = takeWhile is_ascii_uppercase (take 5 (c # r))"
    using n5 by (metis n_def min.absorb2 takeWhile_eq_take take_take min.commute)
  then have "list_all is_ascii_uppercase (take n (c # r))"
    by (auto simp: list_all_iff dest: set_takeWhileD)
  then show "ts_zone (take (if 2 \<le> n then 1 + n else 0) (32 # c # r))"
    using n5 c by (cases n) (auto simp: ts_zone_simps)
  show "length z \<le> 7" if "ts_zone z" for z using that by (rule ts_zone_length)
  show "m \<le> (if 2 \<le> n then 1 + n else 0)"
    if "m \<le> length (32 # c # r)" "ts_zone (take m (32 # c # r))" for m
  proof (cases "m < 2")
    case True
    with that show ?thesis by (cases m) (auto simp: ts_zone_simps)
  next
    case False
    then obtain j where j: "m = Suc (Suc j)" by (metis add_2_eq_Suc le_Suc_ex not_less)
    with that c have "1 \<le> j" "j \<le> 4" "list_all is_ascii_uppercase (take (Suc j) (c # r))" "j \<le> length r"
      by (auto simp: ts_zone_simps)
    then have "Suc j \<le> n"
      unfolding n_def by (intro take_eq_takeWhile_length) auto
    with j \<open>1 \<le> j\<close> show ?thesis by simp
  qed
qed

definition zone_sign_len :: "u8 \<Rightarrow> u8 list \<Rightarrow> nat" where
  "zone_sign_len c r =
     (if c = 43 \<or> c = 45 then
        (case r of
           h1 # h2 # r' \<Rightarrow>
             if is_ascii_digit h1 \<and> is_ascii_digit h2 then
               (case r' of
                  m1 # m2 # r'' \<Rightarrow>
                    if m1 = 58 then
                      (case r'' of m3 # _ \<Rightarrow> if is_ascii_digit m2 \<and> is_ascii_digit m3 then 7 else 4
                       | [] \<Rightarrow> 4)
                    else if is_ascii_digit m1 \<and> is_ascii_digit m2 then 6 else 4
                | _ \<Rightarrow> 4)
             else 0
         | _ \<Rightarrow> 0)
      else 0)"

lemma list5_cases:
  obtains "r = []" | a where "r = [a]" | a b where "r = [a, b]" | a b d where "r = [a, b, d]"
    | a b d e where "r = [a, b, d, e]" | a b d e f r' where "r = a # b # d # e # f # r'"
  by (metis list.exhaust)

lemma zone_sign_max:
  assumes c: "\<not> is_ascii_uppercase c" and m: "m \<le> 7" "m \<le> length (32 # c # r)"
    and z: "ts_zone (take m (32 # c # r))"
  shows "m \<le> zone_sign_len c r"
  using le_7_cases [OF m(1)] m(2) z
  by (cases r rule: list5_cases; elim insertE emptyE)
    (simp_all add: c zone_sign_len_def ts_zone_simps digit_not_colon split: if_splits)

lemma zone_sign_longest:
  assumes c: "\<not> is_ascii_uppercase c"
  shows "longest ts_zone (32 # c # r) (zone_sign_len c r)"
proof (rule longestI)
  show "zone_sign_len c r \<le> length (32 # c # r)"
    by (auto simp: zone_sign_len_def split: list.split)
  show "ts_zone (take (zone_sign_len c r) (32 # c # r))"
    using c by (auto simp: zone_sign_len_def ts_zone_simps digit_not_colon split: list.split)
  show "length z \<le> 7" if "ts_zone z" for z using that by (rule ts_zone_length)
  show "m \<le> zone_sign_len c r" if "m \<le> 7" "m \<le> length (32 # c # r)" "ts_zone (take m (32 # c # r))" for m
    using zone_sign_max [OF c that] .
qed

text \<open>The zone scanner reads only the text from \<open>pos\<close> on.\<close>

lemma zone_tail_longest:
  assumes pos: "pos \<le> length line" and ok: "zone_tail line pos = VMatch n"
  shows "longest ts_zone (drop pos line) (n - pos) \<and> pos \<le> n"
proof -
  define t where "t = drop pos line"
  have get: "slice_get line (pos + i) = slice_get t i" for i
    by (simp add: t_def slice_get_drop)
  have up: "upper_loop line pos 0 = length (takeWhile is_ascii_uppercase (take 5 (drop 1 t)))"
    by (simp add: upper_loop_eq t_def add.commute)
  have none: "longest ts_zone t 0" if "\<And>m. m \<le> 7 \<Longrightarrow> m \<le> length t \<Longrightarrow> ts_zone (take m t) \<Longrightarrow> m = 0"
    using that by (intro longestI) (auto simp: ts_zone_simps dest: ts_zone_length)
  show ?thesis
  proof (cases "\<exists>c r. t = 32 # c # r")
    case False
    then have "n = pos"
      using ok get [of 0] get [of 1] unfolding zone_tail_def
      by (cases t; cases "tl t") (auto split: if_splits)
    moreover have "longest ts_zone t 0"
    proof (rule none)
      fix m assume "m \<le> length t" "ts_zone (take m t)"
      with False show "m = 0"
        by (cases t; cases "tl t"; cases m; cases "m - 1") (auto simp: ts_zone_simps)
    qed
    ultimately show ?thesis by (simp add: t_def)
  next
    case True
    then obtain c r where t: "t = 32 # c # r" by blast
    show ?thesis
    proof (cases "is_ascii_uppercase c")
      case True
      then show ?thesis
        using zone_upper [OF True, of r] ok get [of 0] get [of 1] up
        by (auto simp: zone_tail_def t t_def [symmetric] Let_def split: if_splits)
    next
      case False
      have g: "slice_get line pos = slice_get t 0" "slice_get line (Suc pos) = slice_get t 1"
          "slice_get line (Suc (Suc pos)) = slice_get t 2" "slice_get line (pos + 3) = slice_get t 3"
          "slice_get line (pos + 4) = slice_get t 4" "slice_get line (5 + pos) = slice_get t 5"
          "slice_get line (6 + pos) = slice_get t 6"
        using get [of 0] get [of 1] get [of 2] get [of 3] get [of 4] get [of 5] get [of 6]
        by (simp_all add: add.commute)
      have "n = pos + zone_sign_len c r"
        using ok False unfolding zone_tail_def Let_def
        by (cases r rule: list5_cases)
          (auto simp: g t zone_sign_len_def digit_not_colon split: if_splits option.splits)
      then show ?thesis
        using zone_sign_longest [OF False, of r] by (simp add: t t_def [symmetric])
    qed
  qed
qed

section \<open>The fraction\<close>

lemma frac_loop_Some:
  "frac_loop line pos n = Some m \<Longrightarrow> n \<le> 6 \<Longrightarrow>
     m = n + length (takeWhile is_ascii_digit (take (6 - n) (drop (pos + 1 + n) line)))"
proof (induction line pos n rule: frac_loop.induct)
  case (1 line pos n)
  show ?case
  proof (cases "n < 6 \<and> pos + 1 + n < length line")
    case False
    then show ?thesis
      using 1(2,3) by (auto simp: frac_loop.simps [of line pos n] slice_get_def split: if_splits)
  next
    case True
    then have "take (6 - n) (drop (pos + 1 + n) line) =
        line ! (pos + 1 + n) # take (6 - Suc n) (drop (pos + 1 + Suc n) line)"
      by (subst Cons_nth_drop_Suc [symmetric]) (auto simp: take_Cons')
    with 1 True show ?thesis
      by (auto simp: frac_loop.simps [of line pos n] slice_get_def split: if_splits)
  qed
qed

lemma frac_loop_None: "frac_loop line pos n = None \<Longrightarrow> \<exists>b \<in> set line. \<not> is_ascii b"
proof (induction line pos n rule: frac_loop.induct)
  case (1 line pos n)
  then show ?case
    by (auto simp: frac_loop.simps [of line pos n] slice_get_Some_iff split: if_splits option.splits)
qed

lemma zone_tail_Unsure: "zone_tail line pos = Unsure \<Longrightarrow> \<exists>b \<in> set line. \<not> is_ascii b"
  by (auto simp: zone_tail_def Let_def slice_get_Some_iff split: if_splits option.splits)

lemma timestamp_tail_Unsure: "timestamp_tail line = Unsure \<Longrightarrow> \<exists>b \<in> set line. \<not> is_ascii b"
  by (auto simp: timestamp_tail_def Let_def dest: frac_loop_None zone_tail_Unsure
      split: if_splits option.splits)

section \<open>The whole prefix\<close>

text \<open>The tail after the nineteen bytes of the core: a fraction and a zone.\<close>

definition ts_tail :: "u8 list \<Rightarrow> bool" where
  "ts_tail r \<longleftrightarrow> (\<exists>f z. r = f @ z \<and> ts_fraction f \<and> ts_zone z)"

lemma ts_zone_hd: "ts_zone z \<Longrightarrow> z = [] \<or> hd z = 32"
  by (auto simp: ts_zone_def split: list.splits)

lemma longest_tail_no_dot:
  assumes "longest ts_zone t k" and "t = [] \<or> hd t \<noteq> 46"
  shows "longest ts_tail t k"
proof -
  have "ts_tail r \<longleftrightarrow> ts_zone r" if "r = [] \<or> hd r \<noteq> 46" for r
    using that by (auto simp: ts_tail_def ts_fraction_def)
  moreover have "take m t = [] \<or> hd (take m t) \<noteq> 46" for m
    using assms(2) by (cases t; cases m) auto
  ultimately show ?thesis using assms(1) unfolding longest_def by blast
qed

lemma longest_tail_dot:
  fixes t' :: "u8 list"
  defines "c \<equiv> length (takeWhile is_ascii_digit (take 6 t'))"
  assumes c1: "1 \<le> c" and k: "longest ts_zone (drop c t') k"
  shows "longest ts_tail (46 # t') (1 + c + k)"
  unfolding longest_def
proof (intro conjI allI impI)
  have c6: "c \<le> 6" "c \<le> length t'"
    using length_takeWhile_le [of is_ascii_digit "take 6 t'"] by (auto simp: c_def)
  have run: "take c t' = takeWhile is_ascii_digit (take 6 t')"
    using c6 by (metis c_def min.absorb2 takeWhile_eq_take take_take min.commute)
  have digits: "list_all is_ascii_digit (take c t')"
    unfolding run by (auto simp: list_all_iff dest: set_takeWhileD)
  show "1 + c + k \<le> length (46 # t')"
    using k c6 by (auto simp: longest_def)
  have "take (1 + c + k) (46 # t') = (46 # take c t') @ take k (drop c t')"
    by (simp add: take_add)
  moreover have "ts_fraction (46 # take c t')"
    using c1 c6 digits by (auto simp: ts_fraction_def)
  ultimately show "ts_tail (take (1 + c + k) (46 # t'))"
    using k unfolding ts_tail_def longest_def by blast
  fix m
  assume m: "m \<le> length (46 # t')" "ts_tail (take m (46 # t'))"
  then obtain f z where fz: "take m (46 # t') = f @ z" "ts_fraction f" "ts_zone z"
    unfolding ts_tail_def by blast
  show "m \<le> 1 + c + k"
  proof (cases f)
    case Nil
    then have "z = []" using fz ts_zone_hd [of z] by (cases m) auto
    with Nil fz(1) show ?thesis by (cases m) auto
  next
    case (Cons a ds)
    then have ds: "a = 46" "length ds \<le> 6" "list_all is_ascii_digit ds" "1 \<le> length ds"
      using fz(2) by (auto simp: ts_fraction_def)
    obtain j where j: "m = Suc j" using fz(1) Cons by (cases m) auto
    then have tj: "take j t' = ds @ z" "j \<le> length t'" using fz(1) m(1) Cons by auto
    then have len: "j = length ds + length z" by (metis length_append length_take min.absorb2)
    then have "ds = take (length ds) t'" using tj(1) by (metis append_eq_conv_conj take_take min.absorb1 le_add1)
    then have "length ds \<le> c"
      unfolding c_def using ds tj len by (intro take_eq_takeWhile_length) auto
    show ?thesis
    proof (cases "length ds = c")
      case True
      then have "z = take (length z) (drop c t')"
        using tj len by (metis append_eq_conv_conj drop_take add_diff_cancel_left')
      then have "length z \<le> k"
        using k fz(3) tj(2) len True unfolding longest_def by auto
      with True j len show ?thesis by simp
    next
      case False
      with \<open>length ds \<le> c\<close> have lt: "length ds < c" by simp
      have "z = []"
      proof (rule ccontr)
        assume "z \<noteq> []"
        then have "t' ! length ds = hd z"
          using tj len by (metis hd_conv_nth length_greater_0_conv less_add_same_cancel1 nth_append_length_plus
              add_0_right nth_take)
        moreover have "is_ascii_digit (t' ! length ds)"
          using digits lt c6 by (auto simp: list_all_length)
        ultimately show False
          using ts_zone_hd [OF fz(3)] \<open>z \<noteq> []\<close> by (simp add: ascii_simps)
      qed
      with lt j len show ?thesis by simp
    qed
  qed
qed

lemma timestamp_tail_longest:
  assumes len: "19 \<le> length line" and ok: "timestamp_tail line = VMatch n"
  shows "longest ts_tail (drop 19 line) (n - 19) \<and> 19 \<le> n"
proof -
  let ?t = "drop 19 line"
  have dot_iff: "slice_get line 19 = Some 46 \<longleftrightarrow> ?t \<noteq> [] \<and> hd ?t = 46"
    by (auto simp: slice_get_Some_iff hd_drop_conv_nth)
  show ?thesis
  proof (cases "slice_get line 19 = Some 46")
    case False
    then have "zone_tail line 19 = VMatch n" using ok by (simp add: timestamp_tail_def)
    from zone_tail_longest [OF len this] show ?thesis
      using False dot_iff longest_tail_no_dot by blast
  next
    case True
    then obtain t' where t: "?t = 46 # t'" using dot_iff by (cases ?t) auto
    have "drop 20 line = drop 1 ?t" by simp
    then have t': "drop 20 line = t'" by (simp add: t)
    from ok True obtain c where c: "frac_loop line 19 0 = Some c"
      and z: "zone_tail line (if 1 \<le> c then 19 + (1 + c) else 19) = VMatch n"
      by (auto simp: timestamp_tail_def Let_def split: option.splits)
    have c_eq: "c = length (takeWhile is_ascii_digit (take 6 t'))"
      using frac_loop_Some [OF c] by (simp add: t')
    have c_le: "c \<le> length t'"
      using length_takeWhile_le [of is_ascii_digit "take 6 t'"] by (simp add: c_eq)
    have "length ?t = Suc (length t')" by (simp add: t)
    then have len': "length line = 20 + length t'" using len by simp
    show ?thesis
    proof (cases "1 \<le> c")
      case True
      have "longest ts_zone (drop (20 + c) line) (n - (20 + c)) \<and> 20 + c \<le> n"
        using zone_tail_longest [of "20 + c" line n] z True c_le len' by simp
      moreover have "drop (20 + c) line = drop c t'" by (simp add: t' [symmetric] add.commute)
      moreover have "n - 19 = 1 + c + (n - (20 + c))" if "20 + c \<le> n" using that by simp
      ultimately show ?thesis
        using longest_tail_dot [of t' "n - (20 + c)"] True by (simp add: t c_eq [symmetric])
    next
      case False
      then have "zone_tail line 19 = VMatch n" using z by simp
      moreover have "zone_tail line 19 = VMatch 19"
        using \<open>slice_get line 19 = Some 46\<close> by (simp add: zone_tail_def)
      ultimately have n: "n = 19" by simp
      have "ts_tail (take m ?t) \<Longrightarrow> m \<le> length ?t \<Longrightarrow> m \<le> 0" for m
      proof -
        assume "ts_tail (take m ?t)" "m \<le> length ?t"
        then obtain f z where fz: "take m ?t = f @ z" "ts_fraction f" "ts_zone z"
          unfolding ts_tail_def by blast
        show "m \<le> 0"
        proof (cases f)
          case Nil
          then have "z = []" using fz ts_zone_hd [of z] t by (cases m) auto
          with Nil fz(1) t show ?thesis by (cases m) auto
        next
          case (Cons a ds)
          then obtain d ds' where "ds = d # ds'" "is_ascii_digit d"
            using fz(2) by (cases ds) (auto simp: ts_fraction_def)
          moreover then obtain r where "t' = d # r"
            using fz(1) t Cons by (cases m; cases t'; cases "m - 1") auto
          ultimately show ?thesis using False by (simp add: c_eq)
        qed
      qed
      then show ?thesis
        by (auto simp: n longest_def ts_tail_def ts_fraction_def ts_zone_def intro: exI [of _ "[]"])
    qed
  qed
qed

lemma longest_prefix:
  assumes len: "19 \<le> length line" and core: "ts_core (take 19 line)"
    and tail: "longest ts_tail (drop 19 line) k"
  shows "longest ts_prefix line (19 + k)"
  unfolding longest_def
proof (intro conjI allI impI)
  show "19 + k \<le> length line" using tail len by (auto simp: longest_def)
  have "take (19 + k) line = take 19 line @ take k (drop 19 line)" by (rule take_add)
  then show "ts_prefix (take (19 + k) line)"
    using tail core unfolding longest_def ts_prefix_def ts_tail_def by metis
  fix m assume m: "m \<le> length line" "ts_prefix (take m line)"
  then obtain c r where c: "take m line = c @ r" "ts_core c" "ts_tail r"
    unfolding ts_prefix_def ts_tail_def by metis
  then have l: "length c = 19" by (simp add: ts_core_def)
  then have m19: "m = 19 + length r" using c(1) m(1) by (metis length_append length_take min.absorb2)
  have "r = drop 19 (take m line)" using c(1) l by simp
  also have "\<dots> = take (length r) (drop 19 line)" using m19 by (simp add: drop_take)
  finally have "ts_tail (take (length r) (drop 19 line))" using c(3) by simp
  then show "m \<le> 19 + k"
    using tail m19 m(1) unfolding longest_def by auto
qed

lemma timestamp_prefix_len_scalar_spec:
  "case timestamp_prefix_len_scalar line of
     VMatch n \<Rightarrow> longest ts_prefix line n
   | NoMatch \<Rightarrow> \<forall>m. \<not> ts_prefix (take m line)
   | Unsure \<Rightarrow> \<exists>b \<in> set line. \<not> is_ascii b"
proof (cases "19 \<le> length line \<and> ts_core (take 19 line)")
  case False
  have none: "\<not> ts_prefix (take m line)" for m
  proof
    assume "ts_prefix (take m line)"
    then obtain c r where c: "take m line = c @ r" "ts_core c"
      unfolding ts_prefix_def by metis
    then have l: "length c = 19" by (simp add: ts_core_def)
    then have "19 \<le> length line" using c(1) by (metis le_add1 le_trans length_append length_take min.cobounded1)
    moreover have "take 19 line = c"
      using c(1) l by (metis append_eq_conv_conj append_take_drop_id take_append le_add1 take_all
          length_append length_take min.cobounded2 take_take min.absorb1)
    ultimately show False using False c(2) by simp
  qed
  show ?thesis
  proof (cases "timestamp_core_scalar line")
    case (VMatch n)
    with False show ?thesis by (auto simp: timestamp_core_scalar_eq split: if_splits)
  next
    case NoMatch
    with none show ?thesis by (simp add: timestamp_prefix_len_scalar_def)
  next
    case Unsure
    then show ?thesis
      by (auto simp: timestamp_prefix_len_scalar_def timestamp_core_scalar_eq split: if_splits
          dest: in_set_takeD)
  qed
next
  case True
  show ?thesis
  proof (cases "\<exists>b \<in> set (take 19 line). \<not> is_ascii b")
    case nonascii: True
    with True show ?thesis
      by (auto simp: timestamp_prefix_len_scalar_def timestamp_core_scalar_eq dest: in_set_takeD)
  next
    case False
    with True have eq: "timestamp_prefix_len_scalar line = timestamp_tail line"
      by (simp add: timestamp_prefix_len_scalar_def timestamp_core_scalar_eq)
    show ?thesis
    proof (cases "timestamp_tail line")
      case (VMatch n)
      then have "longest ts_tail (drop 19 line) (n - 19)" "19 \<le> n"
        using timestamp_tail_longest True by blast+
      then show ?thesis
        using longest_prefix [of line "n - 19"] True VMatch eq by simp
    next
      case NoMatch
      then show ?thesis
        by (auto simp: timestamp_tail_def zone_tail_def Let_def split: if_splits option.splits)
    next
      case Unsure
      with eq timestamp_tail_Unsure show ?thesis by simp
    qed
  qed
qed

section \<open>Properties\<close>

text \<open>C14: whatever the line, the vectorised timestamp scanner either returns the length of the
  longest prefix of the line in the language of \<open>LOG_LINE_PATTERN\<close>'s first group, or reports that
  no prefix is in it, or (\<open>Unsure\<close>, the regular expression decides) the line has a non-ASCII
  byte.\<close>

theorem timestamp_prefix_len_longest:
  assumes "simd_lanes S lane lit"
  shows "case timestamp_prefix_len_simd S line of
           VMatch n \<Rightarrow> longest ts_prefix line n
         | NoMatch \<Rightarrow> \<forall>m. \<not> ts_prefix (take m line)
         | Unsure \<Rightarrow> \<exists>b \<in> set line. \<not> is_ascii b"
  using timestamp_prefix_len_scalar_spec [of line] simd_lanes.timestamp_core_simd_eq [OF assms]
  by (simp add: timestamp_prefix_len_simd_def timestamp_prefix_len_scalar_def)

lemma sample_timestamp:
  "timestamp_prefix_len_scalar (bytes ''2024-01-02 03:04:05.123 +05:30 LOG'') = VMatch 30"
  by code_simp

theorem timestamp_prefix_len_longest_witness:
  "longest ts_prefix (bytes ''2024-01-02 03:04:05.123 +05:30 LOG'') 30"
  using timestamp_prefix_len_longest [OF fallback.simd_lanes_axioms,
      of "bytes ''2024-01-02 03:04:05.123 +05:30 LOG''"] sample_timestamp
  by (simp add: timestamp_prefix_len_simd_def fallback.timestamp_core_simd_eq
      timestamp_prefix_len_scalar_def)

text \<open>On an ASCII line \<open>split_log_line\<close> never consults the regular expression (its result
  does not depend on the fallback) and returns exactly the two groups of the pattern: the
  longest timestamp prefix, and the rest up to the first line feed; it returns nothing exactly
  when no prefix is a timestamp.\<close>

theorem split_log_line_ascii:
  assumes simd: "simd_lanes S lane lit" and ascii: "\<forall>b \<in> set (bytes line). is_ascii b"
  shows "split_log_line S captures line = Some (ts, rest) \<longleftrightarrow>
    (\<exists>n. longest ts_prefix (bytes line) n \<and> ts = take n line \<and>
         rest = takeWhile (\<lambda>c. code c \<noteq> 10) (drop n line))"
proof -
  have spec: "case timestamp_prefix_len_simd S (bytes line) of
           VMatch n \<Rightarrow> longest ts_prefix (bytes line) n
         | NoMatch \<Rightarrow> \<forall>m. \<not> ts_prefix (take m (bytes line))
         | Unsure \<Rightarrow> \<exists>b \<in> set (bytes line). \<not> is_ascii b"
    using timestamp_prefix_len_scalar_spec [of "bytes line"] simd_lanes.timestamp_core_simd_eq [OF simd]
    by (simp add: timestamp_prefix_len_simd_def timestamp_prefix_len_scalar_def)
  show ?thesis
  proof (cases "bytes line = [] \<or> \<not> is_ascii_digit (hd (bytes line))")
    case True
    have "\<not> ts_prefix (take m (bytes line))" for m
    proof
      assume "ts_prefix (take m (bytes line))"
      then obtain c r where "take m (bytes line) = c @ r" "ts_core c"
        unfolding ts_prefix_def by metis
      moreover from \<open>ts_core c\<close> have ne: "c \<noteq> []" and "shape_byte (TS_SHAPE ! 0) (c ! 0)"
        by (auto simp: ts_core_def)
      then have "is_ascii_digit (hd c)"
        by (simp add: shape_byte_def TS_SHAPE_eq hd_conv_nth)
      ultimately show False
        using True ne by (cases "bytes line"; cases m; cases c) auto
    qed
    moreover have "split_log_line S captures line = None"
      using True ascii by (cases "bytes line") (auto simp: split_log_line_def)
    ultimately show ?thesis by (auto simp: longest_def)
  next
    case False
    then have eq: "split_log_line S captures line =
        (case timestamp_prefix_len_simd S (bytes line) of
           VMatch n \<Rightarrow> Some (take n line, takeWhile (\<lambda>c. code c \<noteq> 10) (drop n line))
         | NoMatch \<Rightarrow> None | Unsure \<Rightarrow> captures line)"
      by (cases "bytes line") (auto simp: split_log_line_def)
    show ?thesis
    proof (cases "timestamp_prefix_len_simd S (bytes line)")
      case (VMatch n)
      with spec eq show ?thesis by (auto dest: longest_unique)
    next
      case NoMatch
      with spec eq show ?thesis by (auto simp: longest_def)
    next
      case Unsure
      with spec ascii show ?thesis by simp
    qed
  qed
qed

theorem split_log_line_ascii_witness:
  "split_log_line lane_simd (\<lambda>_. None) ''2024-01-02 03:04:05.123 +05:30 LOG'' =
     Some (''2024-01-02 03:04:05.123 +05:30'', '' LOG'')"
proof -
  let ?l = "''2024-01-02 03:04:05.123 +05:30 LOG''"
  have "longest ts_prefix (bytes ?l) 30"
    using timestamp_prefix_len_scalar_spec [of "bytes ?l"] by (simp add: sample_timestamp)
  moreover have "\<forall>b \<in> set (bytes ?l). is_ascii b" by (simp add: bytes_def ascii_simps)
  ultimately show ?thesis
    unfolding split_log_line_ascii [OF fallback.simd_lanes_axioms \<open>\<forall>b \<in> set (bytes ?l). is_ascii b\<close>]
    by (intro exI [of _ 30]) (simp add: code_def)
qed

end
