(* ===== verification/Cost_Tuple.thy ===== *)
theory Cost_Tuple
  imports Simd_Scan Numerics
begin

text \<open>
  The exact-or-decline parser of \<open>(cost=a..b rows=r width=w)\<close> in
  \<open>crates/core/src/simd_scan.rs\<close> (\<open>parse_cost_tuple\<close>, \<open>scan_labelled_int\<close>), and its
  characterisation by the shape of the line.
\<close>

section \<open>Definitions\<close>

text \<open>\<open>str::from_utf8\<close> of bytes that are ASCII always succeeds; the result is their text.\<close>

definition ascii_str :: "u8 list \<Rightarrow> string" where
  "ascii_str bs = map (\<lambda>b. char_of (unat b)) bs"

definition scan_labelled_int :: "u8 list \<Rightarrow> nat \<Rightarrow> u8 list \<Rightarrow> (nat \<times> nat) option" where
  "scan_labelled_int line pos label =
     (let k = scan_while (\<lambda>k. is_ascii_whitespace (line ! k)) (length line) pos
      in if k = pos \<or> \<not> starts_with (drop k line) label then None
         else
           (let digits = k + length label;
                stop = scan_while (\<lambda>k. is_ascii_digit (line ! k)) (length line) digits
            in if stop = digits then None
               else map_option (\<lambda>value. (value, stop))
                      (parse_u64 (ascii_str (slice line digits stop)))))"

text \<open>\<open>windows(2).any(|w| w == b"..")\<close>.\<close>

fun has_dot_pair :: "u8 list \<Rightarrow> bool" where
  "has_dot_pair (x # y # zs) \<longleftrightarrow> (x = 46 \<and> y = 46) \<or> has_dot_pair (y # zs)"
| "has_dot_pair _ \<longleftrightarrow> False"

text \<open>The last third of \<open>parse_cost_tuple\<close>: the two labelled integers and the parenthesis.\<close>

definition cost_tuple_tail ::
  "u8 list \<Rightarrow> nat \<Rightarrow> f64 \<Rightarrow> f64 \<Rightarrow> (f64 \<times> f64 \<times> nat \<times> nat) option" where
  "cost_tuple_tail line j min_cost max_cost =
     (case scan_labelled_int line j (bytes ''rows='') of
        None \<Rightarrow> None
      | Some (rows, k) \<Rightarrow>
          (case scan_labelled_int line k (bytes ''width='') of
             None \<Rightarrow> None
           | Some (width, k) \<Rightarrow>
               if slice_get line k \<noteq> Some 41 then None
               else if width < 2 ^ 32 then Some (min_cost, max_cost, rows, width)
               else None))"

definition parse_cost_tuple ::
  "('v, 'm) Simd \<Rightarrow> u8 list \<Rightarrow> (f64 \<times> f64 \<times> nat \<times> nat) option" where
  "parse_cost_tuple S line =
     (case find_literal_simd S line (bytes ''(cost='') of
        None \<Rightarrow> None
      | Some found \<Rightarrow>
          let start = found + length (bytes ''(cost='');
              i = scan_while (\<lambda>i. is_ascii_digit (line ! i) \<or>
                       (line ! i = 46 \<and> slice_get line (i + 1) \<noteq> Some 46)) (length line) start
          in if slice_get line i \<noteq> Some 46 \<or> slice_get line (i + 1) \<noteq> Some 46 \<or> i = start then None
             else if slice_get line (i + 2) = Some 46 then None
             else (case parse_f64 (ascii_str (slice line start i)) of
               None \<Rightarrow> None
             | Some min_cost \<Rightarrow>
                 let max_start = i + 2;
                     j = scan_while (\<lambda>j. is_ascii_digit (line ! j) \<or> line ! j = 46)
                           (length line) max_start;
                     max_bytes = slice line max_start j
                 in if max_bytes = [] \<or> has_dot_pair max_bytes then None
                    else (case parse_f64 (ascii_str max_bytes) of
                      None \<Rightarrow> None
                    | Some max_cost \<Rightarrow>
                        cost_tuple_tail line j min_cost max_cost)))"

section \<open>Characterisation\<close>

abbreviation numeric_byte :: "u8 \<Rightarrow> bool" where
  "numeric_byte b \<equiv> is_ascii_digit b \<or> b = 46"

lemma ws_not_digit: "is_ascii_whitespace b \<Longrightarrow> \<not> is_ascii_digit b \<and> b \<noteq> 46 \<and> b \<noteq> 41"
  by (auto simp: ascii_simps)

lemma drop_run:
  assumes "i \<le> length xs"
  shows "drop (i + length (takeWhile P (drop i xs))) xs = dropWhile P (drop i xs)"
    and "slice xs i (i + length (takeWhile P (drop i xs))) = takeWhile P (drop i xs)"
  by (simp_all add: slice_def dropWhile_eq_drop add.commute takeWhile_eq_take [symmetric])

lemma takeWhile_prefix:
  "list_all P xs \<Longrightarrow> (ys = [] \<or> \<not> P (hd ys)) \<Longrightarrow> takeWhile P (xs @ ys) = xs"
  by (induction xs) (cases ys; auto)+

lemma dropWhile_prefix:
  "list_all P xs \<Longrightarrow> (ys = [] \<or> \<not> P (hd ys)) \<Longrightarrow> dropWhile P (xs @ ys) = ys"
  by (induction xs) (cases ys; auto)+

text \<open>A labelled integer at the front of a text: white space, the label, digits.\<close>

definition labelled_int :: "u8 list \<Rightarrow> u8 list \<Rightarrow> nat \<Rightarrow> u8 list \<Rightarrow> bool" where
  "labelled_int label text v rest \<longleftrightarrow>
     (\<exists>ws ds. text = ws @ label @ ds @ rest \<and> ws \<noteq> [] \<and> list_all is_ascii_whitespace ws \<and>
        ds \<noteq> [] \<and> list_all is_ascii_digit ds \<and> (rest = [] \<or> \<not> is_ascii_digit (hd rest)) \<and>
        parse_u64 (ascii_str ds) = Some v)"

lemma scan_labelled_int_iff:
  assumes pos: "pos \<le> length line" and label: "label \<noteq> []" "\<not> is_ascii_whitespace (hd label)"
  shows "scan_labelled_int line pos label = Some (v, k) \<longleftrightarrow>
    k \<le> length line \<and> labelled_int label (drop pos line) v (drop k line)"
proof -
  let ?text = "drop pos line"
  let ?ws = "takeWhile is_ascii_whitespace ?text" and ?r = "dropWhile is_ascii_whitespace ?text"
  let ?k = "pos + length ?ws"
  let ?ds = "takeWhile is_ascii_digit (drop (length label) ?r)"
  have k: "scan_while (\<lambda>k. is_ascii_whitespace (line ! k)) (length line) pos = ?k"
    using scan_while_takeWhile [OF pos] .
  have kle: "?k \<le> length line"
    using pos length_takeWhile_le [of is_ascii_whitespace ?text] by simp
  note r = drop_run [OF pos, of is_ascii_whitespace]
  have stop: "scan_while (\<lambda>k. is_ascii_digit (line ! k)) (length line) (?k + length label) =
        ?k + length label + length ?ds"
      "slice line (?k + length label) (?k + length label + length ?ds) = ?ds"
      "drop (?k + length label + length ?ds) line = dropWhile is_ascii_digit (drop (length label) ?r)"
    if "starts_with ?r label"
  proof -
    have "length label \<le> length line - ?k"
      using starts_with_length [OF that] by (simp add: r(1) [symmetric])
    then have le: "?k + length label \<le> length line" using kle by arith
    have d: "drop (?k + length label) line = drop (length label) ?r"
      by (simp add: r(1) [symmetric] add.commute)
    show "scan_while (\<lambda>k. is_ascii_digit (line ! k)) (length line) (?k + length label) =
        ?k + length label + length ?ds"
      using scan_while_takeWhile [OF le, of is_ascii_digit] by (simp add: d)
    show "slice line (?k + length label) (?k + length label + length ?ds) = ?ds"
      "drop (?k + length label + length ?ds) line = dropWhile is_ascii_digit (drop (length label) ?r)"
      using drop_run [OF le, of is_ascii_digit] by (simp_all add: d)
  qed
  show ?thesis
  proof
    assume ok: "scan_labelled_int line pos label = Some (v, k)"
    then have sw: "starts_with ?r label" and "?ws \<noteq> []"
      by (auto simp: scan_labelled_int_def k r(1) Let_def split: if_splits)
    moreover from ok sw have "?ds \<noteq> []" and kk: "k = ?k + length label + length ?ds"
      and "parse_u64 (ascii_str ?ds) = Some v"
      by (auto simp: scan_labelled_int_def k r(1) Let_def stop split: if_splits)
    moreover have "?text = ?ws @ label @ ?ds @ drop k line"
      using sw by (auto simp: starts_with_iff kk stop(3) [OF sw])
        (metis append_eq_conv_conj takeWhile_dropWhile_id)
    moreover have "k \<le> length line"
    proof -
      from ok sw show ?thesis
        using stop(1) [OF sw] scan_while_le [of "?k + length label" "length line"] starts_with_length [OF sw]
          kle kk by (metis (no_types, lifting) le_add_diff_inverse length_drop nat_add_left_cancel_le r(1))
    qed
    moreover have "drop k line = [] \<or> \<not> is_ascii_digit (hd (drop k line))"
      by (metis hd_dropWhile kk stop(3) [OF sw])
    moreover have "list_all is_ascii_whitespace ?ws" "list_all is_ascii_digit ?ds"
      by (auto simp: list_all_iff dest: set_takeWhileD)
    ultimately show "k \<le> length line \<and> labelled_int label ?text v (drop k line)"
      unfolding labelled_int_def by blast
  next
    assume asm: "k \<le> length line \<and> labelled_int label ?text v (drop k line)"
    then obtain ws ds where t: "?text = ws @ label @ ds @ drop k line" "ws \<noteq> []"
        "list_all is_ascii_whitespace ws" "ds \<noteq> []" "list_all is_ascii_digit ds"
        "drop k line = [] \<or> \<not> is_ascii_digit (hd (drop k line))" "parse_u64 (ascii_str ds) = Some v"
      unfolding labelled_int_def by blast
    have ws: "?ws = ws" and rr: "?r = label @ ds @ drop k line"
      using t(3) label by (auto simp: t(1) intro!: takeWhile_prefix dropWhile_prefix)
    have ds: "?ds = ds"
      using t(5,6) by (simp add: rr takeWhile_prefix)
    have sw: "starts_with ?r label" by (auto simp: rr starts_with_iff)
    have "length ?text = length ws + length label + length ds + (length line - k)"
      by (simp add: t(1))
    then have "k = ?k + length label + length ds"
      using asm pos ws t(4) by (simp add: ws) arith
    then show "scan_labelled_int line pos label = Some (v, k)"
      using t(2,4,7) sw stop(1,2) [OF sw, unfolded ds ws] k [unfolded ws] r(1) [unfolded ws]
      by (simp add: scan_labelled_int_def Let_def ws)
  qed
qed

text \<open>The run before the \<open>..\<close>: the scan steps over a dot only when no dot follows.\<close>

definition min_step :: "u8 list \<Rightarrow> bool" where
  "min_step t \<longleftrightarrow> is_ascii_digit (t ! 0) \<or> (t ! 0 = 46 \<and> slice_get t 1 \<noteq> Some 46)"

definition single_dots :: "u8 list \<Rightarrow> bool" where
  "single_dots a \<longleftrightarrow> list_all numeric_byte a \<and> \<not> has_dot_pair a"

lemma single_dots_Cons:
  "single_dots (x # a) \<longleftrightarrow>
     (is_ascii_digit x \<or> (x = 46 \<and> (a = [] \<or> hd a \<noteq> 46))) \<and> single_dots a"
  by (cases a) (auto simp: single_dots_def is_ascii_digit_def)

lemma scan_len_min:
  "single_dots a \<Longrightarrow> a = [] \<or> last a \<noteq> 46 \<Longrightarrow> scan_len min_step (a @ 46 # 46 # rest) = length a"
proof (induction a)
  case Nil
  then show ?case by (simp add: is_ascii_digit_def min_step_def)
next
  case (Cons x a)
  then show ?case
    by (cases a) (auto simp: single_dots_Cons min_step_def)
qed

lemma scan_len_min_run:
  assumes "slice_get t (scan_len min_step t) = Some 46"
    and "slice_get t (scan_len min_step t + 1) = Some 46"
  shows "\<exists>a rest. t = a @ 46 # 46 # rest \<and> length a = scan_len min_step t \<and> single_dots a \<and>
           (a = [] \<or> last a \<noteq> 46)"
  using assms
proof (induction t)
  case Nil
  then show ?case by simp
next
  case (Cons x t)
  show ?case
  proof (cases "min_step (x # t)")
    case False
    then obtain rest where "x # t = [] @ 46 # 46 # rest" "scan_len min_step (x # t) = 0"
      using Cons.prems by (cases t) auto
    then show ?thesis by (intro exI [of _ "[]"] exI [of _ rest]) (simp add: single_dots_def)
  next
    case True
    then have "slice_get t (scan_len min_step t) = Some 46" "slice_get t (scan_len min_step t + 1) = Some 46"
      using Cons.prems by simp_all
    then obtain a rest where a: "t = a @ 46 # 46 # rest" "length a = scan_len min_step t"
        "single_dots a" "a = [] \<or> last a \<noteq> 46"
      using Cons.IH by blast
    have "x # t = (x # a) @ 46 # 46 # rest" "length (x # a) = scan_len min_step (x # t)"
      using a True by simp_all
    moreover have "single_dots (x # a) \<and> last (x # a) \<noteq> 46"
      using True a by (cases a) (auto simp: single_dots_Cons is_ascii_digit_def min_step_def)
    ultimately show ?thesis by blast
  qed
qed

definition cost_shape :: "u8 list \<Rightarrow> f64 \<Rightarrow> f64 \<Rightarrow> nat \<Rightarrow> nat \<Rightarrow> bool" where
  "cost_shape line mn mx rows width \<longleftrightarrow>
     (\<exists>pre a b t1 t2 post.
        line = pre @ bytes ''(cost='' @ a @ 46 # 46 # b @ t1 \<and>
        find_sub (bytes ''(cost='') line = Some (length pre) \<and>
        a \<noteq> [] \<and> single_dots a \<and> last a \<noteq> 46 \<and> parse_f64 (ascii_str a) = Some mn \<and>
        b \<noteq> [] \<and> single_dots b \<and> hd b \<noteq> 46 \<and> parse_f64 (ascii_str b) = Some mx \<and>
        labelled_int (bytes ''rows='') t1 rows t2 \<and>
        labelled_int (bytes ''width='') t2 width (41 # post) \<and> width < 2 ^ 32)"

lemma scan_len_numeric:
  "scan_while (\<lambda>j. numeric_byte (line ! j)) (length line) i =
     i + length (takeWhile numeric_byte (drop i line))" if "i \<le> length line"
  using that by (rule scan_while_takeWhile)

lemma min_scan:
  assumes "start \<le> length line"
  shows "scan_while (\<lambda>i. is_ascii_digit (line ! i) \<or> (line ! i = 46 \<and> slice_get line (i + 1) \<noteq> Some 46))
      (length line) start = start + scan_len min_step (drop start line)"
  using assms by (intro scan_while_scan_len) (simp_all add: slice_get_drop min_step_def)

lemma labelled_int_hd:
  assumes "labelled_int label t v rest"
  shows "t \<noteq> []" and "is_ascii_whitespace (hd t)"
  using assms by (auto simp: labelled_int_def list_all_iff)

text \<open>The bounds part of the parser, on the text after the marker.\<close>

lemma rows_width_iff:
  assumes "j \<le> length line"
  shows "cost_tuple_tail line j mn mx =
      Some (mn', mx', rows, width) \<longleftrightarrow>
    mn' = mn \<and> mx' = mx \<and> width < 2 ^ 32 \<and>
    (\<exists>t2 post. labelled_int (bytes ''rows='') (drop j line) rows t2 \<and>
       labelled_int (bytes ''width='') t2 width (41 # post))"
    (is "?lhs \<longleftrightarrow> ?rhs")
proof -
  have labels: "bytes ''rows='' \<noteq> []" "\<not> is_ascii_whitespace (hd (bytes ''rows=''))"
    "bytes ''width='' \<noteq> []" "\<not> is_ascii_whitespace (hd (bytes ''width=''))"
    by (simp_all add: bytes_def is_ascii_whitespace_def)
  note rows = scan_labelled_int_iff [OF assms labels(1,2)]
  note width = scan_labelled_int_iff [OF _ labels(3,4)]
  show ?thesis
  proof
    assume ?lhs
    then obtain k k' where "scan_labelled_int line j (bytes ''rows='') = Some (rows, k)"
        "scan_labelled_int line k (bytes ''width='') = Some (width, k')"
        "slice_get line k' = Some 41" "width < 2 ^ 32" "mn' = mn" "mx' = mx"
      by (auto simp: cost_tuple_tail_def split: option.splits prod.splits if_splits)
    moreover then have "drop k' line = 41 # drop (Suc k') line"
      by (metis Cons_nth_drop_Suc slice_get_Some_iff)
    ultimately show ?rhs
      using rows width by metis
  next
    assume ?rhs
    then obtain t2 post where t: "labelled_int (bytes ''rows='') (drop j line) rows t2"
        "labelled_int (bytes ''width='') t2 width (41 # post)" and e: "mn' = mn" "mx' = mx" "width < 2 ^ 32"
      by blast
    then obtain u where u: "drop j line = u @ t2" unfolding labelled_int_def by (metis append.assoc)
    define k where "k = j + length u"
    have len: "length line = j + length (drop j line)" using assms by simp
    have k: "k \<le> length line" "drop k line = t2"
      using len by (simp_all add: k_def u drop_drop [symmetric] add.commute [of j] del: drop_drop)
    obtain w where w: "t2 = w @ 41 # post" using t(2) unfolding labelled_int_def by (metis append.assoc)
    define k' where "k' = k + length w"
    have len': "length line = k + length t2" using k by (metis add_diff_inverse_nat length_drop not_le)
    have k': "k' \<le> length line" "drop k' line = 41 # post"
      using len' k by (simp_all add: k'_def w drop_drop [symmetric] add.commute [of k] del: drop_drop)
    then have "slice_get line k' = Some 41"
      by (metis slice_get_drop slice_get_Cons_0 add_0_right)
    moreover have "scan_labelled_int line j (bytes ''rows='') = Some (rows, k)"
      using rows [of rows k] k t(1) by simp
    moreover have "scan_labelled_int line k (bytes ''width='') = Some (width, k')"
      using width [OF k(1), of width k'] k k' t(2) by simp
    ultimately show ?lhs using e by (simp add: cost_tuple_tail_def)
  qed
qed

definition tuple_shape :: "u8 list \<Rightarrow> f64 \<Rightarrow> f64 \<Rightarrow> nat \<Rightarrow> nat \<Rightarrow> bool" where
  "tuple_shape text mn mx rows width \<longleftrightarrow>
     (\<exists>a b t1 t2 post. text = a @ 46 # 46 # b @ t1 \<and>
        a \<noteq> [] \<and> single_dots a \<and> last a \<noteq> 46 \<and> parse_f64 (ascii_str a) = Some mn \<and>
        b \<noteq> [] \<and> single_dots b \<and> hd b \<noteq> 46 \<and> parse_f64 (ascii_str b) = Some mx \<and>
        labelled_int (bytes ''rows='') t1 rows t2 \<and>
        labelled_int (bytes ''width='') t2 width (41 # post) \<and> width < 2 ^ 32)"

lemma cost_shape_split:
  assumes "find_sub (bytes ''(cost='') line = Some found"
  shows "cost_shape line mn mx rows width \<longleftrightarrow>
    tuple_shape (drop (found + length (bytes ''(cost='')) line) mn mx rows width"
proof -
  from assms obtain body where line: "line = take found line @ bytes ''(cost='' @ body"
      and len: "found \<le> length line"
    by (metis find_sub_Some starts_with_iff append_take_drop_id)
  have "length (take found line @ bytes ''(cost='') = found + length (bytes ''(cost='')"
    using len by simp
  then have body: "drop (found + length (bytes ''(cost='')) line = body"
    using line by (metis append.assoc append_eq_conv_conj)
  show ?thesis
  proof
    assume "cost_shape line mn mx rows width"
    then obtain pre x where "line = pre @ bytes ''(cost='' @ x" "find_sub (bytes ''(cost='') line = Some (length pre)"
        and t: "tuple_shape x mn mx rows width"
      unfolding cost_shape_def tuple_shape_def by blast
    then have "length pre = length (take found line)" and
        "pre @ bytes ''(cost='' @ x = take found line @ bytes ''(cost='' @ body"
      using assms line len by simp_all
    then have "body = x" by simp
    with t show "tuple_shape (drop (found + length (bytes ''(cost='')) line) mn mx rows width"
      unfolding body by simp
  next
    assume "tuple_shape (drop (found + length (bytes ''(cost='')) line) mn mx rows width"
    moreover have "find_sub (bytes ''(cost='') line = Some (length (take found line))"
      using assms len by simp
    ultimately show "cost_shape line mn mx rows width"
      unfolding cost_shape_def tuple_shape_def body using line by blast
  qed
qed

text \<open>The parser once the marker is found.\<close>

lemma tuple_parse_iff:
  assumes start: "start \<le> length line"
  defines "i \<equiv> scan_while (\<lambda>i. is_ascii_digit (line ! i) \<or>
      (line ! i = 46 \<and> slice_get line (i + 1) \<noteq> Some 46)) (length line) start"
  shows "slice_get line i = Some 46 \<and> slice_get line (i + 1) = Some 46 \<and> i \<noteq> start \<and>
      slice_get line (i + 2) \<noteq> Some 46 \<longleftrightarrow>
    (\<exists>a rest. drop start line = a @ 46 # 46 # rest \<and> a \<noteq> [] \<and> single_dots a \<and> last a \<noteq> 46 \<and>
       (rest = [] \<or> hd rest \<noteq> 46) \<and> slice line start i = a \<and> drop (i + 2) line = rest \<and>
       i + 2 \<le> length line)"
    (is "?lhs \<longleftrightarrow> ?rhs")
proof -
  let ?t = "drop start line" and ?m = "scan_len min_step (drop start line)"
  have i: "i = start + ?m" unfolding i_def by (rule min_scan [OF start])
  have get: "slice_get line (i + n) = slice_get ?t (?m + n)" for n
    by (simp add: slice_get_drop i add.assoc)
  have facts: "slice line start i = a" "drop (i + 2) line = rest" "i + 2 \<le> length line"
    if "?t = a @ 46 # 46 # rest" "length a = ?m" for a rest
  proof -
    show "slice line start i = a" using that by (simp add: slice_def i)
    have "drop (i + 2) line = drop (?m + 2) ?t" by (simp add: i add_ac)
    then show "drop (i + 2) line = rest" using that by simp
    have "length ?t = ?m + 2 + length rest" using that by simp
    then show "i + 2 \<le> length line" using start i by simp
  qed
  show ?thesis
  proof
    assume l: ?lhs
    then have "slice_get ?t ?m = Some 46" "slice_get ?t (?m + 1) = Some 46"
      using get [of 0] get [of 1] by simp_all
    from scan_len_min_run [OF this] obtain a rest where
        a: "?t = a @ 46 # 46 # rest" "length a = ?m" "single_dots a" "a = [] \<or> last a \<noteq> 46"
      by blast
    moreover have "a \<noteq> []" using l i a(2) by auto
    moreover have "slice_get ?t (length a + 2) = slice_get rest 0"
      using slice_get_append [of a "46 # 46 # rest" 2] by (simp add: a(1) numeral_2_eq_2)
    then have "rest = [] \<or> hd rest \<noteq> 46"
      using l get [of 2] a(2) by (cases rest) auto
    ultimately show ?rhs using facts by blast
  next
    assume ?rhs
    then obtain a rest where a: "?t = a @ 46 # 46 # rest" "a \<noteq> []" "single_dots a" "last a \<noteq> 46"
        "rest = [] \<or> hd rest \<noteq> 46" by blast
    then have m: "?m = length a" unfolding a(1) by (intro scan_len_min) auto
    have "slice_get ?t (length a + n) = slice_get (46 # 46 # rest) n" for n
      by (simp add: a(1) slice_get_append)
    with get have g: "slice_get line (i + n) = slice_get (46 # 46 # rest) n" for n
      using m by simp
    show ?lhs
      using g [of 0] g [of 1] g [of 2] a(2,5) i m
      by (cases rest) (auto simp: numeral_2_eq_2)
  qed
qed

lemma max_run:
  assumes "i \<le> length line"
  defines "j \<equiv> scan_while (\<lambda>j. is_ascii_digit (line ! j) \<or> line ! j = 46) (length line) i"
  shows "drop i line = slice line i j @ drop j line" "j \<le> length line"
    "list_all numeric_byte (slice line i j)"
    "drop i line = b @ t \<Longrightarrow> list_all numeric_byte b \<Longrightarrow> t = [] \<or> \<not> numeric_byte (hd t) \<Longrightarrow>
       slice line i j = b \<and> drop j line = t"
proof -
  let ?b = "takeWhile numeric_byte (drop i line)"
  have j: "j = i + length ?b"
    unfolding j_def by (rule scan_len_numeric [OF assms(1)])
  have b: "slice line i j = ?b" and t: "drop j line = dropWhile numeric_byte (drop i line)"
    unfolding j by (rule drop_run [OF assms(1)])+
  show "drop i line = slice line i j @ drop j line" by (simp add: b t)
  show "j \<le> length line" unfolding j_def by (rule scan_while_le [OF assms(1)])
  show "list_all numeric_byte (slice line i j)"
    unfolding b by (auto simp: list_all_iff dest: set_takeWhileD)
  show "slice line i j = b \<and> drop j line = t"
    if "drop i line = b @ t" "list_all numeric_byte b" "t = [] \<or> \<not> numeric_byte (hd t)"
    using that(2,3) unfolding b t that(1)
    by (simp add: takeWhile_prefix [of numeric_byte] dropWhile_prefix [of numeric_byte])
qed

context simd_lanes
begin

lemma parse_cost_tuple_iff:
  "parse_cost_tuple S line = Some (mn, mx, rows, width) \<longleftrightarrow> cost_shape line mn mx rows width"
proof (cases "find_sub (bytes ''(cost='') line")
  case None
  have "bytes ''(cost='' \<noteq> []" by (simp add: bytes_def)
  with None show ?thesis
    by (simp add: parse_cost_tuple_def cost_shape_def find_literal_simd_eq find_literal_scalar_find_sub)
next
  case (Some found)
  have ne: "bytes ''(cost='' \<noteq> []" by (simp add: bytes_def)
  define start where "start = found + length (bytes ''(cost='')"
  have "starts_with (drop found line) (bytes ''(cost='')" "found \<le> length line"
    using Some by (simp_all add: find_sub_Some)
  then have start: "start \<le> length line"
    using starts_with_length by (fastforce simp: start_def)
  define i where "i = scan_while (\<lambda>i. is_ascii_digit (line ! i) \<or>
      (line ! i = 46 \<and> slice_get line (i + 1) \<noteq> Some 46)) (length line) start"
  define j where "j = scan_while (\<lambda>j. is_ascii_digit (line ! j) \<or> line ! j = 46) (length line) (i + 2)"
  note ti = tuple_parse_iff [OF start, folded i_def]
  note run = max_run [of "i + 2" line, folded j_def]
  have unfold: "parse_cost_tuple S line = Some (mn, mx, rows, width) \<longleftrightarrow>
      (slice_get line i = Some 46 \<and> slice_get line (i + 1) = Some 46 \<and> i \<noteq> start \<and>
       slice_get line (i + 2) \<noteq> Some 46) \<and>
      (\<exists>mn' mx'. parse_f64 (ascii_str (slice line start i)) = Some mn' \<and>
         slice line (i + 2) j \<noteq> [] \<and> \<not> has_dot_pair (slice line (i + 2) j) \<and>
         parse_f64 (ascii_str (slice line (i + 2) j)) = Some mx' \<and>
         cost_tuple_tail line j mn' mx' = Some (mn, mx, rows, width))"
    using Some ne
    unfolding parse_cost_tuple_def find_literal_simd_eq find_literal_scalar_find_sub [OF ne] Some
      option.case Let_def start_def [symmetric] i_def [symmetric] j_def [symmetric]
    by (auto split: option.split)
  show ?thesis
    unfolding cost_shape_split [OF Some] start_def [symmetric]
  proof
    assume "parse_cost_tuple S line = Some (mn, mx, rows, width)"
    then obtain a rest mn' mx' where a: "drop start line = a @ 46 # 46 # rest" "a \<noteq> []" "single_dots a"
        "last a \<noteq> 46" "rest = [] \<or> hd rest \<noteq> 46" "slice line start i = a" "drop (i + 2) line = rest"
        "i + 2 \<le> length line"
      and p: "parse_f64 (ascii_str (slice line start i)) = Some mn'" "slice line (i + 2) j \<noteq> []"
        "\<not> has_dot_pair (slice line (i + 2) j)"
        "parse_f64 (ascii_str (slice line (i + 2) j)) = Some mx'"
        "cost_tuple_tail line j mn' mx' = Some (mn, mx, rows, width)"
      unfolding unfold ti by blast
    note r = run(1-3) [OF a(8)]
    have "mn = mn' \<and> mx = mx' \<and> width < 2 ^ 32 \<and> (\<exists>t2 post.
        labelled_int (bytes ''rows='') (drop j line) rows t2 \<and>
        labelled_int (bytes ''width='') t2 width (41 # post))"
      using p(5) rows_width_iff [OF r(2)] by blast
    moreover have "hd (slice line (i + 2) j) \<noteq> 46"
      using a(5,7) r(1) p(2) by (metis append_is_Nil_conv hd_append2)
    moreover have "single_dots (slice line (i + 2) j)"
      using r(3) p(3) by (simp add: single_dots_def)
    moreover have "drop start line = a @ 46 # 46 # slice line (i + 2) j @ drop j line"
      using a(1,7) r(1) by simp
    ultimately show "tuple_shape (drop start line) mn mx rows width"
      unfolding tuple_shape_def using a(2-4,6) p by blast
  next
    assume "tuple_shape (drop start line) mn mx rows width"
    then obtain a b t1 t2 post where t: "drop start line = a @ 46 # 46 # b @ t1"
        "a \<noteq> []" "single_dots a" "last a \<noteq> 46" "parse_f64 (ascii_str a) = Some mn"
        "b \<noteq> []" "single_dots b" "hd b \<noteq> 46" "parse_f64 (ascii_str b) = Some mx"
        "labelled_int (bytes ''rows='') t1 rows t2"
        "labelled_int (bytes ''width='') t2 width (41 # post)" "width < 2 ^ 32"
      unfolding tuple_shape_def by blast
    have i: "i = start + length a"
      using t(3,4) unfolding i_def min_scan [OF start] t(1) by (simp add: scan_len_min)
    have len: "length (drop start line) = length a + 2 + length (b @ t1)" by (simp add: t(1))
    then have i2: "i + 2 \<le> length line" using i start by simp
    have d: "drop (i + 2) line = b @ t1"
    proof -
      have "drop (i + 2) line = drop (length a + 2) (drop start line)" by (simp add: i add_ac)
      then show ?thesis by (simp add: t(1))
    qed
    have sl: "slice line start i = a" by (simp add: slice_def i t(1))
    have jb: "slice line (i + 2) j = b \<and> drop j line = t1"
      using labelled_int_hd [OF t(10)] ws_not_digit t(7)
      by (intro run(4) [OF i2 d]) (auto simp: single_dots_def)
    have "cost_tuple_tail line j mn mx = Some (mn, mx, rows, width)"
      using rows_width_iff [OF run(2) [OF i2]] t(10-12) jb by blast
    moreover have "hd (b @ t1) \<noteq> 46" using t(6,8) by simp
    ultimately show "parse_cost_tuple S line = Some (mn, mx, rows, width)"
      unfolding unfold ti using t sl jb d i2 by (auto simp: single_dots_def)
  qed
qed

end

section \<open>Properties\<close>

text \<open>The cost-tuple parser accepts exactly the lines whose first \<open>(cost=\<close> is followed by a
  minimum and a maximum of digits and single dots separated by exactly two dots, then the
  white-space separated \<open>rows=\<close> and \<open>width=\<close> integers within \<open>u64\<close> and \<open>u32\<close> and a closing
  parenthesis; and it returns the values of exactly those four fields. Every other line is
  declined.\<close>

theorem parse_cost_tuple_exact:
  assumes "simd_lanes S lane lit"
  shows "parse_cost_tuple S line = Some (mn, mx, rows, width) \<longleftrightarrow> cost_shape line mn mx rows width"
  by (rule simd_lanes.parse_cost_tuple_iff [OF assms])

lemma cost_shape_example:
  "cost_shape (bytes ''->  Seq Scan on t  (cost=0.5..12.25 rows=10 width=4)'')
     (F64 0x3fe0000000000000) (F64 0x4028800000000000) 10 4"
proof -
  let ?pre = "bytes ''->  Seq Scan on t  ''" and ?t1 = "bytes '' rows=10 width=4)''"
    and ?t2 = "bytes '' width=4)''"
  have "bytes ''->  Seq Scan on t  (cost=0.5..12.25 rows=10 width=4)'' =
      ?pre @ bytes ''(cost='' @ bytes ''0.5'' @ 46 # 46 # bytes ''12.25'' @ ?t1"
    by (simp add: bytes_def)
  moreover have "find_sub (bytes ''(cost='') (bytes ''->  Seq Scan on t  (cost=0.5..12.25 rows=10 width=4)'') =
      Some (length ?pre)"
    by (simp add: bytes_def starts_with_def)
  moreover have "parse_f64 (ascii_str (bytes ''0.5'')) = Some (F64 0x3fe0000000000000)"
    "parse_f64 (ascii_str (bytes ''12.25'')) = Some (F64 0x4028800000000000)"
    by code_simp+
  moreover have nums: "parse_u64 (ascii_str [49, 48]) = Some 10" "parse_u64 (ascii_str [52]) = Some 4"
    by code_simp+
  moreover have "labelled_int (bytes ''rows='') ?t1 10 ?t2"
    unfolding labelled_int_def
    by (intro exI [of _ "[32]"] exI [of _ "[49, 48]"])
      (simp add: bytes_def ascii_simps nums)
  moreover have "labelled_int (bytes ''width='') ?t2 4 (41 # [])"
    unfolding labelled_int_def
    by (intro exI [of _ "[32]"] exI [of _ "[52]"])
      (simp add: bytes_def ascii_simps nums)
  moreover have "bytes ''0.5'' \<noteq> []" "single_dots (bytes ''0.5'')" "last (bytes ''0.5'') \<noteq> 46"
    "bytes ''12.25'' \<noteq> []" "single_dots (bytes ''12.25'')" "hd (bytes ''12.25'') \<noteq> 46"
    by (simp_all add: single_dots_def bytes_def ascii_simps)
  moreover have "(4::nat) < 2 ^ 32" by simp
  ultimately show ?thesis
    unfolding cost_shape_def
    by (intro exI [of _ ?pre] exI [of _ "bytes ''0.5''"] exI [of _ "bytes ''12.25''"] exI [of _ ?t1]
        exI [of _ ?t2] exI [of _ "[]"] conjI) assumption+
qed

theorem parse_cost_tuple_exact_witness:
  "parse_cost_tuple lane_simd (bytes ''->  Seq Scan on t  (cost=0.5..12.25 rows=10 width=4)'') =
     Some (F64 0x3fe0000000000000, F64 0x4028800000000000, 10, 4)"
  using parse_cost_tuple_exact [OF fallback.simd_lanes_axioms] cost_shape_example by blast

end
