(* ===== verification/Plan_Properties.thy ===== *)
theory Plan_Properties
  imports Numerics
begin

text \<open>
  \<open>crates/core/src/plan_properties.rs\<close>: the typed properties of a plan node, their conversion
  from and to key/value text, and the property collection. Numeric payloads are \<open>u32\<close> or
  \<open>u64\<close> values, kept as \<open>nat\<close>; the parser only produces values in range.
\<close>

section \<open>Properties\<close>

datatype PlanProperty =
    Output string
  | IndexCond string
  | Filter string
  | JoinFilter string
  | RecheckCond string
  | HashCond string
  | MergeCond string
  | SortKey string
  | GroupKey string
  | RelationName string
  | IndexName string
  | Alias string
  | CacheKey string
  | CacheMode string
  | WorkersPlanned nat
  | WorkersLaunched nat
  | InnerUnique bool
  | SortMethod string
  | SortSpaceUsed string
  | Function string
  | SubplanName string
  | RowsRemovedByFilter nat
  | RowsRemovedByIndexRecheck nat
  | RowsRemovedByJoinFilter nat
  | HeapBlocksExact nat
  | HeapBlocksLossy nat
  | HeapFetches nat
  | OneTimeFilter string
  | Loops nat
  | PeakMemoryUsage string
  | SortSpaceType string
  | Batches nat
  | Custom string string

definition bool_to_string :: "bool \<Rightarrow> string" where
  "bool_to_string b = (if b then ''true'' else ''false'')"

fun property_key :: "PlanProperty \<Rightarrow> string" where
  "property_key (Output v) = ''Output''"
| "property_key (IndexCond v) = ''Index Cond''"
| "property_key (Filter v) = ''Filter''"
| "property_key (JoinFilter v) = ''Join Filter''"
| "property_key (RecheckCond v) = ''Recheck Cond''"
| "property_key (HashCond v) = ''Hash Cond''"
| "property_key (MergeCond v) = ''Merge Cond''"
| "property_key (SortKey v) = ''Sort Key''"
| "property_key (GroupKey v) = ''Group Key''"
| "property_key (RelationName v) = ''Relation Name''"
| "property_key (IndexName v) = ''Index Name''"
| "property_key (Alias v) = ''Alias''"
| "property_key (CacheKey v) = ''Cache Key''"
| "property_key (CacheMode v) = ''Cache Mode''"
| "property_key (WorkersPlanned v) = ''Workers Planned''"
| "property_key (WorkersLaunched v) = ''Workers Launched''"
| "property_key (InnerUnique v) = ''Inner Unique''"
| "property_key (SortMethod v) = ''Sort Method''"
| "property_key (SortSpaceUsed v) = ''Sort Space Used''"
| "property_key (Function v) = ''Function''"
| "property_key (SubplanName v) = ''Subplan Name''"
| "property_key (RowsRemovedByFilter v) = ''Rows Removed by Filter''"
| "property_key (RowsRemovedByIndexRecheck v) = ''Rows Removed by Index Recheck''"
| "property_key (RowsRemovedByJoinFilter v) = ''Rows Removed by Join Filter''"
| "property_key (HeapBlocksExact v) = ''Heap Blocks: exact''"
| "property_key (HeapBlocksLossy v) = ''Heap Blocks: lossy''"
| "property_key (HeapFetches v) = ''Heap Fetches''"
| "property_key (OneTimeFilter v) = ''One-Time Filter''"
| "property_key (Loops v) = ''Loops''"
| "property_key (PeakMemoryUsage v) = ''Peak Memory Usage''"
| "property_key (SortSpaceType v) = ''Sort Space Type''"
| "property_key (Batches v) = ''Batches''"
| "property_key (Custom k v) = k"

fun property_value :: "PlanProperty \<Rightarrow> string" where
  "property_value (Output v) = v"
| "property_value (IndexCond v) = v"
| "property_value (Filter v) = v"
| "property_value (JoinFilter v) = v"
| "property_value (RecheckCond v) = v"
| "property_value (HashCond v) = v"
| "property_value (MergeCond v) = v"
| "property_value (SortKey v) = v"
| "property_value (GroupKey v) = v"
| "property_value (RelationName v) = v"
| "property_value (IndexName v) = v"
| "property_value (Alias v) = v"
| "property_value (CacheKey v) = v"
| "property_value (CacheMode v) = v"
| "property_value (WorkersPlanned v) = nat_to_string v"
| "property_value (WorkersLaunched v) = nat_to_string v"
| "property_value (InnerUnique v) = bool_to_string v"
| "property_value (SortMethod v) = v"
| "property_value (SortSpaceUsed v) = v"
| "property_value (Function v) = v"
| "property_value (SubplanName v) = v"
| "property_value (RowsRemovedByFilter v) = nat_to_string v"
| "property_value (RowsRemovedByIndexRecheck v) = nat_to_string v"
| "property_value (RowsRemovedByJoinFilter v) = nat_to_string v"
| "property_value (HeapBlocksExact v) = nat_to_string v"
| "property_value (HeapBlocksLossy v) = nat_to_string v"
| "property_value (HeapFetches v) = nat_to_string v"
| "property_value (OneTimeFilter v) = v"
| "property_value (Loops v) = nat_to_string v"
| "property_value (PeakMemoryUsage v) = v"
| "property_value (SortSpaceType v) = v"
| "property_value (Batches v) = nat_to_string v"
| "property_value (Custom k v) = v"

definition canonical :: "string \<Rightarrow> string" where
  "canonical k =
     (if k = ''Exact Heap Blocks'' then ''Heap Blocks: exact''
      else if k = ''Lossy Heap Blocks'' then ''Heap Blocks: lossy''
      else if k = ''Hash Batches'' then ''Batches''
      else if k = ''Original Hash Batches'' then ''Original Batches''
      else if k = ''Hash Buckets'' then ''Buckets''
      else if k = ''Original Hash Buckets'' then ''Original Buckets''
      else k)"

text \<open>The \<open>if let Ok(n) = value.parse()\<close> arms: a value that does not parse stays custom.\<close>

definition numeric_or_custom ::
  "(string \<Rightarrow> nat option) \<Rightarrow> (nat \<Rightarrow> PlanProperty) \<Rightarrow> string \<Rightarrow> string \<Rightarrow> PlanProperty" where
  "numeric_or_custom parse mk k v = (case parse v of Some n \<Rightarrow> mk n | None \<Rightarrow> Custom k v)"

definition inner_unique_or_custom :: "string \<Rightarrow> string \<Rightarrow> PlanProperty" where
  "inner_unique_or_custom k v =
     (let w = to_ascii_lowercase v
      in if w \<in> {''true'', ''t'', ''yes'', ''1''} then InnerUnique True
         else if w \<in> {''false'', ''f'', ''no'', ''0''} then InnerUnique False
         else Custom k v)"

definition from_canonical_key_value :: "string \<Rightarrow> string \<Rightarrow> PlanProperty" where
  "from_canonical_key_value k v =
     (if k = ''Output'' then Output v
      else if k = ''Index Cond'' then IndexCond v
      else if k = ''Filter'' then Filter v
      else if k = ''Join Filter'' then JoinFilter v
      else if k = ''Recheck Cond'' then RecheckCond v
      else if k = ''Hash Cond'' then HashCond v
      else if k = ''Merge Cond'' then MergeCond v
      else if k = ''Sort Key'' then SortKey v
      else if k = ''Group Key'' then GroupKey v
      else if k = ''Relation Name'' then RelationName v
      else if k = ''Index Name'' then IndexName v
      else if k = ''Alias'' then Alias v
      else if k = ''Cache Key'' then CacheKey v
      else if k = ''Cache Mode'' then CacheMode v
      else if k = ''Workers Planned'' then numeric_or_custom parse_u32 WorkersPlanned k v
      else if k = ''Workers Launched'' then numeric_or_custom parse_u32 WorkersLaunched k v
      else if k = ''Inner Unique'' then inner_unique_or_custom k v
      else if k = ''Sort Method'' then SortMethod v
      else if k = ''Sort Space Used'' then SortSpaceUsed v
      else if k = ''Function'' then Function v
      else if k = ''Subplan Name'' then SubplanName v
      else if k = ''Rows Removed by Filter'' then numeric_or_custom parse_u64 RowsRemovedByFilter k v
      else if k = ''Rows Removed by Index Recheck'' then numeric_or_custom parse_u64 RowsRemovedByIndexRecheck k v
      else if k = ''Rows Removed by Join Filter'' then numeric_or_custom parse_u64 RowsRemovedByJoinFilter k v
      else if k = ''Heap Blocks: exact'' then numeric_or_custom parse_u64 HeapBlocksExact k v
      else if k = ''Heap Blocks: lossy'' then numeric_or_custom parse_u64 HeapBlocksLossy k v
      else if k = ''Heap Fetches'' then numeric_or_custom parse_u64 HeapFetches k v
      else if k = ''One-Time Filter'' then OneTimeFilter v
      else if k = ''Loops'' then numeric_or_custom parse_u32 Loops k v
      else if k = ''Peak Memory Usage'' then PeakMemoryUsage v
      else if k = ''Sort Space Type'' then SortSpaceType v
      else if k = ''Batches'' then numeric_or_custom parse_u32 Batches k v
      else Custom k v)"

definition from_key_value :: "string \<Rightarrow> string \<Rightarrow> PlanProperty" where
  "from_key_value key v = from_canonical_key_value (canonical key) v"

section \<open>The collection\<close>

record PlanProperties = props :: "PlanProperty list"

definition new_properties :: PlanProperties where "new_properties = \<lparr>props = []\<rparr>"

definition set_kv :: "PlanProperties \<Rightarrow> string \<Rightarrow> string \<Rightarrow> PlanProperties" where
  "set_kv ps key v =
     (let property = from_key_value key v
      in \<lparr>props = filter (\<lambda>p. property_key p \<noteq> key) (props ps) @ [property]\<rparr>)"

definition set_property :: "PlanProperties \<Rightarrow> PlanProperty \<Rightarrow> PlanProperties" where
  "set_property ps property =
     \<lparr>props = filter (\<lambda>p. property_key p \<noteq> property_key property) (props ps) @ [property]\<rparr>"

definition get_property :: "PlanProperties \<Rightarrow> string \<Rightarrow> PlanProperty option" where
  "get_property ps key = List.find (\<lambda>p. property_key p = key) (props ps)"

definition get_kv :: "PlanProperties \<Rightarrow> string \<Rightarrow> string option" where
  "get_kv ps key = map_option property_value (get_property ps key)"

text \<open>\<open>collect\<close> into a \<open>HashMap\<close> keeps the last value of a key.\<close>

definition to_hashmap :: "PlanProperties \<Rightarrow> string \<rightharpoonup> string" where
  "to_hashmap ps = foldl (\<lambda>m p. m(property_key p \<mapsto> property_value p)) Map.empty (props ps)"

text \<open>\<open>from_hashmap\<close> over the entries in the map's iteration order.\<close>

definition from_hashmap :: "(string \<times> string) list \<Rightarrow> PlanProperties" where
  "from_hashmap kvs = foldl (\<lambda>ps (k, v). set_kv ps k v) new_properties kvs"

text \<open>\<open>find_map\<close> behind the typed accessors.\<close>

fun find_map :: "('a \<Rightarrow> 'b option) \<Rightarrow> 'a list \<Rightarrow> 'b option" where
  "find_map f [] = None"
| "find_map f (x # xs) = (case f x of Some y \<Rightarrow> Some y | None \<Rightarrow> find_map f xs)"

definition prop_output :: "PlanProperties \<Rightarrow> string option" where
  "prop_output ps = find_map (\<lambda>p. case p of Output v \<Rightarrow> Some v | _ \<Rightarrow> None) (props ps)"

definition prop_index_condition :: "PlanProperties \<Rightarrow> string option" where
  "prop_index_condition ps = find_map (\<lambda>p. case p of IndexCond v \<Rightarrow> Some v | _ \<Rightarrow> None) (props ps)"

definition prop_filter_cond :: "PlanProperties \<Rightarrow> string option" where
  "prop_filter_cond ps = find_map (\<lambda>p. case p of Filter v \<Rightarrow> Some v | _ \<Rightarrow> None) (props ps)"

definition prop_join_filter :: "PlanProperties \<Rightarrow> string option" where
  "prop_join_filter ps = find_map (\<lambda>p. case p of JoinFilter v \<Rightarrow> Some v | _ \<Rightarrow> None) (props ps)"

definition prop_sort_key :: "PlanProperties \<Rightarrow> string option" where
  "prop_sort_key ps = find_map (\<lambda>p. case p of SortKey v \<Rightarrow> Some v | _ \<Rightarrow> None) (props ps)"

definition prop_group_key_prop :: "PlanProperties \<Rightarrow> string option" where
  "prop_group_key_prop ps = find_map (\<lambda>p. case p of GroupKey v \<Rightarrow> Some v | _ \<Rightarrow> None) (props ps)"

definition prop_relation_name :: "PlanProperties \<Rightarrow> string option" where
  "prop_relation_name ps = find_map (\<lambda>p. case p of RelationName v \<Rightarrow> Some v | _ \<Rightarrow> None) (props ps)"

definition prop_index_name :: "PlanProperties \<Rightarrow> string option" where
  "prop_index_name ps = find_map (\<lambda>p. case p of IndexName v \<Rightarrow> Some v | _ \<Rightarrow> None) (props ps)"

definition prop_workers_planned :: "PlanProperties \<Rightarrow> nat option" where
  "prop_workers_planned ps = find_map (\<lambda>p. case p of WorkersPlanned v \<Rightarrow> Some v | _ \<Rightarrow> None) (props ps)"

definition prop_workers_launched :: "PlanProperties \<Rightarrow> nat option" where
  "prop_workers_launched ps = find_map (\<lambda>p. case p of WorkersLaunched v \<Rightarrow> Some v | _ \<Rightarrow> None) (props ps)"

definition prop_inner_unique :: "PlanProperties \<Rightarrow> bool option" where
  "prop_inner_unique ps = find_map (\<lambda>p. case p of InnerUnique v \<Rightarrow> Some v | _ \<Rightarrow> None) (props ps)"

definition prop_rows_removed_by_filter :: "PlanProperties \<Rightarrow> nat option" where
  "prop_rows_removed_by_filter ps = find_map (\<lambda>p. case p of RowsRemovedByFilter v \<Rightarrow> Some v | _ \<Rightarrow> None) (props ps)"

definition prop_rows_removed_by_index_recheck :: "PlanProperties \<Rightarrow> nat option" where
  "prop_rows_removed_by_index_recheck ps = find_map (\<lambda>p. case p of RowsRemovedByIndexRecheck v \<Rightarrow> Some v | _ \<Rightarrow> None) (props ps)"

definition prop_rows_removed_by_join_filter :: "PlanProperties \<Rightarrow> nat option" where
  "prop_rows_removed_by_join_filter ps = find_map (\<lambda>p. case p of RowsRemovedByJoinFilter v \<Rightarrow> Some v | _ \<Rightarrow> None) (props ps)"

definition prop_heap_blocks_exact :: "PlanProperties \<Rightarrow> nat option" where
  "prop_heap_blocks_exact ps = find_map (\<lambda>p. case p of HeapBlocksExact v \<Rightarrow> Some v | _ \<Rightarrow> None) (props ps)"

definition prop_heap_blocks_lossy :: "PlanProperties \<Rightarrow> nat option" where
  "prop_heap_blocks_lossy ps = find_map (\<lambda>p. case p of HeapBlocksLossy v \<Rightarrow> Some v | _ \<Rightarrow> None) (props ps)"

definition prop_heap_fetches :: "PlanProperties \<Rightarrow> nat option" where
  "prop_heap_fetches ps = find_map (\<lambda>p. case p of HeapFetches v \<Rightarrow> Some v | _ \<Rightarrow> None) (props ps)"

definition prop_one_time_filter :: "PlanProperties \<Rightarrow> string option" where
  "prop_one_time_filter ps = find_map (\<lambda>p. case p of OneTimeFilter v \<Rightarrow> Some v | _ \<Rightarrow> None) (props ps)"

definition prop_loops :: "PlanProperties \<Rightarrow> nat option" where
  "prop_loops ps = find_map (\<lambda>p. case p of Loops v \<Rightarrow> Some v | _ \<Rightarrow> None) (props ps)"

definition prop_peak_memory_usage :: "PlanProperties \<Rightarrow> string option" where
  "prop_peak_memory_usage ps = find_map (\<lambda>p. case p of PeakMemoryUsage v \<Rightarrow> Some v | _ \<Rightarrow> None) (props ps)"

definition prop_sort_space_type :: "PlanProperties \<Rightarrow> string option" where
  "prop_sort_space_type ps = find_map (\<lambda>p. case p of SortSpaceType v \<Rightarrow> Some v | _ \<Rightarrow> None) (props ps)"

definition prop_batches :: "PlanProperties \<Rightarrow> nat option" where
  "prop_batches ps = find_map (\<lambda>p. case p of Batches v \<Rightarrow> Some v | _ \<Rightarrow> None) (props ps)"

section \<open>Lemmas\<close>

lemma canonical_idem [simp]: "canonical (canonical k) = canonical k"
  by (simp add: canonical_def)

lemma numeric_or_custom_key:
  "(\<And>n. property_key (mk n) = k) \<Longrightarrow> property_key (numeric_or_custom parse mk k v) = k"
  by (simp add: numeric_or_custom_def split: option.split)

lemma inner_unique_or_custom_key: "property_key (inner_unique_or_custom ''Inner Unique'' v) = ''Inner Unique''"
  by (simp add: inner_unique_or_custom_def Let_def)

lemma key_ifI:
  "(c \<Longrightarrow> property_key a = k) \<Longrightarrow> property_key b = k \<Longrightarrow> property_key (if c then a else b) = k"
  by simp

lemma from_canonical_key: "property_key (from_canonical_key_value k v) = k"
  unfolding from_canonical_key_value_def
  by (rule key_ifI | simp only: property_key.simps | rule numeric_or_custom_key
      | (simp only: inner_unique_or_custom_key))+

lemma from_key_value_key [simp]: "property_key (from_key_value k v) = canonical k"
  by (simp add: from_key_value_def from_canonical_key)

lemma property_key_custom: "property_key (Custom k v) = k" by simp

text \<open>The payloads the code can hold: \<open>u32\<close> and \<open>u64\<close> values, and a custom property only for a
  canonical key and value that no typed property takes: not the key of a text property, and the key of a number
  or a boolean only with a value that is none.\<close>

definition text_keys :: "string list" where
  "text_keys = [''Output'', ''Index Cond'', ''Filter'', ''Join Filter'', ''Recheck Cond'', ''Hash Cond'', ''Merge Cond'',
     ''Sort Key'', ''Group Key'', ''Relation Name'', ''Index Name'', ''Alias'', ''Cache Key'', ''Cache Mode'', ''Sort Method'',
     ''Sort Space Used'', ''Function'', ''Subplan Name'', ''One-Time Filter'', ''Peak Memory Usage'', ''Sort Space Type'']"

definition u32_keys :: "string list" where
  "u32_keys = [''Workers Planned'', ''Workers Launched'', ''Loops'', ''Batches'']"

definition u64_keys :: "string list" where
  "u64_keys = [''Rows Removed by Filter'', ''Rows Removed by Index Recheck'', ''Rows Removed by Join Filter'',
     ''Heap Blocks: exact'', ''Heap Blocks: lossy'', ''Heap Fetches'']"

definition custom_ok :: "string \<Rightarrow> string \<Rightarrow> bool" where
  "custom_ok k v \<longleftrightarrow>
     canonical k = k \<and> k \<notin> set text_keys \<and>
     (k \<in> set u32_keys \<longrightarrow> parse_u32 v = None) \<and> (k \<in> set u64_keys \<longrightarrow> parse_u64 v = None) \<and>
     (k = ''Inner Unique'' \<longrightarrow>
        to_ascii_lowercase v \<notin> set [''true'', ''t'', ''yes'', ''1'', ''false'', ''f'', ''no'', ''0''])"

fun prop_ok :: "PlanProperty \<Rightarrow> bool" where
  "prop_ok (WorkersPlanned n) \<longleftrightarrow> n < 2 ^ 32"
| "prop_ok (WorkersLaunched n) \<longleftrightarrow> n < 2 ^ 32"
| "prop_ok (Loops n) \<longleftrightarrow> n < 2 ^ 32"
| "prop_ok (Batches n) \<longleftrightarrow> n < 2 ^ 32"
| "prop_ok (RowsRemovedByFilter n) \<longleftrightarrow> n < 2 ^ 64"
| "prop_ok (RowsRemovedByIndexRecheck n) \<longleftrightarrow> n < 2 ^ 64"
| "prop_ok (RowsRemovedByJoinFilter n) \<longleftrightarrow> n < 2 ^ 64"
| "prop_ok (HeapBlocksExact n) \<longleftrightarrow> n < 2 ^ 64"
| "prop_ok (HeapBlocksLossy n) \<longleftrightarrow> n < 2 ^ 64"
| "prop_ok (HeapFetches n) \<longleftrightarrow> n < 2 ^ 64"
| "prop_ok (Custom k v) \<longleftrightarrow> custom_ok k v"
| "prop_ok _ \<longleftrightarrow> True"

lemma parse_u32_to_string: "n < 2 ^ 32 \<Longrightarrow> parse_u32 (nat_to_string n) = Some n"
  unfolding parse_u32_def by (rule parse_unsigned_nat_to_string) simp

lemma parse_u64_to_string: "n < 2 ^ 64 \<Longrightarrow> parse_u64 (nat_to_string n) = Some n"
  unfolding parse_u64_def by (rule parse_unsigned_nat_to_string) simp

lemma inner_unique_to_string: "inner_unique_or_custom k (bool_to_string b) = InnerUnique b"
  by (cases b) (simp_all add: inner_unique_or_custom_def bool_to_string_def Let_def to_ascii_lowercase_def
      lower_char_def code_def)

lemma custom_in_place: "custom_ok k v \<Longrightarrow> from_canonical_key_value k v = Custom k v"
  by (simp add: custom_ok_def text_keys_def u32_keys_def u64_keys_def from_canonical_key_value_def
      numeric_or_custom_def inner_unique_or_custom_def)

lemma custom_only_in_place:
  assumes "canonical k = k" and "from_canonical_key_value k v = Custom k' v'"
  shows "custom_ok k v"
proof -
  have "k \<notin> set text_keys"
  proof
    assume "k \<in> set text_keys"
    then have "\<And>a b. from_canonical_key_value k v \<noteq> Custom a b"
      unfolding text_keys_def list.set insert_iff empty_iff
      by (elim disjE) (simp_all add: from_canonical_key_value_def)
    with assms(2) show False by blast
  qed
  moreover have "parse_u32 v = None" if "k \<in> set u32_keys"
    using that assms(2) unfolding u32_keys_def list.set insert_iff empty_iff
    by (elim disjE) (auto simp: from_canonical_key_value_def numeric_or_custom_def split: option.splits)
  moreover have "parse_u64 v = None" if "k \<in> set u64_keys"
    using that assms(2) unfolding u64_keys_def list.set insert_iff empty_iff
    by (elim disjE) (auto simp: from_canonical_key_value_def numeric_or_custom_def split: option.splits)
  moreover have "to_ascii_lowercase v \<notin> set [''true'', ''t'', ''yes'', ''1'', ''false'', ''f'', ''no'', ''0'']"
    if "k = ''Inner Unique''"
    using assms(2) unfolding that
    by (auto simp: from_canonical_key_value_def inner_unique_or_custom_def Let_def split: if_splits)
  ultimately show ?thesis using assms(1) by (simp add: custom_ok_def)
qed

lemma print_parse:
  assumes "prop_ok p"
  shows "from_key_value (property_key p) (property_value p) = p"
proof (cases "\<exists>k v. p = Custom k v")
  case True
  then show ?thesis using assms by (auto simp: from_key_value_def custom_in_place) (simp add: custom_ok_def custom_in_place)
next
  case False
  then show ?thesis
    using assms
    by (cases p) (simp_all add: from_key_value_def canonical_def from_canonical_key_value_def
        numeric_or_custom_def parse_u32_to_string parse_u64_to_string inner_unique_to_string)
qed

lemma parse_unsigned_le: "parse_unsigned limit s = Some n \<Longrightarrow> int n \<le> max 0 limit"
  by (auto simp: parse_unsigned_def Let_def split: option.splits if_splits)

lemma parse_u32_bound: "parse_u32 s = Some n \<Longrightarrow> n < 2 ^ 32"
  using parse_unsigned_le [of "2 ^ 32 - 1" s n] by (simp add: parse_u32_def)

lemma parse_u64_bound: "parse_u64 s = Some n \<Longrightarrow> n < 2 ^ 64"
  using parse_unsigned_le [of "2 ^ 64 - 1" s n] by (simp add: parse_u64_def)

definition payload_ok :: "string \<Rightarrow> PlanProperty \<Rightarrow> bool" where
  "payload_ok v p \<longleftrightarrow> (case p of Custom k' v' \<Rightarrow> v' = v | _ \<Rightarrow> prop_ok p)"

lemma payload_ifI: "payload_ok v a \<Longrightarrow> payload_ok v b \<Longrightarrow> payload_ok v (if c then a else b)"
  by simp

lemma payload_numeric:
  "(\<And>n. parse v = Some n \<Longrightarrow> payload_ok v (mk n)) \<Longrightarrow> payload_ok v (numeric_or_custom parse mk k v)"
  by (simp add: numeric_or_custom_def payload_ok_def split: option.split)

lemma payload_inner: "payload_ok v (inner_unique_or_custom k v)"
  by (simp add: inner_unique_or_custom_def payload_ok_def Let_def)

lemma payload_from_canonical: "payload_ok v (from_canonical_key_value k v)"
  unfolding from_canonical_key_value_def
  by (rule payload_ifI | rule payload_numeric | rule payload_inner
      | (simp add: payload_ok_def parse_u32_bound [simplified] parse_u64_bound [simplified]))+

lemma from_canonical_ok:
  assumes "canonical k = k"
  shows "prop_ok (from_canonical_key_value k v)"
proof (cases "\<exists>a b. from_canonical_key_value k v = Custom a b")
  case True
  then obtain a b where ab: "from_canonical_key_value k v = Custom a b" by blast
  with payload_from_canonical [of v k] from_canonical_key [of k v] have "a = k" "b = v" by (simp_all add: payload_ok_def)
  with ab custom_only_in_place [OF assms ab] show ?thesis by simp
next
  case False
  then show ?thesis using payload_from_canonical [of v k]
    by (cases "from_canonical_key_value k v") (simp_all add: payload_ok_def)
qed

lemma from_key_value_ok: "prop_ok (from_key_value k v)"
  by (simp add: from_key_value_def from_canonical_ok)

section \<open>The collection\<close>

text \<open>One property per key, every payload in range.\<close>

definition props_ok :: "PlanProperties \<Rightarrow> bool" where
  "props_ok ps \<longleftrightarrow> distinct (map property_key (props ps)) \<and> list_all prop_ok (props ps)"

lemma new_properties_ok: "props_ok new_properties"
  by (simp add: props_ok_def new_properties_def)

lemma set_property_ok: "props_ok ps \<Longrightarrow> prop_ok p \<Longrightarrow> props_ok (set_property ps p)"
  by (auto simp: props_ok_def set_property_def distinct_map_filter list_all_iff)

lemma set_kv_set_property: "canonical k = k \<Longrightarrow> set_kv ps k v = set_property ps (from_key_value k v)"
  by (simp add: set_kv_def set_property_def)

lemma find_append_case:
  "List.find P (xs @ ys) = (case List.find P xs of Some x \<Rightarrow> Some x | None \<Rightarrow> List.find P ys)"
  by (induction xs) auto

lemma find_filter_other:
  "k' \<noteq> k \<Longrightarrow> List.find (\<lambda>p. f p = k') (filter (\<lambda>p. f p \<noteq> k) xs) = List.find (\<lambda>p. f p = k') xs"
  by (induction xs) auto

lemma find_filter_same: "List.find (\<lambda>p. f p = k) (filter (\<lambda>p. f p \<noteq> k) xs) = None"
  by (induction xs) auto

lemma get_set_property:
  "get_property (set_property ps p) k = (if k = property_key p then Some p else get_property ps k)"
  by (auto simp: get_property_def set_property_def find_append_case find_filter_other find_filter_same
      split: option.split)

lemma to_hashmap_get:
  assumes "distinct (map property_key (props ps))"
  shows "to_hashmap ps k = get_kv ps k"
proof -
  have fold: "foldl (\<lambda>m p. m(property_key p \<mapsto> property_value p)) m xs k =
      (case List.find (\<lambda>p. property_key p = k) xs of Some p \<Rightarrow> Some (property_value p) | None \<Rightarrow> m k)"
    if "distinct (map property_key xs)" for m xs
    using that
  proof (induction xs arbitrary: m)
    case (Cons x xs)
    have "List.find (\<lambda>p. property_key p = k) xs = None" if "property_key x = k"
      using Cons.prems that by (auto simp: find_None_iff image_iff)
    with Cons show ?case by (auto split: option.split)
  qed simp
  show ?thesis
    using fold [OF assms, of Map.empty]
    by (simp add: to_hashmap_def get_kv_def get_property_def split: option.split)
qed

section \<open>Properties\<close>

text \<open>C15: properties round-trip through text, each typed one as itself: reading back the key and the printed
  value of any property whose payload fits its type gives that property; a custom property does so when its key and
  value belong to no typed one; and everything read is such a property under the canonical key.\<close>

theorem property_text_roundtrip:
  assumes "prop_ok p"
  shows "from_key_value (property_key p) (property_value p) = p \<and>
    prop_ok (from_key_value k v) \<and> property_key (from_key_value k v) = canonical k"
  using print_parse [OF assms] by (simp add: from_key_value_ok)

theorem property_text_roundtrip_witness:
  "from_key_value ''Heap Fetches'' (nat_to_string 7) = HeapFetches 7 \<and> from_key_value ''Sort Key'' ''a, b'' = SortKey ''a, b'' \<and>
   from_key_value ''Inner Unique'' ''true'' = InnerUnique True \<and> from_key_value ''Batches'' ''many'' = Custom ''Batches'' ''many'' \<and>
   property_key (from_key_value ''Hash Batches'' ''4'') = ''Batches''"
proof -
  have none: "parse_u32 ''many'' = None" by code_simp
  have ok: "prop_ok (HeapFetches 7)" "prop_ok (SortKey ''a, b'')" "prop_ok (InnerUnique True)" "prop_ok (Custom ''Batches'' ''many'')"
    by (simp_all add: custom_ok_def canonical_def text_keys_def u32_keys_def u64_keys_def none)
  show ?thesis
    using property_text_roundtrip [OF ok(1), of "''Hash Batches''" "''4''"] property_text_roundtrip [OF ok(2)]
      property_text_roundtrip [OF ok(3)] property_text_roundtrip [OF ok(4)]
    by (simp add: canonical_def bool_to_string_def)
qed

text \<open>Setting a canonical key replaces exactly the property of that key: afterwards it reads
  as the normalised value, every other key reads as before, the collection keeps one property
  per key, and the map view agrees with the keyed lookup.\<close>

theorem set_then_get:
  assumes "props_ok ps" and "canonical key = key"
  shows "props_ok (set_kv ps key v) \<and>
    get_kv (set_kv ps key v) k =
      (if k = key then Some (property_value (from_key_value key v)) else get_kv ps k) \<and>
    to_hashmap (set_kv ps key v) k = get_kv (set_kv ps key v) k"
proof -
  have ok: "props_ok (set_kv ps key v)"
    using assms by (simp add: set_kv_set_property set_property_ok from_key_value_ok)
  then show ?thesis
    using assms to_hashmap_get [of "set_kv ps key v" k]
    by (simp add: props_ok_def set_kv_set_property get_kv_def get_set_property)
qed

theorem set_then_get_witness:
  "get_kv (set_kv (set_kv new_properties ''Filter'' ''a > 1'') ''Batches'' ''+4'') ''Batches'' = Some ''4''"
proof -
  have can: "canonical ''Filter'' = ''Filter''" "canonical ''Batches'' = ''Batches''"
    by (simp_all add: canonical_def)
  have "props_ok (set_kv new_properties ''Filter'' ''a > 1'')"
    by (simp add: set_kv_set_property [OF can(1)] set_property_ok new_properties_ok from_key_value_ok)
  from set_then_get [OF this can(2), of "''+4''" "''Batches''"]
  have "get_kv (set_kv (set_kv new_properties ''Filter'' ''a > 1'') ''Batches'' ''+4'') ''Batches'' =
      Some (property_value (from_key_value ''Batches'' ''+4''))"
    by simp
  also have "property_value (from_key_value ''Batches'' ''+4'') = ''4''"
    by code_simp
  finally show ?thesis .
qed

text \<open>\<open>set\<close> drops the old property by the key it was given but stores the new one under the
  canonical key, so setting an alias of PostgreSQL's JSON output twice leaves two properties of
  one key, and a lookup returns the first, stale value.\<close>

theorem set_alias_twice_is_stale:
  "get_kv (set_kv (set_kv new_properties ''Hash Batches'' ''4'') ''Hash Batches'' ''8'') ''Batches'' = Some ''4''
   \<and> \<not> props_ok (set_kv (set_kv new_properties ''Hash Batches'' ''4'') ''Hash Batches'' ''8'')"
proof -
  have vals: "from_key_value ''Hash Batches'' ''4'' = Batches 4" "from_key_value ''Hash Batches'' ''8'' = Batches 8"
    by code_simp+
  have "nat_to_string 4 = ''4''" by code_simp
  then show ?thesis
    by (simp add: set_kv_def vals get_kv_def get_property_def new_properties_def props_ok_def)
qed

end
