(* ===== verification/Plan_Tree.thy ===== *)
theory Plan_Tree
  imports Plan_Properties
begin

text \<open>
  The parsed plan of \<open>crates/core/src/plan_parser.rs\<close>: references, node classification, the plan
  tree and the operations on it (cost roll-up, depth, collection, table and index names, the
  printed descriptions). \<open>NodeType\<close>'s constructors carry the suffix \<open>Node\<close> because \<open>Aggregate\<close>
  is also a constructor of \<open>AggregateType\<close>.
\<close>

section \<open>Data\<close>

record PlanCost =
  startup_cost :: f64
  min_total_cost :: f64
  max_total_cost :: f64
  estimated_rows :: nat
  estimated_width :: nat

record PlanActuals =
  actual_time_ms :: "f64 option"
  actual_rows :: "nat option"
  actual_loops :: "nat option"

record TableReference =
  tr_schema :: "string option"
  tr_name :: string
  tr_alias :: "string option"

record IndexReference =
  ir_name :: string

record SortKeySpec =
  sk_expression :: string
  sk_direction :: "string option"

record SubPlanReference =
  sp_name :: string
  sp_type :: "string option"

datatype ScanType =
    SeqScan TableReference
  | IndexScan TableReference "IndexReference option" bool bool
  | BitmapHeapScan TableReference "string option"
  | BitmapIndexScan "IndexReference option"
  | ParallelBitmapHeapScan TableReference "nat option"

datatype JoinType =
    NestedLoop bool
  | NestedLoopLeftJoin bool
  | HashJoin "string option" "nat option"
  | MergeJoin "string option"

datatype AggregateType =
    Aggregate "string list"
  | GroupAggregate "string list" "string list"
  | HashAggregate "string list" "string list" "nat option"

datatype UtilityType =
    Sort "SortKeySpec list" "string option"
  | Limit "nat option" "nat option"
  | GatherMerge "nat option" "nat option"
  | Materialize
  | Memoize "string option" "string option"
  | SubPlan SubPlanReference
  | BitmapAnd
  | BitmapOr

datatype NodeType =
    ScanNode ScanType
  | JoinNode JoinType
  | AggregateNode AggregateType
  | UtilityNode UtilityType
  | UnknownNode string

datatype PlanNode = PlanNode
  (node_type: NodeType)
  (cost: PlanCost)
  (actuals: "PlanActuals option")
  (children: "PlanNode list")
  (properties: PlanProperties)
  (original_text: string)

record ParsedPlan =
  root :: PlanNode
  planning_time_ms :: "f64 option"
  execution_time_ms :: "f64 option"

datatype ParseError =
    InvalidCostFormat string
  | InvalidNodeStructure string
  | InvalidIndentation string
  | EmptyInput
  | InvalidJsonFormat string
  | MissingJsonPlanData string
  | MaxDepthExceeded nat

section \<open>Costs and references\<close>

definition total_cost_range :: "PlanCost \<Rightarrow> f64 \<times> f64" where
  "total_cost_range c = (min_total_cost c, max_total_cost c)"

definition avg_total_cost :: "PlanCost \<Rightarrow> f64" where
  "avg_total_cost c = f_div (f_add (min_total_cost c) (max_total_cost c)) (f_of_nat 2)"

definition total_cost :: "PlanCost \<Rightarrow> f64" where "total_cost c = max_total_cost c"

definition cost_range_span :: "PlanCost \<Rightarrow> f64" where
  "cost_range_span c = f_sub (max_total_cost c) (min_total_cost c)"

definition new_table :: "string \<Rightarrow> TableReference" where
  "new_table n = \<lparr>tr_schema = None, tr_name = n, tr_alias = None\<rparr>"

definition table_with_schema :: "string \<Rightarrow> string \<Rightarrow> TableReference" where
  "table_with_schema s n = \<lparr>tr_schema = Some s, tr_name = n, tr_alias = None\<rparr>"

definition with_alias :: "TableReference \<Rightarrow> string \<Rightarrow> TableReference" where
  "with_alias t a = t\<lparr>tr_alias := Some a\<rparr>"

definition qualified_name :: "TableReference \<Rightarrow> string" where
  "qualified_name t =
     (case tr_schema t of Some s \<Rightarrow> s @ ''.'' @ tr_name t | None \<Rightarrow> tr_name t)"

definition display_name :: "TableReference \<Rightarrow> string" where
  "display_name t =
     (case tr_alias t of Some a \<Rightarrow> qualified_name t @ '' '' @ a | None \<Rightarrow> qualified_name t)"

definition table_to_string :: "TableReference \<Rightarrow> string" where
  "table_to_string t =
     (case tr_schema t of Some s \<Rightarrow> s @ ''.'' @ tr_name t | None \<Rightarrow> tr_name t) @
     (case tr_alias t of Some a \<Rightarrow> '' as '' @ a | None \<Rightarrow> [])"

definition sort_key_to_string :: "SortKeySpec \<Rightarrow> string" where
  "sort_key_to_string k =
     (case sk_direction k of Some d \<Rightarrow> sk_expression k @ '' '' @ d | None \<Rightarrow> sk_expression k)"

definition scan_to_string :: "ScanType \<Rightarrow> string" where
  "scan_to_string st =
     (case st of
        SeqScan table \<Rightarrow> ''Seq Scan on '' @ table_to_string table
      | IndexScan table index backward only \<Rightarrow>
          ''Index '' @ (if only then ''Only '' else []) @ ''Scan '' @
          (if backward then ''Backward '' else []) @
          (case index of Some i \<Rightarrow> ''using '' @ ir_name i @ '' '' | None \<Rightarrow> []) @
          ''on '' @ table_to_string table
      | BitmapHeapScan table _ \<Rightarrow> ''Bitmap Heap Scan on '' @ table_to_string table
      | BitmapIndexScan index \<Rightarrow>
          (case index of Some i \<Rightarrow> ''Bitmap Index Scan using '' @ ir_name i | None \<Rightarrow> ''Bitmap Index Scan'')
      | ParallelBitmapHeapScan table workers \<Rightarrow>
          (case workers of
             Some w \<Rightarrow> ''Parallel Bitmap Heap Scan on '' @ table_to_string table @ '' ('' @
                         nat_to_string w @ '' workers)''
           | None \<Rightarrow> ''Parallel Bitmap Heap Scan on '' @ table_to_string table))"

section \<open>Updating a node type from the collected properties\<close>

definition parse_sort_keys :: "string \<Rightarrow> SortKeySpec list" where
  "parse_sort_keys s =
     map (\<lambda>key0. let key = trim key0
                  in case strip_suffix '' DESC'' key of
                       Some e \<Rightarrow> \<lparr>sk_expression = e, sk_direction = Some ''DESC''\<rparr>
                     | None \<Rightarrow>
                         (case strip_suffix '' ASC'' key of
                            Some e \<Rightarrow> \<lparr>sk_expression = e, sk_direction = Some ''ASC''\<rparr>
                          | None \<Rightarrow> \<lparr>sk_expression = key, sk_direction = None\<rparr>))
       (split_char CHR '','' s)"

definition parse_group_keys :: "string \<Rightarrow> string list" where
  "parse_group_keys s = map trim (split_char CHR '','' s)"

definition agg_functions :: "string list" where
  "agg_functions = [''count'', ''sum'', ''avg'', ''min'', ''max'', ''array_agg'', ''string_agg'']"

text \<open>\<open>calls\<close> is \<open>captures_iter\<close> of the pattern for function calls, group 1; \<open>lower\<close> is the full
  Unicode \<open>to_lowercase\<close>.\<close>

definition extract_aggregate_functions ::
  "(string \<Rightarrow> string) \<Rightarrow> (string \<Rightarrow> string list) \<Rightarrow> string \<Rightarrow> string list" where
  "extract_aggregate_functions lower calls output_str =
     (let known = filter (\<lambda>func. contains_sub (lower output_str) (func @ ''('')) agg_functions
      in if known \<noteq> [] then known
         else foldl (\<lambda>functions func_name.
                let func = lower func_name
                in if List.member functions func then functions else functions @ [func])
              [] (calls output_str))"

definition scan_update :: "(string \<rightharpoonup> string) \<Rightarrow> ScanType \<Rightarrow> ScanType" where
  "scan_update prop_map st =
     (case st of
        ParallelBitmapHeapScan table workers \<Rightarrow>
          (case prop_map ''Workers Planned'' of
             Some s \<Rightarrow> (case parse_u32 s of
                           Some w \<Rightarrow> ParallelBitmapHeapScan table (Some w)
                         | None \<Rightarrow> st)
           | None \<Rightarrow> st)
      | BitmapHeapScan table recheck \<Rightarrow>
          (case prop_map ''Recheck Cond'' of
             Some s \<Rightarrow> BitmapHeapScan table (Some s)
           | None \<Rightarrow> st)
      | _ \<Rightarrow> st)"

definition join_update :: "(string \<Rightarrow> string) \<Rightarrow> (string \<rightharpoonup> string) \<Rightarrow> JoinType \<Rightarrow> JoinType" where
  "join_update lower prop_map jt =
     (case jt of
        NestedLoop u \<Rightarrow>
          (case prop_map ''Inner Unique'' of Some s \<Rightarrow> NestedLoop (lower s = ''true'') | None \<Rightarrow> jt)
      | NestedLoopLeftJoin u \<Rightarrow>
          (case prop_map ''Inner Unique'' of
             Some s \<Rightarrow> NestedLoopLeftJoin (lower s = ''true'') | None \<Rightarrow> jt)
      | HashJoin c b \<Rightarrow>
          (case prop_map ''Hash Cond'' of Some s \<Rightarrow> HashJoin (Some s) b | None \<Rightarrow> jt)
      | MergeJoin c \<Rightarrow>
          (case prop_map ''Merge Cond'' of Some s \<Rightarrow> MergeJoin (Some s) | None \<Rightarrow> jt))"

definition aggregate_update ::
  "(string \<Rightarrow> string) \<Rightarrow> (string \<Rightarrow> string list) \<Rightarrow> (string \<rightharpoonup> string) \<Rightarrow> AggregateType \<Rightarrow> AggregateType"
where
  "aggregate_update lower calls prop_map agg =
     (let keys = (\<lambda>old. case prop_map ''Group Key'' of
                           Some s \<Rightarrow> parse_group_keys s | None \<Rightarrow> old);
          funcs = (\<lambda>old. case prop_map ''Output'' of
                            Some s \<Rightarrow> extract_aggregate_functions lower calls s | None \<Rightarrow> old)
      in case agg of
           GroupAggregate group_keys functions \<Rightarrow> GroupAggregate (keys group_keys) (funcs functions)
         | HashAggregate group_keys functions b \<Rightarrow>
             HashAggregate (keys group_keys) (funcs functions) b
         | Aggregate functions \<Rightarrow> Aggregate (funcs functions))"

definition utility_update :: "(string \<rightharpoonup> string) \<Rightarrow> UtilityType \<Rightarrow> UtilityType" where
  "utility_update prop_map ut =
     (case ut of
        Sort sort_keys method \<Rightarrow>
          Sort (case prop_map ''Sort Key'' of Some s \<Rightarrow> parse_sort_keys s | None \<Rightarrow> sort_keys)
            (case prop_map ''Sort Method'' of Some s \<Rightarrow> Some s | None \<Rightarrow> method)
      | GatherMerge planned launched \<Rightarrow>
          GatherMerge
            (case prop_map ''Workers Planned'' of
               Some s \<Rightarrow> (case parse_u32 s of Some w \<Rightarrow> Some w | None \<Rightarrow> planned) | None \<Rightarrow> planned)
            (case prop_map ''Workers Launched'' of
               Some s \<Rightarrow> (case parse_u32 s of Some w \<Rightarrow> Some w | None \<Rightarrow> launched) | None \<Rightarrow> launched)
      | Memoize cache_key mode \<Rightarrow>
          Memoize (case prop_map ''Cache Key'' of Some s \<Rightarrow> Some s | None \<Rightarrow> cache_key)
            (case prop_map ''Cache Mode'' of Some s \<Rightarrow> Some s | None \<Rightarrow> mode)
      | _ \<Rightarrow> ut)"

section \<open>Nodes\<close>

definition new_node :: "NodeType \<Rightarrow> PlanCost \<Rightarrow> string \<Rightarrow> PlanNode" where
  "new_node nt c t = PlanNode nt c None [] new_properties t"

definition add_child :: "PlanNode \<Rightarrow> PlanNode \<Rightarrow> PlanNode" where
  "add_child n child =
     PlanNode (node_type n) (cost n) (actuals n) (children n @ [child]) (properties n) (original_text n)"

definition set_node_property :: "PlanNode \<Rightarrow> string \<Rightarrow> string \<Rightarrow> PlanNode" where
  "set_node_property n key v =
     PlanNode (node_type n) (cost n) (actuals n) (children n) (set_kv (properties n) key v)
       (original_text n)"

definition get_node_property :: "PlanNode \<Rightarrow> string \<Rightarrow> string option" where
  "get_node_property n key = get_kv (properties n) key"

definition set_actuals :: "PlanNode \<Rightarrow> PlanActuals \<Rightarrow> PlanNode" where
  "set_actuals n a =
     PlanNode (node_type n) (cost n) (Some a) (children n) (properties n) (original_text n)"

definition update_from_properties ::
  "(string \<Rightarrow> string) \<Rightarrow> (string \<Rightarrow> string list) \<Rightarrow> PlanNode \<Rightarrow> PlanNode" where
  "update_from_properties lower calls n =
     (let props_map = to_hashmap (properties n);
          nt = (case node_type n of
                  ScanNode s \<Rightarrow> ScanNode (scan_update props_map s)
                | JoinNode j \<Rightarrow> JoinNode (join_update lower props_map j)
                | AggregateNode a \<Rightarrow> AggregateNode (aggregate_update lower calls props_map a)
                | UtilityNode u \<Rightarrow> UtilityNode (utility_update props_map u)
                | UnknownNode s \<Rightarrow> UnknownNode s)
      in PlanNode nt (cost n) (actuals n) (children n) (properties n) (original_text n))"

definition is_scan :: "PlanNode \<Rightarrow> bool" where
  "is_scan n = (case node_type n of ScanNode _ \<Rightarrow> True | _ \<Rightarrow> False)"
definition is_join :: "PlanNode \<Rightarrow> bool" where
  "is_join n = (case node_type n of JoinNode _ \<Rightarrow> True | _ \<Rightarrow> False)"
definition is_aggregate :: "PlanNode \<Rightarrow> bool" where
  "is_aggregate n = (case node_type n of AggregateNode _ \<Rightarrow> True | _ \<Rightarrow> False)"

definition extract_table_name :: "PlanNode \<Rightarrow> string" where
  "extract_table_name n =
     (case node_type n of
        ScanNode st \<Rightarrow>
          (case st of
             SeqScan table \<Rightarrow> tr_name table
           | IndexScan table _ _ _ \<Rightarrow> tr_name table
           | BitmapHeapScan table _ \<Rightarrow> tr_name table
           | ParallelBitmapHeapScan table _ \<Rightarrow> tr_name table
           | BitmapIndexScan _ \<Rightarrow>
               (case get_node_property n ''Relation Name'' of
                  Some s \<Rightarrow> s | None \<Rightarrow> ''bitmap_index_table''))
      | _ \<Rightarrow>
          (case get_node_property n ''Relation Name'' of
             Some s \<Rightarrow> s
           | None \<Rightarrow> (case get_node_property n ''Alias'' of Some s \<Rightarrow> s | None \<Rightarrow> ''unknown_table'')))"

definition extract_index_name :: "PlanNode \<Rightarrow> string" where
  "extract_index_name n =
     (case node_type n of
        ScanNode st \<Rightarrow>
          (case st of
             IndexScan _ (Some index) _ _ \<Rightarrow> ir_name index
           | BitmapIndexScan (Some index) \<Rightarrow> ir_name index
           | _ \<Rightarrow> (case get_node_property n ''Index Name'' of Some s \<Rightarrow> s | None \<Rightarrow> ''no_index''))
      | _ \<Rightarrow> (case get_node_property n ''Index Name'' of Some s \<Rightarrow> s | None \<Rightarrow> ''unknown_index''))"

section \<open>Recursion over the tree\<close>

fun total_cost_recursive :: "PlanNode \<Rightarrow> f64" where
  "total_cost_recursive (PlanNode nt c a cs ps t) =
     foldl f_add (total_cost c) (map total_cost_recursive cs)"

fun total_cost_range_recursive :: "PlanNode \<Rightarrow> f64 \<times> f64" where
  "total_cost_range_recursive (PlanNode nt c a cs ps t) =
     foldl (\<lambda>(lo, hi) (child_lo, child_hi). (f_add lo child_lo, f_add hi child_hi))
       (min_total_cost c, max_total_cost c) (map total_cost_range_recursive cs)"

fun max_depth :: "PlanNode \<Rightarrow> nat" where
  "max_depth (PlanNode nt c a cs ps t) =
     (if cs = [] then 1 else 1 + foldr max (map max_depth cs) 0)"

fun collect_scans :: "PlanNode \<Rightarrow> PlanNode list" where
  "collect_scans (PlanNode nt c a cs ps t) =
     (if is_scan (PlanNode nt c a cs ps t) then [PlanNode nt c a cs ps t] else []) @
     concat (map collect_scans cs)"

fun collect_joins :: "PlanNode \<Rightarrow> PlanNode list" where
  "collect_joins (PlanNode nt c a cs ps t) =
     (if is_join (PlanNode nt c a cs ps t) then [PlanNode nt c a cs ps t] else []) @
     concat (map collect_joins cs)"

fun count_nodes :: "PlanNode \<Rightarrow> nat" where
  "count_nodes (PlanNode nt c a cs ps t) = 1 + sum_list (map count_nodes cs)"

fun collect_tables :: "PlanNode \<Rightarrow> TableReference list" where
  "collect_tables (PlanNode nt c a cs ps t) =
     (case nt of
        ScanNode (SeqScan table) \<Rightarrow> [table]
      | ScanNode (IndexScan table _ _ _) \<Rightarrow> [table]
      | ScanNode (BitmapHeapScan table _) \<Rightarrow> [table]
      | ScanNode (ParallelBitmapHeapScan table _) \<Rightarrow> [table]
      | _ \<Rightarrow> []) @ concat (map collect_tables cs)"

fun check_parallel :: "PlanNode \<Rightarrow> bool" where
  "check_parallel (PlanNode nt c a cs ps t) =
     (case nt of
        UtilityNode (GatherMerge _ _) \<Rightarrow> True
      | ScanNode (ParallelBitmapHeapScan _ _) \<Rightarrow> True
      | _ \<Rightarrow> list_ex check_parallel cs)"

fun check_indexes :: "PlanNode \<Rightarrow> bool" where
  "check_indexes (PlanNode nt c a cs ps t) \<longleftrightarrow>
     (case nt of
        ScanNode (IndexScan _ _ _ _) \<Rightarrow> True
      | ScanNode (BitmapIndexScan _) \<Rightarrow> True
      | _ \<Rightarrow> False) \<or> list_ex check_indexes cs"

section \<open>Descriptions\<close>

definition comma_join :: "string list \<Rightarrow> string" where "comma_join = join '', ''"

definition scan_description :: "ScanType \<Rightarrow> string" where
  "scan_description st =
     (case st of
        SeqScan table \<Rightarrow> ''Sequential Scan on '' @ display_name table
      | IndexScan table index backward only \<Rightarrow>
          join '' ''
            ([if only then ''Index Only Scan'' else ''Index Scan''] @
             (if backward then [''(Backward)''] else []) @
             (case index of Some i \<Rightarrow> [''using '' @ ir_name i] | None \<Rightarrow> []) @
             [''on '' @ display_name table])
      | BitmapHeapScan table recheck \<Rightarrow>
          ''Bitmap Heap Scan on '' @ display_name table @
          (case recheck of Some c \<Rightarrow> '' (Recheck: '' @ c @ '')'' | None \<Rightarrow> [])
      | BitmapIndexScan index \<Rightarrow>
          ''Bitmap Index Scan'' @ (case index of Some i \<Rightarrow> '' using '' @ ir_name i | None \<Rightarrow> [])
      | ParallelBitmapHeapScan table workers \<Rightarrow>
          ''Parallel Bitmap Heap Scan on '' @ display_name table @
          (case workers of Some w \<Rightarrow> '' ('' @ nat_to_string w @ '' workers)'' | None \<Rightarrow> []))"

definition join_description :: "JoinType \<Rightarrow> string" where
  "join_description jt =
     (case jt of
        NestedLoop u \<Rightarrow> if u then ''Nested Loop (Inner Unique)'' else ''Nested Loop''
      | NestedLoopLeftJoin u \<Rightarrow>
          if u then ''Nested Loop Left Join (Inner Unique)'' else ''Nested Loop Left Join''
      | HashJoin _ buckets \<Rightarrow>
          (case buckets of Some b \<Rightarrow> ''Hash Join ('' @ nat_to_string b @ '' buckets)'' | None \<Rightarrow> ''Hash Join'')
      | MergeJoin _ \<Rightarrow> ''Merge Join'')"

definition aggregate_description :: "AggregateType \<Rightarrow> string" where
  "aggregate_description agg =
     (case agg of
        Aggregate functions \<Rightarrow>
          if functions = [] then ''Aggregate'' else ''Aggregate ('' @ comma_join functions @ '')''
      | GroupAggregate group_keys functions \<Rightarrow>
          if group_keys = [] \<and> functions = [] then ''Group Aggregate''
          else ''Group Aggregate (keys: '' @ comma_join group_keys @ '', funcs: '' @
                 comma_join functions @ '')''
      | HashAggregate group_keys functions hash_batches \<Rightarrow>
          (let base = (if group_keys = [] \<and> functions = [] then ''Hash Aggregate''
                       else ''Hash Aggregate (keys: '' @ comma_join group_keys @ '', funcs: '' @
                              comma_join functions @ '')'')
           in case hash_batches of
                Some b \<Rightarrow> base @ '' ('' @ nat_to_string b @ '' batches)''
              | None \<Rightarrow> base))"

definition utility_description :: "UtilityType \<Rightarrow> string" where
  "utility_description ut =
     (case ut of
        Sort sort_keys sort_method \<Rightarrow>
          (let base = (if sort_keys = [] then ''Sort''
                       else ''Sort ('' @ comma_join (map sort_key_to_string sort_keys) @ '')'')
           in case sort_method of Some m \<Rightarrow> base @ '' ['' @ m @ '']'' | None \<Rightarrow> base)
      | Limit (Some l) (Some off) \<Rightarrow> ''Limit '' @ nat_to_string l @ '' offset '' @ nat_to_string off
      | Limit (Some l) None \<Rightarrow> ''Limit '' @ nat_to_string l
      | Limit None (Some off) \<Rightarrow> ''Limit offset '' @ nat_to_string off
      | Limit None None \<Rightarrow> ''Limit''
      | GatherMerge (Some planned) (Some launched) \<Rightarrow>
          ''Gather Merge ('' @ nat_to_string launched @ ''/'' @ nat_to_string planned @ '' workers)''
      | GatherMerge (Some planned) None \<Rightarrow> ''Gather Merge ('' @ nat_to_string planned @ '' workers)''
      | GatherMerge None _ \<Rightarrow> ''Gather Merge''
      | Materialize \<Rightarrow> ''Materialize''
      | Memoize cache_key cache_mode \<Rightarrow>
          (let parts = (case cache_mode of Some m \<Rightarrow> [''mode: '' @ m] | None \<Rightarrow> []) @
                       (case cache_key of Some k \<Rightarrow> [''key: '' @ k] | None \<Rightarrow> [])
           in if parts \<noteq> [] then ''Memoize ('' @ comma_join parts @ '')'' else ''Memoize'')
      | SubPlan subplan \<Rightarrow>
          (case sp_type subplan of
             Some t \<Rightarrow> ''SubPlan '' @ sp_name subplan @ '' ('' @ t @ '')''
           | None \<Rightarrow> ''SubPlan '' @ sp_name subplan)
      | BitmapAnd \<Rightarrow> ''BitmapAnd''
      | BitmapOr \<Rightarrow> ''BitmapOr'')"

definition description :: "PlanNode \<Rightarrow> string" where
  "description n =
     (case node_type n of
        ScanNode st \<Rightarrow> scan_description st
      | JoinNode jt \<Rightarrow> join_description jt
      | AggregateNode agg \<Rightarrow> aggregate_description agg
      | UtilityNode ut \<Rightarrow> utility_description ut
      | UnknownNode name \<Rightarrow> name)"

fun collect_types :: "PlanNode \<Rightarrow> (string \<rightharpoonup> nat) \<Rightarrow> string \<rightharpoonup> nat" where
  "collect_types (PlanNode nt c a cs ps t) counts =
     (let type_name = description (PlanNode nt c a cs ps t);
          n = (case counts type_name of Some n \<Rightarrow> n | None \<Rightarrow> 0)
      in fold collect_types cs (counts(type_name \<mapsto> n + 1)))"

section \<open>Whole plans\<close>

definition new_plan :: "PlanNode \<Rightarrow> ParsedPlan" where
  "new_plan r = \<lparr>root = r, planning_time_ms = None, execution_time_ms = None\<rparr>"

definition plan_total_cost :: "ParsedPlan \<Rightarrow> f64" where "plan_total_cost p = total_cost_recursive (root p)"
definition plan_max_depth :: "ParsedPlan \<Rightarrow> nat" where "plan_max_depth p = max_depth (root p)"
definition node_count :: "ParsedPlan \<Rightarrow> nat" where "node_count p = count_nodes (root p)"
definition get_tables :: "ParsedPlan \<Rightarrow> TableReference list" where "get_tables p = collect_tables (root p)"
definition node_type_summary :: "ParsedPlan \<Rightarrow> string \<rightharpoonup> nat" where
  "node_type_summary p = collect_types (root p) Map.empty"
definition uses_parallel_execution :: "ParsedPlan \<Rightarrow> bool" where
  "uses_parallel_execution p = check_parallel (root p)"
definition uses_indexes :: "ParsedPlan \<Rightarrow> bool" where "uses_indexes p = check_indexes (root p)"

section \<open>The traversals against the pre-order list of nodes\<close>

fun nodes :: "PlanNode \<Rightarrow> PlanNode list" where
  "nodes (PlanNode nt c a cs ps t) = PlanNode nt c a cs ps t # concat (map nodes cs)"

lemma nodes_unfold: "nodes n = n # concat (map nodes (children n))"
  by (cases n) simp

lemma count_nodes_eq: "count_nodes n = length (nodes n)"
proof (induction n)
  case (PlanNode nt c a cs ps t)
  then have "sum_list (map count_nodes cs) = length (concat (map nodes cs))" by (induction cs) auto
  then show ?case by simp
qed

lemma collect_scans_eq: "collect_scans n = filter is_scan (nodes n)"
proof (induction n)
  case (PlanNode nt c a cs ps t)
  then have "concat (map collect_scans cs) = filter is_scan (concat (map nodes cs))" by (induction cs) auto
  then show ?case by simp
qed

lemma collect_joins_eq: "collect_joins n = filter is_join (nodes n)"
proof (induction n)
  case (PlanNode nt c a cs ps t)
  then have "concat (map collect_joins cs) = filter is_join (concat (map nodes cs))" by (induction cs) auto
  then show ?case by simp
qed

text \<open>The table a scan node reads.\<close>

definition scan_table :: "PlanNode \<Rightarrow> TableReference list" where
  "scan_table n = (case node_type n of
        ScanNode (SeqScan table) \<Rightarrow> [table]
      | ScanNode (IndexScan table _ _ _) \<Rightarrow> [table]
      | ScanNode (BitmapHeapScan table _) \<Rightarrow> [table]
      | ScanNode (ParallelBitmapHeapScan table _) \<Rightarrow> [table]
      | _ \<Rightarrow> [])"

lemma collect_tables_eq: "collect_tables n = concat (map scan_table (nodes n))"
proof (induction n)
  case (PlanNode nt c a cs ps t)
  then have "concat (map collect_tables cs) = concat (map scan_table (concat (map nodes cs)))"
    by (induction cs) auto
  moreover have "(case nt of
        ScanNode (SeqScan table) \<Rightarrow> [table]
      | ScanNode (IndexScan table _ _ _) \<Rightarrow> [table]
      | ScanNode (BitmapHeapScan table _) \<Rightarrow> [table]
      | ScanNode (ParallelBitmapHeapScan table _) \<Rightarrow> [table]
      | _ \<Rightarrow> []) = scan_table (PlanNode nt c a cs ps t)"
    by (simp add: scan_table_def split: NodeType.split ScanType.split)
  ultimately show ?case by simp
qed

definition is_parallel :: "PlanNode \<Rightarrow> bool" where
  "is_parallel n = (case node_type n of
        UtilityNode (GatherMerge _ _) \<Rightarrow> True
      | ScanNode (ParallelBitmapHeapScan _ _) \<Rightarrow> True
      | _ \<Rightarrow> False)"

definition is_index_scan :: "PlanNode \<Rightarrow> bool" where
  "is_index_scan n = (case node_type n of
        ScanNode (IndexScan _ _ _ _) \<Rightarrow> True
      | ScanNode (BitmapIndexScan _) \<Rightarrow> True
      | _ \<Rightarrow> False)"

lemma check_parallel_eq: "check_parallel n \<longleftrightarrow> list_ex is_parallel (nodes n)"
proof (induction n)
  case (PlanNode nt c a cs ps t)
  then have "list_ex check_parallel cs \<longleftrightarrow> list_ex is_parallel (concat (map nodes cs))"
    by (auto simp: list_ex_iff)
  moreover have "check_parallel (PlanNode nt c a cs ps t) \<longleftrightarrow>
      is_parallel (PlanNode nt c a cs ps t) \<or> list_ex check_parallel cs"
    by (simp add: is_parallel_def split: NodeType.split ScanType.split UtilityType.split)
  ultimately show ?case by simp
qed

lemma check_indexes_eq: "check_indexes n \<longleftrightarrow> list_ex is_index_scan (nodes n)"
proof (induction n)
  case (PlanNode nt c a cs ps t)
  then have "list_ex check_indexes cs \<longleftrightarrow> list_ex is_index_scan (concat (map nodes cs))"
    by (auto simp: list_ex_iff)
  moreover have "check_indexes (PlanNode nt c a cs ps t) \<longleftrightarrow>
      is_index_scan (PlanNode nt c a cs ps t) \<or> list_ex check_indexes cs"
    by (simp add: is_index_scan_def)
  ultimately show ?case by simp
qed

lemma foldr_max_le: "foldr max xs (0::nat) \<le> b \<longleftrightarrow> (\<forall>x \<in> set xs. x \<le> b)"
  by (induction xs) auto

lemma max_depth_le: "max_depth n \<le> Suc b \<longleftrightarrow> (\<forall>c \<in> set (children n). max_depth c \<le> b)"
  by (cases n) (auto simp: foldr_max_le)

lemma max_depth_pos: "1 \<le> max_depth n"
  by (cases n) simp

lemma max_depth_le_count: "max_depth n \<le> count_nodes n"
proof (induction n)
  case (PlanNode nt c a cs ps t)
  have "foldr max (map max_depth cs) 0 \<le> sum_list (map count_nodes cs)"
    unfolding foldr_max_le
  proof
    fix x assume "x \<in> set (map max_depth cs)"
    then obtain m where m: "m \<in> set cs" "x = max_depth m" by auto
    then have "x \<le> count_nodes m" using PlanNode by simp
    also have "\<dots> \<le> sum_list (map count_nodes cs)" using m(1) by (simp add: member_le_sum_list)
    finally show "x \<le> sum_list (map count_nodes cs)" .
  qed
  then show ?case by simp
qed

lemma fold_collect_types:
  assumes "\<And>n counts. n \<in> set cs \<Longrightarrow> collect_types n counts =
      (\<lambda>k. let m = length (filter (\<lambda>x. description x = k) (nodes n)) in
         if m = 0 then counts k else Some ((case counts k of Some i \<Rightarrow> i | None \<Rightarrow> 0) + m))"
  shows "fold collect_types cs counts =
      (\<lambda>k. let m = length (filter (\<lambda>x. description x = k) (concat (map nodes cs))) in
         if m = 0 then counts k else Some ((case counts k of Some i \<Rightarrow> i | None \<Rightarrow> 0) + m))"
  using assms
proof (induction cs arbitrary: counts)
  case Nil
  then show ?case by simp
next
  case (Cons n cs)
  then show ?case
    by (auto simp: Let_def fun_eq_iff)
qed

lemma collect_types_eq:
  "collect_types n counts = (\<lambda>k. let m = length (filter (\<lambda>x. description x = k) (nodes n)) in
     if m = 0 then counts k else Some ((case counts k of Some i \<Rightarrow> i | None \<Rightarrow> 0) + m))"
proof (induction n arbitrary: counts)
  case (PlanNode nt c a cs ps t)
  note IH = fold_collect_types [OF PlanNode]
  show ?case
    by (simp add: IH Let_def fun_eq_iff)
qed

section \<open>Properties\<close>

text \<open>C16: every query over a parsed plan is what it says about its nodes in pre-order: the node
  count, the scans, the joins and the tables in plan order, whether the plan is parallel or
  uses an index, and per description the number of nodes printed that way.\<close>

theorem plan_queries_preorder:
  "node_count p = length (nodes (root p)) \<and>
   collect_scans (root p) = filter is_scan (nodes (root p)) \<and>
   collect_joins (root p) = filter is_join (nodes (root p)) \<and>
   get_tables p = concat (map scan_table (nodes (root p))) \<and>
   (uses_parallel_execution p \<longleftrightarrow> (\<exists>n \<in> set (nodes (root p)). is_parallel n)) \<and>
   (uses_indexes p \<longleftrightarrow> (\<exists>n \<in> set (nodes (root p)). is_index_scan n)) \<and>
   plan_max_depth p \<le> node_count p \<and>
   node_type_summary p k =
     (let m = length (filter (\<lambda>x. description x = k) (nodes (root p))) in if m = 0 then None else Some m)"
  by (simp add: node_count_def count_nodes_eq collect_scans_eq collect_joins_eq get_tables_def
      collect_tables_eq uses_parallel_execution_def check_parallel_eq uses_indexes_def check_indexes_eq
      plan_max_depth_def node_type_summary_def collect_types_eq list_ex_iff Let_def
      max_depth_le_count [unfolded count_nodes_eq])

end
