(* ===== verification/Plan_Parser.thy ===== *)
theory Plan_Parser
  imports Plan_Tree Cost_Tuple Log_Line
begin

text \<open>
  The parser of \<open>crates/core/src/plan_parser.rs\<close>: classification of node lines, property lines,
  the recursive tree parser over indented lines, and the conversion of JSON plan documents.
  The compiled patterns of the third-party \<open>regex\<close> crate are the fields of a record: each
  returns the groups of \<open>captures\<close>. \<open>serde_json\<close>'s value type is the datatype \<open>Json\<close>; its
  printing is a parameter, and so is the full Unicode lower-casing. A result of type
  \<open>ParseError + 'a\<close> is a Rust \<open>Result\<close>, \<open>Inl\<close> the error.
\<close>

section \<open>External interfaces\<close>

datatype Json =
    JNull
  | JBool bool
  | JNumber string
  | JString string
  | JArray "Json list"
  | JObject "(string \<times> Json) list"

record Patterns =
  lower :: "string \<Rightarrow> string"
  cost_is_match :: "string \<Rightarrow> bool"
  cost_captures :: "string \<Rightarrow> (string \<times> string \<times> string \<times> string) option"
  actual_captures :: "string \<Rightarrow> (string option \<times> string option \<times> string option) option"
  table_captures :: "string \<Rightarrow> (string option \<times> string option \<times> string option) option"
  index_captures :: "string \<Rightarrow> (bool \<times> bool \<times> bool \<times> string option) option"
  bitmap_index_captures :: "string \<Rightarrow> string option option"
  workers_captures :: "string \<Rightarrow> string option"
  limit_captures :: "string \<Rightarrow> (string option \<times> string option) option"
  hash_buckets_captures :: "string \<Rightarrow> string option"
  inner_unique_captures :: "string \<Rightarrow> string option"
  cache_mode_captures :: "string \<Rightarrow> string option"
  subplan_captures :: "string \<Rightarrow> (string option \<times> string option) option"
  call_captures :: "string \<Rightarrow> string list"

section \<open>Extraction helpers\<close>

definition strip_quotes :: "string \<Rightarrow> string" where
  "strip_quotes s =
     (let trimmed = trim s
      in if 2 \<le> length trimmed \<and>
            ((hd trimmed = CHR 0x22 \<and> last trimmed = CHR 0x22) \<or>
             (hd trimmed = CHR 0x27 \<and> last trimmed = CHR 0x27))
         then butlast (tl trimmed)
         else s)"

definition extract_table_reference_from_line :: "Patterns \<Rightarrow> string \<Rightarrow> TableReference option" where
  "extract_table_reference_from_line R line =
     (case table_captures R line of
        Some (schema, Some table, alias) \<Rightarrow>
          let table_ref = (case schema of
                             Some s \<Rightarrow> table_with_schema (strip_quotes s) (strip_quotes table)
                           | None \<Rightarrow> new_table (strip_quotes table))
          in Some (case alias of Some a \<Rightarrow> with_alias table_ref (strip_quotes a) | None \<Rightarrow> table_ref)
      | _ \<Rightarrow> None)"

definition extract_workers_planned :: "Patterns \<Rightarrow> string \<Rightarrow> nat option" where
  "extract_workers_planned R line = Option.bind (workers_captures R line) parse_u32"

definition extract_limit_info :: "Patterns \<Rightarrow> string \<Rightarrow> nat option \<times> nat option" where
  "extract_limit_info R line =
     (case limit_captures R line of
        Some (l, off) \<Rightarrow> (Option.bind l parse_u64, Option.bind off parse_u64)
      | None \<Rightarrow> (None, None))"

definition extract_hash_buckets :: "Patterns \<Rightarrow> string \<Rightarrow> nat option" where
  "extract_hash_buckets R line = Option.bind (hash_buckets_captures R line) parse_u32"

definition extract_inner_unique :: "Patterns \<Rightarrow> string \<Rightarrow> bool option" where
  "extract_inner_unique R line = map_option (\<lambda>m. m = ''true'') (inner_unique_captures R line)"

definition extract_cache_mode :: "Patterns \<Rightarrow> string \<Rightarrow> string option" where
  "extract_cache_mode R line = cache_mode_captures R line"

definition extract_subplan_info :: "Patterns \<Rightarrow> string \<Rightarrow> SubPlanReference option" where
  "extract_subplan_info R line =
     map_option (\<lambda>(name, t). \<lparr>sp_name = (case name of Some n \<Rightarrow> n | None \<Rightarrow> ''Unknown''), sp_type = t\<rparr>)
       (subplan_captures R line)"

section \<open>Node classification\<close>

definition index_reference :: "string \<Rightarrow> IndexReference" where
  "index_reference i = \<lparr>ir_name = strip_quotes i\<rparr>"

definition scan_analyze_with_lower :: "Patterns \<Rightarrow> string \<Rightarrow> string \<Rightarrow> ParseError + ScanType" where
  "scan_analyze_with_lower R line line_lower =
     (if contains_sub line_lower ''bitmap index scan'' then
        Inr (BitmapIndexScan
          (case bitmap_index_captures R line of
             Some idx \<Rightarrow> map_option index_reference idx
           | None \<Rightarrow> None))
      else
        (case extract_table_reference_from_line R line of
           None \<Rightarrow> Inl (InvalidNodeStructure (''No table reference found in scan line: '' @ line))
         | Some table \<Rightarrow>
             (case index_captures R line of
                Some (bitmap, only, backward, idx) \<Rightarrow>
                  let index = map_option index_reference idx
                  in if bitmap then Inr (BitmapIndexScan index)
                     else Inr (IndexScan table index backward only)
              | None \<Rightarrow>
                  if contains_sub line_lower ''parallel bitmap heap scan''
                  then Inr (ParallelBitmapHeapScan table (extract_workers_planned R line))
                  else if contains_sub line_lower ''bitmap heap scan''
                  then Inr (BitmapHeapScan table None)
                  else if contains_sub line_lower ''seq scan'' then Inr (SeqScan table)
                  else Inl (InvalidNodeStructure (''Unknown scan type in line: '' @ line)))))"

definition unwrap_or :: "'a option \<Rightarrow> 'a \<Rightarrow> 'a" where
  "unwrap_or opt d = (case opt of Some x \<Rightarrow> x | None \<Rightarrow> d)"

definition join_analyze_with_lower :: "Patterns \<Rightarrow> string \<Rightarrow> string \<Rightarrow> ParseError + JoinType" where
  "join_analyze_with_lower R line line_lower =
     (if contains_sub line_lower ''nested loop left join''
      then Inr (NestedLoopLeftJoin (unwrap_or (extract_inner_unique R line) False))
      else if contains_sub line_lower ''nested loop''
      then Inr (NestedLoop (unwrap_or (extract_inner_unique R line) False))
      else if contains_sub line_lower ''hash join''
      then Inr (HashJoin None (extract_hash_buckets R line))
      else if contains_sub line_lower ''merge join'' then Inr (MergeJoin None)
      else Inl (InvalidNodeStructure (''Unknown join type in line: '' @ line)))"

definition aggregate_analyze_with_lower ::
  "Patterns \<Rightarrow> string \<Rightarrow> string \<Rightarrow> ParseError + AggregateType" where
  "aggregate_analyze_with_lower R line line_lower =
     (if contains_sub line_lower ''group aggregate'' then Inr (GroupAggregate [] [])
      else if contains_sub line_lower ''hash aggregate''
      then Inr (HashAggregate [] [] (extract_hash_buckets R line))
      else if contains_sub line_lower ''aggregate'' then Inr (Aggregate [])
      else Inl (InvalidNodeStructure (''Unknown aggregate type in line: '' @ line)))"

definition utility_analyze_with_lower ::
  "Patterns \<Rightarrow> string \<Rightarrow> string \<Rightarrow> ParseError + UtilityType" where
  "utility_analyze_with_lower R line line_lower =
     (if contains_sub line_lower ''sort'' then Inr (Sort [] None)
      else if contains_sub line_lower ''limit''
      then (let (limit_count, offset_count) = extract_limit_info R line
            in Inr (Limit limit_count offset_count))
      else if contains_sub line_lower ''gather merge''
      then Inr (GatherMerge (extract_workers_planned R line) None)
      else if contains_sub line_lower ''materialize'' then Inr Materialize
      else if contains_sub line_lower ''memoize'' then Inr (Memoize None (extract_cache_mode R line))
      else if contains_sub line_lower ''subplan''
      then Inr (SubPlan (unwrap_or (extract_subplan_info R line)
                           \<lparr>sp_name = ''Unknown'', sp_type = None\<rparr>))
      else if contains_sub line_lower ''bitmapand'' then Inr BitmapAnd
      else if contains_sub line_lower ''bitmapor'' then Inr BitmapOr
      else Inl (InvalidNodeStructure (''Unknown utility type in line: '' @ line)))"

definition arrow_prefixes :: "string list" where
  "arrow_prefixes =
     [''->'', utf8 [0xE2, 0x94, 0x9C, 0xE2, 0x94, 0x80, 0xE2, 0x94, 0x80],
      utf8 [0xE2, 0x94, 0x94, 0xE2, 0x94, 0x80, 0xE2, 0x94, 0x80]]"

definition extract_node_type_from_line :: "string \<Rightarrow> string" where
  "extract_node_type_from_line line =
     (let trimmed = trim line
      in case strip_any arrow_prefixes trimmed of
           Some stripped \<Rightarrow> trim stripped
         | None \<Rightarrow> trimmed)"

text \<open>\<open>split_whitespace().next().unwrap_or("Unknown")\<close>: the text up to the first white-space
  character, after the leading white space.\<close>

function take_word :: "string \<Rightarrow> string" where
  "take_word s =
     (case s of [] \<Rightarrow> []
      | c # cs \<Rightarrow> if strip_any (nonempty_units ws_units) s \<noteq> None then [] else c # take_word cs)"
  by pat_completeness auto
termination by (relation "measure length") auto

declare take_word.simps [simp del]

definition first_word :: "string \<Rightarrow> string" where
  "first_word s = (let w = take_word (trim_start s) in if w = [] then ''Unknown'' else w)"

definition parse_node_type_from_string :: "Patterns \<Rightarrow> string \<Rightarrow> NodeType" where
  "parse_node_type_from_string R node_type_str =
     (let clean = extract_node_type_from_line node_type_str;
          line_lower = lower R clean
      in if contains_sub line_lower ''scan'' then
           (case scan_analyze_with_lower R clean line_lower of
              Inr st \<Rightarrow> ScanNode st
            | Inl _ \<Rightarrow> UnknownNode (''UNKNOWN_SCAN: '' @ first_word clean))
         else if contains_sub line_lower ''join'' \<or> contains_sub line_lower ''nested loop'' then
           (case join_analyze_with_lower R clean line_lower of
              Inr jt \<Rightarrow> JoinNode jt
            | Inl _ \<Rightarrow> UnknownNode (''UNKNOWN_JOIN: '' @ first_word clean))
         else if contains_sub line_lower ''aggregate'' then
           (case aggregate_analyze_with_lower R clean line_lower of
              Inr agg \<Rightarrow> AggregateNode agg
            | Inl _ \<Rightarrow> UnknownNode (''UNKNOWN_AGGREGATE: '' @ first_word clean))
         else
           (case utility_analyze_with_lower R clean line_lower of
              Inr ut \<Rightarrow> UtilityNode ut
            | Inl _ \<Rightarrow> UnknownNode (first_word clean)))"

section \<open>Node and property lines\<close>

definition extract_cost :: "('v, 'm) Simd \<Rightarrow> Patterns \<Rightarrow> string \<Rightarrow> ParseError + PlanCost" where
  "extract_cost S R line =
     (case parse_cost_tuple S (bytes line) of
        Some (lo, hi, rows, width) \<Rightarrow>
          Inr \<lparr>startup_cost = lo, min_total_cost = lo, max_total_cost = hi,
               estimated_rows = rows, estimated_width = width\<rparr>
      | None \<Rightarrow>
          (case cost_captures R line of
             None \<Rightarrow> Inl (InvalidCostFormat (''No cost information found in: '' @ line))
           | Some (lo, hi, rows, width) \<Rightarrow>
               (case parse_f64 lo of
                  None \<Rightarrow> Inl (InvalidCostFormat ''Invalid startup cost'')
                | Some lo \<Rightarrow>
                    (case parse_f64 hi of
                       None \<Rightarrow> Inl (InvalidCostFormat ''Invalid total cost'')
                     | Some hi \<Rightarrow>
                         (case parse_u64 rows of
                            None \<Rightarrow> Inl (InvalidCostFormat ''Invalid estimated rows'')
                          | Some rows \<Rightarrow>
                              (case parse_u32 width of
                                 None \<Rightarrow> Inl (InvalidCostFormat ''Invalid estimated width'')
                               | Some width \<Rightarrow>
                                   Inr \<lparr>startup_cost = lo, min_total_cost = lo, max_total_cost = hi,
                                        estimated_rows = rows, estimated_width = width\<rparr>))))))"

text \<open>\<open>round() as u64\<close>: half away from zero, then truncating and saturating.\<close>

definition f_round_u64 :: "f64 \<Rightarrow> nat" where
  "f_round_u64 x =
     (if is_nan x \<or> f_neg x then 0 else if is_infinite x then nat u64_max
      else nat (min \<lfloor>f_mag x + 1 / 2\<rfloor> u64_max))"

definition parse_single_node :: "('v, 'm) Simd \<Rightarrow> Patterns \<Rightarrow> string \<Rightarrow> ParseError + PlanNode" where
  "parse_single_node S R line =
     (case extract_cost S R line of
        Inl e \<Rightarrow> Inl e
      | Inr c \<Rightarrow>
          let node = new_node (parse_node_type_from_string R line) c line
          in Inr (case actual_captures R line of
                    Some (total_time, rows, loops) \<Rightarrow>
                      set_actuals node
                        \<lparr>actual_time_ms = Option.bind total_time parse_f64,
                         actual_rows = map_option f_round_u64 (Option.bind rows parse_f64),
                         actual_loops = Option.bind loops parse_u32\<rparr>
                  | None \<Rightarrow> node))"

text \<open>\<open>trim_end_matches\<close> removes the suffix as often as it occurs.\<close>

function trim_end_matches :: "string \<Rightarrow> string \<Rightarrow> string" where
  "trim_end_matches suf s =
     (if suf = [] then s
      else case strip_suffix suf s of Some r \<Rightarrow> trim_end_matches suf r | None \<Rightarrow> s)"
  by pat_completeness auto
termination
  by (relation "measure (\<lambda>(suf, s). length s)") (auto simp: strip_suffix_Some_iff)

declare trim_end_matches.simps [simp del]

fun sort_method_markers :: "string list \<Rightarrow> string \<Rightarrow> PlanNode \<Rightarrow> PlanNode" where
  "sort_method_markers [] rest node = set_node_property node ''Sort Method'' rest"
| "sort_method_markers (marker # markers) rest node =
     (case find_sub marker rest of
        Some idx \<Rightarrow>
          let method = trim (take idx rest);
              amount = trim (drop (idx + length marker) rest);
              node = (if method \<noteq> [] then set_node_property node ''Sort Method'' method else node);
              node = set_node_property node ''Sort Space Type'' (trim_end_matches '':'' marker)
          in set_node_property node ''Sort Space Used'' (trim (trim_end_matches ''kB'' amount))
      | None \<Rightarrow> sort_method_markers markers rest node)"

definition parse_sort_method_line :: "string \<Rightarrow> PlanNode \<Rightarrow> PlanNode" where
  "parse_sort_method_line rest node = sort_method_markers [''Disk:'', ''Memory:''] rest node"

text \<open>\<open>split_whitespace\<close>.\<close>

function split_whitespace :: "string \<Rightarrow> string list" where
  "split_whitespace s =
     (let t = trim_start s; w = take_word t
      in if w = [] then [] else w # split_whitespace (drop (length w) t))"
  by pat_completeness auto
termination
proof (relation "measure length", goal_cases)
  case (2 s t w)
  have "length (trim_start s) \<le> length s"
    using trim_units_suffix [of s ws_units] by (metis trim_start_def length_append le_add2)
  moreover have "length (take_word t) \<le> length t" for t
    by (induction t rule: take_word.induct) (subst take_word.simps, auto split: list.split)
  moreover have "0 < length w" using 2 by simp
  ultimately show ?case
    using 2(1,2) by (simp, metis (no_types) diff_less le_trans less_le_trans not_less_zero
        length_greater_0_conv linorder_not_le list.size(3))
qed simp

declare split_whitespace.simps [simp del]

definition parse_heap_blocks_line :: "string \<Rightarrow> PlanNode \<Rightarrow> PlanNode" where
  "parse_heap_blocks_line rest node =
     foldl (\<lambda>node field. case split_once ''='' field of
              Some (name, v) \<Rightarrow> set_node_property node (''Heap Blocks: '' @ name) v
            | None \<Rightarrow> node)
       node (split_whitespace rest)"

definition parse_hash_line :: "string \<Rightarrow> PlanNode \<Rightarrow> PlanNode" where
  "parse_hash_line line node =
     (let node = foldl (\<lambda>node key.
              let needle = key @ '':''
              in case find_sub needle line of
                   Some idx \<Rightarrow>
                     let v = takeWhile is_digit_char (trim_start (drop (idx + length needle) line))
                     in if v \<noteq> [] then set_node_property node key v else node
                 | None \<Rightarrow> node)
            node [''Buckets'', ''Batches'', ''Original Buckets'', ''Original Batches'']
      in case find_sub ''Memory Usage:'' line of
           Some idx \<Rightarrow>
             set_node_property node ''Memory Usage'' (trim (drop (idx + length ''Memory Usage:'') line))
         | None \<Rightarrow> node)"

definition plain_property_keys :: "string list" where
  "plain_property_keys =
     [''Output'', ''Index Cond'', ''Filter'', ''Sort Key'', ''Join Filter'', ''Group Key'', ''Cache Key'',
      ''Workers Planned'', ''Recheck Cond'', ''Inner Unique'', ''Cache Mode'']"

fun plain_property :: "string list \<Rightarrow> string \<Rightarrow> (string \<times> string) option" where
  "plain_property [] line = None"
| "plain_property (key # keys) line =
     (case strip_prefix (key @ '':'') line of
        Some rest \<Rightarrow> Some (key, trim rest)
      | None \<Rightarrow> plain_property keys line)"

definition parse_property_line :: "PlanNode \<Rightarrow> string \<Rightarrow> PlanNode" where
  "parse_property_line node line =
     (case plain_property plain_property_keys line of
        Some (key, v) \<Rightarrow> set_node_property node key v
      | None \<Rightarrow>
          (case strip_prefix ''Sort Method:'' line of
             Some rest \<Rightarrow> parse_sort_method_line (trim rest) node
           | None \<Rightarrow>
               (case strip_prefix ''Heap Blocks:'' line of
                  Some rest \<Rightarrow> parse_heap_blocks_line (trim rest) node
                | None \<Rightarrow>
                    if starts_with line ''Buckets:'' then parse_hash_line line node
                    else
                      (case find_sub '':'' line of
                         Some colon_pos \<Rightarrow>
                           set_node_property node (trim (take colon_pos line))
                             (trim (drop (colon_pos + 1) line))
                       | None \<Rightarrow> node))))"

end
