(* ===== verification/Tree_Parser.thy ===== *)
theory Tree_Parser
  imports Plan_Parser
begin

text \<open>
  The recursive-descent part of \<open>crates/core/src/plan_parser.rs\<close> (\<open>parse_lines\<close>,
  \<open>parse_node_tree\<close>, \<open>parse_plan\<close>, \<open>parse_plan_from_lines\<close>) and the JSON conversion
  (\<open>convert_json_node_to_plan_node\<close>, \<open>from_json_plan\<close>). \<open>parse_node_tree\<close> and its loop are
  mutually recursive; that every call returns a larger index is proved together with
  termination. The main lemmas: the tree's nodes are, in pre-order, exactly the node lines
  consumed, in their order, and the depth cap holds.
\<close>

section \<open>Definitions\<close>

record InternalPlanLine =
  indent :: nat
  content :: string
  is_node :: bool

definition MAX_PLAN_DEPTH :: nat where "MAX_PLAN_DEPTH = 256"

definition convert_raw_indentation_to_logical :: "nat \<Rightarrow> nat" where
  "convert_raw_indentation_to_logical raw_spaces = raw_spaces div 2"

definition count_indentation :: "string \<Rightarrow> nat" where
  "count_indentation line =
     convert_raw_indentation_to_logical (length (takeWhile (\<lambda>c. c = CHR '' '') line))"

definition parse_lines :: "Patterns \<Rightarrow> string \<Rightarrow> InternalPlanLine list" where
  "parse_lines R txt =
     map (\<lambda>line. let c = trim line
                  in \<lparr>indent = count_indentation line, content = c, is_node = cost_is_match R c\<rparr>)
       (filter (\<lambda>line. trim line \<noteq> []) (str_lines txt))"

text \<open>\<open>parse_node_tree\<close> and the \<open>while\<close> loop of its body; \<open>idx\<close> is the loop variable.\<close>

function (sequential)
  parse_node_tree :: "('v, 'm) Simd \<Rightarrow> Patterns \<Rightarrow> InternalPlanLine list \<Rightarrow> nat \<Rightarrow> nat \<Rightarrow>
    ParseError + (PlanNode \<times> nat)" and
  node_loop :: "('v, 'm) Simd \<Rightarrow> Patterns \<Rightarrow> InternalPlanLine list \<Rightarrow> nat \<Rightarrow> nat \<Rightarrow> PlanNode \<Rightarrow> nat \<Rightarrow>
    ParseError + (PlanNode \<times> nat)"
where
  "parse_node_tree S R ls start_idx depth =
     (if MAX_PLAN_DEPTH \<le> depth then Inl (MaxDepthExceeded MAX_PLAN_DEPTH)
      else if length ls \<le> start_idx then Inl (InvalidNodeStructure ''No lines to parse'')
      else if \<not> is_node (ls ! start_idx)
      then Inl (InvalidNodeStructure (''Expected node line at index '' @ nat_to_string start_idx @
                 '', got: '' @ content (ls ! start_idx)))
      else (case parse_single_node S R (content (ls ! start_idx)) of
              Inl e \<Rightarrow> Inl e
            | Inr node \<Rightarrow>
                (case node_loop S R ls depth (indent (ls ! start_idx)) node (start_idx + 1) of
                   Inl e \<Rightarrow> Inl e
                 | Inr (node, idx) \<Rightarrow>
                     Inr (update_from_properties (lower R) (call_captures R) node, idx))))"
| "node_loop S R ls depth current_indent node idx =
     (if idx < length ls then
        if indent (ls ! idx) \<le> current_indent then Inr (node, idx)
        else if is_node (ls ! idx) \<and> current_indent < indent (ls ! idx) then
          (case parse_node_tree S R ls idx (depth + 1) of
             Inl e \<Rightarrow> Inl e
           | Inr (child, next_idx) \<Rightarrow>
               node_loop S R ls depth current_indent (add_child node child) next_idx)
        else if current_indent < indent (ls ! idx) then
          node_loop S R ls depth current_indent (parse_property_line node (content (ls ! idx))) (idx + 1)
        else node_loop S R ls depth current_indent node (idx + 1)
      else Inr (node, idx))"
  by pat_completeness auto

lemma parse_node_tree_advances:
  "parse_node_tree_node_loop_dom (Inl (S, R, ls, start_idx, depth)) \<Longrightarrow>
     parse_node_tree S R ls start_idx depth = Inr (n, stop) \<Longrightarrow> start_idx < stop"
  and node_loop_advances:
  "parse_node_tree_node_loop_dom (Inr (S, R, ls, depth, current_indent, node, idx)) \<Longrightarrow>
     node_loop S R ls depth current_indent node idx = Inr (n, stop) \<Longrightarrow> idx \<le> stop"
proof (induction arbitrary: n stop and n stop rule: parse_node_tree_node_loop.pinduct)
  case (1 S R ls start_idx depth)
  then show ?case
    by (simp add: parse_node_tree.psimps split: if_splits sum.splits prod.splits)
      (metis Suc_le_lessD add.commute plus_1_eq_Suc)
next
  case (2 S R ls depth current_indent node idx)
  show ?case
  proof (cases "idx < length ls \<and> \<not> indent (ls ! idx) \<le> current_indent")
    case False
    with 2 show ?thesis by (auto simp: node_loop.psimps split: if_splits)
  next
    case True
    show ?thesis
    proof (cases "is_node (ls ! idx)")
      case node: True
      then obtain child stop' where c: "parse_node_tree S R ls idx (depth + 1) = Inr (child, stop')"
          "node_loop S R ls depth current_indent (add_child node child) stop' = Inr (n, stop)"
        using 2(1,6) True by (auto simp: node_loop.psimps split: sum.splits)
      have "idx < stop'" using 2(2) c(1) True node by simp
      moreover have "stop' \<le> stop" using 2(3) c True node by simp
      ultimately show ?thesis by simp
    next
      case False
      with 2(1,6) True have "node_loop S R ls depth current_indent
          (parse_property_line node (content (ls ! idx))) (idx + 1) = Inr (n, stop)"
        by (simp add: node_loop.psimps)
      then show ?thesis using 2(4) True False by fastforce
    qed
  qed
qed

termination parse_node_tree
proof (relation "measure (\<lambda>x. case x of Inl (S, R, ls, start_idx, depth) \<Rightarrow> 2 * (length ls - start_idx)
    | Inr (S, R, ls, depth, current_indent, node, idx) \<Rightarrow> 2 * (length ls - idx) + 1)", goal_cases)
  case (4 S R ls depth current_indent node idx x child stop')
  then have "idx < stop'" by (metis parse_node_tree_advances)
  with 4 show ?case by simp
qed auto

declare parse_node_tree.simps [simp del] node_loop.simps [simp del]

definition parse_plan :: "('v, 'm) Simd \<Rightarrow> Patterns \<Rightarrow> string \<Rightarrow> ParseError + ParsedPlan" where
  "parse_plan S R txt =
     (case parse_node_tree S R (parse_lines R txt) 0 0 of
        Inl e \<Rightarrow> Inl e
      | Inr (r, _) \<Rightarrow> Inr (new_plan r))"

definition parse_plan_from_lines ::
  "('v, 'm) Simd \<Rightarrow> Patterns \<Rightarrow> PlanLine list \<Rightarrow> ParseError + ParsedPlan" where
  "parse_plan_from_lines S R plan_lines =
     (if plan_lines = [] then Inl EmptyInput
      else
        (let ls = map (\<lambda>pl. \<lparr>indent = convert_raw_indentation_to_logical (pl_indentation pl),
                             content = pl_query pl, is_node = cost_is_match R (pl_query pl)\<rparr>) plan_lines
         in case parse_node_tree S R ls 0 0 of
              Inl e \<Rightarrow> Inl e
            | Inr (r, _) \<Rightarrow> Inr (new_plan r)))"

definition new_plan_line :: "('v, 'm) Simd \<Rightarrow> bool \<Rightarrow> string \<Rightarrow> PlanLine" where
  "new_plan_line S aarch64 line =
     \<lparr>pl_query = trim line, pl_indentation = get_indent_level S aarch64 line\<rparr>"

section \<open>JSON plans\<close>

datatype JsonPlanNode = JsonPlanNode
  (j_node_type: string)
  (j_relation_name: "string option")
  (j_schema: "string option")
  (j_alias: "string option")
  (j_startup_cost: f64)
  (j_total_cost: f64)
  (j_plan_rows: nat)
  (j_plan_width: nat)
  (j_actual_startup_time: "f64 option")
  (j_actual_total_time: "f64 option")
  (j_actual_rows: "f64 option")
  (j_actual_loops: "nat option")
  (j_plans: "JsonPlanNode list option")
  (j_properties: "(string \<times> Json) list")

record JsonTrigger =
  trigger_name :: string
  trigger_relation :: string
  trigger_time :: f64
  trigger_calls :: nat

record JsonPlan =
  jp_plan :: JsonPlanNode
  jp_planning_time :: "f64 option"
  jp_execution_time :: "f64 option"
  jp_triggers :: "JsonTrigger list option"

text \<open>\<open>serde_json\<close>: parsing, deserialising a plan document, printing a value.\<close>

record JsonLib =
  from_str :: "string \<Rightarrow> Json option"
  from_value :: "Json \<Rightarrow> JsonPlan option"
  json_to_string :: "Json \<Rightarrow> string"

definition json_as_str :: "Json \<Rightarrow> string option" where
  "json_as_str v = (case v of JString s \<Rightarrow> Some s | _ \<Rightarrow> None)"

definition json_property_value :: "JsonLib \<Rightarrow> Json \<Rightarrow> string" where
  "json_property_value J v =
     (case v of
        JString s \<Rightarrow> s
      | JNumber n \<Rightarrow> n
      | JBool b \<Rightarrow> bool_to_string b
      | JArray arr \<Rightarrow> join '', '' (List.map_filter json_as_str arr)
      | _ \<Rightarrow> json_to_string J v)"

definition json_index :: "JsonPlanNode \<Rightarrow> IndexReference option" where
  "json_index jn =
     map_option (\<lambda>n. \<lparr>ir_name = n\<rparr>) (Option.bind (map_of (j_properties jn) ''Index Name'') json_as_str)"

definition parse_json_node_type :: "Patterns \<Rightarrow> JsonPlanNode \<Rightarrow> NodeType" where
  "parse_json_node_type R jn =
     (let node_type_lower = lower R (j_node_type jn);
          fallback = parse_node_type_from_string R (j_node_type jn)
      in if contains_sub node_type_lower ''scan'' then
           (case j_relation_name jn of
              Some relation_name \<Rightarrow>
                let table = \<lparr>tr_schema = j_schema jn, tr_name = relation_name, tr_alias = j_alias jn\<rparr>
                in if contains_sub node_type_lower ''index'' \<and> \<not> contains_sub node_type_lower ''bitmap''
                   then ScanNode (IndexScan table (json_index jn)
                          (contains_sub node_type_lower ''backward'') (contains_sub node_type_lower ''only''))
                   else if contains_sub node_type_lower ''bitmap index scan''
                   then ScanNode (BitmapIndexScan (json_index jn))
                   else if contains_sub node_type_lower ''bitmap heap scan''
                   then ScanNode (BitmapHeapScan table None)
                   else if contains_sub node_type_lower ''seq scan'' then ScanNode (SeqScan table)
                   else fallback
            | None \<Rightarrow> fallback)
         else fallback)"

text \<open>\<open>f64::max(0.0)\<close> before the cast turns a NaN into zero, as the cast itself does. The
  properties are listed in the order the code iterates its map. The conversion cannot fail:
  the \<open>Result\<close> of the code is always \<open>Ok\<close>.\<close>

fun convert_json_node_to_plan_node :: "JsonLib \<Rightarrow> Patterns \<Rightarrow> JsonPlanNode \<Rightarrow> PlanNode" where
  "convert_json_node_to_plan_node J R
     (JsonPlanNode nt rel sch al startup tot rows width ast att arows aloops plans ps) =
     (let jn = JsonPlanNode nt rel sch al startup tot rows width ast att arows aloops plans ps;
          plan_node = new_node (parse_json_node_type R jn)
            \<lparr>startup_cost = startup, min_total_cost = startup, max_total_cost = tot,
             estimated_rows = rows, estimated_width = width\<rparr> nt;
          plan_node =
            (if att \<noteq> None \<or> arows \<noteq> None then
               set_actuals plan_node \<lparr>actual_time_ms = att,
                 actual_rows = map_option f_round_u64 arows, actual_loops = aloops\<rparr>
             else plan_node);
          plan_node = foldl (\<lambda>n (key, v). set_node_property n key (json_property_value J v)) plan_node ps
      in case plans of
           None \<Rightarrow> plan_node
         | Some js \<Rightarrow> foldl add_child plan_node (map (convert_json_node_to_plan_node J R) js))"

definition from_json_plan_struct :: "JsonLib \<Rightarrow> Patterns \<Rightarrow> JsonPlan \<Rightarrow> ParsedPlan" where
  "from_json_plan_struct J R jp =
     \<lparr>root = convert_json_node_to_plan_node J R (jp_plan jp),
      planning_time_ms = jp_planning_time jp, execution_time_ms = jp_execution_time jp\<rparr>"

definition from_json_plan :: "JsonLib \<Rightarrow> Patterns \<Rightarrow> string \<Rightarrow> ParseError + ParsedPlan" where
  "from_json_plan J R json =
     (case from_str J json of
        None \<Rightarrow> Inl (InvalidJsonFormat ''Failed to parse JSON'')
      | Some v \<Rightarrow>
          (case (case v of
                   JArray [] \<Rightarrow> Inl (MissingJsonPlanData ''Empty JSON plan array'')
                 | JArray (x # _) \<Rightarrow> Inr x
                 | JObject kvs \<Rightarrow> Inr (JObject kvs)
                 | _ \<Rightarrow> Inl (InvalidJsonFormat ''Expected a JSON array or object'')) of
             Inl e \<Rightarrow> Inl e
           | Inr first \<Rightarrow>
               (case from_value J first of
                  None \<Rightarrow> Inl (InvalidJsonFormat ''JSON does not match plan schema'')
                | Some jp \<Rightarrow> Inr (from_json_plan_struct J R jp))))"

section \<open>Lemmas\<close>

text \<open>What the helpers leave alone.\<close>

lemma node_update_simps [simp]:
  "children (update_from_properties lo ca n) = children n"
  "original_text (update_from_properties lo ca n) = original_text n"
  "children (set_node_property n k v) = children n"
  "original_text (set_node_property n k v) = original_text n"
  "children (set_actuals n a) = children n"
  "original_text (set_actuals n a) = original_text n"
  "children (add_child n child) = children n @ [child]"
  "original_text (add_child n child) = original_text n"
  "children (new_node nt c t) = []"
  "original_text (new_node nt c t) = t"
  by (simp_all add: update_from_properties_def set_node_property_def set_actuals_def add_child_def
      new_node_def Let_def)

lemma foldl_keeps:
  assumes "\<And>n x. children (f n x) = children n \<and> original_text (f n x) = original_text n"
  shows "children (foldl f n xs) = children n \<and> original_text (foldl f n xs) = original_text n"
  using assms by (induction xs arbitrary: n) simp_all

lemma parse_property_line_keeps [simp]:
  "children (parse_property_line n line) = children n"
  "original_text (parse_property_line n line) = original_text n"
proof -
  have hb: "children (parse_heap_blocks_line rest n) = children n \<and>
      original_text (parse_heap_blocks_line rest n) = original_text n" for rest
    unfolding parse_heap_blocks_line_def by (rule foldl_keeps) (auto split: option.split)
  have hl: "children (parse_hash_line line n) = children n \<and>
      original_text (parse_hash_line line n) = original_text n"
    unfolding parse_hash_line_def Let_def
    by (auto split: option.split)
  have sm: "children (parse_sort_method_line rest n) = children n \<and>
      original_text (parse_sort_method_line rest n) = original_text n" for rest
    by (simp add: parse_sort_method_line_def Let_def split: option.split)
  show "children (parse_property_line n line) = children n"
    "original_text (parse_property_line n line) = original_text n"
    using hb hl sm by (simp_all add: parse_property_line_def split: option.split prod.split)
qed

lemma parse_single_node_fresh:
  "parse_single_node S R line = Inr n \<Longrightarrow> children n = [] \<and> original_text n = line"
  by (auto simp: parse_single_node_def Let_def split: sum.splits option.splits)

definition texts :: "PlanNode \<Rightarrow> string list" where
  "texts n = map original_text (nodes n)"

lemma texts_unfold: "texts n = original_text n # concat (map texts (children n))"
  by (cases n) (simp add: texts_def [abs_def] map_concat comp_def)

text \<open>The contract of a parsed subtree over the lines \<open>start .. stop - 1\<close>.\<close>

definition subtree_ok :: "InternalPlanLine list \<Rightarrow> nat \<Rightarrow> nat \<Rightarrow> nat \<Rightarrow> PlanNode \<Rightarrow> bool" where
  "subtree_ok ls start stop depth n \<longleftrightarrow>
     start < stop \<and> stop \<le> length ls \<and>
     texts n = map content (filter is_node (slice ls start stop)) \<and>
     max_depth n + depth \<le> MAX_PLAN_DEPTH \<and>
     (\<forall>i. start < i \<and> i < stop \<longrightarrow> indent (ls ! start) < indent (ls ! i)) \<and>
     (stop < length ls \<longrightarrow> indent (ls ! stop) \<le> indent (ls ! start))"

definition loop_ok :: "InternalPlanLine list \<Rightarrow> nat \<Rightarrow> nat \<Rightarrow> nat \<Rightarrow> nat \<Rightarrow> PlanNode \<Rightarrow> PlanNode \<Rightarrow> bool" where
  "loop_ok ls current idx stop depth node n \<longleftrightarrow>
     idx \<le> stop \<and> stop \<le> length ls \<and> original_text n = original_text node \<and>
     concat (map texts (children n)) =
       concat (map texts (children node)) @ map content (filter is_node (slice ls idx stop)) \<and>
     (\<forall>c \<in> set (children n). c \<in> set (children node) \<or> max_depth c + depth < MAX_PLAN_DEPTH) \<and>
     (\<forall>i. idx \<le> i \<and> i < stop \<longrightarrow> current < indent (ls ! i)) \<and>
     (stop < length ls \<longrightarrow> indent (ls ! stop) \<le> current)"

lemma loop_ok_step:
  assumes "loop_ok ls current (Suc idx) stop depth node' n" and "idx < length ls"
    and "current < indent (ls ! idx)" and "\<not> is_node (ls ! idx)"
    and "children node' = children node" "original_text node' = original_text node"
  shows "loop_ok ls current idx stop depth node n"
proof -
  have "slice ls idx stop = ls ! idx # slice ls (Suc idx) stop"
    using assms(1,2) by (intro slice_Cons) (auto simp: loop_ok_def)
  moreover have "current < indent (ls ! i)" if "idx \<le> i" "i < stop" for i
    using assms(1,3) that by (cases "i = idx") (auto simp: loop_ok_def)
  ultimately show ?thesis using assms by (auto simp: loop_ok_def)
qed

lemma loop_ok_child:
  assumes child: "subtree_ok ls idx mid (Suc depth) child"
    and rest: "loop_ok ls current mid stop depth (add_child node child) n"
    and deeper: "current < indent (ls ! idx)"
  shows "loop_ok ls current idx stop depth node n"
proof -
  have "slice ls idx stop = slice ls idx mid @ slice ls mid stop"
    using child rest by (intro slice_append [symmetric]) (auto simp: subtree_ok_def loop_ok_def)
  moreover have "current < indent (ls ! i)" if "idx \<le> i" "i < stop" for i
  proof (cases "i < mid")
    case True
    then have "i = idx \<or> indent (ls ! idx) < indent (ls ! i)"
      using child that unfolding subtree_ok_def by (metis le_neq_implies_less)
    with deeper show ?thesis by auto
  next
    case False
    with rest that show ?thesis by (auto simp: loop_ok_def)
  qed
  ultimately show ?thesis
    using child rest by (auto simp: subtree_ok_def loop_ok_def)
qed

lemma subtree_okI:
  assumes len: "start_idx < length ls" and node: "is_node (ls ! start_idx)" and d: "depth < MAX_PLAN_DEPTH"
    and fresh: "children node = [] \<and> original_text node = content (ls ! start_idx)"
    and loop: "loop_ok ls (indent (ls ! start_idx)) (Suc start_idx) stop depth node n"
  shows "subtree_ok ls start_idx stop depth (update_from_properties lo ca n)"
proof -
  have "slice ls start_idx stop = ls ! start_idx # slice ls (Suc start_idx) stop"
    using len loop by (intro slice_Cons) (auto simp: loop_ok_def)
  then have "texts (update_from_properties lo ca n) = map content (filter is_node (slice ls start_idx stop))"
    using loop fresh node by (simp add: texts_unfold loop_ok_def)
  moreover have "max_depth c \<le> MAX_PLAN_DEPTH - Suc depth" if "c \<in> set (children n)" for c
    using loop fresh that by (auto simp: loop_ok_def)
  then have "max_depth (update_from_properties lo ca n) \<le> Suc (MAX_PLAN_DEPTH - Suc depth)"
    by (simp add: max_depth_le)
  ultimately show ?thesis
    using loop d by (auto simp: subtree_ok_def loop_ok_def)
qed

lemma parse_node_tree_ok:
  "parse_node_tree S R ls start_idx depth = Inr (n, stop) \<Longrightarrow> subtree_ok ls start_idx stop depth n"
  and node_loop_ok:
  "node_loop S R ls depth current node idx = Inr (n, stop) \<Longrightarrow> idx \<le> length ls \<Longrightarrow>
     loop_ok ls current idx stop depth node n"
proof (induction S R ls start_idx depth and S R ls depth current node idx arbitrary: n stop and n stop
    rule: parse_node_tree_node_loop.induct)
  case (1 S R ls start_idx depth)
  from 1(2) obtain node n' where c: "depth < MAX_PLAN_DEPTH" "start_idx < length ls" "is_node (ls ! start_idx)"
      "parse_single_node S R (content (ls ! start_idx)) = Inr node"
      "node_loop S R ls depth (indent (ls ! start_idx)) node (start_idx + 1) = Inr (n', stop)"
      "n = update_from_properties (lower R) (call_captures R) n'"
    by (auto simp: parse_node_tree.simps [of S R ls start_idx depth] split: if_splits sum.splits)
  then have "loop_ok ls (indent (ls ! start_idx)) (Suc start_idx) stop depth node n'"
    using 1(1) by simp
  with c show ?case
    using parse_single_node_fresh [OF c(4)] by (auto intro: subtree_okI)
next
  case (2 S R ls depth current node idx)
  show ?case
  proof (cases "idx < length ls \<and> \<not> indent (ls ! idx) \<le> current")
    case False
    with 2(5,6) show ?thesis
      by (auto simp: node_loop.simps [of S R ls depth current node idx] loop_ok_def split: if_splits)
  next
    case True
    then have deeper: "current < indent (ls ! idx)" "idx < length ls" by auto
    show ?thesis
    proof (cases "is_node (ls ! idx)")
      case node: True
      then obtain child mid where c: "parse_node_tree S R ls idx (depth + 1) = Inr (child, mid)"
          "node_loop S R ls depth current (add_child node child) mid = Inr (n, stop)"
        using 2(5) True by (auto simp: node_loop.simps [of S R ls depth current node idx] split: sum.splits)
      have sub: "subtree_ok ls idx mid (Suc depth) child"
        using 2(1) c(1) True node deeper by simp
      have "loop_ok ls current mid stop depth (add_child node child) n"
        using 2(2) c True node deeper sub by (auto simp: subtree_ok_def)
      with sub show ?thesis using deeper(1) by (rule loop_ok_child)
    next
      case False
      with 2(5) True have "node_loop S R ls depth current
          (parse_property_line node (content (ls ! idx))) (idx + 1) = Inr (n, stop)"
        by (simp add: node_loop.simps [of S R ls depth current node idx])
      then have "loop_ok ls current (Suc idx) stop depth (parse_property_line node (content (ls ! idx))) n"
        using 2(3) True False deeper by simp
      from loop_ok_step [OF this deeper(2) deeper(1) False] show ?thesis by simp
    qed
  qed
qed

lemma texts_count: "length (texts n) = count_nodes n"
  by (simp add: texts_def count_nodes_eq)

lemma convert_json_keeps:
  "original_text (foldl add_child n cs) = original_text n"
  "children (foldl add_child n cs) = children n @ cs"
  by (induction cs arbitrary: n) simp_all

fun json_nodes :: "JsonPlanNode \<Rightarrow> JsonPlanNode list" where
  "json_nodes (JsonPlanNode nt rel sch al startup tot rows width ast att arows aloops plans ps) =
     JsonPlanNode nt rel sch al startup tot rows width ast att arows aloops plans ps #
     (case plans of None \<Rightarrow> [] | Some js \<Rightarrow> concat (map json_nodes js))"

lemma foldl_set_property_keeps:
  "children (foldl (\<lambda>n (key, v). set_node_property n key (f v)) n ps) = children n"
  "original_text (foldl (\<lambda>n (key, v). set_node_property n key (f v)) n ps) = original_text n"
  by (induction ps arbitrary: n) auto

lemma texts_convert_json:
  "texts (convert_json_node_to_plan_node J R jn) = map j_node_type (json_nodes jn)"
proof (induction jn)
  case (JsonPlanNode nt rel sch al startup tot rows width ast att arows aloops plans ps)
  show ?case
  proof (cases plans)
    case None
    then show ?thesis
      by (simp add: texts_unfold Let_def foldl_set_property_keeps)
  next
    case (Some js)
    have "\<forall>j \<in> set js. texts (convert_json_node_to_plan_node J R j) = map j_node_type (json_nodes j)"
      using JsonPlanNode Some by simp
    then have "concat (map (\<lambda>j. texts (convert_json_node_to_plan_node J R j)) js) =
        map j_node_type (concat (map json_nodes js))"
      by (induction js) auto
    then show ?thesis
      by (simp add: Some texts_unfold Let_def foldl_set_property_keeps convert_json_keeps comp_def)
  qed
qed

section \<open>A concrete run\<close>

text \<open>A small instance of the pattern record, for concrete runs.\<close>

definition sample_patterns :: Patterns where
  "sample_patterns =
     \<lparr>lower = to_ascii_lowercase, cost_is_match = (\<lambda>s. length s < 6),
      cost_captures = (\<lambda>_. Some (''0.5'', ''2.0'', ''1'', ''4'')), actual_captures = (\<lambda>_. None),
      table_captures = (\<lambda>_. None),
      index_captures = (\<lambda>_. None), bitmap_index_captures = (\<lambda>_. None), workers_captures = (\<lambda>_. None),
      limit_captures = (\<lambda>_. None), hash_buckets_captures = (\<lambda>_. None),
      inner_unique_captures = (\<lambda>_. None), cache_mode_captures = (\<lambda>_. None),
      subplan_captures = (\<lambda>_. None), call_captures = (\<lambda>_. [])\<rparr>"

definition sample_lines :: "InternalPlanLine list" where
  "sample_lines =
     [\<lparr>indent = 0, content = ''Limit'', is_node = True\<rparr>,
      \<lparr>indent = 1, content = ''Sort'', is_node = True\<rparr>,
      \<lparr>indent = 2, content = ''Sort Key: a DESC'', is_node = False\<rparr>]"

definition sample_text :: string where
  "sample_text = ''Limit'' @ utf8 [10] @ ''  Sort'' @ utf8 [10] @ ''    Sort Key: a DESC''"

lemma sample_parse: "case parse_plan lane_simd sample_patterns sample_text of Inr p \<Rightarrow> node_count p = 2 | Inl _ \<Rightarrow> False"
  by code_simp

lemma sample_run:
  "case parse_node_tree lane_simd sample_patterns sample_lines 0 0 of
     Inr (n, stop) \<Rightarrow> stop = 3 \<and> count_nodes n = 2 | Inl _ \<Rightarrow> False"
  by code_simp

section \<open>Properties\<close>

text \<open>C13: a plan parsed from text loses no node and invents none: the node lines, in input order,
  from the first line up to the end of the root's subtree, are the original texts of the nodes
  in pre-order; that subtree ends only at the end of the input or at a line indented no deeper
  than the root; and the tree is at most \<open>MAX_PLAN_DEPTH\<close> deep.\<close>

theorem parse_plan_preorder:
  assumes "parse_plan S R txt = Inr p"
  shows "\<exists>stop. 0 < stop \<and> stop \<le> length (parse_lines R txt) \<and>
    texts (root p) = map content (filter is_node (take stop (parse_lines R txt))) \<and>
    (stop < length (parse_lines R txt) \<longrightarrow>
       indent (parse_lines R txt ! stop) \<le> indent (hd (parse_lines R txt))) \<and>
    plan_max_depth p \<le> MAX_PLAN_DEPTH"
proof -
  from assms obtain r stop where r: "parse_node_tree S R (parse_lines R txt) 0 0 = Inr (r, stop)"
      "p = new_plan r"
    by (auto simp: parse_plan_def split: sum.splits)
  from parse_node_tree_ok [OF r(1)] have ok: "subtree_ok (parse_lines R txt) 0 stop 0 r" .
  then have "parse_lines R txt \<noteq> []" by (auto simp: subtree_ok_def)
  with ok r(2) show ?thesis
    by (intro exI [of _ stop])
      (simp add: subtree_ok_def slice_def new_plan_def plan_max_depth_def hd_conv_nth)
qed

theorem parse_plan_preorder_witness:
  "\<exists>p stop. parse_plan lane_simd sample_patterns sample_text = Inr p \<and>
     texts (root p) = map content (filter is_node (take stop (parse_lines sample_patterns sample_text))) \<and>
     plan_max_depth p \<le> MAX_PLAN_DEPTH"
proof -
  obtain p where p: "parse_plan lane_simd sample_patterns sample_text = Inr p"
    using sample_parse by (auto split: sum.splits)
  from parse_plan_preorder [OF p] show ?thesis using p by blast
qed

text \<open>A subtree returned for the lines from \<open>start_idx\<close> contains exactly the lines that are
  indented deeper than its first line, up to the first one that is not; the parser never
  returns the same position, so its loops end.\<close>

theorem parse_node_tree_extent:
  assumes "parse_node_tree S R ls start_idx depth = Inr (n, stop)"
  shows "start_idx < stop \<and> stop \<le> length ls \<and>
    (\<forall>i. start_idx < i \<and> i < stop \<longrightarrow> indent (ls ! start_idx) < indent (ls ! i)) \<and>
    (stop < length ls \<longrightarrow> indent (ls ! stop) \<le> indent (ls ! start_idx)) \<and>
    count_nodes n = length (filter is_node (slice ls start_idx stop)) \<and>
    max_depth n + depth \<le> MAX_PLAN_DEPTH"
  using parse_node_tree_ok [OF assms] texts_count [of n, symmetric]
  by (auto simp: subtree_ok_def)

theorem parse_node_tree_extent_witness:
  "\<exists>n stop. parse_node_tree lane_simd sample_patterns sample_lines 0 0 = Inr (n, stop) \<and>
     0 < stop \<and> count_nodes n = length (filter is_node (slice sample_lines 0 stop))"
proof -
  obtain n stop where p: "parse_node_tree lane_simd sample_patterns sample_lines 0 0 = Inr (n, stop)"
    using sample_run by (auto split: sum.splits)
  from parse_node_tree_extent [OF p] show ?thesis using p by blast
qed

text \<open>The JSON conversion keeps the tree: one node per JSON node, in pre-order, each keeping
  its node type as original text, and the planning and execution times.\<close>

theorem from_json_plan_preorder:
  "texts (root (from_json_plan_struct J R jp)) = map j_node_type (json_nodes (jp_plan jp)) \<and>
   node_count (from_json_plan_struct J R jp) = length (json_nodes (jp_plan jp)) \<and>
   planning_time_ms (from_json_plan_struct J R jp) = jp_planning_time jp \<and>
   execution_time_ms (from_json_plan_struct J R jp) = jp_execution_time jp"
  using texts_convert_json [of J R "jp_plan jp"] texts_count [of "convert_json_node_to_plan_node J R (jp_plan jp)"]
  by (simp add: from_json_plan_struct_def node_count_def)

end
