(* ===== verification/Log_State.thy ===== *)
theory Log_State
  imports Tree_Parser
begin

text \<open>
  The incremental construction of query plans: \<open>models.rs\<close> (\<open>QueryPlan\<close>, \<open>PlanSource\<close>),
  \<open>parsing/text_parser.rs\<close>, \<open>parsing/factory.rs\<close>, \<open>parsing/format_detection.rs\<close>,
  \<open>parsing/plan_builders.rs\<close> and the state machine of \<open>parsing/log_entry_parser.rs\<close>.
  The record \<open>Env\<close> collects what the code takes from other crates (SIMD level, patterns, JSON,
  SQL parsing and printing) and the query normaliser built on the SQL crate.
\<close>

section \<open>Environment, errors and plans\<close>

record ('v, 'm) Env =
  simd :: "('v, 'm) Simd"
  aarch64 :: bool
  patterns :: Patterns
  json :: JsonLib
  plan_regex :: "string \<Rightarrow> bool"
  log_line_captures :: "string \<Rightarrow> (string \<times> string) option"
  duration_capture :: "string \<Rightarrow> string option"
  parse_naive :: "string \<Rightarrow> int option"
  normalize_query :: "string \<Rightarrow> string option"
  sql_statements :: "string \<Rightarrow> string list option"

datatype PlanError =
    PEmptyInput string
  | PFormatDetection string
  | PInvalidNode string
  | PInvalidJson string
  | PMissingJsonPlan string
  | PNormalization string
  | PLogParsing string "nat option" string

datatype PlanSource =
    TextSource string "PlanLine list"
  | JsonSource string JsonPlan

record QueryPlan =
  timestamp :: int
  duration_ms :: f64
  query_text :: string
  database :: "string option"
  normalized_query :: string
  formatted_query :: string
  source :: PlanSource
  parsed :: ParsedPlan

definition raw_plan :: "QueryPlan \<Rightarrow> string" where
  "raw_plan p = (case source p of TextSource raw _ \<Rightarrow> raw | JsonSource raw _ \<Rightarrow> raw)"

section \<open>Format detection and text plans\<close>

definition looks_like_json_start :: "string \<Rightarrow> bool" where
  "looks_like_json_start line =
     (let trimmed = trim_start line in starts_with trimmed ''['' \<or> starts_with trimmed ''{'')"

datatype PlanFormat = TextFormat | JsonFormat

definition detect_plan_format :: "('v, 'm) Env \<Rightarrow> string \<Rightarrow> PlanError + PlanFormat" where
  "detect_plan_format E txt =
     (let trimmed = trim_start txt
      in if trimmed = [] then Inl (PEmptyInput ''plan content'')
         else if looks_like_json_start trimmed then
           (case from_str (json E) trimmed of
              Some _ \<Rightarrow> Inr JsonFormat
            | None \<Rightarrow> Inl (PFormatDetection ''Content starts with JSON markers but is not valid JSON''))
         else Inr TextFormat)"

definition parse_text_lines :: "('v, 'm) Env \<Rightarrow> string \<Rightarrow> PlanLine list" where
  "parse_text_lines E input =
     map (new_plan_line (simd E) (aarch64 E)) (filter (\<lambda>line. trim line \<noteq> []) (str_lines input))"

definition text_can_parse :: "('v, 'm) Env \<Rightarrow> string \<Rightarrow> bool" where
  "text_can_parse E input =
     (if looks_like_json_start input then False else plan_regex E input \<or> trim input \<noteq> [])"

text \<open>\<open>TextPlanParser::parse\<close>; the warning is the last component.\<close>

definition text_parse :: "('v, 'm) Env \<Rightarrow> string \<Rightarrow> PlanError + (ParsedPlan \<times> string list)" where
  "text_parse E input =
     (if looks_like_json_start input
      then Inl (PFormatDetection ''Input appears to be JSON format, not text'')
      else if trim input = [] then Inl (PEmptyInput ''text plan content'')
      else
        (let plan_lines = parse_text_lines E input
         in if plan_lines = [] then Inl (PEmptyInput ''non-empty plan lines'')
            else (case parse_plan_from_lines (simd E) (patterns E) plan_lines of
                    Inl e \<Rightarrow> Inl (PInvalidNode ''Failed to parse text plan'')
                  | Inr parsed_plan \<Rightarrow>
                      Inr (parsed_plan,
                           if plan_regex E input then []
                           else [''No cost information patterns detected in text plan'']))))"

section \<open>The plan factory\<close>

definition format_sql_query :: "('v, 'm) Env \<Rightarrow> string \<Rightarrow> string" where
  "format_sql_query E sql =
     (case sql_statements E sql of Some statements \<Rightarrow> join [char_of (10::int)] statements | None \<Rightarrow> sql)"

definition normalize_and_format :: "('v, 'm) Env \<Rightarrow> string \<Rightarrow> PlanError + (string \<times> string)" where
  "normalize_and_format E q =
     (case normalize_query E q of
        None \<Rightarrow> Inl (PNormalization ''Failed to normalize query'')
      | Some n \<Rightarrow> Inr (n, format_sql_query E q))"

text \<open>The per-thread memo of the same function, keyed by a 64-bit hash of the text; it is cleared
  when it holds \<open>NORM_CACHE_CAP\<close> entries.\<close>

definition NORM_CACHE_CAP :: nat where "NORM_CACHE_CAP = 8192"

definition normalize_and_format_memo ::
  "('v, 'm) Env \<Rightarrow> (string \<Rightarrow> u64) \<Rightarrow> (u64 \<rightharpoonup> string \<times> string) \<Rightarrow> string \<Rightarrow>
     (PlanError + (string \<times> string)) \<times> (u64 \<rightharpoonup> string \<times> string)" where
  "normalize_and_format_memo E hash cache q =
     (let key = hash q
      in case cache key of
           Some hit \<Rightarrow> (Inr hit, cache)
         | None \<Rightarrow>
             (case normalize_and_format E q of
                Inl e \<Rightarrow> (Inl e, cache)
              | Inr pair \<Rightarrow>
                  let cache = (if NORM_CACHE_CAP \<le> card (dom cache) then Map.empty else cache)
                  in (Inr pair, cache(key \<mapsto> pair))))"

definition create_text_plan ::
  "('v, 'm) Env \<Rightarrow> int \<Rightarrow> f64 \<Rightarrow> string \<Rightarrow> string \<Rightarrow> ParsedPlan \<Rightarrow> PlanError + QueryPlan" where
  "create_text_plan E ts dur q raw p =
     (case normalize_and_format E q of
        Inl e \<Rightarrow> Inl e
      | Inr (n, f) \<Rightarrow>
          Inr \<lparr>timestamp = ts, duration_ms = dur, query_text = q, database = None,
               normalized_query = n, formatted_query = f,
               source = TextSource raw (parse_text_lines E raw), parsed = p\<rparr>)"

definition create_json_plan ::
  "('v, 'm) Env \<Rightarrow> int \<Rightarrow> f64 \<Rightarrow> string \<Rightarrow> string \<Rightarrow> JsonPlan \<Rightarrow> PlanError + QueryPlan" where
  "create_json_plan E ts dur q raw jp =
     (case normalize_and_format E q of
        Inl e \<Rightarrow> Inl e
      | Inr (n, f) \<Rightarrow>
          Inr \<lparr>timestamp = ts, duration_ms = dur, query_text = q, database = None,
               normalized_query = n, formatted_query = f, source = JsonSource raw jp,
               parsed = from_json_plan_struct (json E) (patterns E) jp\<rparr>)"

section \<open>Builders\<close>

record UntypedPlanBuilder =
  u_timestamp :: int
  u_duration :: f64
  u_query :: string

record TextPlanBuilder =
  t_timestamp :: int
  t_duration :: f64
  t_query :: string
  t_lines :: "string list"

record JsonPlanBuilder =
  j_timestamp :: int
  j_duration :: f64
  j_query :: string
  json_content :: string
  j_depth :: int
  in_string :: bool
  escape_next :: bool
  started :: bool

definition new_untyped :: "int \<Rightarrow> f64 \<Rightarrow> UntypedPlanBuilder" where
  "new_untyped ts dur = \<lparr>u_timestamp = ts, u_duration = dur, u_query = []\<rparr>"

definition into_text_builder :: "UntypedPlanBuilder \<Rightarrow> TextPlanBuilder" where
  "into_text_builder b =
     \<lparr>t_timestamp = u_timestamp b, t_duration = u_duration b, t_query = u_query b, t_lines = []\<rparr>"

definition into_json_builder :: "UntypedPlanBuilder \<Rightarrow> JsonPlanBuilder" where
  "into_json_builder b =
     \<lparr>j_timestamp = u_timestamp b, j_duration = u_duration b, j_query = u_query b,
      json_content = [], j_depth = 0, in_string = False, escape_next = False, started = False\<rparr>"

definition text_add_line :: "TextPlanBuilder \<Rightarrow> string \<Rightarrow> PlanError + (TextPlanBuilder \<times> QueryPlan option)" where
  "text_add_line b line = Inr (b\<lparr>t_lines := t_lines b @ [line]\<rparr>, None)"

definition newline :: string where "newline = [char_of (10::int)]"

definition text_finalize :: "('v, 'm) Env \<Rightarrow> TextPlanBuilder \<Rightarrow> PlanError + QueryPlan" where
  "text_finalize E b =
     (if t_lines b = [] then Inl (PEmptyInput ''plan content lines'')
      else
        (let raw = join newline (t_lines b)
         in case text_parse E raw of
              Inl e \<Rightarrow> Inl e
            | Inr (p, _) \<Rightarrow> create_text_plan E (t_timestamp b) (t_duration b) (t_query b) raw p))"

datatype JsonLineOutcome = Incomplete | Complete QueryPlan | NotAPlan

text \<open>One byte of \<open>scan_completion\<close>.\<close>

definition scan_byte :: "JsonPlanBuilder \<Rightarrow> char \<Rightarrow> JsonPlanBuilder" where
  "scan_byte b c =
     (if in_string b then
        (if escape_next b then b\<lparr>escape_next := False\<rparr>
         else if c = CHR 0x5C then b\<lparr>escape_next := True\<rparr>
         else if c = CHR 0x22 then b\<lparr>in_string := False\<rparr>
         else b)
      else if c = CHR 0x22 then b\<lparr>in_string := True\<rparr>
      else if c = CHR ''['' \<or> c = CHR ''{'' then b\<lparr>j_depth := j_depth b + 1, started := True\<rparr>
      else if c = CHR '']'' \<or> c = CHR ''}'' then b\<lparr>j_depth := j_depth b - 1\<rparr>
      else b)"

definition scan_completion :: "JsonPlanBuilder \<Rightarrow> string \<Rightarrow> JsonPlanBuilder \<times> bool" where
  "scan_completion b line =
     (let b = foldl scan_byte b line in (b, started b \<and> j_depth b \<le> 0))"

text \<open>\<open>build_query_plan\<close>: the builder it mutates, and \<open>Ok(None)\<close> as \<open>Inr None\<close>.\<close>

definition build_query_plan ::
  "('v, 'm) Env \<Rightarrow> JsonPlanBuilder \<Rightarrow> JsonPlanBuilder \<times> (PlanError + QueryPlan option)" where
  "build_query_plan E b =
     (case from_str (json E) (json_content b) of
        None \<Rightarrow> (b, Inr None)
      | Some v \<Rightarrow>
          let finish = (\<lambda>b plan_obj.
                (case from_value (json E) plan_obj of
                   None \<Rightarrow> (b, Inl (PInvalidJson ''JSON does not match the PostgreSQL plan schema''))
                 | Some jp \<Rightarrow>
                     (case create_json_plan E (j_timestamp b) (j_duration b) (j_query b)
                             (json_to_string (json E) (JArray [plan_obj])) jp of
                        Inl e \<Rightarrow> (b, Inl e)
                      | Inr p \<Rightarrow> (b, Inr (Some p)))))
          in case v of
               JArray [] \<Rightarrow> (b, Inr None)
             | JArray (obj # _) \<Rightarrow> finish b obj
             | JObject m \<Rightarrow>
                 (let b = (if j_query b = [] then
                             (case map_of m ''Query Text'' of
                                Some (JString q) \<Rightarrow> b\<lparr>j_query := q\<rparr>
                              | _ \<Rightarrow> b)
                           else b)
                  in finish b (JObject m))
             | _ \<Rightarrow> (b, Inr None))"

definition json_add_line :: "('v, 'm) Env \<Rightarrow> JsonPlanBuilder \<Rightarrow> string \<Rightarrow> JsonPlanBuilder \<times> JsonLineOutcome" where
  "json_add_line E b line =
     (let b = (if json_content b \<noteq> [] then b\<lparr>json_content := json_content b @ newline\<rparr> else b);
          b = b\<lparr>json_content := json_content b @ line\<rparr>;
          (b, closed) = scan_completion b line
      in if \<not> closed then (b, Incomplete)
         else (case build_query_plan E b of
                 (b, Inr (Some p)) \<Rightarrow> (b, Complete p)
               | (b, Inr None) \<Rightarrow> (b, NotAPlan)
               | (b, Inl e) \<Rightarrow> (b, NotAPlan)))"

definition push_line :: "string \<Rightarrow> string \<Rightarrow> string" where
  "push_line acc line = (if acc \<noteq> [] then acc @ newline @ line else acc @ line)"

definition into_query_builder :: "JsonPlanBuilder \<Rightarrow> UntypedPlanBuilder" where
  "into_query_builder b =
     \<lparr>u_timestamp = j_timestamp b, u_duration = j_duration b,
      u_query = foldl push_line (j_query b) (str_lines (json_content b))\<rparr>"

definition json_finalize :: "('v, 'm) Env \<Rightarrow> JsonPlanBuilder \<Rightarrow> PlanError + QueryPlan" where
  "json_finalize E b =
     (if json_content b = [] then Inl (PEmptyInput ''JSON content'')
      else (case snd (build_query_plan E b) of
              Inl e \<Rightarrow> Inl e
            | Inr (Some p) \<Rightarrow> Inr p
            | Inr None \<Rightarrow> Inl (PInvalidJson ''Accumulated content is not a JSON plan document'')))"

datatype QueryPlanBuilder =
    Untyped UntypedPlanBuilder
  | Text TextPlanBuilder
  | JsonB JsonPlanBuilder

definition new_builder :: "int \<Rightarrow> f64 \<Rightarrow> QueryPlanBuilder" where
  "new_builder ts dur = Untyped (new_untyped ts dur)"

fun set_query_text :: "QueryPlanBuilder \<Rightarrow> string \<Rightarrow> QueryPlanBuilder" where
  "set_query_text (Untyped b) q = Untyped (b\<lparr>u_query := q\<rparr>)"
| "set_query_text (Text b) q = Text (b\<lparr>t_query := q\<rparr>)"
| "set_query_text (JsonB b) q = JsonB (b\<lparr>j_query := q\<rparr>)"

fun append_query_line :: "QueryPlanBuilder \<Rightarrow> string \<Rightarrow> QueryPlanBuilder" where
  "append_query_line (Untyped b) line = Untyped (b\<lparr>u_query := push_line (u_query b) line\<rparr>)"
| "append_query_line (Text b) line = Text (b\<lparr>t_query := push_line (t_query b) line\<rparr>)"
| "append_query_line (JsonB b) line = JsonB (b\<lparr>j_query := push_line (j_query b) line\<rparr>)"

fun builder_query_text :: "QueryPlanBuilder \<Rightarrow> string" where
  "builder_query_text (Untyped b) = u_query b"
| "builder_query_text (Text b) = t_query b"
| "builder_query_text (JsonB b) = j_query b"

fun convert_to_text :: "QueryPlanBuilder \<Rightarrow> QueryPlanBuilder" where
  "convert_to_text (Untyped b) = Text (into_text_builder b)"
| "convert_to_text b = b"

fun convert_to_json :: "QueryPlanBuilder \<Rightarrow> QueryPlanBuilder" where
  "convert_to_json (Untyped b) = JsonB (into_json_builder b)"
| "convert_to_json b = b"

section \<open>The state machine\<close>

datatype LogParsingState =
    SNone
  | WaitingForQuery QueryPlanBuilder
  | ParsingQuery QueryPlanBuilder
  | ParsingTextPlan QueryPlanBuilder
  | ParsingJsonPlan QueryPlanBuilder string

definition ok_option :: "'e + 'a \<Rightarrow> 'a option" where
  "ok_option r = (case r of Inr x \<Rightarrow> Some x | Inl _ \<Rightarrow> None)"

fun finalize_plan :: "('v, 'm) Env \<Rightarrow> LogParsingState \<Rightarrow> QueryPlan option" where
  "finalize_plan E (ParsingTextPlan (Text b)) = ok_option (text_finalize E b)"
| "finalize_plan E (ParsingJsonPlan (JsonB b) _) = ok_option (json_finalize E b)"
| "finalize_plan E _ = None"

definition reset_with_builder ::
  "('v, 'm) Env \<Rightarrow> LogParsingState \<Rightarrow> QueryPlanBuilder \<Rightarrow> LogParsingState \<times> QueryPlan option" where
  "reset_with_builder E s b = (WaitingForQuery b, finalize_plan E s)"

definition finish_state :: "('v, 'm) Env \<Rightarrow> LogParsingState \<Rightarrow> LogParsingState \<times> QueryPlan option" where
  "finish_state E s = (SNone, finalize_plan E s)"

record ContinuationOutcome =
  state :: LogParsingState
  plan :: "QueryPlan option"
  error :: "PlanError option"

definition outcome_to :: "LogParsingState \<Rightarrow> ContinuationOutcome" where
  "outcome_to s = \<lparr>state = s, plan = None, error = None\<rparr>"

definition advance_json_builder :: "('v, 'm) Env \<Rightarrow> JsonPlanBuilder \<Rightarrow> string \<Rightarrow> ContinuationOutcome" where
  "advance_json_builder E b trimmed =
     (case json_add_line E b trimmed of
        (b', Complete p) \<Rightarrow> \<lparr>state = SNone, plan = Some p, error = None\<rparr>
      | (b', Incomplete) \<Rightarrow> outcome_to (ParsingJsonPlan (JsonB b') [])
      | (b', NotAPlan) \<Rightarrow> outcome_to (ParsingQuery (Untyped (into_query_builder b'))))"

definition start_json :: "('v, 'm) Env \<Rightarrow> QueryPlanBuilder \<Rightarrow> string \<Rightarrow> ContinuationOutcome" where
  "start_json E b trimmed =
     (case b of
        JsonB jb \<Rightarrow> advance_json_builder E jb trimmed
      | _ \<Rightarrow> outcome_to (ParsingJsonPlan b []))"

definition advance_text :: "QueryPlanBuilder \<Rightarrow> string \<Rightarrow> ContinuationOutcome" where
  "advance_text b line_trimmed =
     (case b of
        Text tb \<Rightarrow>
          (case text_add_line tb line_trimmed of
             Inr (_, Some p) \<Rightarrow> \<lparr>state = SNone, plan = Some p, error = None\<rparr>
           | Inr (tb', None) \<Rightarrow> outcome_to (ParsingTextPlan (Text tb'))
           | Inl e \<Rightarrow> \<lparr>state = SNone, plan = None, error = Some e\<rparr>)
      | _ \<Rightarrow> outcome_to (ParsingTextPlan b))"

definition advance_continuation ::
  "('v, 'm) Env \<Rightarrow> LogParsingState \<Rightarrow> string \<Rightarrow> ContinuationOutcome" where
  "advance_continuation E s line_trimmed =
     (let trimmed = trim line_trimmed
      in case s of
           WaitingForQuery b \<Rightarrow>
             (case strip_prefix ''Query Text:'' trimmed of
                Some q \<Rightarrow> outcome_to (ParsingQuery (set_query_text b (trim q)))
              | None \<Rightarrow>
                  if looks_like_json_start trimmed then start_json E (convert_to_json b) trimmed
                  else outcome_to (WaitingForQuery b))
         | ParsingQuery b \<Rightarrow>
             if looks_like_json_start trimmed then start_json E (convert_to_json b) trimmed
             else if plan_regex E trimmed then advance_text (convert_to_text b) line_trimmed
             else outcome_to (ParsingQuery (append_query_line b line_trimmed))
         | ParsingTextPlan b \<Rightarrow> advance_text b line_trimmed
         | ParsingJsonPlan b c \<Rightarrow>
             (case b of
                JsonB jb \<Rightarrow> advance_json_builder E jb trimmed
              | _ \<Rightarrow> outcome_to (ParsingJsonPlan b c))
         | SNone \<Rightarrow> outcome_to SNone)"

section \<open>The line-at-a-time parser\<close>

text \<open>\<open>LogEntryParser::process_line\<close>: the new state and the \<open>Result\<close>. An error from the
  timestamp leaves the state as it was.\<close>

definition process_continuation_line ::
  "('v, 'm) Env \<Rightarrow> string \<Rightarrow> nat option \<Rightarrow> LogParsingState \<Rightarrow>
     LogParsingState \<times> (PlanError + QueryPlan option)" where
  "process_continuation_line E line line_number s =
     (if trim line = [] then (s, Inr None)
      else
        (let outcome = advance_continuation E s line
         in case error outcome of
              Some e \<Rightarrow> (state outcome, Inl (PLogParsing ''Text plan parsing error'' line_number line))
            | None \<Rightarrow> (state outcome, Inr (plan outcome))))"

definition process_line ::
  "('v, 'm) Env \<Rightarrow> string \<Rightarrow> nat option \<Rightarrow> LogParsingState \<Rightarrow>
     LogParsingState \<times> (PlanError + QueryPlan option)" where
  "process_line E line line_number s =
     (let line_trimmed = trim_end line
      in case log_line_captures E line_trimmed of
           Some (timestamp_str, message) \<Rightarrow>
             (case parse_duration_from_line (duration_capture E) message of
                Some dur \<Rightarrow>
                  (case parse_timestamp (parse_naive E) timestamp_str of
                     None \<Rightarrow> (s, Inl (PLogParsing ''Failed to parse timestamp'' line_number line))
                   | Some ts \<Rightarrow>
                       (let (s', p) = reset_with_builder E s (new_builder ts dur) in (s', Inr p)))
              | None \<Rightarrow> (let (s', p) = finish_state E s in (s', Inr p)))
         | None \<Rightarrow> process_continuation_line E line_trimmed line_number s)"

section \<open>Which builder each state holds\<close>

fun state_ok :: "LogParsingState \<Rightarrow> bool" where
  "state_ok SNone \<longleftrightarrow> True"
| "state_ok (WaitingForQuery (Untyped _)) \<longleftrightarrow> True"
| "state_ok (ParsingQuery (Untyped _)) \<longleftrightarrow> True"
| "state_ok (ParsingTextPlan (Text b)) \<longleftrightarrow> t_lines b \<noteq> []"
| "state_ok (ParsingJsonPlan (JsonB b) c) \<longleftrightarrow> json_content b \<noteq> [] \<and> c = []"
| "state_ok _ \<longleftrightarrow> False"

definition outcome_ok :: "ContinuationOutcome \<Rightarrow> bool" where
  "outcome_ok r \<longleftrightarrow> state_ok (state r) \<and> error r = None \<and> (plan r \<noteq> None \<longrightarrow> state r = SNone)"

lemma outcome_ok_to [simp]: "outcome_ok (outcome_to s) \<longleftrightarrow> state_ok s"
  by (simp add: outcome_ok_def outcome_to_def)

lemma scan_byte_content [simp]:
  "json_content (scan_byte b c) = json_content b" "j_query (scan_byte b c) = j_query b"
  "j_timestamp (scan_byte b c) = j_timestamp b" "j_duration (scan_byte b c) = j_duration b"
  by (simp_all add: scan_byte_def)

lemma scan_bytes_content [simp]:
  "json_content (foldl scan_byte b xs) = json_content b" "j_query (foldl scan_byte b xs) = j_query b"
  "j_timestamp (foldl scan_byte b xs) = j_timestamp b" "j_duration (foldl scan_byte b xs) = j_duration b"
  by (induction xs arbitrary: b) simp_all

lemma build_query_plan_keeps:
  "build_query_plan E b = (b', r) \<Longrightarrow> json_content b' = json_content b \<and>
     j_timestamp b' = j_timestamp b \<and> j_duration b' = j_duration b \<and> (j_query b \<noteq> [] \<longrightarrow> b' = b)"
  by (auto simp: build_query_plan_def Let_def split: option.splits Json.splits list.splits sum.splits if_splits)

lemma json_add_line_cases:
  "json_add_line E b line = (b', r) \<Longrightarrow>
     json_content b' = (if json_content b = [] then line else json_content b @ newline @ line) \<and>
     j_timestamp b' = j_timestamp b \<and> j_duration b' = j_duration b \<and>
     (j_query b \<noteq> [] \<longrightarrow> j_query b' = j_query b)"
  by (auto simp: json_add_line_def scan_completion_def Let_def
      split: if_splits prod.splits sum.splits option.splits dest!: build_query_plan_keeps)

lemma newline_nonempty [simp]: "newline \<noteq> []"
  by (simp add: newline_def)

lemma json_add_line_content: "json_add_line E b line = (b', r) \<Longrightarrow> line \<noteq> [] \<or> json_content b \<noteq> [] \<Longrightarrow> json_content b' \<noteq> []"
  by (drule json_add_line_cases) auto

lemma advance_json_builder_ok:
  "line \<noteq> [] \<or> json_content b \<noteq> [] \<Longrightarrow> outcome_ok (advance_json_builder E b line)"
  using json_add_line_content [of E b line]
  by (auto simp: advance_json_builder_def outcome_ok_def outcome_to_def
      split: prod.splits JsonLineOutcome.splits)

lemma advance_text_ok: "outcome_ok (advance_text (Text b) line)"
  by (simp add: advance_text_def text_add_line_def)

lemma looks_like_json_start_nonempty: "looks_like_json_start line \<Longrightarrow> line \<noteq> []"
  by (auto simp: looks_like_json_start_def Let_def starts_with_iff)

lemma advance_continuation_ok:
  "state_ok s \<Longrightarrow> outcome_ok (advance_continuation E s line)"
  by (cases s rule: state_ok.cases)
    (auto simp: advance_continuation_def Let_def start_json_def advance_json_builder_ok advance_text_ok
      looks_like_json_start_nonempty split: option.split)

text \<open>Feeding lines one after the other; the plans they complete, in order.\<close>

fun run_lines :: "('v, 'm) Env \<Rightarrow> LogParsingState \<Rightarrow> string list \<Rightarrow> LogParsingState \<times> QueryPlan list" where
  "run_lines E s [] = (s, [])"
| "run_lines E s (l # ls) =
     (let (s', r) = process_line E l None s;
          (s'', ps) = run_lines E s' ls
      in (s'', (case r of Inr (Some p) \<Rightarrow> p # ps | _ \<Rightarrow> ps)))"

lemma process_line_ok:
  assumes "state_ok s" and "process_line E line n s = (s', r)"
  shows "state_ok s' \<and> ((\<exists>e. r = Inl e) \<longrightarrow> s' = s) \<and>
    (\<forall>p. r = Inr (Some p) \<longrightarrow> s' = SNone \<or> (\<exists>b. s' = WaitingForQuery b))"
  using assms advance_continuation_ok [OF assms(1), of E "trim_end line"]
  by (auto simp: process_line_def process_continuation_line_def reset_with_builder_def finish_state_def
      new_builder_def new_untyped_def outcome_ok_def Let_def split: option.splits if_splits)

lemma run_lines_ok: "state_ok s \<Longrightarrow> state_ok (fst (run_lines E s ls))"
  by (induction ls arbitrary: s) (auto simp: Let_def split: prod.splits dest: process_line_ok, metis fst_conv process_line_ok)

section \<open>Demotion of JSON that is not a plan\<close>

definition next_state :: "('v, 'm) Env \<Rightarrow> LogParsingState \<Rightarrow> string \<Rightarrow> LogParsingState" where
  "next_state E s line = state (advance_continuation E s line)"

fun in_json :: "LogParsingState \<Rightarrow> bool" where
  "in_json (ParsingJsonPlan (JsonB _) _) \<longleftrightarrow> True"
| "in_json _ \<longleftrightarrow> False"

definition holds_lines :: "UntypedPlanBuilder \<Rightarrow> string list \<Rightarrow> JsonPlanBuilder \<Rightarrow> bool" where
  "holds_lines u ls b \<longleftrightarrow> j_timestamp b = u_timestamp u \<and> j_duration b = u_duration u \<and>
     j_query b = u_query u \<and> json_content b = join newline ls"

lemma join_snoc: "ls \<noteq> [] \<Longrightarrow> join sep (ls @ [l]) = join sep ls @ sep @ l"
  by (induction sep ls rule: join.induct) auto

lemma join_nonempty: "ls \<noteq> [] \<Longrightarrow> list_all plain_line ls \<Longrightarrow> join sep ls \<noteq> []"
  by (cases "(sep, ls)" rule: join.cases) (auto simp: plain_line_def)

lemma json_add_line_holds:
  assumes "holds_lines u ls b" and "u_query u \<noteq> []" and "list_all plain_line ls"
    and "json_add_line E b l = (b', r)"
  shows "holds_lines u (ls @ [l]) b'"
  using json_add_line_cases [OF assms(4)] assms(1,2) join_nonempty [OF _ assms(3)]
  by (cases "ls = []") (auto simp: holds_lines_def join_snoc)

lemma advance_json_holds:
  assumes "holds_lines u ls b" and "u_query u \<noteq> []" and "list_all plain_line (ls @ [l])"
    and "s' = state (advance_json_builder E b l)"
  shows "(\<exists>b'. s' = ParsingJsonPlan (JsonB b') [] \<and> holds_lines u (ls @ [l]) b') \<or> s' = SNone \<or>
    s' = ParsingQuery (Untyped (u\<lparr>u_query := foldl push_line (u_query u) (ls @ [l])\<rparr>))"
proof -
  obtain b' r where r: "json_add_line E b l = (b', r)" by fastforce
  have h: "holds_lines u (ls @ [l]) b'"
    using json_add_line_holds [OF assms(1,2) _ r] assms(3) by simp
  have "into_query_builder b' = u\<lparr>u_query := foldl push_line (u_query u) (ls @ [l])\<rparr>"
    using h str_lines_join [OF assms(3)]
    by (simp add: into_query_builder_def holds_lines_def newline_def)
  with h r assms(4) show ?thesis
    by (auto simp: advance_json_builder_def outcome_to_def split: JsonLineOutcome.split)
qed

lemma next_state_json:
  assumes "list_all plain_line (map trim ls)" and "plain_line (trim l)" and "u_query u \<noteq> []"
    and "(ls = [] \<and> s = ParsingQuery (Untyped u) \<and> looks_like_json_start (trim l)) \<or>
      (\<exists>b. s = ParsingJsonPlan (JsonB b) [] \<and> holds_lines u (map trim ls) b)"
  shows "(\<exists>b'. next_state E s l = ParsingJsonPlan (JsonB b') [] \<and> holds_lines u (map trim (ls @ [l])) b') \<or>
    next_state E s l = SNone \<or>
    next_state E s l = ParsingQuery (Untyped (u\<lparr>u_query := foldl push_line (u_query u) (map trim (ls @ [l]))\<rparr>))"
proof -
  have start: "holds_lines u [] (into_json_builder u)"
    by (simp add: holds_lines_def into_json_builder_def)
  obtain b where b: "next_state E s l = state (advance_json_builder E b (trim l))"
      "holds_lines u (map trim ls) b"
    using assms(4) start by (auto simp: next_state_def advance_continuation_def start_json_def Let_def)
  show ?thesis
    using advance_json_holds [OF b(2) assms(3) _ b(1)] assms(1,2) by simp
qed

lemma json_prefix:
  assumes "list_all plain_line (map trim ls)" and "u_query u \<noteq> []" and "ls \<noteq> []"
    and "looks_like_json_start (trim (hd ls))"
    and "\<And>k. 0 < k \<Longrightarrow> k < length ls \<Longrightarrow> in_json (foldl (next_state E) (ParsingQuery (Untyped u)) (take k ls))"
  shows "(\<exists>b. foldl (next_state E) (ParsingQuery (Untyped u)) ls = ParsingJsonPlan (JsonB b) [] \<and>
      holds_lines u (map trim ls) b) \<or>
    foldl (next_state E) (ParsingQuery (Untyped u)) ls = SNone \<or>
    foldl (next_state E) (ParsingQuery (Untyped u)) ls =
      ParsingQuery (Untyped (u\<lparr>u_query := foldl push_line (u_query u) (map trim ls)\<rparr>))"
  using assms
proof (induction ls rule: rev_induct)
  case Nil
  then show ?case by simp
next
  case (snoc l ls)
  let ?s = "foldl (next_state E) (ParsingQuery (Untyped u)) ls"
  have "(ls = [] \<and> ?s = ParsingQuery (Untyped u) \<and> looks_like_json_start (trim l)) \<or>
      (\<exists>b. ?s = ParsingJsonPlan (JsonB b) [] \<and> holds_lines u (map trim ls) b)"
  proof (cases "ls = []")
    case False
    have pre: "in_json (foldl (next_state E) (ParsingQuery (Untyped u)) (take k ls))"
      if "0 < k" "k \<le> length ls" for k using snoc.prems(5) [of k] that by simp
    have "in_json ?s" using pre [of "length ls"] False by simp
    with snoc.IH False snoc.prems pre show ?thesis by fastforce
  qed (use snoc.prems in simp)
  then show ?case using next_state_json [of ls l u ?s E] snoc.prems by simp
qed

text \<open>JSON in the query text that turns out not to be a plan is given back: if the lines of
  a block starting like JSON keep the parser in its JSON state until the last one sends it back
  to reading query text, then the query has exactly those lines (trimmed) appended, in order,
  and time and duration are kept; if instead the block completes, the parser is idle.\<close>

theorem json_block_is_plan_or_query_text:
  assumes "u_query u \<noteq> []" and "ls \<noteq> []" and "looks_like_json_start (trim (hd ls))"
    and "\<forall>l \<in> set ls. trim l \<noteq> [] \<and> (\<forall>c \<in> set l. code c \<noteq> 10)"
    and "\<forall>k. 0 < k \<and> k < length ls \<longrightarrow>
      in_json (foldl (next_state E) (ParsingQuery (Untyped u)) (take k ls))"
    and "s = foldl (next_state E) (ParsingQuery (Untyped u)) ls" and "\<not> in_json s"
  shows "s = SNone \<or>
    s = ParsingQuery (Untyped (u\<lparr>u_query := foldl push_line (u_query u) (map trim ls)\<rparr>))"
proof -
  have "plain_line (trim l)" if "l \<in> set ls" for l
    using assms(4) that set_trim [of l] trim_end_last_not_cr [of "trim_start l"]
    by (auto simp: plain_line_def trim_def)
  then have "list_all plain_line (map trim ls)" by (simp add: list_all_iff)
  then show ?thesis using json_prefix [of ls u E] assms by auto
qed


section \<open>A text plan in the log\<close>

definition continues :: "('v, 'm) Env \<Rightarrow> string \<Rightarrow> bool" where
  "continues E l \<longleftrightarrow> log_line_captures E (trim_end l) = None \<and> trim (trim_end l) \<noteq> []"

lemma process_line_continues:
  "continues E l \<Longrightarrow> process_line E l n s =
     (let r = advance_continuation E s (trim_end l)
      in (state r, case error r of
                     Some e \<Rightarrow> Inl (PLogParsing ''Text plan parsing error'' n (trim_end l))
                   | None \<Rightarrow> Inr (plan r)))"
  by (simp add: continues_def process_line_def process_continuation_line_def Let_def split: option.split)

lemma run_lines_append:
  "run_lines E s (xs @ ys) =
     (let (s', ps) = run_lines E s xs; (s'', qs) = run_lines E s' ys in (s'', ps @ qs))"
  by (induction xs arbitrary: s) (auto simp: Let_def split: prod.splits sum.splits option.splits)

lemma run_query_lines:
  assumes "\<forall>l \<in> set ls. continues E l \<and> \<not> looks_like_json_start (trim (trim_end l)) \<and>
      \<not> plan_regex E (trim (trim_end l))"
  shows "run_lines E (ParsingQuery (Untyped u)) ls =
    (ParsingQuery (Untyped (u\<lparr>u_query := foldl push_line (u_query u) (map trim_end ls)\<rparr>)), [])"
  using assms
  by (induction ls arbitrary: u)
    (auto simp: process_line_continues advance_continuation_def outcome_to_def Let_def)

lemma run_text_lines:
  assumes "\<forall>l \<in> set ls. continues E l"
  shows "run_lines E (ParsingTextPlan (Text b)) ls =
    (ParsingTextPlan (Text (b\<lparr>t_lines := t_lines b @ map trim_end ls\<rparr>)), [])"
  using assms
  by (induction ls arbitrary: b)
    (auto simp: process_line_continues advance_continuation_def advance_text_def text_add_line_def
      outcome_to_def Let_def)

definition is_header :: "('v, 'm) Env \<Rightarrow> string \<Rightarrow> int \<Rightarrow> f64 \<Rightarrow> bool" where
  "is_header E l t d \<longleftrightarrow>
     (case log_line_captures E (trim_end l) of
        None \<Rightarrow> False
      | Some (ts, msg) \<Rightarrow> parse_duration_from_line (duration_capture E) msg = Some d \<and>
          parse_timestamp (parse_naive E) ts = Some t)"

definition is_other_entry :: "('v, 'm) Env \<Rightarrow> string \<Rightarrow> bool" where
  "is_other_entry E l \<longleftrightarrow>
     (case log_line_captures E (trim_end l) of
        None \<Rightarrow> False
      | Some (ts, msg) \<Rightarrow> parse_duration_from_line (duration_capture E) msg = None)"

lemma process_header:
  "is_header E l t d \<Longrightarrow> process_line E l n s = (WaitingForQuery (new_builder t d), Inr (finalize_plan E s))"
  by (auto simp: is_header_def process_line_def reset_with_builder_def split: option.splits)

lemma process_other_entry:
  "is_other_entry E l \<Longrightarrow> process_line E l n s = (SNone, Inr (finalize_plan E s))"
  by (auto simp: is_other_entry_def process_line_def finish_state_def split: option.splits)

definition text_entry_builder :: "int \<Rightarrow> f64 \<Rightarrow> string \<Rightarrow> string list \<Rightarrow> string list \<Rightarrow> TextPlanBuilder" where
  "text_entry_builder t d q qs ls =
     \<lparr>t_timestamp = t, t_duration = d, t_query = foldl push_line (trim q) (map trim_end qs),
      t_lines = map trim_end ls\<rparr>"

definition plan_of :: "QueryPlan option \<Rightarrow> QueryPlan list" where
  "plan_of r = (case r of Some p \<Rightarrow> [p] | None \<Rightarrow> [])"

lemma run_text_entry:
  assumes "is_header E header t d" and "continues E ql"
    and "strip_prefix ''Query Text:'' (trim (trim_end ql)) = Some q"
    and "\<forall>l \<in> set qs. continues E l \<and> \<not> looks_like_json_start (trim (trim_end l)) \<and>
      \<not> plan_regex E (trim (trim_end l))"
    and "\<forall>l \<in> set (p # ls). continues E l"
    and "plan_regex E (trim (trim_end p))" and "\<not> looks_like_json_start (trim (trim_end p))"
  shows "run_lines E s (header # ql # qs @ p # ls) =
    (ParsingTextPlan (Text (text_entry_builder t d q qs (p # ls))), plan_of (finalize_plan E s))"
proof -
  have q: "process_line E ql None (WaitingForQuery (new_builder t d)) =
      (ParsingQuery (Untyped \<lparr>u_timestamp = t, u_duration = d, u_query = trim q\<rparr>), Inr None)"
    using assms(2,3)
    by (simp add: process_line_continues advance_continuation_def outcome_to_def new_builder_def
        new_untyped_def Let_def)
  have p: "process_line E p None (ParsingQuery (Untyped u)) =
      (ParsingTextPlan (Text (into_text_builder u\<lparr>t_lines := [trim_end p]\<rparr>)), Inr None)" for u
    using assms(5-7)
    by (simp add: process_line_continues advance_continuation_def outcome_to_def advance_text_def
        text_add_line_def into_text_builder_def Let_def)
  show ?thesis
    using assms(4,5)
    by (simp add: process_header [OF assms(1)] q p run_lines_append run_query_lines run_text_lines
        into_text_builder_def text_entry_builder_def plan_of_def split: option.split)
qed

lemma text_finalize_Inr:
  assumes "text_finalize E b = Inr p"
  shows "timestamp p = t_timestamp b \<and> duration_ms p = t_duration b \<and> query_text p = t_query b \<and>
    raw_plan p = join newline (t_lines b) \<and> database p = None \<and>
    (\<exists>w. text_parse E (join newline (t_lines b)) = Inr (parsed p, w)) \<and>
    normalize_and_format E (t_query b) = Inr (normalized_query p, formatted_query p)"
  using assms
  by (auto simp: text_finalize_def create_text_plan_def raw_plan_def Let_def
      split: if_splits sum.splits prod.splits)

text \<open>C33: an \<open>auto_explain\<close> entry with a text plan is read as written: after its header, its
  query over any number of lines and its plan lines, the next log entry yields one plan, with
  the header's time and duration, the query text of all its lines, the plan lines as raw text
  and the tree parsed from them; and the plan of whatever came before is yielded first. If the
  plan does not parse or the query cannot be normalised, nothing is yielded for the entry.\<close>

theorem text_entry_yields_plan:
  assumes "is_header E header t d" and "continues E ql"
    and "strip_prefix ''Query Text:'' (trim (trim_end ql)) = Some q"
    and "\<forall>l \<in> set qs. continues E l \<and> \<not> looks_like_json_start (trim (trim_end l)) \<and>
      \<not> plan_regex E (trim (trim_end l))"
    and "\<forall>l \<in> set (p # ls). continues E l"
    and "plan_regex E (trim (trim_end p))" and "\<not> looks_like_json_start (trim (trim_end p))"
    and "is_other_entry E following"
  shows "\<exists>r. run_lines E s (header # ql # qs @ p # ls @ [following]) =
      (SNone, plan_of (finalize_plan E s) @ plan_of r) \<and>
    (r = None \<longleftrightarrow> (\<exists>e. text_finalize E (text_entry_builder t d q qs (p # ls)) = Inl e)) \<and>
    (\<forall>x. r = Some x \<longrightarrow> timestamp x = t \<and> duration_ms x = d \<and>
       query_text x = foldl push_line (trim q) (map trim_end qs) \<and>
       raw_plan x = join newline (map trim_end (p # ls)) \<and>
       (\<exists>w. text_parse E (raw_plan x) = Inr (parsed x, w)))"
proof -
  let ?b = "text_entry_builder t d q qs (p # ls)"
  let ?r = "ok_option (text_finalize E ?b)"
  have "run_lines E s ((header # ql # qs @ p # ls) @ [following]) =
      (SNone, plan_of (finalize_plan E s) @ plan_of ?r)"
    unfolding run_lines_append run_text_entry [OF assms(1-7)]
    by (simp add: process_other_entry [OF assms(8)] plan_of_def split: option.split)
  moreover have "x = y \<Longrightarrow> text_finalize E ?b = Inr x \<Longrightarrow> timestamp y = t \<and> duration_ms y = d \<and>
       query_text y = foldl push_line (trim q) (map trim_end qs) \<and>
       raw_plan y = join newline (map trim_end (p # ls)) \<and>
       (\<exists>w. text_parse E (raw_plan y) = Inr (parsed y, w))" for x y
    using text_finalize_Inr [of E ?b x] by (simp add: text_entry_builder_def)
  ultimately show ?thesis
    by (intro exI [of _ ?r]) (auto simp: ok_option_def split: sum.splits)
qed


section \<open>The normalisation memo\<close>

definition memo_ok :: "('v, 'm) Env \<Rightarrow> (string \<Rightarrow> u64) \<Rightarrow> string set \<Rightarrow> (u64 \<rightharpoonup> string \<times> string) \<Rightarrow> bool" where
  "memo_ok E hash Q cache \<longleftrightarrow> finite (dom cache) \<and> card (dom cache) \<le> NORM_CACHE_CAP \<and>
     (\<forall>k v. cache k = Some v \<longrightarrow> (\<exists>q \<in> Q. hash q = k \<and> normalize_and_format E q = Inr v))"

lemma memo_ok_empty: "memo_ok E hash Q Map.empty"
  by (simp add: memo_ok_def NORM_CACHE_CAP_def)

lemma memo_step:
  assumes "inj_on hash Q" and "q \<in> Q" and "memo_ok E hash Q cache"
  shows "fst (normalize_and_format_memo E hash cache q) = normalize_and_format E q \<and>
    memo_ok E hash Q (snd (normalize_and_format_memo E hash cache q))"
proof (cases "cache (hash q)")
  case (Some hit)
  then obtain q' where "q' \<in> Q" "hash q' = hash q" "normalize_and_format E q' = Inr hit"
    using assms(3) unfolding memo_ok_def by metis
  then have "normalize_and_format E q = Inr hit" using assms(1,2) by (metis inj_onD)
  with Some assms(3) show ?thesis by (simp add: normalize_and_format_memo_def Let_def)
next
  case None
  have full: "memo_ok E hash Q (Map.empty(hash q \<mapsto> v))" if "normalize_and_format E q = Inr v" for v
    using that assms(2) by (auto simp: memo_ok_def NORM_CACHE_CAP_def)
  have grown: "memo_ok E hash Q (cache(hash q \<mapsto> v))"
    if "normalize_and_format E q = Inr v" "\<not> NORM_CACHE_CAP \<le> card (dom cache)" for v
    using that assms(2,3) None by (auto simp: memo_ok_def card_insert_if domI)
  show ?thesis
    using None assms(3) full grown
    by (auto simp: normalize_and_format_memo_def Let_def split: sum.split)
qed

fun memo_run :: "('v, 'm) Env \<Rightarrow> (string \<Rightarrow> u64) \<Rightarrow> (u64 \<rightharpoonup> string \<times> string) \<Rightarrow> string list \<Rightarrow>
    (PlanError + (string \<times> string)) list \<times> (u64 \<rightharpoonup> string \<times> string)" where
  "memo_run E hash cache [] = ([], cache)"
| "memo_run E hash cache (q # qs) =
     (let (r, cache) = normalize_and_format_memo E hash cache q;
          (rs, cache) = memo_run E hash cache qs
      in (r # rs, cache))"

lemma memo_run_ok:
  "inj_on hash Q \<Longrightarrow> set qs \<subseteq> Q \<Longrightarrow> memo_ok E hash Q cache \<Longrightarrow>
     fst (memo_run E hash cache qs) = map (normalize_and_format E) qs \<and>
     memo_ok E hash Q (snd (memo_run E hash cache qs))"
proof (induction qs arbitrary: cache)
  case (Cons q qs)
  then show ?case
    using memo_step [of hash Q q E cache]
    by (auto simp: Let_def split: prod.splits) (metis fst_conv snd_conv)+
qed simp

section \<open>A concrete environment\<close>

text \<open>Small functions in place of the other crates: log lines are those the scanner recognises, the
  message of a plan header begins with \<open>D\<close>, plan lines contain an opening parenthesis.\<close>

definition sample_env :: "(nat \<Rightarrow> u8, nat \<Rightarrow> bool) Env" where
  "sample_env =
     \<lparr>simd = lane_simd, aarch64 = False, patterns = sample_patterns,
      json = \<lparr>from_str = (\<lambda>_. None), from_value = (\<lambda>_. None), json_to_string = (\<lambda>_. [])\<rparr>,
      plan_regex = (\<lambda>l. contains_sub l ''(''),
      log_line_captures = split_log_line lane_simd (\<lambda>_. None),
      duration_capture = strip_prefix ''D'', parse_naive = (\<lambda>_. Some 5),
      normalize_query = Some, sql_statements = (\<lambda>_. None)\<rparr>"

text \<open>The lines of a small entry.\<close>

lemma sample_is_header: "\<exists>d. is_header sample_env ''2024-01-01 00:00:00D1.5'' 5 d"
proof -
  have "case parse_duration_from_line (duration_capture sample_env) ''D1.5'' of None \<Rightarrow> False | Some _ \<Rightarrow> True"
    "log_line_captures sample_env (trim_end ''2024-01-01 00:00:00D1.5'') = Some (''2024-01-01 00:00:00'', ''D1.5'')"
    "parse_timestamp (parse_naive sample_env) ''2024-01-01 00:00:00'' = Some 5"
    by code_simp+
  then show ?thesis by (auto simp: is_header_def split: option.splits)
qed

lemma sample_continues:
  "continues sample_env ''Query Text: a''" "continues sample_env ''b''"
  "continues sample_env ''L (''" "continues sample_env ''S''" "is_other_entry sample_env ''2024-01-01 00:00:00''"
  by code_simp+

lemma sample_parts:
  "strip_prefix ''Query Text:'' (trim (trim_end ''Query Text: a'')) = Some '' a''"
  "trim '' a'' = ''a''" "trim_end ''b'' = ''b''" "trim_end ''L (''  = ''L (''" "trim_end ''S'' = ''S''"
  "plan_regex sample_env (trim ''L ('')" "\<not> plan_regex sample_env (trim ''b'')"
  "\<not> looks_like_json_start (trim ''b'')" "\<not> looks_like_json_start (trim ''L ('')"
  by code_simp+

text \<open>C34: at every point of a log each parser state holds the builder of its kind: waiting states
  an untyped one, a text plan at least one line, a JSON plan some content and no separate text.
  An error (a timestamp that does not parse) leaves the state unchanged, and a line that yields
  a plan leaves the parser idle or waiting for the next query.\<close>

theorem parser_states_typed:
  assumes "state_ok s" and "process_line E line n (fst (run_lines E s ls)) = (s', r)"
  shows "state_ok s' \<and> ((\<exists>e. r = Inl e) \<longrightarrow> s' = fst (run_lines E s ls)) \<and>
    (\<forall>p. r = Inr (Some p) \<longrightarrow> s' = SNone \<or> (\<exists>b. s' = WaitingForQuery b))"
  using process_line_ok [OF run_lines_ok [OF assms(1)] assms(2)] .

theorem parser_states_typed_witness:
  "state_ok (fst (process_line sample_env ''2024-01-01 00:00:00D1'' None (fst (run_lines sample_env SNone [''2024-01-01 00:00:00D2'', ''Query Text:x'']))))"
  using parser_states_typed [of SNone sample_env "''2024-01-01 00:00:00D1''" None "[''2024-01-01 00:00:00D2'', ''Query Text:x'']"]
  by (metis prod.collapse state_ok.simps(1))

theorem json_block_is_plan_or_query_text_witness:
  "foldl (next_state sample_env) (ParsingQuery (Untyped \<lparr>u_timestamp = 0, u_duration = f_zero, u_query = ''q''\<rparr>))
     [''{'', ''}''] =
   ParsingQuery (Untyped \<lparr>u_timestamp = 0, u_duration = f_zero, u_query = foldl push_line ''q'' [''{'', ''}'']\<rparr>)"
proof -
  let ?u = "\<lparr>u_timestamp = 0, u_duration = f_zero, u_query = ''q''\<rparr>"
  let ?s = "foldl (next_state sample_env) (ParsingQuery (Untyped ?u)) [''{'', ''}'']"
  have run: "in_json (foldl (next_state sample_env) (ParsingQuery (Untyped ?u)) [''{'']) \<and>
      (case ?s of ParsingQuery _ \<Rightarrow> True | _ \<Rightarrow> False)"
    by code_simp
  have trims: "trim ''{'' = ''{''" "trim ''}'' = ''}''" "looks_like_json_start ''{''" by code_simp+
  have codes: "code (CHR ''{'') \<noteq> 10 \<and> code (CHR ''}'') \<noteq> 10" by code_simp
  have "?s = SNone \<or> ?s = ParsingQuery (Untyped (?u\<lparr>u_query := foldl push_line (u_query ?u) (map trim [''{'', ''}''])\<rparr>))"
  proof (rule json_block_is_plan_or_query_text [where E = sample_env])
    show "\<forall>k. 0 < k \<and> k < length [''{'', ''}''] \<longrightarrow>
        in_json (foldl (next_state sample_env) (ParsingQuery (Untyped ?u)) (take k [''{'', ''}'']))"
      using run by (auto simp: less_Suc_eq)
    show "\<not> in_json ?s" using run by (cases ?s) auto
  qed (use trims codes in auto)
  with run trims show ?thesis by (cases ?s) auto
qed

theorem text_entry_yields_plan_witness:
  "\<exists>r. run_lines sample_env SNone [''2024-01-01 00:00:00D1.5'', ''Query Text: a'', ''b'', ''L ('', ''S'', ''2024-01-01 00:00:00''] = (SNone, plan_of r) \<and>
     (\<forall>x. r = Some x \<longrightarrow> timestamp x = 5 \<and> query_text x = foldl push_line ''a'' [''b''] \<and>
       raw_plan x = join newline [''L ('', ''S''])"
proof -
  obtain d where d: "is_header sample_env ''2024-01-01 00:00:00D1.5'' 5 d" using sample_is_header by blast
  note lines = sample_continues and parts = sample_parts
  show ?thesis
    using text_entry_yields_plan [OF d lines(1) parts(1), of "[''b'']" "''L (''" "[''S'']" "''2024-01-01 00:00:00''" SNone] lines parts
    by (auto simp: plan_of_def)
qed

text \<open>The per-thread memo of query normalisation is transparent: on any sequence of queries
  whose 64-bit hashes are distinct it returns what the uncached function returns, errors
  included, and it never holds more than \<open>NORM_CACHE_CAP\<close> entries.\<close>

theorem normalize_memo_transparent:
  assumes "inj_on hash (set qs)"
  shows "fst (memo_run E hash Map.empty qs) = map (normalize_and_format E) qs \<and>
    card (dom (snd (memo_run E hash Map.empty qs))) \<le> NORM_CACHE_CAP"
  using memo_run_ok [OF assms subset_refl memo_ok_empty, of E] unfolding memo_ok_def by blast

theorem normalize_memo_transparent_witness:
  "fst (memo_run sample_env (\<lambda>q. of_nat (length q)) Map.empty [''a'', ''bc'', ''a'']) =
     map (normalize_and_format sample_env) [''a'', ''bc'', ''a'']"
  by (rule normalize_memo_transparent [THEN conjunct1]) (auto simp: inj_on_def)

end
