(* ===== verification/Read_Loop.thy ===== *)
theory Read_Loop
  imports Log_State
begin

text \<open>
  The streaming parser of \<open>log_parser.rs\<close>: reading capped lines from an untrusted reader, the
  per-entry cap, the dispatch of each line to the state machine, and the delivery of completed
  plans to a sink. A sink (the trait \<open>PlanSink\<close>) is a record of operations; the laws the read
  loop relies on are the locale \<open>plan_sink\<close>. Byte counts are integers: a run never reads
  \<open>2 ^ 64\<close> bytes.
\<close>

section \<open>Readers\<close>

text \<open>What a \<open>BufRead\<close> still delivers, and whether it then fails instead of ending.\<close>

record Reader =
  pending :: string
  broken :: bool

type_synonym io_error = string

definition line_feed :: char where "line_feed = char_of (10::int)"

text \<open>The next line with its line feed.\<close>

definition next_line :: "string \<Rightarrow> string" where
  "next_line s =
     takeWhile (\<lambda>c. c \<noteq> line_feed) s @ (if line_feed \<in> set s then [line_feed] else [])"

definition take_int :: "int \<Rightarrow> string \<Rightarrow> string" where
  "take_int n s = (if int (length s) \<le> n then s else take (nat n) s)"

text \<open>\<open>reader.take(max).read_until(LF)\<close>: it asks for more input only when it has met neither the
  line feed nor the limit.\<close>

definition read_line :: "int \<Rightarrow> Reader \<Rightarrow> io_error + (string \<times> Reader)" where
  "read_line max_bytes r =
     (let chunk = take_int max_bytes (next_line (pending r));
          r' = r\<lparr>pending := drop (length chunk) (pending r)\<rparr>
      in if int (length chunk) = max_bytes \<or> line_feed \<in> set chunk then Inr (chunk, r')
         else if broken r then Inl ''Failed to read line from log file''
         else Inr (chunk, r'))"

text \<open>Discarding the rest of an oversized line; the number of bytes skipped.\<close>

definition skip_line :: "Reader \<Rightarrow> io_error + (int \<times> Reader)" where
  "skip_line r =
     (let rest = next_line (pending r); r' = r\<lparr>pending := drop (length rest) (pending r)\<rparr>
      in if line_feed \<in> set rest \<or> \<not> broken r then Inr (int (length rest), r')
         else Inl ''Failed to skip oversized line'')"

section \<open>Sinks\<close>

record 'k PlanSink =
  accept :: "'k \<Rightarrow> QueryPlan \<Rightarrow> 'k"
  accepted :: "'k \<Rightarrow> nat"
  is_full :: "'k \<Rightarrow> bool"
  mark_truncated :: "'k \<Rightarrow> 'k"

definition vec_sink :: "QueryPlan list PlanSink" where
  "vec_sink = \<lparr>accept = (\<lambda>v p. v @ [p]), accepted = length, is_full = (\<lambda>_. False), mark_truncated = id\<rparr>"

definition with_database :: "QueryPlan \<Rightarrow> string option \<Rightarrow> QueryPlan" where
  "with_database p db = p\<lparr>database := db\<rparr>"

definition accept_plan :: "'k PlanSink \<Rightarrow> 'k \<Rightarrow> string option \<Rightarrow> QueryPlan option \<Rightarrow> 'k" where
  "accept_plan K k db p = (case p of Some p \<Rightarrow> accept K k (with_database p db) | None \<Rightarrow> k)"

section \<open>The read loop\<close>

record ('v, 'm) LogParser =
  env :: "('v, 'm) Env"
  timezone :: TimezoneResolver
  max_line_bytes :: int
  max_entry_bytes :: int
  prefix_database :: "string \<Rightarrow> string option"

definition MAX_LINE_BYTES :: int where "MAX_LINE_BYTES = 64 * 1024 * 1024"
definition MAX_ENTRY_BYTES :: int where "MAX_ENTRY_BYTES = 256 * 1024 * 1024"

definition with_byte_limits :: "('v, 'm) LogParser \<Rightarrow> int \<Rightarrow> int \<Rightarrow> ('v, 'm) LogParser" where
  "with_byte_limits P max_line max_entry =
     P\<lparr>max_line_bytes := (if max_line = 0 then 2 ^ 64 - 1 else max_line),
       max_entry_bytes := (if max_entry = 0 then 2 ^ 64 - 1 else max_entry)\<rparr>"

record ReadState =
  reader :: Reader
  parsing_state :: LogParsingState
  line_count :: int
  matched_log_lines :: int
  bytes_processed :: int
  plans_processed :: nat
  entry_bytes :: int
  current_database :: "string option"
  progress_calls :: "(f64 \<times> nat) list"

definition decode_line :: "string \<Rightarrow> string" where
  "decode_line buf = (if utf8_valid buf then buf else from_utf8_lossy buf)"

text \<open>The counters of a line of \<open>n\<close> bytes and the cap on an accumulated entry.\<close>

definition count_line :: "int \<Rightarrow> int \<Rightarrow> ReadState \<Rightarrow> ReadState" where
  "count_line max_entry n st =
     (let st = st\<lparr>line_count := line_count st + 1, bytes_processed := bytes_processed st + n\<rparr>
      in case parsing_state st of
           SNone \<Rightarrow> st\<lparr>entry_bytes := 0\<rparr>
         | _ \<Rightarrow>
             let e = entry_bytes st + n
             in if max_entry < e then st\<lparr>parsing_state := SNone, entry_bytes := 0\<rparr>
                else st\<lparr>entry_bytes := e\<rparr>)"

definition report_progress :: "int \<Rightarrow> nat \<Rightarrow> ReadState \<Rightarrow> ReadState" where
  "report_progress total_size current_len st =
     (if line_count st mod 10000 = 0 then
        st\<lparr>plans_processed := current_len,
           progress_calls := progress_calls st @
             [(f_min (f_div (f_of_int (bytes_processed st)) (f_of_int total_size)) (f_of_int 1),
               current_len - plans_processed st)]\<rparr>
      else st)"

text \<open>One decoded, right-trimmed line.\<close>

definition handle_line ::
  "('v, 'm) LogParser \<Rightarrow> 'k PlanSink \<Rightarrow> string \<Rightarrow> ReadState \<Rightarrow> 'k \<Rightarrow> ReadState \<times> 'k" where
  "handle_line P K line_trimmed st k =
     (case split_log_line (simd (env P)) (log_line_captures (env P)) line_trimmed of
        Some (timestamp_str, message) \<Rightarrow>
          (let st = st\<lparr>matched_log_lines := matched_log_lines st + 1\<rparr>;
               finish = (\<lambda>_. let (s, p) = finish_state (env P) (parsing_state st)
                             in (st\<lparr>parsing_state := s\<rparr>, accept_plan K k (current_database st) p))
           in case parse_duration_from_line (duration_capture (env P)) message of
                Some dur \<Rightarrow>
                  (case parse_timestamp_with_tz (parse_naive (env P)) timestamp_str (timezone P) of
                     Some ts \<Rightarrow>
                       (let finished_database = current_database st;
                            (s, p) = reset_with_builder (env P) (parsing_state st) (new_builder ts dur)
                        in (st\<lparr>parsing_state := s, current_database := prefix_database P message\<rparr>,
                            accept_plan K k finished_database p))
                   | None \<Rightarrow> finish ())
              | None \<Rightarrow> finish ())
      | None \<Rightarrow>
          (if trim line_trimmed = [] then (st, k)
           else let r = advance_continuation (env P) (parsing_state st) line_trimmed
                in (st\<lparr>parsing_state := state r\<rparr>, accept_plan K k (current_database st) (plan r))))"

text \<open>Reading the next line into the buffer, up to the cap, and discarding what exceeds it. An
  empty buffer is the end of the input.\<close>

definition fetch_line :: "('v, 'm) LogParser \<Rightarrow> ReadState \<Rightarrow> io_error + (string \<times> ReadState)" where
  "fetch_line P st =
     (case read_line (max_line_bytes P) (reader st) of
        Inl e \<Rightarrow> Inl e
      | Inr (buf, rd) \<Rightarrow>
          (case (if int (length buf) = max_line_bytes P \<and> (buf = [] \<or> last buf \<noteq> line_feed)
                 then skip_line rd else Inr (0, rd)) of
             Inl e \<Rightarrow> Inl e
           | Inr (skipped, rd) \<Rightarrow>
               Inr (buf, st\<lparr>reader := rd, bytes_processed := bytes_processed st + skipped\<rparr>)))"

text \<open>One turn of the loop: an error, the end (\<open>False\<close>) or another turn.\<close>

definition read_turn ::
  "('v, 'm) LogParser \<Rightarrow> 'k PlanSink \<Rightarrow> int \<Rightarrow> ReadState \<Rightarrow> 'k \<Rightarrow> io_error + (bool \<times> ReadState \<times> 'k)" where
  "read_turn P K total_size st k =
     (if is_full K k then
        (if pending (reader st) \<noteq> [] then Inr (False, st, mark_truncated K k)
         else if broken (reader st) then Inl ''Failed to check for pending input''
         else Inr (False, st, k))
      else
        (case fetch_line P st of
           Inl e \<Rightarrow> Inl e
         | Inr (buf, st) \<Rightarrow>
             if buf = [] then Inr (False, st, k)
             else
               let st = count_line (max_entry_bytes P) (int (length buf)) st;
                   st = report_progress total_size (accepted K k) st;
                   (st, k) = handle_line P K (trim_end (decode_line buf)) st k
               in Inr (True, st, k)))"

lemma next_line_simps [simp]:
  "next_line [] = []"
  "next_line (c # s) = (if c = line_feed then [line_feed] else c # next_line s)"
  by (auto simp: next_line_def)

lemma next_line_prefix: "\<exists>t. s = next_line s @ t"
  by (induction s) auto

lemma next_line_length: "length (next_line s) \<le> length s"
  using next_line_prefix [of s] by (metis length_append le_add1)

lemma take_int_length: "length (take_int n s) \<le> length s"
  by (auto simp: take_int_def)

lemma read_line_shrinks:
  "read_line m r = Inr (buf, rd) \<Longrightarrow> length (pending rd) + length buf = length (pending r)"
  using next_line_length [of "pending r"] take_int_length [of m "next_line (pending r)"]
  by (auto simp: read_line_def Let_def split: if_splits)

lemma skip_line_shrinks: "skip_line r = Inr (n, rd) \<Longrightarrow> length (pending rd) \<le> length (pending r)"
  by (auto simp: skip_line_def Let_def split: if_splits)

lemma count_line_reader [simp]: "reader (count_line m n st) = reader st"
  by (simp add: count_line_def Let_def split: LogParsingState.split)

lemma report_progress_reader [simp]: "reader (report_progress t n st) = reader st"
  by (simp add: report_progress_def)

lemma handle_line_reader: "handle_line P K l st k = (st', k') \<Longrightarrow> reader st' = reader st"
  by (auto simp: handle_line_def Let_def split: option.splits prod.splits if_splits)

lemma fetch_line_shrinks:
  "fetch_line P st = Inr (buf, st') \<Longrightarrow>
     length (pending (reader st')) + length buf \<le> length (pending (reader st))"
  by (auto simp: fetch_line_def Let_def split: if_splits sum.splits prod.splits
      dest!: read_line_shrinks skip_line_shrinks)

lemma read_turn_shrinks:
  "read_turn P K t st k = Inr (True, st', k') \<Longrightarrow>
     length (pending (reader st')) < length (pending (reader st))"
  by (auto simp: read_turn_def Let_def split: if_splits sum.splits prod.splits
      dest!: fetch_line_shrinks handle_line_reader)
    (auto simp flip: length_greater_0_conv)

function read_loop ::
  "('v, 'm) LogParser \<Rightarrow> 'k PlanSink \<Rightarrow> int \<Rightarrow> ReadState \<Rightarrow> 'k \<Rightarrow> io_error + (ReadState \<times> 'k)" where
  "read_loop P K total_size st k =
     (case read_turn P K total_size st k of
        Inl e \<Rightarrow> Inl e
      | Inr (True, st, k) \<Rightarrow> read_loop P K total_size st k
      | Inr (False, st, k) \<Rightarrow> Inr (st, k))"
  by pat_completeness auto
termination
  by (relation "measure (\<lambda>(P, K, t, st, k). length (pending (reader st)))")
    (auto dest: read_turn_shrinks)

declare read_loop.simps [simp del]

definition initial_read_state :: "Reader \<Rightarrow> nat \<Rightarrow> ReadState" where
  "initial_read_state rd n =
     \<lparr>reader = rd, parsing_state = SNone, line_count = 0, matched_log_lines = 0, bytes_processed = 0,
      plans_processed = n, entry_bytes = 0, current_database = None, progress_calls = []\<rparr>"

text \<open>\<open>parse_into_sink\<close>: the sink, and the progress reported.\<close>

definition parse_into_sink ::
  "('v, 'm) LogParser \<Rightarrow> 'k PlanSink \<Rightarrow> Reader \<Rightarrow> int \<Rightarrow> 'k \<Rightarrow> io_error + ('k \<times> (f64 \<times> nat) list)" where
  "parse_into_sink P K rd total_size k =
     (case read_loop P K total_size (initial_read_state rd (accepted K k)) k of
        Inl e \<Rightarrow> Inl e
      | Inr (st, k) \<Rightarrow>
          let (_, p) = finish_state (env P) (parsing_state st)
          in Inr (accept_plan K k (current_database st) p, progress_calls st @ [(f_of_int 1, 0)]))"

definition parse_with_progress ::
  "('v, 'm) LogParser \<Rightarrow> Reader \<Rightarrow> int \<Rightarrow> io_error + QueryPlan list" where
  "parse_with_progress P rd total_size =
     (case parse_into_sink P vec_sink rd total_size [] of Inl e \<Rightarrow> Inl e | Inr (v, _) \<Rightarrow> Inr v)"


section \<open>What a line does, without the sink\<close>

definition line_effect :: "('v, 'm) LogParser \<Rightarrow> string \<Rightarrow> ReadState \<Rightarrow> ReadState \<times> QueryPlan option" where
  "line_effect P l st =
     (let (st', v) = handle_line P vec_sink l st []
      in (st', if v = [] then None else Some (hd v)))"

definition accept_option :: "'k PlanSink \<Rightarrow> 'k \<Rightarrow> QueryPlan option \<Rightarrow> 'k" where
  "accept_option K k p = (case p of Some p \<Rightarrow> accept K k p | None \<Rightarrow> k)"

lemma handle_line_effect:
  "handle_line P K l st k = (fst (line_effect P l st), accept_option K k (snd (line_effect P l st)))"
  by (simp add: line_effect_def handle_line_def accept_plan_def accept_option_def vec_sink_def
      finish_state_def reset_with_builder_def Let_def split: option.split)

lemma plan_leaves_idle: "plan (advance_continuation E s l) \<noteq> None \<Longrightarrow> state (advance_continuation E s l) = SNone"
  by (auto simp: advance_continuation_def start_json_def advance_text_def text_add_line_def
      advance_json_builder_def outcome_to_def Let_def
      split: LogParsingState.splits option.splits if_splits QueryPlanBuilder.splits prod.splits
        JsonLineOutcome.splits)

lemma line_effect_final:
  "line_effect P l st = (st', Some p) \<Longrightarrow> finalize_plan (env P) (parsing_state st') = None"
  by (auto simp: line_effect_def handle_line_def accept_plan_def vec_sink_def finish_state_def
      reset_with_builder_def new_builder_def Let_def plan_leaves_idle
      split: option.splits if_splits prod.splits)

text \<open>Two read states that differ in the progress reported only.\<close>

definition core where
  "core st = (reader st, parsing_state st, line_count st, matched_log_lines st, bytes_processed st,
     entry_bytes st, current_database st)"

lemma core_count_line: "core st = core st' \<Longrightarrow> core (count_line m n st) = core (count_line m n st')"
  by (auto simp: core_def count_line_def Let_def split: LogParsingState.split)

lemma core_report: "core (report_progress t n st) = core st"
  by (simp add: core_def report_progress_def)

lemma core_line_effect:
  assumes "core st = core st'"
  shows "core (fst (line_effect P l st)) = core (fst (line_effect P l st')) \<and>
    snd (line_effect P l st) = snd (line_effect P l st')"
  using assms
  by (auto simp: core_def line_effect_def handle_line_def Let_def split: option.split prod.split)

lemma fetch_line_core:
  assumes "core st = core st'"
  shows "fetch_line P st' =
    (case fetch_line P st of Inl e \<Rightarrow> Inl e
     | Inr (buf, st1) \<Rightarrow> Inr (buf, st'\<lparr>reader := reader st1, bytes_processed := bytes_processed st1\<rparr>))"
    and "fetch_line P st = Inr (buf, st1) \<Longrightarrow>
      core (st'\<lparr>reader := reader st1, bytes_processed := bytes_processed st1\<rparr>) = core st1"
  using assms
  by (auto simp: core_def fetch_line_def split: sum.splits prod.splits if_splits)

text \<open>A turn of the loop into a vector is the turn into any sink that is not full.\<close>

lemma turn_simulation:
  assumes "read_turn P vec_sink t st v = Inr (go, st1, v1)" and "core st = core st'" and "\<not> is_full K k"
  obtains st1' q where "read_turn P K t st' k = Inr (go, st1', accept_option K k q)"
    and "core st1 = core st1'" and "v1 = v @ (case q of Some p \<Rightarrow> [p] | None \<Rightarrow> [])"
    and "q \<noteq> None \<longrightarrow> finalize_plan (env P) (parsing_state st1') = None" and "\<not> go \<longrightarrow> q = None"
proof -
  have full: "\<not> is_full vec_sink v" by (simp add: vec_sink_def)
  obtain buf st2 where f: "fetch_line P st = Inr (buf, st2)"
    using assms(1) full by (auto simp: read_turn_def split: sum.splits)
  define st2' where "st2' = st'\<lparr>reader := reader st2, bytes_processed := bytes_processed st2\<rparr>"
  have f': "fetch_line P st' = Inr (buf, st2')" and c2: "core st2 = core st2'"
    using fetch_line_core [OF assms(2), of P] f by (auto simp: st2'_def)
  show ?thesis
  proof (cases "buf = []")
    case True
    with assms(1) full f have "go = False \<and> st1 = st2 \<and> v1 = v"
      by (simp add: read_turn_def)
    with True that [of st2' None] c2 f' assms(3) show ?thesis
      by (simp add: read_turn_def accept_option_def)
  next
    case False
    let ?l = "trim_end (decode_line buf)"
    let ?s = "report_progress t (accepted vec_sink v) (count_line (max_entry_bytes P) (int (length buf)) st2)"
    let ?s' = "report_progress t (accepted K k) (count_line (max_entry_bytes P) (int (length buf)) st2')"
    have "core ?s = core ?s'" using core_count_line [OF c2] by (simp add: core_report)
    note e = core_line_effect [OF this, of P ?l]
    have "go \<and> st1 = fst (line_effect P ?l ?s) \<and> v1 = accept_option vec_sink v (snd (line_effect P ?l ?s))"
      using assms(1) full f False by (simp add: read_turn_def handle_line_effect Let_def)
    moreover have "read_turn P K t st' k = Inr (True, fst (line_effect P ?l ?s'),
        accept_option K k (snd (line_effect P ?l ?s')))"
      using assms(3) f' False by (simp add: read_turn_def handle_line_effect Let_def)
    ultimately show ?thesis
      using that [of "fst (line_effect P ?l ?s')" "snd (line_effect P ?l ?s')"] e
        line_effect_final [of P ?l ?s']
      by (cases "line_effect P ?l ?s'")
        (auto simp: accept_option_def vec_sink_def split: option.splits)
  qed
qed

definition stopped_early :: "('v, 'm) LogParser \<Rightarrow> 'k PlanSink \<Rightarrow> ReadState \<Rightarrow> 'k \<Rightarrow> 'k \<Rightarrow> bool" where
  "stopped_early P K st k k1 \<longleftrightarrow> is_full K k \<and> finalize_plan (env P) (parsing_state st) = None \<and>
     (k1 = k \<or> k1 = mark_truncated K k)"

lemma vec_turn_extends:
  "read_turn P vec_sink t st v = Inr (go, st1, v1) \<Longrightarrow> \<exists>ps. v1 = v @ ps"
  by (auto simp: read_turn_def handle_line_effect accept_option_def vec_sink_def Let_def
      split: if_splits sum.splits option.splits)

lemma vec_loop_extends:
  "read_loop P vec_sink t st v = Inr (st1, v1) \<Longrightarrow> \<exists>ps. v1 = v @ ps"
proof (induction P "vec_sink :: QueryPlan list PlanSink" t st v rule: read_loop.induct)
  case (1 P t st v)
  obtain go st2 v2 where r: "read_turn P vec_sink t st v = Inr (go, st2, v2)"
    using 1(2) by (auto simp: read_loop.simps [of P vec_sink t st v] split: sum.splits)
  obtain ps where ps: "v2 = v @ ps" using vec_turn_extends [OF r] by blast
  show ?case
  proof (cases go)
    case True
    then have "read_loop P vec_sink t st2 v2 = Inr (st1, v1)"
      using 1(2) r by (simp add: read_loop.simps [of P vec_sink t st v])
    then obtain qs where "v1 = v2 @ qs" using 1(1) [OF r] True by blast
    with ps show ?thesis by simp
  next
    case False
    with 1(2) r have "v1 = v2" by (simp add: read_loop.simps [of P vec_sink t st v])
    with ps show ?thesis by simp
  qed
qed

lemma fetch_line_broken: "fetch_line P st = Inr (buf, st1) \<Longrightarrow> broken (reader st1) = broken (reader st)"
  by (auto simp: fetch_line_def read_line_def skip_line_def Let_def split: sum.splits if_splits)

lemma read_turn_broken: "read_turn P K t st k = Inr (go, st1, k1) \<Longrightarrow> broken (reader st1) = broken (reader st)"
  by (auto simp: read_turn_def Let_def split: if_splits sum.splits prod.splits
      dest: fetch_line_broken dest!: handle_line_reader)

text \<open>A sink that never fills up sees every failure of its reader.\<close>

lemma broken_turn:
  assumes "broken (reader st)" and "0 < max_line_bytes P" and "\<not> is_full K k"
    and r: "read_turn P K t st k = Inr (go, st1, k1)"
  shows "go \<and> broken (reader st1) \<and> (k1 = k \<or> (\<exists>p. k1 = accept K k p))"
proof (intro conjI)
  show "go"
    using assms by (auto simp: read_turn_def fetch_line_def read_line_def Let_def
        split: sum.splits if_splits prod.splits)
  show "broken (reader st1)" using read_turn_broken [OF r] assms(1) by simp
  show "k1 = k \<or> (\<exists>p. k1 = accept K k p)"
    using r assms(3)
    by (auto simp: read_turn_def Let_def handle_line_effect accept_option_def
        split: sum.splits if_splits prod.splits option.splits)
qed

lemma broken_fails:
  assumes never: "\<And>k. I k \<Longrightarrow> \<not> is_full K k" "\<And>k p. I k \<Longrightarrow> I (accept K k p)"
    and pos: "0 < max_line_bytes P" and b: "broken rd" and k: "I k"
  shows "\<exists>e. parse_into_sink P K rd t k = Inl e"
proof -
  have "broken (reader st) \<Longrightarrow> I k \<Longrightarrow> \<exists>e. read_loop P K t st k = Inl e" for st k
  proof (induction "length (pending (reader st))" arbitrary: st k rule: less_induct)
    case less
    show ?case
    proof (cases "read_turn P K t st k")
      case (Inl e)
      then show ?thesis by (subst read_loop.simps) simp
    next
      case (Inr r)
      obtain go st1 k1 where r: "r = (go, st1, k1)" by (cases r)
      have t: "go" "broken (reader st1)" "I k1"
        using broken_turn [OF less(2) pos never(1) [OF less(3)] Inr [unfolded r]] never(2) less(3) by auto
      with Inr r have "length (pending (reader st1)) < length (pending (reader st))"
        using read_turn_shrinks [of P K t st k] by auto
      with less(1) t obtain e where "read_loop P K t st1 k1 = Inl e" by blast
      with Inr r t(1) show ?thesis by (subst read_loop.simps) simp
    qed
  qed
  then obtain e where "read_loop P K t (initial_read_state rd (accepted K k)) k = Inl e"
    using b k by (fastforce simp: initial_read_state_def)
  then show ?thesis by (simp add: parse_into_sink_def)
qed

lemma loop_simulation:
  assumes "read_loop P vec_sink t st v = Inr (st1, v1)" and "core st = core st'"
    and "is_full K k \<longrightarrow> finalize_plan (env P) (parsing_state st') = None"
    and "\<not> broken (reader st)"
  shows "\<exists>ps st1' k1. v1 = v @ ps \<and> read_loop P K t st' k = Inr (st1', k1) \<and>
    ((core st1 = core st1' \<and> k1 = foldl (accept K) k ps) \<or>
     (\<exists>n \<le> length ps. stopped_early P K st1' (foldl (accept K) k (take n ps)) k1))"
  using assms
proof (induction P "vec_sink :: QueryPlan list PlanSink" t st v arbitrary: st' k rule: read_loop.induct)
  case (1 P t st v)
  have core: "reader st = reader st'" using 1(3) by (simp add: core_def)
  show ?case
  proof (cases "is_full K k")
    case True
    obtain ps where ps: "v1 = v @ ps" using vec_loop_extends [OF 1(2)] by blast
    obtain k1 where k1: "read_loop P K t st' k = Inr (st', k1)" "k1 = k \<or> k1 = mark_truncated K k"
      using True core 1(5) by (cases "pending (reader st') = []")
        (auto simp: read_loop.simps [of P K t st' k] read_turn_def)
    have "stopped_early P K st' (foldl (accept K) k (take 0 ps)) k1"
      using True k1 1(4) by (simp add: stopped_early_def)
    with ps k1 show ?thesis by blast
  next
    case False
    obtain go st2 v2 where r: "read_turn P vec_sink t st v = Inr (go, st2, v2)"
      using 1(2) by (auto simp: read_loop.simps [of P vec_sink t st v] split: sum.splits)
    obtain st2' q where q: "read_turn P K t st' k = Inr (go, st2', accept_option K k q)"
        "core st2 = core st2'" "v2 = v @ (case q of Some p \<Rightarrow> [p] | None \<Rightarrow> [])"
        "q \<noteq> None \<longrightarrow> finalize_plan (env P) (parsing_state st2') = None" "\<not> go \<longrightarrow> q = None"
      by (rule turn_simulation [OF r 1(3) False])
    show ?thesis
    proof (cases go)
      case False
      with q r 1(2) show ?thesis
        by (simp add: read_loop.simps [of P vec_sink t st v] read_loop.simps [of P K t st' k]
            accept_option_def)
    next
      case True
      let ?k = "accept_option K k q"
      have v: "read_loop P vec_sink t st2 v2 = Inr (st1, v1)"
        using 1(2) r True by (simp add: read_loop.simps [of P vec_sink t st v])
      have fin: "is_full K ?k \<longrightarrow> finalize_plan (env P) (parsing_state st2') = None"
        using q(4) \<open>\<not> is_full K k\<close> by (cases q) (auto simp: accept_option_def)
      have br: "\<not> broken (reader st2)" using read_turn_broken [OF r] 1(5) by simp
      obtain ps st1' k1 where ps: "v1 = v2 @ ps" "read_loop P K t st2' ?k = Inr (st1', k1)"
          "(core st1 = core st1' \<and> k1 = foldl (accept K) ?k ps) \<or>
           (\<exists>n \<le> length ps. stopped_early P K st1' (foldl (accept K) ?k (take n ps)) k1)"
        using 1(1) [OF r refl _ refl v q(2) fin br] True by auto
      have loop: "read_loop P K t st' k = Inr (st1', k1)"
        using q(1) True ps(2) by (simp add: read_loop.simps [of P K t st' k])
      show ?thesis
      proof (cases q)
        case None
        with ps q(3) loop show ?thesis by (auto simp: accept_option_def)
      next
        case (Some p)
        have "stopped_early P K st1' (foldl (accept K) k (take (Suc n) (p # ps))) k1"
          if "stopped_early P K st1' (foldl (accept K) ?k (take n ps)) k1" for n
          using that Some by (simp add: accept_option_def)
        then show ?thesis
          using ps q(3) loop Some
          by (intro exI [of _ "p # ps"] exI [of _ st1'] exI [of _ k1])
            (auto simp: accept_option_def intro: exI [of _ "Suc n" for n])
      qed
    qed
  qed
qed

text \<open>Parsing into any sink: as parsing into a vector and offering its plans in order, except
  that a sink that fills up is offered no more.\<close>

lemma parse_into_sink_prefix:
  assumes "parse_with_progress P rd t = Inr ps" and "\<not> broken rd"
  shows "\<exists>k1 calls. parse_into_sink P K rd t k = Inr (k1, calls) \<and>
    (k1 = foldl (accept K) k ps \<or>
     (\<exists>n \<le> length ps. is_full K (foldl (accept K) k (take n ps)) \<and>
        (k1 = foldl (accept K) k (take n ps) \<or> k1 = mark_truncated K (foldl (accept K) k (take n ps)))))"
proof -
  let ?i = "initial_read_state rd 0" and ?i' = "initial_read_state rd (accepted K k)"
  obtain st1 v1 where v: "read_loop P vec_sink t ?i [] = Inr (st1, v1)"
      and ps: "ps = accept_option vec_sink v1 (map_option (\<lambda>p. with_database p (current_database st1))
        (finalize_plan (env P) (parsing_state st1)))"
    using assms(1)
    by (auto simp: parse_with_progress_def parse_into_sink_def vec_sink_def finish_state_def
        accept_plan_def accept_option_def split: sum.splits option.splits)
  have "core ?i = core ?i'" by (simp add: core_def initial_read_state_def)
  from loop_simulation [OF v this, of K k] assms(2)
  obtain qs st1' k1 where q: "v1 = qs" "read_loop P K t ?i' k = Inr (st1', k1)"
      "(core st1 = core st1' \<and> k1 = foldl (accept K) k qs) \<or>
       (\<exists>n \<le> length qs. stopped_early P K st1' (foldl (accept K) k (take n qs)) k1)"
    by (auto simp: initial_read_state_def)
  let ?p = "finalize_plan (env P) (parsing_state st1')"
  have run: "parse_into_sink P K rd t k =
      Inr (accept_plan K k1 (current_database st1') ?p, progress_calls st1' @ [(f_of_int 1, 0)])"
    using q(2) by (simp add: parse_into_sink_def finish_state_def)
  from q(3) show ?thesis
  proof
    assume c: "core st1 = core st1' \<and> k1 = foldl (accept K) k qs"
    then have "accept_plan K k1 (current_database st1') ?p = foldl (accept K) k ps"
      by (auto simp: ps q(1) core_def accept_plan_def accept_option_def vec_sink_def split: option.splits)
    then show ?thesis using run by simp
  next
    assume "\<exists>n \<le> length qs. stopped_early P K st1' (foldl (accept K) k (take n qs)) k1"
    then obtain n where n: "n \<le> length qs" "stopped_early P K st1' (foldl (accept K) k (take n qs)) k1" by blast
    have "take n ps = take n qs" "n \<le> length ps"
      using n(1) by (simp_all add: ps q(1) accept_option_def vec_sink_def split: option.split)
    then show ?thesis
      using run n by (auto simp: stopped_early_def accept_plan_def intro!: exI [of _ n])
  qed
qed

section \<open>The contract of a sink\<close>

text \<open>What a sink must promise for stopping early to lose nothing: once full it stays full, and a
  plan offered to it or the mark of truncation changes none of its \<open>contents\<close>.\<close>

locale plan_sink =
  fixes K :: "'k PlanSink" and contents :: "'k \<Rightarrow> 'c"
  assumes stays_full: "is_full K k \<Longrightarrow> is_full K (accept K k p)"
    and full_rejects: "is_full K k \<Longrightarrow> contents (accept K k p) = contents k"
    and mark_contents: "contents (mark_truncated K k) = contents k"
    and accepted_grows: "accepted K k \<le> accepted K (accept K k p)"
    and mark_accepted: "accepted K (mark_truncated K k) = accepted K k"
begin

lemma full_rejects_all:
  "is_full K k \<Longrightarrow> contents (foldl (accept K) k ps) = contents k \<and> is_full K (foldl (accept K) k ps)"
  by (induction ps arbitrary: k) (simp_all add: stays_full full_rejects)

lemma parse_contents:
  assumes "parse_with_progress P rd t = Inr ps" and "\<not> broken rd"
  shows "\<exists>k1 calls. parse_into_sink P K rd t k = Inr (k1, calls) \<and>
    contents k1 = contents (foldl (accept K) k ps)"
proof -
  have rest: "contents (foldl (accept K) k ps) = contents (foldl (accept K) k (take n ps))"
    if "is_full K (foldl (accept K) k (take n ps))" for n
    using full_rejects_all [OF that, of "drop n ps"] by (metis append_take_drop_id foldl_append)
  from parse_into_sink_prefix [OF assms, of K k] show ?thesis
    using rest mark_contents by metis
qed

text \<open>The deltas reported never exceed what the sink took.\<close>

definition deltas_ok :: "nat \<Rightarrow> ReadState \<Rightarrow> 'k \<Rightarrow> bool" where
  "deltas_ok n st k \<longleftrightarrow> plans_processed st = n + sum_list (map snd (progress_calls st)) \<and>
     plans_processed st \<le> accepted K k"

lemma deltas_same:
  "plans_processed st' = plans_processed st \<Longrightarrow> progress_calls st' = progress_calls st \<Longrightarrow>
     accepted K k \<le> accepted K k' \<Longrightarrow> deltas_ok n st k \<Longrightarrow> deltas_ok n st' k'"
  by (simp add: deltas_ok_def)

lemma count_line_calls:
  "plans_processed (count_line m b st) = plans_processed st"
  "progress_calls (count_line m b st) = progress_calls st"
  by (simp_all add: count_line_def Let_def split: LogParsingState.split)

lemma line_effect_calls:
  "plans_processed (fst (line_effect P l st)) = plans_processed st"
  "progress_calls (fst (line_effect P l st)) = progress_calls st"
  by (auto simp: line_effect_def handle_line_def finish_state_def reset_with_builder_def Let_def
      split: option.split prod.split)

lemma deltas_report: "deltas_ok n st k \<Longrightarrow> deltas_ok n (report_progress t (accepted K k) st) k"
  by (auto simp: deltas_ok_def report_progress_def)

lemma fetch_line_calls:
  "fetch_line P st = Inr (buf, st1) \<Longrightarrow> deltas_ok n st k \<Longrightarrow> deltas_ok n st1 k"
  by (auto simp: fetch_line_def deltas_ok_def split: sum.splits prod.splits if_splits)

lemma deltas_turn:
  assumes "deltas_ok n st k"
  shows "deltas_ok n (fst (line_effect P l (report_progress t (accepted K k) (count_line m b st))))
    (accept_option K k q)"
proof -
  have "deltas_ok n (count_line m b st) k"
    by (rule deltas_same [OF _ _ _ assms]) (simp_all add: count_line_calls)
  note r = deltas_report [OF this, of t]
  show ?thesis
    by (rule deltas_same [OF _ _ _ r])
      (simp_all add: line_effect_calls accept_option_def accepted_grows split: option.split)
qed

lemma turn_deltas:
  assumes "read_turn P K t st k = Inr (go, st1, k1)" and "deltas_ok n st k"
  shows "deltas_ok n st1 k1"
proof (cases "is_full K k")
  case True
  with assms have "st1 = st \<and> accepted K k1 = accepted K k"
    by (auto simp: read_turn_def mark_accepted split: if_splits)
  with assms(2) show ?thesis by (simp add: deltas_ok_def)
next
  case False
  then obtain buf st2 where f: "fetch_line P st = Inr (buf, st2)"
    using assms(1) by (auto simp: read_turn_def split: sum.splits)
  note d = fetch_line_calls [OF f assms(2)]
  show ?thesis
    using assms(1) False f d deltas_turn [OF d]
    by (cases "buf = []") (auto simp: read_turn_def handle_line_effect Let_def)
qed

lemma loop_deltas:
  "read_loop P K' t st k = Inr (st1, k1) \<Longrightarrow> K' = K \<Longrightarrow> deltas_ok n st k \<Longrightarrow> deltas_ok n st1 k1"
proof (induction P K' t st k rule: read_loop.induct)
  case (1 P K' t st k)
  obtain go st2 k2 where r: "read_turn P K' t st k = Inr (go, st2, k2)"
    using 1(2) by (auto simp: read_loop.simps [of P K' t st k] split: sum.splits)
  have d: "deltas_ok n st2 k2" using turn_deltas 1(3,4) r by blast
  show ?case
  proof (cases go)
    case True
    then have "read_loop P K' t st2 k2 = Inr (st1, k1)"
      using 1(2) r by (simp add: read_loop.simps [of P K' t st k])
    then show ?thesis using 1(1) [OF r refl _ refl _ 1(3) d] True by simp
  next
    case False
    with 1(2) r have "st1 = st2 \<and> k1 = k2" by (simp add: read_loop.simps [of P K' t st k])
    with d show ?thesis by simp
  qed
qed

lemma progress_deltas_bounded:
  assumes "parse_into_sink P K rd t k = Inr (k1, calls)"
  shows "accepted K k + sum_list (map snd calls) \<le> accepted K k1"
proof -
  obtain st1 k2 where l: "read_loop P K t (initial_read_state rd (accepted K k)) k = Inr (st1, k2)"
      and k1: "k1 = accept_plan K k2 (current_database st1) (finalize_plan (env P) (parsing_state st1))"
      and calls: "calls = progress_calls st1 @ [(f_of_int 1, 0)]"
    using assms by (auto simp: parse_into_sink_def finish_state_def split: sum.splits)
  have "deltas_ok (accepted K k) st1 k2"
    by (rule loop_deltas [OF l refl]) (simp add: deltas_ok_def initial_read_state_def)
  then have "accepted K k + sum_list (map snd calls) \<le> accepted K k2"
    by (auto simp: deltas_ok_def calls)
  also have "\<dots> \<le> accepted K k1"
    by (simp add: k1 accept_plan_def accepted_grows split: option.split)
  finally show ?thesis .
qed

end

interpretation vec: plan_sink vec_sink id
  by unfold_locales (auto simp: vec_sink_def)

section \<open>The loop as a fold over capped lines\<close>

function log_lines :: "string \<Rightarrow> string list" where
  "log_lines s = (if s = [] then [] else next_line s # log_lines (drop (length (next_line s)) s))"
  by pat_completeness auto
termination
proof (relation "measure length")
  fix s :: string
  assume "s \<noteq> []"
  then show "(drop (length (next_line s)) s, s) \<in> measure length"
    by (cases s) auto
qed simp

declare log_lines.simps [simp del]

definition buffer_step ::
  "('v, 'm) LogParser \<Rightarrow> ReadState \<times> QueryPlan list \<Rightarrow> string \<Rightarrow> ReadState \<times> QueryPlan list" where
  "buffer_step P = (\<lambda>(st, v) buf.
     let (st, p) = line_effect P (trim_end (decode_line buf))
           (count_line (max_entry_bytes P) (int (length buf)) st)
     in (st, v @ plan_of p))"

definition same_entry where
  "same_entry st st' \<longleftrightarrow> parsing_state st = parsing_state st' \<and> entry_bytes st = entry_bytes st' \<and>
     current_database st = current_database st'"

lemma same_count_line:
  "same_entry st st' \<Longrightarrow> same_entry (count_line m n st) (count_line m n st')"
  by (auto simp: same_entry_def count_line_def Let_def split: LogParsingState.split)

lemma same_report: "same_entry st st' \<Longrightarrow> same_entry (report_progress t n st) st'"
  by (simp add: same_entry_def report_progress_def)

lemma same_line_effect:
  "same_entry st st' \<Longrightarrow> same_entry (fst (line_effect P l st)) (fst (line_effect P l st')) \<and>
     snd (line_effect P l st) = snd (line_effect P l st')"
  by (auto simp: same_entry_def line_effect_def handle_line_def finish_state_def
      reset_with_builder_def Let_def split: option.split prod.split)

lemma take_int_nonempty: "0 < n \<Longrightarrow> s \<noteq> [] \<Longrightarrow> take_int n s \<noteq> []"
  by (simp add: take_int_def)

lemma next_line_Nil_iff [simp]: "next_line s = [] \<longleftrightarrow> s = []"
  by (cases s) auto

lemma next_line_all: "line_feed \<notin> set s \<Longrightarrow> next_line s = s"
  by (induction s) auto

lemma next_line_LF: "line_feed \<in> set (next_line s) \<longleftrightarrow> line_feed \<in> set s"
  by (induction s) auto

lemma next_line_drop:
  "n < length (next_line s) \<Longrightarrow> next_line (drop n s) = drop n (next_line s)"
  by (induction s arbitrary: n) (auto simp: drop_Cons' split: if_splits)

lemma last_next_line:
  "line_feed \<in> set s \<Longrightarrow> last (next_line s) = line_feed"
  "n < length (next_line s) \<Longrightarrow> line_feed \<notin> set (take n (next_line s))"
  by (induction s arbitrary: n) (auto simp: take_Cons' split: if_splits)

lemma fetch_line_next:
  assumes "\<not> broken (reader st)" and "0 < max_line_bytes P" and "pending (reader st) \<noteq> []"
  shows "\<exists>st1. fetch_line P st = Inr (take_int (max_line_bytes P) (next_line (pending (reader st))), st1) \<and>
    pending (reader st1) = drop (length (next_line (pending (reader st)))) (pending (reader st)) \<and>
    \<not> broken (reader st1) \<and> same_entry st1 st"
proof -
  let ?s = "pending (reader st)" and ?m = "max_line_bytes P"
  let ?l = "next_line ?s"
  have ne: "?l \<noteq> []" using assms(3) by (cases ?s) auto
  show ?thesis
  proof (cases "int (length ?l) \<le> ?m")
    case True
    then have t: "take_int ?m ?l = ?l" by (simp add: take_int_def)
    show ?thesis
    proof (cases "line_feed \<in> set ?s")
      case True
      with assms ne t last_next_line(1) [OF True] show ?thesis
        by (simp add: fetch_line_def read_line_def next_line_LF same_entry_def Let_def)
    next
      case False
      with assms t next_line_all [OF False] show ?thesis
        by (auto simp: fetch_line_def read_line_def skip_line_def same_entry_def Let_def)
    qed
  next
    case False
    then have t: "take_int ?m ?l = take (nat ?m) ?l" and n: "nat ?m < length ?l"
      using assms(2) by (simp_all add: take_int_def)
    have len: "int (length (take (nat ?m) ?l)) = ?m" using n assms(2) by simp
    have "last (take (nat ?m) ?l) \<noteq> line_feed"
      using last_next_line(2) [OF n] n assms(2) last_in_set [of "take (nat ?m) ?l"] ne by fastforce
    moreover have "drop (length (drop (nat ?m) ?l)) (drop (nat ?m) ?s) = drop (length ?l) ?s"
      using n by simp
    ultimately show ?thesis
      using assms(1,2) t n len next_line_drop [OF n]
      by (auto simp: fetch_line_def read_line_def skip_line_def same_entry_def Let_def)
  qed
qed

lemma line_effect_reader: "reader (fst (line_effect P l st)) = reader st"
  using handle_line_reader [of P vec_sink l st "[]"]
  by (cases "handle_line P vec_sink l st []") (simp add: line_effect_def)

lemma buffer_step_eq:
  "buffer_step P (st, v) buf =
     (let e = line_effect P (trim_end (decode_line buf)) (count_line (max_entry_bytes P) (int (length buf)) st)
      in (fst e, v @ plan_of (snd e)))"
  by (simp add: buffer_step_def case_prod_beta Let_def)

lemma vec_turn:
  assumes "fetch_line P st = Inr (buf, st1)" and "buf \<noteq> []"
  shows "read_turn P vec_sink t st v =
    (let e = line_effect P (trim_end (decode_line buf))
           (report_progress t (length v) (count_line (max_entry_bytes P) (int (length buf)) st1))
     in Inr (True, fst e, v @ plan_of (snd e)))"
proof -
  have sink: "accept_option vec_sink v q = v @ plan_of q" "accepted vec_sink v = length v"
    "\<not> is_full vec_sink v" for q
    by (simp_all add: accept_option_def vec_sink_def plan_of_def split: option.split)
  show ?thesis using assms by (simp add: read_turn_def handle_line_effect sink Let_def)
qed

lemma turn_is_step:
  assumes "\<not> broken (reader st)" and "0 < max_line_bytes P" and "pending (reader st) \<noteq> []"
    and "same_entry st st'"
  obtains st2 st2' v2 where "read_turn P vec_sink t st v = Inr (True, st2, v2)"
    and "buffer_step P (st', v) (take_int (max_line_bytes P) (next_line (pending (reader st)))) = (st2', v2)"
    and "same_entry st2 st2'" and "\<not> broken (reader st2)"
    and "pending (reader st2) = drop (length (next_line (pending (reader st)))) (pending (reader st))"
proof -
  let ?s = "pending (reader st)"
  define buf where "buf = take_int (max_line_bytes P) (next_line ?s)"
  obtain st1 where f: "fetch_line P st = Inr (buf, st1)"
      "pending (reader st1) = drop (length (next_line ?s)) ?s" "\<not> broken (reader st1)" "same_entry st1 st"
    using fetch_line_next [OF assms(1-3)] unfolding buf_def by blast
  have ne: "buf \<noteq> []" using assms(2,3) by (simp add: buf_def take_int_nonempty)
  define l where "l = trim_end (decode_line buf)"
  define c where "c = report_progress t (length v) (count_line (max_entry_bytes P) (int (length buf)) st1)"
  define c' where "c' = count_line (max_entry_bytes P) (int (length buf)) st'"
  have same: "same_entry c c'"
    unfolding c_def c'_def
    by (intro same_report same_count_line) (use f(4) assms(4) in \<open>simp add: same_entry_def\<close>)
  note eff = same_line_effect [OF same, of P l]
  show ?thesis
  proof
    show "read_turn P vec_sink t st v = Inr (True, fst (line_effect P l c), v @ plan_of (snd (line_effect P l c)))"
      unfolding vec_turn [OF f(1) ne] Let_def c_def l_def ..
    show "buffer_step P (st', v) (take_int (max_line_bytes P) (next_line ?s)) =
        (fst (line_effect P l c'), v @ plan_of (snd (line_effect P l c)))"
      unfolding conjunct2 [OF eff] buffer_step_eq Let_def unfolding l_def c'_def buf_def ..
    show "same_entry (fst (line_effect P l c)) (fst (line_effect P l c'))"
      by (rule conjunct1 [OF eff])
    show "\<not> broken (reader (fst (line_effect P l c)))"
      "pending (reader (fst (line_effect P l c))) = drop (length (next_line ?s)) ?s"
      unfolding line_effect_reader c_def using f(2,3) by simp_all
  qed
qed

lemma loop_is_fold:
  assumes "\<not> broken (reader st)" and "0 < max_line_bytes P" and "same_entry st st'"
    and "pending (reader st) = s"
  shows "\<exists>st1 st1' v1. read_loop P vec_sink t st v = Inr (st1, v1) \<and> same_entry st1 st1' \<and>
    foldl (buffer_step P) (st', v) (map (take_int (max_line_bytes P)) (log_lines s)) = (st1', v1)"
  using assms
proof (induction s arbitrary: st st' v rule: log_lines.induct)
  case (1 s)
  show ?case
  proof (cases "s = []")
    case True
    then have "fetch_line P st = Inr ([], st)"
      using 1(2,3,5) by (simp add: fetch_line_def read_line_def take_int_def)
    then have "read_turn P vec_sink t st v = Inr (False, st, v)"
      by (simp add: read_turn_def vec_sink_def)
    then have "read_loop P vec_sink t st v = Inr (st, v)"
      by (subst read_loop.simps) simp
    with True 1(4) show ?thesis by (simp add: log_lines.simps)
  next
    case False
    obtain st2 st2' v2 where t: "read_turn P vec_sink t st v = Inr (True, st2, v2)"
        "buffer_step P (st', v) (take_int (max_line_bytes P) (next_line s)) = (st2', v2)"
        "same_entry st2 st2'" "\<not> broken (reader st2)" "pending (reader st2) = drop (length (next_line s)) s"
      by (rule turn_is_step [of st P st' t v]) (use 1(2-5) False in auto)
    obtain st3 st3' v3 where ih: "read_loop P vec_sink t st2 v2 = Inr (st3, v3)" "same_entry st3 st3'"
        "foldl (buffer_step P) (st2', v2) (map (take_int (max_line_bytes P)) (log_lines (drop (length (next_line s)) s))) = (st3', v3)"
      using 1(1) [OF False t(4) 1(3) t(3,5), of v2] by blast
    have "read_loop P vec_sink t st v = Inr (st3, v3)"
      by (subst read_loop.simps) (simp add: t(1) ih(1))
    moreover have "log_lines s = next_line s # log_lines (drop (length (next_line s)) s)"
      by (subst log_lines.simps) (simp only: False if_False)
    ultimately show ?thesis using ih(2,3) t(2) by simp
  qed
qed


definition final_plans :: "('v, 'm) LogParser \<Rightarrow> ReadState \<times> QueryPlan list \<Rightarrow> QueryPlan list" where
  "final_plans P = (\<lambda>(st, v).
     v @ plan_of (map_option (\<lambda>p. with_database p (current_database st))
       (finalize_plan (env P) (parsing_state st))))"

lemma parse_with_progress_fold:
  assumes "\<not> broken rd" and "0 < max_line_bytes P"
  shows "parse_with_progress P rd t = Inr (final_plans P
    (foldl (buffer_step P) (initial_read_state rd 0, [])
       (map (take_int (max_line_bytes P)) (log_lines (pending rd)))))"
proof -
  let ?i = "initial_read_state rd 0"
  obtain st1 st1' v1 where l: "read_loop P vec_sink t ?i [] = Inr (st1, v1)" "same_entry st1 st1'"
      "foldl (buffer_step P) (?i, []) (map (take_int (max_line_bytes P)) (log_lines (pending rd))) = (st1', v1)"
    using loop_is_fold [of ?i P ?i "pending rd" t "[]"] assms
    by (auto simp: initial_read_state_def same_entry_def)
  have i: "initial_read_state rd (accepted vec_sink []) = ?i" by (simp add: vec_sink_def)
  have acc: "accept_plan vec_sink v db q = v @ plan_of (map_option (\<lambda>p. with_database p db) q)" for v db q
    by (simp add: accept_plan_def vec_sink_def plan_of_def split: option.split)
  show ?thesis
    using l by (simp add: parse_with_progress_def parse_into_sink_def i finish_state_def acc
        final_plans_def same_entry_def)
qed

section \<open>Agreement with the line-at-a-time parser\<close>

lemma normalize_database: "create_text_plan E t d q raw p = Inr x \<Longrightarrow> database x = None"
  "create_json_plan E t d q raw jp = Inr x \<Longrightarrow> database x = None"
  by (auto simp: create_text_plan_def create_json_plan_def split: sum.splits prod.splits)

lemma build_query_plan_database: "build_query_plan E b = (b', Inr (Some p)) \<Longrightarrow> database p = None"
  by (auto simp: build_query_plan_def Let_def
      split: option.splits Json.splits list.splits sum.splits if_splits dest: normalize_database)

lemma finalize_database: "finalize_plan E s = Some p \<Longrightarrow> database p = None"
proof (induction E s rule: finalize_plan.induct)
  case (1 E b)
  then show ?case by (auto simp: ok_option_def dest: text_finalize_Inr split: sum.splits)
next
  case (2 E b c)
  then show ?case
    by (cases "build_query_plan E b")
      (auto simp: ok_option_def json_finalize_def build_query_plan_database
        split: sum.splits if_splits option.splits)
qed simp_all

lemma json_add_line_database: "json_add_line E b l = (b', Complete p) \<Longrightarrow> database p = None"
  by (auto simp: json_add_line_def Let_def build_query_plan_database
      split: prod.splits sum.splits option.splits if_splits)

lemma advance_database: "plan (advance_continuation E s l) = Some p \<Longrightarrow> database p = None"
  by (auto simp: advance_continuation_def start_json_def advance_text_def text_add_line_def
      advance_json_builder_def outcome_to_def Let_def json_add_line_database
      split: LogParsingState.splits option.splits if_splits QueryPlanBuilder.splits prod.splits
        JsonLineOutcome.splits)

lemma advance_error: "error (advance_continuation E s l) = None"
  by (auto simp: advance_continuation_def start_json_def advance_text_def text_add_line_def
      advance_json_builder_def outcome_to_def Let_def
      split: LogParsingState.splits option.splits if_splits QueryPlanBuilder.splits prod.splits
        JsonLineOutcome.splits)

lemma with_no_database: "database p = None \<Longrightarrow> with_database p None = p"
  by (simp add: with_database_def)

text \<open>The streaming parser set up like the line parser: no database attribution, the default time
  zones; and lines on which the two agree about what a log line is, with proper timestamps.\<close>

definition plain_parser :: "('v, 'm) LogParser \<Rightarrow> bool" where
  "plain_parser P \<longleftrightarrow> timezone P = new_resolver \<and> (\<forall>m. prefix_database P m = None)"

definition agreed_line :: "('v, 'm) Env \<Rightarrow> string \<Rightarrow> bool" where
  "agreed_line E l \<longleftrightarrow>
     log_line_captures E (trim_end l) = split_log_line (simd E) (log_line_captures E) (trim_end l) \<and>
     (case log_line_captures E (trim_end l) of
        None \<Rightarrow> True
      | Some (ts, msg) \<Rightarrow> parse_duration_from_line (duration_capture E) msg = None \<or>
          parse_timestamp (parse_naive E) ts \<noteq> None)"

lemma line_effect_process:
  assumes "plain_parser P" and "agreed_line (env P) l" and "current_database st = None"
  shows "parsing_state (fst (line_effect P (trim_end l) st)) = fst (process_line (env P) l n (parsing_state st)) \<and>
    current_database (fst (line_effect P (trim_end l) st)) = None \<and>
    entry_bytes (fst (line_effect P (trim_end l) st)) = entry_bytes st \<and>
    snd (process_line (env P) l n (parsing_state st)) = Inr (snd (line_effect P (trim_end l) st))"
proof (cases "split_log_line (simd (env P)) (log_line_captures (env P)) (trim_end l)")
  case None
  then have c: "log_line_captures (env P) (trim_end l) = None"
    using assms(2) by (simp add: agreed_line_def)
  show ?thesis
    using assms(3) None advance_database [of "env P" "parsing_state st" "trim_end l"]
      advance_error [of "env P" "parsing_state st" "trim_end l"]
    by (auto simp: process_line_def process_continuation_line_def c line_effect_def handle_line_def
        accept_plan_def vec_sink_def with_no_database Let_def split: option.split)
next
  case (Some p)
  obtain ts msg where p: "p = (ts, msg)" by (cases p)
  have c: "log_line_captures (env P) (trim_end l) = Some (ts, msg)"
    using assms(2) Some p by (simp add: agreed_line_def)
  show ?thesis
    using assms Some p c finalize_database [of "env P" "parsing_state st"]
    by (auto simp: process_line_def line_effect_def handle_line_def accept_plan_def vec_sink_def
        with_no_database plain_parser_def agreed_line_def parse_timestamp_def reset_with_builder_def
        finish_state_def Let_def split: option.splits)
qed

text \<open>The line parser under the entry cap: \<open>e\<close> is the running count of the code.\<close>

definition cap_entry :: "int \<Rightarrow> int \<Rightarrow> LogParsingState \<Rightarrow> int \<Rightarrow> LogParsingState \<times> int" where
  "cap_entry m n s e =
     (if s = SNone then (SNone, 0) else if m < e + n then (SNone, 0) else (s, e + n))"

definition plans_of_result :: "PlanError + QueryPlan option \<Rightarrow> QueryPlan list" where
  "plans_of_result r = (case r of Inr p \<Rightarrow> plan_of p | Inl _ \<Rightarrow> [])"

fun capped_run ::
  "('v, 'm) Env \<Rightarrow> int \<Rightarrow> LogParsingState \<Rightarrow> int \<Rightarrow> string list \<Rightarrow> LogParsingState \<times> QueryPlan list" where
  "capped_run E m s e [] = (s, [])"
| "capped_run E m s e (b # bs) =
     (let (s, e) = cap_entry m (int (length b)) s e;
          (s, r) = process_line E (decode_line b) None s;
          (s, ps) = capped_run E m s e bs
      in (s, plans_of_result r @ ps))"

lemma count_line_cap:
  "cap_entry m n (parsing_state st) (entry_bytes st) =
     (parsing_state (count_line m n st), entry_bytes (count_line m n st))"
  "current_database (count_line m n st) = current_database st"
  by (auto simp: count_line_def cap_entry_def Let_def split: LogParsingState.split)

lemma fold_is_capped_run:
  assumes "plain_parser P" and "\<forall>b \<in> set bufs. agreed_line (env P) (decode_line b)"
    and "current_database st = None"
  shows "\<exists>st' v'. foldl (buffer_step P) (st, v) bufs = (st', v @ v') \<and> current_database st' = None \<and>
    capped_run (env P) (max_entry_bytes P) (parsing_state st) (entry_bytes st) bufs = (parsing_state st', v')"
  using assms
proof (induction bufs arbitrary: st v)
  case Nil
  then show ?case by simp
next
  case (Cons b bufs)
  let ?E = "env P" and ?l = "decode_line b"
  let ?c = "count_line (max_entry_bytes P) (int (length b)) st"
  let ?e = "line_effect P (trim_end ?l) ?c"
  have db: "current_database ?c = None" using Cons.prems(3) by (simp add: count_line_cap)
  have eff: "parsing_state (fst ?e) = fst (process_line ?E ?l None (parsing_state ?c))"
      "current_database (fst ?e) = None" "entry_bytes (fst ?e) = entry_bytes ?c"
      "snd (process_line ?E ?l None (parsing_state ?c)) = Inr (snd ?e)"
    using line_effect_process [OF Cons.prems(1) _ db, of ?l None] Cons.prems(2) by auto
  then have p: "process_line ?E ?l None (parsing_state ?c) = (parsing_state (fst ?e), Inr (snd ?e))"
    by (metis prod.collapse)
  have "\<forall>b \<in> set bufs. agreed_line ?E (decode_line b)" using Cons.prems(2) by simp
  from Cons.IH [OF Cons.prems(1) this eff(2), of "v @ plan_of (snd ?e)"]
  obtain st' v' where ih: "foldl (buffer_step P) (fst ?e, v @ plan_of (snd ?e)) bufs =
        (st', (v @ plan_of (snd ?e)) @ v')" "current_database st' = None"
      "capped_run ?E (max_entry_bytes P) (parsing_state (fst ?e)) (entry_bytes (fst ?e)) bufs = (parsing_state st', v')"
    by blast
  show ?case
    using ih p by (auto simp: buffer_step_eq count_line_cap plans_of_result_def eff(3) Let_def)
qed

text \<open>With room for everything the cap does nothing.\<close>

lemma capped_run_room:
  assumes "0 \<le> e" and "e + sum_list (map (\<lambda>b. int (length b)) bufs) \<le> m"
  shows "capped_run E m s e bufs = run_lines E s (map decode_line bufs)"
  using assms
proof (induction bufs arbitrary: s e)
  case (Cons b bufs)
  have rest: "0 \<le> sum_list (map (\<lambda>b. int (length b)) bufs)" by (intro sum_list_nonneg) auto
  obtain e' where c: "cap_entry m (int (length b)) s e = (s, e')" "0 \<le> e'" "e' \<le> e + int (length b)"
    using Cons.prems rest by (cases "s = SNone") (auto simp: cap_entry_def)
  show ?case
    using Cons.IH [of e'] Cons.prems c
    by (auto simp: plans_of_result_def plan_of_def Let_def split: prod.split sum.split option.split)
qed simp

lemma parse_is_capped_run:
  assumes "\<not> broken rd" and "0 < max_line_bytes P" and "plain_parser P"
    and "bufs = map (take_int (max_line_bytes P)) (log_lines (pending rd))"
    and "\<forall>b \<in> set bufs. agreed_line (env P) (decode_line b)"
  shows "parse_with_progress P rd t =
    (let (s, v) = capped_run (env P) (max_entry_bytes P) SNone 0 bufs
     in Inr (v @ plan_of (finalize_plan (env P) s)))"
proof -
  let ?i = "initial_read_state rd 0"
  have i: "current_database ?i = None" "parsing_state ?i = SNone" "entry_bytes ?i = 0"
    by (simp_all add: initial_read_state_def)
  obtain st' v' where f: "foldl (buffer_step P) (?i, []) bufs = (st', [] @ v')" "current_database st' = None"
      "capped_run (env P) (max_entry_bytes P) SNone 0 bufs = (parsing_state st', v')"
    using fold_is_capped_run [OF assms(3,5) i(1), of "[]"] unfolding i(2,3) by blast
  show ?thesis
    using f finalize_database [of "env P" "parsing_state st'"]
    by (cases "finalize_plan (env P) (parsing_state st')")
      (auto simp: parse_with_progress_fold [OF assms(1,2)] assms(4) [symmetric] final_plans_def
        plan_of_def with_no_database)
qed

lemma concat_log_lines: "concat (log_lines s) = s"
proof (induction s rule: log_lines.induct)
  case (1 s)
  then show ?case
    using next_line_prefix [of s] by (subst log_lines.simps) (auto, metis append_eq_conv_conj)
qed

lemma parse_plain_lines:
  assumes "\<not> broken rd" and "plain_parser P" and "lines = log_lines (pending rd)"
    and "\<forall>l \<in> set lines. int (length l) \<le> max_line_bytes P \<and> agreed_line (env P) (decode_line l)"
    and "0 < max_line_bytes P" and "int (length (pending rd)) \<le> max_entry_bytes P"
  shows "parse_with_progress P rd t =
    (let (s, ps) = run_lines (env P) SNone (map decode_line lines)
     in Inr (ps @ plan_of (finalize_plan (env P) s)))"
proof -
  have cut: "lines = map (take_int (max_line_bytes P)) (log_lines (pending rd))"
    using assms(3,4) by (simp add: map_idI take_int_def)
  have "sum_list (map (\<lambda>b. int (length b)) lines) = int (length (concat lines))"
    by (induction lines) simp_all
  also have "\<dots> = int (length (pending rd))"
    using concat_log_lines [of "pending rd"] assms(3) by simp
  finally have room: "0 + sum_list (map (\<lambda>b. int (length b)) lines) \<le> max_entry_bytes P"
    using assms(6) by simp
  show ?thesis
    using parse_is_capped_run [OF assms(1,5,2) cut] assms(4)
      capped_run_room [OF order_refl room, of "env P" SNone] by simp
qed

section \<open>A concrete parser\<close>

definition sample_parser :: "int \<Rightarrow> (nat \<Rightarrow> u8, nat \<Rightarrow> bool) LogParser" where
  "sample_parser max_entry =
     \<lparr>env = sample_env, timezone = new_resolver, max_line_bytes = 1000, max_entry_bytes = max_entry,
      prefix_database = (\<lambda>_. None)\<rparr>"

definition sample_header :: string where "sample_header = ''2024-01-01 00:00:00D1'' @ newline"
definition sample_query :: string where "sample_query = ''Query Text: a'' @ newline"
definition sample_plan_line :: string where "sample_plan_line = ''L ('' @ newline"
definition sample_entry :: string where
  "sample_entry = sample_header @ sample_query @ sample_plan_line"

lemma sample_decode:
  "decode_line sample_header = sample_header" "decode_line sample_query = sample_query"
  "decode_line sample_plan_line = sample_plan_line"
  "length sample_header = 22" "length sample_query = 14" "length sample_plan_line = 4"
  by code_simp+

lemma sample_entry_length: "length sample_entry = 40"
  by (simp add: sample_entry_def sample_decode)

definition plan_count :: "io_error + QueryPlan list \<Rightarrow> nat option" where
  "plan_count r = (case r of Inr v \<Rightarrow> Some (length v) | Inl _ \<Rightarrow> None)"

lemma sample_trim:
  "trim_end sample_header = ''2024-01-01 00:00:00D1''" "trim_end sample_query = ''Query Text: a''"
  "trim_end sample_plan_line = ''L (''" "trim ''Query Text: a'' = ''Query Text: a''" "trim ''L ('' = ''L (''"
  by code_simp+

lemma sample_split:
  "split_log_line lane_simd f ''2024-01-01 00:00:00D1'' = Some (''2024-01-01 00:00:00'', ''D1'')"
  "split_log_line lane_simd f ''Query Text: a'' = None"
  "split_log_line lane_simd f ''L ('' = None"
  by code_simp+

lemma sample_env_simps:
  "simd sample_env = lane_simd" "log_line_captures sample_env = split_log_line lane_simd (\<lambda>_. None)"
  "duration_capture sample_env = strip_prefix ''D''" "parse_naive sample_env = (\<lambda>_. Some 5)"
  by (simp_all add: sample_env_def)

definition sample_duration :: f64 where
  "sample_duration = (case parse_f64 ''1'' of Some d \<Rightarrow> d | None \<Rightarrow> f_zero)"

lemma sample_times:
  "parse_duration_from_line (strip_prefix ''D'') ''D1'' = Some sample_duration"
  "parse_timestamp (\<lambda>_. Some 5) s = Some 5"
  by (code_simp, simp add: parse_timestamp_def parse_timestamp_with_tz_def Let_def)

lemma sample_agreed:
  "agreed_line sample_env sample_header" "agreed_line sample_env sample_query"
  "agreed_line sample_env sample_plan_line"
  by (simp_all add: agreed_line_def sample_trim sample_split sample_env_simps sample_times)

lemma sample_lines:
  "is_header sample_env sample_header 5 sample_duration"
  "continues sample_env sample_query" "continues sample_env sample_plan_line"
  "strip_prefix ''Query Text:'' (trim (trim_end sample_query)) = Some '' a''"
  by (simp_all add: is_header_def continues_def sample_trim sample_split sample_env_simps sample_times)

lemma sample_plan_start:
  "plan_regex sample_env ''L (''" "\<not> looks_like_json_start ''L (''"
  by code_simp+

definition sample_builder :: TextPlanBuilder where
  "sample_builder = text_entry_builder 5 sample_duration '' a'' [] [sample_plan_line]"

lemma sample_finalize: "\<exists>p. text_finalize sample_env sample_builder = Inr p"
proof -
  have "case text_finalize sample_env sample_builder of Inl _ \<Rightarrow> False | Inr _ \<Rightarrow> True"
    by code_simp
  then show ?thesis by (auto split: sum.splits)
qed


lemma sample_parser_simps:
  "env (sample_parser m) = sample_env" "max_line_bytes (sample_parser m) = 1000"
  "max_entry_bytes (sample_parser m) = m" "plain_parser (sample_parser m)"
  by (simp_all add: sample_parser_def plain_parser_def)

lemma sample_log_lines:
  "log_lines sample_entry = [sample_header, sample_query, sample_plan_line]"
  "log_lines (sample_entry @ sample_entry) =
     [sample_header, sample_query, sample_plan_line, sample_header, sample_query, sample_plan_line]"
  by code_simp+

lemma sample_steps:
  "process_line sample_env sample_header None s =
     (WaitingForQuery (new_builder 5 sample_duration), Inr (finalize_plan sample_env s))"
  "process_line sample_env sample_query None (WaitingForQuery (new_builder 5 sample_duration)) =
     (ParsingQuery (Untyped \<lparr>u_timestamp = 5, u_duration = sample_duration, u_query = trim '' a''\<rparr>), Inr None)"
  "process_line sample_env sample_plan_line None
       (ParsingQuery (Untyped \<lparr>u_timestamp = 5, u_duration = sample_duration, u_query = trim '' a''\<rparr>)) =
     (ParsingTextPlan (Text sample_builder), Inr None)"
  "process_line sample_env sample_query None SNone = (SNone, Inr None)"
  "process_line sample_env sample_plan_line None SNone = (SNone, Inr None)"
  using sample_lines sample_plan_start
  by (simp_all add: process_header process_line_continues advance_continuation_def outcome_to_def
      new_builder_def new_untyped_def advance_text_def text_add_line_def into_text_builder_def
      sample_builder_def text_entry_builder_def sample_trim Let_def)

lemma sample_capped_run:
  assumes "18 \<le> m"
  shows "capped_run sample_env m SNone 0 [sample_header, sample_query, sample_plan_line] =
    (ParsingTextPlan (Text sample_builder), [])"
  using assms by (simp add: cap_entry_def sample_decode sample_steps plans_of_result_def plan_of_def)

lemma sample_parse_lines:
  assumes "bufs = log_lines s" and "set bufs \<subseteq> {sample_header, sample_query, sample_plan_line}"
  shows "parse_with_progress (sample_parser m) \<lparr>pending = s, broken = False\<rparr> t =
    (let (s, v) = capped_run sample_env m SNone 0 bufs in Inr (v @ plan_of (finalize_plan sample_env s)))"
proof -
  have "map (take_int 1000) bufs = bufs"
    using assms(2) by (intro map_idI) (auto simp: take_int_def sample_decode)
  moreover have "\<forall>b \<in> set bufs. agreed_line sample_env (decode_line b)"
  proof
    fix b
    assume "b \<in> set bufs"
    with assms(2) have "b \<in> {sample_header, sample_query, sample_plan_line}" by (rule subsetD)
    then show "agreed_line sample_env (decode_line b)"
      by (elim insertE) (simp_all add: sample_decode sample_agreed)
  qed
  ultimately show ?thesis
    using parse_is_capped_run [of "\<lparr>pending = s, broken = False\<rparr>" "sample_parser m" bufs t] assms(1)
    by (simp add: sample_parser_simps)
qed

section \<open>Properties\<close>

text \<open>C35: reading is exact and total: on a reader that does not fail, the loop ends with the plans
  of a left-to-right fold over the lines of the input, each line handled once, in order, with its
  line feed and cut at \<open>max_line_bytes\<close>, plus the plan still open at the end.\<close>

theorem read_loop_refines_lines:
  assumes "\<not> broken rd" and "0 < max_line_bytes P"
  shows "concat (log_lines (pending rd)) = pending rd \<and>
    parse_with_progress P rd t = Inr (final_plans P
      (foldl (buffer_step P) (initial_read_state rd 0, [])
         (map (take_int (max_line_bytes P)) (log_lines (pending rd)))))"
  using concat_log_lines parse_with_progress_fold [OF assms] by blast

theorem read_loop_refines_lines_witness:
  "concat (log_lines sample_entry) = sample_entry \<and>
     (\<exists>v. parse_with_progress (sample_parser 30) \<lparr>pending = sample_entry, broken = False\<rparr> 0 = Inr v)"
  using read_loop_refines_lines [of "\<lparr>pending = sample_entry, broken = False\<rparr>" "sample_parser 30" 0]
  by (simp add: sample_parser_simps)

text \<open>C36: the streaming parser and the line-at-a-time parser of the extension agree: on lines that
  are not cut, that both recognise alike and whose timestamps are dates, without database
  attribution, and on an input that is as a whole within the cap of one entry (whose counter runs on
  from entry to entry), streaming gives exactly the plans the line parser yields over the decoded
  lines, followed by the plan open at the end.\<close>

theorem streaming_matches_line_parser:
  assumes "\<not> broken rd" and "plain_parser P" and "lines = log_lines (pending rd)"
    and "\<forall>l \<in> set lines. int (length l) \<le> max_line_bytes P \<and> agreed_line (env P) (decode_line l)"
    and "0 < max_line_bytes P" and "int (length (pending rd)) \<le> max_entry_bytes P"
  shows "parse_with_progress P rd t =
    (let (s, ps) = run_lines (env P) SNone (map decode_line lines)
     in Inr (ps @ plan_of (finalize_plan (env P) s)))"
  by (rule parse_plain_lines [OF assms])

theorem streaming_matches_line_parser_witness:
  "parse_with_progress (sample_parser 100) \<lparr>pending = sample_entry, broken = False\<rparr> 0 =
    (let (s, ps) = run_lines sample_env SNone (map decode_line (log_lines sample_entry))
     in Inr (ps @ plan_of (finalize_plan sample_env s)))"
  using streaming_matches_line_parser [of "\<lparr>pending = sample_entry, broken = False\<rparr>" "sample_parser 100"
      "log_lines sample_entry" 0] sample_agreed
  by (simp add: sample_parser_simps sample_log_lines sample_decode sample_entry_length)

text \<open>The cap on an entry counts across entries: the counter is not reset when a header starts
  the next entry, so two consecutive entries of 40 bytes under a cap of 45 yield one plan although
  either alone, and both under a cap of 80, are read completely.\<close>

theorem entry_cap_spans_entries:
  "length sample_entry = 40 \<and>
   plan_count (parse_with_progress (sample_parser 45) \<lparr>pending = sample_entry, broken = False\<rparr> t) = Some 1 \<and>
   plan_count (parse_with_progress (sample_parser 80)
     \<lparr>pending = sample_entry @ sample_entry, broken = False\<rparr> t) = Some 2 \<and>
   plan_count (parse_with_progress (sample_parser 45)
     \<lparr>pending = sample_entry @ sample_entry, broken = False\<rparr> t) = Some 1"
proof -
  obtain p where p: "text_finalize sample_env sample_builder = Inr p" using sample_finalize by blast
  have one: "parse_with_progress (sample_parser m) \<lparr>pending = sample_entry, broken = False\<rparr> t =
      (let (s, v) = capped_run sample_env m SNone 0 [sample_header, sample_query, sample_plan_line]
       in Inr (v @ plan_of (finalize_plan sample_env s)))" for m
    by (rule sample_parse_lines) (simp_all add: sample_log_lines)
  have two: "parse_with_progress (sample_parser m) \<lparr>pending = sample_entry @ sample_entry, broken = False\<rparr> t =
      (let (s, v) = capped_run sample_env m SNone 0
         [sample_header, sample_query, sample_plan_line, sample_header, sample_query, sample_plan_line]
       in Inr (v @ plan_of (finalize_plan sample_env s)))" for m
    by (rule sample_parse_lines) (simp_all add: sample_log_lines)
  show ?thesis
    unfolding one two
    by (simp add: sample_entry_def cap_entry_def sample_decode sample_steps plans_of_result_def
        plan_of_def plan_count_def ok_option_def p)
qed

text \<open>A failing reader is an error: if input ends in a read error, the materialising parser
  returns no plans at all, whatever it had read.\<close>

theorem read_error_is_reported:
  assumes "broken rd" and "0 < max_line_bytes P"
  shows "\<exists>e. parse_with_progress P rd t = Inl e"
  using broken_fails [where I = "\<lambda>_. True" and K = vec_sink and k = "[]" and t = t, OF _ _ assms(2,1)]
  by (auto simp: parse_with_progress_def vec_sink_def)

theorem read_error_is_reported_witness:
  "\<exists>e. parse_with_progress (sample_parser 30) \<lparr>pending = sample_entry, broken = True\<rparr> 0 = Inl e"
  by (rule read_error_is_reported) (simp_all add: sample_parser_simps)

end
