(* ===== verification/Log_Files.thy ===== *)
theory Log_Files
  imports Read_Loop
begin

text \<open>
  Opening log files: \<open>create_reader\<close> and \<open>create_reader_with_range\<close> of \<open>log_parser.rs\<close>, and the entry
  points that parse a string, a file or a byte range of a file. The file system maps a path to
  an opened file or to the error of opening it; the decompressors (flate2, bzip2) are functions
  from the compressed reader to the decompressed one, which may fail after its last byte.
\<close>

section \<open>Readers over files\<close>

record LogFile =
  file_size :: int
  data :: Reader

record FileSystem =
  open_file :: "string \<Rightarrow> io_error + LogFile"
  gunzip :: "Reader \<Rightarrow> Reader"
  bunzip2 :: "Reader \<Rightarrow> Reader"

definition GZIP_MAGIC :: string where "GZIP_MAGIC = map char_of [0x1f, 0x8b :: int]"
definition BZIP2_MAGIC :: string where "BZIP2_MAGIC = map char_of [0x42, 0x5a, 0x68 :: int]"
definition MAX_DECOMPRESSED_BYTES :: int where "MAX_DECOMPRESSED_BYTES = 16 * 1024 * 1024 * 1024"

text \<open>\<open>Read::take\<close>: after \<open>n\<close> bytes the inner reader is not asked again.\<close>

definition take_reader :: "int \<Rightarrow> Reader \<Rightarrow> Reader" where
  "take_reader n r =
     (if int (length (pending r)) < n then r else \<lparr>pending = take_int n (pending r), broken = False\<rparr>)"

definition seek_reader :: "int \<Rightarrow> Reader \<Rightarrow> Reader" where
  "seek_reader n r = r\<lparr>pending := drop (nat n) (pending r)\<rparr>"

datatype Compression = Gzip | Bzip2 | Plain

definition sniff :: "Reader \<Rightarrow> Compression" where
  "sniff r =
     (if length (pending r) < 3 then Plain
      else if take 2 (pending r) = GZIP_MAGIC then Gzip
      else if take 3 (pending r) = BZIP2_MAGIC then Bzip2
      else Plain)"

definition decoded_reader :: "FileSystem \<Rightarrow> Compression \<Rightarrow> Reader \<Rightarrow> Reader" where
  "decoded_reader fs c r =
     (case c of
        Gzip \<Rightarrow> take_reader MAX_DECOMPRESSED_BYTES (gunzip fs r)
      | Bzip2 \<Rightarrow> take_reader MAX_DECOMPRESSED_BYTES (bunzip2 fs r)
      | Plain \<Rightarrow> r)"

definition create_reader :: "FileSystem \<Rightarrow> string \<Rightarrow> io_error + (Reader \<times> int)" where
  "create_reader fs path =
     (case open_file fs path of
        Inl e \<Rightarrow> Inl e
      | Inr f \<Rightarrow> Inr (decoded_reader fs (sniff (data f)) (data f), file_size f))"

definition create_reader_with_range ::
  "FileSystem \<Rightarrow> string \<Rightarrow> int \<Rightarrow> int option \<Rightarrow> io_error + (Reader \<times> int)" where
  "create_reader_with_range fs path start_offset end_offset =
     (case open_file fs path of
        Inl e \<Rightarrow> Inl e
      | Inr f \<Rightarrow>
          (let end_pos = (case end_offset of Some e \<Rightarrow> e | None \<Rightarrow> file_size f)
           in if file_size f < start_offset then Inl ''Start offset exceeds file size''
              else if file_size f < end_pos then Inl ''End offset exceeds file size''
              else if end_pos \<le> start_offset then Inl ''Start offset must be less than end offset''
              else
                (let c = (if start_offset = 0 then sniff (data f) else Plain);
                     effective_size = end_pos - start_offset
                 in if c \<noteq> Plain then
                      (if 0 < start_offset then Inl ''Cannot seek in compressed file''
                       else Inr (decoded_reader fs c (data f), effective_size))
                    else Inr (take_reader effective_size (seek_reader start_offset (data f)), effective_size))))"

section \<open>Entry points\<close>

definition parse_file_with_progress ::
  "FileSystem \<Rightarrow> ('v, 'm) LogParser \<Rightarrow> string \<Rightarrow> io_error + QueryPlan list" where
  "parse_file_with_progress fs P path =
     (case create_reader fs path of
        Inl e \<Rightarrow> Inl e
      | Inr (rd, total_size) \<Rightarrow> parse_with_progress P rd total_size)"

definition parse_file_range_with_progress ::
  "FileSystem \<Rightarrow> ('v, 'm) LogParser \<Rightarrow> string \<Rightarrow> int \<Rightarrow> int option \<Rightarrow> io_error + QueryPlan list" where
  "parse_file_range_with_progress fs P path start_offset end_offset =
     (case create_reader_with_range fs path start_offset end_offset of
        Inl e \<Rightarrow> Inl e
      | Inr (rd, effective_size) \<Rightarrow> parse_with_progress P rd effective_size)"

text \<open>A cursor over bytes in memory never fails.\<close>

definition cursor :: "string \<Rightarrow> Reader" where "cursor s = \<lparr>pending = s, broken = False\<rparr>"

definition parse_string_with_progress :: "('v, 'm) LogParser \<Rightarrow> string \<Rightarrow> io_error + QueryPlan list" where
  "parse_string_with_progress P s = parse_with_progress P (cursor s) (int (length s))"

definition parse_bytes_with_progress :: "('v, 'm) LogParser \<Rightarrow> string \<Rightarrow> io_error + QueryPlan list" where
  "parse_bytes_with_progress P s = parse_with_progress P (cursor s) (int (length s))"

section \<open>Ranges\<close>

lemma take_reader_simps [simp]:
  "pending (take_reader n r) = take_int n (pending r)"
  "int (length (pending r)) \<ge> n \<Longrightarrow> \<not> broken (take_reader n r)"
  by (auto simp: take_reader_def take_int_def)

text \<open>The bytes a plain file delivers for a range.\<close>

lemma range_bytes:
  assumes "open_file fs path = Inr f" and "file_size f = int (length (pending (data f)))"
    and "0 \<le> a" and "a < b" and "b \<le> file_size f" and "0 < a \<or> sniff (data f) = Plain"
  shows "create_reader_with_range fs path a (Some b) =
     Inr (cursor (slice (pending (data f)) (nat a) (nat b)), b - a)"
proof -
  let ?s = "pending (data f)"
  have "take_reader (b - a) (seek_reader a (data f)) = cursor (take (nat (b - a)) (drop (nat a) ?s))"
    using assms by (auto simp: take_reader_def seek_reader_def take_int_def cursor_def)
  moreover have "take (nat (b - a)) (drop (nat a) ?s) = slice ?s (nat a) (nat b)"
    using assms(3,4) by (simp add: slice_def nat_diff_distrib')
  ultimately show ?thesis
    using assms by (auto simp: create_reader_with_range_def Let_def)
qed

section \<open>Property\<close>

text \<open>A range is refused exactly when the file cannot be opened or the range is empty or ends
  past it; the refusal to seek in a compressed file never happens, because past offset 0 the magic
  is not looked at: such a range of a compressed file is delivered as raw compressed bytes.\<close>

theorem range_refused_iff:
  "((\<exists>e. create_reader_with_range fs path a b = Inl e) \<longleftrightarrow>
     (case open_file fs path of
        Inl _ \<Rightarrow> True
      | Inr f \<Rightarrow> let e = (case b of Some e \<Rightarrow> e | None \<Rightarrow> file_size f) in file_size f < a \<or> file_size f < e \<or> e \<le> a)) \<and>
   (\<forall>f. \<not> (open_file fs path = Inr f \<and> file_size f = int (length (pending (data f))) \<and> 0 < a \<and> a < file_size f) \<or>
      create_reader_with_range fs path a None =
        Inr (cursor (drop (nat a) (pending (data f))), file_size f - a))"
proof
  show "(\<exists>e. create_reader_with_range fs path a b = Inl e) \<longleftrightarrow>
     (case open_file fs path of
        Inl _ \<Rightarrow> True
      | Inr f \<Rightarrow> let e = (case b of Some e \<Rightarrow> e | None \<Rightarrow> file_size f) in file_size f < a \<or> file_size f < e \<or> e \<le> a)"
    by (auto simp: create_reader_with_range_def Let_def split: sum.splits option.splits)
  have "create_reader_with_range fs path a None =
      Inr (cursor (drop (nat a) (pending (data f))), file_size f - a)"
    if "open_file fs path = Inr f" "file_size f = int (length (pending (data f)))" "0 < a" "a < file_size f" for f
  proof -
    have "create_reader_with_range fs path a None = create_reader_with_range fs path a (Some (file_size f))"
      using that by (simp add: create_reader_with_range_def)
    then show ?thesis
      using range_bytes [OF that(1,2), of a "file_size f"] that by (simp add: slice_def)
  qed
  then show "\<forall>f. \<not> (open_file fs path = Inr f \<and> file_size f = int (length (pending (data f))) \<and> 0 < a \<and> a < file_size f) \<or>
      create_reader_with_range fs path a None =
        Inr (cursor (drop (nat a) (pending (data f))), file_size f - a)" by blast
qed

definition sample_files :: FileSystem where
  "sample_files = \<lparr>open_file = (\<lambda>p. if p = ''a.gz'' then Inr \<lparr>file_size = 5, data = cursor (GZIP_MAGIC @ ''xyz'')\<rparr>
       else Inl ''No such file''), gunzip = id, bunzip2 = id\<rparr>"

theorem range_refused_iff_witness:
  "create_reader_with_range sample_files ''a.gz'' 2 None = Inr (cursor ''xyz'', 3)"
  using conjunct2 [OF range_refused_iff [of sample_files "''a.gz''" 2 None], rule_format,
      of "\<lparr>file_size = 5, data = cursor (GZIP_MAGIC @ ''xyz'')\<rparr>"]
  by (simp add: sample_files_def cursor_def GZIP_MAGIC_def numeral_2_eq_2)

end
