(* ===== verification/Chunks.thy ===== *)
theory Chunks
  imports Log_Files
begin

text \<open>
  Reading a log in pieces. The exporter and the background worker read what has been appended to a
  log up to the start of an entry and come back later for the rest; parsing the pieces must give what
  parsing the whole would give.
\<close>

section \<open>Lines of a concatenation\<close>

lemma next_line_append:
  "line_feed \<in> set a \<Longrightarrow> next_line (a @ b) = next_line a"
  by (simp add: next_line_def)

lemma log_lines_Nil [simp]: "log_lines [] = []"
  by (subst log_lines.simps) simp

lemma log_lines_append:
  "a = [] \<or> last a = line_feed \<Longrightarrow> log_lines (a @ b) = log_lines a @ log_lines b"
proof (induction a rule: log_lines.induct)
  case (1 a)
  show ?case
  proof (cases "a = []")
    case False
    with 1(2) have l: "last a = line_feed" "line_feed \<in> set a" using last_in_set [OF False] by auto
    let ?d = "drop (length (next_line a)) a"
    have "?d = [] \<or> last ?d = line_feed" using l(1)
      by (cases "length (next_line a) < length a") (simp_all add: last_drop)
    with 1(1) False have ih: "log_lines (?d @ b) = log_lines ?d @ log_lines b" by blast
    have "drop (length (next_line a)) (a @ b) = ?d @ b" using next_line_length [of a] by simp
    then show ?thesis
      using False ih next_line_append [OF l(2), of b]
      by (subst log_lines.simps, subst (2) log_lines.simps) simp
  qed simp
qed

section \<open>A log line closes what came before\<close>

definition starts_entry :: "('v, 'm) Env \<Rightarrow> string \<Rightarrow> bool" where
  "starts_entry E s \<longleftrightarrow> log_line_captures E (trim_end (decode_line (next_line s))) \<noteq> None"

lemma entry_line_resets:
  assumes "log_line_captures E (trim_end l) \<noteq> None" and "agreed_line E l"
  shows "\<exists>s'. \<forall>s. process_line E l None s = (s', Inr (finalize_plan E s))"
proof -
  obtain ts msg where c: "log_line_captures E (trim_end l) = Some (ts, msg)" using assms(1) by auto
  show ?thesis
  proof (cases "parse_duration_from_line (duration_capture E) msg")
    case None
    then show ?thesis using c by (auto simp: process_line_def finish_state_def)
  next
    case (Some d)
    then obtain t where "parse_timestamp (parse_naive E) ts = Some t"
      using assms(2) c by (auto simp: agreed_line_def)
    with c Some show ?thesis by (auto simp: process_line_def reset_with_builder_def)
  qed
qed

text \<open>The plans a text yields on its own.\<close>

definition text_plans :: "('v, 'm) Env \<Rightarrow> string \<Rightarrow> QueryPlan list" where
  "text_plans E s =
     (let (st, ps) = run_lines E SNone (map decode_line (log_lines s)) in ps @ plan_of (finalize_plan E st))"

lemma text_plans_append:
  assumes "a = [] \<or> last a = line_feed" and "b \<noteq> []" and "starts_entry E b"
    and "agreed_line E (decode_line (next_line b))"
  shows "text_plans E (a @ b) = text_plans E a @ text_plans E b"
proof -
  obtain s' where h: "process_line E (decode_line (next_line b)) None s = (s', Inr (finalize_plan E s))" for s
    using entry_line_resets [of E "decode_line (next_line b)"] assms(3,4) unfolding starts_entry_def by metis
  have b: "log_lines b = next_line b # log_lines (drop (length (next_line b)) b)"
    using assms(2) by (subst log_lines.simps) simp
  obtain s1 ps where a: "run_lines E SNone (map decode_line (log_lines a)) = (s1, ps)" by fastforce
  obtain s2 qs where r: "run_lines E s' (map decode_line (log_lines (drop (length (next_line b)) b))) = (s2, qs)"
    by fastforce
  have "finalize_plan E SNone = None" by simp
  then show ?thesis
    unfolding text_plans_def log_lines_append [OF assms(1)] map_append run_lines_append a b
    by (simp add: h r plan_of_def split: option.split)
qed

lemma parse_string_text_plans:
  assumes "plain_parser P" and "0 < max_line_bytes P" and "int (length s) \<le> max_entry_bytes P"
    and "\<forall>l \<in> set (log_lines s). int (length l) \<le> max_line_bytes P \<and> agreed_line (env P) (decode_line l)"
  shows "parse_string_with_progress P s = Inr (text_plans (env P) s)"
proof -
  have "parse_with_progress P (cursor s) (int (length s)) =
    (let (s, ps) = run_lines (env P) SNone (map decode_line (log_lines s))
     in Inr (ps @ plan_of (finalize_plan (env P) s)))"
    using parse_plain_lines [of "cursor s" P "log_lines s"] assms by (simp add: cursor_def)
  then show ?thesis
    by (simp add: parse_string_with_progress_def text_plans_def case_prod_unfold Let_def)
qed

text \<open>A sequence of pieces.\<close>

fun pieces_ok :: "('v, 'm) Env \<Rightarrow> string list \<Rightarrow> bool" where
  "pieces_ok E [] = True"
| "pieces_ok E (p # ps) \<longleftrightarrow>
     (ps = [] \<or> (p \<noteq> [] \<and> last p = line_feed \<and> hd ps \<noteq> [] \<and> starts_entry E (hd ps))) \<and> pieces_ok E ps"

lemma next_line_concat:
  assumes "pieces_ok E (p # ps)" and "p \<noteq> []"
  shows "next_line (concat (p # ps)) = next_line p"
proof (cases "ps = []")
  case False
  then have "line_feed \<in> set p" using assms last_in_set [OF assms(2)] by auto
  then show ?thesis by (simp add: next_line_append)
qed simp

lemma text_plans_concat:
  "pieces_ok E ps \<Longrightarrow> \<forall>l \<in> set (log_lines (concat ps)). agreed_line E (decode_line l) \<Longrightarrow>
     text_plans E (concat ps) = concat (map (text_plans E) ps)"
proof (induction ps)
  case Nil
  then show ?case by (simp add: text_plans_def plan_of_def)
next
  case (Cons p ps)
  show ?case
  proof (cases ps)
    case Nil
    then show ?thesis by simp
  next
    case (Cons q qs)
    let ?b = "concat ps"
    have p: "last p = line_feed" "q \<noteq> []" "starts_entry E q" "pieces_ok E (q # qs)"
      using Cons.prems(1) Cons by auto
    have n: "next_line ?b = next_line q" using next_line_concat [OF p(4,2)] Cons by simp
    have l: "log_lines (concat (p # ps)) = log_lines p @ log_lines ?b"
      using log_lines_append [of p ?b] p(1) by simp
    have b: "?b \<noteq> []" using p(2) Cons by simp
    then have "next_line ?b \<in> set (log_lines ?b)" by (subst log_lines.simps) simp
    then have "agreed_line E (decode_line (next_line ?b))" using Cons.prems(2) l by simp
    moreover have "starts_entry E ?b" using p(3) n by (simp add: starts_entry_def)
    ultimately have "text_plans E (p @ ?b) = text_plans E p @ text_plans E ?b"
      using text_plans_append [of p ?b E] p(1) b by blast
    then show ?thesis using Cons.IH Cons.prems l by simp
  qed
qed

section \<open>Property\<close>

text \<open>C39: a log may be read in pieces: when every piece but the last ends with a line feed and every
  piece but the first begins with a log line, parsing the pieces one by one gives, in order, the
  plans of parsing the whole, for any number of pieces (on lines that are not cut and that both
  recognisers agree on, without database attribution, the whole within the entry cap).\<close>

theorem pieces_parse_as_whole:
  assumes "plain_parser P" and "0 < max_line_bytes P" and "int (length (concat ps)) \<le> max_entry_bytes P"
    and "\<forall>l \<in> set (log_lines (concat ps)). int (length l) \<le> max_line_bytes P \<and> agreed_line (env P) (decode_line l)"
    and "pieces_ok (env P) ps"
  shows "parse_string_with_progress P (concat ps) = Inr (concat (map (text_plans (env P)) ps)) \<and>
    map (parse_string_with_progress P) ps = map (\<lambda>p. Inr (text_plans (env P) p)) ps"
proof
  show "parse_string_with_progress P (concat ps) = Inr (concat (map (text_plans (env P)) ps))"
    using parse_string_text_plans [OF assms(1-4)] text_plans_concat [OF assms(5)] assms(4) by simp
  have "pieces_ok E ps \<Longrightarrow> p \<in> set ps \<Longrightarrow> set (log_lines p) \<subseteq> set (log_lines (concat ps))" for E :: "('a, 'b) Env" and p
  proof (induction ps)
    case (Cons q qs)
    then have "log_lines (concat (q # qs)) = log_lines q @ log_lines (concat qs)"
      using log_lines_append [of q "concat qs"] by auto
    then show ?case using Cons by auto
  qed simp
  from this [OF assms(5)] have lines: "p \<in> set ps \<Longrightarrow> set (log_lines p) \<subseteq> set (log_lines (concat ps))" for p .
  have "parse_string_with_progress P p = Inr (text_plans (env P) p)" if "p \<in> set ps" for p
  proof (rule parse_string_text_plans [OF assms(1,2)])
    have "length p \<le> length (concat ps)" using that by (induction ps) auto
    then show "int (length p) \<le> max_entry_bytes P" using assms(3) by simp
  qed (use lines [OF that] assms(4) in blast)
  then show "map (parse_string_with_progress P) ps = map (\<lambda>p. Inr (text_plans (env P) p)) ps" by simp
qed

theorem pieces_parse_as_whole_witness:
  "parse_string_with_progress (sample_parser 80) (concat [sample_entry, sample_entry]) =
     Inr (text_plans sample_env sample_entry @ text_plans sample_env sample_entry)"
proof -
  have l: "log_lines (concat [sample_entry, sample_entry]) =
      [sample_header, sample_query, sample_plan_line, sample_header, sample_query, sample_plan_line]"
    by (simp add: sample_log_lines)
  have e: "next_line sample_entry = sample_header" "last sample_entry = line_feed" "sample_entry \<noteq> []"
    by code_simp+
  have "pieces_ok sample_env [sample_entry, sample_entry]"
    using e sample_lines(1) by (auto simp: starts_entry_def sample_decode is_header_def split: option.splits)
  then show ?thesis
    using pieces_parse_as_whole [of "sample_parser 80" "[sample_entry, sample_entry]"] sample_agreed
    unfolding l by (simp add: sample_parser_simps sample_decode sample_entry_length)
qed

end
