(* ===== verification/Tail.thy ===== *)
theory Tail
  imports Chunks
begin

text \<open>
  How far into newly appended bytes it is safe to parse: \<open>last_entry_boundary\<close> of the exporter's
  \<open>collector.rs\<close> and \<open>last_complete_boundary\<close> of the extension's \<open>bgworker.rs\<close>. Both scan raw bytes for
  the start of the last entry, and both are read by a loop that comes back for the rest; what that
  loop relies on is the locale \<open>tailer\<close>.
\<close>

section \<open>The contract\<close>

text \<open>A cut is after a line feed and before a line that starts an entry; being such a line depends
  on a prefix of it only, so that a line still being written stays one.\<close>

locale tailer =
  fixes boundary :: "string \<Rightarrow> nat" and header :: "string \<Rightarrow> bool"
  assumes cut_inside: "0 < boundary s \<Longrightarrow> boundary s < length s"
    and cut_line: "0 < boundary s \<Longrightarrow> last (take (boundary s) s) = line_feed"
    and cut_header: "0 < boundary s \<Longrightarrow> header (next_line (drop (boundary s) s))"
    and header_extends: "header l \<Longrightarrow> header (l @ m)"
begin

text \<open>Reading cycles: each sees the file as it is then and reads up to \<open>e\<close>. The position after them,
  and the pieces handed to the parser.\<close>

fun tail_cycles :: "nat \<Rightarrow> (string \<times> nat) list \<Rightarrow> nat \<times> string list" where
  "tail_cycles pos [] = (pos, [])"
| "tail_cycles pos ((s, e) # cs) =
     (let w = slice s pos e; b = boundary w
      in if b = 0 then tail_cycles pos cs
         else (let (p, ps) = tail_cycles (pos + b) cs in (p, take b w # ps)))"

text \<open>A file that only grows, read within its size.\<close>

fun growing :: "string \<Rightarrow> nat \<Rightarrow> (string \<times> nat) list \<Rightarrow> bool" where
  "growing f pos [] = True"
| "growing f pos ((s, e) # cs) \<longleftrightarrow> starts_with f s \<and> e \<le> length s \<and> growing f pos cs"

lemma header_next_line: "header (next_line l) \<Longrightarrow> header (next_line (l @ m))"
proof (cases "line_feed \<in> set l")
  case True
  then show "header (next_line l) \<Longrightarrow> header (next_line (l @ m))" by (simp add: next_line_append)
next
  case False
  then have "next_line l = l" by (rule next_line_all)
  moreover have "takeWhile (\<lambda>c. c \<noteq> line_feed) (l @ m) = l @ takeWhile (\<lambda>c. c \<noteq> line_feed) m"
    using False by (intro takeWhile_append2) auto
  then have "\<exists>k. next_line (l @ m) = l @ k" by (simp add: next_line_def)
  ultimately show "header (next_line l) \<Longrightarrow> header (next_line (l @ m))"
    using header_extends by metis
qed

text \<open>The first cut of a cycle.\<close>

lemma cycle_cut:
  assumes "starts_with f s" and "e \<le> length s" and "0 < boundary (slice s pos e)"
  shows "slice f pos (pos + boundary (slice s pos e)) = take (boundary (slice s pos e)) (slice s pos e)"
    and "pos + boundary (slice s pos e) < length f"
    and "header (next_line (drop (pos + boundary (slice s pos e)) f))"
proof -
  let ?w = "slice s pos e" and ?b = "boundary (slice s pos e)"
  obtain r where f: "f = s @ r" using assms(1) by (auto simp: starts_with_iff)
  have b: "?b < length ?w" by (rule cut_inside [OF assms(3)])
  then have pe: "pos + ?b < e" using assms(2) by (auto simp: slice_def)
  then show l: "pos + ?b < length f" using assms(2) f by simp
  have "slice f pos (pos + ?b) = take ?b (drop pos s)" using pe assms(2) by (simp add: slice_def f)
  also have "\<dots> = take ?b ?w" using pe by (simp add: slice_def min_def)
  finally show "slice f pos (pos + ?b) = take ?b ?w" .
  have "drop ?b ?w = take (e - pos - ?b) (drop (pos + ?b) s)" by (simp add: slice_def drop_take add.commute)
  moreover have "drop (pos + ?b) f = drop (pos + ?b) s @ r" using pe assms(2) by (simp add: f)
  ultimately have "drop (pos + ?b) f = drop ?b ?w @ (drop (e - pos - ?b) (drop (pos + ?b) s) @ r)"
    by (metis append.assoc append_take_drop_id)
  then show "header (next_line (drop (pos + ?b) f))"
    using header_next_line [OF cut_header [OF assms(3)]] by metis
qed

lemma tail_cycles_pieces:
  "growing f pos cs \<Longrightarrow> pos \<le> length f \<Longrightarrow> tail_cycles pos cs = (p, ps) \<Longrightarrow>
     pos \<le> p \<and> p \<le> length f \<and> concat ps = slice f pos p \<and> list_all (\<lambda>x. x \<noteq> [] \<and> last x = line_feed) ps \<and>
     (ps \<noteq> [] \<longrightarrow> header (next_line (drop p f)) \<and> p < length f) \<and>
     list_all (\<lambda>x. header (next_line x)) (tl ps)"
proof (induction cs arbitrary: pos p ps)
  case Nil
  then show ?case by simp
next
  case (Cons c cs)
  obtain s e where c: "c = (s, e)" by (cases c)
  let ?w = "slice s pos e" and ?b = "boundary (slice s pos e)"
  have g: "starts_with f s" "e \<le> length s" "growing f pos' cs" for pos'
  proof -
    have "growing f pos' cs = growing f pos cs" by (induction cs) auto
    then show "starts_with f s" "e \<le> length s" "growing f pos' cs" using Cons.prems(1) by (simp_all add: c)
  qed
  show ?case
  proof (cases "?b = 0")
    case True
    then show ?thesis using Cons.IH [OF g(3) Cons.prems(2)] Cons.prems(3) by (simp add: c)
  next
    case False
    then have b: "0 < ?b" by simp
    note cut = cycle_cut [OF g(1,2) b]
    obtain ps' where ps: "tail_cycles (pos + ?b) cs = (p, ps')" "ps = take ?b ?w # ps'"
      using Cons.prems(3) False by (auto simp: c Let_def split: prod.splits)
    have ih: "pos + ?b \<le> p" "p \<le> length f" "concat ps' = slice f (pos + ?b) p"
      "list_all (\<lambda>x. x \<noteq> [] \<and> last x = line_feed) ps'"
      "ps' \<noteq> [] \<longrightarrow> header (next_line (drop p f)) \<and> p < length f"
      "list_all (\<lambda>x. header (next_line x)) (tl ps')"
      using Cons.IH [OF g(3) less_imp_le [OF cut(2)] ps(1)] by blast+
    have "tail_cycles (pos + ?b) cs = (pos + ?b, []) \<or> ps' \<noteq> []"
    proof (cases "ps' = []")
      case True
      have "tail_cycles q cs = (p, []) \<Longrightarrow> p = q" for q
        by (induction q cs rule: tail_cycles.induct) (auto simp: Let_def split: if_splits prod.splits)
      with ps(1) True show ?thesis by blast
    qed simp
    then have "header (next_line (drop p f)) \<and> p < length f" using ih(5) cut(2,3) ps(1) by auto
    moreover have "take ?b ?w \<noteq> []" using cut_inside [OF b] b by auto
    moreover have "slice f pos (pos + ?b) @ slice f (pos + ?b) p = slice f pos p"
      using ih(1) by (intro slice_append) simp_all
    moreover have "list_all (\<lambda>x. header (next_line x)) ps'"
    proof (cases ps')
      case (Cons x xs)
      have "drop (pos + ?b) f = slice f (pos + ?b) p @ drop p f"
        using ih(1) by (simp add: slice_def) (metis append_take_drop_id drop_drop le_add_diff_inverse2)
      also have "\<dots> = x @ (concat xs @ drop p f)" using ih(3) by (simp add: Cons)
      finally have d: "drop (pos + ?b) f = x @ (concat xs @ drop p f)" .
      have "line_feed \<in> set x" using ih(4) last_in_set [of x] by (auto simp: Cons)
      then have "next_line (drop (pos + ?b) f) = next_line x" unfolding d by (rule next_line_append)
      with cut(3) ih(6) show ?thesis by (simp add: Cons)
    qed simp
    ultimately show ?thesis
      using ih cut(1) cut_line [OF b] by (simp add: ps(2))
  qed
qed

text \<open>So the pieces, with what is still unread, are a division the parser cannot tell from the whole.\<close>

lemma tail_pieces_ok:
  assumes "growing f 0 cs" and "tail_cycles 0 cs = (p, ps)"
    and "\<forall>l. header l \<longrightarrow> l \<in> set (log_lines f) \<longrightarrow> log_line_captures E (trim_end (decode_line l)) \<noteq> None"
  shows "concat (ps @ [drop p f]) = f \<and> pieces_ok E (ps @ [drop p f]) \<and> concat ps = take p f"
proof -
  note t = tail_cycles_pieces [OF assms(1) _ assms(2), simplified]
  have c: "concat ps = take p f" using t by (simp add: slice_def)
  have ok: "pieces_ok E (qs @ [r])"
    if "set (log_lines (concat (qs @ [r]))) \<subseteq> set (log_lines f)" "list_all (\<lambda>x. x \<noteq> [] \<and> last x = line_feed) qs"
      "list_all (\<lambda>x. header (next_line x)) (tl qs)" "qs \<noteq> [] \<longrightarrow> header (next_line r) \<and> r \<noteq> []" for qs r
    using that
  proof (induction qs)
    case (Cons q qs)
    let ?h = "hd (qs @ [r])"
    have h: "?h \<noteq> []" "header (next_line ?h)" using Cons.prems by (cases qs; simp)+
    have l: "log_lines (concat (q # qs @ [r])) = log_lines q @ log_lines (concat (qs @ [r]))"
      using log_lines_append [of q "concat (qs @ [r])"] Cons.prems(2) by simp
    have ih: "pieces_ok E (qs @ [r])"
    proof (rule Cons.IH)
      show "list_all (\<lambda>x. header (next_line x)) (tl qs)" using Cons.prems(3) by (cases qs) simp_all
    qed (use Cons.prems l in auto)
    obtain rest where rest: "qs @ [r] = ?h # rest" by (cases "qs @ [r]") auto
    have "next_line (concat (qs @ [r])) = next_line ?h"
      using next_line_concat [of E ?h rest] ih h(1) rest by metis
    moreover have "concat (qs @ [r]) \<noteq> []" using h(1) by (subst rest) simp
    then have "next_line (concat (qs @ [r])) \<in> set (log_lines (concat (qs @ [r])))"
      by (subst log_lines.simps) simp
    ultimately have "next_line ?h \<in> set (log_lines f)" using Cons.prems(1) l by auto
    with assms(3) h(2) have "starts_entry E ?h" by (simp add: starts_entry_def)
    then show ?case using Cons.prems(2) h(1) ih by simp
  qed simp
  have "pieces_ok E (ps @ [drop p f])"
  proof (rule ok)
    show "set (log_lines (concat (ps @ [drop p f]))) \<subseteq> set (log_lines f)" by (simp add: c)
  qed (use t in auto)
  then show ?thesis using c by simp
qed

end

section \<open>Lines of a prefix\<close>

lemma log_lines_split:
  "log_lines s = xs @ y # ys \<Longrightarrow> \<exists>t. s = concat xs @ t \<and> t \<noteq> [] \<and> next_line t = y \<and>
     (xs \<noteq> [] \<longrightarrow> last (concat xs) = line_feed \<and> concat xs \<noteq> [])"
proof (induction xs arbitrary: s)
  case Nil
  then have "s \<noteq> []" by auto
  then have "log_lines s = next_line s # log_lines (drop (length (next_line s)) s)"
    by (subst log_lines.simps) simp
  with Nil \<open>s \<noteq> []\<close> show ?case by simp
next
  case (Cons x xs)
  then have ne: "s \<noteq> []" by auto
  then have l: "log_lines s = next_line s # log_lines (drop (length (next_line s)) s)"
    by (subst log_lines.simps) simp
  then have "next_line s # log_lines (drop (length (next_line s)) s) = x # (xs @ y # ys)"
    using Cons.prems by simp
  then have x: "x = next_line s" "log_lines (drop (length (next_line s)) s) = xs @ y # ys"
    by blast+
  from Cons.IH [OF x(2)] obtain t where t: "drop (length (next_line s)) s = concat xs @ t" "t \<noteq> []"
    "next_line t = y" "xs \<noteq> [] \<longrightarrow> last (concat xs) = line_feed \<and> concat xs \<noteq> []" by blast
  have "drop (length (next_line s)) s \<noteq> []" using t(1,2) by simp
  then have lf: "line_feed \<in> set s" using next_line_all [of s] by fastforce
  then have "last x = line_feed \<and> x \<noteq> []" by (simp add: x(1) next_line_def)
  moreover have "s = x @ concat xs @ t"
    using next_line_prefix [of s] t(1) unfolding x(1) by (metis append_eq_conv_conj)
  ultimately show ?case using t by (cases "xs = []") (auto simp: last_append)
qed

section \<open>Cutting text at line feeds\<close>

lemma utf8_unit_of_high:
  assumes "utf8_unit_of b0 b1 b2 b3 = (True, n)" and "1 < n"
  shows "128 \<le> b0" and "128 \<le> b1" and "2 < n \<Longrightarrow> 128 \<le> b2" and "3 < n \<Longrightarrow> 128 \<le> b3"
  using assms by (auto simp: utf8_unit_of_def second_of_3_def second_of_4_def continuation_def in_range_def
      split: if_split_asm)

lemma utf8_unit_high:
  assumes "utf8_unit s = (True, n)" and "1 < n" and "i < n"
  shows "128 \<le> byte_at s i"
proof -
  note u = assms(1) [unfolded utf8_unit_def]
  have "n \<in> {1, 2, 3, 4}" by (rule utf8_unit_of_uses(1) [OF u])
  then have "i = 0 \<or> i = 1 \<or> i = 2 \<or> i = 3" using assms(3) by auto
  then show ?thesis using utf8_unit_of_high [OF u assms(2)] assms(3) by auto
qed

lemma utf8_valid_cut:
  "utf8_valid (a @ b) \<Longrightarrow> a = [] \<or> last a = line_feed \<Longrightarrow> utf8_valid a \<and> utf8_valid b"
proof (induction "length a" arbitrary: a rule: less_induct)
  case less
  show ?case
  proof (cases "a = []")
    case True
    with less.prems(1) show ?thesis by (simp add: utf8_valid.simps)
  next
    case False
    let ?s = "a @ b" and ?n = "utf8_len (a @ b)"
    have u: "utf8_unit ?s = (True, ?n)" and rest: "utf8_valid (drop ?n ?s)"
      using less.prems(1) False by (subst (asm) utf8_valid.simps; simp add: utf8_len_def prod_eq_iff)+
    have n: "?n \<le> length a"
    proof (rule ccontr)
      assume "\<not> ?n \<le> length a"
      then have i: "length a - 1 < ?n" "1 < ?n" using False by (auto simp: Suc_le_eq neq_Nil_conv)
      have "length a - 1 < length ?s" using False by (cases a) simp_all
      then have "byte_at ?s (length a - 1) = code line_feed"
        using False less.prems(2) by (simp add: byte_at_def nth_append last_conv_nth)
      also have "\<dots> = 10" by (simp add: line_feed_def code_def)
      finally show False using utf8_unit_high [OF u i(2,1)] by simp
    qed
    have a: "utf8_unit a = (True, ?n)"
      using utf8_unit_valid(2) [OF u, of "drop ?n a"] False n by simp
    have "drop ?n a = [] \<or> last (drop ?n a) = line_feed"
      using less.prems(2) False by (cases "?n < length a") (simp_all add: last_drop)
    moreover have "length (drop ?n a) < length a" using False utf8_len_pos [of ?s] by (simp del: length_drop add: length_drop)
    moreover have "utf8_valid (drop ?n a @ b)" using rest n by simp
    ultimately have "utf8_valid (drop ?n a) \<and> utf8_valid b" using less.hyps by blast
    then show ?thesis using a False by (subst utf8_valid.simps) (simp add: utf8_len_def)
  qed
qed

lemma trim_keeps:
  assumes "c \<in> set s" and "\<forall>u \<in> set ws_units. c \<notin> set u"
  shows "c \<in> set (trim s)"
proof -
  have "c \<in> set (trim_start s)" unfolding trim_start_def by (rule trim_units_keeps [OF assms])
  then have "c \<in> set (trim_units (map rev ws_units) (rev (trim_start s)))"
    by (intro trim_units_keeps) (use assms(2) in auto)
  then show ?thesis by (simp add: trim_def trim_end_def)
qed

section \<open>The boundary scans\<close>

text \<open>The offset of the last line with a property.\<close>

fun last_start :: "(string \<Rightarrow> bool) \<Rightarrow> nat \<Rightarrow> nat option \<Rightarrow> string list \<Rightarrow> nat option" where
  "last_start H offset found [] = found"
| "last_start H offset found (l # ls) =
     last_start H (offset + length l) (if H l then Some offset else found) ls"

lemma last_start_Some:
  "last_start H offset found ls = Some b \<Longrightarrow>
     (found = Some b \<and> filter H ls = []) \<or>
     (\<exists>xs y ys. ls = xs @ y # ys \<and> H y \<and> b = offset + length (concat xs) \<and> filter H ys = [])"
proof (induction ls arbitrary: offset found)
  case (Cons l ls)
  from Cons.IH [of "offset + length l" "if H l then Some offset else found"] Cons.prems
  consider "(if H l then Some offset else found) = Some b" "filter H ls = []"
    | xs y ys where "ls = xs @ y # ys" "H y" "b = offset + length l + length (concat xs)" "filter H ys = []" by auto
  then show ?case
  proof cases
    case 1
    then show ?thesis by (cases "H l") (auto intro: exI [of _ "[]"])
  next
    case 2
    then have "l # ls = (l # xs) @ y # ys \<and> H y \<and> b = offset + length (concat (l # xs)) \<and> filter H ys = []" by simp
    then show ?thesis by blast
  qed
qed simp

lemma last_start_cut:
  assumes "last_start H 0 None (log_lines s) = Some b" and "0 < b"
  shows "b < length s" and "last (take b s) = line_feed" and "H (next_line (drop b s))"
proof -
  from last_start_Some [OF assms(1)] obtain xs y ys where
    x: "log_lines s = xs @ y # ys" "H y" "b = length (concat xs)" by auto
  from log_lines_split [OF x(1)] obtain t where t: "s = concat xs @ t" "t \<noteq> []" "next_line t = y"
    "xs \<noteq> [] \<longrightarrow> last (concat xs) = line_feed \<and> concat xs \<noteq> []" by blast
  have "xs \<noteq> []" using assms(2) x(3) by auto
  with t x show "b < length s" "last (take b s) = line_feed" "H (next_line (drop b s))" by simp_all
qed

definition is_timestamped_line :: "('v, 'm) Simd \<Rightarrow> string \<Rightarrow> bool" where
  "is_timestamped_line S line = is_log_line_start S (bytes line)"

text \<open>The exporter: the start of the last complete timestamped line.\<close>

definition last_entry_boundary :: "('v, 'm) Simd \<Rightarrow> string \<Rightarrow> nat option" where
  "last_entry_boundary S s =
     last_start (\<lambda>line. line \<noteq> [] \<and> last line = line_feed \<and> is_timestamped_line S line) 0 None (log_lines s)"

text \<open>The worker: the start of the last plan header, when there are two.\<close>

definition is_entry_header :: "('v, 'm) Simd \<Rightarrow> string \<Rightarrow> bool" where
  "is_entry_header S line \<longleftrightarrow>
     is_log_line_start S (bytes line) \<and> contains_sub line ''duration:'' \<and> contains_sub line ''plan:''"

definition header_step :: "('v, 'm) Simd \<Rightarrow> nat option \<times> nat \<times> nat \<Rightarrow> string \<Rightarrow> nat option \<times> nat \<times> nat" where
  "header_step S st line =
     (let (last_header, header_count, pos) = st
      in if is_entry_header S line then (Some pos, header_count + 1, pos + length line)
         else (last_header, header_count, pos + length line))"

definition last_complete_boundary :: "('v, 'm) Simd \<Rightarrow> string \<Rightarrow> nat" where
  "last_complete_boundary S s =
     (let (last_header, header_count, _) = foldl (header_step S) (None, 0, 0) (log_lines s)
      in if header_count < 2 then 0 else (case last_header of Some p \<Rightarrow> p | None \<Rightarrow> 0))"

lemma header_steps:
  "foldl (header_step S) (found, n, pos) ls =
     (last_start (is_entry_header S) pos found ls, n + length (filter (is_entry_header S) ls),
      pos + length (concat ls))"
  by (induction ls arbitrary: found n pos) (simp_all add: header_step_def)

lemma last_complete_boundary_eq:
  "last_complete_boundary S s =
     (if length (filter (is_entry_header S) (log_lines s)) < 2 then 0
      else (case last_start (is_entry_header S) 0 None (log_lines s) of Some p \<Rightarrow> p | None \<Rightarrow> 0))"
  by (simp add: last_complete_boundary_def header_steps)

text \<open>What the worker takes holds a header itself.\<close>

lemma last_complete_boundary_header:
  assumes "0 < last_complete_boundary S s"
  shows "\<exists>l. is_entry_header S l \<and> set l \<subseteq> set (take (last_complete_boundary S s) s)"
proof -
  let ?b = "last_complete_boundary S s"
  have b: "last_start (is_entry_header S) 0 None (log_lines s) = Some ?b"
    "\<not> length (filter (is_entry_header S) (log_lines s)) < 2"
    using assms by (auto simp: last_complete_boundary_eq split: if_splits option.splits)
  from last_start_Some [OF b(1)] obtain xs y ys where x: "log_lines s = xs @ y # ys"
    "?b = length (concat xs)" "filter (is_entry_header S) ys = []" by auto
  have "length (filter (is_entry_header S) (y # ys)) \<le> 1" using x(3) by simp
  then have "filter (is_entry_header S) xs \<noteq> []" using b(2) x(1) by auto
  then obtain l where l: "l \<in> set xs" "is_entry_header S l" by (auto simp: filter_empty_conv)
  from log_lines_split [OF x(1)] obtain t where "s = concat xs @ t" by blast
  then have "take ?b s = concat xs" using x(2) by simp
  with l show ?thesis by auto
qed

text \<open>A log line start is recognised in its first bytes.\<close>

lemma log_line_start_extends:
  assumes "is_log_line_start lane_simd a"
  shows "is_log_line_start lane_simd (a @ b)"
  using assms by (auto simp: is_log_line_start_def fallback.timestamp_core_simd_eq timestamp_core_scalar_eq
      split: if_splits)

lemma contains_sub_append: "contains_sub a p \<Longrightarrow> contains_sub (a @ b) p"
  unfolding contains_sub_iff by (metis append.assoc)

interpretation exporter: tailer
  "\<lambda>s. case last_entry_boundary lane_simd s of Some b \<Rightarrow> b | None \<Rightarrow> 0" "is_timestamped_line lane_simd"
proof unfold_locales
  fix s
  let ?H = "\<lambda>line. line \<noteq> [] \<and> last line = line_feed \<and> is_timestamped_line lane_simd line"
  assume "0 < (case last_entry_boundary lane_simd s of Some b \<Rightarrow> b | None \<Rightarrow> 0)"
  then obtain b where b: "last_entry_boundary lane_simd s = Some b" "0 < b" by (auto split: option.splits)
  note c = last_start_cut [OF b(1) [unfolded last_entry_boundary_def] b(2)]
  show "(case last_entry_boundary lane_simd s of Some b \<Rightarrow> b | None \<Rightarrow> 0) < length s"
    "last (take (case last_entry_boundary lane_simd s of Some b \<Rightarrow> b | None \<Rightarrow> 0) s) = line_feed"
    "is_timestamped_line lane_simd (next_line (drop (case last_entry_boundary lane_simd s of Some b \<Rightarrow> b | None \<Rightarrow> 0) s))"
    using c b(1) by simp_all
qed (simp add: is_timestamped_line_def bytes_def log_line_start_extends)

interpretation worker: tailer "last_complete_boundary lane_simd" "is_entry_header lane_simd"
proof unfold_locales
  fix s
  assume "0 < last_complete_boundary lane_simd s"
  then obtain b where b: "last_start (is_entry_header lane_simd) 0 None (log_lines s) = Some b" "0 < b"
    "last_complete_boundary lane_simd s = b"
    by (auto simp: last_complete_boundary_eq split: if_splits option.splits)
  note c = last_start_cut [OF b(1,2)]
  show "last_complete_boundary lane_simd s < length s"
    "last (take (last_complete_boundary lane_simd s) s) = line_feed"
    "is_entry_header lane_simd (next_line (drop (last_complete_boundary lane_simd s) s))"
    using c b(3) by simp_all
next
  fix l m
  assume "is_entry_header lane_simd l"
  then show "is_entry_header lane_simd (l @ m)"
    by (simp add: is_entry_header_def bytes_def log_line_start_extends contains_sub_append)
qed

section \<open>A sample log\<close>

definition sample_plan_header :: string where
  "sample_plan_header = ''2024-01-01 00:00:00 duration:plan:'' @ newline"

lemma sample_plan_header_simps:
  "length sample_plan_header = 35" "trim_end sample_plan_header = ''2024-01-01 00:00:00 duration:plan:''"
  "utf8_valid sample_plan_header" "decode_line sample_plan_header = sample_plan_header"
  "log_lines (sample_plan_header @ sample_plan_header) = [sample_plan_header, sample_plan_header]"
  "is_entry_header lane_simd sample_plan_header"
  by code_simp+

lemma sample_plan_header_split:
  "split_log_line lane_simd f ''2024-01-01 00:00:00 duration:plan:'' = Some (''2024-01-01 00:00:00'', '' duration:plan:'')"
  by code_simp

lemma sample_plan_header_agreed:
  "log_line_captures sample_env (trim_end sample_plan_header) \<noteq> None" "agreed_line sample_env sample_plan_header"
  by (simp_all add: agreed_line_def sample_plan_header_simps sample_plan_header_split sample_env_simps sample_times)

lemma sample_plan_header_other: "is_other_entry sample_env sample_plan_header"
proof -
  have "parse_duration_from_line (strip_prefix ''D'') '' duration:plan:'' = None" by code_simp
  then show ?thesis
    by (simp add: is_other_entry_def sample_plan_header_simps sample_plan_header_split sample_env_simps)
qed

lemma sample_no_plans: "text_plans sample_env (sample_plan_header @ sample_plan_header) = []"
  by (simp add: text_plans_def sample_plan_header_simps process_other_entry [OF sample_plan_header_other] plan_of_def)

end
