(* ===== verification/Cuts.thy ===== *)
theory Cuts
  imports Tail
begin

text \<open>
  Logs cut at entry starts. Both readers of a growing log, the exporter's collector and the extension's
  worker, stop where an entry begins; a text between two such cuts yields on its own the plans it
  contributes to the whole.
\<close>

text \<open>A log the parser reads as the scan for \<open>header\<close> lines does.\<close>

definition readable_text :: "('v, 'm) LogParser \<Rightarrow> (string \<Rightarrow> bool) \<Rightarrow> string \<Rightarrow> bool" where
  "readable_text P header f \<longleftrightarrow>
     plain_parser P \<and> 0 < max_line_bytes P \<and> int (length f) \<le> max_entry_bytes P \<and>
     list_all (\<lambda>l. int (length l) \<le> max_line_bytes P \<and> agreed_line (env P) (decode_line l) \<and>
       (header l \<longrightarrow> log_line_captures (env P) (trim_end (decode_line l)) \<noteq> None)) (log_lines f)"

text \<open>The start, the end, and every place where an entry begins.\<close>

definition entry_cut :: "(string \<Rightarrow> bool) \<Rightarrow> string \<Rightarrow> nat \<Rightarrow> bool" where
  "entry_cut header f p \<longleftrightarrow> p = 0 \<or> p = length f \<or>
     (p < length f \<and> last (take p f) = line_feed \<and> header (next_line (drop p f)))"

lemma text_plans_Nil [simp]: "text_plans E [] = []"
  by (simp add: text_plans_def plan_of_def)

lemma log_lines_cut:
  assumes "p = 0 \<or> length f \<le> p \<or> last (take p f) = line_feed"
  shows "log_lines f = log_lines (take p f) @ log_lines (drop p f)"
  using log_lines_append [of "take p f" "drop p f"] assms by auto

lemma take_slice: "p \<le> q \<Longrightarrow> take q f = take p f @ slice f p q"
  by (metis add_diff_inverse_nat not_le slice_def take_add)

text \<open>The lines of a text between two cuts are lines of the whole.\<close>

lemma log_lines_between:
  assumes "entry_cut H f p" and "entry_cut H f q" and "p \<le> q"
  shows "log_lines f = log_lines (take p f) @ log_lines (slice f p q) @ log_lines (drop q f)"
proof -
  have "log_lines f = log_lines (take q f) @ log_lines (drop q f)"
    using assms(2) by (intro log_lines_cut) (auto simp: entry_cut_def)
  moreover have "log_lines (take q f) = log_lines (take p f) @ log_lines (slice f p q)"
  proof -
    have "take p (take q f) = take p f" "drop p (take q f) = slice f p q"
      using assms(3) by (simp_all add: min_def slice_def drop_take)
    moreover have "p = 0 \<or> length (take q f) \<le> p \<or> last (take p (take q f)) = line_feed"
      using assms(1,3) by (auto simp: entry_cut_def min_def)
    ultimately show ?thesis using log_lines_cut [of p "take q f"] by simp
  qed
  ultimately show ?thesis by simp
qed

lemma text_between:
  assumes log: "readable_text P H f" and p: "entry_cut H f p" and q: "entry_cut H f q" and "p \<le> q" and "q \<le> length f"
  shows "text_plans (env P) (take q f) = text_plans (env P) (take p f) @ text_plans (env P) (slice f p q)"
    and "parse_string_with_progress P (slice f p q) = Inr (text_plans (env P) (slice f p q))"
proof -
  let ?E = "env P" and ?b = "slice f p q"
  have ok: "int (length l) \<le> max_line_bytes P \<and> agreed_line ?E (decode_line l) \<and>
      (H l \<longrightarrow> log_line_captures ?E (trim_end (decode_line l)) \<noteq> None)" if "l \<in> set (log_lines f)" for l
    using log that unfolding readable_text_def list_all_iff by blast
  have P: "plain_parser P" "0 < max_line_bytes P" "int (length f) \<le> max_entry_bytes P"
    using log by (simp_all add: readable_text_def)
  note lines = log_lines_between [OF p q \<open>p \<le> q\<close>]
  show "parse_string_with_progress P ?b = Inr (text_plans ?E ?b)"
  proof (rule parse_string_text_plans [OF P(1,2)])
    have "length ?b \<le> length f" by (simp add: slice_def)
    then show "int (length ?b) \<le> max_entry_bytes P" using P(3) by simp
    show "\<forall>l \<in> set (log_lines ?b). int (length l) \<le> max_line_bytes P \<and> agreed_line ?E (decode_line l)"
      using ok lines by auto
  qed
  show "text_plans ?E (take q f) = text_plans ?E (take p f) @ text_plans ?E ?b"
  proof (cases "p = 0 \<or> p = q")
    case True
    then show ?thesis by (auto simp: slice_def)
  next
    case False
    then have pq: "0 < p" "p < q" using \<open>p \<le> q\<close> by auto
    have h: "last (take p f) = line_feed" "H (next_line (drop p f))"
      using p pq \<open>q \<le> length f\<close> by (auto simp: entry_cut_def)
    have ne: "?b \<noteq> []" using pq \<open>q \<le> length f\<close> by (simp add: slice_def)
    have n: "next_line (drop p f) = next_line ?b"
    proof (cases "q = length f")
      case True
      then show ?thesis by (simp add: slice_def)
    next
      case False
      then have "last (take q f) = line_feed" using q pq by (auto simp: entry_cut_def)
      then have "line_feed \<in> set ?b" using ne last_in_set [OF ne] by (simp add: take_slice [OF \<open>p \<le> q\<close>])
      moreover have "drop p f = ?b @ drop q f"
        using pq by (simp add: slice_def) (metis append_take_drop_id drop_drop le_add_diff_inverse2 less_imp_le)
      ultimately show ?thesis by (simp add: next_line_append)
    qed
    have "next_line ?b \<in> set (log_lines ?b)" using ne by (subst log_lines.simps) simp
    then have "next_line ?b \<in> set (log_lines f)" using lines by simp
    from ok [OF this] h(2) have "agreed_line ?E (decode_line (next_line ?b))" "starts_entry ?E ?b"
      unfolding n by (simp_all add: starts_entry_def)
    then show ?thesis
      unfolding take_slice [OF \<open>p \<le> q\<close>] using text_plans_append [of "take p f" ?b ?E] h(1) ne by blast
  qed
qed

lemma text_between_subset:
  assumes "readable_text P H f" and "entry_cut H f p" and "entry_cut H f q" and "p \<le> q" and "q \<le> length f"
  shows "set (text_plans (env P) (slice f p q)) \<subseteq> set (text_plans (env P) f)"
    and "length (text_plans (env P) (slice f p q)) \<le> length (text_plans (env P) f)"
proof -
  have e: "entry_cut H f (length f)" by (simp add: entry_cut_def)
  have "text_plans (env P) f = text_plans (env P) (take p f) @ text_plans (env P) (slice f p q) @
      text_plans (env P) (slice f q (length f))"
    using text_between(1) [OF assms] text_between(1) [OF assms(1,3) e assms(5) order_refl] by simp
  then show "set (text_plans (env P) (slice f p q)) \<subseteq> set (text_plans (env P) f)"
    "length (text_plans (env P) (slice f p q)) \<le> length (text_plans (env P) f)" by auto
qed

text \<open>A cut in the window of a scan is one of the whole log.\<close>

context tailer begin

lemma window_cut:
  assumes "starts_with f s" and "e \<le> length s" and b: "0 < boundary (slice s p e)"
  defines "q \<equiv> p + boundary (slice s p e)"
  shows "entry_cut header f q" and "q < length f" and "slice f p q = take (boundary (slice s p e)) (slice s p e)"
proof -
  note cut = cycle_cut [OF assms(1,2) b]
  show q: "q < length f" "slice f p q = take (boundary (slice s p e)) (slice s p e)"
    unfolding q_def using cut by simp_all
  have "take (boundary (slice s p e)) (slice s p e) \<noteq> []" using cut_inside [OF b] b by auto
  then have "last (take q f) = line_feed"
    using cut_line [OF b] q(2) take_slice [of p q f] unfolding q_def by simp
  then show "entry_cut header f q" using q(1) cut(3) by (simp add: entry_cut_def q_def)
qed

end

section \<open>Where scans stop\<close>

lemma last_start_keeps: "\<exists>b. last_start H offset (Some a) ls = Some b \<and> (b = a \<or> offset \<le> b)"
proof (induction ls arbitrary: a offset)
  case (Cons l ls)
  from Cons.IH [of "offset + length l" "if H l then offset else a"] show ?case
    by (auto split: if_splits)
qed simp

lemma last_start_two:
  "2 \<le> length (filter H ls) \<Longrightarrow> list_all (\<lambda>l. l \<noteq> []) ls \<Longrightarrow>
     \<exists>b. last_start H offset found ls = Some b \<and> offset < b"
proof (induction ls arbitrary: offset found)
  case (Cons l ls)
  show ?case
  proof (cases "H l")
    case False
    with Cons.IH [of "offset + length l" found] Cons.prems show ?thesis by fastforce
  next
    case True
    then have "filter H ls \<noteq> []" using Cons.prems(1) by auto
    then obtain xs y ys where x: "ls = xs @ y # ys" "H y" "\<not> list_ex H xs"
      by (auto simp: filter_eq_Cons_iff list_ex_iff neq_Nil_conv)
    have skip: "\<not> list_ex H xs \<Longrightarrow> last_start H k fo (xs @ zs) = last_start H (k + length (concat xs)) fo zs" for k fo zs
      by (induction xs arbitrary: k fo) (auto simp: add.assoc)
    let ?k = "offset + length l + length (concat xs)"
    have "last_start H offset found (l # ls) = last_start H (?k + length y) (Some ?k) ys"
      using True x(2) by (simp add: x(1) skip [OF x(3)])
    with last_start_keeps [of H "?k + length y" ?k ys] obtain b where b:
      "last_start H offset found (l # ls) = Some b" "b = ?k \<or> ?k + length y \<le> b" by metis
    have "0 < length l" using Cons.prems(2) by simp
    then have "offset < b" using b(2) by linarith
    with b(1) show ?thesis by blast
  qed
qed simp

lemma log_lines_nonempty: "list_all (\<lambda>l. l \<noteq> []) (log_lines s)"
proof (induction s rule: log_lines.induct)
  case (1 s)
  show ?case
  proof (cases "s = []")
    case False
    then have "next_line s \<noteq> []" by (cases s) (auto simp: next_line_def)
    with 1 False show ?thesis by (subst log_lines.simps) simp
  qed simp
qed

lemma last_start_append:
  "last_start H offset found (xs @ ys) = last_start H (offset + length (concat xs)) (last_start H offset found xs) ys"
  by (induction xs arbitrary: offset found) (auto simp: add.assoc)

text \<open>A complete line stays one when text is appended.\<close>

lemma log_lines_nonempty_text: "w \<noteq> [] \<Longrightarrow> log_lines w = next_line w # log_lines (drop (length (next_line w)) w)"
  by (subst log_lines.simps) simp

lemma log_lines_extend:
  "log_lines w = xs @ y # ys \<Longrightarrow> last y = line_feed \<Longrightarrow> \<exists>zs. log_lines (w @ r) = xs @ y # zs"
proof (induction xs arbitrary: w)
  case Nil
  then have ne: "w \<noteq> []" by auto
  then have y: "next_line w = y" using Nil(1) log_lines_nonempty_text [OF ne] by simp
  then have "y \<noteq> []" using ne by auto
  then have "line_feed \<in> set y" using Nil(2) last_in_set by metis
  then have "line_feed \<in> set w" using y next_line_LF by metis
  then have "next_line (w @ r) = y" using y next_line_append [of w r] by simp
  moreover have "w @ r \<noteq> []" using ne by simp
  ultimately show ?case using log_lines_nonempty_text [of "w @ r"] by simp
next
  case (Cons x xs)
  then have ne: "w \<noteq> []" by auto
  note l = log_lines_nonempty_text [OF ne]
  have x1: "next_line w = x" "log_lines (drop (length (next_line w)) w) = xs @ y # ys"
    using Cons.prems(1) unfolding l append_Cons by blast+
  note x = x1(1) x1(2) [unfolded x1(1)]
  have d: "drop (length x) w \<noteq> []"
  proof
    assume "drop (length x) w = []"
    then show False using x(2) by simp
  qed
  have "line_feed \<in> set w"
  proof (rule ccontr)
    assume "line_feed \<notin> set w"
    from next_line_all [OF this] d x(1) show False by simp
  qed
  then have n: "next_line (w @ r) = x" using x(1) by (simp add: next_line_append)
  have "length x \<le> length w" using next_line_length [of w] x(1) by simp
  then have "drop (length x) (w @ r) = drop (length x) w @ r" by simp
  moreover have "w @ r \<noteq> []" using ne by simp
  note log_lines_nonempty_text [OF this, unfolded n]
  ultimately have "log_lines (w @ r) = x # log_lines (drop (length x) w @ r)" by (simp only:)
  with Cons.IH [OF x(2) Cons.prems(2)] show ?case by auto
qed

lemma entry_boundary_grows:
  assumes "last_entry_boundary S w = Some b" and "0 < b"
  shows "\<exists>b' > 0. last_entry_boundary S (w @ r) = Some b'"
proof -
  let ?H = "\<lambda>line. line \<noteq> [] \<and> last line = line_feed \<and> is_timestamped_line S line"
  from last_start_Some [OF assms(1) [unfolded last_entry_boundary_def]] obtain xs y ys where
    x: "log_lines w = xs @ y # ys" "?H y" "b = length (concat xs)" by auto
  from log_lines_extend [OF x(1), of r] x(2) obtain zs where z: "log_lines (w @ r) = xs @ y # zs" by blast
  have "last_start ?H 0 None (xs @ y # zs) = last_start ?H (b + length y) (Some b) zs"
    unfolding last_start_append last_start.simps x(3) add_0 if_P [OF x(2)] ..
  with last_start_keeps [of ?H "b + length y" b zs] obtain b' where
    "last_start ?H 0 None (xs @ y # zs) = Some b'" "b' = b \<or> b + length y \<le> b'" by metis
  then show ?thesis using assms(2) by (auto simp: last_entry_boundary_def z)
qed

section \<open>A log that grows\<close>

text \<open>A log that only grows towards \<open>f\<close> and had \<open>n\<close> bytes: at that moment it cannot be opened or is a prefix
  of at least that length.\<close>

definition sees :: "string \<Rightarrow> string \<Rightarrow> nat \<Rightarrow> FileSystem \<Rightarrow> bool" where
  "sees f path n fs \<longleftrightarrow>
     (case open_file fs path of
        Inl _ \<Rightarrow> True
      | Inr h \<Rightarrow> starts_with f (pending (data h)) \<and> n \<le> length (pending (data h)) \<and>
          file_size h = int (length (pending (data h))))"

definition seen_size :: "string \<Rightarrow> nat \<Rightarrow> FileSystem \<Rightarrow> nat" where
  "seen_size path n fs = (case open_file fs path of Inl _ \<Rightarrow> n | Inr h \<Rightarrow> length (pending (data h)))"

end
