(* ===== verification/Lru.thy ===== *)
theory Lru
  imports Prelude "HOL-Library.AList"
begin

text \<open>
  \<open>FingerprintCache\<close> of \<open>grouping.rs\<close>, the bounded least-recently-used cache from query hashes to
  fingerprints, and the lookup \<open>fingerprint_for\<close>. A hash map is an association list with distinct
  keys, a B-tree map one whose keys increase. The hash (xxHash) and the normaliser are third-party
  code: they are the fields of \<open>Normalizer\<close>. A tick is a natural number: the counter of the code has
  64 bits and counts accesses.
\<close>

section \<open>Ordered maps\<close>

fun btree_insert :: "'k::linorder \<Rightarrow> 'v \<Rightarrow> ('k \<times> 'v) list \<Rightarrow> ('k \<times> 'v) list" where
  "btree_insert k v [] = [(k, v)]"
| "btree_insert k v ((k', v') # xs) =
     (if k < k' then (k, v) # (k', v') # xs
      else if k = k' then (k, v) # xs
      else (k', v') # btree_insert k v xs)"

lemma btree_insert_last: "\<forall>p \<in> set xs. fst p < k \<Longrightarrow> btree_insert k v xs = xs @ [(k, v)]"
  by (induction k v xs rule: btree_insert.induct) auto

section \<open>The cache\<close>

record Normalizer =
  query_hash :: "string \<Rightarrow> u64"
  normalize_query_enhanced :: "string \<Rightarrow> string option"

record FingerprintCache =
  cap :: nat
  tick :: nat
  entries :: "(u64 \<times> string \<times> nat) list"
  order :: "(nat \<times> u64) list"

definition MAX_FINGERPRINT_CACHE_ENTRIES :: nat where "MAX_FINGERPRINT_CACHE_ENTRIES = 100000"

definition cache_with_capacity :: "nat \<Rightarrow> FingerprintCache" where
  "cache_with_capacity n = \<lparr>cap = n, tick = 0, entries = [], order = []\<rparr>"

definition cache_get :: "u64 \<Rightarrow> FingerprintCache \<Rightarrow> string option \<times> FingerprintCache" where
  "cache_get h c =
     (case map_of (entries c) h of
        None \<Rightarrow> (None, c)
      | Some (fingerprint, old_tick) \<Rightarrow>
          (let now = tick c + 1
           in (Some fingerprint,
               c\<lparr>tick := now,
                 order := btree_insert now h (AList.delete old_tick (order c)),
                 entries := AList.update h (fingerprint, now) (entries c)\<rparr>)))"

definition cache_insert :: "u64 \<Rightarrow> string \<Rightarrow> FingerprintCache \<Rightarrow> FingerprintCache" where
  "cache_insert h fingerprint c =
     (let now = tick c + 1
      in case map_of (entries c) h of
           Some (_, old_tick) \<Rightarrow>
             c\<lparr>tick := now,
               order := btree_insert now h (AList.delete old_tick (order c)),
               entries := AList.update h (fingerprint, now) (entries c)\<rparr>
         | None \<Rightarrow>
             (let c' = (if 0 < cap c \<and> cap c \<le> length (entries c)
                        then (case order c of
                                (lru_tick, lru_hash) # _ \<Rightarrow>
                                  c\<lparr>order := AList.delete lru_tick (order c),
                                    entries := AList.delete lru_hash (entries c)\<rparr>
                              | [] \<Rightarrow> c)
                        else c)
              in c'\<lparr>tick := now, entries := AList.update h (fingerprint, now) (entries c'),
                    order := btree_insert now h (order c')\<rparr>))"

definition cache_clear :: "FingerprintCache \<Rightarrow> FingerprintCache" where
  "cache_clear c = c\<lparr>entries := [], order := [], tick := 0\<rparr>"

definition cache_len :: "FingerprintCache \<Rightarrow> nat" where
  "cache_len c = length (entries c)"

definition cache_is_empty :: "FingerprintCache \<Rightarrow> bool" where
  "cache_is_empty c \<longleftrightarrow> entries c = []"

definition default_cache :: FingerprintCache where
  "default_cache = cache_with_capacity MAX_FINGERPRINT_CACHE_ENTRIES"

text \<open>\<open>format!("{:016x}", hash)\<close>.\<close>

definition hex_digit :: "nat \<Rightarrow> char" where "hex_digit n = ''0123456789abcdef'' ! n"

definition hex16 :: "u64 \<Rightarrow> string" where
  "hex16 h = map (\<lambda>i. hex_digit (unat h div 16 ^ i mod 16)) (rev [0..<16])"

definition fresh_fingerprint :: "Normalizer \<Rightarrow> string \<Rightarrow> string" where
  "fresh_fingerprint N query_text =
     (case normalize_query_enhanced N query_text of
        Some fingerprint \<Rightarrow> fingerprint
      | None \<Rightarrow> hex16 (query_hash N query_text))"

definition fingerprint_for :: "Normalizer \<Rightarrow> FingerprintCache \<Rightarrow> string \<Rightarrow> string \<times> FingerprintCache" where
  "fingerprint_for N cache query_text =
     (let h = query_hash N query_text
      in case cache_get h cache of
           (Some cached, cache) \<Rightarrow> (cached, cache)
         | (None, cache) \<Rightarrow>
             (let fingerprint = fresh_fingerprint N query_text
              in (fingerprint, cache_insert h fingerprint cache)))"

section \<open>The abstract list of recently used keys\<close>

text \<open>The keys from the least to the most recently used, and what an access does to them.\<close>

definition recency :: "FingerprintCache \<Rightarrow> u64 list" where
  "recency c = map snd (order c)"

definition touch :: "nat \<Rightarrow> 'a \<Rightarrow> 'a list \<Rightarrow> 'a list" where
  "touch n x xs =
     (if x \<in> set xs then remove1 x xs @ [x]
      else if 0 < n \<and> n \<le> length xs then tl xs @ [x] else xs @ [x])"

definition last_n :: "nat \<Rightarrow> 'a list \<Rightarrow> 'a list" where
  "last_n n xs = (if n = 0 then xs else drop (length xs - n) xs)"

lemma remdups_snoc: "remdups (xs @ [x]) = filter (\<lambda>y. y \<noteq> x) (remdups xs) @ [x]"
  by (induction xs) auto

lemma last_n_suffix: "0 < n \<Longrightarrow> n \<le> length ys \<Longrightarrow> last_n n (xs @ ys) = last_n n ys"
  by (simp add: last_n_def)

lemma filter_remove1: "distinct xs \<Longrightarrow> filter (\<lambda>y. y \<noteq> x) xs = remove1 x xs"
  by (induction xs) (auto simp: filter_id_conv)

lemma touch_last_n:
  assumes "distinct xs"
  shows "touch n x (last_n n xs) = last_n n (filter (\<lambda>y. y \<noteq> x) xs @ [x])"
proof (cases "n = 0 \<or> length xs < n")
  case True
  then have "last_n n xs = xs" by (auto simp: last_n_def)
  moreover have "n = 0 \<or> Suc (length (filter (\<lambda>y. y \<noteq> x) xs)) - n = 0"
    using True length_filter_le [of "\<lambda>y. y \<noteq> x" xs] by linarith
  then have "last_n n (filter (\<lambda>y. y \<noteq> x) xs @ [x]) = filter (\<lambda>y. y \<noteq> x) xs @ [x]"
    by (auto simp: last_n_def)
  ultimately show ?thesis
    using True filter_remove1 [OF assms] by (auto simp: touch_def remove1_idem)
next
  case False
  define a r where "a = take (length xs - n) xs" and "r = drop (length xs - n) xs"
  have n: "0 < n" "length r = n" "last_n n xs = r" and xs: "xs = a @ r"
    using False by (auto simp: a_def r_def last_n_def)
  have d: "distinct r" "distinct a" "set a \<inter> set r = {}" using assms xs by auto
  show ?thesis
  proof (cases "x \<in> set r")
    case True
    then have "length (filter (\<lambda>y. y \<noteq> x) r @ [x]) = n"
      using filter_remove1 [OF d(1), of x] n length_remove1 [of x r] by simp
    then have "last_n n (filter (\<lambda>y. y \<noteq> x) a @ (filter (\<lambda>y. y \<noteq> x) r @ [x])) = filter (\<lambda>y. y \<noteq> x) r @ [x]"
      using n(1) by (subst last_n_suffix) (simp_all add: last_n_def)
    then show ?thesis using True n xs filter_remove1 [OF d(1), of x] by (simp add: touch_def)
  next
    case False
    then have "filter (\<lambda>y. y \<noteq> x) r = r" by (auto simp: filter_id_conv)
    moreover have "last_n n (b @ (r @ [x])) = tl r @ [x]" for b :: "'a list"
      using n by (subst last_n_suffix) (cases r, simp_all add: last_n_def drop_Suc)
    ultimately show ?thesis using False n xs by (simp add: touch_def)
  qed
qed

lemma touch_remdups: "touch n x (last_n n (remdups xs)) = last_n n (remdups (xs @ [x]))"
  by (simp add: touch_last_n remdups_snoc)

section \<open>The cache implements it\<close>

definition last_tick :: "FingerprintCache \<Rightarrow> (u64 \<rightharpoonup> nat)" where
  "last_tick c = map_option snd \<circ> map_of (entries c)"

definition cache_ok :: "FingerprintCache \<Rightarrow> bool" where
  "cache_ok c \<longleftrightarrow>
     sorted_wrt (<) (map fst (order c)) \<and> (\<forall>p \<in> set (order c). fst p \<le> tick c) \<and>
     distinct (map fst (entries c)) \<and> distinct (map snd (order c)) \<and>
     (\<forall>t h. (t, h) \<in> set (order c) \<longleftrightarrow> last_tick c h = Some t)"

lemma cache_ok_empty: "cache_ok (cache_with_capacity n)"
  by (simp add: cache_ok_def cache_with_capacity_def last_tick_def)

lemma cache_ok_clear: "cache_ok (cache_clear c)"
  by (simp add: cache_ok_def cache_clear_def last_tick_def)

lemma cache_okD:
  assumes "cache_ok c"
  shows "sorted_wrt (<) (map fst (order c))" and "p \<in> set (order c) \<Longrightarrow> fst p \<le> tick c"
    and "distinct (map fst (entries c))" and "distinct (map snd (order c))"
    and "(t, h) \<in> set (order c) \<longleftrightarrow> last_tick c h = Some t" and "distinct (map fst (order c))"
  using assms by (auto simp: cache_ok_def strict_sorted_iff)

lemma recency_dom:
  assumes "cache_ok c"
  shows "set (recency c) = dom (map_of (entries c))"
proof -
  have "h \<in> set (recency c) \<longleftrightarrow> (\<exists>t. last_tick c h = Some t)" for h
    unfolding recency_def set_map using cache_okD(5) [OF assms] by force
  then show ?thesis by (auto simp: last_tick_def)
qed

lemma recency_length:
  assumes ok: "cache_ok c"
  shows "length (entries c) = length (recency c)"
proof -
  have "length (recency c) = card (set (recency c))"
    unfolding recency_def using cache_okD(4) [OF ok] by (rule distinct_card [symmetric])
  also have "\<dots> = card (set (map fst (entries c)))"
    by (simp add: recency_dom [OF ok] dom_map_of_conv_image_fst)
  also have "\<dots> = length (entries c)"
    using distinct_card [OF cache_okD(3) [OF ok]] by simp
  finally show ?thesis ..
qed

text \<open>Removing an entry from both maps, and adding one that is not there.\<close>

definition removed :: "u64 \<Rightarrow> nat \<Rightarrow> FingerprintCache \<Rightarrow> FingerprintCache" where
  "removed h t c = c\<lparr>order := AList.delete t (order c), entries := AList.delete h (entries c)\<rparr>"

definition added :: "u64 \<Rightarrow> string \<Rightarrow> FingerprintCache \<Rightarrow> FingerprintCache" where
  "added h f c = c\<lparr>tick := tick c + 1, order := order c @ [(tick c + 1, h)],
     entries := AList.update h (f, tick c + 1) (entries c)\<rparr>"

lemma last_tick_removed: "last_tick (removed h t c) = (last_tick c)(h := None)"
  by (rule ext) (simp add: last_tick_def removed_def delete_conv')

lemma last_tick_added: "last_tick (added h f c) = (last_tick c)(h \<mapsto> tick c + 1)"
  by (rule ext) (simp add: last_tick_def added_def update_conv')

lemma removed_order:
  assumes ok: "cache_ok c" and e: "last_tick c h = Some t"
  shows "AList.delete t (order c) = filter (\<lambda>p. snd p \<noteq> h) (order c)"
proof -
  have "(fst p = t) = (snd p = h)" if "p \<in> set (order c)" for p
    using cache_okD(5) [OF ok, of "fst p" "snd p"] cache_okD(5) [OF ok, of t h] that e
      cache_okD(6) [OF ok]
    by (metis eq_key_imp_eq_value option.inject prod.collapse)
  then show ?thesis unfolding AList.delete_eq by (intro filter_cong) (auto simp: split_beta)
qed

lemma removed_recency:
  assumes ok: "cache_ok c" and e: "last_tick c h = Some t"
  shows "recency (removed h t c) = remove1 h (recency c)"
proof -
  have "recency (removed h t c) = filter (\<lambda>y. y \<noteq> h) (map snd (order c))"
    by (simp add: recency_def removed_def removed_order [OF assms] filter_map comp_def)
  then show ?thesis
    unfolding recency_def using filter_remove1 [OF cache_okD(4) [OF ok]] by simp
qed

lemma removed_ok:
  assumes ok: "cache_ok c" and e: "last_tick c h = Some t"
  shows "cache_ok (removed h t c)"
proof -
  have o: "order (removed h t c) = filter (\<lambda>p. snd p \<noteq> h) (order c)"
    by (simp add: removed_def removed_order [OF assms])
  show ?thesis
    unfolding cache_ok_def o last_tick_removed
  proof (intro conjI allI)
    show "sorted_wrt (<) (map fst (filter (\<lambda>p. snd p \<noteq> h) (order c)))"
      using cache_okD(1) [OF ok] by (simp add: sorted_wrt_map sorted_wrt_filter)
    show "distinct (map snd (filter (\<lambda>p. snd p \<noteq> h) (order c)))"
      using cache_okD(4) [OF ok] by (rule distinct_map_filter)
    show "distinct (map fst (entries (removed h t c)))"
      using distinct_delete [OF cache_okD(3) [OF ok]] by (simp add: removed_def)
    show "((t', h') \<in> set (filter (\<lambda>p. snd p \<noteq> h) (order c))) =
        (((last_tick c)(h := None)) h' = Some t')" for t' h'
      using cache_okD(5) [OF ok, of t' h'] by auto
  qed (use cache_okD(2) [OF ok] in \<open>auto simp: removed_def\<close>)
qed

lemma added_recency: "recency (added h f c) = recency c @ [h]"
  by (simp add: added_def recency_def)

lemma added_ok:
  assumes ok: "cache_ok c" and e: "last_tick c h = None"
  shows "cache_ok (added h f c)"
proof -
  have n: "h \<notin> snd ` set (order c)"
    using cache_okD(5) [OF ok, of _ h] e by force
  have lt: "p \<in> set (order c) \<Longrightarrow> fst p < tick c + 1" for p
    using cache_okD(2) [OF ok] by (simp add: less_Suc_eq_le)
  have o: "order (added h f c) = order c @ [(tick c + 1, h)]" by (simp add: added_def)
  show ?thesis
    unfolding cache_ok_def o last_tick_added
  proof (intro conjI allI)
    show "sorted_wrt (<) (map fst (order c @ [(tick c + 1, h)]))"
      using cache_okD(1) [OF ok] lt by (simp add: sorted_wrt_append)
    show "distinct (map snd (order c @ [(tick c + 1, h)]))" using cache_okD(4) [OF ok] n by simp
    show "distinct (map fst (entries (added h f c)))"
      using distinct_update [OF cache_okD(3) [OF ok]] by (simp add: added_def)
    show "((t', h') \<in> set (order c @ [(tick c + 1, h)])) =
        (((last_tick c)(h \<mapsto> tick c + 1)) h' = Some t')" for t' h'
      using cache_okD(5) [OF ok, of t' h'] e by auto
  qed (use lt in \<open>auto simp: added_def less_imp_le\<close>)
qed

text \<open>A hit of either operation refreshes the entry; a miss adds one, after an eviction when full.\<close>

definition refreshed :: "u64 \<Rightarrow> nat \<Rightarrow> string \<Rightarrow> FingerprintCache \<Rightarrow> FingerprintCache" where
  "refreshed h t f c = c\<lparr>tick := tick c + 1,
     order := btree_insert (tick c + 1) h (AList.delete t (order c)),
     entries := AList.update h (f, tick c + 1) (entries c)\<rparr>"

lemma insert_last:
  assumes "cache_ok c"
  shows "btree_insert (tick c + 1) h (order c) = order c @ [(tick c + 1, h)]"
  using cache_okD(2) [OF assms] by (intro btree_insert_last) (auto simp: less_Suc_eq_le)

lemma refreshed_ok:
  assumes ok: "cache_ok c" and e: "last_tick c h = Some t"
  shows "cache_ok (refreshed h t f c)" and "recency (refreshed h t f c) = remove1 h (recency c) @ [h]"
proof -
  let ?r = "removed h t c" and ?a = "added h f (removed h t c)" and ?c = "refreshed h t f c"
  have r: "cache_ok ?r" by (rule removed_ok [OF ok e])
  have o: "order ?c = order ?a"
    using insert_last [OF r] by (simp add: refreshed_def added_def removed_def)
  have "last_tick ?r h = None" by (simp add: last_tick_removed)
  from added_ok [OF r this] have a: "cache_ok ?a" .
  have "last_tick ?c = last_tick ?a"
    unfolding last_tick_added last_tick_removed
    by (rule ext) (simp add: last_tick_def refreshed_def removed_def update_conv')
  moreover have "distinct (map fst (entries ?c))"
    using distinct_update [OF cache_okD(3) [OF ok]] by (simp add: refreshed_def)
  moreover have "tick ?c = tick ?a" by (simp add: refreshed_def added_def removed_def)
  ultimately show "cache_ok ?c" using a unfolding cache_ok_def o by simp
  show "recency ?c = remove1 h (recency c) @ [h]"
    unfolding recency_def o using removed_recency [OF ok e] by (simp add: added_def recency_def)
qed

lemma cache_get_hit:
  "map_of (entries c) h = Some (f, t) \<Longrightarrow> cache_get h c = (Some f, refreshed h t f c)"
  by (simp add: cache_get_def refreshed_def Let_def)

lemma cache_insert_hit:
  "map_of (entries c) h = Some (g, t) \<Longrightarrow> cache_insert h f c = refreshed h t f c"
  by (simp add: cache_insert_def refreshed_def Let_def)

lemma cache_insert_miss:
  assumes ok: "cache_ok c" and e: "map_of (entries c) h = None"
  defines "c' \<equiv> if 0 < cap c \<and> cap c \<le> length (entries c)
      then removed (snd (hd (order c))) (fst (hd (order c))) c else c"
  shows "cache_insert h f c = added h f c'" and "cache_ok c'" and "last_tick c' h = None"
    and "recency c' = (if 0 < cap c \<and> cap c \<le> length (recency c) then tl (recency c) else recency c)"
    and "cap c' = cap c" and "map_of (entries c') \<subseteq>\<^sub>m map_of (entries c)"
proof -
  have len: "length (entries c) = length (order c)"
    using recency_length [OF ok] by (simp add: recency_def)
  have "cache_ok c' \<and> last_tick c' h = None \<and> cap c' = cap c \<and> tick c' = tick c \<and>
      map_of (entries c') \<subseteq>\<^sub>m map_of (entries c) \<and>
      recency c' = (if 0 < cap c \<and> cap c \<le> length (recency c) then tl (recency c) else recency c)"
  proof (cases "0 < cap c \<and> cap c \<le> length (entries c)")
    case True
    then obtain t l rest where o: "order c = (t, l) # rest"
      using len by (cases "order c") auto
    then have l: "last_tick c l = Some t" using cache_okD(5) [OF ok, of t l] by simp
    have c': "c' = removed l t c" using True o by (simp add: c'_def)
    show ?thesis
      unfolding c' using removed_ok [OF ok l] removed_recency [OF ok l] e True o len
      by (auto simp: last_tick_removed last_tick_def recency_def removed_def delete_conv' map_le_def)
  qed (use e ok len in \<open>auto simp: c'_def last_tick_def recency_def\<close>)
  moreover from this have "cache_insert h f c = added h f c'"
  proof -
    have "cache_insert h f c = c'\<lparr>tick := tick c + 1, entries := AList.update h (f, tick c + 1) (entries c'),
        order := btree_insert (tick c + 1) h (order c')\<rparr>"
      unfolding cache_insert_def c'_def using e len by (auto simp: removed_def Let_def split: list.split)
    then show ?thesis
      using insert_last [of c' h] \<open>cache_ok c' \<and> _\<close> by (simp add: added_def)
  qed
  ultimately show "cache_insert h f c = added h f c'" "cache_ok c'" "last_tick c' h = None"
    "recency c' = (if 0 < cap c \<and> cap c \<le> length (recency c) then tl (recency c) else recency c)"
    "cap c' = cap c" "map_of (entries c') \<subseteq>\<^sub>m map_of (entries c)" by simp_all
qed

section \<open>Lookups of fingerprints\<close>

text \<open>The cached fingerprints are those of texts of \<open>Q\<close>.\<close>

definition cached_fingerprints :: "Normalizer \<Rightarrow> string set \<Rightarrow> FingerprintCache \<Rightarrow> bool" where
  "cached_fingerprints N Q c \<longleftrightarrow>
     (\<forall>h f t. map_of (entries c) h = Some (f, t) \<longrightarrow>
        (\<exists>q \<in> Q. query_hash N q = h \<and> fresh_fingerprint N q = f))"

lemma fingerprint_for_step:
  assumes ok: "cache_ok c" and inj: "inj_on (query_hash N) Q" and q: "q \<in> Q"
    and f: "cached_fingerprints N Q c"
  obtains c' where "fingerprint_for N c q = (fresh_fingerprint N q, c')" and "cache_ok c'"
    and "cached_fingerprints N Q c'" and "cap c' = cap c"
    and "recency c' = touch (cap c) (query_hash N q) (recency c)"
proof (cases "map_of (entries c) (query_hash N q)")
  case (Some e)
  then obtain g t where e: "map_of (entries c) (query_hash N q) = Some (g, t)" by (cases e) auto
  let ?c = "refreshed (query_hash N q) t g c"
  from e f inj q have g: "g = fresh_fingerprint N q"
    unfolding cached_fingerprints_def inj_on_def by metis
  have l: "last_tick c (query_hash N q) = Some t" using e by (simp add: last_tick_def)
  have "query_hash N q \<in> set (recency c)" using e by (simp add: recency_dom [OF ok] domI)
  moreover have "map_of (entries ?c) = (map_of (entries c))(query_hash N q \<mapsto> (g, tick c + 1))"
    by (rule ext) (simp add: refreshed_def update_conv')
  then have "cached_fingerprints N Q ?c" using f g q by (auto simp: cached_fingerprints_def)
  ultimately show ?thesis
    using refreshed_ok [OF ok l, of g] g
    by (intro that [of ?c])
      (simp_all add: fingerprint_for_def cache_get_hit [OF e] touch_def refreshed_def Let_def)
next
  case None
  let ?c = "cache_insert (query_hash N q) (fresh_fingerprint N q) c"
  note m = cache_insert_miss [OF ok None]
  have n: "query_hash N q \<notin> set (recency c)" using None by (simp add: recency_dom [OF ok] domIff)
  have "fingerprint_for N c q = (fresh_fingerprint N q, ?c)"
    using None by (simp add: fingerprint_for_def cache_get_def Let_def)
  moreover have "cached_fingerprints N Q ?c"
    using f q m(6) unfolding m(1) cached_fingerprints_def added_def
    by (auto simp: update_conv' map_le_def domI split: if_splits) (metis domI)
  moreover have "recency ?c = touch (cap c) (query_hash N q) (recency c)"
    using n unfolding m(1) added_recency m(4) by (simp add: touch_def)
  moreover have "cap ?c = cap c" unfolding m(1) using m(5) by (simp add: added_def)
  moreover have "cache_ok ?c" unfolding m(1) by (rule added_ok [OF m(2,3)])
  ultimately show ?thesis by (intro that [of ?c])
qed

fun fingerprint_run :: "Normalizer \<Rightarrow> FingerprintCache \<Rightarrow> string list \<Rightarrow> string list \<times> FingerprintCache" where
  "fingerprint_run N c [] = ([], c)"
| "fingerprint_run N c (q # qs) =
     (let (f, c) = fingerprint_for N c q; (fs, c) = fingerprint_run N c qs in (f # fs, c))"

lemma fingerprint_run_recency:
  assumes "inj_on (query_hash N) Q"
  shows "cache_ok c \<Longrightarrow> set qs \<subseteq> Q \<Longrightarrow> cached_fingerprints N Q c \<Longrightarrow>
    recency c = last_n (cap c) (remdups hs) \<Longrightarrow>
    fst (fingerprint_run N c qs) = map (fresh_fingerprint N) qs \<and>
    recency (snd (fingerprint_run N c qs)) = last_n (cap c) (remdups (hs @ map (query_hash N) qs)) \<and>
    cache_ok (snd (fingerprint_run N c qs)) \<and> cap (snd (fingerprint_run N c qs)) = cap c"
proof (induction qs arbitrary: c hs)
  case (Cons q qs)
  then have "q \<in> Q" by simp
  from fingerprint_for_step [OF Cons.prems(1) assms this Cons.prems(3)] obtain c' where c':
    "fingerprint_for N c q = (fresh_fingerprint N q, c')" "cache_ok c'" "cached_fingerprints N Q c'"
    "cap c' = cap c" "recency c' = touch (cap c) (query_hash N q) (recency c)" .
  have "recency c' = last_n (cap c') (remdups (hs @ [query_hash N q]))"
    using c'(4,5) Cons.prems(4) touch_remdups by metis
  with Cons.IH [OF c'(2) _ c'(3) this] Cons.prems(2) c'(1,4) show ?case
    by (simp add: case_prod_unfold)
qed simp

lemma cached_fingerprints_empty: "cached_fingerprints N Q (cache_with_capacity n)"
  by (simp add: cached_fingerprints_def cache_with_capacity_def)

section \<open>Property\<close>

text \<open>The fingerprint cache is transparent and least-recently-used: over any texts with distinct
  hashes every lookup returns what the normaliser gives, the cache then holds exactly the \<open>cap\<close> most
  recently used distinct hashes in the order of their last use, and no more than \<open>cap\<close> entries.\<close>

theorem fingerprint_cache_is_lru:
  assumes "inj_on (query_hash N) (set qs)"
  shows "fst (fingerprint_run N (cache_with_capacity n) qs) = map (fresh_fingerprint N) qs \<and>
    (let c = snd (fingerprint_run N (cache_with_capacity n) qs)
     in recency c = last_n n (remdups (map (query_hash N) qs)) \<and>
        cache_len c = length (recency c) \<and> dom (map_of (entries c)) = set (recency c) \<and>
        (n = 0 \<or> cache_len c \<le> n))"
proof -
  let ?c = "snd (fingerprint_run N (cache_with_capacity n) qs)"
  have r: "fst (fingerprint_run N (cache_with_capacity n) qs) = map (fresh_fingerprint N) qs"
    "recency ?c = last_n n (remdups (map (query_hash N) qs))" "cache_ok ?c"
    using fingerprint_run_recency [OF assms cache_ok_empty subset_refl cached_fingerprints_empty, of n "[]"]
    by (simp_all add: recency_def cache_with_capacity_def last_n_def)
  have "cache_len ?c = length (recency ?c)" by (simp add: cache_len_def recency_length [OF r(3)])
  then show ?thesis
    using r recency_dom [OF r(3)] by (auto simp: Let_def last_n_def)
qed

theorem fingerprint_cache_is_lru_witness:
  "recency (snd (fingerprint_run \<lparr>query_hash = (\<lambda>q. of_nat (length q)), normalize_query_enhanced = Some\<rparr>
     (cache_with_capacity 2) [''a'', ''bc'', ''a'', ''def''])) = [1, 3]"
proof -
  let ?N = "\<lparr>query_hash = (\<lambda>q. of_nat (length q)), normalize_query_enhanced = Some\<rparr>"
  have "inj_on (query_hash ?N) (set [''a'', ''bc'', ''a'', ''def''])" by (auto simp: inj_on_def)
  from fingerprint_cache_is_lru [OF this, of 2] show ?thesis
    unfolding Let_def by (auto simp: last_n_def)
qed

end
