(* ===== verification/Float_Bounds.thy ===== *)
theory Float_Bounds
  imports Numerics
begin

text \<open>
  Bounds on rounded results: rounding a rational that is at most a small integer gives a finite
  float that is at most that integer. This is what keeps an index computed in floating point
  within its slice.
\<close>

section \<open>Rounding to integers\<close>

definition f_neg_zero :: f64 where "f_neg_zero = mk_f64 True 0"

text \<open>\<open>Iterator::sum\<close> of floats starts from negative zero.\<close>

definition f_sum :: "f64 list \<Rightarrow> f64" where "f_sum xs = foldl f_add f_neg_zero xs"

definition f_floor :: "f64 \<Rightarrow> f64" where
  "f_floor x = (if is_nan x \<or> is_infinite x then x else round_f64 (f_neg x) (of_int \<lfloor>f_val x\<rfloor>))"

definition f_ceil :: "f64 \<Rightarrow> f64" where
  "f_ceil x = (if is_nan x \<or> is_infinite x then x else round_f64 (f_neg x) (of_int \<lceil>f_val x\<rceil>))"

section \<open>Powers of two\<close>

lemma pow2_pos [simp]: "0 < pow2 k"
  by (simp add: pow2_def)

lemma pow2_nonneg [simp]: "0 \<le> pow2 k"
  by (simp add: pow2_def)

lemma pow2_0 [simp]: "pow2 0 = 1"
  by (simp add: pow2_def)

lemma pow2_nat: "0 \<le> k \<Longrightarrow> pow2 k = of_int (2 ^ nat k)"
  by (simp add: pow2_def)

lemma pow2_powi: "pow2 k = 2 powi k"
  by (simp add: pow2_def power_int_def inverse_eq_divide power_one_over)

lemma pow2_add: "pow2 (a + b) = pow2 a * pow2 b"
  by (simp add: pow2_powi power_int_add)

lemma pow2_inverse: "pow2 (- k) * pow2 k = 1"
  using pow2_add [of "- k" k] by simp

lemma pow2_mono: "a \<le> b \<Longrightarrow> pow2 a \<le> pow2 b"
  unfolding pow2_powi by (rule power_int_increasing) simp_all

section \<open>The binary logarithm\<close>

lemma log2_int_bounds: "1 \<le> n \<Longrightarrow> 0 \<le> log2_int n \<and> 2 ^ nat (log2_int n) \<le> n \<and> n < 2 ^ nat (log2_int n + 1)"
proof (induction n rule: log2_int.induct)
  case (1 n)
  show ?case
  proof (cases "n < 2")
    case True
    with 1(2) have "n = 1" by simp
    then show ?thesis by (simp add: log2_int.simps)
  next
    case False
    let ?l = "log2_int (n div 2)"
    have l: "0 \<le> ?l" "2 ^ nat ?l \<le> n div 2" "n div 2 < 2 ^ nat (?l + 1)"
      using 1(1) False by auto
    have e: "nat (1 + ?l) = Suc (nat ?l)" "nat (?l + 1) = Suc (nat ?l)" "nat (2 + ?l) = Suc (Suc (nat ?l))"
      using l(1) by auto
    have "2 * 2 ^ nat ?l \<le> n" using l(2) by linarith
    moreover have "n < 2 * 2 ^ Suc (nat ?l)" using l(3) unfolding e by linarith
    moreover have "log2_int n = 1 + ?l" using False by (simp add: log2_int.simps [of n])
    ultimately show ?thesis using l(1) e by (simp add: add.commute)
  qed
qed

lemma log2_rat_bounds:
  assumes "0 < r"
  shows "pow2 (log2_rat r) \<le> r \<and> r \<le> pow2 (log2_rat r + 1)"
proof (cases "1 \<le> r")
  case True
  then have "1 \<le> \<lfloor>r\<rfloor>" by simp
  note b = log2_int_bounds [OF this]
  have "(of_int (2 ^ nat (log2_int \<lfloor>r\<rfloor>)) :: rat) \<le> of_int \<lfloor>r\<rfloor>"
    using b by (simp only: of_int_le_iff)
  moreover have "(of_int \<lfloor>r\<rfloor> + 1 :: rat) \<le> of_int (2 ^ nat (log2_int \<lfloor>r\<rfloor> + 1))"
    using b by linarith
  ultimately show ?thesis
    using True b by (simp add: log2_rat_def pow2_nat del: of_int_power) linarith
next
  case False
  define m where "m = \<lceil>1 / r\<rceil> - 1"
  have inv: "1 < 1 / r" using False assms by simp
  then have m1: "1 \<le> m" unfolding m_def by linarith
  note b = log2_int_bounds [OF m1]
  let ?l = "log2_int m"
  have up: "1 / r \<le> of_int (m + 1)" and lo: "of_int m < 1 / r"
    unfolding m_def by linarith+
  have "(of_int (m + 1) :: rat) \<le> of_int (2 ^ nat (?l + 1))" using b by (simp only: of_int_le_iff) linarith
  then have "1 / r \<le> pow2 (?l + 1)" using up b by (simp add: pow2_nat del: of_int_power)
  then have "1 \<le> pow2 (1 + ?l) * r" using assms by (simp add: divide_le_eq add.commute)
  then have "pow2 (- (1 + ?l)) * 1 \<le> pow2 (- (1 + ?l)) * (pow2 (1 + ?l) * r)"
    by (intro mult_left_mono) simp_all
  then have low: "pow2 (- (1 + ?l)) \<le> r"
    unfolding mult.assoc [symmetric] pow2_inverse by simp
  have "(of_int (2 ^ nat ?l) :: rat) \<le> of_int m" using b by (simp only: of_int_le_iff)
  then have "pow2 ?l \<le> 1 / r" using lo b by (simp add: pow2_nat del: of_int_power)
  then have "pow2 ?l * r \<le> 1" using assms by (simp add: le_divide_eq)
  then have "pow2 (- ?l) * (pow2 ?l * r) \<le> pow2 (- ?l) * 1"
    by (intro mult_left_mono) simp_all
  then have "r \<le> pow2 (- ?l)" unfolding mult.assoc [symmetric] pow2_inverse by simp
  moreover have "log2_rat r = - (1 + ?l)" using False by (simp add: log2_rat_def m_def)
  ultimately show ?thesis using low by simp
qed

lemma log2_rat_less: "0 < r \<Longrightarrow> r < pow2 (k + 1) \<Longrightarrow> log2_rat r \<le> k"
  using log2_rat_bounds [of r] pow2_mono [of "k + 1" "log2_rat r"] by (cases "log2_rat r \<le> k") auto

section \<open>Rounding\<close>

lemma round_half_even_le: "z \<le> of_int m \<Longrightarrow> round_half_even z \<le> m"
  by (auto simp: round_half_even_def Let_def floor_le_iff)

lemma round_half_even_ge: "of_int m \<le> z \<Longrightarrow> m \<le> round_half_even z"
proof -
  assume "of_int m \<le> z"
  then have "m \<le> \<lfloor>z\<rfloor>" by (simp add: le_floor_iff)
  then show ?thesis by (simp add: round_half_even_def Let_def)
qed

text \<open>The magnitude a pattern stands for.\<close>

definition pat_mag :: "int \<Rightarrow> rat" where
  "pat_mag p = (if p div 2 ^ 52 = 0 then of_int (p mod 2 ^ 52) * pow2 (- 1074)
                else of_int (2 ^ 52 + p mod 2 ^ 52) * pow2 (p div 2 ^ 52 - 1075))"

lemma f_mag_pat: "f_mag x = pat_mag (f_pat x)"
  by (simp add: f_mag_def pat_mag_def f_biased_def f_fraction_def)

lemma pat_mag_scaled:
  assumes "0 \<le> s" and "0 \<le> q" and "q \<le> 2 ^ 53" and "s = 0 \<or> 2 ^ 52 \<le> q"
  shows "pat_mag (s * 2 ^ 52 + q) = of_int q * pow2 (s - 1074)"
proof -
  consider "q < 2 ^ 52" | "2 ^ 52 \<le> q" "q < 2 ^ 53" | "q = 2 ^ 53" using assms(3) by linarith
  then show ?thesis
  proof cases
    case 1
    with assms show ?thesis by (simp add: pat_mag_def)
  next
    case 2
    then have "s * 2 ^ 52 + q = (s + 1) * 2 ^ 52 + (q - 2 ^ 52)" by simp
    moreover have "((s + 1) * 2 ^ 52 + (q - 2 ^ 52)) div 2 ^ 52 = s + 1"
      using 2 div_mult_self3 [of "2 ^ 52 :: int" "s + 1" "q - 2 ^ 52"] by simp
    moreover have "(q - 2 ^ 52) mod 2 ^ 52 = q - 2 ^ 52"
      by (rule mod_pos_pos_trivial) (use 2 in simp_all)
    then have "((s + 1) * 2 ^ 52 + (q - 2 ^ 52)) mod 2 ^ 52 = q - 2 ^ 52"
      by (simp only: mod_mult_self3)
    ultimately show ?thesis using assms(1) by (simp add: pat_mag_def algebra_simps)
  next
    case 3
    have "s * 2 ^ 52 + q = (s + 2) * 2 ^ 52" using 3 by simp
    then have "pat_mag (s * 2 ^ 52 + q) = of_int (2 ^ 52) * pow2 (s + 1 - 1074)"
      using assms(1) by (simp add: pat_mag_def)
    also have "\<dots> = of_int q * pow2 (s - 1074)"
      using 3 pow2_add [of 1 "s - 1074"] by (simp add: pow2_nat algebra_simps)
    finally show ?thesis .
  qed
qed

lemma round_pat_le_int:
  assumes "0 \<le> r" and "r \<le> of_int m" and "m < 2 ^ 53"
  shows "0 \<le> round_pat r \<and> round_pat r < inf_pat \<and> pat_mag (round_pat r) \<le> of_int m"
proof (cases "r = 0")
  case True
  then show ?thesis using assms by (simp add: round_pat_def pat_mag_def inf_pat_def)
next
  case False
  then have pos: "0 < r" using assms(1) by simp
  define s where "s = max 0 (log2_rat r + 1022)"
  define z where "z = r * pow2 (1074 - s)"
  define q where "q = round_half_even z"
  have "r < pow2 (52 + 1)" using assms(2,3) by (simp add: pow2_nat)
  then have log: "log2_rat r \<le> 52" using log2_rat_less [OF pos] by blast
  then have s: "0 \<le> s" "s \<le> 1074" by (auto simp: s_def)
  have z0: "0 \<le> z" using pos by (simp add: z_def)
  have up: "z \<le> of_int (2 ^ 53)"
  proof -
    have "log2_rat r + 1 \<le> s - 1021" by (simp add: s_def)
    then have "r \<le> pow2 (s - 1021)"
      using log2_rat_bounds [OF pos] pow2_mono [of "log2_rat r + 1" "s - 1021"] by linarith
    then have "z \<le> pow2 (s - 1021) * pow2 (1074 - s)" unfolding z_def by (rule mult_right_mono) simp
    then show ?thesis by (simp add: pow2_add [symmetric] pow2_nat)
  qed
  have low: "s = 0 \<or> of_int (2 ^ 52) \<le> z"
  proof (cases "s = 0")
    case False
    then have "pow2 (s - 1022) \<le> r" using log2_rat_bounds [OF pos] by (auto simp: s_def)
    then have "pow2 (s - 1022) * pow2 (1074 - s) \<le> z" unfolding z_def by (rule mult_right_mono) simp
    then show ?thesis by (simp add: pow2_add [symmetric] pow2_nat)
  qed simp
  have q: "0 \<le> q" "q \<le> 2 ^ 53" "s = 0 \<or> 2 ^ 52 \<le> q"
    using z0 up low round_half_even_le [of z "2 ^ 53"] round_half_even_ge [of 0 z]
      round_half_even_ge [of "2 ^ 52" z] by (auto simp: q_def)
  have small: "s * 2 ^ 52 + q < inf_pat"
    using s(2) q(2) by (simp add: inf_pat_def)
  have pat: "round_pat r = s * 2 ^ 52 + q"
    using False small by (simp add: round_pat_def s_def [symmetric] z_def [symmetric] q_def [symmetric] Let_def)
  have "z \<le> of_int (m * 2 ^ nat (1074 - s))"
    using assms(2) s(2) unfolding z_def by (simp add: pow2_nat mult_right_mono)
  then have "q \<le> m * 2 ^ nat (1074 - s)" unfolding q_def by (rule round_half_even_le)
  then have "(of_int q :: rat) \<le> of_int (m * 2 ^ nat (1074 - s))" by (simp only: of_int_le_iff)
  then have "of_int q \<le> of_int m * pow2 (1074 - s)" using s(2) by (simp add: pow2_nat)
  then have "of_int q * pow2 (s - 1074) \<le> of_int m * pow2 (1074 - s) * pow2 (s - 1074)"
    by (rule mult_right_mono) simp
  also have "\<dots> = of_int m" using pow2_add [of "1074 - s" "s - 1074"] by (simp add: mult.assoc)
  finally show ?thesis using pat pat_mag_scaled [OF s(1) q] small s(1) q(1) by simp
qed

lemma mk_f64_bits:
  assumes "0 \<le> p" and "p < 2 ^ 63"
  shows "f_pat (mk_f64 n p) = p" and "f_neg (mk_f64 n p) = n"
proof -
  let ?w = "p + (if n then 2 ^ 63 else 0)"
  have "uint (of_int w :: u64) = w" if "0 \<le> w" "w < 2 ^ 64" for w
    using that by (simp add: unsigned_of_int take_bit_int_eq_self)
  from this [of ?w] have u: "uint (of_int ?w :: u64) = ?w" using assms by (cases n) simp_all
  show "f_pat (mk_f64 n p) = p"
    unfolding f_pat_def mk_f64_def f64.sel unsigned_take_bit_eq u
    using assms by (cases n) (simp_all add: take_bit_eq_mod)
  have "bit ?w 63 = n"
    using assms by (simp add: bit_iff_odd div_pos_pos_trivial)
  then show "f_neg (mk_f64 n p) = n"
    unfolding f_neg_def mk_f64_def f64.sel using bit_uint_iff [of "of_int ?w :: u64" 63] unfolding u by simp
qed

text \<open>A result in the range of small integers stays in it.\<close>

definition small_nonneg :: "int \<Rightarrow> f64 \<Rightarrow> bool" where
  "small_nonneg m x \<longleftrightarrow> \<not> f_neg x \<and> f_pat x < inf_pat \<and> f_mag x \<le> of_int m"

lemma small_round:
  assumes "0 \<le> r" and "r \<le> of_int m" and "m < 2 ^ 53"
  shows "small_nonneg m (round_f64 False r)"
proof -
  note b = round_pat_le_int [OF assms]
  then have "round_pat r < 2 ^ 63" by (simp add: inf_pat_def)
  with b show ?thesis
    by (simp add: small_nonneg_def round_f64_def mk_f64_bits f_mag_pat assms(1))
qed

lemma f_mag_nonneg: "0 \<le> f_mag x"
  using f_pat_nonneg [of x] by (simp add: f_mag_def f_fraction_def)

lemma small_finite:
  assumes "small_nonneg m x"
  shows "\<not> is_nan x" "\<not> is_infinite x" "\<not> f_neg x" "f_val x = f_mag x" "0 \<le> f_val x" "f_val x \<le> of_int m"
  using assms f_mag_nonneg [of x]
  by (simp_all add: small_nonneg_def is_nan_def is_infinite_def f_val_def)

lemma small_of_nat: "int n < 2 ^ 53 \<Longrightarrow> small_nonneg (int n) (f_of_nat n)"
  unfolding f_of_nat_def by (rule small_round) simp_all

lemma small_mul:
  assumes "small_nonneg a x" and "small_nonneg b y" and "a * b < 2 ^ 53"
  shows "small_nonneg (a * b) (f_mul x y)"
proof -
  note x = small_finite [OF assms(1)] and y = small_finite [OF assms(2)]
  have "small_nonneg (a * b) (round_f64 False (f_val x * f_val y))"
    by (rule small_round) (use x y assms(3) in \<open>simp_all add: mult_mono\<close>)
  then show ?thesis using x y by (simp add: f_mul_def)
qed

lemma small_floor:
  assumes "small_nonneg m x" and "m < 2 ^ 53"
  shows "small_nonneg m (f_floor x)" and "small_nonneg m (f_ceil x)"
proof -
  note x = small_finite [OF assms(1)]
  have "\<lfloor>f_val x\<rfloor> \<le> m" "0 \<le> \<lfloor>f_val x\<rfloor>" using x by (simp_all add: floor_le_iff)
  then have "small_nonneg m (round_f64 False (of_int \<lfloor>f_val x\<rfloor>))"
    by (intro small_round) (use assms(2) in simp_all)
  then show "small_nonneg m (f_floor x)" using x by (simp add: f_floor_def)
  have "\<lceil>f_val x\<rceil> \<le> m" "0 \<le> \<lceil>f_val x\<rceil>" using x by (simp_all add: ceiling_le_iff)
  then have "small_nonneg m (round_f64 False (of_int \<lceil>f_val x\<rceil>))"
    by (intro small_round) (use assms(2) in simp_all)
  then show "small_nonneg m (f_ceil x)" using x by (simp add: f_ceil_def)
qed

lemma small_to_u64: "small_nonneg m x \<Longrightarrow> 0 \<le> m \<Longrightarrow> int (f_to_u64 x) \<le> m"
  using small_finite [of m x] by (simp add: f_to_u64_def u64_max_def) linarith

end
