(* ===== verification/Statistics.thy ===== *)
theory Statistics
  imports Log_State Float_Bounds "HOL-Library.Multiset"
begin

text \<open>
  \<open>QueryStatisticsCalculator\<close> of \<open>parser_utils.rs\<close>, the records of \<open>models.rs\<close> it fills, the date
  filter, and the latency buckets of \<open>latency.rs\<close>. An index the code takes out of a slice is an
  option: \<open>None\<close> is the panic.
\<close>

section \<open>More of the floats\<close>

function isqrt :: "int \<Rightarrow> int" where
  "isqrt n =
     (if n < 2 then max 0 n
      else let r = 2 * isqrt (n div 4) in if (r + 1) * (r + 1) \<le> n then r + 1 else r)"
  by pat_completeness auto
termination by (relation "measure nat") auto

declare isqrt.simps [simp del]

lemma isqrt_step:
  fixes q n :: int
  assumes "0 \<le> q" and "q * q \<le> n div 4" and "n div 4 < (q + 1) * (q + 1)"
  defines "r \<equiv> if (2 * q + 1) * (2 * q + 1) \<le> n then 2 * q + 1 else 2 * q"
  shows "0 \<le> r \<and> r * r \<le> n \<and> n < (r + 1) * (r + 1)"
proof -
  have lo: "4 * (q * q) \<le> n" using assms(2) by linarith
  have hi: "n < 4 * ((q + 1) * (q + 1))" using assms(3) by linarith
  show ?thesis
    using assms(1) lo hi by (cases "(2 * q + 1) * (2 * q + 1) \<le> n") (simp_all add: r_def algebra_simps)
qed

lemma isqrt_spec: "0 \<le> n \<Longrightarrow> 0 \<le> isqrt n \<and> isqrt n * isqrt n \<le> n \<and> n < (isqrt n + 1) * (isqrt n + 1)"
proof (induction n rule: isqrt.induct)
  case (1 n)
  show ?case
  proof (cases "n < 2")
    case True
    with 1(2) have "n = 0 \<or> n = 1" by auto
    then show ?thesis by (auto simp: isqrt.simps [of 0] isqrt.simps [of 1])
  next
    case False
    let ?q = "isqrt (n div 4)"
    have q: "0 \<le> ?q" "?q * ?q \<le> n div 4" "n div 4 < (?q + 1) * (?q + 1)"
      using 1(1) False by auto
    have "isqrt n = (if (2 * ?q + 1) * (2 * ?q + 1) \<le> n then 2 * ?q + 1 else 2 * ?q)"
      using False by (simp only: isqrt.simps [of n] Let_def if_False)
    then show ?thesis using isqrt_step [OF q] by (simp only:)
  qed
qed

text \<open>\<open>sqrt\<close>, correctly rounded: the integer root of \<open>x * 2 ^ 1200\<close> has more bits than a significand,
  and a last bit records whether it is exact.\<close>

definition f_sqrt :: "f64 \<Rightarrow> f64" where
  "f_sqrt x =
     (if is_nan x \<or> f_pat x = 0 then x
      else if f_neg x then f_nan
      else if is_infinite x then x
      else let n = \<lfloor>f_val x * 2 ^ 1200\<rfloor>; s = isqrt n
           in round_f64 False (of_int (2 * s + (if s * s = n then 0 else 1)) / 2 ^ 601))"

section \<open>Records\<close>

record ExecutionRecord =
  er_timestamp :: int
  er_duration :: f64

record PerformancePercentiles =
  p25 :: f64
  p50 :: f64
  p90 :: f64
  p95 :: f64
  p99 :: f64

record HourlyMetrics =
  hm_count :: nat
  hm_total :: f64
  hm_min :: f64
  hm_max :: f64
  hm_mean :: f64

record GroupDurationStats =
  st_total :: f64
  st_mean :: f64
  st_std_dev :: f64
  st_min :: f64
  st_max :: f64
  st_percentiles :: PerformancePercentiles

record DateFilter =
  since :: "int option"
  until :: "int option"

definition date_matches :: "DateFilter \<Rightarrow> int \<Rightarrow> bool" where
  "date_matches f t =
     (if (case since f of Some s \<Rightarrow> t < s | None \<Rightarrow> False) then False
      else if (case until f of Some u \<Rightarrow> u < t | None \<Rightarrow> False) then False
      else True)"

section \<open>Duration statistics\<close>

definition zero_percentiles :: PerformancePercentiles where
  "zero_percentiles = \<lparr>p25 = f_zero, p50 = f_zero, p90 = f_zero, p95 = f_zero, p99 = f_zero\<rparr>"

definition nth_option :: "'a list \<Rightarrow> nat \<Rightarrow> 'a option" where
  "nth_option xs i = (if i < length xs then Some (xs ! i) else None)"

definition percentile :: "f64 list \<Rightarrow> int \<Rightarrow> f64 option" where
  "percentile sorted_data pct =
     (if sorted_data = [] then Some f_zero
      else
        (let index = f_mul (f_div (f_of_int pct) (f_of_int 100)) (f_of_nat (length sorted_data - 1));
             lower_index = f_to_u64 (f_floor index);
             upper_index = f_to_u64 (f_ceil index)
         in if lower_index = upper_index then nth_option sorted_data lower_index
            else
              (let weight = f_sub index (f_of_nat lower_index)
               in case nth_option sorted_data lower_index of
                    None \<Rightarrow> None
                  | Some lo \<Rightarrow>
                      (case nth_option sorted_data upper_index of
                         None \<Rightarrow> None
                       | Some hi \<Rightarrow>
                           Some (f_add (f_mul lo (f_sub (f_of_int 1) weight)) (f_mul hi weight))))))"

definition percentiles_from_sorted :: "f64 list \<Rightarrow> PerformancePercentiles option" where
  "percentiles_from_sorted xs =
     (case percentile xs 25 of None \<Rightarrow> None | Some a \<Rightarrow>
      (case percentile xs 50 of None \<Rightarrow> None | Some b \<Rightarrow>
       (case percentile xs 90 of None \<Rightarrow> None | Some c \<Rightarrow>
        (case percentile xs 95 of None \<Rightarrow> None | Some d \<Rightarrow>
         (case percentile xs 99 of None \<Rightarrow> None | Some e \<Rightarrow>
            Some \<lparr>p25 = a, p50 = b, p90 = c, p95 = d, p99 = e\<rparr>)))))"

definition calculate_percentiles :: "f64 list \<Rightarrow> PerformancePercentiles option" where
  "calculate_percentiles durations =
     (if durations = [] then Some zero_percentiles else percentiles_from_sorted (sort durations))"

text \<open>The variance with the sample divisor; \<open>powi(2)\<close> is the square.\<close>

definition sample_variance :: "f64 list \<Rightarrow> f64 \<Rightarrow> f64" where
  "sample_variance durations mean =
     f_div (f_sum (map (\<lambda>d. f_mul (f_sub d mean) (f_sub d mean)) durations))
       (f_of_nat (length durations - 1))"

definition calculate_mean_and_std_dev :: "f64 list \<Rightarrow> f64 \<times> f64" where
  "calculate_mean_and_std_dev durations =
     (if durations = [] then (f_zero, f_zero)
      else
        (let mean = f_div (f_sum durations) (f_of_nat (length durations));
             variance = (if length durations < 2 then f_zero else sample_variance durations mean)
         in (mean, f_sqrt variance)))"

text \<open>\<open>min_by\<close> keeps the first minimum, \<open>max_by\<close> the last maximum; under \<open>total_cmp\<close> equal floats
  are identical.\<close>

definition find_min_max :: "f64 list \<Rightarrow> f64 \<times> f64" where
  "find_min_max durations =
     (case durations of
        [] \<Rightarrow> (f_zero, f_zero)
      | d # ds \<Rightarrow> (foldl (\<lambda>a b. if b < a then b else a) d ds, foldl (\<lambda>a b. if a \<le> b then b else a) d ds))"

text \<open>The fused computation; the second component is \<open>durations\<close> after it, sorted in place.\<close>

definition calculate_group_duration_stats :: "f64 list \<Rightarrow> (GroupDurationStats \<times> f64 list) option" where
  "calculate_group_duration_stats durations =
     (if durations = [] then
        Some (\<lparr>st_total = f_zero, st_mean = f_zero, st_std_dev = f_zero, st_min = f_zero,
               st_max = f_zero, st_percentiles = zero_percentiles\<rparr>, [])
      else
        (let total = f_sum durations;
             mean = f_div total (f_of_nat (length durations));
             variance = (if 1 < length durations then sample_variance durations mean else f_zero);
             std_dev = f_sqrt variance;
             durations = sort durations
         in case percentiles_from_sorted durations of
              None \<Rightarrow> None
            | Some p \<Rightarrow>
                Some (\<lparr>st_total = total, st_mean = mean, st_std_dev = std_dev,
                       st_min = durations ! 0, st_max = durations ! (length durations - 1),
                       st_percentiles = p\<rparr>, durations)))"

section \<open>Hourly histogram\<close>

definition ns_per_hour :: int where "ns_per_hour = 3600000000000"

definition hour_key :: "int \<Rightarrow> int" where "hour_key t = t - t mod ns_per_hour"

definition record_execution ::
  "(int \<rightharpoonup> HourlyMetrics) \<Rightarrow> ExecutionRecord \<Rightarrow> (int \<rightharpoonup> HourlyMetrics)" where
  "record_execution histogram e =
     (let d = er_duration e;
          k = hour_key (er_timestamp e);
          entry = (case histogram k of
                     Some m \<Rightarrow> m
                   | None \<Rightarrow> \<lparr>hm_count = 0, hm_total = f_zero, hm_min = d, hm_max = d, hm_mean = f_zero\<rparr>)
      in histogram(k \<mapsto> entry\<lparr>hm_count := hm_count entry + 1, hm_total := f_add (hm_total entry) d,
           hm_min := f_min (hm_min entry) d, hm_max := f_max (hm_max entry) d\<rparr>))"

definition generate_hourly_histogram :: "ExecutionRecord list \<Rightarrow> (int \<rightharpoonup> HourlyMetrics)" where
  "generate_hourly_histogram executions =
     (\<lambda>k. map_option (\<lambda>m. m\<lparr>hm_mean := f_div (hm_total m) (f_of_nat (hm_count m))\<rparr>)
        (foldl record_execution Map.empty executions k))"

section \<open>Latency buckets\<close>

text \<open>The bounds in seconds as the decimal literals of the code.\<close>

definition LATENCY_BUCKET_BOUNDS_SECONDS :: "f64 list" where
  "LATENCY_BUCKET_BOUNDS_SECONDS =
     map (round_f64 False) [1 / 1000, 1 / 100, 1 / 10, 1, 5, 10, 30, 60, 300]"

definition LATENCY_BUCKET_COUNT :: nat where
  "LATENCY_BUCKET_COUNT = length LATENCY_BUCKET_BOUNDS_SECONDS + 1"

fun position :: "('a \<Rightarrow> bool) \<Rightarrow> 'a list \<Rightarrow> nat option" where
  "position f [] = None"
| "position f (x # xs) = (if f x then Some 0 else map_option Suc (position f xs))"

definition latency_bucket_index :: "f64 \<Rightarrow> nat" where
  "latency_bucket_index dur =
     (let seconds = f_div dur (f_of_int 1000)
      in case position (\<lambda>bound. f_le seconds bound) LATENCY_BUCKET_BOUNDS_SECONDS of
           Some i \<Rightarrow> i
         | None \<Rightarrow> length LATENCY_BUCKET_BOUNDS_SECONDS)"


section \<open>Indices stay in range\<close>

lemma small_percent: "0 \<le> pct \<Longrightarrow> pct \<le> 100 \<Longrightarrow> small_nonneg 1 (f_div (f_of_int pct) (f_of_int 100))"
proof -
  assume p: "0 \<le> pct" "pct \<le> 100"
  have eq: "f_of_int 100 = mk_f64 False 0x4059000000000000" by code_simp
  have h: "\<not> is_nan (f_of_int 100) \<and> \<not> is_infinite (f_of_int 100) \<and> f_pat (f_of_int 100) \<noteq> 0 \<and>
      \<not> f_neg (f_of_int 100) \<and> f_val (f_of_int 100) = 100"
    unfolding eq by (simp add: is_nan_def is_infinite_def mk_f64_bits inf_pat_def f_val_def f_mag_pat
        pat_mag_def pow2_def)
  have x: "small_nonneg pct (f_of_int pct)"
    using p small_round [of "of_int pct" pct] by (simp add: f_of_int_def)
  note xf = small_finite [OF x]
  have "small_nonneg 1 (round_f64 False (f_val (f_of_int pct) / 100))"
    by (rule small_round) (use xf p in \<open>auto simp: divide_le_eq\<close>)
  then show ?thesis using h xf by (simp add: f_div_def)
qed

lemma percentile_index:
  assumes "xs \<noteq> []" and "int (length xs) \<le> 2 ^ 53" and "0 \<le> pct" and "pct \<le> 100"
  defines "index \<equiv> f_mul (f_div (f_of_int pct) (f_of_int 100)) (f_of_nat (length xs - 1))"
  shows "f_to_u64 (f_floor index) < length xs" and "f_to_u64 (f_ceil index) < length xs"
proof -
  let ?m = "int (length xs - 1)"
  have m: "?m < 2 ^ 53" "0 \<le> ?m" using assms(1,2) by (cases xs; simp)+
  have "small_nonneg (1 * ?m) index"
    unfolding index_def by (intro small_mul small_percent small_of_nat) (use assms(3,4) m in simp_all)
  then have "small_nonneg ?m (f_floor index)" "small_nonneg ?m (f_ceil index)"
    using small_floor [of ?m index] m(1) by simp_all
  then have "int (f_to_u64 (f_floor index)) \<le> ?m" "int (f_to_u64 (f_ceil index)) \<le> ?m"
    using small_to_u64 m(2) by blast+
  then show "f_to_u64 (f_floor index) < length xs" "f_to_u64 (f_ceil index) < length xs"
    using assms(1) by (cases xs; simp)+
qed

lemma percentile_total:
  assumes "int (length xs) \<le> 2 ^ 53" and "0 \<le> pct" and "pct \<le> 100"
  shows "\<exists>v. percentile xs pct = Some v"
proof (cases "xs = []")
  case False
  then show ?thesis
    using percentile_index [OF False assms] by (simp add: percentile_def nth_option_def Let_def)
qed (simp add: percentile_def)

lemma percentiles_total: "int (length xs) \<le> 2 ^ 53 \<Longrightarrow> \<exists>p. percentiles_from_sorted xs = Some p"
  using percentile_total [of xs 25] percentile_total [of xs 50] percentile_total [of xs 90]
    percentile_total [of xs 95] percentile_total [of xs 99]
  by (auto simp: percentiles_from_sorted_def)

section \<open>Extremes\<close>

lemma foldl_min: "foldl (\<lambda>a b. if b < a then b else a) d ds = Min (set (d # ds))" for d :: "'a::linorder"
proof (induction ds arbitrary: d)
  case (Cons x ds)
  have "Min (insert d (insert x (set ds))) = Min (insert (if x < d then x else d) (set ds))"
    by (cases "ds = []") (auto simp: min_def)
  with Cons show ?case by simp
qed simp

lemma foldl_max: "foldl (\<lambda>a b. if a \<le> b then b else a) d ds = Max (set (d # ds))" for d :: "'a::linorder"
proof (induction ds arbitrary: d)
  case (Cons x ds)
  have "Max (insert d (insert x (set ds))) = Max (insert (if d \<le> x then x else d) (set ds))"
    by (cases "ds = []") (auto simp: max_def)
  with Cons show ?case by simp
qed simp

lemma sort_extremes:
  assumes "xs \<noteq> []"
  shows "sort xs ! 0 = Min (set xs)" and "sort xs ! (length xs - 1) = Max (set xs)"
proof -
  let ?s = "sort xs"
  have len: "length ?s = length xs" "set ?s = set xs" "sorted ?s" by simp_all
  have pos: "0 < length xs" using assms by simp
  have "?s ! 0 \<in> set xs" "?s ! (length xs - 1) \<in> set xs"
    using pos len nth_mem [of 0 ?s] nth_mem [of "length xs - 1" ?s] by simp_all
  moreover have "?s ! 0 \<le> x" "x \<le> ?s ! (length xs - 1)" if x: "x \<in> set xs" for x
  proof -
    obtain i where "i < length xs" "x = ?s ! i" using x len by (metis in_set_conv_nth)
    then show "?s ! 0 \<le> x" "x \<le> ?s ! (length xs - 1)"
      using sorted_nth_mono [OF len(3)] len(1) by auto
  qed
  ultimately show "?s ! 0 = Min (set xs)" "?s ! (length xs - 1) = Max (set xs)"
    by (metis List.finite_set Min_eqI, metis List.finite_set Max_eqI)
qed

section \<open>Histogram\<close>

definition bump :: "HourlyMetrics option \<Rightarrow> f64 \<Rightarrow> HourlyMetrics option" where
  "bump m d =
     (let entry = (case m of Some m \<Rightarrow> m
            | None \<Rightarrow> \<lparr>hm_count = 0, hm_total = f_zero, hm_min = d, hm_max = d, hm_mean = f_zero\<rparr>)
      in Some (entry\<lparr>hm_count := hm_count entry + 1, hm_total := f_add (hm_total entry) d,
           hm_min := f_min (hm_min entry) d, hm_max := f_max (hm_max entry) d\<rparr>))"

definition durations_in_hour :: "int \<Rightarrow> ExecutionRecord list \<Rightarrow> f64 list" where
  "durations_in_hour k es = map er_duration (filter (\<lambda>e. hour_key (er_timestamp e) = k) es)"

lemma foldl_record: "foldl record_execution m es k = foldl bump (m k) (durations_in_hour k es)"
  by (induction es arbitrary: m)
    (auto simp: durations_in_hour_def record_execution_def bump_def Let_def)

lemma foldl_bump:
  "foldl bump (Some m) ds = Some (m\<lparr>hm_count := hm_count m + length ds,
     hm_total := foldl f_add (hm_total m) ds, hm_min := foldl f_min (hm_min m) ds,
     hm_max := foldl f_max (hm_max m) ds\<rparr>)"
  by (induction ds arbitrary: m) (simp_all add: bump_def Let_def)

lemma histogram_hour:
  "generate_hourly_histogram es k =
     (case durations_in_hour k es of
        [] \<Rightarrow> None
      | d # ds \<Rightarrow>
          (let total = foldl f_add f_zero (d # ds)
           in Some \<lparr>hm_count = length (d # ds), hm_total = total, hm_min = foldl f_min d (d # ds),
                hm_max = foldl f_max d (d # ds), hm_mean = f_div total (f_of_nat (length (d # ds)))\<rparr>))"
  by (cases "durations_in_hour k es")
    (simp_all add: generate_hourly_histogram_def foldl_record foldl_bump bump_def Let_def)

section \<open>Properties\<close>

text \<open>The fused statistics of a group never index out of their slice, for any number of
  executions a float can count, and agree with the separate functions: mean and deviation with
  the two-pass ones, minimum and maximum with the extremes under \<open>total_cmp\<close>, percentiles with
  those of the sorted durations; the durations are left sorted.\<close>

theorem group_stats_agree:
  assumes "int (length ds) \<le> 2 ^ 53"
  shows "\<exists>s. calculate_group_duration_stats ds = Some (s, sort ds) \<and>
    (st_mean s, st_std_dev s) = calculate_mean_and_std_dev ds \<and>
    (st_min s, st_max s) = find_min_max ds \<and>
    (ds \<noteq> [] \<longrightarrow> st_min s = Min (set ds) \<and> st_max s = Max (set ds) \<and> st_total s = f_sum ds) \<and>
    calculate_percentiles ds = Some (st_percentiles s)"
proof (cases ds)
  case Nil
  then show ?thesis
    by (simp add: calculate_group_duration_stats_def calculate_mean_and_std_dev_def find_min_max_def
        calculate_percentiles_def)
next
  case (Cons d es)
  then have ne: "ds \<noteq> []" by simp
  obtain p where p: "percentiles_from_sorted (sort ds) = Some p"
    using percentiles_total [of "sort ds"] assms by auto
  have "find_min_max ds = (Min (set ds), Max (set ds))"
    unfolding Cons find_min_max_def list.case foldl_min foldl_max ..
  then show ?thesis
    using ne p sort_extremes [OF ne]
    by (simp add: calculate_group_duration_stats_def calculate_mean_and_std_dev_def
        calculate_percentiles_def Let_def)
qed

theorem group_stats_agree_witness:
  "\<exists>s. calculate_group_duration_stats [f_of_nat 3, f_of_nat 1] = Some (s, sort [f_of_nat 3, f_of_nat 1]) \<and>
     st_min s = Min {f_of_nat 3, f_of_nat 1}"
  using group_stats_agree [of "[f_of_nat 3, f_of_nat 1]"] by auto

text \<open>The hourly histogram has an entry exactly for the hours with executions, and each entry
  holds the count, the total, the extremes and the mean of the durations of that hour, in
  execution order.\<close>

theorem histogram_per_hour:
  "generate_hourly_histogram es k =
     (case durations_in_hour k es of
        [] \<Rightarrow> None
      | d # ds \<Rightarrow>
          (let total = foldl f_add f_zero (d # ds)
           in Some \<lparr>hm_count = length (d # ds), hm_total = total, hm_min = foldl f_min d (d # ds),
                hm_max = foldl f_max d (d # ds), hm_mean = f_div total (f_of_nat (length (d # ds)))\<rparr>)) \<and>
   hour_key t mod ns_per_hour = 0 \<and> hour_key t \<le> t \<and> t < hour_key t + ns_per_hour"
proof -
  have "0 \<le> t mod ns_per_hour" "t mod ns_per_hour < ns_per_hour"
    by (simp_all add: ns_per_hour_def)
  moreover have "hour_key t mod ns_per_hour = 0"
    by (simp add: hour_key_def minus_mod_eq_mult_div)
  ultimately show ?thesis
    unfolding histogram_hour [of es k, symmetric] by (simp add: hour_key_def)
qed

end
