(* ===== verification/Grouping.thy ===== *)
theory Grouping
  imports Lru Statistics Log_Files
begin

text \<open>
  Streaming grouping (\<open>grouping.rs\<close>), the batch grouping it replaces (\<open>get_processed_queries\<close> of
  \<open>log_parser.rs\<close>) and the parallel multi-file driver. A hash map of groups is an association list
  with distinct keys, read through \<open>map_of\<close>. The optional analyses of a \<open>ProcessedQuery\<close> are never
  filled by this code and are left out of the record.
\<close>

section \<open>Groups\<close>

record QueryGroupStatistics =
  qs_count :: nat
  qs_duration :: GroupDurationStats
  qs_min_timestamp :: int
  qs_max_timestamp :: int
  qs_hourly_histogram :: "int \<rightharpoonup> HourlyMetrics"
  qs_executions :: "ExecutionRecord list"

record ProcessedQuery =
  representative_plan :: QueryPlan
  statistics :: QueryGroupStatistics

record GroupAccumulator =
  representative :: QueryPlan
  representative_duration :: f64
  executions :: "ExecutionRecord list"
  min_timestamp :: int
  max_timestamp :: int

definition group_key :: "string \<Rightarrow> string \<Rightarrow> string" where
  "group_key fingerprint db = fingerprint @ [char_of (0x1f :: int)] @ db"

definition execution_of :: "QueryPlan \<Rightarrow> ExecutionRecord" where
  "execution_of p = \<lparr>er_timestamp = timestamp p, er_duration = duration_ms p\<rparr>"

definition new_group :: "QueryPlan \<Rightarrow> GroupAccumulator" where
  "new_group p =
     \<lparr>representative = p, representative_duration = duration_ms p, executions = [execution_of p],
      min_timestamp = timestamp p, max_timestamp = timestamp p\<rparr>"

definition push_group :: "GroupAccumulator \<Rightarrow> QueryPlan \<Rightarrow> GroupAccumulator" where
  "push_group g p =
     (let g = (if timestamp p < min_timestamp g then g\<lparr>min_timestamp := timestamp p\<rparr> else g);
          g = (if max_timestamp g < timestamp p then g\<lparr>max_timestamp := timestamp p\<rparr> else g);
          g = g\<lparr>executions := executions g @ [execution_of p]\<rparr>
      in if representative_duration g \<le> duration_ms p
         then g\<lparr>representative_duration := duration_ms p, representative := p\<rparr> else g)"

definition merge_group :: "GroupAccumulator \<Rightarrow> GroupAccumulator \<Rightarrow> GroupAccumulator" where
  "merge_group g other =
     (let g = (if min_timestamp other < min_timestamp g then g\<lparr>min_timestamp := min_timestamp other\<rparr> else g);
          g = (if max_timestamp g < max_timestamp other then g\<lparr>max_timestamp := max_timestamp other\<rparr> else g);
          g = g\<lparr>executions := executions g @ executions other\<rparr>
      in if representative_duration g \<le> representative_duration other
         then g\<lparr>representative_duration := representative_duration other,
                representative := representative other\<rparr>
         else g)"

definition finalize_group ::
  "QueryPlan \<Rightarrow> ExecutionRecord list \<Rightarrow> int \<Rightarrow> int \<Rightarrow> ProcessedQuery option" where
  "finalize_group p es lo hi =
     (case calculate_group_duration_stats (map er_duration es) of
        None \<Rightarrow> None
      | Some (stats, _) \<Rightarrow>
          Some \<lparr>representative_plan = p,
                statistics = \<lparr>qs_count = length es, qs_duration = stats, qs_min_timestamp = lo,
                  qs_max_timestamp = hi, qs_hourly_histogram = generate_hourly_histogram es,
                  qs_executions = es\<rparr>\<rparr>)"

definition finish_group :: "GroupAccumulator \<Rightarrow> ProcessedQuery option" where
  "finish_group g = finalize_group (representative g) (executions g) (min_timestamp g) (max_timestamp g)"

section \<open>The grouper\<close>

record QueryGrouper =
  groups :: "(string \<times> GroupAccumulator) list"
  cache :: FingerprintCache
  last_fingerprint :: "(u64 \<times> string) option"
  date_filter :: "DateFilter option"
  max_plans :: nat
  folded :: nat
  truncated :: bool
  group_warn_threshold :: nat
  retention_warned :: bool

definition GROUP_RETENTION_WARN_THRESHOLD :: nat where "GROUP_RETENTION_WARN_THRESHOLD = 50000"

definition new_grouper :: QueryGrouper where
  "new_grouper =
     \<lparr>groups = [], cache = default_cache, last_fingerprint = None, date_filter = None, max_plans = 0,
      folded = 0, truncated = False, group_warn_threshold = GROUP_RETENTION_WARN_THRESHOLD,
      retention_warned = False\<rparr>"

definition with_filter :: "QueryGrouper \<Rightarrow> DateFilter \<Rightarrow> QueryGrouper" where
  "with_filter g f = g\<lparr>date_filter := Some f\<rparr>"

definition with_max_plans :: "QueryGrouper \<Rightarrow> nat \<Rightarrow> QueryGrouper" where
  "with_max_plans g n = g\<lparr>max_plans := n\<rparr>"

definition with_group_warn_threshold :: "QueryGrouper \<Rightarrow> nat \<Rightarrow> QueryGrouper" where
  "with_group_warn_threshold g n = g\<lparr>group_warn_threshold := n\<rparr>"

definition set_max_plans :: "QueryGrouper \<Rightarrow> nat \<Rightarrow> QueryGrouper" where
  "set_max_plans g n = g\<lparr>max_plans := n\<rparr>"

definition grouper_is_full :: "QueryGrouper \<Rightarrow> bool" where
  "grouper_is_full g \<longleftrightarrow> 0 < max_plans g \<and> max_plans g \<le> folded g"

definition grouper_mark_truncated :: "QueryGrouper \<Rightarrow> QueryGrouper" where
  "grouper_mark_truncated g = g\<lparr>truncated := True\<rparr>"

definition group_count :: "QueryGrouper \<Rightarrow> nat" where
  "group_count g = length (groups g)"

definition clear_fingerprint_cache :: "QueryGrouper \<Rightarrow> QueryGrouper" where
  "clear_fingerprint_cache g = g\<lparr>cache := cache_clear (cache g), last_fingerprint := None\<rparr>"

definition grouper_fingerprint :: "Normalizer \<Rightarrow> QueryGrouper \<Rightarrow> string \<Rightarrow> string \<times> QueryGrouper" where
  "grouper_fingerprint N g q =
     (let h = query_hash N q;
          slow = (let (fingerprint, c) = fingerprint_for N (cache g) q
                  in (fingerprint, g\<lparr>cache := c, last_fingerprint := Some (h, fingerprint)\<rparr>))
      in case last_fingerprint g of
           Some (last_hash, fingerprint) \<Rightarrow> if last_hash = h then (fingerprint, g) else slow
         | None \<Rightarrow> slow)"

definition warn_if_high_cardinality :: "QueryGrouper \<Rightarrow> QueryGrouper" where
  "warn_if_high_cardinality g =
     (if retention_warned g \<or> length (groups g) < group_warn_threshold g then g
      else g\<lparr>retention_warned := True\<rparr>)"

definition fold_plan :: "Normalizer \<Rightarrow> QueryGrouper \<Rightarrow> QueryPlan \<Rightarrow> QueryGrouper \<times> bool" where
  "fold_plan N g p =
     (if (case date_filter g of Some f \<Rightarrow> \<not> date_matches f (timestamp p) | None \<Rightarrow> False) then (g, False)
      else if grouper_is_full g then (g\<lparr>truncated := True\<rparr>, False)
      else
        (let (fingerprint, g) = grouper_fingerprint N (g\<lparr>folded := folded g + 1\<rparr>) (query_text p);
             key = (case database p of Some db \<Rightarrow> group_key fingerprint db | None \<Rightarrow> fingerprint)
         in (case map_of (groups g) key of
               Some existing \<Rightarrow> g\<lparr>groups := AList.update key (push_group existing p) (groups g)\<rparr>
             | None \<Rightarrow>
                 warn_if_high_cardinality (g\<lparr>groups := AList.update key (new_group p) (groups g)\<rparr>),
             True)))"

definition merge_entry ::
  "(string \<times> GroupAccumulator) list \<Rightarrow> string \<times> GroupAccumulator \<Rightarrow> (string \<times> GroupAccumulator) list" where
  "merge_entry gs e =
     (case map_of gs (fst e) of
        Some existing \<Rightarrow> AList.update (fst e) (merge_group existing (snd e)) gs
      | None \<Rightarrow> AList.update (fst e) (snd e) gs)"

definition merge_grouper :: "QueryGrouper \<Rightarrow> QueryGrouper \<Rightarrow> QueryGrouper" where
  "merge_grouper g other =
     (let g = g\<lparr>folded := folded g + folded other, truncated := truncated g \<or> truncated other\<rparr>;
          g = warn_if_high_cardinality (g\<lparr>groups := foldl merge_entry (groups g) (groups other)\<rparr>)
      in g\<lparr>last_fingerprint := None\<rparr>)"

definition finalize_groups ::
  "(string \<times> GroupAccumulator) list \<Rightarrow> (string \<times> ProcessedQuery) list option" where
  "finalize_groups gs = those (map (\<lambda>(k, g). map_option (Pair k) (finish_group g)) gs)"

definition take_groups :: "QueryGrouper \<Rightarrow> (string \<times> ProcessedQuery) list option \<times> QueryGrouper" where
  "take_groups g =
     (finalize_groups (groups g),
      g\<lparr>folded := 0, truncated := False, last_fingerprint := None, groups := []\<rparr>)"

definition finish_grouper :: "QueryGrouper \<Rightarrow> (string \<times> ProcessedQuery) list option" where
  "finish_grouper g = fst (take_groups g)"

definition grouper_sink :: "Normalizer \<Rightarrow> QueryGrouper PlanSink" where
  "grouper_sink N =
     \<lparr>accept = (\<lambda>g p. fst (fold_plan N g p)), accepted = folded, is_full = grouper_is_full,
      mark_truncated = grouper_mark_truncated\<rparr>"

section \<open>The batch path\<close>

definition batch_fingerprint ::
  "Normalizer \<Rightarrow> FingerprintCache \<times> (string \<times> string) list \<Rightarrow> string \<Rightarrow>
     string \<times> FingerprintCache \<times> (string \<times> string) list" where
  "batch_fingerprint N c q =
     (case map_of (snd c) q of
        Some cached \<Rightarrow> (cached, c)
      | None \<Rightarrow>
          (let (fingerprint, cache) = fingerprint_for N (fst c) q
           in (fingerprint, cache, AList.update q fingerprint (snd c))))"

fun group_indices ::
  "Normalizer \<Rightarrow> FingerprintCache \<times> (string \<times> string) list \<Rightarrow> (string \<times> nat list) list \<Rightarrow>
     nat \<Rightarrow> QueryPlan list \<Rightarrow> (string \<times> nat list) list \<times> FingerprintCache" where
  "group_indices N c gs i [] = (gs, fst c)"
| "group_indices N c gs i (p # ps) =
     (let (fingerprint, c) = batch_fingerprint N c (query_text p);
          key = (case database p of Some db \<Rightarrow> group_key fingerprint db | None \<Rightarrow> fingerprint);
          indices = (case map_of gs key of Some is \<Rightarrow> is | None \<Rightarrow> [])
      in group_indices N c (AList.update key (indices @ [i]) gs) (i + 1) ps)"

text \<open>The fused pass over one group: records, time range and slowest plan.\<close>

record GroupScan =
  sc_executions :: "ExecutionRecord list"
  sc_min :: int
  sc_max :: int
  sc_slowest :: QueryPlan
  sc_duration :: f64

definition scan_plan :: "GroupScan \<Rightarrow> QueryPlan \<Rightarrow> GroupScan" where
  "scan_plan s p =
     (let s = (if timestamp p < sc_min s then s\<lparr>sc_min := timestamp p\<rparr> else s);
          s = (if sc_max s < timestamp p then s\<lparr>sc_max := timestamp p\<rparr> else s);
          s = (if sc_duration s \<le> duration_ms p then s\<lparr>sc_slowest := p, sc_duration := duration_ms p\<rparr> else s)
      in s\<lparr>sc_executions := sc_executions s @ [execution_of p]\<rparr>)"

definition process_query_group ::
  "string \<Rightarrow> nat list \<Rightarrow> QueryPlan list \<Rightarrow> (string \<times> ProcessedQuery) option" where
  "process_query_group fingerprint indices plans =
     (case those (map (nth_option plans) indices) of
        None \<Rightarrow> None
      | Some [] \<Rightarrow> None
      | Some (p # ps) \<Rightarrow>
          (let s = foldl scan_plan \<lparr>sc_executions = [], sc_min = timestamp p, sc_max = timestamp p,
                     sc_slowest = p, sc_duration = duration_ms p\<rparr> (p # ps)
           in map_option (Pair fingerprint)
                (finalize_group (sc_slowest s) (sc_executions s) (sc_min s) (sc_max s))))"

definition get_processed_queries ::
  "Normalizer \<Rightarrow> FingerprintCache \<Rightarrow> QueryPlan list \<Rightarrow>
     (string \<times> ProcessedQuery) list option \<times> FingerprintCache" where
  "get_processed_queries N c plans =
     (let (gs, c) = group_indices N (c, []) [] 0 plans
      in (those (map (\<lambda>(k, is). process_query_group k is plans) gs), c))"

section \<open>Files in parallel\<close>

definition parse_into_grouper ::
  "('v, 'm) LogParser \<Rightarrow> Normalizer \<Rightarrow> Reader \<Rightarrow> int \<Rightarrow> QueryGrouper \<Rightarrow>
     io_error + (QueryGrouper \<times> (f64 \<times> nat) list)" where
  "parse_into_grouper P N rd total_size g = parse_into_sink P (grouper_sink N) rd total_size g"

definition parse_file_into_grouper ::
  "FileSystem \<Rightarrow> ('v, 'm) LogParser \<Rightarrow> Normalizer \<Rightarrow> string \<Rightarrow> QueryGrouper \<Rightarrow>
     io_error + (QueryGrouper \<times> (f64 \<times> nat) list)" where
  "parse_file_into_grouper fs P N path g =
     (case create_reader fs path of
        Inl e \<Rightarrow> Inl e
      | Inr (rd, total_size) \<Rightarrow> parse_into_grouper P N rd total_size g)"

definition parse_file_range_into_grouper ::
  "FileSystem \<Rightarrow> ('v, 'm) LogParser \<Rightarrow> Normalizer \<Rightarrow> string \<Rightarrow> int \<Rightarrow> int option \<Rightarrow> QueryGrouper \<Rightarrow>
     io_error + (QueryGrouper \<times> (f64 \<times> nat) list)" where
  "parse_file_range_into_grouper fs P N path a b g =
     (case create_reader_with_range fs path a b of
        Inl e \<Rightarrow> Inl e
      | Inr (rd, effective_size) \<Rightarrow> parse_into_grouper P N rd effective_size g)"

definition parse_string_into_grouper ::
  "('v, 'm) LogParser \<Rightarrow> Normalizer \<Rightarrow> string \<Rightarrow> QueryGrouper \<Rightarrow>
     io_error + (QueryGrouper \<times> (f64 \<times> nat) list)" where
  "parse_string_into_grouper P N s g = parse_into_grouper P N (cursor s) (int (length s)) g"

text \<open>One worker of the multi-file driver: a file that fails contributes an empty grouper.\<close>

definition file_grouper ::
  "FileSystem \<Rightarrow> ('v, 'm) LogParser \<Rightarrow> Normalizer \<Rightarrow> DateFilter \<Rightarrow> string \<Rightarrow> QueryGrouper" where
  "file_grouper fs P N f path =
     (case parse_file_into_grouper fs P N path (with_filter new_grouper f) of
        Inr (g, _) \<Rightarrow> g
      | Inl _ \<Rightarrow> new_grouper)"

text \<open>\<open>reduce\<close> of rayon combines adjacent results in any bracketing, and may use the identity for an
  empty range. The result that is sent is any of these.\<close>

inductive reduces :: "('a \<Rightarrow> 'a \<Rightarrow> 'a) \<Rightarrow> 'a \<Rightarrow> 'a list \<Rightarrow> 'a \<Rightarrow> bool" for f and e where
  reduces_identity: "reduces f e [] e"
| reduces_item: "reduces f e [x] x"
| reduces_join: "reduces f e xs a \<Longrightarrow> reduces f e ys b \<Longrightarrow> reduces f e (xs @ ys) (f a b)"

definition parse_multiple_files ::
  "FileSystem \<Rightarrow> ('v, 'm) LogParser \<Rightarrow> Normalizer \<Rightarrow> DateFilter \<Rightarrow> string list \<Rightarrow>
     nat \<times> (string \<times> ProcessedQuery) list option \<Rightarrow> bool" where
  "parse_multiple_files fs P N f paths result \<longleftrightarrow>
     (\<exists>g. reduces merge_grouper new_grouper (map (file_grouper fs P N f) paths) g \<and>
          result = (folded g, finish_grouper g))"

section \<open>What a group is\<close>

definition plan_key :: "Normalizer \<Rightarrow> QueryPlan \<Rightarrow> string" where
  "plan_key N p =
     (case database p of
        Some db \<Rightarrow> group_key (fresh_fingerprint N (query_text p)) db
      | None \<Rightarrow> fresh_fingerprint N (query_text p))"

text \<open>The accumulator of a group of plans in order, and the plan it retains: the last of the slowest.\<close>

definition group_of :: "QueryPlan list \<Rightarrow> GroupAccumulator option" where
  "group_of ps = (case ps of [] \<Rightarrow> None | p # ps \<Rightarrow> Some (foldl push_group (new_group p) ps))"

definition slowest :: "QueryPlan list \<Rightarrow> QueryPlan" where
  "slowest ps = last (filter (\<lambda>p. duration_ms p = Max (duration_ms ` set ps)) ps)"

lemma group_of_Nil [simp]: "group_of [] = None"
  by (simp add: group_of_def)

lemma group_of_snoc: "group_of (ps @ [p]) =
    Some (case group_of ps of None \<Rightarrow> new_group p | Some g \<Rightarrow> push_group g p)"
  by (cases ps) (simp_all add: group_of_def)

lemma merge_new: "merge_group g (new_group p) = push_group g p"
  by (simp add: merge_group_def new_group_def push_group_def Let_def)

lemma push_group_fields: "push_group g p =
    \<lparr>representative = (if representative_duration g \<le> duration_ms p then p else representative g),
     representative_duration = max (representative_duration g) (duration_ms p),
     executions = executions g @ [execution_of p],
     min_timestamp = min (min_timestamp g) (timestamp p),
     max_timestamp = max (max_timestamp g) (timestamp p)\<rparr>"
  by (cases "timestamp p < min_timestamp g"; cases "max_timestamp g < timestamp p";
      cases "representative_duration g \<le> duration_ms p")
    (simp_all add: push_group_def Let_def min_def max_def)

lemma merge_group_fields: "merge_group g h =
    \<lparr>representative = (if representative_duration g \<le> representative_duration h then representative h
       else representative g),
     representative_duration = max (representative_duration g) (representative_duration h),
     executions = executions g @ executions h,
     min_timestamp = min (min_timestamp g) (min_timestamp h),
     max_timestamp = max (max_timestamp g) (max_timestamp h)\<rparr>"
  by (cases "min_timestamp h < min_timestamp g"; cases "max_timestamp g < max_timestamp h";
      cases "representative_duration g \<le> representative_duration h")
    (simp_all add: merge_group_def Let_def min_def max_def)

lemma merge_push: "merge_group g (push_group h p) = push_group (merge_group g h) p"
  unfolding push_group_fields merge_group_fields
  by (simp add: min.assoc max.assoc)

lemma group_of_append:
  "group_of (xs @ ys) =
     (case group_of ys of
        None \<Rightarrow> group_of xs
      | Some h \<Rightarrow> Some (case group_of xs of None \<Rightarrow> h | Some g \<Rightarrow> merge_group g h))"
proof (induction ys rule: rev_induct)
  case (snoc y ys)
  let ?add = "\<lambda>g. Some (case g of None \<Rightarrow> new_group y | Some g \<Rightarrow> push_group g y)"
  have l: "group_of (xs @ ys @ [y]) = ?add (group_of (xs @ ys))"
    using group_of_snoc [of "xs @ ys" y] by (simp only: append_assoc)
  have r: "group_of (ys @ [y]) = ?add (group_of ys)" by (rule group_of_snoc)
  show ?case
    unfolding l r snoc.IH
    by (cases "group_of xs"; cases "group_of ys") (simp_all only: option.case merge_new merge_push)
qed simp

lemma slowest_snoc:
  assumes "ps \<noteq> []"
  shows "slowest (ps @ [p]) = (if duration_ms (slowest ps) \<le> duration_ms p then p else slowest ps)"
proof -
  let ?m = "Max (duration_ms ` set ps)"
  have "?m \<in> duration_ms ` set ps" using assms by (intro Max_in) auto
  then have "filter (\<lambda>p. duration_ms p = ?m) ps \<noteq> []" by (auto simp: filter_empty_conv)
  then have "slowest ps \<in> set (filter (\<lambda>p. duration_ms p = ?m) ps)"
    unfolding slowest_def by (rule last_in_set)
  then have m: "duration_ms (slowest ps) = ?m" by simp
  have mx: "Max (duration_ms ` set (ps @ [p])) = max (duration_ms p) ?m" using assms by simp
  have app: "slowest (ps @ [p]) = last (filter (\<lambda>q. duration_ms q = max (duration_ms p) ?m) ps @
      (if duration_ms p = max (duration_ms p) ?m then [p] else []))"
    unfolding slowest_def mx by simp
  show ?thesis
  proof (cases "?m \<le> duration_ms p")
    case True
    then have top: "max (duration_ms p) ?m = duration_ms p" by (rule max_absorb1)
    show ?thesis unfolding app top m using True by simp
  next
    case False
    then show ?thesis
      unfolding app m by (simp add: slowest_def max_def not_le)
  qed
qed

lemma group_of_fields:
  "ps \<noteq> [] \<Longrightarrow> group_of ps = Some
     \<lparr>representative = slowest ps, representative_duration = duration_ms (slowest ps),
      executions = map execution_of ps, min_timestamp = Min (timestamp ` set ps),
      max_timestamp = Max (timestamp ` set ps)\<rparr>"
proof (induction ps rule: rev_induct)
  case (snoc p ps)
  show ?case
  proof (cases "ps = []")
    case True
    then show ?thesis by (simp add: group_of_def new_group_def slowest_def)
  next
    case False
    have "Min (timestamp ` set (ps @ [p])) = min (timestamp p) (Min (timestamp ` set ps))"
      "Max (timestamp ` set (ps @ [p])) = max (timestamp p) (Max (timestamp ` set ps))"
      using False by simp_all
    then show ?thesis
      using snoc.IH [OF False] unfolding slowest_snoc [OF False]
      by (auto simp: group_of_snoc push_group_def Let_def min_def max_def)
  qed
qed simp

section \<open>Folding\<close>

definition known :: "Normalizer \<Rightarrow> string set \<Rightarrow> (u64 \<times> string) option \<Rightarrow> bool" where
  "known N Q l \<longleftrightarrow> (case l of None \<Rightarrow> True | Some (h, f) \<Rightarrow> \<exists>q \<in> Q. query_hash N q = h \<and> fresh_fingerprint N q = f)"

definition grouped_as :: "Normalizer \<Rightarrow> (string \<times> GroupAccumulator) list \<Rightarrow> QueryPlan list \<Rightarrow> bool" where
  "grouped_as N gs ps \<longleftrightarrow>
     distinct (map fst gs) \<and> (\<forall>k. map_of gs k = group_of (filter (\<lambda>p. plan_key N p = k) ps))"

definition grouper_ok :: "Normalizer \<Rightarrow> string set \<Rightarrow> QueryGrouper \<Rightarrow> QueryPlan list \<Rightarrow> bool" where
  "grouper_ok N Q g ps \<longleftrightarrow>
     grouped_as N (groups g) ps \<and> folded g = length ps \<and>
     cache_ok (cache g) \<and> cached_fingerprints N Q (cache g) \<and> known N Q (last_fingerprint g)"

lemma grouper_ok_new: "grouper_ok N Q new_grouper []"
  by (simp add: grouper_ok_def new_grouper_def grouped_as_def known_def default_cache_def cache_ok_empty
      cached_fingerprints_empty)

lemma grouper_ok_config:
  "grouper_ok N Q (with_filter g f) ps = grouper_ok N Q g ps"
  "grouper_ok N Q (with_max_plans g n) ps = grouper_ok N Q g ps"
  "grouper_ok N Q (g\<lparr>truncated := b\<rparr>) ps = grouper_ok N Q g ps"
  by (simp_all add: grouper_ok_def with_filter_def with_max_plans_def)

lemma grouper_fingerprint_ok:
  assumes inj: "inj_on (query_hash N) Q" and q: "q \<in> Q"
    and ok: "cache_ok (cache g)" "cached_fingerprints N Q (cache g)" "known N Q (last_fingerprint g)"
  obtains c l where "grouper_fingerprint N g q =
      (fresh_fingerprint N q, g\<lparr>cache := c, last_fingerprint := l\<rparr>)"
    and "cache_ok c" and "cached_fingerprints N Q c" and "known N Q l"
proof (cases "\<exists>f. last_fingerprint g = Some (query_hash N q, f)")
  case True
  then obtain f where f: "last_fingerprint g = Some (query_hash N q, f)" by blast
  then have "f = fresh_fingerprint N q"
    using ok(3) inj q unfolding known_def inj_on_def by auto
  then have "grouper_fingerprint N g q = (fresh_fingerprint N q, g)"
    using f by (simp add: grouper_fingerprint_def Let_def)
  then show ?thesis using that [of "last_fingerprint g" "cache g"] ok by simp
next
  case False
  from fingerprint_for_step [OF ok(1) inj q ok(2)] obtain c where c:
    "fingerprint_for N (cache g) q = (fresh_fingerprint N q, c)" "cache_ok c" "cached_fingerprints N Q c" .
  have "grouper_fingerprint N g q = (fresh_fingerprint N q,
      g\<lparr>cache := c, last_fingerprint := Some (query_hash N q, fresh_fingerprint N q)\<rparr>)"
    using False c(1) by (auto simp: grouper_fingerprint_def Let_def split: option.split)
  then show ?thesis using c(2,3) q by (intro that) (auto simp: known_def)
qed

lemma grouped_as_update:
  assumes "grouped_as N gs ps"
  shows "grouped_as N (AList.update (plan_key N p)
      (case map_of gs (plan_key N p) of Some g \<Rightarrow> push_group g p | None \<Rightarrow> new_group p) gs) (ps @ [p])"
  using assms unfolding grouped_as_def
  by (auto simp: distinct_update update_conv' group_of_snoc split: option.split)

definition in_window :: "DateFilter option \<Rightarrow> QueryPlan \<Rightarrow> bool" where
  "in_window f p = (case f of Some f \<Rightarrow> date_matches f (timestamp p) | None \<Rightarrow> True)"

lemma fold_plan_config:
  "date_filter (fst (fold_plan N g p)) = date_filter g \<and> max_plans (fst (fold_plan N g p)) = max_plans g"
  by (auto simp: fold_plan_def grouper_fingerprint_def warn_if_high_cardinality_def Let_def case_prod_unfold
      split: option.split)

lemma fold_plan_ok:
  assumes ok: "grouper_ok N Q g ps" and inj: "inj_on (query_hash N) Q" and q: "query_text p \<in> Q"
  shows "grouper_ok N Q (fst (fold_plan N g p))
    (if in_window (date_filter g) p \<and> \<not> grouper_is_full g then ps @ [p] else ps)"
proof (cases "in_window (date_filter g) p \<and> \<not> grouper_is_full g")
  case True
  let ?g = "g\<lparr>folded := folded g + 1\<rparr>"
  have "cache_ok (cache ?g)" "cached_fingerprints N Q (cache ?g)" "known N Q (last_fingerprint ?g)"
    using ok by (simp_all add: grouper_ok_def)
  from grouper_fingerprint_ok [OF inj q this] obtain c l where
    f: "grouper_fingerprint N ?g (query_text p) =
      (fresh_fingerprint N (query_text p), ?g\<lparr>cache := c, last_fingerprint := l\<rparr>)"
    and c: "cache_ok c" "cached_fingerprints N Q c" "known N Q l" by metis
  have k: "(case database p of Some db \<Rightarrow> group_key (fresh_fingerprint N (query_text p)) db
      | None \<Rightarrow> fresh_fingerprint N (query_text p)) = plan_key N p"
    by (simp add: plan_key_def)
  have "groups (fst (fold_plan N g p)) = AList.update (plan_key N p)
      (case map_of (groups g) (plan_key N p) of Some g \<Rightarrow> push_group g p | None \<Rightarrow> new_group p) (groups g) \<and>
    folded (fst (fold_plan N g p)) = folded g + 1 \<and> cache (fst (fold_plan N g p)) = c \<and>
    last_fingerprint (fst (fold_plan N g p)) = l"
    using True f k
    by (auto simp: fold_plan_def in_window_def warn_if_high_cardinality_def Let_def split: option.split)
  then show ?thesis
    using True ok c grouped_as_update [of N "groups g" ps p] by (simp add: grouper_ok_def)
next
  case False
  then have "fst (fold_plan N g p) = g \<or> fst (fold_plan N g p) = g\<lparr>truncated := True\<rparr>"
    by (auto simp: fold_plan_def in_window_def split: option.splits)
  then show ?thesis using False ok by (auto simp: grouper_ok_config)
qed

text \<open>The plans a grouper admits: those in the window, the first \<open>n\<close> of them under a cap.\<close>

definition admitted :: "DateFilter option \<Rightarrow> nat \<Rightarrow> QueryPlan list \<Rightarrow> QueryPlan list" where
  "admitted f n ps = (let ms = filter (in_window f) ps in if n = 0 then ms else take n ms)"

definition fold_plans :: "Normalizer \<Rightarrow> QueryGrouper \<Rightarrow> QueryPlan list \<Rightarrow> QueryGrouper" where
  "fold_plans N g ps = foldl (\<lambda>g p. fst (fold_plan N g p)) g ps"

lemma fold_plans_config:
  "date_filter (fold_plans N g ps) = date_filter g \<and> max_plans (fold_plans N g ps) = max_plans g"
  unfolding fold_plans_def by (induction ps arbitrary: g) (simp_all add: fold_plan_config)

lemma admitted_snoc:
  "admitted f n (ps @ [p]) =
     (if in_window f p \<and> \<not> (0 < n \<and> n \<le> length (admitted f n ps)) then admitted f n ps @ [p] else admitted f n ps)"
  by (auto simp: admitted_def Let_def)

lemma fold_plans_ok:
  assumes inj: "inj_on (query_hash N) Q" and ok: "grouper_ok N Q g []"
  shows "query_text ` set ps \<subseteq> Q \<Longrightarrow>
    grouper_ok N Q (fold_plans N g ps) (admitted (date_filter g) (max_plans g) ps)"
proof (induction ps rule: rev_induct)
  case Nil
  with ok show ?case by (simp add: fold_plans_def admitted_def)
next
  case (snoc p ps)
  let ?g = "fold_plans N g ps"
  have ih: "grouper_ok N Q ?g (admitted (date_filter g) (max_plans g) ps)" using snoc by simp
  then have "folded ?g = length (admitted (date_filter g) (max_plans g) ps)" by (simp add: grouper_ok_def)
  then have "grouper_is_full ?g \<longleftrightarrow>
      0 < max_plans g \<and> max_plans g \<le> length (admitted (date_filter g) (max_plans g) ps)"
    using fold_plans_config [of N g ps] by (simp add: grouper_is_full_def)
  moreover have "fold_plans N g (ps @ [p]) = fst (fold_plan N ?g p)" by (simp add: fold_plans_def)
  moreover have "query_text p \<in> Q" using snoc.prems by simp
  note fold_plan_ok [OF ih inj this]
  ultimately show ?case
    using fold_plans_config [of N g ps] by (simp only: admitted_snoc)
qed

section \<open>Merging\<close>

lemma merge_entries:
  "distinct (map fst os) \<Longrightarrow> map_of (foldl merge_entry gs os) k =
     (case map_of os k of
        None \<Rightarrow> map_of gs k
      | Some h \<Rightarrow> Some (case map_of gs k of None \<Rightarrow> h | Some g \<Rightarrow> merge_group g h))"
proof (induction os arbitrary: gs)
  case (Cons e os)
  have "map_of (merge_entry gs e) k =
      (if k = fst e then Some (case map_of gs k of None \<Rightarrow> snd e | Some g \<Rightarrow> merge_group g (snd e))
       else map_of gs k)"
    by (auto simp: merge_entry_def update_conv' split: option.split)
  moreover have "k = fst e \<Longrightarrow> map_of os k = None" using Cons.prems by (simp add: map_of_eq_None_iff)
  ultimately show ?case
    using Cons.IH [of "merge_entry gs e"] Cons.prems
    by (cases e; cases "k = fst e") (simp_all cong: option.case_cong)
qed simp

lemma merge_entries_distinct: "distinct (map fst gs) \<Longrightarrow> distinct (map fst (foldl merge_entry gs os))"
  by (induction os arbitrary: gs) (simp_all add: merge_entry_def distinct_update split: option.split)

lemma grouped_as_merge:
  assumes "grouped_as N gs ps" and "grouped_as N os qs"
  shows "grouped_as N (foldl merge_entry gs os) (ps @ qs)"
  using assms unfolding grouped_as_def
  by (simp add: merge_entries merge_entries_distinct group_of_append cong: option.case_cong)

lemma merge_grouper_ok:
  "grouper_ok N Q g ps \<Longrightarrow> grouper_ok N Q h qs \<Longrightarrow> grouper_ok N Q (merge_grouper g h) (ps @ qs)"
  by (simp add: grouper_ok_def merge_grouper_def warn_if_high_cardinality_def grouped_as_merge known_def Let_def)

lemma reduces_ok:
  assumes "reduces merge_grouper new_grouper gs g"
  shows "list_all2 (grouper_ok N Q) gs pss \<Longrightarrow> grouper_ok N Q g (concat pss)"
  using assms
proof (induction arbitrary: pss rule: reduces.induct)
  case (reduces_join xs a ys b)
  from reduces_join.prems obtain us vs where "pss = us @ vs" "list_all2 (grouper_ok N Q) xs us"
    "list_all2 (grouper_ok N Q) ys vs" by (auto simp: list_all2_append1)
  with reduces_join.IH merge_grouper_ok show ?case by simp
qed (auto simp: grouper_ok_new list_all2_Cons1)

section \<open>Finishing\<close>

lemma finalize_group_total:
  assumes "int (length es) \<le> 2 ^ 53"
  shows "\<exists>q. finalize_group p es lo hi = Some q \<and> representative_plan q = p \<and>
    qs_executions (statistics q) = es \<and> qs_count (statistics q) = length es \<and>
    qs_min_timestamp (statistics q) = lo \<and> qs_max_timestamp (statistics q) = hi \<and>
    qs_hourly_histogram (statistics q) = generate_hourly_histogram es"
proof -
  obtain p where "percentiles_from_sorted (sort (map er_duration es)) = Some p"
    using percentiles_total [of "sort (map er_duration es)"] assms by auto
  then show ?thesis
    by (simp add: finalize_group_def calculate_group_duration_stats_def Let_def)
qed

lemma group_size:
  "group_of ps = Some g \<Longrightarrow> executions g = map execution_of ps \<and> length (executions g) = length ps"
  by (cases "ps = []") (auto simp: group_of_fields)

lemma finish_group_total:
  "group_of ps = Some g \<Longrightarrow> int (length ps) \<le> 2 ^ 53 \<Longrightarrow> \<exists>q. finish_group g = Some q"
  using group_size [of ps g] finalize_group_total [of "executions g" "representative g"]
  by (metis finish_group_def)

lemma those_keyed:
  assumes "\<And>k v. (k, v) \<in> set xs \<Longrightarrow> \<exists>y. f k v = Some y"
  shows "\<exists>ys. those (map (\<lambda>(k, v). map_option (Pair k) (f k v)) xs) = Some ys \<and> map fst ys = map fst xs \<and>
    (\<forall>k. map_of ys k = Option.bind (map_of xs k) (f k))"
  using assms
proof (induction xs)
  case (Cons x xs)
  obtain k v where x: "x = (k, v)" by (cases x)
  obtain y where y: "f k v = Some y" using Cons.prems x by auto
  have "\<exists>y. f k v = Some y" if "(k, v) \<in> set xs" for k v using Cons.prems [of k v] that by simp
  from Cons.IH [OF this] obtain ys where
    "those (map (\<lambda>(k, v). map_option (Pair k) (f k v)) xs) = Some ys" "map fst ys = map fst xs"
    "\<forall>k. map_of ys k = Option.bind (map_of xs k) (f k)" by blast
  then show ?case using x y by (intro exI [of _ "(k, y) # ys"]) simp
qed simp

text \<open>The group a key stands for, finished.\<close>

definition group_result :: "Normalizer \<Rightarrow> QueryPlan list \<Rightarrow> string \<Rightarrow> ProcessedQuery option" where
  "group_result N ps k = Option.bind (group_of (filter (\<lambda>p. plan_key N p = k) ps)) finish_group"

lemma group_result_fields:
  assumes "same = filter (\<lambda>p. plan_key N p = k) ps" and "same \<noteq> []" and "int (length ps) \<le> 2 ^ 53"
  shows "\<exists>q. group_result N ps k = Some q \<and> representative_plan q = slowest same \<and>
    qs_executions (statistics q) = map execution_of same \<and> qs_count (statistics q) = length same \<and>
    qs_min_timestamp (statistics q) = Min (timestamp ` set same) \<and>
    qs_max_timestamp (statistics q) = Max (timestamp ` set same) \<and>
    qs_hourly_histogram (statistics q) = generate_hourly_histogram (map execution_of same)"
proof -
  have "length same \<le> length ps" by (simp add: assms(1))
  then have "int (length (map execution_of same)) \<le> 2 ^ 53" using assms(3) by simp
  from finalize_group_total [OF this, of "slowest same" "Min (timestamp ` set same)" "Max (timestamp ` set same)"]
  show ?thesis
    by (simp add: group_result_def assms(1)[symmetric] group_of_fields [OF assms(2)] finish_group_def)
qed

lemma finalize_groups_result:
  assumes g: "grouped_as N gs ps" and len: "int (length ps) \<le> 2 ^ 53"
  shows "\<exists>rs. finalize_groups gs = Some rs \<and> distinct (map fst rs) \<and> (\<forall>k. map_of rs k = group_result N ps k)"
proof -
  have "\<exists>y. finish_group v = Some y" if "(k, v) \<in> set gs" for k v
  proof -
    have "distinct (map fst gs)" using g by (simp only: grouped_as_def)
    from map_of_is_SomeI [OF this that] have "map_of gs k = Some v" .
    moreover have "map_of gs k = group_of (filter (\<lambda>p. plan_key N p = k) ps)" using g by (simp only: grouped_as_def)
    ultimately have v: "group_of (filter (\<lambda>p. plan_key N p = k) ps) = Some v" by (simp only:)
    have "int (length (filter (\<lambda>p. plan_key N p = k) ps)) \<le> int (length ps)" by simp
    with len have "int (length (filter (\<lambda>p. plan_key N p = k) ps)) \<le> 2 ^ 53" by linarith
    with v show ?thesis by (rule finish_group_total)
  qed
  then have "\<exists>ys. those (map (\<lambda>(k, v). map_option (Pair k) (finish_group v)) gs) = Some ys \<and>
      map fst ys = map fst gs \<and> (\<forall>k. map_of ys k = Option.bind (map_of gs k) finish_group)"
    by (intro those_keyed) blast
  then show ?thesis
    using g unfolding finalize_groups_def grouped_as_def group_result_def by auto
qed

section \<open>The batch path computes the same groups\<close>

definition scan_of :: "GroupAccumulator \<Rightarrow> GroupScan" where
  "scan_of g =
     \<lparr>sc_executions = executions g, sc_min = min_timestamp g, sc_max = max_timestamp g,
      sc_slowest = representative g, sc_duration = representative_duration g\<rparr>"

lemma scan_push: "scan_plan (scan_of g) p = scan_of (push_group g p)"
  by (simp add: scan_plan_def scan_of_def push_group_def Let_def)

lemma foldl_scan: "foldl scan_plan (scan_of g) ps = scan_of (foldl push_group g ps)"
  by (induction ps arbitrary: g) (simp_all add: scan_push)

lemma scan_first:
  "scan_plan \<lparr>sc_executions = [], sc_min = timestamp p, sc_max = timestamp p, sc_slowest = p,
     sc_duration = duration_ms p\<rparr> p = scan_of (new_group p)"
  by (simp add: scan_plan_def scan_of_def new_group_def Let_def)

definition key_indices :: "Normalizer \<Rightarrow> QueryPlan list \<Rightarrow> nat \<Rightarrow> string \<Rightarrow> nat list" where
  "key_indices N plans n k = filter (\<lambda>i. plan_key N (plans ! i) = k) [0..<n]"

lemma key_plans:
  "map ((!) plans) (key_indices N plans (length plans) k) = filter (\<lambda>p. plan_key N p = k) plans"
  using filter_map [of "\<lambda>p. plan_key N p = k" "(!) plans" "[0..<length plans]"]
  by (simp add: key_indices_def map_nth comp_def)

lemma those_nth_option:
  "\<forall>i \<in> set is. i < length xs \<Longrightarrow> those (map (nth_option xs) is) = Some (map ((!) xs) is)"
  by (induction "is") (simp_all add: nth_option_def)

lemma process_key_group:
  assumes "key_indices N plans (length plans) k \<noteq> []"
  shows "process_query_group k (key_indices N plans (length plans) k) plans =
    map_option (Pair k) (group_result N plans k)"
proof -
  have "\<forall>i \<in> set (key_indices N plans (length plans) k). i < length plans"
    by (simp add: key_indices_def)
  from those_nth_option [OF this] have t: "those (map (nth_option plans) (key_indices N plans (length plans) k)) =
      Some (filter (\<lambda>p. plan_key N p = k) plans)" by (simp add: key_plans)
  obtain p ps where f: "filter (\<lambda>p. plan_key N p = k) plans = p # ps"
    using assms key_plans [of plans N k] by (cases "filter (\<lambda>p. plan_key N p = k) plans") auto
  have s: "foldl scan_plan \<lparr>sc_executions = [], sc_min = timestamp p, sc_max = timestamp p, sc_slowest = p,
      sc_duration = duration_ms p\<rparr> (p # ps) = scan_of (foldl push_group (new_group p) ps)"
    by (simp add: scan_first foldl_scan)
  show ?thesis
    unfolding process_query_group_def t f option.case list.case s Let_def
    by (simp add: group_result_def f group_of_def finish_group_def scan_of_def)
qed

definition batch_ok :: "Normalizer \<Rightarrow> string set \<Rightarrow> FingerprintCache \<times> (string \<times> string) list \<Rightarrow> bool" where
  "batch_ok N Q c \<longleftrightarrow> cache_ok (fst c) \<and> cached_fingerprints N Q (fst c) \<and>
     (\<forall>q f. map_of (snd c) q = Some f \<longrightarrow> f = fresh_fingerprint N q)"

lemma batch_fingerprint_ok:
  assumes inj: "inj_on (query_hash N) Q" and q: "q \<in> Q" and ok: "batch_ok N Q c"
  obtains c' where "batch_fingerprint N c q = (fresh_fingerprint N q, c')" and "batch_ok N Q c'"
proof (cases "map_of (snd c) q")
  case (Some f)
  then have "f = fresh_fingerprint N q" using ok by (auto simp: batch_ok_def)
  then have "batch_fingerprint N c q = (fresh_fingerprint N q, c)"
    using Some by (simp add: batch_fingerprint_def)
  with ok show ?thesis using that by blast
next
  case None
  have "cache_ok (fst c)" "cached_fingerprints N Q (fst c)" using ok by (simp_all add: batch_ok_def)
  from fingerprint_for_step [OF this(1) inj q this(2)] obtain c' where
    "fingerprint_for N (fst c) q = (fresh_fingerprint N q, c')" "cache_ok c'" "cached_fingerprints N Q c'" .
  then show ?thesis
    using None ok
    by (intro that [of "(c', AList.update q (fresh_fingerprint N q) (snd c))"])
      (auto simp: batch_fingerprint_def batch_ok_def update_conv' split: if_splits)
qed

definition indexed_as :: "Normalizer \<Rightarrow> QueryPlan list \<Rightarrow> (string \<times> nat list) list \<Rightarrow> nat \<Rightarrow> bool" where
  "indexed_as N plans gs n \<longleftrightarrow> distinct (map fst gs) \<and>
     (\<forall>k. map_of gs k = (if key_indices N plans n k = [] then None else Some (key_indices N plans n k)))"

lemma indexed_as_step:
  assumes "indexed_as N plans gs n"
  shows "indexed_as N plans
    (AList.update (plan_key N (plans ! n))
      ((case map_of gs (plan_key N (plans ! n)) of Some is \<Rightarrow> is | None \<Rightarrow> []) @ [n]) gs) (n + 1)"
  using assms by (auto simp: indexed_as_def distinct_update update_conv' key_indices_def)

lemma group_indices_ok:
  assumes inj: "inj_on (query_hash N) Q"
  shows "batch_ok N Q c \<Longrightarrow> indexed_as N plans gs i \<Longrightarrow> query_text ` set ps \<subseteq> Q \<Longrightarrow>
    i + length ps = length plans \<Longrightarrow> ps = drop i plans \<Longrightarrow>
    indexed_as N plans (fst (group_indices N c gs i ps)) (length plans)"
proof (induction ps arbitrary: c gs i)
  case (Cons p ps)
  have p: "p = plans ! i" "ps = drop (i + 1) plans"
    using Cons.prems(4,5) by (metis length_Cons less_add_same_cancel1 nth_via_drop zero_less_Suc,
      metis Cons.prems(5) add.commute drop_Suc list.sel(3) plus_1_eq_Suc tl_drop)
  obtain c' where c': "batch_fingerprint N c (query_text p) = (fresh_fingerprint N (query_text p), c')"
      "batch_ok N Q c'"
    using batch_fingerprint_ok [OF inj _ Cons.prems(1), of "query_text p"] Cons.prems(3) by auto
  have k: "(case database p of Some db \<Rightarrow> group_key (fresh_fingerprint N (query_text p)) db
      | None \<Rightarrow> fresh_fingerprint N (query_text p)) = plan_key N p"
    by (simp add: plan_key_def)
  let ?gs = "AList.update (plan_key N p) ((case map_of gs (plan_key N p) of Some is \<Rightarrow> is | None \<Rightarrow> []) @ [i]) gs"
  have "indexed_as N plans ?gs (i + 1)"
    using indexed_as_step [OF Cons.prems(2)] unfolding p(1) .
  moreover have "group_indices N c gs i (p # ps) = group_indices N c' ?gs (i + 1) ps"
    unfolding group_indices.simps c'(1) Let_def prod.case k ..
  ultimately show ?case
    using Cons.IH [OF c'(2), of ?gs "i + 1"] Cons.prems(3,4) p(2) by simp
qed simp

lemma batch_result:
  assumes inj: "inj_on (query_hash N) Q" and Q: "query_text ` set ps \<subseteq> Q"
    and c: "cache_ok c" "cached_fingerprints N Q c" and len: "int (length ps) \<le> 2 ^ 53"
  shows "\<exists>rs. fst (get_processed_queries N c ps) = Some rs \<and> distinct (map fst rs) \<and>
    (\<forall>k. map_of rs k = group_result N ps k)"
proof -
  let ?gs = "fst (group_indices N (c, []) [] 0 ps)"
  have "batch_ok N Q (c, [])" using c by (simp add: batch_ok_def)
  from group_indices_ok [OF inj this, of ps "[]" 0 ps] Q have i: "indexed_as N ps ?gs (length ps)"
    by (simp add: indexed_as_def key_indices_def)
  define f where "f k = (\<lambda>_ :: nat list. group_result N ps k)" for k
  have e: "process_query_group k is ps = map_option (Pair k) (f k is) \<and> (\<exists>y. f k is = Some y)"
    if "(k, is) \<in> set ?gs" for k "is"
  proof -
    have "distinct (map fst ?gs)" using i by (simp only: indexed_as_def)
    from map_of_is_SomeI [OF this that] have "map_of ?gs k = Some is" .
    then have k: "is = key_indices N ps (length ps) k" "is \<noteq> []"
      using i by (auto simp: indexed_as_def split: if_splits)
    have "filter (\<lambda>p. plan_key N p = k) ps \<noteq> []" using k key_plans [of ps N k] by auto
    then obtain g where g: "group_of (filter (\<lambda>p. plan_key N p = k) ps) = Some g"
      using group_of_fields by blast
    have "int (length (filter (\<lambda>p. plan_key N p = k) ps)) \<le> int (length ps)" by simp
    with len have "int (length (filter (\<lambda>p. plan_key N p = k) ps)) \<le> 2 ^ 53" by linarith
    from finish_group_total [OF g this] show ?thesis
      using process_key_group k by (auto simp: f_def group_result_def g)
  qed
  have "map (\<lambda>(k, is). process_query_group k is ps) ?gs = map (\<lambda>(k, is). map_option (Pair k) (f k is)) ?gs"
    using e by (intro map_cong) auto
  moreover have "\<exists>ys. those (map (\<lambda>(k, is). map_option (Pair k) (f k is)) ?gs) = Some ys \<and>
      map fst ys = map fst ?gs \<and> (\<forall>k. map_of ys k = Option.bind (map_of ?gs k) (f k))"
    using e by (intro those_keyed) blast
  moreover have "Option.bind (map_of ?gs k) (f k) = group_result N ps k" for k
    using i key_plans [of ps N k] by (auto simp: indexed_as_def f_def group_result_def)
  moreover have "fst (get_processed_queries N c ps) = those (map (\<lambda>(k, is). process_query_group k is ps) ?gs)"
    by (simp add: get_processed_queries_def case_prod_unfold Let_def)
  moreover have "distinct (map fst ?gs)" using i by (simp only: indexed_as_def)
  ultimately show ?thesis by metis
qed

section \<open>The grouper is a plan sink\<close>

text \<open>Its contents are all of its state but the mark of truncation.\<close>

definition grouper_contents :: "QueryGrouper \<Rightarrow> QueryGrouper" where
  "grouper_contents g = g\<lparr>truncated := False\<rparr>"

lemma fold_full:
  "grouper_is_full g \<Longrightarrow> fst (fold_plan N g p) = g \<or> fst (fold_plan N g p) = g\<lparr>truncated := True\<rparr>"
  by (auto simp: fold_plan_def split: option.split)

lemma fold_grows: "folded g \<le> folded (fst (fold_plan N g p))"
  by (auto simp: fold_plan_def grouper_fingerprint_def warn_if_high_cardinality_def Let_def case_prod_unfold
      split: option.split)

interpretation grp: plan_sink "grouper_sink N" grouper_contents for N
proof unfold_locales
  fix g p
  assume "is_full (grouper_sink N) g"
  then have f: "grouper_is_full g" by (simp add: grouper_sink_def)
  from fold_full [OF this, of N p] show "is_full (grouper_sink N) (accept (grouper_sink N) g p)"
    using f by (auto simp: grouper_sink_def grouper_is_full_def)
  from fold_full [OF f, of N p]
  show "grouper_contents (accept (grouper_sink N) g p) = grouper_contents g"
    by (auto simp: grouper_sink_def grouper_contents_def)
qed (auto simp: grouper_sink_def grouper_contents_def grouper_mark_truncated_def fold_grows)

lemma parse_into_grouper_plans:
  assumes "parse_with_progress P rd t = Inr ps" and "\<not> broken rd"
  shows "\<exists>g1 calls. parse_into_grouper P N rd t g = Inr (g1, calls) \<and>
    grouper_contents g1 = grouper_contents (fold_plans N g ps)"
  using grp.parse_contents [OF assms, of N g]
  by (simp add: parse_into_grouper_def fold_plans_def grouper_sink_def)

section \<open>The driver\<close>

text \<open>The plans a file contributes: those of its window, none when it cannot be opened or read.\<close>

definition file_plans ::
  "FileSystem \<Rightarrow> ('v, 'm) LogParser \<Rightarrow> DateFilter \<Rightarrow> string \<Rightarrow> QueryPlan list" where
  "file_plans fs P f path =
     (case parse_file_with_progress fs P path of
        Inl _ \<Rightarrow> []
      | Inr ps \<Rightarrow> filter (in_window (Some f)) ps)"

lemma grouper_ok_contents:
  "grouper_contents g = grouper_contents h \<Longrightarrow> grouper_ok N Q g ps = grouper_ok N Q h ps"
  unfolding grouper_contents_def grouper_ok_def
  by (metis (no_types, lifting) QueryGrouper.select_convs(1,2,3,6) QueryGrouper.surjective
      QueryGrouper.update_convs(7))

lemma file_grouper_ok:
  assumes inj: "inj_on (query_hash N) Q" and pos: "0 < max_line_bytes P"
    and Q: "\<And>ps. parse_file_with_progress fs P path = Inr ps \<Longrightarrow> query_text ` set ps \<subseteq> Q"
  shows "grouper_ok N Q (file_grouper fs P N f path) (file_plans fs P f path)"
proof (cases "create_reader fs path")
  case (Inl e)
  then show ?thesis
    by (simp add: file_grouper_def file_plans_def parse_file_into_grouper_def parse_file_with_progress_def
        grouper_ok_new)
next
  case (Inr r)
  then obtain rd t where r: "create_reader fs path = Inr (rd, t)" by (cases r) auto
  let ?g = "with_filter new_grouper f"
  have g: "date_filter ?g = Some f" "max_plans ?g = 0" by (simp_all add: with_filter_def new_grouper_def)
  show ?thesis
  proof (cases "broken rd")
    case True
    have "\<exists>e. parse_into_sink P (grouper_sink N) rd t ?g = Inl e"
      by (rule broken_fails [where I = "\<lambda>g. max_plans g = 0", OF _ _ pos True g(2)])
        (simp_all add: grouper_sink_def grouper_is_full_def fold_plan_config)
    moreover obtain e where "parse_with_progress P rd t = Inl e"
      using broken_fails [where I = "\<lambda>_. True" and K = vec_sink and k = "[]" and t = t, OF _ _ pos True]
      by (auto simp: parse_with_progress_def vec_sink_def)
    ultimately show ?thesis
      using r by (auto simp: file_grouper_def file_plans_def parse_file_into_grouper_def
          parse_file_with_progress_def parse_into_grouper_def grouper_ok_new)
  next
    case False
    obtain ps where ps: "parse_with_progress P rd t = Inr ps"
      using parse_with_progress_fold [OF False pos] by blast
    with r have whole: "parse_file_with_progress fs P path = Inr ps" by (simp add: parse_file_with_progress_def)
    from parse_into_grouper_plans [OF ps False, of N ?g] obtain g1 calls where
      g1: "parse_into_grouper P N rd t ?g = Inr (g1, calls)"
        "grouper_contents g1 = grouper_contents (fold_plans N ?g ps)" by blast
    have "grouper_ok N Q ?g []" by (simp add: grouper_ok_config grouper_ok_new)
    from fold_plans_ok [OF inj this Q [OF whole]]
    have "grouper_ok N Q (fold_plans N ?g ps) (filter (in_window (Some f)) ps)"
      unfolding g by (simp add: admitted_def)
    then show ?thesis
      using g1 r whole grouper_ok_contents [OF g1(2)]
      by (simp add: file_grouper_def file_plans_def parse_file_into_grouper_def)
  qed
qed

section \<open>Sample plans\<close>

definition sample_plan :: "int \<Rightarrow> nat \<Rightarrow> string \<Rightarrow> QueryPlan" where
  "sample_plan t d q =
     \<lparr>timestamp = t, duration_ms = f_of_nat d, query_text = q, database = None, normalized_query = q,
      formatted_query = q, source = TextSource [] [],
      parsed = \<lparr>root = new_node (UnknownNode ''Result'') \<lparr>startup_cost = f_zero, min_total_cost = f_zero,
          max_total_cost = f_zero, estimated_rows = 0, estimated_width = 0\<rparr> [],
        planning_time_ms = None, execution_time_ms = None\<rparr>\<rparr>"

definition sample_normalizer :: Normalizer where
  "sample_normalizer = \<lparr>query_hash = (\<lambda>q. of_nat (length q)), normalize_query_enhanced = Some\<rparr>"

definition sample_plans :: "QueryPlan list" where
  "sample_plans = [sample_plan 1 5 ''a'', sample_plan 2 3 ''bb'', sample_plan 3 5 ''a'', sample_plan 4 2 ''a'']"

lemma sample_hashes: "inj_on (query_hash sample_normalizer) (query_text ` set sample_plans)"
  by (auto simp: sample_plans_def sample_plan_def sample_normalizer_def inj_on_def)

definition sample_log_files :: FileSystem where
  "sample_log_files = \<lparr>open_file = (\<lambda>p. if p = ''a.log''
       then Inr \<lparr>file_size = 40, data = \<lparr>pending = sample_entry, broken = False\<rparr>\<rparr>
       else if p = ''b.log'' then Inr \<lparr>file_size = 40, data = \<lparr>pending = sample_entry, broken = True\<rparr>\<rparr>
       else Inl ''No such file''), gunzip = id, bunzip2 = id\<rparr>"

lemma sample_one_plan:
  "\<exists>p. parse_with_progress (sample_parser 100) \<lparr>pending = sample_entry, broken = False\<rparr> t = Inr [p]"
proof -
  obtain p where p: "text_finalize sample_env sample_builder = Inr p" using sample_finalize by blast
  have "parse_with_progress (sample_parser 100) \<lparr>pending = sample_entry, broken = False\<rparr> t =
      (let (s, v) = capped_run sample_env 100 SNone 0 [sample_header, sample_query, sample_plan_line]
       in Inr (v @ plan_of (finalize_plan sample_env s)))"
    by (rule sample_parse_lines) (simp_all add: sample_log_lines)
  then show ?thesis
    by (simp only: sample_capped_run) (simp add: plan_of_def ok_option_def p)
qed

section \<open>Properties\<close>

text \<open>C38: streaming and batch grouping agree: on plans whose query texts have distinct hashes, folding
  them one at a time and grouping the whole slice both succeed and give the same processed query for
  every key, whatever the caches evict.\<close>

theorem streamed_grouping_matches_batched:
  assumes "inj_on (query_hash N) (query_text ` set ps)" and "int (length ps) \<le> 2 ^ 53"
  shows "\<exists>rs bs. finish_grouper (fold_plans N new_grouper ps) = Some rs \<and>
    fst (get_processed_queries N default_cache ps) = Some bs \<and>
    distinct (map fst rs) \<and> distinct (map fst bs) \<and> map_of rs = map_of bs"
proof -
  let ?Q = "query_text ` set ps"
  have c: "cache_ok default_cache" "cached_fingerprints N ?Q default_cache"
    by (simp_all add: default_cache_def cache_ok_empty cached_fingerprints_empty)
  have "grouper_ok N ?Q (fold_plans N new_grouper ps) ps"
    using fold_plans_ok [OF assms(1) grouper_ok_new, of ps]
    by (simp add: new_grouper_def admitted_def in_window_def)
  then have "grouped_as N (groups (fold_plans N new_grouper ps)) ps" by (simp add: grouper_ok_def)
  from finalize_groups_result [OF this assms(2)] batch_result [OF assms(1) subset_refl c assms(2)]
  show ?thesis by (auto simp: finish_grouper_def take_groups_def fun_eq_iff)
qed

theorem streamed_grouping_matches_batched_witness:
  "\<exists>rs bs. finish_grouper (fold_plans sample_normalizer new_grouper sample_plans) = Some rs \<and>
     fst (get_processed_queries sample_normalizer default_cache sample_plans) = Some bs \<and> map_of rs = map_of bs"
  using streamed_grouping_matches_batched [OF sample_hashes] by (simp add: sample_plans_def) blast

text \<open>What a grouper holds: after folding any plans under a time window and a cap it has accepted
  the plans of the window, in order, up to the cap; a key has a group exactly when an accepted plan
  has it, and the group is the slowest of its plans (the last of equals), their executions in order,
  their number and their first and last time stamp.\<close>

theorem grouper_groups_accepted_plans:
  assumes "inj_on (query_hash N) (query_text ` set ps)" and "int (length ps) \<le> 2 ^ 53"
    and "g = fold_plans N (with_max_plans (with_filter new_grouper f) n) ps"
    and "acc = admitted (Some f) n ps"
  shows "folded g = length acc \<and>
    (\<exists>rs. finish_grouper g = Some rs \<and>
      (let same = filter (\<lambda>p. plan_key N p = k) acc
       in case map_of rs k of
            None \<Rightarrow> same = []
          | Some q \<Rightarrow> same \<noteq> [] \<and> representative_plan q = slowest same \<and>
              qs_executions (statistics q) = map execution_of same \<and>
              qs_count (statistics q) = length same \<and>
              qs_min_timestamp (statistics q) = Min (timestamp ` set same) \<and>
              qs_max_timestamp (statistics q) = Max (timestamp ` set same)))"
proof -
  let ?g = "with_max_plans (with_filter new_grouper f) n"
  have "grouper_ok N (query_text ` set ps) ?g []" by (simp add: grouper_ok_config grouper_ok_new)
  from fold_plans_ok [OF assms(1) this subset_refl] have ok: "grouper_ok N (query_text ` set ps) g acc"
    by (simp add: assms(3,4) with_max_plans_def with_filter_def)
  have "length acc \<le> length ps"
    using order_trans [OF _ length_filter_le, of "length acc" "in_window (Some f)" ps]
    by (simp add: assms(4) admitted_def Let_def)
  then have len: "int (length acc) \<le> 2 ^ 53" using assms(2) by linarith
  have "grouped_as N (groups g) acc" using ok by (simp add: grouper_ok_def)
  from finalize_groups_result [OF this len] obtain rs where
    rs: "finish_grouper g = Some rs" "\<forall>k. map_of rs k = group_result N acc k"
    by (auto simp: finish_grouper_def take_groups_def)
  have "case group_result N acc k of None \<Rightarrow> same = [] | Some q \<Rightarrow> same \<noteq> [] \<and>
      representative_plan q = slowest same \<and> qs_executions (statistics q) = map execution_of same \<and>
      qs_count (statistics q) = length same \<and>
      qs_min_timestamp (statistics q) = Min (timestamp ` set same) \<and>
      qs_max_timestamp (statistics q) = Max (timestamp ` set same)"
    if "same = filter (\<lambda>p. plan_key N p = k) acc" for same
  proof (cases "same = []")
    case True
    then show ?thesis using that by (simp add: group_result_def)
  next
    case False
    from group_result_fields [OF that False len] show ?thesis using False by auto
  qed
  then show ?thesis using ok rs by (simp add: grouper_ok_def Let_def)
qed

theorem grouper_groups_accepted_plans_witness:
  "folded (fold_plans sample_normalizer (with_max_plans (with_filter new_grouper \<lparr>since = Some 2, until = None\<rparr>) 2)
     sample_plans) = 2"
  using grouper_groups_accepted_plans [OF sample_hashes _ refl refl, of "\<lparr>since = Some 2, until = None\<rparr>" 2 "''a''"]
  by (simp add: sample_plans_def admitted_def in_window_def date_matches_def sample_plan_def)

lemma reduces_some: "\<exists>g. reduces f e xs g"
proof (induction xs)
  case (Cons x xs)
  from Cons obtain g where "reduces f e xs g" by blast
  from reduces_join [OF reduces_item [of f e x] this] show ?case by auto
qed (blast intro: reduces_identity)

text \<open>C37: the parallel driver is a sequential pass: whatever bracketing the reduction takes, the
  result over several files, some of which cannot be opened or fail while being read, counts and
  groups exactly the plans of the readable files within the window, in file order; and there is a
  result.\<close>

theorem parallel_files_match_sequential_pass:
  assumes "0 < max_line_bytes P" and "inj_on (query_hash N) Q"
    and "\<forall>path \<in> set paths. \<forall>ps. parse_file_with_progress fs P path = Inr ps \<longrightarrow> query_text ` set ps \<subseteq> Q"
    and "ps = concat (map (file_plans fs P f) paths)" and "int (length ps) \<le> 2 ^ 53"
  shows "(\<exists>result. parse_multiple_files fs P N f paths result) \<and>
    (\<forall>result. parse_multiple_files fs P N f paths result \<longrightarrow>
      fst result = length ps \<and>
      (\<exists>rs bs. snd result = Some rs \<and> finish_grouper (fold_plans N new_grouper ps) = Some bs \<and>
         distinct (map fst rs) \<and> map_of rs = map_of bs))"
proof (intro conjI allI impI)
  show "\<exists>result. parse_multiple_files fs P N f paths result"
    using reduces_some [of merge_grouper new_grouper "map (file_grouper fs P N f) paths"]
    by (simp add: parse_multiple_files_def)
next
  fix result
  assume "parse_multiple_files fs P N f paths result"
  then obtain g where g: "reduces merge_grouper new_grouper (map (file_grouper fs P N f) paths) g"
    "result = (folded g, finish_grouper g)" by (auto simp: parse_multiple_files_def)
  have "grouper_ok N Q (file_grouper fs P N f path) (file_plans fs P f path)" if "path \<in> set paths" for path
    by (rule file_grouper_ok [OF assms(2,1)]) (use assms(3) that in blast)
  then have "list_all2 (grouper_ok N Q) (map (file_grouper fs P N f) paths) (map (file_plans fs P f) paths)"
    by (simp add: list_all2_conv_all_nth)
  from reduces_ok [OF g(1) this] have ok: "grouper_ok N Q g ps" using assms(4) by simp
  have "file_plans fs P f path = [] \<or> (\<exists>qs. parse_file_with_progress fs P path = Inr qs \<and>
      set (file_plans fs P f path) \<subseteq> set qs)" for path
    by (auto simp: file_plans_def split: sum.split)
  then have "query_text ` set (file_plans fs P f path) \<subseteq> Q" if "path \<in> set paths" for path
    using assms(3) that by (metis empty_set image_empty image_mono empty_subsetI order_trans)
  then have "query_text ` set ps \<subseteq> Q" by (auto simp: assms(4))
  from fold_plans_ok [OF assms(2) grouper_ok_new this]
  have "grouper_ok N Q (fold_plans N new_grouper ps) ps"
    by (simp add: new_grouper_def admitted_def in_window_def)
  then have s: "grouped_as N (groups (fold_plans N new_grouper ps)) ps" by (simp add: grouper_ok_def)
  have r: "grouped_as N (groups g) ps" using ok by (simp add: grouper_ok_def)
  show "fst result = length ps" using ok g(2) by (simp add: grouper_ok_def)
  show "\<exists>rs bs. snd result = Some rs \<and> finish_grouper (fold_plans N new_grouper ps) = Some bs \<and>
      distinct (map fst rs) \<and> map_of rs = map_of bs"
    using finalize_groups_result [OF r assms(5)] finalize_groups_result [OF s assms(5)] g(2)
    by (auto simp: finish_grouper_def take_groups_def fun_eq_iff)
qed

theorem parallel_files_match_sequential_pass_witness:
  "\<exists>p result. parse_file_with_progress sample_log_files (sample_parser 100) ''a.log'' = Inr [p] \<and>
     parse_multiple_files sample_log_files (sample_parser 100) sample_normalizer \<lparr>since = None, until = None\<rparr>
       [''a.log'', ''b.log'', ''c.log''] result \<and> fst result = 1"
proof -
  let ?paths = "[''a.log'', ''b.log'', ''c.log'']" and ?f = "\<lparr>since = None, until = None\<rparr>"
  obtain p where p: "parse_with_progress (sample_parser 100) \<lparr>pending = sample_entry, broken = False\<rparr> 40 = Inr [p]"
    using sample_one_plan by blast
  have sn: "sniff \<lparr>pending = sample_entry, broken = b\<rparr> = Plain" for b by (cases b) code_simp+
  have pos: "0 < max_line_bytes (sample_parser 100)" by (simp add: sample_parser_simps)
  from broken_fails [where I = "\<lambda>_. True" and K = vec_sink and k = "[]" and t = 40 and
      rd = "\<lparr>pending = sample_entry, broken = True\<rparr>", OF _ _ pos]
  obtain e where b: "parse_with_progress (sample_parser 100) \<lparr>pending = sample_entry, broken = True\<rparr> 40 = Inl e"
    by (auto simp: parse_with_progress_def vec_sink_def)
  have a: "parse_file_with_progress sample_log_files (sample_parser 100) ''a.log'' = Inr [p]"
    by (simp add: parse_file_with_progress_def create_reader_def sample_log_files_def sn decoded_reader_def p)
  have bc: "parse_file_with_progress sample_log_files (sample_parser 100) ''b.log'' = Inl e"
    "parse_file_with_progress sample_log_files (sample_parser 100) ''c.log'' = Inl ''No such file''"
    by (simp_all add: parse_file_with_progress_def create_reader_def sample_log_files_def sn decoded_reader_def b)
  have all: "[p] = concat (map (file_plans sample_log_files (sample_parser 100) ?f) ?paths)"
    using a bc by (simp add: file_plans_def in_window_def date_matches_def)
  have texts: "\<forall>path \<in> set ?paths. \<forall>ps. parse_file_with_progress sample_log_files (sample_parser 100) path = Inr ps \<longrightarrow>
      query_text ` set ps \<subseteq> {query_text p}"
    using a bc by simp
  have "inj_on (query_hash sample_normalizer) {query_text p}" by simp
  from parallel_files_match_sequential_pass [OF pos this texts all] a show ?thesis by fastforce
qed

end
