(* ===== verification/Ring.thy ===== *)
theory Ring
  imports Rust_Str Numerics "HOL-Library.Sublist"
begin

text \<open>
  The shared-memory ring of captured plans (\<open>ring.rs\<close> of the extension): fixed slots, fixed byte
  arrays, machine-width counters. All access is under one exclusive lock, so a run of several
  backends and the worker is a sequence of operations. The clock and the conversion of a microsecond
  count to a date (chrono) are parameters.
\<close>

section \<open>A bounded queue that drops when full\<close>

text \<open>What the worker relies on: an accepted item is appended and a refused one leaves the items
  alone, an item is refused only when the queue is full, and draining yields all items.\<close>

datatype ('i, 'd, 'n) queue_op = Put 'i | Take 'd | Quiet 'n

locale bounded_queue =
  fixes put :: "'s \<Rightarrow> 'i \<Rightarrow> 's" and take_all :: "'s \<Rightarrow> 'd \<Rightarrow> 'a list \<times> 's" and quiet :: "'s \<Rightarrow> 'n \<Rightarrow> 's"
    and ok :: "'s \<Rightarrow> bool" and items :: "'s \<Rightarrow> 'a list" and stored :: "'i \<Rightarrow> 'a" and capacity :: nat
    and taken :: "'s \<Rightarrow> u64" and refused :: "'s \<Rightarrow> u64"
  assumes put_ok: "ok s \<Longrightarrow> ok (put s i)"
    and take_ok: "ok s \<Longrightarrow> ok (snd (take_all s d))"
    and quiet_ok: "ok s \<Longrightarrow> ok (quiet s n)"
    and put_room: "ok s \<Longrightarrow> length (items s) < capacity \<Longrightarrow> items (put s i) = items s @ [stored i] \<and>
      taken (put s i) = taken s + 1 \<and> refused (put s i) = refused s"
    and put_full: "ok s \<Longrightarrow> \<not> length (items s) < capacity \<Longrightarrow> items (put s i) = items s \<and>
      taken (put s i) = taken s \<and> refused (put s i) = refused s + 1"
    and take_items: "ok s \<Longrightarrow> fst (take_all s d) = items s \<and> items (snd (take_all s d)) = [] \<and>
      taken (snd (take_all s d)) = taken s \<and> refused (snd (take_all s d)) = refused s"
    and quiet_items: "ok s \<Longrightarrow> items (quiet s n) = items s \<and> taken (quiet s n) = taken s \<and>
      refused (quiet s n) = refused s"
    and bounded: "ok s \<Longrightarrow> length (items s) \<le> capacity"
begin

text \<open>A run: the final state and the batches taken.\<close>

fun run :: "'s \<Rightarrow> ('i, 'd, 'n) queue_op list \<Rightarrow> 's \<times> 'a list list" where
  "run s [] = (s, [])"
| "run s (Put i # ops) = run (put s i) ops"
| "run s (Take d # ops) = (let (out, s) = take_all s d; (s, outs) = run s ops in (s, out # outs))"
| "run s (Quiet n # ops) = run (quiet s n) ops"

definition puts :: "('i, 'd, 'n) queue_op list \<Rightarrow> 'a list" where
  "puts ops = concat (map (\<lambda>x. case x of Put i \<Rightarrow> [stored i] | _ \<Rightarrow> []) ops)"

lemma run_conserves:
  "ok s \<Longrightarrow> run s ops = (s', outs) \<Longrightarrow>
     \<exists>acc n. ok s' \<and> items s @ acc = concat outs @ items s' \<and> subseq acc (puts ops) \<and>
       length acc + n = length (puts ops) \<and> taken s' = taken s + of_nat (length acc) \<and>
       refused s' = refused s + of_nat n \<and> (\<forall>out \<in> set outs. length out \<le> capacity)"
proof (induction s ops arbitrary: outs rule: run.induct)
  case (1 s)
  then show ?case by (intro exI [of _ "[]"] exI [of _ 0]) (auto simp: puts_def)
next
  case (2 s i ops)
  from 2(1) put_ok [OF 2(2)] 2(3) obtain acc n where ih: "ok s'"
    "items (put s i) @ acc = concat outs @ items s'" "subseq acc (puts ops)"
    "length acc + n = length (puts ops)" "taken s' = taken (put s i) + of_nat (length acc)"
    "refused s' = refused (put s i) + of_nat n" "\<forall>out \<in> set outs. length out \<le> capacity"
    by fastforce
  have p: "puts (Put i # ops) = stored i # puts ops" by (simp add: puts_def)
  show ?case
  proof (cases "length (items s) < capacity")
    case True
    with ih put_room [OF 2(2) True, of i] show ?thesis
      unfolding p by (intro exI [of _ "stored i # acc"] exI [of _ n]) simp
  next
    case False
    with ih put_full [OF 2(2) False, of i] show ?thesis
      unfolding p by (intro exI [of _ acc] exI [of _ "Suc n"]) auto
  qed
next
  case (3 s d ops)
  obtain out s1 where d: "take_all s d = (out, s1)" by (cases "take_all s d")
  obtain outs1 where r: "run s1 ops = (s', outs1)" "outs = out # outs1"
    using 3(3) d by (cases "run s1 ops") auto
  have t: "ok s1" "out = items s" "items s1 = []" "taken s1 = taken s" "refused s1 = refused s"
    using take_ok [OF 3(2), of d] take_items [OF 3(2), of d] d by simp_all
  have "puts (Take d # ops) = puts ops" by (simp add: puts_def)
  with 3(1) [OF d [symmetric] refl t(1) r(1)] t bounded [OF 3(2)] show ?case
    unfolding r(2) by auto
next
  case (4 s n ops)
  have "puts (Quiet n # ops) = puts ops" by (simp add: puts_def)
  with 4(1) [OF quiet_ok [OF 4(2)]] 4(3) quiet_items [OF 4(2), of n] show ?case by simp
qed

end

section \<open>The ring\<close>

definition SQL_CAP :: nat where "SQL_CAP = 1024"
definition PLAN_CAP :: nat where "PLAN_CAP = 4096"
definition RING_CAP :: nat where "RING_CAP = 256"

record Rec =
  epoch_secs :: f64
  rec_duration_ms :: f64
  query_id :: int
  db_oid :: u32
  sql_len :: u32
  plan_len :: u32
  sql_bytes :: string
  plan_bytes :: string

definition nul :: char where "nul = char_of (0 :: int)"

definition REC_ZEROED :: Rec where
  "REC_ZEROED = \<lparr>epoch_secs = f_zero, rec_duration_ms = f_zero, query_id = 0, db_oid = 0, sql_len = 0,
     plan_len = 0, sql_bytes = replicate SQL_CAP nul, plan_bytes = replicate PLAN_CAP nul\<rparr>"

record Ring =
  ring_len :: u32
  dropped_total :: u64
  captured_total :: u64
  last_drain_epoch :: f64
  ovh_count :: u64
  ovh_sum_ns :: u64
  ovh_sumsq_ns :: u128
  ovh_min_ns :: u64
  ovh_max_ns :: u64
  recs :: "Rec list"

definition default_ring :: Ring where
  "default_ring = \<lparr>ring_len = 0, dropped_total = 0, captured_total = 0, last_drain_epoch = f_zero,
     ovh_count = 0, ovh_sum_ns = 0, ovh_sumsq_ns = 0, ovh_min_ns = - 1, ovh_max_ns = 0,
     recs = replicate RING_CAP REC_ZEROED\<rparr>"

text \<open>\<open>copy_truncated\<close>: the array after it, and the count of bytes copied.\<close>

definition copy_truncated :: "string \<Rightarrow> string \<Rightarrow> string \<times> u32" where
  "copy_truncated dst src =
     (let n = min (length src) (length dst) in (take n src @ drop n dst, of_nat n))"

record Push =
  push_epoch :: f64
  push_duration :: f64
  push_query_id :: int
  push_db_oid :: u32
  push_sql :: string
  push_plan :: string

definition push_rec :: "Ring \<Rightarrow> Push \<Rightarrow> Ring" where
  "push_rec r p =
     (let idx = unat (ring_len r)
      in if RING_CAP \<le> idx then r\<lparr>dropped_total := dropped_total r + 1\<rparr>
         else
           (let slot = recs r ! idx;
                (sql, n) = copy_truncated (sql_bytes slot) (push_sql p);
                (plan, m) = copy_truncated (plan_bytes slot) (push_plan p)
            in r\<lparr>recs := (recs r)[idx := slot\<lparr>epoch_secs := push_epoch p, rec_duration_ms := push_duration p,
                     query_id := push_query_id p, db_oid := push_db_oid p, sql_len := n, plan_len := m,
                     sql_bytes := sql, plan_bytes := plan\<rparr>],
                 ring_len := ring_len r + 1, captured_total := captured_total r + 1\<rparr>))"

definition take_recs_into :: "int \<Rightarrow> Ring \<Rightarrow> Rec list \<times> u64 \<times> Ring" where
  "take_recs_into now_micros r =
     (take (unat (ring_len r)) (recs r), dropped_total r,
      r\<lparr>ring_len := 0, last_drain_epoch := f_div (f_of_int now_micros) (f_of_int 1000000)\<rparr>)"

definition record_overhead :: "Ring \<Rightarrow> u64 \<Rightarrow> Ring" where
  "record_overhead r ns =
     (let r = r\<lparr>ovh_count := ovh_count r + 1, ovh_sum_ns := sat_add (ovh_sum_ns r) ns,
                ovh_sumsq_ns := sat_add (ovh_sumsq_ns r) (ucast ns * ucast ns)\<rparr>;
          r = (if ns < ovh_min_ns r then r\<lparr>ovh_min_ns := ns\<rparr> else r)
      in if ovh_max_ns r < ns then r\<lparr>ovh_max_ns := ns\<rparr> else r)"

definition reset_overhead :: "Ring \<Rightarrow> Ring" where
  "reset_overhead r = r\<lparr>ovh_count := 0, ovh_sum_ns := 0, ovh_sumsq_ns := 0, ovh_min_ns := - 1, ovh_max_ns := 0\<rparr>"

definition overhead_snapshot :: "Ring \<Rightarrow> u64 \<times> u64 \<times> u128 \<times> u64 \<times> u64" where
  "overhead_snapshot r =
     (let mn = (if ovh_count r = 0 then 0 else ovh_min_ns r)
      in (ovh_count r, ovh_sum_ns r, ovh_sumsq_ns r, mn, ovh_max_ns r))"

definition ring_stats :: "Ring \<Rightarrow> u32 \<times> u64 \<times> u64 \<times> f64" where
  "ring_stats r = (ring_len r, captured_total r, dropped_total r, last_drain_epoch r)"

text \<open>The public \<open>push\<close>: the record and its overhead under one lock.\<close>

definition ring_push :: "Ring \<Rightarrow> Push \<Rightarrow> u64 \<Rightarrow> Ring" where
  "ring_push r p elapsed_ns = record_overhead (push_rec r p) elapsed_ns"

section \<open>Draining\<close>

record Capture =
  cap_timestamp :: int
  cap_duration_ms :: f64
  cap_query_text :: string
  cap_plan_text :: string
  cap_query_id :: int

definition f_to_i64 :: "f64 \<Rightarrow> int" where
  "f_to_i64 x =
     (if is_nan x then 0
      else if is_infinite x then (if f_neg x then - (2 ^ 63) else 2 ^ 63 - 1)
      else max (- (2 ^ 63)) (min (2 ^ 63 - 1) (if f_val x < 0 then - \<lfloor>- f_val x\<rfloor> else \<lfloor>f_val x\<rfloor>)))"

definition epoch_to_utc :: "(int \<Rightarrow> int option) \<Rightarrow> int \<Rightarrow> f64 \<Rightarrow> int" where
  "epoch_to_utc from_timestamp_micros now secs =
     (case from_timestamp_micros (f_to_i64 (f_mul secs (f_of_int 1000000))) of
        Some t \<Rightarrow> t
      | None \<Rightarrow> now)"

definition capture_of :: "(int \<Rightarrow> int option) \<Rightarrow> int \<Rightarrow> Rec \<Rightarrow> Capture" where
  "capture_of from_timestamp_micros now r =
     \<lparr>cap_timestamp = epoch_to_utc from_timestamp_micros now (epoch_secs r),
      cap_duration_ms = rec_duration_ms r,
      cap_query_text = from_utf8_lossy (take (unat (sql_len r)) (sql_bytes r)),
      cap_plan_text = from_utf8_lossy (take (unat (plan_len r)) (plan_bytes r)),
      cap_query_id = query_id r\<rparr>"

definition drain ::
  "(int \<Rightarrow> int option) \<Rightarrow> int \<Rightarrow> int \<Rightarrow> u32 \<Rightarrow> Ring \<Rightarrow> (Capture list \<times> u64 \<times> nat) \<times> Ring" where
  "drain from_timestamp_micros now_micros now my_db r =
     (let (rs, dropped, r) = take_recs_into now_micros r;
          own = filter (\<lambda>x. db_oid x = my_db) rs;
          foreign = length (filter (\<lambda>x. db_oid x \<noteq> my_db) rs)
      in ((map (capture_of from_timestamp_micros now) own, dropped, foreign), r))"

section \<open>The ring is a bounded queue\<close>

text \<open>What a slot holds of a push: its texts cut at their capacity.\<close>

definition view :: "Rec \<Rightarrow> Push" where
  "view x = \<lparr>push_epoch = epoch_secs x, push_duration = rec_duration_ms x, push_query_id = query_id x,
     push_db_oid = db_oid x, push_sql = take (unat (sql_len x)) (sql_bytes x),
     push_plan = take (unat (plan_len x)) (plan_bytes x)\<rparr>"

definition cut :: "Push \<Rightarrow> Push" where
  "cut p = p\<lparr>push_sql := take SQL_CAP (push_sql p), push_plan := take PLAN_CAP (push_plan p)\<rparr>"

definition ring_ok :: "Ring \<Rightarrow> bool" where
  "ring_ok r \<longleftrightarrow> length (recs r) = RING_CAP \<and> unat (ring_len r) \<le> RING_CAP \<and>
     (\<forall>x \<in> set (recs r). length (sql_bytes x) = SQL_CAP \<and> length (plan_bytes x) = PLAN_CAP)"

definition ring_items :: "Ring \<Rightarrow> Push list" where
  "ring_items r = map view (take (unat (ring_len r)) (recs r))"

lemma default_ring_ok: "ring_ok default_ring"
  by (simp add: ring_ok_def default_ring_def REC_ZEROED_def)

lemma copy_truncated_take:
  assumes "length dst < 2 ^ 32"
  shows "take (unat (snd (copy_truncated dst src))) (fst (copy_truncated dst src)) = take (length dst) src"
    and "length (fst (copy_truncated dst src)) = length dst"
proof -
  have "unat (of_nat (min (length src) (length dst)) :: u32) = min (length src) (length dst)"
    using assms by (simp add: unsigned_of_nat take_bit_nat_eq_self)
  then show "take (unat (snd (copy_truncated dst src))) (fst (copy_truncated dst src)) = take (length dst) src"
    by (simp add: copy_truncated_def Let_def min_def)
qed (simp add: copy_truncated_def Let_def)

lemma push_rec_items:
  assumes ok: "ring_ok r"
  shows "ring_ok (push_rec r p) \<and>
    ring_items (push_rec r p) = (if length (ring_items r) < RING_CAP then ring_items r @ [cut p] else ring_items r)"
proof (cases "RING_CAP \<le> unat (ring_len r)")
  case True
  then show ?thesis using ok by (simp add: push_rec_def ring_ok_def ring_items_def)
next
  case False
  let ?i = "unat (ring_len r)"
  let ?slot = "recs r ! ?i"
  have i: "?i < length (recs r)" using False ok by (simp add: ring_ok_def)
  then have s: "length (sql_bytes ?slot) = SQL_CAP" "length (plan_bytes ?slot) = PLAN_CAP"
    using ok nth_mem [OF i] by (simp_all add: ring_ok_def)
  have inc: "unat (ring_len r + 1) = ?i + 1"
    using False by (intro unat_plus_simple [THEN iffD1, THEN trans]) (auto simp: RING_CAP_def word_le_nat_alt unat_word_ariths)
  obtain q n where q: "copy_truncated (sql_bytes ?slot) (push_sql p) = (q, n)" by (cases "copy_truncated (sql_bytes ?slot) (push_sql p)")
  obtain l m where l: "copy_truncated (plan_bytes ?slot) (push_plan p) = (l, m)" by (cases "copy_truncated (plan_bytes ?slot) (push_plan p)")
  have q': "take (unat n) q = take SQL_CAP (push_sql p)" "length q = SQL_CAP"
    using copy_truncated_take [of "sql_bytes ?slot" "push_sql p"] q s by (simp_all add: SQL_CAP_def)
  have l': "take (unat m) l = take PLAN_CAP (push_plan p)" "length l = PLAN_CAP"
    using copy_truncated_take [of "plan_bytes ?slot" "push_plan p"] l s by (simp_all add: PLAN_CAP_def)
  let ?new = "?slot\<lparr>epoch_secs := push_epoch p, rec_duration_ms := push_duration p, query_id := push_query_id p,
      db_oid := push_db_oid p, sql_len := n, plan_len := m, sql_bytes := q, plan_bytes := l\<rparr>"
  have r: "push_rec r p = r\<lparr>recs := (recs r)[?i := ?new], ring_len := ring_len r + 1,
      captured_total := captured_total r + 1\<rparr>"
    using False by (simp add: push_rec_def q l Let_def)
  have v: "view ?new = cut p" by (simp add: view_def cut_def q' l')
  have "take (?i + 1) ((recs r)[?i := ?new]) = take ?i (recs r) @ [?new]"
    using i by (simp add: take_Suc_conv_app_nth)
  then have "ring_items (push_rec r p) = ring_items r @ [cut p]"
    unfolding r ring_items_def by (simp add: inc v)
  moreover have "ring_ok (push_rec r p)"
    using ok False inc q'(2) l'(2) set_update_subset_insert [of "recs r" ?i ?new]
    unfolding r by (auto simp: ring_ok_def)
  moreover have "length (ring_items r) < RING_CAP" using False i by (simp add: ring_items_def)
  ultimately show ?thesis by simp
qed

lemma overhead_fields [simp]:
  "recs (record_overhead r ns) = recs r" "ring_len (record_overhead r ns) = ring_len r"
  "captured_total (record_overhead r ns) = captured_total r"
  "dropped_total (record_overhead r ns) = dropped_total r"
  "recs (reset_overhead r) = recs r" "ring_len (reset_overhead r) = ring_len r"
  "captured_total (reset_overhead r) = captured_total r" "dropped_total (reset_overhead r) = dropped_total r"
  by (simp_all add: record_overhead_def reset_overhead_def Let_def)

lemma push_rec_counts:
  "ring_ok r \<Longrightarrow> captured_total (push_rec r p) =
     (if length (ring_items r) < RING_CAP then captured_total r + 1 else captured_total r) \<and>
   dropped_total (push_rec r p) =
     (if length (ring_items r) < RING_CAP then dropped_total r else dropped_total r + 1)"
  by (auto simp: push_rec_def ring_ok_def ring_items_def Let_def split: prod.split)

text \<open>The operations on the ring: pushes with their overhead, drains (with two readings of the clock
  and the database of the caller), and the overhead counters on their own.\<close>

datatype overhead_op = RecordOverhead u64 | ResetOverhead

definition overhead_step :: "Ring \<Rightarrow> overhead_op \<Rightarrow> Ring" where
  "overhead_step r x = (case x of RecordOverhead ns \<Rightarrow> record_overhead r ns | ResetOverhead \<Rightarrow> reset_overhead r)"

definition ring_put :: "Ring \<Rightarrow> Push \<times> u64 \<Rightarrow> Ring" where
  "ring_put r x = ring_push r (fst x) (snd x)"

definition ring_take :: "Ring \<Rightarrow> int \<times> int \<times> u32 \<Rightarrow> Push list \<times> Ring" where
  "ring_take r d = (let (rs, _, r) = take_recs_into (fst d) r in (map view rs, r))"

lemma ring_items_cong: "recs r = recs r' \<Longrightarrow> ring_len r = ring_len r' \<Longrightarrow> ring_items r = ring_items r' \<and> ring_ok r = ring_ok r'"
  by (simp add: ring_items_def ring_ok_def)

interpretation rq: bounded_queue ring_put ring_take overhead_step ring_ok ring_items "\<lambda>x :: Push \<times> u64. cut (fst x)" RING_CAP
  captured_total dropped_total
proof unfold_locales
  fix r and x :: "Push \<times> u64"
  assume ok: "ring_ok r"
  let ?p = "push_rec r (fst x)"
  have e: "ring_items (ring_put r x) = ring_items ?p" "ring_ok (ring_put r x) = ring_ok ?p"
    using ring_items_cong [of "ring_put r x" ?p] by (simp_all add: ring_put_def ring_push_def)
  show "ring_ok (ring_put r x)" using push_rec_items [OF ok] e by simp
  show "ring_items (ring_put r x) = ring_items r @ [cut (fst x)] \<and>
      captured_total (ring_put r x) = captured_total r + 1 \<and> dropped_total (ring_put r x) = dropped_total r"
    if "length (ring_items r) < RING_CAP"
    using that push_rec_items [OF ok, of "fst x"] push_rec_counts [OF ok, of "fst x"] e
    by (simp add: ring_put_def ring_push_def)
  show "ring_items (ring_put r x) = ring_items r \<and>
      captured_total (ring_put r x) = captured_total r \<and> dropped_total (ring_put r x) = dropped_total r + 1"
    if "\<not> length (ring_items r) < RING_CAP"
    using that push_rec_items [OF ok, of "fst x"] push_rec_counts [OF ok, of "fst x"] e
    by (simp add: ring_put_def ring_push_def)
next
  fix r and d :: "int \<times> int \<times> u32"
  assume "ring_ok r"
  then show "ring_ok (snd (ring_take r d))" "fst (ring_take r d) = ring_items r \<and>
      ring_items (snd (ring_take r d)) = [] \<and> captured_total (snd (ring_take r d)) = captured_total r \<and>
      dropped_total (snd (ring_take r d)) = dropped_total r" "length (ring_items r) \<le> RING_CAP"
    by (simp_all add: ring_take_def take_recs_into_def ring_ok_def ring_items_def)
next
  fix r x
  have "recs (overhead_step r x) = recs r" "ring_len (overhead_step r x) = ring_len r"
    "captured_total (overhead_step r x) = captured_total r" "dropped_total (overhead_step r x) = dropped_total r"
    by (simp_all add: overhead_step_def split: overhead_op.split)
  then show "ring_ok r \<Longrightarrow> ring_ok (overhead_step r x)" "ring_items (overhead_step r x) = ring_items r \<and>
      captured_total (overhead_step r x) = captured_total r \<and> dropped_total (overhead_step r x) = dropped_total r"
    using ring_items_cong [of "overhead_step r x" r] by simp_all
qed

section \<open>Runs of the ring\<close>

type_synonym ring_op = "(Push \<times> u64, int \<times> int \<times> u32, overhead_op) queue_op"

fun ring_run :: "(int \<Rightarrow> int option) \<Rightarrow> Ring \<Rightarrow> ring_op list \<Rightarrow> Ring \<times> (Capture list \<times> u64 \<times> nat) list" where
  "ring_run conv r [] = (r, [])"
| "ring_run conv r (Put x # ops) = ring_run conv (ring_push r (fst x) (snd x)) ops"
| "ring_run conv r (Take d # ops) =
     (let (now_micros, now, my_db) = d;
          (out, r) = drain conv now_micros now my_db r;
          (r, outs) = ring_run conv r ops
      in (r, out # outs))"
| "ring_run conv r (Quiet n # ops) = ring_run conv (overhead_step r n) ops"

definition pushes_of :: "ring_op list \<Rightarrow> Push list" where
  "pushes_of ops = concat (map (\<lambda>x. case x of Put i \<Rightarrow> [fst i] | _ \<Rightarrow> []) ops)"

definition takes_of :: "ring_op list \<Rightarrow> (int \<times> int \<times> u32) list" where
  "takes_of ops = concat (map (\<lambda>x. case x of Take d \<Rightarrow> [d] | _ \<Rightarrow> []) ops)"

text \<open>What the worker should see of a batch: the captures of its own database.\<close>

definition capture_of_push :: "(int \<Rightarrow> int option) \<Rightarrow> int \<Rightarrow> Push \<Rightarrow> Capture" where
  "capture_of_push conv now p =
     \<lparr>cap_timestamp = epoch_to_utc conv now (push_epoch p), cap_duration_ms = push_duration p,
      cap_query_text = from_utf8_lossy (push_sql p), cap_plan_text = from_utf8_lossy (push_plan p),
      cap_query_id = push_query_id p\<rparr>"

definition own_captures :: "(int \<Rightarrow> int option) \<Rightarrow> int \<times> int \<times> u32 \<Rightarrow> Push list \<Rightarrow> Capture list" where
  "own_captures conv d batch =
     (let (_, now, my_db) = d in map (capture_of_push conv now) (filter (\<lambda>p. push_db_oid p = my_db) batch))"

definition foreign_count :: "int \<times> int \<times> u32 \<Rightarrow> Push list \<Rightarrow> nat" where
  "foreign_count d batch = length (filter (\<lambda>p. push_db_oid p \<noteq> snd (snd d)) batch)"

lemma drain_take:
  "drain conv m now db r =
     ((own_captures conv (m, now, db) (fst (ring_take r (m, now, db))), dropped_total r,
       foreign_count (m, now, db) (fst (ring_take r (m, now, db)))), snd (ring_take r (m, now, db)))"
  by (simp add: drain_def ring_take_def take_recs_into_def own_captures_def foreign_count_def filter_map
      comp_def capture_of_def capture_of_push_def view_def)

lemma ring_run_batches:
  "ring_run conv r ops = (r', outs) \<Longrightarrow> \<exists>batches. rq.run r ops = (r', batches) \<and>
     length batches = length (takes_of ops) \<and>
     map (\<lambda>(cs, _, f). (cs, f)) outs =
       map2 (\<lambda>d b. (own_captures conv d b, foreign_count d b)) (takes_of ops) batches"
proof (induction ops arbitrary: r outs)
  case Nil
  then show ?case by (simp add: takes_of_def)
next
  case (Cons op ops)
  show ?case
  proof (cases op)
    case (Put x)
    with Cons.IH [of "ring_put r x" outs] Cons.prems show ?thesis
      by (simp add: takes_of_def ring_put_def [symmetric])
  next
    case (Quiet n)
    with Cons.IH [of "overhead_step r n" outs] Cons.prems show ?thesis by (simp add: takes_of_def)
  next
    case (Take d)
    obtain m now db where d: "d = (m, now, db)" by (cases d)
    obtain outs1 where r: "ring_run conv (snd (ring_take r d)) ops = (r', outs1)"
      and outs: "outs = (own_captures conv d (fst (ring_take r d)), dropped_total r,
        foreign_count d (fst (ring_take r d))) # outs1"
      using Cons.prems Take by (cases "ring_run conv (snd (ring_take r d)) ops") (auto simp: drain_take d)
    from Cons.IH [OF r] obtain batches where "rq.run (snd (ring_take r d)) ops = (r', batches)"
      "length batches = length (takes_of ops)" "map (\<lambda>(cs, _, f). (cs, f)) outs1 =
         map2 (\<lambda>d b. (own_captures conv d b, foreign_count d b)) (takes_of ops) batches" by blast
    then show ?thesis
      unfolding outs Take by (intro exI [of _ "fst (ring_take r d) # batches"])
        (simp add: takes_of_def case_prod_unfold)
  qed
qed

lemma puts_pushes: "rq.puts ops = map cut (pushes_of ops)"
  by (induction ops) (auto simp: rq.puts_def pushes_of_def split: queue_op.split)

section \<open>Overheads\<close>

lemma square_fits: "unat (ucast ns * ucast ns :: u128) = unat ns * unat ns" for ns :: u64
proof -
  have "unat ns \<le> 2 ^ 64 - 1" using unat_bound [of ns] by simp
  then have "unat ns * unat ns \<le> (2 ^ 64 - 1) * (2 ^ 64 - 1)" by (intro mult_mono) simp_all
  moreover have "unat ns < 2 ^ 128" using \<open>unat ns \<le> 2 ^ 64 - 1\<close> by simp
  then have "unat (ucast ns :: u128) = unat ns" by (simp add: unsigned_ucast_eq take_bit_nat_eq_self)
  ultimately show ?thesis by (simp add: unat_word_ariths)
qed

lemma overhead_run:
  assumes "ovh_count r = of_nat n" and "unat (ovh_sum_ns r) = min s (2 ^ 64 - 1)"
    and "unat (ovh_sumsq_ns r) = min q (2 ^ 128 - 1)"
  shows "ovh_count (foldl record_overhead r xs) = of_nat (n + length xs) \<and>
    unat (ovh_sum_ns (foldl record_overhead r xs)) = min (s + (\<Sum>x\<leftarrow>xs. unat x)) (2 ^ 64 - 1) \<and>
    unat (ovh_sumsq_ns (foldl record_overhead r xs)) = min (q + (\<Sum>x\<leftarrow>xs. unat x * unat x)) (2 ^ 128 - 1) \<and>
    ovh_min_ns (foldl record_overhead r xs) = foldl min (ovh_min_ns r) xs \<and>
    ovh_max_ns (foldl record_overhead r xs) = foldl max (ovh_max_ns r) xs"
  using assms
proof (induction xs arbitrary: r n s q)
  case (Cons x xs)
  let ?r = "record_overhead r x"
  have f: "ovh_count ?r = ovh_count r + 1" "ovh_sum_ns ?r = sat_add (ovh_sum_ns r) x"
    "ovh_sumsq_ns ?r = sat_add (ovh_sumsq_ns r) (ucast x * ucast x)"
    "ovh_min_ns ?r = min (ovh_min_ns r) x" "ovh_max_ns ?r = max (ovh_max_ns r) x"
    by (auto simp: record_overhead_def Let_def min_def max_def)
  have "ovh_count ?r = of_nat (n + 1)" using f(1) Cons.prems(1) by simp
  moreover have "unat (ovh_sum_ns ?r) = min (s + unat x) (2 ^ 64 - 1)"
    unfolding f(2) unat_sat_add Cons.prems(2) by simp
  moreover have "unat (ovh_sumsq_ns ?r) = min (q + unat x * unat x) (2 ^ 128 - 1)"
    unfolding f(3) unat_sat_add Cons.prems(3) square_fits by simp
  ultimately show ?case
    using Cons.IH [of ?r "n + 1" "s + unat x" "q + unat x * unat x"] f(4,5) by (simp add: add.assoc)
qed simp

lemma foldl_min_Min: "foldl min a xs = Min (insert a (set xs))" for a :: "'a::linorder"
proof -
  have "(\<lambda>x s. min s x) = (min :: 'a \<Rightarrow> _)" by (intro ext) (rule min.commute)
  then show ?thesis using Min.set_eq_fold [of a xs] by (simp add: foldl_conv_fold)
qed

lemma foldl_max_Max: "foldl max a xs = Max (insert a (set xs))" for a :: "'a::linorder"
proof -
  have "(\<lambda>x s. max s x) = (max :: 'a \<Rightarrow> _)" by (intro ext) (rule max.commute)
  then show ?thesis using Max.set_eq_fold [of a xs] by (simp add: foldl_conv_fold)
qed

section \<open>Properties\<close>

text \<open>C40: the ring is a bounded first-in first-out queue that never mixes databases: under any
  interleaving of pushes by any backends and drains, the records drained followed by those still
  pending are the pushes accepted, in order and cut at the two capacities; every push is counted
  once, as captured or as dropped; no drain yields more than the capacity; and a drain returns the
  captures of the caller's own database only and counts the others.\<close>

theorem ring_conserves_captures:
  "case ring_run conv default_ring ops of (r, outs) \<Rightarrow>
     \<exists>acc batches. subseq acc (map cut (pushes_of ops)) \<and> concat batches @ ring_items r = acc \<and>
       captured_total r = of_nat (length acc) \<and>
       dropped_total r = of_nat (length (pushes_of ops) - length acc) \<and>
       list_all (\<lambda>batch. length batch \<le> RING_CAP) batches \<and> length batches = length (takes_of ops) \<and>
       map (\<lambda>(captures, _, foreign). (captures, foreign)) outs =
         map2 (\<lambda>d batch. (own_captures conv d batch, foreign_count d batch)) (takes_of ops) batches"
proof -
  obtain r outs where r: "ring_run conv default_ring ops = (r, outs)" by (cases "ring_run conv default_ring ops")
  from ring_run_batches [OF r] obtain batches where b: "rq.run default_ring ops = (r, batches)"
    "length batches = length (takes_of ops)" "map (\<lambda>(cs, _, f). (cs, f)) outs =
       map2 (\<lambda>d b. (own_captures conv d b, foreign_count d b)) (takes_of ops) batches" by blast
  from rq.run_conserves [OF default_ring_ok b(1)] obtain acc n where c:
    "ring_items default_ring @ acc = concat batches @ ring_items r" "subseq acc (rq.puts ops)"
    "length acc + n = length (rq.puts ops)" "captured_total r = captured_total default_ring + of_nat (length acc)"
    "dropped_total r = dropped_total default_ring + of_nat n" "\<forall>out \<in> set batches. length out \<le> RING_CAP"
    by blast
  have "ring_items default_ring = []" "captured_total default_ring = 0" "dropped_total default_ring = 0"
    by (simp_all add: ring_items_def default_ring_def)
  moreover from c(3) have "n = length (pushes_of ops) - length acc" by (simp add: puts_pushes)
  ultimately show ?thesis
    using r b(2,3) c unfolding puts_pushes by (auto simp: list_all_iff intro!: exI [of _ batches])
qed

text \<open>The overhead counters are exact up to saturation: after a reset and any measurements, the
  count is their number, the sum and the sum of squares are exact or the largest value of their
  width, and the extremes are those of the measurements.\<close>

theorem overhead_saturates:
  "case overhead_snapshot (foldl record_overhead (reset_overhead r) xs) of (count, sum_ns, squares, mn, mx) \<Rightarrow>
     count = of_nat (length xs) \<and> unat sum_ns = min (\<Sum>x\<leftarrow>xs. unat x) (2 ^ 64 - 1) \<and>
     unat squares = min (\<Sum>x\<leftarrow>xs. unat x * unat x) (2 ^ 128 - 1) \<and>
     mn = (if count = 0 then 0 else Min (set xs)) \<and> mx = (if xs = [] then 0 else Max (set xs))"
proof -
  let ?r = "foldl record_overhead (reset_overhead r) xs"
  have i: "ovh_count (reset_overhead r) = of_nat 0" "unat (ovh_sum_ns (reset_overhead r)) = min 0 (2 ^ 64 - 1)"
    "unat (ovh_sumsq_ns (reset_overhead r)) = min 0 (2 ^ 128 - 1)"
    "ovh_min_ns (reset_overhead r) = - 1" "ovh_max_ns (reset_overhead r) = 0"
    by (simp_all add: reset_overhead_def)
  have mx: "foldl max 0 xs = (if xs = [] then 0 else Max (set xs))" for xs :: "u64 list"
    by (cases "xs = []") (simp_all add: foldl_max_Max)
  have mn: "foldl min (- 1) xs = Min (set xs)" if "xs \<noteq> []" for xs :: "u64 list"
    using that by (simp add: foldl_min_Min min_def word_order.extremum_unique)
  have c: "ovh_count ?r = of_nat (length xs)" using overhead_run [OF i(1-3), of xs] by simp
  have "Min (set xs) = foldl min (- 1) xs" if "ovh_count ?r \<noteq> 0"
    using that c by (intro mn [symmetric]) auto
  then show ?thesis
    using overhead_run [OF i(1-3), of xs] i(4,5) mx [of xs] by (auto simp: overhead_snapshot_def)
qed

end
