(* ===== verification/Log_Prefix.thy ===== *)
theory Log_Prefix
  imports Read_Loop
begin

text \<open>
  \<open>log_line_prefix.rs\<close> of the core: a \<open>log_line_prefix\<close> setting is cut into tokens, from which the
  pattern for the text after the timestamp is built. The regex crate is the record \<open>RegexLib\<close>: a
  pattern compiles to the function from a message to its group \<open>db\<close>, or not at all. A literal is one
  character, its UTF-8 bytes.
\<close>

section \<open>Tokens\<close>

datatype Token = Literal string | Escape char bool

record RegexLib =
  escape_literal :: "string \<Rightarrow> string"
  compile_db :: "string \<Rightarrow> (string \<Rightarrow> string option) option"
  compile_match :: "string \<Rightarrow> (string \<Rightarrow> bool) option"

definition DEFAULT_LOG_LINE_PREFIX :: string where "DEFAULT_LOG_LINE_PREFIX = ''%m [%p] ''"
definition UNKNOWN_DATABASE :: string where "UNKNOWN_DATABASE = ''unknown''"

definition known_escapes :: string where "known_escapes = ''audrhbpPtmnieclsvxQ''"

definition is_padding :: "string \<Rightarrow> bool" where
  "is_padding c \<longleftrightarrow> c = ''-'' \<or> (length c = 1 \<and> is_digit_char (hd c))"

lemma dropped_shorter: "dropWhile P cs = d # ds \<Longrightarrow> length ds < Suc (length cs)"
  by (metis length_Cons length_dropWhile_le less_Suc_eq_le Suc_le_lessD less_SucI)

function tokenize_chars :: "string list \<Rightarrow> string + Token list" where
  "tokenize_chars [] = Inr []"
| "tokenize_chars (ch # cs) =
     (if ch \<noteq> ''%'' then map_sum id ((#) (Literal ch)) (tokenize_chars cs)
      else
        (let padded = (cs \<noteq> [] \<and> is_padding (hd cs))
         in case dropWhile is_padding cs of
              [] \<Rightarrow> Inl ''log_line_prefix ends with a lone %''
            | d # ds \<Rightarrow>
                if d = ''%'' then map_sum id ((#) (Literal ''%'')) (tokenize_chars ds)
                else if length d = 1 \<and> hd d \<in> set known_escapes
                then map_sum id ((#) (Escape (hd d) padded)) (tokenize_chars ds)
                else if d = ''q'' then tokenize_chars ds
                else Inl (''unsupported log_line_prefix escape %'' @ d)))"
  by pat_completeness auto
termination by (relation "measure length") (auto dest: dropped_shorter)

definition tokenize :: "string \<Rightarrow> string + Token list" where
  "tokenize format = tokenize_chars (str_chars format)"

section \<open>The pattern of the tail\<close>

definition backslash :: char where "backslash = char_of (92 :: int)"

definition escape_group :: "char \<Rightarrow> string \<Rightarrow> string" where
  "escape_group c free_text =
     (if c = CHR ''d'' then ''(?P<db>'' @ free_text @ '')''
      else if c \<in> set ''aurhbi'' then ''(?:'' @ free_text @ '')''
      else if c \<in> set ''plx'' then [backslash] @ ''d+''
      else if c = CHR ''P'' then [backslash] @ ''d*''
      else if c = CHR ''Q'' then ''-?'' @ [backslash] @ ''d+''
      else if c = CHR ''e'' then [backslash] @ ''w{5}''
      else if c = CHR ''c'' then ''[0-9a-f]+'' @ [backslash] @ ''.[0-9a-f]+''
      else if c = CHR ''v'' then [backslash] @ ''S*''
      else if c \<in> set ''stm'' then
        [backslash] @ ''d{4}-'' @ [backslash] @ ''d{2}-'' @ [backslash] @ ''d{2} '' @ [backslash] @ ''d{2}:'' @
        [backslash] @ ''d{2}:'' @ [backslash] @ ''d{2}(?:'' @ [backslash] @ ''.'' @ [backslash] @ ''d+)?(?: [A-Z+'' @
        [backslash] @ ''-]['' @ [backslash] @ ''w:]*)?''
      else [backslash] @ ''d+'' @ [backslash] @ ''.'' @ [backslash] @ ''d+'')"

fun tail_pattern_from :: "RegexLib \<Rightarrow> Token list \<Rightarrow> string" where
  "tail_pattern_from L [] = []"
| "tail_pattern_from L (Literal ch # ts) = escape_literal L ch @ tail_pattern_from L ts"
| "tail_pattern_from L (Escape c padded # ts) =
     (let free_text = (case ts of Literal _ # _ \<Rightarrow> ''.*?'' | _ \<Rightarrow> [backslash] @ ''S*'');
          g = escape_group c free_text;
          ws = [backslash] @ ''s*''
      in (if padded then ws @ g @ ws else g) @ tail_pattern_from L ts)"

definition tail_pattern :: "RegexLib \<Rightarrow> Token list \<Rightarrow> string" where
  "tail_pattern L ts = ''^'' @ tail_pattern_from L ts"

section \<open>The prefix\<close>

record LogLinePrefix =
  prefix_format :: string
  prefix_tail :: "(string \<Rightarrow> string option) option"

definition is_database_escape :: "Token \<Rightarrow> bool" where
  "is_database_escape t = (case t of Escape c _ \<Rightarrow> c = CHR ''d'' | Literal _ \<Rightarrow> False)"

definition parse_prefix :: "RegexLib \<Rightarrow> string \<Rightarrow> string + LogLinePrefix" where
  "parse_prefix L format =
     (case (case strip_prefix ''%m'' format of Some r \<Rightarrow> Some r | None \<Rightarrow> strip_prefix ''%t'' format) of
        None \<Rightarrow> Inl ''log_line_prefix must start with %m or %t; lines are located by their timestamp''
      | Some rest \<Rightarrow>
          (case tokenize rest of
             Inl e \<Rightarrow> Inl e
           | Inr tokens \<Rightarrow>
               if list_ex is_database_escape tokens then
                 (case compile_db L (tail_pattern L tokens) of
                    None \<Rightarrow> Inl ''regex parse error''
                  | Some r \<Rightarrow> Inr \<lparr>prefix_format = format, prefix_tail = Some r\<rparr>)
               else Inr \<lparr>prefix_format = format, prefix_tail = None\<rparr>))"

definition has_database :: "LogLinePrefix \<Rightarrow> bool" where
  "has_database p \<longleftrightarrow> prefix_tail p \<noteq> None"

definition message_database :: "LogLinePrefix \<Rightarrow> string \<Rightarrow> string option" where
  "message_database p message =
     (case prefix_tail p of
        None \<Rightarrow> None
      | Some captures \<Rightarrow>
          (case captures message of
             None \<Rightarrow> None
           | Some found \<Rightarrow>
               (let name = trim found in if name \<noteq> [] \<and> name \<noteq> ''[unknown]'' then Some name else None)))"

text \<open>The parsers of the tools: \<open>with_log_line_prefix\<close>.\<close>

definition with_log_line_prefix :: "('v, 'm) LogParser \<Rightarrow> LogLinePrefix \<Rightarrow> ('v, 'm) LogParser" where
  "with_log_line_prefix P p = P\<lparr>prefix_database := message_database p\<rparr>"

text \<open>The default prefix is valid and names no database.\<close>

lemma default_prefix:
  "parse_prefix L DEFAULT_LOG_LINE_PREFIX = Inr \<lparr>prefix_format = DEFAULT_LOG_LINE_PREFIX, prefix_tail = None\<rparr>"
proof -
  have "tokenize '' [%p] '' = Inr [Literal '' '', Literal ''['', Escape CHR ''p'' False, Literal '']'', Literal '' '']"
    by code_simp
  then show ?thesis by (simp add: parse_prefix_def DEFAULT_LOG_LINE_PREFIX_def is_database_escape_def)
qed

section \<open>Tokens are read back as printed\<close>

definition print_token :: "Token \<Rightarrow> string" where
  "print_token t =
     (case t of
        Literal ch \<Rightarrow> if ch = ''%'' then ''%%'' else ch
      | Escape c padded \<Rightarrow> ''%'' @ (if padded then ''-10'' else []) @ [c])"

definition token_ok :: "Token \<Rightarrow> bool" where
  "token_ok t =
     (case t of Literal ch \<Rightarrow> ch \<noteq> [] \<and> utf8_unit ch = (True, length ch) | Escape c _ \<Rightarrow> c \<in> set known_escapes)"

definition token_chars :: "Token \<Rightarrow> string list" where
  "token_chars t =
     (case t of
        Literal ch \<Rightarrow> if ch = ''%'' then [''%'', ''%''] else [ch]
      | Escape c padded \<Rightarrow> ''%'' # (if padded then [''-'', ''1'', ''0''] else []) @ [[c]])"

lemma str_chars_unit:
  assumes "ch \<noteq> []" and "utf8_unit ch = (True, length ch)"
  shows "str_chars (ch @ s) = ch # str_chars s"
proof -
  have "utf8_unit (ch @ s) = (True, length ch)" using utf8_unit_valid(2) [OF assms(2,1), of s] by simp
  then have "utf8_len (ch @ s) = length ch" by (simp add: utf8_len_def)
  then show ?thesis using assms(1) by (subst str_chars.simps) simp
qed

lemma ascii_unit: "(of_char c :: int) < 128 \<Longrightarrow> utf8_unit [c] = (True, 1)"
  by (simp add: utf8_unit_def utf8_unit_of_def byte_at_def code_def)

lemma str_chars_ascii: "(of_char c :: int) < 128 \<Longrightarrow> str_chars (c # s) = [c] # str_chars s"
  using str_chars_unit [of "[c]" s] ascii_unit [of c] by simp

lemma known_ascii: "c \<in> set known_escapes \<Longrightarrow> (of_char c :: int) < 128"
  by (auto simp: known_escapes_def)

lemma token_print_chars: "token_ok t \<Longrightarrow> str_chars (print_token t @ s) = token_chars t @ str_chars s"
  by (cases t)
    (auto simp: token_ok_def print_token_def token_chars_def str_chars_unit str_chars_ascii known_ascii)

lemma known_not_padding: "c \<in> set known_escapes \<Longrightarrow> \<not> is_padding [c] \<and> [c] \<noteq> ''%''"
proof -
  have "list_all (\<lambda>c. \<not> is_padding [c] \<and> [c] \<noteq> ''%'') known_escapes" by code_simp
  then show "c \<in> set known_escapes \<Longrightarrow> \<not> is_padding [c] \<and> [c] \<noteq> ''%''"
    unfolding list_all_iff by blast
qed

lemma tokenize_token: "token_ok t \<Longrightarrow> tokenize_chars (token_chars t @ cs) = map_sum id ((#) t) (tokenize_chars cs)"
proof (cases t)
  case (Literal ch)
  have "\<not> is_padding ''%''" by code_simp
  then show ?thesis by (simp add: Literal token_chars_def)
next
  case (Escape c padded)
  assume "token_ok t"
  then have c: "c \<in> set known_escapes" by (simp add: token_ok_def Escape)
  have "is_padding ''-''" "is_padding ''1''" "is_padding ''0''" by code_simp+
  then show ?thesis using c known_not_padding [OF c] by (cases padded) (simp_all add: Escape token_chars_def)
qed

section \<open>Property\<close>

text \<open>A prefix is read back as its tokens: printing any literals and escapes, padded or not, and
  tokenising the result gives the same tokens.\<close>

theorem prefix_tokens_roundtrip:
  "list_all token_ok ts \<Longrightarrow> tokenize (concat (map print_token ts)) = Inr ts"
proof (induction ts)
  case Nil
  then show ?case by (simp add: tokenize_def str_chars.simps)
next
  case (Cons t ts)
  then show ?case by (simp add: tokenize_def token_print_chars tokenize_token)
qed

theorem prefix_tokens_roundtrip_witness:
  "tokenize (concat (map print_token [Escape CHR ''u'' True, Literal ''@'', Escape CHR ''d'' False, Literal ''%''])) =
     Inr [Escape CHR ''u'' True, Literal ''@'', Escape CHR ''d'' False, Literal ''%'']"
proof -
  have "list_all token_ok [Escape CHR ''u'' True, Literal ''@'', Escape CHR ''d'' False, Literal ''%'']" by code_simp
  then show ?thesis by (rule prefix_tokens_roundtrip)
qed

end
