(* ===== verification/Aggregate.thy ===== *)
theory Aggregate
  imports Grouping Ring Log_Prefix
begin

text \<open>
  From captures and log text to the rows the extension persists: \<open>capture.rs\<close> of the core and
  \<open>aggregate.rs\<close> of the extension. The analyses attached to a row (complexity, metadata and plan
  findings, as JSON) are the record \<open>Analyses\<close>. Counts are integers: a batch has far fewer than
  \<open>2 ^ 63\<close> executions.
\<close>

section \<open>Plans from captures\<close>

definition plan_less_query_plan :: "('v, 'm) Env \<Rightarrow> int \<Rightarrow> f64 \<Rightarrow> string \<Rightarrow> QueryPlan" where
  "plan_less_query_plan E t d q =
     \<lparr>timestamp = t, duration_ms = d, query_text = q, database = None,
      normalized_query = (case normalize_query E q of Some n \<Rightarrow> n | None \<Rightarrow> q),
      formatted_query = format_sql_query E q, source = TextSource [] [],
      parsed = \<lparr>root = new_node (UnknownNode ''(plan not captured)'')
          \<lparr>startup_cost = f_zero, min_total_cost = f_zero, max_total_cost = f_zero, estimated_rows = 0,
           estimated_width = 0\<rparr> [],
        planning_time_ms = None, execution_time_ms = None\<rparr>\<rparr>"

definition query_plan_from_capture ::
  "('v, 'm) Env \<Rightarrow> int \<Rightarrow> f64 \<Rightarrow> string \<Rightarrow> string \<Rightarrow> PlanError + QueryPlan" where
  "query_plan_from_capture E t d q plan_text =
     (if trim plan_text = [] then Inr (plan_less_query_plan E t d q)
      else text_finalize E \<lparr>t_timestamp = t, t_duration = d, t_query = q, t_lines = str_lines plan_text\<rparr>)"

section \<open>Rows\<close>

record HistBucket =
  hb_epoch :: f64
  hb_calls :: int
  hb_total :: f64
  hb_min :: f64
  hb_max :: f64

record WindowBucket =
  wb_epoch :: f64
  wb_calls :: int
  wb_total :: f64
  wb_latency :: "int list"

record StatRow =
  sr_fingerprint :: string
  sr_query_id :: "int option"
  sr_normalized_query :: string
  sr_representative_sql :: string
  sr_representative_plan :: string
  sr_calls :: int
  sr_total_time_ms :: f64
  sr_sum_sq_time_ms :: f64
  sr_min_time_ms :: f64
  sr_max_time_ms :: f64
  sr_slo_breaches :: int
  sr_first_seen_epoch :: f64
  sr_last_seen_epoch :: f64
  sr_complexity :: "string option"
  sr_metadata :: "string option"
  sr_plan_analysis :: "string option"
  sr_histogram :: "HistBucket list"
  sr_database :: "string option"
  sr_latency_buckets :: "int list"
  sr_window :: "WindowBucket list"

record Analyses =
  analyze_complexity :: "QueryPlan \<Rightarrow> string option"
  extract_metadata :: "QueryPlan \<Rightarrow> string option"
  run_plan_analysis :: "QueryPlan \<Rightarrow> string option"


definition count_slo_breaches :: "f64 list \<Rightarrow> f64 \<Rightarrow> int" where
  "count_slo_breaches durations threshold =
     (if f_le threshold f_zero then 0 else int (length (filter (\<lambda>d. f_lt threshold d) durations)))"

definition epoch_of :: "int \<Rightarrow> f64" where
  "epoch_of t = f_div (f_of_int (t div 1000)) (f_of_int 1000000)"

text \<open>One execution in the latency buckets and the minute window.\<close>

definition bump_bucket :: "int list \<Rightarrow> nat \<Rightarrow> int list" where
  "bump_bucket xs i = xs[i := xs ! i + 1]"

definition minute_of :: "int \<Rightarrow> int" where
  "minute_of t = t div 10 ^ 9 div 60 * 60"

definition count_execution ::
  "int list \<times> (int \<times> WindowBucket) list \<Rightarrow> ExecutionRecord \<Rightarrow> int list \<times> (int \<times> WindowBucket) list" where
  "count_execution st e =
     (let bucket = latency_bucket_index (er_duration e);
          latency = bump_bucket (fst st) bucket;
          minute = minute_of (er_timestamp e);
          entry = (case map_of (snd st) minute of
                     Some w \<Rightarrow> w
                   | None \<Rightarrow> \<lparr>wb_epoch = f_of_int minute, wb_calls = 0, wb_total = f_zero,
                              wb_latency = replicate LATENCY_BUCKET_COUNT 0\<rparr>)
      in (latency,
          AList.update minute
            (entry\<lparr>wb_calls := wb_calls entry + 1, wb_total := f_add (wb_total entry) (er_duration e),
                   wb_latency := bump_bucket (wb_latency entry) bucket\<rparr>) (snd st)))"

text \<open>The histogram is iterated over its keys, the hours of the executions.\<close>

definition histogram_rows :: "QueryGroupStatistics \<Rightarrow> HistBucket list" where
  "histogram_rows st =
     List.map_filter (\<lambda>k. map_option (\<lambda>m. \<lparr>hb_epoch = epoch_of k, hb_calls = int (hm_count m),
         hb_total = hm_total m, hb_min = hm_min m, hb_max = hm_max m\<rparr>) (qs_hourly_histogram st k))
       (remdups (map (\<lambda>e. hour_key (er_timestamp e)) (qs_executions st)))"

definition build_stat_row ::
  "Analyses \<Rightarrow> Normalizer \<Rightarrow> (string \<times> int) list \<Rightarrow> f64 \<Rightarrow> ProcessedQuery \<Rightarrow> StatRow" where
  "build_stat_row A N qid_by_norm slo pq =
     (let st = statistics pq; p = representative_plan pq;
          durations = map er_duration (qs_executions st);
          has_plan = trim (raw_plan p) \<noteq> [];
          (latency, minutes) = foldl count_execution (replicate LATENCY_BUCKET_COUNT 0, []) (qs_executions st)
      in \<lparr>sr_fingerprint = hex16 (query_hash N (normalized_query p)),
          sr_query_id = map_of qid_by_norm (normalized_query p),
          sr_normalized_query = normalized_query p,
          sr_representative_sql = query_text p,
          sr_representative_plan = raw_plan p,
          sr_calls = int (qs_count st),
          sr_total_time_ms = st_total (qs_duration st),
          sr_sum_sq_time_ms = f_sum (map (\<lambda>d. f_mul d d) durations),
          sr_min_time_ms = st_min (qs_duration st),
          sr_max_time_ms = st_max (qs_duration st),
          sr_slo_breaches = count_slo_breaches durations slo,
          sr_first_seen_epoch = epoch_of (qs_min_timestamp st),
          sr_last_seen_epoch = epoch_of (qs_max_timestamp st),
          sr_complexity = (if has_plan then analyze_complexity A p else None),
          sr_metadata = (if has_plan then extract_metadata A p else None),
          sr_plan_analysis = (if has_plan then run_plan_analysis A p else None),
          sr_histogram = histogram_rows st,
          sr_database = database p,
          sr_latency_buckets = latency,
          sr_window = map snd minutes\<rparr>)"

definition stat_rows ::
  "Analyses \<Rightarrow> Normalizer \<Rightarrow> (string \<times> int) list \<Rightarrow> f64 \<Rightarrow> QueryGrouper \<Rightarrow> StatRow list option" where
  "stat_rows A N qids slo g =
     map_option (\<lambda>gs. map (\<lambda>e. build_stat_row A N qids slo (snd e)) gs) (finish_grouper g)"

text \<open>\<open>aggregate_log\<close>: rows without a database are attributed to the unknown one.\<close>

definition aggregate_log ::
  "Analyses \<Rightarrow> ('v, 'm) LogParser \<Rightarrow> Normalizer \<Rightarrow> string \<Rightarrow> f64 \<Rightarrow> StatRow list option" where
  "aggregate_log A P N log_text slo =
     (if trim log_text = [] then Some []
      else
        (case parse_string_into_grouper P N log_text new_grouper of
           Inl _ \<Rightarrow> Some []
         | Inr (g, _) \<Rightarrow>
             if group_count g = 0 then Some []
             else map_option (map (\<lambda>r. r\<lparr>sr_database :=
                 (case sr_database r of None \<Rightarrow> Some UNKNOWN_DATABASE | Some db \<Rightarrow> Some db)\<rparr>))
               (stat_rows A N [] slo g)))"

definition fold_capture ::
  "('v, 'm) Env \<Rightarrow> Normalizer \<Rightarrow> (string \<times> int) list \<times> QueryGrouper \<Rightarrow> Capture \<Rightarrow>
     (string \<times> int) list \<times> QueryGrouper" where
  "fold_capture E N st c =
     (case query_plan_from_capture E (cap_timestamp c) (cap_duration_ms c) (cap_query_text c) (cap_plan_text c) of
        Inl _ \<Rightarrow> st
      | Inr p \<Rightarrow>
          (let (qids, g) = st;
               qids = (if cap_query_id c \<noteq> 0 \<and> map_of qids (normalized_query p) = None
                       then AList.update (normalized_query p) (cap_query_id c) qids else qids)
           in (qids, fst (fold_plan N g p))))"

definition aggregate_captures ::
  "Analyses \<Rightarrow> ('v, 'm) Env \<Rightarrow> Normalizer \<Rightarrow> Capture list \<Rightarrow> f64 \<Rightarrow> StatRow list option" where
  "aggregate_captures A E N captures slo =
     (let (qids, g) = foldl (fold_capture E N) ([], new_grouper) captures
      in if group_count g = 0 then Some [] else stat_rows A N qids slo g)"

section \<open>Counting\<close>

lemma count_by_key:
  "finite K \<Longrightarrow> f ` set xs \<subseteq> K \<Longrightarrow> (\<Sum>k\<in>K. length (filter (\<lambda>x. f x = k) xs)) = length xs"
proof (induction xs)
  case (Cons x xs)
  have "(\<Sum>k\<in>K. length (filter (\<lambda>y. f y = k) (x # xs))) =
      (\<Sum>k\<in>K. (if k = f x then 1 else 0) + length (filter (\<lambda>y. f y = k) xs))"
    by (intro sum.cong) auto
  also have "\<dots> = 1 + length xs" using Cons by (simp add: sum.distrib)
  finally show ?case by simp
qed simp

lemma int_sum_list: "(\<Sum>x\<leftarrow>xs. int (f x)) = int (\<Sum>x\<leftarrow>xs. f x)"
  by (induction xs) simp_all

lemma sum_update_key:
  "distinct (map fst xs) \<Longrightarrow> (\<Sum>e\<leftarrow>AList.update k v xs. h (snd e)) + (case map_of xs k of None \<Rightarrow> 0 | Some w \<Rightarrow> h w) =
     (\<Sum>e\<leftarrow>xs. h (snd e)) + h v" for h :: "'b \<Rightarrow> int"
  by (induction xs) (auto simp: map_of_eq_None_iff split: option.split)

lemma bump_bucket_sum: "i < length xs \<Longrightarrow> sum_list (bump_bucket xs i) = sum_list xs + 1"
  unfolding bump_bucket_def by (induction xs arbitrary: i) (auto split: nat.split)

lemma bump_bucket_length [simp]: "length (bump_bucket xs i) = length xs"
  by (simp add: bump_bucket_def)

lemma latency_bucket_in_range: "latency_bucket_index d < LATENCY_BUCKET_COUNT"
proof -
  have "position f xs = Some i \<Longrightarrow> i < length xs" for f :: "f64 \<Rightarrow> bool" and xs i
    by (induction f xs arbitrary: i rule: position.induct) (auto split: if_splits)
  then show ?thesis
    by (fastforce simp: latency_bucket_index_def LATENCY_BUCKET_COUNT_def Let_def split: option.split)
qed

definition buckets_ok :: "WindowBucket \<Rightarrow> bool" where
  "buckets_ok w \<longleftrightarrow> length (wb_latency w) = LATENCY_BUCKET_COUNT \<and> sum_list (wb_latency w) = wb_calls w"

lemma count_executions:
  "length latency = LATENCY_BUCKET_COUNT \<Longrightarrow> distinct (map fst minutes) \<Longrightarrow>
     list_all (\<lambda>e. buckets_ok (snd e)) minutes \<Longrightarrow>
     foldl count_execution (latency, minutes) es = (latency', minutes') \<Longrightarrow>
     length latency' = LATENCY_BUCKET_COUNT \<and> sum_list latency' = sum_list latency + int (length es) \<and>
     distinct (map fst minutes') \<and> list_all (\<lambda>e. buckets_ok (snd e)) minutes' \<and>
     (\<Sum>e\<leftarrow>minutes'. wb_calls (snd e)) = (\<Sum>e\<leftarrow>minutes. wb_calls (snd e)) + int (length es)"
proof (induction es arbitrary: latency minutes)
  case (Cons e es)
  let ?b = "latency_bucket_index (er_duration e)" and ?m = "minute_of (er_timestamp e)"
  let ?w = "case map_of minutes ?m of Some w \<Rightarrow> w
    | None \<Rightarrow> \<lparr>wb_epoch = f_of_int ?m, wb_calls = 0, wb_total = f_zero, wb_latency = replicate LATENCY_BUCKET_COUNT 0\<rparr>"
  let ?w' = "?w\<lparr>wb_calls := wb_calls ?w + 1, wb_total := f_add (wb_total ?w) (er_duration e),
      wb_latency := bump_bucket (wb_latency ?w) ?b\<rparr>"
  let ?ms = "AList.update ?m ?w' minutes"
  have b: "?b < LATENCY_BUCKET_COUNT" by (rule latency_bucket_in_range)
  have step: "count_execution (latency, minutes) e = (bump_bucket latency ?b, ?ms)"
    by (simp add: count_execution_def Let_def)
  have w: "buckets_ok ?w"
  proof (cases "map_of minutes ?m")
    case (Some x)
    then have "(?m, x) \<in> set minutes" by (rule map_of_SomeD)
    then show ?thesis using Cons.prems(3) Some by (auto simp: list_all_iff)
  qed (simp add: buckets_ok_def sum_list_replicate)
  then have w': "buckets_ok ?w'" using b by (simp add: buckets_ok_def bump_bucket_sum)
  have d: "distinct (map fst ?ms)" by (rule distinct_update [OF Cons.prems(2)])
  have "set ?ms \<subseteq> insert (?m, ?w') (set minutes)"
  proof
    fix x
    assume x: "x \<in> set ?ms"
    then have "map_of ?ms (fst x) = Some (snd x)" using d by simp
    then show "x \<in> insert (?m, ?w') (set minutes)"
      by (cases x) (auto simp: update_conv' split: if_splits dest: map_of_SomeD)
  qed
  then have all: "list_all (\<lambda>e. buckets_ok (snd e)) ?ms"
    using w' Cons.prems(3) by (auto simp: list_all_iff)
  have "(case map_of minutes ?m of None \<Rightarrow> 0 | Some w \<Rightarrow> wb_calls w) = wb_calls ?w"
    by (simp split: option.split)
  with sum_update_key [OF Cons.prems(2), of wb_calls ?m ?w']
  have "(\<Sum>e\<leftarrow>?ms. wb_calls (snd e)) = (\<Sum>e\<leftarrow>minutes. wb_calls (snd e)) + 1" by simp
  moreover have "sum_list (bump_bucket latency ?b) = sum_list latency + 1"
    using b Cons.prems(1) by (simp add: bump_bucket_sum)
  ultimately show ?case
    using Cons.IH [OF _ d all, of "bump_bucket latency ?b"] Cons.prems(1,4) by (simp add: step)
qed simp

lemma histogram_calls:
  assumes "qs_hourly_histogram st = generate_hourly_histogram (qs_executions st)"
  shows "(\<Sum>h\<leftarrow>histogram_rows st. hb_calls h) = int (length (qs_executions st))"
proof -
  let ?es = "qs_executions st" and ?h = "\<lambda>e. hour_key (er_timestamp e)"
  have some: "k \<in> ?h ` set ?es \<Longrightarrow> \<exists>m. generate_hourly_histogram ?es k = Some m \<and>
      hm_count m = length (filter (\<lambda>e. ?h e = k) ?es)" for k
  proof -
    assume "k \<in> ?h ` set ?es"
    then have "durations_in_hour k ?es \<noteq> []" by (auto simp: durations_in_hour_def filter_empty_conv)
    moreover have "length (durations_in_hour k ?es) = length (filter (\<lambda>e. ?h e = k) ?es)"
      by (simp add: durations_in_hour_def)
    ultimately show ?thesis
      by (cases "durations_in_hour k ?es") (auto simp: histogram_hour Let_def)
  qed
  have "(\<Sum>h\<leftarrow>List.map_filter (\<lambda>k. map_option (\<lambda>m. \<lparr>hb_epoch = epoch_of k, hb_calls = int (hm_count m),
      hb_total = hm_total m, hb_min = hm_min m, hb_max = hm_max m\<rparr>) (generate_hourly_histogram ?es k)) ks. hb_calls h) =
      (\<Sum>k\<leftarrow>ks. int (length (filter (\<lambda>e. ?h e = k) ?es)))" if "set ks \<subseteq> ?h ` set ?es" for ks
    using that
  proof (induction ks)
    case (Cons k ks)
    then obtain m where "generate_hourly_histogram ?es k = Some m" "hm_count m = length (filter (\<lambda>e. ?h e = k) ?es)"
      using some [of k] by auto
    with Cons show ?case by (simp add: List.map_filter_simps)
  qed (simp add: List.map_filter_simps)
  from this [of "remdups (map ?h ?es)"]
  have "(\<Sum>h\<leftarrow>histogram_rows st. hb_calls h) = (\<Sum>k\<leftarrow>remdups (map ?h ?es). int (length (filter (\<lambda>e. ?h e = k) ?es)))"
    by (simp add: histogram_rows_def assms)
  also have "\<dots> = (\<Sum>k\<in>set (map ?h ?es). int (length (filter (\<lambda>e. ?h e = k) ?es)))"
    by (metis distinct_remdups set_remdups sum_list_distinct_conv_sum_set)
  also have "\<dots> = int (\<Sum>k\<in>set (map ?h ?es). length (filter (\<lambda>e. ?h e = k) ?es))" by simp
  also have "\<dots> = int (length ?es)" using count_by_key [of "set (map ?h ?es)" ?h ?es] by simp
  finally show ?thesis .
qed

text \<open>A row whose parts all count the same executions.\<close>

definition row_consistent :: "StatRow \<Rightarrow> bool" where
  "row_consistent r \<longleftrightarrow> length (sr_latency_buckets r) = LATENCY_BUCKET_COUNT \<and>
     sum_list (sr_latency_buckets r) = sr_calls r \<and> (\<Sum>w\<leftarrow>sr_window r. wb_calls w) = sr_calls r \<and>
     list_all buckets_ok (sr_window r) \<and> (\<Sum>h\<leftarrow>sr_histogram r. hb_calls h) = sr_calls r"

lemma build_stat_row_consistent:
  assumes "qs_count (statistics pq) = length (qs_executions (statistics pq))"
    and "qs_hourly_histogram (statistics pq) = generate_hourly_histogram (qs_executions (statistics pq))"
  shows "row_consistent (build_stat_row A N qids slo pq) \<and>
    sr_calls (build_stat_row A N qids slo pq) = int (length (qs_executions (statistics pq)))"
proof -
  let ?es = "qs_executions (statistics pq)"
  obtain latency minutes where c: "foldl count_execution (replicate LATENCY_BUCKET_COUNT 0, []) ?es = (latency, minutes)"
    by fastforce
  from count_executions [OF _ _ _ c] have "length latency = LATENCY_BUCKET_COUNT" "sum_list latency = int (length ?es)"
    "list_all (\<lambda>e. buckets_ok (snd e)) minutes" "(\<Sum>e\<leftarrow>minutes. wb_calls (snd e)) = int (length ?es)"
    by (simp_all add: sum_list_replicate)
  then show ?thesis
    using c assms(1) histogram_calls [OF assms(2)]
    by (simp add: build_stat_row_def row_consistent_def list_all_iff comp_def Let_def)
qed

section \<open>Batches of captures\<close>

definition capture_plans :: "('v, 'm) Env \<Rightarrow> Capture list \<Rightarrow> QueryPlan list" where
  "capture_plans E cs = List.map_filter (\<lambda>c.
     ok_option (query_plan_from_capture E (cap_timestamp c) (cap_duration_ms c) (cap_query_text c) (cap_plan_text c))) cs"

lemma capture_plans_simps [simp]:
  "capture_plans E [] = []"
  "capture_plans E (c # cs) =
     (case query_plan_from_capture E (cap_timestamp c) (cap_duration_ms c) (cap_query_text c) (cap_plan_text c) of
        Inl _ \<Rightarrow> capture_plans E cs | Inr p \<Rightarrow> p # capture_plans E cs)"
  by (simp_all add: capture_plans_def List.map_filter_simps ok_option_def split: sum.split)

lemma fold_capture_snd:
  "snd (fold_capture E N st c) =
     (case query_plan_from_capture E (cap_timestamp c) (cap_duration_ms c) (cap_query_text c) (cap_plan_text c) of
        Inl _ \<Rightarrow> snd st | Inr p \<Rightarrow> fst (fold_plan N (snd st) p))"
  by (simp add: fold_capture_def Let_def split: sum.split prod.split)

lemma fold_captures: "snd (foldl (fold_capture E N) st cs) = fold_plans N (snd st) (capture_plans E cs)"
proof (induction cs arbitrary: st)
  case (Cons c cs)
  show ?case by (simp add: Cons.IH fold_capture_snd fold_plans_def split: sum.split)
qed (simp add: fold_plans_def)

definition counted :: "ProcessedQuery \<Rightarrow> bool" where
  "counted pq \<longleftrightarrow> qs_count (statistics pq) = length (qs_executions (statistics pq)) \<and>
     qs_hourly_histogram (statistics pq) = generate_hourly_histogram (qs_executions (statistics pq))"

lemma finished_groups:
  assumes ok: "grouper_ok N Q g ps" and len: "int (length ps) \<le> 2 ^ 53"
  shows "\<exists>gs. finish_grouper g = Some gs \<and>
    list_all (\<lambda>e. counted (snd e)) gs \<and>
    (\<Sum>e\<leftarrow>gs. length (qs_executions (statistics (snd e)))) = length ps \<and>
    (group_count g = 0 \<longrightarrow> ps = [])"
proof -
  have grouped: "grouped_as N (groups g) ps" using ok by (simp add: grouper_ok_def)
  from finalize_groups_result [OF grouped len] obtain gs where gs: "finalize_groups (groups g) = Some gs"
    "distinct (map fst gs)" "\<forall>k. map_of gs k = group_result N ps k" by blast
  let ?same = "\<lambda>k. filter (\<lambda>p. plan_key N p = k) ps"
  have some: "group_result N ps k = Some (snd e)" "?same k \<noteq> []" if "e \<in> set gs" "k = fst e" for e k
  proof -
    have "map_of gs k = Some (snd e)" using that gs(2) by simp
    then show r: "group_result N ps k = Some (snd e)" using gs(3) by simp
    then show "?same k \<noteq> []" by (auto simp: group_result_def)
  qed
  have fields: "qs_count (statistics (snd e)) = length (?same (fst e)) \<and>
      qs_executions (statistics (snd e)) = map execution_of (?same (fst e)) \<and>
      qs_hourly_histogram (statistics (snd e)) = generate_hourly_histogram (map execution_of (?same (fst e)))"
    if "e \<in> set gs" for e
    using group_result_fields [OF refl some(2) [OF that refl] len] some(1) [OF that refl] by auto
  have keys: "set (map fst gs) = plan_key N ` set ps"
  proof
    show "set (map fst gs) \<subseteq> plan_key N ` set ps" using some(2) by (fastforce simp: filter_empty_conv)
    show "plan_key N ` set ps \<subseteq> set (map fst gs)"
    proof
      fix k
      assume "k \<in> plan_key N ` set ps"
      then have "?same k \<noteq> []" by (auto simp: filter_empty_conv)
      from group_result_fields [OF refl this len] gs(3) obtain q where "map_of gs k = Some q" by metis
      then show "k \<in> set (map fst gs)" by (force dest: map_of_SomeD)
    qed
  qed
  have "(\<Sum>e\<leftarrow>gs. length (qs_executions (statistics (snd e)))) = (\<Sum>k\<leftarrow>map fst gs. length (?same k))"
    using fields by (simp add: comp_def cong: map_cong)
  also have "\<dots> = (\<Sum>k\<in>plan_key N ` set ps. length (?same k))"
    using gs(2) keys by (simp add: sum_list_distinct_conv_sum_set del: map_map)
  also have "\<dots> = length ps" by (rule count_by_key) simp_all
  finally have total: "(\<Sum>e\<leftarrow>gs. length (qs_executions (statistics (snd e)))) = length ps" .
  have "ps = []" if "group_count g = 0"
  proof -
    have "groups g = []" using that by (simp add: group_count_def)
    then have "gs = []" using gs(1) by (simp add: finalize_groups_def)
    then show ?thesis using total by simp
  qed
  then show ?thesis
    using gs(1) fields total by (auto simp: finish_grouper_def take_groups_def list_all_iff counted_def)
qed

lemma fresh_grouper_ok:
  assumes "inj_on (query_hash N) (query_text ` set ps)"
  shows "grouper_ok N (query_text ` set ps) (fold_plans N new_grouper ps) ps"
  using fold_plans_ok [OF assms grouper_ok_new subset_refl] by (simp add: new_grouper_def admitted_def in_window_def)

lemma rows_account:
  assumes "list_all (\<lambda>e. counted (snd e)) gs"
  shows "list_all row_consistent (map (\<lambda>e. build_stat_row A N qids slo (snd e)) gs) \<and>
    (\<Sum>r\<leftarrow>map (\<lambda>e. build_stat_row A N qids slo (snd e)) gs. sr_calls r) =
      int (\<Sum>e\<leftarrow>gs. length (qs_executions (statistics (snd e))))"
  using assms
proof (induction gs)
  case (Cons e gs)
  then have "row_consistent (build_stat_row A N qids slo (snd e))"
    "sr_calls (build_stat_row A N qids slo (snd e)) = int (length (qs_executions (statistics (snd e))))"
    using build_stat_row_consistent [of "snd e" A N qids slo] by (simp_all add: counted_def)
  with Cons show ?case by simp
qed simp

section \<open>Properties\<close>

text \<open>C11: the rows of a batch account for every execution: whatever the captures, each one whose plan
  parses is counted in exactly one row, and in a row the latency buckets, the minute window, the
  buckets of each minute and the hourly histogram all add up to its number of calls.\<close>

theorem capture_rows_account_executions:
  assumes "ps = capture_plans E captures" and "inj_on (query_hash N) (query_text ` set ps)"
    and "int (length ps) \<le> 2 ^ 53"
  shows "\<exists>rows. aggregate_captures A E N captures slo = Some rows \<and> list_all row_consistent rows \<and>
    (\<Sum>r\<leftarrow>rows. sr_calls r) = int (length ps)"
proof -
  obtain qids g where f: "foldl (fold_capture E N) ([], new_grouper) captures = (qids, g)" by fastforce
  then have g: "fold_plans N new_grouper ps = g" using fold_captures [of E N "([], new_grouper)" captures] assms(1) by simp
  from finished_groups [OF fresh_grouper_ok [OF assms(2)] assms(3), unfolded g] obtain gs where gs: "finish_grouper g = Some gs"
    "list_all (\<lambda>e. counted (snd e)) gs"
    "(\<Sum>e\<leftarrow>gs. length (qs_executions (statistics (snd e)))) = length ps" "group_count g = 0 \<longrightarrow> ps = []"
    by (elim exE conjE) (simp only: counted_def simp_thms)
  show ?thesis
  proof (cases "group_count g = 0")
    case True
    then show ?thesis using gs(4) f by (simp add: aggregate_captures_def)
  next
    case False
    then have "aggregate_captures A E N captures slo = Some (map (\<lambda>e. build_stat_row A N qids slo (snd e)) gs)"
      using f gs(1) by (simp add: aggregate_captures_def stat_rows_def)
    moreover note rows_account [OF gs(2), of A N qids slo, unfolded gs(3)]
    ultimately show ?thesis by blast
  qed
qed

lemma ball_two: "P a \<Longrightarrow> P b \<Longrightarrow> \<forall>l \<in> set [a, b]. P l"
  by simp

definition sample_capture :: Capture where
  "sample_capture = \<lparr>cap_timestamp = 7, cap_duration_ms = f_of_nat 3, cap_query_text = ''a'',
     cap_plan_text = [], cap_query_id = 4\<rparr>"

theorem capture_rows_account_executions_witness:
  "\<forall>A slo. \<exists>rows. aggregate_captures A sample_env sample_normalizer [sample_capture, sample_capture] slo = Some rows \<and>
     list_all row_consistent rows \<and> (\<Sum>r\<leftarrow>rows. sr_calls r) = 2"
proof (intro allI)
  fix A slo
  have "trim [] = []" by code_simp
  then have "capture_plans sample_env [sample_capture, sample_capture] =
      replicate 2 (plan_less_query_plan sample_env 7 (f_of_nat 3) ''a'')"
    by (simp add: sample_capture_def query_plan_from_capture_def numeral_2_eq_2)
  from capture_rows_account_executions [OF this [symmetric], of sample_normalizer A slo]
  show "\<exists>rows. aggregate_captures A sample_env sample_normalizer [sample_capture, sample_capture] slo = Some rows \<and>
     list_all row_consistent rows \<and> (\<Sum>r\<leftarrow>rows. sr_calls r) = 2" by (simp add: inj_on_def)
qed

section \<open>Captured and logged plans\<close>

text \<open>PostgreSQL puts a tab in front of every continuation line of a log message; the plan the hook renders has
  none. EXPLAIN begins the root with a capital letter and indents every line by an even number of spaces.\<close>

definition tab :: char where "tab = char_of (9::int)"

definition capital :: "char \<Rightarrow> bool" where "capital c \<longleftrightarrow> 65 \<le> code c \<and> code c \<le> 90"

lemma trim_start_tab: "trim_start (tab # s) = trim_start s"
  unfolding trim_start_def
  by (subst trim_units.simps) (simp add: nonempty_units_def ws_units_def utf8_def tab_def)

lemma trim_start_space: "trim_start (CHR '' '' # s) = trim_start s"
proof -
  have "trim_start (char_of (32::int) # s) = trim_start s"
    unfolding trim_start_def
    by (subst trim_units.simps) (simp add: nonempty_units_def ws_units_def utf8_def)
  moreover have "char_of (32::int) = CHR '' ''" by code_simp
  ultimately show ?thesis by simp
qed

lemma trim_tab: "trim (tab # s) = trim s"
  by (simp add: trim_def trim_start_tab)

lemma leading_ws_tab: "leading_ws_chars (tab # s) = Suc (leading_ws_chars s)"
  unfolding leading_ws_chars_def
  by (subst count_units.simps) (simp add: nonempty_units_def ws_units_def utf8_def tab_def)

lemma capital_no_space:
  assumes "capital c" and "u \<in> set ws_units"
  shows "c \<notin> set u"
proof
  assume "c \<in> set u"
  with assms(2) have "list_ex (\<lambda>u. list_ex (\<lambda>d. d = c) u) ws_units" by (auto simp: list_ex_iff)
  then have "list_ex (\<lambda>u. list_ex capital u) ws_units" using assms(1) by (auto simp: list_ex_iff)
  moreover have "\<not> list_ex (\<lambda>u. list_ex capital u) ws_units" by code_simp
  ultimately show False by blast
qed

lemma trim_start_capital:
  assumes "capital c"
  shows "trim_start (c # s) = c # s"
proof -
  have "strip_any (nonempty_units ws_units) (c # s) = None"
  proof (rule ccontr)
    assume "strip_any (nonempty_units ws_units) (c # s) \<noteq> None"
    then obtain u r where u: "u \<in> set (nonempty_units ws_units)" "c # s = u @ r" using strip_any_Some by blast
    then have "c \<in> set u" "u \<in> set ws_units" by (auto simp: nonempty_units_def Cons_eq_append_conv)
    with capital_no_space [OF assms] show False by blast
  qed
  then show ?thesis unfolding trim_start_def by (subst trim_units.simps) simp
qed

lemma trim_end_capital: "capital c \<Longrightarrow> \<exists>t. trim_end (c # s) = c # t"
proof -
  assume c: "capital c"
  obtain q where q: "rev (c # s) = q @ trim_units (map rev ws_units) (rev (c # s))" using trim_units_suffix by blast
  then have "c # s = trim_end (c # s) @ rev q" unfolding trim_end_def by (metis rev_append rev_rev_ident)
  moreover have "c \<in> set (trim_units (map rev ws_units) (rev (c # s)))"
    by (rule trim_units_keeps) (use capital_no_space [OF c] in auto)
  then have "trim_end (c # s) \<noteq> []" by (auto simp: trim_end_def)
  ultimately show ?thesis by (cases "trim_end (c # s)") auto
qed

lemma trim_capital: "capital c \<Longrightarrow> \<exists>t. trim (c # s) = c # t"
  using trim_end_capital by (simp add: trim_def trim_start_capital)

lemma not_json_capital: "capital c \<Longrightarrow> \<not> looks_like_json_start (c # s)"
  by (auto simp: looks_like_json_start_def Let_def trim_start_capital starts_with_iff capital_def code_def)

lemma trim_end_suffix:
  assumes "trim_end (a @ s) = a @ s"
  shows "trim_end s = s"
proof -
  have none: "strip_any us (x @ y) = None \<Longrightarrow> strip_any us x = None" for us and x y :: string
  proof (induction us)
    case (Cons u us)
    have "strip_prefix u x = None"
    proof (rule ccontr)
      assume "strip_prefix u x \<noteq> None"
      then obtain r where "strip_prefix u (x @ y) = Some (r @ y)" by (auto simp: strip_prefix_Some_iff)
      with Cons.prems show False by simp
    qed
    with Cons show ?case by (simp split: option.splits)
  qed simp
  have "trim_units (map rev ws_units) (rev s @ rev a) = rev s @ rev a"
    using assms by (simp add: trim_end_def) (metis rev_append rev_rev_ident)
  then have "strip_any (nonempty_units (map rev ws_units)) (rev s @ rev a) = None"
    using trim_units_done [of "map rev ws_units" "rev s @ rev a"] by simp
  from none [OF this] show ?thesis unfolding trim_end_def by (subst trim_units.simps) simp
qed

lemma join_tabs: "join newline (map (Cons tab) (p # ls)) = tab # p @ (if ls = [] then [] else newline @ join newline (map (Cons tab) ls))"
  by (cases ls) simp_all

lemma join_first: "join newline (p # ls) = p @ (if ls = [] then [] else newline @ join newline ls)"
  by (cases ls) simp_all

lemma parse_text_lines_join:
  assumes "list_all plain_line ls" and "\<forall>l \<in> set ls. trim l \<noteq> []"
  shows "parse_text_lines E (join newline ls) = map (new_plan_line (simd E) (aarch64 E)) ls"
  using str_lines_join [OF assms(1)] assms(2) by (simp add: parse_text_lines_def newline_def filter_id_conv)

lemma same_tree:
  assumes "simd_lanes (simd E) lane lit" and "\<forall>l \<in> set ls. even (leading_ws_chars l)"
  shows "parse_plan_from_lines (simd E) R (map (new_plan_line (simd E) (aarch64 E)) (map (Cons tab) ls)) =
    parse_plan_from_lines (simd E) R (map (new_plan_line (simd E) (aarch64 E)) ls)"
proof -
  have "convert_raw_indentation_to_logical (get_indent_level (simd E) (aarch64 E) (tab # l)) =
      convert_raw_indentation_to_logical (get_indent_level (simd E) (aarch64 E) l)" if "l \<in> set ls" for l
    using assms(2) that
    by (simp add: get_indent_level_counts_whitespace [OF assms(1)] leading_ws_tab convert_raw_indentation_to_logical_def)
  then show ?thesis by (simp add: parse_plan_from_lines_def new_plan_line_def trim_tab comp_def cong: map_cong)
qed

text \<open>The plan of the log and of the hook differ in the text they keep.\<close>

definition logged_plan :: "('v, 'm) Env \<Rightarrow> string list \<Rightarrow> QueryPlan \<Rightarrow> QueryPlan" where
  "logged_plan E ls x =
     (let raw = join newline (map (Cons tab) ls) in x\<lparr>source := TextSource raw (parse_text_lines E raw)\<rparr>)"

lemma finalize_tabs:
  assumes "simd_lanes (simd E) lane lit" and "capital c" and "list_all plain_line ((c # p) # ls)"
    and "\<forall>l \<in> set ((c # p) # ls). trim l \<noteq> [] \<and> even (leading_ws_chars l)"
  shows "text_finalize E \<lparr>t_timestamp = t, t_duration = d, t_query = q, t_lines = map (Cons tab) ((c # p) # ls)\<rparr> =
    map_sum id (logged_plan E ((c # p) # ls))
      (text_finalize E \<lparr>t_timestamp = t, t_duration = d, t_query = q, t_lines = (c # p) # ls\<rparr>)"
proof -
  let ?ls = "(c # p) # ls"
  let ?a = "join newline (map (Cons tab) ?ls)" and ?b = "join newline ?ls"
  have plain: "list_all plain_line (map (Cons tab) ?ls)"
    using assms(3) by (auto simp: list_all_iff plain_line_def tab_def code_def)
  have json: "\<not> looks_like_json_start ?a" "\<not> looks_like_json_start ?b"
    using not_json_capital [OF assms(2)] unfolding join_tabs join_first
    by (simp_all add: looks_like_json_start_def Let_def trim_start_tab)
  have "trim ?b \<noteq> []" "trim ?a \<noteq> []"
    using trim_capital [OF assms(2)] unfolding join_tabs join_first append_Cons trim_tab by (metis list.distinct(1))+
  moreover have "parse_text_lines E ?a = map (new_plan_line (simd E) (aarch64 E)) (map (Cons tab) ?ls)"
    by (rule parse_text_lines_join [OF plain]) (use assms(4) in \<open>auto simp: trim_tab\<close>)
  moreover have "parse_text_lines E ?b = map (new_plan_line (simd E) (aarch64 E)) ?ls"
    by (rule parse_text_lines_join [OF assms(3)]) (use assms(4) in blast)
  moreover have "parse_plan_from_lines (simd E) R (map (new_plan_line (simd E) (aarch64 E)) (map (Cons tab) ?ls)) =
      parse_plan_from_lines (simd E) R (map (new_plan_line (simd E) (aarch64 E)) ?ls)" for R
    by (rule same_tree [OF assms(1)]) (use assms(4) in blast)
  ultimately show ?thesis
    using json
    by (auto simp: text_finalize_def text_parse_def Let_def create_text_plan_def logged_plan_def split: sum.split)
qed

text \<open>C12: hook mode and log mode agree: an execution of a one-line statement, captured with its rendered plan,
  becomes the plan that reading its \<open>auto_explain\<close> entry from the log yields, where a tab precedes every line: the
  same time, duration, texts of the statement and tree, only the kept text of the plan has the tabs; or it is dropped
  when the entry yields nothing.\<close>

theorem capture_matches_log_entry:
  assumes "simd_lanes (simd E) lane lit" and "is_header E header t d" and "is_other_entry E following"
    and "trim q = q" and "\<forall>l \<in> set ((''Query Text: '' @ q) # (c # p) # ls). continues E (tab # l) \<and> trim_end (tab # l) = tab # l"
    and "capital c" and "plan_regex E (trim (c # p))"
    and "\<forall>l \<in> set ((c # p) # ls). even (leading_ws_chars l) \<and> (\<forall>c \<in> set l. code c \<noteq> 10)"
  shows "run_lines E SNone (header # map (Cons tab) ((''Query Text: '' @ q) # (c # p) # ls) @ [following]) =
    (SNone, case query_plan_from_capture E t d q (join newline ((c # p) # ls)) of
              Inl _ \<Rightarrow> [] | Inr x \<Rightarrow> [logged_plan E ((c # p) # ls) x])"
proof -
  let ?ls = "(c # p) # ls"
  have lines: "continues E (tab # l)" "trim_end (tab # l) = tab # l" if "l \<in> set ((''Query Text: '' @ q) # ?ls)" for l
    using assms(5) that by blast+
  have blank: "trim l \<noteq> []" if "l \<in> set ?ls" for l
    using lines [of l] that by (auto simp: continues_def trim_tab)
  have plain: "list_all plain_line ?ls"
  proof -
    have "plain_line l" if "l \<in> set ?ls" for l
    proof -
      have l: "l \<noteq> []" using blank [OF that] by (auto simp: trim_def)
      have "code (last (tab # l)) \<noteq> 13" using trim_end_last_not_cr [of "tab # l"] lines(2) [of l] that by simp
      then show ?thesis using l bspec [OF assms(8) that] by (simp add: plain_line_def)
    qed
    then show ?thesis unfolding list_all_iff by blast
  qed
  have "trim (trim_end (tab # ''Query Text: '' @ q)) = trim_end (''Query Text: '' @ q)"
    using lines(2) [of "''Query Text: '' @ q"]
    by (simp add: trim_tab) (simp add: trim_def trim_start_capital [of "CHR ''Q''"] capital_def code_def)
  also have "\<dots> = ''Query Text: '' @ q"
    by (rule trim_end_suffix [of "[tab]"]) (use lines(2) [of "''Query Text: '' @ q"] in simp)
  finally have query: "strip_prefix ''Query Text:'' (trim (trim_end (tab # ''Query Text: '' @ q))) = Some ('' '' @ q)"
    by (simp add: strip_prefix_Some_iff)
  have space: "trim ('' '' @ q) = q"
    using assms(4) by (simp add: trim_def trim_start_space)
  have root: "trim (trim_end (tab # c # p)) = trim (c # p)" using lines(2) [of "c # p"] by (simp add: trim_tab)
  have json: "\<not> looks_like_json_start (trim (c # p))"
    using trim_capital [OF assms(6), of p] not_json_capital [OF assms(6)] by auto
  have builder: "text_entry_builder t d ('' '' @ q) [] (map (Cons tab) ?ls) =
      \<lparr>t_timestamp = t, t_duration = d, t_query = q, t_lines = map (Cons tab) ?ls\<rparr>"
    using lines(2) by (simp add: text_entry_builder_def space [simplified] comp_def cong: map_cong)
  have entry: "run_lines E SNone (header # (tab # ''Query Text: '' @ q) # [] @ (tab # c # p) # map (Cons tab) ls) =
      (ParsingTextPlan (Text (text_entry_builder t d ('' '' @ q) [] ((tab # c # p) # map (Cons tab) ls))), plan_of (finalize_plan E SNone))"
    by (rule run_text_entry [OF assms(2) _ query]) (use lines(1) assms(7) json in \<open>auto simp: root\<close>)
  have "run_lines E SNone (header # map (Cons tab) ((''Query Text: '' @ q) # ?ls) @ [following]) =
      (SNone, plan_of (ok_option (text_finalize E (text_entry_builder t d ('' '' @ q) [] (map (Cons tab) ?ls)))))"
    using entry process_other_entry [OF assms(3)]
      run_lines_append [of E SNone "header # map (Cons tab) ((''Query Text: '' @ q) # ?ls)" "[following]"]
    by (simp add: plan_of_def)
  moreover have "trim (join newline ?ls) \<noteq> []"
    using trim_capital [OF assms(6)] unfolding join_first append_Cons by (metis list.distinct(1))
  then have "query_plan_from_capture E t d q (join newline ?ls) =
      text_finalize E \<lparr>t_timestamp = t, t_duration = d, t_query = q, t_lines = ?ls\<rparr>"
    using str_lines_join [OF plain] by (simp add: query_plan_from_capture_def newline_def)
  ultimately show ?thesis
    unfolding builder
    using finalize_tabs [OF assms(1,6) plain, of t d q] blank assms(8)
    by (simp add: plan_of_def ok_option_def map_sum_def split: sum.split)
qed

definition sample_root :: string where "sample_root = ''Sort(''"
definition sample_child :: string where "sample_child = ''  -> S(''"

theorem capture_matches_log_entry_witness:
  "\<exists>d x. query_plan_from_capture sample_env 5 d ''a'' (join newline [sample_root, sample_child]) = Inr x \<and>
     snd (run_lines sample_env SNone
       (''2024-01-01 00:00:00D1.5'' # map (Cons tab) [''Query Text: a'', sample_root, sample_child] @ [''2024-01-01 00:00:00''])) =
     [logged_plan sample_env [sample_root, sample_child] x]"
proof -
  obtain d where d: "is_header sample_env ''2024-01-01 00:00:00D1.5'' 5 d" using sample_is_header by blast
  have root: "sample_root = CHR ''S'' # ''ort(''" by (simp add: sample_root_def)
  have lanes: "simd_lanes (simd sample_env) (\<lambda>v i. v i) (\<lambda>m i. m i)"
    using fallback.simd_lanes_axioms by (simp add: sample_env_def)
  have q: "trim ''a'' = ''a''" by code_simp
  have "list_all (\<lambda>l. continues sample_env (tab # l) \<and> trim_end (tab # l) = tab # l) [''Query Text: a'', sample_root, sample_child]"
    by code_simp
  then have ls: "\<forall>l \<in> set ((''Query Text: '' @ ''a'') # (CHR ''S'' # ''ort('') # [sample_child]).
      continues sample_env (tab # l) \<and> trim_end (tab # l) = tab # l"
    by (simp add: sample_root_def)
  have "list_all (\<lambda>l. even (leading_ws_chars l) \<and> list_all (\<lambda>c. code c \<noteq> 10) l) [sample_root, sample_child]" by code_simp
  then have even: "\<forall>l \<in> set ((CHR ''S'' # ''ort('') # [sample_child]).
      even (leading_ws_chars l) \<and> (\<forall>c \<in> set l. code c \<noteq> 10)"
    by (simp add: sample_root_def list_all_iff)
  have c: "capital (CHR ''S'')" and r: "plan_regex sample_env (trim (CHR ''S'' # ''ort(''))"
    by code_simp+
  have "case text_parse sample_env (join newline (str_lines (join newline [sample_root, sample_child]))) of Inl _ \<Rightarrow> False | Inr _ \<Rightarrow> True"
    "trim (join newline [sample_root, sample_child]) \<noteq> []" "str_lines (join newline [sample_root, sample_child]) \<noteq> []"
    by code_simp+
  then obtain x where x: "query_plan_from_capture sample_env 5 d ''a'' (join newline [sample_root, sample_child]) = Inr x"
    by (auto simp: query_plan_from_capture_def text_finalize_def create_text_plan_def normalize_and_format_def Let_def sample_env_def
        split: sum.splits)
  show ?thesis
    using capture_matches_log_entry [OF lanes d sample_continues(5) q ls c r even] x
    by (intro exI [of _ d] exI [of _ x]) (simp add: root)
qed

end
