(* ===== verification/Statements.thy ===== *)
theory Statements
  imports Aggregate "HOL-Library.List_Lexorder" "HOL-Library.Char_ord" "HOL-Library.Product_Lexorder"
    "HOL-Library.Option_ord"
begin

text \<open>
  The extension's tables and how a batch of rows is folded into them: \<open>persist_rows\<close> and its three
  upserts in \<open>lib.rs\<close>, with \<open>add_bucket_arrays\<close> of \<open>schema.sql\<close>. A table is an association list from its
  primary key. What PostgreSQL supplies (the current database, \<open>to_timestamp\<close>, the clocks, a setting)
  is the record \<open>PgServer\<close>; its float order puts NaN last. A statement that fails aborts the
  transaction, which is the caller's matter; counters are integers and do not overflow here.
\<close>

section \<open>The order of floats and arrays in SQL\<close>

definition pg_lt :: "f64 \<Rightarrow> f64 \<Rightarrow> bool" where
  "pg_lt a b \<longleftrightarrow> (if is_nan a then False else if is_nan b then True else f_lt a b)"

definition pg_least :: "f64 \<Rightarrow> f64 \<Rightarrow> f64" where "pg_least a b = (if pg_lt b a then b else a)"
definition pg_greatest :: "f64 \<Rightarrow> f64 \<Rightarrow> f64" where "pg_greatest a b = (if pg_lt a b then b else a)"

definition coalesce :: "'a option \<Rightarrow> 'a option \<Rightarrow> 'a option" where
  "coalesce a b = (case a of Some x \<Rightarrow> Some x | None \<Rightarrow> b)"

type_synonym bigint_array = "int option list option"

text \<open>\<open>unnest(a, b)\<close> pads the shorter array with NULL, and a sum with NULL is NULL.\<close>

fun sum_elements :: "int option list \<Rightarrow> int option list \<Rightarrow> int option list" where
  "sum_elements [] ys = map (\<lambda>_. None) ys"
| "sum_elements xs [] = map (\<lambda>_. None) xs"
| "sum_elements (x # xs) (y # ys) =
     (case (x, y) of (Some a, Some b) \<Rightarrow> Some (a + b) | _ \<Rightarrow> None) # sum_elements xs ys"

definition add_bucket_arrays :: "bigint_array \<Rightarrow> bigint_array \<Rightarrow> bigint_array" where
  "add_bucket_arrays a b =
     (case (a, b) of
        (None, _) \<Rightarrow> b
      | (_, None) \<Rightarrow> a
      | (Some xs, Some ys) \<Rightarrow> (if xs = [] \<and> ys = [] then None else Some (sum_elements xs ys)))"

section \<open>Tables\<close>

record PgServer =
  server_database :: string
  to_timestamp :: "f64 \<Rightarrow> int"
  window_minutes :: int
  system_time :: f64
  transaction_time :: int

type_synonym statement_key = "string \<times> string"

record Statement =
  stm_query_id :: "int option"
  stm_normalized_query :: string
  stm_representative_sql :: string
  stm_representative_plan :: string
  stm_calls :: int
  stm_total_time_ms :: f64
  stm_sum_sq_time_ms :: f64
  stm_min_time_ms :: f64
  stm_max_time_ms :: f64
  stm_slo_breaches :: int
  stm_first_seen :: int
  stm_last_seen :: int
  stm_complexity :: "string option"
  stm_metadata :: "string option"
  stm_plan_analysis :: "string option"
  stm_latency_buckets :: bigint_array

record HistogramRow =
  hr_calls :: int
  hr_total_time_ms :: f64
  hr_min_time_ms :: f64
  hr_max_time_ms :: f64

record WindowRow =
  wr_calls :: int
  wr_total_time_ms :: f64
  wr_latency_buckets :: bigint_array

record Tables =
  statements :: "(statement_key \<times> Statement) list"
  query_histogram :: "((statement_key \<times> int) \<times> HistogramRow) list"
  metrics_window :: "((statement_key \<times> int) \<times> WindowRow) list"

definition empty_tables :: Tables where
  "empty_tables = \<lparr>statements = [], query_histogram = [], metrics_window = []\<rparr>"

section \<open>Upserts\<close>

text \<open>\<open>INSERT \<dots> ON CONFLICT (key) DO UPDATE\<close>.\<close>

definition upsert :: "'k \<Rightarrow> 'v \<Rightarrow> ('v \<Rightarrow> 'v) \<Rightarrow> ('k \<times> 'v) list \<Rightarrow> ('k \<times> 'v) list" where
  "upsert k v merge t = AList.update k (case map_of t k of None \<Rightarrow> v | Some old \<Rightarrow> merge old) t"

definition row_key :: "PgServer \<Rightarrow> StatRow \<Rightarrow> statement_key" where
  "row_key S r = (sr_fingerprint r, (case sr_database r of Some db \<Rightarrow> db | None \<Rightarrow> server_database S))"

definition inserted_statement :: "PgServer \<Rightarrow> StatRow \<Rightarrow> Statement" where
  "inserted_statement S r =
     \<lparr>stm_query_id = sr_query_id r, stm_normalized_query = sr_normalized_query r,
      stm_representative_sql = sr_representative_sql r, stm_representative_plan = sr_representative_plan r,
      stm_calls = sr_calls r, stm_total_time_ms = sr_total_time_ms r, stm_sum_sq_time_ms = sr_sum_sq_time_ms r,
      stm_min_time_ms = sr_min_time_ms r, stm_max_time_ms = sr_max_time_ms r,
      stm_slo_breaches = sr_slo_breaches r, stm_first_seen = to_timestamp S (sr_first_seen_epoch r),
      stm_last_seen = to_timestamp S (sr_last_seen_epoch r), stm_complexity = sr_complexity r,
      stm_metadata = sr_metadata r, stm_plan_analysis = sr_plan_analysis r,
      stm_latency_buckets = Some (map Some (sr_latency_buckets r))\<rparr>"

text \<open>\<open>UPSERT_SQL\<close>: the representative and its analyses are those of the slower batch.\<close>

definition merge_statement :: "Statement \<Rightarrow> Statement \<Rightarrow> Statement" where
  "merge_statement new old =
     (let slower = \<not> pg_lt (stm_max_time_ms new) (stm_max_time_ms old);
          pick = (if slower then new else old)
      in \<lparr>stm_query_id = (if slower then coalesce (stm_query_id new) (stm_query_id old)
            else coalesce (stm_query_id old) (stm_query_id new)),
          stm_normalized_query = stm_normalized_query old,
          stm_representative_sql = stm_representative_sql pick,
          stm_representative_plan = stm_representative_plan pick,
          stm_calls = stm_calls old + stm_calls new,
          stm_total_time_ms = f_add (stm_total_time_ms old) (stm_total_time_ms new),
          stm_sum_sq_time_ms = f_add (stm_sum_sq_time_ms old) (stm_sum_sq_time_ms new),
          stm_min_time_ms = pg_least (stm_min_time_ms old) (stm_min_time_ms new),
          stm_max_time_ms = pg_greatest (stm_max_time_ms old) (stm_max_time_ms new),
          stm_slo_breaches = stm_slo_breaches old + stm_slo_breaches new,
          stm_first_seen = min (stm_first_seen old) (stm_first_seen new),
          stm_last_seen = max (stm_last_seen old) (stm_last_seen new),
          stm_complexity = stm_complexity pick, stm_metadata = stm_metadata pick,
          stm_plan_analysis = stm_plan_analysis pick,
          stm_latency_buckets = add_bucket_arrays (stm_latency_buckets old) (stm_latency_buckets new)\<rparr>)"

definition upsert_statement :: "PgServer \<Rightarrow> StatRow \<Rightarrow> Tables \<Rightarrow> Tables" where
  "upsert_statement S r T =
     T\<lparr>statements := upsert (row_key S r) (inserted_statement S r) (merge_statement (inserted_statement S r))
        (statements T)\<rparr>"

definition upsert_window :: "PgServer \<Rightarrow> statement_key \<Rightarrow> Tables \<Rightarrow> WindowBucket \<Rightarrow> Tables" where
  "upsert_window S k T w =
     (let new = \<lparr>wr_calls = wb_calls w, wr_total_time_ms = wb_total w,
          wr_latency_buckets = Some (map Some (wb_latency w))\<rparr>
      in T\<lparr>metrics_window := upsert (k, to_timestamp S (wb_epoch w)) new
          (\<lambda>old. \<lparr>wr_calls = wr_calls old + wr_calls new,
             wr_total_time_ms = f_add (wr_total_time_ms old) (wr_total_time_ms new),
             wr_latency_buckets = add_bucket_arrays (wr_latency_buckets old) (wr_latency_buckets new)\<rparr>)
          (metrics_window T)\<rparr>)"

definition upsert_histogram :: "PgServer \<Rightarrow> statement_key \<Rightarrow> Tables \<Rightarrow> HistBucket \<Rightarrow> Tables" where
  "upsert_histogram S k T b =
     (let new = \<lparr>hr_calls = hb_calls b, hr_total_time_ms = hb_total b, hr_min_time_ms = hb_min b,
          hr_max_time_ms = hb_max b\<rparr>
      in T\<lparr>query_histogram := upsert (k, to_timestamp S (hb_epoch b)) new
          (\<lambda>old. \<lparr>hr_calls = hr_calls old + hr_calls new,
             hr_total_time_ms = f_add (hr_total_time_ms old) (hr_total_time_ms new),
             hr_min_time_ms = pg_least (hr_min_time_ms old) (hr_min_time_ms new),
             hr_max_time_ms = pg_greatest (hr_max_time_ms old) (hr_max_time_ms new)\<rparr>)
          (query_histogram T)\<rparr>)"

section \<open>Persisting a batch\<close>

definition window_cutoff :: "PgServer \<Rightarrow> f64" where
  "window_cutoff S = f_sub (system_time S) (f_mul (f_of_int (window_minutes S)) (f_of_int 60))"

definition persist_row :: "PgServer \<Rightarrow> Tables \<Rightarrow> StatRow \<Rightarrow> Tables" where
  "persist_row S T r =
     (let k = row_key S r;
          T = upsert_statement S r T;
          T = foldl (upsert_window S k) T (filter (\<lambda>w. f_le (window_cutoff S) (wb_epoch w)) (sr_window r))
      in foldl (upsert_histogram S k) T (sort_key (\<lambda>b. f_ord (hb_epoch b)) (sr_histogram r)))"

definition purge_window :: "PgServer \<Rightarrow> Tables \<Rightarrow> Tables" where
  "purge_window S T =
     T\<lparr>metrics_window := filter (\<lambda>e. transaction_time S - window_minutes S * 60 * 1000000 \<le> snd (fst e))
        (metrics_window T)\<rparr>"

text \<open>The rows are written in the order of their keys.\<close>

definition persist_rows :: "PgServer \<Rightarrow> StatRow list \<Rightarrow> Tables \<Rightarrow> int \<times> Tables" where
  "persist_rows S rows T =
     (let ordered = sort_key (\<lambda>r. (sr_fingerprint r, sr_database r)) rows
      in (int (length ordered), purge_window S (foldl (persist_row S) T ordered)))"

definition plansight_reset :: "Tables \<Rightarrow> Tables" where
  "plansight_reset T = T\<lparr>statements := [], metrics_window := [], query_histogram := []\<rparr>"

section \<open>Sums over tables\<close>

lemma sum_update_rows:
  "distinct (map fst t) \<Longrightarrow>
     (\<Sum>e\<leftarrow>AList.update k v t. h e) + (case map_of t k of None \<Rightarrow> 0 | Some w \<Rightarrow> h (k, w)) =
     (\<Sum>e\<leftarrow>t. h e) + h (k, v)" for h :: "'k \<times> 'v \<Rightarrow> int"
  by (induction t) (auto simp: map_of_eq_None_iff split: option.split)

lemma upsert_distinct: "distinct (map fst t) \<Longrightarrow> distinct (map fst (upsert k v merge t))"
  unfolding upsert_def by (rule distinct_update)

lemma upsert_keys: "fst ` set (upsert k v merge t) = insert k (fst ` set t)"
  unfolding upsert_def by (simp flip: dom_map_of_conv_image_fst) (simp add: update_conv')

lemma sum_upsert:
  fixes h :: "'k \<times> 'v \<Rightarrow> int"
  assumes "distinct (map fst t)" and "\<And>w. h (k, merge w) = h (k, w) + h (k, v)"
  shows "(\<Sum>e\<leftarrow>upsert k v merge t. h e) = (\<Sum>e\<leftarrow>t. h e) + h (k, v)"
  using sum_update_rows [OF assms(1), of h k "case map_of t k of None \<Rightarrow> v | Some old \<Rightarrow> merge old"]
  by (cases "map_of t k") (simp_all add: upsert_def assms(2))

lemma all_upsert:
  assumes "list_all P t" and "P (k, v)" and "\<And>w. P (k, w) \<Longrightarrow> P (k, merge w)" and "distinct (map fst t)"
  shows "list_all P (upsert k v merge t)"
proof -
  let ?v = "case map_of t k of None \<Rightarrow> v | Some old \<Rightarrow> merge old"
  have v: "P (k, ?v)"
    using assms(1-3) by (auto simp: list_all_iff split: option.split dest: map_of_SomeD)
  have "P e" if e: "e \<in> set (AList.update k ?v t)" for e
  proof -
    have "map_of (AList.update k ?v t) (fst e) = Some (snd e)"
      using e distinct_update [OF assms(4)] by (intro map_of_is_SomeI) simp_all
    then show ?thesis
      using v assms(1) by (cases e) (auto simp: update_conv' list_all_iff split: if_splits dest: map_of_SomeD)
  qed
  then show ?thesis by (simp add: upsert_def list_all_iff)
qed

section \<open>The invariant of the tables\<close>

text \<open>The calls of a statement, as its row, its latency buckets and its hourly histogram have them.\<close>

definition calls_of :: "Tables \<Rightarrow> statement_key \<Rightarrow> int" where
  "calls_of T k = (\<Sum>e\<leftarrow>statements T. if fst e = k then stm_calls (snd e) else 0)"

definition histogram_calls_of :: "Tables \<Rightarrow> statement_key \<Rightarrow> int" where
  "histogram_calls_of T k = (\<Sum>e\<leftarrow>query_histogram T. if fst (fst e) = k then hr_calls (snd e) else 0)"

definition total_calls :: "Tables \<Rightarrow> int" where
  "total_calls T = (\<Sum>e\<leftarrow>statements T. stm_calls (snd e))"

definition buckets_total :: "bigint_array \<Rightarrow> int \<Rightarrow> bool" where
  "buckets_total a n \<longleftrightarrow> (\<exists>bs. a = Some (map Some bs) \<and> length bs = LATENCY_BUCKET_COUNT \<and> sum_list bs = n)"

definition tables_ok :: "Tables \<Rightarrow> bool" where
  "tables_ok T \<longleftrightarrow> distinct (map fst (statements T)) \<and> distinct (map fst (query_histogram T)) \<and>
     distinct (map fst (metrics_window T)) \<and>
     list_all (\<lambda>e. buckets_total (stm_latency_buckets (snd e)) (stm_calls (snd e))) (statements T) \<and>
     list_all (\<lambda>e. buckets_total (wr_latency_buckets (snd e)) (wr_calls (snd e))) (metrics_window T) \<and>
     list_all (\<lambda>e. fst (fst e) \<in> fst ` set (statements T)) (query_histogram T) \<and>
     (\<forall>k. histogram_calls_of T k = calls_of T k)"

lemma sum_elements_Some:
  "length xs = length ys \<Longrightarrow> \<exists>zs. sum_elements (map Some xs) (map Some ys) = map Some zs \<and>
     length zs = length xs \<and> sum_list zs = sum_list xs + sum_list ys"
proof (induction xs ys rule: list_induct2)
  case (Cons x xs y ys)
  then obtain zs where "sum_elements (map Some xs) (map Some ys) = map Some zs" "length zs = length xs"
    "sum_list zs = sum_list xs + sum_list ys" by blast
  then show ?case by (intro exI [of _ "(x + y) # zs"]) simp
qed simp

lemma add_buckets_total:
  assumes "buckets_total a m" and "buckets_total b n"
  shows "buckets_total (add_bucket_arrays a b) (m + n)"
proof -
  obtain xs ys where x: "a = Some (map Some xs)" "length xs = LATENCY_BUCKET_COUNT" "sum_list xs = m"
    and y: "b = Some (map Some ys)" "length ys = LATENCY_BUCKET_COUNT" "sum_list ys = n"
    using assms unfolding buckets_total_def by blast
  then have "length xs = length ys" by simp
  from sum_elements_Some [OF this] obtain zs where "sum_elements (map Some xs) (map Some ys) = map Some zs"
    "length zs = length xs" "sum_list zs = sum_list xs + sum_list ys" by blast
  moreover have "xs \<noteq> []" using x(2) by (auto simp: LATENCY_BUCKET_COUNT_def)
  ultimately show ?thesis using x y unfolding buckets_total_def add_bucket_arrays_def by auto
qed

lemma upserted:
  "statements (upsert_statement S r T) = upsert (row_key S r) (inserted_statement S r)
     (merge_statement (inserted_statement S r)) (statements T)"
  "metrics_window (upsert_window S k T w) = upsert (k, to_timestamp S (wb_epoch w))
     \<lparr>wr_calls = wb_calls w, wr_total_time_ms = wb_total w, wr_latency_buckets = Some (map Some (wb_latency w))\<rparr>
     (\<lambda>old. \<lparr>wr_calls = wr_calls old + wb_calls w, wr_total_time_ms = f_add (wr_total_time_ms old) (wb_total w),
        wr_latency_buckets = add_bucket_arrays (wr_latency_buckets old) (Some (map Some (wb_latency w)))\<rparr>)
     (metrics_window T)"
  "query_histogram (upsert_histogram S k T b) = upsert (k, to_timestamp S (hb_epoch b))
     \<lparr>hr_calls = hb_calls b, hr_total_time_ms = hb_total b, hr_min_time_ms = hb_min b, hr_max_time_ms = hb_max b\<rparr>
     (\<lambda>old. \<lparr>hr_calls = hr_calls old + hb_calls b, hr_total_time_ms = f_add (hr_total_time_ms old) (hb_total b),
        hr_min_time_ms = pg_least (hr_min_time_ms old) (hb_min b),
        hr_max_time_ms = pg_greatest (hr_max_time_ms old) (hb_max b)\<rparr>)
     (query_histogram T)"
  by (simp_all add: upsert_statement_def upsert_window_def upsert_histogram_def Let_def)

lemma upsert_statement_ok:
  assumes "distinct (map fst (statements T))" and "row_consistent r"
    and "list_all (\<lambda>e. buckets_total (stm_latency_buckets (snd e)) (stm_calls (snd e))) (statements T)"
  shows "distinct (map fst (statements (upsert_statement S r T)))"
    and "list_all (\<lambda>e. buckets_total (stm_latency_buckets (snd e)) (stm_calls (snd e)))
      (statements (upsert_statement S r T))"
    and "calls_of (upsert_statement S r T) k = calls_of T k + (if row_key S r = k then sr_calls r else 0)"
    and "total_calls (upsert_statement S r T) = total_calls T + sr_calls r"
    and "fst ` set (statements (upsert_statement S r T)) = insert (row_key S r) (fst ` set (statements T))"
proof -
  let ?new = "inserted_statement S r"
  have new: "stm_calls ?new = sr_calls r" "buckets_total (stm_latency_buckets ?new) (stm_calls ?new)"
    using assms(2) by (auto simp: inserted_statement_def buckets_total_def row_consistent_def)
  have merged: "stm_calls (merge_statement ?new old) = stm_calls old + sr_calls r"
    "stm_latency_buckets (merge_statement ?new old) = add_bucket_arrays (stm_latency_buckets old) (stm_latency_buckets ?new)"
    for old
    by (simp_all add: merge_statement_def Let_def new)
  show "distinct (map fst (statements (upsert_statement S r T)))"
    "fst ` set (statements (upsert_statement S r T)) = insert (row_key S r) (fst ` set (statements T))"
    by (simp_all add: upserted upsert_distinct [OF assms(1)] upsert_keys)
  show "list_all (\<lambda>e. buckets_total (stm_latency_buckets (snd e)) (stm_calls (snd e)))
      (statements (upsert_statement S r T))"
    unfolding upserted
    by (rule all_upsert [OF assms(3) _ _ assms(1)])
      (use new add_buckets_total in \<open>simp_all add: merged\<close>)
  show "calls_of (upsert_statement S r T) k = calls_of T k + (if row_key S r = k then sr_calls r else 0)"
    unfolding calls_of_def upserted
    by (subst sum_upsert [OF assms(1)]) (simp_all add: merged new)
  show "total_calls (upsert_statement S r T) = total_calls T + sr_calls r"
    unfolding total_calls_def upserted
    by (subst sum_upsert [OF assms(1)]) (simp_all add: merged new)
qed

lemma upsert_windows_ok:
  "distinct (map fst (metrics_window T)) \<Longrightarrow> list_all buckets_ok ws \<Longrightarrow>
     list_all (\<lambda>e. buckets_total (wr_latency_buckets (snd e)) (wr_calls (snd e))) (metrics_window T) \<Longrightarrow>
     T' = foldl (upsert_window S k) T ws \<Longrightarrow>
     distinct (map fst (metrics_window T')) \<and>
     list_all (\<lambda>e. buckets_total (wr_latency_buckets (snd e)) (wr_calls (snd e))) (metrics_window T') \<and>
     statements T' = statements T \<and> query_histogram T' = query_histogram T"
proof (induction ws arbitrary: T)
  case (Cons w ws)
  let ?T = "upsert_window S k T w"
  have w: "buckets_total (Some (map Some (wb_latency w))) (wb_calls w)"
    using Cons.prems(2) by (auto simp: buckets_ok_def buckets_total_def)
  have d: "distinct (map fst (metrics_window ?T))"
    by (simp add: upserted upsert_distinct [OF Cons.prems(1)])
  have l: "list_all (\<lambda>e. buckets_total (wr_latency_buckets (snd e)) (wr_calls (snd e))) (metrics_window ?T)"
    unfolding upserted
    by (rule all_upsert [OF Cons.prems(3) _ _ Cons.prems(1)]) (use w add_buckets_total in simp_all)
  have "statements ?T = statements T" "query_histogram ?T = query_histogram T"
    by (simp_all add: upsert_window_def Let_def)
  then show ?case using Cons.IH [OF d _ l] Cons.prems(2,4) by simp
qed simp

lemma upsert_histograms_ok:
  "distinct (map fst (query_histogram T)) \<Longrightarrow> T' = foldl (upsert_histogram S k) T bs \<Longrightarrow>
     distinct (map fst (query_histogram T')) \<and>
     histogram_calls_of T' k' = histogram_calls_of T k' + (if k = k' then \<Sum>b\<leftarrow>bs. hb_calls b else 0) \<and>
     statements T' = statements T \<and> metrics_window T' = metrics_window T \<and>
     (\<forall>e \<in> set (query_histogram T'). fst (fst e) = k \<or> fst (fst e) \<in> fst ` fst ` set (query_histogram T))"
proof (induction bs arbitrary: T)
  case (Cons b bs)
  let ?T = "upsert_histogram S k T b"
  have d: "distinct (map fst (query_histogram ?T))"
    by (simp add: upserted upsert_distinct [OF Cons.prems(1)])
  have h: "histogram_calls_of ?T k' = histogram_calls_of T k' + (if k = k' then hb_calls b else 0)"
    unfolding histogram_calls_of_def upserted
    by (subst sum_upsert [OF Cons.prems(1)]) simp_all
  have o: "statements ?T = statements T" "metrics_window ?T = metrics_window T"
    by (simp_all add: upsert_histogram_def Let_def)
  have k: "fst ` fst ` set (query_histogram ?T) = insert k (fst ` fst ` set (query_histogram T))"
    by (simp add: upserted upsert_keys)
  show ?case using Cons.IH [OF d] Cons.prems(2) h o unfolding k by auto
qed auto

lemma sum_list_sort_key: "(\<Sum>x\<leftarrow>sort_key f xs. h x) = (\<Sum>x\<leftarrow>xs. h x)" for h :: "'a \<Rightarrow> int"
  by (metis mset_map mset_sort sum_mset_sum_list)

lemma persist_row_ok:
  assumes "tables_ok T" and "row_consistent r"
  shows "tables_ok (persist_row S T r) \<and> total_calls (persist_row S T r) = total_calls T + sr_calls r \<and>
    (\<forall>k. calls_of (persist_row S T r) k = calls_of T k + (if row_key S r = k then sr_calls r else 0))"
proof -
  let ?k = "row_key S r" and ?T1 = "upsert_statement S r T"
  define ws where "ws = filter (\<lambda>w. f_le (window_cutoff S) (wb_epoch w)) (sr_window r)"
  define bs where "bs = sort_key (\<lambda>b. f_ord (hb_epoch b)) (sr_histogram r)"
  define T2 where "T2 = foldl (upsert_window S ?k) ?T1 ws"
  define T3 where "T3 = foldl (upsert_histogram S ?k) T2 bs"
  have T: "distinct (map fst (statements T))" "distinct (map fst (query_histogram T))" "distinct (map fst (metrics_window T))"
    "list_all (\<lambda>e. buckets_total (stm_latency_buckets (snd e)) (stm_calls (snd e))) (statements T)"
    "list_all (\<lambda>e. buckets_total (wr_latency_buckets (snd e)) (wr_calls (snd e))) (metrics_window T)"
    "list_all (\<lambda>e. fst (fst e) \<in> fst ` set (statements T)) (query_histogram T)"
    "histogram_calls_of T k = calls_of T k" for k
    using assms(1) unfolding tables_ok_def by blast+
  have other: "metrics_window ?T1 = metrics_window T" "query_histogram ?T1 = query_histogram T"
    by (simp_all add: upsert_statement_def)
  have "list_all buckets_ok ws" using assms(2) by (auto simp: ws_def row_consistent_def list_all_iff)
  from upsert_windows_ok [of ?T1 ws T2 S ?k, unfolded other, OF T(3) this T(5) T2_def]
  have w: "distinct (map fst (metrics_window T2))"
    "list_all (\<lambda>e. buckets_total (wr_latency_buckets (snd e)) (wr_calls (snd e))) (metrics_window T2)"
    "statements T2 = statements ?T1" "query_histogram T2 = query_histogram T"
    by simp_all
  from upsert_histograms_ok [OF _ T3_def] T(2) w(4)
  have h: "distinct (map fst (query_histogram T3))" "statements T3 = statements ?T1" "metrics_window T3 = metrics_window T2"
    "histogram_calls_of T3 k = histogram_calls_of T2 k + (if ?k = k then \<Sum>b\<leftarrow>bs. hb_calls b else 0)"
    "\<forall>e \<in> set (query_histogram T3). fst (fst e) = ?k \<or> fst (fst e) \<in> fst ` fst ` set (query_histogram T)" for k
    using w(3) by simp_all
  note st = upsert_statement_ok [OF T(1) assms(2) T(4), of S]
  have "(\<Sum>b\<leftarrow>bs. hb_calls b) = sr_calls r"
    using assms(2) by (simp add: bs_def sum_list_sort_key row_consistent_def)
  then have hc: "histogram_calls_of T3 k = histogram_calls_of T k + (if ?k = k then sr_calls r else 0)" for k
    using h(4) [of k] w(4) by (simp add: histogram_calls_of_def)
  have c: "calls_of T3 k = calls_of ?T1 k" "total_calls T3 = total_calls ?T1" for k
    by (simp_all add: calls_of_def total_calls_def h(2))
  have "fst (fst e) \<in> fst ` set (statements T3)" if "e \<in> set (query_histogram T3)" for e
  proof -
    have "fst ` fst ` set (query_histogram T) \<subseteq> fst ` set (statements T)"
      using T(6) by (auto simp only: list_all_iff)
    moreover have "fst (fst e) = ?k \<or> fst (fst e) \<in> fst ` fst ` set (query_histogram T)"
      by (rule bspec [OF h(5) that])
    ultimately show ?thesis unfolding h(2) st(5) by (elim disjE) (simp_all only: insert_iff simp_thms subsetD)
  qed
  then have fk: "list_all (\<lambda>e. fst (fst e) \<in> fst ` set (statements T3)) (query_histogram T3)"
    unfolding list_all_iff by blast
  have eq: "histogram_calls_of T3 k = calls_of T3 k" for k by (simp only: hc c st(3) T(7))
  have "tables_ok T3"
    unfolding tables_ok_def using st(1,2) w(1,2) h(1) fk eq by (simp only: h(2,3) simp_thms)
  moreover have "persist_row S T r = T3"
    by (simp add: persist_row_def Let_def T3_def T2_def ws_def bs_def)
  ultimately show ?thesis using c st(3,4) by (simp only: simp_thms)
qed

lemma persist_list_ok:
  "tables_ok T \<Longrightarrow> list_all row_consistent rows \<Longrightarrow>
     tables_ok (foldl (persist_row S) T rows) \<and>
     total_calls (foldl (persist_row S) T rows) = total_calls T + (\<Sum>r\<leftarrow>rows. sr_calls r) \<and>
     (\<forall>k. calls_of (foldl (persist_row S) T rows) k =
        calls_of T k + (\<Sum>r\<leftarrow>rows. if row_key S r = k then sr_calls r else 0))"
proof (induction rows arbitrary: T)
  case (Cons r rows)
  note p = persist_row_ok [OF Cons.prems(1), of r S]
  from Cons.prems(2) have r: "row_consistent r" "list_all row_consistent rows" by simp_all
  note q = Cons.IH [OF conjunct1 [OF p [OF r(1)]] r(2)]
  show ?case using p [OF r(1)] q by (auto simp del: split_paired_All)
qed simp

lemma purge_window_ok:
  "tables_ok T \<Longrightarrow> tables_ok (purge_window S T)" "calls_of (purge_window S T) = calls_of T"
  "total_calls (purge_window S T) = total_calls T"
  by (auto simp: tables_ok_def purge_window_def list_all_iff distinct_map_filter calls_of_def fun_eq_iff
      histogram_calls_of_def total_calls_def)

lemma persist_rows_ok:
  assumes "tables_ok T" and "list_all row_consistent rows" and "persist_rows S rows T = (n, T')"
  shows "tables_ok T' \<and> total_calls T' = total_calls T + (\<Sum>r\<leftarrow>rows. sr_calls r) \<and>
    (\<forall>k. calls_of T' k = calls_of T k + (\<Sum>r\<leftarrow>rows. if row_key S r = k then sr_calls r else 0)) \<and>
    n = int (length rows)"
proof -
  let ?rows = "sort_key (\<lambda>r. (sr_fingerprint r, sr_database r)) rows"
  have n: "n = int (length rows)" and T': "T' = purge_window S (foldl (persist_row S) T ?rows)"
    using assms(3) by (simp_all add: persist_rows_def Let_def)
  have "list_all row_consistent ?rows" using assms(2) by (simp add: list_all_iff)
  from persist_list_ok [OF assms(1) this, of S] show ?thesis
    unfolding T' by (simp only: purge_window_ok sum_list_sort_key n simp_thms)
qed

lemma tables_ok_empty [simp]: "tables_ok empty_tables" "total_calls empty_tables = 0"
  by (simp_all add: empty_tables_def tables_ok_def calls_of_def histogram_calls_of_def total_calls_def)

section \<open>Property\<close>

text \<open>C10: the cumulative tables stay consistent: folding in any batch of consistent rows adds, for each
  statement, exactly the batch's calls, and keeps that in every statement the latency buckets and the
  hours of the histogram add up to its calls, that a minute's buckets add up to its calls, and that
  every histogram row has a statement. A reset empties the tables.\<close>

theorem persisted_tables_consistent:
  assumes "tables_ok T" and "list_all row_consistent rows" and "persist_rows S rows T = (n, T')"
  shows "tables_ok T' \<and> n = int (length rows) \<and>
    calls_of T' k = calls_of T k + (\<Sum>r\<leftarrow>rows. if row_key S r = k then sr_calls r else 0) \<and>
    plansight_reset T' = empty_tables"
  using persist_rows_ok [OF assms] by (simp add: plansight_reset_def empty_tables_def del: split_paired_All)

definition sample_row :: StatRow where
  "sample_row =
     \<lparr>sr_fingerprint = ''f'', sr_query_id = None, sr_normalized_query = ''q'', sr_representative_sql = ''q'',
      sr_representative_plan = [], sr_calls = 1, sr_total_time_ms = f_zero, sr_sum_sq_time_ms = f_zero,
      sr_min_time_ms = f_zero, sr_max_time_ms = f_zero, sr_slo_breaches = 0, sr_first_seen_epoch = f_zero,
      sr_last_seen_epoch = f_zero, sr_complexity = None, sr_metadata = None, sr_plan_analysis = None,
      sr_histogram = [\<lparr>hb_epoch = f_zero, hb_calls = 1, hb_total = f_zero, hb_min = f_zero, hb_max = f_zero\<rparr>],
      sr_database = None, sr_latency_buckets = 1 # replicate 9 0,
      sr_window = [\<lparr>wb_epoch = f_zero, wb_calls = 1, wb_total = f_zero, wb_latency = 1 # replicate 9 0\<rparr>]\<rparr>"

definition sample_server :: PgServer where
  "sample_server = \<lparr>server_database = ''db'', to_timestamp = (\<lambda>_. 0), window_minutes = 15, system_time = f_zero,
     transaction_time = 0\<rparr>"

theorem persisted_tables_consistent_witness:
  "calls_of (snd (persist_rows sample_server [sample_row, sample_row] empty_tables)) (''f'', ''db'') = 2"
proof -
  have c: "LATENCY_BUCKET_COUNT = 10" by code_simp
  have r: "row_consistent sample_row"
    by (simp add: row_consistent_def sample_row_def buckets_ok_def c sum_list_replicate)
  then have rows: "list_all row_consistent [sample_row, sample_row]" by simp
  from persisted_tables_consistent [OF tables_ok_empty(1) rows prod.collapse [symmetric], of sample_server "(''f'', ''db'')"]
  show ?thesis
    by (simp add: row_key_def sample_row_def sample_server_def) (simp add: calls_of_def empty_tables_def)
qed

end
