(* ===== verification/State_Store.thy ===== *)
theory State_Store
  imports Prelude "HOL-Library.AList"
begin

text \<open>
  The exporter's persisted state (\<open>state.rs\<close>): file checkpoints and query sightings in two SQLite
  tables. A table is an association list from its primary key to its row; each method is the effect
  of its SQL statements when they succeed (a failing connection is an input of the collector's
  cycle). Sizes and positions are \<open>u64\<close> values stored in signed 64-bit columns; times are stored as
  RFC 3339 text, printed and read by chrono, which is the record \<open>Rfc3339\<close>, and compared as text by
  SQLite.
\<close>

section \<open>Columns\<close>

definition as_i64 :: "int \<Rightarrow> int" where
  "as_i64 n = (if n < 2 ^ 63 then n else n - 2 ^ 64)"

definition as_u64 :: "int \<Rightarrow> int" where
  "as_u64 i = i mod 2 ^ 64"

definition is_u64 :: "int \<Rightarrow> bool" where
  "is_u64 n \<longleftrightarrow> 0 \<le> n \<and> n < 2 ^ 64"

lemma u64_column: "is_u64 n \<Longrightarrow> as_u64 (as_i64 n) = n"
  by (auto simp: is_u64_def as_i64_def as_u64_def mod_pos_pos_trivial)

text \<open>Printing and parsing of times, and the text comparison of SQLite.\<close>

record Rfc3339 =
  to_rfc3339 :: "int \<Rightarrow> string"
  parse_rfc3339 :: "string \<Rightarrow> int option"

definition text_less :: "string \<Rightarrow> string \<Rightarrow> bool" where
  "text_less a b \<longleftrightarrow> ord_class.lexordp (map (of_char :: char \<Rightarrow> int) a) (map of_char b)"

section \<open>Rows\<close>

record FileState =
  file_path :: string
  last_position :: int
  last_modified_time :: int
  last_file_size :: int
  last_processed_at :: int
  dev :: "int option"
  ino :: "int option"

record FileRow =
  row_position :: int
  row_modified :: int
  row_size :: int
  row_processed :: string
  row_dev :: "int option"
  row_ino :: "int option"

record HashRow =
  row_normalized :: string
  row_first_seen :: string
  row_last_seen :: string

type_synonym query_key = "string \<times> string"

record Database =
  processed_files :: "(string \<times> FileRow) list"
  query_hashes :: "(query_key \<times> HashRow) list"

datatype db_error = Invalid_Column | Invalid_Timestamp string | No_Row

definition empty_database :: Database where
  "empty_database = \<lparr>processed_files = [], query_hashes = []\<rparr>"

definition row_to_file_state :: "Rfc3339 \<Rightarrow> string \<Rightarrow> FileRow \<Rightarrow> db_error + FileState" where
  "row_to_file_state R path row =
     (case parse_rfc3339 R (row_processed row) of
        None \<Rightarrow> Inl Invalid_Column
      | Some t \<Rightarrow>
          Inr \<lparr>file_path = path, last_position = as_u64 (row_position row),
               last_modified_time = row_modified row, last_file_size = as_u64 (row_size row),
               last_processed_at = t, dev = map_option as_u64 (row_dev row),
               ino = map_option as_u64 (row_ino row)\<rparr>)"

definition get_file_state :: "Rfc3339 \<Rightarrow> Database \<Rightarrow> string \<Rightarrow> db_error + FileState option" where
  "get_file_state R D path =
     (case map_of (processed_files D) path of
        None \<Rightarrow> Inr None
      | Some row \<Rightarrow> (case row_to_file_state R path row of Inl e \<Rightarrow> Inl e | Inr s \<Rightarrow> Inr (Some s)))"

definition update_file_state :: "Rfc3339 \<Rightarrow> Database \<Rightarrow> FileState \<Rightarrow> Database" where
  "update_file_state R D s =
     D\<lparr>processed_files := AList.update (file_path s)
        \<lparr>row_position = as_i64 (last_position s), row_modified = last_modified_time s,
         row_size = as_i64 (last_file_size s), row_processed = to_rfc3339 R (last_processed_at s),
         row_dev = map_option as_i64 (dev s), row_ino = map_option as_i64 (ino s)\<rparr> (processed_files D)\<rparr>"

fun collect_states :: "Rfc3339 \<Rightarrow> (string \<times> FileRow) list \<Rightarrow> db_error + (string \<times> FileState) list" where
  "collect_states R [] = Inr []"
| "collect_states R ((path, row) # rows) =
     (case row_to_file_state R path row of
        Inl e \<Rightarrow> Inl e
      | Inr s \<Rightarrow> (case collect_states R rows of Inl e \<Rightarrow> Inl e | Inr ss \<Rightarrow> Inr ((path, s) # ss)))"

definition get_all_file_states :: "Rfc3339 \<Rightarrow> Database \<Rightarrow> db_error + (string \<times> FileState) list" where
  "get_all_file_states R D = collect_states R (processed_files D)"

text \<open>The upsert of one sighting: \<open>COALESCE\<close> keeps the first sighting of an existing row.\<close>

definition upsert_hash :: "string \<Rightarrow> query_key \<Rightarrow> string \<Rightarrow> (query_key \<times> HashRow) list \<Rightarrow>
    HashRow \<times> (query_key \<times> HashRow) list" where
  "upsert_hash now key normalized table =
     (let first = (case map_of table key of Some row \<Rightarrow> row_first_seen row | None \<Rightarrow> now);
          row = \<lparr>row_normalized = normalized, row_first_seen = first, row_last_seen = now\<rparr>
      in (row, AList.update key row table))"

fun record_entries ::
  "Rfc3339 \<Rightarrow> string \<Rightarrow> (query_key \<times> string) list \<Rightarrow> (query_key \<times> HashRow) list \<Rightarrow>
     (query_key \<times> int \<times> int) list \<Rightarrow>
     db_error + (query_key \<times> int \<times> int) list \<times> (query_key \<times> HashRow) list" where
  "record_entries R now [] table seen = Inr (seen, table)"
| "record_entries R now ((key, normalized) # es) table seen =
     (let (row, table) = upsert_hash now key normalized table
      in case parse_rfc3339 R (row_first_seen row) of
           None \<Rightarrow> Inl (Invalid_Timestamp (row_first_seen row))
         | Some fs \<Rightarrow>
             (case parse_rfc3339 R (row_last_seen row) of
                None \<Rightarrow> Inl (Invalid_Timestamp (row_last_seen row))
              | Some ls \<Rightarrow> record_entries R now es table (AList.update key (fs, ls) seen)))"

text \<open>One transaction: an error leaves the table as it was.\<close>

definition record_query_hashes ::
  "Rfc3339 \<Rightarrow> int \<Rightarrow> Database \<Rightarrow> (query_key \<times> string) list \<Rightarrow>
     (db_error + (query_key \<times> int \<times> int) list) \<times> Database" where
  "record_query_hashes R now D es =
     (if es = [] then (Inr [], D)
      else (case record_entries R (to_rfc3339 R now) es (query_hashes D) [] of
              Inl e \<Rightarrow> (Inl e, D)
            | Inr (seen, table) \<Rightarrow> (Inr seen, D\<lparr>query_hashes := table\<rparr>)))"

definition record_query_hash ::
  "Rfc3339 \<Rightarrow> int \<Rightarrow> Database \<Rightarrow> string \<Rightarrow> string \<Rightarrow> string \<Rightarrow>
     (db_error + int \<times> int) \<times> Database" where
  "record_query_hash R now D h db normalized =
     (case record_query_hashes R now D [((h, db), normalized)] of
        (Inl e, D) \<Rightarrow> (Inl e, D)
      | (Inr seen, D) \<Rightarrow>
          (case map_of seen (h, db) of None \<Rightarrow> Inl No_Row | Some t \<Rightarrow> Inr t, D))"

definition delete_file_state :: "Database \<Rightarrow> string \<Rightarrow> Database" where
  "delete_file_state D path = D\<lparr>processed_files := AList.delete path (processed_files D)\<rparr>"

definition cleanup_old_query_hashes :: "Rfc3339 \<Rightarrow> int \<Rightarrow> Database \<Rightarrow> nat \<times> Database" where
  "cleanup_old_query_hashes R older_than D =
     (let keep = filter (\<lambda>e. \<not> text_less (row_last_seen (snd e)) (to_rfc3339 R older_than)) (query_hashes D)
      in (length (query_hashes D) - length keep, D\<lparr>query_hashes := keep\<rparr>))"

definition cleanup_old_states :: "Rfc3339 \<Rightarrow> int \<Rightarrow> Database \<Rightarrow> nat \<times> Database" where
  "cleanup_old_states R older_than D =
     (let cutoff = to_rfc3339 R older_than;
          files = filter (\<lambda>e. \<not> text_less (row_processed (snd e)) cutoff) (processed_files D);
          hashes = filter (\<lambda>e. \<not> text_less (row_last_seen (snd e)) cutoff) (query_hashes D)
      in (length (processed_files D) - length files,
          D\<lparr>processed_files := files, query_hashes := hashes\<rparr>))"

definition reset_state :: "Database \<Rightarrow> Database" where
  "reset_state D = D\<lparr>processed_files := [], query_hashes := []\<rparr>"

text \<open>The latest modification time in nanoseconds, or a day before \<open>now\<close> (in nanoseconds).\<close>

definition get_last_run_timestamp :: "(int \<Rightarrow> int option) \<Rightarrow> int \<Rightarrow> Database \<Rightarrow> int" where
  "get_last_run_timestamp from_timestamp now D =
     (case map (\<lambda>e. row_modified (snd e)) (processed_files D) of
        [] \<Rightarrow> now - 24 * 3600 * 10 ^ 9
      | t # ts \<Rightarrow> (case from_timestamp (foldl max t ts) of Some d \<Rightarrow> d | None \<Rightarrow> now))"

text \<open>The exporter's retention pass over both tables: checkpoints only of files that are gone.\<close>

fun cleanup_files :: "int \<Rightarrow> (string \<Rightarrow> bool) \<Rightarrow> (string \<times> FileState) list \<Rightarrow> Database \<Rightarrow> nat \<times> Database" where
  "cleanup_files cutoff exists_file [] D = (0, D)"
| "cleanup_files cutoff exists_file ((path, s) # ss) D =
     (if last_processed_at s < cutoff \<and> \<not> exists_file path then
        (let (n, D) = cleanup_files cutoff exists_file ss (delete_file_state D path) in (n + 1, D))
      else cleanup_files cutoff exists_file ss D)"

definition cleanup_blocking :: "Rfc3339 \<Rightarrow> (string \<Rightarrow> bool) \<Rightarrow> int \<Rightarrow> Database \<Rightarrow> (db_error + nat) \<times> Database" where
  "cleanup_blocking R exists_file cutoff D =
     (case get_all_file_states R D of
        Inl e \<Rightarrow> (Inl e, D)
      | Inr states \<Rightarrow>
          (let (n, D) = cleanup_files cutoff exists_file states D;
               (m, D) = cleanup_old_query_hashes R cutoff D
           in (Inr (n + m), D)))"

definition cleanup_old_state :: "Rfc3339 \<Rightarrow> (string \<Rightarrow> bool) \<Rightarrow> int \<Rightarrow> int \<Rightarrow> Database \<Rightarrow> (db_error + nat) \<times> Database" where
  "cleanup_old_state R exists_file retain_days now D =
     (if retain_days = 0 then (Inr 0, D)
      else cleanup_blocking R exists_file (now - retain_days * 24 * 3600 * 10 ^ 9) D)"

section \<open>Tables\<close>

definition database_ok :: "Database \<Rightarrow> bool" where
  "database_ok D \<longleftrightarrow> distinct (map fst (processed_files D)) \<and> distinct (map fst (query_hashes D))"

text \<open>What the code relies on of chrono: a printed time reads back, and times compare as their text
  (for the times in use: years of four digits).\<close>

definition rfc3339_ok :: "Rfc3339 \<Rightarrow> int set \<Rightarrow> bool" where
  "rfc3339_ok R T \<longleftrightarrow> (\<forall>t \<in> T. parse_rfc3339 R (to_rfc3339 R t) = Some t) \<and>
     (\<forall>s \<in> T. \<forall>t \<in> T. text_less (to_rfc3339 R s) (to_rfc3339 R t) \<longleftrightarrow> s < t)"

definition state_fits :: "FileState \<Rightarrow> bool" where
  "state_fits s \<longleftrightarrow> is_u64 (last_position s) \<and> is_u64 (last_file_size s) \<and>
     (case dev s of None \<Rightarrow> True | Some n \<Rightarrow> is_u64 n) \<and> (case ino s of None \<Rightarrow> True | Some n \<Rightarrow> is_u64 n)"

lemma optional_column: "(case n of None \<Rightarrow> True | Some n \<Rightarrow> is_u64 n) \<Longrightarrow> map_option as_u64 (map_option as_i64 n) = n"
  by (cases n) (simp_all add: u64_column)

lemma get_update:
  assumes "rfc3339_ok R T" and "last_processed_at s \<in> T" and "state_fits s"
  shows "get_file_state R (update_file_state R D s) (file_path s) = Inr (Some s)"
proof -
  have "map_option as_u64 (map_option as_i64 (dev s)) = dev s" "map_option as_u64 (map_option as_i64 (ino s)) = ino s"
    using assms(3) by (simp_all add: state_fits_def optional_column del: option.map_comp)
  then show ?thesis
    using assms by (simp add: get_file_state_def update_file_state_def row_to_file_state_def rfc3339_ok_def
        state_fits_def u64_column update_conv' del: option.map_comp)
qed

lemma get_update_other:
  "path \<noteq> file_path s \<Longrightarrow> get_file_state R (update_file_state R D s) path = get_file_state R D path"
  by (simp add: get_file_state_def update_file_state_def update_conv')

text \<open>Sightings: after a batch a key of it has its new last sighting and its old first one. First
  sightings in the table are printed times.\<close>

definition sighting :: "(query_key \<times> HashRow) list \<Rightarrow> query_key \<Rightarrow> (string \<times> string) option" where
  "sighting table k = map_option (\<lambda>row. (row_first_seen row, row_last_seen row)) (map_of table k)"

definition first_printed :: "Rfc3339 \<Rightarrow> int set \<Rightarrow> (query_key \<times> HashRow) list \<Rightarrow> bool" where
  "first_printed R T table \<longleftrightarrow> distinct (map fst table) \<and>
     (\<forall>k f l. sighting table k = Some (f, l) \<longrightarrow> (\<exists>t \<in> T. f = to_rfc3339 R t))"

definition seen_again :: "string \<Rightarrow> (string \<times> string) option \<Rightarrow> (string \<times> string) option" where
  "seen_again now s = Some (case s of Some (f, _) \<Rightarrow> f | None \<Rightarrow> now, now)"

lemma sighting_update:
  "sighting (AList.update key row table) k =
     (if k = key then Some (row_first_seen row, row_last_seen row) else sighting table k)"
  by (simp add: sighting_def update_conv')

lemma upsert_hash_sighting:
  assumes "upsert_hash now key normalized table = (row, table')"
  shows "sighting table' k = (if k = key then seen_again now (sighting table k) else sighting table k)"
    and "Some (row_first_seen row, row_last_seen row) = seen_again now (sighting table key)"
    and "distinct (map fst table) \<Longrightarrow> distinct (map fst table')"
  using assms
  by (auto simp: upsert_hash_def Let_def update_conv' seen_again_def sighting_def distinct_update
      split: option.split)

lemma first_printed_upsert:
  assumes "first_printed R T table" and "now \<in> T" and "upsert_hash (to_rfc3339 R now) key normalized table = (row, table')"
  shows "first_printed R T table'" and "\<exists>t \<in> T. row_first_seen row = to_rfc3339 R t"
proof -
  show r: "\<exists>t \<in> T. row_first_seen row = to_rfc3339 R t"
  proof (cases "sighting table key")
    case None
    then show ?thesis using upsert_hash_sighting(2) [OF assms(3)] assms(2) by (auto simp: seen_again_def)
  next
    case (Some x)
    obtain f l where x: "sighting table key = Some (f, l)" using Some by (cases x) auto
    then have "\<exists>t \<in> T. f = to_rfc3339 R t" using assms(1) unfolding first_printed_def by blast
    then show ?thesis using upsert_hash_sighting(2) [OF assms(3)] x by (simp add: seen_again_def)
  qed
  show "first_printed R T table'"
    using assms(1) upsert_hash_sighting [OF assms(3)] r unfolding first_printed_def
    by (metis fst_conv option.inject prod.inject)
qed

lemma record_entries_sightings:
  "rfc3339_ok R T \<Longrightarrow> now \<in> T \<Longrightarrow> first_printed R T table \<Longrightarrow>
     \<exists>seen' table'. record_entries R (to_rfc3339 R now) es table seen = Inr (seen', table') \<and>
       first_printed R T table' \<and>
       (\<forall>k. sighting table' k =
          (if k \<in> fst ` set es then seen_again (to_rfc3339 R now) (sighting table k) else sighting table k))"
proof (induction es arbitrary: table seen)
  case (Cons e es)
  obtain key normalized where e: "e = (key, normalized)" by (cases e)
  obtain row table1 where u: "upsert_hash (to_rfc3339 R now) key normalized table = (row, table1)" by fastforce
  note p = first_printed_upsert [OF Cons.prems(3,2) u]
  then obtain t where t: "t \<in> T" "row_first_seen row = to_rfc3339 R t" by blast
  have l: "row_last_seen row = to_rfc3339 R now" using u by (auto simp: upsert_hash_def Let_def)
  have r: "record_entries R (to_rfc3339 R now) (e # es) table seen =
      record_entries R (to_rfc3339 R now) es table1 (AList.update key (t, now) seen)"
    using Cons.prems(1,2) by (simp add: e u t l rfc3339_ok_def)
  from Cons.IH [OF Cons.prems(1,2) p(1), of "AList.update key (t, now) seen"] obtain seen' table' where ih:
    "record_entries R (to_rfc3339 R now) es table1 (AList.update key (t, now) seen) = Inr (seen', table')"
    "first_printed R T table'" "\<forall>k. sighting table' k = (if k \<in> fst ` set es
       then seen_again (to_rfc3339 R now) (sighting table1 k) else sighting table1 k)" by blast
  have "seen_again n (seen_again n x) = seen_again n x" for n x by (cases x) (auto simp: seen_again_def)
  then have "sighting table' k = (if k \<in> fst ` set (e # es)
      then seen_again (to_rfc3339 R now) (sighting table k) else sighting table k)" for k
    using ih(3) [rule_format, of k] upsert_hash_sighting(1) [OF u, of k]
    by (cases "k = key") (simp_all add: e)
  then show ?case unfolding r using ih(1,2) by blast
qed simp

fun record_batches :: "Rfc3339 \<Rightarrow> Database \<Rightarrow> (int \<times> (query_key \<times> string) list) list \<Rightarrow> Database" where
  "record_batches R D [] = D"
| "record_batches R D ((now, es) # bs) = record_batches R (snd (record_query_hashes R now D es)) bs"

definition times_of :: "query_key \<Rightarrow> (int \<times> (query_key \<times> string) list) list \<Rightarrow> int list" where
  "times_of k bs = map fst (filter (\<lambda>b. k \<in> fst ` set (snd b)) bs)"

lemma record_hashes_sighting:
  assumes R: "rfc3339_ok R T" and now: "now \<in> T" and D: "first_printed R T (query_hashes D)"
  shows "first_printed R T (query_hashes (snd (record_query_hashes R now D es))) \<and>
    sighting (query_hashes (snd (record_query_hashes R now D es))) k =
      (if k \<in> fst ` set es then seen_again (to_rfc3339 R now) (sighting (query_hashes D) k)
       else sighting (query_hashes D) k)"
proof (cases "es = []")
  case True
  with D show ?thesis by (simp add: record_query_hashes_def)
next
  case False
  from record_entries_sightings [OF R now D, of es "[]"] obtain seen table where t:
    "record_entries R (to_rfc3339 R now) es (query_hashes D) [] = Inr (seen, table)" "first_printed R T table"
    "\<forall>k. sighting table k = (if k \<in> fst ` set es then seen_again (to_rfc3339 R now) (sighting (query_hashes D) k)
       else sighting (query_hashes D) k)" by blast
  then have "record_query_hashes R now D es = (Inr seen, D\<lparr>query_hashes := table\<rparr>)"
    using False by (simp add: record_query_hashes_def)
  then show ?thesis using t(2) t(3) [rule_format, of k] by simp
qed

lemma record_batches_sighting:
  "rfc3339_ok R T \<Longrightarrow> fst ` set bs \<subseteq> T \<Longrightarrow> first_printed R T (query_hashes D) \<Longrightarrow> sighting (query_hashes (record_batches R D bs)) k =
     (case times_of k bs of
        [] \<Rightarrow> sighting (query_hashes D) k
      | t # ts \<Rightarrow> Some (case sighting (query_hashes D) k of Some (f, _) \<Rightarrow> f | None \<Rightarrow> to_rfc3339 R t,
          to_rfc3339 R (last (t # ts))))"
proof (induction bs arbitrary: D)
  case Nil
  then show ?case by (simp add: times_of_def)
next
  case (Cons b bs)
  obtain now es where b: "b = (now, es)" by (cases b)
  let ?D = "snd (record_query_hashes R now D es)"
  have T: "now \<in> T" "fst ` set bs \<subseteq> T" using Cons.prems(2) by (simp_all add: b)
  note r = record_hashes_sighting [OF Cons.prems(1) T(1) Cons.prems(3), of es k]
  from r have "first_printed R T (query_hashes ?D)" by blast
  note ih = Cons.IH [OF Cons.prems(1) T(2) this]
  have s: "sighting (query_hashes ?D) k = (if k \<in> fst ` set es
      then seen_again (to_rfc3339 R now) (sighting (query_hashes D) k) else sighting (query_hashes D) k)"
    using r by blast
  show ?case
    using ih s by (cases "k \<in> fst ` set es"; cases "times_of k bs"; cases "sighting (query_hashes D) k")
      (simp_all add: b times_of_def seen_again_def case_prod_unfold)
qed

lemma cleanup_files_filter:
  "cleanup_files cutoff ex ss D =
     (length (filter (\<lambda>(p, s). last_processed_at s < cutoff \<and> \<not> ex p) ss),
      D\<lparr>processed_files := filter (\<lambda>e. fst e \<notin> fst ` set (filter (\<lambda>(p, s). last_processed_at s < cutoff \<and> \<not> ex p) ss))
          (processed_files D)\<rparr>)"
proof (induction ss arbitrary: D)
  case (Cons x ss)
  obtain p s where x: "x = (p, s)" by (cases x)
  show ?case
    by (cases "last_processed_at s < cutoff \<and> \<not> ex p")
      (simp_all add: x Cons.IH delete_file_state_def AList.delete_eq split_beta
        conj_commute conj_left_commute eq_commute [of p])
qed simp

lemma collect_states_printed:
  "rfc3339_ok R T \<Longrightarrow> \<forall>row \<in> snd ` set rows. \<exists>t \<in> T. row_processed row = to_rfc3339 R t \<Longrightarrow>
     \<exists>ss. collect_states R rows = Inr ss \<and> list_all2 (\<lambda>(p, row) (q, s). p = q \<and>
       row_processed row = to_rfc3339 R (last_processed_at s) \<and> last_processed_at s \<in> T) rows ss"
proof (induction rows)
  case (Cons x rows)
  obtain p row where x: "x = (p, row)" by (cases x)
  obtain t where t: "t \<in> T" "row_processed row = to_rfc3339 R t" using Cons.prems(2) x by auto
  with Cons.prems(1) have "parse_rfc3339 R (row_processed row) = Some t" by (simp add: rfc3339_ok_def)
  with Cons x t show ?case by (auto simp: row_to_file_state_def)
qed simp

definition times_printed :: "Rfc3339 \<Rightarrow> int set \<Rightarrow> Database \<Rightarrow> bool" where
  "times_printed R T D \<longleftrightarrow> database_ok D \<and> (\<forall>row \<in> snd ` set (processed_files D). \<exists>t \<in> T. row_processed row = to_rfc3339 R t)"

text \<open>What the retention pass keeps of a checkpoint table.\<close>

lemma cleanup_blocking_files:
  assumes R: "rfc3339_ok R T" and cutoff: "cutoff \<in> T" and D: "times_printed R T D"
  shows "\<exists>n. cleanup_blocking R ex cutoff D =
     (Inr n, D\<lparr>processed_files := filter (\<lambda>e. ex (fst e) \<or> \<not> text_less (row_processed (snd e)) (to_rfc3339 R cutoff))
          (processed_files D),
        query_hashes := filter (\<lambda>e. \<not> text_less (row_last_seen (snd e)) (to_rfc3339 R cutoff)) (query_hashes D)\<rparr>)"
proof -
  have "\<forall>row \<in> snd ` set (processed_files D). \<exists>t \<in> T. row_processed row = to_rfc3339 R t"
    using D by (simp add: times_printed_def)
  from collect_states_printed [OF R this] obtain ss where ss: "collect_states R (processed_files D) = Inr ss"
    "list_all2 (\<lambda>(p, row) (q, s). p = q \<and> row_processed row = to_rfc3339 R (last_processed_at s) \<and>
       last_processed_at s \<in> T) (processed_files D) ss"
    by blast
  let ?gone = "fst ` set (filter (\<lambda>(p, s). last_processed_at s < cutoff \<and> \<not> ex p) ss)"
  have d: "distinct (map fst (processed_files D))" using D by (simp add: times_printed_def database_ok_def)
  have "(fst e \<notin> ?gone) = (ex (fst e) \<or> \<not> text_less (row_processed (snd e)) (to_rfc3339 R cutoff))"
    if e: "e \<in> set (processed_files D)" for e
  proof -
    obtain i where i: "i < length (processed_files D)" "processed_files D ! i = e"
      using e by (auto simp: in_set_conv_nth)
    have len: "length ss = length (processed_files D)" using ss(2) by (simp add: list_all2_lengthD)
    have nth: "fst (processed_files D ! j) = fst (ss ! j)"
      "row_processed (snd (processed_files D ! j)) = to_rfc3339 R (last_processed_at (snd (ss ! j)))"
      "last_processed_at (snd (ss ! j)) \<in> T"
      if "j < length ss" for j
      using list_all2_nthD2 [OF ss(2) that] by (simp_all add: split_beta)
    have t: "text_less (row_processed (snd e)) (to_rfc3339 R cutoff) \<longleftrightarrow> last_processed_at (snd (ss ! i)) < cutoff"
      using nth(2,3) [of i] i len R cutoff by (simp add: rfc3339_ok_def)
    have "fst e \<in> ?gone \<longleftrightarrow> last_processed_at (snd (ss ! i)) < cutoff \<and> \<not> ex (fst e)"
    proof
      assume "fst e \<in> ?gone"
      then obtain j where j: "j < length ss" "fst (ss ! j) = fst e" "last_processed_at (snd (ss ! j)) < cutoff"
        "\<not> ex (fst (ss ! j))" by (auto simp: in_set_conv_nth)
      then have "map fst (processed_files D) ! j = map fst (processed_files D) ! i"
        using i len nth(1) by simp
      then have "j = i" using d i(1) j(1) len by (simp add: nth_eq_iff_index_eq del: nth_map)
      with j show "last_processed_at (snd (ss ! i)) < cutoff \<and> \<not> ex (fst e)" by simp
    next
      assume "last_processed_at (snd (ss ! i)) < cutoff \<and> \<not> ex (fst e)"
      moreover have "fst (ss ! i) = fst e" "ss ! i \<in> set ss" using i len nth(1) [of i] by simp_all
      ultimately show "fst e \<in> ?gone" by (auto simp: split_beta intro!: rev_image_eqI [of "ss ! i"])
    qed
    then show ?thesis using t by blast
  qed
  then have "filter (\<lambda>e. fst e \<notin> ?gone) (processed_files D) =
      filter (\<lambda>e. ex (fst e) \<or> \<not> text_less (row_processed (snd e)) (to_rfc3339 R cutoff)) (processed_files D)"
    by (rule filter_cong [OF refl])
  then show ?thesis
    by (simp add: cleanup_blocking_def get_all_file_states_def ss(1) cleanup_files_filter cleanup_old_query_hashes_def Let_def)
qed

section \<open>Sample\<close>

text \<open>Times of the first century printed as two digits.\<close>

definition sample_rfc3339 :: Rfc3339 where
  "sample_rfc3339 =
     \<lparr>to_rfc3339 = (\<lambda>t. [char_of (48 + t div 10), char_of (48 + t mod 10)]),
      parse_rfc3339 = (\<lambda>s. Some (10 * (of_char (s ! 0) - 48) + (of_char (s ! 1) - 48)))\<rparr>"

lemma sample_rfc3339_ok: "rfc3339_ok sample_rfc3339 {10, 11, 12, 20}"
proof -
  have "\<forall>t \<in> set [10, 11, 12, 20]. parse_rfc3339 sample_rfc3339 (to_rfc3339 sample_rfc3339 t) = Some t" by code_simp
  moreover have "\<forall>s \<in> set [10, 11, 12, 20]. \<forall>t \<in> set [10, 11, 12, 20].
      text_less (to_rfc3339 sample_rfc3339 s) (to_rfc3339 sample_rfc3339 t) = (s < t)" by code_simp
  ultimately show ?thesis by (simp add: rfc3339_ok_def)
qed

definition sample_file_state :: FileState where
  "sample_file_state = \<lparr>file_path = ''a.log'', last_position = 2 ^ 63 + 5, last_modified_time = 7,
     last_file_size = 2 ^ 63 + 9, last_processed_at = 10, dev = Some 1, ino = None\<rparr>"

section \<open>Properties\<close>

text \<open>A checkpoint round-trips through its table: every position, size and identity of 64 bits,
  although the columns are signed, and no other file's checkpoint changes.\<close>

theorem checkpoint_roundtrip:
  assumes "rfc3339_ok R T" and "last_processed_at s \<in> T" and "state_fits s"
  shows "get_file_state R (update_file_state R D s) (file_path s) = Inr (Some s) \<and>
    (path = file_path s \<or> get_file_state R (update_file_state R D s) path = get_file_state R D path)"
  using get_update [OF assms] get_update_other by blast

theorem checkpoint_roundtrip_witness:
  "get_file_state sample_rfc3339 (update_file_state sample_rfc3339 empty_database sample_file_state) ''a.log'' =
     Inr (Some sample_file_state)"
  using checkpoint_roundtrip [OF sample_rfc3339_ok, of sample_file_state empty_database "''a.log''"]
  by (simp add: sample_file_state_def state_fits_def is_u64_def)

text \<open>A query keeps its first sighting: over any batches of sightings the row of a query and
  database holds the time of the first batch that had it and the time of the last, and there is no row
  for one that was never seen.\<close>

theorem sightings_keep_first:
  assumes "rfc3339_ok R T" and "fst ` set bs \<subseteq> T"
  shows "sighting (query_hashes (record_batches R empty_database bs)) k =
    (case times_of k bs of
       [] \<Rightarrow> None
     | t # ts \<Rightarrow> Some (to_rfc3339 R t, to_rfc3339 R (last (t # ts))))"
proof -
  have s: "sighting (query_hashes empty_database) k = None" for k
    by (simp add: sighting_def empty_database_def)
  then have "first_printed R T (query_hashes empty_database)"
    unfolding first_printed_def by (simp add: empty_database_def sighting_def)
  from record_batches_sighting [OF assms this, of k] show ?thesis
    unfolding s by (simp split: list.split)
qed

theorem sightings_keep_first_witness:
  "sighting (query_hashes (record_batches sample_rfc3339 empty_database
     [(10, [((''h'', ''d''), ''q'')]), (11, [((''x'', ''d''), ''q'')]), (12, [((''h'', ''d''), ''q'')])])) (''h'', ''d'') =
     Some (to_rfc3339 sample_rfc3339 10, to_rfc3339 sample_rfc3339 12)"
  by (subst sightings_keep_first [OF sample_rfc3339_ok]) (auto simp: times_of_def)

text \<open>The retention pass removes a checkpoint only of a file that is gone and was last processed
  before the cutoff, and removes exactly the sightings last seen before it.\<close>

theorem retention_keeps_live_files:
  assumes "rfc3339_ok R T" and "cutoff \<in> T" and "times_printed R T D"
  shows "\<exists>n. cleanup_blocking R ex cutoff D =
     (Inr n, D\<lparr>processed_files := filter (\<lambda>e. ex (fst e) \<or> \<not> text_less (row_processed (snd e)) (to_rfc3339 R cutoff))
          (processed_files D),
        query_hashes := filter (\<lambda>e. \<not> text_less (row_last_seen (snd e)) (to_rfc3339 R cutoff)) (query_hashes D)\<rparr>)"
  by (rule cleanup_blocking_files [OF assms])

theorem retention_keeps_live_files_witness:
  "\<exists>n. cleanup_blocking sample_rfc3339 (\<lambda>p. p = ''a.log'') 20
      (update_file_state sample_rfc3339 empty_database sample_file_state) =
    (Inr n, update_file_state sample_rfc3339 empty_database sample_file_state)"
  using retention_keeps_live_files [OF sample_rfc3339_ok, of 20
      "update_file_state sample_rfc3339 empty_database sample_file_state" "\<lambda>p. p = ''a.log''"]
  by (simp add: times_printed_def database_ok_def update_file_state_def empty_database_def sample_file_state_def)

end
