(* ===== verification/Worker.thy ===== *)
theory Worker
  imports Cuts Statements State_Store
begin

text \<open>
  The extension's background worker (\<open>bgworker.rs\<close>): each tick drains the capture ring and, in log mode,
  reads what was appended to the log up to the last entry header, aggregates it and stores rows and
  offset in one transaction. A transaction either commits or, on a hard error, leaves the database as
  it was; a panic in the analysis of a batch is the \<open>None\<close> of \<open>aggregate_captures\<close>.
\<close>

section \<open>Configuration and state\<close>

datatype CaptureMode = Off | Log | Hook

definition parse_capture_mode :: "string \<Rightarrow> CaptureMode" where
  "parse_capture_mode s =
     (let m = to_ascii_lowercase (trim s)
      in if m = ''log'' then Log else if m = ''hook'' then Hook else Off)"

definition MAX_READ_BYTES :: int where "MAX_READ_BYTES = 128 * 1024 * 1024"

record ('v, 'm) WorkerEnv =
  worker_simd :: "('v, 'm) Simd"
  worker_analyses :: Analyses
  worker_parser :: "('v, 'm) LogParser"
  worker_normalizer :: Normalizer
  slo_threshold_ms :: f64
  server :: PgServer

record WorkerDb =
  ingest_offset :: "(string \<times> int) list"
  stats :: Tables

definition current_offset :: "WorkerDb \<Rightarrow> string \<Rightarrow> int" where
  "current_offset D path = (case map_of (ingest_offset D) path of Some v \<Rightarrow> max v 0 | None \<Rightarrow> 0)"

definition store_offset :: "WorkerDb \<Rightarrow> string \<Rightarrow> int \<Rightarrow> WorkerDb" where
  "store_offset D path n = D\<lparr>ingest_offset := AList.update path (as_i64 n) (ingest_offset D)\<rparr>"

section \<open>Reading and flushing\<close>

definition read_new_complete ::
  "('v, 'm) Simd \<Rightarrow> FileSystem \<Rightarrow> string \<Rightarrow> int \<Rightarrow> io_error + (string \<times> int)" where
  "read_new_complete S fs path offset =
     (case open_file fs path of
        Inl e \<Rightarrow> Inl e
      | Inr f \<Rightarrow>
          (let size = file_size f;
               start = (if size < offset then 0 else offset)
           in if size \<le> start then Inr ([], start)
              else
                (let to_read = min (size - start) MAX_READ_BYTES;
                     rest = drop (nat start) (pending (data f))
                 in if int (length rest) < to_read then Inl ''failed to fill whole buffer''
                    else
                      (let buf = take (nat to_read) rest;
                           boundary = last_complete_boundary S buf
                       in Inr (decode_line (take boundary buf), start + int boundary)))))"

text \<open>\<open>None\<close> is a panic in the aggregation, which aborts the transaction.\<close>

definition flush_cycle ::
  "('v, 'm) WorkerEnv \<Rightarrow> FileSystem \<Rightarrow> string \<Rightarrow> WorkerDb \<Rightarrow> (int \<times> WorkerDb) option" where
  "flush_cycle W fs path D =
     (let offset = current_offset D path
      in case read_new_complete (worker_simd W) fs path offset of
           Inl _ \<Rightarrow> Some (0, D)
         | Inr (log_text, new_offset) \<Rightarrow>
             if log_text = [] then
               Some (0, if new_offset \<noteq> offset then store_offset D path new_offset else D)
             else
               (case aggregate_log (worker_analyses W) (worker_parser W) (worker_normalizer W) log_text
                       (slo_threshold_ms W) of
                  None \<Rightarrow> None
                | Some rows \<Rightarrow>
                    (let (written, T) = persist_rows (server W) rows (stats D)
                     in Some (written, store_offset (D\<lparr>stats := T\<rparr>) path new_offset))))"

text \<open>The rows of the captures a drain returned; a batch whose analysis panics is dropped.\<close>

definition hook_rows :: "('v, 'm) WorkerEnv \<Rightarrow> Capture list \<Rightarrow> StatRow list" where
  "hook_rows W captures =
     (if captures = [] then []
      else (case aggregate_captures (worker_analyses W) (env (worker_parser W)) (worker_normalizer W) captures
                   (slo_threshold_ms W) of
              None \<Rightarrow> [] | Some rows \<Rightarrow> rows))"

section \<open>Ticks\<close>

record WorkerState =
  shmem :: Ring
  last_dropped :: u64
  reported_drops :: "int list"
  durable :: WorkerDb

text \<open>What a tick meets: the settings, the clock, the database of the worker, and whether the transaction
  of the drained rows and that of the log commit.\<close>

record Tick =
  capture_mode :: CaptureMode
  log_path :: string
  at_micros :: int
  at_time :: int
  own_database :: u32
  hook_commits :: bool
  log_commits :: bool

definition drained :: "(int \<Rightarrow> int option) \<Rightarrow> Tick \<Rightarrow> WorkerState \<Rightarrow> (Capture list \<times> u64 \<times> nat) \<times> Ring" where
  "drained from_micros t st = drain from_micros (at_micros t) (at_time t) (own_database t) (shmem st)"

definition drain_hook_ring ::
  "('v, 'm) WorkerEnv \<Rightarrow> (int \<Rightarrow> int option) \<Rightarrow> Tick \<Rightarrow> WorkerState \<Rightarrow> WorkerState" where
  "drain_hook_ring W from_micros t st =
     (let ((captures, dropped_total, foreign), r) = drained from_micros t st;
          new_drops = sat_sub64 (uint dropped_total) (uint (last_dropped st));
          st = st\<lparr>shmem := r, last_dropped := dropped_total,
                  reported_drops := reported_drops st @ (if 0 < new_drops then [new_drops] else [])\<rparr>;
          rows = hook_rows W captures
      in if rows = [] \<or> \<not> hook_commits t then st
         else st\<lparr>durable := (durable st)\<lparr>stats := snd (persist_rows (server W) rows (stats (durable st)))\<rparr>\<rparr>)"

definition tail_log :: "('v, 'm) WorkerEnv \<Rightarrow> FileSystem \<Rightarrow> Tick \<Rightarrow> WorkerState \<Rightarrow> WorkerState" where
  "tail_log W fs t st =
     (if capture_mode t \<noteq> Log \<or> log_path t = [] then st
      else (case flush_cycle W fs (log_path t) (durable st) of
              None \<Rightarrow> st
            | Some (written, D) \<Rightarrow> if log_commits t then st\<lparr>durable := D\<rparr> else st))"

definition worker_tick ::
  "('v, 'm) WorkerEnv \<Rightarrow> (int \<Rightarrow> int option) \<Rightarrow> FileSystem \<Rightarrow> Tick \<Rightarrow> WorkerState \<Rightarrow> WorkerState" where
  "worker_tick W from_micros fs t st = tail_log W fs t (drain_hook_ring W from_micros t st)"

text \<open>The rows a tick stored for the hook.\<close>

definition hook_batch :: "('v, 'm) WorkerEnv \<Rightarrow> (int \<Rightarrow> int option) \<Rightarrow> Tick \<Rightarrow> WorkerState \<Rightarrow> StatRow list" where
  "hook_batch W from_micros t st =
     (if hook_commits t then hook_rows W (fst (fst (drained from_micros t st))) else [])"

text \<open>Runs: ticks on the one log, and in between the ring changes as the backends like. A run records
  the size of the log and the rows stored for the hook.\<close>

inductive worker_run ::
  "('v, 'm) WorkerEnv \<Rightarrow> (int \<Rightarrow> int option) \<Rightarrow> string \<Rightarrow> string \<Rightarrow> nat \<Rightarrow> WorkerState \<Rightarrow>
     nat \<Rightarrow> StatRow list \<Rightarrow> WorkerState \<Rightarrow> bool"
  for W from_micros path f n0 st0 where
  start: "worker_run W from_micros path f n0 st0 n0 [] st0"
| tick: "worker_run W from_micros path f n0 st0 n rows st \<Longrightarrow> log_path t = path \<Longrightarrow> sees f path n fs \<Longrightarrow>
     worker_run W from_micros path f n0 st0 (seen_size path n fs) (rows @ hook_batch W from_micros t st)
       (worker_tick W from_micros fs t st)"
| captured: "worker_run W from_micros path f n0 st0 n rows st \<Longrightarrow>
     worker_run W from_micros path f n0 st0 n rows (st\<lparr>shmem := r\<rparr>)"

section \<open>A text and its rows\<close>

lemma unknown_database_row:
  "row_consistent (r\<lparr>sr_database := d\<rparr>) = row_consistent r" "sr_calls (r\<lparr>sr_database := d\<rparr>) = sr_calls r"
  by (simp_all add: row_consistent_def)

lemma aggregate_log_accounts:
  assumes "parse_string_with_progress P s = Inr ps" and "trim s \<noteq> []"
    and "inj_on (query_hash N) (query_text ` set ps)" and "int (length ps) \<le> 2 ^ 53"
  shows "\<exists>rows. aggregate_log A P N s slo = Some rows \<and> list_all row_consistent rows \<and>
    (\<Sum>r\<leftarrow>rows. sr_calls r) = int (length ps)"
proof -
  have "\<not> broken (cursor s)" by (simp add: cursor_def)
  from parse_into_grouper_plans [OF assms(1) [unfolded parse_string_with_progress_def] this, of N new_grouper]
  obtain g calls where g: "parse_string_into_grouper P N s new_grouper = Inr (g, calls)"
    "grouper_contents g = grouper_contents (fold_plans N new_grouper ps)"
    unfolding parse_string_into_grouper_def by blast
  have ok: "grouper_ok N (query_text ` set ps) g ps"
    using grouper_ok_contents [OF g(2)] fresh_grouper_ok [OF assms(3)] by blast
  from finished_groups [OF ok assms(4)] obtain gs where gs: "finish_grouper g = Some gs"
    "list_all (\<lambda>e. counted (snd e)) gs" "(\<Sum>e\<leftarrow>gs. length (qs_executions (statistics (snd e)))) = length ps"
    "group_count g = 0 \<longrightarrow> ps = []"
    by (elim exE conjE)
  show ?thesis
  proof (cases "group_count g = 0")
    case True
    then show ?thesis using gs(4) g(1) assms(2) by (simp add: aggregate_log_def)
  next
    case False
    let ?rows = "map (\<lambda>e. build_stat_row A N [] slo (snd e)) gs"
    let ?f = "\<lambda>r. r\<lparr>sr_database := (case sr_database r of None \<Rightarrow> Some UNKNOWN_DATABASE | Some db \<Rightarrow> Some db)\<rparr>"
    have "aggregate_log A P N s slo = Some (map ?f ?rows)"
      using False g(1) assms(2) gs(1) by (simp add: aggregate_log_def stat_rows_def)
    moreover note rows_account [OF gs(2), of A N "[]" slo, unfolded gs(3)]
    moreover have "list_all row_consistent (map ?f rs) = list_all row_consistent rs"
      "(\<Sum>r\<leftarrow>map ?f rs. sr_calls r) = (\<Sum>r\<leftarrow>rs. sr_calls r)" for rs
      by (induction rs) (simp_all add: unknown_database_row)
    ultimately show ?thesis by (intro exI [of _ "map ?f ?rows"]) (simp only: simp_thms)
  qed
qed

section \<open>One flush\<close>

text \<open>A log the parser reads as the worker's scan does.\<close>

definition readable_log :: "(nat \<Rightarrow> u8, nat \<Rightarrow> bool) WorkerEnv \<Rightarrow> string \<Rightarrow> bool" where
  "readable_log W f \<longleftrightarrow>
     (let P = worker_parser W; E = env P
      in worker_simd W = lane_simd \<and> readable_text P (is_entry_header lane_simd) f \<and>
         int (length f) < 2 ^ 63 \<and> utf8_valid f \<and>
         inj_on (query_hash (worker_normalizer W)) (query_text ` set (text_plans E f)) \<and>
         int (length (text_plans E f)) \<le> 2 ^ 53)"

text \<open>A position at which the worker stops: the start, or the start of an entry.\<close>

definition entry_start :: "string \<Rightarrow> nat \<Rightarrow> bool" where
  "entry_start f p \<longleftrightarrow> p = 0 \<or>
     (p < length f \<and> last (take p f) = line_feed \<and> is_entry_header lane_simd (next_line (drop p f)))"

lemma entry_start_cut: "entry_start f p \<Longrightarrow> entry_cut (is_entry_header lane_simd) f p"
  by (auto simp: entry_start_def entry_cut_def)

text \<open>What a flush takes from the log.\<close>

lemma piece_of_log:
  assumes log: "readable_log W f" and p: "entry_start f p" and s: "starts_with f s" "e \<le> length s"
    and b: "0 < last_complete_boundary lane_simd (slice s p e)"
  defines "piece \<equiv> take (last_complete_boundary lane_simd (slice s p e)) (slice s p e)"
    and "q \<equiv> p + last_complete_boundary lane_simd (slice s p e)"
  shows "entry_start f q" and "q < length f" and "utf8_valid piece" and "trim piece \<noteq> []"
    and "take q f = take p f @ piece"
    and "text_plans (env (worker_parser W)) (take q f) =
      text_plans (env (worker_parser W)) (take p f) @ text_plans (env (worker_parser W)) piece"
    and "parse_string_with_progress (worker_parser W) piece = Inr (text_plans (env (worker_parser W)) piece)"
    and "set (text_plans (env (worker_parser W)) piece) \<subseteq> set (text_plans (env (worker_parser W)) f)"
    and "length (text_plans (env (worker_parser W)) piece) \<le> length (text_plans (env (worker_parser W)) f)"
proof -
  let ?b = "last_complete_boundary lane_simd (slice s p e)" and ?E = "env (worker_parser W)"
  note cut = worker.cycle_cut [OF s b]
  have ps: "slice f p q = piece" unfolding piece_def q_def by (rule cut(1))
  show q: "q < length f" unfolding q_def by (rule cut(2))
  have pq: "p \<le> q" "q \<le> length f" using q by (simp_all add: q_def)
  show tk: "take q f = take p f @ piece" unfolding ps [symmetric] by (rule take_slice [OF pq(1)])
  have lf: "last piece = line_feed" unfolding piece_def by (rule worker.cut_line [OF b])
  have ne: "piece \<noteq> []" using worker.cut_inside [OF b] b unfolding piece_def by auto
  have last_q: "last (take q f) = line_feed" using lf ne by (simp add: tk)
  moreover have "is_entry_header lane_simd (next_line (drop q f))" unfolding q_def by (rule cut(3))
  ultimately show es: "entry_start f q" using q by (simp add: entry_start_def)
  have pb: "take p f = [] \<or> last (take p f) = line_feed" using p by (auto simp: entry_start_def)
  have "utf8_valid (take q f @ drop q f)" using log by (simp add: readable_log_def Let_def)
  then have "utf8_valid (take q f)" using utf8_valid_cut [of "take q f" "drop q f"] last_q by blast
  then show "utf8_valid piece" using utf8_valid_cut [OF _ pb, of piece] unfolding tk by blast
  show "trim piece \<noteq> []"
  proof -
    obtain l where l: "is_entry_header lane_simd l" "set l \<subseteq> set piece"
      using last_complete_boundary_header [OF b] unfolding piece_def by blast
    then obtain u v where "l = u @ ''duration:'' @ v" by (auto simp: is_entry_header_def contains_sub_iff)
    then have "CHR ''d'' \<in> set piece" using l(2) by auto
    moreover have "\<forall>u \<in> set ws_units. CHR ''d'' \<notin> set u" by code_simp
    ultimately have "CHR ''d'' \<in> set (trim piece)" by (rule trim_keeps)
    then show ?thesis by auto
  qed
  have "readable_text (worker_parser W) (is_entry_header lane_simd) f" using log by (simp add: readable_log_def Let_def)
  note between = this entry_start_cut [OF p] entry_start_cut [OF es] pq
  show "text_plans ?E (take q f) = text_plans ?E (take p f) @ text_plans ?E piece"
    "parse_string_with_progress (worker_parser W) piece = Inr (text_plans ?E piece)"
    using text_between [OF between] unfolding ps by simp_all
  show "set (text_plans ?E piece) \<subseteq> set (text_plans ?E f)" "length (text_plans ?E piece) \<le> length (text_plans ?E f)"
    using text_between_subset [OF between] unfolding ps by simp_all
qed

text \<open>A flush at an entry start: the file may be missing, give nothing yet, or move the offset on.\<close>

definition tail_window :: "string \<Rightarrow> nat \<Rightarrow> string" where
  "tail_window s p = slice s p (p + nat (min (int (length s) - int p) MAX_READ_BYTES))"

lemma read_window:
  assumes "open_file fs path = Inr h" and "file_size h = int (length (pending (data h)))"
    and "p \<le> length (pending (data h))" and "w = tail_window (pending (data h)) p"
  shows "read_new_complete S fs path (int p) =
    Inr (decode_line (take (last_complete_boundary S w) w), int (p + last_complete_boundary S w))"
proof -
  let ?s = "pending (data h)"
  have empty: "last_complete_boundary S [] = 0" "decode_line [] = []"
    by (simp_all add: last_complete_boundary_def decode_line_def utf8_valid.simps)
  have m: "0 \<le> MAX_READ_BYTES" by (simp add: MAX_READ_BYTES_def)
  have w: "w = take (nat (min (int (length ?s) - int p) MAX_READ_BYTES)) (drop p ?s)"
    by (simp add: assms(4) tail_window_def slice_def)
  show ?thesis
  proof (cases "length ?s = p")
    case True
    then show ?thesis using assms m by (simp add: read_new_complete_def Let_def empty w)
  next
    case neq: False
    have "\<not> int (length (drop p ?s)) < min (int (length ?s) - int p) MAX_READ_BYTES"
      using assms(3) by (simp add: of_nat_diff)
    then show ?thesis using assms neq unfolding w by (simp add: read_new_complete_def Let_def)
  qed
qed

lemma read_prefix:
  assumes "sees f path n fs" and "p \<le> n"
  shows "(\<exists>e. read_new_complete S fs path (int p) = Inl e) \<or>
    (\<exists>s e. starts_with f s \<and> e \<le> length s \<and> length s = seen_size path n fs \<and> n \<le> length s \<and>
       read_new_complete S fs path (int p) =
         Inr (decode_line (take (last_complete_boundary S (slice s p e)) (slice s p e)),
              int (p + last_complete_boundary S (slice s p e))))"
proof (cases "open_file fs path")
  case (Inl e)
  then show ?thesis by (simp add: read_new_complete_def)
next
  case (Inr h)
  let ?s = "pending (data h)" and ?e = "p + nat (min (int (length (pending (data h))) - int p) MAX_READ_BYTES)"
  have s: "starts_with f ?s" "file_size h = int (length ?s)" "n \<le> length ?s" using assms(1) Inr by (simp_all add: sees_def)
  then have "p \<le> length ?s" "?e \<le> length ?s" using assms(2) by simp_all
  moreover have "length ?s = seen_size path n fs" using Inr by (simp add: seen_size_def)
  ultimately show ?thesis using read_window [OF Inr s(2) _ refl, of p S] s(1,3) unfolding tail_window_def by blast
qed

text \<open>What the database holds of the log and of the hook.\<close>

definition ingested ::
  "(nat \<Rightarrow> u8, nat \<Rightarrow> bool) WorkerEnv \<Rightarrow> string \<Rightarrow> string \<Rightarrow> nat \<Rightarrow> nat \<Rightarrow> int \<Rightarrow> WorkerDb \<Rightarrow> bool" where
  "ingested W path f n p h D \<longleftrightarrow>
     current_offset D path = int p \<and> p \<le> n \<and> entry_start f p \<and> tables_ok (stats D) \<and>
     total_calls (stats D) = h + int (length (text_plans (env (worker_parser W)) (take p f)))"

lemma current_offset_store:
  "int p < 2 ^ 63 \<Longrightarrow> current_offset (store_offset D path (int p)) path = int p"
  "stats (store_offset D path q) = stats D"
  "current_offset (D\<lparr>stats := T\<rparr>) path = current_offset D path"
  by (simp_all add: current_offset_def store_offset_def as_i64_def update_conv')

lemma flush_ingests:
  assumes log: "readable_log W f" and D: "ingested W path f n p h D" and s: "sees f path n fs"
  shows "\<exists>q written D'. flush_cycle W fs path D = Some (written, D') \<and> p \<le> q \<and>
    ingested W path f (seen_size path n fs) q h D'"
proof -
  let ?E = "env (worker_parser W)" and ?S = "worker_simd W"
  have D': "current_offset D path = int p" "p \<le> n" "entry_start f p" "tables_ok (stats D)"
    "total_calls (stats D) = h + int (length (text_plans ?E (take p f)))"
    using D by (simp_all add: ingested_def)
  have lane: "?S = lane_simd" using log by (simp add: readable_log_def Let_def)
  have grow: "n \<le> seen_size path n fs" using s by (auto simp: sees_def seen_size_def split: sum.splits)
  then have same: "ingested W path f (seen_size path n fs) p h D" using D by (simp add: ingested_def)
  from read_prefix [OF s D'(2), of ?S]
  consider (failed) e where "read_new_complete ?S fs path (int p) = Inl e"
    | (window) w e where "starts_with f w" "e \<le> length w" "length w = seen_size path n fs" "n \<le> length w"
      "read_new_complete ?S fs path (int p) = Inr (decode_line (take (last_complete_boundary ?S (slice w p e)) (slice w p e)),
         int (p + last_complete_boundary ?S (slice w p e)))" by blast
  then show ?thesis
  proof cases
    case failed
    then show ?thesis using same D'(1) by (auto simp: flush_cycle_def)
  next
    case window
    let ?b = "last_complete_boundary lane_simd (slice w p e)"
    let ?piece = "take ?b (slice w p e)"
    note r = window(5) [unfolded lane]
    show ?thesis
    proof (cases "?b = 0")
      case True
      have "decode_line [] = []" by (simp add: decode_line_def utf8_valid.simps)
      then have "flush_cycle W fs path D = Some (0, D)"
        using r True D'(1) by (simp add: flush_cycle_def lane)
      then show ?thesis using same by blast
    next
      case False
      then have b: "0 < ?b" by simp
      note x = piece_of_log [OF log D'(3) window(1,2) b]
      have "trim [] = []" by (simp add: trim_def)
      with x(4) have ne: "?piece \<noteq> []" by metis
      have dec: "decode_line ?piece = ?piece" using x(3) by (simp add: decode_line_def)
      have "inj_on (query_hash (worker_normalizer W)) (query_text ` set (text_plans ?E f))"
        "int (length (text_plans ?E f)) \<le> 2 ^ 53" "int (length f) < 2 ^ 63"
        using log unfolding readable_log_def Let_def by blast+
      then have i: "inj_on (query_hash (worker_normalizer W)) (query_text ` set (text_plans ?E ?piece))"
        "int (length (text_plans ?E ?piece)) \<le> 2 ^ 53" "int (p + ?b) < 2 ^ 63"
        using x(2,8,9) by (auto intro: inj_on_subset image_mono)
      from aggregate_log_accounts [OF x(7,4) i(1,2), of "worker_analyses W" "slo_threshold_ms W"] obtain rows where
        rows: "aggregate_log (worker_analyses W) (worker_parser W) (worker_normalizer W) ?piece (slo_threshold_ms W) = Some rows"
          "list_all row_consistent rows" "(\<Sum>r\<leftarrow>rows. sr_calls r) = int (length (text_plans ?E ?piece))" by blast
      obtain m T where T: "persist_rows (server W) rows (stats D) = (m, T)" by fastforce
      note t = persist_rows_ok [OF D'(4) rows(2) T]
      let ?D = "store_offset (D\<lparr>stats := T\<rparr>) path (int (p + ?b))"
      have "flush_cycle W fs path D = Some (m, ?D)"
        using r D'(1) ne rows(1) T unfolding flush_cycle_def lane dec by simp
      moreover have "p + ?b \<le> seen_size path n fs"
        using worker.cut_inside [OF b] window(2,3) by (auto simp: slice_def)
      then have "ingested W path f (seen_size path n fs) (p + ?b) h ?D"
        using t D'(5) rows(3) x(1,6) current_offset_store(1) [OF i(3)] by (simp add: ingested_def current_offset_store(2))
      ultimately show ?thesis by (intro exI [of _ "p + ?b"] exI [of _ m] exI [of _ ?D]) simp
    qed
  qed
qed

lemma drained_database:
  "durable (drain_hook_ring W from_micros t st) =
     (if hook_batch W from_micros t st = [] then durable st
      else (durable st)\<lparr>stats := snd (persist_rows (server W) (hook_batch W from_micros t st) (stats (durable st)))\<rparr>)"
  by (simp add: drain_hook_ring_def hook_batch_def Let_def case_prod_unfold)

lemma drain_ingests:
  assumes D: "ingested W path f n p h (durable st)" and rows: "list_all row_consistent (hook_batch W from_micros t st)"
  shows "ingested W path f n p (h + (\<Sum>r\<leftarrow>hook_batch W from_micros t st. sr_calls r))
    (durable (drain_hook_ring W from_micros t st))"
proof (cases "hook_batch W from_micros t st = []")
  case True
  with D show ?thesis by (simp add: drained_database)
next
  case False
  obtain m T where T: "persist_rows (server W) (hook_batch W from_micros t st) (stats (durable st)) = (m, T)" by fastforce
  have "tables_ok (stats (durable st))" using D by (simp add: ingested_def)
  from persist_rows_ok [OF this rows T] D False T show ?thesis
    by (simp add: drained_database ingested_def current_offset_store(3))
qed

lemma tick_ingests:
  assumes log: "readable_log W f" and D: "ingested W path f n p h (durable st)" and s: "sees f path n fs"
    and "log_path t = path" and rows: "list_all row_consistent (hook_batch W from_micros t st)"
  shows "\<exists>q. p \<le> q \<and> ingested W path f (seen_size path n fs) q
    (h + (\<Sum>r\<leftarrow>hook_batch W from_micros t st. sr_calls r)) (durable (worker_tick W from_micros fs t st))"
proof -
  let ?h = "h + (\<Sum>r\<leftarrow>hook_batch W from_micros t st. sr_calls r)" and ?st = "drain_hook_ring W from_micros t st"
  have d: "ingested W path f n p ?h (durable ?st)" by (rule drain_ingests [OF D rows])
  from flush_ingests [OF log d s] obtain q written D' where
    fl: "flush_cycle W fs path (durable ?st) = Some (written, D')" "p \<le> q" "ingested W path f (seen_size path n fs) q ?h D'"
    by blast
  have "n \<le> seen_size path n fs" using s by (auto simp: sees_def seen_size_def split: sum.splits)
  then have "ingested W path f (seen_size path n fs) p ?h (durable ?st)" using d by (simp add: ingested_def)
  then show ?thesis using fl assms(4) by (auto simp: worker_tick_def tail_log_def)
qed

lemma run_ingests:
  assumes "worker_run W from_micros path f n0 st0 n rows st" and "readable_log W f"
    and "ingested W path f n0 p0 h (durable st0)"
  shows "list_all row_consistent rows \<Longrightarrow>
    \<exists>p. p0 \<le> p \<and> ingested W path f n p (h + (\<Sum>r\<leftarrow>rows. sr_calls r)) (durable st)"
  using assms(1)
proof (induction rule: worker_run.induct)
  case start
  then show ?case using assms(3) by auto
next
  case (tick n rows st t fs)
  from tick.prems have rows: "list_all row_consistent rows" "list_all row_consistent (hook_batch W from_micros t st)"
    by simp_all
  from tick.IH [OF rows(1)] obtain p where p: "p0 \<le> p" "ingested W path f n p (h + (\<Sum>r\<leftarrow>rows. sr_calls r)) (durable st)" by blast
  from tick_ingests [OF assms(2) p(2) tick.hyps(3,2) rows(2)] obtain q where "p \<le> q"
    "ingested W path f (seen_size path n fs) q
       (h + (\<Sum>r\<leftarrow>rows. sr_calls r) + (\<Sum>r\<leftarrow>hook_batch W from_micros t st. sr_calls r)) (durable (worker_tick W from_micros fs t st))"
    by blast
  then show ?case using p(1) by (intro exI [of _ q]) (simp add: add.assoc)
next
  case (captured n rows st r)
  then show ?case by simp
qed

section \<open>When a window holds too few headers\<close>

lemma boundary_zero:
  assumes "length (filter (is_entry_header S) (log_lines w)) < 2"
  shows "last_complete_boundary S w = 0"
  using assms by (simp add: last_complete_boundary_eq)

lemma boundary_positive:
  assumes "2 \<le> length (filter (is_entry_header S) (log_lines w))"
  shows "0 < last_complete_boundary S w"
proof -
  from last_start_two [OF assms log_lines_nonempty, of 0 None] obtain b where
    "last_start (is_entry_header S) 0 None (log_lines w) = Some b" "0 < b" by blast
  with assms show ?thesis by (simp add: last_complete_boundary_eq)
qed

text \<open>A full window does not change while the log grows.\<close>

lemma full_window:
  assumes "starts_with f s" and "int p + MAX_READ_BYTES \<le> int (length s)"
  shows "tail_window s p = tail_window f p"
proof -
  obtain r where f: "f = s @ r" using assms(1) by (auto simp: starts_with_iff)
  have m: "0 \<le> MAX_READ_BYTES" by (simp add: MAX_READ_BYTES_def)
  have "min (int (length s) - int p) MAX_READ_BYTES = MAX_READ_BYTES"
    "min (int (length f) - int p) MAX_READ_BYTES = MAX_READ_BYTES"
    using assms(2) by (simp_all add: f)
  moreover have "p + nat MAX_READ_BYTES \<le> length s" using assms(2) m by linarith
  ultimately show ?thesis by (simp add: tail_window_def slice_def f)
qed

lemma stalled_flush:
  assumes "sees f path n fs" and "int p + MAX_READ_BYTES \<le> int n" and "current_offset D path = int p"
    and "length (filter (is_entry_header (worker_simd W)) (log_lines (tail_window f p))) < 2"
  shows "flush_cycle W fs path D = Some (0, D)"
proof (cases "open_file fs path")
  case (Inl e)
  then show ?thesis using assms(3) by (simp add: flush_cycle_def read_new_complete_def)
next
  case (Inr h)
  have s: "starts_with f (pending (data h))" "n \<le> length (pending (data h))"
    "file_size h = int (length (pending (data h)))" using assms(1) Inr by (simp_all add: sees_def)
  have m: "0 \<le> MAX_READ_BYTES" by (simp add: MAX_READ_BYTES_def)
  have l: "int p + MAX_READ_BYTES \<le> int (length (pending (data h)))" "p \<le> length (pending (data h))"
    using s(2) assms(2) m by linarith+
  from read_window [OF Inr s(3) l(2) refl, of "worker_simd W"]
  have "read_new_complete (worker_simd W) fs path (int p) = Inr (decode_line [], int p)"
    unfolding full_window [OF s(1) l(1)] boundary_zero [OF assms(4)] by simp
  moreover have "decode_line [] = []" by (simp add: decode_line_def utf8_valid.simps)
  ultimately show ?thesis using assms(3) by (simp add: flush_cycle_def)
qed

lemma drained_offset: "current_offset (durable (drain_hook_ring W from_micros t st)) path = current_offset (durable st) path"
  by (simp add: drained_database current_offset_def)

lemma flush_offset:
  assumes "flush_cycle W fs path D = Some (written, D')" and "0 \<le> n" and "n < 2 ^ 63"
    and "read_new_complete (worker_simd W) fs path (current_offset D path) = Inr (log_text, n)"
  shows "current_offset D' path = n"
proof -
  have "current_offset (store_offset E path n) path = n" for E
    using current_offset_store(1) [of "nat n" E path] assms(2,3) by simp
  then show ?thesis
    using assms(1,4) by (auto simp: flush_cycle_def split: if_splits option.splits prod.splits)
qed

section \<open>Properties\<close>

text \<open>C1: the worker counts every logged plan exactly once: starting from an empty database, after any
  ticks over a log that grows, with the ring changed at will in between, transactions aborted and the
  log unreadable at times, there is an entry start at which the stored offset stands and the calls in
  the tables are those of the plans logged before it plus those stored for the hook; the tables are
  consistent throughout.\<close>

theorem worker_ingests_exactly_once:
  assumes "worker_run W from_micros path f 0 st0 n rows st"
    and "durable st0 = \<lparr>ingest_offset = [], stats = empty_tables\<rparr>" and "readable_log W f"
    and "list_all row_consistent rows"
  shows "\<exists>p \<le> n. current_offset (durable st) path = int p \<and> entry_start f p \<and>
    total_calls (stats (durable st)) =
      (\<Sum>r\<leftarrow>rows. sr_calls r) + int (length (text_plans (env (worker_parser W)) (take p f))) \<and>
    tables_ok (stats (durable st))"
proof -
  have "ingested W path f 0 0 0 (durable st0)"
    by (simp add: assms(2) ingested_def current_offset_def entry_start_def text_plans_def plan_of_def)
  from run_ingests [OF assms(1,3) this assms(4)] show ?thesis unfolding ingested_def by auto
qed

text \<open>C2: the worker makes progress: a committed tick in log mode that sees two plan headers in its window
  moves the offset on, to the start of a later entry.\<close>

theorem worker_offset_advances:
  assumes "readable_log W f" and "ingested W path f n p h (durable st)" and "sees f path n fs"
    and "capture_mode t = Log" and "log_path t = path" and "path \<noteq> []" and "log_commits t"
    and "list_all row_consistent (hook_batch W from_micros t st)"
    and "open_file fs path = Inr file1"
    and "2 \<le> length (filter (is_entry_header lane_simd) (log_lines (tail_window (pending (data file1)) p)))"
  shows "\<exists>q > p. current_offset (durable (worker_tick W from_micros fs t st)) path = int q \<and> entry_start f q"
proof -
  let ?h = "h + (\<Sum>r\<leftarrow>hook_batch W from_micros t st. sr_calls r)" and ?st = "drain_hook_ring W from_micros t st"
  let ?s = "pending (data file1)"
  let ?b = "last_complete_boundary lane_simd (tail_window ?s p)"
  have d: "ingested W path f n p ?h (durable ?st)" by (rule drain_ingests [OF assms(2,8)])
  from flush_ingests [OF assms(1) d assms(3)] obtain q written D' where
    fl: "flush_cycle W fs path (durable ?st) = Some (written, D')" "p \<le> q" "ingested W path f (seen_size path n fs) q ?h D'"
    by blast
  have tick: "durable (worker_tick W from_micros fs t st) = D'"
    using fl(1) assms(4-7) by (simp add: worker_tick_def tail_log_def)
  have s: "file_size file1 = int (length ?s)" "n \<le> length ?s" "starts_with f ?s"
    using assms(3,9) by (simp_all add: sees_def)
  have p: "p \<le> n" "current_offset (durable ?st) path = int p" using d by (simp_all add: ingested_def)
  have le: "p \<le> length ?s" using p(1) s(2) by simp
  have b: "0 < ?b" by (rule boundary_positive [OF assms(10)])
  have lane: "worker_simd W = lane_simd" "int (length f) < 2 ^ 63"
    using assms(1) unfolding readable_log_def Let_def by blast+
  have "p + nat (min (int (length ?s) - int p) MAX_READ_BYTES) \<le> length ?s" using le by simp
  then have "p + ?b < length f"
    using worker.cycle_cut(2) [OF s(3) _ b [unfolded tail_window_def]] unfolding tail_window_def by blast
  then have "int (p + ?b) < 2 ^ 63" using lane(2) by linarith
  from flush_offset [OF fl(1) _ this] read_window [OF assms(9) s(1) le refl, of lane_simd]
  have "current_offset D' path = int (p + ?b)" unfolding p(2) lane(1) by simp
  then show ?thesis using b fl(3) unfolding tick ingested_def by (intro exI [of _ q]) simp
qed

text \<open>C3: the worker stalls on a full window with fewer than two plan headers: once \<open>MAX_READ_BYTES\<close> of the log
  beyond the stored offset are written and hold at most one header, no later tick moves the offset,
  however the log grows.\<close>

theorem worker_stalls_on_full_window:
  assumes "worker_run W from_micros path f n0 st0 n rows st"
    and "current_offset (durable st0) path = int p" and "int p + MAX_READ_BYTES \<le> int n0"
    and "length (filter (is_entry_header (worker_simd W)) (log_lines (tail_window f p))) < 2"
  shows "current_offset (durable st) path = int p"
proof -
  have "n0 \<le> n \<and> current_offset (durable st) path = int p"
    using assms(1)
  proof (induction rule: worker_run.induct)
    case (tick n rows st t fs)
    have g: "n \<le> seen_size path n fs" using tick.hyps(3) by (auto simp: sees_def seen_size_def split: sum.splits)
    let ?st = "drain_hook_ring W from_micros t st"
    have "int p + MAX_READ_BYTES \<le> int n" using assms(3) tick.IH by linarith
    moreover have "current_offset (durable ?st) path = int p" using tick.IH by (simp add: drained_offset)
    ultimately have "flush_cycle W fs path (durable ?st) = Some (0, durable ?st)"
      using stalled_flush [OF tick.hyps(3) _ _ assms(4)] by blast
    then have "durable (worker_tick W from_micros fs t st) = durable ?st"
      using tick.hyps(2) by (simp add: worker_tick_def tail_log_def)
    then show ?case using g tick.IH by (simp add: drained_offset)
  qed (use assms(2) in simp_all)
  then show ?thesis by simp
qed

section \<open>Witnesses\<close>

definition sample_worker :: "(nat \<Rightarrow> u8, nat \<Rightarrow> bool) WorkerEnv" where
  "sample_worker =
     \<lparr>worker_simd = lane_simd,
      worker_analyses = \<lparr>analyze_complexity = (\<lambda>_. None), extract_metadata = (\<lambda>_. None), run_plan_analysis = (\<lambda>_. None)\<rparr>,
      worker_parser = sample_parser 1000, worker_normalizer = sample_normalizer, slo_threshold_ms = f_zero,
      server = sample_server\<rparr>"

definition sample_tick :: Tick where
  "sample_tick = \<lparr>capture_mode = Log, log_path = ''l'', at_micros = 0, at_time = 0, own_database = 1,
     hook_commits = True, log_commits = True\<rparr>"

definition one_file :: "string \<Rightarrow> FileSystem" where
  "one_file s = \<lparr>open_file = (\<lambda>_. Inr \<lparr>file_size = int (length s), data = \<lparr>pending = s, broken = False\<rparr>\<rparr>),
     gunzip = id, bunzip2 = id\<rparr>"

definition fresh_worker :: WorkerState where
  "fresh_worker = \<lparr>shmem = default_ring, last_dropped = 0, reported_drops = [],
     durable = \<lparr>ingest_offset = [], stats = empty_tables\<rparr>\<rparr>"

lemma one_file_sees: "n \<le> length s \<Longrightarrow> starts_with f s \<Longrightarrow> sees f path n (one_file s)"
  by (simp add: sees_def one_file_def)

lemma fresh_hook_batch: "hook_batch W from_micros sample_tick fresh_worker = []"
proof -
  have "fst (take_recs_into 0 default_ring) = []" by (simp add: take_recs_into_def default_ring_def Let_def)
  then show ?thesis
    by (simp add: hook_batch_def hook_rows_def drained_def drain_def sample_tick_def fresh_worker_def case_prod_unfold Let_def)
qed

lemma sample_readable: "readable_log sample_worker (sample_plan_header @ sample_plan_header)"
proof -
  have "utf8_valid (sample_plan_header @ sample_plan_header)" by code_simp
  then show ?thesis
    by (simp add: readable_log_def readable_text_def Let_def sample_worker_def sample_parser_simps sample_plan_header_simps
        sample_plan_header_agreed sample_plan_header_agreed(1) [unfolded sample_plan_header_simps, simplified] sample_no_plans)
qed

theorem worker_ingests_exactly_once_witness:
  "\<exists>p. current_offset (durable (worker_tick sample_worker Some (one_file (sample_plan_header @ sample_plan_header))
       sample_tick fresh_worker)) ''l'' = int p \<and> entry_start (sample_plan_header @ sample_plan_header) p"
proof -
  let ?f = "sample_plan_header @ sample_plan_header"
  have "worker_run sample_worker Some ''l'' ?f 0 fresh_worker (seen_size ''l'' 0 (one_file ?f))
      ([] @ hook_batch sample_worker Some sample_tick fresh_worker) (worker_tick sample_worker Some (one_file ?f) sample_tick fresh_worker)"
    by (rule worker_run.tick [OF worker_run.start _ one_file_sees]) (simp_all add: sample_tick_def starts_with_iff)
  from worker_ingests_exactly_once [OF this _ sample_readable] show ?thesis
    by (auto simp: fresh_hook_batch) (auto simp: fresh_worker_def)
qed

theorem worker_offset_advances_witness:
  "\<exists>q > 0. current_offset (durable (worker_tick sample_worker Some (one_file (sample_plan_header @ sample_plan_header))
       sample_tick fresh_worker)) ''l'' = int q"
proof -
  let ?f = "sample_plan_header @ sample_plan_header"
  have i: "ingested sample_worker ''l'' ?f 0 0 0 (durable fresh_worker)"
    by (simp add: fresh_worker_def ingested_def current_offset_def entry_start_def text_plans_def plan_of_def)
  have "tail_window ?f 0 = ?f"
    by (simp add: tail_window_def slice_def MAX_READ_BYTES_def sample_plan_header_simps)
  then have w: "2 \<le> length (filter (is_entry_header lane_simd) (log_lines (tail_window ?f 0)))"
    by (simp add: sample_plan_header_simps)
  have "\<exists>q > 0. current_offset (durable (worker_tick sample_worker Some (one_file ?f) sample_tick fresh_worker)) ''l'' = int q \<and>
      entry_start ?f q"
    by (rule worker_offset_advances [OF sample_readable i one_file_sees])
      (use w in \<open>simp_all add: sample_tick_def [symmetric] fresh_hook_batch one_file_def starts_with_iff\<close>,
       simp_all add: sample_tick_def)
  then show ?thesis by blast
qed

definition sample_flat_log :: string where "sample_flat_log = replicate (nat MAX_READ_BYTES) CHR ''x''"

theorem worker_stalls_on_full_window_witness:
  "current_offset (durable (worker_tick sample_worker Some (one_file sample_flat_log) sample_tick fresh_worker)) ''l'' = 0"
proof -
  have len: "int (length sample_flat_log) = MAX_READ_BYTES" "sample_flat_log \<noteq> []"
    by (simp_all add: sample_flat_log_def MAX_READ_BYTES_def)
  have "line_feed \<noteq> CHR ''x''" by code_simp
  then have "next_line sample_flat_log = sample_flat_log"
    by (intro next_line_all) (simp add: sample_flat_log_def)
  then have l: "log_lines sample_flat_log = [sample_flat_log]" using len(2) by (subst log_lines.simps) simp
  have "tail_window sample_flat_log 0 = sample_flat_log"
    using len(1) by (simp add: tail_window_def slice_def)
  then have "length (filter (is_entry_header (worker_simd sample_worker)) (log_lines (tail_window sample_flat_log 0))) < 2"
    by (simp add: l)
  moreover have "worker_run sample_worker Some ''l'' sample_flat_log (length sample_flat_log) fresh_worker
      (seen_size ''l'' (length sample_flat_log) (one_file sample_flat_log))
      ([] @ hook_batch sample_worker Some sample_tick fresh_worker)
      (worker_tick sample_worker Some (one_file sample_flat_log) sample_tick fresh_worker)"
    by (rule worker_run.tick [OF worker_run.start _ one_file_sees]) (simp_all add: sample_tick_def starts_with_iff)
  moreover have "current_offset (durable fresh_worker) ''l'' = int 0" by (simp add: fresh_worker_def current_offset_def)
  ultimately show ?thesis using worker_stalls_on_full_window [where p = 0] len(1) by fastforce
qed

end
