(* ===== verification/Exporter_Config.thy ===== *)
theory Exporter_Config
  imports Log_Prefix Statistics
begin

text \<open>
  The exporter's configuration (\<open>config.rs\<close>, \<open>config_watcher.rs\<close>) and the findings shared by the
  tools (\<open>checks.rs\<close> of the core). A TOML file that does not parse is an input of \<open>load_from_file\<close>;
  the regex crate is \<open>RegexLib\<close>; whether a DSN is one is the predicate \<open>dsn_ok\<close> (tokio-postgres).
\<close>

section \<open>Findings\<close>

datatype Severity = Info | Warn | Error

text \<open>The derived order: the order of declaration.\<close>

definition severity_rank :: "Severity \<Rightarrow> nat" where
  "severity_rank s = (case s of Info \<Rightarrow> 0 | Warn \<Rightarrow> 1 | Error \<Rightarrow> 2)"

instantiation Severity :: linorder
begin

definition less_eq_Severity :: "Severity \<Rightarrow> Severity \<Rightarrow> bool" where
  "less_eq_Severity a b \<longleftrightarrow> severity_rank a \<le> severity_rank b"

definition less_Severity :: "Severity \<Rightarrow> Severity \<Rightarrow> bool" where
  "less_Severity a b \<longleftrightarrow> severity_rank a < severity_rank b"

instance
  by standard (auto simp: less_eq_Severity_def less_Severity_def severity_rank_def split: Severity.splits)

end

definition severity_as_str :: "Severity \<Rightarrow> string" where
  "severity_as_str s = (case s of Info \<Rightarrow> ''info'' | Warn \<Rightarrow> ''warning'' | Error \<Rightarrow> ''error'')"

record Finding =
  severity :: Severity
  finding_code :: string
  category :: string
  message :: string

definition new_finding :: "Severity \<Rightarrow> string \<Rightarrow> string \<Rightarrow> string \<Rightarrow> Finding" where
  "new_finding s c k m = \<lparr>severity = s, finding_code = c, category = k, message = m\<rparr>"

definition capped :: "Finding \<Rightarrow> Severity \<Rightarrow> Finding" where
  "capped f s = f\<lparr>severity := min (severity f) s\<rparr>"

definition highest :: "Finding list \<Rightarrow> Severity option" where
  "highest fs = (case map severity fs of [] \<Rightarrow> None | s # ss \<Rightarrow> Some (foldl max s ss))"

definition check_log_line_prefix :: "RegexLib \<Rightarrow> (string \<Rightarrow> string) \<Rightarrow> string \<Rightarrow> Finding list" where
  "check_log_line_prefix L debug format =
     (case parse_prefix L format of
        Inl e \<Rightarrow> [new_finding Error ''log_line_prefix.invalid'' ''log_line_prefix'' e]
      | Inr p \<Rightarrow>
          if \<not> has_database p then
            [new_finding Warn ''log_line_prefix.no_database'' ''log_line_prefix''
               (''log_line_prefix '' @ debug format @ '' has no %d, so every query is attributed to the '' @
                ''database \"unknown\"; add %d (for example '' @ [CHR 0x27] @ ''%m [%p] %q%u@%d '' @ [CHR 0x27] @ '').'')]
          else [])"

record AutoExplainSettings =
  log_min_duration :: "string option"
  log_analyze :: "string option"
  log_format :: "string option"

definition em_dash :: string where "em_dash = utf8 [0xE2, 0x80, 0x94]"

definition check_auto_explain :: "AutoExplainSettings \<Rightarrow> Finding list" where
  "check_auto_explain s =
     (if log_min_duration s = Some ''-1'' then
        [new_finding Warn ''auto_explain.disabled'' ''log''
           (''auto_explain.log_min_duration=-1 '' @ em_dash @ '' no plans are logged; set it to 0 (or a duration threshold).'')]
      else []) @
     (if log_analyze s = Some ''off'' then
        [new_finding Warn ''auto_explain.no_analyze'' ''log''
           (''auto_explain.log_analyze=off '' @ em_dash @ '' logged plans lack actual times, which plansight needs.'')]
      else []) @
     (case log_format s of
        None \<Rightarrow> []
      | Some format \<Rightarrow>
          if format \<noteq> ''text'' then
            [new_finding Warn ''auto_explain.not_text'' ''log''
               (''auto_explain.log_format='' @ format @ '' '' @ em_dash @
                '' plansight parses text plans; set auto_explain.log_format=text.'')]
          else [])"

section \<open>Durations and thresholds\<close>

text \<open>A function that may fail or panic.\<close>

datatype ('e, 'a) outcome = Done 'a | Failed 'e | Panicked

definition and_then :: "('e, 'a) outcome \<Rightarrow> ('a \<Rightarrow> ('e, 'b) outcome) \<Rightarrow> ('e, 'b) outcome" where
  "and_then x f = (case x of Done a \<Rightarrow> f a | Failed e \<Rightarrow> Failed e | Panicked \<Rightarrow> Panicked)"

lemma and_then_simps [simp]:
  "and_then (Done a) f = f a" "and_then (Failed e) f = Failed e" "and_then Panicked f = Panicked"
  by (simp_all add: and_then_def)

lemma and_then_Done: "and_then x f = Done b \<longleftrightarrow> (\<exists>a. x = Done a \<and> f a = Done b)"
  by (cases x) simp_all

datatype config_error =
    Invalid_Duration string
  | Invalid_Threshold string
  | Invalid_Prefix string
  | Invalid_Pattern string
  | Filter_Needs_Database
  | Invalid_Postgres_Interval
  | Invalid_Dsn
  | No_Backends
  | No_Config_File
  | Unparsable_Config

text \<open>\<open>Duration::from_secs_f64\<close>, in nanoseconds: it panics on a negative number, NaN, or \<open>2 ^ 64\<close>
  seconds and more.\<close>

definition from_secs_f64 :: "f64 \<Rightarrow> ('e, int) outcome" where
  "from_secs_f64 x =
     (if is_nan x \<or> is_infinite x \<or> f_lt x f_zero \<or> 2 ^ 64 \<le> f_val x then Panicked
      else Done (round_half_even (f_val x * 10 ^ 9)))"

definition parse_duration :: "string \<Rightarrow> (config_error, int) outcome" where
  "parse_duration duration_str =
     (let s = trim duration_str;
          scaled = (\<lambda>num_str factor. case parse_f64 num_str of
             None \<Rightarrow> Failed (Invalid_Duration s)
           | Some x \<Rightarrow> from_secs_f64 (case factor of None \<Rightarrow> x | Some n \<Rightarrow> f_mul x (f_of_nat n)))
      in case strip_suffix ''s'' s of
           Some num_str \<Rightarrow> scaled num_str None
         | None \<Rightarrow>
             (case strip_suffix ''m'' s of
                Some num_str \<Rightarrow> scaled num_str (Some 60)
              | None \<Rightarrow>
                  (case strip_suffix ''h'' s of
                     Some num_str \<Rightarrow> scaled num_str (Some 3600)
                   | None \<Rightarrow> Failed (Invalid_Duration s))))"

definition parse_threshold_to_ms :: "string \<Rightarrow> config_error + f64" where
  "parse_threshold_to_ms threshold =
     (let trimmed = trim threshold;
          finish = (\<lambda>v. case v of
             None \<Rightarrow> Inl (Invalid_Threshold trimmed)
           | Some x \<Rightarrow> if \<not> is_finite x \<or> f_lt x f_zero then Inl (Invalid_Threshold trimmed) else Inr x)
      in case strip_suffix ''ms'' trimmed of
           Some ms \<Rightarrow> finish (parse_f64 (trim ms))
         | None \<Rightarrow>
             (case strip_suffix ''s'' trimmed of
                Some s \<Rightarrow> finish (map_option (\<lambda>x. f_mul x (f_of_nat 1000)) (parse_f64 (trim s)))
              | None \<Rightarrow> Inl (Invalid_Threshold trimmed)))"

section \<open>The configuration\<close>

record LogParsingConfig =
  log_paths :: "string list"
  poll_interval :: string
  batch_size :: nat
  max_file_size_mb :: int
  max_queries_per_file :: nat
  max_read_bytes_per_cycle :: int
  log_line_prefix :: string

record MetricsConfig =
  namespace :: string
  backends :: "string list"
  histogram_buckets :: "f64 list"
  slow_query_thresholds :: "string list"
  retain_days :: int
  max_query_cardinality :: nat

record FiltersConfig =
  include_databases :: "string list option"
  exclude_databases :: "string list option"
  exclude_query_patterns :: "string list option"
  min_duration_ms :: "f64 option"

record PostgresConfig =
  dsn :: string
  postgres_poll_interval :: string
  max_series :: nat

record Config =
  bind_address :: string
  metrics_path :: string
  log_parsing :: LogParsingConfig
  metrics :: MetricsConfig
  database_path :: string
  filters :: "FiltersConfig option"
  postgres :: "PostgresConfig option"

definition default_log_parsing :: LogParsingConfig where
  "default_log_parsing =
     \<lparr>log_paths = [''/var/log/postgresql/*.log''], poll_interval = ''30s'', batch_size = 1000, max_file_size_mb = 0,
      max_queries_per_file = 0, max_read_bytes_per_cycle = 64 * 1024 * 1024,
      log_line_prefix = DEFAULT_LOG_LINE_PREFIX\<rparr>"

definition default_metrics :: MetricsConfig where
  "default_metrics =
     \<lparr>namespace = ''pg_plansight'', backends = [''prometheus''],
      histogram_buckets = List.map_filter parse_f64
        [''0.001'', ''0.01'', ''0.1'', ''1.0'', ''5.0'', ''10.0'', ''30.0'', ''60.0'', ''300.0''],
      slow_query_thresholds = [''1s'', ''5s'', ''10s'', ''30s''], retain_days = 7, max_query_cardinality = 10000\<rparr>"

definition default_config :: Config where
  "default_config =
     \<lparr>bind_address = ''127.0.0.1:9090'', metrics_path = ''/metrics'', log_parsing = default_log_parsing,
      metrics = default_metrics, database_path = ''/var/lib/pg-plansight-exporter/state.db'', filters = None,
      postgres = None\<rparr>"

definition poll_interval_duration :: "Config \<Rightarrow> (config_error, int) outcome" where
  "poll_interval_duration c = parse_duration (poll_interval (log_parsing c))"

definition first_invalid :: "('a \<Rightarrow> bool) \<Rightarrow> 'a list \<Rightarrow> ('a \<Rightarrow> 'e) \<Rightarrow> ('e, unit) outcome" where
  "first_invalid ok xs e = (case find (\<lambda>x. \<not> ok x) xs of None \<Rightarrow> Done () | Some x \<Rightarrow> Failed (e x))"

definition named_databases :: "string list option \<Rightarrow> bool" where
  "named_databases names = (case names of None \<Rightarrow> False | Some ns \<Rightarrow> ns \<noteq> [])"

definition validate_filters :: "RegexLib \<Rightarrow> LogLinePrefix \<Rightarrow> FiltersConfig \<Rightarrow> (config_error, unit) outcome" where
  "validate_filters L prefix f =
     and_then (case exclude_query_patterns f of
                 None \<Rightarrow> Done ()
               | Some pats \<Rightarrow> first_invalid (\<lambda>p. compile_match L p \<noteq> None) pats Invalid_Pattern)
       (\<lambda>_. if (named_databases (include_databases f) \<or> named_databases (exclude_databases f)) \<and> \<not> has_database prefix
            then Failed Filter_Needs_Database else Done ())"

definition validate_postgres :: "(string \<Rightarrow> bool) \<Rightarrow> PostgresConfig \<Rightarrow> (config_error, unit) outcome" where
  "validate_postgres dsn_ok p =
     (case parse_duration (postgres_poll_interval p) of
        Panicked \<Rightarrow> Panicked
      | Failed _ \<Rightarrow> Failed Invalid_Postgres_Interval
      | Done _ \<Rightarrow> if dsn_ok (dsn p) then Done () else Failed Invalid_Dsn)"

definition validate :: "RegexLib \<Rightarrow> (string \<Rightarrow> bool) \<Rightarrow> Config \<Rightarrow> (config_error, unit) outcome" where
  "validate L dsn_ok c =
     and_then (poll_interval_duration c) (\<lambda>_.
     and_then (first_invalid (\<lambda>t. \<not> isl (parse_threshold_to_ms t)) (slow_query_thresholds (metrics c))
                 Invalid_Threshold) (\<lambda>_.
     case parse_prefix L (log_line_prefix (log_parsing c)) of
       Inl e \<Rightarrow> Failed (Invalid_Prefix e)
     | Inr prefix \<Rightarrow>
         and_then (case filters c of None \<Rightarrow> Done () | Some f \<Rightarrow> validate_filters L prefix f) (\<lambda>_.
         and_then (case postgres c of None \<Rightarrow> Done () | Some p \<Rightarrow> validate_postgres dsn_ok p) (\<lambda>_.
         if backends (metrics c) = [] then Failed No_Backends else Done ()))))"

definition load_from_file ::
  "RegexLib \<Rightarrow> (string \<Rightarrow> bool) \<Rightarrow> Config option \<Rightarrow> (config_error, Config) outcome" where
  "load_from_file L dsn_ok parsed_toml =
     (case parsed_toml of
        None \<Rightarrow> Failed Unparsable_Config
      | Some c \<Rightarrow> and_then (validate L dsn_ok c) (\<lambda>_. Done c))"

section \<open>Reloading\<close>

text \<open>The channel holds the configuration in force; a receiver sees what was sent last. The sections
  that a reload does not apply are reported.\<close>

definition needs_restart :: "Config \<Rightarrow> Config \<Rightarrow> string list" where
  "needs_restart current new =
     (if bind_address current \<noteq> bind_address new \<or> metrics_path current \<noteq> metrics_path new
      then [''server.bind_address/metrics_path''] else []) @
     (if namespace (metrics current) \<noteq> namespace (metrics new) then [''metrics.namespace''] else []) @
     (if backends (metrics current) \<noteq> backends (metrics new) then [''metrics.backends''] else []) @
     (if list_all2 f_eq (histogram_buckets (metrics current)) (histogram_buckets (metrics new))
      then [] else [''metrics.histogram_buckets'']) @
     (if postgres current \<noteq> postgres new then [''postgres''] else []) @
     (if database_path current \<noteq> database_path new then [''state.database_path''] else [])"

definition try_reload ::
  "RegexLib \<Rightarrow> (string \<Rightarrow> bool) \<Rightarrow> bool \<Rightarrow> Config option \<Rightarrow> Config \<Rightarrow> (config_error, Config \<times> string list) outcome" where
  "try_reload L dsn_ok present parsed_toml current =
     (if \<not> present then Failed No_Config_File
      else and_then (load_from_file L dsn_ok parsed_toml) (\<lambda>new.
        and_then (poll_interval_duration new) (\<lambda>_.
        and_then (case filters new of
                    None \<Rightarrow> Done ()
                  | Some f \<Rightarrow> (case exclude_query_patterns f of
                      None \<Rightarrow> Done ()
                    | Some pats \<Rightarrow> first_invalid (\<lambda>p. compile_match L p \<noteq> None) pats Invalid_Pattern)) (\<lambda>_.
        Done (new, needs_restart current new)))))"

section \<open>What a validated configuration guarantees\<close>

definition compile_patterns :: "RegexLib \<Rightarrow> Config \<Rightarrow> config_error + (string \<Rightarrow> bool) list option" where
  "compile_patterns L c =
     (case filters c of
        None \<Rightarrow> Inr None
      | Some f \<Rightarrow>
          (case exclude_query_patterns f of
             None \<Rightarrow> Inr None
           | Some pats \<Rightarrow>
               (case find (\<lambda>p. compile_match L p = None) pats of
                  Some p \<Rightarrow> Inl (Invalid_Pattern p)
                | None \<Rightarrow> Inr (Some (List.map_filter (compile_match L) pats)))))"

definition resolve_thresholds :: "Config \<Rightarrow> config_error + (string \<times> f64) list" where
  "resolve_thresholds c =
     (case find (\<lambda>t. isl (parse_threshold_to_ms t)) (slow_query_thresholds (metrics c)) of
        Some t \<Rightarrow> Inl (Invalid_Threshold t)
      | None \<Rightarrow> Inr (List.map_filter (\<lambda>t. case parse_threshold_to_ms t of Inl _ \<Rightarrow> None | Inr ms \<Rightarrow> Some (t, ms))
          (slow_query_thresholds (metrics c))))"

lemma zero_duration: "parse_duration ''0s'' = Done 0"
proof -
  have "f_pat f_zero = 0" "\<not> f_neg f_zero" by code_simp+
  then have v: "f_val f_zero = 0" by (simp add: f_val_def f_mag_def f_biased_def f_fraction_def)
  have "\<not> is_nan f_zero" "\<not> is_infinite f_zero" "\<not> f_lt f_zero f_zero" by code_simp+
  then have "from_secs_f64 f_zero = Done 0" by (simp add: from_secs_f64_def v round_half_even_def)
  moreover have "parse_f64 ''0'' = Some f_zero" "trim ''0s'' = ''0s''" "strip_suffix ''s'' ''0s'' = Some ''0''" by code_simp+
  ultimately show ?thesis by (simp add: parse_duration_def Let_def)
qed

lemma sample_durations:
  "parse_duration ''-1s'' = Panicked" "parse_duration ''0s'' = Done 0" "\<exists>t. parse_duration ''30s'' = Done t"
proof -
  have "case parse_duration ''-1s'' of Panicked \<Rightarrow> True | _ \<Rightarrow> False" "case parse_duration ''30s'' of Done _ \<Rightarrow> True | _ \<Rightarrow> False"
    by code_simp+
  then show "parse_duration ''-1s'' = Panicked" "\<exists>t. parse_duration ''30s'' = Done t"
    by (auto split: outcome.splits)
qed (rule zero_duration)

text \<open>A negative interval is not rejected: \<open>Duration::from_secs_f64\<close> panics inside the validation. A zero
  interval is accepted, and the scheduler's timer panics on it.\<close>

theorem negative_interval_panics:
  "validate L dsn_ok (default_config\<lparr>log_parsing := default_log_parsing\<lparr>poll_interval := ''-1s''\<rparr>\<rparr>) = Panicked \<and>
   poll_interval_duration (default_config\<lparr>log_parsing := default_log_parsing\<lparr>poll_interval := ''0s''\<rparr>\<rparr>) = Done 0"
  using sample_durations by (simp add: validate_def poll_interval_duration_def)

end
