(* ===== verification/Collector.thy ===== *)
theory Collector
  imports Tail Aggregate State_Store Exporter_Config
begin

text \<open>
  The exporter's collector (\<open>collector.rs\<close>, \<open>metrics/derived.rs\<close>): each cycle reads what was appended to
  every log up to the last entry start, folds it into groups, emits their metrics and stores the
  checkpoint. The metrics backend is the list of the calls made on it. What a cycle meets (the file
  metadata, the files, the clock, a failing database, a panicking parse) is its input; hash maps are
  iterated in the order of their association lists.
\<close>

section \<open>Derived metrics\<close>

definition coefficient_of_variation :: "f64 \<Rightarrow> f64 \<Rightarrow> f64" where
  "coefficient_of_variation mean stddev = (if f_eq mean f_zero then f_zero else f_div stddev mean)"

definition time_share_pct :: "f64 \<Rightarrow> f64 \<Rightarrow> f64" where
  "time_share_pct t grand_total =
     (if f_eq grand_total f_zero then f_zero else f_mul (f_div t grand_total) (f_of_nat 100))"

definition rows_per_call :: "f64 \<Rightarrow> f64 \<Rightarrow> f64" where
  "rows_per_call rows calls = (if f_eq calls f_zero then f_zero else f_div rows calls)"

section \<open>State\<close>

text \<open>The calls on the backend, with the values of their labels.\<close>

datatype MetricEvent =
    First_Seen string string f64
  | Last_Seen string string f64
  | Query_Duration string string f64
  | Query_Execution string string
  | Slow_Queries string string nat
  | Plan_Cost string string f64
  | Scan_Type string string
  | Join_Type string string
  | Latency_Cv string string f64
  | Time_Share string string f64
  | Latency_P95 string string f64
  | Latency_P99 string string f64
  | Logs_Parsed string nat
  | Parse_Error string string
  | Exporter_Up int
  | Memory_Usage int
  | Last_Successful_Parse int
  | Export_Duration string f64

record FileRuntime =
  last_observed :: "(int \<times> int) option"
  unchanged_cycles :: int
  parse_failures :: int
  budget_stalls :: int

definition default_runtime :: FileRuntime where
  "default_runtime = \<lparr>last_observed = None, unchanged_cycles = 0, parse_failures = 0, budget_stalls = 0\<rparr>"

definition QUIESCENT_CYCLES :: int where "QUIESCENT_CYCLES = 2"
definition MAX_PARSE_FAILURES :: int where "MAX_PARSE_FAILURES = 3"

definition count_up :: "int \<Rightarrow> int" where "count_up n = min (n + 1) (2 ^ 32 - 1)"

record ('v, 'm) LogCollector =
  config :: Config
  state_store :: Database
  events :: "MetricEvent list"
  log_parser :: "('v, 'm) LogParser"
  grouper :: QueryGrouper
  filter_patterns :: "(string \<Rightarrow> bool) list option"
  file_runtime :: "(string \<times> FileRuntime) list"
  health :: "int option"
  slow_thresholds :: "(string \<times> f64) list"

text \<open>The crates the exporter is linked with.\<close>

record ('v, 'm) Linked =
  regex :: RegexLib
  rfc3339 :: Rfc3339
  normalizer :: Normalizer
  log_env :: "('v, 'm) Env"

text \<open>What the pass over one file meets. \<open>left\<close> is the grouper a parse leaves behind when reading fails
  part-way.\<close>

record FileMeta =
  modified :: "io_error + int"
  meta_size :: int
  meta_dev :: "int option"
  meta_ino :: "int option"

record FileView =
  metadata :: "io_error + FileMeta"
  probe :: FileSystem
  files :: FileSystem
  panics :: bool
  left :: QueryGrouper
  seen_at :: int
  stored_at :: int
  get_fails :: bool
  record_fails :: bool
  update_fails :: bool

record ParsedRange =
  end_offset :: int
  range_plans :: nat
  processed_queries :: "(string \<times> ProcessedQuery) list"

section \<open>Construction and reload\<close>

definition default_parser :: "('v, 'm) Env \<Rightarrow> ('v, 'm) LogParser" where
  "default_parser E =
     \<lparr>env = E, timezone = new_resolver, max_line_bytes = MAX_LINE_BYTES, max_entry_bytes = MAX_ENTRY_BYTES,
      prefix_database = message_database \<lparr>prefix_format = DEFAULT_LOG_LINE_PREFIX, prefix_tail = None\<rparr>\<rparr>"

definition new_collector ::
  "('v, 'm) Linked \<Rightarrow> Config \<Rightarrow> Database \<Rightarrow> config_error + ('v, 'm) LogCollector" where
  "new_collector K c D =
     (case parse_prefix (regex K) (log_line_prefix (log_parsing c)) of
        Inl e \<Rightarrow> Inl (Invalid_Prefix e)
      | Inr pfx \<Rightarrow>
          (case compile_patterns (regex K) c of
             Inl e \<Rightarrow> Inl e
           | Inr pats \<Rightarrow>
               (case resolve_thresholds c of
                  Inl e \<Rightarrow> Inl e
                | Inr thresholds \<Rightarrow>
                    Inr \<lparr>config = c, state_store = D, events = [],
                         log_parser = with_log_line_prefix (default_parser (log_env K)) pfx,
                         grouper = with_max_plans new_grouper (max_queries_per_file (log_parsing c)),
                         filter_patterns = pats, file_runtime = [], health = None,
                         slow_thresholds = thresholds\<rparr>)))"

definition with_health :: "('v, 'm) LogCollector \<Rightarrow> int \<Rightarrow> ('v, 'm) LogCollector" where
  "with_health C last_success = C\<lparr>health := Some last_success\<rparr>"

definition update_config ::
  "('v, 'm) Linked \<Rightarrow> ('v, 'm) LogCollector \<Rightarrow> Config \<Rightarrow> (config_error + unit) \<times> ('v, 'm) LogCollector" where
  "update_config K C new =
     (case compile_patterns (regex K) new of
        Inl e \<Rightarrow> (Inl e, C)
      | Inr pats \<Rightarrow>
          (let apply = (\<lambda>C. (Inr (), C\<lparr>config := new, filter_patterns := pats,
                  grouper := set_max_plans (grouper C) (max_queries_per_file (log_parsing new))\<rparr>))
           in if log_line_prefix (log_parsing (config C)) \<noteq> log_line_prefix (log_parsing new) then
                (case parse_prefix (regex K) (log_line_prefix (log_parsing new)) of
                   Inl e \<Rightarrow> (Inl (Invalid_Prefix e), C)
                 | Inr pfx \<Rightarrow> apply (C\<lparr>log_parser := with_log_line_prefix (default_parser (log_env K)) pfx\<rparr>))
              else apply C))"

section \<open>Emission\<close>

definition query_database :: "ProcessedQuery \<Rightarrow> string" where
  "query_database pq = (case database (representative_plan pq) of Some db \<Rightarrow> db | None \<Rightarrow> UNKNOWN_DATABASE)"

definition query_key :: "Normalizer \<Rightarrow> ProcessedQuery \<Rightarrow> query_key" where
  "query_key N pq = (hex16 (query_hash N (normalized_query (representative_plan pq))), query_database pq)"

definition should_include_query :: "('v, 'm) LogCollector \<Rightarrow> ProcessedQuery \<Rightarrow> bool" where
  "should_include_query C pq =
     (case filters (config C) of
        None \<Rightarrow> True
      | Some f \<Rightarrow>
          (case min_duration_ms f of Some d \<Rightarrow> \<not> f_lt (st_min (qs_duration (statistics pq))) d | None \<Rightarrow> True) \<and>
          (case include_databases f of Some names \<Rightarrow> names = [] \<or> query_database pq \<in> set names | None \<Rightarrow> True) \<and>
          (case exclude_databases f of Some names \<Rightarrow> query_database pq \<notin> set names | None \<Rightarrow> True) \<and>
          (case filter_patterns C of
             Some pats \<Rightarrow> \<not> list_ex (\<lambda>m. m (normalized_query (representative_plan pq))) pats
           | None \<Rightarrow> True))"

definition scan_label :: "ScanType \<Rightarrow> string" where
  "scan_label s =
     (case s of
        SeqScan _ \<Rightarrow> ''seq_scan''
      | IndexScan _ _ _ _ \<Rightarrow> ''index_scan''
      | BitmapHeapScan _ _ \<Rightarrow> ''bitmap_heap_scan''
      | BitmapIndexScan _ \<Rightarrow> ''bitmap_index_scan''
      | ParallelBitmapHeapScan _ _ \<Rightarrow> ''parallel_bitmap_heap_scan'')"

definition join_label :: "JoinType \<Rightarrow> string" where
  "join_label j =
     (case j of
        NestedLoop _ \<Rightarrow> ''nested_loop''
      | NestedLoopLeftJoin _ \<Rightarrow> ''nested_loop''
      | HashJoin _ _ \<Rightarrow> ''hash_join''
      | MergeJoin _ \<Rightarrow> ''merge_join'')"

fun count_node_metrics :: "PlanNode \<Rightarrow> string \<Rightarrow> MetricEvent list" where
  "count_node_metrics (PlanNode t c a ns ps original) db =
     (case t of
        ScanNode s \<Rightarrow> [Scan_Type (scan_label s) db]
      | JoinNode j \<Rightarrow> [Join_Type (join_label j) db]
      | _ \<Rightarrow> []) @ concat (map (\<lambda>n. count_node_metrics n db) ns)"

definition slow_events :: "(string \<times> f64) list \<Rightarrow> string \<Rightarrow> ExecutionRecord list \<Rightarrow> MetricEvent list" where
  "slow_events thresholds db es =
     concat (map (\<lambda>(label, ms).
       (let n = length (filter (\<lambda>e. f_le ms (er_duration e)) es) in if 0 < n then [Slow_Queries db label n] else []))
       thresholds)"

definition update_query_metrics ::
  "(string \<times> f64) list \<Rightarrow> query_key \<Rightarrow> ProcessedQuery \<Rightarrow> f64 \<Rightarrow> int \<times> int \<Rightarrow> MetricEvent list" where
  "update_query_metrics thresholds key pq grand_total_ms seen =
     (let (h, db) = key; st = statistics pq; d = qs_duration st
      in [First_Seen h db (f_of_int (fst seen div 10 ^ 9)), Last_Seen h db (f_of_int (snd seen div 10 ^ 9))] @
         concat (map (\<lambda>e. [Query_Duration h db (f_div (er_duration e) (f_of_nat 1000)), Query_Execution h db])
           (qs_executions st)) @
         slow_events thresholds db (qs_executions st) @
         [Plan_Cost h db (max_total_cost (cost (root (parsed (representative_plan pq)))))] @
         count_node_metrics (root (parsed (representative_plan pq))) db @
         [Latency_Cv h db (coefficient_of_variation (st_mean d) (st_std_dev d)),
          Time_Share h db (time_share_pct (st_total d) grand_total_ms),
          Latency_P95 h db (p95 (st_percentiles d)), Latency_P99 h db (p99 (st_percentiles d))])"

definition emit_query_metrics ::
  "('v, 'm) Linked \<Rightarrow> FileView \<Rightarrow> (string \<times> ProcessedQuery) list \<Rightarrow> ('v, 'm) LogCollector \<Rightarrow>
     (io_error + unit) \<times> ('v, 'm) LogCollector" where
  "emit_query_metrics K v processed C =
     (let included = filter (should_include_query C) (map snd processed);
          grand_total_ms = foldl f_add f_zero (map (\<lambda>q. st_total (qs_duration (statistics q))) included);
          key = query_key (normalizer K);
          entries = map (\<lambda>q. (key q, normalized_query (representative_plan q))) included
      in if included = [] then (Inr (), C)
         else if record_fails v then (Inl ''database error'', C)
         else
           (case record_query_hashes (rfc3339 K) (seen_at v) (state_store C) entries of
              (Inl _, D) \<Rightarrow> (Inl ''database error'', C\<lparr>state_store := D\<rparr>)
            | (Inr seen, D) \<Rightarrow>
                (Inr (), C\<lparr>state_store := D, events := events C @ concat (map (\<lambda>q.
                   update_query_metrics (slow_thresholds C) (key q) q grand_total_ms
                     (case map_of seen (key q) of Some t \<Rightarrow> t | None \<Rightarrow> (seen_at v, seen_at v))) included)\<rparr>)))"

section \<open>Reading a range\<close>

definition read_all :: "Reader \<Rightarrow> io_error + string" where
  "read_all r = (if broken r then Inl ''read error'' else Inr (pending r))"

definition read_file_range :: "FileSystem \<Rightarrow> string \<Rightarrow> int \<Rightarrow> int \<Rightarrow> io_error + string" where
  "read_file_range fs path a b =
     (case open_file fs path of
        Inl e \<Rightarrow> Inl e
      | Inr f \<Rightarrow> read_all (take_reader (sat_sub64 b a) (seek_reader a (data f))))"

definition is_compressed_file :: "FileSystem \<Rightarrow> string \<Rightarrow> bool" where
  "is_compressed_file fs path =
     (case open_file fs path of Inl _ \<Rightarrow> False | Inr f \<Rightarrow> sniff (data f) \<noteq> Plain)"

text \<open>The blocking task: the offset parsed to, or that there is no entry start yet; an error comes with
  the grouper as it then is.\<close>

definition fill_grouper ::
  "('v, 'm) Linked \<Rightarrow> FileView \<Rightarrow> ('v, 'm) LogParser \<Rightarrow> QueryGrouper \<Rightarrow> string \<Rightarrow> int \<Rightarrow> int \<Rightarrow> bool \<Rightarrow>
     (io_error \<times> QueryGrouper) + (int option \<times> QueryGrouper)" where
  "fill_grouper K v P g path a b hold_back =
     (if hold_back then
        (case read_file_range (files v) path a b of
           Inl e \<Rightarrow> Inl (e, g)
         | Inr buf \<Rightarrow>
             (case last_entry_boundary (simd (env P)) buf of
                None \<Rightarrow> Inr (None, g)
              | Some n \<Rightarrow>
                  if n = 0 then Inr (None, g)
                  else (case parse_into_grouper P (normalizer K) (cursor (take n buf)) (int n) g of
                          Inl e \<Rightarrow> Inl (e, left v)
                        | Inr (g, _) \<Rightarrow> Inr (Some (a + int n), g))))
      else
        (case parse_file_range_into_grouper (files v) P (normalizer K) path a (Some b) g of
           Inl e \<Rightarrow> Inl (e, if isl (create_reader_with_range (files v) path a (Some b)) then g else left v)
         | Inr (g, _) \<Rightarrow> Inr (Some b, g)))"

definition parse_range ::
  "('v, 'm) Linked \<Rightarrow> FileView \<Rightarrow> ('v, 'm) LogParser \<Rightarrow> QueryGrouper \<Rightarrow> string \<Rightarrow> int \<Rightarrow> int \<Rightarrow> bool \<Rightarrow>
     (io_error \<times> QueryGrouper, ParsedRange option \<times> QueryGrouper) outcome" where
  "parse_range K v P g path a b hold_back =
     (if panics v then Panicked
      else
        (case fill_grouper K v P g path a b hold_back of
           Inl (e, g) \<Rightarrow> (case take_groups g of (None, _) \<Rightarrow> Panicked | (Some _, g) \<Rightarrow> Failed (e, g))
         | Inr (None, g) \<Rightarrow> Done (None, g)
         | Inr (Some parse_end, g) \<Rightarrow>
             (case take_groups g of
                (None, _) \<Rightarrow> Panicked
              | (Some processed, g') \<Rightarrow>
                  Done (Some \<lparr>end_offset = parse_end, range_plans = folded g, processed_queries = processed\<rparr>, g'))))"

definition parse_range_blocking ::
  "('v, 'm) Linked \<Rightarrow> FileView \<Rightarrow> string \<Rightarrow> int \<Rightarrow> int \<Rightarrow> bool \<Rightarrow> ('v, 'm) LogCollector \<Rightarrow>
     (io_error + ParsedRange option) \<times> ('v, 'm) LogCollector" where
  "parse_range_blocking K v path a b hold_back C =
     (case parse_range K v (log_parser C) (grouper C) path a b hold_back of
        Done (r, g) \<Rightarrow> (Inr r, C\<lparr>grouper := g\<rparr>)
      | Failed (e, g) \<Rightarrow> (Inl e, C\<lparr>grouper := g\<rparr>)
      | Panicked \<Rightarrow>
          (Inl ''Log parsing task panicked'',
           C\<lparr>log_parser := default_parser (log_env K),
             grouper := set_max_plans new_grouper (max_queries_per_file (log_parsing (config C)))\<rparr>))"

section \<open>One file\<close>

definition runtime_of :: "('v, 'm) LogCollector \<Rightarrow> string \<Rightarrow> FileRuntime" where
  "runtime_of C path = (case map_of (file_runtime C) path of Some r \<Rightarrow> r | None \<Rightarrow> default_runtime)"

definition set_runtime :: "('v, 'm) LogCollector \<Rightarrow> string \<Rightarrow> FileRuntime \<Rightarrow> ('v, 'm) LogCollector" where
  "set_runtime C path r = C\<lparr>file_runtime := AList.update path r (file_runtime C)\<rparr>"

definition effective_read_budget :: "('v, 'm) LogCollector \<Rightarrow> string \<Rightarrow> int" where
  "effective_read_budget C path =
     (let base = max_read_bytes_per_cycle (log_parsing (config C))
      in if base = 0 then 0
         else sat_mul64 base (2 ^ nat (min (budget_stalls (runtime_of C path)) 20)))"

definition observe_file :: "int \<Rightarrow> int \<Rightarrow> FileRuntime \<Rightarrow> FileRuntime" where
  "observe_file mtime fsize r =
     (if last_observed r = Some (mtime, fsize) then r\<lparr>unchanged_cycles := count_up (unchanged_cycles r)\<rparr>
      else r\<lparr>unchanged_cycles := 0, last_observed := Some (mtime, fsize)\<rparr>)"

definition identity_changed :: "FileState \<Rightarrow> FileMeta \<Rightarrow> bool" where
  "identity_changed s m =
     (case (dev s, ino s, meta_dev m, meta_ino m) of
        (Some old_dev, Some old_ino, Some new_dev, Some new_ino) \<Rightarrow> old_dev \<noteq> new_dev \<or> old_ino \<noteq> new_ino
      | _ \<Rightarrow> False)"

definition fresh_file_state :: "string \<Rightarrow> int \<Rightarrow> FileState" where
  "fresh_file_state path now =
     \<lparr>file_path = path, last_position = 0, last_modified_time = 0, last_file_size = 0,
      last_processed_at = now, dev = None, ino = None\<rparr>"

definition after_rotation :: "FileState \<Rightarrow> FileMeta \<Rightarrow> FileState" where
  "after_rotation s m =
     (if identity_changed s m \<or> meta_size m < last_file_size s then s\<lparr>last_position := 0, last_file_size := 0\<rparr>
      else s)"

definition store_state ::
  "('v, 'm) Linked \<Rightarrow> FileView \<Rightarrow> FileState \<Rightarrow> 'a \<Rightarrow> ('v, 'm) LogCollector \<Rightarrow> (io_error + 'a) \<times> ('v, 'm) LogCollector" where
  "store_state K v s x C =
     (if update_fails v then (Inl ''database error'', C)
      else (Inr x, C\<lparr>state_store := update_file_state (rfc3339 K) (state_store C) s\<rparr>))"

text \<open>A failed range is retried, and skipped after \<open>MAX_PARSE_FAILURES\<close> failures in a row.\<close>

definition range_failed ::
  "('v, 'm) Linked \<Rightarrow> FileView \<Rightarrow> string \<Rightarrow> string \<Rightarrow> int \<Rightarrow> int \<Rightarrow> FileState \<Rightarrow> ('v, 'm) LogCollector \<Rightarrow>
     (io_error + nat) \<times> ('v, 'm) LogCollector" where
  "range_failed K v path pattern mtime fsize s C =
     (let r = runtime_of C path;
          r = r\<lparr>parse_failures := count_up (parse_failures r)\<rparr>;
          C = set_runtime C path r;
          C = C\<lparr>events := events C @ [Parse_Error pattern ''parse_error'']\<rparr>
      in if MAX_PARSE_FAILURES \<le> parse_failures r then
           (case store_state K v (s\<lparr>last_position := fsize, last_file_size := fsize, last_modified_time := mtime,
                   last_processed_at := stored_at v\<rparr>) 0 C of
              (Inl e, C) \<Rightarrow> (Inl e, C)
            | (Inr n, C) \<Rightarrow> (Inr n, set_runtime C path (r\<lparr>parse_failures := 0\<rparr>)))
         else (Inr 0, C))"

definition emit_parsed ::
  "('v, 'm) Linked \<Rightarrow> FileView \<Rightarrow> ParsedRange \<Rightarrow> ('v, 'm) LogCollector \<Rightarrow> (io_error + unit) \<times> ('v, 'm) LogCollector" where
  "emit_parsed K v p C =
     (if processed_queries p = [] then (Inr (), C) else emit_query_metrics K v (processed_queries p) C)"

definition range_parsed ::
  "('v, 'm) Linked \<Rightarrow> FileView \<Rightarrow> string \<Rightarrow> FileMeta \<Rightarrow> int \<Rightarrow> bool \<Rightarrow> bool \<Rightarrow> FileState \<Rightarrow> ParsedRange option \<Rightarrow>
     ('v, 'm) LogCollector \<Rightarrow> (io_error + nat) \<times> ('v, 'm) LogCollector" where
  "range_parsed K v path m mtime clamped compressed s found_range C =
     (let made_progress = (case found_range of Some p \<Rightarrow> last_position s < end_offset p | None \<Rightarrow> False);
          r = runtime_of C path;
          r = r\<lparr>parse_failures := 0,
                budget_stalls := (if clamped \<and> \<not> made_progress then count_up (budget_stalls r) else 0)\<rparr>;
          C = set_runtime C path r
      in case found_range of
           None \<Rightarrow> (Inr 0, C)
         | Some p \<Rightarrow>
             (case emit_parsed K v p C of
                (Inl e, C) \<Rightarrow> (Inl e, C)
              | (Inr _, C) \<Rightarrow>
                  store_state K v
                    (s\<lparr>last_position := (if compressed then meta_size m else end_offset p), last_file_size := meta_size m,
                       last_modified_time := mtime, last_processed_at := stored_at v,
                       dev := meta_dev m, ino := meta_ino m\<rparr>) (range_plans p) C))"

definition process_range ::
  "('v, 'm) Linked \<Rightarrow> FileView \<Rightarrow> string \<Rightarrow> string \<Rightarrow> FileMeta \<Rightarrow> int \<Rightarrow> bool \<Rightarrow> FileState \<Rightarrow>
     ('v, 'm) LogCollector \<Rightarrow> (io_error + nat) \<times> ('v, 'm) LogCollector" where
  "process_range K v path pattern m mtime quiescent s C =
     (if meta_size m \<le> last_position s then (Inr 0, C)
      else
        (let compressed = is_compressed_file (probe v) path
         in if compressed \<and> 0 < last_position s then (Inr 0, C)
            else
              (let budget = effective_read_budget C path;
                   read_end = (if compressed \<or> budget = 0 then meta_size m
                               else min (meta_size m) (sat_add64 (last_position s) budget));
                   clamped = (read_end < meta_size m);
                   hold_back = ((\<not> quiescent \<or> clamped) \<and> \<not> compressed)
               in case parse_range_blocking K v path (last_position s) read_end hold_back C of
                    (Inl e, C) \<Rightarrow> range_failed K v path pattern mtime (meta_size m) s C
                  | (Inr found_range, C) \<Rightarrow> range_parsed K v path m mtime clamped compressed s found_range C)))"

definition max_size_bytes :: "('v, 'm) LogCollector \<Rightarrow> int" where
  "max_size_bytes C = max_file_size_mb (log_parsing (config C)) * 1024 * 1024 mod 2 ^ 64"

definition process_log_file ::
  "('v, 'm) Linked \<Rightarrow> FileView \<Rightarrow> string \<Rightarrow> string \<Rightarrow> ('v, 'm) LogCollector \<Rightarrow> (io_error + nat) \<times> ('v, 'm) LogCollector" where
  "process_log_file K v path pattern C =
     (case metadata v of
        Inl e \<Rightarrow> (Inl e, C)
      | Inr m \<Rightarrow>
          (case modified m of
             Inl e \<Rightarrow> (Inl e, C)
           | Inr mtime \<Rightarrow>
               if 0 < max_size_bytes C \<and> max_size_bytes C < meta_size m then (Inr 0, C)
               else if get_fails v then (Inl ''database error'', C)
               else
                 (case get_file_state (rfc3339 K) (state_store C) path of
                    Inl _ \<Rightarrow> (Inl ''database error'', C)
                  | Inr found \<Rightarrow>
                      (let s = (case found of Some s \<Rightarrow> s | None \<Rightarrow> fresh_file_state path (stored_at v));
                           r = observe_file mtime (meta_size m) (runtime_of C path)
                       in process_range K v path pattern m mtime (QUIESCENT_CYCLES \<le> unchanged_cycles r)
                            (after_rotation s m) (set_runtime C path r)))))"

definition process_remaining_content ::
  "('v, 'm) Linked \<Rightarrow> FileView \<Rightarrow> string \<Rightarrow> string \<Rightarrow> ('v, 'm) LogCollector \<Rightarrow> (io_error + nat) \<times> ('v, 'm) LogCollector" where
  "process_remaining_content K v path pattern C =
     (case metadata v of
        Inl e \<Rightarrow> (Inl e, C)
      | Inr m \<Rightarrow>
          if get_fails v then (Inl ''database error'', C)
          else
            (case get_file_state (rfc3339 K) (state_store C) path of
               Inl _ \<Rightarrow> (Inl ''database error'', C)
             | Inr found \<Rightarrow>
                 (let start_position = (case found of Some s \<Rightarrow> last_position s | None \<Rightarrow> 0)
                  in if found \<noteq> None \<and> meta_size m \<le> start_position then (Inr 0, C)
                     else
                       (case parse_range_blocking K v path start_position (meta_size m) False C of
                          (Inl e, C) \<Rightarrow> (Inr 0, C\<lparr>events := events C @ [Parse_Error pattern ''parse_error'']\<rparr>)
                        | (Inr None, C) \<Rightarrow> (Inr 0, C)
                        | (Inr (Some p), C) \<Rightarrow>
                            (case emit_parsed K v p C of
                               (Inl e, C) \<Rightarrow> (Inl e, C)
                             | (Inr _, C) \<Rightarrow>
                                 (case modified m of
                                    Inl e \<Rightarrow> (Inl e, C)
                                  | Inr mtime \<Rightarrow>
                                      store_state K v
                                        \<lparr>file_path = path, last_position = end_offset p, last_modified_time = mtime,
                                         last_file_size = end_offset p, last_processed_at = stored_at v,
                                         dev = meta_dev m, ino = meta_ino m\<rparr> (range_plans p) C))))))"

section \<open>Cycles\<close>

record Cycle =
  glob :: "string \<Rightarrow> string option list option"
  is_file :: "string \<Rightarrow> bool"
  views :: "nat \<Rightarrow> FileView"
  cycle_end :: int
  memory :: "int option"
  elapsed :: f64

definition expand_log_paths :: "Cycle \<Rightarrow> ('v, 'm) LogCollector \<Rightarrow> (string \<times> string) list" where
  "expand_log_paths y C =
     concat (map (\<lambda>pattern. case glob y pattern of
         None \<Rightarrow> []
       | Some found \<Rightarrow> map (\<lambda>p. (p, pattern)) (filter (is_file y) (List.map_filter id found)))
       (log_paths (log_parsing (config C))))"

fun process_files ::
  "(FileView \<Rightarrow> string \<Rightarrow> string \<Rightarrow> ('v, 'm) LogCollector \<Rightarrow> (io_error + nat) \<times> ('v, 'm) LogCollector) \<Rightarrow>
     (nat \<Rightarrow> FileView) \<Rightarrow> nat \<Rightarrow> (string \<times> string) list \<Rightarrow> ('v, 'm) LogCollector \<Rightarrow> nat \<times> ('v, 'm) LogCollector" where
  "process_files process vs i [] C = (0, C)"
| "process_files process vs i ((path, pattern) # paths) C =
     (case process (vs i) path pattern C of
        (Inl e, C) \<Rightarrow>
          (let (errors, C) = process_files process vs (i + 1) paths
                 (C\<lparr>events := events C @ [Parse_Error pattern ''file_error'']\<rparr>)
           in (errors + 1, C))
      | (Inr n, C) \<Rightarrow>
          process_files process vs (i + 1) paths
            (if 0 < n then C\<lparr>events := events C @ [Logs_Parsed pattern n]\<rparr> else C))"

definition finish_cycle :: "Cycle \<Rightarrow> string \<Rightarrow> nat \<Rightarrow> ('v, 'm) LogCollector \<Rightarrow> ('v, 'm) LogCollector" where
  "finish_cycle y operation errors C =
     (let C = (if errors = 0 then
                 C\<lparr>events := events C @ [Last_Successful_Parse (cycle_end y)],
                   health := map_option (\<lambda>_. cycle_end y) (health C)\<rparr>
               else C)
      in C\<lparr>events := events C @ [Exporter_Up (if errors = 0 then 1 else 0)] @
            (case memory y of Some b \<Rightarrow> [Memory_Usage b] | None \<Rightarrow> []) @ [Export_Duration operation (elapsed y)]\<rparr>)"

definition collect_metrics :: "('v, 'm) Linked \<Rightarrow> Cycle \<Rightarrow> ('v, 'm) LogCollector \<Rightarrow> ('v, 'm) LogCollector" where
  "collect_metrics K y C =
     (let paths = expand_log_paths y C;
          C = C\<lparr>file_runtime := filter (\<lambda>e. fst e \<in> set (map fst paths)) (file_runtime C)\<rparr>;
          (errors, C) = process_files (process_log_file K) (views y) 0 paths C
      in finish_cycle y ''collect'' errors C)"

definition collect_remaining_metrics :: "('v, 'm) Linked \<Rightarrow> Cycle \<Rightarrow> ('v, 'm) LogCollector \<Rightarrow> ('v, 'm) LogCollector" where
  "collect_remaining_metrics K y C =
     (let (errors, C) = process_files (process_remaining_content K) (views y) 0 (expand_log_paths y C) C
      in finish_cycle y ''collect_remaining'' errors C)"

end
