(* ===== verification/Collector_Runs.thy ===== *)
theory Collector_Runs
  imports Collector Cuts
begin

text \<open>
  Runs of the collector on a log that grows: what one cycle reads, groups, emits and stores, and what
  holds after any number of cycles.
\<close>

section \<open>What the metrics count\<close>

definition is_execution :: "MetricEvent \<Rightarrow> bool" where
  "is_execution e = (case e of Query_Execution _ _ \<Rightarrow> True | _ \<Rightarrow> False)"

definition exported_executions :: "MetricEvent list \<Rightarrow> nat" where
  "exported_executions es = length (filter is_execution es)"

lemma exported_simps [simp]:
  "exported_executions [] = 0"
  "exported_executions (e # es) = (if is_execution e then 1 else 0) + exported_executions es"
  "exported_executions (es @ fs) = exported_executions es + exported_executions fs"
  by (simp_all add: exported_executions_def)

lemma is_execution_simps [simp]:
  "is_execution (Query_Execution a b)"
  "\<not> is_execution (First_Seen a b x)" "\<not> is_execution (Last_Seen a b x)" "\<not> is_execution (Query_Duration a b x)"
  "\<not> is_execution (Slow_Queries a b n)" "\<not> is_execution (Plan_Cost a b x)" "\<not> is_execution (Scan_Type a b)"
  "\<not> is_execution (Join_Type a b)" "\<not> is_execution (Latency_Cv a b x)" "\<not> is_execution (Time_Share a b x)"
  "\<not> is_execution (Latency_P95 a b x)" "\<not> is_execution (Latency_P99 a b x)" "\<not> is_execution (Logs_Parsed a n)"
  "\<not> is_execution (Parse_Error a b)" "\<not> is_execution (Exporter_Up i)" "\<not> is_execution (Memory_Usage i)"
  "\<not> is_execution (Last_Successful_Parse i)" "\<not> is_execution (Export_Duration a x)"
  by (simp_all add: is_execution_def)

lemma no_node_executions [simp]: "exported_executions (count_node_metrics n db) = 0"
proof (induction n db rule: count_node_metrics.induct)
  case (1 t c a ns ps original db)
  have "exported_executions (concat (map (\<lambda>n. count_node_metrics n db) ms)) = 0" if "set ms \<subseteq> set ns" for ms
    using that 1 by (induction ms) simp_all
  then show ?case by (simp split: NodeType.split)
qed

lemma no_slow_executions [simp]: "exported_executions (slow_events ts db es) = 0"
  unfolding slow_events_def by (induction ts) (auto simp: Let_def)

lemma query_executions:
  "exported_executions (update_query_metrics ts key pq total_ms seen) = length (qs_executions (statistics pq))"
proof -
  have "exported_executions (concat (map (\<lambda>e. [Query_Duration h db (f e), Query_Execution h db]) es)) = length es"
    for h db f and es :: "ExecutionRecord list"
    by (induction es) simp_all
  then show ?thesis by (simp add: update_query_metrics_def split_beta Let_def)
qed

lemma finish_cycle_simps [simp]:
  "exported_executions (events (finish_cycle y op n C)) = exported_executions (events C)"
  "state_store (finish_cycle y op n C) = state_store C" "log_parser (finish_cycle y op n C) = log_parser C"
  "grouper (finish_cycle y op n C) = grouper C" "config (finish_cycle y op n C) = config C"
  by (simp_all add: finish_cycle_def Let_def split: option.split)

section \<open>Grouping a text\<close>

definition idle_grouper :: "Normalizer \<Rightarrow> string set \<Rightarrow> QueryGrouper \<Rightarrow> bool" where
  "idle_grouper N Q g \<longleftrightarrow> grouper_ok N Q g [] \<and> date_filter g = None \<and> max_plans g = 0"

lemma idle_new: "idle_grouper N Q (set_max_plans new_grouper 0)" "idle_grouper N Q (with_max_plans new_grouper 0)"
proof -
  have "set_max_plans new_grouper 0 = new_grouper" "with_max_plans new_grouper 0 = new_grouper"
    by (simp_all add: set_max_plans_def with_max_plans_def new_grouper_def)
  then show "idle_grouper N Q (set_max_plans new_grouper 0)" "idle_grouper N Q (with_max_plans new_grouper 0)"
    using grouper_ok_new [of N Q] by (simp_all add: idle_grouper_def, simp_all add: new_grouper_def)
qed

lemma idle_taken: "grouper_ok N Q g ps \<Longrightarrow> date_filter g = None \<Longrightarrow> max_plans g = 0 \<Longrightarrow> idle_grouper N Q (snd (take_groups g))"
  by (simp add: idle_grouper_def take_groups_def grouper_ok_def grouped_as_def known_def)

lemma idle_again: "idle_grouper N Q g \<Longrightarrow> idle_grouper N Q (snd (take_groups g))"
  using idle_taken [of N Q g "[]"] by (simp only: idle_grouper_def simp_thms)

text \<open>Groups that account for a number of executions.\<close>

definition accounted :: "(string \<times> ProcessedQuery) list \<Rightarrow> nat \<Rightarrow> bool" where
  "accounted gs n \<longleftrightarrow> list_all (\<lambda>e. counted (snd e)) gs \<and> (\<Sum>e\<leftarrow>gs. length (qs_executions (statistics (snd e)))) = n"

lemma group_text:
  assumes inj: "inj_on (query_hash N) Q" and g: "idle_grouper N Q g" and parse: "parse_string_with_progress P s = Inr ps"
    and ps: "query_text ` set ps \<subseteq> Q" "int (length ps) \<le> 2 ^ 53"
  shows "\<exists>g1 calls gs g2. parse_into_grouper P N (cursor s) (int (length s)) g = Inr (g1, calls) \<and>
    take_groups g1 = (Some gs, g2) \<and> idle_grouper N Q g2 \<and> accounted gs (length ps) \<and> folded g1 = length ps"
proof -
  have "\<not> broken (cursor s)" by (simp add: cursor_def)
  from parse_into_grouper_plans [OF parse [unfolded parse_string_with_progress_def] this, of N g] obtain g1 calls where
    g1: "parse_into_grouper P N (cursor s) (int (length s)) g = Inr (g1, calls)"
      "grouper_contents g1 = grouper_contents (fold_plans N g ps)" by blast
  have c: "date_filter g = None" "max_plans g = 0" "grouper_ok N Q g []" using g by (simp_all add: idle_grouper_def)
  have "admitted None 0 ps = ps" by (simp add: admitted_def in_window_def)
  then have "grouper_ok N Q (fold_plans N g ps) ps" using fold_plans_ok [OF inj c(3) ps(1)] c by simp
  then have ok: "grouper_ok N Q g1 ps" using grouper_ok_contents [OF g1(2)] by blast
  have "date_filter (grouper_contents h) = date_filter h" "max_plans (grouper_contents h) = max_plans h" for h
    by (simp_all add: grouper_contents_def)
  then have "date_filter g1 = None" "max_plans g1 = 0"
    using g1(2) fold_plans_config [of N g ps] c by metis+
  note idle = idle_taken [OF ok this]
  from finished_groups [OF ok ps(2)] obtain gs where gs: "finish_grouper g1 = Some gs"
    "list_all (\<lambda>e. counted (snd e)) gs" "(\<Sum>e\<leftarrow>gs. length (qs_executions (statistics (snd e)))) = length ps"
    by (elim exE conjE)
  have "take_groups g1 = (Some gs, snd (take_groups g1))" using gs(1) by (simp add: finish_grouper_def prod_eq_iff)
  moreover have "accounted gs (length ps)" unfolding accounted_def by (rule conjI [OF gs(2,3)])
  moreover have "folded g1 = length ps" using ok by (simp add: grouper_ok_def)
  ultimately show ?thesis using g1(1) idle by blast
qed

section \<open>One range\<close>

definition entry_boundary :: "string \<Rightarrow> nat" where
  "entry_boundary w = (case last_entry_boundary lane_simd w of Some b \<Rightarrow> b | None \<Rightarrow> 0)"

lemmas entry_boundary_cut = exporter.window_cut [folded entry_boundary_def]
lemmas entry_boundary_inside = exporter.cut_inside [folded entry_boundary_def]

text \<open>A log the exporter can follow: plain text, its lines within the caps and seen alike by the scan and the
  parser, its queries told apart by their hash; the clock stays within the times \<open>T\<close> that print.\<close>

definition followable :: "(nat \<Rightarrow> u8, nat \<Rightarrow> bool) Linked \<Rightarrow> int set \<Rightarrow> string \<Rightarrow> bool" where
  "followable K T f \<longleftrightarrow>
     simd (log_env K) = lane_simd \<and> readable_text (default_parser (log_env K)) (is_timestamped_line lane_simd) f \<and>
     inj_on (query_hash (normalizer K)) (query_text ` set (text_plans (log_env K) f)) \<and>
     int (length (text_plans (log_env K) f)) \<le> 2 ^ 53 \<and> int (length f) < 2 ^ 63 \<and>
     sniff (cursor f) = Plain \<and> rfc3339_ok (rfc3339 K) T"

abbreviation stamped_cut :: "string \<Rightarrow> nat \<Rightarrow> bool" where
  "stamped_cut \<equiv> entry_cut (is_timestamped_line lane_simd)"

abbreviation hashed_queries :: "('v, 'm) Linked \<Rightarrow> string \<Rightarrow> string set" where
  "hashed_queries K f \<equiv> query_text ` set (text_plans (log_env K) f)"

lemma default_parser_env [simp]: "env (default_parser E) = E"
  by (simp add: default_parser_def)

lemma plain_prefix:
  assumes "sniff (cursor f) = Plain" and "starts_with f (pending r)"
  shows "sniff r = Plain"
proof -
  obtain t where f: "f = pending r @ t" using assms(2) by (auto simp: starts_with_iff)
  show ?thesis
  proof (cases "length (pending r) < 3")
    case False
    then have "take 2 f = take 2 (pending r)" "take 3 f = take 3 (pending r)" "\<not> length f < 3" by (simp_all add: f)
    then show ?thesis using assms(1) by (auto simp: sniff_def cursor_def split: if_splits)
  qed (simp add: sniff_def)
qed

text \<open>A range of the log that ends at a cut.\<close>

lemma range_groups:
  assumes X: "followable K T f" and g: "idle_grouper (normalizer K) (hashed_queries K f) g"
    and p: "stamped_cut f p" "stamped_cut f q" "p \<le> q" "q \<le> length f"
  shows "\<exists>g1 calls gs g2. parse_into_grouper (default_parser (log_env K)) (normalizer K) (cursor (slice f p q))
      (int (length (slice f p q))) g = Inr (g1, calls) \<and>
    take_groups g1 = (Some gs, g2) \<and> idle_grouper (normalizer K) (hashed_queries K f) g2 \<and>
    accounted gs (length (text_plans (log_env K) (slice f p q)))"
proof -
  let ?P = "default_parser (log_env K)"
  have X': "readable_text ?P (is_timestamped_line lane_simd) f"
    "inj_on (query_hash (normalizer K)) (hashed_queries K f)" "int (length (text_plans (log_env K) f)) \<le> 2 ^ 53"
    using X unfolding followable_def by blast+
  note sub = text_between_subset [OF X'(1) p, unfolded default_parser_env]
  note parse = text_between(2) [OF X'(1) p, unfolded default_parser_env]
  have "hashed_queries K (slice f p q) \<subseteq> hashed_queries K f" using sub(1) by (rule image_mono)
  moreover have "int (length (text_plans (log_env K) (slice f p q))) \<le> 2 ^ 53" using sub(2) X'(3) by linarith
  ultimately show ?thesis using group_text [OF X'(2) g parse] by blast
qed

lemma file_range:
  assumes "sees f path n fs" and "a \<le> b" and "b \<le> n" and "open_file fs path = Inr h"
  shows "read_file_range fs path (int a) (int b) = Inr (slice (pending (data h)) a b)"
proof -
  have "n \<le> length (pending (data h))" using assms(1,4) by (simp add: sees_def)
  then have "int (length (pending (seek_reader (int a) (data h)))) \<ge> int b - int a"
    using assms(2,3) by (simp add: seek_reader_def)
  moreover have "nat (int b - int a) = b - a" by simp
  ultimately show ?thesis
    using assms(2,4) by (simp add: read_file_range_def read_all_def sat_sub64_def take_int_def seek_reader_def slice_def)
qed

text \<open>What the blocking task returns. A range that is not held back must end at a cut.\<close>

definition range_outcome ::
  "(nat \<Rightarrow> u8, nat \<Rightarrow> bool) Linked \<Rightarrow> FileView \<Rightarrow> string \<Rightarrow> string \<Rightarrow> nat \<Rightarrow> nat \<Rightarrow>
     (io_error \<times> QueryGrouper, ParsedRange option \<times> QueryGrouper) outcome \<Rightarrow> bool" where
  "range_outcome K v path f p e x \<longleftrightarrow>
     (case x of
        Panicked \<Rightarrow> panics v
      | Failed (err, g) \<Rightarrow> isl (open_file (files v) path) \<and> idle_grouper (normalizer K) (hashed_queries K f) g
      | Done (None, g) \<Rightarrow> idle_grouper (normalizer K) (hashed_queries K f) g \<and> entry_boundary (slice f p e) = 0
      | Done (Some r, g) \<Rightarrow> idle_grouper (normalizer K) (hashed_queries K f) g \<and>
          (\<exists>q. p < q \<and> q \<le> e \<and> stamped_cut f q \<and> end_offset r = int q \<and>
             accounted (processed_queries r) (length (text_plans (log_env K) (slice f p q)))))"

lemma parse_range_outcome:
  assumes X: "followable K T f" and g: "idle_grouper (normalizer K) (hashed_queries K f) g"
    and s: "sees f path n (files v)" and p: "stamped_cut f p" "p < e" "e \<le> n" "n \<le> length f"
    and flush: "hold_back \<or> stamped_cut f e"
  shows "range_outcome K v path f p e (parse_range K v (default_parser (log_env K)) g path (int p) (int e) hold_back)"
proof (cases "open_file (files v) path")
  case (Inl err)
  have t: "take_groups g = (Some [], g\<lparr>folded := 0, truncated := False, last_fingerprint := None, groups := []\<rparr>)"
  proof -
    have "groups g = []"
      using g by (auto simp: idle_grouper_def grouper_ok_def grouped_as_def) (metis list.set_intros(1) map_of_eq_None_iff
          image_eqI list.exhaust option.distinct(1) group_of_Nil ex_in_conv image_is_empty set_empty)
    then show ?thesis by (simp add: take_groups_def finalize_groups_def)
  qed
  have "idle_grouper (normalizer K) (hashed_queries K f) (snd (take_groups g))"
    by (rule idle_again [OF g])
  moreover have "\<exists>err. fill_grouper K v (default_parser (log_env K)) g path (int p) (int e) hold_back = Inl (err, g)"
    using Inl by (simp add: fill_grouper_def read_file_range_def parse_file_range_into_grouper_def create_reader_with_range_def)
  ultimately show ?thesis
    using t Inl by (auto simp: range_outcome_def parse_range_def)
next
  case (Inr h)
  let ?P = "default_parser (log_env K)" and ?s = "pending (data h)"
  have h: "starts_with f ?s" "n \<le> length ?s" "file_size h = int (length ?s)" using s Inr by (simp_all add: sees_def)
  obtain r where f: "f = ?s @ r" using h(1) by (auto simp: starts_with_iff)
  have same: "slice ?s p q = slice f p q" if "q \<le> e" for q
  proof -
    have "slice (?s @ r) p q = slice ?s p q" using that p(3) h(2) by (simp add: slice_def)
    then show ?thesis by (simp only: f [symmetric])
  qed
  show ?thesis
  proof (cases hold_back)
    case True
    let ?w = "slice ?s p e"
    let ?b = "entry_boundary ?w"
    have rd: "read_file_range (files v) path (int p) (int e) = Inr ?w"
      using file_range [OF s _ p(3) Inr] p(2) by simp
    have S: "simd (log_env K) = lane_simd" using X by (simp add: followable_def)
    show ?thesis
    proof (cases "?b = 0")
      case True
      then have "fill_grouper K v ?P g path (int p) (int e) hold_back = Inr (None, g)"
        using rd S \<open>hold_back\<close> by (auto simp: fill_grouper_def entry_boundary_def split: option.splits)
      then show ?thesis using g True same [of e] by (simp add: range_outcome_def parse_range_def)
    next
      case False
      then have b: "0 < ?b" by simp
      have e: "e \<le> length ?s" using p(3) h(2) by simp
      note cut = entry_boundary_cut [OF h(1) e b]
      have "length ?w \<le> e - p" by (simp add: slice_def)
      then have le: "p + ?b \<le> e" using entry_boundary_inside [OF b] p(2) by linarith
      obtain b0 where b0: "last_entry_boundary lane_simd ?w = Some b0" "?b = b0"
        using False by (auto simp: entry_boundary_def split: option.splits)
      from range_groups [OF X g p(1) cut(1) le_add1 less_imp_le [OF cut(2)]] obtain g1 calls gs g2 where
        x: "parse_into_grouper ?P (normalizer K) (cursor (slice f p (p + ?b))) (int (length (slice f p (p + ?b)))) g = Inr (g1, calls)"
          "take_groups g1 = (Some gs, g2)" "idle_grouper (normalizer K) (hashed_queries K f) g2"
          "accounted gs (length (text_plans (log_env K) (slice f p (p + ?b))))" by blast
      have len: "int (length (slice f p (p + ?b))) = int ?b" using cut(2) by (simp add: slice_def)
      have "fill_grouper K v ?P g path (int p) (int e) hold_back = Inr (Some (int (p + ?b)), g1)"
        using rd S \<open>hold_back\<close> x(1) [unfolded len, unfolded cut(3)] b0 False by (simp add: fill_grouper_def)
      then show ?thesis
        using x(2-4) b cut(1) le by (auto simp: range_outcome_def parse_range_def intro!: exI [of _ "p + ?b"])
    qed
  next
    case False
    have e: "stamped_cut f e" "e \<le> length ?s" "e \<le> length f" using flush False p(3,4) h(2) by simp_all
    have pl: "sniff (data h) = Plain" using plain_prefix [OF _ h(1)] X by (simp add: followable_def)
    have "create_reader_with_range (files v) path (int p) (Some (int e)) =
        Inr (cursor (slice ?s (nat (int p)) (nat (int e))), int e - int p)"
      using p(2) e(2) h(3) pl by (intro range_bytes [OF Inr h(3)]) simp_all
    then have r: "create_reader_with_range (files v) path (int p) (Some (int e)) = Inr (cursor (slice f p e), int e - int p)"
      using same [of e] by simp
    have len: "int (length (slice f p e)) = int e - int p" using p(2) e(3) by (simp add: slice_def)
    from range_groups [OF X g p(1) e(1) less_imp_le [OF p(2)] e(3)] obtain g1 calls gs g2 where
      x: "parse_into_grouper ?P (normalizer K) (cursor (slice f p e)) (int (length (slice f p e))) g = Inr (g1, calls)"
        "take_groups g1 = (Some gs, g2)" "idle_grouper (normalizer K) (hashed_queries K f) g2"
        "accounted gs (length (text_plans (log_env K) (slice f p e)))" by blast
    have "fill_grouper K v ?P g path (int p) (int e) hold_back = Inr (Some (int e), g1)"
      using False r x(1) unfolding len by (simp add: fill_grouper_def parse_file_range_into_grouper_def)
    then show ?thesis using x(2-4) p(2) e(1) by (auto simp: range_outcome_def parse_range_def)
  qed
qed

section \<open>One cycle\<close>

lemma emit_accounts:
  assumes "filters (config C) = None" and R: "rfc3339_ok (rfc3339 K) T" and now: "seen_at v \<in> T"
    and D: "first_printed (rfc3339 K) T (query_hashes (state_store C))" and gs: "accounted gs m"
  shows "(\<exists>e. emit_query_metrics K v gs C = (Inl e, C)) \<or>
    (\<exists>table evs. emit_query_metrics K v gs C =
        (Inr (), C\<lparr>state_store := (state_store C)\<lparr>query_hashes := table\<rparr>, events := events C @ evs\<rparr>) \<and>
      first_printed (rfc3339 K) T table \<and> exported_executions evs = m)"
proof -
  have inc: "filter (should_include_query C) (map snd gs) = map snd gs"
    using assms(1) by (simp add: should_include_query_def)
  have m: "(\<Sum>q\<leftarrow>map snd gs. length (qs_executions (statistics q))) = m"
    using gs by (simp add: accounted_def comp_def)
  have count: "exported_executions (concat (map (\<lambda>q. update_query_metrics ts (key q) q t (seen q)) qs)) =
      (\<Sum>q\<leftarrow>qs. length (qs_executions (statistics q)))" for ts key t seen qs
    by (induction qs) (simp_all add: query_executions)
  consider "map snd gs = []" | "map snd gs \<noteq> []" "record_fails v" | "map snd gs \<noteq> []" "\<not> record_fails v" by blast
  then show ?thesis
  proof cases
    case 1
    then have "emit_query_metrics K v gs C = (Inr (), C)" by (simp add: emit_query_metrics_def)
    moreover have "C = C\<lparr>state_store := (state_store C)\<lparr>query_hashes := query_hashes (state_store C)\<rparr>, events := events C @ []\<rparr>"
      by simp
    ultimately show ?thesis using D m 1 by (metis exported_simps(1) list.map(1) sum_list.Nil)
  next
    case 2
    then show ?thesis unfolding emit_query_metrics_def inc Let_def by simp
  next
    case 3
    let ?es = "map (\<lambda>q. (query_key (normalizer K) q, normalized_query (representative_plan q))) (map snd gs)"
    from record_entries_sightings [OF R now D, of ?es "[]"] obtain seen table where
      r: "record_entries (rfc3339 K) (to_rfc3339 (rfc3339 K) (seen_at v)) ?es (query_hashes (state_store C)) [] = Inr (seen, table)"
        "first_printed (rfc3339 K) T table" by blast
    then have rec: "record_query_hashes (rfc3339 K) (seen_at v) (state_store C) ?es =
        (Inr seen, (state_store C)\<lparr>query_hashes := table\<rparr>)"
      using 3(1) by (simp add: record_query_hashes_def)
    let ?evs = "concat (map (\<lambda>q. update_query_metrics (slow_thresholds C) (query_key (normalizer K) q) q
        (foldl f_add f_zero (map (\<lambda>q. st_total (qs_duration (statistics q))) (map snd gs)))
        (case map_of seen (query_key (normalizer K) q) of Some t \<Rightarrow> t | None \<Rightarrow> (seen_at v, seen_at v))) (map snd gs))"
    have e: "emit_query_metrics K v gs C =
        (Inr (), C\<lparr>state_store := (state_store C)\<lparr>query_hashes := table\<rparr>, events := events C @ ?evs\<rparr>)"
      using 3 by (simp only: emit_query_metrics_def inc Let_def rec if_False prod.case sum.case)
    have "exported_executions ?evs = m" by (simp only: count m)
    then show ?thesis using e r(2) by blast
  qed
qed

lemma emit_succeeds:
  assumes "rfc3339_ok (rfc3339 K) T" and "seen_at v \<in> T" and "first_printed (rfc3339 K) T (query_hashes (state_store C))"
    and "\<not> record_fails v"
  shows "fst (emit_query_metrics K v gs C) = Inr ()"
proof -
  let ?es = "map (\<lambda>q. (query_key (normalizer K) q, normalized_query (representative_plan q)))
      (filter (should_include_query C) (map snd gs))"
  obtain seen D where rec: "record_query_hashes (rfc3339 K) (seen_at v) (state_store C) ?es = (Inr seen, D)"
  proof (cases "?es = []")
    case True
    then show ?thesis using that unfolding record_query_hashes_def by simp
  next
    case False
    from record_entries_sightings [OF assms(1-3), of ?es "[]"] obtain seen table where
      "record_entries (rfc3339 K) (to_rfc3339 (rfc3339 K) (seen_at v)) ?es (query_hashes (state_store C)) [] = Inr (seen, table)"
      by blast
    then show ?thesis using that False unfolding record_query_hashes_def by (simp only: if_False sum.case prod.case)
  qed
  show ?thesis
    unfolding emit_query_metrics_def Let_def rec using assms(4) by simp
qed

text \<open>The checkpoint of the log: none yet, or one with its identity.\<close>

definition checkpoint_at :: "Rfc3339 \<Rightarrow> Database \<Rightarrow> string \<Rightarrow> int option \<times> int option \<Rightarrow> nat \<Rightarrow> nat \<Rightarrow> bool" where
  "checkpoint_at R D path ident n p \<longleftrightarrow>
     (case get_file_state R D path of
        Inl _ \<Rightarrow> False
      | Inr None \<Rightarrow> p = 0
      | Inr (Some s) \<Rightarrow> last_position s = int p \<and> last_file_size s \<le> int n \<and> file_path s = path \<and>
          dev s = fst ident \<and> ino s = snd ident)"

text \<open>The collector has exported the log up to \<open>p\<close>.\<close>

definition tracks ::
  "(nat \<Rightarrow> u8, nat \<Rightarrow> bool) Linked \<Rightarrow> int set \<Rightarrow> string \<Rightarrow> int option \<times> int option \<Rightarrow> string \<Rightarrow> nat \<Rightarrow> nat \<Rightarrow>
     (nat \<Rightarrow> u8, nat \<Rightarrow> bool) LogCollector \<Rightarrow> bool" where
  "tracks K T path ident f n p C \<longleftrightarrow>
     p \<le> n \<and> n \<le> length f \<and> stamped_cut f p \<and> checkpoint_at (rfc3339 K) (state_store C) path ident n p \<and>
     exported_executions (events C) = length (text_plans (log_env K) (take p f)) \<and>
     first_printed (rfc3339 K) T (query_hashes (state_store C)) \<and>
     log_parser C = default_parser (log_env K) \<and>
     idle_grouper (normalizer K) (hashed_queries K f) (grouper C) \<and>
     filters (config C) = None \<and> max_queries_per_file (log_parsing (config C)) = 0 \<and>
     0 \<le> max_read_bytes_per_cycle (log_parsing (config C))"

lemma tracks_simps [simp]:
  "tracks K T path ident f n p (set_runtime C q r) = tracks K T path ident f n p C"
  "tracks K T path ident f n p (C\<lparr>file_runtime := rs\<rparr>) = tracks K T path ident f n p C"
  "tracks K T path ident f n p (finish_cycle y op k C) = tracks K T path ident f n p C"
  by (simp_all add: tracks_def set_runtime_def)

lemma tracks_event:
  "\<not> is_execution e \<Longrightarrow> tracks K T path ident f n p (C\<lparr>events := events C @ [e]\<rparr>) = tracks K T path ident f n p C"
  by (simp add: tracks_def)

lemma tracks_grows: "tracks K T path ident f n p C \<Longrightarrow> n \<le> n' \<Longrightarrow> n' \<le> length f \<Longrightarrow> tracks K T path ident f n' p C"
  unfolding tracks_def checkpoint_at_def by (auto split: sum.splits option.splits)

text \<open>A view of the log when it has grown to \<open>n'\<close>: still the same file, the checkpoint can be written, a
  writer silent for two cycles is not in the middle of an entry, and reading does not fail three times in
  a row.\<close>

definition steady_view ::
  "int set \<Rightarrow> string \<Rightarrow> int option \<times> int option \<Rightarrow> string \<Rightarrow> nat \<Rightarrow> nat \<Rightarrow> FileView \<Rightarrow> ('v, 'm) LogCollector \<Rightarrow> bool" where
  "steady_view T path ident f n n' v C \<longleftrightarrow>
     n \<le> n' \<and> n' \<le> length f \<and> sees f path n' (files v) \<and> sees f path 0 (probe v) \<and>
     \<not> update_fails v \<and> seen_at v \<in> T \<and> stored_at v \<in> T \<and>
     (case metadata v of
        Inl _ \<Rightarrow> True
      | Inr m \<Rightarrow> meta_size m = int n' \<and> meta_dev m = fst ident \<and> meta_ino m = snd ident \<and>
          (case modified m of
             Inl _ \<Rightarrow> True
           | Inr t \<Rightarrow> unchanged_cycles (observe_file t (int n') (runtime_of C path)) < QUIESCENT_CYCLES \<or> stamped_cut f n')) \<and>
     (\<not> panics v \<and> \<not> isl (open_file (files v) path) \<or> parse_failures (runtime_of C path) + 1 < MAX_PARSE_FAILURES)"

definition ident_fits :: "int option \<times> int option \<Rightarrow> bool" where
  "ident_fits ident \<longleftrightarrow> (case fst ident of None \<Rightarrow> True | Some d \<Rightarrow> is_u64 d) \<and> (case snd ident of None \<Rightarrow> True | Some i \<Rightarrow> is_u64 i)"

text \<open>Storing the checkpoint of a parsed range.\<close>

lemma stored_tracks:
  assumes X: "followable K T f" and C: "tracks K T path ident f n p C"
    and q: "p \<le> q" "q \<le> n" "stamped_cut f q" and gs: "accounted gs (length (text_plans (log_env K) (slice f p q)))"
    and now: "seen_at v \<in> T" "stored_at v \<in> T" and ident: "ident_fits ident"
    and s: "file_path s = path" "last_position s = int q" "last_file_size s = int n" "last_processed_at s = stored_at v"
      "dev s = fst ident" "ino s = snd ident"
    and emit: "emit_query_metrics K v gs C = (Inr (), C1)"
  shows "tracks K T path ident f n q (C1\<lparr>state_store := update_file_state (rfc3339 K) (state_store C1) s\<rparr>)"
proof -
  let ?P = "default_parser (log_env K)"
  have C': "stamped_cut f p" "n \<le> length f" "filters (config C) = None" "first_printed (rfc3339 K) T (query_hashes (state_store C))"
    using C by (simp_all add: tracks_def)
  have X': "readable_text ?P (is_timestamped_line lane_simd) f" "rfc3339_ok (rfc3339 K) T" "int (length f) < 2 ^ 63"
    using X unfolding followable_def by blast+
  have fit: "state_fits s"
    using q(2) C'(2) X'(3) ident s by (simp add: state_fits_def is_u64_def ident_fits_def)
  have "last_processed_at s \<in> T" using s(4) now(2) by simp
  note stored = get_update [OF X'(2) this fit]
  from emit_accounts [OF C'(3) X'(2) now(1) C'(4) gs] emit obtain table evs where
    e: "C1 = C\<lparr>state_store := (state_store C)\<lparr>query_hashes := table\<rparr>, events := events C @ evs\<rparr>"
      "first_printed (rfc3339 K) T table" "exported_executions evs = length (text_plans (log_env K) (slice f p q))"
    by auto
  have q_le: "q \<le> length f" using q(2) C'(2) by simp
  have "text_plans (log_env K) (take q f) = text_plans (log_env K) (take p f) @ text_plans (log_env K) (slice f p q)"
    using text_between(1) [OF X'(1) C'(1) q(3,1) q_le] by simp
  then have count: "exported_executions (events C1) = length (text_plans (log_env K) (take q f))"
    using C e(1,3) by (simp add: tracks_def)
  have "checkpoint_at (rfc3339 K) (update_file_state (rfc3339 K) (state_store C1) s) path ident n q"
    using stored [of "state_store C1"] s by (simp add: checkpoint_at_def)
  moreover have "query_hashes (update_file_state (rfc3339 K) D s) = query_hashes D" for D by (simp add: update_file_state_def)
  ultimately show ?thesis
    using C q e(1,2) count by (simp add: tracks_def)
qed

lemma tracks_grouper:
  "tracks K T path ident f n p C \<Longrightarrow> idle_grouper (normalizer K) (hashed_queries K f) g \<Longrightarrow>
     tracks K T path ident f n p (C\<lparr>grouper := g\<rparr>)"
  by (simp add: tracks_def)

lemma parse_blocking_tracks:
  assumes X: "followable K T f" and C: "tracks K T path ident f n p C"
    and s: "sees f path n (files v)" and e: "p < e" "e \<le> n" and flush: "hold_back \<or> stamped_cut f e"
  shows "\<exists>x C'. parse_range_blocking K v path (int p) (int e) hold_back C = (x, C') \<and> tracks K T path ident f n p C' \<and>
    file_runtime C' = file_runtime C \<and>
    (case x of
       Inl _ \<Rightarrow> panics v \<or> isl (open_file (files v) path)
     | Inr None \<Rightarrow> entry_boundary (slice f p e) = 0
     | Inr (Some r) \<Rightarrow> \<exists>q. p < q \<and> q \<le> e \<and> stamped_cut f q \<and> end_offset r = int q \<and>
         accounted (processed_queries r) (length (text_plans (log_env K) (slice f p q))))"
proof -
  have C': "stamped_cut f p" "n \<le> length f" "log_parser C = default_parser (log_env K)"
    "idle_grouper (normalizer K) (hashed_queries K f) (grouper C)" "max_queries_per_file (log_parsing (config C)) = 0"
    using C by (simp_all add: tracks_def)
  let ?r = "parse_range K v (log_parser C) (grouper C) path (int p) (int e) hold_back"
  have o: "range_outcome K v path f p e ?r"
    unfolding C'(3) by (rule parse_range_outcome [OF X C'(4) s C'(1) e C'(2) flush])
  have fresh: "tracks K T path ident f n p (C\<lparr>log_parser := default_parser (log_env K),
      grouper := set_max_plans new_grouper (max_queries_per_file (log_parsing (config C)))\<rparr>)"
    using C idle_new(1) C'(5) by (simp add: tracks_def)
  show ?thesis
  proof (cases ?r)
    case (Done x)
    obtain y g where x: "x = (y, g)" by (cases x)
    then show ?thesis
      using o Done tracks_grouper [OF C] by (cases y) (auto simp: range_outcome_def parse_range_blocking_def)
  next
    case (Failed x)
    then show ?thesis
      using o tracks_grouper [OF C] by (cases x) (auto simp: range_outcome_def parse_range_blocking_def)
  next
    case Panicked
    then show ?thesis using o fresh by (auto simp: range_outcome_def parse_range_blocking_def)
  qed
qed

lemma runtime_of_set [simp]: "runtime_of (set_runtime C path r) path = r"
  by (simp add: runtime_of_def set_runtime_def update_conv')

text \<open>How far a cycle reads, and what keeps it from moving on.\<close>

definition window_end :: "('v, 'm) LogCollector \<Rightarrow> string \<Rightarrow> nat \<Rightarrow> nat \<Rightarrow> nat" where
  "window_end C path n p =
     (let budget = effective_read_budget C path
      in if budget = 0 then n else nat (min (int n) (sat_add64 (int p) budget)))"

definition view_works :: "string \<Rightarrow> FileView \<Rightarrow> bool" where
  "view_works path v \<longleftrightarrow> \<not> panics v \<and> \<not> isl (open_file (files v) path) \<and> \<not> record_fails v \<and> \<not> get_fails v \<and>
     (case metadata v of Inl _ \<Rightarrow> False | Inr m \<Rightarrow> \<not> isl (modified m))"

definition stalled :: "string \<Rightarrow> string \<Rightarrow> nat \<Rightarrow> nat \<Rightarrow> ('v, 'm) LogCollector \<Rightarrow> ('v, 'm) LogCollector \<Rightarrow> bool" where
  "stalled path f n p C C' \<longleftrightarrow>
     entry_boundary (slice f p (window_end C path n p)) = 0 \<and>
     budget_stalls (runtime_of C' path) =
       (if window_end C path n p < n then count_up (budget_stalls (runtime_of C path)) else 0)"

lemma window_end_bounds:
  assumes "0 \<le> max_read_bytes_per_cycle (log_parsing (config C))" and "p < n" and "int n < 2 ^ 63"
  shows "p < window_end C path n p" and "window_end C path n p \<le> n"
    and "int (window_end C path n p) = (let budget = effective_read_budget C path
      in if budget = 0 then int n else min (int n) (sat_add64 (int p) budget))"
proof -
  have "0 \<le> effective_read_budget C path"
    using assms(1) by (simp add: effective_read_budget_def Let_def sat_mul64_def u64_max_def)
  then show "p < window_end C path n p" "window_end C path n p \<le> n"
    "int (window_end C path n p) = (let budget = effective_read_budget C path
      in if budget = 0 then int n else min (int n) (sat_add64 (int p) budget))"
    using assms(2,3) by (auto simp: window_end_def Let_def sat_add64_def u64_max_def)
qed

lemma emit_runtime: "file_runtime (snd (emit_query_metrics K v gs C)) = file_runtime C"
  by (simp add: emit_query_metrics_def Let_def split: prod.split sum.split)

lemma not_compressed:
  assumes "followable K T f" and "sees f path n fs"
  shows "\<not> is_compressed_file fs path"
proof (cases "open_file fs path")
  case (Inr h)
  then have "starts_with f (pending (data h))" using assms(2) by (simp add: sees_def)
  then show ?thesis using assms(1) plain_prefix [of f "data h"] Inr by (simp add: is_compressed_file_def followable_def)
qed (simp add: is_compressed_file_def)

lemma process_range_tracks:
  assumes X: "followable K T f" and C: "tracks K T path ident f n p C" and ident: "ident_fits ident"
    and v: "sees f path n (files v)" "sees f path 0 (probe v)" "\<not> update_fails v" "seen_at v \<in> T" "stored_at v \<in> T"
    and m: "meta_size m = int n" "meta_dev m = fst ident" "meta_ino m = snd ident"
    and quiet: "\<not> quiescent \<or> stamped_cut f n"
    and few: "\<not> panics v \<and> \<not> isl (open_file (files v) path) \<or> parse_failures (runtime_of C path) + 1 < MAX_PARSE_FAILURES"
    and s: "file_path s = path" "last_position s = int p"
  shows "\<exists>q \<ge> p. tracks K T path ident f n q (snd (process_range K v path pattern m mtime quiescent s C)) \<and>
    (p < q \<or> n \<le> p \<or> panics v \<or> isl (open_file (files v) path) \<or> record_fails v \<or>
     stalled path f n p C (snd (process_range K v path pattern m mtime quiescent s C)))"
proof (cases "n \<le> p")
  case True
  then show ?thesis using C m(1) s(2) by (intro exI [of _ p]) (simp add: process_range_def)
next
  case False
  note plain = not_compressed [OF X v(2)]
  define e where "e = window_end C path n p"
  define budget where "budget = effective_read_budget C path"
  have "p < n" using False by simp
  have "0 \<le> max_read_bytes_per_cycle (log_parsing (config C))" using C by (simp add: tracks_def)
  moreover have "int n < 2 ^ 63" using C X by (simp add: tracks_def followable_def)
  ultimately have b0: "0 \<le> max_read_bytes_per_cycle (log_parsing (config C))" "int n < 2 ^ 63" by blast+
  note b = window_end_bounds [OF b0(1) \<open>p < n\<close> b0(2), of path]
  define read_end where "read_end = (if budget = 0 then int n else min (int n) (sat_add64 (int p) budget))"
  have e: "p < e" "e \<le> n" "read_end = int e"
    using b unfolding e_def read_end_def budget_def Let_def by simp_all
  define clamped where "clamped \<longleftrightarrow> int e < int n"
  have flush: "(\<not> quiescent \<or> clamped) \<or> stamped_cut f e"
    using quiet e(2) by (cases "e = n") (auto simp: clamped_def)
  from parse_blocking_tracks [OF X C v(1) e(1,2) flush] obtain x C1 where
    x: "parse_range_blocking K v path (int p) (int e) (\<not> quiescent \<or> clamped) C = (x, C1)"
      "tracks K T path ident f n p C1" "file_runtime C1 = file_runtime C"
      "case x of Inl _ \<Rightarrow> panics v \<or> isl (open_file (files v) path)
       | Inr None \<Rightarrow> entry_boundary (slice f p e) = 0
       | Inr (Some r) \<Rightarrow> \<exists>q. p < q \<and> q \<le> e \<and> stamped_cut f q \<and> end_offset r = int q \<and>
         accounted (processed_queries r) (length (text_plans (log_env K) (slice f p q)))" by blast
  have run: "process_range K v path pattern m mtime quiescent s C =
      (case x of Inl err \<Rightarrow> range_failed K v path pattern mtime (int n) s C1
       | Inr found \<Rightarrow> range_parsed K v path m mtime clamped False s found C1)"
  proof -
    have plain': "is_compressed_file (probe v) path = False" using plain by simp
    have r: "(if False \<or> budget = 0 then int n else min (int n) (sat_add64 (int p) budget)) = int e"
      using e(3) by (simp add: read_end_def)
    show ?thesis
      unfolding process_range_def Let_def m(1) s(2) plain' budget_def [symmetric] r
      using False x(1) by (simp add: clamped_def split: sum.split)
  qed
  have rt: "runtime_of C1 path = runtime_of C path" using x(3) by (simp add: runtime_of_def)
  show ?thesis
  proof (cases x)
    case (Inl err)
    then have f: "panics v \<or> isl (open_file (files v) path)" using x(4) by simp
    then have "parse_failures (runtime_of C path) + 1 < MAX_PARSE_FAILURES" using few by blast
    then have "\<not> MAX_PARSE_FAILURES \<le> count_up (parse_failures (runtime_of C1 path))"
      unfolding rt count_up_def by linarith
    then have "snd (process_range K v path pattern m mtime quiescent s C) =
        (let C = set_runtime C1 path ((runtime_of C1 path)\<lparr>parse_failures := count_up (parse_failures (runtime_of C1 path))\<rparr>)
         in C\<lparr>events := events C @ [Parse_Error pattern ''parse_error'']\<rparr>)"
      by (simp add: run Inl range_failed_def Let_def)
    moreover have "tracks K T path ident f n p \<dots>" using x(2) by (simp add: Let_def tracks_event)
    ultimately show ?thesis using f by auto
  next
    case (Inr found)
    define C2 where "C2 = set_runtime C1 path ((runtime_of C1 path)\<lparr>parse_failures := 0,
        budget_stalls := (if clamped \<and> \<not> (case found of Some p \<Rightarrow> last_position s < end_offset p | None \<Rightarrow> False)
          then count_up (budget_stalls (runtime_of C1 path)) else 0)\<rparr>)"
    have C2: "tracks K T path ident f n p C2" using x(2) by (simp add: C2_def)
    show ?thesis
    proof (cases found)
      case None
      then have "stalled path f n p C C2"
        using x(4) Inr by (simp add: stalled_def e_def [symmetric] C2_def clamped_def rt)
      then show ?thesis using C2 None by (intro exI [of _ p]) (simp add: run Inr range_parsed_def C2_def Let_def)
    next
      case (Some r)
      obtain q where q: "p < q" "q \<le> e" "stamped_cut f q" "end_offset r = int q"
        "accounted (processed_queries r) (length (text_plans (log_env K) (slice f p q)))"
        using x(4) unfolding Inr Some by auto
      let ?s = "s\<lparr>last_position := end_offset r, last_file_size := int n, last_modified_time := mtime,
          last_processed_at := stored_at v, dev := fst ident, ino := snd ident\<rparr>"
      have same: "emit_parsed K v r C2 = emit_query_metrics K v (processed_queries r) C2"
        by (simp add: emit_parsed_def emit_query_metrics_def)
      have res: "snd (process_range K v path pattern m mtime quiescent s C) =
          (case emit_query_metrics K v (processed_queries r) C2 of
             (Inl e, C) \<Rightarrow> C | (Inr _, C) \<Rightarrow> snd (store_state K v ?s (range_plans r) C))"
      proof -
        have "range_parsed K v path m mtime clamped False s (Some r) C1 =
            (case emit_parsed K v r C2 of
               (Inl e, C) \<Rightarrow> (Inl e, C) | (Inr _, C) \<Rightarrow> store_state K v ?s (range_plans r) C)"
          unfolding range_parsed_def Let_def C2_def Some m option.case if_False ..
        then show ?thesis unfolding run Inr Some same by (simp split: prod.split sum.split)
      qed
      have "filters (config C2) = None" "rfc3339_ok (rfc3339 K) T"
        "first_printed (rfc3339 K) T (query_hashes (state_store C2))"
        using C2 X by (simp_all add: tracks_def followable_def)
      note emit = emit_accounts [OF this(1,2) v(4) this(3) q(5)]
      have ok: "record_fails v" if "emit_query_metrics K v (processed_queries r) C2 = (Inl err, C2)" for err
      proof (rule ccontr)
        assume "\<not> record_fails v"
        from emit_succeeds [OF \<open>rfc3339_ok (rfc3339 K) T\<close> v(4) \<open>first_printed (rfc3339 K) T (query_hashes (state_store C2))\<close> this,
            of "processed_queries r"] that show False by simp
      qed
      from emit res consider "snd (process_range K v path pattern m mtime quiescent s C) = C2" "record_fails v"
        | C3 where "emit_query_metrics K v (processed_queries r) C2 = (Inr (), C3)"
          "snd (process_range K v path pattern m mtime quiescent s C) =
            C3\<lparr>state_store := update_file_state (rfc3339 K) (state_store C3) ?s\<rparr>"
        using v(3) ok by (auto simp: store_state_def)
      then show ?thesis
      proof cases
        case 1
        then show ?thesis using C2 by auto
      next
        case 2
        have "tracks K T path ident f n q (C3\<lparr>state_store := update_file_state (rfc3339 K) (state_store C3) ?s\<rparr>)"
          by (rule stored_tracks [OF X C2 _ _ q(3,5) v(4,5) ident _ _ _ _ _ _ 2(1)])
            (use q(1,2,4) e(2) s(1) in simp_all)
        then show ?thesis using 2(2) q(1) by (intro exI [of _ q]) simp
      qed
    qed
  qed
qed

lemma observed_failures [simp]: "parse_failures (observe_file t b r) = parse_failures r"
  by (simp add: observe_file_def)

lemma observed_stalls [simp]: "budget_stalls (observe_file t b r) = budget_stalls r"
  by (simp add: observe_file_def)

lemma set_runtime_config [simp]: "config (set_runtime C path r) = config C"
  by (simp add: set_runtime_def)

lemma observed_window [simp]:
  "window_end (set_runtime C path (observe_file t b (runtime_of C path))) path n p = window_end C path n p"
  by (simp add: window_end_def effective_read_budget_def Let_def)

lemma not_isl: "\<not> isl x \<longleftrightarrow> (\<exists>y. x = Inr y)"
  by (cases x) simp_all

lemma process_log_file_tracks:
  assumes X: "followable K T f" and C: "tracks K T path ident f n p C" and ident: "ident_fits ident"
    and v: "steady_view T path ident f n n' v C"
  shows "\<exists>q \<ge> p. tracks K T path ident f n' q (snd (process_log_file K v path pattern C)) \<and>
    (p < q \<or> n' \<le> p \<or> \<not> view_works path v \<or> 0 < max_size_bytes C \<or>
     stalled path f n' p C (snd (process_log_file K v path pattern C)))"
proof -
  have n: "n \<le> n'" "n' \<le> length f" using v by (simp_all add: steady_view_def)
  note C' = tracks_grows [OF C n]
  show ?thesis
  proof (cases "\<exists>m mtime. metadata v = Inr m \<and> modified m = Inr mtime")
    case False
    then have "snd (process_log_file K v path pattern C) = C" "\<not> view_works path v"
      by (auto simp: process_log_file_def view_works_def not_isl split: sum.splits)
    then show ?thesis using C' by auto
  next
    case True
    then obtain m mtime where meta: "metadata v = Inr m" "modified m = Inr mtime" by blast
    have m: "meta_size m = int n'" "meta_dev m = fst ident" "meta_ino m = snd ident"
      "unchanged_cycles (observe_file mtime (int n') (runtime_of C path)) < QUIESCENT_CYCLES \<or> stamped_cut f n'"
      using v meta by (simp_all add: steady_view_def)
    have v': "sees f path n' (files v)" "sees f path 0 (probe v)" "\<not> update_fails v" "seen_at v \<in> T" "stored_at v \<in> T"
      "\<not> panics v \<and> \<not> isl (open_file (files v) path) \<or> parse_failures (runtime_of C path) + 1 < MAX_PARSE_FAILURES"
      using v by (simp_all add: steady_view_def)
    from C' have at: "checkpoint_at (rfc3339 K) (state_store C) path ident n' p" by (simp add: tracks_def)
    then obtain found where got: "get_file_state (rfc3339 K) (state_store C) path = Inr found"
      by (auto simp: checkpoint_at_def split: sum.splits)
    let ?s = "case found of Some s \<Rightarrow> s | None \<Rightarrow> fresh_file_state path (stored_at v)"
    let ?r = "observe_file mtime (int n') (runtime_of C path)"
    have s: "file_path ?s = path" "last_position ?s = int p" "after_rotation ?s m = ?s"
      using at m(1-3) got
      by (auto simp: checkpoint_at_def fresh_file_state_def after_rotation_def identity_changed_def
          split: option.splits)
    let ?x = "process_range K v path pattern m mtime (QUIESCENT_CYCLES \<le> unchanged_cycles ?r) ?s (set_runtime C path ?r)"
    have "tracks K T path ident f n' p (set_runtime C path ?r)" using C' by simp
    from process_range_tracks [OF X this ident v'(1-5) m(1-3) _ _ s(1,2)] m(4) v'(6)
    obtain q where q: "p \<le> q" "tracks K T path ident f n' q (snd ?x)"
      "p < q \<or> n' \<le> p \<or> panics v \<or> isl (open_file (files v) path) \<or> record_fails v \<or>
       stalled path f n' p (set_runtime C path ?r) (snd ?x)"
      by (simp add: linorder_not_le [symmetric]) blast
    have st: "stalled path f n' p (set_runtime C path ?r) D = stalled path f n' p C D" for D
      by (simp add: stalled_def)
    have "process_log_file K v path pattern C = ?x \<or>
        snd (process_log_file K v path pattern C) = C \<and> (0 < max_size_bytes C \<or> get_fails v)"
      using meta got s(3) m(1) by (auto simp: process_log_file_def Let_def)
    moreover have "p < q \<or> n' \<le> p \<or> \<not> view_works path v \<or> stalled path f n' p C (snd ?x)"
      using q(3) unfolding st view_works_def by blast
    moreover have "\<not> view_works path v" if "get_fails v" using that by (simp add: view_works_def)
    ultimately show ?thesis using q(1,2) C' by (metis order_refl)
  qed
qed

text \<open>Cycles over the one log.\<close>

inductive collector_run ::
  "(nat \<Rightarrow> u8, nat \<Rightarrow> bool) Linked \<Rightarrow> int set \<Rightarrow> string \<Rightarrow> int option \<times> int option \<Rightarrow> string \<Rightarrow>
     (nat \<Rightarrow> u8, nat \<Rightarrow> bool) LogCollector \<Rightarrow> nat \<Rightarrow> (nat \<Rightarrow> u8, nat \<Rightarrow> bool) LogCollector \<Rightarrow> bool"
  for K T path ident f C0 where
  start: "collector_run K T path ident f C0 0 C0"
| cycle: "collector_run K T path ident f C0 n C \<Longrightarrow> expand_log_paths y C = [(path, pattern)] \<Longrightarrow>
     steady_view T path ident f n n' (views y 0) C \<Longrightarrow>
     collector_run K T path ident f C0 n' (collect_metrics K y C)"

lemma collect_one_tracks:
  assumes X: "followable K T f" and C: "tracks K T path ident f n p C" and ident: "ident_fits ident"
    and y: "expand_log_paths y C = [(path, pattern)]" and v: "steady_view T path ident f n n' (views y 0) C"
  shows "\<exists>q \<ge> p. tracks K T path ident f n' q (collect_metrics K y C)"
proof -
  let ?C = "C\<lparr>file_runtime := filter (\<lambda>e. fst e = path) (file_runtime C)\<rparr>"
  have "map_of (filter (\<lambda>e. fst e = path) rs) path = map_of rs path" for rs :: "(string \<times> FileRuntime) list"
    by (induction rs) auto
  then have rt: "runtime_of ?C path = runtime_of C path" by (simp add: runtime_of_def)
  have v': "steady_view T path ident f n n' (views y 0) ?C" using v unfolding steady_view_def rt .
  have "tracks K T path ident f n p ?C" using C by simp
  from process_log_file_tracks [OF X this ident v', of pattern] obtain q where q: "p \<le> q"
    "tracks K T path ident f n' q (snd (process_log_file K (views y 0) path pattern ?C))" by blast
  obtain x C1 where x: "process_log_file K (views y 0) path pattern ?C = (x, C1)" by fastforce
  then have t: "tracks K T path ident f n' q C1" using q(2) by simp
  have ev: "tracks K T path ident f n' q (C1\<lparr>events := events C1 @ [e]\<rparr>)" if "\<not> is_execution e" for e
    using t that by (simp add: tracks_event)
  have "process_files (process_log_file K) (views y) 0 [(path, pattern)] ?C =
      (case x of Inl e \<Rightarrow> (1, C1\<lparr>events := events C1 @ [Parse_Error pattern ''file_error'']\<rparr>)
       | Inr k \<Rightarrow> (0, if 0 < k then C1\<lparr>events := events C1 @ [Logs_Parsed pattern k]\<rparr> else C1))"
    using x by (simp split: sum.split)
  then have "collect_metrics K y C =
      (case x of Inl e \<Rightarrow> finish_cycle y ''collect'' 1 (C1\<lparr>events := events C1 @ [Parse_Error pattern ''file_error'']\<rparr>)
       | Inr k \<Rightarrow> finish_cycle y ''collect'' 0 (if 0 < k then C1\<lparr>events := events C1 @ [Logs_Parsed pattern k]\<rparr> else C1))"
    by (simp add: collect_metrics_def y Let_def split: sum.split)
  then have "tracks K T path ident f n' q (collect_metrics K y C)"
    using t ev [of "Parse_Error pattern ''file_error''"] ev [of "Logs_Parsed pattern k" for k] by (simp split: sum.split)
  with q(1) show ?thesis by blast
qed

lemma run_tracks:
  assumes X: "followable K T f" and ident: "ident_fits ident" and C0: "tracks K T path ident f 0 0 C0"
    and run: "collector_run K T path ident f C0 n C"
  shows "\<exists>p. tracks K T path ident f n p C"
  using run
proof (induction rule: collector_run.induct)
  case start
  show ?case using C0 by blast
next
  case (cycle n C y pattern n')
  then obtain p where "tracks K T path ident f n p C" by blast
  from collect_one_tracks [OF X this ident cycle.hyps(2,3)] show ?case by blast
qed

section \<open>The budget of a cycle\<close>

text \<open>What only a reload changes.\<close>

definition settings :: "('v, 'm) LogCollector \<Rightarrow> Config \<times> (string \<Rightarrow> bool) list option \<times> (string \<times> f64) list" where
  "settings C = (config C, filter_patterns C, slow_thresholds C)"

lemma settings_simps [simp]:
  "settings (C\<lparr>events := es\<rparr>) = settings C" "settings (C\<lparr>state_store := D\<rparr>) = settings C"
  "settings (C\<lparr>grouper := g\<rparr>) = settings C" "settings (C\<lparr>log_parser := P\<rparr>) = settings C"
  "settings (C\<lparr>file_runtime := rs\<rparr>) = settings C" "settings (set_runtime C q r) = settings C"
  "settings (C\<lparr>health := h\<rparr>) = settings C"
  by (simp_all add: settings_def set_runtime_def)

lemma blocking_settings: "settings (snd (parse_range_blocking K v path a b h C)) = settings C"
  by (simp add: parse_range_blocking_def split: outcome.split prod.split)

lemma emit_settings: "settings (snd (emit_parsed K v r C)) = settings C"
  by (simp add: emit_parsed_def emit_query_metrics_def Let_def split: prod.split sum.split)

lemma store_state_settings: "settings (snd (store_state K v s x C)) = settings C"
  by (simp add: store_state_def)

lemma range_failed_settings: "settings (snd (range_failed K v path pattern t b s C)) = settings C"
  by (simp add: range_failed_def store_state_def Let_def)

lemma range_parsed_settings: "settings (snd (range_parsed K v path m t c z s r C)) = settings C"
proof (cases r)
  case (Some x)
  have "settings (snd (case emit_parsed K v x D of (Inl e, C) \<Rightarrow> (Inl e, C) | (Inr _, C) \<Rightarrow> store_state K v s' n C)) = settings D"
    for D s' and n :: nat
    using emit_settings [of K v x D] by (auto simp: store_state_settings split: prod.splits sum.splits)
  then show ?thesis by (simp add: range_parsed_def Some Let_def)
qed (simp add: range_parsed_def Let_def)

lemma process_settings: "settings (snd (process_log_file K v path pattern C)) = settings C"
proof -
  have "settings (snd (process_range K v path pattern m t q s D)) = settings D" for m t q s D
    unfolding process_range_def Let_def
    using blocking_settings [of K v path _ _ _ D]
    by (auto simp: range_failed_settings range_parsed_settings split: prod.split sum.split) (metis snd_conv)+
  then show ?thesis by (simp add: process_log_file_def Let_def split: sum.split)
qed

lemma process_config: "config (snd (process_log_file K v path pattern C)) = config C"
  using process_settings [of K v path pattern C] by (simp add: settings_def)

lemma process_files_settings: "settings (snd (process_files (process_log_file K) vs i ps C)) = settings C"
proof (induction ps arbitrary: i C)
  case (Cons e ps)
  obtain path pattern where e: "e = (path, pattern)" by fastforce
  obtain x D where x: "process_log_file K (vs i) path pattern C = (x, D)" by fastforce
  then have "settings D = settings C" using process_settings [of K "vs i" path pattern C] by simp
  then show ?case
    using Cons.IH [of "i + 1" "D\<lparr>events := events D @ [Parse_Error pattern ''file_error'']\<rparr>"]
      Cons.IH [of "i + 1" "D\<lparr>events := events D @ [Logs_Parsed pattern n]\<rparr>" for n] Cons.IH [of "i + 1" D]
    by (simp add: e x case_prod_unfold Let_def split: sum.split)
qed simp

lemma finish_cycle_settings [simp]: "settings (finish_cycle y op n C) = settings C"
  by (simp add: settings_def finish_cycle_def Let_def split: option.split)

lemma collect_settings: "settings (collect_metrics K y C) = settings C"
  by (simp add: collect_metrics_def Let_def case_prod_unfold process_files_settings)

text \<open>Passes over the log, each with the length it then has.\<close>

fun log_passes ::
  "('v, 'm) Linked \<Rightarrow> string \<Rightarrow> string \<Rightarrow> ('v, 'm) LogCollector \<Rightarrow> FileView list \<Rightarrow> ('v, 'm) LogCollector" where
  "log_passes K path pattern C [] = C"
| "log_passes K path pattern C (v # vs) = log_passes K path pattern (snd (process_log_file K v path pattern C)) vs"

fun steady_passes ::
  "('v, 'm) Linked \<Rightarrow> int set \<Rightarrow> string \<Rightarrow> string \<Rightarrow> int option \<times> int option \<Rightarrow> string \<Rightarrow> nat \<Rightarrow>
     ('v, 'm) LogCollector \<Rightarrow> (nat \<times> FileView) list \<Rightarrow> bool" where
  "steady_passes K T path pattern ident f n C [] = True"
| "steady_passes K T path pattern ident f n C ((n', v) # vs) \<longleftrightarrow>
     steady_view T path ident f n n' v C \<and> view_works path v \<and>
     steady_passes K T path pattern ident f n' (snd (process_log_file K v path pattern C)) vs"

lemma passes_track:
  "followable K T f \<Longrightarrow> ident_fits ident \<Longrightarrow> tracks K T path ident f n p C \<Longrightarrow>
     steady_passes K T path pattern ident f n C vs \<Longrightarrow>
     \<exists>n' q. p \<le> q \<and> tracks K T path ident f n' q (log_passes K path pattern C (map snd vs))"
proof (induction vs arbitrary: n p C)
  case (Cons x vs)
  obtain n' v where x: "x = (n', v)" by (cases x)
  have v: "steady_view T path ident f n n' v C"
    "steady_passes K T path pattern ident f n' (snd (process_log_file K v path pattern C)) vs"
    using Cons.prems(4) by (simp_all add: x)
  from process_log_file_tracks [OF Cons.prems(1,3,2) v(1), of pattern] obtain q where q: "p \<le> q"
    "tracks K T path ident f n' q (snd (process_log_file K v path pattern C))" by blast
  from Cons.IH [OF Cons.prems(1,2) q(2) v(2)] q(1) show ?case by (auto simp: x intro: order_trans)
qed auto

lemma wide_window:
  assumes C: "tracks K T path ident f n p C" and X: "followable K T f"
    and base: "base = max_read_bytes_per_cycle (log_parsing (config C))" "0 < base"
    and k: "k \<le> 20" "int k \<le> budget_stalls (runtime_of C path)" and w: "int p + base * 2 ^ k \<le> int n"
  shows "p + nat (base * 2 ^ k) \<le> window_end C path n p"
proof -
  have "int n < 2 ^ 63" using C X by (simp add: tracks_def followable_def)
  then have n: "int n \<le> u64_max" by (simp add: u64_max_def)
  have "k \<le> nat (min (budget_stalls (runtime_of C path)) 20)" using k by simp
  then have "base * 2 ^ k \<le> base * 2 ^ nat (min (budget_stalls (runtime_of C path)) 20)"
    using base(2) by (intro mult_left_mono power_increasing) simp_all
  moreover have "base * 2 ^ k \<le> u64_max" using w n by linarith
  ultimately have b: "base * 2 ^ k \<le> effective_read_budget C path"
    using base by (simp add: effective_read_budget_def sat_mul64_def)
  moreover have "0 < base * 2 ^ k" using base(2) by simp
  ultimately have "0 < effective_read_budget C path" by linarith
  then have "int (window_end C path n p) = min (int n) (sat_add64 (int p) (effective_read_budget C path))"
    by (simp add: window_end_def sat_add64_def u64_max_def)
  moreover have "int p + base * 2 ^ k \<le> min (int n) (sat_add64 (int p) (effective_read_budget C path))"
    using w b n by (simp add: sat_add64_def)
  moreover have "int (nat (base * 2 ^ k)) = base * 2 ^ k" using base(2) by simp
  ultimately show ?thesis by linarith
qed

lemma boundary_in_wider:
  assumes "0 < entry_boundary (slice f p a)" and "a \<le> b" and "p \<le> a"
  shows "0 < entry_boundary (slice f p b)"
proof -
  have "slice f p b = slice f p a @ slice f a b" using assms(2,3) by (simp add: slice_append)
  moreover obtain c where "last_entry_boundary lane_simd (slice f p a) = Some c" "0 < c"
    using assms(1) by (auto simp: entry_boundary_def split: option.splits)
  note entry_boundary_grows [OF this, of "slice f a b"]
  ultimately show ?thesis by (auto simp: entry_boundary_def)
qed

lemma passes_advance:
  assumes X: "followable K T f" and ident: "ident_fits ident"
    and base: "0 < base" and k: "k \<le> 20" and b: "0 < entry_boundary (slice f p (p + nat (base * 2 ^ k)))"
  shows "tracks K T path ident f n p C \<Longrightarrow> max_read_bytes_per_cycle (log_parsing (config C)) = base \<Longrightarrow>
    max_size_bytes C = 0 \<Longrightarrow> int p + base * 2 ^ k \<le> int n \<Longrightarrow>
    steady_passes K T path pattern ident f n C vs \<Longrightarrow> int j \<le> budget_stalls (runtime_of C path) \<Longrightarrow> j \<le> k \<Longrightarrow>
    k < j + length vs \<Longrightarrow>
    \<exists>n' q. p < q \<and> tracks K T path ident f n' q (log_passes K path pattern C (map snd vs))"
proof (induction vs arbitrary: n C j)
  case Nil
  then show ?case by simp
next
  case (Cons x vs)
  obtain n' v where x: "x = (n', v)" by (cases x)
  let ?C = "snd (process_log_file K v path pattern C)"
  have v: "steady_view T path ident f n n' v C" "view_works path v" "steady_passes K T path pattern ident f n' ?C vs"
    using Cons.prems(5) by (simp_all add: x)
  have n: "n \<le> n'" "n' \<le> length f" using v(1) by (simp_all add: steady_view_def)
  have w: "int p + base * 2 ^ k \<le> int n'" using Cons.prems(4) n(1) by linarith
  moreover have "0 < base * 2 ^ k" using base by simp
  ultimately have p: "p < n'" by linarith
  from process_log_file_tracks [OF X Cons.prems(1) ident v(1), of pattern] v(2) Cons.prems(3) p
  obtain q where q: "p \<le> q" "tracks K T path ident f n' q ?C" "p < q \<or> stalled path f n' p C ?C" by auto
  show ?case
  proof (cases "p < q")
    case True
    with passes_track [OF X ident q(2) v(3)] show ?thesis by (auto simp: x intro: less_le_trans)
  next
    case False
    then have q': "q = p" "stalled path f n' p C ?C" using q by auto
    have short: "\<not> p + nat (base * 2 ^ k) \<le> window_end C path n' p"
    proof
      assume "p + nat (base * 2 ^ k) \<le> window_end C path n' p"
      from boundary_in_wider [OF b this le_add1] q'(2) show False by (simp add: stalled_def)
    qed
    note C' = tracks_grows [OF Cons.prems(1) n]
    have few: "budget_stalls (runtime_of C path) < int k"
      using wide_window [OF C' X Cons.prems(2) [symmetric] base k _ w] short by linarith
    have "int (nat (base * 2 ^ k)) = base * 2 ^ k" using base by simp
    then have "window_end C path n' p < n'" using short w by linarith
    then have "budget_stalls (runtime_of ?C path) = count_up (budget_stalls (runtime_of C path))"
      using q'(2) by (simp add: stalled_def)
    then have j: "int (Suc j) \<le> budget_stalls (runtime_of ?C path)" "Suc j \<le> k"
      using Cons.prems(6) few k by (simp_all add: count_up_def)
    have "max_size_bytes ?C = 0" using Cons.prems(3) by (simp add: max_size_bytes_def process_config)
    from Cons.IH [OF _ _ this w v(3) j] q(2) q'(1) Cons.prems(2,8) show ?thesis by (simp add: x process_config)
  qed
qed

text \<open>A new collector on an empty database.\<close>

lemma new_tracks:
  assumes new: "new_collector K c empty_database = Inr C"
    and c: "filters c = None" "max_queries_per_file (log_parsing c) = 0" "0 \<le> max_read_bytes_per_cycle (log_parsing c)"
    and pfx: "parse_prefix (regex K) (log_line_prefix (log_parsing c)) = Inr pfx" "\<not> has_database pfx"
  shows "tracks K T path ident f 0 0 C"
proof -
  have "with_log_line_prefix (default_parser (log_env K)) pfx = default_parser (log_env K)"
    using pfx(2) by (simp add: with_log_line_prefix_def default_parser_def has_database_def message_database_def fun_eq_iff)
  moreover have "first_printed (rfc3339 K) T []" by (simp add: first_printed_def sighting_def)
  ultimately show ?thesis
    using new c pfx(1) idle_new(2)
    by (auto simp: new_collector_def tracks_def checkpoint_at_def empty_database_def get_file_state_def entry_cut_def
        split: sum.splits)
qed

section \<open>Properties\<close>

text \<open>The exporter counts every logged plan exactly once: starting on an empty database, after any cycles
  over a log that grows, whatever part of it each cycle finds written, with failing lookups, failing
  sighting writes, unreadable files and panicking parses in between, there is an entry start at which the
  checkpoint stands, and the executions exported so far are the plans logged before it.\<close>

theorem exporter_exports_exactly_once:
  assumes "new_collector K c empty_database = Inr C0" and "filters c = None"
    and "max_queries_per_file (log_parsing c) = 0" and "0 \<le> max_read_bytes_per_cycle (log_parsing c)"
    and "parse_prefix (regex K) (log_line_prefix (log_parsing c)) = Inr pfx" and "\<not> has_database pfx"
    and "followable K T f" and "ident_fits ident" and "collector_run K T path ident f C0 n C"
  shows "\<exists>p \<le> n. checkpoint_at (rfc3339 K) (state_store C) path ident n p \<and> stamped_cut f p \<and>
    exported_executions (events C) = length (text_plans (log_env K) (take p f))"
proof -
  from run_tracks [OF assms(7,8) new_tracks [OF assms(1-6)] assms(9)] obtain p where
    "tracks K T path ident f n p C" by blast
  then show ?thesis unfolding tracks_def by blast
qed

text \<open>C5: An entry larger than the read budget does not stall the log: if an entry start lies within
  \<open>2 ^ k\<close> budgets of the checkpoint (\<open>k \<le> 20\<close>) and the text up to there is written, then \<open>k + 1\<close> working
  passes move the checkpoint on, the window doubling each time.\<close>

theorem read_budget_widens:
  assumes "followable K T f" and "ident_fits ident" and "tracks K T path ident f n p C"
    and "base = max_read_bytes_per_cycle (log_parsing (config C))" and "0 < base" and "max_size_bytes C = 0"
    and "k \<le> 20" and "int p + base * 2 ^ k \<le> int n" and "0 < entry_boundary (slice f p (p + nat (base * 2 ^ k)))"
    and "0 \<le> budget_stalls (runtime_of C path)"
    and "steady_passes K T path pattern ident f n C vs" and "length vs = k + 1"
  shows "\<exists>n' q. p < q \<and> stamped_cut f q \<and>
    checkpoint_at (rfc3339 K) (state_store (log_passes K path pattern C (map snd vs))) path ident n' q"
proof -
  have "int 0 \<le> budget_stalls (runtime_of C path)" using assms(10) by simp
  from passes_advance [OF assms(1,2,5,7,9,3) assms(4) [symmetric] assms(6,8,11) this] assms(12)
  show ?thesis unfolding tracks_def by auto
qed

section \<open>Witnesses\<close>

definition sample_regex :: RegexLib where
  "sample_regex = \<lparr>escape_literal = id, compile_db = (\<lambda>_. None), compile_match = (\<lambda>_. Some (\<lambda>_. False))\<rparr>"

definition sample_linked :: "(nat \<Rightarrow> u8, nat \<Rightarrow> bool) Linked" where
  "sample_linked = \<lparr>regex = sample_regex, rfc3339 = sample_rfc3339, normalizer = sample_normalizer, log_env = sample_env\<rparr>"

definition sample_file :: string where "sample_file = sample_entry @ sample_entry"

definition sample_view :: FileView where
  "sample_view =
     \<lparr>metadata = Inr \<lparr>modified = Inr 7, meta_size = 80, meta_dev = Some 1, meta_ino = Some 2\<rparr>,
      probe = \<lparr>open_file = (\<lambda>_. Inr \<lparr>file_size = 80, data = cursor sample_file\<rparr>), gunzip = id, bunzip2 = id\<rparr>,
      files = \<lparr>open_file = (\<lambda>_. Inr \<lparr>file_size = 80, data = cursor sample_file\<rparr>), gunzip = id, bunzip2 = id\<rparr>,
      panics = False, left = new_grouper, seen_at = 10, stored_at = 11, get_fails = False, record_fails = False,
      update_fails = False\<rparr>"

definition sample_cycle :: Cycle where
  "sample_cycle = \<lparr>glob = (\<lambda>_. Some [Some ''l'']), is_file = (\<lambda>_. True), views = (\<lambda>_. sample_view), cycle_end = 12,
     memory = None, elapsed = f_zero\<rparr>"

definition sample_config :: Config where
  "sample_config = default_config\<lparr>log_parsing := default_log_parsing\<lparr>max_read_bytes_per_cycle := 32\<rparr>,
     metrics := default_metrics\<lparr>slow_query_thresholds := []\<rparr>\<rparr>"

lemma sample_file_length: "length sample_file = 80"
  by (simp add: sample_file_def sample_entry_length)

lemma sample_stamped:
  "is_timestamped_line lane_simd sample_header" "\<not> is_timestamped_line lane_simd sample_query"
  "\<not> is_timestamped_line lane_simd sample_plan_line" "sniff (cursor sample_file) = Plain"
  "entry_boundary (slice sample_file 0 64) = 40"
  by code_simp+

lemma sample_text_plans: "\<exists>ps. text_plans sample_env sample_file = ps @ ps \<and> length ps \<le> 1"
proof -
  have "text_plans sample_env sample_file =
      plan_of (finalize_plan sample_env (ParsingTextPlan (Text sample_builder))) @
      plan_of (finalize_plan sample_env (ParsingTextPlan (Text sample_builder)))"
    by (simp add: text_plans_def sample_file_def sample_log_lines sample_decode sample_steps plan_of_def)
  then show ?thesis by (intro exI [of _ "plan_of (finalize_plan sample_env (ParsingTextPlan (Text sample_builder)))"])
    (simp add: plan_of_def split: option.split)
qed

lemma sample_followable: "followable sample_linked {10, 11, 12, 20} sample_file"
proof -
  obtain ps where ps: "text_plans sample_env sample_file = ps @ ps" "length ps \<le> 1" using sample_text_plans by blast
  then have "inj_on h (query_text ` set (text_plans sample_env sample_file))" for h :: "string \<Rightarrow> u64"
    by (cases ps) auto
  moreover have "readable_text (default_parser sample_env) (is_timestamped_line lane_simd) sample_file"
    using sample_agreed sample_lines(1)
    by (simp add: readable_text_def default_parser_def plain_parser_def message_database_def MAX_LINE_BYTES_def
        MAX_ENTRY_BYTES_def sample_file_length)
      (simp add: sample_file_def sample_log_lines sample_decode sample_stamped is_header_def split: option.splits)
  ultimately show ?thesis
    using ps sample_rfc3339_ok
    by (simp add: followable_def sample_linked_def sample_env_simps sample_file_length sample_stamped)
qed

lemma sample_steady: "n \<le> 80 \<Longrightarrow> steady_view {10, 11, 12, 20} ''l'' (Some 1, Some 2) sample_file n 80 sample_view C"
  by (simp add: steady_view_def sample_view_def sees_def starts_with_iff cursor_def sample_file_length entry_cut_def)

lemma sample_ident: "ident_fits (Some 1, Some 2)"
  by (simp add: ident_fits_def is_u64_def)

lemma sample_prefix: "\<exists>pfx. parse_prefix sample_regex (log_line_prefix default_log_parsing) = Inr pfx \<and> \<not> has_database pfx"
  using default_prefix [of sample_regex] by (simp add: default_log_parsing_def has_database_def)

lemma sample_new: "\<exists>C. new_collector sample_linked sample_config empty_database = Inr C \<and> config C = sample_config \<and> file_runtime C = []"
proof -
  obtain pfx where "parse_prefix sample_regex (log_line_prefix default_log_parsing) = Inr pfx" using sample_prefix by blast
  moreover have "resolve_thresholds sample_config = Inr []"
    by (simp add: resolve_thresholds_def sample_config_def List.map_filter_simps)
  ultimately show ?thesis
    by (simp add: new_collector_def sample_linked_def sample_config_def compile_patterns_def default_config_def)
qed

lemma sample_config_simps:
  "filters sample_config = None" "max_queries_per_file (log_parsing sample_config) = 0"
  "max_read_bytes_per_cycle (log_parsing sample_config) = 32" "max_file_size_mb (log_parsing sample_config) = 0"
  "log_line_prefix (log_parsing sample_config) = log_line_prefix default_log_parsing"
  "log_paths (log_parsing sample_config) = log_paths default_log_parsing"
  by (simp_all add: sample_config_def default_config_def default_log_parsing_def)

theorem exporter_exports_exactly_once_witness:
  "\<exists>C. new_collector sample_linked sample_config empty_database = Inr C \<and>
     (\<exists>p \<le> 80. exported_executions (events (collect_metrics sample_linked sample_cycle C)) =
       length (text_plans sample_env (take p sample_file)))"
proof -
  obtain C where C: "new_collector sample_linked sample_config empty_database = Inr C" "config C = sample_config"
    using sample_new by blast
  obtain pfx where pfx: "parse_prefix (regex sample_linked) (log_line_prefix (log_parsing sample_config)) = Inr pfx"
    "\<not> has_database pfx"
    using sample_prefix by (auto simp: sample_linked_def sample_config_simps)
  have "expand_log_paths sample_cycle C = [(''l'', ''/var/log/postgresql/*.log'')]"
    by (simp add: expand_log_paths_def sample_cycle_def C(2) sample_config_simps default_log_parsing_def List.map_filter_simps)
  then have "collector_run sample_linked {10, 11, 12, 20} ''l'' (Some 1, Some 2) sample_file C 80 (collect_metrics sample_linked sample_cycle C)"
    by (rule collector_run.cycle [OF collector_run.start]) (simp add: sample_cycle_def sample_steady)
  from exporter_exports_exactly_once [OF C(1) sample_config_simps(1,2) _ pfx sample_followable sample_ident this] C(1)
  show ?thesis by (auto simp: sample_config_simps sample_linked_def)
qed

theorem read_budget_widens_witness:
  "\<exists>C. new_collector sample_linked sample_config empty_database = Inr C \<and>
     (\<exists>n q. 0 < q \<and> stamped_cut sample_file q \<and>
       checkpoint_at sample_rfc3339 (state_store (log_passes sample_linked ''l'' ''*'' C [sample_view, sample_view]))
         ''l'' (Some 1, Some 2) n q)"
proof -
  obtain C where C: "new_collector sample_linked sample_config empty_database = Inr C" "config C = sample_config" "file_runtime C = []"
    using sample_new by blast
  obtain pfx where pfx: "parse_prefix (regex sample_linked) (log_line_prefix (log_parsing sample_config)) = Inr pfx"
    "\<not> has_database pfx"
    using sample_prefix by (auto simp: sample_linked_def sample_config_simps)
  have "tracks sample_linked {10, 11, 12, 20} ''l'' (Some 1, Some 2) sample_file 0 0 C"
    by (rule new_tracks [OF C(1) sample_config_simps(1,2) _ pfx]) (simp add: sample_config_simps)
  then have t: "tracks sample_linked {10, 11, 12, 20} ''l'' (Some 1, Some 2) sample_file 80 0 C"
    by (rule tracks_grows) (simp_all add: sample_file_length)
  have w: "view_works ''l'' sample_view" by (simp add: view_works_def sample_view_def)
  have "steady_passes sample_linked {10, 11, 12, 20} ''l'' ''*'' (Some 1, Some 2) sample_file 80 C [(80, sample_view), (80, sample_view)]"
    by (simp add: sample_steady w)
  from read_budget_widens [OF sample_followable sample_ident t refl _ _ _ _ _ _ this, of 1] C
  show ?thesis
    by (simp add: sample_config_simps max_size_bytes_def runtime_of_def default_runtime_def sample_stamped sample_linked_def)
qed

end
