(* ===== verification/Collector_Faults.thy ===== *)
theory Collector_Faults
  imports Collector_Runs
begin

text \<open>
  The collector when things go wrong: ranges that cannot be read, rotated files, reloads and rejected
  configurations.
\<close>

section \<open>Failing ranges\<close>

definition failing :: "string \<Rightarrow> FileView \<Rightarrow> bool" where
  "failing path v \<longleftrightarrow> panics v \<or> isl (open_file (files v) path)"

lemma failing_blocks:
  assumes "failing path v"
  shows "\<exists>e P g. parse_range_blocking K v path a b h C = (Inl e, C\<lparr>log_parser := P, grouper := g\<rparr>)"
proof -
  have same: "C\<lparr>grouper := g\<rparr> = C\<lparr>log_parser := log_parser C, grouper := g\<rparr>" for g by simp
  have "parse_range K v (log_parser C) (grouper C) path a b h = Panicked \<or>
      (\<exists>e g. parse_range K v (log_parser C) (grouper C) path a b h = Failed (e, g))"
  proof (cases "panics v")
    case False
    then obtain e where "open_file (files v) path = Inl e" using assms by (auto simp: failing_def isl_def)
    then have "\<exists>e. fill_grouper K v (log_parser C) (grouper C) path a b h = Inl (e, grouper C)"
      by (simp add: fill_grouper_def read_file_range_def parse_file_range_into_grouper_def create_reader_with_range_def)
    then show ?thesis by (auto simp: parse_range_def split: prod.split option.split)
  qed (simp add: parse_range_def)
  then show ?thesis by (auto simp: parse_range_blocking_def) (metis same)+
qed

text \<open>The checkpoint a failed pass stores, if any.\<close>

definition skipped_to :: "FileView \<Rightarrow> int \<Rightarrow> int \<Rightarrow> FileState \<Rightarrow> FileState" where
  "skipped_to v mtime n s =
     s\<lparr>last_position := n, last_file_size := n, last_modified_time := mtime, last_processed_at := stored_at v\<rparr>"

lemma range_failed_store:
  "state_store (snd (range_failed K v path pattern mtime n s C)) =
     (if MAX_PARSE_FAILURES \<le> count_up (parse_failures (runtime_of C path)) \<and> \<not> update_fails v
      then update_file_state (rfc3339 K) (state_store C) (skipped_to v mtime n s) else state_store C)"
  by (simp add: range_failed_def Let_def store_state_def skipped_to_def set_runtime_def)

lemma failing_range_store:
  assumes "failing path v"
  shows "state_store (snd (process_range K v path pattern m mtime q s C)) \<in>
    {state_store C, update_file_state (rfc3339 K) (state_store C) (skipped_to v mtime (meta_size m) s)}"
proof -
  have "state_store (snd (case parse_range_blocking K v path a b h C of
      (Inl e, C) \<Rightarrow> range_failed K v path pattern mtime (meta_size m) s C
    | (Inr r, C) \<Rightarrow> range_parsed K v path m mtime c z s r C)) \<in>
      {state_store C, update_file_state (rfc3339 K) (state_store C) (skipped_to v mtime (meta_size m) s)}" for a b h c z
    using failing_blocks [OF assms, of K a b h C] by (auto simp: range_failed_store)
  then show ?thesis unfolding process_range_def Let_def by simp
qed

lemma as_u64_range: "is_u64 (as_u64 n)"
  by (simp add: as_u64_def is_u64_def)

lemma read_state_fits:
  assumes "get_file_state R D path = Inr (Some s)"
  shows "state_fits s" and "file_path s = path"
  using assms by (auto simp: get_file_state_def row_to_file_state_def state_fits_def as_u64_range
      split: option.splits sum.splits)

lemma failing_pass_state:
  assumes R: "rfc3339_ok (rfc3339 K) T" and s: "get_file_state (rfc3339 K) (state_store C) path = Inr (Some s)"
    and v: "failing path v" "stored_at v \<in> T" "case metadata v of Inl _ \<Rightarrow> True | Inr m \<Rightarrow> is_u64 (meta_size m)"
  shows "\<exists>s'. get_file_state (rfc3339 K) (state_store (snd (process_log_file K v path pattern C))) path = Inr (Some s') \<and>
    dev s' = dev s \<and> ino s' = ino s"
proof (cases "\<exists>m mtime. metadata v = Inr m \<and> modified m = Inr mtime")
  case False
  then have "snd (process_log_file K v path pattern C) = C" by (auto simp: process_log_file_def split: sum.splits)
  then show ?thesis using s by simp
next
  case True
  then obtain m mtime where m: "metadata v = Inr m" "modified m = Inr mtime" by blast
  have n: "is_u64 (meta_size m)" using v(3) m by simp
  let ?r = "observe_file mtime (meta_size m) (runtime_of C path)"
  let ?x = "process_range K v path pattern m mtime (QUIESCENT_CYCLES \<le> unchanged_cycles ?r) (after_rotation s m) (set_runtime C path ?r)"
  let ?new = "skipped_to v mtime (meta_size m) (after_rotation s m)"
  have "process_log_file K v path pattern C = ?x \<or> snd (process_log_file K v path pattern C) = C"
    using m s by (auto simp: process_log_file_def Let_def)
  moreover have "state_store (snd ?x) \<in> {state_store C, update_file_state (rfc3339 K) (state_store C) ?new}"
    using failing_range_store [OF v(1), of K pattern m mtime _ "after_rotation s m" "set_runtime C path ?r"]
    by (simp add: set_runtime_def)
  moreover have "file_path ?new = path" "last_processed_at ?new \<in> T" "state_fits ?new" "dev ?new = dev s" "ino ?new = ino s"
    using read_state_fits [OF s] v(2) n by (simp_all add: skipped_to_def after_rotation_def state_fits_def)
  note fits = this and get_update [OF R this(2,3), of "state_store C", unfolded this(1)]
  ultimately show ?thesis using s fits(4,5) by fastforce
qed

text \<open>Views in which a file has been replaced by one that cannot be read.\<close>

definition replaced :: "int set \<Rightarrow> string \<Rightarrow> int \<Rightarrow> int \<Rightarrow> FileView \<Rightarrow> bool" where
  "replaced T path d i v \<longleftrightarrow> failing path v \<and> stored_at v \<in> T \<and>
     (case metadata v of
        Inl _ \<Rightarrow> True
      | Inr m \<Rightarrow> is_u64 (meta_size m) \<and> meta_dev m = Some d \<and> meta_ino m = Some i)"

lemma failing_passes_state:
  assumes R: "rfc3339_ok (rfc3339 K) T"
  shows "get_file_state (rfc3339 K) (state_store C) path = Inr (Some s) \<Longrightarrow> list_all (replaced T path d i) vs \<Longrightarrow>
    \<exists>s'. get_file_state (rfc3339 K) (state_store (log_passes K path pattern C vs)) path = Inr (Some s') \<and>
      dev s' = dev s \<and> ino s' = ino s"
proof (induction vs arbitrary: C s)
  case (Cons v vs)
  then have v: "failing path v" "stored_at v \<in> T" "case metadata v of Inl _ \<Rightarrow> True | Inr m \<Rightarrow> is_u64 (meta_size m)"
    by (auto simp: replaced_def split: sum.splits)
  from failing_pass_state [OF R Cons.prems(1) v, of pattern] obtain s1 where
    s1: "get_file_state (rfc3339 K) (state_store (snd (process_log_file K v path pattern C))) path = Inr (Some s1)"
      "dev s1 = dev s" "ino s1 = ino s" by blast
  from Cons.IH [OF s1(1)] Cons.prems(2) s1(2,3) show ?case by simp
qed simp

text \<open>A failing pass over the file of the checkpoint.\<close>

definition same_file :: "FileState \<Rightarrow> int set \<Rightarrow> string \<Rightarrow> FileView \<Rightarrow> int \<Rightarrow> int \<Rightarrow> bool" where
  "same_file s T path v mtime n \<longleftrightarrow> failing path v \<and> stored_at v \<in> T \<and> \<not> get_fails v \<and> \<not> update_fails v \<and>
     \<not> is_compressed_file (probe v) path \<and> is_u64 n \<and> last_position s < n \<and> last_file_size s \<le> n \<and>
     (\<exists>m. metadata v = Inr m \<and> modified m = Inr mtime \<and> meta_size m = n \<and> \<not> identity_changed s m)"

lemma failing_pass:
  fixes pattern :: string
  assumes R: "rfc3339_ok (rfc3339 K) T" and s: "get_file_state (rfc3339 K) (state_store C) path = Inr (Some s)"
    and v: "same_file s T path v mtime n" and unlimited: "max_size_bytes C = 0"
    and f: "count_up (parse_failures (runtime_of C path)) = k"
  defines "C' \<equiv> snd (process_log_file K v path pattern C)"
  shows "max_size_bytes C' = 0" and "runtime_of C' path = (observe_file mtime n (runtime_of C path))
      \<lparr>parse_failures := (if MAX_PARSE_FAILURES \<le> k then 0 else k)\<rparr>"
    and "get_file_state (rfc3339 K) (state_store C') path =
      Inr (Some (if MAX_PARSE_FAILURES \<le> k then skipped_to v mtime n s else s))"
proof -
  obtain m where m: "metadata v = Inr m" "modified m = Inr mtime" "meta_size m = n" "\<not> identity_changed s m"
    using v by (auto simp: same_file_def)
  have v': "failing path v" "stored_at v \<in> T" "\<not> get_fails v" "\<not> update_fails v" "\<not> is_compressed_file (probe v) path"
    "is_u64 n" "last_position s < n" "last_file_size s \<le> n"
    using v by (simp_all add: same_file_def)
  show "max_size_bytes C' = 0" using unlimited by (simp add: C'_def max_size_bytes_def process_config)
  let ?r = "observe_file mtime n (runtime_of C path)"
  let ?D = "set_runtime C path ?r"
  have rot: "after_rotation s m = s" using m v'(8) by (simp add: after_rotation_def)
  obtain e P g where fail: "parse_range_blocking K v path (last_position s)
      (if effective_read_budget ?D path = 0 then n else min n (sat_add64 (last_position s) (effective_read_budget ?D path)))
      (\<not> QUIESCENT_CYCLES \<le> unchanged_cycles ?r \<or>
        (if effective_read_budget ?D path = 0 then n else min n (sat_add64 (last_position s) (effective_read_budget ?D path))) < n)
      ?D = (Inl e, ?D\<lparr>log_parser := P, grouper := g\<rparr>)"
    using failing_blocks [OF v'(1)] by blast
  have plain: "is_compressed_file (probe v) path = False" using v'(5) by simp
  have "process_log_file K v path pattern C =
      process_range K v path pattern m mtime (QUIESCENT_CYCLES \<le> unchanged_cycles ?r) s ?D"
    using m unlimited v'(3) s rot by (simp add: process_log_file_def Let_def)
  also have "\<dots> = range_failed K v path pattern mtime n s (?D\<lparr>log_parser := P, grouper := g\<rparr>)"
    unfolding process_range_def Let_def m(3) plain using v'(7) fail by simp
  finally have p: "C' = snd (range_failed K v path pattern mtime n s (?D\<lparr>log_parser := P, grouper := g\<rparr>))"
    by (simp add: C'_def)
  have rt: "runtime_of (?D\<lparr>log_parser := P, grouper := g\<rparr>) path = ?r"
    by (simp add: runtime_of_def set_runtime_def update_conv')
  have k: "count_up (parse_failures ?r) = k" using f by simp
  have ev: "runtime_of (E\<lparr>events := es\<rparr>) path = runtime_of E path" "runtime_of (E\<lparr>state_store := D\<rparr>) path = runtime_of E path"
    for E :: "('a, 'b) LogCollector" and es D
    by (simp_all add: runtime_of_def)
  show "runtime_of C' path = ?r\<lparr>parse_failures := (if MAX_PARSE_FAILURES \<le> k then 0 else k)\<rparr>"
    unfolding p using v'(4) by (simp add: range_failed_def Let_def rt k f store_state_def ev)
  let ?new = "skipped_to v mtime n s"
  have "file_path ?new = path" "last_processed_at ?new \<in> T" "state_fits ?new"
    using read_state_fits [OF s] v'(2,6) by (simp_all add: skipped_to_def state_fits_def)
  note get_update [OF R this(2,3), of "state_store C", unfolded this(1)]
  then show "get_file_state (rfc3339 K) (state_store C') path =
      Inr (Some (if MAX_PARSE_FAILURES \<le> k then ?new else s))"
    unfolding p range_failed_store rt k using v'(4) s by (simp add: set_runtime_def)
qed

section \<open>Configurations\<close>

lemma first_invalid_Done: "first_invalid ok xs e = Done () \<longleftrightarrow> find (\<lambda>x. \<not> ok x) xs = None"
  by (simp add: first_invalid_def split: option.split)

lemma validated:
  assumes "validate L dsn_ok c = Done ()"
  shows "\<exists>pfx. parse_prefix L (log_line_prefix (log_parsing c)) = Inr pfx" and "\<exists>pats. compile_patterns L c = Inr pats"
    and "\<exists>ts. resolve_thresholds c = Inr ts"
proof -
  from assms obtain pfx where pfx: "parse_prefix L (log_line_prefix (log_parsing c)) = Inr pfx"
    and th: "first_invalid (\<lambda>t. \<not> isl (parse_threshold_to_ms t)) (slow_query_thresholds (metrics c)) Invalid_Threshold = Done ()"
    and fs: "(case filters c of None \<Rightarrow> Done () | Some f \<Rightarrow> validate_filters L pfx f) = Done ()"
    by (auto simp: validate_def and_then_Done split: sum.splits)
  then show "\<exists>pfx. parse_prefix L (log_line_prefix (log_parsing c)) = Inr pfx" by blast
  show "\<exists>ts. resolve_thresholds c = Inr ts" using th by (simp add: resolve_thresholds_def first_invalid_Done)
  show "\<exists>pats. compile_patterns L c = Inr pats"
  proof (cases "filters c")
    case (Some f)
    then show ?thesis
      using fs by (cases "exclude_query_patterns f")
        (auto simp: compile_patterns_def validate_filters_def and_then_Done first_invalid_Done)
  qed (simp add: compile_patterns_def)
qed

lemma update_thresholds: "slow_thresholds (snd (update_config K C new)) = slow_thresholds C"
  by (simp add: update_config_def Let_def split: sum.split)

definition database_allowed :: "FiltersConfig \<Rightarrow> string \<Rightarrow> bool" where
  "database_allowed f db \<longleftrightarrow>
     (case include_databases f of Some names \<Rightarrow> names = [] \<or> db \<in> set names | None \<Rightarrow> True) \<and>
     (case exclude_databases f of Some names \<Rightarrow> db \<notin> set names | None \<Rightarrow> True)"

text \<open>The database a metric is labelled with.\<close>

definition event_database :: "MetricEvent \<Rightarrow> string option" where
  "event_database e =
     (case e of
        First_Seen _ db _ \<Rightarrow> Some db | Last_Seen _ db _ \<Rightarrow> Some db | Query_Duration _ db _ \<Rightarrow> Some db
      | Query_Execution _ db \<Rightarrow> Some db | Slow_Queries db _ _ \<Rightarrow> Some db | Plan_Cost _ db _ \<Rightarrow> Some db
      | Scan_Type _ db \<Rightarrow> Some db | Join_Type _ db \<Rightarrow> Some db | Latency_Cv _ db _ \<Rightarrow> Some db
      | Time_Share _ db _ \<Rightarrow> Some db | Latency_P95 _ db _ \<Rightarrow> Some db | Latency_P99 _ db _ \<Rightarrow> Some db
      | _ \<Rightarrow> None)"

lemma node_databases: "e \<in> set (count_node_metrics n db) \<Longrightarrow> event_database e = Some db"
  by (induction n db arbitrary: e rule: count_node_metrics.induct) (auto simp: event_database_def split: NodeType.splits)

lemma query_event_database:
  "e \<in> set (update_query_metrics ts (h, db) pq t seen) \<Longrightarrow> event_database e = Some db"
  unfolding update_query_metrics_def Let_def split
  by (auto simp: event_database_def slow_events_def Let_def dest: node_databases split: if_splits)

lemma emitted_events:
  "\<exists>seen t. events (snd (emit_query_metrics K v gs C)) = events C @ concat (map (\<lambda>q.
     update_query_metrics (slow_thresholds C) (query_key (normalizer K) q) q t (seen q)) qs)"
  if "qs = filter (should_include_query C) (map snd gs) \<and> fst (emit_query_metrics K v gs C) = Inr () \<or>
      qs = [] \<and> fst (emit_query_metrics K v gs C) \<noteq> Inr ()"
proof (cases "filter (should_include_query C) (map snd gs) = []")
  case True
  then have "emit_query_metrics K v gs C = (Inr (), C)" by (simp add: emit_query_metrics_def)
  then show ?thesis using that True by auto
next
  case False
  obtain x D where r: "record_query_hashes (rfc3339 K) (seen_at v) (state_store C)
      (map (\<lambda>q. (query_key (normalizer K) q, normalized_query (representative_plan q)))
        (filter (should_include_query C) (map snd gs))) = (x, D)" by fastforce
  show ?thesis
    using that unfolding emit_query_metrics_def Let_def r if_not_P [OF False]
    by (cases "record_fails v"; cases x) auto
qed

section \<open>Properties\<close>

text \<open>A range that fails is retried and then skipped: with the log still the file of the checkpoint, two
  failing passes leave the checkpoint alone and the third moves it to the size of the file.\<close>

theorem failing_range_skipped:
  assumes "rfc3339_ok (rfc3339 K) T" and "get_file_state (rfc3339 K) (state_store C) path = Inr (Some s)"
    and "same_file s T path v1 t1 n1" and "same_file s T path v2 t2 n2" and "same_file s T path v3 t3 n3"
    and "max_size_bytes C = 0" and "parse_failures (runtime_of C path) = 0"
  shows "get_file_state (rfc3339 K) (state_store (log_passes K path pattern C [v1, v2])) path = Inr (Some s) \<and>
    get_file_state (rfc3339 K) (state_store (log_passes K path pattern C [v1, v2, v3])) path =
      Inr (Some (skipped_to v3 t3 n3 s))"
proof -
  let ?C1 = "snd (process_log_file K v1 path pattern C)"
  let ?C2 = "snd (process_log_file K v2 path pattern ?C1)"
  have k: "count_up 0 = 1" "count_up 1 = 2" "count_up 2 = 3" "\<not> MAX_PARSE_FAILURES \<le> 1" "\<not> MAX_PARSE_FAILURES \<le> 2"
    "MAX_PARSE_FAILURES \<le> 3" by (simp_all add: count_up_def MAX_PARSE_FAILURES_def)
  have f1: "count_up (parse_failures (runtime_of C path)) = 1" using assms(7) k by simp
  note p1 = failing_pass [OF assms(1,2,3,6) f1, of pattern]
  have f2: "count_up (parse_failures (runtime_of ?C1 path)) = 2" using p1(2) k by simp
  have s1: "get_file_state (rfc3339 K) (state_store ?C1) path = Inr (Some s)" using p1(3) k by simp
  note p2 = failing_pass [OF assms(1) s1 assms(4) p1(1) f2]
  have f3: "count_up (parse_failures (runtime_of ?C2 path)) = 3" using p2(2) k by simp
  have s2: "get_file_state (rfc3339 K) (state_store ?C2) path = Inr (Some s)" using p2(3) k by simp
  note p3 = failing_pass [OF assms(1) s2 assms(5) p2(1) f3]
  show ?thesis using s2 p3(3) k by simp
qed

text \<open>C6: A rotated file that cannot be read is never given up: skipping its range stores the new size but the
  identity of the old file, so after any number of failing passes the next one again takes the file for a
  new one and starts at its first byte.\<close>

theorem rotated_range_never_skipped:
  assumes "rfc3339_ok (rfc3339 K) T" and "get_file_state (rfc3339 K) (state_store C) path = Inr (Some s)"
    and "dev s = Some d0" and "ino s = Some i0" and "d \<noteq> d0 \<or> i \<noteq> i0"
    and "list_all (replaced T path d i) vs" and "meta_dev m = Some d" and "meta_ino m = Some i"
  shows "\<exists>s'. get_file_state (rfc3339 K) (state_store (log_passes K path pattern C vs)) path = Inr (Some s') \<and>
    last_position (after_rotation s' m) = 0"
proof -
  from failing_passes_state [OF assms(1,2,6), of pattern] obtain s' where
    s': "get_file_state (rfc3339 K) (state_store (log_passes K path pattern C vs)) path = Inr (Some s')"
      "dev s' = dev s" "ino s' = ino s" by blast
  have "identity_changed s' m" using s'(2,3) assms(3-5,7,8) by (auto simp: identity_changed_def)
  then show ?thesis using s'(1) by (auto simp: after_rotation_def)
qed

text \<open>The slow-query thresholds in force are those of the configuration the collector was built with,
  whatever configurations are applied later.\<close>

theorem thresholds_survive_reloads:
  assumes "new_collector K c D = Inr C"
  shows "resolve_thresholds c = Inr (slow_thresholds (foldl (\<lambda>C new. snd (update_config K C new)) C cs))"
proof -
  have "slow_thresholds (foldl (\<lambda>C new. snd (update_config K C new)) C cs) = slow_thresholds C"
    by (induction cs rule: rev_induct) (simp_all add: update_thresholds)
  then show ?thesis using assms by (auto simp: new_collector_def split: sum.splits)
qed

text \<open>A configuration that validation accepts is never rejected later: a collector can be built on it and
  every running collector takes it over.\<close>

theorem validated_config_applies:
  assumes "validate (regex K) dsn_ok c = Done ()"
  shows "(\<exists>C. new_collector K c D = Inr C) \<and> fst (update_config K C c) = Inr ()"
  using validated [OF assms] by (auto simp: new_collector_def update_config_def)

text \<open>No metric of an emission is labelled with a database that the filters leave out.\<close>

theorem filtered_database_not_exported:
  assumes "filters (config C) = Some f" and "\<not> database_allowed f db"
  shows "filter (\<lambda>e. event_database e = Some db) (events (snd (emit_query_metrics K v gs C))) =
    filter (\<lambda>e. event_database e = Some db) (events C)"
proof -
  obtain qs where "qs = filter (should_include_query C) (map snd gs) \<and> fst (emit_query_metrics K v gs C) = Inr () \<or>
      qs = [] \<and> fst (emit_query_metrics K v gs C) \<noteq> Inr ()" by blast
  note qs = this emitted_events [OF this]
  then obtain seen t where ev: "events (snd (emit_query_metrics K v gs C)) = events C @ concat (map (\<lambda>q.
      update_query_metrics (slow_thresholds C) (query_key (normalizer K) q) q t (seen q)) qs)" by blast
  have "should_include_query C q" if "q \<in> set qs" for q using qs(1) that by auto
  then have "query_database q \<noteq> db" if "q \<in> set qs" for q
    using that assms unfolding should_include_query_def database_allowed_def by fastforce
  then have "event_database e \<noteq> Some db"
    if "e \<in> set (update_query_metrics (slow_thresholds C) (query_key (normalizer K) q) q t (seen q))" "q \<in> set qs" for e q
    using that query_event_database [of e "slow_thresholds C" "fst (query_key (normalizer K) q)" "query_database q"]
    by (simp add: query_key_def)
  then show ?thesis unfolding ev by (auto simp: filter_empty_conv)
qed

section \<open>Witnesses\<close>

definition missing_view :: "int \<Rightarrow> int \<Rightarrow> int \<Rightarrow> FileView" where
  "missing_view n d i = sample_view
     \<lparr>metadata := Inr \<lparr>modified = Inr 7, meta_size = n, meta_dev = Some d, meta_ino = Some i\<rparr>,
      files := \<lparr>open_file = (\<lambda>_. Inl ''No such file''), gunzip = id, bunzip2 = id\<rparr>\<rparr>"

definition sample_checkpoint :: FileState where
  "sample_checkpoint = \<lparr>file_path = ''l'', last_position = 40, last_modified_time = 7, last_file_size = 80,
     last_processed_at = 10, dev = Some 1, ino = Some 2\<rparr>"

definition resumed :: "(nat \<Rightarrow> u8, nat \<Rightarrow> bool) LogCollector" where
  "resumed = \<lparr>config = sample_config, state_store = update_file_state sample_rfc3339 empty_database sample_checkpoint,
     events = [], log_parser = default_parser sample_env, grouper = new_grouper, filter_patterns = None,
     file_runtime = [], health = None, slow_thresholds = []\<rparr>"

lemma resumed_state: "get_file_state (rfc3339 sample_linked) (state_store resumed) ''l'' = Inr (Some sample_checkpoint)"
  using get_update [OF sample_rfc3339_ok, of sample_checkpoint empty_database]
  by (simp add: sample_linked_def resumed_def sample_checkpoint_def state_fits_def is_u64_def)

lemma sample_linked_clock: "rfc3339_ok (rfc3339 sample_linked) {10, 11, 12, 20}"
  by (simp add: sample_linked_def sample_rfc3339_ok)

theorem failing_range_skipped_witness:
  "get_file_state sample_rfc3339 (state_store (log_passes sample_linked ''l'' ''*'' resumed
       [missing_view 90 1 2, missing_view 95 1 2, missing_view 99 1 2])) ''l'' =
     Inr (Some (skipped_to (missing_view 99 1 2) 7 99 sample_checkpoint))"
proof -
  have v: "same_file sample_checkpoint {10, 11, 12, 20} ''l'' (missing_view n 1 2) 7 n" if "80 \<le> n" "n < 100" for n
    using that sample_stamped(4)
    by (simp add: same_file_def failing_def missing_view_def sample_view_def sample_checkpoint_def is_u64_def
        is_compressed_file_def identity_changed_def)
  have "max_size_bytes resumed = 0" "parse_failures (runtime_of resumed ''l'') = 0"
    by (simp_all add: max_size_bytes_def resumed_def sample_config_simps runtime_of_def default_runtime_def)
  from failing_range_skipped [OF sample_linked_clock resumed_state v [of 90] v [of 95] v [of 99] this, of "''*''"]
  show ?thesis by (simp add: sample_linked_def)
qed

theorem rotated_range_never_skipped_witness:
  "\<exists>s'. get_file_state sample_rfc3339 (state_store (log_passes sample_linked ''l'' ''*'' resumed
       (replicate 4 (missing_view 50 1 3)))) ''l'' = Inr (Some s') \<and>
     last_position (after_rotation s' \<lparr>modified = Inr 8, meta_size = 60, meta_dev = Some 1, meta_ino = Some 3\<rparr>) = 0"
proof -
  have "list_all (replaced {10, 11, 12, 20} ''l'' 1 3) (replicate 4 (missing_view 50 1 3))"
    by (simp add: list_all_iff replaced_def failing_def missing_view_def sample_view_def is_u64_def)
  from rotated_range_never_skipped [OF sample_linked_clock resumed_state _ _ _ this,
      of 1 2 "\<lparr>modified = Inr 8, meta_size = 60, meta_dev = Some 1, meta_ino = Some 3\<rparr>" "''*''"]
  show ?thesis by (simp add: sample_checkpoint_def sample_linked_def)
qed

theorem thresholds_survive_reloads_witness:
  "\<exists>C. new_collector sample_linked sample_config empty_database = Inr C \<and>
     slow_query_thresholds (metrics default_config) \<noteq> [] \<and>
     slow_thresholds (snd (update_config sample_linked C default_config)) = []"
proof -
  obtain C where C: "new_collector sample_linked sample_config empty_database = Inr C" using sample_new by blast
  have "resolve_thresholds sample_config = Inr []"
    by (simp add: resolve_thresholds_def sample_config_def List.map_filter_simps)
  then show ?thesis
    using C thresholds_survive_reloads [OF C, of "[default_config]"]
    by (simp add: default_config_def default_metrics_def)
qed

theorem validated_config_applies_witness:
  "\<exists>C. new_collector sample_linked sample_config empty_database = Inr C \<and>
     fst (update_config sample_linked C sample_config) = Inr ()"
proof -
  obtain t where t: "parse_duration ''30s'' = Done t" using sample_durations(3) by blast
  obtain pfx where "parse_prefix sample_regex (log_line_prefix default_log_parsing) = Inr pfx" using sample_prefix by blast
  with t have "validate (regex sample_linked) (\<lambda>_. True) sample_config = Done ()"
    by (simp add: validate_def poll_interval_duration_def first_invalid_def sample_linked_def sample_config_def
        default_config_def default_log_parsing_def default_metrics_def)
  from validated_config_applies [OF this] show ?thesis by blast
qed

theorem filtered_database_not_exported_witness:
  "\<forall>gs. filter (\<lambda>e. event_database e = Some ''b'') (events (snd (emit_query_metrics sample_linked sample_view gs
     (resumed\<lparr>config := sample_config\<lparr>filters := Some \<lparr>include_databases = Some [''a''], exclude_databases = None,
        exclude_query_patterns = None, min_duration_ms = None\<rparr>\<rparr>\<rparr>)))) = []"
proof
  fix gs
  let ?f = "\<lparr>include_databases = Some [''a''], exclude_databases = None, exclude_query_patterns = None, min_duration_ms = None\<rparr>"
  let ?C = "resumed\<lparr>config := sample_config\<lparr>filters := Some ?f\<rparr>\<rparr>"
  have "filters (config ?C) = Some ?f" "\<not> database_allowed ?f ''b''" by (simp_all add: database_allowed_def)
  from filtered_database_not_exported [OF this, of sample_linked sample_view gs]
  show "filter (\<lambda>e. event_database e = Some ''b'') (events (snd (emit_query_metrics sample_linked sample_view gs ?C))) = []"
    by (simp add: resumed_def)
qed

end
