(* ===== verification/Analysis_Report.thy ===== *)
theory Analysis_Report
  imports Plan_Tree "HOL-Library.Multiset"
begin

text \<open>
  The data of plan analysis (\<open>crates/core/src/analysis/mod.rs\<close>): severities, findings with the place
  they were made at, the report of one analyzer, the context analyzers run in, and the summary of
  several reports. A \<open>HashMap\<close> is a partial map. The key of a finding type in the summary is its
  \<open>Debug\<close> form; the printer of a quoted string inside it is the argument \<open>quote\<close>.
\<close>

section \<open>Severity\<close>

datatype Severity = Low | Medium | High | Critical

text \<open>The derived order: the order of declaration.\<close>

definition severity_level :: "Severity \<Rightarrow> nat" where
  "severity_level s = (case s of Low \<Rightarrow> 0 | Medium \<Rightarrow> 1 | High \<Rightarrow> 2 | Critical \<Rightarrow> 3)"

lemma severity_level_inj: "severity_level a = severity_level b \<longleftrightarrow> a = b"
  by (cases a; cases b) (simp_all add: severity_level_def)

instantiation Severity :: linorder
begin

definition less_eq_Severity :: "Severity \<Rightarrow> Severity \<Rightarrow> bool" where
  "less_eq_Severity a b \<longleftrightarrow> severity_level a \<le> severity_level b"

definition less_Severity :: "Severity \<Rightarrow> Severity \<Rightarrow> bool" where
  "less_Severity a b \<longleftrightarrow> severity_level a < severity_level b"

instance
  by standard (auto simp: less_eq_Severity_def less_Severity_def severity_level_inj)

end

section \<open>Findings\<close>

datatype FindingType =
    ExcessiveRowProcessing
  | RowEstimationError
  | CartesianProduct
  | LargeSequentialScan
  | InefficiientScan
  | MissingIndex
  | PoorIndexSelectivity
  | IneffectiveJoinAlgorithm
  | LargeNestedLoop
  | HashJoinMemorySpill
  | HighStartupCost
  | ExpensiveOperation
  | HighCostVariability
  | MemorySpill
  | LargeSort
  | LargeAggregation
  | InefficientParallelism
  | MissedParallelization
  | Custom string

definition finding_type_key :: "(string \<Rightarrow> string) \<Rightarrow> FindingType \<Rightarrow> string" where
  "finding_type_key quote ft =
     (case ft of
        ExcessiveRowProcessing \<Rightarrow> ''ExcessiveRowProcessing''
      | RowEstimationError \<Rightarrow> ''RowEstimationError''
      | CartesianProduct \<Rightarrow> ''CartesianProduct''
      | LargeSequentialScan \<Rightarrow> ''LargeSequentialScan''
      | InefficiientScan \<Rightarrow> ''InefficiientScan''
      | MissingIndex \<Rightarrow> ''MissingIndex''
      | PoorIndexSelectivity \<Rightarrow> ''PoorIndexSelectivity''
      | IneffectiveJoinAlgorithm \<Rightarrow> ''IneffectiveJoinAlgorithm''
      | LargeNestedLoop \<Rightarrow> ''LargeNestedLoop''
      | HashJoinMemorySpill \<Rightarrow> ''HashJoinMemorySpill''
      | HighStartupCost \<Rightarrow> ''HighStartupCost''
      | ExpensiveOperation \<Rightarrow> ''ExpensiveOperation''
      | HighCostVariability \<Rightarrow> ''HighCostVariability''
      | MemorySpill \<Rightarrow> ''MemorySpill''
      | LargeSort \<Rightarrow> ''LargeSort''
      | LargeAggregation \<Rightarrow> ''LargeAggregation''
      | InefficientParallelism \<Rightarrow> ''InefficientParallelism''
      | MissedParallelization \<Rightarrow> ''MissedParallelization''
      | Custom s \<Rightarrow> ''Custom('' @ quote s @ '')'')"

record NodePath =
  path_indices :: "nat list"
  path_description :: string

definition root_path :: NodePath where
  "root_path = \<lparr>path_indices = [], path_description = ''Root node''\<rparr>"

definition child_of :: "NodePath \<Rightarrow> nat \<Rightarrow> string \<Rightarrow> NodePath" where
  "child_of p i d =
     \<lparr>path_indices = path_indices p @ [i], path_description = path_description p @ '' -> '' @ d\<rparr>"

record Finding =
  finding_type :: FindingType
  severity :: Severity
  title :: string
  finding_description :: string
  suggestion :: string
  affected_nodes :: "NodePath list"
  evidence :: "string \<rightharpoonup> f64"
  finding_metadata :: "string \<rightharpoonup> string"

definition new_finding :: "FindingType \<Rightarrow> Severity \<Rightarrow> string \<Rightarrow> string \<Rightarrow> string \<Rightarrow> Finding" where
  "new_finding ft sev t d s =
     \<lparr>finding_type = ft, severity = sev, title = t, finding_description = d, suggestion = s,
      affected_nodes = [], evidence = Map.empty, finding_metadata = Map.empty\<rparr>"

definition with_node :: "Finding \<Rightarrow> NodePath \<Rightarrow> Finding" where
  "with_node f p = f\<lparr>affected_nodes := affected_nodes f @ [p]\<rparr>"

definition with_evidence :: "Finding \<Rightarrow> string \<Rightarrow> f64 \<Rightarrow> Finding" where
  "with_evidence f k x = f\<lparr>evidence := (evidence f)(k \<mapsto> x)\<rparr>"

definition with_metadata :: "Finding \<Rightarrow> string \<Rightarrow> string \<Rightarrow> Finding" where
  "with_metadata f k x = f\<lparr>finding_metadata := (finding_metadata f)(k \<mapsto> x)\<rparr>"

section \<open>Reports\<close>

record AnalysisReport =
  analyzer_name :: string
  findings :: "Finding list"
  report_metrics :: "string \<rightharpoonup> f64"
  report_metadata :: "string \<rightharpoonup> string"

definition new_report :: "string \<Rightarrow> AnalysisReport" where
  "new_report n =
     \<lparr>analyzer_name = n, findings = [], report_metrics = Map.empty, report_metadata = Map.empty\<rparr>"

definition add_finding :: "AnalysisReport \<Rightarrow> Finding \<Rightarrow> AnalysisReport" where
  "add_finding r f = r\<lparr>findings := findings r @ [f]\<rparr>"

definition with_metric :: "AnalysisReport \<Rightarrow> string \<Rightarrow> f64 \<Rightarrow> AnalysisReport" where
  "with_metric r k x = r\<lparr>report_metrics := (report_metrics r)(k \<mapsto> x)\<rparr>"

definition report_with_metadata :: "AnalysisReport \<Rightarrow> string \<Rightarrow> string \<Rightarrow> AnalysisReport" where
  "report_with_metadata r k x = r\<lparr>report_metadata := (report_metadata r)(k \<mapsto> x)\<rparr>"

text \<open>\<open>Iterator::max\<close>: the last of the maximal elements.\<close>

definition iter_max :: "'a::linorder list \<Rightarrow> 'a option" where
  "iter_max xs = (case xs of [] \<Rightarrow> None | x # xs \<Rightarrow> Some (foldl max x xs))"

definition max_severity :: "AnalysisReport \<Rightarrow> Severity option" where
  "max_severity r = iter_max (map severity (findings r))"

text \<open>\<open>*counts.entry(k).or_insert(0) += 1\<close>.\<close>

definition count_entry :: "('k \<rightharpoonup> nat) \<Rightarrow> 'k \<Rightarrow> ('k \<rightharpoonup> nat)" where
  "count_entry m k = m(k \<mapsto> (case m k of Some n \<Rightarrow> n | None \<Rightarrow> 0) + 1)"

definition severity_counts :: "AnalysisReport \<Rightarrow> (Severity \<rightharpoonup> nat)" where
  "severity_counts r = foldl (\<lambda>m f. count_entry m (severity f)) Map.empty (findings r)"

definition findings_of_type :: "AnalysisReport \<Rightarrow> FindingType \<Rightarrow> Finding list" where
  "findings_of_type r ft = filter (\<lambda>f. finding_type f = ft) (findings r)"

section \<open>The context of an analysis\<close>

record AnalysisContext =
  work_mem_kb :: nat
  max_parallel_workers :: nat
  pg_version :: string
  query_duration_ms :: "f64 option"
  config_params :: "string \<rightharpoonup> string"

definition default_context :: AnalysisContext where
  "default_context =
     \<lparr>work_mem_kb = 4096, max_parallel_workers = 2, pg_version = ''14.0'', query_duration_ms = None,
      config_params = Map.empty\<rparr>"

definition with_work_mem_kb :: "AnalysisContext \<Rightarrow> nat \<Rightarrow> AnalysisContext" where
  "with_work_mem_kb c n = c\<lparr>work_mem_kb := n\<rparr>"

definition with_parallel_workers :: "AnalysisContext \<Rightarrow> nat \<Rightarrow> AnalysisContext" where
  "with_parallel_workers c n = c\<lparr>max_parallel_workers := n\<rparr>"

definition with_pg_version :: "AnalysisContext \<Rightarrow> string \<Rightarrow> AnalysisContext" where
  "with_pg_version c s = c\<lparr>pg_version := s\<rparr>"

definition with_query_duration :: "AnalysisContext \<Rightarrow> f64 \<Rightarrow> AnalysisContext" where
  "with_query_duration c d = c\<lparr>query_duration_ms := Some d\<rparr>"

definition with_config_param :: "AnalysisContext \<Rightarrow> string \<Rightarrow> string \<Rightarrow> AnalysisContext" where
  "with_config_param c k x = c\<lparr>config_params := (config_params c)(k \<mapsto> x)\<rparr>"

section \<open>Combined results\<close>

datatype PerformanceAssessment = Excellent | Good | Fair | Poor | Critical_Performance

record AnalysisSummary =
  total_findings :: nat
  all_severity_counts :: "Severity \<rightharpoonup> nat"
  type_counts :: "string \<rightharpoonup> nat"
  top_issues :: "Finding list"
  performance_assessment :: PerformanceAssessment

record CombinedAnalysisResult =
  reports :: "AnalysisReport list"
  summary :: AnalysisSummary

definition assess_performance :: "(Severity \<rightharpoonup> nat) \<Rightarrow> PerformanceAssessment" where
  "assess_performance counts =
     (let c = (case counts Critical of Some n \<Rightarrow> n | None \<Rightarrow> 0);
          h = (case counts High of Some n \<Rightarrow> n | None \<Rightarrow> 0);
          m = (case counts Medium of Some n \<Rightarrow> n | None \<Rightarrow> 0)
      in if 3 \<le> c then Critical_Performance
         else if 1 \<le> c \<or> 5 \<le> h then Poor
         else if c = 0 \<and> (2 \<le> h \<or> 5 \<le> m) then Fair
         else if c = 0 \<and> (1 \<le> h \<or> 2 \<le> m) then Good
         else Excellent)"

text \<open>\<open>sort_by\<close> is stable: equal severities keep their order, greater ones come first.\<close>

definition by_severity_desc :: "Finding list \<Rightarrow> Finding list" where
  "by_severity_desc fs = sort_key (\<lambda>f. 3 - severity_level (severity f)) fs"

definition calculate_summary :: "(string \<Rightarrow> string) \<Rightarrow> AnalysisReport list \<Rightarrow> AnalysisSummary" where
  "calculate_summary quote rs =
     (let all_findings = concat (map findings rs);
          counts = foldl (\<lambda>m f. count_entry m (severity f)) Map.empty all_findings;
          types = foldl (\<lambda>m f. count_entry m (finding_type_key quote (finding_type f))) Map.empty all_findings
      in \<lparr>total_findings = length all_findings, all_severity_counts = counts, type_counts = types,
          top_issues = take 5 (by_severity_desc all_findings),
          performance_assessment = assess_performance counts\<rparr>)"

definition combine_reports :: "(string \<Rightarrow> string) \<Rightarrow> AnalysisReport list \<Rightarrow> CombinedAnalysisResult" where
  "combine_reports quote rs = \<lparr>reports = rs, summary = calculate_summary quote rs\<rparr>"

definition all_findings :: "CombinedAnalysisResult \<Rightarrow> Finding list" where
  "all_findings c = concat (map findings (reports c))"

definition findings_by_severity :: "CombinedAnalysisResult \<Rightarrow> Severity \<Rightarrow> Finding list" where
  "findings_by_severity c s = filter (\<lambda>f. severity f = s) (all_findings c)"

definition findings_by_type :: "CombinedAnalysisResult \<Rightarrow> FindingType \<Rightarrow> Finding list" where
  "findings_by_type c ft = filter (\<lambda>f. finding_type f = ft) (all_findings c)"

section \<open>Counting\<close>

definition tally :: "('k \<rightharpoonup> nat) \<Rightarrow> 'k \<Rightarrow> nat" where
  "tally m k = (case m k of Some n \<Rightarrow> n | None \<Rightarrow> 0)"

lemma tally_entry: "tally (count_entry m k) j = tally m j + (if j = k then 1 else 0)"
  by (simp add: tally_def count_entry_def)

lemma tally_fold:
  "tally (foldl (\<lambda>m x. count_entry m (key x)) m xs) k = tally m k + length (filter (\<lambda>x. key x = k) xs)"
  by (induction xs arbitrary: m) (auto simp: tally_entry)

lemma tally_counts:
  "tally (foldl (\<lambda>m x. count_entry m (key x)) Map.empty xs) k = length (filter (\<lambda>x. key x = k) xs)"
  by (simp add: tally_fold) (simp add: tally_def)

lemma counted_positive:
  "foldl (\<lambda>m x. count_entry m (key x)) m xs k = Some n \<Longrightarrow> (\<And>n. m k = Some n \<Longrightarrow> 0 < n) \<Longrightarrow> 0 < n"
proof (induction xs arbitrary: m)
  case (Cons x xs)
  have "0 < j" if "count_entry m (key x) k = Some j" for j
    using that Cons.prems(2) by (auto simp: count_entry_def split: if_splits)
  then show ?case using Cons.IH [of "count_entry m (key x)"] Cons.prems(1) by simp
qed auto

lemma counts_eq:
  "foldl (\<lambda>m x. count_entry m (key x)) Map.empty xs =
     (\<lambda>k. let n = length (filter (\<lambda>x. key x = k) xs) in if n = 0 then None else Some n)"
proof
  fix k
  show "foldl (\<lambda>m x. count_entry m (key x)) Map.empty xs k =
     (let n = length (filter (\<lambda>x. key x = k) xs) in if n = 0 then None else Some n)"
    using tally_counts [of key xs k] counted_positive [of key Map.empty xs k]
    by (auto simp: tally_def Let_def split: option.splits)
qed

text \<open>The assessment as a function of the three numbers it looks at, and its order.\<close>

lemma assess_tally:
  "assess_performance counts =
     (let c = tally counts Critical; h = tally counts High; m = tally counts Medium
      in if 3 \<le> c then Critical_Performance else if 1 \<le> c \<or> 5 \<le> h then Poor
         else if 2 \<le> h \<or> 5 \<le> m then Fair else if 1 \<le> h \<or> 2 \<le> m then Good else Excellent)"
  by (simp add: assess_performance_def tally_def Let_def)

definition assessment_level :: "PerformanceAssessment \<Rightarrow> nat" where
  "assessment_level a =
     (case a of Excellent \<Rightarrow> 0 | Good \<Rightarrow> 1 | Fair \<Rightarrow> 2 | Poor \<Rightarrow> 3 | Critical_Performance \<Rightarrow> 4)"

lemma assess_mono:
  assumes "\<And>s. tally a s \<le> tally b s"
  shows "assessment_level (assess_performance a) \<le> assessment_level (assess_performance b)"
  using assms [of Critical] assms [of High] assms [of Medium]
  by (auto simp: assess_tally assessment_level_def Let_def)

section \<open>The most severe findings\<close>

lemma by_severity_sorted: "sorted_wrt (\<lambda>f g. severity g \<le> severity f) (by_severity_desc fs)"
proof -
  have "sorted (map (\<lambda>f. 3 - severity_level (severity f)) (by_severity_desc fs))"
    by (simp add: by_severity_desc_def)
  then have "sorted_wrt (\<lambda>f g. 3 - severity_level (severity f) \<le> 3 - severity_level (severity g)) (by_severity_desc fs)"
    by (simp add: sorted_map)
  moreover have "severity_level s \<le> 3" for s by (cases s) (simp_all add: severity_level_def)
  ultimately show ?thesis
    by (auto simp: less_eq_Severity_def elim!: sorted_wrt_mono_rel [rotated]) (metis diff_diff_cancel diff_le_mono2)
qed

lemma by_severity_mset: "mset (by_severity_desc fs) = mset fs"
  by (simp add: by_severity_desc_def)

lemma by_severity_stable:
  "filter (\<lambda>f. severity f = s) (by_severity_desc fs) = filter (\<lambda>f. severity f = s) fs"
proof -
  have "filter (\<lambda>f. 3 - severity_level (severity f) = 3 - severity_level s) (by_severity_desc fs) =
      filter (\<lambda>f. 3 - severity_level (severity f) = 3 - severity_level s) fs"
    unfolding by_severity_desc_def by (rule sort_key_stable)
  moreover have "3 - severity_level t = 3 - severity_level s \<longleftrightarrow> t = s" for t
    by (cases t; cases s) (simp_all add: severity_level_def)
  ultimately show ?thesis by simp
qed

end
