(* ===== verification/Plan_Traversal.thy ===== *)
theory Plan_Traversal
  imports Analysis_Report
begin

text \<open>
  The traversals of a plan tree in \<open>crates/core/src/analysis/traversal.rs\<close>: the iterative depth-first
  and breadth-first walks with their visitor callbacks, the searches, and the relations between nodes
  given by their paths. A stack is a list with its top first (\<open>push_back\<close> and \<open>pop_back\<close> work on the
  head), a queue a list with its front first. A visitor that borrows itself mutably is a function on
  its state.
\<close>

section \<open>Visitors and places\<close>

type_synonym place = "PlanNode \<times> NodePath"

record 's NodeVisitor =
  visit_node :: "'s \<Rightarrow> PlanNode \<Rightarrow> NodePath \<Rightarrow> AnalysisContext \<Rightarrow> 's"
  enter_node :: "'s \<Rightarrow> PlanNode \<Rightarrow> NodePath \<Rightarrow> AnalysisContext \<Rightarrow> 's"
  exit_node :: "'s \<Rightarrow> PlanNode \<Rightarrow> NodePath \<Rightarrow> AnalysisContext \<Rightarrow> 's"

definition visiting :: "('s \<Rightarrow> PlanNode \<Rightarrow> NodePath \<Rightarrow> AnalysisContext \<Rightarrow> 's) \<Rightarrow> 's NodeVisitor" where
  "visiting f = \<lparr>visit_node = f, enter_node = (\<lambda>s _ _ _. s), exit_node = (\<lambda>s _ _ _. s)\<rparr>"

type_synonym ('s, 't) NodeCollector = "'s \<Rightarrow> PlanNode \<Rightarrow> NodePath \<Rightarrow> AnalysisContext \<Rightarrow> 's \<times> 't option"

text \<open>The children of a node with their paths, in the order of the loops over
  \<open>children.iter().enumerate()\<close>.\<close>

definition child_places :: "PlanNode \<Rightarrow> NodePath \<Rightarrow> place list" where
  "child_places n p = map (\<lambda>(i, c). (c, child_of p i (description c))) (List.enumerate 0 (children n))"

definition push_all :: "'a list \<Rightarrow> 'a list \<Rightarrow> 'a list" where
  "push_all xs stack = foldl (\<lambda>stack x. x # stack) stack xs"

lemma push_all_eq: "push_all xs stack = rev xs @ stack"
  by (induction xs arbitrary: stack) (simp_all add: push_all_def)

lemma child_places_nodes [simp]: "map fst (child_places n p) = children n"
  by (simp add: child_places_def case_prod_unfold comp_def)

lemma child_place_smaller [termination_simp]:
  assumes "x \<in> set (child_places n p)"
  shows "count_nodes (fst x) < count_nodes n"
proof -
  have "fst x \<in> set (children n)" using assms by (metis child_places_nodes image_eqI set_map)
  then have "count_nodes (fst x) \<le> sum_list (map count_nodes (children n))" by (intro member_le_sum_list) auto
  then show ?thesis by (cases n) simp
qed

lemma weight_children:
  "sum_list (map (\<lambda>x. count_nodes (fst x)) (child_places n p)) = count_nodes n - 1"
proof -
  have "sum_list (map (\<lambda>x. count_nodes (fst x)) (child_places n p)) = sum_list (map count_nodes (children n))"
    by (simp only: child_places_nodes [symmetric, of n p] map_map comp_def)
  then show ?thesis by (cases n) simp
qed

lemma count_positive: "0 < count_nodes n" by (cases n) simp

section \<open>The walks\<close>

datatype StackFrame = Enter PlanNode NodePath | Visit PlanNode NodePath | Exit PlanNode NodePath

definition push_frames :: "place list \<Rightarrow> StackFrame list \<Rightarrow> StackFrame list" where
  "push_frames xs stack = foldl (\<lambda>stack (c, p). Enter c p # Visit c p # Exit c p # stack) stack (rev xs)"

text \<open>A frame stands for at most this many turns of the loop.\<close>

fun frame_turns :: "StackFrame \<Rightarrow> nat" where
  "frame_turns (Enter n p) = 3 * count_nodes n - 2"
| "frame_turns (Visit n p) = 1"
| "frame_turns (Exit n p) = 1"

lemma push_frames_eq:
  "push_frames xs stack = concat (map (\<lambda>(c, p). [Enter c p, Visit c p, Exit c p]) xs) @ stack"
  by (induction xs arbitrary: stack) (auto simp: push_frames_def)

lemma pushed_turns:
  "sum_list (map frame_turns (push_frames xs stack)) =
     3 * sum_list (map (\<lambda>x. count_nodes (fst x)) xs) + sum_list (map frame_turns stack)"
proof -
  have "sum_list (map frame_turns (concat (map (\<lambda>(c, p). [Enter c p, Visit c p, Exit c p]) xs))) =
      3 * sum_list (map (\<lambda>x. count_nodes (fst x)) xs)"
  proof (induction xs)
    case (Cons x xs)
    then show ?case using count_positive [of "fst x"] by (cases x) simp
  qed simp
  then show ?thesis by (simp add: push_frames_eq)
qed

function depth_first_loop :: "'s NodeVisitor \<Rightarrow> AnalysisContext \<Rightarrow> StackFrame list \<Rightarrow> 's \<Rightarrow> 's" where
  "depth_first_loop V ctx [] s = s"
| "depth_first_loop V ctx (Enter n p # stack) s =
     depth_first_loop V ctx (push_frames (child_places n p) stack) (enter_node V s n p ctx)"
| "depth_first_loop V ctx (Visit n p # stack) s = depth_first_loop V ctx stack (visit_node V s n p ctx)"
| "depth_first_loop V ctx (Exit n p # stack) s = depth_first_loop V ctx stack (exit_node V s n p ctx)"
  by pat_completeness auto
termination
proof (relation "measure (\<lambda>(V, ctx, stack, s). sum_list (map frame_turns stack))", goal_cases)
  case (2 V ctx n p stack s)
  then show ?case using count_positive [of n] by (simp add: pushed_turns weight_children)
qed auto

definition depth_first :: "ParsedPlan \<Rightarrow> 's NodeVisitor \<Rightarrow> AnalysisContext \<Rightarrow> 's \<Rightarrow> 's" where
  "depth_first plan V ctx s =
     depth_first_loop V ctx
       [Enter (root plan) root_path, Visit (root plan) root_path, Exit (root plan) root_path] s"

abbreviation place_weight :: "place list \<Rightarrow> nat" where
  "place_weight xs \<equiv> sum_list (map (\<lambda>x. count_nodes (fst x)) xs)"

lemma place_weight_rev: "place_weight (rev xs) = place_weight xs"
  by (simp flip: rev_map add: sum_list_rev)

lemma children_lighter: "place_weight (child_places n p) < count_nodes n"
  using count_positive [of n] by (simp add: weight_children)

function breadth_first_loop :: "'s NodeVisitor \<Rightarrow> AnalysisContext \<Rightarrow> place list \<Rightarrow> 's \<Rightarrow> 's" where
  "breadth_first_loop V ctx [] s = s"
| "breadth_first_loop V ctx ((n, p) # queue) s =
     (let s = enter_node V s n p ctx;
          s = visit_node V s n p ctx;
          queue = queue @ child_places n p
      in breadth_first_loop V ctx queue (exit_node V s n p ctx))"
  by pat_completeness auto
termination
  by (relation "measure (\<lambda>(V, ctx, queue, s). place_weight queue)") (auto simp: children_lighter)

definition breadth_first :: "ParsedPlan \<Rightarrow> 's NodeVisitor \<Rightarrow> AnalysisContext \<Rightarrow> 's \<Rightarrow> 's" where
  "breadth_first plan V ctx s = breadth_first_loop V ctx [(root plan, root_path)] s"

function collect_loop ::
  "('s, 't) NodeCollector \<Rightarrow> AnalysisContext \<Rightarrow> place list \<Rightarrow> 's \<Rightarrow> 't list \<Rightarrow> 's \<times> 't list" where
  "collect_loop C ctx [] s results = (s, results)"
| "collect_loop C ctx ((n, p) # stack) s results =
     (let (s, r) = C s n p ctx;
          results = (case r of Some r \<Rightarrow> results @ [r] | None \<Rightarrow> results)
      in collect_loop C ctx (push_all (rev (child_places n p)) stack) s results)"
  by pat_completeness auto
termination
  by (relation "measure (\<lambda>(C, ctx, stack, s, results). place_weight stack)") (auto simp: push_all_eq children_lighter)

definition collect :: "ParsedPlan \<Rightarrow> ('s, 't) NodeCollector \<Rightarrow> AnalysisContext \<Rightarrow> 's \<Rightarrow> 's \<times> 't list" where
  "collect plan C ctx s = collect_loop C ctx [(root plan, root_path)] s []"

function find_loop :: "(PlanNode \<Rightarrow> bool) \<Rightarrow> place list \<Rightarrow> place list \<Rightarrow> place list" where
  "find_loop P [] results = results"
| "find_loop P ((n, p) # stack) results =
     (let results = (if P n then results @ [(n, p)] else results)
      in find_loop P (push_all (rev (child_places n p)) stack) results)"
  by pat_completeness auto
termination
  by (relation "measure (\<lambda>(P, stack, results). place_weight stack)") (auto simp: push_all_eq children_lighter)

definition find_nodes :: "ParsedPlan \<Rightarrow> (PlanNode \<Rightarrow> bool) \<Rightarrow> place list" where
  "find_nodes plan P = find_loop P [(root plan, root_path)] []"

definition get_leaf_nodes :: "ParsedPlan \<Rightarrow> place list" where
  "get_leaf_nodes plan = find_nodes plan (\<lambda>n. children n = [])"

abbreviation depth_weight :: "(place \<times> nat) list \<Rightarrow> nat" where
  "depth_weight xs \<equiv> sum_list (map (\<lambda>x. count_nodes (fst (fst x))) xs)"

function depth_loop :: "nat \<Rightarrow> (place \<times> nat) list \<Rightarrow> place list \<Rightarrow> place list" where
  "depth_loop target [] results = results"
| "depth_loop target (((n, p), current_depth) # stack) results =
     (if current_depth = target then depth_loop target stack (results @ [(n, p)])
      else if current_depth < target then
        depth_loop target (push_all (rev (map (\<lambda>x. (x, current_depth + 1)) (child_places n p))) stack) results
      else depth_loop target stack results)"
  by pat_completeness auto
termination
  by (relation "measure (\<lambda>(target, stack, results). depth_weight stack)")
    (auto simp: push_all_eq count_positive comp_def children_lighter)

definition get_nodes_at_depth :: "ParsedPlan \<Rightarrow> nat \<Rightarrow> place list" where
  "get_nodes_at_depth plan target = depth_loop target [((root plan, root_path), 0)] []"

function pairs_loop :: "place list \<Rightarrow> (place \<times> place) list \<Rightarrow> (place \<times> place) list" where
  "pairs_loop [] results = results"
| "pairs_loop ((n, p) # stack) results =
     pairs_loop (push_all (child_places n p) stack) (results @ map (\<lambda>x. ((n, p), x)) (child_places n p))"
  by pat_completeness auto
termination
  by (relation "measure (\<lambda>(stack, results). place_weight stack)") (auto simp: push_all_eq place_weight_rev children_lighter)

definition get_parent_child_pairs :: "ParsedPlan \<Rightarrow> (place \<times> place) list" where
  "get_parent_child_pairs plan = pairs_loop [(root plan, root_path)] []"

section \<open>Relations between nodes\<close>

fun descend :: "PlanNode \<Rightarrow> nat list \<Rightarrow> PlanNode option" where
  "descend n [] = Some n"
| "descend n (i # path) = (if length (children n) \<le> i then None else descend (children n ! i) path)"

definition get_node_at_path :: "ParsedPlan \<Rightarrow> nat list \<Rightarrow> PlanNode option" where
  "get_node_at_path plan path = descend (root plan) path"

definition get_parent :: "ParsedPlan \<Rightarrow> NodePath \<Rightarrow> PlanNode option" where
  "get_parent plan p =
     (if path_indices p = [] then None else get_node_at_path plan (butlast (path_indices p)))"

definition get_siblings :: "ParsedPlan \<Rightarrow> NodePath \<Rightarrow> PlanNode list" where
  "get_siblings plan p =
     (case get_parent plan p of
        Some parent \<Rightarrow>
          (let self_index = (case rev (path_indices p) of i # _ \<Rightarrow> i | [] \<Rightarrow> 0)
           in map snd (filter (\<lambda>(i, _). i \<noteq> self_index) (List.enumerate 0 (children parent))))
      | None \<Rightarrow> [])"

function ancestors_loop :: "ParsedPlan \<Rightarrow> nat list \<Rightarrow> PlanNode list \<Rightarrow> PlanNode list" where
  "ancestors_loop plan path acc =
     (if path = [] then acc
      else
        (let path = butlast path
         in ancestors_loop plan path
              (case get_node_at_path plan path of Some a \<Rightarrow> acc @ [a] | None \<Rightarrow> acc)))"
  by pat_completeness auto
termination
  by (relation "measure (\<lambda>(plan, path, acc). length path)") auto

definition get_ancestors :: "ParsedPlan \<Rightarrow> NodePath \<Rightarrow> PlanNode list" where
  "get_ancestors plan p = ancestors_loop plan (path_indices p) []"

fun get_descendants :: "PlanNode \<Rightarrow> PlanNode list" where
  "get_descendants (PlanNode nt c a cs ps t) = concat (map (\<lambda>child. child # get_descendants child) cs)"

definition is_ancestor :: "NodePath \<Rightarrow> NodePath \<Rightarrow> bool" where
  "is_ancestor a d =
     (if length (path_indices d) \<le> length (path_indices a) then False
      else take (length (path_indices a)) (path_indices d) = path_indices a)"

section \<open>Ready-made visitors\<close>

definition counting_visitor :: "(PlanNode \<Rightarrow> bool) \<Rightarrow> nat NodeVisitor" where
  "counting_visitor P = visiting (\<lambda>k n p ctx. if P n then k + 1 else k)"

definition node_metrics :: "PlanNode \<Rightarrow> NodePath \<Rightarrow> (NodePath \<times> string \<times> f64) list" where
  "node_metrics n p =
     [(p, ''total_cost'', total_cost (cost n)), (p, ''startup_cost'', startup_cost (cost n)),
      (p, ''estimated_rows'', f_of_nat (estimated_rows (cost n))),
      (p, ''estimated_width'', f_of_nat (estimated_width (cost n)))] @
     (case actuals n of
        Some a \<Rightarrow>
          (case actual_time_ms a of Some t \<Rightarrow> [(p, ''actual_time_ms'', t)] | None \<Rightarrow> []) @
          (case actual_rows a of Some r \<Rightarrow> [(p, ''actual_rows'', f_of_nat r)] | None \<Rightarrow> []) @
          (case actual_loops a of Some l \<Rightarrow> [(p, ''actual_loops'', f_of_nat l)] | None \<Rightarrow> [])
      | None \<Rightarrow> [])"

definition metrics_collector :: "(NodePath \<times> string \<times> f64) list NodeVisitor" where
  "metrics_collector = visiting (\<lambda>ms n p ctx. ms @ node_metrics n p)"

section \<open>The reference orders\<close>

abbreviation kids :: "place \<Rightarrow> place list" where "kids x \<equiv> child_places (fst x) (snd x)"

abbreviation path_of :: "place \<Rightarrow> nat list" where "path_of x \<equiv> path_indices (snd x)"

text \<open>All places below a place, in pre-order; the calls of a recursive depth-first walk; the places
  \<open>k\<close> levels further down, from left to right.\<close>

function located :: "place \<Rightarrow> place list" where
  "located (n, p) = (n, p) # concat (map located (child_places n p))"
  by pat_completeness auto
termination by (relation "measure (\<lambda>x. count_nodes (fst x))") (auto intro: child_place_smaller)

datatype Call = Entered place | Visited place | Exited place

function callbacks :: "place \<Rightarrow> Call list" where
  "callbacks (n, p) =
     Entered (n, p) # concat (map callbacks (child_places n p)) @ [Visited (n, p), Exited (n, p)]"
  by pat_completeness auto
termination by (relation "measure (\<lambda>x. count_nodes (fst x))") (auto intro: child_place_smaller)

fun run_call :: "'s NodeVisitor \<Rightarrow> AnalysisContext \<Rightarrow> Call \<Rightarrow> 's \<Rightarrow> 's" where
  "run_call V ctx (Entered x) s = enter_node V s (fst x) (snd x) ctx"
| "run_call V ctx (Visited x) s = visit_node V s (fst x) (snd x) ctx"
| "run_call V ctx (Exited x) s = exit_node V s (fst x) (snd x) ctx"

fun level :: "nat \<Rightarrow> place list \<Rightarrow> place list" where
  "level 0 xs = xs"
| "level (Suc k) xs = level k (concat (map kids xs))"

lemma located_unfold: "located x = x # concat (map located (kids x))"
  by (cases x) simp

lemma child_path: "c \<in> set (kids x) \<Longrightarrow> length (path_of c) = Suc (length (path_of x))"
  by (auto simp: child_places_def child_of_def)

lemma place_induct [case_names place]:
  assumes "\<And>x. (\<And>c. c \<in> set (kids x) \<Longrightarrow> P c) \<Longrightarrow> P x"
  shows "P x"
  using assms by (induction x rule: located.induct) (metis fst_conv snd_conv)

lemma nodes_located: "map fst (located x) = nodes (fst x)"
proof (induction x rule: place_induct)
  case (place x)
  then have "map fst (concat (map located (kids x))) = concat (map (\<lambda>c. nodes (fst c)) (kids x))"
    by (simp add: map_concat comp_def cong: map_cong)
  also have "\<dots> = concat (map nodes (children (fst x)))"
    by (simp only: child_places_nodes [symmetric, of "fst x" "snd x"] map_map comp_def)
  finally show ?case by (simp add: located_unfold [of x] nodes_unfold [of "fst x"])
qed

section \<open>The loops compute the reference orders\<close>

lemma find_loop_eq: "find_loop P stack acc = acc @ filter (\<lambda>x. P (fst x)) (concat (map located stack))"
  by (induction P stack acc rule: find_loop.induct) (simp_all add: push_all_eq Let_def)

lemma find_nodes_eq: "find_nodes plan P = filter (\<lambda>x. P (fst x)) (located (root plan, root_path))"
  by (simp add: find_nodes_def find_loop_eq del: located.simps)

fun gather ::
  "('s, 't) NodeCollector \<Rightarrow> AnalysisContext \<Rightarrow> 's \<times> 't list \<Rightarrow> place \<Rightarrow> 's \<times> 't list" where
  "gather C ctx (s, results) x =
     (let (s, r) = C s (fst x) (snd x) ctx
      in (s, case r of Some r \<Rightarrow> results @ [r] | None \<Rightarrow> results))"

lemma collect_loop_eq:
  "collect_loop C ctx stack s acc = foldl (gather C ctx) (s, acc) (concat (map located stack))"
proof (induction C ctx stack s acc rule: collect_loop.induct)
  case (2 C ctx n p stack s acc)
  obtain s' r where "C s n p ctx = (s', r)" by fastforce
  then show ?case using 2 by (simp add: push_all_eq)
qed simp

lemma level_step: "concat (map kids (level k xs)) = level (Suc k) xs"
  by (induction k arbitrary: xs) simp_all

lemma level_append: "level k (xs @ ys) = level k xs @ level k ys"
  by (induction k arbitrary: xs ys) simp_all

lemma level_Nil [simp]: "level k [] = []"
  by (induction k) simp_all

lemma level_concat: "level k xs = concat (map (\<lambda>x. level k [x]) xs)"
  by (induction xs) (simp, subst level_append [of k "[_]", simplified], simp)

lemma depth_loop_eq:
  "depth_loop target stack acc =
     acc @ concat (map (\<lambda>(x, d). if d \<le> target then level (target - d) [x] else []) stack)"
proof (induction target stack acc rule: depth_loop.induct)
  case (2 target n p d stack acc)
  show ?case
  proof (cases "d < target")
    case True
    then obtain k where k: "target - d = Suc k" "target - Suc d = k" by (metis Suc_diff_Suc)
    have "concat (map (\<lambda>x. level k [x]) (child_places n p)) = level k (child_places n p)"
      by (rule level_concat [symmetric])
    then show ?thesis using 2 True k by (simp add: push_all_eq comp_def)
  qed (use 2 in auto)
qed simp

lemma located_longer: "y \<in> set (located x) \<Longrightarrow> length (path_of x) \<le> length (path_of y)"
proof (induction x rule: place_induct)
  case (place x)
  then consider "y = x" | c where "c \<in> set (kids x)" "y \<in> set (located c)"
    by (auto simp: located_unfold [of x])
  then show ?case by cases (use place.IH child_path [of _ x] in force)+
qed

lemma level_located:
  "level k [x] = filter (\<lambda>y. length (path_of y) = length (path_of x) + k) (located x)"
proof (induction x arbitrary: k rule: place_induct)
  case (place x)
  have deeper: "length (path_of x) < length (path_of y)" if "c \<in> set (kids x)" "y \<in> set (located c)" for c y
    using located_longer [OF that(2)] child_path [OF that(1)] by simp
  show ?case
  proof (cases k)
    case 0
    have "filter (\<lambda>y. length (path_of y) = length (path_of x)) (concat (map located (kids x))) = []"
      unfolding filter_empty_conv
    proof
      fix y
      assume "y \<in> set (concat (map located (kids x)))"
      then obtain c where "c \<in> set (kids x)" "y \<in> set (located c)" by (simp only: set_concat set_map image_image) blast
      from deeper [OF this] show "length (path_of y) \<noteq> length (path_of x)" by simp
    qed
    then show ?thesis using 0 by (simp add: located_unfold [of x])
  next
    case (Suc j)
    have "level k [x] = concat (map (\<lambda>c. level j [c]) (kids x))"
      using Suc level_concat [of j "kids x"] by simp
    also have "\<dots> = concat (map (\<lambda>c. filter (\<lambda>y. length (path_of y) = length (path_of x) + k) (located c)) (kids x))"
      using place child_path [of _ x] Suc by (intro arg_cong [of _ _ concat] map_cong) simp_all
    finally show ?thesis using Suc by (simp add: located_unfold [of x] filter_concat comp_def)
  qed
qed

lemma nodes_at_depth_eq:
  "get_nodes_at_depth plan k = filter (\<lambda>y. length (path_of y) = k) (located (root plan, root_path))"
  using level_located [of k "(root plan, root_path)"]
  by (simp add: get_nodes_at_depth_def depth_loop_eq root_path_def del: located.simps)

function bfs_order :: "place list \<Rightarrow> place list" where
  "bfs_order [] = []"
| "bfs_order (x # queue) = x # bfs_order (queue @ kids x)"
  by pat_completeness auto
termination by (relation "measure place_weight") (auto simp: children_lighter)

lemma bfs_loop_eq:
  "breadth_first_loop V ctx queue s =
     fold (\<lambda>x s. run_call V ctx (Exited x) (run_call V ctx (Visited x) (run_call V ctx (Entered x) s)))
       (bfs_order queue) s"
  by (induction V ctx queue s rule: breadth_first_loop.induct) (simp_all add: Let_def)

lemma bfs_order_append: "bfs_order (xs @ ys) = xs @ bfs_order (ys @ concat (map kids xs))"
  by (induction xs arbitrary: ys) simp_all

lemma bfs_order_levels: "bfs_order xs = concat (map (\<lambda>k. level k xs) [0..<n]) @ bfs_order (level n xs)"
proof (induction n)
  case (Suc n)
  have "bfs_order (level n xs) = level n xs @ bfs_order (concat (map kids (level n xs)))"
    using bfs_order_append [of "level n xs" "[]"] by simp
  then show ?case using Suc by (simp add: level_step del: level.simps)
qed simp

lemma level_ends: "max_depth (fst x) \<le> k \<Longrightarrow> level k [x] = []"
proof (induction k arbitrary: x)
  case 0
  then show ?case using max_depth_pos [of "fst x"] by simp
next
  case (Suc k)
  have "level k [c] = []" if "c \<in> set (kids x)" for c
  proof -
    have "fst c \<in> set (children (fst x))" using that by (metis child_places_nodes image_eqI set_map)
    then show ?thesis using Suc by (simp add: max_depth_le)
  qed
  then show ?case using level_concat [of k "kids x"] by simp
qed

lemma breadth_first_eq:
  "breadth_first plan V ctx s =
     fold (\<lambda>x s. run_call V ctx (Exited x) (run_call V ctx (Visited x) (run_call V ctx (Entered x) s)))
       (concat (map (get_nodes_at_depth plan) [0..<plan_max_depth plan])) s"
proof -
  let ?r = "(root plan, root_path)"
  have "bfs_order [?r] = concat (map (\<lambda>k. level k [?r]) [0..<plan_max_depth plan])"
    using bfs_order_levels [of "[?r]" "plan_max_depth plan"] level_ends [of ?r] by (simp add: plan_max_depth_def)
  moreover have "level k [?r] = get_nodes_at_depth plan k" for k
    by (simp add: get_nodes_at_depth_def depth_loop_eq)
  ultimately show ?thesis by (simp only: breadth_first_def bfs_loop_eq)
qed

fun frame_calls :: "StackFrame \<Rightarrow> Call list" where
  "frame_calls (Enter n p) = Entered (n, p) # concat (map callbacks (child_places n p))"
| "frame_calls (Visit n p) = [Visited (n, p)]"
| "frame_calls (Exit n p) = [Exited (n, p)]"

lemma pushed_calls:
  "concat (map frame_calls (push_frames xs stack)) =
     concat (map callbacks xs) @ concat (map frame_calls stack)"
proof -
  have "concat (map frame_calls (concat (map (\<lambda>(c, p). [Enter c p, Visit c p, Exit c p]) xs))) =
      concat (map callbacks xs)"
    by (induction xs) auto
  then show ?thesis by (simp add: push_frames_eq)
qed

lemma depth_first_loop_eq:
  "depth_first_loop V ctx stack s = fold (run_call V ctx) (concat (map frame_calls stack)) s"
  by (induction V ctx stack s rule: depth_first_loop.induct) (simp_all add: pushed_calls)

lemma depth_first_eq:
  "depth_first plan V ctx s = fold (run_call V ctx) (callbacks (root plan, root_path)) s"
  by (simp add: depth_first_def depth_first_loop_eq)

section \<open>Paths\<close>

declare located.simps [simp del] callbacks.simps [simp del]

lemma located_cases:
  assumes "y \<in> set (located x)"
  obtains "y = x" | i where "i < length (children (fst x))"
    "y \<in> set (located (children (fst x) ! i, child_of (snd x) i (description (children (fst x) ! i))))"
proof -
  from assms have "y = x \<or> (\<exists>c \<in> set (kids x). y \<in> set (located c))"
    by (simp add: located_unfold [of x])
  then show thesis
  proof
    assume "\<exists>c \<in> set (kids x). y \<in> set (located c)"
    then obtain c where c: "c \<in> set (kids x)" "y \<in> set (located c)" by blast
    then obtain i where "i < length (children (fst x))"
      "c = (children (fst x) ! i, child_of (snd x) i (description (children (fst x) ! i)))"
      by (auto simp: child_places_def in_set_enumerate_eq)
    then show thesis using c that(2) by blast
  qed (rule that(1))
qed

lemma kid_nth: "i < length (children (fst x)) \<Longrightarrow>
  (children (fst x) ! i, child_of (snd x) i (description (children (fst x) ! i))) \<in> set (kids x)"
  by (force simp: child_places_def in_set_enumerate_eq)

lemma located_descend:
  assumes "y \<in> set (located x)"
  shows "\<exists>is. path_of y = path_of x @ is \<and> descend (fst x) is = Some (fst y)"
  using assms
proof (induction x rule: place_induct)
  case (place x)
  from place.prems show ?case
  proof (cases rule: located_cases)
    case 1
    then show ?thesis by (intro exI [of _ "[]"]) simp
  next
    case (2 i)
    from place.IH [OF kid_nth [OF 2(1)] 2(2)] obtain js where
      "path_of y = path_of x @ i # js" "descend (children (fst x) ! i) js = Some (fst y)"
      by (auto simp: child_of_def)
    then show ?thesis using 2(1) by (intro exI [of _ "i # js"]) simp
  qed
qed

lemma descend_located:
  assumes "descend (fst x) is = Some n"
  shows "\<exists>y \<in> set (located x). fst y = n \<and> path_of y = path_of x @ is"
  using assms
proof (induction "is" arbitrary: x)
  case Nil
  then show ?case by (simp add: located_unfold [of x])
next
  case (Cons i js)
  let ?c = "(children (fst x) ! i, child_of (snd x) i (description (children (fst x) ! i)))"
  have i: "i < length (children (fst x))" "descend (fst ?c) js = Some n"
    using Cons.prems by (auto split: if_splits)
  from Cons.IH [of ?c] i(2) obtain y where "y \<in> set (located ?c)" "fst y = n" "path_of y = path_of x @ i # js"
    by (auto simp: child_of_def)
  then show ?case using kid_nth [OF i(1)] by (simp add: located_unfold [of x]) blast
qed

lemma distinct_tagged:
  assumes "\<And>i c. (i, c) \<in> set (List.enumerate k cs) \<Longrightarrow> distinct (map h (g i c)) \<and> (\<forall>y \<in> set (g i c). tag (h y) = i)"
  shows "distinct (map h (concat (map (\<lambda>(i, c). g i c) (List.enumerate k cs))))"
  using assms
proof (induction cs arbitrary: k)
  case (Cons c cs)
  have later: "tag (h y) \<noteq> k" if "(i, c') \<in> set (List.enumerate (Suc k) cs)" "y \<in> set (g i c')" for i c' y
    using Cons.prems [of i c'] that by (auto simp: in_set_enumerate_eq)
  have "distinct (map h (g k c))" and tags: "\<forall>y \<in> set (g k c). tag (h y) = k"
    using Cons.prems [of k c] by auto
  moreover have "distinct (map h (concat (map (\<lambda>(i, c). g i c) (List.enumerate (Suc k) cs))))"
    by (rule Cons.IH, rule Cons.prems) simp
  ultimately show ?case using later by fastforce
qed simp

lemma located_distinct: "distinct (map path_of (located x))"
proof (induction x rule: place_induct)
  case (place x)
  define g where "g = (\<lambda>i c. located (c, child_of (snd x) i (description c)))"
  have tag: "path_of y ! length (path_of x) = i" and far: "path_of y \<noteq> path_of x"
    if "y \<in> set (g i c)" for i c y
    using located_descend [of y "(c, child_of (snd x) i (description c))"] that by (auto simp: g_def child_of_def)
  have "concat (map located (kids x)) = concat (map (\<lambda>(i, c). g i c) (List.enumerate 0 (children (fst x))))"
    by (simp add: child_places_def g_def case_prod_unfold comp_def)
  moreover have "distinct (map path_of (concat (map (\<lambda>(i, c). g i c) (List.enumerate 0 (children (fst x))))))"
  proof (rule distinct_tagged [where tag = "\<lambda>path. path ! length (path_of x)"])
    fix i c
    assume "(i, c) \<in> set (List.enumerate 0 (children (fst x)))"
    then have "(c, child_of (snd x) i (description c)) \<in> set (kids x)" by (force simp: child_places_def)
    then show "distinct (map path_of (g i c)) \<and> (\<forall>y \<in> set (g i c). path_of y ! length (path_of x) = i)"
      using place tag unfolding g_def by blast
  qed
  moreover have "path_of x \<notin> set (map path_of (concat (map (\<lambda>(i, c). g i c) (List.enumerate 0 (children (fst x))))))"
    using far by fastforce
  ultimately show ?case by (simp add: located_unfold [of x])
qed

section \<open>Ancestors, siblings, descendants\<close>

declare ancestors_loop.simps [simp del]

lemma descend_append: "descend n (is @ js) = Option.bind (descend n is) (\<lambda>m. descend m js)"
  by (induction n "is" rule: descend.induct) auto

lemma ancestors_loop_eq:
  "ancestors_loop plan path acc =
     acc @ List.map_filter (\<lambda>k. get_node_at_path plan (take k path)) (rev [0..<length path])"
proof (induction plan path acc rule: ancestors_loop.induct)
  case (1 plan path acc)
  show ?case
  proof (cases path rule: rev_cases)
    case (snoc init i)
    have "List.map_filter (\<lambda>k. get_node_at_path plan (take k path)) (rev [0..<length init]) =
        List.map_filter (\<lambda>k. get_node_at_path plan (take k init)) (rev [0..<length init])"
      using snoc by (auto simp: List.map_filter_def intro!: map_cong filter_cong)
    then show ?thesis using 1 snoc
      by (subst ancestors_loop.simps) (simp add: List.map_filter_simps split: option.split)
  qed (simp add: ancestors_loop.simps List.map_filter_simps)
qed

lemma map_filter_total: "(\<And>x. x \<in> set xs \<Longrightarrow> f x \<noteq> None) \<Longrightarrow> map Some (List.map_filter f xs) = map f xs"
proof (induction xs)
  case (Cons x xs)
  then obtain y where "f x = Some y" by fastforce
  with Cons show ?case by (simp add: List.map_filter_simps)
qed (simp add: List.map_filter_simps)

lemma descendants_nodes: "get_descendants n = tl (nodes n)"
proof (induction n)
  case (PlanNode nt c a cs ps t)
  then have "child # get_descendants child = nodes child" if "child \<in> set cs" for child
    using that PlanNode nodes_unfold [of child] by simp
  then show ?case by (simp cong: map_cong)
qed

lemma descend_nodes: "descend n is = Some m \<Longrightarrow> is \<noteq> [] \<Longrightarrow> m \<in> set (get_descendants n)"
proof (induction "is" arbitrary: n)
  case (Cons i js)
  have i: "i < length (children n)" "descend (children n ! i) js = Some m"
    using Cons.prems by (auto split: if_splits)
  then have "m = children n ! i \<or> m \<in> set (get_descendants (children n ! i))"
    using Cons.IH by (cases js) auto
  then show ?case using i(1) by (cases n) force
qed simp

lemma enumerate_without:
  "k \<le> j \<Longrightarrow> j < k + length xs \<Longrightarrow>
     map snd (filter (\<lambda>(i, _). i \<noteq> j) (List.enumerate k xs)) = take (j - k) xs @ drop (Suc (j - k)) xs"
proof (induction xs arbitrary: k)
  case (Cons x xs)
  show ?case
  proof (cases "j = k")
    case True
    have "filter (\<lambda>(i, _). i \<noteq> k) (List.enumerate (Suc k) xs) = List.enumerate (Suc k) xs"
      by (auto simp: filter_id_conv in_set_enumerate_eq)
    then show ?thesis using True by simp
  next
    case False
    then obtain d where "j - k = Suc d" "j - Suc k = d" using Cons.prems by (metis Suc_diff_Suc le_neq_implies_less)
    then show ?thesis using False Cons.IH [of "Suc k"] Cons.prems by simp
  qed
qed simp

lemma siblings_at:
  assumes "get_node_at_path plan (path_indices q) = Some parent" and "i < length (children parent)"
  shows "get_siblings plan (child_of q i d) = take i (children parent) @ drop (Suc i) (children parent)"
  using assms enumerate_without [of 0 i "children parent"]
  by (simp add: get_siblings_def get_parent_def child_of_def)

section \<open>Parent-child pairs\<close>

lemma pairs_loop_edges:
  "set (pairs_loop stack acc) = set acc \<union> {(x, y). (\<exists>z \<in> set stack. x \<in> set (located z)) \<and> y \<in> set (kids x)}"
proof (induction stack acc rule: pairs_loop.induct)
  case (2 n p stack acc)
  have "x \<in> set (located (n, p)) \<longleftrightarrow> x = (n, p) \<or> (\<exists>z \<in> set (child_places n p). x \<in> set (located z))" for x
    by (simp add: located.simps)
  then show ?case using 2 by (simp add: push_all_eq) auto
qed simp

lemma mset_located_kids: "mset (concat (map located xs)) = mset xs + mset (concat (map (\<lambda>x. concat (map located (kids x))) xs))"
proof (induction xs)
  case (Cons x xs)
  have "mset (located x) = add_mset x (mset (concat (map located (kids x))))" by (simp add: located_unfold [of x])
  then show ?case using Cons by simp
qed simp

lemma pairs_loop_children:
  "mset (map snd (pairs_loop stack acc)) =
     mset (map snd acc) + mset (concat (map (\<lambda>x. concat (map located (kids x))) stack))"
proof (induction stack acc rule: pairs_loop.induct)
  case (2 n p stack acc)
  have "mset (concat (map (\<lambda>x. concat (map located (kids x))) (rev (child_places n p)))) =
      mset (concat (map (\<lambda>x. concat (map located (kids x))) (child_places n p)))"
    by (simp add: mset_concat flip: rev_map)
  then show ?case using 2 mset_located_kids [of "child_places n p"] by (simp add: push_all_eq comp_def)
qed simp

section \<open>Visits\<close>

function postorder :: "place \<Rightarrow> place list" where
  "postorder (n, p) = concat (map postorder (child_places n p)) @ [(n, p)]"
  by pat_completeness auto
termination by (relation "measure (\<lambda>x. count_nodes (fst x))") (auto intro: child_place_smaller)

declare postorder.simps [simp del]

lemma postorder_unfold: "postorder x = concat (map postorder (kids x)) @ [x]"
  by (cases x) (simp add: postorder.simps)

lemma callbacks_unfold: "callbacks x = Entered x # concat (map callbacks (kids x)) @ [Visited x, Exited x]"
  by (cases x) (simp add: callbacks.simps)

lemma fold_concat_map:
  "(\<And>x s. x \<in> set xs \<Longrightarrow> fold f (g x) s = fold h (k x) s) \<Longrightarrow>
     fold f (concat (map g xs)) s = fold h (concat (map k xs)) s"
  by (induction xs arbitrary: s) simp_all

lemma visits_postorder:
  "fold (run_call (visiting f) ctx) (callbacks x) s = fold (\<lambda>x s. f s (fst x) (snd x) ctx) (postorder x) s"
proof (induction x arbitrary: s rule: place_induct)
  case (place x)
  have "fold (run_call (visiting f) ctx) (concat (map callbacks (kids x))) s =
      fold (\<lambda>x s. f s (fst x) (snd x) ctx) (concat (map postorder (kids x))) s"
    by (rule fold_concat_map) (rule place)
  then show ?case by (simp add: callbacks_unfold [of x] postorder_unfold [of x] visiting_def)
qed

lemma postorder_located: "mset (postorder x) = mset (located x)"
proof (induction x rule: place_induct)
  case (place x)
  then have "mset (concat (map postorder (kids x))) = mset (concat (map located (kids x)))"
    by (simp add: mset_concat comp_def cong: map_cong)
  then show ?case by (simp add: postorder_unfold [of x] located_unfold [of x])
qed

lemma fold_count: "fold (\<lambda>x k. if P x then k + 1 else k) xs k = k + length (filter P xs)"
  by (induction xs arbitrary: k) simp_all

lemma counted_nodes: "depth_first plan (counting_visitor P) ctx k = k + length (filter P (nodes (root plan)))"
proof -
  let ?r = "(root plan, root_path)"
  have "depth_first plan (counting_visitor P) ctx k = k + length (filter (\<lambda>x. P (fst x)) (postorder ?r))"
    by (simp add: depth_first_eq counting_visitor_def visits_postorder fold_count)
  also have "length (filter (\<lambda>x. P (fst x)) (postorder ?r)) = length (filter (\<lambda>x. P (fst x)) (located ?r))"
    by (simp flip: size_mset add: postorder_located)
  also have "\<dots> = length (filter P (map fst (located ?r)))" by (simp add: filter_map comp_def)
  finally show ?thesis by (simp add: nodes_located)
qed

section \<open>Properties\<close>

text \<open>C31: the iterative walks are the recursive ones. The depth-first walk makes the calls of the
  recursive walk, entering a node before its children and visiting and leaving it after them; the
  breadth-first walk handles the nodes level by level, each level from left to right; the searches and the
  collector go through the nodes in pre-order; a counting visitor counts the nodes its predicate holds
  for.\<close>

theorem walks_are_recursive:
  "depth_first plan V ctx s = fold (run_call V ctx) (callbacks (root plan, root_path)) s \<and>
   breadth_first plan V ctx s =
     fold (\<lambda>x s. run_call V ctx (Exited x) (run_call V ctx (Visited x) (run_call V ctx (Entered x) s)))
       (concat (map (get_nodes_at_depth plan) [0..<plan_max_depth plan])) s \<and>
   collect plan C ctx t = foldl (gather C ctx) (t, []) (located (root plan, root_path)) \<and>
   find_nodes plan P = filter (\<lambda>x. P (fst x)) (located (root plan, root_path)) \<and>
   map fst (located (root plan, root_path)) = nodes (root plan) \<and>
   depth_first plan (counting_visitor P) ctx k = k + length (filter P (nodes (root plan)))"
  by (intro conjI depth_first_eq breadth_first_eq find_nodes_eq counted_nodes)
    (simp_all add: collect_def collect_loop_eq nodes_located del: collect_loop.simps)

text \<open>C32: paths identify nodes. A path leads to a node exactly when the search reports that node under
  that path, no path is reported twice, the nodes at a depth are those whose path has that length, and the
  parent-child pairs are the edges of the tree, each child once.\<close>

theorem paths_identify_nodes:
  "(get_node_at_path plan path = Some n \<longleftrightarrow> (\<exists>p. path_indices p = path \<and> (n, p) \<in> set (find_nodes plan (\<lambda>_. True)))) \<and>
   distinct (map (\<lambda>x. path_indices (snd x)) (find_nodes plan P)) \<and>
   get_nodes_at_depth plan d = filter (\<lambda>x. length (path_indices (snd x)) = d) (find_nodes plan (\<lambda>_. True)) \<and>
   set (get_parent_child_pairs plan) =
     {(x, y). x \<in> set (find_nodes plan (\<lambda>_. True)) \<and> y \<in> set (child_places (fst x) (snd x))} \<and>
   mset (map snd (get_parent_child_pairs plan)) = mset (tl (find_nodes plan (\<lambda>_. True)))"
proof -
  let ?r = "(root plan, root_path)"
  have root: "path_of ?r = []" by (simp add: root_path_def)
  have "get_node_at_path plan path = Some n \<longleftrightarrow> (\<exists>p. path_indices p = path \<and> (n, p) \<in> set (located ?r))"
  proof
    assume "get_node_at_path plan path = Some n"
    then obtain y where "y \<in> set (located ?r)" "fst y = n" "path_of y = path"
      using descend_located [of ?r path n] root by (auto simp: get_node_at_path_def)
    then show "\<exists>p. path_indices p = path \<and> (n, p) \<in> set (located ?r)" by (metis prod.collapse)
  next
    assume "\<exists>p. path_indices p = path \<and> (n, p) \<in> set (located ?r)"
    then obtain p where "path_indices p = path" "(n, p) \<in> set (located ?r)" by blast
    then show "get_node_at_path plan path = Some n"
      using located_descend [of "(n, p)" ?r] root by (simp add: get_node_at_path_def)
  qed
  moreover have "distinct (map path_of (filter (\<lambda>x. P (fst x)) (located ?r)))"
    by (rule distinct_map_filter [OF located_distinct])
  moreover have "set (get_parent_child_pairs plan) = {(x, y). x \<in> set (located ?r) \<and> y \<in> set (kids x)}"
    by (simp add: get_parent_child_pairs_def pairs_loop_edges del: pairs_loop.simps)
  moreover have "mset (map snd (get_parent_child_pairs plan)) = mset (tl (located ?r))"
    by (simp only: get_parent_child_pairs_def pairs_loop_children) (simp add: located_unfold [of ?r])
  ultimately show ?thesis by (simp only: find_nodes_eq nodes_at_depth_eq filter_True simp_thms) (simp)
qed

text \<open>The relations computed from paths are those of the tree: the ancestors of a node are the nodes at
  the shorter paths, nearest first, its parent is the first of them, its siblings are the other children of
  the parent in order, it is a descendant of each of its ancestors, and one path is an ancestor of another
  exactly when the other properly extends it.\<close>

theorem relations_follow_tree:
  assumes "get_node_at_path plan (path_indices p) = Some n"
  shows "map Some (get_ancestors plan p) =
      map (\<lambda>k. get_node_at_path plan (take k (path_indices p))) (rev [0..<length (path_indices p)]) \<and>
    get_parent plan p = (case get_ancestors plan p of [] \<Rightarrow> None | a # _ \<Rightarrow> Some a) \<and>
    get_siblings plan p =
      (case get_parent plan p of
         None \<Rightarrow> []
       | Some a \<Rightarrow> take (last (path_indices p)) (children a) @ drop (Suc (last (path_indices p))) (children a)) \<and>
    list_all (\<lambda>a. n \<in> set (get_descendants a)) (get_ancestors plan p) \<and>
    (is_ancestor q p \<longleftrightarrow> (\<exists>i is. path_indices p = path_indices q @ i # is))"
proof -
  let ?is = "path_indices p"
  have above: "\<exists>a. get_node_at_path plan (take k ?is) = Some a \<and> descend a (drop k ?is) = Some n" for k
  proof -
    have "Option.bind (descend (root plan) (take k ?is)) (\<lambda>m. descend m (drop k ?is)) = Some n"
      using assms by (simp add: get_node_at_path_def flip: descend_append)
    then show ?thesis by (simp add: get_node_at_path_def bind_eq_Some_conv)
  qed
  have "map Some (get_ancestors plan p) = map (\<lambda>k. get_node_at_path plan (take k ?is)) (rev [0..<length ?is])"
    unfolding get_ancestors_def ancestors_loop_eq append_Nil
    by (rule map_filter_total) (use above in force)
  note ancestors = this
  have "list_all (\<lambda>a. n \<in> set (get_descendants a)) (get_ancestors plan p)"
    unfolding list_all_iff
  proof
    fix a
    assume "a \<in> set (get_ancestors plan p)"
    then have "Some a \<in> set (map Some (get_ancestors plan p))" by simp
    then obtain k where k: "k < length ?is" "get_node_at_path plan (take k ?is) = Some a"
      unfolding ancestors by auto
    then show "n \<in> set (get_descendants a)" using above [of k] descend_nodes [of a "drop k ?is" n] by simp
  qed
  moreover have "get_parent plan p = (case get_ancestors plan p of [] \<Rightarrow> None | a # _ \<Rightarrow> Some a) \<and> get_siblings plan p =
      (case get_parent plan p of None \<Rightarrow> [] | Some a \<Rightarrow> take (last ?is) (children a) @ drop (Suc (last ?is)) (children a))"
  proof (cases ?is rule: rev_cases)
    case Nil
    then show ?thesis using ancestors by (simp add: get_parent_def get_siblings_def)
  next
    case (snoc init i)
    from above [of "length init"] snoc obtain a where a: "get_node_at_path plan init = Some a" "descend a [i] = Some n"
      by auto
    then have "get_siblings plan p = take i (children a) @ drop (Suc i) (children a)"
      using siblings_at [of plan "p\<lparr>path_indices := init\<rparr>" a i] snoc
      by (simp add: child_of_def get_siblings_def get_parent_def split: if_splits)
    then show ?thesis using a snoc ancestors by (cases "get_ancestors plan p") (auto simp: get_parent_def)
  qed
  moreover have "is_ancestor q p \<longleftrightarrow> (\<exists>i is. ?is = path_indices q @ i # is)"
  proof
    assume "is_ancestor q p"
    then have "length (path_indices q) < length ?is" "?is = path_indices q @ drop (length (path_indices q)) ?is"
      by (auto simp: is_ancestor_def split: if_splits) (metis append_take_drop_id)
    then show "\<exists>i is. ?is = path_indices q @ i # is" by (metis Cons_nth_drop_Suc)
  qed (auto simp: is_ancestor_def)
  ultimately show ?thesis using ancestors by blast
qed

definition sample_cost :: PlanCost where
  "sample_cost = \<lparr>startup_cost = f_zero, min_total_cost = f_zero, max_total_cost = f_zero, estimated_rows = 1, estimated_width = 8\<rparr>"

definition sample_leaf :: "string \<Rightarrow> PlanNode" where
  "sample_leaf s = PlanNode (UnknownNode s) sample_cost None [] new_properties s"

definition sample_plan :: ParsedPlan where
  "sample_plan =
     \<lparr>root = PlanNode (UnknownNode ''r'') sample_cost None [sample_leaf ''a'', sample_leaf ''b''] new_properties ''r'',
      planning_time_ms = None, execution_time_ms = None\<rparr>"

theorem relations_follow_tree_witness:
  "get_siblings sample_plan (child_of root_path 1 ''b'') = [sample_leaf ''a''] \<and>
   is_ancestor root_path (child_of root_path 1 ''b'')"
proof -
  have "get_node_at_path sample_plan (path_indices (child_of root_path 1 ''b'')) = Some (sample_leaf ''b'')"
    by (simp add: get_node_at_path_def sample_plan_def child_of_def root_path_def)
  note relations_follow_tree [OF this, of root_path]
  then show ?thesis
    by (simp add: get_parent_def get_node_at_path_def sample_plan_def child_of_def root_path_def)
qed

end
