(* ===== verification/Analysis_Engine.thy ===== *)
theory Analysis_Engine
  imports Plan_Traversal
begin

text \<open>
  The engine that runs a list of analyzers over a plan (\<open>crates/core/src/analysis/engine.rs\<close>). An
  analyzer is a record of its methods; \<open>analyze\<close> returns \<open>None\<close> when it panics. A \<open>Duration\<close> is its
  number of nanoseconds. The clock is an argument: \<open>clock i\<close> is the time the analyzer at index \<open>i\<close>
  took, \<open>overall\<close> the time of the whole analysis.
\<close>

section \<open>Durations\<close>

definition trim_zeros :: "string \<Rightarrow> string" where
  "trim_zeros s = rev (dropWhile (\<lambda>c. c = CHR ''0'') (rev s))"

definition zero_padded :: "nat \<Rightarrow> string \<Rightarrow> string" where
  "zero_padded k s = replicate (k - length s) CHR ''0'' @ s"

definition fmt_decimal :: "nat \<Rightarrow> nat \<Rightarrow> nat \<Rightarrow> string \<Rightarrow> string" where
  "fmt_decimal i fraction places suffix =
     nat_to_string i @ (if fraction = 0 then [] else ''.'' @ trim_zeros (zero_padded places (nat_to_string fraction))) @ suffix"

text \<open>The \<open>Debug\<close> form of a \<open>Duration\<close>.\<close>

definition debug_duration :: "nat \<Rightarrow> string" where
  "debug_duration d =
     (if 10 ^ 9 \<le> d then fmt_decimal (d div 10 ^ 9) (d mod 10 ^ 9) 9 ''s''
      else if 10 ^ 6 \<le> d then fmt_decimal (d div 10 ^ 6) (d mod 10 ^ 6) 6 ''ms''
      else if 10 ^ 3 \<le> d then fmt_decimal (d div 10 ^ 3) (d mod 10 ^ 3) 3 (utf8 [0xC2, 0xB5] @ ''s'')
      else fmt_decimal d 0 1 ''ns'')"

section \<open>Results\<close>

record EngineConfig =
  max_analyzer_duration :: nat
  continue_on_error :: bool
  parallel_execution :: bool
  analyzer_configs :: "string \<rightharpoonup> string"

definition default_engine_config :: EngineConfig where
  "default_engine_config =
     \<lparr>max_analyzer_duration = 30 * 10 ^ 9, continue_on_error = True, parallel_execution = False,
      analyzer_configs = Map.empty\<rparr>"

record AnalyzerResult =
  result_name :: string
  report :: "AnalysisReport option"
  error :: "string option"
  duration :: nat
  skipped :: bool
  skip_reason :: "string option"

definition success_result :: "string \<Rightarrow> AnalysisReport \<Rightarrow> nat \<Rightarrow> AnalyzerResult" where
  "success_result n r d =
     \<lparr>result_name = n, report = Some r, error = None, duration = d, skipped = False, skip_reason = None\<rparr>"

definition error_result :: "string \<Rightarrow> string \<Rightarrow> nat \<Rightarrow> AnalyzerResult" where
  "error_result n e d =
     \<lparr>result_name = n, report = None, error = Some e, duration = d, skipped = False, skip_reason = None\<rparr>"

definition skipped_result :: "string \<Rightarrow> string \<Rightarrow> AnalyzerResult" where
  "skipped_result n reason =
     \<lparr>result_name = n, report = None, error = None, duration = 0, skipped = True, skip_reason = Some reason\<rparr>"

definition is_success :: "AnalyzerResult \<Rightarrow> bool" where "is_success r \<longleftrightarrow> report r \<noteq> None"
definition is_error :: "AnalyzerResult \<Rightarrow> bool" where "is_error r \<longleftrightarrow> error r \<noteq> None"

record EngineResult =
  combined_result :: CombinedAnalysisResult
  analyzer_results :: "AnalyzerResult list"
  total_duration :: nat
  engine_context :: AnalysisContext

section \<open>The engine\<close>

record Analyzer =
  analyze :: "ParsedPlan \<Rightarrow> AnalysisContext \<Rightarrow> AnalysisReport option"
  name :: string
  supports_plan :: "ParsedPlan \<Rightarrow> bool"
  version :: string

record AnalysisEngine =
  analyzers :: "Analyzer list"
  engine_config :: EngineConfig

definition new_engine :: AnalysisEngine where
  "new_engine = \<lparr>analyzers = [], engine_config = default_engine_config\<rparr>"

definition engine_with_config :: "EngineConfig \<Rightarrow> AnalysisEngine" where
  "engine_with_config c = \<lparr>analyzers = [], engine_config = c\<rparr>"

definition add_analyzer :: "AnalysisEngine \<Rightarrow> Analyzer \<Rightarrow> AnalysisEngine" where
  "add_analyzer E a = E\<lparr>analyzers := analyzers E @ [a]\<rparr>"

text \<open>A configurable analyzer is a function of its configuration.\<close>

definition add_configurable_analyzer :: "AnalysisEngine \<Rightarrow> ('c \<Rightarrow> Analyzer) \<Rightarrow> 'c \<Rightarrow> AnalysisEngine" where
  "add_configurable_analyzer E configured c = E\<lparr>analyzers := analyzers E @ [configured c]\<rparr>"

definition analyzer_names :: "AnalysisEngine \<Rightarrow> string list" where
  "analyzer_names E = map name (analyzers E)"

definition has_analyzer :: "AnalysisEngine \<Rightarrow> string \<Rightarrow> bool" where
  "has_analyzer E n = list_ex (\<lambda>a. name a = n) (analyzers E)"

definition remove_analyzer :: "AnalysisEngine \<Rightarrow> string \<Rightarrow> bool \<times> AnalysisEngine" where
  "remove_analyzer E n =
     (let initial_len = length (analyzers E);
          E = E\<lparr>analyzers := filter (\<lambda>a. name a \<noteq> n) (analyzers E)\<rparr>
      in (length (analyzers E) < initial_len, E))"

definition clear_analyzers :: "AnalysisEngine \<Rightarrow> AnalysisEngine" where
  "clear_analyzers E = E\<lparr>analyzers := []\<rparr>"

definition configure_engine :: "AnalysisEngine \<Rightarrow> EngineConfig \<Rightarrow> AnalysisEngine" where
  "configure_engine E c = E\<lparr>engine_config := c\<rparr>"

record AnalyzerStats =
  total_count :: nat
  analyzer_versions :: "string \<rightharpoonup> string"

definition analyzer_stats :: "AnalysisEngine \<Rightarrow> AnalyzerStats" where
  "analyzer_stats E =
     foldl (\<lambda>s a. s\<lparr>total_count := total_count s + 1, analyzer_versions := (analyzer_versions s)(name a \<mapsto> version a)\<rparr>)
       \<lparr>total_count = 0, analyzer_versions = Map.empty\<rparr> (analyzers E)"

definition run_single_analyzer ::
  "AnalysisEngine \<Rightarrow> nat \<Rightarrow> Analyzer \<Rightarrow> ParsedPlan \<Rightarrow> AnalysisContext \<Rightarrow> AnalyzerResult" where
  "run_single_analyzer E took a plan ctx =
     (if \<not> supports_plan a plan then skipped_result (name a) ''Plan type not supported by analyzer''
      else if max_analyzer_duration (engine_config E) < took then
        error_result (name a) (''Analyzer timed out after '' @ debug_duration took) took
      else
        (case analyze a plan ctx of
           Some r \<Rightarrow> success_result (name a) r took
         | None \<Rightarrow> error_result (name a) ''Analyzer panicked during execution'' took))"

definition collect_results ::
  "(string \<Rightarrow> string) \<Rightarrow> AnalyzerResult list \<Rightarrow> nat \<Rightarrow> AnalysisContext \<Rightarrow> EngineResult" where
  "collect_results quote results overall ctx =
     \<lparr>combined_result = combine_reports quote (List.map_filter report results), analyzer_results = results,
      total_duration = overall, engine_context = ctx\<rparr>"

definition run_analyzers ::
  "(string \<Rightarrow> string) \<Rightarrow> (nat \<Rightarrow> nat) \<Rightarrow> nat \<Rightarrow> AnalysisEngine \<Rightarrow> ParsedPlan \<Rightarrow> AnalysisContext \<Rightarrow> EngineResult" where
  "run_analyzers quote clock overall E plan ctx =
     collect_results quote
       (map (\<lambda>(i, a). run_single_analyzer E (clock i) a plan ctx) (List.enumerate 0 (analyzers E))) overall ctx"

definition analyze_with ::
  "nat \<Rightarrow> AnalysisEngine \<Rightarrow> string \<Rightarrow> ParsedPlan \<Rightarrow> AnalysisContext \<Rightarrow> AnalyzerResult option" where
  "analyze_with took E n plan ctx =
     map_option (\<lambda>a. run_single_analyzer E took a plan ctx) (List.find (\<lambda>a. name a = n) (analyzers E))"

definition analyze_filtered ::
  "(string \<Rightarrow> string) \<Rightarrow> (nat \<Rightarrow> nat) \<Rightarrow> nat \<Rightarrow> AnalysisEngine \<Rightarrow> ParsedPlan \<Rightarrow> AnalysisContext \<Rightarrow>
     (Analyzer \<Rightarrow> bool) \<Rightarrow> EngineResult" where
  "analyze_filtered quote clock overall E plan ctx keep =
     collect_results quote
       (map (\<lambda>(i, a). if keep a then run_single_analyzer E (clock i) a plan ctx
                       else skipped_result (name a) ''Filtered out by predicate'')
         (List.enumerate 0 (analyzers E))) overall ctx"

section \<open>Reading a result\<close>

definition successful_results :: "EngineResult \<Rightarrow> AnalyzerResult list" where
  "successful_results r = filter is_success (analyzer_results r)"

definition failed_results :: "EngineResult \<Rightarrow> AnalyzerResult list" where
  "failed_results r = filter is_error (analyzer_results r)"

definition skipped_results :: "EngineResult \<Rightarrow> AnalyzerResult list" where
  "skipped_results r = filter skipped (analyzer_results r)"

record ExecutionSummary =
  total_analyzers :: nat
  successful_count :: nat
  failed_count :: nat
  skipped_count :: nat
  sum_total_duration :: nat
  total_analyzer_time :: nat
  efficiency_ratio :: f64

definition as_millis :: "nat \<Rightarrow> nat" where "as_millis d = d div 10 ^ 6"

definition execution_summary :: "EngineResult \<Rightarrow> ExecutionSummary" where
  "execution_summary r =
     (let analyzer_time = sum_list (map duration (analyzer_results r))
      in \<lparr>total_analyzers = length (analyzer_results r), successful_count = length (successful_results r),
          failed_count = length (failed_results r), skipped_count = length (skipped_results r),
          sum_total_duration = total_duration r, total_analyzer_time = analyzer_time,
          efficiency_ratio =
            (if 0 < as_millis (total_duration r)
             then f_div (f_of_nat (as_millis analyzer_time)) (f_of_nat (as_millis (total_duration r)))
             else f_zero)\<rparr>)"

definition has_critical_issues :: "EngineResult \<Rightarrow> bool" where
  "has_critical_issues r \<longleftrightarrow>
     0 < (case all_severity_counts (summary (combined_result r)) Critical of Some n \<Rightarrow> n | None \<Rightarrow> 0)"

definition assessment_of :: "EngineResult \<Rightarrow> PerformanceAssessment" where
  "assessment_of r = performance_assessment (summary (combined_result r))"

section \<open>Each analyzer is on its own\<close>

lemma outcome_unique:
  "(if is_success (run_single_analyzer E took a plan ctx) then 1 else 0 :: nat) +
   (if is_error (run_single_analyzer E took a plan ctx) then 1 else 0) +
   (if skipped (run_single_analyzer E took a plan ctx) then 1 else 0) = 1"
  by (simp add: run_single_analyzer_def skipped_result_def error_result_def success_result_def is_success_def
      is_error_def split: option.split)

lemma single_name: "result_name (run_single_analyzer E took a plan ctx) = name a"
  by (simp add: run_single_analyzer_def skipped_result_def error_result_def success_result_def split: option.split)

lemma results_eq:
  "analyzer_results (run_analyzers quote clock overall E plan ctx) =
     map (\<lambda>(i, a). run_single_analyzer E (clock i) a plan ctx) (List.enumerate 0 (analyzers E))"
  by (simp add: run_analyzers_def collect_results_def)

lemma reports_eq:
  "reports (combined_result (run_analyzers quote clock overall E plan ctx)) =
     List.map_filter report (analyzer_results (run_analyzers quote clock overall E plan ctx))"
  by (simp add: run_analyzers_def collect_results_def combine_reports_def)

lemma partition_counts:
  "length (filter is_success (map f xs)) + length (filter is_error (map f xs)) + length (filter skipped (map f xs)) =
     length xs"
  if "\<And>x. (if is_success (f x) then 1 else 0 :: nat) + (if is_error (f x) then 1 else 0) + (if skipped (f x) then 1 else 0) = 1"
proof (induction xs)
  case (Cons x xs)
  then show ?case using that [of x] by (auto split: if_splits)
qed simp

lemma length_reports: "length (List.map_filter report rs) = length (filter is_success rs)"
  by (induction rs) (auto simp: is_success_def List.map_filter_simps split: option.split)

lemma single_config [simp]:
  "run_single_analyzer (E\<lparr>analyzers := as\<rparr>) took a plan ctx = run_single_analyzer E took a plan ctx"
  by (simp add: run_single_analyzer_def)

lemma results_update:
  "analyzer_results (run_analyzers quote clock overall (E\<lparr>analyzers := (analyzers E)[k := b]\<rparr>) plan ctx) =
     (analyzer_results (run_analyzers quote clock overall E plan ctx))[k := run_single_analyzer E (clock k) b plan ctx]"
proof (rule nth_equalityI, goal_cases)
  case (2 i)
  then show ?case by (cases "i = k") (simp_all add: results_eq nth_enumerate_eq)
qed (simp add: results_eq)

lemma map_filter_append: "List.map_filter f (xs @ ys) = List.map_filter f xs @ List.map_filter f ys"
  by (induction xs) (auto simp: List.map_filter_simps split: option.split)

section \<open>Properties\<close>

text \<open>A run accounts for every analyzer and every finding: one result per analyzer, in order and under its
  name, each exactly one of successful, failed and skipped; the combined report holds the reports of the
  successful ones; its severity counts are the numbers of findings of each severity and a critical issue is
  reported exactly when there is a critical finding.\<close>

theorem run_accounts_for_everything:
  "map result_name (analyzer_results (run_analyzers quote clock overall E plan ctx)) = analyzer_names E \<and>
   (let r = run_analyzers quote clock overall E plan ctx; s = execution_summary r; c = combined_result r
    in total_analyzers s = length (analyzers E) \<and>
       successful_count s + failed_count s + skipped_count s = total_analyzers s \<and>
       reports c = List.map_filter report (analyzer_results r) \<and> length (reports c) = successful_count s \<and>
       total_findings (summary c) = length (all_findings c) \<and>
       all_severity_counts (summary c) =
         (\<lambda>k. let n = length (findings_by_severity c k) in if n = 0 then None else Some n) \<and>
       (has_critical_issues r \<longleftrightarrow> findings_by_severity c Critical \<noteq> []))"
proof -
  let ?r = "run_analyzers quote clock overall E plan ctx" and ?as = "List.enumerate 0 (analyzers E)"
  let ?f = "\<lambda>(i, a). run_single_analyzer E (clock i) a plan ctx"
  have one: "(if is_success (?f x) then 1 else 0 :: nat) + (if is_error (?f x) then 1 else 0) + (if skipped (?f x) then 1 else 0) = 1" for x
    by (cases x) (simp only: case_prod_conv outcome_unique)
  have counts: "successful_count (execution_summary ?r) + failed_count (execution_summary ?r) +
      skipped_count (execution_summary ?r) = length (analyzers E)"
    using partition_counts [of ?f ?as, OF one]
    by (simp only: execution_summary_def Let_def successful_results_def failed_results_def skipped_results_def
        results_eq ExecutionSummary.simps length_enumerate)
  have severities: "all_severity_counts (summary (combined_result ?r)) =
      (\<lambda>k. let n = length (findings_by_severity (combined_result ?r) k) in if n = 0 then None else Some n)"
    by (simp add: run_analyzers_def collect_results_def combine_reports_def calculate_summary_def Let_def
        counts_eq findings_by_severity_def all_findings_def)
  have "map result_name (analyzer_results ?r) = analyzer_names E"
    by (simp add: results_eq analyzer_names_def case_prod_unfold single_name comp_def)
      (simp add: comp_def [of name snd, symmetric] flip: map_map)
  moreover have "total_analyzers (execution_summary ?r) = length (analyzers E)"
    by (simp add: execution_summary_def Let_def results_eq)
  moreover have "length (reports (combined_result ?r)) = successful_count (execution_summary ?r)"
    by (simp add: reports_eq length_reports execution_summary_def Let_def successful_results_def)
  moreover have "total_findings (summary (combined_result ?r)) = length (all_findings (combined_result ?r))"
    by (simp add: run_analyzers_def collect_results_def combine_reports_def calculate_summary_def Let_def all_findings_def)
  moreover have "has_critical_issues ?r \<longleftrightarrow> findings_by_severity (combined_result ?r) Critical \<noteq> []"
    by (simp add: has_critical_issues_def severities Let_def)
  ultimately show ?thesis using counts severities by (simp add: Let_def reports_eq)
qed

text \<open>The failure of one analyzer stays with it. Whatever analyzer is put in a place, the other results are
  what they were; when it panics, its own result is no success and exactly its report is missing from the
  combined ones.\<close>

theorem panic_is_contained:
  assumes "analyze b plan ctx = None" and "k < length (analyzers E)"
  shows "(let r = run_analyzers quote clock overall E plan ctx;
        r' = run_analyzers quote clock overall (E\<lparr>analyzers := (analyzers E)[k := b]\<rparr>) plan ctx
    in analyzer_results r' = (analyzer_results r)[k := run_single_analyzer E (clock k) b plan ctx] \<and>
       \<not> is_success (analyzer_results r' ! k) \<and>
       reports (combined_result r') =
         List.map_filter report (take k (analyzer_results r) @ drop (Suc k) (analyzer_results r)))"
proof -
  let ?r = "analyzer_results (run_analyzers quote clock overall E plan ctx)"
    and ?b = "run_single_analyzer E (clock k) b plan ctx"
  have none: "report ?b = None"
    using assms(1) by (simp add: run_single_analyzer_def skipped_result_def error_result_def)
  have k: "k < length ?r" using assms(2) by (simp add: results_eq)
  then have "?r[k := ?b] = take k ?r @ ?b # drop (Suc k) ?r" by (simp add: upd_conv_take_nth_drop)
  then have "List.map_filter report (?r[k := ?b]) = List.map_filter report (take k ?r @ drop (Suc k) ?r)"
    using none by (simp only: map_filter_append List.map_filter_simps) simp
  then show ?thesis using none k by (simp add: Let_def results_update reports_eq is_success_def)
qed

text \<open>The issues shown first are the most severe ones: at most five, the more severe before the less
  severe, those of one severity in the order they were found, and none left out is more severe than one
  shown. A further report never improves the overall assessment.\<close>

theorem summary_shows_worst:
  "\<exists>rest. sorted_wrt (\<lambda>f g. severity g \<le> severity f) (top_issues (calculate_summary quote rs) @ rest) \<and>
     (\<lambda>s. filter (\<lambda>f. severity f = s) (top_issues (calculate_summary quote rs) @ rest)) =
       (\<lambda>s. filter (\<lambda>f. severity f = s) (concat (map findings rs))) \<and>
     length (top_issues (calculate_summary quote rs)) = min 5 (length (concat (map findings rs))) \<and>
     assessment_level (performance_assessment (calculate_summary quote rs)) \<le>
       assessment_level (performance_assessment (calculate_summary quote (rs @ later)))"
proof -
  let ?fs = "concat (map findings rs)"
  have tops: "top_issues (calculate_summary quote rs) @ drop 5 (by_severity_desc ?fs) = by_severity_desc ?fs"
    by (simp add: calculate_summary_def Let_def)
  have "length (top_issues (calculate_summary quote rs)) = min 5 (length ?fs)"
    by (simp add: calculate_summary_def Let_def by_severity_desc_def min.commute)
  moreover have "assessment_level (performance_assessment (calculate_summary quote rs)) \<le>
      assessment_level (performance_assessment (calculate_summary quote (rs @ later)))"
    unfolding calculate_summary_def Let_def AnalysisSummary.simps
    by (rule assess_mono) (simp only: tally_counts map_append concat_append filter_append length_append le_add1)
  ultimately show ?thesis
    using by_severity_sorted [of ?fs] by_severity_stable [of _ ?fs]
    by (intro exI [of _ "drop 5 (by_severity_desc ?fs)"]) (simp only: tops simp_thms)
qed

section \<open>Witness\<close>

definition quiet_analyzer :: Analyzer where
  "quiet_analyzer = \<lparr>analyze = (\<lambda>_ _. Some (new_report ''quiet'')), name = ''quiet'', supports_plan = (\<lambda>_. True), version = ''1.0.0''\<rparr>"

definition panicking_analyzer :: Analyzer where
  "panicking_analyzer = \<lparr>analyze = (\<lambda>_ _. None), name = ''broken'', supports_plan = (\<lambda>_. True), version = ''1.0.0''\<rparr>"

theorem panic_is_contained_witness:
  "reports (combined_result (run_analyzers id (\<lambda>_. 1) 2
     \<lparr>analyzers = [panicking_analyzer, quiet_analyzer], engine_config = default_engine_config\<rparr> sample_plan default_context)) =
     [new_report ''quiet'']"
proof -
  let ?E = "\<lparr>analyzers = [quiet_analyzer, quiet_analyzer], engine_config = default_engine_config\<rparr>"
  have "analyze panicking_analyzer sample_plan default_context = None" by (simp add: panicking_analyzer_def)
  from panic_is_contained [OF this, of 0 ?E id "\<lambda>_. 1" 2] show ?thesis
    by (simp add: Let_def results_eq List.map_filter_simps run_single_analyzer_def success_result_def quiet_analyzer_def
        default_engine_config_def)
qed

end
