(* ===== verification/State_Migration.thy ===== *)
theory State_Migration
  imports State_Store Log_Prefix
begin

text \<open>
  Opening the exporter's database (\<open>create_tables\<close> and \<open>migrate\<close> of \<open>state.rs\<close>): the tables as an
  earlier release may have left them, the SQL statements that create and upgrade them with the errors SQLite gives,
  and the states the file can be left in when the process dies in between. A statement outside a transaction, and
  a transaction as a whole, takes effect completely or not at all.
\<close>

section \<open>The file\<close>

text \<open>\<open>processed_files\<close> comes with the marks whether it has the columns \<open>dev\<close> and \<open>ino\<close>. The two layouts
  of \<open>query_hashes\<close>: keyed by hash alone up to version 1, by hash and database since. \<open>hashes_v2\<close> is the table
  an upgrade fills before it takes the place of the old one.\<close>

record FilesTable =
  file_rows :: "(string \<times> FileRow) list"
  has_dev :: bool
  has_ino :: bool

datatype HashTable = By_Hash "(string \<times> HashRow) list" | By_Database "(query_key \<times> HashRow) list"

record Stored =
  user_version :: int
  files_table :: "FilesTable option"
  hashes_table :: "HashTable option"
  hashes_v2 :: "(query_key \<times> HashRow) list option"

datatype SqlError = No_Such_Table string | Duplicate_Column string | Table_Exists string | Constraint_Failed string

definition SCHEMA_VERSION :: int where "SCHEMA_VERSION = 2"

section \<open>Statements\<close>

text \<open>\<open>CREATE TABLE IF NOT EXISTS\<close>.\<close>

definition create_files :: "Stored \<Rightarrow> Stored" where
  "create_files S =
     (case files_table S of
        None \<Rightarrow> S\<lparr>files_table := Some \<lparr>file_rows = [], has_dev = True, has_ino = True\<rparr>\<rparr>
      | Some _ \<Rightarrow> S)"

definition create_hashes :: "Stored \<Rightarrow> Stored" where
  "create_hashes S = (case hashes_table S of None \<Rightarrow> S\<lparr>hashes_table := Some (By_Database [])\<rparr> | Some _ \<Rightarrow> S)"

text \<open>\<open>ALTER TABLE processed_files ADD COLUMN\<close>: it fails on a missing table and on a column that is there.\<close>

definition add_dev :: "Stored \<Rightarrow> SqlError + Stored" where
  "add_dev S =
     (case files_table S of
        None \<Rightarrow> Inl (No_Such_Table ''processed_files'')
      | Some t \<Rightarrow>
          if has_dev t then Inl (Duplicate_Column ''dev'')
          else Inr (S\<lparr>files_table := Some (t\<lparr>has_dev := True,
                 file_rows := map (\<lambda>(path, row). (path, row\<lparr>row_dev := None\<rparr>)) (file_rows t)\<rparr>)\<rparr>))"

definition add_ino :: "Stored \<Rightarrow> SqlError + Stored" where
  "add_ino S =
     (case files_table S of
        None \<Rightarrow> Inl (No_Such_Table ''processed_files'')
      | Some t \<Rightarrow>
          if has_ino t then Inl (Duplicate_Column ''ino'')
          else Inr (S\<lparr>files_table := Some (t\<lparr>has_ino := True,
                 file_rows := map (\<lambda>(path, row). (path, row\<lparr>row_ino := None\<rparr>)) (file_rows t)\<rparr>)\<rparr>))"

text \<open>The batch that rebuilds \<open>query_hashes\<close>: create, copy under the unknown database, drop, rename. The copy
  reads columns both layouts have; two rows under one key violate the primary key.\<close>

definition create_v2 :: "Stored \<Rightarrow> SqlError + Stored" where
  "create_v2 S =
     (case hashes_v2 S of None \<Rightarrow> Inr (S\<lparr>hashes_v2 := Some []\<rparr>) | Some _ \<Rightarrow> Inl (Table_Exists ''query_hashes_v2''))"

definition copied_rows :: "HashTable \<Rightarrow> (query_key \<times> HashRow) list" where
  "copied_rows h =
     (case h of
        By_Hash rows \<Rightarrow> map (\<lambda>(hash, row). ((hash, UNKNOWN_DATABASE), row)) rows
      | By_Database rows \<Rightarrow> map (\<lambda>((hash, _), row). ((hash, UNKNOWN_DATABASE), row)) rows)"

definition insert_v2 :: "Stored \<Rightarrow> SqlError + Stored" where
  "insert_v2 S =
     (case (hashes_table S, hashes_v2 S) of
        (None, _) \<Rightarrow> Inl (No_Such_Table ''query_hashes'')
      | (_, None) \<Rightarrow> Inl (No_Such_Table ''query_hashes_v2'')
      | (Some h, Some rows) \<Rightarrow>
          if distinct (map fst (rows @ copied_rows h)) then Inr (S\<lparr>hashes_v2 := Some (rows @ copied_rows h)\<rparr>)
          else Inl (Constraint_Failed ''query_hashes_v2''))"

definition drop_hashes :: "Stored \<Rightarrow> SqlError + Stored" where
  "drop_hashes S =
     (case hashes_table S of
        None \<Rightarrow> Inl (No_Such_Table ''query_hashes'')
      | Some _ \<Rightarrow> Inr (S\<lparr>hashes_table := None\<rparr>))"

definition rename_v2 :: "Stored \<Rightarrow> SqlError + Stored" where
  "rename_v2 S =
     (case (hashes_v2 S, hashes_table S) of
        (None, _) \<Rightarrow> Inl (No_Such_Table ''query_hashes_v2'')
      | (_, Some _) \<Rightarrow> Inl (Table_Exists ''query_hashes'')
      | (Some rows, None) \<Rightarrow> Inr (S\<lparr>hashes_table := Some (By_Database rows), hashes_v2 := None\<rparr>))"

text \<open>The operator \<open>?\<close>: the next statement runs only after a success.\<close>

definition sql_then :: "SqlError + Stored \<Rightarrow> (Stored \<Rightarrow> SqlError + Stored) \<Rightarrow> SqlError + Stored" where
  "sql_then r f = (case r of Inl e \<Rightarrow> Inl e | Inr S \<Rightarrow> f S)"

section \<open>Upgrade\<close>

definition migrate_files :: "int \<Rightarrow> Stored \<Rightarrow> SqlError + Stored" where
  "migrate_files version S =
     (if version < 1 then
        (let column_there = (case files_table S of None \<Rightarrow> False | Some t \<Rightarrow> has_dev t)
         in if \<not> column_there then sql_then (add_dev S) add_ino else Inr S)
      else Inr S)"

definition migrate_hashes :: "int \<Rightarrow> Stored \<Rightarrow> SqlError + Stored" where
  "migrate_hashes version S =
     (if version < 2 then
        (let column_there = (case hashes_table S of Some (By_Database _) \<Rightarrow> True | _ \<Rightarrow> False)
         in if \<not> column_there then
              sql_then (sql_then (sql_then (create_v2 S) insert_v2) drop_hashes) rename_v2
            else Inr S)
      else Inr S)"

text \<open>The transaction: an error rolls it back and is returned.\<close>

definition migrate_tx :: "int \<Rightarrow> Stored \<Rightarrow> SqlError + Stored" where
  "migrate_tx version S = sql_then (migrate_files version S) (migrate_hashes version)"

definition set_version :: "Stored \<Rightarrow> Stored" where
  "set_version S = S\<lparr>user_version := SCHEMA_VERSION\<rparr>"

definition migrate :: "Stored \<Rightarrow> (SqlError + unit) \<times> Stored" where
  "migrate S =
     (if SCHEMA_VERSION \<le> user_version S then (Inr (), S)
      else (case migrate_tx (user_version S) S of
              Inl e \<Rightarrow> (Inl e, S)
            | Inr S' \<Rightarrow> (Inr (), set_version S')))"

definition create_tables :: "Stored \<Rightarrow> (SqlError + unit) \<times> Stored" where
  "create_tables S = migrate (create_hashes (create_files S))"

text \<open>The states a process that dies in \<open>create_tables\<close> can leave behind: after each statement, before and after
  the commit, and after the version mark.\<close>

definition interrupted :: "Stored \<Rightarrow> Stored list" where
  "interrupted S =
     (let a = create_files S; b = create_hashes a
      in [S, a, b, snd (migrate b)] @
         (if user_version b < SCHEMA_VERSION
          then (case migrate_tx (user_version b) b of Inr c \<Rightarrow> [c] | Inl _ \<Rightarrow> []) else []))"

text \<open>The tables the exporter works on, once both have their present layout.\<close>

definition opened :: "Stored \<Rightarrow> Database option" where
  "opened S =
     (case (files_table S, hashes_table S) of
        (Some t, Some (By_Database hashes)) \<Rightarrow>
          if has_dev t \<and> has_ino t then Some \<lparr>processed_files = file_rows t, query_hashes = hashes\<rparr> else None
      | _ \<Rightarrow> None)"

section \<open>Files of earlier releases\<close>

text \<open>What a release leaves: nothing, or tables whose columns are at least those of the version mark, the two identity
  columns together, keys unique, and no upgrade table.\<close>

definition released :: "Stored \<Rightarrow> bool" where
  "released S \<longleftrightarrow>
     hashes_v2 S = None \<and>
     (case files_table S of None \<Rightarrow> True | Some t \<Rightarrow> has_dev t = has_ino t \<and> (has_dev t \<or> user_version S < 1)) \<and>
     (case hashes_table S of
        None \<Rightarrow> True
      | Some (By_Hash rows) \<Rightarrow> user_version S < 2 \<and> distinct (map fst rows)
      | Some (By_Database rows) \<Rightarrow> distinct (map fst rows))"

text \<open>The tables after an opening.\<close>

definition upgraded_files :: "FilesTable option \<Rightarrow> (string \<times> FileRow) list" where
  "upgraded_files f =
     (case f of
        None \<Rightarrow> []
      | Some t \<Rightarrow>
          if has_dev t then file_rows t
          else map (\<lambda>(path, row). (path, row\<lparr>row_dev := None, row_ino := None\<rparr>)) (file_rows t))"

definition upgraded_hashes :: "HashTable option \<Rightarrow> (query_key \<times> HashRow) list" where
  "upgraded_hashes h =
     (case h of
        None \<Rightarrow> []
      | Some (By_Hash rows) \<Rightarrow> map (\<lambda>(hash, row). ((hash, UNKNOWN_DATABASE), row)) rows
      | Some (By_Database rows) \<Rightarrow> rows)"

definition upgraded :: "Stored \<Rightarrow> Stored" where
  "upgraded S =
     \<lparr>user_version = max SCHEMA_VERSION (user_version S),
      files_table = Some \<lparr>file_rows = upgraded_files (files_table S), has_dev = True, has_ino = True\<rparr>,
      hashes_table = Some (By_Database (upgraded_hashes (hashes_table S))), hashes_v2 = None\<rparr>"

lemmas statement_defs = add_dev_def add_ino_def create_v2_def insert_v2_def drop_hashes_def rename_v2_def sql_then_def
  copied_rows_def

lemma hash_only_distinct:
  assumes "distinct (map fst rows)"
  shows "distinct (map (fst \<circ> (\<lambda>(hash, row). ((hash, UNKNOWN_DATABASE), row))) rows)"
proof -
  have "map (fst \<circ> (\<lambda>(hash, row). ((hash, UNKNOWN_DATABASE), row))) rows = map (\<lambda>hash. (hash, UNKNOWN_DATABASE)) (map fst rows)"
    by (simp add: comp_def case_prod_unfold)
  then show ?thesis using assms by (simp only: distinct_map [of _ "map fst rows"]) (simp add: inj_on_def)
qed

lemma stored_eqI:
  "user_version S = user_version T \<Longrightarrow> files_table S = files_table T \<Longrightarrow> hashes_table S = hashes_table T \<Longrightarrow>
   hashes_v2 S = hashes_v2 T \<Longrightarrow> S = (T :: Stored)"
  by simp

lemma migrated_files:
  assumes "released S" and "files_table S = Some t"
  shows "migrate_files (user_version S) S =
    Inr (S\<lparr>files_table := Some \<lparr>file_rows = upgraded_files (Some t), has_dev = True, has_ino = True\<rparr>\<rparr>)"
proof (cases "has_dev t")
  case True
  then have "t = \<lparr>file_rows = file_rows t, has_dev = True, has_ino = True\<rparr>" using assms by (simp add: released_def)
  then show ?thesis using True assms(2) by (auto simp: migrate_files_def upgraded_files_def intro: stored_eqI)
next
  case False
  then show ?thesis using assms
    by (simp add: released_def migrate_files_def upgraded_files_def statement_defs comp_def case_prod_unfold)
qed

lemma migrated_hashes:
  assumes "released S" and "hashes_table S = Some h" and "user_version S < 2 \<or> (\<exists>rows. h = By_Database rows)"
  shows "migrate_hashes (user_version S) (S\<lparr>files_table := f\<rparr>) =
    Inr (S\<lparr>files_table := f, hashes_table := Some (By_Database (upgraded_hashes (Some h))), hashes_v2 := None\<rparr>)"
proof (cases h)
  case (By_Hash rows)
  then have "distinct (map (fst \<circ> (\<lambda>(hash, row). ((hash, UNKNOWN_DATABASE), row))) rows)"
    using assms by (simp add: released_def hash_only_distinct)
  then show ?thesis using By_Hash assms
    by (simp add: released_def migrate_hashes_def upgraded_hashes_def statement_defs)
next
  case (By_Database rows)
  then show ?thesis using assms
    by (cases S) (simp add: released_def migrate_hashes_def upgraded_hashes_def)
qed

lemma migrated_tx:
  assumes "released S" and "files_table S \<noteq> None" and "hashes_table S \<noteq> None" and "user_version S < SCHEMA_VERSION"
  shows "migrate_tx (user_version S) S = Inr ((upgraded S)\<lparr>user_version := user_version S\<rparr>)"
proof -
  obtain t h where th: "files_table S = Some t" "hashes_table S = Some h" using assms by auto
  have v: "user_version S < 2" using assms(4) by (simp add: SCHEMA_VERSION_def)
  show ?thesis
    using migrated_hashes [OF assms(1) th(2) disjI1 [OF v]]
    by (auto simp: migrate_tx_def migrated_files [OF assms(1) th(1)] sql_then_def upgraded_def th intro!: stored_eqI)
qed

lemma migrated:
  assumes "released S" and "files_table S \<noteq> None" and "hashes_table S \<noteq> None"
  shows "migrate S = (Inr (), upgraded S)"
proof (cases "SCHEMA_VERSION \<le> user_version S")
  case True
  then have v: "2 \<le> user_version S" by (simp add: SCHEMA_VERSION_def)
  obtain t h where th: "files_table S = Some t" "hashes_table S = Some h" using assms by auto
  have t: "has_dev t" "has_ino t" using assms(1) th v by (auto simp: released_def)
  then have "t = \<lparr>file_rows = file_rows t, has_dev = True, has_ino = True\<rparr>" by simp
  moreover obtain rows where "h = By_Database rows" using assms(1) th v by (cases h) (auto simp: released_def)
  ultimately have "upgraded S = S"
    using assms(1) th True t by (intro stored_eqI) (auto simp: upgraded_def upgraded_files_def upgraded_hashes_def released_def)
  then show ?thesis using True by (simp add: migrate_def)
next
  case False
  then show ?thesis using migrated_tx [OF assms]
    by (simp add: migrate_def set_version_def) (simp add: upgraded_def)
qed

lemma created:
  "files_table (create_hashes (create_files S)) \<noteq> None" "hashes_table (create_hashes S) \<noteq> None"
  by (auto simp: create_files_def create_hashes_def split: option.split)

lemma create_released: "released S \<Longrightarrow> released (create_files S)" "released S \<Longrightarrow> released (create_hashes S)"
  by (auto simp: released_def create_files_def create_hashes_def split: option.splits HashTable.splits)

lemma create_upgraded: "upgraded (create_files S) = upgraded S" "upgraded (create_hashes S) = upgraded S"
  by (auto simp: upgraded_def create_files_def create_hashes_def upgraded_files_def upgraded_hashes_def
      split: option.splits)

lemma opened_anew: "released S \<Longrightarrow> create_tables S = (Inr (), upgraded S)"
  unfolding create_tables_def
  by (simp add: migrated created create_released create_upgraded)

lemma upgraded_released:
  assumes "released S"
  shows "released (upgraded S)" and "user_version S < SCHEMA_VERSION \<Longrightarrow> released ((upgraded S)\<lparr>user_version := user_version S\<rparr>)"
proof -
  have "distinct (map fst (upgraded_hashes (hashes_table S)))"
    using assms by (cases "hashes_table S"; cases "the (hashes_table S)")
      (simp_all add: released_def upgraded_hashes_def hash_only_distinct)
  then show "released (upgraded S)" and "user_version S < SCHEMA_VERSION \<Longrightarrow> released ((upgraded S)\<lparr>user_version := user_version S\<rparr>)"
    by (simp_all add: released_def upgraded_def)
qed

lemma upgraded_again: "upgraded (upgraded S) = upgraded S"
  "user_version S < SCHEMA_VERSION \<Longrightarrow> upgraded ((upgraded S)\<lparr>user_version := user_version S\<rparr>) = upgraded S"
  by (simp_all add: upgraded_def upgraded_files_def upgraded_hashes_def)

text \<open>C8: opening the database survives a crash at any point: whatever prefix of its statements an earlier
  attempt on the file of any release has executed, the next attempt succeeds, although SQLite refuses to add a column
  or create a table twice, and arrives at the tables of an undisturbed one; what an attempt leaves is again such
  a file, so that this holds after any number of crashes.\<close>

theorem opening_survives_crashes:
  assumes "released S"
  shows "fst (create_tables S) = Inr () \<and>
    list_all (\<lambda>S'. released S' \<and> create_tables S' = create_tables S) (interrupted S)"
proof -
  let ?b = "create_hashes (create_files S)"
  have b: "released ?b" "upgraded ?b = upgraded S" using assms by (simp_all add: create_released create_upgraded)
  have "list_all (\<lambda>S'. released S' \<and> upgraded S' = upgraded S) (interrupted S)"
  proof (cases "user_version ?b < SCHEMA_VERSION")
    case True
    show ?thesis
      using assms b True
      by (simp add: interrupted_def Let_def migrated_tx [OF b(1) created True] migrated [OF b(1) created] create_released
          create_upgraded upgraded_released upgraded_again)
        (use upgraded_released [OF b(1)] upgraded_again [of ?b] True b(2) in simp)
  next
    case False
    then show ?thesis
      using assms b by (simp add: interrupted_def Let_def migrated [OF b(1) created] create_released create_upgraded
          upgraded_released upgraded_again)
  qed
  then show ?thesis using opened_anew [OF assms] by (auto simp: list_all_iff opened_anew)
qed

text \<open>C9: upgrading a database of an earlier release loses nothing, be it of version 0, of version 1 or current:
  every checkpoint keeps its row, without an identity where the columns were missing, and every query keeps its
  sightings, under the unknown database where the table had none.\<close>

theorem upgrade_keeps_rows:
  assumes "released S" and "files_table S = Some t" and "hashes_table S = Some h"
  shows "\<exists>T D. create_tables S = (Inr (), T) \<and> opened T = Some D \<and>
    user_version T = max SCHEMA_VERSION (user_version S) \<and>
    (\<lambda>path. map_of (processed_files D) path) =
      (\<lambda>path. map_option (\<lambda>r. if has_dev t then r else r\<lparr>row_dev := None, row_ino := None\<rparr>) (map_of (file_rows t) path)) \<and>
    (\<lambda>k. map_of (query_hashes D) k) =
      (\<lambda>(hash, db). case h of
         By_Hash rows \<Rightarrow> if db = UNKNOWN_DATABASE then map_of rows hash else None
       | By_Database rows \<Rightarrow> map_of rows (hash, db))"
proof -
  have hashes: "map_of (map (\<lambda>(hash, row). ((hash, UNKNOWN_DATABASE), row)) rows) (hash, db) =
      (if db = UNKNOWN_DATABASE then map_of rows hash else None)" for rows :: "(string \<times> HashRow) list" and hash db
    by (induction rows) auto
  have "opened (upgraded S) = Some \<lparr>processed_files = upgraded_files (Some t), query_hashes = upgraded_hashes (Some h)\<rparr>"
    using assms(2,3) by (simp add: opened_def upgraded_def)
  then show ?thesis
    unfolding opened_anew [OF assms(1)]
    by (intro exI [of _ "upgraded S"])
      (auto simp: upgraded_files_def upgraded_hashes_def map_of_map comp_def hashes option.map_id0 [unfolded id_def]
        upgraded_def fun_eq_iff split: HashTable.split)
qed

section \<open>Witnesses\<close>

text \<open>A file of version 1: with identities, keyed by hash.\<close>

definition sample_file_row :: FileRow where
  "sample_file_row = \<lparr>row_position = 5, row_modified = 1, row_size = 9, row_processed = ''t'', row_dev = Some 3, row_ino = Some 4\<rparr>"

definition sample_hash_row :: HashRow where
  "sample_hash_row = \<lparr>row_normalized = ''q'', row_first_seen = ''a'', row_last_seen = ''b''\<rparr>"

definition sample_files :: "bool \<Rightarrow> FilesTable" where
  "sample_files ident = \<lparr>file_rows = [(''l'', sample_file_row)], has_dev = ident, has_ino = ident\<rparr>"

definition sample_release :: "int \<Rightarrow> bool \<Rightarrow> Stored" where
  "sample_release v ident =
     \<lparr>user_version = v, files_table = Some (sample_files ident), hashes_table = Some (By_Hash [(''h'', sample_hash_row)]),
      hashes_v2 = None\<rparr>"

theorem opening_survives_crashes_witness:
  "list_all (\<lambda>S'. create_tables S' = create_tables (sample_release 0 False)) (interrupted (sample_release 0 False)) \<and>
   fst (create_tables (sample_release 0 False)) = Inr ()"
proof -
  have "released (sample_release 0 False)" by (simp add: released_def sample_release_def sample_files_def)
  from opening_survives_crashes [OF this] show ?thesis by (simp add: list_all_iff)
qed

theorem upgrade_keeps_rows_witness:
  "\<exists>T D. create_tables (sample_release 1 True) = (Inr (), T) \<and> opened T = Some D \<and>
     map_option row_dev (map_of (processed_files D) ''l'') = Some (Some 3) \<and>
     map_option row_first_seen (map_of (query_hashes D) (''h'', UNKNOWN_DATABASE)) = Some ''a''"
proof -
  have "released (sample_release 1 True)" by (simp add: released_def sample_release_def sample_files_def)
  moreover have "files_table (sample_release 1 True) = Some (sample_files True)"
    "hashes_table (sample_release 1 True) = Some (By_Hash [(''h'', sample_hash_row)])"
    by (simp_all add: sample_release_def)
  ultimately obtain T D where D: "create_tables (sample_release 1 True) = (Inr (), T)" "opened T = Some D"
    and f: "(\<lambda>path. map_of (processed_files D) path) =
      (\<lambda>path. map_option (\<lambda>r. if has_dev (sample_files True) then r else r\<lparr>row_dev := None, row_ino := None\<rparr>)
        (map_of (file_rows (sample_files True)) path))"
    and h: "(\<lambda>k. map_of (query_hashes D) k) = (\<lambda>(hash, db). case By_Hash [(''h'', sample_hash_row)] of
         By_Hash rows \<Rightarrow> if db = UNKNOWN_DATABASE then map_of rows hash else None
       | By_Database rows \<Rightarrow> map_of rows (hash, db))"
    by (elim upgrade_keeps_rows [elim_format] exE conjE)
  have "map_of (processed_files D) ''l'' = Some sample_file_row"
    using fun_cong [OF f, of "''l''"] by (simp add: sample_files_def)
  moreover have "map_of (query_hashes D) (''h'', UNKNOWN_DATABASE) = Some sample_hash_row"
    using fun_cong [OF h, of "(''h'', UNKNOWN_DATABASE)"] by simp
  ultimately show ?thesis using D by (auto simp: sample_file_row_def sample_hash_row_def)
qed

end
