(* ===== verification/Exporter_Daemon.thy ===== *)
theory Exporter_Daemon
  imports Collector_Faults State_Migration
begin

text \<open>
  The exporter as a running process: the scheduler (\<open>scheduler.rs\<close>) that waits for the next of a
  configuration change, a due collection and a due retention pass, and the readiness signal of the
  HTTP server (\<open>server.rs\<close>). One turn of the \<open>select!\<close> loop is \<open>scheduler_step\<close> on the event that
  woke it; the timers and the channel deliver the events and are not modelled. \<open>time::interval\<close> of the
  tokio crate panics on a zero period, as its documentation says.
\<close>

section \<open>The scheduler\<close>

record ('v, 'm) Scheduler =
  collector :: "('v, 'm) LogCollector"
  interval :: int
  hot_reload :: bool

definition new_scheduler :: "('v, 'm) LogCollector \<Rightarrow> int \<Rightarrow> ('v, 'm) Scheduler" where
  "new_scheduler C d = \<lparr>collector = C, interval = d, hot_reload = False\<rparr>"

definition with_hot_reload :: "('v, 'm) LogCollector \<Rightarrow> int \<Rightarrow> ('v, 'm) Scheduler" where
  "with_hot_reload C d = \<lparr>collector = C, interval = d, hot_reload = True\<rparr>"

text \<open>What wakes the loop. A retention pass meets the files that exist, the time, and possibly a database
  that cannot be used.\<close>

datatype Wakeup =
    Config_Changed Config
  | Channel_Closed
  | Collection_Due Cycle
  | Retention_Due "string \<Rightarrow> bool" int bool

definition retention_pass ::
  "('v, 'm) Linked \<Rightarrow> (string \<Rightarrow> bool) \<Rightarrow> int \<Rightarrow> bool \<Rightarrow> ('v, 'm) LogCollector \<Rightarrow> ('v, 'm) LogCollector" where
  "retention_pass K exists_file now fails C =
     (if fails then C
      else C\<lparr>state_store :=
        snd (cleanup_old_state (rfc3339 K) exists_file (retain_days (metrics (config C))) now (state_store C))\<rparr>)"

text \<open>The scheduler's answer to a changed configuration.\<close>

definition apply_config ::
  "('v, 'm) Linked \<Rightarrow> Config \<Rightarrow> ('v, 'm) Scheduler \<Rightarrow> (config_error, ('v, 'm) Scheduler) outcome" where
  "apply_config K c S =
     (case update_config K (collector S) c of
        (Inl _, C) \<Rightarrow> Done (S\<lparr>collector := C\<rparr>)
      | (Inr _, C) \<Rightarrow>
          (case poll_interval_duration c of
             Done d \<Rightarrow>
               if d = interval S then Done (S\<lparr>collector := C\<rparr>)
               else if d = 0 then Panicked
               else Done (S\<lparr>collector := C, interval := d\<rparr>)
           | Failed _ \<Rightarrow> Done (S\<lparr>collector := C\<rparr>)
           | Panicked \<Rightarrow> Panicked))"

definition scheduler_step ::
  "('v, 'm) Linked \<Rightarrow> Wakeup \<Rightarrow> ('v, 'm) Scheduler \<Rightarrow> (config_error, ('v, 'm) Scheduler) outcome" where
  "scheduler_step K w S =
     (case w of
        Config_Changed c \<Rightarrow> if hot_reload S then apply_config K c S else Done S
      | Channel_Closed \<Rightarrow> Done (S\<lparr>hot_reload := False\<rparr>)
      | Collection_Due y \<Rightarrow> Done (S\<lparr>collector := collect_metrics K y (collector S)\<rparr>)
      | Retention_Due exists_file now fails \<Rightarrow>
          Done (S\<lparr>collector := retention_pass K exists_file now fails (collector S)\<rparr>))"

text \<open>The start: the timer, then a first collection.\<close>

definition scheduler_start ::
  "('v, 'm) Linked \<Rightarrow> Cycle \<Rightarrow> ('v, 'm) Scheduler \<Rightarrow> (config_error, ('v, 'm) Scheduler) outcome" where
  "scheduler_start K y S =
     (if interval S = 0 then Panicked else Done (S\<lparr>collector := collect_metrics K y (collector S)\<rparr>))"

fun scheduler_loop ::
  "('v, 'm) Linked \<Rightarrow> Wakeup list \<Rightarrow> ('v, 'm) Scheduler \<Rightarrow> (config_error, ('v, 'm) Scheduler) outcome" where
  "scheduler_loop K [] S = Done S"
| "scheduler_loop K (w # ws) S = and_then (scheduler_step K w S) (scheduler_loop K ws)"

section \<open>Readiness\<close>

record HealthState =
  last_success_unix :: int
  started_unix :: int
  max_staleness_secs :: int

definition new_health :: "int \<Rightarrow> int \<Rightarrow> HealthState" where
  "new_health staleness now =
     \<lparr>last_success_unix = 0, started_unix = now, max_staleness_secs = as_i64 staleness\<rparr>"

definition mark_success :: "int \<Rightarrow> HealthState \<Rightarrow> HealthState" where
  "mark_success now h = h\<lparr>last_success_unix := now\<rparr>"

definition is_ready :: "int \<Rightarrow> HealthState \<Rightarrow> bool" where
  "is_ready now h \<longleftrightarrow>
     (let reference = (if last_success_unix h = 0 then started_unix h else last_success_unix h)
      in now - reference < max_staleness_secs h)"

text \<open>\<open>run_daemon\<close> fixes the staleness once, from the interval it starts with.\<close>

definition daemon_staleness :: "int \<Rightarrow> int" where
  "daemon_staleness d = max (sat_mul64 (d div 10 ^ 9) 3) 60"

section \<open>Settings in force\<close>

text \<open>The patterns compiled, and the interval waited for, are those of the configuration.\<close>

definition in_force :: "('v, 'm) Linked \<Rightarrow> ('v, 'm) Scheduler \<Rightarrow> bool" where
  "in_force K S \<longleftrightarrow>
     compile_patterns (regex K) (config (collector S)) = Inr (filter_patterns (collector S)) \<and>
     poll_interval_duration (config (collector S)) = Done (interval S)"

fun last_config :: "('v, 'm) Linked \<Rightarrow> Config \<Rightarrow> bool \<Rightarrow> Wakeup list \<Rightarrow> Config" where
  "last_config K c on [] = c"
| "last_config K c on (Config_Changed new # ws) = last_config K (if on then new else c) on ws"
| "last_config K c on (Channel_Closed # ws) = last_config K c False ws"
| "last_config K c on (Collection_Due y # ws) = last_config K c on ws"
| "last_config K c on (Retention_Due ex now fails # ws) = last_config K c on ws"

lemma in_force_settings: "settings C = settings (collector S) \<Longrightarrow> in_force K (S\<lparr>collector := C\<rparr>) = in_force K S"
  by (simp add: in_force_def settings_def)

lemma retention_settings: "settings (retention_pass K ex now fails C) = settings C"
  by (simp add: retention_pass_def)

lemma new_in_force:
  assumes "new_collector K c D = Inr C" and "poll_interval_duration c = Done d"
  shows "in_force K (with_hot_reload C d) \<and> config C = c"
  using assms by (auto simp: new_collector_def in_force_def with_hot_reload_def split: sum.splits)

lemma apply_valid:
  assumes "validate (regex K) dsn_ok c = Done ()" and "poll_interval_duration c = Done d" and "d \<noteq> 0"
  shows "\<exists>S'. apply_config K c S = Done S' \<and> in_force K S' \<and> config (collector S') = c \<and> hot_reload S' = hot_reload S"
proof -
  obtain pfx pats where "parse_prefix (regex K) (log_line_prefix (log_parsing c)) = Inr pfx"
    and "compile_patterns (regex K) c = Inr pats"
    using validated [OF assms(1)] by blast
  then show ?thesis using assms(2,3) by (auto simp: apply_config_def update_config_def in_force_def)
qed

definition usable_wakeup :: "('v, 'm) Linked \<Rightarrow> (string \<Rightarrow> bool) \<Rightarrow> Wakeup \<Rightarrow> bool" where
  "usable_wakeup K dsn_ok w =
     (case w of
        Config_Changed c \<Rightarrow>
          validate (regex K) dsn_ok c = Done () \<and> poll_interval_duration c \<noteq> Done 0
      | _ \<Rightarrow> True)"

lemma valid_interval: "validate L dsn_ok c = Done () \<Longrightarrow> \<exists>d. poll_interval_duration c = Done d"
  by (auto simp: validate_def and_then_Done)

lemma loop_in_force:
  assumes "in_force K S" and "list_all (usable_wakeup K dsn_ok) ws"
  shows "\<exists>S'. scheduler_loop K ws S = Done S' \<and> in_force K S' \<and>
    config (collector S') = last_config K (config (collector S)) (hot_reload S) ws"
  using assms
proof (induction ws arbitrary: S)
  case (Cons w ws)
  have "\<exists>S'. scheduler_step K w S = Done S' \<and> in_force K S' \<and>
      last_config K (config (collector S')) (hot_reload S') ws = last_config K (config (collector S)) (hot_reload S) (w # ws)"
  proof (cases w)
    case (Config_Changed c)
    then have c: "validate (regex K) dsn_ok c = Done ()" "poll_interval_duration c \<noteq> Done 0"
      using Cons.prems(2) by (simp_all add: usable_wakeup_def)
    from valid_interval [OF c(1)] obtain d where "poll_interval_duration c = Done d" by blast
    with c(2) apply_valid [OF c(1) this, of S] show ?thesis
      using Cons.prems(1) Config_Changed by (auto simp: scheduler_step_def)
  next
    case Channel_Closed
    then show ?thesis using Cons.prems(1) by (simp add: scheduler_step_def in_force_def)
  next
    case (Collection_Due y)
    have "config (collect_metrics K y (collector S)) = config (collector S)"
      using collect_settings [of K y "collector S"] by (simp add: settings_def)
    then show ?thesis using Collection_Due Cons.prems(1) by (simp add: scheduler_step_def in_force_settings collect_settings)
  next
    case (Retention_Due ex now fails)
    have "config (retention_pass K ex now fails (collector S)) = config (collector S)"
      by (simp add: retention_pass_def)
    then show ?thesis using Retention_Due Cons.prems(1) by (simp add: scheduler_step_def in_force_settings retention_settings)
  qed
  then obtain S' where "scheduler_step K w S = Done S'" "in_force K S'"
    "last_config K (config (collector S')) (hot_reload S') ws = last_config K (config (collector S)) (hot_reload S) (w # ws)"
    by blast
  with Cons.IH [of S'] Cons.prems(2) show ?case by (simp add: and_then_def)
qed simp

section \<open>Exactly once through reloads and retention\<close>












section \<open>Properties\<close>


text \<open>The daemon keeps running on the last configuration it was given: over any wakeups whose
  configurations pass validation and do not ask for a zero interval, the loop does not stop, the
  configuration in force is the last one that arrived while the reload channel was open, its patterns are
  the ones applied and its interval is the one waited for.\<close>

theorem daemon_serves_last_config:
  assumes "new_collector K c D = Inr C" and "poll_interval_duration c = Done d"
    and "list_all (usable_wakeup K dsn_ok) ws"
  shows "\<exists>S. scheduler_loop K ws (with_hot_reload C d) = Done S \<and> config (collector S) = last_config K c True ws \<and>
    compile_patterns (regex K) (config (collector S)) = Inr (filter_patterns (collector S)) \<and>
    poll_interval_duration (config (collector S)) = Done (interval S)"
  using loop_in_force [OF conjunct1 [OF new_in_force [OF assms(1,2)]] assms(3)] new_in_force [OF assms(1,2)]
  by (auto simp: in_force_def with_hot_reload_def)

lemma validated_anew:
  assumes "validate L dsn_ok c = Done ()" and "parse_duration s = Done d"
  shows "validate L dsn_ok (c\<lparr>log_parsing := (log_parsing c)\<lparr>poll_interval := s\<rparr>\<rparr>) = Done ()"
  using assms by (auto simp: validate_def poll_interval_duration_def and_then_Done split: sum.splits)

lemma reloaded:
  assumes "validate L dsn_ok c = Done ()"
  shows "try_reload L dsn_ok True (Some c) current = Done (c, needs_restart current c)"
proof -
  obtain pfx where fs: "(case filters c of None \<Rightarrow> Done () | Some f \<Rightarrow> validate_filters L pfx f) = Done ()"
    using assms by (auto simp: validate_def and_then_Done split: sum.splits)
  obtain d where d: "poll_interval_duration c = Done d" using valid_interval [OF assms] by blast
  have "(case filters c of None \<Rightarrow> Done () | Some f \<Rightarrow> (case exclude_query_patterns f of None \<Rightarrow> Done ()
      | Some pats \<Rightarrow> first_invalid (\<lambda>p. compile_match L p \<noteq> None) pats Invalid_Pattern)) = Done ()"
  proof (cases "filters c")
    case (Some f)
    then show ?thesis using fs by (cases "exclude_query_patterns f") (simp_all add: validate_filters_def and_then_Done)
  qed simp
  then show ?thesis using assms d by (simp add: try_reload_def load_from_file_def and_then_def)
qed

text \<open>C7: a zero poll interval stops the daemon. Write any text of a zero duration into any valid configuration:
  the file still loads, and a running daemon with another interval still takes it over; its scheduler then panics,
  since \<open>tokio::time::interval\<close> refuses a zero period, and so does a daemon that starts on it.\<close>

theorem zero_interval_stops_daemon:
  assumes "validate (regex K) dsn_ok c = Done ()" and "parse_duration s = Done 0" and "interval S \<noteq> 0"
    and "hot_reload S"
  shows "let c0 = c\<lparr>log_parsing := (log_parsing c)\<lparr>poll_interval := s\<rparr>\<rparr> in
    load_from_file (regex K) dsn_ok (Some c0) = Done c0 \<and>
    try_reload (regex K) dsn_ok True (Some c0) current = Done (c0, needs_restart current c0) \<and>
    scheduler_loop K (Config_Changed c0 # ws) S = Panicked \<and>
    poll_interval_duration c0 = Done 0 \<and> scheduler_start K y (with_hot_reload C 0) = Panicked"
proof -
  let ?c = "c\<lparr>log_parsing := (log_parsing c)\<lparr>poll_interval := s\<rparr>\<rparr>"
  have v: "validate (regex K) dsn_ok ?c = Done ()" by (rule validated_anew [OF assms(1,2)])
  have d: "poll_interval_duration ?c = Done 0" using assms(2) by (simp add: poll_interval_duration_def)
  obtain pfx pats where "parse_prefix (regex K) (log_line_prefix (log_parsing ?c)) = Inr pfx"
    and "compile_patterns (regex K) ?c = Inr pats"
    using validated [OF v] by blast
  then have "scheduler_loop K (Config_Changed ?c # ws) S = Panicked"
    using d assms(3,4) by (auto simp: scheduler_step_def apply_config_def update_config_def and_then_def)
  then show ?thesis
    using v d reloaded [OF v] by (simp add: load_from_file_def and_then_def scheduler_start_def with_hot_reload_def)
qed

section \<open>Witnesses\<close>


lemma sample_interval: "\<exists>t. poll_interval_duration sample_config = Done t"
proof -
  have "poll_interval (log_parsing sample_config) = ''30s''" by (simp add: sample_config_def default_log_parsing_def)
  then show ?thesis using sample_durations(3) unfolding poll_interval_duration_def by metis
qed

theorem daemon_serves_last_config_witness:
  "\<exists>C d S. new_collector sample_linked sample_config empty_database = Inr C \<and>
     scheduler_loop sample_linked [Collection_Due sample_cycle, Channel_Closed] (with_hot_reload C d) = Done S \<and>
     config (collector S) = sample_config"
proof -
  obtain C where C: "new_collector sample_linked sample_config empty_database = Inr C" using sample_new by blast
  obtain d where d: "poll_interval_duration sample_config = Done d" using sample_interval by blast
  have "list_all (usable_wakeup sample_linked (\<lambda>_. True)) [Collection_Due sample_cycle, Channel_Closed]"
    by (simp add: usable_wakeup_def)
  from daemon_serves_last_config [OF C d this] show ?thesis using C by (auto intro!: exI [of _ C] exI [of _ d])
qed

theorem zero_interval_stops_daemon_witness:
  "\<forall>C. scheduler_loop sample_linked
     [Config_Changed (sample_config\<lparr>log_parsing := (log_parsing sample_config)\<lparr>poll_interval := ''0s''\<rparr>\<rparr>)]
     (with_hot_reload C 30) = Panicked"
proof
  fix C :: "(nat \<Rightarrow> u8, nat \<Rightarrow> bool) LogCollector"
  obtain d where d: "poll_interval_duration sample_config = Done d" using sample_interval by blast
  obtain pfx where pfx: "parse_prefix sample_regex (log_line_prefix (log_parsing sample_config)) = Inr pfx"
    using sample_prefix by (auto simp: sample_config_simps)
  have v: "validate (regex sample_linked) (\<lambda>_. True) sample_config = Done ()"
    unfolding validate_def d
    by (simp add: pfx first_invalid_def sample_linked_def)
      (simp add: sample_config_def default_config_def default_metrics_def first_invalid_def)
  from zero_interval_stops_daemon [OF v zero_duration, of "with_hot_reload C 30"]
  show "scheduler_loop sample_linked
     [Config_Changed (sample_config\<lparr>log_parsing := (log_parsing sample_config)\<lparr>poll_interval := ''0s''\<rparr>\<rparr>)]
     (with_hot_reload C 30) = Panicked"
    by (simp add: with_hot_reload_def Let_def)
qed

end
