(* ===== verification/Analysis_Config.thy ===== *)
theory Analysis_Config
  imports Plan_Traversal Float_Bounds
begin

text \<open>
  The configuration of plan analysis (\<open>crates/core/src/analysis/consolidated_config.rs\<close>): the workload a
  configuration is made for, the thresholds derived from it, and the configuration of each analyzer.
  The configurations of the SQL analyses are left out with those analyses. A threshold of row counts is
  a \<open>u64\<close> value, kept as a natural number.
\<close>

section \<open>Decimal literals\<close>

text \<open>The literal \<open>n / 10 ^ k\<close> of the source, rounded to the nearest float.\<close>

definition f_dec :: "nat \<Rightarrow> nat \<Rightarrow> f64" where
  "f_dec n k = round_f64 False (of_int (int n) / of_int (10 ^ k))"

abbreviation f_lit :: "int \<Rightarrow> f64" where "f_lit n \<equiv> f_of_int n"

definition f_ge :: "f64 \<Rightarrow> f64 \<Rightarrow> bool" where "f_ge x y \<longleftrightarrow> f_le y x"
definition f_gt :: "f64 \<Rightarrow> f64 \<Rightarrow> bool" where "f_gt x y \<longleftrightarrow> f_lt y x"
definition n_ge :: "nat \<Rightarrow> nat \<Rightarrow> bool" where "n_ge x y \<longleftrightarrow> y \<le> x"

section \<open>The workload\<close>

datatype WorkloadType = OLTP | OLAP | Analytics | Mixed
datatype DatabaseSize = Small | Medium_Size | Large | VeryLarge
datatype PerformanceTarget = Latency | Throughput | Balanced | Efficiency

record WorkloadContext =
  workload_type :: WorkloadType
  database_size :: DatabaseSize
  performance_target :: PerformanceTarget
  postgres_version :: string

definition default_workload :: WorkloadContext where
  "default_workload =
     \<lparr>workload_type = Mixed, database_size = Medium_Size, performance_target = Balanced,
      postgres_version = ''14.0''\<rparr>"

record GlobalSettings =
  min_severity :: Severity
  max_findings_per_analyzer :: nat
  include_evidence :: bool
  generate_suggestions :: bool

definition default_settings :: GlobalSettings where
  "default_settings =
     \<lparr>min_severity = Low, max_findings_per_analyzer = 50, include_evidence = True,
      generate_suggestions = True\<rparr>"

section \<open>Thresholds\<close>

record 'a ThresholdLevels =
  low_level :: 'a
  medium_level :: 'a
  high_level :: 'a
  critical_level :: 'a

text \<open>\<open>classify\<close> for any \<open>PartialOrd\<close>: \<open>ge\<close> is its \<open>>=\<close>, which is false on NaN.\<close>

definition classify :: "('a \<Rightarrow> 'a \<Rightarrow> bool) \<Rightarrow> 'a ThresholdLevels \<Rightarrow> 'a \<Rightarrow> Severity" where
  "classify ge L v =
     (if ge v (critical_level L) then Critical
      else if ge v (high_level L) then High
      else if ge v (medium_level L) then Medium
      else Low)"

record SmartThresholds =
  row_counts :: "nat ThresholdLevels"
  costs :: "f64 ThresholdLevels"
  durations :: "f64 ThresholdLevels"
  ratios :: "f64 ThresholdLevels"

definition size_multiplier :: "DatabaseSize \<Rightarrow> f64" where
  "size_multiplier s =
     (case s of Small \<Rightarrow> f_dec 1 1 | Medium_Size \<Rightarrow> f_lit 1 | Large \<Rightarrow> f_lit 10 | VeryLarge \<Rightarrow> f_lit 100)"

definition workload_bases :: "WorkloadType \<Rightarrow> f64 \<times> f64 \<times> f64" where
  "workload_bases t =
     (case t of
        OLTP \<Rightarrow> (f_lit 10000, f_lit 1000, f_lit 100)
      | OLAP \<Rightarrow> (f_lit 1000000, f_lit 100000, f_lit 10000)
      | Analytics \<Rightarrow> (f_lit 500000, f_lit 50000, f_lit 5000)
      | Mixed \<Rightarrow> (f_lit 100000, f_lit 10000, f_lit 1000))"

definition performance_multiplier :: "PerformanceTarget \<Rightarrow> f64" where
  "performance_multiplier p =
     (case p of Latency \<Rightarrow> f_dec 1 1 | Throughput \<Rightarrow> f_lit 2 | Balanced \<Rightarrow> f_lit 1 | Efficiency \<Rightarrow> f_lit 5)"

definition base_values_for_workload :: "WorkloadContext \<Rightarrow> f64 \<times> f64 \<times> f64" where
  "base_values_for_workload w =
     (let s = size_multiplier (database_size w); p = performance_multiplier (performance_target w);
          (rows, cost, duration) = workload_bases (workload_type w)
      in (f_mul rows s, f_mul (f_mul cost s) p, f_mul duration p))"

definition scaled_levels :: "f64 \<Rightarrow> f64 ThresholdLevels" where
  "scaled_levels base =
     \<lparr>low_level = f_mul base (f_dec 1 1), medium_level = base, high_level = f_mul base (f_lit 10),
      critical_level = f_mul base (f_lit 100)\<rparr>"

definition row_levels :: "f64 \<Rightarrow> nat ThresholdLevels" where
  "row_levels base =
     \<lparr>low_level = f_to_u64 (f_mul base (f_dec 1 1)), medium_level = f_to_u64 base,
      high_level = f_to_u64 (f_mul base (f_lit 10)), critical_level = f_to_u64 (f_mul base (f_lit 100))\<rparr>"

definition thresholds_for_workload :: "WorkloadContext \<Rightarrow> SmartThresholds" where
  "thresholds_for_workload w =
     (let (row_base, cost_base, duration_base) = base_values_for_workload w
      in \<lparr>row_counts = row_levels row_base, costs = scaled_levels cost_base,
          durations = scaled_levels duration_base,
          ratios = \<lparr>low_level = f_dec 15 1, medium_level = f_lit 3, high_level = f_lit 10,
            critical_level = f_lit 100\<rparr>\<rparr>)"

section \<open>The configuration of the analyzers\<close>

record AnalyzerConfig =
  enabled_findings :: "FindingType list"
  thresholds :: SmartThresholds

record CostAnalysisConfig = AnalyzerConfig +
  startup_ratio_threshold :: f64
  duration_correlation_enabled :: bool

definition row_estimation_config :: "WorkloadContext \<Rightarrow> AnalyzerConfig" where
  "row_estimation_config w =
     \<lparr>enabled_findings = [ExcessiveRowProcessing, RowEstimationError, CartesianProduct],
      thresholds = thresholds_for_workload w\<rparr>"

definition scan_analysis_config :: "WorkloadContext \<Rightarrow> AnalyzerConfig" where
  "scan_analysis_config w =
     \<lparr>enabled_findings = [LargeSequentialScan, InefficiientScan, MissingIndex, PoorIndexSelectivity],
      thresholds = thresholds_for_workload w\<rparr>"

definition join_analysis_config :: "WorkloadContext \<Rightarrow> AnalyzerConfig" where
  "join_analysis_config w =
     \<lparr>enabled_findings = [IneffectiveJoinAlgorithm, LargeNestedLoop, HashJoinMemorySpill],
      thresholds = thresholds_for_workload w\<rparr>"

definition cost_analysis_config :: "WorkloadContext \<Rightarrow> CostAnalysisConfig" where
  "cost_analysis_config w =
     \<lparr>enabled_findings = [HighStartupCost, ExpensiveOperation, HighCostVariability],
      thresholds = thresholds_for_workload w, startup_ratio_threshold = f_dec 5 1,
      duration_correlation_enabled = True\<rparr>"

definition memory_analysis_config :: "WorkloadContext \<Rightarrow> AnalyzerConfig" where
  "memory_analysis_config w =
     \<lparr>enabled_findings = [MemorySpill, LargeSort, LargeAggregation], thresholds = thresholds_for_workload w\<rparr>"

definition parallelization_config :: "WorkloadContext \<Rightarrow> AnalyzerConfig" where
  "parallelization_config w =
     \<lparr>enabled_findings = [InefficientParallelism, MissedParallelization],
      thresholds = thresholds_for_workload w\<rparr>"

record AnalyzerConfigurations =
  row_estimation :: AnalyzerConfig
  scan_analysis :: AnalyzerConfig
  join_analysis :: AnalyzerConfig
  cost_analysis :: CostAnalysisConfig
  memory_analysis :: AnalyzerConfig
  parallelization :: AnalyzerConfig

definition configurations_for_workload :: "WorkloadContext \<Rightarrow> AnalyzerConfigurations" where
  "configurations_for_workload w =
     \<lparr>row_estimation = row_estimation_config w, scan_analysis = scan_analysis_config w,
      join_analysis = join_analysis_config w, cost_analysis = cost_analysis_config w,
      memory_analysis = memory_analysis_config w, parallelization = parallelization_config w\<rparr>"

record AnalysisConfiguration =
  global :: GlobalSettings
  workload :: WorkloadContext
  analyzer_configurations :: AnalyzerConfigurations
  custom_thresholds :: "(string \<rightharpoonup> SmartThresholds) option"

definition default_configuration :: AnalysisConfiguration where
  "default_configuration =
     \<lparr>global = default_settings, workload = default_workload,
      analyzer_configurations = configurations_for_workload default_workload, custom_thresholds = None\<rparr>"

definition high_performance_oltp :: AnalysisConfiguration where
  "high_performance_oltp =
     (let w = \<lparr>workload_type = OLTP, database_size = Large, performance_target = Latency,
               postgres_version = ''15.0''\<rparr>
      in \<lparr>global = \<lparr>min_severity = Low, max_findings_per_analyzer = 100, include_evidence = True,
            generate_suggestions = True\<rparr>,
          workload = w, analyzer_configurations = configurations_for_workload w, custom_thresholds = None\<rparr>)"

definition analytics_warehouse :: AnalysisConfiguration where
  "analytics_warehouse =
     (let w = \<lparr>workload_type = OLAP, database_size = VeryLarge, performance_target = Throughput,
               postgres_version = ''15.0''\<rparr>
      in \<lparr>global = \<lparr>min_severity = Medium, max_findings_per_analyzer = 25, include_evidence = True,
            generate_suggestions = True\<rparr>,
          workload = w, analyzer_configurations = configurations_for_workload w, custom_thresholds = None\<rparr>)"

definition development_environment :: AnalysisConfiguration where
  "development_environment =
     (let w = \<lparr>workload_type = Mixed, database_size = Small, performance_target = Balanced,
               postgres_version = ''14.0''\<rparr>
      in \<lparr>global = \<lparr>min_severity = Low, max_findings_per_analyzer = 200, include_evidence = True,
            generate_suggestions = True\<rparr>,
          workload = w, analyzer_configurations = configurations_for_workload w, custom_thresholds = None\<rparr>)"

end
