(* ===== verification/Analyzer_Base.thy ===== *)
theory Analyzer_Base
  imports Analysis_Config Analysis_Engine
begin

text \<open>
  What the plan analyzers share: printing of floats and quoted text in findings, saturating sums, and
  the contract of a visitor that makes its findings node by node (the locale \<open>node_visitor\<close>). An
  analyzer walks the plan depth first, so its findings come in post-order.
\<close>

section \<open>Printing\<close>

text \<open>A dash and a multiplication sign in UTF-8, and text between single quotes.\<close>

definition em_dash :: string where "em_dash = utf8 [0xE2, 0x80, 0x94]"
definition times_sign :: string where "times_sign = utf8 [0xC3, 0x97]"

definition quoted :: "string \<Rightarrow> string" where "quoted s = CHR 0x27 # s @ [CHR 0x27]"

text \<open>\<open>{:.k}\<close> of a float: its exact value rounded to \<open>k\<close> decimals, ties to even.\<close>

definition pad_zeros :: "nat \<Rightarrow> string \<Rightarrow> string" where
  "pad_zeros n s = replicate (n - length s) (CHR ''0'') @ s"

definition fmt_fixed :: "nat \<Rightarrow> f64 \<Rightarrow> string" where
  "fmt_fixed k x =
     (if is_nan x then ''NaN''
      else (if f_neg x then ''-'' else []) @
        (if is_infinite x then ''inf''
         else let s = pad_zeros (k + 1) (nat_to_string (nat (round_half_even (f_mag x * of_int (10 ^ k)))))
              in if k = 0 then s else take (length s - k) s @ ''.'' @ drop (length s - k) s))"

section \<open>Integers\<close>

text \<open>\<open>saturating_add\<close> and \<open>saturating_mul\<close> of \<open>u64\<close> values.\<close>

definition sat_add :: "nat \<Rightarrow> nat \<Rightarrow> nat" where "sat_add a b = nat (sat_add64 (int a) (int b))"
definition sat_mul :: "nat \<Rightarrow> nat \<Rightarrow> nat" where "sat_mul a b = nat (sat_mul64 (int a) (int b))"

section \<open>Findings\<close>

text \<open>The report of an analyzer before its findings, and with findings added one by one.\<close>

definition start_report :: "string \<Rightarrow> string \<Rightarrow> AnalysisReport" where
  "start_report n v = report_with_metadata (new_report n) ''version'' v"

definition add_findings :: "AnalysisReport \<Rightarrow> Finding list \<Rightarrow> AnalysisReport" where
  "add_findings r fs = foldl add_finding r fs"

definition with_metrics :: "AnalysisReport \<Rightarrow> (string \<times> f64) list \<Rightarrow> AnalysisReport" where
  "with_metrics r ms = foldl (\<lambda>r (k, x). with_metric r k x) r ms"

text \<open>A finding made by a chain of builder calls: its nodes, evidence and metadata.\<close>

definition finding_at :: "FindingType \<Rightarrow> Severity \<Rightarrow> string \<Rightarrow> string \<Rightarrow> string \<Rightarrow> NodePath list \<Rightarrow>
  (string \<times> f64) list \<Rightarrow> (string \<times> string) list \<Rightarrow> Finding" where
  "finding_at ft sev t d s ps evs mds =
     foldl (\<lambda>f (k, v). with_metadata f k v)
       (foldl (\<lambda>f (k, x). with_evidence f k x) (foldl with_node (new_finding ft sev t d s) ps) evs) mds"

text \<open>What the builder steps of findings and reports keep.\<close>

named_theorems finding_simps

lemma finding_parts [finding_simps]:
  "affected_nodes (new_finding ft sev t d s) = []"
  "affected_nodes (with_node f p) = affected_nodes f @ [p]"
  "affected_nodes (with_evidence f k x) = affected_nodes f"
  "affected_nodes (with_metadata f k v) = affected_nodes f"
  "finding_type (new_finding ft sev t d s) = ft"
  "finding_type (with_node f p) = finding_type f"
  "finding_type (with_evidence f k x) = finding_type f"
  "finding_type (with_metadata f k v) = finding_type f"
  "severity (new_finding ft sev t d s) = sev"
  "severity (with_node f p) = severity f"
  "severity (with_evidence f k x) = severity f"
  "severity (with_metadata f k v) = severity f"
  by (simp_all add: new_finding_def with_node_def with_evidence_def with_metadata_def)

lemma finding_at_parts [finding_simps]:
  "affected_nodes (finding_at ft sev t d s ps evs mds) = ps"
  "finding_type (finding_at ft sev t d s ps evs mds) = ft"
  "severity (finding_at ft sev t d s ps evs mds) = sev"
proof -
  have m: "affected_nodes (foldl (\<lambda>f (k, v). with_metadata f k v) f mds) = affected_nodes f \<and>
      finding_type (foldl (\<lambda>f (k, v). with_metadata f k v) f mds) = finding_type f \<and>
      severity (foldl (\<lambda>f (k, v). with_metadata f k v) f mds) = severity f" for f
    by (induction mds arbitrary: f) (auto simp: finding_simps)
  have e: "affected_nodes (foldl (\<lambda>f (k, v). with_evidence f k v) f evs) = affected_nodes f \<and>
      finding_type (foldl (\<lambda>f (k, v). with_evidence f k v) f evs) = finding_type f \<and>
      severity (foldl (\<lambda>f (k, v). with_evidence f k v) f evs) = severity f" for f
    by (induction evs arbitrary: f) (auto simp: finding_simps)
  have n: "affected_nodes (foldl with_node f ps) = affected_nodes f @ ps \<and>
      finding_type (foldl with_node f ps) = finding_type f \<and> severity (foldl with_node f ps) = severity f" for f
    by (induction ps arbitrary: f) (auto simp: finding_simps)
  show "affected_nodes (finding_at ft sev t d s ps evs mds) = ps"
    and "finding_type (finding_at ft sev t d s ps evs mds) = ft"
    and "severity (finding_at ft sev t d s ps evs mds) = sev"
    by (simp_all add: finding_at_def m e n finding_simps)
qed

lemma foldl_updates: "foldl (\<lambda>m (k, x). m(k \<mapsto> x)) m xs = m ++ map_of (rev xs)"
proof (induction xs arbitrary: m)
  case (Cons x xs)
  have "m(fst x \<mapsto> snd x) = m ++ map_of [x]" by (cases x) simp
  then show ?case using Cons by (simp only: foldl.simps case_prod_unfold rev.simps map_of_append map_add_assoc)
qed simp

lemma foldl_parts:
  "finding_metadata (foldl (\<lambda>f (k, x). with_metadata f k x) f mds) = foldl (\<lambda>m (k, x). m(k \<mapsto> x)) (finding_metadata f) mds"
  "evidence (foldl (\<lambda>f (k, x). with_metadata f k x) f mds) = evidence f"
  "finding_metadata (foldl (\<lambda>f (k, x). with_evidence f k x) f evs) = finding_metadata f"
  "evidence (foldl (\<lambda>f (k, x). with_evidence f k x) f evs) = foldl (\<lambda>m (k, x). m(k \<mapsto> x)) (evidence f) evs"
  "finding_metadata (foldl with_node f ps) = finding_metadata f"
  "evidence (foldl with_node f ps) = evidence f"
proof -
  show "finding_metadata (foldl (\<lambda>f (k, x). with_metadata f k x) f mds) =
      foldl (\<lambda>m (k, x). m(k \<mapsto> x)) (finding_metadata f) mds"
    by (induction mds arbitrary: f) (auto simp: with_metadata_def)
  show "evidence (foldl (\<lambda>f (k, x). with_metadata f k x) f mds) = evidence f"
    by (induction mds arbitrary: f) (auto simp: with_metadata_def)
  show "finding_metadata (foldl (\<lambda>f (k, x). with_evidence f k x) f evs) = finding_metadata f"
    by (induction evs arbitrary: f) (auto simp: with_evidence_def)
  show "evidence (foldl (\<lambda>f (k, x). with_evidence f k x) f evs) = foldl (\<lambda>m (k, x). m(k \<mapsto> x)) (evidence f) evs"
    by (induction evs arbitrary: f) (auto simp: with_evidence_def)
  show "finding_metadata (foldl with_node f ps) = finding_metadata f"
    by (induction ps arbitrary: f) (auto simp: with_node_def)
  show "evidence (foldl with_node f ps) = evidence f"
    by (induction ps arbitrary: f) (auto simp: with_node_def)
qed

lemma finding_at_maps:
  "finding_metadata (finding_at ft sev t d s ps evs mds) = map_of (rev mds)"
  "evidence (finding_at ft sev t d s ps evs mds) = map_of (rev evs)"
  by (simp_all add: finding_at_def foldl_parts foldl_updates new_finding_def)

lemma report_parts [finding_simps]:
  "findings (start_report n v) = []"
  "findings (with_metric r k x) = findings r"
  "findings (report_with_metadata r k t) = findings r"
  "findings (add_finding r f) = findings r @ [f]"
  by (simp_all add: start_report_def new_report_def with_metric_def report_with_metadata_def add_finding_def)

lemma findings_add [finding_simps]: "findings (add_findings r fs) = findings r @ fs"
  by (induction fs arbitrary: r) (simp_all add: add_findings_def add_finding_def)

lemma findings_metrics [finding_simps]: "findings (with_metrics r ms) = findings r"
  by (induction ms arbitrary: r) (auto simp: with_metrics_def with_metric_def)

lemma metrics_add [finding_simps]: "report_metrics (add_findings r fs) = report_metrics r"
  by (induction fs arbitrary: r) (simp_all add: add_findings_def add_finding_def)

lemma metrics_with [finding_simps]: "report_metrics (with_metrics r ms) = report_metrics r ++ map_of (rev ms)"
proof -
  have "report_metrics (with_metrics r ms) = foldl (\<lambda>m (k, x). m(k \<mapsto> x)) (report_metrics r) ms"
    by (induction ms arbitrary: r) (auto simp: with_metrics_def with_metric_def)
  then show ?thesis by (simp add: foldl_updates)
qed

lemma report_findings [finding_simps]: "findings (with_metrics (add_findings (start_report n v) fs) ms) = fs"
  by (simp add: finding_simps)

section \<open>Visits of a plan\<close>

definition places :: "ParsedPlan \<Rightarrow> place list" where
  "places plan = postorder (root plan, root_path)"

lemma visit_all: "depth_first plan (visiting f) ctx s = fold (\<lambda>x s. f s (fst x) (snd x) ctx) (places plan) s"
  by (simp add: depth_first_eq visits_postorder places_def)

lemma places_set: "set (places plan) = set (located (root plan, root_path))"
  using postorder_located [of "(root plan, root_path)"] by (metis places_def set_mset_mset)

lemma places_nodes: "mset (map fst (places plan)) = mset (nodes (root plan))"
proof -
  have "mset (map fst (places plan)) = image_mset fst (mset (located (root plan, root_path)))"
    by (simp add: places_def postorder_located)
  then show ?thesis using nodes_located [of "(root plan, root_path)"] by (simp flip: mset_map)
qed

lemma places_nodes_set: "fst ` set (places plan) = set (nodes (root plan))"
  using places_nodes [of plan] by (metis list.set_map set_mset_mset)

lemma place_in_plan:
  assumes "x \<in> set (places plan)"
  shows "get_node_at_path plan (path_indices (snd x)) = Some (fst x)"
  using located_descend [of x "(root plan, root_path)"] assms
  by (auto simp: places_set get_node_at_path_def root_path_def)

lemma fold_counts:
  assumes "\<And>s n p. c (f s n p ctx) = c s + (if P n then 1 else 0 :: nat)"
  shows "c (fold (\<lambda>x s. f s (fst x) (snd x) ctx) xs s) = c s + length (filter (\<lambda>x. P (fst x)) xs)"
  using assms by (induction xs arbitrary: s) simp_all

lemma visit_counts:
  assumes "\<And>s n p. c (f s n p ctx) = c s + (if P n then 1 else 0 :: nat)"
  shows "c (depth_first plan (visiting f) ctx s) = c s + length (filter P (nodes (root plan)))"
proof -
  have "length (filter (\<lambda>x. P (fst x)) (places plan)) = length (filter P (map fst (places plan)))"
    by (simp add: filter_map comp_def)
  also have "\<dots> = size (filter_mset P (mset (nodes (root plan))))"
    by (simp only: places_nodes [symmetric] size_mset flip: mset_filter)
  also have "\<dots> = length (filter P (nodes (root plan)))"
    by (simp only: size_mset flip: mset_filter)
  finally show ?thesis using fold_counts [of c f ctx P, OF assms] by (simp add: visit_all)
qed

text \<open>What every visit keeps holds after the walk.\<close>

lemma visit_invariant:
  assumes "I s" and "\<And>s x. x \<in> set (places plan) \<Longrightarrow> I s \<Longrightarrow> I (f s (fst x) (snd x) ctx)"
  shows "I (depth_first plan (visiting f) ctx s)"
proof -
  have "set xs \<subseteq> set (places plan) \<Longrightarrow> I s \<Longrightarrow> I (fold (\<lambda>x s. f s (fst x) (snd x) ctx) xs s)" for xs s
    using assms(2) by (induction xs arbitrary: s) auto
  then show ?thesis using assms(1) by (simp add: visit_all)
qed

text \<open>A visitor that adds, at each node, findings about that node alone.\<close>

locale node_visitor =
  fixes found :: "'s \<Rightarrow> Finding list"
    and step :: "'s \<Rightarrow> PlanNode \<Rightarrow> NodePath \<Rightarrow> AnalysisContext \<Rightarrow> 's"
    and detect :: "PlanNode \<Rightarrow> NodePath \<Rightarrow> AnalysisContext \<Rightarrow> Finding list"
  assumes appends: "found (step s n p ctx) = found s @ detect n p ctx"
    and placed: "f \<in> set (detect n p ctx) \<Longrightarrow> affected_nodes f = [p]"
begin

lemma found_fold:
  "found (fold (\<lambda>x s. step s (fst x) (snd x) ctx) xs s) =
     found s @ concat (map (\<lambda>x. detect (fst x) (snd x) ctx) xs)"
  by (induction xs arbitrary: s) (simp_all add: appends)

lemma found_all:
  "found (depth_first plan (visiting step) ctx s) =
     found s @ concat (map (\<lambda>x. detect (fst x) (snd x) ctx) (places plan))"
  by (simp add: visit_all found_fold)

lemma found_placed:
  assumes "found s = []" and "f \<in> set (found (depth_first plan (visiting step) ctx s))"
  shows "\<exists>n p. affected_nodes f = [p] \<and> get_node_at_path plan (path_indices p) = Some n \<and> f \<in> set (detect n p ctx)"
proof -
  obtain x where "x \<in> set (places plan)" "f \<in> set (detect (fst x) (snd x) ctx)"
    using assms by (auto simp: found_all)
  then show ?thesis using placed place_in_plan by blast
qed

end

text \<open>A report whose findings are about nodes of the plan.\<close>

definition points_into :: "ParsedPlan \<Rightarrow> Finding list \<Rightarrow> bool" where
  "points_into plan fs \<longleftrightarrow>
     list_all (\<lambda>f. list_all (\<lambda>p. get_node_at_path plan (path_indices p) \<noteq> None) (affected_nodes f)) fs"

lemma points_into_simps [simp]:
  "points_into plan []"
  "points_into plan (fs @ gs) \<longleftrightarrow> points_into plan fs \<and> points_into plan gs"
  by (simp_all add: points_into_def)

lemma points_into_single: "points_into plan [f] \<longleftrightarrow> list_all (\<lambda>p. get_node_at_path plan (path_indices p) \<noteq> None) (affected_nodes f)"
  by (simp add: points_into_def)

lemma root_in_plan [simp]: "get_node_at_path plan (path_indices root_path) = Some (root plan)"
  by (simp add: get_node_at_path_def root_path_def)

context node_visitor
begin

lemma found_points: "found s = [] \<Longrightarrow> points_into plan (found (depth_first plan (visiting step) ctx s))"
  using found_placed [of s _ plan ctx] by (fastforce simp: points_into_def list_all_iff)

end

end
