(* ===== verification/Analyzers_Shape.thy ===== *)
theory Analyzers_Shape
  imports Analyzer_Base
begin

text \<open>
  The analyzers that look at a plan as a whole: its shape (\<open>plan_shape.rs\<close>), startup costs
  (\<open>startup_cost.rs\<close>), the health of the row estimates (\<open>estimation_health.rs\<close>) and query patterns
  (\<open>query_pattern_analysis.rs\<close>), all under \<open>crates/core/src/analysis/analyzers\<close>. The full Unicode
  \<open>to_lowercase\<close> is the argument \<open>lowercase\<close>. A counter of nodes is a natural number.
\<close>

section \<open>The shape of a plan\<close>

definition MAX_DEPTH_THRESHOLD :: nat where "MAX_DEPTH_THRESHOLD = 12"
definition NODE_COUNT_THRESHOLD :: nat where "NODE_COUNT_THRESHOLD = 40"
definition DOMINANT_FRACTION_THRESHOLD :: f64 where "DOMINANT_FRACTION_THRESHOLD = f_dec 7 1"
definition MIN_PLAN_COST_FOR_DOMINANCE :: f64 where "MIN_PLAN_COST_FOR_DOMINANCE = f_lit 1000"

record PlanShapeVisitor =
  ps_node_count :: nat
  ps_max_depth :: nat
  ps_scan_count :: nat
  ps_join_count :: nat
  ps_aggregate_count :: nat
  ps_sort_count :: nat
  ps_max_self_cost :: f64
  ps_dominant_description :: string
  ps_dominant_path :: "NodePath option"

definition new_plan_shape :: PlanShapeVisitor where
  "new_plan_shape =
     \<lparr>ps_node_count = 0, ps_max_depth = 0, ps_scan_count = 0, ps_join_count = 0, ps_aggregate_count = 0,
      ps_sort_count = 0, ps_max_self_cost = f_zero, ps_dominant_description = [], ps_dominant_path = None\<rparr>"

definition is_sort :: "PlanNode \<Rightarrow> bool" where
  "is_sort n = (case node_type n of UtilityNode (Sort _ _) \<Rightarrow> True | _ \<Rightarrow> False)"

text \<open>A node's own cost: its total cost without that of its children, at least zero.\<close>

definition self_cost :: "PlanNode \<Rightarrow> f64" where
  "self_cost n =
     f_max (f_sub (total_cost (cost n)) (f_sum (map (\<lambda>c. total_cost (cost c)) (children n)))) f_zero"

definition plan_shape_step :: "PlanShapeVisitor \<Rightarrow> PlanNode \<Rightarrow> NodePath \<Rightarrow> AnalysisContext \<Rightarrow> PlanShapeVisitor" where
  "plan_shape_step s n p ctx =
     (let s = s\<lparr>ps_node_count := ps_node_count s + 1,
                ps_max_depth := max (ps_max_depth s) (length (path_indices p)),
                ps_scan_count := ps_scan_count s + (if is_scan n then 1 else 0),
                ps_join_count := ps_join_count s + (if is_join n then 1 else 0),
                ps_aggregate_count := ps_aggregate_count s + (if is_aggregate n then 1 else 0),
                ps_sort_count := ps_sort_count s + (if is_sort n then 1 else 0)\<rparr>
      in if f_gt (self_cost n) (ps_max_self_cost s)
         then s\<lparr>ps_max_self_cost := self_cost n, ps_dominant_description := description n,
                ps_dominant_path := Some p\<rparr>
         else s)"

definition complex_shape_finding :: "PlanShapeVisitor \<Rightarrow> Finding" where
  "complex_shape_finding v =
     finding_at (Custom ''ComplexPlanShape'') Medium ''Structurally complex plan''
       (''Plan has '' @ nat_to_string (ps_node_count v) @ '' nodes and a maximum depth of '' @
        nat_to_string (ps_max_depth v) @
        ''. Deeply nested or very large plans are harder to optimize and often come from stacked CTEs/subqueries.'')
       ''Consider simplifying or flattening CTEs/subqueries, or splitting the query.''
       [root_path]
       [(''max_depth'', f_of_nat (ps_max_depth v)), (''node_count'', f_of_nat (ps_node_count v))] []"

definition dominant_node_finding :: "PlanShapeVisitor \<Rightarrow> f64 \<Rightarrow> f64 \<Rightarrow> Finding" where
  "dominant_node_finding v total_plan_cost dominant_fraction =
     finding_at ExpensiveOperation Medium ''One operation dominates plan cost''
       (''Operation '' @ quoted (ps_dominant_description v) @ '' accounts for '' @
        fmt_fixed 0 (f_mul dominant_fraction (f_lit 100)) @ ''% of the plan's total cost ('' @
        fmt_fixed 0 (ps_max_self_cost v) @ '' of '' @ fmt_fixed 0 total_plan_cost @
        ''). Focus tuning on this node.'')
       (''Tune the dominant operation directly '' @ em_dash @
        '' e.g. add an index, reduce the rows it processes, or restructure the surrounding query.'')
       (case ps_dominant_path v of Some p \<Rightarrow> [p] | None \<Rightarrow> [])
       [(''dominant_cost_fraction'', dominant_fraction), (''most_expensive_self_cost'', ps_max_self_cost v),
        (''total_plan_cost'', total_plan_cost)]
       [(''dominant_node'', ps_dominant_description v)]"

definition plan_shape_analyze :: "ParsedPlan \<Rightarrow> AnalysisContext \<Rightarrow> AnalysisReport" where
  "plan_shape_analyze pl ctx =
     (let v = depth_first pl (visiting plan_shape_step) ctx new_plan_shape;
          total_plan_cost = total_cost (cost (root pl));
          dominant_fraction = (if f_gt total_plan_cost f_zero then f_div (ps_max_self_cost v) total_plan_cost
                               else f_zero)
      in with_metrics
           (add_findings (start_report ''PlanShapeAnalyzer'' ''1.0.0'')
             ((if MAX_DEPTH_THRESHOLD \<le> ps_max_depth v \<or> NODE_COUNT_THRESHOLD \<le> ps_node_count v
               then [complex_shape_finding v] else []) @
              (if 2 \<le> ps_node_count v \<and> f_gt total_plan_cost MIN_PLAN_COST_FOR_DOMINANCE \<and>
                  f_ge dominant_fraction DOMINANT_FRACTION_THRESHOLD
               then [dominant_node_finding v total_plan_cost dominant_fraction] else [])))
           [(''node_count'', f_of_nat (ps_node_count v)), (''max_depth'', f_of_nat (ps_max_depth v)),
            (''scan_count'', f_of_nat (ps_scan_count v)), (''join_count'', f_of_nat (ps_join_count v)),
            (''aggregate_count'', f_of_nat (ps_aggregate_count v)), (''sort_count'', f_of_nat (ps_sort_count v)),
            (''most_expensive_self_cost'', ps_max_self_cost v), (''total_plan_cost'', total_plan_cost),
            (''dominant_cost_fraction'', dominant_fraction)])"

section \<open>Startup costs\<close>

record StartupCostVisitor =
  sc_findings :: "Finding list"
  sc_nodes_analyzed :: nat
  sc_max_startup_cost :: f64
  sc_high_startup_nodes :: nat

definition new_startup_cost :: StartupCostVisitor where
  "new_startup_cost =
     \<lparr>sc_findings = [], sc_nodes_analyzed = 0, sc_max_startup_cost = f_zero, sc_high_startup_nodes = 0\<rparr>"

definition high_startup_finding :: "PlanNode \<Rightarrow> NodePath \<Rightarrow> Finding" where
  "high_startup_finding n p =
     (let startup = startup_cost (cost n); total = max_total_cost (cost n)
      in finding_at HighStartupCost
           (if f_gt startup (f_lit 100000) then Critical else if f_gt startup (f_lit 50000) then High else Medium)
           (''High startup cost ('' @ fmt_fixed 0 startup @ '')'')
           (''Operation '' @ quoted (description n) @ '' has a startup cost of '' @ fmt_fixed 0 startup @
            '', which will delay the return of initial results'')
           ''Consider materializing intermediate results, using LIMIT to reduce work, or restructuring the query''
           [p]
           [(''startup_cost'', startup), (''total_cost'', total),
            (''startup_ratio'', if f_gt total f_zero then f_div startup total else f_zero)] [])"

definition startup_dominant_finding :: "PlanNode \<Rightarrow> NodePath \<Rightarrow> Finding" where
  "startup_dominant_finding n p =
     (let startup = startup_cost (cost n); total = max_total_cost (cost n)
      in finding_at (Custom ''StartupCostDominant'') Medium ''Startup cost dominates execution''
           (''Operation '' @ quoted (description n) @ '' has startup cost ('' @ fmt_fixed 0 startup @
            '') that is '' @ fmt_fixed 0 (f_mul (f_div startup total) (f_lit 100)) @
            ''% of total cost. Most work happens before returning results.'')
           ''This pattern is typical for sorts and materializations. Consider if these operations are necessary.''
           [p]
           [(''startup_cost'', startup), (''total_cost'', total),
            (''startup_percentage'', f_mul (f_div startup total) (f_lit 100))] [])"

definition external_sort_finding :: "string \<Rightarrow> PlanNode \<Rightarrow> NodePath \<Rightarrow> Finding" where
  "external_sort_finding method n p =
     (let startup = startup_cost (cost n)
      in finding_at (Custom ''ExternalSort'') High ''External disk-based sort detected''
           (''Sort operation uses external merge sort (disk-based) with startup cost '' @ fmt_fixed 0 startup @
            ''. This spills to disk.'')
           ''Increase work_mem to allow in-memory sorting, or reduce the dataset size before sorting''
           [p] [(''startup_cost'', startup)] [(''sort_method'', method)])"

definition materialization_finding :: "PlanNode \<Rightarrow> NodePath \<Rightarrow> Finding" where
  "materialization_finding n p =
     (let startup = startup_cost (cost n)
      in finding_at (Custom ''ExpensiveMaterialization'') Medium ''Expensive materialization node''
           (''Materialize node with startup cost '' @ fmt_fixed 0 startup @
            ''. This caches intermediate results but delays execution.'')
           ''Materialization is often necessary for correctness, but high cost may indicate inefficient plan''
           [p] [(''startup_cost'', startup)] [])"

definition detect_high_startup_cost :: "(string \<Rightarrow> string) \<Rightarrow> PlanNode \<Rightarrow> NodePath \<Rightarrow> Finding list" where
  "detect_high_startup_cost lowercase n p =
     (let startup = startup_cost (cost n); total = max_total_cost (cost n)
      in (if f_gt startup (f_lit 10000) then [high_startup_finding n p] else []) @
         (if f_gt total f_zero \<and> f_gt (f_div startup total) (f_dec 9 1) \<and> f_gt startup (f_lit 1000)
          then [startup_dominant_finding n p] else []) @
         (case node_type n of
            UtilityNode (Sort _ (Some method)) \<Rightarrow>
              if contains_sub (lowercase method) ''external'' \<and> f_gt startup (f_lit 5000)
              then [external_sort_finding method n p] else []
          | UtilityNode Materialize \<Rightarrow> if f_gt startup (f_lit 5000) then [materialization_finding n p] else []
          | _ \<Rightarrow> []))"

definition startup_cost_step ::
  "(string \<Rightarrow> string) \<Rightarrow> StartupCostVisitor \<Rightarrow> PlanNode \<Rightarrow> NodePath \<Rightarrow> AnalysisContext \<Rightarrow> StartupCostVisitor" where
  "startup_cost_step lowercase s n p ctx =
     (let startup = startup_cost (cost n)
      in s\<lparr>sc_nodes_analyzed := sc_nodes_analyzed s + 1,
           sc_max_startup_cost := (if f_gt startup (sc_max_startup_cost s) then startup else sc_max_startup_cost s),
           sc_high_startup_nodes := sc_high_startup_nodes s + (if f_gt startup (f_lit 10000) then 1 else 0),
           sc_findings := sc_findings s @ detect_high_startup_cost lowercase n p\<rparr>)"

definition startup_cost_analyze :: "(string \<Rightarrow> string) \<Rightarrow> ParsedPlan \<Rightarrow> AnalysisContext \<Rightarrow> AnalysisReport" where
  "startup_cost_analyze lowercase pl ctx =
     (let v = depth_first pl (visiting (startup_cost_step lowercase)) ctx new_startup_cost
      in with_metrics (add_findings (start_report ''StartupCostAnalyzer'' ''1.0.0'') (sc_findings v))
           [(''nodes_analyzed'', f_of_nat (sc_nodes_analyzed v)),
            (''total_plan_cost'', max_total_cost (cost (root pl))),
            (''max_startup_cost'', sc_max_startup_cost v),
            (''nodes_with_high_startup'', f_of_nat (sc_high_startup_nodes v))])"

section \<open>The health of the row estimates\<close>

definition SIGNIFICANT_MISESTIMATE :: f64 where "SIGNIFICANT_MISESTIMATE = f_lit 2"
definition MIN_NODES_FOR_PATTERN :: nat where "MIN_NODES_FOR_PATTERN = 4"
definition MIN_SIGNIFICANT_FOR_SYSTEMATIC :: nat where "MIN_SIGNIFICANT_FOR_SYSTEMATIC = 2"
definition SYSTEMATIC_AGREEMENT :: f64 where "SYSTEMATIC_AGREEMENT = f_dec 8 1"
definition SYSTEMATIC_AVG_RATIO :: f64 where "SYSTEMATIC_AVG_RATIO = f_lit 3"
definition OUTLIER_RATIO :: f64 where "OUTLIER_RATIO = f_lit 50"

record EstimationVisitor =
  ev_nodes_with_actuals :: nat
  ev_nodes_overestimated :: nat
  ev_nodes_underestimated :: nat
  ev_significant_ratio_sum :: f64
  ev_max_misestimate_ratio :: f64
  ev_root_misestimate_ratio :: f64
  ev_worst_path :: "NodePath option"

definition new_estimation :: EstimationVisitor where
  "new_estimation =
     \<lparr>ev_nodes_with_actuals = 0, ev_nodes_overestimated = 0, ev_nodes_underestimated = 0,
      ev_significant_ratio_sum = f_zero, ev_max_misestimate_ratio = f_zero, ev_root_misestimate_ratio = f_zero,
      ev_worst_path = None\<rparr>"

definition actual_row_count :: "PlanNode \<Rightarrow> nat option" where
  "actual_row_count n = Option.bind (actuals n) actual_rows"

definition row_ratio :: "PlanNode \<Rightarrow> nat \<Rightarrow> f64" where
  "row_ratio n actual = f_div (f_of_nat (max actual 1)) (f_of_nat (max (estimated_rows (cost n)) 1))"

definition misestimate :: "f64 \<Rightarrow> f64" where "misestimate ratio = f_max ratio (f_div (f_lit 1) ratio)"

definition estimation_step :: "EstimationVisitor \<Rightarrow> PlanNode \<Rightarrow> NodePath \<Rightarrow> AnalysisContext \<Rightarrow> EstimationVisitor" where
  "estimation_step s n p ctx =
     (case actual_row_count n of
        None \<Rightarrow> s
      | Some actual \<Rightarrow>
          (let ratio = row_ratio n actual; mis = misestimate ratio;
               s = s\<lparr>ev_nodes_with_actuals := ev_nodes_with_actuals s + 1\<rparr>;
               s = (if path_indices p = [] then s\<lparr>ev_root_misestimate_ratio := mis\<rparr> else s);
               s = (if f_gt mis (ev_max_misestimate_ratio s)
                    then s\<lparr>ev_max_misestimate_ratio := mis, ev_worst_path := Some p\<rparr> else s)
           in if f_ge mis SIGNIFICANT_MISESTIMATE
              then (let s = s\<lparr>ev_significant_ratio_sum := f_add (ev_significant_ratio_sum s) mis\<rparr>
                    in if f_gt ratio (f_lit 1)
                       then s\<lparr>ev_nodes_underestimated := ev_nodes_underestimated s + 1\<rparr>
                       else s\<lparr>ev_nodes_overestimated := ev_nodes_overestimated s + 1\<rparr>)
              else s))"

definition systematic_finding :: "EstimationVisitor \<Rightarrow> f64 \<Rightarrow> Finding" where
  "systematic_finding v avg_ratio =
     (let over = ev_nodes_overestimated v; under = ev_nodes_underestimated v
      in finding_at (Custom ''EstimationPatternSystematic'') (if f_ge avg_ratio (f_lit 10) then High else Medium)
           ''Planner systematically misestimates row counts''
           (nat_to_string (max over under) @ '' of '' @ nat_to_string (ev_nodes_with_actuals v) @
            '' nodes with measured rows skew the same way (the planner '' @
            (if over \<le> under then ''under'' else ''over'') @ ''-estimates by ~'' @ fmt_fixed 0 avg_ratio @
            ''x on average). This usually means stale or missing statistics.'')
           ''Run ANALYZE on the involved tables; for correlated columns consider CREATE STATISTICS (extended statistics).''
           [root_path]
           [(''nodes_overestimated'', f_of_nat over), (''nodes_underestimated'', f_of_nat under),
            (''avg_misestimate_ratio'', avg_ratio)] [])"

definition outlier_finding :: "EstimationVisitor \<Rightarrow> Finding" where
  "outlier_finding v =
     finding_at (Custom ''EstimationPatternOutlier'') Medium ''One node has a severe estimate error''
       (''A single node is misestimated by ~'' @ fmt_fixed 0 (ev_max_misestimate_ratio v) @
        ''x while the rest of the plan is accurate. This points at localized data skew or correlated predicates on that relation rather than global stale stats.'')
       ''Consider CREATE STATISTICS on the correlated columns, or a partial/expression index targeting that predicate.''
       (case ev_worst_path v of Some p \<Rightarrow> [p] | None \<Rightarrow> [])
       [(''max_misestimate_ratio'', ev_max_misestimate_ratio v)] []"

definition estimation_findings :: "EstimationVisitor \<Rightarrow> Finding list" where
  "estimation_findings v =
     (let over = ev_nodes_overestimated v; under = ev_nodes_underestimated v; significant = over + under
      in (if MIN_NODES_FOR_PATTERN \<le> ev_nodes_with_actuals v \<and> MIN_SIGNIFICANT_FOR_SYSTEMATIC \<le> significant
          then (let agreement = f_div (f_of_nat (max over under)) (f_of_nat significant);
                    avg_ratio = (if 0 < significant
                                 then f_div (ev_significant_ratio_sum v) (f_of_nat significant) else f_zero)
                in if f_ge agreement SYSTEMATIC_AGREEMENT \<and> f_ge avg_ratio SYSTEMATIC_AVG_RATIO
                   then [systematic_finding v avg_ratio] else [])
          else []) @
         (if 2 \<le> ev_nodes_with_actuals v \<and> significant = 1 \<and> f_ge (ev_max_misestimate_ratio v) OUTLIER_RATIO
          then [outlier_finding v] else []))"

definition estimation_health_analyze :: "ParsedPlan \<Rightarrow> AnalysisContext \<Rightarrow> AnalysisReport" where
  "estimation_health_analyze pl ctx =
     (let v = depth_first pl (visiting estimation_step) ctx new_estimation
      in with_metrics (add_findings (start_report ''EstimationHealthAnalyzer'' ''1.0.0'') (estimation_findings v))
           [(''nodes_with_actuals'', f_of_nat (ev_nodes_with_actuals v)),
            (''nodes_overestimated'', f_of_nat (ev_nodes_overestimated v)),
            (''nodes_underestimated'', f_of_nat (ev_nodes_underestimated v)),
            (''max_misestimate_ratio'', ev_max_misestimate_ratio v),
            (''root_misestimate_ratio'', ev_root_misestimate_ratio v)])"

section \<open>Query patterns\<close>

record QueryPatternConfig =
  detect_nplusone :: bool
  detect_antipatterns :: bool
  complexity_threshold :: f64
  max_join_depth :: nat

definition default_query_pattern :: QueryPatternConfig where
  "default_query_pattern =
     \<lparr>detect_nplusone = True, detect_antipatterns = True, complexity_threshold = f_lit 100, max_join_depth = 5\<rparr>"

record QueryPatternVisitor =
  qp_findings :: "Finding list"
  qp_nodes_analyzed :: nat
  qp_join_count :: nat
  qp_subquery_count :: nat
  qp_aggregate_count :: nat
  qp_max_depth :: nat
  qp_current_depth :: nat

definition new_query_pattern :: QueryPatternVisitor where
  "new_query_pattern =
     \<lparr>qp_findings = [], qp_nodes_analyzed = 0, qp_join_count = 0, qp_subquery_count = 0, qp_aggregate_count = 0,
      qp_max_depth = 0, qp_current_depth = 0\<rparr>"

definition calculate_complexity_score :: "QueryPatternVisitor \<Rightarrow> f64" where
  "calculate_complexity_score v =
     (let depth = f_of_nat (qp_max_depth v)
      in foldl f_add f_zero
           [f_mul (f_of_nat (qp_join_count v)) (f_lit 10), f_mul (f_of_nat (qp_subquery_count v)) (f_lit 15),
            f_mul (f_of_nat (qp_aggregate_count v)) (f_lit 5), f_mul (f_mul depth depth) (f_lit 3)])"

definition detect_unnecessary_distinct :: "(string \<Rightarrow> string) \<Rightarrow> PlanNode \<Rightarrow> NodePath \<Rightarrow> Finding list" where
  "detect_unnecessary_distinct lowercase n p =
     (case get_node_property n ''Operation'' of
        Some operation \<Rightarrow>
          if contains_sub (lowercase operation) ''unique'' then
            (case get_node_property n ''Index Cond'' of
               Some index_cond \<Rightarrow>
                 if contains_sub index_cond ''='' \<and> \<not> contains_sub index_cond ''AND'' then
                   [finding_at (Custom ''UnnecessaryDistinct'') Low ''Potentially unnecessary DISTINCT operation''
                      (''DISTINCT operation on '' @ description n @
                       '' may be unnecessary if the index condition guarantees uniqueness'')
                      ''Verify if DISTINCT is needed; removing it can improve performance''
                      [p] [] [(''index_condition'', index_cond)]]
                 else []
             | None \<Rightarrow> [])
          else []
      | None \<Rightarrow> [])"

definition detect_function_in_where :: "(string \<Rightarrow> string) \<Rightarrow> PlanNode \<Rightarrow> NodePath \<Rightarrow> Finding list" where
  "detect_function_in_where lowercase n p =
     (case get_node_property n ''Filter'' of
        Some filt \<Rightarrow>
          if list_ex (contains_sub (lowercase filt)) [''lower('', ''upper('', ''date('', ''substring(''] then
            [finding_at (Custom ''FunctionOnIndexedColumn'') Medium ''Function applied to column in WHERE clause''
               (''Filter '' @ quoted filt @ '' applies a function to a column, which prevents index usage'')
               ''Consider using expression indexes, or restructure the query to avoid functions on indexed columns''
               [p] [] [(''filter_condition'', filt)]]
          else []
      | None \<Rightarrow> [])"

definition detect_select_star :: "PlanNode \<Rightarrow> NodePath \<Rightarrow> Finding list" where
  "detect_select_star n p =
     (let width = estimated_width (cost n)
      in if 500 < width then
           [finding_at (Custom ''WideRowSelection'') Low ''Selecting many columns''
              (''Row width is '' @ nat_to_string width @
               '' bytes. Consider selecting only needed columns instead of SELECT *'')
              ''Select only the columns you need to reduce data transfer and improve cache efficiency''
              [p] [(''row_width_bytes'', f_of_nat width)] []]
         else [])"

definition query_pattern_findings ::
  "QueryPatternConfig \<Rightarrow> (string \<Rightarrow> string) \<Rightarrow> PlanNode \<Rightarrow> NodePath \<Rightarrow> Finding list" where
  "query_pattern_findings c lowercase n p =
     (if detect_antipatterns c
      then detect_unnecessary_distinct lowercase n p @ detect_function_in_where lowercase n p @ detect_select_star n p
      else [])"

definition query_pattern_step :: "QueryPatternConfig \<Rightarrow> (string \<Rightarrow> string) \<Rightarrow> QueryPatternVisitor \<Rightarrow> PlanNode \<Rightarrow>
  NodePath \<Rightarrow> AnalysisContext \<Rightarrow> QueryPatternVisitor" where
  "query_pattern_step c lowercase s n p ctx =
     s\<lparr>qp_nodes_analyzed := qp_nodes_analyzed s + 1,
       qp_current_depth := length (path_indices p),
       qp_max_depth := max (qp_max_depth s) (length (path_indices p)),
       qp_join_count := qp_join_count s + (if is_join n then 1 else 0),
       qp_aggregate_count := qp_aggregate_count s + (if is_aggregate n then 1 else 0),
       qp_subquery_count :=
         qp_subquery_count s + (if get_node_property n ''Subplan Name'' \<noteq> None then 1 else 0),
       qp_findings := qp_findings s @ query_pattern_findings c lowercase n p\<rparr>"

definition complexity_finding :: "QueryPatternConfig \<Rightarrow> QueryPatternVisitor \<Rightarrow> f64 \<Rightarrow> Finding" where
  "complexity_finding c v score =
     finding_at (Custom ''OverlyComplexQuery'') (if f_gt score (f_lit 200) then High else Medium)
       ''Query complexity is very high''
       (''Query has a complexity score of '' @ fmt_fixed 0 score @ '', which exceeds the threshold of '' @
        fmt_fixed 0 (complexity_threshold c) @ ''. Complex queries are harder to optimize and maintain.'')
       ''Consider breaking down the query into simpler parts, using CTEs for clarity, or creating intermediate tables''
       []
       [(''complexity_score'', score), (''join_count'', f_of_nat (qp_join_count v)),
        (''subquery_count'', f_of_nat (qp_subquery_count v))] []"

definition nesting_finding :: "QueryPatternConfig \<Rightarrow> QueryPatternVisitor \<Rightarrow> Finding" where
  "nesting_finding c v =
     finding_at (Custom ''ExcessiveJoinDepth'') Medium
       (''Query has '' @ nat_to_string (qp_max_depth v) @ '' levels of nesting'')
       (''Deep query nesting ('' @ nat_to_string (qp_max_depth v) @
        '' levels) can make plans harder to optimize and maintain. Consider flattening the query structure.'')
       ''Use CTEs or temporary tables to break down complex nested queries''
       []
       [(''max_depth'', f_of_nat (qp_max_depth v)), (''max_acceptable_depth'', f_of_nat (max_join_depth c))] []"

definition query_pattern_analyze ::
  "QueryPatternConfig \<Rightarrow> (string \<Rightarrow> string) \<Rightarrow> ParsedPlan \<Rightarrow> AnalysisContext \<Rightarrow> AnalysisReport" where
  "query_pattern_analyze c lowercase pl ctx =
     (let v = depth_first pl (visiting (query_pattern_step c lowercase)) ctx new_query_pattern;
          score = calculate_complexity_score v
      in add_findings
           (with_metrics (add_findings (start_report ''QueryPatternAnalyzer'' ''1.0.0'') (qp_findings v))
             [(''nodes_analyzed'', f_of_nat (qp_nodes_analyzed v)), (''join_count'', f_of_nat (qp_join_count v)),
              (''subquery_count'', f_of_nat (qp_subquery_count v)),
              (''aggregate_count'', f_of_nat (qp_aggregate_count v)), (''complexity_score'', score),
              (''max_depth'', f_of_nat (qp_max_depth v))])
           ((if f_gt score (complexity_threshold c) then [complexity_finding c v score] else []) @
            (if max_join_depth c < qp_max_depth v then [nesting_finding c v] else [])))"

section \<open>Findings are about the node they were made at\<close>

lemma shape_findings_placed [finding_simps]:
  "affected_nodes (complex_shape_finding v) = [root_path]"
  "affected_nodes (dominant_node_finding v x y) = (case ps_dominant_path v of Some p \<Rightarrow> [p] | None \<Rightarrow> [])"
  "affected_nodes (high_startup_finding n p) = [p]"
  "affected_nodes (startup_dominant_finding n p) = [p]"
  "affected_nodes (external_sort_finding m n p) = [p]"
  "affected_nodes (materialization_finding n p) = [p]"
  "affected_nodes (systematic_finding e x) = [root_path]"
  "affected_nodes (outlier_finding e) = (case ev_worst_path e of Some p \<Rightarrow> [p] | None \<Rightarrow> [])"
  "affected_nodes (complexity_finding c q x) = []"
  "affected_nodes (nesting_finding c q) = []"
  unfolding complex_shape_finding_def dominant_node_finding_def high_startup_finding_def
    startup_dominant_finding_def external_sort_finding_def materialization_finding_def systematic_finding_def
    outlier_finding_def complexity_finding_def nesting_finding_def Let_def finding_at_parts by (rule refl)+

lemma startup_placed: "f \<in> set (detect_high_startup_cost lowercase n p) \<Longrightarrow> affected_nodes f = [p]"
proof -
  have "list_all (\<lambda>f. affected_nodes f = [p]) (detect_high_startup_cost lowercase n p)"
    by (simp add: detect_high_startup_cost_def Let_def finding_simps
        split: NodeType.split UtilityType.split option.split)
  then show "f \<in> set (detect_high_startup_cost lowercase n p) \<Longrightarrow> affected_nodes f = [p]"
    by (simp add: list_all_iff)
qed

interpretation startup: node_visitor sc_findings "startup_cost_step lowercase"
  "\<lambda>n p ctx. detect_high_startup_cost lowercase n p" for lowercase
  by unfold_locales (simp_all add: startup_cost_step_def Let_def startup_placed)

lemma query_pattern_placed: "f \<in> set (query_pattern_findings c lowercase n p) \<Longrightarrow> affected_nodes f = [p]"
proof -
  let ?P = "list_all (\<lambda>f. affected_nodes f = [p])"
  have "?P (detect_unnecessary_distinct lowercase n p)"
    by (simp add: detect_unnecessary_distinct_def finding_at_parts split: option.split)
  moreover have "?P (detect_function_in_where lowercase n p)"
    by (simp add: detect_function_in_where_def finding_at_parts split: option.split)
  moreover have "?P (detect_select_star n p)"
    by (simp add: detect_select_star_def Let_def finding_at_parts)
  ultimately show "f \<in> set (query_pattern_findings c lowercase n p) \<Longrightarrow> affected_nodes f = [p]"
    by (auto simp: query_pattern_findings_def list_all_iff split: if_split_asm)
qed

interpretation query_pattern: node_visitor qp_findings "query_pattern_step c lowercase"
  "\<lambda>n p ctx. query_pattern_findings c lowercase n p" for c lowercase
  by unfold_locales (simp_all add: query_pattern_step_def query_pattern_placed)

end
