(* ===== verification/Analyzers_Runtime.thy ===== *)
theory Analyzers_Runtime
  imports Analyzer_Base Plan_Parser
begin

text \<open>
  The analyzers of what an executed plan reports: buffers and WAL (\<open>buffer_analysis.rs\<close>), sorts and
  hashes that spilled (\<open>sort_memory.rs\<close>), filters (\<open>filter_efficiency.rs\<close>) and index scans
  (\<open>index_efficiency.rs\<close>), under \<open>crates/core/src/analysis/analyzers\<close>. The block counters of the first
  are read from text and added without a check, so they are 64-bit words that wrap around, as in a
  release build; the other sums saturate.
\<close>

section \<open>Buffers and WAL\<close>

definition BLOCK_BYTES :: f64 where "BLOCK_BYTES = f_lit 8192"

record BufferWalAnalyzer =
  min_temp_blocks :: u64
  min_read_blocks :: u64
  min_wal_bytes :: u64

definition default_buffer_wal :: BufferWalAnalyzer where
  "default_buffer_wal = \<lparr>min_temp_blocks = 1, min_read_blocks = 1024, min_wal_bytes = 1048576\<rparr>"

record Buffers =
  shared_hit :: u64
  shared_read :: u64
  local_hit :: u64
  local_read :: u64
  temp_read :: u64
  temp_written :: u64

definition no_buffers :: Buffers where
  "no_buffers = \<lparr>shared_hit = 0, shared_read = 0, local_hit = 0, local_read = 0, temp_read = 0, temp_written = 0\<rparr>"

definition set_counter :: "string \<Rightarrow> string \<Rightarrow> u64 \<Rightarrow> Buffers \<Rightarrow> Buffers" where
  "set_counter grp key n b =
     (if grp = ''shared'' \<and> key = ''hit'' then b\<lparr>shared_hit := n\<rparr>
      else if grp = ''shared'' \<and> key = ''read'' then b\<lparr>shared_read := n\<rparr>
      else if grp = ''local'' \<and> key = ''hit'' then b\<lparr>local_hit := n\<rparr>
      else if grp = ''local'' \<and> key = ''read'' then b\<lparr>local_read := n\<rparr>
      else if grp = ''temp'' \<and> key = ''read'' then b\<lparr>temp_read := n\<rparr>
      else if grp = ''temp'' \<and> key = ''written'' then b\<lparr>temp_written := n\<rparr>
      else b)"

text \<open>One token: a group name, or a counter of the current group.\<close>

definition buffers_token :: "string \<times> Buffers \<Rightarrow> string \<Rightarrow> string \<times> Buffers" where
  "buffers_token gb tok =
     (if tok \<in> {''shared'', ''local'', ''temp''} then (tok, snd gb)
      else
        (case split_once ''='' tok of
           Some (key, val) \<Rightarrow>
             (case parse_u64 val of
                Some n \<Rightarrow> (fst gb, set_counter (fst gb) key (of_nat n) (snd gb))
              | None \<Rightarrow> gb)
         | None \<Rightarrow> gb))"

definition buffers_tokens :: "string \<Rightarrow> string list" where
  "buffers_tokens s =
     filter (\<lambda>t. t \<noteq> []) (concat (map (split_char CHR '','') (split_char CHR '' '' s)))"

definition parse_buffers :: "string \<Rightarrow> Buffers" where
  "parse_buffers s = snd (foldl buffers_token ([], no_buffers) (buffers_tokens s))"

definition parse_wal_bytes :: "string \<Rightarrow> u64" where
  "parse_wal_bytes s =
     (case find_map (\<lambda>tok. Option.bind (strip_prefix ''bytes='' tok) parse_u64) (split_whitespace s) of
        Some n \<Rightarrow> of_nat n
      | None \<Rightarrow> 0)"

definition node_buffers :: "PlanNode \<Rightarrow> Buffers option" where
  "node_buffers n = map_option parse_buffers (get_kv (properties n) ''Buffers'')"

definition node_wal_bytes :: "PlanNode \<Rightarrow> u64 option" where
  "node_wal_bytes n = map_option parse_wal_bytes (get_kv (properties n) ''WAL'')"

definition node_label :: "PlanNode \<Rightarrow> string" where
  "node_label n =
     (let t = original_text n;
          head = trim (case split_once ''  (cost'' t of Some (a, b) \<Rightarrow> a | None \<Rightarrow> t)
      in if head = [] then ''node'' else head)"

definition add_buffers :: "Buffers \<Rightarrow> Buffers \<Rightarrow> Buffers" where
  "add_buffers a c =
     \<lparr>shared_hit = shared_hit a + shared_hit c, shared_read = shared_read a + shared_read c,
      local_hit = local_hit a + local_hit c, local_read = local_read a + local_read c,
      temp_read = temp_read a + temp_read c, temp_written = temp_written a + temp_written c\<rparr>"

definition sat_sub :: "u64 \<Rightarrow> u64 \<Rightarrow> u64" where "sat_sub a b = (if b \<le> a then a - b else 0)"

definition f_of_u64 :: "u64 \<Rightarrow> f64" where "f_of_u64 w = f_of_int (uint w)"
definition u64_to_string :: "u64 \<Rightarrow> string" where "u64_to_string w = nat_to_string (unat w)"

text \<open>What a node did itself: its counters less those of its children. Temporary blocks, blocks read
  and blocks found in cache.\<close>

definition own_temp :: "Buffers \<Rightarrow> Buffers \<Rightarrow> u64" where
  "own_temp nb cb = sat_sub (temp_read nb) (temp_read cb) + sat_sub (temp_written nb) (temp_written cb)"

definition own_read :: "Buffers \<Rightarrow> Buffers \<Rightarrow> u64" where
  "own_read nb cb = sat_sub (shared_read nb) (shared_read cb) + sat_sub (local_read nb) (local_read cb)"

definition own_hit :: "Buffers \<Rightarrow> Buffers \<Rightarrow> u64" where
  "own_hit nb cb = sat_sub (shared_hit nb) (shared_hit cb) + sat_sub (local_hit nb) (local_hit cb)"

definition children_buffers :: "PlanNode \<Rightarrow> Buffers" where
  "children_buffers n = foldl add_buffers no_buffers (List.map_filter node_buffers (children n))"

definition own_wal :: "PlanNode \<Rightarrow> u64 \<Rightarrow> u64" where
  "own_wal n nw = sat_sub nw (sum_list (List.map_filter node_wal_bytes (children n)))"

definition mega :: "f64 \<Rightarrow> f64" where "mega x = f_div x (f_lit 1000000)"

definition spill_finding :: "string \<Rightarrow> NodePath \<Rightarrow> u64 \<Rightarrow> Finding" where
  "spill_finding label p temp =
     (let mb = mega (f_mul (f_of_u64 temp) BLOCK_BYTES)
      in finding_at MemorySpill
           (if f_ge mb (f_lit 100) then Critical else if f_ge mb (f_lit 10) then High
            else if f_ge mb (f_lit 1) then Medium else Low)
           (label @ '' spilled ~'' @ fmt_fixed 1 mb @ '' MB to temp files'')
           (''This node read/wrote '' @ u64_to_string temp @ '' temp blocks (~'' @ fmt_fixed 1 mb @
            '' MB) because its working set exceeded work_mem and spilled to disk.'')
           ''Raise work_mem for this query or session, or reduce the rows that must be sorted/hashed/grouped (tighter filters or a supporting index).''
           [p] [(''temp_blocks'', f_of_u64 temp), (''temp_mb'', mb)] [(''node'', label)])"

definition buffer_reads_finding :: "string \<Rightarrow> NodePath \<Rightarrow> u64 \<Rightarrow> u64 \<Rightarrow> Finding" where
  "buffer_reads_finding label p hit read =
     (let mb = mega (f_mul (f_of_u64 read) BLOCK_BYTES);
          total = hit + read;
          hit_ratio = (if 0 < total then f_div (f_of_u64 hit) (f_of_u64 total) else f_lit 1);
          percent = fmt_fixed 0 (f_mul hit_ratio (f_lit 100))
      in finding_at (Custom ''HighBufferReads'')
           (if f_ge mb (f_lit 512) then High else if f_ge mb (f_lit 64) then Medium else Low)
           (label @ '' read ~'' @ fmt_fixed 1 mb @ '' MB from disk ('' @ percent @ ''% cache hit)'')
           (''This node read '' @ u64_to_string read @ '' shared blocks (~'' @ fmt_fixed 1 mb @
            '' MB) from disk rather than cache (buffer hit ratio '' @ percent @ ''%).'')
           ''Hot data may not fit in shared_buffers/OS cache; consider more memory, or touch fewer blocks via a more selective index or filter.''
           [p] [(''shared_read_blocks'', f_of_u64 read), (''read_mb'', mb), (''cache_hit_ratio'', hit_ratio)]
           [(''node'', label)])"

definition wal_finding :: "string \<Rightarrow> NodePath \<Rightarrow> u64 \<Rightarrow> Finding" where
  "wal_finding label p wal =
     (let mb = mega (f_of_u64 wal)
      in finding_at (Custom ''HighWalVolume'')
           (if f_ge mb (f_lit 64) then High else if f_ge mb (f_lit 8) then Medium else Low)
           (label @ '' generated ~'' @ fmt_fixed 1 mb @ '' MB of WAL'')
           (''This node emitted '' @ u64_to_string wal @ '' bytes (~'' @ fmt_fixed 1 mb @ '' MB) of WAL.'')
           ''Write-heavy step: batch the writes, reduce touched rows, or expect the replication/IO cost this implies.''
           [p] [(''wal_bytes'', f_of_u64 wal)] [(''node'', label)])"

definition buffer_findings :: "BufferWalAnalyzer \<Rightarrow> PlanNode \<Rightarrow> NodePath \<Rightarrow> Finding list" where
  "buffer_findings cfg n p =
     (case node_buffers n of
        Some nb \<Rightarrow>
          (let cb = children_buffers n; temp = own_temp nb cb; read = own_read nb cb; hit = own_hit nb cb
           in (if min_temp_blocks cfg \<le> temp then [spill_finding (node_label n) p temp] else []) @
              (if min_read_blocks cfg \<le> read then [buffer_reads_finding (node_label n) p hit read] else []))
      | None \<Rightarrow> [])"

definition wal_findings :: "BufferWalAnalyzer \<Rightarrow> PlanNode \<Rightarrow> NodePath \<Rightarrow> Finding list" where
  "wal_findings cfg n p =
     (case node_wal_bytes n of
        Some nw \<Rightarrow> if min_wal_bytes cfg \<le> own_wal n nw then [wal_finding (node_label n) p (own_wal n nw)] else []
      | None \<Rightarrow> [])"

record BufferWalVisitor =
  bw_findings :: "Finding list"
  bw_nodes :: nat
  bw_temp_blocks :: u64
  bw_read_blocks :: u64
  bw_wal_bytes :: u64

definition new_buffer_wal :: BufferWalVisitor where
  "new_buffer_wal =
     \<lparr>bw_findings = [], bw_nodes = 0, bw_temp_blocks = 0, bw_read_blocks = 0, bw_wal_bytes = 0\<rparr>"

definition buffer_wal_step ::
  "BufferWalAnalyzer \<Rightarrow> BufferWalVisitor \<Rightarrow> PlanNode \<Rightarrow> NodePath \<Rightarrow> AnalysisContext \<Rightarrow> BufferWalVisitor" where
  "buffer_wal_step cfg s n p ctx =
     s\<lparr>bw_nodes := bw_nodes s + 1,
       bw_temp_blocks := bw_temp_blocks s +
         (case node_buffers n of Some nb \<Rightarrow> own_temp nb (children_buffers n) | None \<Rightarrow> 0),
       bw_read_blocks := bw_read_blocks s +
         (case node_buffers n of Some nb \<Rightarrow> own_read nb (children_buffers n) | None \<Rightarrow> 0),
       bw_wal_bytes := bw_wal_bytes s + (case node_wal_bytes n of Some nw \<Rightarrow> own_wal n nw | None \<Rightarrow> 0),
       bw_findings := bw_findings s @ buffer_findings cfg n p @ wal_findings cfg n p\<rparr>"

definition buffer_wal_analyze :: "BufferWalAnalyzer \<Rightarrow> ParsedPlan \<Rightarrow> AnalysisContext \<Rightarrow> AnalysisReport" where
  "buffer_wal_analyze cfg pl ctx =
     (let v = depth_first pl (visiting (buffer_wal_step cfg)) ctx new_buffer_wal
      in with_metrics (add_findings (start_report ''BufferWalAnalyzer'' ''1.0.0'') (bw_findings v))
           [(''nodes_analyzed'', f_of_nat (bw_nodes v)), (''temp_blocks'', f_of_u64 (bw_temp_blocks v)),
            (''shared_read_blocks'', f_of_u64 (bw_read_blocks v)), (''wal_bytes'', f_of_u64 (bw_wal_bytes v))])"

section \<open>Sorts and hashes\<close>

definition parse_kb :: "string \<Rightarrow> f64 option" where
  "parse_kb value = (case split_whitespace value of tok # _ \<Rightarrow> parse_f64 tok | [] \<Rightarrow> None)"

definition space_used_kb :: "PlanNode \<Rightarrow> f64" where
  "space_used_kb n =
     (case Option.bind (get_kv (properties n) ''Sort Space Used'') parse_kb of Some x \<Rightarrow> x | None \<Rightarrow> f_zero)"

definition sort_spilled :: "(string \<Rightarrow> string) \<Rightarrow> PlanNode \<Rightarrow> bool" where
  "sort_spilled lowercase n \<longleftrightarrow>
     prop_sort_space_type (properties n) = Some ''Disk'' \<or>
     (case get_kv (properties n) ''Sort Method'' of
        Some m \<Rightarrow> contains_sub (lowercase m) ''external'' | None \<Rightarrow> False)"

definition sort_spill_finding :: "PlanNode \<Rightarrow> NodePath \<Rightarrow> AnalysisContext \<Rightarrow> Finding" where
  "sort_spill_finding n p ctx =
     (let used = space_used_kb n
      in finding_at MemorySpill (if f_gt used (f_lit 100000) then High else Medium) ''Sort spilled to disk''
           (''Operation '' @ quoted (description n) @ '' performed an external (disk-based) sort using '' @
            fmt_fixed 0 used @ '' kB. It exceeded work_mem ('' @ nat_to_string (work_mem_kb ctx) @
            '' kB) and spilled to disk.'')
           ''Raise work_mem to fit the sort in memory, add an index providing the required sort order, or reduce the number of rows before sorting.''
           [p] [(''sort_space_used_kb'', used), (''work_mem_kb'', f_of_nat (work_mem_kb ctx))]
           ((case get_kv (properties n) ''Sort Method'' of Some m \<Rightarrow> [(''sort_method'', m)] | None \<Rightarrow> []) @
            (case prop_sort_space_type (properties n) of Some t \<Rightarrow> [(''sort_space_type'', t)] | None \<Rightarrow> [])))"

definition hash_spill_finding :: "PlanNode \<Rightarrow> NodePath \<Rightarrow> AnalysisContext \<Rightarrow> nat \<Rightarrow> Finding" where
  "hash_spill_finding n p ctx batches =
     finding_at HashJoinMemorySpill (if 8 < batches then High else Medium)
       ''Hash operation spilled into multiple batches''
       (''Operation '' @ quoted (description n) @ '' used '' @ nat_to_string batches @
        '' hash batches (> 1), indicating the hash table did not fit in work_mem ('' @
        nat_to_string (work_mem_kb ctx) @ '' kB) and spilled to disk.'')
       ''Raise work_mem so the hash table fits in a single batch, or reduce the number of rows on the hashed (build) side.''
       [p] [(''batches'', f_of_nat batches), (''work_mem_kb'', f_of_nat (work_mem_kb ctx))] []"

definition hash_batches :: "PlanNode \<Rightarrow> nat" where
  "hash_batches n = (case prop_batches (properties n) of Some b \<Rightarrow> b | None \<Rightarrow> 0)"

definition sort_memory_findings ::
  "(string \<Rightarrow> string) \<Rightarrow> PlanNode \<Rightarrow> NodePath \<Rightarrow> AnalysisContext \<Rightarrow> Finding list" where
  "sort_memory_findings lowercase n p ctx =
     (if sort_spilled lowercase n then [sort_spill_finding n p ctx] else []) @
     (if 1 < hash_batches n then [hash_spill_finding n p ctx (hash_batches n)] else [])"

record SortMemoryVisitor =
  sm_findings :: "Finding list"
  sm_nodes_analyzed :: nat
  sm_nodes_with_sort_spill :: nat
  sm_nodes_with_hash_spill :: nat
  sm_max_sort_space_used_kb :: f64

definition new_sort_memory :: SortMemoryVisitor where
  "new_sort_memory =
     \<lparr>sm_findings = [], sm_nodes_analyzed = 0, sm_nodes_with_sort_spill = 0, sm_nodes_with_hash_spill = 0,
      sm_max_sort_space_used_kb = f_zero\<rparr>"

definition sort_memory_step :: "(string \<Rightarrow> string) \<Rightarrow> SortMemoryVisitor \<Rightarrow> PlanNode \<Rightarrow> NodePath \<Rightarrow>
  AnalysisContext \<Rightarrow> SortMemoryVisitor" where
  "sort_memory_step lowercase s n p ctx =
     s\<lparr>sm_nodes_analyzed := sm_nodes_analyzed s + 1,
       sm_max_sort_space_used_kb :=
         (if f_gt (space_used_kb n) (sm_max_sort_space_used_kb s) then space_used_kb n
          else sm_max_sort_space_used_kb s),
       sm_nodes_with_sort_spill := sm_nodes_with_sort_spill s + (if sort_spilled lowercase n then 1 else 0),
       sm_nodes_with_hash_spill := sm_nodes_with_hash_spill s + (if 1 < hash_batches n then 1 else 0),
       sm_findings := sm_findings s @ sort_memory_findings lowercase n p ctx\<rparr>"

definition sort_memory_analyze :: "(string \<Rightarrow> string) \<Rightarrow> ParsedPlan \<Rightarrow> AnalysisContext \<Rightarrow> AnalysisReport" where
  "sort_memory_analyze lowercase pl ctx =
     (let v = depth_first pl (visiting (sort_memory_step lowercase)) ctx new_sort_memory
      in with_metrics (add_findings (start_report ''SortMemoryAnalyzer'' ''1.0.0'') (sm_findings v))
           [(''nodes_analyzed'', f_of_nat (sm_nodes_analyzed v)),
            (''nodes_with_sort_spill'', f_of_nat (sm_nodes_with_sort_spill v)),
            (''nodes_with_hash_spill'', f_of_nat (sm_nodes_with_hash_spill v)),
            (''max_sort_space_used_kb'', sm_max_sort_space_used_kb v)])"

section \<open>Filters\<close>

definition MIN_ROWS_REMOVED :: nat where "MIN_ROWS_REMOVED = 10000"
definition MAX_WASTEFUL_SELECTIVITY :: f64 where "MAX_WASTEFUL_SELECTIVITY = f_dec 10 2"

definition severity_for_removed :: "nat \<Rightarrow> Severity" where
  "severity_for_removed removed =
     (if 1000000 \<le> removed then Critical else if 100000 \<le> removed then High else Medium)"

definition rows_kept :: "PlanNode \<Rightarrow> nat option" where
  "rows_kept n = Option.bind (actuals n) actual_rows"

text \<open>The selectivity of a filter that removed rows, when the number of rows kept is known.\<close>

definition filter_selectivity :: "PlanNode \<Rightarrow> nat \<Rightarrow> f64 option" where
  "filter_selectivity n removed =
     (case rows_kept n of
        Some k \<Rightarrow>
          if 0 < sat_add k removed then Some (f_div (f_of_nat k) (f_of_nat (sat_add k removed))) else None
      | None \<Rightarrow> None)"

definition wasteful :: "PlanNode \<Rightarrow> nat \<Rightarrow> bool" where
  "wasteful n removed \<longleftrightarrow>
     MIN_ROWS_REMOVED \<le> removed \<and>
     (case filter_selectivity n removed of Some x \<Rightarrow> f_lt x MAX_WASTEFUL_SELECTIVITY | None \<Rightarrow> True)"

definition wasteful_finding :: "PlanNode \<Rightarrow> NodePath \<Rightarrow> nat \<Rightarrow> Finding" where
  "wasteful_finding n p removed =
     finding_at ExcessiveRowProcessing (severity_for_removed removed) ''Filter discards most inspected rows''
       (case filter_selectivity n removed of
          Some x \<Rightarrow>
            ''Operation '' @ quoted (description n) @ '' discarded '' @ nat_to_string removed @
            '' rows in a filter, keeping only '' @
            nat_to_string (case rows_kept n of Some k \<Rightarrow> k | None \<Rightarrow> 0) @ '' ('' @
            fmt_fixed 1 (f_mul x (f_lit 100)) @ ''% selectivity).''
        | None \<Rightarrow>
            ''Operation '' @ quoted (description n) @ '' discarded '' @ nat_to_string removed @
            '' rows in a filter (selectivity unknown '' @ em_dash @
            '' plan was not run with ANALYZE row counts).'')
       ''Add or extend an index covering the filter predicate so these rows are never read, or push the predicate earlier in the plan.''
       [p]
       ([(''rows_removed'', f_of_nat removed)] @
        (case rows_kept n of Some k \<Rightarrow> [(''rows_kept'', f_of_nat k)] | None \<Rightarrow> []) @
        (case filter_selectivity n removed of Some x \<Rightarrow> [(''selectivity'', x)] | None \<Rightarrow> []))
       (case prop_filter_cond (properties n) of Some f \<Rightarrow> [(''filter'', f)] | None \<Rightarrow> [])"

definition recheck_finding :: "PlanNode \<Rightarrow> NodePath \<Rightarrow> nat \<Rightarrow> Finding" where
  "recheck_finding n p recheck =
     finding_at PoorIndexSelectivity Medium ''Imprecise index condition rechecked many rows''
       (''Operation '' @ quoted (description n) @ '' removed '' @ nat_to_string recheck @
        '' rows during index recheck, meaning the index condition is not selective enough and many candidate rows had to be re-tested.'')
       ''Consider a more selective or composite index so fewer rows require rechecking.''
       [p] [(''rows_removed_by_index_recheck'', f_of_nat recheck)] []"

definition join_filter_finding :: "PlanNode \<Rightarrow> NodePath \<Rightarrow> nat \<Rightarrow> Finding" where
  "join_filter_finding n p jf =
     finding_at IneffectiveJoinAlgorithm Medium ''Join filter discards many joined rows''
       (''Operation '' @ quoted (description n) @ '' produced a large intermediate result and then discarded '' @
        nat_to_string jf @
        '' rows with a join filter, indicating the join condition is not fully indexed or is over-producing rows.'')
       ''Ensure the join keys are indexed and the most selective join condition drives the join, so fewer rows are produced before filtering.''
       [p] [(''rows_removed_by_join_filter'', f_of_nat jf)] []"

record FilterEfficiencyVisitor =
  fe_findings :: "Finding list"
  fe_nodes_analyzed :: nat
  fe_total_rows_removed :: nat
  fe_nodes_with_wasteful_filter :: nat
  fe_min_selectivity_seen :: f64

definition new_filter_efficiency :: FilterEfficiencyVisitor where
  "new_filter_efficiency =
     \<lparr>fe_findings = [], fe_nodes_analyzed = 0, fe_total_rows_removed = 0, fe_nodes_with_wasteful_filter = 0,
      fe_min_selectivity_seen = f_lit 1\<rparr>"

text \<open>The rows removed by a recheck or a join filter, when they are many enough to count.\<close>

definition many_removed :: "nat option \<Rightarrow> nat" where
  "many_removed r = (case r of Some k \<Rightarrow> if MIN_ROWS_REMOVED \<le> k then k else 0 | None \<Rightarrow> 0)"

definition filter_findings :: "PlanNode \<Rightarrow> NodePath \<Rightarrow> Finding list" where
  "filter_findings n p =
     (let ps = properties n
      in (case prop_rows_removed_by_filter ps of
            Some removed \<Rightarrow> if wasteful n removed then [wasteful_finding n p removed] else []
          | None \<Rightarrow> []) @
         (case prop_rows_removed_by_index_recheck ps of
            Some recheck \<Rightarrow> if MIN_ROWS_REMOVED \<le> recheck then [recheck_finding n p recheck] else []
          | None \<Rightarrow> []) @
         (case prop_rows_removed_by_join_filter ps of
            Some jf \<Rightarrow> if MIN_ROWS_REMOVED \<le> jf then [join_filter_finding n p jf] else []
          | None \<Rightarrow> []))"

definition filter_efficiency_step ::
  "FilterEfficiencyVisitor \<Rightarrow> PlanNode \<Rightarrow> NodePath \<Rightarrow> AnalysisContext \<Rightarrow> FilterEfficiencyVisitor" where
  "filter_efficiency_step s n p ctx =
     (let ps = properties n;
          removed = prop_rows_removed_by_filter ps
      in s\<lparr>fe_nodes_analyzed := fe_nodes_analyzed s + 1,
           fe_total_rows_removed :=
             foldl sat_add (fe_total_rows_removed s)
               [case removed of Some r \<Rightarrow> r | None \<Rightarrow> 0, many_removed (prop_rows_removed_by_index_recheck ps),
                many_removed (prop_rows_removed_by_join_filter ps)],
           fe_min_selectivity_seen :=
             (case removed of
                Some r \<Rightarrow>
                  (case filter_selectivity n r of
                     Some x \<Rightarrow> if MIN_ROWS_REMOVED \<le> r \<and> f_lt x (fe_min_selectivity_seen s) then x
                               else fe_min_selectivity_seen s
                   | None \<Rightarrow> fe_min_selectivity_seen s)
              | None \<Rightarrow> fe_min_selectivity_seen s),
           fe_nodes_with_wasteful_filter :=
             fe_nodes_with_wasteful_filter s +
               (case removed of Some r \<Rightarrow> if wasteful n r then 1 else 0 | None \<Rightarrow> 0),
           fe_findings := fe_findings s @ filter_findings n p\<rparr>)"

definition filter_efficiency_analyze :: "ParsedPlan \<Rightarrow> AnalysisContext \<Rightarrow> AnalysisReport" where
  "filter_efficiency_analyze pl ctx =
     (let v = depth_first pl (visiting filter_efficiency_step) ctx new_filter_efficiency
      in with_metrics (add_findings (start_report ''FilterEfficiencyAnalyzer'' ''1.0.0'') (fe_findings v))
           [(''nodes_analyzed'', f_of_nat (fe_nodes_analyzed v)),
            (''total_rows_removed'', f_of_nat (fe_total_rows_removed v)),
            (''nodes_with_wasteful_filter'', f_of_nat (fe_nodes_with_wasteful_filter v)),
            (''min_selectivity_seen'', fe_min_selectivity_seen v)])"

section \<open>Index scans\<close>

definition MIN_HEAP_FETCHES :: nat where "MIN_HEAP_FETCHES = 1000"
definition MIN_HEAP_FETCH_RATIO :: f64 where "MIN_HEAP_FETCH_RATIO = f_dec 10 2"
definition MIN_LOSSY_BLOCKS :: nat where "MIN_LOSSY_BLOCKS = 64"
definition MIN_LOSSY_FRACTION :: f64 where "MIN_LOSSY_FRACTION = f_dec 5 2"

text \<open>Rows over all loops: the reported rows are an average per loop.\<close>

definition total_rows :: "PlanNode \<Rightarrow> nat option" where
  "total_rows n =
     Option.bind (actuals n) (\<lambda>a.
       map_option (\<lambda>rows. sat_mul rows (max (case actual_loops a of Some l \<Rightarrow> l | None \<Rightarrow> 1) 1)) (actual_rows a))"

definition many_fetches :: "PlanNode \<Rightarrow> nat \<Rightarrow> bool" where
  "many_fetches n fetches \<longleftrightarrow>
     MIN_HEAP_FETCHES \<le> fetches \<and>
     (case total_rows n of
        Some rows \<Rightarrow>
          if 0 < rows then f_gt (f_div (f_of_nat fetches) (f_of_nat rows)) MIN_HEAP_FETCH_RATIO else True
      | None \<Rightarrow> True)"

definition heap_fetches_finding :: "PlanNode \<Rightarrow> NodePath \<Rightarrow> nat \<Rightarrow> Finding" where
  "heap_fetches_finding n p fetches =
     finding_at (Custom ''IndexOnlyScanHeapFetches'') (if 100000 \<le> fetches then High else Medium)
       ''Index-only scan performed many heap fetches''
       (''Operation '' @ quoted (description n) @ '' did '' @ nat_to_string fetches @
        '' heap fetches during an index-only scan. A stale visibility map forces the scan to visit the heap, defeating the point of an index-only scan.'')
       ''Run VACUUM (or VACUUM ANALYZE) on the table to refresh the visibility map, and consider more aggressive autovacuum on this hot table.''
       [p]
       ([(''heap_fetches'', f_of_nat fetches)] @
        (case total_rows n of
           Some rows \<Rightarrow>
             [(''actual_rows'', f_of_nat rows)] @
             (if 0 < rows then [(''heap_fetch_ratio'', f_div (f_of_nat fetches) (f_of_nat rows))] else [])
         | None \<Rightarrow> []))
       []"

definition lossy_total :: "PlanNode \<Rightarrow> nat \<Rightarrow> nat" where
  "lossy_total n lossy =
     sat_add lossy (case prop_heap_blocks_exact (properties n) of Some e \<Rightarrow> e | None \<Rightarrow> 0)"

definition lossy_fraction :: "PlanNode \<Rightarrow> nat \<Rightarrow> f64" where
  "lossy_fraction n lossy =
     (if 0 < lossy_total n lossy then f_div (f_of_nat lossy) (f_of_nat (lossy_total n lossy)) else f_zero)"

definition lossy_finding :: "PlanNode \<Rightarrow> NodePath \<Rightarrow> nat \<Rightarrow> Finding" where
  "lossy_finding n p lossy =
     finding_at MemorySpill Medium ''Bitmap heap scan went lossy''
       (''Operation '' @ quoted (description n) @ '' produced '' @ nat_to_string lossy @
        '' lossy bitmap blocks ('' @ fmt_fixed 0 (f_mul (lossy_fraction n lossy) (f_lit 100)) @ ''% of '' @
        nat_to_string (lossy_total n lossy) @
        '' total). The bitmap exceeded work_mem and became lossy, forcing per-row rechecks.'')
       ''Raise work_mem so the bitmap stays exact, or add a more selective index to shrink the bitmap.''
       [p]
       [(''heap_blocks_lossy'', f_of_nat lossy),
        (''heap_blocks_exact'',
         f_of_nat (case prop_heap_blocks_exact (properties n) of Some e \<Rightarrow> e | None \<Rightarrow> 0)),
        (''lossy_fraction'', lossy_fraction n lossy)]
       []"

definition index_efficiency_findings :: "PlanNode \<Rightarrow> NodePath \<Rightarrow> Finding list" where
  "index_efficiency_findings n p =
     (case prop_heap_fetches (properties n) of
        Some fetches \<Rightarrow> if many_fetches n fetches then [heap_fetches_finding n p fetches] else []
      | None \<Rightarrow> []) @
     (case prop_heap_blocks_lossy (properties n) of
        Some lossy \<Rightarrow>
          if MIN_LOSSY_BLOCKS \<le> lossy \<and> f_gt (lossy_fraction n lossy) MIN_LOSSY_FRACTION
          then [lossy_finding n p lossy] else []
      | None \<Rightarrow> [])"

record IndexEfficiencyVisitor =
  ie_findings :: "Finding list"
  ie_nodes_analyzed :: nat
  ie_total_heap_fetches :: nat
  ie_total_lossy_blocks :: nat

definition new_index_efficiency :: IndexEfficiencyVisitor where
  "new_index_efficiency =
     \<lparr>ie_findings = [], ie_nodes_analyzed = 0, ie_total_heap_fetches = 0, ie_total_lossy_blocks = 0\<rparr>"

definition index_efficiency_step ::
  "IndexEfficiencyVisitor \<Rightarrow> PlanNode \<Rightarrow> NodePath \<Rightarrow> AnalysisContext \<Rightarrow> IndexEfficiencyVisitor" where
  "index_efficiency_step s n p ctx =
     s\<lparr>ie_nodes_analyzed := ie_nodes_analyzed s + 1,
       ie_total_heap_fetches :=
         (case prop_heap_fetches (properties n) of
            Some f \<Rightarrow> sat_add (ie_total_heap_fetches s) f | None \<Rightarrow> ie_total_heap_fetches s),
       ie_total_lossy_blocks :=
         (case prop_heap_blocks_lossy (properties n) of
            Some b \<Rightarrow> sat_add (ie_total_lossy_blocks s) b | None \<Rightarrow> ie_total_lossy_blocks s),
       ie_findings := ie_findings s @ index_efficiency_findings n p\<rparr>"

definition index_efficiency_analyze :: "ParsedPlan \<Rightarrow> AnalysisContext \<Rightarrow> AnalysisReport" where
  "index_efficiency_analyze pl ctx =
     (let v = depth_first pl (visiting index_efficiency_step) ctx new_index_efficiency
      in with_metrics (add_findings (start_report ''IndexEfficiencyAnalyzer'' ''1.0.0'') (ie_findings v))
           [(''nodes_analyzed'', f_of_nat (ie_nodes_analyzed v)),
            (''total_heap_fetches'', f_of_nat (ie_total_heap_fetches v)),
            (''total_lossy_blocks'', f_of_nat (ie_total_lossy_blocks v))])"

section \<open>Findings are about the node they were made at\<close>

lemma runtime_findings_placed [finding_simps]:
  "affected_nodes (spill_finding l p t) = [p]"
  "affected_nodes (buffer_reads_finding l p h r) = [p]"
  "affected_nodes (wal_finding l p w) = [p]"
  "affected_nodes (sort_spill_finding n p ctx) = [p]"
  "affected_nodes (hash_spill_finding n p ctx b) = [p]"
  "affected_nodes (wasteful_finding n p k) = [p]"
  "affected_nodes (recheck_finding n p k) = [p]"
  "affected_nodes (join_filter_finding n p k) = [p]"
  "affected_nodes (heap_fetches_finding n p k) = [p]"
  "affected_nodes (lossy_finding n p k) = [p]"
  unfolding spill_finding_def buffer_reads_finding_def wal_finding_def sort_spill_finding_def
    hash_spill_finding_def wasteful_finding_def recheck_finding_def join_filter_finding_def
    heap_fetches_finding_def lossy_finding_def Let_def finding_at_parts by (rule refl)+

interpretation buffer_wal: node_visitor bw_findings "buffer_wal_step cfg"
  "\<lambda>n p ctx. buffer_findings cfg n p @ wal_findings cfg n p" for cfg
  by unfold_locales
    (auto simp: buffer_wal_step_def buffer_findings_def wal_findings_def Let_def finding_simps
      split: option.splits if_splits)

interpretation sort_memory: node_visitor sm_findings "sort_memory_step lowercase" "sort_memory_findings lowercase"
  for lowercase
  by unfold_locales (auto simp: sort_memory_step_def sort_memory_findings_def finding_simps split: if_splits)

interpretation filter_efficiency: node_visitor fe_findings filter_efficiency_step "\<lambda>n p ctx. filter_findings n p"
  by unfold_locales
    (auto simp: filter_efficiency_step_def filter_findings_def Let_def finding_simps split: option.splits if_splits)

interpretation index_efficiency: node_visitor ie_findings index_efficiency_step
  "\<lambda>n p ctx. index_efficiency_findings n p"
  by unfold_locales
    (auto simp: index_efficiency_step_def index_efficiency_findings_def finding_simps split: option.splits if_splits)

end
