(* ===== verification/Analyzers_Access.thy ===== *)
theory Analyzers_Access
  imports Analyzer_Base
begin

text \<open>
  The analyzers of estimates and access paths, most of them driven by the thresholds of the
  configuration: rows (\<open>row_estimation.rs\<close>), scans (\<open>scan_analysis.rs\<close>), joins
  (\<open>join_analysis.rs\<close>), parallel execution (\<open>parallelization.rs\<close>) and index use (\<open>index_usage.rs\<close>),
  under \<open>crates/core/src/analysis/analyzers\<close>.
\<close>

definition row_severity :: "AnalyzerConfig \<Rightarrow> nat \<Rightarrow> Severity" where
  "row_severity c rows = classify n_ge (row_counts (thresholds c)) rows"

definition cost_severity :: "AnalyzerConfig \<Rightarrow> f64 \<Rightarrow> Severity" where
  "cost_severity c x = classify f_ge (costs (thresholds c)) x"

definition enabled :: "AnalyzerConfig \<Rightarrow> FindingType \<Rightarrow> bool" where
  "enabled c ft \<longleftrightarrow> ft \<in> set (enabled_findings c)"

text \<open>The estimated rows of a child, or a default when there is none.\<close>

definition child_rows :: "nat \<Rightarrow> PlanNode \<Rightarrow> nat \<Rightarrow> nat" where
  "child_rows i n none = (if i < length (children n) then estimated_rows (cost (children n ! i)) else none)"

definition child_width :: "nat \<Rightarrow> PlanNode \<Rightarrow> nat" where
  "child_width i n = (if i < length (children n) then estimated_width (cost (children n ! i)) else 100)"

section \<open>Rows\<close>

record RowEstimationVisitor =
  re_findings :: "Finding list"
  re_nodes_analyzed :: nat
  re_excessive_row_operations :: nat
  re_estimation_errors :: nat
  re_cartesian_products :: nat
  re_max_processed_rows :: nat

definition new_row_estimation :: RowEstimationVisitor where
  "new_row_estimation =
     \<lparr>re_findings = [], re_nodes_analyzed = 0, re_excessive_row_operations = 0, re_estimation_errors = 0,
      re_cartesian_products = 0, re_max_processed_rows = 0\<rparr>"

definition excessive_rows :: "AnalyzerConfig \<Rightarrow> PlanNode \<Rightarrow> bool" where
  "excessive_rows c n \<longleftrightarrow>
     enabled c ExcessiveRowProcessing \<and>
     row_severity c (estimated_rows (cost n)) \<in> {Medium, High, Critical}"

definition excessive_rows_finding :: "AnalyzerConfig \<Rightarrow> PlanNode \<Rightarrow> NodePath \<Rightarrow> Finding" where
  "excessive_rows_finding c n p =
     (let rows = estimated_rows (cost n)
      in finding_at ExcessiveRowProcessing (row_severity c rows)
           (''Excessive row processing detected ('' @ nat_to_string rows @ '' rows)'')
           (''Operation '' @ description n @ '' is processing '' @ nat_to_string rows @
            '' rows, which may indicate a performance bottleneck.'')
           ''Consider adding indexes, more selective WHERE conditions, or query restructuring to reduce the number of rows processed''
           [p] [(''estimated_rows'', f_of_nat rows), (''cost'', max_total_cost (cost n))]
           [(''operation_type'', description n)])"

definition cartesian_ratio :: "PlanNode \<Rightarrow> f64" where
  "cartesian_ratio n =
     f_div (f_of_nat (estimated_rows (cost n))) (f_of_nat (max (sat_mul (child_rows 0 n 1) (child_rows 1 n 1)) 1))"

definition is_cartesian :: "AnalyzerConfig \<Rightarrow> PlanNode \<Rightarrow> bool" where
  "is_cartesian c n \<longleftrightarrow>
     enabled c CartesianProduct \<and>
     (case node_type n of
        JoinNode (NestedLoop _) \<Rightarrow>
          get_node_property n ''Join Filter'' = None \<and> 10000 < estimated_rows (cost n) \<and>
          f_gt (cartesian_ratio n) (f_dec 8 1)
      | _ \<Rightarrow> False)"

definition cartesian_finding :: "PlanNode \<Rightarrow> NodePath \<Rightarrow> Finding" where
  "cartesian_finding n p =
     (let rows = estimated_rows (cost n); l = child_rows 0 n 1; r = child_rows 1 n 1
      in finding_at CartesianProduct Critical ''Potential cartesian product detected''
           (''Nested loop join without explicit join conditions producing '' @ nat_to_string rows @
            '' rows from '' @ nat_to_string l @ '' '' @ times_sign @ '' '' @ nat_to_string r @
            '' inputs (ratio: '' @ fmt_fixed 2 (cartesian_ratio n) @ '')'')
           ''Add explicit JOIN conditions to prevent cartesian product. Check for missing WHERE clauses or JOIN predicates''
           [p]
           [(''result_rows'', f_of_nat rows), (''left_input_rows'', f_of_nat l), (''right_input_rows'', f_of_nat r),
            (''cartesian_ratio'', cartesian_ratio n)]
           [(''has_join_filter'', ''false'')])"

definition row_estimation_findings :: "AnalyzerConfig \<Rightarrow> PlanNode \<Rightarrow> NodePath \<Rightarrow> Finding list" where
  "row_estimation_findings c n p =
     (if excessive_rows c n then [excessive_rows_finding c n p] else []) @
     (if is_cartesian c n then [cartesian_finding n p] else [])"

definition row_estimation_step ::
  "AnalyzerConfig \<Rightarrow> RowEstimationVisitor \<Rightarrow> PlanNode \<Rightarrow> NodePath \<Rightarrow> AnalysisContext \<Rightarrow> RowEstimationVisitor" where
  "row_estimation_step c s n p ctx =
     s\<lparr>re_nodes_analyzed := re_nodes_analyzed s + 1,
       re_max_processed_rows :=
         (if enabled c ExcessiveRowProcessing
          then max (re_max_processed_rows s) (estimated_rows (cost n)) else re_max_processed_rows s),
       re_excessive_row_operations := re_excessive_row_operations s + (if excessive_rows c n then 1 else 0),
       re_cartesian_products := re_cartesian_products s + (if is_cartesian c n then 1 else 0),
       re_findings := re_findings s @ row_estimation_findings c n p\<rparr>"

definition row_estimation_analyze :: "AnalyzerConfig \<Rightarrow> ParsedPlan \<Rightarrow> AnalysisContext \<Rightarrow> AnalysisReport" where
  "row_estimation_analyze c pl ctx =
     (let v = depth_first pl (visiting (row_estimation_step c)) ctx new_row_estimation
      in with_metrics (add_findings (start_report ''RowEstimationAnalyzer'' ''2.0.0'') (re_findings v))
           [(''nodes_analyzed'', f_of_nat (re_nodes_analyzed v)),
            (''excessive_row_operations'', f_of_nat (re_excessive_row_operations v)),
            (''estimation_errors'', f_of_nat (re_estimation_errors v)),
            (''cartesian_products'', f_of_nat (re_cartesian_products v)),
            (''max_processed_rows'', f_of_nat (re_max_processed_rows v))])"

section \<open>Scans\<close>

record ScanAnalysisVisitor =
  sa_findings :: "Finding list"
  sa_nodes_analyzed :: nat
  sa_sequential_scans :: nat
  sa_index_scans :: nat
  sa_bitmap_scans :: nat
  sa_large_scans :: nat
  sa_inefficient_scans :: nat
  sa_max_scan_rows :: nat

definition new_scan_analysis :: ScanAnalysisVisitor where
  "new_scan_analysis =
     \<lparr>sa_findings = [], sa_nodes_analyzed = 0, sa_sequential_scans = 0, sa_index_scans = 0, sa_bitmap_scans = 0,
      sa_large_scans = 0, sa_inefficient_scans = 0, sa_max_scan_rows = 0\<rparr>"

definition severity_threshold :: "('a \<Rightarrow> f64) \<Rightarrow> 'a ThresholdLevels \<Rightarrow> Severity \<Rightarrow> f64" where
  "severity_threshold conv L s =
     (case s of Critical \<Rightarrow> conv (critical_level L) | High \<Rightarrow> conv (high_level L) | _ \<Rightarrow> f_zero)"

definition scanned_rows :: "PlanNode \<Rightarrow> nat" where
  "scanned_rows n =
     (case Option.bind (actuals n) actual_rows of Some r \<Rightarrow> r | None \<Rightarrow> estimated_rows (cost n))"

definition large_scan_finding :: "AnalyzerConfig \<Rightarrow> PlanNode \<Rightarrow> NodePath \<Rightarrow> Finding" where
  "large_scan_finding c n p =
     (let rows = scanned_rows n; sev = row_severity c rows; table = extract_table_name n
      in finding_at LargeSequentialScan sev (''Large sequential scan on '' @ table)
           (''Sequential scan processing '' @ nat_to_string rows @ '' rows on table '' @ quoted table @
            ''. This may indicate missing indexes or inefficient query conditions.'')
           ''Consider adding appropriate indexes, using LIMIT clauses, or adding WHERE conditions to reduce the dataset''
           [p]
           [(''row_count'', f_of_nat rows), (''estimated_rows'', f_of_nat (estimated_rows (cost n))),
            (''cost'', max_total_cost (cost n)),
            (''severity_threshold'', severity_threshold f_of_nat (row_counts (thresholds c)) sev)]
           [(''table_name'', table),
            (''has_actual_data'', bool_to_string (Option.bind (actuals n) actual_rows \<noteq> None))])"

definition moderate_scan_finding :: "AnalyzerConfig \<Rightarrow> PlanNode \<Rightarrow> NodePath \<Rightarrow> Finding" where
  "moderate_scan_finding c n p =
     (let rows = scanned_rows n; table = extract_table_name n
      in finding_at LargeSequentialScan Medium (''Moderate sequential scan on '' @ table)
           (''Sequential scan processing '' @ nat_to_string rows @ '' rows on table '' @ quoted table @
            ''. Consider optimization if this query runs frequently.'')
           ''Review query patterns and consider indexing if this scan occurs frequently''
           [p]
           [(''row_count'', f_of_nat rows), (''estimated_rows'', f_of_nat (estimated_rows (cost n))),
            (''cost'', max_total_cost (cost n)),
            (''severity_threshold'', f_of_nat (medium_level (row_counts (thresholds c))))]
           [(''table_name'', table)])"

definition analyze_sequential_scan ::
  "AnalyzerConfig \<Rightarrow> PlanNode \<Rightarrow> NodePath \<Rightarrow> ScanAnalysisVisitor \<Rightarrow> ScanAnalysisVisitor" where
  "analyze_sequential_scan c n p s =
     (if \<not> enabled c LargeSequentialScan then s
      else
        (let s = s\<lparr>sa_sequential_scans := sa_sequential_scans s + 1,
                   sa_max_scan_rows := max (sa_max_scan_rows s) (scanned_rows n)\<rparr>
         in case row_severity c (scanned_rows n) of
              Low \<Rightarrow> s
            | Medium \<Rightarrow> s\<lparr>sa_large_scans := sa_large_scans s + 1,
                          sa_findings := sa_findings s @ [moderate_scan_finding c n p]\<rparr>
            | _ \<Rightarrow> s\<lparr>sa_large_scans := sa_large_scans s + 1,
                     sa_findings := sa_findings s @ [large_scan_finding c n p]\<rparr>))"

definition inefficient_scan_finding :: "AnalyzerConfig \<Rightarrow> PlanNode \<Rightarrow> NodePath \<Rightarrow> Severity \<Rightarrow> Finding" where
  "inefficient_scan_finding c n p sev =
     (let rows = estimated_rows (cost n); x = max_total_cost (cost n);
          index = extract_index_name n; table = extract_table_name n
      in finding_at InefficiientScan sev (''Inefficient index scan on '' @ table)
           (''Index scan on '' @ quoted table @ '' using index '' @ quoted index @ '' has high cost ('' @
            fmt_fixed 0 x @ '') or processes many rows ('' @ nat_to_string rows @
            ''). Index may have poor selectivity.'')
           ''Review index selectivity, consider composite indexes, or check if query conditions match index columns effectively''
           [p]
           [(''cost'', x), (''row_count'', f_of_nat rows),
            (''cost_threshold'', severity_threshold id (costs (thresholds c)) sev)]
           [(''index_name'', index), (''table_name'', table), (''scan_type'', ''index_scan'')])"

definition analyze_index_scan_efficiency ::
  "AnalyzerConfig \<Rightarrow> PlanNode \<Rightarrow> NodePath \<Rightarrow> ScanAnalysisVisitor \<Rightarrow> ScanAnalysisVisitor" where
  "analyze_index_scan_efficiency c n p s =
     (if \<not> enabled c InefficiientScan then s
      else
        (let s = s\<lparr>sa_index_scans := sa_index_scans s + 1\<rparr>;
             sev = max (cost_severity c (max_total_cost (cost n))) (row_severity c (estimated_rows (cost n)))
         in if sev \<in> {High, Critical}
            then s\<lparr>sa_inefficient_scans := sa_inefficient_scans s + 1,
                   sa_findings := sa_findings s @ [inefficient_scan_finding c n p sev]\<rparr>
            else s))"

definition large_bitmap_finding :: "AnalyzerConfig \<Rightarrow> PlanNode \<Rightarrow> NodePath \<Rightarrow> Finding" where
  "large_bitmap_finding c n p =
     (let rows = estimated_rows (cost n); sev = row_severity c rows; table = extract_table_name n
      in finding_at InefficiientScan sev (''Large bitmap scan on '' @ table)
           (''Bitmap scan processing '' @ nat_to_string rows @ '' rows on table '' @ quoted table @
            ''. While bitmap scans are efficient, this volume suggests potential for further optimization.'')
           ''Consider additional WHERE conditions, query restructuring, or partitioning for very large datasets''
           [p]
           [(''row_count'', f_of_nat rows), (''cost'', max_total_cost (cost n)),
            (''severity_threshold'', severity_threshold f_of_nat (row_counts (thresholds c)) sev)]
           [(''table_name'', table), (''scan_type'', ''bitmap_scan'')])"

definition analyze_bitmap_scan ::
  "AnalyzerConfig \<Rightarrow> PlanNode \<Rightarrow> NodePath \<Rightarrow> ScanAnalysisVisitor \<Rightarrow> ScanAnalysisVisitor" where
  "analyze_bitmap_scan c n p s =
     (let s = s\<lparr>sa_bitmap_scans := sa_bitmap_scans s + 1\<rparr>
      in if row_severity c (estimated_rows (cost n)) \<in> {High, Critical}
         then s\<lparr>sa_findings := sa_findings s @ [large_bitmap_finding c n p]\<rparr>
         else s)"

definition scan_analysis_step ::
  "AnalyzerConfig \<Rightarrow> ScanAnalysisVisitor \<Rightarrow> PlanNode \<Rightarrow> NodePath \<Rightarrow> AnalysisContext \<Rightarrow> ScanAnalysisVisitor" where
  "scan_analysis_step c s n p ctx =
     (case node_type n of
        ScanNode st \<Rightarrow>
          (let s = s\<lparr>sa_nodes_analyzed := sa_nodes_analyzed s + 1\<rparr>
           in case st of
                SeqScan _ \<Rightarrow> analyze_sequential_scan c n p s
              | IndexScan _ _ _ _ \<Rightarrow> analyze_index_scan_efficiency c n p s
              | _ \<Rightarrow> analyze_bitmap_scan c n p s)
      | _ \<Rightarrow> s)"

definition scan_analyze :: "AnalyzerConfig \<Rightarrow> ParsedPlan \<Rightarrow> AnalysisContext \<Rightarrow> AnalysisReport" where
  "scan_analyze c pl ctx =
     (let v = depth_first pl (visiting (scan_analysis_step c)) ctx new_scan_analysis
      in with_metrics (add_findings (start_report ''ScanAnalyzer'' ''3.0.0'') (sa_findings v))
           [(''nodes_analyzed'', f_of_nat (sa_nodes_analyzed v)),
            (''sequential_scans_found'', f_of_nat (sa_sequential_scans v)),
            (''index_scans_found'', f_of_nat (sa_index_scans v)),
            (''bitmap_scans_found'', f_of_nat (sa_bitmap_scans v)),
            (''large_scans_detected'', f_of_nat (sa_large_scans v)),
            (''inefficient_scans_detected'', f_of_nat (sa_inefficient_scans v)),
            (''max_scan_rows'', f_of_nat (sa_max_scan_rows v))])"

section \<open>Joins\<close>

record JoinAnalysisVisitor =
  ja_findings :: "Finding list"
  ja_nodes_analyzed :: nat
  ja_nested_loops :: nat
  ja_hash_joins :: nat
  ja_merge_joins :: nat
  ja_large_joins :: nat
  ja_ineffective_joins :: nat
  ja_max_join_rows :: nat

definition new_join_analysis :: JoinAnalysisVisitor where
  "new_join_analysis =
     \<lparr>ja_findings = [], ja_nodes_analyzed = 0, ja_nested_loops = 0, ja_hash_joins = 0, ja_merge_joins = 0,
      ja_large_joins = 0, ja_ineffective_joins = 0, ja_max_join_rows = 0\<rparr>"

definition nested_loop_finding :: "PlanNode \<Rightarrow> NodePath \<Rightarrow> Severity \<Rightarrow> Finding" where
  "nested_loop_finding n p sev =
     (let rows = estimated_rows (cost n); x = max_total_cost (cost n); l = child_rows 0 n 0; r = child_rows 1 n 0
      in finding_at LargeNestedLoop sev ''Large nested loop join detected''
           (''Nested loop join processing '' @ nat_to_string rows @ '' rows with cost '' @ fmt_fixed 0 x @
            ''. Joining '' @ nat_to_string l @ '' left rows with '' @ nat_to_string r @ '' right rows.'')
           ''Consider adding indexes on join columns, using hash/merge joins for large datasets, or restructuring the query''
           [p]
           [(''result_rows'', f_of_nat rows), (''cost'', x), (''left_input_rows'', f_of_nat l),
            (''right_input_rows'', f_of_nat r)]
           [(''join_algorithm'', ''nested_loop''),
            (''has_join_conditions'', bool_to_string (get_node_property n ''Join Filter'' \<noteq> None))])"

definition analyze_nested_loop_join ::
  "AnalyzerConfig \<Rightarrow> PlanNode \<Rightarrow> NodePath \<Rightarrow> JoinAnalysisVisitor \<Rightarrow> JoinAnalysisVisitor" where
  "analyze_nested_loop_join c n p s =
     (if \<not> enabled c LargeNestedLoop then s
      else
        (let rows = estimated_rows (cost n);
             s = s\<lparr>ja_nested_loops := ja_nested_loops s + 1, ja_max_join_rows := max (ja_max_join_rows s) rows\<rparr>;
             sev = max (row_severity c rows) (cost_severity c (max_total_cost (cost n)))
         in if sev \<in> {High, Critical}
            then s\<lparr>ja_large_joins := ja_large_joins s + 1,
                   ja_findings := ja_findings s @ [nested_loop_finding n p sev]\<rparr>
            else s))"

text \<open>The memory of a hash table, in KB, by PostgreSQL's mechanics: rows, entries, buckets,
  fragmentation, batches and a margin.\<close>

definition estimate_hash_join_memory :: "nat \<Rightarrow> nat \<Rightarrow> nat \<Rightarrow> f64" where
  "estimate_hash_join_memory hash_side_rows left_width right_width =
     (let rows = f_of_nat hash_side_rows;
          row_data_bytes = f_mul rows (f_of_nat (min left_width right_width));
          hash_overhead_bytes = f_mul rows (f_lit 24);
          bucket_overhead_bytes = f_mul (f_max (f_mul rows (f_dec 15 1)) (f_lit 1024)) (f_lit 8);
          total_data = f_add (f_add row_data_bytes hash_overhead_bytes) bucket_overhead_bytes;
          fragmentation_overhead = f_mul total_data (f_dec 12 2);
          batch_overhead = f_mul (f_max (f_div rows (f_lit 10000)) (f_lit 1)) (f_lit 1024);
          total_bytes = f_add (f_add total_data fragmentation_overhead) batch_overhead
      in f_mul (f_div total_bytes (f_lit 1024)) (f_dec 11 1))"

definition hash_join_memory :: "PlanNode \<Rightarrow> f64" where
  "hash_join_memory n =
     estimate_hash_join_memory (min (child_rows 0 n 0) (child_rows 1 n 0)) (child_width 0 n) (child_width 1 n)"

definition memory_pressure :: "PlanNode \<Rightarrow> AnalysisContext \<Rightarrow> f64" where
  "memory_pressure n ctx = f_div (hash_join_memory n) (f_of_nat (work_mem_kb ctx))"

definition pressure_severity :: "f64 \<Rightarrow> Severity option" where
  "pressure_severity ratio =
     (if f_gt ratio (f_lit 20) then Some Critical
      else if f_gt ratio (f_lit 5) then Some High
      else if f_gt ratio (f_lit 2) then Some Medium
      else if f_gt ratio (f_dec 12 1) then Some Low
      else None)"

definition hash_join_finding :: "PlanNode \<Rightarrow> NodePath \<Rightarrow> AnalysisContext \<Rightarrow> Severity \<Rightarrow> Finding" where
  "hash_join_finding n p ctx sev =
     (let rows = estimated_rows (cost n); l = child_rows 0 n 0; r = child_rows 1 n 0;
          memory = hash_join_memory n; ratio = memory_pressure n ctx
      in finding_at HashJoinMemorySpill sev
           (''Hash join memory pressure ('' @ fmt_fixed 1 ratio @ ''x work_mem)'')
           (''Hash join estimated to use '' @ fmt_fixed 1 memory @ '' KB memory ('' @ fmt_fixed 1 ratio @
            ''x work_mem of '' @ nat_to_string (work_mem_kb ctx) @ '' KB). Processing '' @ nat_to_string rows @
            '' rows (left: '' @ nat_to_string l @ '' rows'' @ times_sign @ nat_to_string (child_width 0 n) @
            ''B, right: '' @ nat_to_string r @ '' rows'' @ times_sign @ nat_to_string (child_width 1 n) @
            ''B) will likely cause '' @
            (if f_gt ratio (f_lit 5) then ''heavy disk spilling''
             else if f_gt ratio (f_lit 2) then ''moderate disk spilling'' else ''minor disk spilling'') @ ''.'')
           ''Consider increasing work_mem, adding more selective WHERE conditions, or using merge joins for very large datasets''
           [p]
           [(''result_rows'', f_of_nat rows), (''left_input_rows'', f_of_nat l), (''right_input_rows'', f_of_nat r),
            (''estimated_memory_kb'', memory), (''work_mem_kb'', f_of_nat (work_mem_kb ctx)),
            (''memory_pressure_ratio'', ratio), (''cost'', max_total_cost (cost n)),
            (''left_width_bytes'', f_of_nat (child_width 0 n)), (''right_width_bytes'', f_of_nat (child_width 1 n))]
           [(''join_algorithm'', ''hash_join''), (''hash_side_rows'', nat_to_string (min l r)),
            (''memory_estimation_method'', ''postgresql_realistic'')])"

definition analyze_hash_join :: "AnalyzerConfig \<Rightarrow> PlanNode \<Rightarrow> NodePath \<Rightarrow> AnalysisContext \<Rightarrow>
  JoinAnalysisVisitor \<Rightarrow> JoinAnalysisVisitor" where
  "analyze_hash_join c n p ctx s =
     (let s = s\<lparr>ja_hash_joins := ja_hash_joins s + 1\<rparr>;
          rows = estimated_rows (cost n)
      in if enabled c HashJoinMemorySpill \<and>
            (row_severity c rows = Critical \<or>
             cost_severity c (max_total_cost (cost n)) \<in> {High, Critical} \<and> 1000000 < rows)
         then
           (let s = s\<lparr>ja_ineffective_joins := ja_ineffective_joins s + 1\<rparr>
            in case pressure_severity (memory_pressure n ctx) of
                 Some sev \<Rightarrow> s\<lparr>ja_findings := ja_findings s @ [hash_join_finding n p ctx sev]\<rparr>
               | None \<Rightarrow> s)
         else s)"

definition merge_join_finding :: "AnalyzerConfig \<Rightarrow> PlanNode \<Rightarrow> NodePath \<Rightarrow> Finding" where
  "merge_join_finding c n p =
     (let rows = estimated_rows (cost n); x = max_total_cost (cost n)
      in finding_at IneffectiveJoinAlgorithm (cost_severity c x) ''High-cost merge join detected''
           (''Merge join with cost '' @ fmt_fixed 0 x @ '' processing '' @ nat_to_string rows @
            '' rows. May indicate sorting overhead or non-optimal join conditions.'')
           ''Check if input data is already sorted, verify join column indexes, or consider hash joins for unsorted data''
           [p] [(''cost'', x), (''estimated_rows'', f_of_nat rows)] [(''join_algorithm'', ''merge_join'')])"

definition analyze_merge_join ::
  "AnalyzerConfig \<Rightarrow> PlanNode \<Rightarrow> NodePath \<Rightarrow> JoinAnalysisVisitor \<Rightarrow> JoinAnalysisVisitor" where
  "analyze_merge_join c n p s =
     (let s = s\<lparr>ja_merge_joins := ja_merge_joins s + 1\<rparr>
      in if enabled c IneffectiveJoinAlgorithm \<and> cost_severity c (max_total_cost (cost n)) \<in> {High, Critical}
         then s\<lparr>ja_ineffective_joins := ja_ineffective_joins s + 1,
                ja_findings := ja_findings s @ [merge_join_finding c n p]\<rparr>
         else s)"

definition join_analysis_step ::
  "AnalyzerConfig \<Rightarrow> JoinAnalysisVisitor \<Rightarrow> PlanNode \<Rightarrow> NodePath \<Rightarrow> AnalysisContext \<Rightarrow> JoinAnalysisVisitor" where
  "join_analysis_step c s n p ctx =
     (case node_type n of
        JoinNode jt \<Rightarrow>
          (let s = s\<lparr>ja_nodes_analyzed := ja_nodes_analyzed s + 1\<rparr>
           in case jt of
                NestedLoop _ \<Rightarrow> analyze_nested_loop_join c n p s
              | NestedLoopLeftJoin _ \<Rightarrow> analyze_nested_loop_join c n p s
              | HashJoin _ _ \<Rightarrow> analyze_hash_join c n p ctx s
              | MergeJoin _ \<Rightarrow> analyze_merge_join c n p s)
      | _ \<Rightarrow> s)"

definition join_analyze :: "AnalyzerConfig \<Rightarrow> ParsedPlan \<Rightarrow> AnalysisContext \<Rightarrow> AnalysisReport" where
  "join_analyze c pl ctx =
     (let v = depth_first pl (visiting (join_analysis_step c)) ctx new_join_analysis
      in with_metrics (add_findings (start_report ''JoinAnalyzer'' ''3.0.0'') (ja_findings v))
           [(''nodes_analyzed'', f_of_nat (ja_nodes_analyzed v)),
            (''nested_loops_found'', f_of_nat (ja_nested_loops v)),
            (''hash_joins_found'', f_of_nat (ja_hash_joins v)),
            (''merge_joins_found'', f_of_nat (ja_merge_joins v)),
            (''large_joins_detected'', f_of_nat (ja_large_joins v)),
            (''ineffective_joins_detected'', f_of_nat (ja_ineffective_joins v)),
            (''max_join_rows'', f_of_nat (ja_max_join_rows v))])"

section \<open>Parallel execution\<close>

record ParallelizationVisitor =
  pv_findings :: "Finding list"
  pv_nodes_analyzed :: nat
  pv_parallel_operations :: nat
  pv_sequential_operations :: nat
  pv_missed_opportunities :: nat
  pv_inefficient_parallelism :: nat

definition new_parallelization :: ParallelizationVisitor where
  "new_parallelization =
     \<lparr>pv_findings = [], pv_nodes_analyzed = 0, pv_parallel_operations = 0, pv_sequential_operations = 0,
      pv_missed_opportunities = 0, pv_inefficient_parallelism = 0\<rparr>"

definition is_parallel_operation :: "PlanNode \<Rightarrow> bool" where
  "is_parallel_operation n \<longleftrightarrow>
     get_node_property n ''Workers Planned'' \<noteq> None \<or> get_node_property n ''Workers Launched'' \<noteq> None \<or>
     contains_sub (description n) ''Parallel'' \<or> contains_sub (description n) ''Gather''"

definition could_be_parallelized :: "PlanNode \<Rightarrow> bool" where
  "could_be_parallelized n \<longleftrightarrow>
     (case node_type n of
        ScanNode _ \<Rightarrow> True
      | JoinNode (HashJoin _ _) \<Rightarrow> True
      | JoinNode (MergeJoin _) \<Rightarrow> True
      | AggregateNode _ \<Rightarrow> True
      | _ \<Rightarrow> False)"

definition get_workers :: "string \<Rightarrow> PlanNode \<Rightarrow> nat" where
  "get_workers key n =
     (case Option.bind (get_node_property n key) parse_usize of Some k \<Rightarrow> k | None \<Rightarrow> 0)"

definition get_workers_planned :: "PlanNode \<Rightarrow> nat" where
  "get_workers_planned n = get_workers ''Workers Planned'' n"

definition get_workers_launched :: "PlanNode \<Rightarrow> nat" where
  "get_workers_launched n = get_workers ''Workers Launched'' n"

definition worker_ratio :: "PlanNode \<Rightarrow> f64" where
  "worker_ratio n = f_div (f_of_nat (get_workers_launched n)) (f_of_nat (get_workers_planned n))"

definition inefficient_finding :: "PlanNode \<Rightarrow> NodePath \<Rightarrow> Finding" where
  "inefficient_finding n p =
     (let planned = get_workers_planned n; launched = get_workers_launched n
      in finding_at InefficientParallelism Medium ''Inefficient parallel execution detected''
           (''Parallel operation planned for '' @ nat_to_string planned @ '' workers but only launched '' @
            nat_to_string launched @ '' workers (efficiency: '' @
            fmt_fixed 1 (f_mul (worker_ratio n) (f_lit 100)) @ ''%)'')
           ''Check parallel query configuration, system resources, or consider if the operation is suitable for parallelization''
           [p]
           [(''workers_planned'', f_of_nat planned), (''workers_launched'', f_of_nat launched),
            (''efficiency_ratio'', worker_ratio n)]
           [(''operation_type'', description n)])"

definition analyze_parallel_efficiency ::
  "AnalyzerConfig \<Rightarrow> PlanNode \<Rightarrow> NodePath \<Rightarrow> ParallelizationVisitor \<Rightarrow> ParallelizationVisitor" where
  "analyze_parallel_efficiency c n p s =
     (if enabled c InefficientParallelism \<and> 0 < get_workers_launched n \<and> 0 < get_workers_planned n \<and>
         f_lt (worker_ratio n) (f_dec 5 1)
      then s\<lparr>pv_inefficient_parallelism := pv_inefficient_parallelism s + 1,
             pv_findings := pv_findings s @ [inefficient_finding n p]\<rparr>
      else s)"

definition missed_finding :: "PlanNode \<Rightarrow> NodePath \<Rightarrow> AnalysisContext \<Rightarrow> Severity \<Rightarrow> Finding" where
  "missed_finding n p ctx sev =
     (let rows = estimated_rows (cost n); x = max_total_cost (cost n)
      in finding_at MissedParallelization sev ''Operation could benefit from parallelization''
           (''Operation '' @ description n @ '' processing '' @ nat_to_string rows @ '' rows (cost: '' @
            fmt_fixed 0 x @ '') is running sequentially but could potentially be parallelized'')
           ''Consider increasing max_parallel_workers_per_gather, enabling parallel operations, or checking if query meets parallelization requirements''
           [p]
           [(''estimated_rows'', f_of_nat rows), (''cost'', x),
            (''max_parallel_workers'', f_of_nat (max_parallel_workers ctx))]
           [(''operation_type'', description n), (''is_parallel'', ''false'')])"

definition analyze_parallelization_opportunity :: "AnalyzerConfig \<Rightarrow> PlanNode \<Rightarrow> NodePath \<Rightarrow>
  AnalysisContext \<Rightarrow> ParallelizationVisitor \<Rightarrow> ParallelizationVisitor" where
  "analyze_parallelization_opportunity c n p ctx s =
     (if \<not> enabled c MissedParallelization then s
      else if is_parallel_operation n
      then analyze_parallel_efficiency c n p (s\<lparr>pv_parallel_operations := pv_parallel_operations s + 1\<rparr>)
      else
        (let s = s\<lparr>pv_sequential_operations := pv_sequential_operations s + 1\<rparr>;
             sev = max (row_severity c (estimated_rows (cost n))) (cost_severity c (max_total_cost (cost n)))
         in if sev \<in> {High, Critical} \<and> could_be_parallelized n
            then s\<lparr>pv_missed_opportunities := pv_missed_opportunities s + 1,
                   pv_findings := pv_findings s @ [missed_finding n p ctx sev]\<rparr>
            else s))"

definition parallelization_step :: "AnalyzerConfig \<Rightarrow> ParallelizationVisitor \<Rightarrow> PlanNode \<Rightarrow> NodePath \<Rightarrow>
  AnalysisContext \<Rightarrow> ParallelizationVisitor" where
  "parallelization_step c s n p ctx =
     analyze_parallelization_opportunity c n p ctx (s\<lparr>pv_nodes_analyzed := pv_nodes_analyzed s + 1\<rparr>)"

definition parallelization_analyze :: "AnalyzerConfig \<Rightarrow> ParsedPlan \<Rightarrow> AnalysisContext \<Rightarrow> AnalysisReport" where
  "parallelization_analyze c pl ctx =
     (let v = depth_first pl (visiting (parallelization_step c)) ctx new_parallelization
      in with_metrics
           (add_findings
             (report_with_metadata (start_report ''ParallelizationAnalyzer'' ''3.0.0'')
               ''max_parallel_workers'' (nat_to_string (max_parallel_workers ctx)))
             (pv_findings v))
           [(''nodes_analyzed'', f_of_nat (pv_nodes_analyzed v)),
            (''parallel_operations'', f_of_nat (pv_parallel_operations v)),
            (''sequential_operations'', f_of_nat (pv_sequential_operations v)),
            (''missed_parallelization_opportunities'', f_of_nat (pv_missed_opportunities v)),
            (''inefficient_parallelism'', f_of_nat (pv_inefficient_parallelism v))])"

section \<open>Index use\<close>

record IndexUsageVisitor =
  iu_findings :: "Finding list"
  iu_nodes_analyzed :: nat
  iu_seq_scans :: nat
  iu_index_scans :: nat
  iu_seq_scans_with_filters :: nat

definition new_index_usage :: IndexUsageVisitor where
  "new_index_usage =
     \<lparr>iu_findings = [], iu_nodes_analyzed = 0, iu_seq_scans = 0, iu_index_scans = 0,
      iu_seq_scans_with_filters = 0\<rparr>"

definition schema_or_public :: "TableReference \<Rightarrow> string" where
  "schema_or_public t = (case tr_schema t of Some s \<Rightarrow> s | None \<Rightarrow> ''public'')"

definition missing_index_finding :: "TableReference \<Rightarrow> string \<Rightarrow> PlanNode \<Rightarrow> NodePath \<Rightarrow> Finding" where
  "missing_index_finding table filt n p =
     (let rows = estimated_rows (cost n)
      in finding_at MissingIndex (if 100000 < rows then High else if 10000 < rows then Medium else Low)
           ''Potential missing index opportunity''
           (''Sequential scan on '' @ quoted (schema_or_public table @ ''.'' @ tr_name table) @
            '' with selective filter: '' @ quoted filt @ ''. Estimated '' @ nat_to_string rows @
            '' rows. An index could improve performance.'')
           ''Consider creating an index on the filtered column(s). For equality filters, a B-tree index is typically appropriate.''
           [p] [(''estimated_rows'', f_of_nat rows)]
           [(''filter_condition'', filt), (''table_name'', tr_name table)])"

definition function_filter_finding :: "TableReference \<Rightarrow> string \<Rightarrow> NodePath \<Rightarrow> Finding" where
  "function_filter_finding table filt p =
     finding_at (Custom ''FunctionInFilter'') Medium ''Function prevents index usage''
       (''Filter '' @ quoted filt @ '' applies a function to a column, preventing index usage. Table: '' @
        schema_or_public table @ ''.'' @ tr_name table)
       ''Consider using expression indexes (CREATE INDEX ... ON table ((LOWER(column)))), or restructure the query to avoid functions in WHERE clause''
       [p] [] [(''filter_condition'', filt), (''table_name'', tr_name table)]"

definition wildcard_finding :: "TableReference \<Rightarrow> string \<Rightarrow> NodePath \<Rightarrow> Finding" where
  "wildcard_finding table filt p =
     finding_at (Custom ''LeadingWildcardLike'') Low ''LIKE with leading wildcard cannot use index''
       (''Filter '' @ quoted filt @
        '' uses LIKE/ILIKE with leading wildcard, which prevents index usage. Table: '' @
        schema_or_public table @ ''.'' @ tr_name table)
       ''Consider full-text search (GIN index) or pattern indexes if prefix searches are possible''
       [p] [] [(''filter_condition'', filt), (''table_name'', tr_name table)]"

definition missing_index_findings ::
  "(string \<Rightarrow> string) \<Rightarrow> TableReference \<Rightarrow> string \<Rightarrow> PlanNode \<Rightarrow> NodePath \<Rightarrow> Finding list" where
  "missing_index_findings lowercase table filt n p =
     (let rows = estimated_rows (cost n)
      in (if contains_sub filt ''='' \<and> \<not> contains_sub (lowercase filt) '' or '' \<and> 1000 < rows \<and> rows < 1000000
          then [missing_index_finding table filt n p] else []) @
         (if list_ex (contains_sub (lowercase filt)) [''lower('', ''upper('', ''date('', ''substring('', ''cast('']
          then [function_filter_finding table filt p] else []) @
         (if contains_sub filt (''LIKE '' @ CHR 0x27 # ''%'') \<or> contains_sub filt (''ILIKE '' @ CHR 0x27 # ''%'')
          then [wildcard_finding table filt p] else []))"

definition detect_missing_index_opportunity ::
  "(string \<Rightarrow> string) \<Rightarrow> PlanNode \<Rightarrow> NodePath \<Rightarrow> IndexUsageVisitor \<Rightarrow> IndexUsageVisitor" where
  "detect_missing_index_opportunity lowercase n p s =
     (case node_type n of
        ScanNode (SeqScan table) \<Rightarrow>
          (case get_node_property n ''Filter'' of
             Some filt \<Rightarrow>
               s\<lparr>iu_seq_scans_with_filters := iu_seq_scans_with_filters s + 1,
                 iu_findings := iu_findings s @ missing_index_findings lowercase table filt n p\<rparr>
           | None \<Rightarrow> s)
      | _ \<Rightarrow> s)"

definition index_label :: "IndexReference option \<Rightarrow> string" where
  "index_label index = (case index of Some i \<Rightarrow> ir_name i | None \<Rightarrow> ''unknown'')"

definition large_index_scan_finding :: "TableReference \<Rightarrow> IndexReference option \<Rightarrow> nat \<Rightarrow> NodePath \<Rightarrow> Finding" where
  "large_index_scan_finding table index rows p =
     finding_at (Custom ''LargeIndexScan'') Low ''Index scan returns many rows''
       (''Index scan on '' @ quoted (schema_or_public table @ ''.'' @ tr_name table) @ '' using '' @
        quoted (index_label index) @ '' returns '' @ nat_to_string rows @
        '' rows. This may be less efficient than a sequential scan.'')
       ''Review query selectivity. PostgreSQL may choose index scan due to ORDER BY or other factors, but for large result sets, sequential scan is often faster.''
       [p] [(''estimated_rows'', f_of_nat rows)]
       [(''table_name'', tr_name table), (''index_name'', index_label index)]"

definition analyze_index_scan :: "PlanNode \<Rightarrow> NodePath \<Rightarrow> IndexUsageVisitor \<Rightarrow> IndexUsageVisitor" where
  "analyze_index_scan n p s =
     (case node_type n of
        ScanNode (IndexScan table index _ _) \<Rightarrow>
          if 50000 < estimated_rows (cost n)
          then s\<lparr>iu_findings :=
                   iu_findings s @ [large_index_scan_finding table index (estimated_rows (cost n)) p]\<rparr>
          else s
      | _ \<Rightarrow> s)"

definition large_bitmap_scan_finding :: "TableReference \<Rightarrow> nat \<Rightarrow> NodePath \<Rightarrow> Finding" where
  "large_bitmap_scan_finding table rows p =
     finding_at (Custom ''LargeBitmapScan'') Low ''Large bitmap heap scan detected''
       (''Bitmap heap scan on '' @ quoted (schema_or_public table @ ''.'' @ tr_name table) @ '' returns '' @
        nat_to_string rows @
        '' rows. For very large result sets, consider if query can be made more selective.'')
       ''Bitmap scans are efficient for moderate selectivity. If returning most of the table, query optimization may be needed.''
       [p] [(''estimated_rows'', f_of_nat rows)] [(''table_name'', tr_name table)]"

definition analyze_bitmap_heap_scan :: "PlanNode \<Rightarrow> NodePath \<Rightarrow> IndexUsageVisitor \<Rightarrow> IndexUsageVisitor" where
  "analyze_bitmap_heap_scan n p s =
     (case node_type n of
        ScanNode (BitmapHeapScan table _) \<Rightarrow>
          if 100000 < estimated_rows (cost n)
          then s\<lparr>iu_findings := iu_findings s @ [large_bitmap_scan_finding table (estimated_rows (cost n)) p]\<rparr>
          else s
      | _ \<Rightarrow> s)"

definition index_usage_step ::
  "(string \<Rightarrow> string) \<Rightarrow> IndexUsageVisitor \<Rightarrow> PlanNode \<Rightarrow> NodePath \<Rightarrow> AnalysisContext \<Rightarrow> IndexUsageVisitor" where
  "index_usage_step lowercase s n p ctx =
     (let s = s\<lparr>iu_nodes_analyzed := iu_nodes_analyzed s + 1\<rparr>
      in case node_type n of
           ScanNode (SeqScan _) \<Rightarrow>
             detect_missing_index_opportunity lowercase n p (s\<lparr>iu_seq_scans := iu_seq_scans s + 1\<rparr>)
         | ScanNode (IndexScan _ _ _ _) \<Rightarrow>
             analyze_index_scan n p (s\<lparr>iu_index_scans := iu_index_scans s + 1\<rparr>)
         | ScanNode (BitmapHeapScan _ _) \<Rightarrow> analyze_bitmap_heap_scan n p s
         | _ \<Rightarrow> s)"

definition index_usage_analyze :: "(string \<Rightarrow> string) \<Rightarrow> ParsedPlan \<Rightarrow> AnalysisContext \<Rightarrow> AnalysisReport" where
  "index_usage_analyze lowercase pl ctx =
     (let v = depth_first pl (visiting (index_usage_step lowercase)) ctx new_index_usage;
          scans = iu_seq_scans v + iu_index_scans v
      in with_metrics (add_findings (start_report ''IndexUsageAnalyzer'' ''1.0.0'') (iu_findings v))
           ([(''nodes_analyzed'', f_of_nat (iu_nodes_analyzed v)), (''seq_scans'', f_of_nat (iu_seq_scans v)),
             (''index_scans'', f_of_nat (iu_index_scans v)),
             (''seq_scans_with_filters'', f_of_nat (iu_seq_scans_with_filters v))] @
            (if 0 < scans then [(''index_usage_ratio'', f_div (f_of_nat (iu_index_scans v)) (f_of_nat scans))]
             else [])))"

section \<open>Findings are about the node they were made at\<close>

lemma access_findings_placed [finding_simps]:
  "affected_nodes (excessive_rows_finding c n p) = [p]"
  "affected_nodes (cartesian_finding n p) = [p]"
  "affected_nodes (large_scan_finding c n p) = [p]"
  "affected_nodes (moderate_scan_finding c n p) = [p]"
  "affected_nodes (inefficient_scan_finding c n p s) = [p]"
  "affected_nodes (large_bitmap_finding c n p) = [p]"
  "affected_nodes (nested_loop_finding n p s) = [p]"
  "affected_nodes (hash_join_finding n p ctx s) = [p]"
  "affected_nodes (merge_join_finding c n p) = [p]"
  "affected_nodes (inefficient_finding n p) = [p]"
  "affected_nodes (missed_finding n p ctx s) = [p]"
  "affected_nodes (missing_index_finding t q n p) = [p]"
  "affected_nodes (function_filter_finding t q p) = [p]"
  "affected_nodes (wildcard_finding t q p) = [p]"
  "affected_nodes (large_index_scan_finding t i k p) = [p]"
  "affected_nodes (large_bitmap_scan_finding t k p) = [p]"
  unfolding excessive_rows_finding_def cartesian_finding_def large_scan_finding_def moderate_scan_finding_def
    inefficient_scan_finding_def large_bitmap_finding_def nested_loop_finding_def hash_join_finding_def
    merge_join_finding_def inefficient_finding_def missed_finding_def missing_index_finding_def
    function_filter_finding_def wildcard_finding_def large_index_scan_finding_def large_bitmap_scan_finding_def
    Let_def finding_at_parts by (rule refl)+

interpretation row_estimation: node_visitor re_findings "row_estimation_step c"
  "\<lambda>n p ctx. row_estimation_findings c n p" for c
  by unfold_locales (auto simp: row_estimation_step_def row_estimation_findings_def finding_simps split: if_splits)

lemmas scan_steps = scan_analysis_step_def analyze_sequential_scan_def analyze_index_scan_efficiency_def
  analyze_bitmap_scan_def new_scan_analysis_def Let_def

interpretation scans: node_visitor sa_findings "scan_analysis_step c"
  "\<lambda>n p ctx. sa_findings (scan_analysis_step c new_scan_analysis n p ctx)" for c
  by unfold_locales
    (auto simp: scan_steps finding_simps split: NodeType.splits ScanType.splits Severity.splits if_splits)

lemmas join_steps = join_analysis_step_def analyze_nested_loop_join_def analyze_hash_join_def
  analyze_merge_join_def new_join_analysis_def Let_def

interpretation joins: node_visitor ja_findings "join_analysis_step c"
  "\<lambda>n p ctx. ja_findings (join_analysis_step c new_join_analysis n p ctx)" for c
  by unfold_locales
    (auto simp: join_steps finding_simps split: NodeType.splits JoinType.splits option.splits if_splits)

lemmas parallel_steps = parallelization_step_def analyze_parallelization_opportunity_def
  analyze_parallel_efficiency_def new_parallelization_def Let_def

interpretation parallel: node_visitor pv_findings "parallelization_step c"
  "\<lambda>n p ctx. pv_findings (parallelization_step c new_parallelization n p ctx)" for c
  by unfold_locales (auto simp: parallel_steps finding_simps split: if_splits)

lemmas index_usage_steps = index_usage_step_def detect_missing_index_opportunity_def analyze_index_scan_def
  analyze_bitmap_heap_scan_def new_index_usage_def Let_def

lemma missing_index_placed:
  "f \<in> set (missing_index_findings lowercase table filt n p) \<Longrightarrow> affected_nodes f = [p]"
  by (auto simp: missing_index_findings_def Let_def finding_simps split: if_splits)

interpretation index_usage: node_visitor iu_findings "index_usage_step lowercase"
  "\<lambda>n p ctx. iu_findings (index_usage_step lowercase new_index_usage n p ctx)" for lowercase
  by unfold_locales
    (auto simp: index_usage_steps missing_index_placed finding_simps
      split: NodeType.splits ScanType.splits option.splits if_splits)

end
