(* ===== verification/Analyzers.thy ===== *)
theory Analyzers
  imports Analyzers_Shape Analyzers_Runtime Analyzers_Access
begin

text \<open>
  The plan analyzers together: the default set an engine is built with (\<open>with_default_analyzers\<close> of
  \<open>crates/core/src/analysis/engine.rs\<close>) and what its findings and metrics say about the plan. No
  analyzer panics in a release build, so each \<open>analyze\<close> returns a report.
\<close>

section \<open>The default set\<close>

definition as_analyzer :: "string \<Rightarrow> string \<Rightarrow> (ParsedPlan \<Rightarrow> AnalysisContext \<Rightarrow> AnalysisReport) \<Rightarrow> Analyzer" where
  "as_analyzer n v f =
     \<lparr>analyze = (\<lambda>pl ctx. Some (f pl ctx)), name = n, supports_plan = (\<lambda>_. True), version = v\<rparr>"

definition default_analyzers :: "(string \<Rightarrow> string) \<Rightarrow> Analyzer list" where
  "default_analyzers lowercase =
     (let c = analyzer_configurations default_configuration
      in [as_analyzer ''RowEstimationAnalyzer'' ''2.0.0'' (row_estimation_analyze (row_estimation c)),
          as_analyzer ''ScanAnalyzer'' ''3.0.0'' (scan_analyze (scan_analysis c)),
          as_analyzer ''JoinAnalyzer'' ''3.0.0'' (join_analyze (join_analysis c)),
          as_analyzer ''QueryPatternAnalyzer'' ''1.0.0'' (query_pattern_analyze default_query_pattern lowercase),
          as_analyzer ''StartupCostAnalyzer'' ''1.0.0'' (startup_cost_analyze lowercase),
          as_analyzer ''IndexUsageAnalyzer'' ''1.0.0'' (index_usage_analyze lowercase),
          as_analyzer ''BufferWalAnalyzer'' ''1.0.0'' (buffer_wal_analyze default_buffer_wal),
          as_analyzer ''SortMemoryAnalyzer'' ''1.0.0'' (sort_memory_analyze lowercase),
          as_analyzer ''FilterEfficiencyAnalyzer'' ''1.0.0'' filter_efficiency_analyze,
          as_analyzer ''IndexEfficiencyAnalyzer'' ''1.0.0'' index_efficiency_analyze,
          as_analyzer ''PlanShapeAnalyzer'' ''1.0.0'' plan_shape_analyze,
          as_analyzer ''EstimationHealthAnalyzer'' ''1.0.0'' estimation_health_analyze])"

definition with_default_analyzers :: "(string \<Rightarrow> string) \<Rightarrow> AnalysisEngine \<Rightarrow> AnalysisEngine" where
  "with_default_analyzers lowercase E = foldl add_analyzer E (default_analyzers lowercase)"

definition parallelization_analyzer :: "AnalyzerConfig \<Rightarrow> Analyzer" where
  "parallelization_analyzer c = as_analyzer ''ParallelizationAnalyzer'' ''3.0.0'' (parallelization_analyze c)"

section \<open>Findings lead into the plan\<close>

text \<open>The nodes a whole-plan visitor remembers are places of the plan.\<close>

definition in_plan :: "ParsedPlan \<Rightarrow> NodePath option \<Rightarrow> bool" where
  "in_plan pl q \<longleftrightarrow> (case q of Some p \<Rightarrow> get_node_at_path pl (path_indices p) \<noteq> None | None \<Rightarrow> True)"

lemma in_plan_place: "x \<in> set (places pl) \<Longrightarrow> in_plan pl (Some (snd x))"
  by (simp add: in_plan_def place_in_plan)

lemma dominant_in_plan: "in_plan pl (ps_dominant_path (depth_first pl (visiting plan_shape_step) ctx new_plan_shape))"
  by (rule visit_invariant)
    (simp_all add: new_plan_shape_def in_plan_def [of pl None] plan_shape_step_def Let_def in_plan_place)

lemma worst_in_plan: "in_plan pl (ev_worst_path (depth_first pl (visiting estimation_step) ctx new_estimation))"
  by (rule visit_invariant)
    (auto simp: new_estimation_def in_plan_def [of pl None] estimation_step_def Let_def in_plan_place
      split: option.split)

lemma remembered_points:
  "in_plan pl q \<Longrightarrow> affected_nodes f = (case q of Some p \<Rightarrow> [p] | None \<Rightarrow> []) \<Longrightarrow> points_into pl [f]"
  by (auto simp: points_into_single in_plan_def split: option.splits)

lemma root_points: "affected_nodes f = [root_path] \<Longrightarrow> points_into pl [f]"
  by (simp add: points_into_single)

lemma shape_points: "points_into pl (findings (plan_shape_analyze pl ctx))"
  unfolding plan_shape_analyze_def Let_def report_findings
  using root_points [OF shape_findings_placed(1)] remembered_points [OF dominant_in_plan shape_findings_placed(2)]
  by simp

lemma estimation_points: "points_into pl (findings (estimation_health_analyze pl ctx))"
  unfolding estimation_health_analyze_def estimation_findings_def Let_def report_findings
  using root_points [OF shape_findings_placed(7)] remembered_points [OF worst_in_plan shape_findings_placed(8)]
  by simp

lemma query_pattern_points: "points_into pl (findings (query_pattern_analyze c lowercase pl ctx))"
  using query_pattern.found_points [of new_query_pattern pl c lowercase ctx]
  by (simp add: query_pattern_analyze_def Let_def finding_simps points_into_single new_query_pattern_def)

lemma local_points:
  "points_into pl (findings (startup_cost_analyze lowercase pl ctx))"
  "points_into pl (findings (buffer_wal_analyze cfg pl ctx))"
  "points_into pl (findings (sort_memory_analyze lowercase pl ctx))"
  "points_into pl (findings (filter_efficiency_analyze pl ctx))"
  "points_into pl (findings (index_efficiency_analyze pl ctx))"
  "points_into pl (findings (row_estimation_analyze c pl ctx))"
  "points_into pl (findings (scan_analyze c pl ctx))"
  "points_into pl (findings (join_analyze c pl ctx))"
  "points_into pl (findings (parallelization_analyze c pl ctx))"
  "points_into pl (findings (index_usage_analyze lowercase pl ctx))"
  by (simp_all add: startup_cost_analyze_def buffer_wal_analyze_def sort_memory_analyze_def
      filter_efficiency_analyze_def index_efficiency_analyze_def row_estimation_analyze_def scan_analyze_def
      join_analyze_def parallelization_analyze_def index_usage_analyze_def Let_def finding_simps
      startup.found_points buffer_wal.found_points sort_memory.found_points filter_efficiency.found_points
      index_efficiency.found_points row_estimation.found_points scans.found_points joins.found_points
      parallel.found_points index_usage.found_points new_startup_cost_def new_buffer_wal_def new_sort_memory_def
      new_filter_efficiency_def new_index_efficiency_def new_row_estimation_def new_scan_analysis_def
      new_join_analysis_def new_parallelization_def new_index_usage_def)

definition sound_analyzer :: "Analyzer \<Rightarrow> bool" where
  "sound_analyzer a \<longleftrightarrow>
     (\<forall>pl ctx. supports_plan a pl \<and> (\<exists>r. analyze a pl ctx = Some r \<and> points_into pl (findings r)))"

lemma sound_as_analyzer: "(\<And>pl ctx. points_into pl (findings (f pl ctx))) \<Longrightarrow> sound_analyzer (as_analyzer n v f)"
  by (simp add: sound_analyzer_def as_analyzer_def)

lemma default_sound: "list_all sound_analyzer (default_analyzers lowercase)"
  unfolding default_analyzers_def Let_def list.pred_inject(2)
  by (intro conjI sound_as_analyzer local_points shape_points estimation_points query_pattern_points list.pred_inject(1))

lemma default_points:
  assumes "a \<in> set (default_analyzers lowercase)"
  shows "supports_plan a pl \<and> (\<exists>r. analyze a pl ctx = Some r \<and> points_into pl (findings r))"
  using default_sound assms by (auto simp: list_all_iff sound_analyzer_def)

lemma added_analyzers: "analyzers (foldl add_analyzer E as) = analyzers E @ as \<and> engine_config (foldl add_analyzer E as) = engine_config E"
  by (induction as arbitrary: E) (simp_all add: add_analyzer_def)

lemma default_engine: "analyzers (with_default_analyzers lowercase (engine_with_config c)) = default_analyzers lowercase"
  "engine_config (with_default_analyzers lowercase (engine_with_config c)) = c"
  by (simp_all add: with_default_analyzers_def added_analyzers engine_with_config_def)

text \<open>C17: an engine with the default analyzers never loses one of them except to its time limit, and every place
  named by any finding of the combined report is a node of the plan.\<close>

theorem default_findings_point_into_plan:
  "map is_success (analyzer_results (run_analyzers quote clock overall
       (with_default_analyzers lowercase (engine_with_config c)) pl ctx)) =
     map (\<lambda>i. clock i \<le> max_analyzer_duration c) [0..<12] \<and>
   points_into pl (all_findings (combined_result (run_analyzers quote clock overall
       (with_default_analyzers lowercase (engine_with_config c)) pl ctx)))"
proof -
  define E where "E = with_default_analyzers lowercase (engine_with_config c)"
  have as: "analyzers E = default_analyzers lowercase" and cfg: "engine_config E = c"
    by (simp_all add: E_def default_engine)
  have len: "length (default_analyzers lowercase) = 12" by (simp add: default_analyzers_def Let_def)
  have single: "is_success (run_single_analyzer E t a pl ctx) \<longleftrightarrow> t \<le> max_analyzer_duration c"
    if "a \<in> set (default_analyzers lowercase)" for t a
    using default_points [OF that, of pl ctx]
    by (auto simp: run_single_analyzer_def cfg error_result_def success_result_def is_success_def)
  have "map is_success (analyzer_results (run_analyzers quote clock overall E pl ctx)) =
      map (\<lambda>i. clock i \<le> max_analyzer_duration c) [0..<12]"
    by (rule nth_equalityI) (simp_all add: results_eq as len nth_enumerate_eq single)
  moreover have "points_into pl (findings r)"
    if "r \<in> set (reports (combined_result (run_analyzers quote clock overall E pl ctx)))" for r
  proof -
    from that obtain i a where a: "(i, a) \<in> set (List.enumerate 0 (default_analyzers lowercase))"
      and r: "report (run_single_analyzer E (clock i) a pl ctx) = Some r"
      by (auto simp: reports_eq results_eq as List.map_filter_def)
    from a have "a \<in> set (default_analyzers lowercase)" by (auto simp: in_set_enumerate_eq)
    from default_points [OF this, of pl ctx] r show ?thesis
      by (auto simp: run_single_analyzer_def error_result_def success_result_def split: if_splits)
  qed
  then have "points_into pl (all_findings (combined_result (run_analyzers quote clock overall E pl ctx)))"
    by (auto simp: all_findings_def points_into_def list_all_iff)
  ultimately show ?thesis unfolding E_def by blast
qed

end
