(* ===== verification/Analyzer_Measures.thy ===== *)
theory Analyzer_Measures
  imports Analyzers
begin

text \<open>
  What the analyzers measure: the numbers in their reports are those of the plan, whatever the order of
  the walk.
\<close>

section \<open>Depths\<close>

lemma place_depth: "y \<in> set (located x) \<Longrightarrow> length (path_of y) < length (path_of x) + max_depth (fst x)"
proof (rule ccontr)
  assume y: "y \<in> set (located x)" and "\<not> length (path_of y) < length (path_of x) + max_depth (fst x)"
  then obtain k where k: "length (path_of y) = length (path_of x) + k" "max_depth (fst x) \<le> k"
    by (metis add_le_cancel_left le_add1 le_iff_add linorder_not_less order_trans)
  then have "y \<in> set (level k [x])" using y by (simp add: level_located)
  then show False using level_ends [OF k(2)] by simp
qed

lemma deepest_place: "\<exists>y \<in> set (located x). length (path_of y) + 1 = length (path_of x) + max_depth (fst x)"
proof (induction x rule: place_induct)
  case (place x)
  show ?case
  proof (cases "max_depth (fst x) \<le> 1")
    case True
    then have "max_depth (fst x) = 1" using max_depth_pos [of "fst x"] by simp
    then show ?thesis by (auto simp: located_unfold [of x])
  next
    case False
    then obtain d where d: "max_depth (fst x) = Suc (Suc d)" by (metis One_nat_def Suc_le_mono Zero_not_Suc not0_implies_Suc le0)
    then have "\<not> max_depth (fst x) \<le> Suc d" by simp
    then obtain c where c: "c \<in> set (children (fst x))" "Suc d \<le> max_depth c"
      unfolding max_depth_le by (auto simp: not_le Suc_le_eq)
    moreover have "max_depth c \<le> Suc d" using d c(1) by (metis max_depth_le order_refl)
    ultimately have "max_depth c = Suc d" by simp
    moreover obtain z where z: "z \<in> set (kids x)" "fst z = c"
      using c(1) child_places_nodes [of "fst x" "snd x"] by (metis imageE list.set_map)
    moreover obtain y where "y \<in> set (located z)" "length (path_of y) + 1 = length (path_of z) + max_depth (fst z)"
      using place [OF z(1)] by blast
    ultimately show ?thesis using d child_path [OF z(1)] by (auto simp: located_unfold [of x])
  qed
qed

lemma fold_max_le:
  "fold (\<lambda>x m. max m (g x)) xs (m :: nat) \<le> b \<longleftrightarrow> m \<le> b \<and> (\<forall>x \<in> set xs. g x \<le> b)"
  by (induction xs arbitrary: m) auto

lemma visited_depth:
  assumes "\<And>s n p. g (f s n p ctx) = max (g s) (length (path_indices p))" and "g s = 0"
  shows "g (depth_first plan (visiting f) ctx s) = plan_max_depth plan - 1"
proof -
  have fold: "g (fold (\<lambda>x s. f s (fst x) (snd x) ctx) xs s) = fold (\<lambda>x m. max m (length (path_of x))) xs (g s)" for xs s
    by (induction xs arbitrary: s) (simp_all add: assms(1))
  let ?r = "(root plan, root_path)"
  have "g (depth_first plan (visiting f) ctx s) \<le> b \<longleftrightarrow> plan_max_depth plan - 1 \<le> b" for b
  proof -
    have "(\<forall>x \<in> set (located ?r). length (path_of x) \<le> b) \<longleftrightarrow> max_depth (root plan) - 1 \<le> b"
      using place_depth [of _ ?r] deepest_place [of ?r] by (fastforce simp: root_path_def)
    then show ?thesis by (simp add: visit_all fold fold_max_le assms(2) places_set plan_max_depth_def)
  qed
  then show ?thesis by (metis order_antisym order_refl)
qed

section \<open>The hotspot\<close>

lemma f_gt_raised: "f_gt y x \<Longrightarrow> \<not> f_gt z x \<Longrightarrow> \<not> f_gt z y"
  by (auto simp: f_gt_def f_lt_def)

lemma f_gt_irrefl: "\<not> f_gt x x" by (simp add: f_gt_def f_lt_def)

definition shape_seen :: "place list \<Rightarrow> PlanShapeVisitor \<Rightarrow> bool" where
  "shape_seen xs v \<longleftrightarrow>
     list_all (\<lambda>x. \<not> f_gt (self_cost (fst x)) (ps_max_self_cost v)) xs \<and>
     (case ps_dominant_path v of
        Some p \<Rightarrow> \<exists>n. (n, p) \<in> set xs \<and> self_cost n = ps_max_self_cost v \<and>
                       ps_dominant_description v = description n
      | None \<Rightarrow> ps_max_self_cost v = f_zero)"

lemma shape_seen_step:
  assumes "shape_seen xs v"
  shows "shape_seen (xs @ [x]) (plan_shape_step v (fst x) (snd x) ctx)"
proof (cases "f_gt (self_cost (fst x)) (ps_max_self_cost v)")
  case True
  then show ?thesis
    using assms f_gt_raised [OF True]
    by (cases x) (auto simp: shape_seen_def plan_shape_step_def Let_def f_gt_irrefl list_all_iff)
next
  case False
  then show ?thesis
    using assms by (auto simp: shape_seen_def plan_shape_step_def Let_def split: option.splits)
qed

lemma shape_seen_all: "shape_seen (places pl) (depth_first pl (visiting plan_shape_step) ctx new_plan_shape)"
proof -
  have "shape_seen ys v \<Longrightarrow> shape_seen (ys @ xs) (fold (\<lambda>x s. plan_shape_step s (fst x) (snd x) ctx) xs v)" for xs ys v
  proof (induction xs arbitrary: ys v)
    case (Cons x xs)
    then show ?case using Cons.IH [OF shape_seen_step [OF Cons.prems, of x ctx]] by simp
  qed simp
  from this [of "[]" new_plan_shape "places pl"] show ?thesis
    by (simp add: visit_all shape_seen_def new_plan_shape_def)
qed

lemma zero_bits: "f_pat f_zero = 0" "\<not> f_neg f_zero" "\<not> is_nan f_zero" "\<not> is_infinite f_zero" "f_val f_zero = 0"
proof -
  show p: "f_pat f_zero = 0" and n: "\<not> f_neg f_zero" using mk_f64_bits [of 0 False] by (simp_all add: f_zero_def)
  show "\<not> is_nan f_zero" "\<not> is_infinite f_zero" by (simp_all add: is_nan_def is_infinite_def p inf_pat_def)
  show "f_val f_zero = 0" by (simp add: f_val_def f_mag_def f_biased_def f_fraction_def p)
qed

lemma zero_fraction:
  assumes "f_gt y f_zero"
  shows "f_div f_zero y = f_zero"
proof -
  have y: "\<not> is_nan y" "\<not> f_neg y" "f_pat y \<noteq> 0"
    using assms zero_bits f_pat_nonneg [of y] by (auto simp: f_gt_def f_lt_def f_ord_def split: if_splits)
  have "round_f64 False 0 = f_zero" by (simp add: round_f64_def round_pat_def f_zero_def)
  then show ?thesis using y zero_bits by (simp add: f_div_def Let_def flip: f_zero_def)
qed

lemma dominance_positive: "\<not> f_ge f_zero DOMINANT_FRACTION_THRESHOLD"
  by code_simp

section \<open>The report of a plan's shape\<close>

abbreviation shape_visit :: "ParsedPlan \<Rightarrow> AnalysisContext \<Rightarrow> PlanShapeVisitor" where
  "shape_visit pl ctx \<equiv> depth_first pl (visiting plan_shape_step) ctx new_plan_shape"

lemma shape_step_counts:
  "ps_node_count (plan_shape_step s n p ctx) = ps_node_count s + 1"
  "ps_scan_count (plan_shape_step s n p ctx) = ps_scan_count s + (if is_scan n then 1 else 0)"
  "ps_join_count (plan_shape_step s n p ctx) = ps_join_count s + (if is_join n then 1 else 0)"
  "ps_max_depth (plan_shape_step s n p ctx) = max (ps_max_depth s) (length (path_indices p))"
  by (simp_all add: plan_shape_step_def Let_def)

lemma shape_counts:
  "ps_node_count (shape_visit pl ctx) = node_count pl"
  "ps_scan_count (shape_visit pl ctx) = length (collect_scans (root pl))"
  "ps_join_count (shape_visit pl ctx) = length (collect_joins (root pl))"
  "ps_max_depth (shape_visit pl ctx) = plan_max_depth pl - 1"
  unfolding node_count_def count_nodes_eq collect_scans_eq collect_joins_eq
  using visit_counts [of ps_node_count plan_shape_step ctx "\<lambda>_. True" pl new_plan_shape]
    visit_counts [of ps_scan_count plan_shape_step ctx is_scan pl new_plan_shape]
    visit_counts [of ps_join_count plan_shape_step ctx is_join pl new_plan_shape]
    visited_depth [of ps_max_depth plan_shape_step ctx new_plan_shape pl]
  by (simp_all add: shape_step_counts new_plan_shape_def)

lemma shape_hotspot: "list_all (\<lambda>n. \<not> f_gt (self_cost n) (ps_max_self_cost (shape_visit pl ctx))) (nodes (root pl))"
  using shape_seen_all [of pl ctx] unfolding shape_seen_def list_all_iff places_nodes_set [symmetric] by blast

lemma shape_metrics:
  "report_metrics (plan_shape_analyze pl ctx) ''most_expensive_self_cost'' = Some (ps_max_self_cost (shape_visit pl ctx))"
  "report_metrics (plan_shape_analyze pl ctx) ''node_count'' = Some (f_of_nat (ps_node_count (shape_visit pl ctx)))"
  "report_metrics (plan_shape_analyze pl ctx) ''max_depth'' = Some (f_of_nat (ps_max_depth (shape_visit pl ctx)))"
  "report_metrics (plan_shape_analyze pl ctx) ''scan_count'' = Some (f_of_nat (ps_scan_count (shape_visit pl ctx)))"
  "report_metrics (plan_shape_analyze pl ctx) ''join_count'' = Some (f_of_nat (ps_join_count (shape_visit pl ctx)))"
  unfolding plan_shape_analyze_def Let_def metrics_with by simp_all

text \<open>An operation that dominates was remembered with its place.\<close>

lemma dominant_remembered:
  assumes "f_gt y f_zero" and "f_ge (f_div (ps_max_self_cost (shape_visit pl ctx)) y) DOMINANT_FRACTION_THRESHOLD"
  shows "\<exists>n p. ps_dominant_path (shape_visit pl ctx) = Some p \<and> get_node_at_path pl (path_indices p) = Some n \<and>
     self_cost n = ps_max_self_cost (shape_visit pl ctx) \<and>
     ps_dominant_description (shape_visit pl ctx) = description n"
proof -
  have "ps_max_self_cost (shape_visit pl ctx) \<noteq> f_zero"
    using assms zero_fraction [OF assms(1)] dominance_positive by auto
  then obtain n p where "ps_dominant_path (shape_visit pl ctx) = Some p" "(n, p) \<in> set (places pl)"
    "self_cost n = ps_max_self_cost (shape_visit pl ctx)" "ps_dominant_description (shape_visit pl ctx) = description n"
    using shape_seen_all [of pl ctx] by (auto simp: shape_seen_def split: option.splits)
  then show ?thesis using place_in_plan [of "(n, p)" pl] by auto
qed

lemma dominance_findings:
  "filter (\<lambda>f. finding_type f = ExpensiveOperation) (findings (plan_shape_analyze pl ctx)) =
     (let v = shape_visit pl ctx; y = total_cost (cost (root pl));
          x = (if f_gt y f_zero then f_div (ps_max_self_cost v) y else f_zero)
      in if 2 \<le> ps_node_count v \<and> f_gt y MIN_PLAN_COST_FOR_DOMINANCE \<and> f_ge x DOMINANT_FRACTION_THRESHOLD
         then [dominant_node_finding v y x] else [])"
proof -
  have "finding_type (complex_shape_finding v) \<noteq> ExpensiveOperation" for v
    by (simp add: complex_shape_finding_def finding_at_parts)
  moreover have "finding_type (dominant_node_finding v y x) = ExpensiveOperation" for v y x
    by (simp add: dominant_node_finding_def finding_at_parts)
  ultimately show ?thesis
    unfolding plan_shape_analyze_def Let_def report_findings by simp
qed

text \<open>C21: the shape report measures the plan: nodes, scans and joins are those of the tree, the depth is that of
  the deepest node, no node costs more by itself than the reported maximum, and when one operation is said to
  dominate, the finding leads to a node of the plan whose own cost is that maximum and describes it.\<close>

theorem plan_shape_measures:
  "\<exists>M. report_metrics (plan_shape_analyze pl ctx) ''most_expensive_self_cost'' = Some M \<and>
     report_metrics (plan_shape_analyze pl ctx) ''node_count'' = Some (f_of_nat (node_count pl)) \<and>
     report_metrics (plan_shape_analyze pl ctx) ''max_depth'' = Some (f_of_nat (plan_max_depth pl - 1)) \<and>
     report_metrics (plan_shape_analyze pl ctx) ''scan_count'' = Some (f_of_nat (length (collect_scans (root pl)))) \<and>
     report_metrics (plan_shape_analyze pl ctx) ''join_count'' = Some (f_of_nat (length (collect_joins (root pl)))) \<and>
     list_all (\<lambda>n. \<not> f_gt (self_cost n) M) (nodes (root pl)) \<and>
     list_all (\<lambda>f. \<exists>n p. affected_nodes f = [p] \<and> get_node_at_path pl (path_indices p) = Some n \<and>
         self_cost n = M \<and> finding_metadata f ''dominant_node'' = Some (description n))
       (filter (\<lambda>f. finding_type f = ExpensiveOperation) (findings (plan_shape_analyze pl ctx)))"
proof -
  have "list_all (\<lambda>f. \<exists>n p. affected_nodes f = [p] \<and> get_node_at_path pl (path_indices p) = Some n \<and>
         self_cost n = ps_max_self_cost (shape_visit pl ctx) \<and> finding_metadata f ''dominant_node'' = Some (description n))
       (filter (\<lambda>f. finding_type f = ExpensiveOperation) (findings (plan_shape_analyze pl ctx)))"
    unfolding dominance_findings Let_def
    using dominant_remembered [of "total_cost (cost (root pl))" pl ctx] dominance_positive
    by (auto simp: shape_findings_placed(2) dominant_node_finding_def finding_at_maps finding_at_parts split: if_splits)
  then show ?thesis
    using shape_hotspot [of pl ctx] unfolding shape_metrics shape_counts by blast
qed

end
