(* ===== verification/Buffer_Facts.thy ===== *)
theory Buffer_Facts
  imports Analyzer_Measures
begin

text \<open>
  Buffers and WAL: the text PostgreSQL attaches to a node is read back as the counters it was printed
  from, and the counters of a plan, which are cumulative up the tree, are attributed once.
\<close>

section \<open>Printed counters\<close>

text \<open>How \<open>EXPLAIN (BUFFERS)\<close> prints its ten counters: a group per kind of buffer, with the counters that are not
  zero; a group ends with a comma when another follows. The analyzer has fields for six of them; the blocks dirtied
  and written, shared and local, are arguments here.\<close>

definition counter_words :: "(string \<times> u64) list \<Rightarrow> string list" where
  "counter_words kvs = map (\<lambda>(k, n). k @ ''='' @ u64_to_string n) (filter (\<lambda>(k, n). n \<noteq> 0) kvs)"

definition group_words :: "string \<Rightarrow> (string \<times> u64) list \<Rightarrow> string list" where
  "group_words g kvs = (if counter_words kvs = [] then [] else g # counter_words kvs)"

fun with_comma :: "string list \<Rightarrow> string list" where
  "with_comma [] = []"
| "with_comma [w] = [w @ '','']"
| "with_comma (w # ws) = w # with_comma ws"

fun join_groups :: "string list list \<Rightarrow> string list" where
  "join_groups [] = []"
| "join_groups [g] = g"
| "join_groups (g # gs) = with_comma g @ join_groups gs"

definition buffers_text :: "Buffers \<Rightarrow> u64 \<Rightarrow> u64 \<Rightarrow> u64 \<Rightarrow> u64 \<Rightarrow> string" where
  "buffers_text b dirtied written local_dirtied local_written =
     join '' '' (join_groups (filter (\<lambda>g. g \<noteq> [])
       [group_words ''shared''
          [(''hit'', shared_hit b), (''read'', shared_read b), (''dirtied'', dirtied), (''written'', written)],
        group_words ''local''
          [(''hit'', local_hit b), (''read'', local_read b), (''dirtied'', local_dirtied), (''written'', local_written)],
        group_words ''temp'' [(''read'', temp_read b), (''written'', temp_written b)]]))"

text \<open>Words without separators.\<close>

definition plain_word :: "string \<Rightarrow> bool" where
  "plain_word w \<longleftrightarrow> w \<noteq> [] \<and> CHR '' '' \<notin> set w \<and> CHR '','' \<notin> set w"

lemma split_char_append: "c \<notin> set w \<Longrightarrow> split_char c (w @ c # s) = w # split_char c s"
  by (induction w) auto

lemma split_char_none: "c \<notin> set w \<Longrightarrow> split_char c w = [w]"
  by (induction w) auto

lemma split_char_join: "ws \<noteq> [] \<Longrightarrow> list_all (\<lambda>w. c \<notin> set w) ws \<Longrightarrow> split_char c (join [c] ws) = ws"
proof (induction "[c]" ws rule: join.induct)
  case (3 s t ts)
  then show ?case by (simp add: split_char_append)
qed (simp_all add: split_char_none)

definition word_tokens :: "string list \<Rightarrow> string list" where
  "word_tokens ws = filter (\<lambda>t. t \<noteq> []) (concat (map (split_char CHR '','') ws))"

lemma word_tokens_append: "word_tokens (xs @ ys) = word_tokens xs @ word_tokens ys"
  by (simp add: word_tokens_def)

lemma word_tokens_plain: "list_all plain_word ws \<Longrightarrow> word_tokens ws = ws"
  by (induction ws) (simp_all add: word_tokens_def plain_word_def split_char_none)

lemma word_tokens_comma: "list_all plain_word ws \<Longrightarrow> word_tokens (with_comma ws) = ws"
proof (induction ws rule: with_comma.induct)
  case (2 w)
  then show ?case using split_char_append [of "CHR '',''" w "[]"] by (simp add: word_tokens_def plain_word_def)
next
  case (3 w v ws)
  then show ?case using word_tokens_append [of "[w]"] word_tokens_plain [of "[w]"] by simp
qed (simp add: word_tokens_def)

lemma with_comma_no_space: "list_all plain_word ws \<Longrightarrow> list_all (\<lambda>w. CHR '' '' \<notin> set w) (with_comma ws)"
  by (induction ws rule: with_comma.induct) (simp_all add: plain_word_def)

lemma joined_groups:
  assumes "list_all (list_all plain_word) gs"
  shows "word_tokens (join_groups gs) = concat gs \<and> list_all (\<lambda>w. CHR '' '' \<notin> set w) (join_groups gs)"
  using assms
proof (induction gs rule: join_groups.induct)
  case (2 g)
  then show ?case by (auto simp: word_tokens_plain list_all_iff plain_word_def)
next
  case (3 g h gs)
  then show ?case by (simp add: word_tokens_append word_tokens_comma with_comma_no_space)
qed (simp add: word_tokens_def)

lemma tokens_of_groups:
  assumes "list_all (list_all plain_word) gs"
  shows "buffers_tokens (join '' '' (join_groups gs)) = concat gs"
proof (cases "join_groups gs = []")
  case True
  then have "concat gs = []" using joined_groups [OF assms] by (simp add: word_tokens_def)
  then show ?thesis by (simp add: True buffers_tokens_def)
next
  case False
  then show ?thesis
    using joined_groups [OF assms] by (simp add: buffers_tokens_def split_char_join flip: word_tokens_def)
qed

text \<open>A printed number has digits only.\<close>

lemma digit_not_special: "d < 10 \<Longrightarrow> digit_char d \<notin> {CHR '' '', CHR '','', CHR ''=''}"
  using digit_val_digit_char [of d] by (auto simp: digit_val_def Let_def)

lemma number_plain: "set (nat_to_string n) \<inter> {CHR '' '', CHR '','', CHR ''=''} = {}"
proof (induction n rule: nat_to_string.induct)
  case (1 n)
  then show ?case
    using digit_not_special [of n] digit_not_special [of "n mod 10"]
    by (subst nat_to_string.simps) (auto split: if_splits)
qed

lemma parse_printed: "parse_u64 (u64_to_string w) = Some (unat w)"
  unfolding u64_to_string_def by (rule parse_u64_to_string) (rule order_less_le_trans [OF unsigned_less], simp)

lemma find_sub_single: "c \<notin> set k \<Longrightarrow> find_sub [c] (k @ c # s) = Some (length k)"
  by (induction k) (auto simp: starts_with_def)

lemma counter_token:
  assumes "CHR ''='' \<notin> set k"
  shows "buffers_token (g, b) (k @ CHR ''='' # u64_to_string w) = (g, set_counter g k w b)"
proof -
  have "t \<notin> {''shared'', ''local'', ''temp''}" if "CHR ''='' \<in> set t" for t using that by auto
  from this [of "k @ CHR ''='' # u64_to_string w"] show ?thesis
    using find_sub_single [OF assms, of "u64_to_string w"] by (simp add: buffers_token_def split_once_def parse_printed)
qed

definition apply_counters :: "string \<Rightarrow> (string \<times> u64) list \<Rightarrow> Buffers \<Rightarrow> Buffers" where
  "apply_counters g kvs b = foldl (\<lambda>b (k, n). set_counter g k n b) b (filter (\<lambda>(k, n). n \<noteq> 0) kvs)"

lemma counters_applied:
  assumes "list_all (\<lambda>(k, n). CHR ''='' \<notin> set k) kvs"
  shows "foldl buffers_token (g, b) (counter_words kvs) = (g, apply_counters g kvs b)"
  using assms by (induction kvs arbitrary: b) (auto simp: counter_words_def apply_counters_def counter_token)

lemma group_applied:
  assumes "g \<in> {''shared'', ''local'', ''temp''}" and "list_all (\<lambda>(k, n). CHR ''='' \<notin> set k) kvs"
  shows "snd (foldl buffers_token (h, b) (group_words g kvs)) = apply_counters g kvs b"
proof (cases "counter_words kvs = []")
  case True
  then show ?thesis by (auto simp: group_words_def apply_counters_def counter_words_def filter_empty_conv)
next
  case False
  then show ?thesis using assms counters_applied [OF assms(2), of g b] by (simp add: group_words_def buffers_token_def)
qed

lemma fold_groups:
  assumes "list_all (\<lambda>(g, kvs). g \<in> {''shared'', ''local'', ''temp''} \<and> list_all (\<lambda>(k, n). CHR ''='' \<notin> set k) kvs) gs"
  shows "snd (foldl buffers_token (h, b) (concat (map (\<lambda>(g, kvs). group_words g kvs) gs))) =
    foldl (\<lambda>b (g, kvs). apply_counters g kvs b) b gs"
  using assms
proof (induction gs arbitrary: h b)
  case (Cons x gs)
  obtain h' where "foldl buffers_token (h, b) (group_words (fst x) (snd x)) = (h', apply_counters (fst x) (snd x) b)"
    using Cons.prems group_applied [of "fst x" "snd x" h b] by (cases x) (auto simp: prod_eq_iff)
  then show ?case using Cons by (cases x) simp
qed simp

lemma plain_groups: "list_all plain_word (group_words g kvs)"
  if "plain_word g" and "list_all (\<lambda>(k, n). plain_word k) kvs"
proof -
  have "plain_word (k @ ''='' @ u64_to_string n)" if "plain_word k" for k n
    using that number_plain [of "unat n"] by (auto simp: plain_word_def u64_to_string_def)
  then show ?thesis using that by (auto simp: group_words_def counter_words_def list_all_iff)
qed

lemma plain_group_list:
  "list_all (\<lambda>(g, kvs). plain_word g \<and> list_all (\<lambda>(k, n). plain_word k) kvs) gs \<Longrightarrow>
     list_all (list_all plain_word) (map (\<lambda>(g, kvs). group_words g kvs) gs)"
  by (induction gs) (auto simp: plain_groups)

lemma list_all_filtered: "list_all P xs \<Longrightarrow> list_all P (filter Q xs)"
  by (simp add: list_all_iff)

lemma concat_nonempty: "concat (filter (\<lambda>g. g \<noteq> []) gs) = concat gs"
  by (induction gs) auto

lemma applied_groups:
  "apply_counters ''shared'' [(''hit'', h), (''read'', r), (''dirtied'', d), (''written'', w)] no_buffers =
     no_buffers\<lparr>shared_hit := h, shared_read := r\<rparr>"
  "local_hit c = 0 \<Longrightarrow> local_read c = 0 \<Longrightarrow>
     apply_counters ''local'' [(''hit'', h), (''read'', r), (''dirtied'', d), (''written'', w)] c =
       c\<lparr>local_hit := h, local_read := r\<rparr>"
  "temp_read c = 0 \<Longrightarrow> temp_written c = 0 \<Longrightarrow>
     apply_counters ''temp'' [(''read'', r), (''written'', w)] c = c\<lparr>temp_read := r, temp_written := w\<rparr>"
  by (simp_all add: apply_counters_def set_counter_def no_buffers_def)

lemma no_buffers_zero:
  "shared_hit no_buffers = 0" "shared_read no_buffers = 0" "local_hit no_buffers = 0" "local_read no_buffers = 0"
  "temp_read no_buffers = 0" "temp_written no_buffers = 0"
  by (simp_all add: no_buffers_def)

lemma applied_all:
  "apply_counters ''temp'' [(''read'', temp_read b), (''written'', temp_written b)]
     (apply_counters ''local''
       [(''hit'', local_hit b), (''read'', local_read b), (''dirtied'', ld), (''written'', lw)]
       (apply_counters ''shared''
         [(''hit'', shared_hit b), (''read'', shared_read b), (''dirtied'', d), (''written'', w)] no_buffers)) = b"
  by (rule Buffers.equality) (simp_all add: applied_groups no_buffers_zero)

text \<open>C30: the counters PostgreSQL prints for a node are read back exactly, whichever of them are zero and left
  out with their groups; the blocks dirtied and written, for which the analyzer has no field, change nothing.\<close>

theorem buffers_text_roundtrip: "parse_buffers (buffers_text b dirtied written local_dirtied local_written) = b"
proof -
  define gs where "gs =
     [(''shared'',
        [(''hit'', shared_hit b), (''read'', shared_read b), (''dirtied'', dirtied), (''written'', written)]),
      (''local'',
        [(''hit'', local_hit b), (''read'', local_read b), (''dirtied'', local_dirtied), (''written'', local_written)]),
      (''temp'', [(''read'', temp_read b), (''written'', temp_written b)])]"
  have "list_all (\<lambda>(g, kvs). plain_word g \<and> list_all (\<lambda>(k, n). plain_word k) kvs) gs"
    by (simp add: gs_def plain_word_def)
  then have "list_all (list_all plain_word) (map (\<lambda>(g, kvs). group_words g kvs) gs)"
    by (rule plain_group_list)
  then have "list_all (list_all plain_word) (filter (\<lambda>g. g \<noteq> []) (map (\<lambda>(g, kvs). group_words g kvs) gs))"
    by (rule list_all_filtered)
  from tokens_of_groups [OF this]
  have tokens: "buffers_tokens (buffers_text b dirtied written local_dirtied local_written) =
      concat (map (\<lambda>(g, kvs). group_words g kvs) gs)"
    unfolding concat_nonempty unfolding buffers_text_def gs_def list.map prod.case .
  have "list_all (\<lambda>(g, kvs). g \<in> {''shared'', ''local'', ''temp''} \<and> list_all (\<lambda>(k, n). CHR ''='' \<notin> set k) kvs) gs"
    by (simp add: gs_def)
  from fold_groups [OF this, of "[]" no_buffers]
  have "parse_buffers (buffers_text b dirtied written local_dirtied local_written) =
      foldl (\<lambda>b (g, kvs). apply_counters g kvs b) no_buffers gs"
    unfolding parse_buffers_def tokens .
  also have "\<dots> = b"
    unfolding gs_def by (simp only: foldl.simps prod.case applied_all)
  finally show ?thesis .
qed

section \<open>Attribution\<close>

text \<open>The counters of a node, none when it has no line.\<close>

definition io_of :: "PlanNode \<Rightarrow> Buffers" where
  "io_of n = (case node_buffers n of Some b \<Rightarrow> b | None \<Rightarrow> no_buffers)"

definition wal_of :: "PlanNode \<Rightarrow> u64" where
  "wal_of n = (case node_wal_bytes n of Some w \<Rightarrow> w | None \<Rightarrow> 0)"

text \<open>PostgreSQL's counters are cumulative: those of a node cover its children.\<close>

definition cumulative :: "PlanNode \<Rightarrow> bool" where
  "cumulative n \<longleftrightarrow>
     list_all (\<lambda>g. g (children_buffers n) \<le> g (io_of n)) [shared_read, local_read, temp_read, temp_written] \<and>
     sum_list (List.map_filter node_wal_bytes (children n)) \<le> wal_of n"

lemma children_sums:
  "shared_read (children_buffers n) = sum_list (map (\<lambda>c. shared_read (io_of c)) (children n))"
  "local_read (children_buffers n) = sum_list (map (\<lambda>c. local_read (io_of c)) (children n))"
  "temp_read (children_buffers n) = sum_list (map (\<lambda>c. temp_read (io_of c)) (children n))"
  "temp_written (children_buffers n) = sum_list (map (\<lambda>c. temp_written (io_of c)) (children n))"
proof -
  have sums: "shared_read (foldl add_buffers a (List.map_filter node_buffers cs)) = shared_read a + sum_list (map (\<lambda>c. shared_read (io_of c)) cs) \<and>
      local_read (foldl add_buffers a (List.map_filter node_buffers cs)) = local_read a + sum_list (map (\<lambda>c. local_read (io_of c)) cs) \<and>
      temp_read (foldl add_buffers a (List.map_filter node_buffers cs)) = temp_read a + sum_list (map (\<lambda>c. temp_read (io_of c)) cs) \<and>
      temp_written (foldl add_buffers a (List.map_filter node_buffers cs)) = temp_written a + sum_list (map (\<lambda>c. temp_written (io_of c)) cs)" for a cs
    by (induction cs arbitrary: a)
      (auto simp: List.map_filter_simps io_of_def no_buffers_def add_buffers_def split: option.split)
  show "shared_read (children_buffers n) = sum_list (map (\<lambda>c. shared_read (io_of c)) (children n))"
    and "local_read (children_buffers n) = sum_list (map (\<lambda>c. local_read (io_of c)) (children n))"
    and "temp_read (children_buffers n) = sum_list (map (\<lambda>c. temp_read (io_of c)) (children n))"
    and "temp_written (children_buffers n) = sum_list (map (\<lambda>c. temp_written (io_of c)) (children n))"
    by (simp_all add: children_buffers_def sums no_buffers_zero)
qed

lemma wal_sum: "sum_list (List.map_filter node_wal_bytes cs) = sum_list (map wal_of cs)"
  by (induction cs) (auto simp: List.map_filter_simps wal_of_def split: option.split)

text \<open>A quantity less that of the children, summed over a tree, is that of the root.\<close>

lemma telescope:
  fixes f :: "PlanNode \<Rightarrow> 'a :: ab_group_add"
  shows "sum_list (map (\<lambda>m. f m - sum_list (map f (children m))) (nodes n)) = f n"
proof (induction n)
  case (PlanNode nt c a cs ps t)
  let ?g = "\<lambda>m. f m - sum_list (map f (children m))"
  from PlanNode have "sum_list (map ?g (concat (map nodes cs))) = sum_list (map f cs)" by (induction cs) auto
  then show ?case by simp
qed

definition own_temp_of :: "PlanNode \<Rightarrow> u64" where
  "own_temp_of n = (case node_buffers n of Some nb \<Rightarrow> own_temp nb (children_buffers n) | None \<Rightarrow> 0)"

definition own_read_of :: "PlanNode \<Rightarrow> u64" where
  "own_read_of n = (case node_buffers n of Some nb \<Rightarrow> own_read nb (children_buffers n) | None \<Rightarrow> 0)"

definition own_wal_of :: "PlanNode \<Rightarrow> u64" where
  "own_wal_of n = (case node_wal_bytes n of Some nw \<Rightarrow> own_wal n nw | None \<Rightarrow> 0)"

lemma sat_sub_le: "b \<le> a \<Longrightarrow> sat_sub a b = a - b" by (simp add: sat_sub_def)

lemma own_cumulative:
  assumes "cumulative n"
  shows "own_temp_of n = (temp_read (io_of n) + temp_written (io_of n)) -
      sum_list (map (\<lambda>c. temp_read (io_of c) + temp_written (io_of c)) (children n))"
    and "own_read_of n = (shared_read (io_of n) + local_read (io_of n)) -
      sum_list (map (\<lambda>c. shared_read (io_of c) + local_read (io_of c)) (children n))"
    and "own_wal_of n = wal_of n - sum_list (map wal_of (children n))"
proof -
  have c: "shared_read (children_buffers n) \<le> shared_read (io_of n)" "local_read (children_buffers n) \<le> local_read (io_of n)"
    "temp_read (children_buffers n) \<le> temp_read (io_of n)" "temp_written (children_buffers n) \<le> temp_written (io_of n)"
    and w: "sum_list (map wal_of (children n)) \<le> wal_of n"
    using assms by (simp_all add: cumulative_def wal_sum)
  show "own_temp_of n = (temp_read (io_of n) + temp_written (io_of n)) -
      sum_list (map (\<lambda>c. temp_read (io_of c) + temp_written (io_of c)) (children n))"
    using c(3,4) unfolding children_sums
    by (cases "node_buffers n")
      (simp_all add: own_temp_of_def own_temp_def children_sums io_of_def [of n] no_buffers_zero sat_sub_le sum_list_addf)
  show "own_read_of n = (shared_read (io_of n) + local_read (io_of n)) -
      sum_list (map (\<lambda>c. shared_read (io_of c) + local_read (io_of c)) (children n))"
    using c(1,2) unfolding children_sums
    by (cases "node_buffers n")
      (simp_all add: own_read_of_def own_read_def children_sums io_of_def [of n] no_buffers_zero sat_sub_le sum_list_addf)
  show "own_wal_of n = wal_of n - sum_list (map wal_of (children n))"
    using w by (cases "node_wal_bytes n") (simp_all add: own_wal_of_def own_wal_def wal_of_def [of n] wal_sum sat_sub_le)
qed

lemma visit_sums:
  fixes c :: "'s \<Rightarrow> 'a :: ab_group_add"
  assumes "\<And>s n p. c (f s n p ctx) = c s + g n"
  shows "c (depth_first plan (visiting f) ctx s) = c s + sum_list (map g (nodes (root plan)))"
proof -
  have "c (fold (\<lambda>x s. f s (fst x) (snd x) ctx) xs s) = c s + sum_list (map g (map fst xs))" for xs s
    by (induction xs arbitrary: s) (simp_all add: assms add.assoc)
  moreover have "sum_list (map g (map fst (places plan))) = sum_list (map g (nodes (root plan)))"
    using places_nodes [of plan] by (metis mset_map sum_mset_sum_list)
  ultimately show ?thesis by (simp add: visit_all)
qed

abbreviation buffer_visit :: "BufferWalAnalyzer \<Rightarrow> ParsedPlan \<Rightarrow> AnalysisContext \<Rightarrow> BufferWalVisitor" where
  "buffer_visit cfg pl ctx \<equiv> depth_first pl (visiting (buffer_wal_step cfg)) ctx new_buffer_wal"

lemma buffer_totals:
  "bw_temp_blocks (buffer_visit cfg pl ctx) = sum_list (map own_temp_of (nodes (root pl)))"
  "bw_read_blocks (buffer_visit cfg pl ctx) = sum_list (map own_read_of (nodes (root pl)))"
  "bw_wal_bytes (buffer_visit cfg pl ctx) = sum_list (map own_wal_of (nodes (root pl)))"
  using visit_sums [of bw_temp_blocks "buffer_wal_step cfg" ctx own_temp_of pl new_buffer_wal]
    visit_sums [of bw_read_blocks "buffer_wal_step cfg" ctx own_read_of pl new_buffer_wal]
    visit_sums [of bw_wal_bytes "buffer_wal_step cfg" ctx own_wal_of pl new_buffer_wal]
  by (simp_all add: buffer_wal_step_def own_temp_of_def own_read_of_def own_wal_of_def new_buffer_wal_def)

lemma buffer_metrics:
  "report_metrics (buffer_wal_analyze cfg pl ctx) ''temp_blocks'' = Some (f_of_u64 (bw_temp_blocks (buffer_visit cfg pl ctx)))"
  "report_metrics (buffer_wal_analyze cfg pl ctx) ''shared_read_blocks'' = Some (f_of_u64 (bw_read_blocks (buffer_visit cfg pl ctx)))"
  "report_metrics (buffer_wal_analyze cfg pl ctx) ''wal_bytes'' = Some (f_of_u64 (bw_wal_bytes (buffer_visit cfg pl ctx)))"
  unfolding buffer_wal_analyze_def Let_def metrics_with by simp_all

text \<open>C18: I/O is attributed once. On a plan whose counters are cumulative, as PostgreSQL reports them, the
  contributions of the nodes add up to the counters of the root: no block and no byte of WAL is reported
  for two nodes or for none.\<close>

theorem io_attributed_once:
  assumes "list_all cumulative (nodes (root pl))"
  shows "report_metrics (buffer_wal_analyze cfg pl ctx) ''temp_blocks'' =
      Some (f_of_u64 (temp_read (io_of (root pl)) + temp_written (io_of (root pl)))) \<and>
    report_metrics (buffer_wal_analyze cfg pl ctx) ''shared_read_blocks'' =
      Some (f_of_u64 (shared_read (io_of (root pl)) + local_read (io_of (root pl)))) \<and>
    report_metrics (buffer_wal_analyze cfg pl ctx) ''wal_bytes'' = Some (f_of_u64 (wal_of (root pl)))"
proof -
  have own: "map own_temp_of (nodes (root pl)) = map (\<lambda>m. (temp_read (io_of m) + temp_written (io_of m)) -
        sum_list (map (\<lambda>c. temp_read (io_of c) + temp_written (io_of c)) (children m))) (nodes (root pl))"
    "map own_read_of (nodes (root pl)) = map (\<lambda>m. (shared_read (io_of m) + local_read (io_of m)) -
        sum_list (map (\<lambda>c. shared_read (io_of c) + local_read (io_of c)) (children m))) (nodes (root pl))"
    "map own_wal_of (nodes (root pl)) = map (\<lambda>m. wal_of m - sum_list (map wal_of (children m))) (nodes (root pl))"
    using assms own_cumulative by (simp_all add: list_all_iff)
  show ?thesis unfolding buffer_metrics buffer_totals own telescope by blast
qed

definition io_node :: "string \<Rightarrow> string \<Rightarrow> PlanNode list \<Rightarrow> PlanNode" where
  "io_node label buffers cs =
     PlanNode (UnknownNode label)
       \<lparr>startup_cost = f_zero, min_total_cost = f_zero, max_total_cost = f_zero, estimated_rows = 1, estimated_width = 1\<rparr>
       None cs (set_kv new_properties ''Buffers'' buffers) label"

definition sample_io :: PlanNode where
  "sample_io = io_node ''Hash'' ''shared hit=3 read=7, temp read=4 written=5''
     [io_node ''Scan'' ''shared hit=3 read=6'' []]"

lemma sample_cumulative: "list_all cumulative (nodes sample_io)"
  by code_simp

lemma sample_io_root:
  "temp_read (io_of sample_io) + temp_written (io_of sample_io) = 9"
  "shared_read (io_of sample_io) + local_read (io_of sample_io) = 7" "wal_of sample_io = 0"
  by code_simp+

theorem io_attributed_once_witness:
  "report_metrics (buffer_wal_analyze default_buffer_wal (new_plan sample_io) default_context) ''temp_blocks'' =
     Some (f_of_u64 9) \<and>
   report_metrics (buffer_wal_analyze default_buffer_wal (new_plan sample_io) default_context) ''shared_read_blocks'' =
     Some (f_of_u64 7)"
  using io_attributed_once [of "new_plan sample_io" default_buffer_wal default_context] sample_cumulative
  by (simp add: new_plan_def sample_io_root)

end
