(* ===== verification/Float_Order.thy ===== *)
theory Float_Order
  imports Float_Bounds
begin

text \<open>
  Rounding keeps the order, and a float rounds to itself: what is needed to compare the results of
  multiplications without evaluating them.
\<close>

lemma round_half_even_mono:
  assumes "y \<le> z"
  shows "round_half_even y \<le> round_half_even z"
proof (cases "\<lfloor>y\<rfloor> = \<lfloor>z\<rfloor>")
  case True
  then show ?thesis using assms by (auto simp: round_half_even_def Let_def)
next
  case False
  then have "\<lfloor>y\<rfloor> + 1 \<le> \<lfloor>z\<rfloor>" using floor_mono [OF assms] by simp
  moreover have "round_half_even y \<le> \<lfloor>y\<rfloor> + 1" "\<lfloor>z\<rfloor> \<le> round_half_even z"
    by (simp_all add: round_half_even_def Let_def)
  ultimately show ?thesis by linarith
qed

lemma round_half_even_int [simp]: "round_half_even (of_int m) = m"
  by (simp add: round_half_even_def)

lemma log2_rat_mono:
  assumes "0 < r" and "r \<le> r'"
  shows "log2_rat r \<le> log2_rat r'"
proof (rule ccontr)
  assume "\<not> log2_rat r \<le> log2_rat r'"
  then have "pow2 (log2_rat r' + 1) \<le> pow2 (log2_rat r)" by (intro pow2_mono) simp
  moreover have "pow2 (log2_rat r) \<le> r" "r' \<le> pow2 (log2_rat r' + 1)"
    using log2_rat_bounds [of r] log2_rat_bounds [of r'] assms by auto
  ultimately have "r = r'" using assms by linarith
  then show False using \<open>\<not> log2_rat r \<le> log2_rat r'\<close> by simp
qed

text \<open>The binade and the significand of a positive rational.\<close>

definition binade :: "rat \<Rightarrow> int" where "binade r = max 0 (log2_rat r + 1022)"
definition signif :: "rat \<Rightarrow> int" where "signif r = round_half_even (r * pow2 (1074 - binade r))"

lemma round_pat_parts: "0 < r \<Longrightarrow> round_pat r = min (binade r * 2 ^ 52 + signif r) inf_pat"
  by (simp add: round_pat_def binade_def signif_def Let_def)

lemma pow2_int: "0 \<le> k \<Longrightarrow> pow2 k = of_int (2 ^ nat k)" by (rule pow2_nat)

lemma signif_upper:
  assumes "0 < r"
  shows "signif r \<le> 2 ^ 53"
proof -
  have "r \<le> pow2 (log2_rat r + 1)" using log2_rat_bounds [OF assms] by simp
  also have "\<dots> \<le> pow2 (binade r - 1021)" by (intro pow2_mono) (simp add: binade_def)
  finally have "r * pow2 (1074 - binade r) \<le> pow2 (binade r - 1021) * pow2 (1074 - binade r)"
    by (simp add: mult_right_mono)
  also have "\<dots> = of_int (2 ^ 53)" using pow2_add [of "binade r - 1021" "1074 - binade r"] by (simp add: pow2_def)
  finally show ?thesis unfolding signif_def by (rule round_half_even_le)
qed

lemma signif_lower:
  assumes "0 < r" and "0 < binade r"
  shows "2 ^ 52 \<le> signif r"
proof -
  have "binade r = log2_rat r + 1022" using assms(2) by (simp add: binade_def)
  then have "pow2 (binade r - 1022) \<le> r" using log2_rat_bounds [OF assms(1)] by simp
  then have "pow2 (binade r - 1022) * pow2 (1074 - binade r) \<le> r * pow2 (1074 - binade r)"
    by (simp add: mult_right_mono)
  moreover have "pow2 (binade r - 1022) * pow2 (1074 - binade r) = of_int (2 ^ 52)"
    using pow2_add [of "binade r - 1022" "1074 - binade r"] by (simp add: pow2_def)
  ultimately show ?thesis unfolding signif_def by (intro round_half_even_ge) simp
qed

lemma signif_nonneg: "0 < r \<Longrightarrow> 0 \<le> signif r"
  unfolding signif_def by (rule round_half_even_ge) simp

lemma round_pat_nonneg: "0 \<le> r \<Longrightarrow> 0 \<le> round_pat r"
  using signif_nonneg [of r] round_pat_parts [of r]
  by (cases "r = 0") (auto simp: round_pat_def binade_def inf_pat_def)

lemma round_pat_mono:
  assumes "0 \<le> r" and "r \<le> r'"
  shows "round_pat r \<le> round_pat r'"
proof (cases "r = 0")
  case True
  then show ?thesis using round_pat_nonneg [of r'] assms by (simp add: round_pat_def)
next
  case False
  then have pos: "0 < r" "0 < r'" using assms by auto
  have le: "binade r \<le> binade r'" using log2_rat_mono [OF pos(1) assms(2)] by (simp add: binade_def)
  have "binade r * 2 ^ 52 + signif r \<le> binade r' * 2 ^ 52 + signif r'"
  proof (cases "binade r = binade r'")
    case True
    have "r * pow2 (1074 - binade r) \<le> r' * pow2 (1074 - binade r)" using assms(2) by (simp add: mult_right_mono)
    then show ?thesis using True by (simp add: signif_def round_half_even_mono)
  next
    case False
    then have "binade r + 1 \<le> binade r'" using le by simp
    moreover have "0 \<le> binade r" by (simp add: binade_def)
    ultimately show ?thesis using signif_upper [OF pos(1)] signif_lower [OF pos(2)] by simp
  qed
  then show ?thesis using pos by (simp add: round_pat_parts)
qed

section \<open>A float rounds to itself\<close>

lemma pow2_shift: "pow2 a * pow2 b = pow2 (a + b)" by (simp add: pow2_add)

lemma pow2_nonzero [simp]: "pow2 k \<noteq> 0" using pow2_pos [of k] by (rule less_imp_neq [symmetric])

lemma pow2_52: "pow2 (k - 52) * 4503599627370496 = pow2 k" "4503599627370496 * pow2 (k - 52) = pow2 k"
  using pow2_add [of "k - 52" 52] by (simp_all add: pow2_def [of 52])

lemma pow2_inj_le: "pow2 a \<le> pow2 b \<longleftrightarrow> a \<le> b"
proof
  assume "pow2 a \<le> pow2 b"
  then show "a \<le> b" unfolding pow2_powi using power_int_strict_increasing [of b a "2 :: rat"] by (cases "a \<le> b") auto
qed (rule pow2_mono)

lemma round_scaled:
  assumes q: "0 < q" "q \<le> 2 ^ 53" and s: "0 \<le> s" "s = 0 \<or> 2 ^ 52 \<le> q"
  shows "round_pat (of_int q * pow2 (s - 1074)) = min (s * 2 ^ 52 + q) inf_pat"
proof -
  define r where "r = of_int q * pow2 (s - 1074)"
  have pos: "0 < r" using q by (simp add: r_def)
  have up: "r \<le> pow2 (s - 1021)"
  proof -
    have "(of_int q :: rat) \<le> of_int (2 ^ 53)" using q by (simp only: of_int_le_iff)
    then have "r \<le> pow2 53 * pow2 (s - 1074)" by (simp add: r_def pow2_nat mult_right_mono)
    then show ?thesis by (simp add: pow2_shift)
  qed
  have lo: "pow2 (s - 1022) \<le> r" if "s \<noteq> 0"
  proof -
    have "(of_int (2 ^ 52) :: rat) \<le> of_int q" using s that by (simp only: of_int_le_iff) simp
    then have "pow2 52 * pow2 (s - 1074) \<le> r" by (simp add: r_def pow2_nat mult_right_mono)
    then show ?thesis by (simp add: pow2_shift)
  qed
  have sig: "signif r = round_half_even (of_int q * pow2 (s - binade r))"
    by (simp add: signif_def r_def mult.assoc pow2_shift)
  have upper: "r \<le> pow2 (binade r - 1021)"
  proof -
    have "r \<le> pow2 (log2_rat r + 1)" using log2_rat_bounds [OF pos] by simp
    also have "\<dots> \<le> pow2 (binade r - 1021)" by (intro pow2_mono) (simp add: binade_def)
    finally show ?thesis .
  qed
  have "binade r * 2 ^ 52 + signif r = s * 2 ^ 52 + q"
  proof (cases "binade r" s rule: linorder_cases)
    case equal
    then show ?thesis using sig by simp
  next
    case less
    then have "s \<noteq> 0" using s by (auto simp: binade_def)
    with lo upper have "pow2 (s - 1022) \<le> pow2 (binade r - 1021)" by (meson order_trans)
    then have b: "binade r = s - 1" using less by (simp add: pow2_inj_le)
    then have "r = pow2 (s - 1022)" using lo [OF \<open>s \<noteq> 0\<close>] upper by simp
    then have "pow2 52 * pow2 (s - 1074) = of_int q * pow2 (s - 1074)" by (simp add: r_def pow2_shift)
    then have "q = 2 ^ 52" by (simp add: pow2_nat)
    then have "of_int q * pow2 (s - binade r) = of_int (2 ^ 53)" by (simp add: b pow2_def)
    then have "signif r = 2 ^ 53" unfolding sig by (simp only: round_half_even_int)
    then show ?thesis using \<open>q = 2 ^ 52\<close> by (simp add: b)
  next
    case greater
    then have "binade r = log2_rat r + 1022" using s by (simp add: binade_def)
    then have "pow2 (binade r - 1022) \<le> r" using log2_rat_bounds [OF pos] by simp
    with up have "pow2 (binade r - 1022) \<le> pow2 (s - 1021)" by (meson order_trans)
    then have b: "binade r = s + 1" using greater by (simp add: pow2_inj_le)
    then have "r = pow2 (s - 1021)" using \<open>pow2 (binade r - 1022) \<le> r\<close> up by simp
    then have "pow2 53 * pow2 (s - 1074) = of_int q * pow2 (s - 1074)" by (simp add: r_def pow2_shift)
    then have "q = 2 ^ 53" by (simp add: pow2_nat)
    then have "of_int q * pow2 (s - binade r) = of_int (2 ^ 52)" by (simp add: b pow2_def)
    then have "signif r = 2 ^ 52" unfolding sig by (simp only: round_half_even_int)
    then show ?thesis using \<open>q = 2 ^ 53\<close> by (simp add: b)
  qed
  then show ?thesis using round_pat_parts [OF pos] by (simp add: r_def)
qed

text \<open>A normal pattern scaled by a power of two.\<close>

lemma normal_parts:
  assumes "2 ^ 52 \<le> p"
  obtains s q where "p = s * 2 ^ 52 + q" "0 \<le> s" "2 ^ 52 \<le> q" "q < 2 ^ 53" "s = p div 2 ^ 52 - 1"
    "pat_mag p = of_int q * pow2 (s - 1074)"
proof
  let ?s = "p div 2 ^ 52 - 1" and ?q = "2 ^ 52 + p mod 2 ^ 52"
  show p: "p = ?s * 2 ^ 52 + ?q" using div_mult_mod_eq [of p "2 ^ 52"] by simp
  show s: "0 \<le> ?s" using assms zdiv_mono1 [of "2 ^ 52" p "2 ^ 52"] by simp
  show q: "2 ^ 52 \<le> ?q" "?q < 2 ^ 53" by simp_all
  show "?s = p div 2 ^ 52 - 1" by simp
  have "pat_mag (?s * 2 ^ 52 + ?q) = of_int ?q * pow2 (?s - 1074)"
    by (rule pat_mag_scaled) (use s q in simp_all)
  then show "pat_mag p = of_int ?q * pow2 (?s - 1074)" using p by simp
qed

lemma round_times_pow2:
  assumes "2 ^ 52 \<le> p" and "0 \<le> p div 2 ^ 52 - 1 + k"
  shows "round_pat (pat_mag p * pow2 k) = min (p + k * 2 ^ 52) inf_pat"
proof -
  obtain s q where p: "p = s * 2 ^ 52 + q" "0 \<le> s" "2 ^ 52 \<le> q" "q < 2 ^ 53" "s = p div 2 ^ 52 - 1"
    "pat_mag p = of_int q * pow2 (s - 1074)"
    using normal_parts [OF assms(1)] .
  have "pat_mag p * pow2 k = of_int q * pow2 (s + k - 1074)"
    unfolding p(6) mult.assoc pow2_shift by (simp add: algebra_simps)
  moreover have "0 \<le> s + k" using p(5) assms(2) by simp
  ultimately have "round_pat (pat_mag p * pow2 k) = min ((s + k) * 2 ^ 52 + q) inf_pat"
    using round_scaled [of q "s + k"] p(3,4) by simp
  moreover have "(s + k) * 2 ^ 52 + q = (s * 2 ^ 52 + q) + k * 2 ^ 52" by (simp add: algebra_simps)
  ultimately show ?thesis unfolding p(1) [symmetric] by simp
qed

lemma round_normal: "2 ^ 52 \<le> p \<Longrightarrow> p \<le> inf_pat \<Longrightarrow> round_pat (pat_mag p) = p"
  using round_times_pow2 [of p 0] zdiv_mono1 [of "2 ^ 52" p "2 ^ 52"] by simp

lemma pat_mag_mono:
  assumes "2 ^ 52 \<le> p" and "p \<le> p'" and "p' \<le> inf_pat"
  shows "pat_mag p \<le> pat_mag p'"
proof (rule ccontr)
  assume less: "\<not> pat_mag p \<le> pat_mag p'"
  have "0 \<le> pat_mag p'" by (simp add: pat_mag_def)
  then have "round_pat (pat_mag p') \<le> round_pat (pat_mag p)" using less by (intro round_pat_mono) simp_all
  then have "p' \<le> p" using assms by (simp add: round_normal)
  then show False using assms(2) less by simp
qed

section \<open>Magnitudes between powers of two\<close>

definition scale :: "int \<Rightarrow> int \<Rightarrow> f64 \<Rightarrow> bool" where
  "scale i j x \<longleftrightarrow> \<not> f_neg x \<and> (i + 1023) * 2 ^ 52 \<le> f_pat x \<and> f_pat x \<le> (j + 1023) * 2 ^ 52"

lemma pat_mag_pow2: "- 1022 \<le> k \<Longrightarrow> pat_mag ((k + 1023) * 2 ^ 52) = pow2 k"
  using pat_mag_scaled [of "k + 1022" "2 ^ 52"] by (simp add: algebra_simps pow2_52)

lemma round_pow2:
  assumes "- 1022 \<le> k" and "k \<le> 1023"
  shows "round_pat (pow2 k) = (k + 1023) * 2 ^ 52"
proof -
  have "pow2 k = of_int (2 ^ 52) * pow2 (k + 1022 - 1074)" by (simp add: pow2_52)
  then show ?thesis using round_scaled [of "2 ^ 52" "k + 1022"] assms by (simp add: inf_pat_def algebra_simps)
qed

lemma pat_mag_times:
  assumes "2 ^ 52 \<le> p" and "0 \<le> p div 2 ^ 52 - 1 + k"
  shows "pat_mag (p + k * 2 ^ 52) = pat_mag p * pow2 k"
proof -
  obtain s q where p: "p = s * 2 ^ 52 + q" "0 \<le> s" "2 ^ 52 \<le> q" "q < 2 ^ 53" "s = p div 2 ^ 52 - 1"
    "pat_mag p = of_int q * pow2 (s - 1074)"
    using normal_parts [OF assms(1)] .
  have e: "p + k * 2 ^ 52 = (s + k) * 2 ^ 52 + q" using p(1) by (simp add: algebra_simps)
  have "0 \<le> s + k" using p(5) assms(2) by simp
  then have "pat_mag (p + k * 2 ^ 52) = of_int q * pow2 (s + k - 1074)"
    unfolding e by (rule pat_mag_scaled) (use p(3,4) in simp_all)
  then show ?thesis unfolding p(6) mult.assoc pow2_shift by (simp add: algebra_simps)
qed

lemma scale_facts:
  assumes "scale i j x" and "- 1022 \<le> i" and "j \<le> 1023"
  shows "\<not> is_nan x" "\<not> is_infinite x" "\<not> f_neg x" "f_val x = pat_mag (f_pat x)" "f_mag x = pat_mag (f_pat x)"
    "pow2 i \<le> f_val x" "f_val x \<le> pow2 j" "2 ^ 52 \<le> f_pat x" "f_pat x < inf_pat"
proof -
  have b: "(i + 1023) * 2 ^ 52 \<le> f_pat x" "f_pat x \<le> (j + 1023) * 2 ^ 52" and n: "\<not> f_neg x"
    using assms(1) by (simp_all add: scale_def)
  have l: "2 ^ 52 \<le> (i + 1023) * 2 ^ 52" and u: "(j + 1023) * 2 ^ 52 < inf_pat"
    using assms(2,3) by (simp_all add: inf_pat_def)
  show "2 ^ 52 \<le> f_pat x" "f_pat x < inf_pat" using l u b by linarith+
  then show "\<not> is_nan x" "\<not> is_infinite x" by (simp_all add: is_nan_def is_infinite_def)
  show "\<not> f_neg x" by (rule n)
  show v: "f_val x = pat_mag (f_pat x)" and "f_mag x = pat_mag (f_pat x)" using n by (simp_all add: f_val_def f_mag_pat)
  have ij: "i \<le> j" using b by simp
  show "pow2 i \<le> f_val x"
    using pat_mag_mono [OF l b(1)] \<open>f_pat x < inf_pat\<close> pat_mag_pow2 [of i] assms(2) by (simp add: v)
  show "f_val x \<le> pow2 j"
    using pat_mag_mono [OF \<open>2 ^ 52 \<le> f_pat x\<close> b(2)] u pat_mag_pow2 [of j] assms(2) ij by (simp add: v)
qed

lemma scale_round:
  assumes "pow2 i \<le> r" and "r \<le> pow2 j" and "- 1022 \<le> i" and "j \<le> 1023"
  shows "scale i j (round_f64 False r)" and "f_pat (round_f64 False r) = round_pat r"
proof -
  have ij: "i \<le> j" using assms(1,2) by (simp add: pow2_inj_le [symmetric])
  have r: "0 \<le> r" using assms(1) pow2_pos [of i] by linarith
  have "round_pat (pow2 i) \<le> round_pat r" "round_pat r \<le> round_pat (pow2 j)"
    using assms(1,2) r by (simp_all add: round_pat_mono)
  then have b: "(i + 1023) * 2 ^ 52 \<le> round_pat r" "round_pat r \<le> (j + 1023) * 2 ^ 52"
    using assms(3,4) ij by (simp_all add: round_pow2)
  have "round_pat r \<le> inf_pat" using b(2) assms(4) by (simp add: inf_pat_def)
  then have "round_pat r < 2 ^ 63" by (simp add: inf_pat_def)
  note bits = mk_f64_bits [OF round_pat_nonneg [OF r] this, of False]
  show "f_pat (round_f64 False r) = round_pat r" using r bits by (simp add: round_f64_def)
  then show "scale i j (round_f64 False r)" using r bits b by (simp add: scale_def round_f64_def)
qed

lemma scale_mul:
  assumes x: "scale i j x" "- 1022 \<le> i" "j \<le> 1023" and y: "scale k l y" "- 1022 \<le> k" "l \<le> 1023"
    and ik: "- 1022 \<le> i + k" and jl: "j + l \<le> 1023"
  shows "scale (i + k) (j + l) (f_mul x y)"
    and "f_pat x + k * 2 ^ 52 \<le> f_pat (f_mul x y)" and "f_pat (f_mul x y) \<le> f_pat x + l * 2 ^ 52"
proof -
  note fx = scale_facts [OF x] and fy = scale_facts [OF y]
  have m: "f_mul x y = round_f64 False (f_val x * f_val y)" using fx(1-3) fy(1-3) by (simp add: f_mul_def)
  have pos: "0 \<le> f_val x" "0 \<le> f_val y" using fx(6) fy(6) pow2_pos [of i] pow2_pos [of k] by linarith+
  have lo: "pow2 (i + k) \<le> f_val x * f_val y"
    unfolding pow2_add using fx(6) fy(6) pos by (intro mult_mono) simp_all
  have up: "f_val x * f_val y \<le> pow2 (j + l)"
    unfolding pow2_add using fx(7) fy(7) pos by (intro mult_mono) simp_all
  show "scale (i + k) (j + l) (f_mul x y)" unfolding m by (rule scale_round [OF lo up ik jl])
  have p: "f_pat (f_mul x y) = round_pat (f_val x * f_val y)" unfolding m by (rule scale_round [OF lo up ik jl])
  have b: "(i + 1023) * 2 ^ 52 \<le> f_pat x" "f_pat x \<le> (j + 1023) * 2 ^ 52" using x(1) by (simp_all add: scale_def)
  have d: "i + 1023 \<le> f_pat x div 2 ^ 52" using zdiv_mono1 [OF b(1), of "2 ^ 52"] by simp
  have kl: "k \<le> l" using fy(6,7) by (simp add: pow2_inj_le [symmetric])
  have "round_pat (f_val x * pow2 k) \<le> round_pat (f_val x * f_val y)"
    using fy(6) pos by (intro round_pat_mono) (simp_all add: mult_left_mono)
  moreover have "round_pat (f_val x * pow2 k) = min (f_pat x + k * 2 ^ 52) inf_pat"
    unfolding fx(4) by (rule round_times_pow2) (use fx(8) d ik in simp_all)
  moreover have "f_pat x + k * 2 ^ 52 \<le> (j + l + 1023) * 2 ^ 52" using b(2) kl by (simp add: algebra_simps)
  then have "f_pat x + k * 2 ^ 52 \<le> inf_pat" using jl by (simp add: inf_pat_def)
  ultimately show "f_pat x + k * 2 ^ 52 \<le> f_pat (f_mul x y)" by (simp add: p)
  have "round_pat (f_val x * f_val y) \<le> round_pat (f_val x * pow2 l)"
    using fy(7) pos by (intro round_pat_mono) (simp_all add: mult_left_mono)
  moreover have "round_pat (f_val x * pow2 l) = min (f_pat x + l * 2 ^ 52) inf_pat"
    unfolding fx(4) by (rule round_times_pow2) (use fx(8) d ik kl in simp_all)
  ultimately show "f_pat (f_mul x y) \<le> f_pat x + l * 2 ^ 52" by (simp add: p)
qed

lemma scale_wider: "scale i j x \<Longrightarrow> i' \<le> i \<Longrightarrow> j \<le> j' \<Longrightarrow> scale i' j' x"
proof -
  assume "scale i j x" "i' \<le> i" "j \<le> j'"
  moreover have "(i' + 1023) * 2 ^ 52 \<le> (i + 1023) * 2 ^ 52" "(j + 1023) * 2 ^ 52 \<le> (j' + 1023) * 2 ^ 52"
    using \<open>i' \<le> i\<close> \<open>j \<le> j'\<close> by simp_all
  ultimately show ?thesis unfolding scale_def by linarith
qed

lemma scale_less:
  assumes "scale i j x" "scale k l y" "- 1022 \<le> i" "j \<le> 1023" "- 1022 \<le> k" "l \<le> 1023" "f_pat x < f_pat y"
  shows "f_lt x y"
  using scale_facts [OF assms(1,3,4)] scale_facts [OF assms(2,5,6)] assms(7) by (simp add: f_lt_def f_ord_def)

end
