(* ===== verification/Threshold_Facts.thy ===== *)
theory Threshold_Facts
  imports Float_Order Analysis_Config
begin

text \<open>
  The thresholds of every workload rise from level to level, so that a classification tells the levels
  apart, and a larger value is never classified lower.
\<close>

definition rising :: "('a \<Rightarrow> 'a \<Rightarrow> bool) \<Rightarrow> 'a ThresholdLevels \<Rightarrow> bool" where
  "rising lt L \<longleftrightarrow>
     lt (low_level L) (medium_level L) \<and> lt (medium_level L) (high_level L) \<and> lt (high_level L) (critical_level L)"

section \<open>Literals\<close>

lemma scale_lit: "pow2 i \<le> of_int n \<Longrightarrow> of_int n \<le> pow2 j \<Longrightarrow> - 1022 \<le> i \<Longrightarrow> j \<le> 1023 \<Longrightarrow> scale i j (f_lit n)"
proof -
  assume a: "pow2 i \<le> of_int n" "of_int n \<le> pow2 j" "- 1022 \<le> i" "j \<le> 1023"
  then have "0 < (of_int n :: rat)" using pow2_pos [of i] by linarith
  then have "\<not> n < 0" by simp
  then show ?thesis using scale_round(1) [OF a] by (simp add: f_of_int_def)
qed

lemma scale_literals:
  "scale (- 4) (- 3) (f_dec 1 1)" "scale 0 0 (f_lit 1)" "scale 3 4 (f_lit 10)" "scale 6 7 (f_lit 100)"
  "scale 1 1 (f_lit 2)" "scale 2 3 (f_lit 5)" "scale 13 14 (f_lit 10000)" "scale 9 10 (f_lit 1000)"
  "scale 19 20 (f_lit 1000000)" "scale 16 17 (f_lit 100000)" "scale 18 19 (f_lit 500000)"
  "scale 15 16 (f_lit 50000)" "scale 12 13 (f_lit 5000)"
  unfolding f_dec_def by (rule scale_lit scale_round; simp add: pow2_def)+

section \<open>Scaling a base\<close>

lemma base_levels:
  assumes "scale i j b" and "- 1000 \<le> i" and "j \<le> 1000"
  shows "scale (i - 4) (j + 7) (f_mul b (f_dec 1 1))" "f_pat (f_mul b (f_dec 1 1)) \<le> f_pat b - 3 * 2 ^ 52"
    "scale (i - 4) (j + 7) (f_mul b (f_lit 10))" "f_pat b + 3 * 2 ^ 52 \<le> f_pat (f_mul b (f_lit 10))"
    "f_pat (f_mul b (f_lit 10)) \<le> f_pat b + 4 * 2 ^ 52"
    "scale (i - 4) (j + 7) (f_mul b (f_lit 100))" "f_pat b + 6 * 2 ^ 52 \<le> f_pat (f_mul b (f_lit 100))"
proof -
  have b: "scale i j b" "- 1022 \<le> i" "j \<le> 1023" using assms by simp_all
  note l = scale_mul [OF b scale_literals(1)] scale_mul [OF b scale_literals(3)] scale_mul [OF b scale_literals(4)]
  show "scale (i - 4) (j + 7) (f_mul b (f_dec 1 1))" "scale (i - 4) (j + 7) (f_mul b (f_lit 10))"
    "scale (i - 4) (j + 7) (f_mul b (f_lit 100))"
    using l(1,4,7) assms(2,3) by (auto elim!: scale_wider)
  show "f_pat (f_mul b (f_dec 1 1)) \<le> f_pat b - 3 * 2 ^ 52" "f_pat b + 3 * 2 ^ 52 \<le> f_pat (f_mul b (f_lit 10))"
    "f_pat (f_mul b (f_lit 10)) \<le> f_pat b + 4 * 2 ^ 52" "f_pat b + 6 * 2 ^ 52 \<le> f_pat (f_mul b (f_lit 100))"
    using l(3,5,6,8) assms(2,3) by simp_all
qed

lemma scaled_rising:
  assumes "scale i j b" and "- 1000 \<le> i" and "j \<le> 1000"
  shows "rising f_lt (scaled_levels b)"
proof -
  note l = base_levels [OF assms]
  have w: "scale (i - 4) (j + 7) b" using assms(1) by (rule scale_wider) simp_all
  have lt: "f_lt x y" if "scale (i - 4) (j + 7) x" "scale (i - 4) (j + 7) y" "f_pat x < f_pat y" for x y
    using scale_less [OF that(1,2) _ _ _ _ that(3)] assms(2,3) by simp
  have "f_pat (f_mul b (f_dec 1 1)) < f_pat b" "f_pat b < f_pat (f_mul b (f_lit 10))"
    "f_pat (f_mul b (f_lit 10)) < f_pat (f_mul b (f_lit 100))"
    using l(2,4,5,7) by simp_all
  then show ?thesis unfolding rising_def scaled_levels_def ThresholdLevels.simps
    by (intro conjI lt l(1,3,6) w)
qed

text \<open>Casting to an integer keeps the levels apart once the base is at least \<open>2 ^ 4\<close>.\<close>

lemma cast_less:
  assumes x: "scale i j x" and y: "scale k l y" and b: "- 1000 \<le> i" "j \<le> 60" "4 \<le> k" "l \<le> 60"
    and p: "f_pat x \<le> f_pat y - 2 * 2 ^ 52"
  shows "f_to_u64 x < f_to_u64 y"
proof -
  have fx: "\<not> is_nan x" "\<not> is_infinite x" "\<not> f_neg x" "f_mag x = pat_mag (f_pat x)" "2 ^ 52 \<le> f_pat x"
    using scale_facts [OF x] b by simp_all
  have fy: "\<not> is_nan y" "\<not> is_infinite y" "\<not> f_neg y" "f_mag y = pat_mag (f_pat y)" "2 ^ 52 \<le> f_pat y" "f_pat y < inf_pat"
    and val: "pow2 k \<le> f_val y" "f_val y \<le> pow2 l"
    using scale_facts [OF y] b by simp_all
  have "f_val y = f_mag y" using fy by (simp add: f_val_def)
  moreover have "pow2 4 \<le> pow2 k" "pow2 l \<le> pow2 60" using b by (simp_all add: pow2_inj_le)
  ultimately have m: "16 \<le> f_mag y" "f_mag y \<le> 2 ^ 60" using val by (simp_all add: pow2_def)
  have "(4 + 1023) * 2 ^ 52 \<le> (k + 1023) * 2 ^ 52" using b by simp
  then have "1027 \<le> f_pat y div 2 ^ 52" using y zdiv_mono1 [of "1027 * 2 ^ 52" "f_pat y" "2 ^ 52"] by (simp add: scale_def)
  then have "pat_mag (f_pat y + (- 2) * 2 ^ 52) = pat_mag (f_pat y) * pow2 (- 2)"
    using fy(5) by (intro pat_mag_times) simp_all
  moreover have "pat_mag (f_pat x) \<le> pat_mag (f_pat y - 2 * 2 ^ 52)"
    using p fx(5) fy(6) by (intro pat_mag_mono) simp_all
  ultimately have "f_mag x \<le> f_mag y * pow2 (- 2)" using fx(4) fy(4) by simp
  then have "f_mag x + 1 \<le> f_mag y" using m(1) by (simp add: pow2_def)
  then have less: "\<lfloor>f_mag x\<rfloor> < \<lfloor>f_mag y\<rfloor>" by linarith
  have top: "\<lfloor>f_mag y\<rfloor> \<le> u64_max" using m(2) floor_mono [OF m(2)] by (simp add: u64_max_def)
  moreover have "0 < \<lfloor>f_mag y\<rfloor>" using m(1) by linarith
  ultimately show ?thesis using less fx fy by (simp add: f_to_u64_def)
qed

lemma rows_rising:
  assumes "scale i j b" and "7 \<le> i" and "j \<le> 50"
  shows "rising (<) (row_levels b)"
proof -
  have r: "- 1000 \<le> i" "j \<le> 1000" using assms(2,3) by simp_all
  note l = base_levels [OF assms(1) r]
  have h: "scale (i + 3) (j + 4) (f_mul b (f_lit 10))" "scale (i + 6) (j + 7) (f_mul b (f_lit 100))"
    using scale_mul(1) [OF assms(1) _ _ scale_literals(3)] scale_mul(1) [OF assms(1) _ _ scale_literals(4)] assms(2,3)
    by simp_all
  have "f_pat (f_mul b (f_dec 1 1)) \<le> f_pat b - 2 * 2 ^ 52"
    "f_pat b \<le> f_pat (f_mul b (f_lit 10)) - 2 * 2 ^ 52"
    "f_pat (f_mul b (f_lit 10)) \<le> f_pat (f_mul b (f_lit 100)) - 2 * 2 ^ 52"
    using l(2,4,5,7) by simp_all
  then show ?thesis unfolding rising_def row_levels_def ThresholdLevels.simps
    using cast_less [OF l(1) assms(1)] cast_less [OF assms(1) h(1)] cast_less [OF h] assms(2,3) by simp
qed

section \<open>The bases of a workload\<close>

lemmas wider_literals = scale_literals [THEN scale_wider]

lemma size_scale: "scale (- 4) 7 (size_multiplier s)"
  by (cases s) (simp_all add: size_multiplier_def wider_literals del: One_nat_def)

lemma performance_scale: "scale (- 4) 3 (performance_multiplier p)"
  by (cases p) (simp_all add: performance_multiplier_def wider_literals del: One_nat_def)

lemma base_scales:
  "scale 13 20 (fst (workload_bases t))" "scale 9 17 (fst (snd (workload_bases t)))"
  "scale 6 14 (snd (snd (workload_bases t)))"
  by (cases t; simp add: workload_bases_def wider_literals)+

lemma workload_scales:
  "scale 9 27 (fst (base_values_for_workload w))" "scale 1 27 (fst (snd (base_values_for_workload w)))"
  "scale 2 17 (snd (snd (base_values_for_workload w)))"
proof -
  let ?s = "size_multiplier (database_size w)" and ?p = "performance_multiplier (performance_target w)"
    and ?b = "workload_bases (workload_type w)"
  have e: "base_values_for_workload w = (f_mul (fst ?b) ?s, f_mul (f_mul (fst (snd ?b)) ?s) ?p, f_mul (snd (snd ?b)) ?p)"
    by (simp add: base_values_for_workload_def case_prod_unfold Let_def)
  show "scale 9 27 (fst (base_values_for_workload w))"
    using scale_mul(1) [OF base_scales(1) _ _ size_scale, of "workload_type w" "database_size w"] by (simp add: e)
  have "scale 5 24 (f_mul (fst (snd ?b)) ?s)"
    using scale_mul(1) [OF base_scales(2) _ _ size_scale, of "workload_type w" "database_size w"] by simp
  then show "scale 1 27 (fst (snd (base_values_for_workload w)))"
    using scale_mul(1) [OF _ _ _ performance_scale, of 5 24 _ "performance_target w"] by (simp add: e)
  show "scale 2 17 (snd (snd (base_values_for_workload w)))"
    using scale_mul(1) [OF base_scales(3) _ _ performance_scale, of "workload_type w" "performance_target w"] by (simp add: e)
qed

lemma ratios_rising:
  "rising f_lt \<lparr>low_level = f_dec 15 1, medium_level = f_lit 3, high_level = f_lit 10, critical_level = f_lit 100\<rparr>"
  by code_simp

lemma classify_rows_mono: "classify n_ge L (min r r') \<le> classify n_ge L (max r r')"
  by (auto simp: classify_def n_ge_def min_def max_def less_eq_Severity_def severity_level_def)

lemma classify_costs_mono:
  assumes "f_le x y"
  shows "classify f_ge L x \<le> classify f_ge L y"
proof -
  have "f_ge x t \<Longrightarrow> f_ge y t" for t using assms by (auto simp: f_ge_def f_le_def)
  then show ?thesis by (auto simp: classify_def less_eq_Severity_def severity_level_def)
qed

text \<open>For every workload, size and target the thresholds rise strictly from level to level, for row counts,
  costs, durations and ratios; and a larger row count or cost is never classified as less severe.\<close>

theorem thresholds_rise:
  "rising (<) (row_counts (thresholds_for_workload w)) \<and> rising f_lt (costs (thresholds_for_workload w)) \<and>
   rising f_lt (durations (thresholds_for_workload w)) \<and> rising f_lt (ratios (thresholds_for_workload w)) \<and>
   classify n_ge (row_counts (thresholds_for_workload w)) (min r r') \<le>
     classify n_ge (row_counts (thresholds_for_workload w)) (max r r') \<and>
   classify f_ge (costs (thresholds_for_workload w)) (f_min x y) \<le>
     classify f_ge (costs (thresholds_for_workload w)) (f_max x y)"
proof -
  have parts: "row_counts (thresholds_for_workload w) = row_levels (fst (base_values_for_workload w))"
    "costs (thresholds_for_workload w) = scaled_levels (fst (snd (base_values_for_workload w)))"
    "durations (thresholds_for_workload w) = scaled_levels (snd (snd (base_values_for_workload w)))"
    "rising f_lt (ratios (thresholds_for_workload w))"
    using ratios_rising by (simp_all add: thresholds_for_workload_def case_prod_unfold Let_def)
  have "f_min x y = f_max x y \<or> f_le (f_min x y) (f_max x y)"
    by (auto simp: f_min_def f_max_def f_le_def f_lt_def)
  then have "classify f_ge L (f_min x y) \<le> classify f_ge L (f_max x y)" for L
    using classify_costs_mono by auto
  then show ?thesis
    using rows_rising [OF workload_scales(1), of w] scaled_rising [OF workload_scales(2), of w]
      scaled_rising [OF workload_scales(3), of w] classify_rows_mono parts by simp
qed

end
