(* ===== verification/Analyzer_Strictness.thy ===== *)
theory Analyzer_Strictness
  imports Analyzer_Measures Threshold_Facts
begin

text \<open>
  Sensitivity of the analyzers driven by thresholds: lowering thresholds never hides a problem. And the
  whole-plan view of the row estimates: what it counts and when it speaks.
\<close>

section \<open>Stricter configurations\<close>

definition below :: "('a \<Rightarrow> 'a \<Rightarrow> bool) \<Rightarrow> 'a ThresholdLevels \<Rightarrow> 'a ThresholdLevels \<Rightarrow> bool" where
  "below le L L' \<longleftrightarrow>
     le (medium_level L) (medium_level L') \<and> le (high_level L) (high_level L') \<and>
     le (critical_level L) (critical_level L')"

definition stricter :: "AnalyzerConfig \<Rightarrow> AnalyzerConfig \<Rightarrow> bool" where
  "stricter c c' \<longleftrightarrow>
     set (enabled_findings c') \<subseteq> set (enabled_findings c) \<and>
     below (\<le>) (row_counts (thresholds c)) (row_counts (thresholds c')) \<and>
     below f_le (costs (thresholds c)) (costs (thresholds c'))"

lemma stricter_enabled: "stricter c c' \<Longrightarrow> enabled c' ft \<Longrightarrow> enabled c ft"
  by (auto simp: stricter_def enabled_def)

lemma stricter_rows: "stricter c c' \<Longrightarrow> row_severity c' r \<le> row_severity c r"
  by (auto simp: stricter_def below_def row_severity_def classify_def n_ge_def less_eq_Severity_def severity_level_def)

lemma stricter_costs: "stricter c c' \<Longrightarrow> cost_severity c' x \<le> cost_severity c x"
  by (auto simp: stricter_def below_def cost_severity_def classify_def f_ge_def f_le_def less_eq_Severity_def
      severity_level_def)

lemma stricter_both:
  "stricter c c' \<Longrightarrow> max (row_severity c' r) (cost_severity c' x) \<le> max (row_severity c r) (cost_severity c x)"
  using stricter_rows [of c c' r] stricter_costs [of c c' x] by (auto simp: max_def)

lemma severe_up: "s' \<in> {High, Critical} \<Longrightarrow> s' \<le> s \<Longrightarrow> s \<in> {High, Critical}"
  "s' \<in> {Medium, High, Critical} \<Longrightarrow> s' \<le> s \<Longrightarrow> s \<in> {Medium, High, Critical}"
  "Critical \<le> s \<Longrightarrow> s = Critical"
  by (cases s; auto simp: less_eq_Severity_def severity_level_def)+

text \<open>Every finding of the second list is in the first, at the same places and at least as severe.\<close>

definition covers :: "Finding list \<Rightarrow> Finding list \<Rightarrow> bool" where
  "covers fs fs' \<longleftrightarrow>
     list_all (\<lambda>f'. list_ex (\<lambda>f. finding_type f = finding_type f' \<and> affected_nodes f = affected_nodes f' \<and>
       severity f' \<le> severity f) fs) fs'"

lemma covers_simps [simp]:
  "covers fs []"
  "covers fs (gs @ hs) \<longleftrightarrow> covers fs gs \<and> covers fs hs"
  by (simp_all add: covers_def)

lemma covers_single: "covers [f] [f'] \<longleftrightarrow>
    finding_type f = finding_type f' \<and> affected_nodes f = affected_nodes f' \<and> severity f' \<le> severity f"
  by (simp add: covers_def)

lemma covers_append: "covers fs hs \<Longrightarrow> covers (fs @ gs) hs" "covers gs hs \<Longrightarrow> covers (fs @ gs) hs"
  by (auto simp: covers_def list_all_iff list_ex_iff)

lemma covers_concat: "(\<And>x. covers (f x) (g x)) \<Longrightarrow> covers (concat (map f xs)) (concat (map g xs))"
  by (induction xs) (auto intro: covers_append)

lemma access_findings_kind [finding_simps]:
  "finding_type (excessive_rows_finding c n p) = ExcessiveRowProcessing"
  "severity (excessive_rows_finding c n p) = row_severity c (estimated_rows (cost n))"
  "finding_type (cartesian_finding n p) = CartesianProduct" "severity (cartesian_finding n p) = Critical"
  "finding_type (large_scan_finding c n p) = LargeSequentialScan"
  "severity (large_scan_finding c n p) = row_severity c (scanned_rows n)"
  "finding_type (moderate_scan_finding c n p) = LargeSequentialScan" "severity (moderate_scan_finding c n p) = Medium"
  "finding_type (inefficient_scan_finding c n p s) = InefficiientScan" "severity (inefficient_scan_finding c n p s) = s"
  "finding_type (large_bitmap_finding c n p) = InefficiientScan"
  "severity (large_bitmap_finding c n p) = row_severity c (estimated_rows (cost n))"
  "finding_type (nested_loop_finding n p s) = LargeNestedLoop" "severity (nested_loop_finding n p s) = s"
  "finding_type (hash_join_finding n p ctx s) = HashJoinMemorySpill" "severity (hash_join_finding n p ctx s) = s"
  "finding_type (merge_join_finding c n p) = IneffectiveJoinAlgorithm"
  "severity (merge_join_finding c n p) = cost_severity c (max_total_cost (cost n))"
  "finding_type (inefficient_finding n p) = InefficientParallelism" "severity (inefficient_finding n p) = Medium"
  "finding_type (missed_finding n p ctx s) = MissedParallelization" "severity (missed_finding n p ctx s) = s"
  unfolding excessive_rows_finding_def cartesian_finding_def large_scan_finding_def moderate_scan_finding_def
    inefficient_scan_finding_def large_bitmap_finding_def nested_loop_finding_def hash_join_finding_def
    merge_join_finding_def inefficient_finding_def missed_finding_def Let_def finding_at_parts by (rule refl)+

lemma strict_rows: "stricter c c' \<Longrightarrow> covers (row_estimation_findings c n p) (row_estimation_findings c' n p)"
  using stricter_enabled [of c c'] stricter_rows [of c c' "estimated_rows (cost n)"]
    severe_up(2) [of "row_severity c' (estimated_rows (cost n))" "row_severity c (estimated_rows (cost n))"]
  by (auto simp: row_estimation_findings_def excessive_rows_def is_cartesian_def covers_def finding_simps
      split: NodeType.splits JoinType.splits)

lemma strict_sequential:
  assumes "stricter c c'"
  shows "covers (sa_findings (analyze_sequential_scan c n p new_scan_analysis))
           (sa_findings (analyze_sequential_scan c' n p new_scan_analysis))"
  using stricter_enabled [OF assms, of LargeSequentialScan] stricter_rows [OF assms, of "scanned_rows n"]
  by (cases "row_severity c (scanned_rows n)"; cases "row_severity c' (scanned_rows n)")
    (auto simp: analyze_sequential_scan_def Let_def new_scan_analysis_def covers_def finding_simps
      less_eq_Severity_def severity_level_def)

lemma strict_index:
  assumes "stricter c c'"
  shows "covers (sa_findings (analyze_index_scan_efficiency c n p new_scan_analysis))
           (sa_findings (analyze_index_scan_efficiency c' n p new_scan_analysis))"
proof -
  let ?s = "\<lambda>c. max (cost_severity c (max_total_cost (cost n))) (row_severity c (estimated_rows (cost n)))"
  have "?s c' \<le> ?s c"
    using stricter_both [OF assms, of "estimated_rows (cost n)" "max_total_cost (cost n)"] by (simp add: max.commute)
  with severe_up(1) [of "?s c'" "?s c"] show ?thesis
    using stricter_enabled [OF assms, of InefficiientScan]
    by (auto simp: analyze_index_scan_efficiency_def Let_def new_scan_analysis_def covers_def finding_simps)
qed

lemma strict_bitmap:
  assumes "stricter c c'"
  shows "covers (sa_findings (analyze_bitmap_scan c n p new_scan_analysis))
           (sa_findings (analyze_bitmap_scan c' n p new_scan_analysis))"
  using stricter_rows [OF assms, of "estimated_rows (cost n)"]
    severe_up(1) [of "row_severity c' (estimated_rows (cost n))" "row_severity c (estimated_rows (cost n))"]
  by (auto simp: analyze_bitmap_scan_def Let_def new_scan_analysis_def covers_def finding_simps)

text \<open>The findings of one step do not depend on the other fields of the visitor.\<close>

lemma scan_findings_counted:
  "sa_findings (analyze_sequential_scan c n p (new_scan_analysis\<lparr>sa_nodes_analyzed := k\<rparr>)) =
     sa_findings (analyze_sequential_scan c n p new_scan_analysis)"
  "sa_findings (analyze_index_scan_efficiency c n p (new_scan_analysis\<lparr>sa_nodes_analyzed := k\<rparr>)) =
     sa_findings (analyze_index_scan_efficiency c n p new_scan_analysis)"
  "sa_findings (analyze_bitmap_scan c n p (new_scan_analysis\<lparr>sa_nodes_analyzed := k\<rparr>)) =
     sa_findings (analyze_bitmap_scan c n p new_scan_analysis)"
  by (simp_all add: analyze_sequential_scan_def analyze_index_scan_efficiency_def analyze_bitmap_scan_def Let_def
      split: Severity.split)

lemma strict_scans:
  assumes "stricter c c'"
  shows "covers (sa_findings (scan_analysis_step c new_scan_analysis n p ctx))
           (sa_findings (scan_analysis_step c' new_scan_analysis n p ctx))"
  unfolding scan_analysis_step_def Let_def
  using strict_sequential [OF assms] strict_index [OF assms] strict_bitmap [OF assms]
  by (simp add: scan_findings_counted split: NodeType.split ScanType.split) (simp add: new_scan_analysis_def)

lemma strict_joins:
  assumes "stricter c c'"
  shows "covers (ja_findings (join_analysis_step c new_join_analysis n p ctx))
           (ja_findings (join_analysis_step c' new_join_analysis n p ctx))"
proof -
  let ?r = "estimated_rows (cost n)" and ?x = "max_total_cost (cost n)"
  let ?m = "\<lambda>c. max (row_severity c ?r) (cost_severity c ?x)"
  note e = stricter_enabled [OF assms, of LargeNestedLoop] stricter_enabled [OF assms, of HashJoinMemorySpill]
    stricter_enabled [OF assms, of IneffectiveJoinAlgorithm]
  have b: "?m c' \<le> ?m c" by (rule stricter_both [OF assms])
  note up = severe_up(1) [OF _ b] severe_up(1) [OF _ stricter_costs [OF assms, of ?x]]
    severe_up(3) [of "row_severity c ?r"] stricter_rows [OF assms, of ?r]
  have nested: "covers (ja_findings (analyze_nested_loop_join c n p (new_join_analysis\<lparr>ja_nodes_analyzed := k\<rparr>)))
      (ja_findings (analyze_nested_loop_join c' n p (new_join_analysis\<lparr>ja_nodes_analyzed := k\<rparr>)))" for k
    using e(1) up(1) b by (auto simp: analyze_nested_loop_join_def Let_def new_join_analysis_def covers_def finding_simps)
  have hash: "covers (ja_findings (analyze_hash_join c n p ctx (new_join_analysis\<lparr>ja_nodes_analyzed := k\<rparr>)))
      (ja_findings (analyze_hash_join c' n p ctx (new_join_analysis\<lparr>ja_nodes_analyzed := k\<rparr>)))" for k
    using e(2) up(2-4)
    by (auto simp: analyze_hash_join_def Let_def new_join_analysis_def covers_def finding_simps split: option.splits)
  have merge: "covers (ja_findings (analyze_merge_join c n p (new_join_analysis\<lparr>ja_nodes_analyzed := k\<rparr>)))
      (ja_findings (analyze_merge_join c' n p (new_join_analysis\<lparr>ja_nodes_analyzed := k\<rparr>)))" for k
    using e(3) up(2) stricter_costs [OF assms, of ?x]
    by (auto simp: analyze_merge_join_def Let_def new_join_analysis_def covers_def finding_simps)
  show ?thesis
    unfolding join_analysis_step_def Let_def
    using nested hash merge by (simp split: NodeType.split JoinType.split) (simp add: new_join_analysis_def)
qed

lemma strict_parallel:
  assumes "stricter c c'"
  shows "covers (pv_findings (parallelization_step c new_parallelization n p ctx))
           (pv_findings (parallelization_step c' new_parallelization n p ctx))"
proof -
  let ?m = "\<lambda>c. max (row_severity c (estimated_rows (cost n))) (cost_severity c (max_total_cost (cost n)))"
  have b: "?m c' \<le> ?m c" by (rule stricter_both [OF assms])
  show ?thesis
    using b severe_up(1) [OF _ b] stricter_enabled [OF assms, of MissedParallelization]
      stricter_enabled [OF assms, of InefficientParallelism]
    by (auto simp: parallel_steps covers_def finding_simps)
qed

lemma local_findings:
  "findings (row_estimation_analyze c pl ctx) = concat (map (\<lambda>x. row_estimation_findings c (fst x) (snd x)) (places pl))"
  "findings (scan_analyze c pl ctx) =
     concat (map (\<lambda>x. sa_findings (scan_analysis_step c new_scan_analysis (fst x) (snd x) ctx)) (places pl))"
  "findings (join_analyze c pl ctx) =
     concat (map (\<lambda>x. ja_findings (join_analysis_step c new_join_analysis (fst x) (snd x) ctx)) (places pl))"
  "findings (parallelization_analyze c pl ctx) =
     concat (map (\<lambda>x. pv_findings (parallelization_step c new_parallelization (fst x) (snd x) ctx)) (places pl))"
proof -
  have empty: "re_findings new_row_estimation = []" "sa_findings new_scan_analysis = []"
    "ja_findings new_join_analysis = []" "pv_findings new_parallelization = []"
    by (simp_all add: new_row_estimation_def new_scan_analysis_def new_join_analysis_def new_parallelization_def)
  show "findings (row_estimation_analyze c pl ctx) = concat (map (\<lambda>x. row_estimation_findings c (fst x) (snd x)) (places pl))"
    unfolding row_estimation_analyze_def Let_def report_findings row_estimation.found_all empty by simp
  show "findings (scan_analyze c pl ctx) =
     concat (map (\<lambda>x. sa_findings (scan_analysis_step c new_scan_analysis (fst x) (snd x) ctx)) (places pl))"
    unfolding scan_analyze_def Let_def report_findings scans.found_all empty by simp
  show "findings (join_analyze c pl ctx) =
     concat (map (\<lambda>x. ja_findings (join_analysis_step c new_join_analysis (fst x) (snd x) ctx)) (places pl))"
    unfolding join_analyze_def Let_def report_findings joins.found_all empty by simp
  show "findings (parallelization_analyze c pl ctx) =
     concat (map (\<lambda>x. pv_findings (parallelization_step c new_parallelization (fst x) (snd x) ctx)) (places pl))"
    unfolding parallelization_analyze_def Let_def findings_metrics findings_add report_parts parallel.found_all empty
    by simp
qed

text \<open>C19: lower thresholds never hide a problem: what the analyzers of rows, scans, joins and parallel execution
  report under some thresholds they report under stricter ones too, about the same nodes and at least as
  severe.\<close>

theorem stricter_reports_more:
  assumes "stricter c c'"
  shows "covers (findings (row_estimation_analyze c pl ctx)) (findings (row_estimation_analyze c' pl ctx)) \<and>
    covers (findings (scan_analyze c pl ctx)) (findings (scan_analyze c' pl ctx)) \<and>
    covers (findings (join_analyze c pl ctx)) (findings (join_analyze c' pl ctx)) \<and>
    covers (findings (parallelization_analyze c pl ctx)) (findings (parallelization_analyze c' pl ctx))"
  unfolding local_findings
  using strict_rows [OF assms] strict_scans [OF assms] strict_joins [OF assms] strict_parallel [OF assms]
  by (auto intro!: covers_concat)

text \<open>Row counts from ten on are reported, or from a thousand on.\<close>

definition row_config :: "nat \<Rightarrow> AnalyzerConfig" where
  "row_config k =
     \<lparr>enabled_findings = [ExcessiveRowProcessing, LargeSequentialScan, LargeNestedLoop, MissedParallelization],
      thresholds =
        \<lparr>row_counts = \<lparr>low_level = 1, medium_level = k, high_level = 10 * k, critical_level = 100 * k\<rparr>,
         costs = \<lparr>low_level = f_lit 1, medium_level = f_lit 2, high_level = f_lit 3, critical_level = f_lit 4\<rparr>,
         durations = \<lparr>low_level = f_lit 1, medium_level = f_lit 2, high_level = f_lit 3, critical_level = f_lit 4\<rparr>,
         ratios = \<lparr>low_level = f_lit 1, medium_level = f_lit 2, high_level = f_lit 3, critical_level = f_lit 4\<rparr>\<rparr>\<rparr>"

lemma row_config_stricter: "k \<le> l \<Longrightarrow> stricter (row_config k) (row_config l)"
proof -
  have "f_le (f_lit 2) (f_lit 2)" "f_le (f_lit 3) (f_lit 3)" "f_le (f_lit 4) (f_lit 4)" by code_simp+
  then show "k \<le> l \<Longrightarrow> stricter (row_config k) (row_config l)"
    by (simp add: stricter_def below_def row_config_def)
qed

theorem stricter_reports_more_witness:
  "covers (findings (row_estimation_analyze (row_config 10) sample_plan default_context))
     (findings (row_estimation_analyze (row_config 1000) sample_plan default_context))"
  using stricter_reports_more [OF row_config_stricter [of 10 1000], of sample_plan default_context] by simp

section \<open>The pattern of the estimates\<close>

definition significant :: "PlanNode \<Rightarrow> bool" where
  "significant n \<longleftrightarrow>
     (case actual_row_count n of
        Some a \<Rightarrow> f_ge (misestimate (row_ratio n a)) SIGNIFICANT_MISESTIMATE | None \<Rightarrow> False)"

abbreviation estimation_visit :: "ParsedPlan \<Rightarrow> AnalysisContext \<Rightarrow> EstimationVisitor" where
  "estimation_visit pl ctx \<equiv> depth_first pl (visiting estimation_step) ctx new_estimation"

lemma estimation_counts:
  "ev_nodes_with_actuals (estimation_visit pl ctx) =
     length (filter (\<lambda>n. actual_row_count n \<noteq> None) (nodes (root pl)))"
  "ev_nodes_overestimated (estimation_visit pl ctx) + ev_nodes_underestimated (estimation_visit pl ctx) =
     length (filter significant (nodes (root pl)))"
  using visit_counts [of ev_nodes_with_actuals estimation_step ctx "\<lambda>n. actual_row_count n \<noteq> None" pl new_estimation]
    visit_counts [of "\<lambda>s. ev_nodes_overestimated s + ev_nodes_underestimated s" estimation_step ctx significant pl new_estimation]
  by (simp_all add: estimation_step_def Let_def new_estimation_def significant_def split: option.split)

text \<open>The worst misestimate so far, and where it is.\<close>

definition worst_seen :: "place list \<Rightarrow> EstimationVisitor \<Rightarrow> bool" where
  "worst_seen xs v \<longleftrightarrow>
     list_all (\<lambda>x. case actual_row_count (fst x) of
         Some a \<Rightarrow> \<not> f_gt (misestimate (row_ratio (fst x) a)) (ev_max_misestimate_ratio v) | None \<Rightarrow> True) xs \<and>
     (case ev_worst_path v of
        Some p \<Rightarrow> \<exists>n a. (n, p) \<in> set xs \<and> actual_row_count n = Some a \<and>
                         misestimate (row_ratio n a) = ev_max_misestimate_ratio v
      | None \<Rightarrow> ev_max_misestimate_ratio v = f_zero)"

lemma worst_seen_step:
  assumes "worst_seen xs v"
  shows "worst_seen (xs @ [x]) (estimation_step v (fst x) (snd x) ctx)"
proof (cases "actual_row_count (fst x)")
  case None
  then show ?thesis using assms by (auto simp: worst_seen_def estimation_step_def split: option.splits)
next
  case (Some a)
  let ?m = "misestimate (row_ratio (fst x) a)"
  let ?w = "estimation_step v (fst x) (snd x) ctx"
  have w: "ev_max_misestimate_ratio ?w = (if f_gt ?m (ev_max_misestimate_ratio v) then ?m else ev_max_misestimate_ratio v)"
    "ev_worst_path ?w = (if f_gt ?m (ev_max_misestimate_ratio v) then Some (snd x) else ev_worst_path v)"
    using Some by (simp_all add: estimation_step_def Let_def)
  show ?thesis
  proof (cases "f_gt ?m (ev_max_misestimate_ratio v)")
    case True
    then have here: "ev_max_misestimate_ratio ?w = ?m" "ev_worst_path ?w = Some (snd x)"
      using w by simp_all
    have "\<exists>n a. (n, snd x) \<in> set (xs @ [x]) \<and> actual_row_count n = Some a \<and> misestimate (row_ratio n a) = ?m"
      using Some by (intro exI [of _ "fst x"] exI [of _ a]) simp
    moreover have "list_all (\<lambda>x. case actual_row_count (fst x) of
         Some a \<Rightarrow> \<not> f_gt (misestimate (row_ratio (fst x) a)) ?m | None \<Rightarrow> True) (xs @ [x])"
      using assms f_gt_raised [OF True] Some
      by (auto simp: worst_seen_def f_gt_irrefl list_all_iff split: option.splits)
    ultimately show ?thesis unfolding worst_seen_def here by simp
  next
    case False
    then have same: "ev_max_misestimate_ratio ?w = ev_max_misestimate_ratio v" "ev_worst_path ?w = ev_worst_path v"
      using w by simp_all
    show ?thesis using assms Some False unfolding worst_seen_def same by (auto split: option.splits)
  qed
qed

lemma worst_seen_all: "worst_seen (places pl) (estimation_visit pl ctx)"
proof -
  have "worst_seen ys v \<Longrightarrow> worst_seen (ys @ xs) (fold (\<lambda>x s. estimation_step s (fst x) (snd x) ctx) xs v)" for xs ys v
  proof (induction xs arbitrary: ys v)
    case (Cons x xs)
    then show ?case using Cons.IH [OF worst_seen_step [OF Cons.prems, of x ctx]] by simp
  qed simp
  from this [of "[]" new_estimation "places pl"] show ?thesis
    by (simp add: visit_all worst_seen_def new_estimation_def)
qed

lemma f_ge_trans: "f_ge x y \<Longrightarrow> f_ge y z \<Longrightarrow> f_ge x z"
  by (auto simp: f_ge_def f_le_def)

lemma outlier_levels: "f_ge OUTLIER_RATIO SIGNIFICANT_MISESTIMATE" "\<not> f_ge f_zero OUTLIER_RATIO"
  by code_simp+

lemma outlier_place:
  assumes "f_ge (ev_max_misestimate_ratio (estimation_visit pl ctx)) OUTLIER_RATIO"
  shows "\<exists>n p. (n, p) \<in> set (places pl) \<and> significant n \<and>
    affected_nodes (outlier_finding (estimation_visit pl ctx)) = [p]"
proof (cases "ev_worst_path (estimation_visit pl ctx)")
  case None
  then show ?thesis using worst_seen_all [of pl ctx] assms outlier_levels by (simp add: worst_seen_def)
next
  case (Some p)
  then obtain n a where n: "(n, p) \<in> set (places pl)" "actual_row_count n = Some a"
    "misestimate (row_ratio n a) = ev_max_misestimate_ratio (estimation_visit pl ctx)"
    using worst_seen_all [of pl ctx] by (auto simp: worst_seen_def)
  then have "significant n" using f_ge_trans [OF assms outlier_levels(1)] by (simp add: significant_def)
  then show ?thesis using n Some by (intro exI [of _ n] exI [of _ p]) (simp add: shape_findings_placed)
qed

lemma estimation_findings_cases:
  "estimation_findings v = [] \<or>
   (\<exists>avg. estimation_findings v = [systematic_finding v avg] \<and> 4 \<le> ev_nodes_with_actuals v \<and>
      2 \<le> ev_nodes_overestimated v + ev_nodes_underestimated v) \<or>
   (estimation_findings v = [outlier_finding v] \<and> ev_nodes_overestimated v + ev_nodes_underestimated v = 1 \<and>
      f_ge (ev_max_misestimate_ratio v) OUTLIER_RATIO)"
  unfolding estimation_findings_def Let_def MIN_NODES_FOR_PATTERN_def MIN_SIGNIFICANT_FOR_SYSTEMATIC_def
  by (cases "ev_nodes_overestimated v + ev_nodes_underestimated v = 1"; simp del: One_nat_def split del: if_split)
    (auto split: if_splits)

lemma estimation_health_findings:
  "findings (estimation_health_analyze pl ctx) = estimation_findings (estimation_visit pl ctx)"
  unfolding estimation_health_analyze_def Let_def report_findings by simp

text \<open>C20: the health of the row estimates is one diagnosis of the whole plan: nothing; a systematic error, only when
  at least four nodes were measured and two of them are off by a factor of two; or a single outlier, only when
  exactly one node is off, and the finding then points at that node.\<close>

theorem estimation_diagnosis:
  "findings (estimation_health_analyze pl ctx) = [] \<or>
   ((\<exists>avg. findings (estimation_health_analyze pl ctx) = [systematic_finding (estimation_visit pl ctx) avg]) \<and>
      4 \<le> length (filter (\<lambda>n. actual_row_count n \<noteq> None) (nodes (root pl))) \<and>
      2 \<le> length (filter significant (nodes (root pl)))) \<or>
   (\<exists>f n p. findings (estimation_health_analyze pl ctx) = [f] \<and> affected_nodes f = [p] \<and>
      (n, p) \<in> set (places pl) \<and> filter significant (nodes (root pl)) = [n])"
proof -
  let ?v = "estimation_visit pl ctx"
  let ?sig = "filter significant (nodes (root pl))"
  note counts = estimation_counts [of pl ctx]
  consider (none) "findings (estimation_health_analyze pl ctx) = []"
    | (systematic) avg where "findings (estimation_health_analyze pl ctx) = [systematic_finding ?v avg]"
        "4 \<le> ev_nodes_with_actuals ?v" "2 \<le> length ?sig"
    | (outlier) "findings (estimation_health_analyze pl ctx) = [outlier_finding ?v]" "length ?sig = 1"
        "f_ge (ev_max_misestimate_ratio ?v) OUTLIER_RATIO"
    using estimation_findings_cases [of ?v] unfolding estimation_health_findings counts(2) by blast
  then show ?thesis
  proof cases
    case systematic
    then show ?thesis unfolding counts(1) by blast
  next
    case outlier
    then obtain n p where n: "(n, p) \<in> set (places pl)" "significant n" "affected_nodes (outlier_finding ?v) = [p]"
      using outlier_place by blast
    from n(1) have "n \<in> set (nodes (root pl))" by (metis fst_conv image_eqI places_nodes_set)
    with n(2) have "n \<in> set ?sig" by simp
    with outlier(2) have "?sig = [n]" by (cases ?sig) auto
    then show ?thesis using outlier(1) n by blast
  qed blast
qed

end
