(* ===== verification/Sql_Config.thy ===== *)
theory Sql_Config
  imports Analysis_Config
begin

text \<open>
  The configuration of the SQL analyses (the end of
  \<open>crates/core/src/analysis/consolidated_config.rs\<close>): weights, limits and regression thresholds of a workload.
\<close>

record ComplexityAnalysisConfig =
  complexity_thresholds :: SmartThresholds
  join_weight :: f64
  subquery_weight :: f64
  function_weight :: f64
  condition_weight :: f64
  aggregation_weight :: f64
  window_weight :: f64
  enable_detailed_breakdown :: bool

definition complexity_analysis_config :: "WorkloadContext \<Rightarrow> ComplexityAnalysisConfig" where
  "complexity_analysis_config w =
     (let (join, subquery) =
        (case workload_type w of
           OLTP \<Rightarrow> (f_lit 20, f_lit 15)
         | OLAP \<Rightarrow> (f_lit 30, f_lit 25)
         | Analytics \<Rightarrow> (f_lit 35, f_lit 30)
         | Mixed \<Rightarrow> (f_lit 25, f_lit 20))
      in \<lparr>complexity_thresholds = thresholds_for_workload w, join_weight = join, subquery_weight = subquery,
          function_weight = f_lit 15, condition_weight = f_lit 15, aggregation_weight = f_lit 10,
          window_weight = f_lit 10, enable_detailed_breakdown = True\<rparr>)"

record MetadataExtractionConfig =
  metadata_thresholds :: SmartThresholds
  analyze_functions :: bool
  extract_hints :: bool
  max_hints :: nat
  enable_pattern_recognition :: bool

definition metadata_extraction_config :: "WorkloadContext \<Rightarrow> MetadataExtractionConfig" where
  "metadata_extraction_config w =
     \<lparr>metadata_thresholds = thresholds_for_workload w, analyze_functions = True, extract_hints = True,
      max_hints = (case workload_type w of OLTP \<Rightarrow> 5 | OLAP \<Rightarrow> 15 | Analytics \<Rightarrow> 20 | Mixed \<Rightarrow> 10),
      enable_pattern_recognition = True\<rparr>"

record NormalizationConfig =
  normalize_literals :: bool
  normalize_arrays :: bool
  normalize_temporal :: bool
  max_parameters :: nat
  preserve_structure :: bool
  enable_fingerprint_caching :: bool

definition normalization_config :: "WorkloadContext \<Rightarrow> NormalizationConfig" where
  "normalization_config w =
     \<lparr>normalize_literals = True, normalize_arrays = True, normalize_temporal = True,
      max_parameters =
        (case database_size w of
           Small \<Rightarrow> 500
         | Medium_Size \<Rightarrow> (if workload_type w = OLTP then 1000 else 1500)
         | Large \<Rightarrow> (if workload_type w = OLTP then 2000 else 3000)
         | VeryLarge \<Rightarrow> 5000),
      preserve_structure = True, enable_fingerprint_caching = True\<rparr>"

record RegressionThresholds =
  minor_threshold :: f64
  significant_threshold :: f64
  critical_threshold :: f64

definition default_regression_thresholds :: RegressionThresholds where
  "default_regression_thresholds =
     \<lparr>minor_threshold = f_dec 10 2, significant_threshold = f_dec 25 2, critical_threshold = f_dec 50 2\<rparr>"

record RegressionDetectionConfig =
  regression_smart_thresholds :: SmartThresholds
  min_data_points :: nat
  significance_level :: f64
  regression_thresholds :: RegressionThresholds
  enable_seasonal_analysis :: bool
  enable_change_point_detection :: bool
  change_point_window_size :: nat

definition regression_levels :: "WorkloadType \<Rightarrow> RegressionThresholds \<times> f64 \<times> nat" where
  "regression_levels t =
     (case t of
        OLTP \<Rightarrow> (\<lparr>minor_threshold = f_dec 5 2, significant_threshold = f_dec 15 2,
                  critical_threshold = f_dec 30 2\<rparr>, f_dec 5 2, 20)
      | OLAP \<Rightarrow> (\<lparr>minor_threshold = f_dec 15 2, significant_threshold = f_dec 35 2,
                  critical_threshold = f_dec 70 2\<rparr>, f_dec 1 2, 50)
      | Analytics \<Rightarrow> (\<lparr>minor_threshold = f_dec 20 2, significant_threshold = f_dec 40 2,
                  critical_threshold = f_dec 80 2\<rparr>, f_dec 1 2, 50)
      | Mixed \<Rightarrow> (default_regression_thresholds, f_dec 5 2, 30))"

definition regression_detection_config :: "WorkloadContext \<Rightarrow> RegressionDetectionConfig" where
  "regression_detection_config w =
     (let (levels, significance, points) = regression_levels (workload_type w)
      in \<lparr>regression_smart_thresholds = thresholds_for_workload w, min_data_points = points,
          significance_level = significance, regression_thresholds = levels, enable_seasonal_analysis = True,
          enable_change_point_detection = True, change_point_window_size = points div 3\<rparr>)"

record SqlAnalysisConfigurations =
  complexity :: ComplexityAnalysisConfig
  metadata :: MetadataExtractionConfig
  normalization :: NormalizationConfig
  regression :: RegressionDetectionConfig

definition sql_configurations_for_workload :: "WorkloadContext \<Rightarrow> SqlAnalysisConfigurations" where
  "sql_configurations_for_workload w =
     \<lparr>complexity = complexity_analysis_config w, metadata = metadata_extraction_config w,
      normalization = normalization_config w, regression = regression_detection_config w\<rparr>"

end
