(* ===== verification/Stats_Calculator.thy ===== *)
theory Stats_Calculator
  imports Sql_Config Statistics
begin

text \<open>
  The statistical calculator of the regression analysis (\<open>crates/core/src/sql_analysis/statistics.rs\<close>). What
  it takes from other crates and from the platform's math library is the record \<open>StatsLib\<close>: the mean and
  Student's t distribution of \<open>statrs\<close>, \<open>powf\<close> and \<open>exp\<close>, and the calendar of \<open>chrono\<close>. A panic is
  the value \<open>None\<close>: an index or a slice outside the data, and a sort of several values with a NaN among them, since
  the comparison the code gives to \<open>sort_by\<close> is then no total order, on which the library may panic.
\<close>

record StatsLib =
  lib_mean :: "f64 list \<Rightarrow> f64"
  student_ok :: "f64 \<Rightarrow> bool"
  student_cdf :: "f64 \<Rightarrow> f64 \<Rightarrow> f64"
  student_inverse_cdf :: "f64 \<Rightarrow> f64 \<Rightarrow> f64"
  lib_powf :: "f64 \<Rightarrow> f64 \<Rightarrow> f64"
  lib_exp :: "f64 \<Rightarrow> f64"
  hour_of_day :: "int \<Rightarrow> nat"
  num_hours :: "int \<Rightarrow> int"
  num_seconds :: "int \<Rightarrow> int"

section \<open>Floats\<close>

definition f_abs :: "f64 \<Rightarrow> f64" where "f_abs x = mk_f64 False (f_pat x)"

definition powi2 :: "f64 \<Rightarrow> f64" where "powi2 x = f_mul x x"
definition powi3 :: "f64 \<Rightarrow> f64" where "powi3 x = f_mul (powi2 x) x"
definition powi4 :: "f64 \<Rightarrow> f64" where "powi4 x = f_mul (powi2 x) (powi2 x)"

definition f_average :: "f64 list \<Rightarrow> f64" where "f_average xs = f_div (f_sum xs) (f_of_nat (length xs))"

section \<open>The calculator\<close>

record StatisticalCalculator =
  calc_significance :: f64

definition default_calculator :: StatisticalCalculator where
  "default_calculator = \<lparr>calc_significance = f_dec 5 2\<rparr>"

definition with_significance :: "StatisticalCalculator \<Rightarrow> f64 \<Rightarrow> StatisticalCalculator" where
  "with_significance c s = c\<lparr>calc_significance := s\<rparr>"

definition calc_sample_variance :: "f64 list \<Rightarrow> f64" where
  "calc_sample_variance values =
     (if length values \<le> 1 then f_zero
      else let mean = f_average values
           in f_div (f_sum (map (\<lambda>x. powi2 (f_sub x mean)) values)) (f_of_nat (length values - 1)))"

definition sample_std_dev :: "f64 list \<Rightarrow> f64" where
  "sample_std_dev values = f_sqrt (calc_sample_variance values)"

text \<open>Stable sorting by \<open>partial_cmp\<close>, with equality where it has no answer.\<close>

definition sort_values :: "f64 list \<Rightarrow> f64 list option" where
  "sort_values xs = (if 1 < length xs \<and> list_ex is_nan xs then None else Some (sort_key f_ord xs))"

text \<open>The slice \<open>&data[a..b]\<close>.\<close>

definition slice_option :: "'a list \<Rightarrow> nat \<Rightarrow> nat \<Rightarrow> 'a list option" where
  "slice_option xs a b = (if a \<le> b \<and> b \<le> length xs then Some (take (b - a) (drop a xs)) else None)"

definition quantile_index :: "nat \<Rightarrow> f64 \<Rightarrow> f64" where
  "quantile_index k q = f_sub (f_mul q (f_add (f_of_nat k) (f_lit 1))) (f_lit 1)"

definition interpolate :: "f64 list \<Rightarrow> f64 \<Rightarrow> f64 option" where
  "interpolate ordered index =
     (let lower_index = f_to_u64 (f_floor index);
          upper_index = min (f_to_u64 (f_ceil index)) (length ordered - 1);
          weight = f_sub index (f_floor index)
      in case nth_option ordered lower_index of
           None \<Rightarrow> None
         | Some lo \<Rightarrow>
             (case nth_option ordered upper_index of
                None \<Rightarrow> None
              | Some hi \<Rightarrow> Some (f_add (f_mul lo (f_sub (f_lit 1) weight)) (f_mul hi weight))))"

definition quantile :: "f64 list \<Rightarrow> f64 \<Rightarrow> (string + f64) option" where
  "quantile values q =
     (if values = [] then Some (Inl ''Cannot calculate quantile of empty data'')
      else if \<not> (f_le f_zero q \<and> f_le q (f_lit 1)) then Some (Inl ''Quantile must be between 0 and 1'')
      else
        (case sort_values values of
           None \<Rightarrow> None
         | Some ordered \<Rightarrow>
             (let n = f_of_nat (length ordered); index = quantile_index (length ordered) q
              in map_option Inr
                   (if f_lt index f_zero then nth_option ordered 0
                    else if f_ge index (f_sub n (f_lit 1)) then nth_option ordered (length ordered - 1)
                    else interpolate ordered index))))"

text \<open>The two quartiles, the second after the first with the operator \<open>?\<close>.\<close>

definition quartiles :: "f64 list \<Rightarrow> (string + f64 \<times> f64) option" where
  "quartiles values =
     (case quantile values (f_dec 25 2) of
        None \<Rightarrow> None
      | Some (Inl e) \<Rightarrow> Some (Inl e)
      | Some (Inr q1) \<Rightarrow>
          (case quantile values (f_dec 75 2) of
             None \<Rightarrow> None
           | Some (Inl e) \<Rightarrow> Some (Inl e)
           | Some (Inr q3) \<Rightarrow> Some (Inr (q1, q3))))"

definition interquartile_range :: "f64 list \<Rightarrow> (string + f64) option" where
  "interquartile_range values = map_option (map_sum id (\<lambda>(q1, q3). f_sub q3 q1)) (quartiles values)"

definition detect_iqr_outliers :: "f64 list \<Rightarrow> (string + nat list) option" where
  "detect_iqr_outliers values =
     map_option
       (map_sum id (\<lambda>(q1, q3).
          let iqr = f_sub q3 q1;
              lower_bound = f_sub q1 (f_mul (f_dec 15 1) iqr);
              upper_bound = f_add q3 (f_mul (f_dec 15 1) iqr)
          in map fst (filter (\<lambda>(_, v). f_lt v lower_bound \<or> f_gt v upper_bound) (enumerate 0 values))))
       (quartiles values)"

section \<open>Welch's t-test\<close>

record TTestResult =
  t_statistic :: f64
  t_p_value :: f64
  t_degrees_freedom :: f64
  t_is_significant :: bool
  mean_difference :: f64
  standard_error :: f64
  confidence_interval :: "f64 \<times> f64"

definition welch_freedom :: "f64 \<Rightarrow> f64 \<Rightarrow> f64 \<Rightarrow> f64 \<Rightarrow> f64" where
  "welch_freedom v1 n1 v2 n2 =
     f_div (powi2 (f_add (f_div v1 n1) (f_div v2 n2)))
       (f_add (f_div (powi2 (f_div v1 n1)) (f_sub n1 (f_lit 1))) (f_div (powi2 (f_div v2 n2)) (f_sub n2 (f_lit 1))))"

definition two_sided :: "StatsLib \<Rightarrow> f64 \<Rightarrow> f64 \<Rightarrow> f64" where
  "two_sided L df t = f_mul (f_lit 2) (f_sub (f_lit 1) (student_cdf L df (f_abs t)))"

definition welch_t_test :: "StatsLib \<Rightarrow> StatisticalCalculator \<Rightarrow> f64 list \<Rightarrow> f64 list \<Rightarrow> string + TTestResult" where
  "welch_t_test L c sample1 sample2 =
     (if length sample1 < 2 \<or> length sample2 < 2 then Inl ''Both samples must have at least 2 observations''
      else
        (let n1 = f_of_nat (length sample1); n2 = f_of_nat (length sample2);
             mean1 = lib_mean L sample1; mean2 = lib_mean L sample2;
             var1 = calc_sample_variance sample1; var2 = calc_sample_variance sample2;
             se = f_sqrt (f_add (f_div var1 n1) (f_div var2 n2))
         in if f_eq se f_zero then
              Inr \<lparr>t_statistic = f_zero, t_p_value = f_lit 1, t_degrees_freedom = f_sub (f_add n1 n2) (f_lit 2),
                t_is_significant = False, mean_difference = f_sub mean1 mean2, standard_error = f_zero,
                confidence_interval = (f_zero, f_zero)\<rparr>
            else
              (let t_stat = f_div (f_sub mean1 mean2) se; df = welch_freedom var1 n1 var2 n2
               in if \<not> student_ok L df then Inl ''Failed to create t-distribution''
                  else
                    (let p = two_sided L df t_stat;
                         t_critical =
                           student_inverse_cdf L df (f_sub (f_lit 1) (f_div (calc_significance c) (f_lit 2)));
                         margin = f_mul t_critical se; diff = f_sub mean1 mean2
                     in Inr \<lparr>t_statistic = t_stat, t_p_value = p, t_degrees_freedom = df,
                          t_is_significant = f_lt p (calc_significance c), mean_difference = diff,
                          standard_error = se,
                          confidence_interval = (f_sub diff margin, f_add diff margin)\<rparr>))))"

section \<open>Shape of a distribution\<close>

definition central_moment :: "(f64 \<Rightarrow> f64) \<Rightarrow> f64 \<Rightarrow> f64 list \<Rightarrow> f64" where
  "central_moment pow mean values =
     f_div (f_sum (map (\<lambda>x. pow (f_sub x mean)) values)) (f_of_nat (length values))"

definition population_g1_g2 :: "StatsLib \<Rightarrow> f64 list \<Rightarrow> (f64 \<times> f64) option" where
  "population_g1_g2 L values =
     (let mean = lib_mean L values; m2 = central_moment powi2 mean values
      in if f_eq m2 f_zero then None
         else let m3 = central_moment powi3 mean values; m4 = central_moment powi4 mean values
              in Some (f_div m3 (lib_powf L m2 (f_dec 15 1)), f_sub (f_div m4 (f_mul m2 m2)) (f_lit 3)))"

definition skewness :: "StatsLib \<Rightarrow> f64 list \<Rightarrow> f64" where
  "skewness L values =
     (if length values < 3 then f_zero
      else case population_g1_g2 L values of
             None \<Rightarrow> f_zero
           | Some (g1, _) \<Rightarrow>
               (let n = f_of_nat (length values)
                in f_div (f_mul g1 (f_sqrt (f_mul n (f_sub n (f_lit 1))))) (f_sub n (f_lit 2))))"

definition excess_kurtosis :: "StatsLib \<Rightarrow> f64 list \<Rightarrow> f64" where
  "excess_kurtosis L values =
     (if length values < 4 then f_zero
      else case population_g1_g2 L values of
             None \<Rightarrow> f_zero
           | Some (_, g2) \<Rightarrow>
               (let n = f_of_nat (length values)
                in f_div (f_mul (f_sub n (f_lit 1)) (f_add (f_mul (f_add n (f_lit 1)) g2) (f_lit 6)))
                     (f_mul (f_sub n (f_lit 2)) (f_sub n (f_lit 3)))))"

record NormalityTestResult =
  nt_test_name :: string
  nt_test_statistic :: f64
  nt_p_value :: f64
  nt_is_normal :: bool
  nt_skewness :: f64
  nt_kurtosis :: f64

definition normality_test :: "StatsLib \<Rightarrow> StatisticalCalculator \<Rightarrow> f64 list \<Rightarrow> string + NormalityTestResult" where
  "normality_test L c values =
     (if length values < 8 then Inl ''Need at least 8 observations for normality test''
      else
        (let n = f_of_nat (length values); skew = skewness L values; kurt = excess_kurtosis L values;
             (g1, g2) = (case population_g1_g2 L values of Some g \<Rightarrow> g | None \<Rightarrow> (f_zero, f_zero));
             jb_stat = f_mul (f_div n (f_lit 6)) (f_add (powi2 g1) (f_div (powi2 g2) (f_lit 4)));
             p = (if f_lt jb_stat f_zero then f_lit 1
                  else lib_exp L (f_div (f_uminus jb_stat) (f_lit 2)))
         in Inr \<lparr>nt_test_name = ''Jarque-Bera'', nt_test_statistic = jb_stat, nt_p_value = p,
              nt_is_normal = f_gt p (calc_significance c), nt_skewness = skew, nt_kurtosis = kurt\<rparr>))"

section \<open>Correlation\<close>

definition correlation :: "StatsLib \<Rightarrow> f64 list \<Rightarrow> f64 list \<Rightarrow> string + f64" where
  "correlation L x y =
     (if length x \<noteq> length y then Inl ''Vectors must have the same length''
      else if length x < 2 then Inl ''Need at least 2 observations''
      else
        (let x_mean = lib_mean L x; y_mean = lib_mean L y;
             numerator = f_sum (map (\<lambda>(xi, yi). f_mul (f_sub xi x_mean) (f_sub yi y_mean)) (zip x y));
             x_var = f_sum (map (\<lambda>xi. powi2 (f_sub xi x_mean)) x);
             y_var = f_sum (map (\<lambda>yi. powi2 (f_sub yi y_mean)) y);
             denominator = f_sqrt (f_mul x_var y_var)
         in if f_eq denominator f_zero then Inr f_zero else Inr (f_div numerator denominator)))"

record CorrelationTestResult =
  ct_correlation :: f64
  ct_t_statistic :: f64
  ct_p_value :: f64
  ct_degrees_freedom :: f64
  ct_is_significant :: bool

definition correlation_test :: "StatsLib \<Rightarrow> StatisticalCalculator \<Rightarrow> f64 \<Rightarrow> nat \<Rightarrow> string + CorrelationTestResult" where
  "correlation_test L c r n =
     (if n < 3 then Inl ''Need at least 3 observations''
      else
        (let df = f_of_nat (n - 2); t_stat = f_mul r (f_sqrt (f_div df (f_sub (f_lit 1) (powi2 r))))
         in if \<not> student_ok L df then Inl ''Failed to create t-distribution''
            else
              (let p = two_sided L df t_stat
               in Inr \<lparr>ct_correlation = r, ct_t_statistic = t_stat, ct_p_value = p, ct_degrees_freedom = df,
                    ct_is_significant = f_lt p (calc_significance c)\<rparr>)))"

section \<open>Anomalies\<close>

record AnomalyInfo =
  an_index :: nat
  an_value :: f64
  modified_zscore :: f64
  is_outlier :: bool

text \<open>\<open>unwrap_or(0.0)\<close> of the error, not of the panic.\<close>

definition quantile_or_zero :: "f64 list \<Rightarrow> f64 \<Rightarrow> f64 option" where
  "quantile_or_zero values q = map_option (case_sum (\<lambda>_. f_zero) id) (quantile values q)"

definition zscores :: "f64 list \<Rightarrow> f64 \<Rightarrow> f64 \<Rightarrow> f64 \<Rightarrow> AnomalyInfo list" where
  "zscores values med mad threshold =
     (if f_eq mad f_zero then []
      else List.map_filter
        (\<lambda>(i, v).
           let z = f_div (f_mul (f_dec 6745 4) (f_sub v med)) mad
           in if f_gt (f_abs z) threshold
              then Some \<lparr>an_index = i, an_value = v, modified_zscore = z, is_outlier = True\<rparr> else None)
        (enumerate 0 values))"

definition detect_anomalies_modified_zscore :: "f64 list \<Rightarrow> f64 \<Rightarrow> AnomalyInfo list option" where
  "detect_anomalies_modified_zscore values threshold =
     (if values = [] then Some []
      else
        (case quantile_or_zero values (f_dec 5 1) of
           None \<Rightarrow> None
         | Some med \<Rightarrow>
             map_option (\<lambda>mad. zscores values med mad threshold)
               (quantile_or_zero (map (\<lambda>x. f_abs (f_sub x med)) values) (f_dec 5 1))))"

end
