(* ===== verification/Regression.thy ===== *)
theory Regression
  imports Stats_Calculator Analyzer_Base
begin

text \<open>
  Regressions of a query over time (\<open>crates/core/src/sql_analysis/regression.rs\<close>): the statistical detector,
  the heuristic for few executions and the engine that chooses between them. A point in time is its number
  of nanoseconds. A panic (an index or a slice out of range, a length below zero, a sort of values with a NaN) is the value \<open>None\<close>.
\<close>

section \<open>Results\<close>

datatype RegressionStatus = Status_None | Status_Minor | Status_Significant | Status_Critical | InsufficientData

datatype PerformanceMetric =
  AvgExecutionTime | MaxExecutionTime | P95ExecutionTime | P99ExecutionTime | ExecutionFrequency | MemoryUsage |
  CpuUsage | IoOperations | CacheHitRatio

datatype RegressionSeverity = Low_Regression | Medium_Regression | High_Regression | Critical_Regression

record MetricRegression =
  reg_metric :: PerformanceMetric
  reg_severity :: RegressionSeverity
  current_value :: f64
  baseline_value :: f64
  percentage_change :: f64
  statistical_significance :: f64
  regression_start :: "int option"

record TimePeriod =
  period_start :: int
  period_end :: int
  duration_hours :: int

datatype TrendDirection = Improving | Stable | Degrading | Volatile

datatype SeasonalityType = Hourly | Daily | Weekly | Monthly

record SeasonalityPattern =
  pattern_type :: SeasonalityType
  season_strength :: f64
  peak_periods :: "TimePeriod list"
  low_periods :: "TimePeriod list"

datatype ChangeType = Improvement | Degradation | VarianceChange | TrendChange

record ChangePoint =
  cp_timestamp :: int
  change_type :: ChangeType
  magnitude :: f64
  cp_confidence :: f64
  possible_causes :: "string list"

record TemporalAnalysis =
  analysis_period :: TimePeriod
  trend :: TrendDirection
  trend_strength :: f64
  seasonality :: "SeasonalityPattern option"
  change_points :: "ChangePoint list"

record StatisticalTest =
  st_test_name :: string
  st_test_statistic :: f64
  st_p_value :: f64
  st_is_significant :: bool
  st_interpretation :: string

datatype DistributionType = Normal | LogNormal | Exponential | Uniform | Bimodal | Unknown_Distribution

record DistributionAnalysis =
  distribution_type :: DistributionType
  dist_mean :: f64
  dist_std_dev :: f64
  dist_skewness :: f64
  dist_kurtosis :: f64
  outlier_percentage :: f64

datatype AnomalyType = HighValue | LowValue | Spike | Drop | ContextualAnomaly

record AnomalyDetection =
  ad_timestamp :: int
  ad_score :: f64
  expected_value :: f64
  actual_value :: f64
  anomaly_type :: AnomalyType

datatype CorrelationStrength = VeryWeak | Weak | Moderate | Strong | VeryStrong

record CorrelationAnalysis =
  metric1 :: PerformanceMetric
  metric2 :: PerformanceMetric
  co_correlation :: f64
  strength :: CorrelationStrength
  lag_minutes :: "int option"

record StatisticalAnalysis =
  tests_performed :: "StatisticalTest list"
  distribution :: DistributionAnalysis
  anomalies :: "AnomalyDetection list"
  correlations :: "CorrelationAnalysis list"

datatype RecommendationType = Investigation | Optimization | Scaling | Monitoring | Configuration | Maintenance
datatype Priority = Priority_Low | Priority_Medium | Priority_High | Priority_Critical
datatype ImpactLevel = Impact_Low | Impact_Medium | Impact_High
datatype EffortLevel = Effort_Low | Effort_Medium | Effort_High
datatype ConfidenceLevel = Confidence_Low | Confidence_Medium | Confidence_High | Confidence_VeryHigh

record RegressionRecommendation =
  recommendation_type :: RecommendationType
  priority :: Priority
  rec_description :: string
  expected_impact :: ImpactLevel
  effort_level :: EffortLevel
  actions :: "string list"

record RegressionAnalysis =
  status :: RegressionStatus
  metric_regressions :: "MetricRegression list"
  temporal_analysis :: TemporalAnalysis
  statistical_analysis :: StatisticalAnalysis
  recommendations :: "RegressionRecommendation list"
  confidence_level :: ConfidenceLevel

record PerformanceDataPoint =
  dp_timestamp :: int
  execution_time_ms :: f64
  memory_usage_mb :: "f64 option"
  cpu_usage_percent :: "f64 option"
  io_operations :: "nat option"
  cache_hit_ratio :: "f64 option"

section \<open>The detector\<close>

record RegressionDetector =
  detector_config :: RegressionDetectionConfig
  stats_calc :: StatisticalCalculator

definition detector_with_config :: "RegressionDetectionConfig \<Rightarrow> RegressionDetector" where
  "detector_with_config c =
     \<lparr>detector_config = c, stats_calc = with_significance default_calculator (significance_level c)\<rparr>"

definition default_detector :: RegressionDetector where
  "default_detector = detector_with_config (regression_detection_config default_workload)"

definition detector_with_thresholds :: "RegressionDetector \<Rightarrow> RegressionThresholds \<Rightarrow> RegressionDetector" where
  "detector_with_thresholds d t = d\<lparr>detector_config := (detector_config d)\<lparr>regression_thresholds := t\<rparr>\<rparr>"

definition detector_with_significance :: "RegressionDetector \<Rightarrow> f64 \<Rightarrow> RegressionDetector" where
  "detector_with_significance d l =
     d\<lparr>detector_config := (detector_config d)\<lparr>significance_level := l\<rparr>,
       stats_calc := with_significance (stats_calc d) l\<rparr>"

abbreviation levels_of :: "RegressionDetector \<Rightarrow> RegressionThresholds" where
  "levels_of d \<equiv> regression_thresholds (detector_config d)"

abbreviation times_of :: "PerformanceDataPoint list \<Rightarrow> f64 list" where
  "times_of data \<equiv> map execution_time_ms data"

definition calculate_average_execution_time :: "PerformanceDataPoint list \<Rightarrow> f64" where
  "calculate_average_execution_time data =
     (if data = [] then f_zero else f_div (f_sum (times_of data)) (f_of_nat (length data)))"

definition calculate_variance :: "PerformanceDataPoint list \<Rightarrow> f64" where
  "calculate_variance data = (if length data < 2 then f_zero else calc_sample_variance (times_of data))"

definition calculate_trend :: "PerformanceDataPoint list \<Rightarrow> TrendDirection option" where
  "calculate_trend data =
     (let mid_point = length data div 2
      in case (slice_option data 0 mid_point, slice_option data mid_point (length data)) of
           (Some first_half, Some second_half) \<Rightarrow>
             (let first_half_avg = calculate_average_execution_time first_half;
                  second_half_avg = calculate_average_execution_time second_half;
                  change_ratio = f_div (f_sub second_half_avg first_half_avg) first_half_avg;
                  cv = f_abs (f_div (f_sqrt (calculate_variance data)) (calculate_average_execution_time data))
              in Some (if f_gt cv (f_dec 5 1) then Volatile
                       else if f_gt change_ratio (f_dec 5 2) then Degrading
                       else if f_lt change_ratio (f_uminus (f_dec 5 2)) then Improving
                       else Stable))
         | _ \<Rightarrow> None)"

text \<open>A sum built up by \<open>+=\<close> from zero, and \<open>clamp(0.0, 1.0)\<close>.\<close>

definition f_accumulate :: "f64 list \<Rightarrow> f64" where "f_accumulate xs = foldl f_add f_zero xs"

definition clamp_unit :: "f64 \<Rightarrow> f64" where
  "clamp_unit x = (if f_lt x f_zero then f_zero else if f_gt x (f_lit 1) then f_lit 1 else x)"

definition calculate_trend_strength :: "PerformanceDataPoint list \<Rightarrow> f64" where
  "calculate_trend_strength data =
     (let n = f_of_nat (length data); x_mean = f_div (f_sub n (f_lit 1)) (f_lit 2);
          y_mean = calculate_average_execution_time data;
          points = map (\<lambda>(i, p). (f_of_nat i, execution_time_ms p)) (enumerate 0 data);
          ss_tot = f_accumulate (map (\<lambda>(x, y). powi2 (f_sub y y_mean)) points);
          slope_num = f_accumulate (map (\<lambda>(x, y). f_mul (f_sub x x_mean) (f_sub y y_mean)) points);
          slope_den = f_accumulate (map (\<lambda>(x, y). powi2 (f_sub x x_mean)) points)
      in if f_eq slope_den f_zero then f_zero
         else
           (let slope = f_div slope_num slope_den; intercept = f_sub y_mean (f_mul slope x_mean);
                ss_res = f_accumulate
                  (map (\<lambda>(x, y). powi2 (f_sub y (f_add (f_mul slope x) intercept))) points)
            in clamp_unit (if f_eq ss_tot f_zero then f_zero else f_sub (f_lit 1) (f_div ss_res ss_tot))))"

definition hourly_data :: "StatsLib \<Rightarrow> PerformanceDataPoint list \<Rightarrow> (nat \<rightharpoonup> f64 list)" where
  "hourly_data L data =
     foldl (\<lambda>m p. let h = hour_of_day L (dp_timestamp p)
                  in m(h \<mapsto> (case m h of Some v \<Rightarrow> v | None \<Rightarrow> []) @ [execution_time_ms p])) Map.empty data"

definition hourly_averages :: "(nat \<rightharpoonup> f64 list) \<Rightarrow> f64 list" where
  "hourly_averages m =
     List.map_filter
       (\<lambda>h. case m h of None \<Rightarrow> None | Some values \<Rightarrow> if values = [] then None else Some (f_average values))
       [0..<24]"

definition detect_seasonality :: "StatsLib \<Rightarrow> PerformanceDataPoint list \<Rightarrow> SeasonalityPattern option" where
  "detect_seasonality L data =
     (if length data < 168 then None
      else
        (let averages = hourly_averages (hourly_data L data)
         in if length averages < 4 then None
            else
              (let populated = f_of_nat (length averages); overall_avg = f_div (f_sum averages) populated
               in if f_le overall_avg f_zero \<or> \<not> is_finite overall_avg then None
                  else
                    (let variance = f_div (f_sum (map (\<lambda>a. powi2 (f_sub a overall_avg)) averages)) populated;
                         season = f_min (f_div (f_sqrt variance) overall_avg) (f_lit 1)
                     in if f_gt season (f_dec 2 1)
                        then Some \<lparr>pattern_type = Daily, season_strength = season, peak_periods = [],
                               low_periods = []\<rparr>
                        else None))))"

definition infer_possible_causes :: "f64 \<Rightarrow> string list" where
  "infer_possible_causes change =
     (if f_gt change (f_dec 5 1) then
        [''Major system change or deployment'', ''Infrastructure issue or resource contention'']
      else if f_gt change (f_dec 2 1) then
        [''Query plan change'', ''Index modification or corruption'', ''Data growth or distribution change'']
      else [''Minor configuration change'', ''Normal system variation''])"

text \<open>One round of the loop over the change points: whether there is one at \<open>i\<close>.\<close>

definition change_at :: "PerformanceDataPoint list \<Rightarrow> nat \<Rightarrow> nat \<Rightarrow> ChangePoint option option" where
  "change_at data window_size i =
     (if i < window_size then None
      else
        (case (slice_option data (i - window_size) i, slice_option data i (i + window_size), nth_option data i) of
           (Some before, Some after, Some point) \<Rightarrow>
             (let before_avg = calculate_average_execution_time before;
                  after_avg = calculate_average_execution_time after;
                  change = f_div (f_sub after_avg before_avg) before_avg
              in Some
                   (if f_gt (f_abs change) (f_dec 2 1)
                    then Some \<lparr>cp_timestamp = dp_timestamp point,
                           change_type = (if f_gt change f_zero then Degradation else Improvement),
                           magnitude = f_abs change, cp_confidence = f_dec 8 1,
                           possible_causes = infer_possible_causes change\<rparr>
                    else None))
         | _ \<Rightarrow> None))"

definition change_window :: "PerformanceDataPoint list \<Rightarrow> nat" where
  "change_window data = max 5 (min (length data div 10) 50)"

text \<open>The range ends at \<open>data.len() - window_size\<close>, which panics when it is below zero.\<close>

definition detect_change_points :: "PerformanceDataPoint list \<Rightarrow> ChangePoint list option" where
  "detect_change_points data =
     (let window_size = change_window data
      in if length data < window_size then None
         else map_option (List.map_filter id)
                (those (map (change_at data window_size) [window_size..<length data - window_size])))"

definition analyze_temporal_patterns :: "StatsLib \<Rightarrow> PerformanceDataPoint list \<Rightarrow> TemporalAnalysis option" where
  "analyze_temporal_patterns L data =
     (if data = [] then None
      else
        (let start = dp_timestamp (hd data); final = dp_timestamp (last data)
         in case calculate_trend data of
              None \<Rightarrow> None
            | Some direction \<Rightarrow>
                (case detect_change_points data of
                   None \<Rightarrow> None
                 | Some points \<Rightarrow>
                     Some \<lparr>analysis_period =
                              \<lparr>period_start = start, period_end = final, duration_hours = num_hours L (final - start)\<rparr>,
                            trend = direction, trend_strength = calculate_trend_strength data,
                            seasonality = detect_seasonality L data, change_points = points\<rparr>)))"

section \<open>Statistics of the detector\<close>

definition classify_distribution :: "f64 \<Rightarrow> f64 \<Rightarrow> DistributionType" where
  "classify_distribution skew kurt =
     (if f_lt (f_abs skew) (f_dec 5 1) \<and> f_lt (f_abs kurt) (f_dec 5 1) then Normal
      else if f_gt skew (f_lit 1) then LogNormal
      else if f_lt kurt (f_lit (- 1)) then Uniform
      else Unknown_Distribution)"

definition analyze_distribution :: "StatsLib \<Rightarrow> PerformanceDataPoint list \<Rightarrow> DistributionAnalysis option" where
  "analyze_distribution L data =
     (let values = times_of data
      in if values = [] then
           Some \<lparr>distribution_type = Unknown_Distribution, dist_mean = f_zero, dist_std_dev = f_zero,
             dist_skewness = f_zero, dist_kurtosis = f_zero, outlier_percentage = f_zero\<rparr>
         else
           (let skew = skewness L values; kurt = excess_kurtosis L values
            in map_option
                 (\<lambda>found.
                    let outliers = (case found of Inr is \<Rightarrow> is | Inl _ \<Rightarrow> [])
                    in \<lparr>distribution_type = classify_distribution skew kurt, dist_mean = f_average values,
                        dist_std_dev = sample_std_dev values, dist_skewness = skew, dist_kurtosis = kurt,
                        outlier_percentage =
                          f_mul (f_div (f_of_nat (length outliers)) (f_of_nat (length values))) (f_lit 100)\<rparr>)
                 (detect_iqr_outliers values)))"

definition classify_anomaly :: "f64 list \<Rightarrow> AnomalyInfo \<Rightarrow> AnomalyType option" where
  "classify_anomaly values info =
     map_option
       (\<lambda>med.
          let above = f_gt (an_value info) med
          in if f_gt (modified_zscore info) (f_lit 4) then (if above then Spike else Drop)
             else if above then HighValue else LowValue)
       (quantile_or_zero values (f_dec 5 1))"

definition anomaly_of :: "PerformanceDataPoint list \<Rightarrow> AnomalyInfo \<Rightarrow> AnomalyDetection option" where
  "anomaly_of data info =
     (let values = times_of data
      in case (nth_option data (an_index info), classify_anomaly values info, quantile_or_zero values (f_dec 5 1)) of
           (Some point, Some kind, Some med) \<Rightarrow>
             Some \<lparr>ad_timestamp = dp_timestamp point, ad_score = f_abs (modified_zscore info),
               expected_value = med, actual_value = an_value info, anomaly_type = kind\<rparr>
         | _ \<Rightarrow> None)"

definition detect_anomalies :: "PerformanceDataPoint list \<Rightarrow> AnomalyDetection list option" where
  "detect_anomalies data =
     (case detect_anomalies_modified_zscore (times_of data) (f_dec 35 1) of
        None \<Rightarrow> None
      | Some infos \<Rightarrow> those (map (anomaly_of data) infos))"

definition perform_statistical_tests :: "StatsLib \<Rightarrow> RegressionDetector \<Rightarrow> PerformanceDataPoint list \<Rightarrow>
    StatisticalTest list" where
  "perform_statistical_tests L d data =
     (case normality_test L (stats_calc d) (times_of data) of
        Inl _ \<Rightarrow> []
      | Inr r \<Rightarrow>
          [\<lparr>st_test_name = nt_test_name r, st_test_statistic = nt_test_statistic r, st_p_value = nt_p_value r,
            st_is_significant = (\<not> nt_is_normal r),
            st_interpretation =
              (if nt_is_normal r then ''Data appears to follow a normal distribution''
               else ''Data significantly deviates from normal distribution (skewness: '' @
                 fmt_fixed 3 (nt_skewness r) @ '', kurtosis: '' @ fmt_fixed 3 (nt_kurtosis r) @ '')'')\<rparr>])"

definition classify_correlation_strength :: "f64 \<Rightarrow> CorrelationStrength" where
  "classify_correlation_strength r =
     (let abs_corr = f_abs r
      in if f_ge abs_corr (f_dec 9 1) then VeryStrong
         else if f_ge abs_corr (f_dec 7 1) then Strong
         else if f_ge abs_corr (f_dec 5 1) then Moderate
         else if f_ge abs_corr (f_dec 3 1) then Weak
         else VeryWeak)"

definition correlate_with :: "StatsLib \<Rightarrow> PerformanceMetric \<Rightarrow> (PerformanceDataPoint \<Rightarrow> f64 option) \<Rightarrow>
    PerformanceDataPoint list \<Rightarrow> CorrelationAnalysis list" where
  "correlate_with L metric field data =
     (if list_ex (\<lambda>p. field p \<noteq> None) data then
        (let exec_times = times_of data; usage = List.map_filter field data
         in if length usage = length exec_times \<and> 3 \<le> length usage then
              (case correlation L exec_times usage of
                 Inl _ \<Rightarrow> []
               | Inr r \<Rightarrow> [\<lparr>metric1 = AvgExecutionTime, metric2 = metric, co_correlation = r,
                            strength = classify_correlation_strength r, lag_minutes = None\<rparr>])
            else [])
      else [])"

definition analyze_correlations :: "StatsLib \<Rightarrow> PerformanceDataPoint list \<Rightarrow> CorrelationAnalysis list" where
  "analyze_correlations L data =
     correlate_with L MemoryUsage memory_usage_mb data @ correlate_with L CpuUsage cpu_usage_percent data"

definition perform_statistical_analysis :: "StatsLib \<Rightarrow> RegressionDetector \<Rightarrow> PerformanceDataPoint list \<Rightarrow>
    StatisticalAnalysis option" where
  "perform_statistical_analysis L d data =
     (case (analyze_distribution L data, detect_anomalies data) of
        (Some shape, Some found) \<Rightarrow>
          Some \<lparr>tests_performed = perform_statistical_tests L d data, distribution = shape,
            anomalies = found, correlations = analyze_correlations L data\<rparr>
      | _ \<Rightarrow> None)"

end
