(* ===== verification/Regression_Engine.thy ===== *)
theory Regression_Engine
  imports Regression
begin

text \<open>
  The verdict of the regression analysis (\<open>crates/core/src/sql_analysis/regression.rs\<close>): what the detector
  concludes, the heuristic for few executions, and the engine that chooses between them, as
  \<open>analyze_regression\<close> of \<open>crates/core/src/log_parser.rs\<close> calls it. The current time is the argument
  \<open>now\<close>: the code reads the clock twice.
\<close>

section \<open>The verdict of the detector\<close>

definition classify_regression_severity :: "RegressionDetector \<Rightarrow> f64 \<Rightarrow> RegressionSeverity" where
  "classify_regression_severity d change =
     (if f_ge change (critical_threshold (levels_of d)) then Critical_Regression
      else if f_ge change (significant_threshold (levels_of d)) then High_Regression
      else if f_ge change (minor_threshold (levels_of d)) then Medium_Regression
      else Low_Regression)"

definition calculate_statistical_significance :: "StatsLib \<Rightarrow> RegressionDetector \<Rightarrow> PerformanceDataPoint list \<Rightarrow>
    PerformanceDataPoint list \<Rightarrow> f64" where
  "calculate_statistical_significance L d baseline current =
     (case welch_t_test L (stats_calc d) (times_of baseline) (times_of current) of
        Inr r \<Rightarrow> t_p_value r | Inl _ \<Rightarrow> f_lit 1)"

definition detect_metric_regressions :: "StatsLib \<Rightarrow> RegressionDetector \<Rightarrow> PerformanceDataPoint list \<Rightarrow>
    MetricRegression list option" where
  "detect_metric_regressions L d data =
     (let split_point = length data * 3 div 4
      in case (slice_option data 0 split_point, slice_option data split_point (length data)) of
           (Some baseline_data, Some current_data) \<Rightarrow>
             (let baseline_avg = calculate_average_execution_time baseline_data;
                  current_avg = calculate_average_execution_time current_data
              in if f_le baseline_avg f_zero then Some []
                 else
                   (let change = f_div (f_sub current_avg baseline_avg) baseline_avg
                    in if f_gt change (minor_threshold (levels_of d))
                       then map_option
                         (\<lambda>point.
                            [\<lparr>reg_metric = AvgExecutionTime, reg_severity = classify_regression_severity d change,
                              current_value = current_avg, baseline_value = baseline_avg,
                              percentage_change = f_mul change (f_lit 100),
                              statistical_significance =
                                calculate_statistical_significance L d baseline_data current_data,
                              regression_start = Some (dp_timestamp point)\<rparr>])
                         (nth_option current_data 0)
                       else Some []))
         | _ \<Rightarrow> None)"

definition regression_rank :: "RegressionSeverity \<Rightarrow> nat" where
  "regression_rank s =
     (case s of Low_Regression \<Rightarrow> 1 | Medium_Regression \<Rightarrow> 2 | High_Regression \<Rightarrow> 3 | Critical_Regression \<Rightarrow> 4)"

text \<open>\<open>max_by_key\<close> keeps the last of equal maxima.\<close>

definition worst_severity :: "RegressionSeverity list \<Rightarrow> RegressionSeverity option" where
  "worst_severity ss =
     foldl (\<lambda>m s. case m of None \<Rightarrow> Some s
                   | Some w \<Rightarrow> Some (if regression_rank w \<le> regression_rank s then s else w)) None ss"

definition determine_overall_status :: "MetricRegression list \<Rightarrow> RegressionStatus" where
  "determine_overall_status rs =
     (if rs = [] then Status_None
      else case worst_severity (map reg_severity rs) of
             Some Critical_Regression \<Rightarrow> Status_Critical
           | Some High_Regression \<Rightarrow> Status_Significant
           | Some Medium_Regression \<Rightarrow> Status_Significant
           | Some Low_Regression \<Rightarrow> Status_Minor
           | None \<Rightarrow> Status_None)"

section \<open>Recommendations and confidence\<close>

definition metric_debug :: "PerformanceMetric \<Rightarrow> string" where
  "metric_debug m =
     (case m of
        AvgExecutionTime \<Rightarrow> ''AvgExecutionTime'' | MaxExecutionTime \<Rightarrow> ''MaxExecutionTime''
      | P95ExecutionTime \<Rightarrow> ''P95ExecutionTime'' | P99ExecutionTime \<Rightarrow> ''P99ExecutionTime''
      | ExecutionFrequency \<Rightarrow> ''ExecutionFrequency'' | MemoryUsage \<Rightarrow> ''MemoryUsage'' | CpuUsage \<Rightarrow> ''CpuUsage''
      | IoOperations \<Rightarrow> ''IoOperations'' | CacheHitRatio \<Rightarrow> ''CacheHitRatio'')"

definition regression_recommendation :: "MetricRegression \<Rightarrow> RegressionRecommendation" where
  "regression_recommendation r =
     (case reg_severity r of
        Critical_Regression \<Rightarrow>
          \<lparr>recommendation_type = Investigation, priority = Priority_Critical,
           rec_description = ''Critical performance regression detected in '' @ metric_debug (reg_metric r),
           expected_impact = Impact_High, effort_level = Effort_High,
           actions = [''Immediately investigate query execution plans'',
             ''Check for recent system changes or deployments'', ''Review database statistics and indexes'']\<rparr>
      | High_Regression \<Rightarrow>
          \<lparr>recommendation_type = Optimization, priority = Priority_High,
           rec_description = ''Significant performance degradation requires optimization'',
           expected_impact = Impact_High, effort_level = Effort_Medium,
           actions = [''Analyze query execution plans for changes'',
             ''Consider query rewriting or index optimization'']\<rparr>
      | _ \<Rightarrow>
          \<lparr>recommendation_type = Monitoring, priority = Priority_Medium,
           rec_description = ''Minor performance degradation detected'',
           expected_impact = Impact_Medium, effort_level = Effort_Low,
           actions = [''Continue monitoring performance trends'', ''Schedule regular performance review'']\<rparr>)"

definition trend_recommendation :: RegressionRecommendation where
  "trend_recommendation =
     \<lparr>recommendation_type = Investigation, priority = Priority_High,
      rec_description = ''Strong degrading trend detected over time'',
      expected_impact = Impact_High, effort_level = Effort_Medium,
      actions = [''Investigate underlying cause of performance trend'',
        ''Consider proactive optimization measures'']\<rparr>"

definition anomaly_recommendation :: RegressionRecommendation where
  "anomaly_recommendation =
     \<lparr>recommendation_type = Investigation, priority = Priority_Medium,
      rec_description = ''High number of performance anomalies detected'',
      expected_impact = Impact_Medium, effort_level = Effort_Medium,
      actions = [''Investigate causes of performance variability'', ''Consider system stability improvements'']\<rparr>"

definition generate_recommendations :: "MetricRegression list \<Rightarrow> TemporalAnalysis \<Rightarrow> StatisticalAnalysis \<Rightarrow>
    RegressionRecommendation list" where
  "generate_recommendations rs temporal statistical =
     map regression_recommendation rs @
     (if trend temporal = Degrading \<and> f_gt (trend_strength temporal) (f_dec 7 1) then [trend_recommendation] else []) @
     (if 5 < length (anomalies statistical) then [anomaly_recommendation] else [])"

definition confidence_score :: "StatisticalAnalysis \<Rightarrow> nat \<Rightarrow> f64" where
  "confidence_score statistical data_size =
     (let score = f_add f_zero
            (if 1000 \<le> data_size then f_dec 4 1 else if 500 \<le> data_size then f_dec 3 1
             else if 100 \<le> data_size then f_dec 2 1 else f_dec 1 1);
          score = foldl (\<lambda>s t. if st_is_significant t then f_add s (f_dec 2 1) else s) score
            (tests_performed statistical);
          score = (if distribution_type (distribution statistical) = Normal then f_add score (f_dec 2 1) else score)
      in if f_lt (f_div (f_of_nat (length (anomalies statistical))) (f_of_nat data_size)) (f_dec 5 2)
         then f_add score (f_dec 2 1) else score)"

definition calculate_confidence_level :: "StatisticalAnalysis \<Rightarrow> nat \<Rightarrow> ConfidenceLevel" where
  "calculate_confidence_level statistical data_size =
     (let s = confidence_score statistical data_size
      in if f_ge s (f_dec 95 2) then Confidence_VeryHigh
         else if f_ge s (f_dec 85 2) then Confidence_High
         else if f_ge s (f_dec 70 2) then Confidence_Medium
         else Confidence_Low)"

definition create_insufficient_data_analysis :: "int \<times> int \<Rightarrow> RegressionAnalysis" where
  "create_insufficient_data_analysis now =
     \<lparr>status = InsufficientData, metric_regressions = [],
      temporal_analysis =
        \<lparr>analysis_period = \<lparr>period_start = fst now, period_end = snd now, duration_hours = 0\<rparr>, trend = Stable,
         trend_strength = f_zero, seasonality = None, change_points = []\<rparr>,
      statistical_analysis =
        \<lparr>tests_performed = [],
         distribution =
           \<lparr>distribution_type = Unknown_Distribution, dist_mean = f_zero, dist_std_dev = f_zero,
            dist_skewness = f_zero, dist_kurtosis = f_zero, outlier_percentage = f_zero\<rparr>,
         anomalies = [], correlations = []\<rparr>,
      recommendations =
        [\<lparr>recommendation_type = Monitoring, priority = Priority_Medium,
          rec_description = ''Collect more performance data for analysis'',
          expected_impact = Impact_Medium, effort_level = Effort_Low,
          actions = [''Enable more detailed performance logging'', ''Wait for more data points to accumulate'']\<rparr>],
      confidence_level = Confidence_Low\<rparr>"

text \<open>The whole detector. \<open>None\<close> is a panic; the \<open>Result\<close> of the code is never an error.\<close>

definition chronological :: "PerformanceDataPoint list \<Rightarrow> PerformanceDataPoint list" where
  "chronological data =
     (if sorted (map dp_timestamp data) then data else sort_key dp_timestamp data)"

definition detector_analyze :: "StatsLib \<Rightarrow> int \<times> int \<Rightarrow> RegressionDetector \<Rightarrow> PerformanceDataPoint list \<Rightarrow>
    RegressionAnalysis option" where
  "detector_analyze L now d data =
     (if length data < min_data_points (detector_config d) then Some (create_insufficient_data_analysis now)
      else
        (let data = chronological data
         in case analyze_temporal_patterns L data of
              None \<Rightarrow> None
            | Some temporal \<Rightarrow>
                (case (perform_statistical_analysis L d data, detect_metric_regressions L d data) of
                   (Some statistical, Some rs) \<Rightarrow>
                     Some \<lparr>status = determine_overall_status rs, metric_regressions = rs,
                       temporal_analysis = temporal, statistical_analysis = statistical,
                       recommendations = generate_recommendations rs temporal statistical,
                       confidence_level = calculate_confidence_level statistical (length data)\<rparr>
                 | _ \<Rightarrow> None)))"

section \<open>The heuristic for few executions\<close>

definition percent_change :: "f64 \<Rightarrow> f64 \<Rightarrow> f64" where
  "percent_change before after =
     (if f_gt before f_zero \<and> is_finite before then
        (let change = f_mul (f_div (f_sub after before) before) (f_lit 100)
         in if is_finite change then change else f_zero)
      else f_zero)"

definition basic_status :: "f64 \<Rightarrow> RegressionStatus" where
  "basic_status p =
     (if f_lt (f_abs p) (f_lit 5) then Status_None
      else if f_gt p (f_lit 5) \<and> f_le p (f_lit 20) then Status_Minor
      else if f_gt p (f_lit 20) \<and> f_le p (f_lit 50) then Status_Significant
      else if f_gt p (f_lit 50) then Status_Critical
      else Status_None)"

definition basic_recommendations :: "f64 \<Rightarrow> nat \<Rightarrow> RegressionRecommendation list" where
  "basic_recommendations p n =
     (if f_gt p (f_lit 20) then
        [\<lparr>recommendation_type = Investigation, priority = Priority_Medium,
          rec_description = ''Query execution time increased by '' @ fmt_fixed 1 p @ ''% (limited data: '' @
            nat_to_string n @ '' executions)'',
          expected_impact = Impact_Medium, effort_level = Effort_Low,
          actions = [''Review recent database changes'', ''Check for plan changes'']\<rparr>,
         \<lparr>recommendation_type = Monitoring, priority = Priority_Low,
          rec_description = ''Consider collecting more execution data for better regression analysis'',
          expected_impact = Impact_Low, effort_level = Effort_Low,
          actions = [''Increase log retention period'', ''Enable more detailed logging'']\<rparr>]
      else
        [\<lparr>recommendation_type = Monitoring, priority = Priority_Low,
          rec_description = ''Limited executions ('' @ nat_to_string n @
            '') - need 10+ for comprehensive regression analysis'',
          expected_impact = Impact_Low, effort_level = Effort_Low,
          actions = [''Collect more execution samples'', ''Monitor query over longer period'']\<rparr>])"

definition basic_analysis :: "StatsLib \<Rightarrow> PerformanceDataPoint list \<Rightarrow> f64 list \<Rightarrow> f64 list \<Rightarrow> RegressionAnalysis option" where
  "basic_analysis L sorted_points first_half second_half =
     (let durations = times_of sorted_points; avg_duration = f_average durations; mid_point = length durations div 2;
          first_half_avg = f_div (f_sum first_half) (f_of_nat mid_point);
          second_half_avg = f_div (f_sum second_half) (f_of_nat (length durations - mid_point));
          p = percent_change first_half_avg second_half_avg;
          rs = (if f_gt p (f_lit 5)
                then [\<lparr>reg_metric = AvgExecutionTime,
                       reg_severity = (if f_le p (f_lit 20) then Low_Regression
                         else if f_le p (f_lit 50) then Medium_Regression else High_Regression),
                       current_value = second_half_avg, baseline_value = first_half_avg, percentage_change = p,
                       statistical_significance = f_dec 7 1,
                       regression_start = map_option dp_timestamp (nth_option sorted_points mid_point)\<rparr>]
                else [])
      in if sorted_points = [] then None
         else
           (let start = dp_timestamp (hd sorted_points); final = dp_timestamp (last sorted_points)
            in Some \<lparr>status = basic_status p, metric_regressions = rs,
                 temporal_analysis =
                   \<lparr>analysis_period =
                      \<lparr>period_start = start, period_end = final,
                       duration_hours = max (num_seconds L (final - start) div 3600) 1\<rparr>,
                    trend = (if f_gt p (f_lit 5) then Degrading
                             else if f_lt p (f_lit (- 5)) then Improving else Stable),
                    trend_strength = f_min (f_div (f_abs p) (f_lit 100)) (f_lit 1), seasonality = None,
                    change_points = []\<rparr>,
                 statistical_analysis =
                   \<lparr>tests_performed = [],
                    distribution =
                      \<lparr>distribution_type = Normal, dist_mean = avg_duration,
                       dist_std_dev = f_max (f_abs (f_sub second_half_avg first_half_avg)) (f_lit 1),
                       dist_skewness = f_zero, dist_kurtosis = f_zero, outlier_percentage = f_zero\<rparr>,
                    anomalies = [], correlations = []\<rparr>,
                 recommendations = basic_recommendations p (length sorted_points), confidence_level = Confidence_Low\<rparr>))"

definition basic_regression :: "StatsLib \<Rightarrow> PerformanceDataPoint list \<Rightarrow> RegressionAnalysis option" where
  "basic_regression L data =
     (let sorted_points = sort_key dp_timestamp data; durations = times_of sorted_points;
          mid_point = length durations div 2
      in case (slice_option durations 0 mid_point, slice_option durations mid_point (length durations)) of
           (Some first_half, Some second_half) \<Rightarrow> basic_analysis L sorted_points first_half second_half
         | _ \<Rightarrow> None)"

section \<open>The engines\<close>

text \<open>An engine answers \<open>Some None\<close> when there are too few points, \<open>None\<close> is again a panic.\<close>

definition basic_engine :: "StatsLib \<Rightarrow> PerformanceDataPoint list \<Rightarrow> RegressionAnalysis option option" where
  "basic_engine L data =
     (if length data < 3 then Some None else map_option Some (basic_regression L data))"

definition statistical_engine :: "StatsLib \<Rightarrow> int \<times> int \<Rightarrow> PerformanceDataPoint list \<Rightarrow>
    RegressionAnalysis option option" where
  "statistical_engine L now data =
     (if length data < 3 then Some None
      else if length data < 10 then basic_engine L data
      else case detector_analyze L now default_detector data of
             None \<Rightarrow> None
           | Some a \<Rightarrow> if status a \<noteq> InsufficientData then Some (Some a) else basic_engine L data)"

definition default_regression_engine :: "bool \<Rightarrow> StatsLib \<Rightarrow> int \<times> int \<Rightarrow> PerformanceDataPoint list \<Rightarrow>
    RegressionAnalysis option option" where
  "default_regression_engine regression_feature L now data =
     (if regression_feature then statistical_engine L now data else basic_engine L data)"

definition data_point :: "ExecutionRecord \<Rightarrow> PerformanceDataPoint" where
  "data_point e =
     \<lparr>dp_timestamp = er_timestamp e, execution_time_ms = er_duration e, memory_usage_mb = None,
      cpu_usage_percent = None, io_operations = None, cache_hit_ratio = None\<rparr>"

definition analyze_regression :: "bool \<Rightarrow> StatsLib \<Rightarrow> int \<times> int \<Rightarrow> ExecutionRecord list \<Rightarrow>
    RegressionAnalysis option option" where
  "analyze_regression regression_feature L now executions =
     default_regression_engine regression_feature L now (map data_point executions)"

end
