(* ===== verification/Float_Sign.thy ===== *)
theory Float_Sign
  imports Threshold_Facts Stats_Calculator
begin

text \<open>
  Signs through arithmetic on floats: what a positive result says about the operands, and values in the order
  of their patterns.
\<close>

section \<open>Order of values\<close>

lemma pat_mag_nonneg: "0 \<le> p \<Longrightarrow> 0 \<le> pat_mag p"
  by (simp add: pat_mag_def)

lemma pat_mag_subnormal: "0 \<le> p \<Longrightarrow> p < 2 ^ 52 \<Longrightarrow> pat_mag p = of_int p * pow2 (- 1074)"
  by (simp add: pat_mag_def)

lemma pat_mag_ordered:
  assumes "0 \<le> p" and "p \<le> p'" and "p' \<le> inf_pat"
  shows "pat_mag p \<le> pat_mag p'"
proof (cases "2 ^ 52 \<le> p")
  case False
  then have sub: "pat_mag p = of_int p * pow2 (- 1074)" using assms(1) by (simp add: pat_mag_subnormal)
  show ?thesis
  proof (cases "2 ^ 52 \<le> p'")
    case True
    have "(of_int p :: rat) \<le> of_int (2 ^ 52)"
      using \<open>\<not> 2 ^ 52 \<le> p\<close> by (simp only: of_int_le_iff)
    then have "pat_mag p \<le> of_int (2 ^ 52) * pow2 (- 1074)"
      unfolding sub by (rule mult_right_mono) (rule pow2_nonneg)
    also have "\<dots> = pat_mag (2 ^ 52)" using pat_mag_scaled [of 0 "2 ^ 52"] by simp
    also have "\<dots> \<le> pat_mag p'" by (rule pat_mag_mono) (use True assms(3) in simp_all)
    finally show ?thesis .
  next
    case False
    then have "pat_mag p' = of_int p' * pow2 (- 1074)" using assms by (simp add: pat_mag_subnormal)
    then show ?thesis unfolding sub using assms(2) by (simp add: mult_right_mono)
  qed
qed (rule pat_mag_mono [OF _ assms(2,3)])

lemma zero_mag: "pat_mag 0 = 0" by (simp add: pat_mag_def)

lemma f_val_ordered:
  assumes "f_ord x \<le> f_ord y" and "is_finite x" and "is_finite y"
  shows "f_val x \<le> f_val y"
proof -
  note p = f_pat_nonneg [of x] f_pat_nonneg [of y]
  have "f_pat x \<le> f_pat y \<Longrightarrow> f_mag x \<le> f_mag y" "f_pat y \<le> f_pat x \<Longrightarrow> f_mag y \<le> f_mag x"
    using p assms(2,3) by (simp_all add: f_mag_pat pat_mag_ordered is_finite_def)
  moreover have "f_neg y \<Longrightarrow> \<not> f_neg x \<Longrightarrow> f_mag x = 0 \<and> f_mag y = 0"
  proof -
    assume "f_neg y" "\<not> f_neg x"
    then have "f_pat x = 0" "f_pat y = 0" using assms(1) p by (simp_all add: f_ord_def)
    then show "f_mag x = 0 \<and> f_mag y = 0" by (simp add: f_mag_pat zero_mag)
  qed
  ultimately show ?thesis
    using assms(1) f_mag_nonneg [of x] f_mag_nonneg [of y]
    by (cases "f_neg x"; cases "f_neg y") (simp_all add: f_val_def f_ord_def)
qed

section \<open>Positive floats\<close>

definition positive :: "f64 \<Rightarrow> bool" where
  "positive x \<longleftrightarrow> \<not> is_nan x \<and> \<not> f_neg x \<and> f_pat x \<noteq> 0"

lemma zero_float [simp]: "f_neg f_zero = False" "f_pat f_zero = 0" "f_ord f_zero = 0" "is_nan f_zero = False"
  "is_finite f_zero"
  by (simp_all add: f_zero_def mk_f64_bits f_ord_def is_nan_def is_finite_def inf_pat_def)

lemma nan_is_nan [simp]: "is_nan f_nan"
  by (simp add: f_nan_def is_nan_def mk_f64_bits inf_pat_def)

lemma nan_pat: "inf_pat < f_pat f_nan" using nan_is_nan unfolding is_nan_def .

lemma positive_gt: "f_gt x f_zero \<longleftrightarrow> positive x"
  using f_pat_nonneg [of x] by (auto simp: f_gt_def f_lt_def f_ord_def positive_def)

lemma positive_gt_trans: "f_gt x y \<Longrightarrow> positive y \<Longrightarrow> positive x"
  using f_pat_nonneg [of x] f_pat_nonneg [of y]
  by (auto simp: f_gt_def f_lt_def f_ord_def positive_def split: if_splits)

lemma round_bits: "f_neg (round_f64 n r) = n" "f_pat (round_f64 n r) = round_pat \<bar>r\<bar>"
proof -
  have "0 \<le> round_pat \<bar>r\<bar>" by (simp add: round_pat_nonneg)
  moreover have "round_pat \<bar>r\<bar> \<le> inf_pat" by (simp add: round_pat_def Let_def inf_pat_def)
  then have "round_pat \<bar>r\<bar> < 2 ^ 63" by (simp add: inf_pat_def)
  ultimately show "f_neg (round_f64 n r) = n" "f_pat (round_f64 n r) = round_pat \<bar>r\<bar>"
    by (simp_all add: round_f64_def mk_f64_bits)
qed

lemma zero_val: "f_pat x = 0 \<Longrightarrow> f_val x = 0"
  by (simp add: f_val_def f_mag_pat pat_mag_def)

lemma round_pat_0 [simp]: "round_pat 0 = 0" by (simp add: round_pat_def)

lemma positive_mul: "positive (f_mul x y) \<Longrightarrow> positive y \<Longrightarrow> positive x"
  by (auto simp: positive_def f_mul_def Let_def round_bits zero_val mk_f64_bits inf_pat_def split: if_splits)

lemma positive_div: "positive (f_div x y) \<Longrightarrow> positive y \<Longrightarrow> positive x"
  by (auto simp: positive_def f_div_def Let_def round_bits zero_val mk_f64_bits is_infinite_def inf_pat_def split: if_splits)

lemma uminus_bits: "f_neg (f_uminus x) \<longleftrightarrow> \<not> f_neg x" "f_pat (f_uminus x) = f_pat x"
proof -
  have "f_pat x < 2 ^ 63" unfolding f_pat_def unsigned_take_bit_eq by (rule take_bit_int_less_exp)
  then show "f_neg (f_uminus x) \<longleftrightarrow> \<not> f_neg x" "f_pat (f_uminus x) = f_pat x"
    using f_pat_nonneg [of x] by (simp_all add: f_uminus_def mk_f64_bits)
qed

lemma uminus_facts: "is_nan (f_uminus x) = is_nan x" "is_infinite (f_uminus x) = is_infinite x"
  "f_val (f_uminus x) = - f_val x"
  by (simp_all add: is_nan_def is_infinite_def f_val_def f_mag_pat uminus_bits)

lemma positive_sub:
  assumes "positive (f_sub x y)"
  shows "f_lt y x"
proof (rule ccontr)
  assume not: "\<not> f_lt y x"
  have nan: "\<not> is_nan x" "\<not> is_nan y"
    using assms by (auto simp: positive_def f_sub_def f_add_def uminus_facts)
  with not have le: "f_ord x \<le> f_ord y" by (simp add: f_lt_def)
  show False
  proof (cases "is_infinite x \<or> is_infinite y")
    case True
    then show False using assms nan le f_pat_nonneg [of x] f_pat_nonneg [of y] nan_pat
      by (auto simp: positive_def f_sub_def f_add_def uminus_facts uminus_bits is_infinite_def is_nan_def f_ord_def
          split: if_splits)
  next
    case False
    then have fin: "is_finite x" "is_finite y" using nan by (auto simp: is_finite_def is_infinite_def is_nan_def)
    have "f_val x - f_val y \<le> 0" using f_val_ordered [OF le fin] by simp
    then show False using assms nan False
      by (auto simp: positive_def f_sub_def f_add_def Let_def uminus_facts round_bits split: if_splits)
  qed
qed

lemma positive_abs: "positive x \<Longrightarrow> f_abs x = x"
  by (auto intro!: f64_eqI simp: positive_def f_abs_def mk_f64_bits is_nan_def inf_pat_def f_pat_nonneg)

section \<open>The index of a quantile\<close>

lemma lit_of_nat: "f_lit (int n) = f_of_nat n"
  by (simp add: f_of_int_def f_of_nat_def)

lemma one_float: "\<not> is_nan (f_lit 1)" "\<not> is_infinite (f_lit 1)" "f_val (f_lit 1) = 1"
proof -
  have "scale 0 0 (f_lit 1)" by (rule scale_lit) (simp_all add: pow2_def)
  from scale_facts [OF this] show "\<not> is_nan (f_lit 1)" "\<not> is_infinite (f_lit 1)" "f_val (f_lit 1) = 1"
    by simp_all
qed

lemma last_index:
  assumes "1 \<le> k" and "k \<le> 2 ^ 52"
  shows "small_nonneg (int k - 1) (f_sub (f_of_nat k) (f_lit 1))"
proof -
  let ?x = "f_of_nat k"
  have "scale 0 52 ?x"
    using assms scale_lit [of 0 "int k" 52] by (simp add: lit_of_nat pow2_def)
  note x = scale_facts [OF this]
  have k: "small_nonneg (int k) ?x" using assms(2) by (intro small_of_nat) simp
  have r: "0 \<le> f_val ?x - 1" "f_val ?x - 1 \<le> of_int (int k - 1)"
    using x small_finite(6) [OF k] by simp_all
  have "f_sub ?x (f_lit 1) = round_f64 False (f_val ?x - 1)"
    using x one_float r(1) by (simp add: f_sub_def f_add_def Let_def uminus_facts)
  moreover have "small_nonneg (int k - 1) (round_f64 False (f_val ?x - 1))"
    using r assms(2) by (intro small_round) simp_all
  ultimately show ?thesis by simp
qed

lemma quantile_in_range:
  assumes "1 \<le> k" and "k \<le> 2 ^ 52" and "\<not> f_lt index f_zero" and "\<not> f_ge index (f_sub (f_of_nat k) (f_lit 1))"
  shows "f_to_u64 (f_floor index) < k"
proof (cases "is_nan index \<or> f_neg index")
  case True
  have "f_to_u64 (f_floor index) = 0"
  proof (cases "is_nan index")
    case False
    with True have neg: "f_neg index" by simp
    then have "f_pat index = 0"
      using assms(3) False f_pat_nonneg [of index] by (simp add: f_lt_def f_ord_def)
    then show ?thesis
      using neg by (simp add: f_floor_def f_to_u64_def is_infinite_def is_nan_def inf_pat_def round_bits zero_val)
  qed (simp add: f_floor_def f_to_u64_def)
  then show ?thesis using assms(1) by simp
next
  case False
  let ?l = "f_sub (f_of_nat k) (f_lit 1)"
  note l = last_index [OF assms(1,2)]
  note lf = small_finite [OF l]
  have ord: "f_pat index < f_pat ?l"
    using assms(4) False lf by (simp add: f_ge_def f_le_def f_ord_def)
  then have fin: "is_finite index" "is_finite ?l"
    using l by (simp_all add: small_nonneg_def is_finite_def)
  have "f_val index \<le> f_val ?l"
    by (rule f_val_ordered) (use ord False lf fin in \<open>simp_all add: f_ord_def\<close>)
  then have "small_nonneg (int k - 1) index"
    using fin(1) False lf by (simp add: small_nonneg_def is_finite_def f_val_def)
  then have "small_nonneg (int k - 1) (f_floor index)"
    using assms(2) by (intro small_floor) simp_all
  then have "int (f_to_u64 (f_floor index)) \<le> int k - 1"
    using assms(1) by (intro small_to_u64) simp_all
  then show ?thesis by linarith
qed

section \<open>Interpolation\<close>

lemma small_add: "small_nonneg a x \<Longrightarrow> small_nonneg b y \<Longrightarrow> a + b < 2 ^ 53 \<Longrightarrow> small_nonneg (a + b) (f_add x y)"
proof -
  assume a: "small_nonneg a x" "small_nonneg b y" "a + b < 2 ^ 53"
  note x = small_finite [OF a(1)] and y = small_finite [OF a(2)]
  have "small_nonneg (a + b) (round_f64 False (f_val x + f_val y))"
    by (rule small_round) (use x y a(3) in simp_all)
  then show ?thesis using x y by (cases "f_val x + f_val y = 0") (simp_all add: f_add_def Let_def)
qed

lemma small_one: "small_nonneg 1 (f_lit 1)"
proof -
  have "scale 0 0 (f_lit 1)" by (rule scale_lit) (simp_all add: pow2_def)
  from scale_facts [OF this] show ?thesis by (simp add: small_nonneg_def)
qed

lemma round_not_nan: "\<not> is_nan (round_f64 n r)"
proof -
  have "round_pat \<bar>r\<bar> \<le> inf_pat" by (simp add: round_pat_def Let_def inf_pat_def)
  then show ?thesis by (simp add: is_nan_def round_bits)
qed

lemma inf_not_nan: "\<not> is_nan (mk_f64 n inf_pat)"
  by (simp add: is_nan_def mk_f64_bits inf_pat_def)

lemma finite_kinds: "is_finite x \<Longrightarrow> \<not> is_nan x \<and> \<not> is_infinite x"
  by (auto simp: is_finite_def is_nan_def is_infinite_def)

lemma add_not_nan: "\<not> is_nan x \<Longrightarrow> \<not> is_nan y \<Longrightarrow> is_finite x \<or> is_finite y \<Longrightarrow> \<not> is_nan (f_add x y)"
  using finite_kinds by (auto simp: f_add_def Let_def round_not_nan)

lemma sub_not_nan: "\<not> is_nan x \<Longrightarrow> \<not> is_nan y \<Longrightarrow> is_finite x \<or> is_finite y \<Longrightarrow> \<not> is_nan (f_sub x y)"
  unfolding f_sub_def by (rule add_not_nan) (auto simp: uminus_facts uminus_bits is_finite_def)

lemma abs_not_nan: "\<not> is_nan x \<Longrightarrow> \<not> is_nan (f_abs x)"
proof -
  have "f_pat x < 2 ^ 63" unfolding f_pat_def unsigned_take_bit_eq by (rule take_bit_int_less_exp)
  then show "\<not> is_nan x \<Longrightarrow> \<not> is_nan (f_abs x)" by (simp add: f_abs_def is_nan_def mk_f64_bits f_pat_nonneg)
qed

text \<open>A duration: finite and not negative.\<close>

definition proper :: "f64 \<Rightarrow> bool" where "proper x \<longleftrightarrow> is_finite x \<and> \<not> f_neg x"

lemma small_proper: "small_nonneg m x \<Longrightarrow> proper x"
  by (simp add: small_nonneg_def proper_def is_finite_def)

lemma mul_proper:
  assumes "proper x" and "proper y"
  shows "\<not> is_nan (f_mul x y) \<and> \<not> f_neg (f_mul x y)"
  using assms finite_kinds [of x] finite_kinds [of y]
  by (simp add: proper_def f_mul_def Let_def round_not_nan round_bits)

lemma add_nonneg_not_nan:
  "\<not> is_nan x \<and> \<not> f_neg x \<Longrightarrow> \<not> is_nan y \<and> \<not> f_neg y \<Longrightarrow> \<not> is_nan (f_add x y)"
  by (auto simp: f_add_def Let_def round_not_nan)

lemma int_exact:
  assumes "0 \<le> n" and "n \<le> 2 ^ 52"
  shows "f_val (round_f64 False (of_int n)) = of_int n"
proof (cases "n = 0")
  case False
  let ?e = "log2_int n"
  have e: "0 \<le> ?e" "2 ^ nat ?e \<le> n" "n < 2 ^ nat (?e + 1)" using log2_int_bounds [of n] assms(1) False by auto
  have le: "?e \<le> 52"
  proof (rule ccontr)
    assume "\<not> ?e \<le> 52"
    then have "(2 :: int) ^ 53 \<le> 2 ^ nat ?e" by (intro power_increasing) simp_all
    then show False using e(2) assms(2) by simp
  qed
  define q where "q = n * 2 ^ nat (52 - ?e)"
  have two: "(2 :: int) ^ nat ?e * 2 ^ nat (52 - ?e) = 2 ^ 52" "(2 :: int) ^ nat (?e + 1) * 2 ^ nat (52 - ?e) = 2 ^ 53"
    using e(1) le by (simp_all flip: power_add nat_add_distrib)
  have q: "2 ^ 52 \<le> q" "q \<le> 2 ^ 53"
    using mult_right_mono [OF e(2), of "2 ^ nat (52 - ?e)"] mult_right_mono [OF less_imp_le [OF e(3)], of "2 ^ nat (52 - ?e)"]
    unfolding two by (simp_all add: q_def)
  have n: "of_int n = of_int q * pow2 ((?e + 1022) - 1074)"
  proof -
    have "(of_int q :: rat) = of_int n * pow2 (52 - ?e)" using le by (simp add: q_def pow2_nat)
    then show ?thesis by (simp add: mult.assoc pow2_shift)
  qed
  have p: "round_pat (of_int n) = (?e + 1022) * 2 ^ 52 + q"
    unfolding n using round_scaled [of q "?e + 1022"] q e(1) le by (simp add: inf_pat_def)
  have "pat_mag ((?e + 1022) * 2 ^ 52 + q) = of_int n"
    unfolding n by (rule pat_mag_scaled) (use q e(1) in simp_all)
  then show ?thesis using assms(1) by (simp add: f_val_def f_mag_pat round_bits p)
qed (simp add: zero_val round_bits)

lemma weight_small:
  assumes "small_nonneg m x" and "m \<le> 2 ^ 52"
  shows "small_nonneg 1 (f_sub x (f_floor x))" and "small_nonneg 1 (f_sub (f_lit 1) (f_sub x (f_floor x)))"
proof -
  note x = small_finite [OF assms(1)]
  have n: "0 \<le> \<lfloor>f_val x\<rfloor>" "\<lfloor>f_val x\<rfloor> \<le> 2 ^ 52"
    using x(5,6) assms(2) by (simp_all add: floor_le_iff)
  have fl: "f_floor x = round_f64 False (of_int \<lfloor>f_val x\<rfloor>)" using x by (simp add: f_floor_def)
  have v: "f_val (f_floor x) = of_int \<lfloor>f_val x\<rfloor>" unfolding fl by (rule int_exact [OF n])
  have s: "small_nonneg m (f_floor x)" by (rule small_floor) (use assms in simp_all)
  note f = small_finite [OF s]
  let ?r = "f_val x - of_int \<lfloor>f_val x\<rfloor>"
  have r: "0 \<le> ?r" "?r \<le> 1" by linarith+
  have "f_sub x (f_floor x) = round_f64 False ?r"
    using x f r(1) by (simp add: f_sub_def f_add_def Let_def uminus_facts v)
  moreover have "small_nonneg 1 (round_f64 False ?r)" by (rule small_round) (use r in simp_all)
  ultimately show w: "small_nonneg 1 (f_sub x (f_floor x))" by simp
  let ?w = "f_sub x (f_floor x)"
  note sw = small_finite [OF w] and so = small_finite [OF small_one]
  have r': "0 \<le> 1 - f_val ?w" "1 - f_val ?w \<le> 1" using sw by simp_all
  have "f_sub (f_lit 1) ?w = round_f64 False (1 - f_val ?w)"
    unfolding f_sub_def [of "f_lit 1"] using sw so r'(1) one_float by (simp add: f_add_def Let_def uminus_facts)
  moreover have "small_nonneg 1 (round_f64 False (1 - f_val ?w))" by (rule small_round) (use r' in simp_all)
  ultimately show "small_nonneg 1 (f_sub (f_lit 1) ?w)" by simp
qed

lemma negative_zero_weight:
  assumes "f_neg x" and "f_pat x = 0"
  shows "small_nonneg 1 (f_sub x (f_floor x))" and "small_nonneg 1 (f_sub (f_lit 1) (f_sub x (f_floor x)))"
proof -
  have fl: "f_floor x = round_f64 True 0"
    using assms by (simp add: f_floor_def is_nan_def is_infinite_def inf_pat_def zero_val)
  have w: "f_sub x (f_floor x) = round_f64 False 0"
    using assms
    by (simp add: fl f_sub_def f_add_def is_nan_def is_infinite_def inf_pat_def zero_val uminus_bits round_bits)
  then show sw: "small_nonneg 1 (f_sub x (f_floor x))" by (simp add: small_round)
  note so = small_finite [OF small_one]
  have "f_sub (f_lit 1) (round_f64 False 0) = round_f64 False 1"
    unfolding f_sub_def using so one_float round_not_nan [of False 0]
    by (simp add: f_add_def Let_def uminus_facts uminus_bits zero_val round_bits is_infinite_def inf_pat_def)
  then show "small_nonneg 1 (f_sub (f_lit 1) (f_sub x (f_floor x)))" by (simp add: w small_round)
qed

text \<open>The index of a quantile that is neither before the first value nor at the last.\<close>

lemma index_small:
  assumes "1 \<le> k" and "k \<le> 2 ^ 52" and "\<not> is_nan index" and "\<not> f_lt index f_zero"
    and "\<not> f_ge index (f_sub (f_of_nat k) (f_lit 1))"
  shows "small_nonneg (int k - 1) index \<or> f_neg index \<and> f_pat index = 0"
proof (cases "f_neg index")
  case True
  then show ?thesis using assms(3,4) f_pat_nonneg [of index] by (simp add: f_lt_def f_ord_def)
next
  case False
  let ?l = "f_sub (f_of_nat k) (f_lit 1)"
  note l = last_index [OF assms(1,2)]
  note lf = small_finite [OF l]
  have ord: "f_pat index < f_pat ?l" using assms(3,5) False lf by (simp add: f_ge_def f_le_def f_ord_def)
  then have fin: "is_finite index" "is_finite ?l" using l by (simp_all add: small_nonneg_def is_finite_def)
  have "f_val index \<le> f_val ?l" by (rule f_val_ordered) (use ord False lf fin in \<open>simp_all add: f_ord_def\<close>)
  then show ?thesis using fin(1) False lf by (simp add: small_nonneg_def is_finite_def f_val_def)
qed

lemma index_not_nan:
  assumes "k \<le> 2 ^ 52" and "proper q"
  shows "\<not> is_nan (quantile_index k q)"
proof -
  have "small_nonneg (int k) (f_of_nat k)" using assms(1) by (intro small_of_nat) simp
  then have "small_nonneg (int k + 1) (f_add (f_of_nat k) (f_lit 1))" by (rule small_add [OF _ small_one]) (use assms(1) in simp)
  then have "proper (f_add (f_of_nat k) (f_lit 1))" by (rule small_proper)
  from mul_proper [OF assms(2) this] have "\<not> is_nan (f_mul q (f_add (f_of_nat k) (f_lit 1)))" by simp
  moreover have "is_finite (f_lit 1)" "\<not> is_nan (f_lit 1)"
    using small_proper [OF small_one] one_float by (simp_all add: proper_def)
  ultimately show ?thesis unfolding quantile_index_def by (intro sub_not_nan) simp_all
qed

lemma interpolate_proper:
  assumes "xs \<noteq> []" and "length xs \<le> 2 ^ 52" and "list_all proper xs" and "\<not> is_nan index"
    and "\<not> f_lt index f_zero" and "\<not> f_ge index (f_sub (f_of_nat (length xs)) (f_lit 1))"
  shows "\<exists>x. interpolate xs index = Some x \<and> \<not> is_nan x"
proof -
  have k: "1 \<le> length xs" using assms(1) by (simp add: Suc_le_eq)
  have low: "f_to_u64 (f_floor index) < length xs" by (rule quantile_in_range [OF k assms(2,5,6)])
  have up: "min (f_to_u64 (f_ceil index)) (length xs - 1) < length xs" using k by simp
  have w: "small_nonneg 1 (f_sub index (f_floor index))" "small_nonneg 1 (f_sub (f_lit 1) (f_sub index (f_floor index)))"
    using index_small [OF k assms(2,4,5,6)] assms(2) weight_small [of "int (length xs) - 1" index] negative_zero_weight [of index]
    by auto
  have p: "proper (xs ! f_to_u64 (f_floor index))" "proper (xs ! min (f_to_u64 (f_ceil index)) (length xs - 1))"
    using assms(3) low up by (simp_all add: list_all_length)
  show ?thesis
    using low up add_nonneg_not_nan [OF mul_proper [OF p(1) small_proper [OF w(2)]] mul_proper [OF p(2) small_proper [OF w(1)]]]
    by (simp add: interpolate_def nth_option_def Let_def)
qed

text \<open>What the interpolation reads, the values being in any way comparable.\<close>

lemma interpolate_reads:
  assumes "xs \<noteq> []" and "length xs \<le> 2 ^ 52" and "\<not> f_lt index f_zero"
    and "\<not> f_ge index (f_sub (f_of_nat (length xs)) (f_lit 1))"
  shows "interpolate xs index \<noteq> None"
proof -
  have k: "1 \<le> length xs" using assms(1) by (simp add: Suc_le_eq)
  then have "f_to_u64 (f_floor index) < length xs" using assms(2-4) by (rule quantile_in_range)
  then show ?thesis using k by (simp add: interpolate_def nth_option_def Let_def)
qed

lemma quantile_answers:
  assumes "length values \<le> 2 ^ 52" and "\<not> list_ex is_nan values"
  shows "quantile values q \<noteq> None"
proof (cases "values = []")
  case False
  then have "sort_key f_ord values \<noteq> []" by (metis length_0_conv length_sort)
  with False show ?thesis
    using assms interpolate_reads [of "sort_key f_ord values" "quantile_index (length values) q"]
    by (simp add: quantile_def sort_values_def nth_option_def Let_def)
qed (simp add: quantile_def)

lemma quantile_proper:
  assumes "length values \<le> 2 ^ 52" and "list_all proper values" and "proper q"
    and "quantile values q = Some (Inr x)"
  shows "\<not> is_nan x"
proof -
  have v: "values \<noteq> []" using assms(4) by (auto simp: quantile_def)
  let ?s = "sort_key f_ord values"
  have s: "?s \<noteq> []" "length ?s \<le> 2 ^ 52" "list_all proper ?s" "length ?s = length values"
    using v assms(1,2) by (simp_all add: list_all_iff) (metis length_0_conv length_sort)
  have nan: "\<not> is_nan (?s ! i)" if "i < length ?s" for i
    using s(3) that finite_kinds by (auto simp: list_all_length proper_def)
  have "x = ?s ! 0 \<or> x = ?s ! (length ?s - 1) \<or> \<not> is_nan x"
    using assms(4) v interpolate_proper [OF s(1-3) index_not_nan [OF assms(1,3)]] s(4)
    by (auto simp: quantile_def sort_values_def nth_option_def Let_def split: if_splits)
  moreover have "0 < length ?s" "length ?s - 1 < length ?s" using v s(4) by simp_all
  ultimately show ?thesis using nan by blast
qed

end
