(* ===== verification/Regression_Facts.thy ===== *)
theory Regression_Facts
  imports Regression_Engine Float_Sign
begin

text \<open>
  What the regression analysis promises: on finite, non-negative durations it never panics and answers whenever
  there are three executions, its verdict, its regressions and its numbers agree, and it does not depend on the order in which executions were read.
\<close>

section \<open>The order of the data\<close>

lemma chronological_sort: "chronological data = sort_key dp_timestamp data"
proof (cases "sorted (map dp_timestamp data)")
  case True
  then show ?thesis
    by (simp add: chronological_def properties_for_sort_key [of data data dp_timestamp])
qed (simp add: chronological_def)

lemma sort_reordered:
  assumes "mset xs = mset ys" and "distinct (map f xs)"
  shows "sort_key f xs = sort_key f ys"
proof (rule sort_key_inj_key_eq)
  show "mset xs = mset (sort_key f ys)" using assms(1) by simp
  show "inj_on f (set xs)" using assms(2) by (simp add: distinct_map)
  show "sorted (map f (sort_key f ys))" by simp
qed

lemma engine_reordered:
  assumes "mset data = mset data'" and "distinct (map dp_timestamp data)"
  shows "default_regression_engine feature L now data = default_regression_engine feature L now data'"
proof -
  have len: "length data = length data'" using assms(1) by (rule mset_eq_length)
  have s: "sort_key dp_timestamp data = sort_key dp_timestamp data'" by (rule sort_reordered [OF assms])
  have "basic_regression L data = basic_regression L data'"
    unfolding basic_regression_def s len ..
  then have "basic_engine L data = basic_engine L data'" unfolding basic_engine_def len by (rule arg_cong)
  moreover have "detector_analyze L now d data = detector_analyze L now d data'" for d
    unfolding detector_analyze_def chronological_sort s len ..
  ultimately show ?thesis
    unfolding default_regression_engine_def statistical_engine_def len by (simp only:)
qed

section \<open>No panic\<close>

lemma slice_option_inside: "a \<le> b \<Longrightarrow> b \<le> length xs \<Longrightarrow> slice_option xs a b = Some (take (b - a) (drop a xs))"
  by (simp add: slice_option_def)

lemma slice_option_halves: "m \<le> length xs \<Longrightarrow> slice_option xs 0 m = Some (take m xs)" "m \<le> length xs \<Longrightarrow> slice_option xs m (length xs) = Some (drop m xs)"
  by (simp_all add: slice_option_def)

lemma those_answers: "(\<And>x. x \<in> set xs \<Longrightarrow> f x \<noteq> None) \<Longrightarrow> those (map f xs) \<noteq> None"
  by (induction xs) (auto split: option.split)

lemma change_at_answers:
  assumes "w \<le> i" and "i + w \<le> length data" and "i < length data"
  shows "change_at data w i \<noteq> None"
  using assms by (simp add: change_at_def slice_option_inside nth_option_def Let_def)

lemma change_points_found:
  assumes "5 \<le> length data"
  shows "detect_change_points data \<noteq> None"
proof -
  let ?w = "change_window data"
  have w: "?w \<le> length data" "1 \<le> ?w" using assms by (simp_all add: change_window_def)
  have "those (map (change_at data ?w) [?w..<length data - ?w]) \<noteq> None"
    by (rule those_answers, rule change_at_answers) (use w in auto)
  then show ?thesis using w by (simp add: detect_change_points_def Let_def)
qed

lemma trend_answers: "calculate_trend data \<noteq> None"
  by (simp add: calculate_trend_def Let_def slice_option_halves)

lemma temporal_answers: "5 \<le> length data \<Longrightarrow> analyze_temporal_patterns L data \<noteq> None"
  using trend_answers [of data] change_points_found [of data]
  by (auto simp: analyze_temporal_patterns_def Let_def split: option.split)

lemma proper_comparable: "list_all proper xs \<Longrightarrow> \<not> list_ex is_nan xs"
  using finite_kinds by (auto simp: list_all_iff list_ex_iff proper_def)

lemma distribution_answers:
  assumes "length data \<le> 2 ^ 52" and "list_all proper (times_of data)"
  shows "analyze_distribution L data \<noteq> None"
proof -
  have q: "quantile (times_of data) q \<noteq> None" for q
    by (rule quantile_answers) (use assms proper_comparable in simp_all)
  have "quartiles (times_of data) \<noteq> None"
    using q [of "f_dec 25 2"] q [of "f_dec 75 2"] by (auto simp: quartiles_def split: option.split sum.split)
  then show ?thesis by (simp add: analyze_distribution_def detect_iqr_outliers_def Let_def)
qed

lemma median_is_proper: "proper (f_dec 5 1)" by code_simp

lemma median_answers:
  assumes "length values \<le> 2 ^ 52" and "list_all proper values"
  obtains med where "quantile_or_zero values (f_dec 5 1) = Some med" and "\<not> is_nan med"
proof -
  have "quantile values (f_dec 5 1) \<noteq> None" by (rule quantile_answers) (use assms proper_comparable in simp_all)
  then obtain r where r: "quantile values (f_dec 5 1) = Some r" by blast
  show thesis
  proof (cases r)
    case (Inl e)
    then show thesis using r by (intro that [of f_zero]) (simp_all add: quantile_or_zero_def)
  next
    case (Inr x)
    with r quantile_proper [OF assms median_is_proper] show thesis
      by (intro that [of x]) (simp_all add: quantile_or_zero_def)
  qed
qed

lemma anomalies_answer:
  assumes "length data \<le> 2 ^ 52" and "list_all proper (times_of data)"
  shows "detect_anomalies data \<noteq> None"
proof (cases "data = []")
  case True
  then show ?thesis by (simp add: detect_anomalies_def detect_anomalies_modified_zscore_def)
next
  case False
  let ?v = "times_of data"
  obtain med where med: "quantile_or_zero ?v (f_dec 5 1) = Some med" "\<not> is_nan med"
    using median_answers [of ?v] assms by auto
  let ?dev = "map (\<lambda>x. f_abs (f_sub x med)) ?v"
  have "\<not> is_nan (f_abs (f_sub x med))" if "x \<in> set ?v" for x
    using assms(2) that med(2) finite_kinds [of x]
    by (intro abs_not_nan sub_not_nan) (auto simp: list_all_iff proper_def)
  then have "\<not> list_ex is_nan ?dev" by (auto simp: list_ex_iff)
  then have "quantile ?dev (f_dec 5 1) \<noteq> None" by (intro quantile_answers) (use assms(1) in simp_all)
  then obtain mad where mad: "quantile_or_zero ?dev (f_dec 5 1) = Some mad" by (auto simp: quantile_or_zero_def)
  let ?infos = "zscores ?v med mad (f_dec 35 1)"
  have inside: "an_index info < length data" if "info \<in> set ?infos" for info
    using that by (auto simp: zscores_def Let_def List.map_filter_def in_set_enumerate_eq split: if_splits)
  have "those (map (anomaly_of data) ?infos) \<noteq> None"
  proof (rule those_answers)
    fix info assume "info \<in> set ?infos"
    from inside [OF this] med(1) show "anomaly_of data info \<noteq> None"
      by (simp add: anomaly_of_def classify_anomaly_def nth_option_def Let_def)
  qed
  then show ?thesis
    using False med(1) mad by (simp add: detect_anomalies_def detect_anomalies_modified_zscore_def)
qed

lemma metric_regressions_answer:
  assumes "data \<noteq> []"
  shows "detect_metric_regressions L d data \<noteq> None"
proof -
  have "length data * 3 div 4 < length data" using length_greater_0_conv [THEN iffD2, OF assms] by linarith
  then show ?thesis
    by (simp add: detect_metric_regressions_def Let_def slice_option_halves nth_option_def)
qed

lemma proper_sorted:
  "list_all proper (times_of data) \<Longrightarrow> list_all proper (times_of (chronological data))"
  by (simp add: chronological_sort list_all_iff)

lemma detector_answers:
  assumes "5 \<le> length data" and "length data \<le> 2 ^ 52" and "list_all proper (times_of data)"
  shows "\<exists>a. detector_analyze L now d data = Some a"
proof -
  let ?c = "chronological data"
  have c: "length ?c = length data" by (simp add: chronological_sort)
  then have "?c \<noteq> []" using assms(1) by auto
  then have "analyze_temporal_patterns L ?c \<noteq> None" "analyze_distribution L ?c \<noteq> None" "detect_anomalies ?c \<noteq> None"
    "detect_metric_regressions L d ?c \<noteq> None"
    using assms c by (simp_all add: temporal_answers distribution_answers anomalies_answer metric_regressions_answer proper_sorted)
  then show ?thesis
    by (auto simp: detector_analyze_def perform_statistical_analysis_def Let_def split: option.split)
qed

lemma basic_unfold:
  "basic_regression L data =
     (let s = sort_key dp_timestamp data; m = length s div 2
      in basic_analysis L s (take m (times_of s)) (drop m (times_of s)))"
proof -
  have "length (times_of (sort_key dp_timestamp data)) div 2 \<le> length (times_of (sort_key dp_timestamp data))" by simp
  from slice_option_halves [OF this] show ?thesis by (simp add: basic_regression_def Let_def)
qed

lemma basic_answers: "data \<noteq> [] \<Longrightarrow> \<exists>a. basic_regression L data = Some a"
proof -
  assume "data \<noteq> []"
  then have "sort_key dp_timestamp data \<noteq> []" by (metis length_0_conv length_sort)
  then show ?thesis by (simp add: basic_unfold basic_analysis_def Let_def)
qed

section \<open>The verdict\<close>

definition slower :: "MetricRegression \<Rightarrow> bool" where
  "slower r \<longleftrightarrow> reg_metric r = AvgExecutionTime \<and> f_lt f_zero (baseline_value r) \<and>
     f_lt (baseline_value r) (current_value r)"

definition coherent :: "RegressionAnalysis \<Rightarrow> bool" where
  "coherent a \<longleftrightarrow> (status a = Status_None) = (metric_regressions a = []) \<and>
     length (metric_regressions a) \<le> 1 \<and> list_all slower (metric_regressions a)"

lemma lit_positive: "positive (f_lit 5)" "positive (f_lit 100)" "positive (f_dec 10 2)"
  by code_simp+

lemma steps: "f_lt (f_lit 5) (f_lit 20)" "f_lt (f_lit 20) (f_lit 50)"
  by code_simp+

lemma basic_status_none: "(basic_status p = Status_None) = (\<not> f_gt p (f_lit 5))"
proof (cases "f_gt p (f_lit 5)")
  case True
  then have "f_abs p = p" using positive_abs positive_gt_trans lit_positive(1) by blast
  then show ?thesis using True steps by (auto simp: basic_status_def f_gt_def f_lt_def f_le_def)
next
  case False
  then show ?thesis using steps by (auto simp: basic_status_def f_gt_def f_lt_def f_le_def)
qed

lemma percent_positive:
  assumes "positive (percent_change before after)"
  shows "positive before" "f_lt before after"
proof -
  have c: "f_gt before f_zero" "positive (f_mul (f_div (f_sub after before) before) (f_lit 100))"
    using assms by (auto simp: percent_change_def Let_def positive_def split: if_splits)
  then show b: "positive before" by (simp add: positive_gt)
  then show "f_lt before after"
    using positive_sub positive_div positive_mul [OF c(2) lit_positive(2)] by blast
qed

lemma slower_intro:
  assumes "reg_metric r = AvgExecutionTime" and "positive (baseline_value r)"
    and "f_lt (baseline_value r) (current_value r)"
  shows "slower r"
  using assms by (simp add: slower_def flip: positive_gt) (simp add: f_gt_def)

lemma basic_coherent:
  assumes "basic_regression L data = Some a"
  shows "coherent a" and "status a \<noteq> InsufficientData"
proof -
  let ?d = "times_of (sort_key dp_timestamp data)"
  let ?m = "length ?d div 2"
  let ?b = "f_div (f_sum (take ?m ?d)) (f_of_nat ?m)"
  let ?c = "f_div (f_sum (drop ?m ?d)) (f_of_nat (length ?d - ?m))"
  let ?p = "percent_change ?b ?c"
  have a: "status a = basic_status ?p"
    using assms by (auto simp: basic_unfold basic_analysis_def Let_def split: if_splits)
  consider (slow) r where "f_gt ?p (f_lit 5)" "metric_regressions a = [r]" "reg_metric r = AvgExecutionTime"
      "baseline_value r = ?b" "current_value r = ?c"
    | (fine) "\<not> f_gt ?p (f_lit 5)" "metric_regressions a = []"
    using assms by (cases "f_gt ?p (f_lit 5)") (auto simp: basic_unfold basic_analysis_def Let_def split: if_splits)
  then show "coherent a"
  proof cases
    case slow
    then have p: "positive ?p" using positive_gt_trans lit_positive(1) by blast
    have "slower r"
      by (rule slower_intro) (use slow(3-5) percent_positive [OF p] in simp_all)
    then show ?thesis using slow(1,2) by (simp add: coherent_def a basic_status_none)
  next
    case fine
    then show ?thesis by (simp add: coherent_def a basic_status_none)
  qed
  show "status a \<noteq> InsufficientData" by (simp add: a basic_status_def)
qed

text \<open>The detector reports nothing milder than a significant regression.\<close>

lemma status_of_one:
  "determine_overall_status [r] =
     (case reg_severity r of Critical_Regression \<Rightarrow> Status_Critical | Low_Regression \<Rightarrow> Status_Minor
      | _ \<Rightarrow> Status_Significant)"
  by (simp add: determine_overall_status_def worst_severity_def split: RegressionSeverity.split)

lemma minor_is_positive: "positive (minor_threshold (levels_of default_detector))"
proof -
  have "minor_threshold (levels_of default_detector) = f_dec 10 2"
    by (simp add: default_detector_def detector_with_config_def regression_detection_config_def regression_levels_def
        default_workload_def default_regression_thresholds_def)
  then show ?thesis using lit_positive(3) by simp
qed

lemma detector_regressions:
  assumes "positive (minor_threshold (levels_of d))"
    and "detect_metric_regressions L d data = Some rs"
  shows "length rs \<le> 1" "list_all slower rs"
    "determine_overall_status rs \<in> (if rs = [] then {Status_None} else {Status_Significant, Status_Critical})"
proof -
  let ?n = "length data * 3 div 4"
  let ?b = "calculate_average_execution_time (take ?n data)"
  let ?c = "calculate_average_execution_time (drop ?n data)"
  let ?x = "f_div (f_sub ?c ?b) ?b"
  consider (slow) r where "rs = [r]" "\<not> f_le ?b f_zero" "f_gt ?x (minor_threshold (levels_of d))"
      "reg_metric r = AvgExecutionTime" "baseline_value r = ?b" "current_value r = ?c"
      "reg_severity r = classify_regression_severity d ?x"
    | (fine) "rs = []"
    using assms(2)
    by (cases "f_le ?b f_zero"; cases "f_gt ?x (minor_threshold (levels_of d))")
      (auto simp: detect_metric_regressions_def Let_def slice_option_halves)
  then have "length rs \<le> 1 \<and> list_all slower rs \<and>
    determine_overall_status rs \<in> (if rs = [] then {Status_None} else {Status_Significant, Status_Critical})"
  proof cases
    case slow
    have x: "positive ?x" using positive_gt_trans [OF slow(3) assms(1)] .
    then have "\<not> is_nan ?b" by (auto simp: positive_def f_div_def)
    then have b: "positive ?b"
      using slow(2) f_pat_nonneg [of ?b] by (auto simp: positive_def f_le_def f_ord_def split: if_splits)
    have "f_lt ?b ?c" using positive_sub positive_div [OF x b] by blast
    then have "slower r" by (intro slower_intro) (use slow(4-6) b in simp_all)
    moreover have "reg_severity r \<noteq> Low_Regression"
      using slow(3,7) by (auto simp: classify_regression_severity_def f_gt_def f_ge_def f_lt_def f_le_def)
    ultimately show ?thesis
      using slow(1) by (simp add: status_of_one split: RegressionSeverity.split)
  qed (simp add: determine_overall_status_def)
  then show "length rs \<le> 1" "list_all slower rs"
    "determine_overall_status rs \<in> (if rs = [] then {Status_None} else {Status_Significant, Status_Critical})"
    by blast+
qed

lemma basic_engine_answer:
  "if length data < 3 then basic_engine L data = Some None
   else \<exists>a. basic_engine L data = Some (Some a) \<and> status a \<noteq> InsufficientData \<and> coherent a"
proof (cases "length data < 3")
  case False
  then have "data \<noteq> []" by auto
  then obtain a where "basic_regression L data = Some a" using basic_answers by blast
  with False basic_coherent show ?thesis by (auto simp: basic_engine_def)
qed (simp add: basic_engine_def)

lemma detector_coherent:
  assumes "detector_analyze L now default_detector data = Some a" and "status a \<noteq> InsufficientData"
  shows "coherent a"
proof -
  obtain rs where rs: "detect_metric_regressions L default_detector (chronological data) = Some rs"
      "metric_regressions a = rs" "status a = determine_overall_status rs"
    using assms by (auto simp: detector_analyze_def Let_def create_insufficient_data_analysis_def
        split: if_splits option.splits)
  show ?thesis
    using detector_regressions [OF minor_is_positive rs(1)]
    by (auto simp: coherent_def rs(2,3) split: if_splits)
qed

text \<open>C22: the regression analysis of a query never panics, no matter how many executions there are (up to
  \<open>2 ^ 52\<close>), when their durations are finite and not negative: no index or slice is out of range and no list with a
  NaN is sorted. It answers exactly from three executions on; its answer is never that there is not enough data, its
  status says that there is no regression exactly when it lists none, and a listed one compares a positive baseline
  with a larger current average.\<close>

theorem regression_answers:
  assumes "length executions \<le> 2 ^ 52" and "list_all (\<lambda>e. proper (er_duration e)) executions"
  shows "if length executions < 3 then analyze_regression feature L now executions = Some None
    else \<exists>a. analyze_regression feature L now executions = Some (Some a) \<and> status a \<noteq> InsufficientData \<and> coherent a"
proof -
  let ?data = "map data_point executions"
  have proper: "length ?data \<le> 2 ^ 52" "list_all proper (times_of ?data)"
    using assms by (simp_all add: list_all_iff data_point_def)
  note basic = basic_engine_answer [of ?data L]
  have "if length ?data < 3 then statistical_engine L now ?data = Some None
    else \<exists>a. statistical_engine L now ?data = Some (Some a) \<and> status a \<noteq> InsufficientData \<and> coherent a"
  proof (cases "length ?data < 10")
    case True
    then show ?thesis using basic by (simp add: statistical_engine_def)
  next
    case False
    then have "5 \<le> length ?data" by simp
    from detector_answers [OF this proper] obtain a where
      a: "detector_analyze L now default_detector ?data = Some a" by blast
    then show ?thesis
      using False basic detector_coherent [OF a] by (auto simp: statistical_engine_def)
  qed
  then show ?thesis using basic by (simp add: analyze_regression_def default_regression_engine_def)
qed

text \<open>Twelve executions of 0, 1, ..., 11 milliseconds go through the statistical detector.\<close>

definition slowing :: "ExecutionRecord list" where
  "slowing = map (\<lambda>i. \<lparr>er_timestamp = int i, er_duration = f_of_nat i\<rparr>) [0..<12]"

theorem regression_answers_witness:
  "\<forall>L now. \<exists>a. analyze_regression True L now slowing = Some (Some a) \<and> status a \<noteq> InsufficientData \<and> coherent a"
proof (intro allI)
  fix L now
  have n: "length slowing = 12" by (simp add: slowing_def)
  have p: "list_all (\<lambda>e. proper (er_duration e)) slowing"
    by (auto simp: slowing_def list_all_iff intro!: small_proper [OF small_of_nat])
  have "length slowing \<le> 2 ^ 52" by (simp add: n)
  from regression_answers [OF this p, of True L now] n
  show "\<exists>a. analyze_regression True L now slowing = Some (Some a) \<and> status a \<noteq> InsufficientData \<and> coherent a"
    by simp
qed

text \<open>C23: the regression analysis does not depend on the order in which the executions of a query were read, when they
  have different times.\<close>

theorem regression_order_irrelevant:
  assumes "mset executions = mset executions'" and "distinct (map er_timestamp executions)"
  shows "analyze_regression feature L now executions = analyze_regression feature L now executions'"
  unfolding analyze_regression_def
proof (rule engine_reordered)
  show "mset (map data_point executions) = mset (map data_point executions')"
    using assms(1) by (simp add: mset_map)
  show "distinct (map dp_timestamp (map data_point executions))"
    using assms(2) by (simp add: data_point_def comp_def)
qed

definition sample_executions :: "ExecutionRecord list" where
  "sample_executions =
     [\<lparr>er_timestamp = 30, er_duration = f_lit 30\<rparr>, \<lparr>er_timestamp = 10, er_duration = f_lit 10\<rparr>,
      \<lparr>er_timestamp = 20, er_duration = f_lit 10\<rparr>]"

theorem regression_order_irrelevant_witness:
  "\<forall>feature L now.
     analyze_regression feature L now sample_executions = analyze_regression feature L now (rev sample_executions)"
  by (intro allI regression_order_irrelevant) (simp_all add: sample_executions_def)

end
