(* ===== verification/Export.thy ===== *)
theory Export
  imports Grouping "HOL-Library.Multiset" "HOL-Library.List_Lexorder" "HOL-Library.Product_Lexorder"
    "HOL-Library.Char_ord" "HOL-Library.Option_ord"
begin

text \<open>
  The export file (\<open>export.rs\<close>): from the groups of an analysis to the structure that is written, its
  redaction, and back. A hash map that is only iterated is the list of its entries in the order of
  iteration; the record \<open>ExportLib\<close> holds that order for the maps kept as maps, the printing and parsing
  of the hour keys (chrono) and of the whole file (serde), and \<open>Host\<close> what the process asks its
  environment for.
\<close>

section \<open>The structure of the file\<close>

datatype ExportedPlanFormat = ExportedText | ExportedJson

record SerializablePercentiles =
  sp_25 :: f64
  sp_50 :: f64
  sp_90 :: f64
  sp_95 :: f64
  sp_99 :: f64

record SerializableHourlyMetrics =
  sh_count :: nat
  sh_total :: f64
  sh_min :: f64
  sh_max :: f64
  sh_mean :: f64

record SerializableStatistics =
  ss_count :: nat
  ss_total :: f64
  ss_min :: f64
  ss_max :: f64
  ss_mean :: f64
  ss_std_dev :: f64
  ss_min_timestamp :: int
  ss_max_timestamp :: int
  ss_percentiles :: SerializablePercentiles
  ss_hourly_histogram :: "string \<rightharpoonup> SerializableHourlyMetrics"
  ss_samples :: "f64 list"

record ExportedQuery =
  xq_query_hash :: string
  xq_database :: "string option"
  xq_original_query :: string
  xq_normalized_query :: string
  xq_formatted_query :: string
  xq_plan :: string
  xq_plan_format :: "ExportedPlanFormat option"
  xq_statistics :: SerializableStatistics

record AnalysisPeriod =
  period_start :: int
  period_end :: int

record ExportMetadata =
  md_source_files :: "string list"
  md_hostname :: "string option"
  md_user :: "string option"
  md_tags :: "string \<rightharpoonup> string"

record AnalysisExport =
  ax_format_version :: nat
  ax_version :: string
  ax_exported_at :: int
  ax_period :: AnalysisPeriod
  ax_query_count :: nat
  ax_execution_count :: nat
  ax_queries :: "ExportedQuery list"
  ax_metadata :: ExportMetadata

definition EXPORT_FORMAT_VERSION :: nat where "EXPORT_FORMAT_VERSION = 3"

record ExportLib =
  hour_text :: "int \<Rightarrow> string"
  hour_parse :: "string \<Rightarrow> int option"
  hours_of :: "(int \<rightharpoonup> HourlyMetrics) \<Rightarrow> (int \<times> HourlyMetrics) list"
  buckets_of :: "(string \<rightharpoonup> SerializableHourlyMetrics) \<Rightarrow> (string \<times> SerializableHourlyMetrics) list"
  write_export :: "AnalysisExport \<Rightarrow> string"
  read_export :: "string \<Rightarrow> AnalysisExport option"

record Host =
  now_utc :: int
  package_version :: string
  host_name :: "string option"
  user_name :: "string option"

section \<open>Statistics\<close>

definition export_hour :: "HourlyMetrics \<Rightarrow> SerializableHourlyMetrics" where
  "export_hour m =
     \<lparr>sh_count = hm_count m, sh_total = hm_total m, sh_min = hm_min m, sh_max = hm_max m, sh_mean = hm_mean m\<rparr>"

definition import_hour :: "SerializableHourlyMetrics \<Rightarrow> HourlyMetrics" where
  "import_hour m =
     \<lparr>hm_count = sh_count m, hm_total = sh_total m, hm_min = sh_min m, hm_max = sh_max m, hm_mean = sh_mean m\<rparr>"

definition from_query_statistics :: "ExportLib \<Rightarrow> QueryGroupStatistics \<Rightarrow> SerializableStatistics" where
  "from_query_statistics L stats =
     (let hourly = foldl (\<lambda>acc (datetime, metrics). acc(hour_text L datetime \<mapsto> export_hour metrics)) Map.empty
            (hours_of L (qs_hourly_histogram stats));
          samples = map er_duration (take 100 (qs_executions stats));
          d = qs_duration stats; pc = st_percentiles d
      in \<lparr>ss_count = qs_count stats, ss_total = st_total d, ss_min = st_min d, ss_max = st_max d,
          ss_mean = st_mean d, ss_std_dev = st_std_dev d, ss_min_timestamp = qs_min_timestamp stats,
          ss_max_timestamp = qs_max_timestamp stats,
          ss_percentiles = \<lparr>sp_25 = p25 pc, sp_50 = p50 pc, sp_90 = p90 pc, sp_95 = p95 pc, sp_99 = p99 pc\<rparr>,
          ss_hourly_histogram = hourly, ss_samples = samples\<rparr>)"

definition to_query_statistics :: "ExportLib \<Rightarrow> SerializableStatistics \<Rightarrow> QueryGroupStatistics" where
  "to_query_statistics L ss =
     (let hourly = foldl (\<lambda>acc (hour_str, metrics).
            case hour_parse L hour_str of
              Some datetime \<Rightarrow> acc(datetime \<mapsto> import_hour metrics)
            | None \<Rightarrow> acc) Map.empty (buckets_of L (ss_hourly_histogram ss));
          pc = ss_percentiles ss
      in \<lparr>qs_count = ss_count ss,
          qs_duration = \<lparr>st_total = ss_total ss, st_mean = ss_mean ss, st_std_dev = ss_std_dev ss,
            st_min = ss_min ss, st_max = ss_max ss,
            st_percentiles = \<lparr>p25 = sp_25 pc, p50 = sp_50 pc, p90 = sp_90 pc, p95 = sp_95 pc, p99 = sp_99 pc\<rparr>\<rparr>,
          qs_min_timestamp = ss_min_timestamp ss, qs_max_timestamp = ss_max_timestamp ss,
          qs_hourly_histogram = hourly, qs_executions = []\<rparr>)"

section \<open>Export\<close>

definition query_fingerprint :: "Normalizer \<Rightarrow> ProcessedQuery \<Rightarrow> string" where
  "query_fingerprint N pq = hex16 (query_hash N (normalized_query (representative_plan pq)))"

definition source_format :: "QueryPlan \<Rightarrow> ExportedPlanFormat" where
  "source_format p = (case source p of TextSource _ _ \<Rightarrow> ExportedText | JsonSource _ _ \<Rightarrow> ExportedJson)"

definition exported_query :: "Normalizer \<Rightarrow> ExportLib \<Rightarrow> ProcessedQuery \<Rightarrow> ExportedQuery" where
  "exported_query N L pq =
     (let p = representative_plan pq
      in \<lparr>xq_query_hash = query_fingerprint N pq, xq_database = database p, xq_original_query = query_text p,
          xq_normalized_query = normalized_query p, xq_formatted_query = formatted_query p,
          xq_plan = raw_plan p, xq_plan_format = Some (source_format p),
          xq_statistics = from_query_statistics L (statistics pq)\<rparr>)"

definition export_step ::
  "Normalizer \<Rightarrow> ExportLib \<Rightarrow> int option \<times> int option \<times> nat \<times> ExportedQuery list \<Rightarrow>
     string \<times> ProcessedQuery \<Rightarrow> int option \<times> int option \<times> nat \<times> ExportedQuery list" where
  "export_step N L st entry =
     (case (st, entry) of
        ((lo, hi, total_executions, queries), (_, query)) \<Rightarrow>
          let stats = statistics query;
              total_executions = total_executions + qs_count stats;
              lo = (if (case lo of None \<Rightarrow> True | Some t \<Rightarrow> qs_min_timestamp stats < t)
                    then Some (qs_min_timestamp stats) else lo);
              hi = (if (case hi of None \<Rightarrow> True | Some t \<Rightarrow> t < qs_max_timestamp stats)
                    then Some (qs_max_timestamp stats) else hi)
          in (lo, hi, total_executions, queries @ [exported_query N L query]))"

text \<open>Descending by total time under \<open>total_cmp\<close>, then by hash, then by database (\<open>None\<close> first).\<close>

definition export_order :: "ExportedQuery \<Rightarrow> int \<times> string \<times> string option" where
  "export_order q = (- total_key (ss_total (xq_statistics q)), xq_query_hash q, xq_database q)"

definition from_processed_queries ::
  "Normalizer \<Rightarrow> ExportLib \<Rightarrow> Host \<Rightarrow> (string \<times> ProcessedQuery) list \<Rightarrow> string list \<Rightarrow> AnalysisExport" where
  "from_processed_queries N L H qs source_files =
     (case foldl (export_step N L) (None, None, 0, []) qs of
        (lo, hi, total_executions, queries) \<Rightarrow>
          let queries = sort_key export_order queries; now = now_utc H
          in \<lparr>ax_format_version = EXPORT_FORMAT_VERSION, ax_version = package_version H, ax_exported_at = now,
              ax_period = \<lparr>period_start = (case lo of Some t \<Rightarrow> t | None \<Rightarrow> now),
                           period_end = (case hi of Some t \<Rightarrow> t | None \<Rightarrow> now)\<rparr>,
              ax_query_count = length queries, ax_execution_count = total_executions, ax_queries = queries,
              ax_metadata = \<lparr>md_source_files = source_files, md_hostname = host_name H,
                             md_user = user_name H, md_tags = Map.empty\<rparr>\<rparr>)"

section \<open>Redaction\<close>

fun looks_parameterised :: "string \<Rightarrow> bool" where
  "looks_parameterised [] = False"
| "looks_parameterised (b # bs) =
     (b = CHR ''$'' \<and> (case bs of [] \<Rightarrow> False | c # _ \<Rightarrow> 48 \<le> code c \<and> code c \<le> 57) \<or> looks_parameterised bs)"

definition redact_query :: "ExportedQuery \<Rightarrow> ExportedQuery" where
  "redact_query q =
     (let q = q\<lparr>xq_original_query := [], xq_formatted_query := [], xq_plan := [], xq_plan_format := None\<rparr>
      in if \<not> looks_parameterised (xq_normalized_query q) then q\<lparr>xq_normalized_query := []\<rparr> else q)"

definition redact :: "AnalysisExport \<Rightarrow> AnalysisExport" where
  "redact ex =
     ex\<lparr>ax_queries := map redact_query (ax_queries ex),
        ax_metadata := (ax_metadata ex)\<lparr>md_hostname := None, md_user := None\<rparr>\<rparr>"

section \<open>Files\<close>

datatype ExportError = CannotCreate | CannotOpen | CannotParse | NewerFormat nat string

text \<open>The path is the outcome of opening it: whether it can be created, and the contents if it opens.\<close>

definition to_file :: "ExportLib \<Rightarrow> bool \<Rightarrow> AnalysisExport \<Rightarrow> ExportError + string" where
  "to_file L creatable ex = (if creatable then Inr (write_export L ex) else Inl CannotCreate)"

definition from_file :: "ExportLib \<Rightarrow> string option \<Rightarrow> ExportError + AnalysisExport" where
  "from_file L contents =
     (case contents of
        None \<Rightarrow> Inl CannotOpen
      | Some txt \<Rightarrow>
          (case read_export L txt of
             None \<Rightarrow> Inl CannotParse
           | Some ex \<Rightarrow>
               if EXPORT_FORMAT_VERSION < ax_format_version ex
               then Inl (NewerFormat (ax_format_version ex) (ax_version ex)) else Inr ex))"

section \<open>Import\<close>

text \<open>\<open>JsonPlanParser\<close>.\<close>

definition parse_json_content :: "('v, 'm) Env \<Rightarrow> string \<Rightarrow> PlanError + JsonPlan" where
  "parse_json_content E input =
     (case from_str (json E) input of
        None \<Rightarrow> Inl (PInvalidJson ''Input is not valid JSON'')
      | Some v \<Rightarrow>
          (case (case v of
                   JArray [] \<Rightarrow> Inl (PMissingJsonPlan ''JSON plan array is empty'')
                 | JArray (x # _) \<Rightarrow> Inr x
                 | JObject kvs \<Rightarrow> Inr (JObject kvs)
                 | _ \<Rightarrow> Inl (PInvalidJson ''JSON does not match PostgreSQL plan schema'')) of
             Inl e \<Rightarrow> Inl e
           | Inr first \<Rightarrow>
               (case from_value (json E) first of
                  None \<Rightarrow> Inl (PInvalidJson ''JSON does not match PostgreSQL plan schema'')
                | Some jp \<Rightarrow> Inr jp)))"

definition json_parse :: "('v, 'm) Env \<Rightarrow> string \<Rightarrow> PlanError + ParsedPlan" where
  "json_parse E input =
     (if \<not> looks_like_json_start input
      then Inl (PFormatDetection ''Input does not appear to be JSON format'')
      else
        (case parse_json_content E input of
           Inl e \<Rightarrow> Inl e
         | Inr _ \<Rightarrow>
             (case from_json_plan (json E) (patterns E) input of
                Inl _ \<Rightarrow> Inl (PInvalidJson ''Failed to convert JSON to ParsedPlan'')
              | Inr p \<Rightarrow> Inr p)))"

text \<open>Reading a \<open>Vec<JsonPlan>\<close> is reading an array whose elements all match the schema.\<close>

definition json_plans :: "JsonLib \<Rightarrow> string \<Rightarrow> JsonPlan list option" where
  "json_plans J raw =
     (case from_str J raw of Some (JArray vs) \<Rightarrow> those (map (from_value J) vs) | _ \<Rightarrow> None)"

text \<open>\<open>create_query_plan_from_parsed\<close> on the result of the JSON parser; on text it is
  \<open>create_text_plan\<close>.\<close>

definition create_parsed_json_plan ::
  "('v, 'm) Env \<Rightarrow> int \<Rightarrow> f64 \<Rightarrow> string \<Rightarrow> string \<Rightarrow> ParsedPlan \<Rightarrow> PlanError + QueryPlan" where
  "create_parsed_json_plan E ts dur q raw p =
     (case normalize_and_format E q of
        Inl e \<Rightarrow> Inl e
      | Inr (n, f) \<Rightarrow>
          (case json_plans (json E) raw of
             None \<Rightarrow> Inl (PInvalidJson ''Failed to parse JSON for PlanSource'')
           | Some [] \<Rightarrow> Inl (PMissingJsonPlan ''Empty JSON plan array'')
           | Some (jp # _) \<Rightarrow>
               Inr \<lparr>timestamp = ts, duration_ms = dur, query_text = q, database = None,
                    normalized_query = n, formatted_query = f, source = JsonSource raw jp, parsed = p\<rparr>))"

definition reparsed_plan :: "('v, 'm) Env \<Rightarrow> ExportedQuery \<Rightarrow> PlanError + QueryPlan" where
  "reparsed_plan E q =
     (let ts = ss_max_timestamp (xq_statistics q); dur = ss_max (xq_statistics q);
          is_json = (case xq_plan_format q of
              Some f \<Rightarrow> f = ExportedJson
            | None \<Rightarrow> looks_like_json_start (xq_plan q))
      in if is_json then
           (case json_parse E (xq_plan q) of
              Inl e \<Rightarrow> Inl e
            | Inr p \<Rightarrow> create_parsed_json_plan E ts dur (xq_original_query q) (xq_plan q) p)
         else
           text_finalize E \<lparr>t_timestamp = ts, t_duration = dur, t_query = xq_original_query q,
             t_lines = str_lines (xq_plan q)\<rparr>)"

definition minimal_plan :: "ExportedQuery \<Rightarrow> QueryPlan" where
  "minimal_plan q =
     \<lparr>timestamp = ss_max_timestamp (xq_statistics q), duration_ms = ss_max (xq_statistics q),
      query_text = xq_original_query q, database = xq_database q,
      normalized_query = xq_normalized_query q, formatted_query = xq_formatted_query q,
      source = TextSource (xq_plan q) [],
      parsed = \<lparr>root = PlanNode (UnknownNode ''Failed to parse during import'')
          \<lparr>startup_cost = f_zero, min_total_cost = f_zero, max_total_cost = f_zero, estimated_rows = 0,
           estimated_width = 0\<rparr> None [] new_properties ''Parse failed during import'',
        planning_time_ms = None, execution_time_ms = None\<rparr>\<rparr>"

definition imported_plan :: "('v, 'm) Env \<Rightarrow> ExportedQuery \<Rightarrow> QueryPlan" where
  "imported_plan E q =
     (case reparsed_plan E q of
        Inr p \<Rightarrow> p\<lparr>normalized_query := xq_normalized_query q, formatted_query := xq_formatted_query q,
                      database := xq_database q\<rparr>
      | Inl _ \<Rightarrow> minimal_plan q)"

definition import_key :: "ExportedQuery \<Rightarrow> string" where
  "import_key q =
     (case xq_database q of Some db \<Rightarrow> group_key (xq_query_hash q) db | None \<Rightarrow> xq_query_hash q)"

definition imported_query :: "('v, 'm) Env \<Rightarrow> ExportLib \<Rightarrow> ExportedQuery \<Rightarrow> ProcessedQuery" where
  "imported_query E L q =
     \<lparr>representative_plan = imported_plan E q, statistics = to_query_statistics L (xq_statistics q)\<rparr>"

definition to_processed_queries ::
  "('v, 'm) Env \<Rightarrow> ExportLib \<Rightarrow> AnalysisExport \<Rightarrow> (string \<times> ProcessedQuery) list" where
  "to_processed_queries E L ex =
     foldl (\<lambda>queries q. AList.update (import_key q) (imported_query E L q) queries) [] (ax_queries ex)"

end
