(* ===== verification/Results_State.thy ===== *)
theory Results_State
  imports Export
begin

text \<open>
  The state of the results screen of the terminal interface (\<open>results_state.rs\<close>,
  \<open>query_detail_view.rs\<close>): the sorted list of queries, the panes and the detail view, and what each key
  does. Drawing reads this state and is left out, with the caches and the table cursor it keeps. A panic is
  \<open>None\<close>: an index into the map of queries that is missing, and a sort of several queries by a statistic that is
  NaN for one of them. Integers wrap as in a release build: the selection, an \<open>usize\<close>, and the scroll positions,
  which are \<open>u16\<close> (a debug build panics on the overflow). The record \<open>UiEnv\<close> holds what a key press may find outside: the clipboard, the clock and the
  file system.
\<close>

section \<open>State\<close>

datatype SortOrder = SortCount | SortMean | SortMin | SortMax | SortStdDev

datatype FocusedPane = QueryList | QueryDetails | ExecutionPlan

datatype AnalysisTab = TabStatistics | TabComplexity | TabMetadata | TabRegression | TabInsights

datatype AnalysisStatus = NotStarted | Delayed int | Running | Completed | Failed string

record QueryDetailView =
  dv_query_scroll :: "16 word"
  dv_plan_scroll :: "16 word"
  dv_plan_horizontal_scroll :: "16 word"
  dv_ascii_plan_scroll :: "16 word"
  analysis_scroll :: "16 word"
  selected_tab :: AnalysisTab
  analysis_status :: AnalysisStatus
  analysis_delay_timer :: "int option"

datatype ViewMode = ListView | DetailView string QueryDetailView

record ResultsState =
  shown_queries :: "(string \<times> ProcessedQuery) list"
  sorted_query_fingerprints :: "string list"
  selected_query_index :: nat
  sort_order :: SortOrder
  sort_ascending :: bool
  query_scroll :: "16 word"
  plan_scroll :: "16 word"
  plan_horizontal_scroll :: "16 word"
  focused_pane :: FocusedPane
  notification :: "(string \<times> bool \<times> int) option"
  clipboard_held :: bool
  view_mode :: ViewMode

record UiEnv =
  ui_normalizer :: Normalizer
  ui_lib :: ExportLib
  ui_host :: Host
  ui_file_stamp :: string
  ui_creatable :: bool
  ui_clipboard_error :: "string option"
  ui_set_text_error :: "string \<Rightarrow> string option"
  ui_now :: int

datatype KeyCode =
    KeyChar char | KeyEnter | KeyTab | KeyUp | KeyDown | KeyPageUp | KeyPageDown | KeyLeft | KeyRight
  | KeyEsc | KeyBackspace | KeyNull | KeyOther

record KeyEvent =
  key_code :: KeyCode
  key_control :: bool

datatype StateChange = Keep | Exit

section \<open>Sorting\<close>

datatype Ordering = Less | Equal | Greater

definition cmp :: "'a::linorder \<Rightarrow> 'a \<Rightarrow> Ordering" where
  "cmp a b = (if a < b then Less else if a = b then Equal else Greater)"

text \<open>\<open>partial_cmp(..).unwrap_or(Equal)\<close>.\<close>

definition partial_cmp_or_equal :: "f64 \<Rightarrow> f64 \<Rightarrow> Ordering" where
  "partial_cmp_or_equal a b = (if f_lt a b then Less else if f_lt b a then Greater else Equal)"

definition sort_field :: "SortOrder \<Rightarrow> ProcessedQuery \<Rightarrow> ProcessedQuery \<Rightarrow> Ordering" where
  "sort_field s a b =
     (let x = qs_duration (statistics a); y = qs_duration (statistics b)
      in case s of
           SortCount \<Rightarrow> cmp (qs_count (statistics a)) (qs_count (statistics b))
         | SortMean \<Rightarrow> partial_cmp_or_equal (st_mean x) (st_mean y)
         | SortMin \<Rightarrow> partial_cmp_or_equal (st_min x) (st_min y)
         | SortMax \<Rightarrow> partial_cmp_or_equal (st_max x) (st_max y)
         | SortStdDev \<Rightarrow> partial_cmp_or_equal (st_std_dev x) (st_std_dev y))"

definition compare_queries :: "SortOrder \<Rightarrow> bool \<Rightarrow> ProcessedQuery \<Rightarrow> ProcessedQuery \<Rightarrow> Ordering" where
  "compare_queries s up a b =
     (case (if up then sort_field s a b else sort_field s b a) of
        Equal \<Rightarrow> cmp (normalized_query (representative_plan a)) (normalized_query (representative_plan b))
      | c \<Rightarrow> c)"

text \<open>\<open>sort_by\<close> is stable. With a NaN among the compared values the comparison is no total order, and the
  library may panic.\<close>

definition sorts_nan :: "SortOrder \<Rightarrow> ProcessedQuery \<Rightarrow> bool" where
  "sorts_nan s q =
     (let d = qs_duration (statistics q)
      in case s of SortCount \<Rightarrow> False | SortMean \<Rightarrow> is_nan (st_mean d) | SortMin \<Rightarrow> is_nan (st_min d)
         | SortMax \<Rightarrow> is_nan (st_max d) | SortStdDev \<Rightarrow> is_nan (st_std_dev d))"

fun insert_by :: "('a \<Rightarrow> 'a \<Rightarrow> Ordering) \<Rightarrow> 'a \<Rightarrow> 'a list \<Rightarrow> 'a list" where
  "insert_by c x [] = [x]"
| "insert_by c x (y # ys) = (if c x y = Greater then y # insert_by c x ys else x # y # ys)"

definition sort_by :: "('a \<Rightarrow> 'a \<Rightarrow> Ordering) \<Rightarrow> 'a list \<Rightarrow> 'a list" where
  "sort_by c xs = foldr (insert_by c) xs []"

definition sort_processed_queries :: "ResultsState \<Rightarrow> ResultsState option" where
  "sort_processed_queries S =
     (let fs = sorted_query_fingerprints S; q = (\<lambda>f. the (map_of (shown_queries S) f))
      in if length fs \<le> 1 \<or>
            list_all (\<lambda>f. map_of (shown_queries S) f \<noteq> None \<and> \<not> sorts_nan (sort_order S) (q f)) fs
         then Some (S\<lparr>sorted_query_fingerprints :=
           sort_by (\<lambda>f g. compare_queries (sort_order S) (sort_ascending S) (q f) (q g)) fs\<rparr>)
         else None)"

text \<open>\<open>from_imported_data\<close> and \<open>new_with_processed_queries\<close> build the same state.\<close>

definition new_with_processed_queries :: "(string \<times> ProcessedQuery) list \<Rightarrow> ResultsState option" where
  "new_with_processed_queries qs =
     sort_processed_queries
       \<lparr>shown_queries = qs, sorted_query_fingerprints = map fst qs, selected_query_index = 0,
        sort_order = SortCount, sort_ascending = False, query_scroll = 0, plan_scroll = 0,
        plan_horizontal_scroll = 0, focused_pane = QueryList, notification = None, clipboard_held = False,
        view_mode = ListView\<rparr>"

section \<open>Clipboard and export\<close>

definition notify :: "UiEnv \<Rightarrow> string \<Rightarrow> ResultsState \<Rightarrow> ResultsState" where
  "notify U m S = S\<lparr>notification := Some (m, False, ui_now U)\<rparr>"

definition notify_error :: "UiEnv \<Rightarrow> string \<Rightarrow> ResultsState \<Rightarrow> ResultsState" where
  "notify_error U m S = S\<lparr>notification := Some (m, True, ui_now U)\<rparr>"

definition NOTIFICATION_TTL :: int where "NOTIFICATION_TTL = 5000000000"

definition active_notification :: "int \<Rightarrow> ResultsState \<Rightarrow> (string \<times> bool) option" where
  "active_notification now S =
     (case notification S of
        Some (message, is_error, shown_at) \<Rightarrow> if now - shown_at < NOTIFICATION_TTL then Some (message, is_error) else None
      | None \<Rightarrow> None)"

definition copy_to_clipboard :: "UiEnv \<Rightarrow> string \<Rightarrow> ResultsState \<Rightarrow> (string + unit) \<times> ResultsState" where
  "copy_to_clipboard U copied S =
     (case (if clipboard_held S then None else ui_clipboard_error U) of
        Some e \<Rightarrow> (Inl (''Failed to access clipboard: '' @ e), S)
      | None \<Rightarrow>
          (case ui_set_text_error U copied of
             Some e \<Rightarrow> (Inl (''Failed to copy to clipboard: '' @ e), S\<lparr>clipboard_held := True\<rparr>)
           | None \<Rightarrow> (Inr (), S\<lparr>clipboard_held := True\<rparr>)))"

definition copy_with_feedback :: "UiEnv \<Rightarrow> string \<Rightarrow> string \<Rightarrow> ResultsState \<Rightarrow> ResultsState" where
  "copy_with_feedback U copied what S =
     (case copy_to_clipboard U copied S of
        (Inr _, S) \<Rightarrow> notify U (what @ '' copied to clipboard'') S
      | (Inl e, S) \<Rightarrow> notify_error U e S)"

definition selected_fingerprint :: "ResultsState \<Rightarrow> string option" where
  "selected_fingerprint S =
     (if selected_query_index S < length (sorted_query_fingerprints S)
      then Some (sorted_query_fingerprints S ! selected_query_index S) else None)"

text \<open>The outer option is the panic of the map index, the inner one the result.\<close>

definition get_current_sql :: "ResultsState \<Rightarrow> string option option" where
  "get_current_sql S =
     (case selected_fingerprint S of
        Some f \<Rightarrow> map_option (\<lambda>q. Some (formatted_query (representative_plan q))) (map_of (shown_queries S) f)
      | None \<Rightarrow> Some None)"

definition get_current_execution_plan :: "ResultsState \<Rightarrow> string option option" where
  "get_current_execution_plan S =
     (case selected_fingerprint S of
        Some f \<Rightarrow> map_option (\<lambda>q. Some (raw_plan (representative_plan q))) (map_of (shown_queries S) f)
      | None \<Rightarrow> Some None)"

definition export_to_json :: "UiEnv \<Rightarrow> ResultsState \<Rightarrow> string + string" where
  "export_to_json U S =
     (let filename = ''pg_analysis_'' @ ui_file_stamp U @ ''.json'';
          export = from_processed_queries (ui_normalizer U) (ui_lib U) (ui_host U) (shown_queries S) []
      in case to_file (ui_lib U) (ui_creatable U) export of
           Inl _ \<Rightarrow> Inl (''Failed to export: Failed to create export file: '' @ filename)
         | Inr _ \<Rightarrow> Inr filename)"

section \<open>Keys of the list\<close>

definition new_detail_view :: QueryDetailView where
  "new_detail_view =
     \<lparr>dv_query_scroll = 0, dv_plan_scroll = 0, dv_plan_horizontal_scroll = 0, dv_ascii_plan_scroll = 0,
      analysis_scroll = 0, selected_tab = TabStatistics, analysis_status = NotStarted, analysis_delay_timer = None\<rparr>"

definition start_analysis_delay :: "int \<Rightarrow> QueryDetailView \<Rightarrow> QueryDetailView" where
  "start_analysis_delay now d = d\<lparr>analysis_delay_timer := Some now, analysis_status := Delayed now\<rparr>"

definition switch_to_detail_view :: "UiEnv \<Rightarrow> ResultsState \<Rightarrow> ResultsState" where
  "switch_to_detail_view U S =
     (case selected_fingerprint S of
        Some f \<Rightarrow> S\<lparr>view_mode := DetailView f (start_analysis_delay (ui_now U) new_detail_view)\<rparr>
      | None \<Rightarrow> S)"

definition switch_to_list_view :: "ResultsState \<Rightarrow> ResultsState" where
  "switch_to_list_view S = S\<lparr>view_mode := ListView\<rparr>"

definition reset_scroll :: "ResultsState \<Rightarrow> ResultsState" where
  "reset_scroll S = S\<lparr>query_scroll := 0, plan_scroll := 0, plan_horizontal_scroll := 0\<rparr>"

definition choose_order :: "SortOrder \<Rightarrow> ResultsState \<Rightarrow> ResultsState option" where
  "choose_order s S =
     (let S = (if sort_order S = s then S\<lparr>sort_ascending := \<not> sort_ascending S\<rparr>
               else S\<lparr>sort_order := s, sort_ascending := False\<rparr>)
      in map_option (\<lambda>S. reset_scroll (S\<lparr>selected_query_index := 0\<rparr>)) (sort_processed_queries S))"

definition sat_sub16 :: "16 word \<Rightarrow> 16 word \<Rightarrow> 16 word" where
  "sat_sub16 a b = (if b \<le> a then a - b else 0)"

text \<open>\<open>-= 1\<close> on an \<open>usize\<close>.\<close>

definition usize_dec :: "nat \<Rightarrow> nat" where "usize_dec i = (if i = 0 then 2 ^ 64 - 1 else i - 1)"

definition press_up :: "ResultsState \<Rightarrow> ResultsState" where
  "press_up S =
     (case focused_pane S of
        QueryList \<Rightarrow>
          if 0 < selected_query_index S
          then reset_scroll (S\<lparr>selected_query_index := usize_dec (selected_query_index S)\<rparr>) else S
      | QueryDetails \<Rightarrow> if 0 < query_scroll S then S\<lparr>query_scroll := query_scroll S - 1\<rparr> else S
      | ExecutionPlan \<Rightarrow> if 0 < plan_scroll S then S\<lparr>plan_scroll := plan_scroll S - 1\<rparr> else S)"

definition press_down :: "ResultsState \<Rightarrow> ResultsState" where
  "press_down S =
     (case focused_pane S of
        QueryList \<Rightarrow>
          if selected_query_index S < length (sorted_query_fingerprints S) - 1
          then reset_scroll (S\<lparr>selected_query_index := selected_query_index S + 1\<rparr>) else S
      | QueryDetails \<Rightarrow> S\<lparr>query_scroll := query_scroll S + 1\<rparr>
      | ExecutionPlan \<Rightarrow> S\<lparr>plan_scroll := plan_scroll S + 1\<rparr>)"

definition next_pane :: "FocusedPane \<Rightarrow> FocusedPane" where
  "next_pane p =
     (case p of QueryList \<Rightarrow> QueryDetails | QueryDetails \<Rightarrow> ExecutionPlan | ExecutionPlan \<Rightarrow> QueryList)"

definition plain_list_key :: "UiEnv \<Rightarrow> KeyCode \<Rightarrow> ResultsState \<Rightarrow> (StateChange \<times> ResultsState) option" where
  "plain_list_key U k S =
     (if k = KeyChar CHR ''q'' then Some (Exit, S)
      else if k = KeyEnter then Some (Keep, switch_to_detail_view U S)
      else if k = KeyTab then Some (Keep, S\<lparr>focused_pane := next_pane (focused_pane S)\<rparr>)
      else if k = KeyChar CHR ''c'' then map_option (Pair Keep) (choose_order SortCount S)
      else if k = KeyChar CHR ''m'' then map_option (Pair Keep) (choose_order SortMean S)
      else if k = KeyChar CHR ''n'' then map_option (Pair Keep) (choose_order SortMin S)
      else if k = KeyChar CHR ''x'' then map_option (Pair Keep) (choose_order SortMax S)
      else if k = KeyChar CHR ''s'' then map_option (Pair Keep) (choose_order SortStdDev S)
      else if k = KeyUp then Some (Keep, press_up S)
      else if k = KeyDown then Some (Keep, press_down S)
      else if k = KeyPageUp then
        Some (Keep, case focused_pane S of
            QueryDetails \<Rightarrow> S\<lparr>query_scroll := sat_sub16 (query_scroll S) 5\<rparr>
          | ExecutionPlan \<Rightarrow> S\<lparr>plan_scroll := sat_sub16 (plan_scroll S) 5\<rparr>
          | QueryList \<Rightarrow> S)
      else if k = KeyPageDown then
        Some (Keep, case focused_pane S of
            QueryDetails \<Rightarrow> S\<lparr>query_scroll := query_scroll S + 5\<rparr>
          | ExecutionPlan \<Rightarrow> S\<lparr>plan_scroll := plan_scroll S + 5\<rparr>
          | QueryList \<Rightarrow> S)
      else if k = KeyLeft then
        Some (Keep, if focused_pane S = ExecutionPlan
          then S\<lparr>plan_horizontal_scroll := sat_sub16 (plan_horizontal_scroll S) 1\<rparr> else S)
      else if k = KeyRight then
        Some (Keep, if focused_pane S = ExecutionPlan
          then S\<lparr>plan_horizontal_scroll := plan_horizontal_scroll S + 1\<rparr> else S)
      else Some (Keep, S))"

definition process_list_key :: "UiEnv \<Rightarrow> KeyEvent \<Rightarrow> ResultsState \<Rightarrow> (StateChange \<times> ResultsState) option" where
  "process_list_key U e S =
     (let k = key_code e
      in if key_control e \<and> k = KeyChar CHR ''s'' then
           map_option (\<lambda>sql. (Keep, case sql of Some t \<Rightarrow> copy_with_feedback U t ''SQL'' S | None \<Rightarrow> S)) (get_current_sql S)
         else if key_control e \<and> k = KeyChar CHR ''e'' then
           map_option (\<lambda>plan. (Keep, case plan of
               Some t \<Rightarrow> copy_with_feedback U t ''Execution plan'' S | None \<Rightarrow> S)) (get_current_execution_plan S)
         else if key_control e \<and> k = KeyChar CHR ''x'' then
           Some (Keep, case export_to_json U S of
               Inr filename \<Rightarrow> notify U (''Exported to: '' @ filename) S
             | Inl err \<Rightarrow> notify_error U err S)
         else plain_list_key U k S)"

section \<open>Keys of the detail view\<close>

definition tab_key :: "KeyCode \<Rightarrow> AnalysisTab option" where
  "tab_key k =
     (if k = KeyChar CHR ''1'' then Some TabStatistics else if k = KeyChar CHR ''2'' then Some TabComplexity
      else if k = KeyChar CHR ''3'' then Some TabMetadata else if k = KeyChar CHR ''4'' then Some TabRegression
      else if k = KeyChar CHR ''5'' then Some TabInsights else None)"

definition detail_key :: "KeyCode \<Rightarrow> QueryDetailView \<Rightarrow> QueryDetailView" where
  "detail_key k d =
     (case tab_key k of
        Some tab \<Rightarrow> d\<lparr>selected_tab := tab\<rparr>
      | None \<Rightarrow>
          if k = KeyUp then d\<lparr>analysis_scroll := sat_sub16 (analysis_scroll d) 1\<rparr>
          else if k = KeyDown then d\<lparr>analysis_scroll := analysis_scroll d + 1\<rparr>
          else if k = KeyPageUp then d\<lparr>analysis_scroll := sat_sub16 (analysis_scroll d) 10\<rparr>
          else if k = KeyPageDown then d\<lparr>analysis_scroll := analysis_scroll d + 10\<rparr>
          else d)"

definition process_key :: "UiEnv \<Rightarrow> KeyEvent \<Rightarrow> ResultsState \<Rightarrow> (StateChange \<times> ResultsState) option" where
  "process_key U e S =
     (case view_mode S of
        ListView \<Rightarrow> process_list_key U e S
      | DetailView f d \<Rightarrow>
          (let k = key_code e; query = map_of (shown_queries S) f
           in if key_control e \<and> k = KeyChar CHR ''s'' then
                Some (Keep, case query of
                    Some q \<Rightarrow> copy_with_feedback U (formatted_query (representative_plan q)) ''SQL'' S
                  | None \<Rightarrow> S)
              else if key_control e \<and> k = KeyChar CHR ''e'' then
                Some (Keep, case query of
                    Some q \<Rightarrow> copy_with_feedback U (raw_plan (representative_plan q)) ''Execution plan'' S
                  | None \<Rightarrow> S)
              else if k = KeyChar CHR ''q'' then Some (Exit, S)
              else if k = KeyEsc \<or> k = KeyBackspace then Some (Keep, switch_to_list_view S)
              else Some (Keep, S\<lparr>view_mode := DetailView f (detail_key k d)\<rparr>)))"

text \<open>A session: the keys pressed one after the other, each with what it finds outside. The screen is left
  with the first \<open>Exit\<close>.\<close>

inductive session :: "(string \<times> ProcessedQuery) list \<Rightarrow> ResultsState \<Rightarrow> bool" for qs where
  session_start: "new_with_processed_queries qs = Some S \<Longrightarrow> session qs S"
| session_key: "session qs S \<Longrightarrow> process_key U e S = Some (Keep, S') \<Longrightarrow> session qs S'"

end
