(* ===== verification/Export_Facts.thy ===== *)
theory Export_Facts
  imports Export
begin

text \<open>
  What an export file keeps: the file does not depend on the order in which the groups are iterated, a
  redacted file holds no text but placeholders and still imports, and what is exported reads back.
\<close>

section \<open>Entries of maps\<close>

lemma same_entries:
  assumes "set ys = set xs" and "distinct (map fst xs)"
  shows "map_of ys = map_of xs"
proof
  fix k
  show "map_of ys k = map_of xs k"
  proof (cases "map_of ys k")
    case None
    then have "k \<notin> fst ` set xs" using assms(1) by (simp add: map_of_eq_None_iff)
    then show ?thesis using None map_of_eq_None_iff [of xs k] by simp
  next
    case (Some v)
    then have "(k, v) \<in> set xs" using map_of_SomeD [of ys k v] assms(1) by simp
    then show ?thesis using Some assms(2) by simp
  qed
qed

lemma inserted_entries:
  "foldl (\<lambda>acc (k, v). acc(f k \<mapsto> g v)) M xs = M ++ map_of (rev (map (\<lambda>(k, v). (f k, g v)) xs))"
  by (induction xs arbitrary: M) (auto simp: map_add_def fun_eq_iff split: option.splits)

lemma inserted_parsed_entries:
  "foldl (\<lambda>acc (s, v). case p s of Some k \<Rightarrow> acc(k \<mapsto> g v) | None \<Rightarrow> acc) M xs =
     M ++ map_of (rev (List.map_filter (\<lambda>(s, v). map_option (\<lambda>k. (k, g v)) (p s)) xs))"
  by (induction xs arbitrary: M)
    (auto simp: map_add_def fun_eq_iff List.map_filter_simps split: option.splits)

lemma updated_entries:
  "map_of (foldl (\<lambda>acc q. AList.update (k q) (v q) acc) A qs) = map_of A ++ map_of (rev (map (\<lambda>q. (k q, v q)) qs))"
  by (induction qs arbitrary: A) (auto simp: update_conv' map_add_def fun_eq_iff split: option.splits)

lemma distinct_images: "distinct (map fst xs) \<Longrightarrow> inj_on f (fst ` set xs) \<Longrightarrow> distinct (map fst (map (\<lambda>(k, v). (f k, g v)) xs))"
  by (simp add: distinct_map case_prod_unfold comp_def inj_on_def)

text \<open>An iteration of a finite map visits each entry once.\<close>

definition iterates :: "(('a \<rightharpoonup> 'b) \<Rightarrow> ('a \<times> 'b) list) \<Rightarrow> bool" where
  "iterates it \<longleftrightarrow> (\<forall>m. finite (dom m) \<longrightarrow> distinct (map fst (it m)) \<and> map_of (it m) = m)"

definition in_key_order :: "('a::linorder \<rightharpoonup> 'b) \<Rightarrow> ('a \<times> 'b) list" where
  "in_key_order m = map (\<lambda>k. (k, the (m k))) (sorted_list_of_set (dom m))"

lemma iterates_in_key_order: "iterates in_key_order"
proof -
  have "map_of (map (\<lambda>k. (k, the (m k))) (sorted_list_of_set (dom m))) k = m k" if "finite (dom m)"
    for m :: "'a \<rightharpoonup> 'b" and k
    using that by (cases "k \<in> dom m") (auto simp: map_of_map_keys map_of_eq_None_iff domIff intro: map_of_is_SomeI)
  then show ?thesis by (auto simp: iterates_def in_key_order_def fun_eq_iff comp_def)
qed

section \<open>Statistics\<close>

definition hours_readable :: "ExportLib \<Rightarrow> int set \<Rightarrow> bool" where
  "hours_readable L hs \<longleftrightarrow> (\<forall>h \<in> hs. hour_parse L (hour_text L h) = Some h)"

lemma import_export_hour [simp]: "import_hour (export_hour m) = m"
  by (simp add: import_hour_def export_hour_def)

lemma histogram_reads_back:
  assumes it: "iterates (hours_of L)" "iterates (buckets_of L)" and m: "finite (dom m)" "hours_readable L (dom m)"
  defines "X \<equiv> foldl (\<lambda>acc (h, v). acc(hour_text L h \<mapsto> export_hour v)) Map.empty (hours_of L m)"
  shows "foldl (\<lambda>acc (s, v). case hour_parse L s of Some h \<Rightarrow> acc(h \<mapsto> import_hour v) | None \<Rightarrow> acc) Map.empty
      (buckets_of L X) = m"
proof -
  define hs where "hs = hours_of L m"
  define ts where "ts = map (\<lambda>(h, v). (hour_text L h, export_hour v)) hs"
  have hs: "distinct (map fst hs)" "map_of hs = m" using it(1) m(1) by (simp_all add: iterates_def hs_def)
  have read: "\<forall>h \<in> fst ` set hs. hour_parse L (hour_text L h) = Some h"
    using m(2) hs(2) by (simp add: hours_readable_def dom_map_of_conv_image_fst [symmetric])
  then have inj: "inj_on (hour_text L) (fst ` set hs)" by (metis inj_onI option.inject)
  have ts: "distinct (map fst ts)" unfolding ts_def using hs(1) inj by (rule distinct_images)
  have "X = map_of (rev ts)" by (simp add: X_def hs_def [symmetric] ts_def inserted_entries)
  also have "\<dots> = map_of ts" using ts by (intro same_entries) simp_all
  finally have X: "X = map_of ts" .
  then have "finite (dom X)" by (simp add: finite_dom_map_of)
  then have "distinct (map fst (buckets_of L X))" "map_of (buckets_of L X) = map_of ts"
    using it(2) by (simp_all add: iterates_def X)
  then have set: "set (buckets_of L X) = set ts" using ts by (simp add: map_of_inject_set)
  let ?restored = "List.map_filter (\<lambda>(s, v). map_option (\<lambda>k. (k, import_hour v)) (hour_parse L s))"
  have "set (?restored (buckets_of L X)) = set (?restored ts)" using set by (auto simp: List.map_filter_def)
  also have "\<dots> = set hs"
  proof -
    have "?restored ts = hs" unfolding ts_def using read
      by (induction hs) (auto simp: List.map_filter_simps)
    then show ?thesis by simp
  qed
  finally have "map_of (rev (?restored (buckets_of L X))) = map_of hs"
    using hs(1) by (intro same_entries) simp_all
  then show ?thesis by (simp add: inserted_parsed_entries hs(2))
qed

lemma statistics_read_back:
  assumes "iterates (hours_of L)" "iterates (buckets_of L)"
    and "finite (dom (qs_hourly_histogram st))" "hours_readable L (dom (qs_hourly_histogram st))"
  shows "to_query_statistics L (from_query_statistics L st) = st\<lparr>qs_executions := []\<rparr>"
  using histogram_reads_back [OF assms]
  by (simp add: to_query_statistics_def from_query_statistics_def Let_def)

section \<open>The order of the groups\<close>

lemma export_fold:
  "foldl (export_step N L) (lo, hi, n, xs) qs =
     (foldl (\<lambda>lo q. Some (case lo of None \<Rightarrow> qs_min_timestamp (statistics (snd q))
                                    | Some t \<Rightarrow> min t (qs_min_timestamp (statistics (snd q))))) lo qs,
      foldl (\<lambda>hi q. Some (case hi of None \<Rightarrow> qs_max_timestamp (statistics (snd q))
                                    | Some t \<Rightarrow> max t (qs_max_timestamp (statistics (snd q))))) hi qs,
      n + (\<Sum>q\<leftarrow>qs. qs_count (statistics (snd q))), xs @ map (exported_query N L \<circ> snd) qs)"
  by (induction qs arbitrary: lo hi n xs)
    (auto simp: export_step_def Let_def min_def max_def split: option.splits)

lemma fold_min: "foldl (\<lambda>lo q. Some (case lo of None \<Rightarrow> f q | Some t \<Rightarrow> min t (f q))) None qs =
    (if qs = [] then None else Some (Min (f ` set qs)))" for f :: "'a \<Rightarrow> int"
proof (induction qs rule: rev_induct)
  case (snoc q qs)
  then show ?case by (cases "qs = []") (simp_all add: min.commute)
qed simp

lemma fold_max: "foldl (\<lambda>lo q. Some (case lo of None \<Rightarrow> f q | Some t \<Rightarrow> max t (f q))) None qs =
    (if qs = [] then None else Some (Max (f ` set qs)))" for f :: "'a \<Rightarrow> int"
proof (induction qs rule: rev_induct)
  case (snoc q qs)
  then show ?case by (cases "qs = []") (simp_all add: max.commute)
qed simp

text \<open>Each group stands under the fingerprint of its representative and its database.\<close>

definition keyed :: "Normalizer \<Rightarrow> (string \<times> ProcessedQuery) list \<Rightarrow> bool" where
  "keyed N qs \<longleftrightarrow> distinct (map fst qs) \<and>
     (\<forall>(k, pq) \<in> set qs. k = (case database (representative_plan pq) of
        Some db \<Rightarrow> group_key (query_fingerprint N pq) db
      | None \<Rightarrow> query_fingerprint N pq))"

lemma keyed_import_key: "keyed N qs \<Longrightarrow> (k, pq) \<in> set qs \<Longrightarrow> import_key (exported_query N L pq) = k"
  by (auto simp: keyed_def import_key_def exported_query_def Let_def split: option.splits)

lemma keyed_reordered: "keyed N qs \<Longrightarrow> mset qs' = mset qs \<Longrightarrow> keyed N qs'"
  using mset_eq_setD [of qs' qs] mset_eq_imp_distinct_iff [of "map fst qs'" "map fst qs"] by (simp add: keyed_def)

lemma keyed_orders_differ:
  assumes "keyed N qs"
  shows "inj_on export_order (set (map (exported_query N L \<circ> snd) qs))"
proof (rule inj_onI)
  fix x y
  assume "x \<in> set (map (exported_query N L \<circ> snd) qs)" "y \<in> set (map (exported_query N L \<circ> snd) qs)"
    and eq: "export_order x = export_order y"
  then obtain k l p q where pq: "(k, p) \<in> set qs" "(l, q) \<in> set qs"
      "x = exported_query N L p" "y = exported_query N L q" by auto
  have "import_key x = import_key y" using eq by (auto simp: import_key_def export_order_def split: option.split)
  then have "k = l" using pq keyed_import_key [OF assms] by simp
  then show "x = y" using pq assms by (metis eq_key_imp_eq_value keyed_def)
qed

lemma keyed_sorted:
  assumes "keyed N qs" and "mset qs' = mset qs"
  shows "sort_key export_order (map (exported_query N L \<circ> snd) qs') =
    sort_key export_order (map (exported_query N L \<circ> snd) qs)"
proof (rule sort_key_inj_key_eq)
  show "mset (map (exported_query N L \<circ> snd) qs') = mset (sort_key export_order (map (exported_query N L \<circ> snd) qs))"
    using assms(2) by simp
  show "inj_on export_order (set (map (exported_query N L \<circ> snd) qs'))"
    using keyed_reordered [OF assms] by (rule keyed_orders_differ)
qed simp

lemma exported_queries:
  "ax_queries (from_processed_queries N L H qs files) = sort_key export_order (map (exported_query N L \<circ> snd) qs)"
  by (simp add: from_processed_queries_def export_fold Let_def)

section \<open>Reading back\<close>

text \<open>The statistics of a group without the executions, its representative at the time of the last one and with
  the duration of the slowest.\<close>

definition reimported :: "ProcessedQuery \<Rightarrow> ProcessedQuery" where
  "reimported pq =
     (let st = statistics pq
      in \<lparr>representative_plan = (representative_plan pq)
            \<lparr>timestamp := qs_max_timestamp st, duration_ms := st_max (qs_duration st)\<rparr>,
          statistics = st\<lparr>qs_executions := []\<rparr>\<rparr>)"

text \<open>The plans the log reader builds: from the lines of a text plan or from a JSON document.\<close>

definition built :: "('v, 'm) Env \<Rightarrow> QueryPlan \<Rightarrow> bool" where
  "built E p \<longleftrightarrow>
     (\<exists>b. list_all plain_line (t_lines b) \<and> text_finalize E b = Inr p) \<or>
     (\<exists>b. snd (build_query_plan E b) = Inr (Some p))"

definition from_log :: "('v, 'm) Env \<Rightarrow> QueryPlan \<Rightarrow> bool" where
  "from_log E p \<longleftrightarrow> built E (p\<lparr>database := None\<rparr>)"

lemma text_reads_back:
  assumes "list_all plain_line (t_lines b)" and p: "text_finalize E b = Inr p"
  shows "source_format p = ExportedText" and
    "text_finalize E \<lparr>t_timestamp = ts, t_duration = d, t_query = query_text p, t_lines = str_lines (raw_plan p)\<rparr> =
      Inr (p\<lparr>timestamp := ts, duration_ms := d\<rparr>)"
proof -
  have "str_lines (join newline (t_lines b)) = t_lines b"
    using str_lines_join [OF assms(1)] by (simp add: newline_def)
  then show "source_format p = ExportedText" and
    "text_finalize E \<lparr>t_timestamp = ts, t_duration = d, t_query = query_text p, t_lines = str_lines (raw_plan p)\<rparr> =
      Inr (p\<lparr>timestamp := ts, duration_ms := d\<rparr>)"
    using p by (auto simp: text_finalize_def create_text_plan_def raw_plan_def source_format_def Let_def
        split: if_splits sum.splits)
qed

lemma built_json:
  assumes "snd (build_query_plan E b) = Inr (Some p)"
  shows "\<exists>raw jp. source p = JsonSource raw jp"
  using assms
  by (fastforce simp: build_query_plan_def create_json_plan_def Let_def
      split: option.splits Json.splits list.splits sum.splits if_splits prod.splits)

lemma exported_fields:
  "ss_max_timestamp (xq_statistics (exported_query N L pq)) = qs_max_timestamp (statistics pq)"
  "ss_max (xq_statistics (exported_query N L pq)) = st_max (qs_duration (statistics pq))"
  "xq_original_query (exported_query N L pq) = query_text (representative_plan pq)"
  "xq_plan (exported_query N L pq) = raw_plan (representative_plan pq)"
  "xq_plan_format (exported_query N L pq) = Some (source_format (representative_plan pq))"
  "xq_database (exported_query N L pq) = database (representative_plan pq)"
  "xq_normalized_query (exported_query N L pq) = normalized_query (representative_plan pq)"
  "xq_formatted_query (exported_query N L pq) = formatted_query (representative_plan pq)"
  by (simp_all add: exported_query_def from_query_statistics_def Let_def)

lemma plan_reads_back:
  assumes "from_log E (representative_plan pq)" and "source_format (representative_plan pq) = ExportedText"
  shows "imported_plan E (exported_query N L pq) = (representative_plan pq)
    \<lparr>timestamp := qs_max_timestamp (statistics pq), duration_ms := st_max (qs_duration (statistics pq))\<rparr>"
proof -
  let ?p = "representative_plan pq" and ?q = "exported_query N L pq" and ?st = "statistics pq"
  let ?bare = "?p\<lparr>database := None\<rparr>"
  have raw: "raw_plan ?bare = raw_plan ?p" "source_format ?bare = source_format ?p"
    by (simp_all add: raw_plan_def source_format_def)
  have "\<nexists>b. snd (build_query_plan E b) = Inr (Some ?bare)"
    using built_json [of E _ ?bare] assms(2) by (auto simp: source_format_def split: PlanSource.splits)
  then obtain b where "list_all plain_line (t_lines b)" "text_finalize E b = Inr ?bare"
    using assms(1) unfolding from_log_def built_def by blast
  from text_reads_back [OF this]
  have "reparsed_plan E ?q = Inr (?bare\<lparr>timestamp := qs_max_timestamp ?st, duration_ms := st_max (qs_duration ?st)\<rparr>)"
    by (simp add: reparsed_plan_def exported_fields raw)
  then show ?thesis by (simp add: imported_plan_def exported_fields)
qed

text \<open>Whatever parses or fails to, the texts come through.\<close>

lemma texts_read_back:
  "query_text (imported_plan E q) = xq_original_query q" "normalized_query (imported_plan E q) = xq_normalized_query q"
  "formatted_query (imported_plan E q) = xq_formatted_query q" "database (imported_plan E q) = xq_database q"
  "timestamp (imported_plan E q) = ss_max_timestamp (xq_statistics q)"
  "duration_ms (imported_plan E q) = ss_max (xq_statistics q)"
  by (auto simp: imported_plan_def minimal_plan_def reparsed_plan_def create_parsed_json_plan_def text_finalize_def
      create_text_plan_def Let_def split: sum.split option.splits list.splits if_splits prod.splits)

lemma plan_text_reads_back:
  assumes "source_format p = ExportedJson" and "xq_plan_format q = Some (source_format p)" and "xq_plan q = raw_plan p"
  shows "raw_plan (imported_plan E q) = raw_plan p"
  using assms
  by (auto simp: imported_plan_def minimal_plan_def reparsed_plan_def create_parsed_json_plan_def raw_plan_def Let_def
      split: sum.split option.splits list.splits)

text \<open>What an import has of a group: the statistics without the executions, the statement, the database and the
  text of the plan, at the time of the last execution and with the duration of the slowest; of a text plan, source
  and tree as well.\<close>

definition reads_back :: "ProcessedQuery \<Rightarrow> ProcessedQuery \<Rightarrow> bool" where
  "reads_back pq pq' \<longleftrightarrow>
     statistics pq' = (statistics pq)\<lparr>qs_executions := []\<rparr> \<and>
     (case source (representative_plan pq) of
        TextSource _ _ \<Rightarrow> pq' = reimported pq
      | JsonSource _ _ \<Rightarrow>
          (let p = representative_plan pq; p' = representative_plan pq'
           in query_text p' = query_text p \<and> normalized_query p' = normalized_query p \<and>
              formatted_query p' = formatted_query p \<and> database p' = database p \<and> raw_plan p' = raw_plan p \<and>
              timestamp p' = qs_max_timestamp (statistics pq) \<and> duration_ms p' = st_max (qs_duration (statistics pq))))"

section \<open>The groups of a log\<close>

lemma grouped_result:
  assumes "inj_on (query_hash N) (query_text ` set ps)" and "int (length ps) \<le> 2 ^ 53"
    and "finish_grouper (fold_plans N new_grouper ps) = Some gs"
  shows "distinct (map fst gs)" and "map_of gs k = group_result N ps k"
proof -
  have "grouper_ok N (query_text ` set ps) (fold_plans N new_grouper ps) ps"
    using fold_plans_ok [OF assms(1) grouper_ok_new, of ps] by (simp add: new_grouper_def admitted_def in_window_def)
  then have "grouped_as N (groups (fold_plans N new_grouper ps)) ps" by (simp add: grouper_ok_def)
  from finalize_groups_result [OF this assms(2)] assms(3)
  show "distinct (map fst gs)" and "map_of gs k = group_result N ps k"
    by (auto simp: finish_grouper_def take_groups_def)
qed

lemma slowest_member: "ps \<noteq> [] \<Longrightarrow> slowest ps \<in> set ps"
proof (induction ps rule: rev_induct)
  case (snoc p ps)
  then show ?case by (cases "ps = []") (simp add: slowest_def, simp add: slowest_snoc)
qed simp

lemma histogram_hours: "dom (generate_hourly_histogram es) \<subseteq> hour_key ` er_timestamp ` set es"
proof
  fix k assume "k \<in> dom (generate_hourly_histogram es)"
  then have "durations_in_hour k es \<noteq> []" by (auto simp: histogram_hour split: list.splits)
  then show "k \<in> hour_key ` er_timestamp ` set es" by (auto simp: durations_in_hour_def filter_empty_conv)
qed

lemma grouped_query:
  assumes "inj_on (query_hash N) (query_text ` set ps)" and "int (length ps) \<le> 2 ^ 53"
    and "finish_grouper (fold_plans N new_grouper ps) = Some gs" and "(k, pq) \<in> set gs"
  shows "representative_plan pq \<in> set ps" and "plan_key N (representative_plan pq) = k"
    and "dom (qs_hourly_histogram (statistics pq)) \<subseteq> hour_key ` timestamp ` set ps"
proof -
  let ?same = "filter (\<lambda>p. plan_key N p = k) ps"
  have r: "group_result N ps k = Some pq"
    using grouped_result [OF assms(1-3)] assms(4) by (metis map_of_is_SomeI)
  then have "?same \<noteq> []" by (auto simp: group_result_def group_of_def)
  from group_result_fields [OF refl this assms(2)] r
  have q: "representative_plan pq = slowest ?same"
    "qs_hourly_histogram (statistics pq) = generate_hourly_histogram (map execution_of ?same)" by auto
  from slowest_member [OF \<open>?same \<noteq> []\<close>] q(1)
  show "representative_plan pq \<in> set ps" and "plan_key N (representative_plan pq) = k" by auto
  have "er_timestamp ` set (map execution_of ?same) \<subseteq> timestamp ` set ps" by (auto simp: execution_of_def)
  from image_mono [OF this, of hour_key] histogram_hours [of "map execution_of ?same"]
  show "dom (qs_hourly_histogram (statistics pq)) \<subseteq> hour_key ` timestamp ` set ps"
    unfolding q(2) by (rule subset_trans [rotated])
qed

text \<open>The normaliser's fingerprint of a query is the hash of the text it normalises to.\<close>

definition fingerprinted :: "Normalizer \<Rightarrow> QueryPlan \<Rightarrow> bool" where
  "fingerprinted N p \<longleftrightarrow> fresh_fingerprint N (query_text p) = hex16 (query_hash N (normalized_query p))"

lemma grouped_keyed:
  assumes "inj_on (query_hash N) (query_text ` set ps)" and "int (length ps) \<le> 2 ^ 53"
    and "finish_grouper (fold_plans N new_grouper ps) = Some gs" and "list_all (fingerprinted N) ps"
  shows "keyed N gs"
  unfolding keyed_def
proof (intro conjI ballI, unfold case_prod_unfold)
  show "distinct (map fst gs)" by (rule grouped_result [OF assms(1-3)])
  fix e assume "e \<in> set gs"
  then have "(fst e, snd e) \<in> set gs" by simp
  from grouped_query [OF assms(1-3) this] assms(4)
  show "fst e = (case database (representative_plan (snd e)) of
      None \<Rightarrow> query_fingerprint N (snd e) | Some db \<Rightarrow> group_key (query_fingerprint N (snd e)) db)"
    by (auto simp: plan_key_def query_fingerprint_def fingerprinted_def list_all_iff split: option.splits)
qed

lemma imported_entries:
  assumes "keyed N qs"
  shows "map_of (to_processed_queries E L (from_processed_queries N L H qs files)) =
    (\<lambda>k. map_option (\<lambda>pq. imported_query E L (exported_query N L pq)) (map_of qs k))"
proof -
  let ?xs = "ax_queries (from_processed_queries N L H qs files)"
  let ?es = "map (\<lambda>q. (import_key q, imported_query E L q)) ?xs"
  let ?ys = "map (\<lambda>(k, pq). (k, imported_query E L (exported_query N L pq))) qs"
  have "set ?es = (\<lambda>(k, pq). (import_key (exported_query N L pq), imported_query E L (exported_query N L pq))) ` set qs"
    by (auto simp: exported_queries image_image case_prod_unfold)
  also have "\<dots> = set ?ys" unfolding set_map
    by (rule image_cong) (auto simp: keyed_import_key [OF assms])
  finally have "map_of (rev ?es) = map_of ?ys"
    using assms by (intro same_entries) (simp_all add: keyed_def comp_def case_prod_unfold)
  then show ?thesis
    unfolding to_processed_queries_def updated_entries by (simp add: map_of_map comp_def)
qed

section \<open>Redaction\<close>

lemma placeholder_iff:
  "looks_parameterised s \<longleftrightarrow> (\<exists>a d b. s = a @ CHR ''$'' # d # b \<and> 48 \<le> code d \<and> code d \<le> 57)"
proof (induction s)
  case (Cons c s)
  have ex: "(\<exists>a. Q a) \<longleftrightarrow> Q [] \<or> (\<exists>x a. Q (x # a))" for Q :: "string \<Rightarrow> bool"
    by (metis list.exhaust)
  show ?case by (subst ex) (auto simp: Cons.IH split: list.splits)
qed simp

lemma redact_query_fields:
  "xq_query_hash (redact_query q) = xq_query_hash q" "xq_database (redact_query q) = xq_database q"
  "xq_original_query (redact_query q) = []" "xq_formatted_query (redact_query q) = []" "xq_plan (redact_query q) = []"
  "xq_plan_format (redact_query q) = None" "xq_statistics (redact_query q) = xq_statistics q"
  "xq_normalized_query (redact_query q) = (if looks_parameterised (xq_normalized_query q) then xq_normalized_query q else [])"
  "import_key (redact_query q) = import_key q" "redact_query (redact_query q) = redact_query q"
  by (simp_all add: redact_query_def import_key_def Let_def split: option.split)

lemma redacted_plan: "imported_plan E (redact_query q) = minimal_plan (redact_query q)"
  by (simp add: imported_plan_def reparsed_plan_def redact_query_fields looks_like_json_start_def trim_start_def
      starts_with_def str_lines_def text_finalize_def)

lemma fold_updates_map:
  "(\<And>q. h (f q) = g q) \<Longrightarrow>
   map (\<lambda>(k, v). (k, h v)) (foldl (\<lambda>acc q. AList.update (key q) (f q) acc) A qs) =
     foldl (\<lambda>acc q. AList.update (key q) (g q) acc) (map (\<lambda>(k, v). (k, h v)) A) qs"
proof (induction qs arbitrary: A)
  case (Cons q qs)
  have "map (\<lambda>(k, v). (k, h v)) (AList.update k x A) = AList.update k (h x) (map (\<lambda>(k, v). (k, h v)) A)" for k x
    by (induction A) auto
  then show ?case using Cons by simp
qed simp

lemma fold_updates_keys:
  "distinct (map fst A) \<Longrightarrow> distinct (map fst (foldl (\<lambda>acc q. AList.update (key q) (f q) acc) A qs)) \<and>
   fst ` set (foldl (\<lambda>acc q. AList.update (key q) (f q) acc) A qs) = fst ` set A \<union> key ` set qs"
proof (induction qs arbitrary: A)
  case (Cons q qs)
  from Cons.IH [OF distinct_update [OF Cons.prems]] show ?case by (auto simp: dom_update)
qed simp

lemma fold_updates_values:
  "snd ` set (foldl (\<lambda>acc q. AList.update (key q) (f q) acc) A qs) \<subseteq> snd ` set A \<union> f ` set qs"
proof (induction qs arbitrary: A)
  case (Cons q qs)
  have "snd ` set (AList.update (key q) (f q) A) \<subseteq> insert (f q) (snd ` set A)"
    by (induction A) auto
  with Cons.IH [of "AList.update (key q) (f q) A"] show ?case by auto
qed simp

lemma imported_keys:
  "distinct (map fst (to_processed_queries E L ex))"
  "fst ` set (to_processed_queries E L ex) = import_key ` set (ax_queries ex)"
  using fold_updates_keys [of "[]" import_key "imported_query E L" "ax_queries ex"]
  by (simp_all add: to_processed_queries_def)

lemma imported_length: "length (to_processed_queries E L ex) = card (import_key ` set (ax_queries ex))"
  using imported_keys [of E L ex] by (metis distinct_card length_map list.set_map)

lemma redacted_statistics:
  "map (\<lambda>(k, pq). (k, statistics pq)) (to_processed_queries E L (redact ex)) =
   map (\<lambda>(k, pq). (k, statistics pq)) (to_processed_queries E L ex)"
proof -
  have "map (\<lambda>(k, pq). (k, statistics pq)) (to_processed_queries E L x) =
      foldl (\<lambda>acc q. AList.update (import_key q) (to_query_statistics L (xq_statistics q)) acc) [] (ax_queries x)" for x
    unfolding to_processed_queries_def by (subst fold_updates_map) (simp_all add: imported_query_def)
  then show ?thesis by (simp add: redact_def foldl_map redact_query_fields)
qed

lemma query_reads_back:
  assumes "from_log E (representative_plan pq)" and "iterates (hours_of L)" and "iterates (buckets_of L)"
    and "finite hs" and "hours_readable L hs" and "dom (qs_hourly_histogram (statistics pq)) \<subseteq> hs"
  shows "reads_back pq (imported_query E L (exported_query N L pq))"
proof -
  have h: "finite (dom (qs_hourly_histogram (statistics pq)))" using assms(6,4) by (rule finite_subset)
  have r: "hours_readable L (dom (qs_hourly_histogram (statistics pq)))"
    using assms(5,6) unfolding hours_readable_def by blast
  have x: "xq_statistics (exported_query N L pq) = from_query_statistics L (statistics pq)"
    by (simp add: exported_query_def Let_def)
  have st: "to_query_statistics L (xq_statistics (exported_query N L pq)) = (statistics pq)\<lparr>qs_executions := []\<rparr>"
    unfolding x by (rule statistics_read_back [OF assms(2,3) h r])
  show ?thesis
  proof (cases "source (representative_plan pq)")
    case (TextSource raw ls)
    then have "source_format (representative_plan pq) = ExportedText" by (simp add: source_format_def)
    from plan_reads_back [OF assms(1) this] st show ?thesis
      by (simp add: reads_back_def imported_query_def reimported_def Let_def TextSource)
  next
    case (JsonSource raw jp)
    then have j: "source_format (representative_plan pq) = ExportedJson" by (simp add: source_format_def)
    show ?thesis
      using plan_text_reads_back [OF j exported_fields(5,4), of E] st
      by (simp add: reads_back_def imported_query_def texts_read_back exported_fields JsonSource)
  qed
qed

section \<open>Samples\<close>

definition hashing :: Normalizer where
  "hashing = \<lparr>query_hash = (\<lambda>q. of_nat (length q)), normalize_query_enhanced = (\<lambda>_. None)\<rparr>"

definition sample_export_lib :: "AnalysisExport option \<Rightarrow> ExportLib" where
  "sample_export_lib written =
     \<lparr>hour_text = (\<lambda>t. replicate (nat t) CHR ''h''), hour_parse = (\<lambda>s. Some (int (length s))),
      hours_of = in_key_order, buckets_of = in_key_order, write_export = (\<lambda>_. ''{}''), read_export = (\<lambda>_. written)\<rparr>"

definition sample_host :: Host where
  "sample_host = \<lparr>now_utc = 9, package_version = ''1'', host_name = Some ''h'', user_name = Some ''u''\<rparr>"

definition sample_exported :: "string option \<Rightarrow> string \<Rightarrow> ProcessedQuery" where
  "sample_exported db q =
     \<lparr>representative_plan = (sample_plan 1 5 q)\<lparr>database := db\<rparr>,
      statistics = \<lparr>qs_count = 1, qs_duration = \<lparr>st_total = f_zero, st_mean = f_zero, st_std_dev = f_zero,
          st_min = f_zero, st_max = f_zero,
          st_percentiles = \<lparr>p25 = f_zero, p50 = f_zero, p90 = f_zero, p95 = f_zero, p99 = f_zero\<rparr>\<rparr>,
        qs_min_timestamp = 1, qs_max_timestamp = 2, qs_hourly_histogram = Map.empty, qs_executions = []\<rparr>\<rparr>"

section \<open>Properties\<close>

lemma export_reordered:
  assumes "keyed N qs" and "mset qs' = mset qs" and "ex = from_processed_queries N L H qs files"
  shows "from_processed_queries N L H qs' files = ex \<and>
    mset (ax_queries ex) = image_mset (\<lambda>(_, pq). exported_query N L pq) (mset qs) \<and>
    sorted_wrt (\<lambda>a b. ss_total (xq_statistics b) \<le> ss_total (xq_statistics a)) (ax_queries ex) \<and>
    ax_execution_count ex = (\<Sum>(_, pq)\<leftarrow>qs. qs_count (statistics pq)) \<and>
    ax_period ex = (if qs = [] then \<lparr>period_start = now_utc H, period_end = now_utc H\<rparr>
      else \<lparr>period_start = Min ((\<lambda>(_, pq). qs_min_timestamp (statistics pq)) ` set qs),
            period_end = Max ((\<lambda>(_, pq). qs_max_timestamp (statistics pq)) ` set qs)\<rparr>)"
proof (intro conjI)
  have m: "set qs' = set qs" "length qs' = length qs" "qs' = [] \<longleftrightarrow> qs = []"
    using mset_eq_setD [OF assms(2)] mset_eq_length [OF assms(2)] by auto
  let ?c = "\<lambda>q. qs_count (statistics (snd q))"
  have "mset (map ?c qs') = mset (map ?c qs)" using assms(2) by simp
  then have "sum_list (map ?c qs') = sum_list (map ?c qs)" by (metis sum_mset_sum_list)
  then show "from_processed_queries N L H qs' files = ex"
    using keyed_sorted [OF assms(1,2), of L] m
    by (simp add: from_processed_queries_def export_fold fold_min fold_max Let_def assms(3))
  have sorted: "sorted (map export_order (ax_queries ex))" by (simp add: exported_queries assms(3))
  have le: "ss_total (xq_statistics y) \<le> ss_total (xq_statistics x)" if "export_order x \<le> export_order y" for x y
    using that by (auto simp: export_order_def less_eq_f64_def less_eq_prod_def)
  show "sorted_wrt (\<lambda>a b. ss_total (xq_statistics b) \<le> ss_total (xq_statistics a)) (ax_queries ex)"
    using sorted unfolding sorted_map by (rule sorted_wrt_mono_rel [rotated]) (simp add: le)
  show "mset (ax_queries ex) = image_mset (\<lambda>(_, pq). exported_query N L pq) (mset qs)"
    by (simp add: exported_queries assms(3) case_prod_beta' comp_def)
  show "ax_execution_count ex = (\<Sum>(_, pq)\<leftarrow>qs. qs_count (statistics pq))"
    by (simp add: assms(3) from_processed_queries_def export_fold Let_def case_prod_beta')
  show "ax_period ex = (if qs = [] then \<lparr>period_start = now_utc H, period_end = now_utc H\<rparr>
      else \<lparr>period_start = Min ((\<lambda>(_, pq). qs_min_timestamp (statistics pq)) ` set qs),
            period_end = Max ((\<lambda>(_, pq). qs_max_timestamp (statistics pq)) ` set qs)\<rparr>)"
    by (simp add: assms(3) from_processed_queries_def export_fold fold_min fold_max Let_def case_prod_beta')
qed

text \<open>C27: the export of a log does not depend on the order in which its groups are iterated: every order gives the
  same structure, whose queries are those of the groups in descending total time, with the first and the last time
  stamp and the number of all executions. The groups are those of any plans of a log, whose fingerprints are the hashes
  of what they normalise to, without collisions; the groups of an imported redacted file are not such.\<close>

theorem export_order_irrelevant:
  assumes "inj_on (query_hash N) (query_text ` set ps)" and "int (length ps) \<le> 2 ^ 53"
    and "list_all (fingerprinted N) ps" and "finish_grouper (fold_plans N new_grouper ps) = Some gs"
    and "mset qs = mset gs" and "ex = from_processed_queries N L H gs files"
  shows "from_processed_queries N L H qs files = ex \<and>
    mset (ax_queries ex) = image_mset (\<lambda>(_, pq). exported_query N L pq) (mset gs) \<and>
    sorted_wrt (\<lambda>a b. ss_total (xq_statistics b) \<le> ss_total (xq_statistics a)) (ax_queries ex) \<and>
    ax_execution_count ex = (\<Sum>(_, pq)\<leftarrow>gs. qs_count (statistics pq)) \<and>
    ax_period ex = (if gs = [] then \<lparr>period_start = now_utc H, period_end = now_utc H\<rparr>
      else \<lparr>period_start = Min ((\<lambda>(_, pq). qs_min_timestamp (statistics pq)) ` set gs),
            period_end = Max ((\<lambda>(_, pq). qs_max_timestamp (statistics pq)) ` set gs)\<rparr>)"
  by (rule export_reordered [OF grouped_keyed [OF assms(1,2,4,3)] assms(5,6)])

text \<open>C25: a redacted export holds no query or plan text but normalised statements with a placeholder, a dollar sign
  before a digit, and neither host nor user; hashes, databases, statistics and the order of the queries stay, redacting
  twice is redacting once, and the file imports with the keys and statistics of the full one, without any text
  of a plan or query.\<close>

theorem redaction_drops_text:
  "list_all (\<lambda>q. xq_original_query q = [] \<and> xq_formatted_query q = [] \<and> xq_plan q = []) (ax_queries (redact ex)) \<and>
   map xq_normalized_query (ax_queries (redact ex)) =
     map (\<lambda>n. if looks_parameterised n then n else []) (map xq_normalized_query (ax_queries ex)) \<and>
   (looks_parameterised n \<longleftrightarrow> (\<exists>a d b. n = a @ CHR ''$'' # d # b \<and> 48 \<le> code d \<and> code d \<le> 57)) \<and>
   md_hostname (ax_metadata (redact ex)) = None \<and> md_user (ax_metadata (redact ex)) = None \<and>
   map (\<lambda>q. (xq_query_hash q, xq_database q, xq_statistics q)) (ax_queries (redact ex)) =
     map (\<lambda>q. (xq_query_hash q, xq_database q, xq_statistics q)) (ax_queries ex) \<and>
   redact (redact ex) = redact ex \<and>
   map (\<lambda>(k, pq). (k, statistics pq)) (to_processed_queries E L (redact ex)) =
     map (\<lambda>(k, pq). (k, statistics pq)) (to_processed_queries E L ex) \<and>
   list_all (\<lambda>(_, pq). query_text (representative_plan pq) = [] \<and> raw_plan (representative_plan pq) = [])
     (to_processed_queries E L (redact ex))"
proof (intro conjI)
  have "snd ` set (to_processed_queries E L (redact ex)) \<subseteq> imported_query E L ` set (ax_queries (redact ex))"
    using fold_updates_values [of import_key "imported_query E L" "[]"] by (simp add: to_processed_queries_def)
  also have "\<dots> \<subseteq> {pq. query_text (representative_plan pq) = [] \<and> raw_plan (representative_plan pq) = []}"
    by (auto simp: redact_def imported_query_def redacted_plan minimal_plan_def redact_query_fields raw_plan_def)
  finally show "list_all (\<lambda>(_, pq). query_text (representative_plan pq) = [] \<and> raw_plan (representative_plan pq) = [])
      (to_processed_queries E L (redact ex))" by (auto simp: list_all_iff)
next
  show "looks_parameterised n \<longleftrightarrow> (\<exists>a d b. n = a @ CHR ''$'' # d # b \<and> 48 \<le> code d \<and> code d \<le> 57)"
    by (rule placeholder_iff)
qed (simp_all only: redacted_statistics, simp_all add: redact_def redact_query_fields list_all_iff comp_def)

text \<open>C24: the structure of an export gives the analysed log back: on the plans of a log, grouped and exported in any
  order of the groups, the version of the structure is one the import accepts, and the import has, under the same
  keys, the same queries with their statement, database, plan text, all statistics and the hourly histogram, without the
  single executions; the groups of text plans also with their source and tree, read again from the plan text. That
  the JSON text of the file gives the structure back is up to serde.\<close>

theorem exported_log_reads_back:
  assumes "inj_on (query_hash N) (query_text ` set ps)" and "int (length ps) \<le> 2 ^ 53"
    and "finish_grouper (fold_plans N new_grouper ps) = Some gs" and "mset qs = mset gs"
    and "list_all (fingerprinted N) ps" and "list_all (from_log E) ps"
    and "iterates (hours_of L)" and "iterates (buckets_of L)" and "hours_readable L (hour_key ` timestamp ` set ps)"
    and "ex = from_processed_queries N L H qs files"
  shows "ax_format_version ex \<le> EXPORT_FORMAT_VERSION \<and>
    rel_option reads_back (map_of gs k) (map_of (to_processed_queries E L ex) k)"
proof
  show "ax_format_version ex \<le> EXPORT_FORMAT_VERSION"
    by (simp add: assms(10) from_processed_queries_def export_fold Let_def)
  have keyed: "keyed N gs" by (rule grouped_keyed [OF assms(1-3,5)])
  then have "map_of qs = map_of gs"
    using mset_eq_setD [OF assms(4)] by (intro same_entries) (simp_all add: keyed_def)
  then have entry: "map_of (to_processed_queries E L ex) k =
      map_option (\<lambda>pq. imported_query E L (exported_query N L pq)) (map_of gs k)"
    unfolding assms(10) imported_entries [OF keyed_reordered [OF keyed assms(4)]] by simp
  have q: "reads_back pq (imported_query E L (exported_query N L pq))" if "(k, pq) \<in> set gs" for pq
  proof (rule query_reads_back [OF _ assms(7,8) _ assms(9)])
    show "from_log E (representative_plan pq)"
      using assms(6) grouped_query(1) [OF assms(1-3) that] by (simp add: list_all_iff)
  qed (simp, rule grouped_query(3) [OF assms(1-3) that])
  show "rel_option reads_back (map_of gs k) (map_of (to_processed_queries E L ex) k)"
    unfolding entry using q [OF map_of_SomeD] by (cases "map_of gs k") simp_all
qed

text \<open>The import of a list of queries with different keys.\<close>

lemma imported_distinct:
  assumes "distinct (map import_key (ax_queries ex))"
  shows "to_processed_queries E L ex = map (\<lambda>q. (import_key q, imported_query E L q)) (ax_queries ex)"
proof -
  have "foldl (\<lambda>acc q. AList.update (import_key q) (imported_query E L q) acc) A qs =
      A @ map (\<lambda>q. (import_key q, imported_query E L q)) qs"
    if "distinct (map fst A @ map import_key qs)" for A qs
    using that
  proof (induction qs arbitrary: A)
    case (Cons q qs)
    have "k \<notin> fst ` set A \<Longrightarrow> AList.update k v A = A @ [(k, v)]" for k and v :: ProcessedQuery
      by (induction A) auto
    then show ?case using Cons by simp
  qed simp
  from this [of "[]"] assms show ?thesis by (simp add: to_processed_queries_def)
qed

lemma imported_values:
  "set (to_processed_queries E L ex) \<subseteq> (\<lambda>q. (import_key q, imported_query E L q)) ` set (ax_queries ex)"
proof -
  have "set (foldl (\<lambda>acc q. AList.update (import_key q) (imported_query E L q) acc) A qs) \<subseteq>
      set A \<union> (\<lambda>q. (import_key q, imported_query E L q)) ` set qs" for A qs
  proof (induction qs arbitrary: A)
    case (Cons q qs)
    have "set (AList.update k v A) \<subseteq> insert (k, v) (set A)" for k and v :: ProcessedQuery by (induction A) auto
    with Cons.IH [of "AList.update (import_key q) (imported_query E L q) A"] show ?case by fastforce
  qed simp
  from this [of "[]"] show ?thesis by (simp add: to_processed_queries_def)
qed

text \<open>The key of a fingerprint and a database, and the groups without a statement.\<close>

definition key_of :: "string \<Rightarrow> string option \<Rightarrow> string" where
  "key_of h d = (case d of Some db \<Rightarrow> group_key h db | None \<Rightarrow> h)"

lemma import_key_of: "import_key q = key_of (xq_query_hash q) (xq_database q)"
  by (simp add: import_key_def key_of_def)

lemma key_of_inj: "length h = length h' \<Longrightarrow> key_of h d = key_of h' d' \<Longrightarrow> h = h' \<and> d = d'"
  by (auto simp: key_of_def group_key_def split: option.splits)

definition textless :: "string option \<Rightarrow> string \<times> ProcessedQuery \<Rightarrow> bool" where
  "textless d e \<longleftrightarrow> normalized_query (representative_plan (snd e)) = [] \<and> database (representative_plan (snd e)) = d"

definition dropped_in :: "string option \<Rightarrow> ExportedQuery \<Rightarrow> bool" where
  "dropped_in d q \<longleftrightarrow> \<not> looks_parameterised (xq_normalized_query q) \<and> xq_database q = d"

lemma textless_imported:
  "textless d (k, imported_query E L q) \<longleftrightarrow> xq_normalized_query q = [] \<and> xq_database q = d"
  by (simp add: textless_def imported_query_def texts_read_back)

lemma textless_redacted: "textless d (k, imported_query E L (redact_query q)) \<longleftrightarrow> dropped_in d q"
  by (auto simp: textless_imported dropped_in_def redact_query_fields)

lemma filter_key: "distinct ks \<Longrightarrow> filter (\<lambda>k. k = x) ks = (if x \<in> set ks then [x] else [])"
  by (induction ks) (auto simp: filter_empty_conv)

lemma restored_entry:
  assumes "distinct (map import_key (ax_queries ex))"
  shows "to_processed_queries E L (redact ex) =
    map (\<lambda>q. (import_key q, imported_query E L (redact_query q))) (ax_queries ex)"
proof -
  have "map import_key (ax_queries (redact ex)) = map import_key (ax_queries ex)"
    by (simp add: redact_def comp_def redact_query_fields)
  then have "distinct (map import_key (ax_queries (redact ex)))" using assms by simp
  from imported_distinct [OF this] show ?thesis by (simp add: redact_def comp_def redact_query_fields)
qed

text \<open>C26: an import of a redacted file forgets the hashes. It has one group for every statement of a database whose text
  was dropped; exported again, these are all filed under the hash of the empty text, and reading the second file keeps
  exactly one of them per database, under that key.\<close>

theorem redacted_reexport_merges:
  assumes "distinct (map import_key (ax_queries ex))"
    and "\<forall>q \<in> set (ax_queries ex). looks_parameterised (xq_normalized_query q) \<longrightarrow>
      hex16 (query_hash N (xq_normalized_query q)) \<noteq> hex16 (query_hash N [])"
    and "restored = to_processed_queries E L (redact ex)"
    and "again = to_processed_queries E L (from_processed_queries N L H restored files)"
  shows "length (filter (textless d) restored) = length (filter (dropped_in d) (ax_queries ex)) \<and>
    map fst (filter (textless d) again) =
      (if list_ex (dropped_in d) (ax_queries ex) then [key_of (hex16 (query_hash N [])) d] else [])"
proof
  let ?qs = "ax_queries ex"
  have restored: "restored = map (\<lambda>q. (import_key q, imported_query E L (redact_query q))) ?qs"
    unfolding assms(3) by (rule restored_entry [OF assms(1)])
  show "length (filter (textless d) restored) = length (filter (dropped_in d) ?qs)"
    by (simp add: restored filter_map comp_def textless_redacted)
  let ?x = "\<lambda>q. exported_query N L (imported_query E L (redact_query q))"
  let ?second = "from_processed_queries N L H restored files"
  have second: "set (ax_queries ?second) = ?x ` set ?qs"
    by (simp add: exported_queries restored image_image comp_def)
  have fields: "xq_query_hash (?x q) = hex16 (query_hash N (xq_normalized_query (redact_query q)))"
    "xq_database (?x q) = xq_database q" "xq_normalized_query (?x q) = xq_normalized_query (redact_query q)" for q
    by (simp_all add: exported_query_def query_fingerprint_def imported_query_def redacted_plan minimal_plan_def
        redact_query_fields Let_def)
  have again: "textless d (k, imported_query E L (?x q)) \<longleftrightarrow> dropped_in d q" for k q
    unfolding textless_imported fields by (auto simp: dropped_in_def redact_query_fields)
  have len: "length (hex16 h) = length (hex16 h')" for h h' by (simp add: hex16_def)
  let ?key = "key_of (hex16 (query_hash N [])) d"
  have key: "import_key (?x q) = ?key \<longleftrightarrow> dropped_in d q" if "q \<in> set ?qs" for q
    using assms(2) that key_of_inj [OF len, of _ "xq_database q" _ d]
    by (auto simp: import_key_of fields dropped_in_def redact_query_fields)
  have entries: "set again \<subseteq> (\<lambda>q. (import_key (?x q), imported_query E L (?x q))) ` set ?qs"
    using imported_values [of E L ?second] by (simp add: assms(4) second image_image)
  have keys: "fst ` set again = (\<lambda>q. import_key (?x q)) ` set ?qs" and dist: "distinct (map fst again)"
    using imported_keys [of E L ?second] by (simp_all add: assms(4) second image_image)
  have same: "textless d e \<longleftrightarrow> fst e = ?key" if "e \<in> set again" for e
    using entries that again key by fastforce
  have "filter (textless d) again = filter (\<lambda>e. fst e = ?key) again" by (rule filter_cong) (simp_all add: same)
  then have "map fst (filter (textless d) again) = filter (\<lambda>k. k = ?key) (map fst again)" by (simp add: filter_map comp_def)
  also have "\<dots> = (if ?key \<in> set (map fst again) then [?key] else [])"
    by (rule filter_key [OF dist])
  also have "?key \<in> set (map fst again) \<longleftrightarrow> list_ex (dropped_in d) ?qs"
    unfolding set_map keys image_iff list_ex_iff using key [symmetric] by metis
  finally show "map fst (filter (textless d) again) = (if list_ex (dropped_in d) ?qs then [?key] else [])" .
qed

text \<open>Two statements of one database and one of another lose their texts.\<close>

definition sample_three :: AnalysisExport where
  "sample_three = from_processed_queries hashing (sample_export_lib None) sample_host
     [(''x'', sample_exported None ''a''), (''y'', sample_exported None ''bb''), (''z'', sample_exported (Some ''d'') ''a'')] []"

theorem redacted_reexport_merges_witness:
  "let restored = to_processed_queries sample_env (sample_export_lib None) (redact sample_three);
       again = to_processed_queries sample_env (sample_export_lib None)
         (from_processed_queries hashing (sample_export_lib None) sample_host restored [])
   in length (filter (textless None) restored) = 2 \<and> map fst (filter (textless None) again) = [hex16 0]"
proof -
  let ?L = "sample_export_lib None"
  let ?xs = "[exported_query hashing ?L (sample_exported None ''a''), exported_query hashing ?L (sample_exported None ''bb''),
    exported_query hashing ?L (sample_exported (Some ''d'') ''a'')]"
  have m: "mset (ax_queries sample_three) = mset ?xs" by (simp add: sample_three_def exported_queries)
  have "last (hex16 1) \<noteq> last (hex16 2)" by (simp add: hex16_def last_map last_rev hex_digit_def)
  then have "hex16 1 \<noteq> hex16 2" by auto
  moreover have "hex16 h \<noteq> group_key (hex16 h') db" for h h' db
  proof
    assume "hex16 h = group_key (hex16 h') db"
    then have "length (hex16 h) = length (group_key (hex16 h') db)" by simp
    then show False by (simp add: group_key_def hex16_def)
  qed
  ultimately have "distinct (map import_key ?xs)"
    by (simp add: exported_query_def query_fingerprint_def hashing_def sample_exported_def sample_plan_def import_key_def Let_def)
  then have d: "distinct (map import_key (ax_queries sample_three))"
    using mset_eq_imp_distinct_iff [of "map import_key (ax_queries sample_three)" "map import_key ?xs"] m by simp
  have s: "set (ax_queries sample_three) = set ?xs" using m by (rule mset_eq_setD)
  have none: "\<forall>q \<in> set (ax_queries sample_three). \<not> looks_parameterised (xq_normalized_query q)"
    unfolding s by (simp add: exported_query_def sample_exported_def sample_plan_def Let_def)
  then have p: "\<forall>q \<in> set (ax_queries sample_three). looks_parameterised (xq_normalized_query q) \<longrightarrow>
      hex16 (query_hash hashing (xq_normalized_query q)) \<noteq> hex16 (query_hash hashing [])" by blast
  have "mset (filter (dropped_in None) (ax_queries sample_three)) = mset (filter (dropped_in None) ?xs)"
    using m by (simp only: mset_filter)
  then have "length (filter (dropped_in None) (ax_queries sample_three)) = length (filter (dropped_in None) ?xs)"
    by (rule mset_eq_length)
  also have "\<dots> = 2"
    by (simp add: dropped_in_def exported_query_def sample_exported_def sample_plan_def Let_def)
  finally have two: "length (filter (dropped_in None) (ax_queries sample_three)) = 2" .
  then have "list_ex (dropped_in None) (ax_queries sample_three)"
    using filter_False [of "ax_queries sample_three" "dropped_in None"] by (fastforce simp: list_ex_iff)
  then show ?thesis
    using redacted_reexport_merges [OF d p refl refl, where E = sample_env and L = ?L and H = sample_host and files = "[]" and d = None] two
    by (simp add: Let_def key_of_def hashing_def)
qed

text \<open>The groups of two statements exported in both orders.\<close>

lemma grouping_ends:
  assumes "inj_on (query_hash N) (query_text ` set ps)" and "int (length ps) \<le> 2 ^ 53"
  shows "\<exists>gs. finish_grouper (fold_plans N new_grouper ps) = Some gs"
proof -
  have "grouper_ok N (query_text ` set ps) (fold_plans N new_grouper ps) ps"
    using fold_plans_ok [OF assms(1) grouper_ok_new, of ps] by (simp add: new_grouper_def admitted_def in_window_def)
  then have "grouped_as N (groups (fold_plans N new_grouper ps)) ps" by (simp add: grouper_ok_def)
  from finalize_groups_result [OF this assms(2)] show ?thesis by (auto simp: finish_grouper_def take_groups_def)
qed

theorem export_order_irrelevant_witness:
  "\<exists>gs. finish_grouper (fold_plans hashing new_grouper [sample_plan 1 5 ''a'', sample_plan 2 3 ''bb'']) = Some gs \<and>
     from_processed_queries hashing (sample_export_lib None) sample_host (rev gs) [] =
       from_processed_queries hashing (sample_export_lib None) sample_host gs []"
proof -
  let ?ps = "[sample_plan 1 5 ''a'', sample_plan 2 3 ''bb'']"
  have h: "inj_on (query_hash hashing) (query_text ` set ?ps)" by (simp add: hashing_def sample_plan_def inj_on_def)
  have n: "int (length ?ps) \<le> 2 ^ 53" by simp
  have f: "list_all (fingerprinted hashing) ?ps"
    by (simp add: fingerprinted_def fresh_fingerprint_def hashing_def sample_plan_def)
  obtain gs where gs: "finish_grouper (fold_plans hashing new_grouper ?ps) = Some gs" using grouping_ends [OF h n] by blast
  from export_order_irrelevant [OF h n f gs mset_rev refl] gs show ?thesis by blast
qed

theorem exported_log_reads_back_witness:
  "\<exists>p gs. text_finalize sample_env sample_builder = Inr p \<and>
    finish_grouper (fold_plans hashing new_grouper [p]) = Some gs \<and>
    (\<forall>k. rel_option reads_back (map_of gs k) (map_of (to_processed_queries sample_env (sample_export_lib None)
       (from_processed_queries hashing (sample_export_lib None) sample_host gs [])) k))"
proof -
  obtain p where p: "text_finalize sample_env sample_builder = Inr p" using sample_finalize by blast
  then have f: "normalized_query p = query_text p" "timestamp p = 5" "database p = None"
    by (auto simp: text_finalize_def create_text_plan_def normalize_and_format_def sample_env_def sample_builder_def
        text_entry_builder_def Let_def split: if_splits sum.splits)
  have h: "inj_on (query_hash hashing) (query_text ` set [p])" "int (length [p]) \<le> 2 ^ 53" by simp_all
  obtain gs where gs: "finish_grouper (fold_plans hashing new_grouper [p]) = Some gs" using grouping_ends [OF h] by blast
  let ?L = "sample_export_lib None"
  have log: "list_all (from_log sample_env) [p]"
  proof -
    have "list_all plain_line (t_lines sample_builder)" by code_simp
    moreover have "p\<lparr>database := None\<rparr> = p" using f(3) by (cases p) simp
    ultimately show ?thesis using p by (auto simp: from_log_def built_def)
  qed
  have fp: "list_all (fingerprinted hashing) [p]"
    by (simp add: fingerprinted_def fresh_fingerprint_def hashing_def f(1))
  have it: "iterates (hours_of ?L)" "iterates (buckets_of ?L)" "hours_readable ?L (hour_key ` timestamp ` set [p])"
    by (simp_all add: sample_export_lib_def iterates_in_key_order hours_readable_def f(2) hour_key_def ns_per_hour_def)
  from exported_log_reads_back [OF h gs refl fp log it refl, where H = sample_host and files = "[]"]
  show ?thesis using p gs by blast
qed

end
