(* ===== verification/Results_Facts.thy ===== *)
theory Results_Facts
  imports Results_State Export_Facts
begin

text \<open>
  The results screen does not panic as long as no statistic is NaN, always shows every query once in the chosen order
  and a detail view of a query it has, and every query can be opened with a few keys.
\<close>

section \<open>The order of the list\<close>

definition sort_value :: "SortOrder \<Rightarrow> ProcessedQuery \<Rightarrow> int" where
  "sort_value s q =
     (let d = qs_duration (statistics q)
      in case s of SortCount \<Rightarrow> int (qs_count (statistics q)) | SortMean \<Rightarrow> f_ord (st_mean d) | SortMin \<Rightarrow> f_ord (st_min d)
         | SortMax \<Rightarrow> f_ord (st_max d) | SortStdDev \<Rightarrow> f_ord (st_std_dev d))"

definition comparable :: "ProcessedQuery \<Rightarrow> bool" where
  "comparable q \<longleftrightarrow>
     (let d = qs_duration (statistics q)
      in \<not> is_nan (st_mean d) \<and> \<not> is_nan (st_min d) \<and> \<not> is_nan (st_max d) \<and> \<not> is_nan (st_std_dev d))"

definition shown_order :: "SortOrder \<Rightarrow> bool \<Rightarrow> ProcessedQuery \<Rightarrow> int \<times> string" where
  "shown_order s up q = (if up then sort_value s q else - sort_value s q, normalized_query (representative_plan q))"

lemma comparable_sorts: "comparable q \<Longrightarrow> \<not> sorts_nan s q"
  by (cases s) (simp_all add: comparable_def sorts_nan_def Let_def)

lemma sort_field_value:
  "\<not> sorts_nan s a \<Longrightarrow> \<not> sorts_nan s b \<Longrightarrow> sort_field s a b = cmp (sort_value s a) (sort_value s b)"
  by (cases s) (auto simp: sort_field_def sort_value_def sorts_nan_def cmp_def partial_cmp_or_equal_def f_lt_def Let_def)

lemma compare_queries_order:
  "\<not> sorts_nan s a \<Longrightarrow> \<not> sorts_nan s b \<Longrightarrow>
   compare_queries s up a b = Greater \<longleftrightarrow> shown_order s up b < shown_order s up a"
  by (auto simp: compare_queries_def sort_field_value shown_order_def cmp_def less_prod_def' split: Ordering.splits if_splits)

lemma set_insert_by [simp]: "set (insert_by c x ys) = insert x (set ys)"
  by (induction ys) auto

lemma mset_insert_by: "mset (insert_by c x ys) = add_mset x (mset ys)"
  by (induction ys) auto

lemma mset_sort_by: "mset (sort_by c xs) = mset xs"
  by (induction xs) (simp_all add: sort_by_def mset_insert_by)

lemma insert_by_key:
  "(\<And>y. y \<in> set ys \<Longrightarrow> c x y = Greater \<longleftrightarrow> k y < k x) \<Longrightarrow> insert_by c x ys = insort_key k x ys"
  for k :: "'a \<Rightarrow> 'b::linorder"
  by (induction ys) (auto simp: not_le)

lemma sort_by_key:
  "(\<And>x y. x \<in> set xs \<Longrightarrow> y \<in> set xs \<Longrightarrow> c x y = Greater \<longleftrightarrow> k y < k x) \<Longrightarrow> sort_by c xs = sort_key k xs"
  for k :: "'a \<Rightarrow> 'b::linorder"
proof (induction xs)
  case (Cons x xs)
  then have s: "sort_by c xs = sort_key k xs" by simp
  have "insert_by c x (sort_key k xs) = insort_key k x (sort_key k xs)"
    using Cons.prems by (intro insert_by_key) simp
  then show ?case using s by (simp add: sort_by_def)
qed (simp add: sort_by_def)

definition in_order :: "ResultsState \<Rightarrow> bool" where
  "in_order S \<longleftrightarrow>
     sorted (map (\<lambda>f. shown_order (sort_order S) (sort_ascending S) (the (map_of (shown_queries S) f)))
       (sorted_query_fingerprints S))"

section \<open>The invariant\<close>

text \<open>The list shows the keys of the queries, the selection and the detail view are among them.\<close>

definition screen_ok :: "(string \<times> ProcessedQuery) list \<Rightarrow> ResultsState \<Rightarrow> bool" where
  "screen_ok qs S \<longleftrightarrow>
     shown_queries S = qs \<and> mset (sorted_query_fingerprints S) = mset (map fst qs) \<and>
     (selected_query_index S < length qs \<or> selected_query_index S = 0 \<and> qs = []) \<and>
     (case view_mode S of ListView \<Rightarrow> True | DetailView f _ \<Rightarrow> f \<in> fst ` set qs) \<and>
     in_order S"

lemma screen_fingerprints: "screen_ok qs S \<Longrightarrow> set (sorted_query_fingerprints S) = fst ` set qs"
  "screen_ok qs S \<Longrightarrow> length (sorted_query_fingerprints S) = length qs"
  unfolding screen_ok_def by (metis list.set_map mset_eq_setD, metis length_map mset_eq_length)

lemma map_of_key: "f \<in> fst ` set qs \<Longrightarrow> \<exists>q. map_of qs f = Some q \<and> (f, q) \<in> set qs"
  by (metis map_of_SomeD map_of_eq_None_iff not_Some_eq)

lemma sort_keeps:
  assumes "shown_queries S = qs" and m: "mset (sorted_query_fingerprints S) = mset (map fst qs)"
    and S': "sort_processed_queries S = Some S'"
  shows "mset (sorted_query_fingerprints S') = mset (map fst qs)"
    and "S' = S\<lparr>sorted_query_fingerprints := sorted_query_fingerprints S'\<rparr>" and "in_order S'"
proof -
  let ?q = "\<lambda>f. the (map_of qs f)" and ?fs = "sorted_query_fingerprints S"
  let ?c = "\<lambda>f g. compare_queries (sort_order S) (sort_ascending S) (?q f) (?q g)"
  let ?k = "\<lambda>f. shown_order (sort_order S) (sort_ascending S) (?q f)"
  have eq: "S' = S\<lparr>sorted_query_fingerprints := sort_by ?c ?fs\<rparr>"
    and c: "length ?fs \<le> 1 \<or> (\<forall>f \<in> set ?fs. \<not> sorts_nan (sort_order S) (?q f))"
    using S' by (auto simp: sort_processed_queries_def assms(1) list_all_iff Let_def split: if_splits)
  show "mset (sorted_query_fingerprints S') = mset (map fst qs)" by (simp add: eq mset_sort_by m)
  show "S' = S\<lparr>sorted_query_fingerprints := sorted_query_fingerprints S'\<rparr>" by (simp add: eq)
  have "sorted (map ?k (sort_by ?c ?fs))"
  proof (cases "length ?fs \<le> 1")
    case True
    then have "length (map ?k (sort_by ?c ?fs)) \<le> 1" using mset_eq_length [OF mset_sort_by [of ?c ?fs]] by simp
    then show ?thesis by (rule sorted01)
  next
    case False
    then have "sort_by ?c ?fs = sort_key ?k ?fs" using c by (intro sort_by_key) (simp add: compare_queries_order)
    then show ?thesis by simp
  qed
  then show "in_order S'" by (simp add: in_order_def eq assms(1))
qed

lemma sort_succeeds:
  assumes "shown_queries S = qs" and "mset (sorted_query_fingerprints S) = mset (map fst qs)"
    and "list_all (comparable \<circ> snd) qs"
  shows "sort_processed_queries S \<noteq> None"
proof -
  have k: "set (sorted_query_fingerprints S) = fst ` set qs" using assms(2) by (metis list.set_map mset_eq_setD)
  have "map_of qs f \<noteq> None \<and> \<not> sorts_nan (sort_order S) (the (map_of qs f))" if "f \<in> fst ` set qs" for f
    using map_of_key [OF that] assms(3) comparable_sorts by (fastforce simp: list_all_iff)
  then show ?thesis by (auto simp: sort_processed_queries_def assms(1) list_all_iff k Let_def)
qed

lemma ok_start:
  assumes "new_with_processed_queries qs = Some S"
  shows "screen_ok qs S"
proof -
  define I where "I = \<lparr>shown_queries = qs, sorted_query_fingerprints = map fst qs, selected_query_index = 0,
    sort_order = SortCount, sort_ascending = False, query_scroll = 0, plan_scroll = 0, plan_horizontal_scroll = 0,
    focused_pane = QueryList, notification = None, clipboard_held = False, view_mode = ListView\<rparr>"
  have "shown_queries I = qs" "mset (sorted_query_fingerprints I) = mset (map fst qs)" by (simp_all add: I_def)
  moreover have "sort_processed_queries I = Some S" using assms by (simp add: new_with_processed_queries_def I_def)
  ultimately have S: "mset (sorted_query_fingerprints S) = mset (map fst qs)"
    "S = I\<lparr>sorted_query_fingerprints := sorted_query_fingerprints S\<rparr>" "in_order S"
    by (rule sort_keeps)+
  have "shown_queries S = qs" "selected_query_index S = 0" "view_mode S = ListView"
    by (subst S(2), simp add: I_def)+
  then show ?thesis using S(1,3) by (cases qs) (auto simp: screen_ok_def)
qed

text \<open>What does not matter for the invariant.\<close>

lemma screen_frame [simp]:
  "screen_ok qs (S\<lparr>query_scroll := x\<rparr>) = screen_ok qs S" "screen_ok qs (S\<lparr>plan_scroll := x\<rparr>) = screen_ok qs S"
  "screen_ok qs (S\<lparr>plan_horizontal_scroll := x\<rparr>) = screen_ok qs S" "screen_ok qs (reset_scroll S) = screen_ok qs S"
  "screen_ok qs (S\<lparr>focused_pane := p\<rparr>) = screen_ok qs S" "screen_ok qs (S\<lparr>notification := n\<rparr>) = screen_ok qs S"
  "screen_ok qs (S\<lparr>clipboard_held := b\<rparr>) = screen_ok qs S"
  by (simp_all add: screen_ok_def in_order_def reset_scroll_def)

lemma screen_copy [simp]: "screen_ok qs (copy_with_feedback U t w S) = screen_ok qs S"
  by (simp add: copy_with_feedback_def copy_to_clipboard_def notify_def notify_error_def split: option.splits sum.splits)

lemma screen_notify [simp]:
  "screen_ok qs (notify U m S) = screen_ok qs S" "screen_ok qs (notify_error U m S) = screen_ok qs S"
  by (simp_all add: notify_def notify_error_def)

lemma selected_ok:
  assumes "screen_ok qs S" and "selected_fingerprint S = Some f"
  shows "f \<in> fst ` set qs"
  using assms(2) screen_fingerprints [OF assms(1)] by (auto simp: selected_fingerprint_def split: if_splits)

lemma detail_ok: "screen_ok qs S \<Longrightarrow> screen_ok qs (switch_to_detail_view U S)"
  using selected_ok [of qs S]
  by (auto simp: switch_to_detail_view_def screen_ok_def in_order_def split: option.split)

lemma list_ok: "screen_ok qs S \<Longrightarrow> screen_ok qs (switch_to_list_view S)"
  by (auto simp: switch_to_list_view_def screen_ok_def in_order_def)

lemma up_down_ok:
  assumes "screen_ok qs S"
  shows "screen_ok qs (press_up S)" and "screen_ok qs (press_down S)"
  using assms screen_fingerprints(2) [OF assms]
  by (auto simp: press_up_def press_down_def usize_dec_def screen_ok_def in_order_def reset_scroll_def split: FocusedPane.split)

text \<open>A key leads to a good screen; it panics at most in sorting by a NaN.\<close>

definition keeps_ok :: "(string \<times> ProcessedQuery) list \<Rightarrow> (StateChange \<times> ResultsState) option \<Rightarrow> bool" where
  "keeps_ok qs r \<longleftrightarrow>
     (case r of None \<Rightarrow> \<not> list_all (comparable \<circ> snd) qs | Some (_, S) \<Rightarrow> screen_ok qs S)"

lemma keeps_ok_Some [simp]: "keeps_ok qs (Some (c, S)) = screen_ok qs S"
  by (simp add: keeps_ok_def)

lemma order_ok:
  assumes "screen_ok qs S"
  shows "keeps_ok qs (map_option (Pair Keep) (choose_order s S))"
proof -
  let ?T = "if sort_order S = s then S\<lparr>sort_ascending := \<not> sort_ascending S\<rparr> else S\<lparr>sort_order := s, sort_ascending := False\<rparr>"
  have T: "shown_queries ?T = qs" "mset (sorted_query_fingerprints ?T) = mset (map fst qs)" "view_mode ?T = view_mode S"
    using assms by (simp_all add: screen_ok_def)
  show ?thesis
  proof (cases "sort_processed_queries ?T")
    case None
    then have "\<not> list_all (comparable \<circ> snd) qs" using sort_succeeds [OF T(1,2)] by blast
    then show ?thesis using None by (simp add: choose_order_def keeps_ok_def Let_def)
  next
    case (Some S')
    note S' = sort_keeps [OF T(1,2) Some]
    have f: "shown_queries S' = qs" "view_mode S' = view_mode S" by (subst S'(2), use T in simp)+
    have "screen_ok qs (S'\<lparr>selected_query_index := 0\<rparr>)"
      using assms f S'(1,3) by (cases qs) (auto simp: screen_ok_def in_order_def)
    then show ?thesis using Some by (simp add: choose_order_def Let_def)
  qed
qed

lemma plain_list_key_ok: "screen_ok qs S \<Longrightarrow> keeps_ok qs (plain_list_key U k S)"
  by (simp add: plain_list_key_def order_ok detail_ok up_down_ok split: FocusedPane.split)

lemma current_ok:
  assumes "screen_ok qs S"
  shows "get_current_sql S \<noteq> None" and "get_current_execution_plan S \<noteq> None"
proof -
  have "map_of (shown_queries S) f \<noteq> None" if "selected_fingerprint S = Some f" for f
    using selected_ok [OF assms that] assms by (auto simp: screen_ok_def map_of_eq_None_iff)
  then show "get_current_sql S \<noteq> None" and "get_current_execution_plan S \<noteq> None"
    by (auto simp: get_current_sql_def get_current_execution_plan_def split: option.splits)
qed

lemma list_key_ok: "screen_ok qs S \<Longrightarrow> keeps_ok qs (process_list_key U e S)"
  using current_ok [of qs S]
  by (auto simp: process_list_key_def plain_list_key_ok Let_def split: option.split sum.split)

lemma detail_key_ok: "screen_ok qs S \<Longrightarrow> view_mode S = DetailView f d \<Longrightarrow> screen_ok qs (S\<lparr>view_mode := DetailView f d'\<rparr>)"
  by (auto simp: screen_ok_def in_order_def)

lemma key_ok: "screen_ok qs S \<Longrightarrow> keeps_ok qs (process_key U e S)"
  by (auto simp: process_key_def list_key_ok list_ok detail_key_ok Let_def split: ViewMode.split option.split)

lemma session_ok: "session qs S \<Longrightarrow> screen_ok qs S"
proof (induction rule: session.induct)
  case (session_key S U e S')
  then show ?case using key_ok [of qs S U e] by (simp add: keeps_ok_def)
qed (rule ok_start)

section \<open>Navigation\<close>

fun presses :: "UiEnv \<Rightarrow> KeyCode list \<Rightarrow> ResultsState \<Rightarrow> ResultsState option" where
  "presses U [] S = Some S"
| "presses U (k # ks) S =
     (case process_key U \<lparr>key_code = k, key_control = False\<rparr> S of
        Some (Keep, S') \<Rightarrow> presses U ks S'
      | _ \<Rightarrow> None)"

lemma presses_append: "presses U (ks @ ls) S = Option.bind (presses U ks S) (presses U ls)"
  by (induction ks arbitrary: S) (auto split: option.split StateChange.split)

lemma leave_detail: "\<exists>S'. presses U [KeyEsc] S = Some S' \<and> view_mode S' = ListView \<and>
    sorted_query_fingerprints S' = sorted_query_fingerprints S \<and> focused_pane S' = focused_pane S \<and>
    selected_query_index S' = selected_query_index S"
  by (cases "view_mode S")
    (simp_all add: process_key_def process_list_key_def plain_list_key_def switch_to_list_view_def Let_def)

lemma tab_step: "view_mode S = ListView \<Longrightarrow> presses U [KeyTab] S = Some (S\<lparr>focused_pane := next_pane (focused_pane S)\<rparr>)"
  by (simp add: process_key_def process_list_key_def plain_list_key_def Let_def)

lemma focus_list:
  assumes "view_mode S = ListView"
  shows "\<exists>n \<le> 2. presses U (replicate n KeyTab) S = Some (S\<lparr>focused_pane := QueryList\<rparr>)"
proof (cases "focused_pane S")
  case QueryList
  then have "S\<lparr>focused_pane := QueryList\<rparr> = S" by (cases S) simp
  then show ?thesis by (intro exI [of _ 0]) simp
next
  case QueryDetails
  then show ?thesis using assms
    by (intro exI [of _ 2]) (simp add: numeral_2_eq_2 process_key_def process_list_key_def plain_list_key_def next_pane_def Let_def)
next
  case ExecutionPlan
  then show ?thesis using assms tab_step [of S U] by (intro exI [of _ 1]) (simp add: next_pane_def)
qed

lemma move_up:
  assumes "view_mode S = ListView" and "focused_pane S = QueryList" and "selected_query_index S = i + n"
  shows "\<exists>S'. presses U (replicate n KeyUp) S = Some S' \<and> view_mode S' = ListView \<and> focused_pane S' = QueryList \<and>
    selected_query_index S' = i \<and> sorted_query_fingerprints S' = sorted_query_fingerprints S"
  using assms
proof (induction n arbitrary: S)
  case (Suc n)
  let ?S = "press_up S"
  have "view_mode ?S = ListView" "focused_pane ?S = QueryList" "selected_query_index ?S = i + n"
    "sorted_query_fingerprints ?S = sorted_query_fingerprints S"
    using Suc.prems by (simp_all add: press_up_def usize_dec_def reset_scroll_def)
  with Suc.IH [of ?S] Suc.prems show ?case
    by (simp add: process_key_def process_list_key_def plain_list_key_def Let_def)
qed simp

lemma move_down:
  assumes "view_mode S = ListView" and "focused_pane S = QueryList"
    and "selected_query_index S + n < length (sorted_query_fingerprints S)"
  shows "\<exists>S'. presses U (replicate n KeyDown) S = Some S' \<and> view_mode S' = ListView \<and> focused_pane S' = QueryList \<and>
    selected_query_index S' = selected_query_index S + n \<and> sorted_query_fingerprints S' = sorted_query_fingerprints S"
  using assms
proof (induction n arbitrary: S)
  case (Suc n)
  let ?S = "press_down S"
  have "view_mode ?S = ListView" "focused_pane ?S = QueryList" "selected_query_index ?S = selected_query_index S + 1"
    "sorted_query_fingerprints ?S = sorted_query_fingerprints S"
    using Suc.prems by (simp_all add: press_down_def reset_scroll_def)
  with Suc.IH [of ?S] Suc.prems show ?case
    by (simp add: process_key_def process_list_key_def plain_list_key_def Let_def)
qed simp

lemma enter_selected:
  assumes "view_mode S = ListView" and "selected_query_index S < length (sorted_query_fingerprints S)"
  shows "\<exists>S' d. presses U [KeyEnter] S = Some S' \<and>
    view_mode S' = DetailView (sorted_query_fingerprints S ! selected_query_index S) d"
  using assms
  by (simp add: process_key_def process_list_key_def plain_list_key_def switch_to_detail_view_def
      selected_fingerprint_def Let_def)

lemma select_index:
  assumes "view_mode S = ListView" and "focused_pane S = QueryList" and "i < length (sorted_query_fingerprints S)"
    and "selected_query_index S < length (sorted_query_fingerprints S)"
  shows "\<exists>ks S'. presses U ks S = Some S' \<and> view_mode S' = ListView \<and> selected_query_index S' = i \<and>
    sorted_query_fingerprints S' = sorted_query_fingerprints S \<and> length ks < length (sorted_query_fingerprints S)"
proof (cases "i \<le> selected_query_index S")
  case True
  then have "selected_query_index S = i + (selected_query_index S - i)" by simp
  from move_up [OF assms(1,2) this, of U] show ?thesis using assms(4)
    by (intro exI [of _ "replicate (selected_query_index S - i) KeyUp"]) auto
next
  case False
  then have "selected_query_index S + (i - selected_query_index S) < length (sorted_query_fingerprints S)"
    using assms(3) by simp
  from move_down [OF assms(1,2) this, of U] show ?thesis using False assms(3)
    by (intro exI [of _ "replicate (i - selected_query_index S) KeyDown"]) auto
qed

lemma session_shown: "session qs S \<Longrightarrow> f \<in> fst ` set qs \<Longrightarrow>
    \<exists>i < length (sorted_query_fingerprints S). sorted_query_fingerprints S ! i = f"
  using screen_fingerprints(1) [OF session_ok [of qs S]] by (simp add: in_set_conv_nth [symmetric])

section \<open>Properties\<close>

text \<open>C28: the results screen is safe, in a release build and apart from the drawing: after any keys, whatever the
  clipboard and the file system answer, the list shows every query once, in the chosen order and direction, ties by
  the normalised text; the selection is in it; a detail view shows a query that exists; and the next key is handled
  without a panic, when no statistic to sort by is NaN.\<close>

theorem results_screen_safe:
  assumes "session qs S"
  shows "(list_all (comparable \<circ> snd) qs \<longrightarrow> process_key U e S \<noteq> None) \<and>
    mset (sorted_query_fingerprints S) = mset (map fst qs) \<and>
    sorted (map (\<lambda>f. shown_order (sort_order S) (sort_ascending S) (the (map_of qs f))) (sorted_query_fingerprints S)) \<and>
    (if qs = [] then selected_fingerprint S = None
     else \<exists>f q. selected_fingerprint S = Some f \<and> map_of qs f = Some q \<and>
       get_current_sql S = Some (Some (formatted_query (representative_plan q)))) \<and>
    (case view_mode S of ListView \<Rightarrow> True | DetailView f _ \<Rightarrow> f \<in> fst ` set qs)"
proof -
  have ok: "screen_ok qs S" using assms by (rule session_ok)
  have "list_all (comparable \<circ> snd) qs \<longrightarrow> process_key U e S \<noteq> None"
    using key_ok [OF ok, of U e] by (cases "process_key U e S") (simp_all add: keeps_ok_def)
  moreover have "if qs = [] then selected_fingerprint S = None
     else \<exists>f q. selected_fingerprint S = Some f \<and> map_of qs f = Some q \<and>
       get_current_sql S = Some (Some (formatted_query (representative_plan q)))"
  proof (cases "selected_fingerprint S")
    case None
    then show ?thesis using ok screen_fingerprints(2) [OF ok]
      by (auto simp: screen_ok_def selected_fingerprint_def split: if_splits)
  next
    case (Some f)
    from map_of_key [OF selected_ok [OF ok Some]] obtain q where "map_of qs f = Some q" by blast
    then show ?thesis using Some ok by (auto simp: get_current_sql_def screen_ok_def)
  qed
  ultimately show ?thesis using ok by (auto simp: screen_ok_def in_order_def)
qed

text \<open>C29: every query can be opened from wherever the session is, with at most three keys more than there are
  queries.\<close>

theorem every_query_opens:
  assumes "session qs S" and "f \<in> fst ` set qs"
  shows "\<exists>ks S' d. presses U ks S = Some S' \<and> view_mode S' = DetailView f d \<and> length ks \<le> length qs + 3"
proof -
  note ok = session_ok [OF assms(1)]
  from session_shown [OF assms] obtain i where i: "i < length (sorted_query_fingerprints S)" "sorted_query_fingerprints S ! i = f" by blast
  obtain S1 where S1: "presses U [KeyEsc] S = Some S1" "view_mode S1 = ListView"
    "sorted_query_fingerprints S1 = sorted_query_fingerprints S" "selected_query_index S1 = selected_query_index S"
    using leave_detail by blast
  obtain n where n: "n \<le> 2" "presses U (replicate n KeyTab) S1 = Some (S1\<lparr>focused_pane := QueryList\<rparr>)"
    using focus_list [OF S1(2)] by blast
  have "selected_query_index S < length (sorted_query_fingerprints S)"
    using ok i(1) screen_fingerprints(2) [OF ok] by (auto simp: screen_ok_def)
  then obtain ks S2 where S2: "presses U ks (S1\<lparr>focused_pane := QueryList\<rparr>) = Some S2" "view_mode S2 = ListView"
    "selected_query_index S2 = i" "sorted_query_fingerprints S2 = sorted_query_fingerprints S"
    "length ks < length (sorted_query_fingerprints S)"
    using select_index [of "S1\<lparr>focused_pane := QueryList\<rparr>" i U] S1 i(1) by auto
  obtain S3 d where S3: "presses U [KeyEnter] S2 = Some S3" "view_mode S3 = DetailView f d"
    using enter_selected [OF S2(2), of U] S2(3,4) i by auto
  have "presses U ([KeyEsc] @ replicate n KeyTab @ ks @ [KeyEnter]) S = Some S3"
    by (simp only: presses_append S1(1) n(2) S2(1) S3(1) Option.bind.simps)
  moreover have "length ([KeyEsc] @ replicate n KeyTab @ ks @ [KeyEnter]) \<le> length qs + 3"
    using n(1) S2(5) screen_fingerprints(2) [OF ok] by simp
  ultimately show ?thesis using S3(2) by blast
qed

definition sample_shown :: "(string \<times> ProcessedQuery) list" where
  "sample_shown = [(''k'', sample_exported None ''b''), (''l'', sample_exported (Some ''d'') ''a'')]"

lemma sample_session: "\<exists>S. session sample_shown S"
proof -
  have "\<exists>S. new_with_processed_queries sample_shown = Some S"
    by (simp add: new_with_processed_queries_def sort_processed_queries_def sorts_nan_def sample_shown_def Let_def)
  then show ?thesis using session_start by blast
qed

lemma sample_comparable: "list_all (comparable \<circ> snd) sample_shown"
proof -
  have "\<not> is_nan f_zero" by code_simp
  then show ?thesis by (simp add: sample_shown_def comparable_def sample_exported_def)
qed

theorem results_screen_safe_witness:
  "\<exists>S. session sample_shown S \<and> (\<forall>U e. process_key U e S \<noteq> None) \<and>
    mset (sorted_query_fingerprints S) = {#''k'', ''l''#} \<and> selected_fingerprint S \<noteq> None \<and>
    sorted (map (\<lambda>f. shown_order (sort_order S) (sort_ascending S) (the (map_of sample_shown f))) (sorted_query_fingerprints S))"
proof -
  obtain S where S: "session sample_shown S" using sample_session by blast
  note safe = results_screen_safe [OF S]
  have "\<forall>U e. process_key U e S \<noteq> None" using safe sample_comparable by blast
  moreover have "mset (sorted_query_fingerprints S) = {#''k'', ''l''#}" using safe by (simp add: sample_shown_def)
  moreover have "selected_fingerprint S \<noteq> None" using safe by (auto simp: sample_shown_def)
  moreover have "sorted (map (\<lambda>f. shown_order (sort_order S) (sort_ascending S) (the (map_of sample_shown f)))
      (sorted_query_fingerprints S))" using safe by blast
  ultimately show ?thesis using S by blast
qed

theorem every_query_opens_witness:
  "\<exists>S. session sample_shown S \<and>
    (\<forall>U. \<exists>ks S' d. presses U ks S = Some S' \<and> view_mode S' = DetailView ''k'' d \<and> length ks \<le> 5)"
proof -
  obtain S where S: "session sample_shown S" using sample_session by blast
  have "\<exists>ks S' d. presses U ks S = Some S' \<and> view_mode S' = DetailView ''k'' d \<and> length ks \<le> 5" for U
    using every_query_opens [OF S, of "''k''" U] by (simp add: sample_shown_def)
  then show ?thesis using S by blast
qed

end
