(* ===== verification/Spec2Isabelle.thy ===== *)
theory Spec2Isabelle
  imports Timestamp_Language Cost_Tuple Tree_Parser Worker Collector_Faults Analysis_Engine Exporter_Daemon Buffer_Facts Analyzer_Strictness Regression_Facts Results_Facts
begin

text \<open>
  A model of pg-plansight, a workspace of Rust crates that turns the plans PostgreSQL's
  \<open>auto_explain\<close> writes to its log into statistics and findings. Paths are relative to \<open>src/crates/\<close>.

  \<^bold>\<open>The program.\<close> The library \<open>core\<close> reads a log, cuts it into entries, parses the plan of
  each (text or JSON), groups executions of the same normalised query and analyses the plans. Two long-running
  programs are built on it. The \<open>exporter\<close> follows log files, checkpoints how far it has read in
  SQLite and publishes metrics. The PostgreSQL extension \<open>pg_extension\<close> captures plans in an
  executor hook into a shared-memory ring, or tails the log, and a background worker folds both into
  tables. The correctness that matters most lies across these parts: every logged plan is counted
  exactly once, through growing logs, crashes, failures and configuration reloads.

  \<^bold>\<open>Theories, from the ground up.\<close>

  \<^item> \<open>Prelude\<close>, \<open>Rust_Str\<close>, \<open>Numerics\<close>, \<open>Float_Bounds\<close>: what the code uses of Rust's standard
  library. Integers of fixed width are words where overflow matters and integers or naturals with the bound written
  out where it does not; text is its UTF-8 bytes; \<open>f64\<close> is its IEEE-754 bit pattern with exact
  rounding, so that NaN, infinities and signed zeros behave as in the code.
  \<^item> \<open>Simd_Scan\<close>, \<open>Timestamp_Language\<close>, \<open>Cost_Tuple\<close> (\<open>core/src/simd_scan.rs\<close>): the vector kernels
  against the locale \<open>simd_lanes\<close>; each agrees with its scalar counterpart, and the timestamp scanner
  returns the longest prefix of an explicit language.
  \<^item> \<open>Log_Line\<close> (\<open>parser_utils.rs\<close>), \<open>Log_Prefix\<close> (\<open>log_line_prefix.rs\<close>): single log lines.
  \<^item> \<open>Plan_Properties\<close> (\<open>plan_properties.rs\<close>), \<open>Plan_Tree\<close>, \<open>Plan_Parser\<close>, \<open>Tree_Parser\<close>
  (\<open>plan_parser.rs\<close>): typed properties, the plan tree with its queries, the classification of lines,
  and the recursive parser. The nodes of a parsed plan are, in pre-order, the node lines consumed.
  \<^item> \<open>Log_State\<close> (\<open>parsing/\<close>, \<open>models.rs\<close>): the builders and the state machine that advances line
  by line; \<open>Read_Loop\<close>, \<open>Chunks\<close>, \<open>Log_Files\<close> (\<open>log_parser.rs\<close>): the streaming loop over an
  untrusted reader, against the locale \<open>plan_sink\<close> of what receives the plans.
  \<^item> \<open>Statistics\<close> (\<open>parser_utils.rs\<close>, \<open>latency.rs\<close>), \<open>Lru\<close>, \<open>Grouping\<close> (\<open>grouping.rs\<close>): numbers
  over groups of executions, the fingerprint cache, and grouping, which gives a result that does not depend on
  batching, on the cache or on how the parallel reduction brackets the files.
  \<^item> \<open>Analysis_Report\<close>, \<open>Plan_Traversal\<close>, \<open>Analysis_Engine\<close> (\<open>analysis/mod.rs\<close>,
  \<open>traversal.rs\<close>, \<open>engine.rs\<close>): findings and reports, the iterative walks over a plan against
  recursive ones, and running analyzers of which each may fail or panic.
  \<^item> \<open>Analysis_Config\<close> (\<open>analysis/consolidated_config.rs\<close>), \<open>Float_Order\<close>, \<open>Threshold_Facts\<close>: the
  thresholds derived from a workload, which rise strictly from level to level because rounding keeps the order of
  exact values far enough apart.
  \<^item> \<open>Analyzer_Base\<close>, \<open>Analyzers_Shape\<close>, \<open>Analyzers_Runtime\<close>, \<open>Analyzers_Access\<close>, \<open>Analyzers\<close>
  (\<open>analysis/analyzers/\<close>): the thirteen analyzers. Each is a visitor (state record, step on a node, findings
  made at the node) folded over the walk of \<open>Plan_Traversal\<close>; the locale \<open>node_visitor\<close> is their common
  contract, interpreted for every visitor that makes its findings on the way. \<open>Analyzer_Measures\<close>,
  \<open>Analyzer_Strictness\<close>, \<open>Buffer_Facts\<close>: the metrics are those of the tree, findings lead to nodes
  of the plan, stricter thresholds report more, and I/O counters are read back and attributed once.
  \<^item> \<open>Sql_Config\<close>, \<open>Stats_Calculator\<close>, \<open>Regression\<close>, \<open>Regression_Engine\<close> (\<open>sql_analysis/statistics.rs\<close>,
  \<open>regression.rs\<close>), \<open>Float_Sign\<close>, \<open>Regression_Facts\<close>: the regression analysis of a query over time.
  On finite durations it never panics, answers exactly from three executions on, and its verdict agrees with the regressions it lists
  and does not depend on the order of reading.
  \<^item> \<open>Export\<close>, \<open>Export_Facts\<close> (\<open>export.rs\<close>): the export file, its redaction and its import. Order of
  iteration does not matter where the groups differ in total, statement or database, a redacted file has no text but
  placeholders, and the groups that a log gave read back, up to what the JSON library does to a number.
  \<^item> \<open>Results_State\<close>, \<open>Results_Facts\<close> (\<open>tui/src/ui/state/results_state.rs\<close>): the keys of the results
  screen as a state machine, which does not panic when no statistic is NaN and from which every query can be opened.
  \<^item> \<open>Tail\<close>, \<open>Cuts\<close>: the boundary scans of the two programs that follow a log, and the contract a
  reader of a growing log relies on (the locale \<open>tailer\<close>, interpreted on both scans).
  \<^item> \<open>State_Store\<close>, \<open>State_Migration\<close> (\<open>exporter/src/state.rs\<close>): the exporter's tables as maps, each SQL
  statement as its effect or its error, and the creation and the upgrade of the file of any release with a crash
  between any two statements.
  \<^item> \<open>Exporter_Config\<close> (\<open>config.rs\<close>, \<open>config_watcher.rs\<close>, \<open>core/src/checks.rs\<close>), \<open>Collector\<close>,
  \<open>Collector_Runs\<close>, \<open>Collector_Faults\<close> (\<open>collector.rs\<close>), \<open>Exporter_Daemon\<close> (\<open>scheduler.rs\<close>,
  \<open>server.rs\<close>): the exporter. One cycle over one file is \<open>process_log_file\<close>; runs of cycles and of the
  scheduler are inductive relations whose steps are the code's operations.
  \<^item> \<open>Ring\<close> (\<open>pg_extension/src/ring.rs\<close>), \<open>Aggregate\<close> (\<open>aggregate.rs\<close>, \<open>core/src/capture.rs\<close>),
  \<open>Statements\<close> (\<open>lib.rs\<close>, \<open>sql/schema.sql\<close>), \<open>Worker\<close> (\<open>bgworker.rs\<close>): the extension. The ring
  meets the contract \<open>bounded_queue\<close>; a tick of the worker is a transaction that commits or aborts.

  \<^bold>\<open>How code is modelled.\<close> A struct is a record and an enum a datatype with the names of the code; a
  method that mutates returns the updated record; \<open>Result\<close> is a sum with the error on the left; a
  panic is the value \<open>None\<close> or \<open>Panicked\<close> of an outcome. A lock that covers a whole operation makes that
  operation one step, so concurrency is the order of steps. A loop is structural recursion or a
  \<open>function\<close> with its measure; no model uses fuel. A \<open>HashMap\<close> is a map where its order does not matter
  and an association list where the code iterates over it.

  \<^bold>\<open>Parameters.\<close> Code outside the repository enters as a record of functions: the vector
  instructions (\<open>Simd\<close>), compiled regular expressions (\<open>Patterns\<close>, \<open>RegexLib\<close>), JSON
  (\<open>JsonLib\<close>), SQL parsing and printing and the calendar (\<open>Env\<close>), hashing (\<open>Normalizer\<close>), the
  file system and the decompressors (\<open>FileSystem\<close>), the printer of times (\<open>Rfc3339\<close>) and what PostgreSQL
  supplies (\<open>PgServer\<close>). Hypotheses about them state documented behaviour (a printed time reads back,
  a reader returns at most what it was asked for) and are met by the witnesses on concrete instances.

  \<^bold>\<open>What the lemmas show.\<close> Three layers. Each component has its functional behaviour on all
  branches and its invariant (typed parser states, the ring's counters, rows whose buckets add up to
  their calls). Optimised or incremental code equals its reference: vector and scalar scanners,
  iterative and recursive walks, streamed and batched grouping, a log read in pieces and as a whole.
  The programs keep their promises over all runs: the exporter and the worker count
  every plan exactly once and move on when they can, and the cases where they do not are stated as
  theorems too (a full window that stalls the worker, a rotated file that is retried for ever, a zero
  poll interval that stops the daemon).

  \<^bold>\<open>Bounds.\<close> Byte counts of one run are integers below \<open>2 ^ 63\<close>; the caps of the code
  (\<open>MAX_PLAN_DEPTH\<close>, \<open>max_line_bytes\<close>, \<open>MAX_ENTRY_BYTES\<close>, \<open>MAX_READ_BYTES\<close>, the read
  budget and its doubling) are modelled as they are.

  \<^bold>\<open>Not modelled.\<close> The analyses of SQL text
  (the other files of \<open>core/src/sql_analysis\<close>), which are queries over the syntax trees of the third-party parsers
  pg_query and sqlparser. The drawing of the terminal interface and its progress screen. The metrics
  backends, the HTTP server and the database client of the exporter, and the extension's hooks,
  views and settings: calls into libraries or into PostgreSQL with little logic of their own. Log
  messages and progress reports are left out throughout.
\<close>

end
